(* ===== verification/Prelude.thy ===== *)
theory Prelude
  imports Complex_Main "HOL-Library.Word" "HOL-Library.List_Lexorder"
    "HOL-Library.Char_ord" "HOL-Library.Product_Lexorder"
begin

text \<open>
  Shared vocabulary of the development: identifiers, timestamps, faults, the relational tables the
  services read and write, and the fragments of the Python library they use (ordered dictionaries,
  grouping, stable sorting, medians).  Component theories extend the collections declared here.
\<close>

named_theorems table_simps \<open>lookup and frame equations of table updates\<close>
named_theorems frame_simps \<open>which parts of the database an operation leaves alone\<close>
named_theorems wf_intros \<open>preservation of well-formedness, one rule per operation\<close>

subsection \<open>Identifiers, timestamps and faults\<close>

text \<open>
  A \<open>uuid.UUID\<close> is its 128-bit integer; comparing two of them by \<open>str\<close> (fixed-width lowercase
  hexadecimal) is comparing the integers.  A \<open>datetime\<close> in UTC is its number of microseconds, the
  resolution of both Python and PostgreSQL.
\<close>

type_synonym uuid = "128 word"
type_synonym timestamp = int

definition seconds :: "int \<Rightarrow> timestamp" where
  "seconds n = n * 1000000"

lemma seconds_mono [simp]: "seconds a \<le> seconds b \<longleftrightarrow> a \<le> b"
  by (simp add: seconds_def)

lemma seconds_strict_mono [simp]: "seconds a < seconds b \<longleftrightarrow> a < b"
  by (simp add: seconds_def)

lemma seconds_nonneg [simp]: "0 \<le> seconds a \<longleftrightarrow> 0 \<le> a"
  by (simp add: seconds_def zero_le_mult_iff)

text \<open>
  Every exception that reaches a transaction boundary: an \<open>ApiError\<close> by its HTTP status and
  machine-readable code, or a library exception by its kind and message.
\<close>

datatype fault =
    ApiError int string
  | ValueError string
  | RuntimeFault string
  | IntegrityError string

type_synonym 'a outcome = "fault + 'a"

definition and_then :: "'a outcome \<Rightarrow> ('a \<Rightarrow> 'b outcome) \<Rightarrow> 'b outcome" where
  "and_then r k = (case r of Inl e \<Rightarrow> Inl e | Inr a \<Rightarrow> k a)"

lemma and_then_simps [simp]:
  "and_then (Inl e) k = Inl e" "and_then (Inr a) k = k a"
  by (simp_all add: and_then_def)

lemma and_then_Inr_iff: "and_then r k = Inr b \<longleftrightarrow> (\<exists>a. r = Inr a \<and> k a = Inr b)"
  by (cases r) auto

lemma and_then_Inl_iff:
  "and_then r k = Inl e \<longleftrightarrow> r = Inl e \<or> (\<exists>a. r = Inr a \<and> k a = Inl e)"
  by (cases r) auto

text \<open>A check that raises unless its condition holds.\<close>

definition ensure :: "bool \<Rightarrow> fault \<Rightarrow> unit outcome" where
  "ensure b e = (if b then Inr () else Inl e)"

lemma ensure_Inr_iff [simp]: "ensure b e = Inr u \<longleftrightarrow> b"
  by (simp add: ensure_def)

lemma ensure_Inl_iff [simp]: "ensure b e = Inl e' \<longleftrightarrow> \<not> b \<and> e' = e"
  by (auto simp: ensure_def)

fun is_ok :: "'a outcome \<Rightarrow> bool" where
  "is_ok (Inl _) = False"
| "is_ok (Inr _) = True"

text \<open>A loop whose body may raise, collecting the results.\<close>

fun map_outcome :: "('a \<Rightarrow> 'b outcome) \<Rightarrow> 'a list \<Rightarrow> 'b list outcome" where
  "map_outcome f [] = Inr []"
| "map_outcome f (x # xs) = and_then (f x) (\<lambda>y. and_then (map_outcome f xs) (\<lambda>ys. Inr (y # ys)))"

lemma map_outcome_InrD:
  "map_outcome f xs = Inr ys \<Longrightarrow> list_all2 (\<lambda>x y. f x = Inr y) xs ys"
  by (induction xs arbitrary: ys) (auto simp: and_then_Inr_iff)

lemma map_outcome_in: "map_outcome f xs = Inr ys \<Longrightarrow> y \<in> set ys \<Longrightarrow> \<exists>x \<in> set xs. f x = Inr y"
  by (induction xs arbitrary: ys) (auto simp: and_then_Inr_iff)

lemma map_outcome_map:
  assumes "map_outcome f xs = Inr ys" "\<And>x y. f x = Inr y \<Longrightarrow> g y = h x"
  shows "map g ys = map h xs"
  using assms(1) by (induction xs arbitrary: ys) (auto simp: and_then_Inr_iff assms(2))

subsection \<open>Optional values\<close>

text \<open>\<open>max((v for v in (a, b) if v is not None), default=None)\<close>.\<close>

fun max_opt :: "'a::linorder option \<Rightarrow> 'a option \<Rightarrow> 'a option" where
  "max_opt None y = y"
| "max_opt x None = x"
| "max_opt (Some a) (Some b) = Some (max a b)"

fun below_opt :: "'a::linorder \<Rightarrow> 'a option \<Rightarrow> bool" where
  "below_opt a None = False"
| "below_opt a (Some b) = (a < b)"

lemma max_opt_None_iff [simp]: "max_opt x y = None \<longleftrightarrow> x = None \<and> y = None"
  by (cases x; cases y) auto

lemma below_max_opt [simp]: "below_opt a (max_opt x y) \<longleftrightarrow> below_opt a x \<or> below_opt a y"
  by (cases x; cases y) (auto simp: less_max_iff_disj)

subsection \<open>Tables\<close>

text \<open>
  A table is the list of its rows.  \<open>select_one\<close> is a query for a row by a predicate that a key
  determines, \<open>update_where\<close> an \<open>UPDATE ... WHERE\<close>, and the code's attribute assignments on a loaded
  row are an \<open>update_where\<close> on that row's key.
\<close>

definition select_one :: "('r \<Rightarrow> bool) \<Rightarrow> 'r list \<Rightarrow> 'r option" where
  "select_one P rows = find P rows"

definition update_where :: "('r \<Rightarrow> bool) \<Rightarrow> ('r \<Rightarrow> 'r) \<Rightarrow> 'r list \<Rightarrow> 'r list" where
  "update_where P f rows = map (\<lambda>r. if P r then f r else r) rows"

lemma select_one_Nil [simp]: "select_one P [] = None"
  by (simp add: select_one_def)

lemma select_one_Cons [simp]:
  "select_one P (r # rows) = (if P r then Some r else select_one P rows)"
  by (simp add: select_one_def)

lemma update_where_Nil [simp]: "update_where P f [] = []"
  by (simp add: update_where_def)

lemma update_where_Cons [simp]:
  "update_where P f (r # rows) = (if P r then f r else r) # update_where P f rows"
  by (simp add: update_where_def)

lemma length_update_where [simp]: "length (update_where P f rows) = length rows"
  by (simp add: update_where_def)

lemma update_where_append [simp]:
  "update_where P f (xs @ ys) = update_where P f xs @ update_where P f ys"
  by (simp add: update_where_def)

lemma set_update_where:
  "set (update_where P f rows) = (\<lambda>r. if P r then f r else r) ` set rows"
  by (simp add: update_where_def)

lemma in_update_where_iff:
  "r' \<in> set (update_where P f rows) \<longleftrightarrow>
     (\<exists>r \<in> set rows. (P r \<and> r' = f r) \<or> (\<not> P r \<and> r' = r))"
  by (auto simp: set_update_where)

lemma select_one_SomeD: "select_one P rows = Some r \<Longrightarrow> r \<in> set rows \<and> P r"
  by (induction rows) (auto split: if_splits)

lemma select_one_None_iff: "select_one P rows = None \<longleftrightarrow> (\<forall>r \<in> set rows. \<not> P r)"
  by (induction rows) auto

lemma select_one_append:
  "select_one P (xs @ ys) = (case select_one P xs of None \<Rightarrow> select_one P ys | Some r \<Rightarrow> Some r)"
  by (induction xs) auto

lemma select_one_cong:
  "(\<And>r. r \<in> set rows \<Longrightarrow> P r = Q r) \<Longrightarrow> select_one P rows = select_one Q rows"
  by (induction rows) auto

lemma update_where_id: "(\<And>r. r \<in> set rows \<Longrightarrow> P r \<Longrightarrow> f r = r) \<Longrightarrow> update_where P f rows = rows"
  by (induction rows) auto

lemma map_update_where:
  "(\<And>r. r \<in> set rows \<Longrightarrow> P r \<Longrightarrow> g (f r) = g r) \<Longrightarrow> map g (update_where P f rows) = map g rows"
  by (induction rows) auto

lemma filter_update_where:
  "(\<And>r. r \<in> set rows \<Longrightarrow> P r \<Longrightarrow> \<not> Q r \<and> \<not> Q (f r)) \<Longrightarrow>
     filter Q (update_where P f rows) = filter Q rows"
  by (induction rows) auto

lemma select_update_where_other:
  "(\<And>r. r \<in> set rows \<Longrightarrow> P r \<Longrightarrow> \<not> Q r \<and> \<not> Q (f r)) \<Longrightarrow>
     select_one Q (update_where P f rows) = select_one Q rows"
  by (induction rows) auto

lemma select_update_where_same:
  "(\<And>r. r \<in> set rows \<Longrightarrow> P r \<Longrightarrow> Q (f r) = Q r) \<Longrightarrow>
     select_one Q (update_where P f rows) =
       map_option (\<lambda>r. if P r then f r else r) (select_one Q rows)"
  by (induction rows) auto

subsection \<open>Primary keys\<close>

text \<open>
  The interface of a table with a primary key: what a lookup returns after a row was stored.  The
  lemmas about several writes are proved once from the laws; the interpretation below gives them to
  every table of the model, whose rows are kept in a list.
\<close>

locale keyed_store =
  fixes key :: "'r \<Rightarrow> 'k" and get :: "'k \<Rightarrow> 't \<Rightarrow> 'r option" and put :: "'r \<Rightarrow> 't \<Rightarrow> 't"
  assumes get_put_same: "get (key r) (put r t) = Some r"
    and get_put_other: "k \<noteq> key r \<Longrightarrow> get k (put r t) = get k t"
begin

lemma get_put: "get k (put r t) = (if k = key r then Some r else get k t)"
  by (simp add: get_put_same get_put_other)

lemma put_overwrites: "key r = key r' \<Longrightarrow> get k (put r (put r' t)) = get k (put r t)"
  by (simp add: get_put)

lemma puts_commute:
  "key r \<noteq> key r' \<Longrightarrow> get k (put r (put r' t)) = get k (put r' (put r t))"
  by (simp add: get_put)

lemma get_fold_put_other:
  "k \<notin> key ` set rs \<Longrightarrow> get k (fold put rs t) = get k t"
  by (induction rs arbitrary: t) (simp_all add: get_put)

lemma get_fold_put:
  "distinct (map key rs) \<Longrightarrow> r \<in> set rs \<Longrightarrow> get (key r) (fold put rs t) = Some r"
proof (induction rs arbitrary: t)
  case (Cons r' rs)
  show ?case
  proof (cases "r = r'")
    case True
    then show ?thesis using Cons.prems by (simp add: get_fold_put_other get_put)
  qed (use Cons in auto)
qed simp

end

definition get_by :: "('r \<Rightarrow> 'k) \<Rightarrow> 'k \<Rightarrow> 'r list \<Rightarrow> 'r option" where
  "get_by key k rows = select_one (\<lambda>r. key r = k) rows"

fun put_by :: "('r \<Rightarrow> 'k) \<Rightarrow> 'r \<Rightarrow> 'r list \<Rightarrow> 'r list" where
  "put_by key r [] = [r]"
| "put_by key r (r' # rows) = (if key r' = key r then r # rows else r' # put_by key r rows)"

lemma get_by_Nil [simp]: "get_by key k [] = None"
  by (simp add: get_by_def)

lemma get_by_Cons [simp]:
  "get_by key k (r # rows) = (if key r = k then Some r else get_by key k rows)"
  by (simp add: get_by_def)

interpretation table: keyed_store key "get_by key" "put_by key"
proof unfold_locales
  fix r and t :: "'a list" and k
  show "get_by key (key r) (put_by key r t) = Some r"
    by (induction t) auto
  show "k \<noteq> key r \<Longrightarrow> get_by key k (put_by key r t) = get_by key k t"
    by (induction t) auto
qed

lemmas get_by_put_by [table_simps] = table.get_put

lemma get_by_SomeD: "get_by key k rows = Some r \<Longrightarrow> r \<in> set rows \<and> key r = k"
  using select_one_SomeD unfolding get_by_def by fastforce

lemma get_by_None_iff: "get_by key k rows = None \<longleftrightarrow> k \<notin> key ` set rows"
  by (auto simp: get_by_def select_one_None_iff)

lemma get_by_append_new:
  "key r \<notin> key ` set rows \<Longrightarrow>
     get_by key k (rows @ [r]) = (if k = key r then Some r else get_by key k rows)"
  by (induction rows) auto

lemma get_by_filter:
  "(\<And>r. r \<in> set rows \<Longrightarrow> key r = k \<Longrightarrow> P r) \<Longrightarrow> get_by key k (filter P rows) = get_by key k rows"
  by (induction rows) auto

lemma get_by_eq_Some_iff:
  "distinct (map key rows) \<Longrightarrow> get_by key k rows = Some r \<longleftrightarrow> r \<in> set rows \<and> key r = k"
  by (induction rows) (auto simp: image_iff)

lemma keys_put_by: "key ` set (put_by key r rows) = insert (key r) (key ` set rows)"
  by (induction rows) (auto split: if_splits)

lemma distinct_put_by: "distinct (map key rows) \<Longrightarrow> distinct (map key (put_by key r rows))"
proof (induction rows)
  case (Cons r' rows)
  then show ?case using keys_put_by [of key r rows] by (auto simp: image_iff)
qed simp

lemma put_by_present:
  "key r \<in> key ` set rows \<Longrightarrow> distinct (map key rows) \<Longrightarrow>
     put_by key r rows = update_where (\<lambda>r'. key r' = key r) (\<lambda>_. r) rows"
proof (induction rows)
  case (Cons r' rows)
  show ?case
  proof (cases "key r' = key r")
    case True
    then have "update_where (\<lambda>r'. key r' = key r) (\<lambda>_. r) rows = rows"
      using Cons.prems by (intro update_where_id) (auto simp: image_iff)
    then show ?thesis using True by simp
  qed (use Cons in auto)
qed simp

lemma put_by_absent: "key r \<notin> key ` set rows \<Longrightarrow> put_by key r rows = rows @ [r]"
  by (induction rows) auto

lemma set_put_by: "set (put_by key r rows) \<subseteq> insert r (set rows)"
  by (induction rows) auto

lemma in_put_by: "r \<in> set (put_by key r rows)"
  by (induction rows) auto

lemma in_put_by_iff:
  "distinct (map key rows) \<Longrightarrow>
     r' \<in> set (put_by key r rows) \<longleftrightarrow> r' = r \<or> (r' \<in> set rows \<and> key r' \<noteq> key r)"
  by (induction rows) (auto simp: image_iff)

subsection \<open>Ordering rows\<close>

text \<open>
  \<open>ORDER BY key DESC LIMIT 1\<close> and \<open>max(rows, key=...)\<close>: the first row whose key is maximal.
  \<open>sorted(..., key=..., reverse=True)\<close> is stable, so equal keys keep their original order.
\<close>

fun best_by :: "('r \<Rightarrow> 'k::linorder) \<Rightarrow> 'r list \<Rightarrow> 'r option" where
  "best_by k [] = None"
| "best_by k (r # rows) =
     (case best_by k rows of
        None \<Rightarrow> Some r
      | Some r' \<Rightarrow> if k r < k r' then Some r' else Some r)"

lemma best_by_None_iff [simp]: "best_by k rows = None \<longleftrightarrow> rows = []"
  by (cases rows) (auto split: option.splits)

lemma best_by_SomeD: "best_by k rows = Some r \<Longrightarrow> r \<in> set rows \<and> (\<forall>r' \<in> set rows. k r' \<le> k r)"
  by (induction rows arbitrary: r) (force split: option.splits if_splits)+

lemma best_by_in: "best_by k rows = Some r \<Longrightarrow> r \<in> set rows"
  by (simp add: best_by_SomeD)

lemma best_by_unique:
  assumes "r \<in> set rows" "\<And>r'. r' \<in> set rows \<Longrightarrow> r' \<noteq> r \<Longrightarrow> k r' < k r"
  shows "best_by k rows = Some r"
proof -
  have "rows \<noteq> []" using assms(1) by auto
  then obtain r' where r': "best_by k rows = Some r'" by (cases "best_by k rows") auto
  then have "r' \<in> set rows" "k r \<le> k r'"
    using assms(1) best_by_SomeD [OF r'] by simp_all
  then have "r' = r" using assms(2) by force
  with r' show ?thesis by simp
qed

definition sort_desc :: "('r \<Rightarrow> 'k::linorder) \<Rightarrow> 'r list \<Rightarrow> 'r list" where
  "sort_desc k rows = rev (sort_key k (rev rows))"

lemma set_sort_desc [simp]: "set (sort_desc k rows) = set rows"
  by (simp add: sort_desc_def)

lemma length_sort_desc [simp]: "length (sort_desc k rows) = length rows"
  by (simp add: sort_desc_def)

lemma sort_desc_Nil_iff [simp]: "sort_desc k rows = [] \<longleftrightarrow> rows = []"
  by (metis length_0_conv length_sort_desc)

lemma distinct_sort_desc [simp]: "distinct (sort_desc k rows) \<longleftrightarrow> distinct rows"
  by (simp add: sort_desc_def)

lemma sorted_sort_desc: "sorted_wrt (\<lambda>a b. k b \<le> k a) (sort_desc k rows)"
proof -
  have "sorted_wrt (\<lambda>a b. k a \<le> k b) (sort_key k (rev rows))"
    using sorted_sort_key [of k "rev rows"] by (simp add: sorted_wrt_map)
  then show ?thesis by (simp add: sort_desc_def sorted_wrt_rev)
qed

lemma sort_desc_ConsD:
  assumes "sort_desc k rows = r # rest"
  shows "r \<in> set rows" "set rest \<subseteq> set rows" "\<forall>r' \<in> set rows. k r' \<le> k r"
    "\<forall>r' \<in> set rest. k r' \<le> k r"
proof -
  have s: "set rows = insert r (set rest)" using assms set_sort_desc [of k rows] by simp
  then show "r \<in> set rows" "set rest \<subseteq> set rows" by auto
  show le: "\<forall>r' \<in> set rest. k r' \<le> k r" using sorted_sort_desc [of k rows] by (simp add: assms)
  with s show "\<forall>r' \<in> set rows. k r' \<le> k r" by auto
qed

text \<open>A first match in descending order is the best match.\<close>

lemma best_by_first: "best_by k rows = Some r \<Longrightarrow> find (\<lambda>x. k x = k r) rows = Some r"
  by (induction rows arbitrary: r) (auto split: option.splits if_splits)

lemma filter_sort_desc: "filter P (sort_desc k rows) = sort_desc k (filter P rows)"
  by (simp only: sort_desc_def filter_sort rev_filter [symmetric])

lemma find_hd_filter: "find P xs = (if filter P xs = [] then None else Some (hd (filter P xs)))"
  by (induction xs) auto

lemma find_sort_desc: "find P (sort_desc k rows) = best_by k (filter P rows)"
proof (cases "best_by k (filter P rows)")
  case None
  then show ?thesis by (simp add: find_hd_filter [of P] filter_sort_desc)
next
  case (Some r)
  let ?ys = "filter P rows"
  obtain x rest where s: "sort_desc k ?ys = x # rest"
    using Some by (cases "sort_desc k ?ys") auto
  have "k x = k r"
    using sort_desc_ConsD(1,3) [OF s] best_by_SomeD [OF Some] by (meson antisym)
  then have "hd (filter (\<lambda>y. k y = k r) (sort_desc k ?ys)) = x" by (simp add: s)
  moreover have "filter (\<lambda>y. k y = k r) (sort_desc k ?ys) = filter (\<lambda>y. k y = k r) ?ys"
    unfolding sort_desc_def rev_filter [symmetric] sort_key_stable by (simp add: rev_filter)
  moreover have "hd (filter (\<lambda>y. k y = k r) ?ys) = r"
    using best_by_first [OF Some] by (simp add: find_hd_filter split: if_splits)
  ultimately have "x = r" by simp
  then show ?thesis using Some s by (simp add: find_hd_filter [of P] filter_sort_desc)
qed

text \<open>\<open>statistics.median\<close> of a non-empty list.\<close>

definition median :: "real list \<Rightarrow> real" where
  "median xs =
     (let ys = sort xs; n = length ys
      in if odd n then ys ! (n div 2) else (ys ! (n div 2 - 1) + ys ! (n div 2)) / 2)"

lemma median_between:
  assumes "xs \<noteq> []" "\<And>x. x \<in> set xs \<Longrightarrow> lo \<le> x" "\<And>x. x \<in> set xs \<Longrightarrow> x \<le> hi"
  shows "lo \<le> median xs" "median xs \<le> hi"
proof -
  have in_range: "lo \<le> sort xs ! i \<and> sort xs ! i \<le> hi" if "i < length xs" for i
    using assms(2,3) that by (metis length_sort nth_mem set_sort)
  have "length xs div 2 < length xs" "length xs div 2 - 1 < length xs"
    using assms(1) by (auto simp: less_imp_diff_less)
  from this [THEN in_range] show "lo \<le> median xs" "median xs \<le> hi"
    by (auto simp: median_def Let_def)
qed

subsection \<open>Grouping in first-occurrence order\<close>

text \<open>A \<open>defaultdict(list)\<close> filled in a loop, iterated in insertion order.\<close>

fun group_insert :: "'k \<Rightarrow> 'r \<Rightarrow> ('k \<times> 'r list) list \<Rightarrow> ('k \<times> 'r list) list" where
  "group_insert k r [] = [(k, [r])]"
| "group_insert k r ((k', rs) # gs) =
     (if k = k' then (k', rs @ [r]) # gs else (k', rs) # group_insert k r gs)"

fun group_into :: "('r \<Rightarrow> 'k) \<Rightarrow> ('k \<times> 'r list) list \<Rightarrow> 'r list \<Rightarrow> ('k \<times> 'r list) list" where
  "group_into key gs [] = gs"
| "group_into key gs (r # rows) = group_into key (group_insert (key r) r gs) rows"

definition group_by :: "('r \<Rightarrow> 'k) \<Rightarrow> 'r list \<Rightarrow> ('k \<times> 'r list) list" where
  "group_by key rows = group_into key [] rows"

lemma map_of_group_insert:
  "map_of (group_insert k r gs) k' =
     (if k' = k then Some ((case map_of gs k of None \<Rightarrow> [] | Some rs \<Rightarrow> rs) @ [r])
      else map_of gs k')"
  by (induction gs) auto

lemma keys_group_insert: "fst ` set (group_insert k r gs) = insert k (fst ` set gs)"
  by (induction k r gs rule: group_insert.induct) auto

lemma distinct_group_insert:
  "distinct (map fst gs) \<Longrightarrow> distinct (map fst (group_insert k r gs))"
proof (induction gs)
  case (Cons g gs)
  then show ?case using keys_group_insert [of k r gs] by (cases g) auto
qed simp

lemma map_of_group_into:
  "map_of (group_into key gs rows) k =
     (let new = filter (\<lambda>r. key r = k) rows in
      case map_of gs k of
        None \<Rightarrow> if new = [] then None else Some new
      | Some rs \<Rightarrow> Some (rs @ new))"
  by (induction rows arbitrary: gs) (auto simp: map_of_group_insert Let_def split: option.splits)

lemma distinct_group_into:
  "distinct (map fst gs) \<Longrightarrow> distinct (map fst (group_into key gs rows))"
  by (induction rows arbitrary: gs) (simp_all add: distinct_group_insert)

lemma distinct_group_by [simp]: "distinct (map fst (group_by key rows))"
  by (simp add: group_by_def distinct_group_into)

lemma in_group_by_iff:
  "(k, rs) \<in> set (group_by key rows) \<longleftrightarrow> rs \<noteq> [] \<and> rs = filter (\<lambda>r. key r = k) rows"
proof -
  have "(k, rs) \<in> set (group_by key rows) \<longleftrightarrow> map_of (group_by key rows) k = Some rs"
    by (simp add: map_of_eq_Some_iff)
  then show ?thesis by (auto simp: group_by_def map_of_group_into Let_def)
qed

lemma group_by_Nil_iff [simp]: "group_by key rows = [] \<longleftrightarrow> rows = []"
proof
  assume "group_by key rows = []"
  show "rows = []"
  proof (cases rows)
    case (Cons r rest)
    then have "(key r, filter (\<lambda>r'. key r' = key r) rows) \<in> set (group_by key rows)"
      by (simp add: in_group_by_iff)
    with \<open>group_by key rows = []\<close> show ?thesis by simp
  qed
qed (simp add: group_by_def)

subsection \<open>Invariants of step systems\<close>

text \<open>
  What the lifecycles of the program share: a set of initial states, a step relation, and a
  predicate every step keeps.  The locale lifts the one-step law to every reachable state.
\<close>

inductive reaches :: "('s \<Rightarrow> 's \<Rightarrow> bool) \<Rightarrow> 's \<Rightarrow> 's \<Rightarrow> bool" for step where
  reaches_refl: "reaches step s s"
| reaches_step: "reaches step s t \<Longrightarrow> step t u \<Longrightarrow> reaches step s u"

lemma reaches_trans:
  assumes "reaches step s t" "reaches step t u"
  shows "reaches step s u"
  using assms(2,1) by (induction rule: reaches.induct) (auto intro: reaches_step)

lemma reaches_single: "step s t \<Longrightarrow> reaches step s t"
  by (rule reaches_step) (rule reaches_refl)

locale step_invariant =
  fixes init :: "'s \<Rightarrow> bool" and step :: "'s \<Rightarrow> 's \<Rightarrow> bool" and inv :: "'s \<Rightarrow> bool"
  assumes init_inv: "init s \<Longrightarrow> inv s"
    and step_inv: "inv s \<Longrightarrow> step s t \<Longrightarrow> inv t"
begin

lemma reaches_inv: "reaches step s t \<Longrightarrow> inv s \<Longrightarrow> inv t"
  by (induction rule: reaches.induct) (auto intro: step_inv)

lemma reachable_inv: "init s \<Longrightarrow> reaches step s t \<Longrightarrow> inv t"
  by (blast intro: init_inv reaches_inv)

end

text \<open>A quantity every step keeps or raises, over whole runs.\<close>

locale step_monotone =
  fixes step :: "'s \<Rightarrow> 's \<Rightarrow> bool" and measured :: "'s \<Rightarrow> 'm::preorder"
  assumes step_mono: "step s t \<Longrightarrow> measured s \<le> measured t"
begin

lemma reaches_mono: "reaches step s t \<Longrightarrow> measured s \<le> measured t"
  by (induction rule: reaches.induct) (auto intro: order_trans step_mono)

end

end
