(* ===== verification/Py_Text.thy ===== *)
theory Py_Text
  imports Prelude
begin

text \<open>
  The string operations of the Python library that the services call, on ASCII text (a HOL
  \<open>string\<close> is a list of bytes, so case folding of other letters is outside the model), and the
  rendering of identifiers inside f-strings, with the facts that make those renderings unambiguous.
\<close>

subsection \<open>Case and whitespace\<close>

definition lower_char :: "char \<Rightarrow> char" where
  "lower_char c = (if CHR ''A'' \<le> c \<and> c \<le> CHR ''Z'' then char_of (of_char c + (32 :: nat)) else c)"

definition upper_char :: "char \<Rightarrow> char" where
  "upper_char c = (if CHR ''a'' \<le> c \<and> c \<le> CHR ''z'' then char_of (of_char c - (32 :: nat)) else c)"

definition str_lower :: "string \<Rightarrow> string" where
  "str_lower s = map lower_char s"

definition str_upper :: "string \<Rightarrow> string" where
  "str_upper s = map upper_char s"

definition casefold :: "string \<Rightarrow> string" where
  "casefold s = map lower_char s"

definition is_space :: "char \<Rightarrow> bool" where
  "is_space c \<longleftrightarrow> c = CHR '' '' \<or>
     (of_char c :: nat) \<in> {9, 10, 11, 12, 13, 28, 29, 30, 31}"

definition strip :: "string \<Rightarrow> string" where
  "strip s = rev (dropWhile is_space (rev (dropWhile is_space s)))"

lemma length_casefold [simp]: "length (casefold s) = length s"
  by (simp add: casefold_def)

lemma casefold_append: "casefold (s @ t) = casefold s @ casefold t"
  by (simp add: casefold_def)

lemma char_le_iff: "c \<le> d \<longleftrightarrow> (of_char c :: nat) \<le> of_char d"
  by (simp add: less_eq_char_def)

lemma lower_char_idem [simp]: "lower_char (lower_char c) = lower_char c"
proof (cases "CHR ''A'' \<le> c \<and> c \<le> CHR ''Z''")
  case True
  then have r: "65 \<le> (of_char c :: nat)" "(of_char c :: nat) \<le> 90"
    by (simp_all add: char_le_iff)
  then have "\<not> char_of (of_char c + (32 :: nat)) \<le> CHR ''Z''"
    by (simp add: char_le_iff)
  with True show ?thesis by (simp add: lower_char_def)
next
  case False
  then have "lower_char c = c" by (auto simp: lower_char_def)
  then show ?thesis by simp
qed

lemma casefold_idem [simp]: "casefold (casefold s) = casefold s"
  by (simp add: casefold_def)

lemma dropWhile_rev_dropWhile:
  "dropWhile P (rev (dropWhile P (rev (dropWhile P s)))) = rev (dropWhile P (rev (dropWhile P s)))"
    (is "dropWhile P ?u = ?u")
proof (cases "?u = []")
  case False
  have w: "dropWhile P s = ?u @ rev (takeWhile P (rev (dropWhile P s)))"
    by (metis rev_append rev_rev_ident takeWhile_dropWhile_id)
  then have "hd (dropWhile P s) = hd ?u" "dropWhile P s \<noteq> []"
    using False by (metis hd_append2, metis append_is_Nil_conv)
  then have "\<not> P (hd ?u)" using hd_dropWhile [of P s] by metis
  then show ?thesis using False by (cases ?u) auto
next
  case True
  then show ?thesis by (simp only: True dropWhile.simps)
qed

lemma strip_idem [simp]: "strip (strip s) = strip s"
  by (simp add: strip_def dropWhile_rev_dropWhile)

subsection \<open>Rendering of identifiers\<close>

definition hex_char :: "nat \<Rightarrow> char" where
  "hex_char d = ''0123456789abcdef'' ! d"

fun hex_fixed :: "nat \<Rightarrow> nat \<Rightarrow> string" where
  "hex_fixed 0 n = []"
| "hex_fixed (Suc w) n = hex_fixed w (n div 16) @ [hex_char (n mod 16)]"

definition str_uuid :: "uuid \<Rightarrow> string" where
  "str_uuid u =
     (let h = hex_fixed 32 (unat u)
      in take 8 h @ ''-'' @ take 4 (drop 8 h) @ ''-'' @ take 4 (drop 12 h) @ ''-''
           @ take 4 (drop 16 h) @ ''-'' @ drop 20 h)"

definition digit_char :: "nat \<Rightarrow> char" where
  "digit_char d = ''0123456789'' ! d"

fun str_nat :: "nat \<Rightarrow> string" where
  "str_nat n = (if n < 10 then [digit_char n] else str_nat (n div 10) @ [digit_char (n mod 10)])"

declare str_nat.simps [simp del]

definition str_int :: "int \<Rightarrow> string" where
  "str_int i = (if i < 0 then ''-'' @ str_nat (nat (- i)) else str_nat (nat i))"

definition hex_alphabet :: "char set" where
  "hex_alphabet = set ''0123456789abcdef''"

definition dec_alphabet :: "char set" where
  "dec_alphabet = set ''0123456789''"

lemma separators_not_hex [simp]: "CHR ''-'' \<notin> hex_alphabet" "CHR '':'' \<notin> hex_alphabet"
  by (simp_all add: hex_alphabet_def)

lemma separators_not_dec [simp]: "CHR ''-'' \<notin> dec_alphabet" "CHR '':'' \<notin> dec_alphabet"
  by (simp_all add: dec_alphabet_def)

lemma nth_distinct_inj:
  "distinct xs \<Longrightarrow> m < length xs \<Longrightarrow> n < length xs \<Longrightarrow> xs ! m = xs ! n \<Longrightarrow> m = n"
  by (simp add: nth_eq_iff_index_eq)

lemma hex_char_inj: "m < 16 \<Longrightarrow> n < 16 \<Longrightarrow> hex_char m = hex_char n \<Longrightarrow> m = n"
  by (rule nth_distinct_inj [of "''0123456789abcdef''"]) (simp_all add: hex_char_def)

lemma hex_char_range: "n < 16 \<Longrightarrow> hex_char n \<in> hex_alphabet"
  unfolding hex_char_def hex_alphabet_def by (rule nth_mem) simp

lemma digit_char_inj: "m < 10 \<Longrightarrow> n < 10 \<Longrightarrow> digit_char m = digit_char n \<Longrightarrow> m = n"
  by (rule nth_distinct_inj [of "''0123456789''"]) (simp_all add: digit_char_def)

lemma digit_char_range: "n < 10 \<Longrightarrow> digit_char n \<in> dec_alphabet"
  unfolding digit_char_def dec_alphabet_def by (rule nth_mem) simp

lemma length_hex_fixed [simp]: "length (hex_fixed w n) = w"
  by (induction w arbitrary: n) auto

lemma hex_fixed_chars: "set (hex_fixed w n) \<subseteq> hex_alphabet"
  by (induction w arbitrary: n) (simp_all add: hex_char_range)

lemma hex_fixed_inj:
  "m < 16 ^ w \<Longrightarrow> n < 16 ^ w \<Longrightarrow> hex_fixed w m = hex_fixed w n \<Longrightarrow> m = n"
proof (induction w arbitrary: m n)
  case (Suc w)
  then have "m mod 16 = n mod 16" by (auto intro: hex_char_inj)
  moreover have "m div 16 = n div 16"
    using Suc by (auto simp: less_mult_imp_div_less mult.commute)
  ultimately show ?case by (metis div_mult_mod_eq)
qed simp

lemma split_five:
  "take a h @ take b (drop a h) @ take c (drop (a + b) h) @ take d (drop (a + b + c) h)
     @ drop (a + b + c + d) h = h"
proof -
  have glue: "take n (drop m h) @ drop (m + n) h = drop m h" for m n
    using append_take_drop_id [of n "drop m h"] by (simp add: add.commute)
  show ?thesis by (simp add: glue)
qed

lemma str_uuid_hex: "filter (\<lambda>c. c \<noteq> CHR ''-'') (str_uuid u) = hex_fixed 32 (unat u)"
proof -
  let ?h = "hex_fixed 32 (unat u)"
  have "c \<noteq> CHR ''-''" if "c \<in> set ?h" for c
    using hex_fixed_chars [of 32 "unat u"] that by auto
  then have keep: "filter (\<lambda>c. c \<noteq> CHR ''-'') xs = xs" if "set xs \<subseteq> set ?h" for xs
    using that by (auto intro: filter_True)
  have parts: "set (take n (drop m ?h)) \<subseteq> set ?h" "set (take n ?h) \<subseteq> set ?h"
    "set (drop m ?h) \<subseteq> set ?h" for m n
    by (auto dest: in_set_takeD in_set_dropD)
  show ?thesis
    using split_five [of 8 ?h 4 4 4] by (simp add: str_uuid_def Let_def keep parts)
qed

lemma str_uuid_eq_iff [simp]: "str_uuid u = str_uuid v \<longleftrightarrow> u = v"
proof
  assume "str_uuid u = str_uuid v"
  then have "hex_fixed 32 (unat u) = hex_fixed 32 (unat v)" by (metis str_uuid_hex)
  moreover have "unat w < 16 ^ 32" for w :: uuid
    using unsigned_less [of w] by simp
  ultimately show "u = v" by (metis hex_fixed_inj unsigned_word_eqI)
qed simp

lemma length_str_uuid [simp]: "length (str_uuid u) = 36"
  by (simp add: str_uuid_def Let_def)

lemma colon_not_in_uuid [simp]: "CHR '':'' \<notin> set (str_uuid u)"
proof -
  have "set (str_uuid u) \<subseteq> insert (CHR ''-'') (set (hex_fixed 32 (unat u)))"
    by (auto simp: str_uuid_def Let_def dest: in_set_takeD in_set_dropD)
  then show ?thesis using hex_fixed_chars [of 32 "unat u"] separators_not_hex(2) by auto
qed

lemma str_nat_chars: "set (str_nat n) \<subseteq> dec_alphabet"
proof (induction n rule: str_nat.induct)
  case (1 n)
  then show ?case
    using digit_char_range [of n] digit_char_range [of "n mod 10"]
    by (subst str_nat.simps) simp
qed

lemma str_nat_nonempty [simp]: "str_nat n \<noteq> []"
  by (subst str_nat.simps) simp

lemma str_nat_inj: "str_nat m = str_nat n \<Longrightarrow> m = n"
proof (induction m arbitrary: n rule: str_nat.induct)
  case (1 m)
  have small: "length (str_nat k) = 1 \<longleftrightarrow> k < 10" for k
    by (subst str_nat.simps) simp
  show ?case
  proof (cases "m < 10")
    case True
    then have "n < 10" using small [of m] small [of n] "1.prems" by simp
    with True "1.prems" show ?thesis
      by (simp add: str_nat.simps [of m] str_nat.simps [of n] digit_char_inj)
  next
    case False
    then have "\<not> n < 10" using small [of m] small [of n] "1.prems" by simp
    with False "1.prems" have "str_nat (m div 10) = str_nat (n div 10)" "m mod 10 = n mod 10"
      by (simp_all add: str_nat.simps [of m] str_nat.simps [of n] digit_char_inj)
    with False "1.IH" show ?thesis by (metis div_mult_mod_eq)
  qed
qed

lemma str_int_eq_iff [simp]: "str_int i = str_int j \<longleftrightarrow> i = j"
proof
  assume eq: "str_int i = str_int j"
  have minus: "str_nat n \<noteq> CHR ''-'' # t" for n t
    using str_nat_chars [of n] by (metis list.set_intros(1) separators_not_dec(1) subsetD)
  show "i = j"
    using eq minus minus [symmetric]
    by (auto simp: str_int_def split: if_splits dest!: str_nat_inj)
qed simp

lemma colon_not_in_int [simp]: "CHR '':'' \<notin> set (str_int i)"
  using str_nat_chars [of "nat i"] str_nat_chars [of "nat (- i)"] separators_not_dec(2)
  by (auto simp: str_int_def)

text \<open>Splitting at the last colon is unambiguous when the suffix holds none.\<close>

lemma last_colon_unique:
  assumes "xs @ CHR '':'' # s = ys @ CHR '':'' # t" "CHR '':'' \<notin> set s" "CHR '':'' \<notin> set t"
  shows "xs = ys \<and> s = t"
proof -
  have suffix: "rev (takeWhile (\<lambda>c. c \<noteq> CHR '':'') (rev (zs @ CHR '':'' # u))) = u"
    if "CHR '':'' \<notin> set u" for zs u
    using that by (subst rev_append) (simp add: takeWhile_tail takeWhile_append2 takeWhile_append)
  have "s = t" using suffix [OF assms(2), of xs] suffix [OF assms(3), of ys] assms(1) by simp
  with assms(1) show ?thesis by simp
qed

end
