(* ===== verification/Domain.thy ===== *)
theory Domain
  imports Py_Text "HOL-Library.Sublist"
begin

text \<open>
  The enumerations, the validated settings and the event contracts that the components share:
  \<open>enums.py\<close>, \<open>config.py\<close>, \<open>events/rfid.py\<close>, \<open>events/inventory.py\<close> and the status types of
  \<open>models/architecture.py\<close>.
\<close>

subsection \<open>Enumerations\<close>

datatype tenant_status = TENANT_PROVISIONING | TENANT_ACTIVE | TENANT_SUSPENDED

datatype store_status = STORE_PROVISIONING | STORE_ACTIVE | STORE_INACTIVE

datatype zone_kind = SALES_FLOOR | BACKROOM | RECEIVING | OTHER_ZONE

datatype device_status = DEVICE_ACTIVE | DEVICE_INACTIVE

datatype job_kind = CATALOG_IMPORT | RFID_OBSERVATION | REPLENISHMENT_RECALC

datatype job_status =
  JOB_PENDING | JOB_PROCESSING | JOB_COMPLETED | JOB_FAILED | JOB_QUARANTINED

datatype freshness_status = LIVE | DEGRADED | STALE

datatype item_presence_status = OBSERVED | UNOBSERVED | LOCATION_UNKNOWN | REMOVED

datatype observation_batch_status =
  BATCH_ACCEPTED | BATCH_PROCESSING | BATCH_COMPLETED | BATCH_COMPLETED_WITH_ERRORS

datatype event_processing_status = EVENT_PENDING | EVENT_PROCESSED | EVENT_REJECTED

subsection \<open>Settings\<close>

datatype app_environment = Development | Test_Env | Production

record settings =
  app_env :: app_environment
  jwt_secret :: string
  platform_api_key :: string
  build_sha :: string
  render_git_commit :: "string option"
  access_token_minutes :: int
  refresh_token_days :: int
  login_throttle_enabled :: bool
  login_throttle_window_seconds :: int
  login_throttle_ip_limit :: int
  login_throttle_account_limit :: int
  login_throttle_max_entries :: int
  worker_poll_interval_ms :: int
  worker_lease_seconds :: int
  worker_max_attempts :: int
  rfid_move_confirmation_reads :: int
  rfid_move_confirmation_window_seconds :: int
  rfid_unobserved_after_seconds :: int
  rfid_last_seen_flush_seconds :: int
  rfid_confidence_half_life_seconds :: int
  connectivity_live_window_seconds :: int
  connectivity_stale_window_seconds :: int
  replenishment_minimum_confidence :: real
  replenishment_verification_window_seconds :: int
  rfid_max_future_skew_seconds :: int

text \<open>The \<open>ge\<close> and \<open>le\<close> bounds of the fields.\<close>

definition settings_in_bounds :: "settings \<Rightarrow> bool" where
  "settings_in_bounds s \<longleftrightarrow>
     32 \<le> length (jwt_secret s) \<and>
     1 \<le> access_token_minutes s \<and> access_token_minutes s \<le> 1440 \<and>
     1 \<le> refresh_token_days s \<and> refresh_token_days s \<le> 90 \<and>
     1 \<le> login_throttle_window_seconds s \<and> login_throttle_window_seconds s \<le> 3600 \<and>
     1 \<le> login_throttle_ip_limit s \<and> login_throttle_ip_limit s \<le> 10000 \<and>
     1 \<le> login_throttle_account_limit s \<and> login_throttle_account_limit s \<le> 1000 \<and>
     2 \<le> login_throttle_max_entries s \<and> login_throttle_max_entries s \<le> 1000000 \<and>
     24 \<le> length (platform_api_key s) \<and>
     50 \<le> worker_poll_interval_ms s \<and> worker_poll_interval_ms s \<le> 60000 \<and>
     5 \<le> worker_lease_seconds s \<and> worker_lease_seconds s \<le> 3600 \<and>
     1 \<le> worker_max_attempts s \<and> worker_max_attempts s \<le> 100 \<and>
     1 \<le> rfid_move_confirmation_reads s \<and> rfid_move_confirmation_reads s \<le> 10 \<and>
     1 \<le> rfid_move_confirmation_window_seconds s \<and>
       rfid_move_confirmation_window_seconds s \<le> 300 \<and>
     60 \<le> rfid_unobserved_after_seconds s \<and> rfid_unobserved_after_seconds s \<le> 604800 \<and>
     1 \<le> rfid_last_seen_flush_seconds s \<and> rfid_last_seen_flush_seconds s \<le> 3600 \<and>
     60 \<le> rfid_confidence_half_life_seconds s \<and>
       rfid_confidence_half_life_seconds s \<le> 604800 \<and>
     10 \<le> connectivity_live_window_seconds s \<and> connectivity_live_window_seconds s \<le> 3600 \<and>
     30 \<le> connectivity_stale_window_seconds s \<and> connectivity_stale_window_seconds s \<le> 86400 \<and>
     0 \<le> replenishment_minimum_confidence s \<and> replenishment_minimum_confidence s \<le> 1 \<and>
     60 \<le> replenishment_verification_window_seconds s \<and>
       replenishment_verification_window_seconds s \<le> 86400 \<and>
     0 \<le> rfid_max_future_skew_seconds s \<and> rfid_max_future_skew_seconds s \<le> 86400"

definition insecure_markers :: "string list" where
  "insecure_markers = [''local-'', ''change-before-deploy'', ''replace-with'']"

definition carries_marker :: "string \<Rightarrow> bool" where
  "carries_marker secret \<longleftrightarrow> list_ex (\<lambda>marker. sublist marker secret) insecure_markers"

definition reject_demo_secrets_in_production :: "settings \<Rightarrow> settings outcome" where
  "reject_demo_secrets_in_production s =
     (if connectivity_stale_window_seconds s \<le> connectivity_live_window_seconds s
      then Inl (ValueError ''CONNECTIVITY_STALE_WINDOW_SECONDS'')
      else if rfid_unobserved_after_seconds s \<le> rfid_last_seen_flush_seconds s
      then Inl (ValueError ''RFID_UNOBSERVED_AFTER_SECONDS'')
      else
        let s' = (case render_git_commit s of
                    Some commit \<Rightarrow>
                      if build_sha s = ''local'' \<and> commit \<noteq> [] then s\<lparr>build_sha := commit\<rparr> else s
                  | None \<Rightarrow> s)
        in if app_env s' = Production \<and> carries_marker (jwt_secret s')
           then Inl (ValueError ''JWT_SECRET'')
           else if app_env s' = Production \<and> carries_marker (platform_api_key s')
           then Inl (ValueError ''PLATFORM_API_KEY'')
           else Inr s')"

definition load_settings :: "settings \<Rightarrow> settings outcome" where
  "load_settings s =
     (if settings_in_bounds s then reject_demo_secrets_in_production s
      else Inl (ValueError ''field bounds''))"

definition select_psycopg_driver :: "string option \<Rightarrow> string option" where
  "select_psycopg_driver value =
     (case value of
        None \<Rightarrow> None
      | Some url \<Rightarrow>
          if prefix ''postgresql://'' url then Some (''postgresql+psycopg://'' @ drop 13 url)
          else Some url)"

text \<open>What the components may rely on once the settings have been loaded.\<close>

definition settings_ok :: "settings \<Rightarrow> bool" where
  "settings_ok s \<longleftrightarrow> settings_in_bounds s \<and>
     connectivity_live_window_seconds s < connectivity_stale_window_seconds s \<and>
     rfid_last_seen_flush_seconds s < rfid_unobserved_after_seconds s \<and>
     (app_env s = Production \<longrightarrow>
        \<not> carries_marker (jwt_secret s) \<and> \<not> carries_marker (platform_api_key s))"

lemma settings_in_bounds_build_sha [simp]:
  "settings_in_bounds (s\<lparr>build_sha := sha\<rparr>) = settings_in_bounds s"
  by (simp add: settings_in_bounds_def)

lemma load_settings_ok: "load_settings s = Inr s' \<Longrightarrow> settings_ok s'"
  by (auto simp: load_settings_def reject_demo_secrets_in_production_def settings_ok_def
      Let_def split: if_splits option.splits)

lemma settings_okD:
  assumes "settings_ok s"
  shows "0 < worker_max_attempts s" "0 < rfid_move_confirmation_reads s"
    "0 < rfid_move_confirmation_window_seconds s" "0 < rfid_last_seen_flush_seconds s"
    "0 < rfid_confidence_half_life_seconds s" "0 \<le> rfid_max_future_skew_seconds s"
    "connectivity_live_window_seconds s < connectivity_stale_window_seconds s"
    "0 < connectivity_live_window_seconds s"
  using assms by (auto simp: settings_ok_def settings_in_bounds_def)

text \<open>The defaults of \<open>config.py\<close>.\<close>

definition default_settings :: settings where
  "default_settings =
     \<lparr>app_env = Development,
      jwt_secret = ''local-development-secret-change-before-deploy'',
      platform_api_key = ''local-platform-key-change-before-deploy'',
      build_sha = ''local'', render_git_commit = None,
      access_token_minutes = 15, refresh_token_days = 7,
      login_throttle_enabled = True, login_throttle_window_seconds = 60,
      login_throttle_ip_limit = 30, login_throttle_account_limit = 5,
      login_throttle_max_entries = 10000,
      worker_poll_interval_ms = 500, worker_lease_seconds = 30, worker_max_attempts = 5,
      rfid_move_confirmation_reads = 3, rfid_move_confirmation_window_seconds = 10,
      rfid_unobserved_after_seconds = 1800, rfid_last_seen_flush_seconds = 30,
      rfid_confidence_half_life_seconds = 1800,
      connectivity_live_window_seconds = 120, connectivity_stale_window_seconds = 600,
      replenishment_minimum_confidence = 7 / 10,
      replenishment_verification_window_seconds = 900,
      rfid_max_future_skew_seconds = 300\<rparr>"

lemma default_settings_fields [simp]:
  "worker_max_attempts default_settings = 5"
  "rfid_move_confirmation_reads default_settings = 3"
  "rfid_move_confirmation_window_seconds default_settings = 10"
  "rfid_unobserved_after_seconds default_settings = 1800"
  "rfid_last_seen_flush_seconds default_settings = 30"
  "rfid_confidence_half_life_seconds default_settings = 1800"
  "connectivity_live_window_seconds default_settings = 120"
  "connectivity_stale_window_seconds default_settings = 600"
  "replenishment_minimum_confidence default_settings = 7 / 10"
  "replenishment_verification_window_seconds default_settings = 900"
  "rfid_max_future_skew_seconds default_settings = 300"
  by (simp_all add: default_settings_def)

lemma default_settings_load: "load_settings default_settings = Inr default_settings"
  by (simp add: load_settings_def reject_demo_secrets_in_production_def settings_in_bounds_def
      default_settings_def)

lemma default_settings_ok: "settings_ok default_settings"
  by (rule load_settings_ok [OF default_settings_load])

subsection \<open>Event contracts\<close>

record rfid_event =
  ev_tenant :: uuid
  ev_batch :: uuid
  ev_event_id :: string
  ev_device :: uuid
  ev_store :: uuid
  ev_zone :: uuid
  ev_epc :: string
  ev_observed_at :: timestamp
  ev_received_at :: timestamp
  ev_rssi :: real
  ev_antenna :: "string option"
  ev_reader_health :: real
  ev_is_buffered :: bool
  ev_backlog_drained :: bool
  ev_reader_coverage_ok :: bool
  ev_replayed_from :: "uuid option"

definition rfid_partition_key :: "rfid_event \<Rightarrow> string" where
  "rfid_partition_key event = str_uuid (ev_tenant event) @ '':'' @ ev_epc event"

record inventory_delta =
  dl_delta_id :: string
  dl_transition :: uuid
  dl_tenant :: uuid
  dl_store :: uuid
  dl_sku :: uuid
  dl_zone :: uuid
  dl_epc :: string
  dl_quantity :: int
  dl_confidence :: real
  dl_observed_at :: timestamp

text \<open>The field constraints of \<open>InventoryDeltaEvent\<close>; a payload that breaks one does not validate.\<close>

definition delta_valid :: "inventory_delta \<Rightarrow> bool" where
  "delta_valid d \<longleftrightarrow>
     1 \<le> length (dl_delta_id d) \<and> length (dl_delta_id d) \<le> 255 \<and>
     4 \<le> length (dl_epc d) \<and> length (dl_epc d) \<le> 128 \<and>
     - 1 \<le> dl_quantity d \<and> dl_quantity d \<le> 1 \<and>
     0 \<le> dl_confidence d \<and> dl_confidence d \<le> 1"

text \<open>An observation used by the evaluated examples of the component theories.\<close>

definition sample_event :: rfid_event where
  "sample_event =
     \<lparr>ev_tenant = 1, ev_batch = 7, ev_event_id = ''e1'', ev_device = 5, ev_store = 2, ev_zone = 3,
      ev_epc = ''E28011700000020F'', ev_observed_at = seconds 100, ev_received_at = seconds 101,
      ev_rssi = - 40, ev_antenna = None, ev_reader_health = 1, ev_is_buffered = False,
      ev_backlog_drained = True, ev_reader_coverage_ok = True, ev_replayed_from = None\<rparr>"

end
