(* ===== verification/Codes.thy ===== *)
theory Codes
  imports Domain
begin

text \<open>
  The identifier formats of \<open>schemas/catalog.py\<close>: product codes, GTINs with their check digit, EPCs
  in hexadecimal or URI form, and display labels.  Each normalizer returns the canonical form or the
  \<open>ValueError\<close> that becomes a validation error; texts are ASCII.
\<close>

subsection \<open>Character classes\<close>

definition in_range :: "char \<Rightarrow> char \<Rightarrow> char \<Rightarrow> bool" where
  "in_range lo hi c \<longleftrightarrow> lo \<le> c \<and> c \<le> hi"

abbreviation is_digit :: "char \<Rightarrow> bool" where
  "is_digit \<equiv> in_range CHR ''0'' CHR ''9''"

abbreviation is_upper_letter :: "char \<Rightarrow> bool" where
  "is_upper_letter \<equiv> in_range CHR ''A'' CHR ''Z''"

abbreviation is_lower_letter :: "char \<Rightarrow> bool" where
  "is_lower_letter \<equiv> in_range CHR ''a'' CHR ''z''"

definition code_char :: "char \<Rightarrow> bool" where
  "code_char c \<longleftrightarrow> is_upper_letter c \<or> is_digit c \<or> c \<in> set ''._-''"

definition upper_hex_char :: "char \<Rightarrow> bool" where
  "upper_hex_char c \<longleftrightarrow> is_digit c \<or> in_range CHR ''A'' CHR ''F'' c"

definition uri_scheme_char :: "char \<Rightarrow> bool" where
  "uri_scheme_char c \<longleftrightarrow> is_lower_letter c \<or> is_digit c \<or> c = CHR ''-''"

definition uri_value_char :: "char \<Rightarrow> bool" where
  "uri_value_char c \<longleftrightarrow> is_lower_letter c \<or> is_digit c \<or> c \<in> set ''.*%_-''"

subsection \<open>Product codes\<close>

definition product_code_pattern :: "string \<Rightarrow> bool" where
  "product_code_pattern s \<longleftrightarrow>
     s \<noteq> [] \<and> (is_upper_letter (hd s) \<or> is_digit (hd s)) \<and> list_all code_char (tl s)"

definition normalize_product_code :: "nat \<Rightarrow> string \<Rightarrow> string outcome" where
  "normalize_product_code max_length value =
     (let normalized = str_upper (strip value)
      in if normalized = [] then Inl (ValueError ''is required'')
         else if max_length < length normalized then Inl (ValueError ''too long'')
         else if \<not> product_code_pattern normalized then Inl (ValueError ''may contain only'')
         else Inr normalized)"

subsection \<open>GTINs\<close>

definition digit_value :: "char \<Rightarrow> int" where
  "digit_value c = int (of_char c) - 48"

text \<open>The sum over the reversed payload, with weight 3 at even positions and 1 at odd ones.\<close>

fun weighted_sum :: "bool \<Rightarrow> string \<Rightarrow> int" where
  "weighted_sum heavy [] = 0"
| "weighted_sum heavy (c # cs) =
     digit_value c * (if heavy then 3 else 1) + weighted_sum (\<not> heavy) cs"

definition gtin_check_digit :: "string \<Rightarrow> int" where
  "gtin_check_digit payload = (10 - weighted_sum True (rev payload) mod 10) mod 10"

definition gtin_lengths :: "nat set" where
  "gtin_lengths = {8, 12, 13, 14}"

definition normalize_upc :: "string \<Rightarrow> string outcome" where
  "normalize_upc value =
     (let normalized = filter (\<lambda>c. \<not> is_space c \<and> c \<noteq> CHR ''-'') value
      in if normalized = [] \<or> \<not> list_all is_digit normalized \<or> length normalized \<notin> gtin_lengths
         then Inl (ValueError ''upc must be a valid GTIN'')
         else if digit_value (last normalized) \<noteq> gtin_check_digit (butlast normalized)
         then Inl (ValueError ''upc has an invalid GTIN check digit'')
         else Inr normalized)"

subsection \<open>EPCs\<close>

definition epc_uri_pattern :: "string \<Rightarrow> bool" where
  "epc_uri_pattern s \<longleftrightarrow>
     (prefix ''urn:epc:id:'' s \<or> prefix ''urn:epc:tag:'' s) \<and>
     (let body = (if prefix ''urn:epc:id:'' s then drop 11 s else drop 12 s);
          scheme = takeWhile uri_scheme_char body;
          rest = dropWhile uri_scheme_char body
      in scheme \<noteq> [] \<and> rest \<noteq> [] \<and> hd rest = CHR '':'' \<and>
         tl rest \<noteq> [] \<and> list_all uri_value_char (tl rest))"

definition normalize_epc :: "string \<Rightarrow> string outcome" where
  "normalize_epc value =
     (let stripped = strip value
      in if stripped = [] then Inl (ValueError ''epc is required'')
         else if prefix ''urn:epc:'' (str_lower stripped) then
           let normalized_uri = str_lower stripped
           in if 128 < length normalized_uri \<or> \<not> epc_uri_pattern normalized_uri
              then Inl (ValueError ''epc must be a valid EPC URI or hexadecimal EPC'')
              else Inr normalized_uri
         else
           let without_prefix = (if prefix ''0x'' (str_lower stripped) then drop 2 stripped
                                 else stripped);
               normalized_hex =
                 str_upper (filter (\<lambda>c. \<not> is_space c \<and> c \<noteq> CHR '':'' \<and> c \<noteq> CHR ''-'')
                              without_prefix)
           in if length normalized_hex < 16 \<or> 64 < length normalized_hex \<or>
                 odd (length normalized_hex) \<or> \<not> list_all upper_hex_char normalized_hex
              then Inl (ValueError ''epc must be 16 to 64 hexadecimal characters'')
              else Inr normalized_hex)"

subsection \<open>Labels\<close>

text \<open>\<open>str.split()\<close>: the maximal runs of characters that are not whitespace.\<close>

fun split_words :: "string \<Rightarrow> string \<Rightarrow> string list" where
  "split_words acc [] = (if acc = [] then [] else [rev acc])"
| "split_words acc (c # cs) =
     (if is_space c then (if acc = [] then [] else [rev acc]) @ split_words [] cs
      else split_words (c # acc) cs)"

text \<open>\<open>" ".join(value.split())\<close>.\<close>

fun join_words :: "string list \<Rightarrow> string" where
  "join_words [] = []"
| "join_words (w # ws) = concat (w # map (\<lambda>v. CHR '' '' # v) ws)"

definition normalize_label :: "nat \<Rightarrow> string \<Rightarrow> string outcome" where
  "normalize_label max_length value =
     (let normalized = join_words (split_words [] (strip value))
      in if normalized = [] then Inl (ValueError ''is required'')
         else if max_length < length normalized then Inl (ValueError ''too long'')
         else Inr normalized)"

subsection \<open>Canonical forms\<close>

lemma in_range_iff:
  "in_range lo hi c \<longleftrightarrow> (of_char lo :: nat) \<le> of_char c \<and> (of_char c :: nat) \<le> of_char hi"
  by (simp add: in_range_def char_le_iff)

lemma is_space_code: "is_space c \<Longrightarrow> (of_char c :: nat) \<le> 32"
  by (auto simp: is_space_def)

lemma not_space:
  "is_digit c \<Longrightarrow> \<not> is_space c" "upper_hex_char c \<Longrightarrow> \<not> is_space c"
  "code_char c \<Longrightarrow> \<not> is_space c" "uri_value_char c \<Longrightarrow> \<not> is_space c"
  "uri_scheme_char c \<Longrightarrow> \<not> is_space c"
  using is_space_code [of c]
  by (auto simp: upper_hex_char_def code_char_def uri_value_char_def uri_scheme_char_def in_range_iff)

lemma strip_no_space: "list_all (\<lambda>c. \<not> is_space c) s \<Longrightarrow> strip s = s"
proof -
  assume s: "list_all (\<lambda>c. \<not> is_space c) s"
  have "dropWhile is_space t = t" if "set t \<subseteq> set s" for t
    using s that by (cases t) (auto simp: list_all_iff)
  then show ?thesis by (simp add: strip_def)
qed

lemma upper_char_fixed: "upper_hex_char c \<or> code_char c \<Longrightarrow> upper_char c = c"
  by (auto simp: upper_char_def upper_hex_char_def code_char_def in_range_iff char_le_iff)

lemma lower_char_fixed: "uri_value_char c \<or> uri_scheme_char c \<or> c = CHR '':'' \<Longrightarrow> lower_char c = c"
  by (auto simp: lower_char_def uri_value_char_def uri_scheme_char_def in_range_iff char_le_iff)

lemma str_upper_fixed: "list_all upper_hex_char s \<or> list_all code_char s \<Longrightarrow> str_upper s = s"
  by (auto simp: str_upper_def list_all_iff upper_char_fixed intro!: map_idI)

lemma code_of_lower_char:
  "(of_char (lower_char c) :: nat) = (if is_upper_letter c then of_char c + 32 else of_char c)"
  by (auto simp: lower_char_def in_range_iff char_le_iff)

lemma lower_char_not:
  assumes "upper_hex_char c"
  shows "lower_char c \<noteq> CHR ''u''" "lower_char c \<noteq> CHR ''x''"
proof -
  have "(of_char (lower_char c) :: nat) \<le> 102"
    using assms by (auto simp: code_of_lower_char upper_hex_char_def in_range_iff)
  then show "lower_char c \<noteq> CHR ''u''" "lower_char c \<noteq> CHR ''x''" by auto
qed

lemma str_lower_idem: "str_lower (str_lower s) = str_lower s"
  by (simp add: str_lower_def)

lemma str_lower_Cons [simp]: "str_lower (c # s) = lower_char c # str_lower s"
  by (simp add: str_lower_def)

lemma normalize_epc_hex:
  assumes "list_all upper_hex_char s" "16 \<le> length s" "length s \<le> 64" "even (length s)"
  shows "normalize_epc s = Inr s"
proof -
  have keep: "\<not> is_space c \<and> c \<noteq> CHR '':'' \<and> c \<noteq> CHR ''-''" if "c \<in> set s" for c
    using that assms(1) not_space(2) [of c]
    by (auto simp: list_all_iff upper_hex_char_def in_range_iff)
  obtain a b t where s: "s = a # b # t"
    using assms(2) by (cases s; cases "tl s") auto
  have "strip s = s" using keep by (intro strip_no_space) (simp add: list_all_iff)
  moreover have "filter (\<lambda>c. \<not> is_space c \<and> c \<noteq> CHR '':'' \<and> c \<noteq> CHR ''-'') s = s"
    using keep by (intro filter_True) simp
  moreover have "str_upper s = s" using assms(1) by (simp add: str_upper_fixed)
  moreover have "\<not> prefix ''urn:epc:'' (str_lower s)" "\<not> prefix ''0x'' (str_lower s)"
    using assms(1) lower_char_not [of a] lower_char_not [of b] by (auto simp: s)
  moreover have "s \<noteq> []" by (simp add: s)
  ultimately show ?thesis using assms by (simp add: normalize_epc_def)
qed

lemma epc_uri_pattern_chars:
  assumes "epc_uri_pattern s"
  shows "list_all (\<lambda>c. \<not> is_space c \<and> lower_char c = c) s" "prefix ''urn:epc:'' s"
proof -
  define n :: nat where "n = (if prefix ''urn:epc:id:'' s then 11 else 12)"
  define body where "body = drop n s"
  have body: "list_all (\<lambda>c. \<not> is_space c \<and> lower_char c = c) body"
  proof -
    have "list_all uri_scheme_char (takeWhile uri_scheme_char body)"
      by (auto simp: list_all_iff dest: set_takeWhileD)
    moreover obtain r where "dropWhile uri_scheme_char body = CHR '':'' # r" "list_all uri_value_char r"
      using assms by (cases "dropWhile uri_scheme_char body")
        (auto simp: epc_uri_pattern_def body_def n_def Let_def split: if_splits)
    ultimately have "\<forall>c \<in> set (takeWhile uri_scheme_char body @ dropWhile uri_scheme_char body).
        uri_scheme_char c \<or> uri_value_char c \<or> c = CHR '':''"
      by (auto simp: list_all_iff)
    moreover have "\<not> is_space CHR '':''" by (simp add: is_space_def)
    ultimately show ?thesis
      by (auto simp: list_all_iff not_space lower_char_fixed)
  qed
  have pre: "prefix ''urn:epc:id:'' s \<or> prefix ''urn:epc:tag:'' s"
    using assms by (simp add: epc_uri_pattern_def)
  have split: "s = take n s @ body" by (simp add: body_def)
  have "take n s = ''urn:epc:id:'' \<or> take n s = ''urn:epc:tag:''"
    using pre by (auto simp: n_def elim!: prefixE)
  then have "list_all (\<lambda>c. \<not> is_space c \<and> lower_char c = c) (take n s)"
    by (elim disjE) (simp_all add: is_space_def lower_char_fixed lower_char_def char_le_iff)
  with body show "list_all (\<lambda>c. \<not> is_space c \<and> lower_char c = c) s"
    by (subst split) simp
  show "prefix ''urn:epc:'' s"
    using pre by (elim disjE) (auto elim!: prefixE)
qed

lemma normalize_epc_uri:
  assumes "epc_uri_pattern s" "length s \<le> 128"
  shows "normalize_epc s = Inr s"
proof -
  note chars = epc_uri_pattern_chars [OF assms(1)]
  have "strip s = s" using chars(1) by (intro strip_no_space) (simp add: list_all_iff)
  moreover have "str_lower s = s"
    using chars(1) by (auto simp: str_lower_def list_all_iff intro!: map_idI)
  moreover have "s \<noteq> []" using chars(2) by auto
  ultimately show ?thesis using assms chars(2) by (simp add: normalize_epc_def)
qed

lemma normalize_epc_InrD:
  assumes "normalize_epc value = Inr s"
  shows "epc_uri_pattern s \<and> length s \<le> 128 \<or>
    list_all upper_hex_char s \<and> 16 \<le> length s \<and> length s \<le> 64 \<and> even (length s)"
  using assms by (auto simp: normalize_epc_def Let_def split: if_splits)

lemma normalize_epc_idem: "normalize_epc value = Inr s \<Longrightarrow> normalize_epc s = Inr s"
  using normalize_epc_InrD [where s = s] normalize_epc_uri normalize_epc_hex by blast

lemma normalize_epc_length:
  "normalize_epc value = Inr s \<Longrightarrow> 4 \<le> length s \<and> length s \<le> 128"
  using epc_uri_pattern_chars(2) [of s] by (auto dest!: normalize_epc_InrD prefix_length_le)

subsection \<open>The check digit\<close>

lemma weighted_sum_append:
  "weighted_sum h (xs @ ys) =
     weighted_sum h xs + weighted_sum (if even (length xs) then h else \<not> h) ys"
  by (induction h xs rule: weighted_sum.induct) auto

lemma weighted_sum_update:
  "i < length s \<Longrightarrow> weighted_sum h (s[i := c]) =
     weighted_sum h s + (digit_value c - digit_value (s ! i)) * (if h = even i then 3 else 1)"
proof (induction h s arbitrary: i rule: weighted_sum.induct)
  case (2 h x xs)
  show ?case
  proof (cases i)
    case (Suc j)
    then show ?thesis using 2(1) [of j] 2(2) by (cases "even j"; cases h) (simp_all add: algebra_simps)
  qed (simp add: algebra_simps)
qed simp

text \<open>A code passes exactly when the weighted sum over all its digits, check digit included, is a multiple of ten.\<close>

definition gtin_sum :: "string \<Rightarrow> int" where
  "gtin_sum s = weighted_sum False (rev s)"

lemma digit_value_range: "is_digit c \<Longrightarrow> 0 \<le> digit_value c \<and> digit_value c \<le> 9"
  by (simp add: digit_value_def in_range_iff)

lemma digit_value_inj: "digit_value c = digit_value d \<Longrightarrow> c = d"
  by (simp add: digit_value_def)

lemma check_digit_iff:
  assumes "s \<noteq> []" "is_digit (last s)"
  shows "digit_value (last s) = gtin_check_digit (butlast s) \<longleftrightarrow> gtin_sum s mod 10 = 0"
proof -
  obtain p d where s: "s = p @ [d]" using assms(1) by (metis append_butlast_last_id)
  have sum: "gtin_sum s = digit_value d + weighted_sum True (rev p)"
    by (simp add: s gtin_sum_def)
  have "0 \<le> digit_value d" "digit_value d \<le> 9"
    using digit_value_range [of d] assms(2) by (simp_all add: s)
  moreover have "d = (10 - r) mod 10 \<longleftrightarrow> (d + r) mod 10 = 0"
    if "0 \<le> d" "d \<le> 9" "0 \<le> r" "r \<le> 9" for d r :: int
  proof (cases "r = 0")
    case False
    then have "(10 - r) mod 10 = 10 - r" using that by (intro mod_pos_pos_trivial) auto
    moreover have "(d + r) mod 10 = (if d + r < 10 then d + r else d + r - 10)"
    proof (cases "d + r < 10")
      case False
      then have "(d + r - 10) mod 10 = d + r - 10" using that by (intro mod_pos_pos_trivial) auto
      then show ?thesis using False by simp
    qed (use that in simp)
    ultimately show ?thesis using that False by auto
  qed (use that in simp)
  from this [of "digit_value d" "weighted_sum True (rev p) mod 10"] calculation
  have "digit_value d = (10 - weighted_sum True (rev p) mod 10) mod 10 \<longleftrightarrow>
      (digit_value d + weighted_sum True (rev p) mod 10) mod 10 = 0" by simp
  then show ?thesis
    unfolding sum by (simp add: s gtin_check_digit_def mod_add_right_eq)
qed

lemma normalize_upc_Inr_iff:
  "normalize_upc value = Inr s \<longleftrightarrow>
     s = filter (\<lambda>c. \<not> is_space c \<and> c \<noteq> CHR ''-'') value \<and> s \<noteq> [] \<and> list_all is_digit s \<and>
     length s \<in> gtin_lengths \<and> gtin_sum s mod 10 = 0"
proof -
  define t where "t = filter (\<lambda>c. \<not> is_space c \<and> c \<noteq> CHR ''-'') value"
  have "digit_value (last t) = gtin_check_digit (butlast t) \<longleftrightarrow> gtin_sum t mod 10 = 0"
    if "t \<noteq> []" "list_all is_digit t"
    using check_digit_iff [of t] that by (simp add: list_all_iff)
  then show ?thesis
    unfolding normalize_upc_def t_def [symmetric] Let_def by auto
qed

lemma upc_keeps: "list_all is_digit s \<Longrightarrow> filter (\<lambda>c. \<not> is_space c \<and> c \<noteq> CHR ''-'') s = s"
  using not_space(1) by (intro filter_True) (fastforce simp: list_all_iff in_range_iff)

subsection \<open>Properties\<close>

text \<open>
  Every accepted code is its own canonical form: normalizing an accepted EPC, in either of its
  two forms, or an accepted GTIN again accepts it unchanged, so identifiers compare equal however
  often they pass through the validators; an accepted EPC fits the columns that store it.
\<close>

theorem accepted_codes_are_canonical:
  assumes "normalize_epc v = Inr s" "normalize_upc w = Inr t"
  shows "normalize_epc s = Inr s \<and> normalize_upc t = Inr t \<and> 4 \<le> length s \<and> length s \<le> 128"
proof -
  have "normalize_upc t = Inr t"
    using assms(2) upc_keeps [of t] unfolding normalize_upc_Inr_iff by metis
  then show ?thesis
    using normalize_epc_idem [OF assms(1)] normalize_epc_length [OF assms(1)] by simp
qed

lemmas code_evals = normalize_epc_def normalize_upc_def strip_def is_space_def str_lower_def
  str_upper_def lower_char_def upper_char_def less_eq_char_def in_range_def upper_hex_char_def
  gtin_lengths_def gtin_check_digit_def digit_value_def char_of_def

lemma sample_codes:
  "normalize_epc ''0xe28011-70000002 0f'' = Inr ''E28011700000020F''"
  "normalize_upc ''0-36000-29145-2'' = Inr ''036000291452''"
  "normalize_upc ''036000291452'' = Inr ''036000291452''"
  "normalize_epc ''E28011700000020F'' = Inr ''E28011700000020F''"
  by (simp_all add: code_evals bit_Suc_0_iff)

theorem accepted_codes_are_canonical_witness:
  "normalize_epc ''E28011700000020F'' = Inr ''E28011700000020F'' \<and>
   normalize_upc ''036000291452'' = Inr ''036000291452''"
  using accepted_codes_are_canonical [OF sample_codes(1,2)] by simp

text \<open>
  The check digit catches every single-digit error: replacing any one digit of an accepted GTIN
  by a different digit gives a text that is rejected.
\<close>

theorem upc_detects_single_digit_errors:
  assumes "normalize_upc s = Inr s" "i < length s" "is_digit d" "d \<noteq> s ! i"
  shows "normalize_upc (s[i := d]) = Inl (ValueError ''upc has an invalid GTIN check digit'')"
proof -
  have s: "list_all is_digit s" "s \<noteq> []" "length s \<in> gtin_lengths" "gtin_sum s mod 10 = 0"
    using assms(1) by (simp_all add: normalize_upc_Inr_iff)
  let ?t = "s[i := d]" and ?e = "digit_value d - digit_value (s ! i)"
  have t: "list_all is_digit ?t"
    using s(1) assms(3) set_update_subset_insert [of s i d] by (auto simp: list_all_iff)
  define w :: int where "w = (if False = even (length s - Suc i) then 3 else 1)"
  have "gtin_sum ?t = gtin_sum s + ?e * w"
    using assms(2) by (simp add: gtin_sum_def rev_update weighted_sum_update rev_nth w_def)
  moreover have "?e \<noteq> 0" using assms(4) digit_value_inj by auto
  moreover have "is_digit (s ! i)" using s(1) assms(2) by (simp add: list_all_length)
  then have "- 9 \<le> ?e" "?e \<le> 9"
    using digit_value_range [OF assms(3)] digit_value_range [of "s ! i"] by auto
  moreover have "w = 1 \<or> w = 3" by (simp add: w_def)
  ultimately have "gtin_sum ?t mod 10 \<noteq> 0" using s(4) by presburger
  moreover have "?t \<noteq> []" "is_digit (last ?t)" using s(2) t by (auto simp: list_all_iff)
  ultimately have "digit_value (last ?t) \<noteq> gtin_check_digit (butlast ?t)"
    using check_digit_iff by blast
  then show ?thesis
    using t s(2,3) upc_keeps [OF t] by (simp add: normalize_upc_def Let_def)
qed

theorem upc_detects_single_digit_errors_witness:
  "normalize_upc ''036000291457'' = Inl (ValueError ''upc has an invalid GTIN check digit'')"
  using upc_detects_single_digit_errors [of "''036000291452''" 11 "CHR ''7''"]
    sample_codes(3)
  by (simp add: in_range_def less_eq_char_def)

end
