(* ===== verification/Connectivity.thy ===== *)
theory Connectivity
  imports Domain
begin

text \<open>
  Store connectivity and freshness: the receipt-ordered status row of
  \<open>services/connectivity.py\<close>, and from \<open>services/streaming_inventory.py\<close> the freshness derived from
  it at read time and the evidence one RFID event adds to it.
\<close>

record connectivity =
  cn_tenant :: uuid
  cn_store :: uuid
  gateway_last_heartbeat :: "timestamp option"
  status_received_at :: timestamp
  last_live_event_at :: "timestamp option"
  last_live_received_at :: "timestamp option"
  oldest_buffered_event_at :: "timestamp option"
  cn_backlog_drained :: bool
  cn_reader_coverage_ok :: bool
  cn_freshness :: freshness_status
  inventory_reconciliation_required_at :: "timestamp option"

definition cn_key :: "connectivity \<Rightarrow> uuid \<times> uuid" where
  "cn_key c = (cn_tenant c, cn_store c)"

subsection \<open>The receipt lock\<close>

text \<open>The values the conflict-safe insert writes for a store's first receipt.\<close>

definition first_receipt :: "uuid \<Rightarrow> uuid \<Rightarrow> timestamp \<Rightarrow> bool \<Rightarrow> bool \<Rightarrow> connectivity" where
  "first_receipt tenant store received_at drained coverage =
     \<lparr>cn_tenant = tenant, cn_store = store, gateway_last_heartbeat = Some received_at,
      status_received_at = received_at, last_live_event_at = None, last_live_received_at = None,
      oldest_buffered_event_at = None, cn_backlog_drained = drained,
      cn_reader_coverage_ok = coverage, cn_freshness = STALE,
      inventory_reconciliation_required_at = None\<rparr>"

text \<open>What the locked row becomes: the heartbeat always, the status from the newest receipt only.\<close>

definition apply_receipt :: "timestamp \<Rightarrow> bool \<Rightarrow> bool \<Rightarrow> connectivity \<Rightarrow> connectivity" where
  "apply_receipt received_at drained coverage c =
     (let c1 = (if (case gateway_last_heartbeat c of None \<Rightarrow> True | Some hb \<Rightarrow> hb < received_at)
                then c\<lparr>gateway_last_heartbeat := Some received_at\<rparr> else c)
      in if status_received_at c1 \<le> received_at
         then let c2 = c1\<lparr>status_received_at := received_at, cn_backlog_drained := drained,
                          cn_reader_coverage_ok := coverage\<rparr>
              in if \<not> drained \<or> \<not> coverage then c2\<lparr>cn_freshness := STALE\<rparr> else c2
         else c1)"

definition lock_store_connectivity_for_receipt ::
    "connectivity list \<Rightarrow> uuid \<Rightarrow> uuid \<Rightarrow> timestamp \<Rightarrow> bool \<Rightarrow> bool
       \<Rightarrow> connectivity list \<times> connectivity \<times> bool" where
  "lock_store_connectivity_for_receipt rows tenant store received_at drained coverage =
     (let row = (case get_by cn_key (tenant, store) rows of
                   Some c \<Rightarrow> c
                 | None \<Rightarrow> first_receipt tenant store received_at drained coverage);
          row' = apply_receipt received_at drained coverage row
      in (put_by cn_key row' rows, row', status_received_at row \<le> received_at))"

lemma cn_key_apply_receipt [simp]: "cn_key (apply_receipt r d k c) = cn_key c"
  by (simp add: apply_receipt_def Let_def cn_key_def)

lemma cn_key_first_receipt [simp]: "cn_key (first_receipt t s r d k) = (t, s)"
  by (simp add: first_receipt_def cn_key_def)

lemma apply_receipt_status_mono: "status_received_at c \<le> status_received_at (apply_receipt r d k c)"
  by (simp add: apply_receipt_def Let_def)

lemma apply_receipt_stale:
  assumes "r < status_received_at c"
  shows "apply_receipt r d k c =
    c\<lparr>gateway_last_heartbeat := max_opt (gateway_last_heartbeat c) (Some r)\<rparr>"
  using assms
  by (cases "gateway_last_heartbeat c") (auto simp: apply_receipt_def Let_def max_def)

lemma apply_receipt_current:
  assumes "status_received_at c \<le> r"
  shows "status_received_at (apply_receipt r d k c) = r"
    "cn_backlog_drained (apply_receipt r d k c) = d"
    "cn_reader_coverage_ok (apply_receipt r d k c) = k"
    "\<not> d \<or> \<not> k \<Longrightarrow> cn_freshness (apply_receipt r d k c) = STALE"
  using assms by (auto simp: apply_receipt_def Let_def)

lemma apply_receipt_heartbeat:
  "gateway_last_heartbeat (apply_receipt r d k c) = max_opt (gateway_last_heartbeat c) (Some r)"
  by (cases "gateway_last_heartbeat c") (auto simp: apply_receipt_def Let_def max_def)

lemma lock_current_flag:
  "lock_store_connectivity_for_receipt rows t s r d k = (rows', c, current) \<Longrightarrow>
     cn_key c = (t, s) \<and> get_by cn_key (t, s) rows' = Some c \<and>
     (current \<longrightarrow> status_received_at c = r \<and> cn_backlog_drained c = d \<and>
                 cn_reader_coverage_ok c = k)"
  by (auto simp: lock_store_connectivity_for_receipt_def Let_def table_simps apply_receipt_current
      split: option.splits dest!: get_by_SomeD)

subsection \<open>Freshness at read time\<close>

definition age :: "timestamp \<Rightarrow> timestamp \<Rightarrow> timestamp" where
  "age now moment = max 0 (now - moment)"

definition effective_freshness ::
    "connectivity option \<Rightarrow> settings \<Rightarrow> timestamp \<Rightarrow> freshness_status" where
  "effective_freshness connectivity settings now =
     (case connectivity of
        None \<Rightarrow> STALE
      | Some c \<Rightarrow>
          (case (gateway_last_heartbeat c, last_live_event_at c) of
             (Some heartbeat, Some live_event) \<Rightarrow>
               if \<not> cn_backlog_drained c \<or> oldest_buffered_event_at c \<noteq> None then STALE
               else if age now heartbeat > seconds (connectivity_stale_window_seconds settings) \<or>
                       age now live_event > seconds (connectivity_stale_window_seconds settings)
               then STALE
               else if inventory_reconciliation_required_at c \<noteq> None then DEGRADED
               else if cn_reader_coverage_ok c \<and>
                       age now heartbeat \<le> seconds (connectivity_live_window_seconds settings) \<and>
                       age now live_event \<le> seconds (connectivity_live_window_seconds settings)
               then LIVE
               else DEGRADED
           | _ \<Rightarrow> STALE))"

lemma age_mono: "now \<le> now' \<Longrightarrow> age now m \<le> age now' m"
  by (simp add: age_def)

lemma age_nonneg [simp]: "0 \<le> age now m"
  by (simp add: age_def)

text \<open>\<open>LIVE\<close>, stated positively.\<close>

lemma effective_freshness_LIVE_iff:
  assumes "connectivity_live_window_seconds settings < connectivity_stale_window_seconds settings"
  shows "effective_freshness connectivity settings now = LIVE \<longleftrightarrow>
    (\<exists>c heartbeat live_event. connectivity = Some c \<and>
       gateway_last_heartbeat c = Some heartbeat \<and> last_live_event_at c = Some live_event \<and>
       cn_backlog_drained c \<and> oldest_buffered_event_at c = None \<and>
       inventory_reconciliation_required_at c = None \<and> cn_reader_coverage_ok c \<and>
       age now heartbeat \<le> seconds (connectivity_live_window_seconds settings) \<and>
       age now live_event \<le> seconds (connectivity_live_window_seconds settings))"
proof -
  have "age now x \<le> seconds (connectivity_live_window_seconds settings) \<Longrightarrow>
      \<not> seconds (connectivity_stale_window_seconds settings) < age now x" for x
    using assms seconds_strict_mono [of "connectivity_live_window_seconds settings"
        "connectivity_stale_window_seconds settings"] by linarith
  then show ?thesis
    by (auto simp: effective_freshness_def split: option.splits if_splits)
qed

text \<open>How much a status is trusted; time alone only lowers it.\<close>

fun trust :: "freshness_status \<Rightarrow> nat" where
  "trust LIVE = 2"
| "trust DEGRADED = 1"
| "trust STALE = 0"

lemma effective_freshness_decays:
  assumes "now \<le> now'"
  shows "trust (effective_freshness connectivity settings now')
    \<le> trust (effective_freshness connectivity settings now)"
proof -
  have later: "age now x \<le> age now' x" for x using assms by (rule age_mono)
  have "age now' x \<le> w \<Longrightarrow> age now x \<le> w" "w < age now x \<Longrightarrow> w < age now' x" for x w
    using later [of x] by linarith+
  then show ?thesis
    by (auto simp: effective_freshness_def split: option.splits)
qed

subsection \<open>Evidence from one event\<close>

definition apply_connectivity_observation ::
    "connectivity \<Rightarrow> rfid_event \<Rightarrow> settings \<Rightarrow> bool \<Rightarrow> connectivity" where
  "apply_connectivity_observation c event settings is_current_receipt =
     (if ev_is_buffered event then
        if is_current_receipt then
          let live_has_resumed =
                ev_backlog_drained event \<and>
                (case last_live_received_at c of None \<Rightarrow> False | Some r \<Rightarrow> ev_received_at event \<le> r)
          in if live_has_resumed then c
             else
               let c1 = (if (case oldest_buffered_event_at c of
                               None \<Rightarrow> True | Some oldest \<Rightarrow> ev_observed_at event < oldest)
                         then c\<lparr>oldest_buffered_event_at := Some (ev_observed_at event)\<rparr> else c)
               in c1\<lparr>cn_backlog_drained := False, cn_freshness := STALE\<rparr>
        else c
      else
        let c1 = (if (case last_live_received_at c of
                        None \<Rightarrow> True | Some r \<Rightarrow> r < ev_received_at event)
                  then c\<lparr>last_live_received_at := Some (ev_received_at event)\<rparr> else c);
            c2 = (if (case last_live_event_at c1 of
                        None \<Rightarrow> True
                      | Some l \<Rightarrow> seconds (rfid_last_seen_flush_seconds settings)
                                    \<le> ev_observed_at event - l)
                  then c1\<lparr>last_live_event_at := Some (ev_observed_at event)\<rparr> else c1)
        in if is_current_receipt then
             let c3 = (if ev_backlog_drained event
                       then c2\<lparr>oldest_buffered_event_at := None\<rparr> else c2)
             in c3\<lparr>cn_freshness :=
                     effective_freshness (Some c3) settings (ev_received_at event)\<rparr>
           else c2)"

definition update_connectivity ::
    "connectivity list \<Rightarrow> rfid_event \<Rightarrow> settings \<Rightarrow> connectivity list" where
  "update_connectivity rows event settings =
     (case lock_store_connectivity_for_receipt rows (ev_tenant event) (ev_store event)
             (ev_received_at event) (ev_backlog_drained event) (ev_reader_coverage_ok event) of
        (rows', c, is_current_receipt) \<Rightarrow>
          put_by cn_key (apply_connectivity_observation c event settings is_current_receipt) rows')"

lemma cn_key_apply_observation [simp]:
  "cn_key (apply_connectivity_observation c event settings current) = cn_key c"
  by (simp add: apply_connectivity_observation_def Let_def cn_key_def)

lemma apply_observation_keeps:
  "gateway_last_heartbeat (apply_connectivity_observation c event settings current)
     = gateway_last_heartbeat c"
  "status_received_at (apply_connectivity_observation c event settings current)
     = status_received_at c"
  "inventory_reconciliation_required_at (apply_connectivity_observation c event settings current)
     = inventory_reconciliation_required_at c"
  "cn_reader_coverage_ok (apply_connectivity_observation c event settings current)
     = cn_reader_coverage_ok c"
  by (simp_all add: apply_connectivity_observation_def Let_def)

text \<open>The row of the event's store after the update, as one function of the row before.\<close>

definition connectivity_after :: "connectivity option \<Rightarrow> rfid_event \<Rightarrow> settings \<Rightarrow> connectivity" where
  "connectivity_after before event settings =
     (let row = (case before of
                   Some c \<Rightarrow> c
                 | None \<Rightarrow> first_receipt (ev_tenant event) (ev_store event) (ev_received_at event)
                             (ev_backlog_drained event) (ev_reader_coverage_ok event))
      in apply_connectivity_observation
           (apply_receipt (ev_received_at event) (ev_backlog_drained event)
             (ev_reader_coverage_ok event) row)
           event settings (status_received_at row \<le> ev_received_at event))"

lemma cn_key_connectivity_after:
  "(\<And>c. before = Some c \<Longrightarrow> cn_key c = (ev_tenant event, ev_store event)) \<Longrightarrow>
     cn_key (connectivity_after before event settings) = (ev_tenant event, ev_store event)"
  by (cases before) (simp_all add: connectivity_after_def Let_def)

lemma get_update_connectivity:
  "get_by cn_key k (update_connectivity rows event settings) =
     (if k = (ev_tenant event, ev_store event)
      then Some (connectivity_after (get_by cn_key k rows) event settings)
      else get_by cn_key k rows)"
proof (cases "get_by cn_key (ev_tenant event, ev_store event) rows")
  case None
  then show ?thesis
    by (simp add: update_connectivity_def lock_store_connectivity_for_receipt_def Let_def
        table_simps connectivity_after_def)
next
  case (Some c)
  then have "cn_key c = (ev_tenant event, ev_store event)" by (auto dest: get_by_SomeD)
  with Some show ?thesis
    by (simp add: update_connectivity_def lock_store_connectivity_for_receipt_def Let_def
        table_simps connectivity_after_def)
qed

lemma update_connectivity_keys:
  "cn_key ` set (update_connectivity rows event settings)
     = insert (ev_tenant event, ev_store event) (cn_key ` set rows)"
  by (auto simp: update_connectivity_def lock_store_connectivity_for_receipt_def Let_def keys_put_by
      split: option.splits dest: get_by_SomeD)

lemma update_connectivity_distinct:
  "distinct (map cn_key rows) \<Longrightarrow> distinct (map cn_key (update_connectivity rows event settings))"
  by (auto simp: update_connectivity_def lock_store_connectivity_for_receipt_def Let_def
      distinct_put_by split: option.splits)

lemma connectivity_after_status_mono:
  "status_received_at c \<le> status_received_at (connectivity_after (Some c) event settings)"
  by (simp add: connectivity_after_def apply_observation_keeps apply_receipt_status_mono)

lemma connectivity_after_reconciliation:
  "inventory_reconciliation_required_at (connectivity_after (Some c) event settings)
     = inventory_reconciliation_required_at c"
  by (simp add: connectivity_after_def apply_observation_keeps apply_receipt_def Let_def)

subsection \<open>Properties\<close>

text \<open>
  Freshness is derived, never trusted: a store counts as LIVE exactly when its gateway heartbeat
  and its last live event are both within the live window, the backlog is drained with no buffered
  event outstanding, every reader is covered and no projection rebuild is owed; any passage of time
  without new evidence can only lower the derived status.
\<close>

theorem freshness_is_earned:
  assumes "settings_ok settings"
  shows "(effective_freshness connectivity settings now = LIVE \<longleftrightarrow>
      (\<exists>c heartbeat live_event. connectivity = Some c \<and>
         gateway_last_heartbeat c = Some heartbeat \<and> last_live_event_at c = Some live_event \<and>
         cn_backlog_drained c \<and> oldest_buffered_event_at c = None \<and>
         inventory_reconciliation_required_at c = None \<and> cn_reader_coverage_ok c \<and>
         age now heartbeat \<le> seconds (connectivity_live_window_seconds settings) \<and>
         age now live_event \<le> seconds (connectivity_live_window_seconds settings))) \<and>
    (now \<le> now' \<longrightarrow>
       trust (effective_freshness connectivity settings now')
         \<le> trust (effective_freshness connectivity settings now))"
  using effective_freshness_LIVE_iff [OF settings_okD(7) [OF assms]] effective_freshness_decays
  by blast

theorem freshness_is_earned_witness:
  "effective_freshness
     (Some ((first_receipt 1 2 0 True True)\<lparr>last_live_event_at := Some 0\<rparr>))
     default_settings 0 = LIVE \<and>
   trust (effective_freshness
     (Some ((first_receipt 1 2 0 True True)\<lparr>last_live_event_at := Some 0\<rparr>))
     default_settings (seconds 601)) \<le> 2"
proof -
  let ?c = "Some ((first_receipt 1 2 0 True True)\<lparr>last_live_event_at := Some 0\<rparr>)"
  have live: "effective_freshness ?c default_settings 0 = LIVE"
    unfolding freshness_is_earned [OF default_settings_ok, THEN conjunct1]
    by (simp add: first_receipt_def age_def)
  moreover have "trust (effective_freshness ?c default_settings (seconds 601)) \<le> 2"
    using freshness_is_earned [OF default_settings_ok, of ?c 0 "seconds 601"] live by simp
  ultimately show ?thesis by blast
qed

text \<open>
  A delayed receipt never replaces newer gateway status: processing an event whose receipt is
  older than the row's status leaves the drained and coverage flags, the buffered watermark, the
  stored status and the status clock as they are, and the heartbeat never moves backwards.
\<close>

theorem delayed_receipt_keeps_status:
  assumes "get_by cn_key (ev_tenant event, ev_store event) rows = Some c"
    and "ev_received_at event < status_received_at c"
  shows "\<exists>c'. get_by cn_key (ev_tenant event, ev_store event)
                (update_connectivity rows event settings) = Some c' \<and>
      status_received_at c' = status_received_at c \<and>
      cn_backlog_drained c' = cn_backlog_drained c \<and>
      cn_reader_coverage_ok c' = cn_reader_coverage_ok c \<and>
      oldest_buffered_event_at c' = oldest_buffered_event_at c \<and>
      cn_freshness c' = cn_freshness c \<and>
      gateway_last_heartbeat c' = max_opt (gateway_last_heartbeat c) (Some (ev_received_at event))"
  using assms
  by (simp add: get_update_connectivity connectivity_after_def apply_receipt_stale
      apply_connectivity_observation_def Let_def)

theorem delayed_receipt_keeps_status_witness:
  "\<exists>c'. get_by cn_key (1, 2)
          (update_connectivity [first_receipt 1 2 (seconds 200) True True] sample_event
             default_settings) = Some c' \<and>
     status_received_at c' = seconds 200"
  using delayed_receipt_keeps_status [of sample_event
      "[first_receipt 1 2 (seconds 200) True True]"
      "first_receipt 1 2 (seconds 200) True True" default_settings]
  by (auto simp: sample_event_def first_receipt_def cn_key_def)

text \<open>Two deliveries of one receipt: the connection flags of a batch are the same for its events.\<close>

definition same_receipt :: "rfid_event \<Rightarrow> rfid_event \<Rightarrow> bool" where
  "same_receipt e e' \<longleftrightarrow>
     ev_tenant e = ev_tenant e' \<and> ev_store e = ev_store e' \<and>
     ev_received_at e = ev_received_at e' \<and> ev_backlog_drained e = ev_backlog_drained e' \<and>
     ev_reader_coverage_ok e = ev_reader_coverage_ok e'"

lemma apply_receipt_eq:
  "apply_receipt r d k c =
     (if status_received_at c \<le> r
      then c\<lparr>gateway_last_heartbeat := max_opt (gateway_last_heartbeat c) (Some r),
             status_received_at := r, cn_backlog_drained := d, cn_reader_coverage_ok := k,
             cn_freshness := (if d \<and> k then cn_freshness c else STALE)\<rparr>
      else c\<lparr>gateway_last_heartbeat := max_opt (gateway_last_heartbeat c) (Some r)\<rparr>)"
  by (cases "gateway_last_heartbeat c") (auto simp: apply_receipt_def Let_def max_def)

definition throttled :: "settings \<Rightarrow> timestamp option \<Rightarrow> timestamp \<Rightarrow> timestamp option" where
  "throttled settings prev observed =
     (case prev of
        None \<Rightarrow> Some observed
      | Some l \<Rightarrow> if seconds (rfid_last_seen_flush_seconds settings) \<le> observed - l
                  then Some observed else prev)"

lemma noop_updates:
  "last_live_received_at c = r \<Longrightarrow> c\<lparr>last_live_received_at := r\<rparr> = c"
  "last_live_event_at c = l \<Longrightarrow> c\<lparr>last_live_event_at := l\<rparr> = c"
  "oldest_buffered_event_at c = b \<Longrightarrow> c\<lparr>oldest_buffered_event_at := b\<rparr> = c"
  by (cases c, simp)+

lemma apply_live_eq:
  assumes "\<not> ev_is_buffered e"
  shows "apply_connectivity_observation c e settings current =
    (let c2 = c\<lparr>last_live_received_at := max_opt (last_live_received_at c) (Some (ev_received_at e)),
               last_live_event_at := throttled settings (last_live_event_at c) (ev_observed_at e)\<rparr>;
         c3 = c2\<lparr>oldest_buffered_event_at :=
                   (if ev_backlog_drained e then None else oldest_buffered_event_at c)\<rparr>
     in if current
        then c3\<lparr>cn_freshness := effective_freshness (Some c3) settings (ev_received_at e)\<rparr>
        else c2)"
proof -
  let ?c1 = "c\<lparr>last_live_received_at := max_opt (last_live_received_at c) (Some (ev_received_at e))\<rparr>"
  have c1: "(if (case last_live_received_at c of None \<Rightarrow> True | Some r \<Rightarrow> r < ev_received_at e)
             then c\<lparr>last_live_received_at := Some (ev_received_at e)\<rparr> else c) = ?c1"
    by (cases "last_live_received_at c") (auto simp: max_def noop_updates)
  have c2: "(if (case last_live_event_at ?c1 of None \<Rightarrow> True
                  | Some l \<Rightarrow> seconds (rfid_last_seen_flush_seconds settings)
                                \<le> ev_observed_at e - l)
             then ?c1\<lparr>last_live_event_at := Some (ev_observed_at e)\<rparr> else ?c1)
      = ?c1\<lparr>last_live_event_at := throttled settings (last_live_event_at c) (ev_observed_at e)\<rparr>"
    by (cases "last_live_event_at c") (auto simp: throttled_def noop_updates)
  have c3: "(if ev_backlog_drained e then x\<lparr>oldest_buffered_event_at := None\<rparr> else x)
      = x\<lparr>oldest_buffered_event_at :=
            (if ev_backlog_drained e then None else oldest_buffered_event_at x)\<rparr>" for x
    by (simp add: noop_updates)
  show ?thesis
    using assms
    by (simp only: apply_connectivity_observation_def if_False Let_def c1 c2 c3) simp
qed

lemma apply_buffered_eq:
  assumes "ev_is_buffered e"
  shows "apply_connectivity_observation c e settings current =
    (if current \<and> \<not> (ev_backlog_drained e \<and>
          (\<exists>r. last_live_received_at c = Some r \<and> ev_received_at e \<le> r))
     then c\<lparr>oldest_buffered_event_at :=
              Some (case oldest_buffered_event_at c of None \<Rightarrow> ev_observed_at e
                    | Some oldest \<Rightarrow> min oldest (ev_observed_at e)),
            cn_backlog_drained := False, cn_freshness := STALE\<rparr>
     else c)"
proof -
  have oldest: "(if (case oldest_buffered_event_at c of
                       None \<Rightarrow> True | Some oldest \<Rightarrow> ev_observed_at e < oldest)
                 then c\<lparr>oldest_buffered_event_at := Some (ev_observed_at e)\<rparr> else c)
      = c\<lparr>oldest_buffered_event_at :=
            Some (case oldest_buffered_event_at c of None \<Rightarrow> ev_observed_at e
                  | Some oldest \<Rightarrow> min oldest (ev_observed_at e))\<rparr>"
    by (cases "oldest_buffered_event_at c") (auto simp: min_def noop_updates)
  have resumed: "(case last_live_received_at c of None \<Rightarrow> False | Some r \<Rightarrow> ev_received_at e \<le> r)
      \<longleftrightarrow> (\<exists>r. last_live_received_at c = Some r \<and> ev_received_at e \<le> r)"
    by (simp split: option.splits)
  show ?thesis
    using assms
    by (simp only: apply_connectivity_observation_def if_True Let_def oldest resumed) auto
qed

text \<open>The derived status as a function of the fields it reads.\<close>

definition derive_freshness ::
    "settings \<Rightarrow> timestamp \<Rightarrow> timestamp option \<Rightarrow> timestamp option \<Rightarrow> bool \<Rightarrow> timestamp option
       \<Rightarrow> timestamp option \<Rightarrow> bool \<Rightarrow> freshness_status" where
  "derive_freshness settings now heartbeat live drained oldest reconcile coverage =
     effective_freshness
       (Some \<lparr>cn_tenant = 0, cn_store = 0, gateway_last_heartbeat = heartbeat,
         status_received_at = 0, last_live_event_at = live, last_live_received_at = None,
         oldest_buffered_event_at = oldest, cn_backlog_drained = drained,
         cn_reader_coverage_ok = coverage, cn_freshness = STALE,
         inventory_reconciliation_required_at = reconcile\<rparr>) settings now"

lemma effective_freshness_derive:
  "effective_freshness (Some c) settings now =
     derive_freshness settings now (gateway_last_heartbeat c) (last_live_event_at c)
       (cn_backlog_drained c) (oldest_buffered_event_at c)
       (inventory_reconciliation_required_at c) (cn_reader_coverage_ok c)"
  by (simp add: derive_freshness_def effective_freshness_def split: option.splits)

lemma derive_freshness_backlog [simp]:
  "derive_freshness settings now hb live False oldest reconcile coverage = STALE"
  by (simp add: derive_freshness_def effective_freshness_def split: option.splits)

lemma max_opt_idem [simp]: "max_opt (max_opt x y) y = max_opt x y"
  by (cases x; cases y) auto

lemma max_opt_Some_ge: "\<exists>m. max_opt x (Some a) = Some m \<and> a \<le> m"
  by (cases x) auto

text \<open>One delivery with full coverage, branch by branch.\<close>

lemma after_live:
  assumes "\<not> ev_is_buffered e" "ev_reader_coverage_ok e" "status_received_at c \<le> ev_received_at e"
  shows "connectivity_after (Some c) e settings =
    (let x = c\<lparr>gateway_last_heartbeat := max_opt (gateway_last_heartbeat c) (Some (ev_received_at e)),
               status_received_at := ev_received_at e,
               last_live_event_at := throttled settings (last_live_event_at c) (ev_observed_at e),
               last_live_received_at := max_opt (last_live_received_at c) (Some (ev_received_at e)),
               oldest_buffered_event_at :=
                 (if ev_backlog_drained e then None else oldest_buffered_event_at c),
               cn_backlog_drained := ev_backlog_drained e, cn_reader_coverage_ok := True\<rparr>
     in x\<lparr>cn_freshness := effective_freshness (Some x) settings (ev_received_at e)\<rparr>)"
  using assms
  by (cases c) (simp add: connectivity_after_def apply_receipt_eq apply_live_eq Let_def
      effective_freshness_derive)

lemma after_buffered_resumed:
  assumes "ev_is_buffered e" "ev_reader_coverage_ok e" "status_received_at c \<le> ev_received_at e"
    "ev_backlog_drained e" "last_live_received_at c = Some m" "ev_received_at e \<le> m"
  shows "connectivity_after (Some c) e settings =
    c\<lparr>gateway_last_heartbeat := max_opt (gateway_last_heartbeat c) (Some (ev_received_at e)),
      status_received_at := ev_received_at e,
      cn_backlog_drained := True, cn_reader_coverage_ok := True\<rparr>"
  using assms by (cases c) (auto simp: connectivity_after_def apply_receipt_eq apply_buffered_eq)

lemma after_buffered_pending:
  assumes "ev_is_buffered e" "ev_reader_coverage_ok e" "status_received_at c \<le> ev_received_at e"
    "\<not> (ev_backlog_drained e \<and> (\<exists>r. last_live_received_at c = Some r \<and> ev_received_at e \<le> r))"
  shows "connectivity_after (Some c) e settings =
    c\<lparr>gateway_last_heartbeat := max_opt (gateway_last_heartbeat c) (Some (ev_received_at e)),
      status_received_at := ev_received_at e,
      oldest_buffered_event_at :=
        Some (case oldest_buffered_event_at c of None \<Rightarrow> ev_observed_at e
              | Some oldest \<Rightarrow> min oldest (ev_observed_at e)),
      cn_backlog_drained := False, cn_reader_coverage_ok := True, cn_freshness := STALE\<rparr>"
  using assms by (cases c) (auto simp: connectivity_after_def apply_receipt_eq apply_buffered_eq)

lemma live_then_buffered_commutes:
  assumes "same_receipt e e'" "ev_reader_coverage_ok e" "\<not> ev_is_buffered e" "ev_is_buffered e'"
  shows "connectivity_after (Some (connectivity_after before e settings)) e' settings
       = connectivity_after (Some (connectivity_after before e' settings)) e settings"
proof -
  define c where "c = (case before of Some c \<Rightarrow> c
     | None \<Rightarrow> first_receipt (ev_tenant e) (ev_store e) (ev_received_at e)
                 (ev_backlog_drained e) (ev_reader_coverage_ok e))"
  let ?L = "connectivity_after (Some c) e settings" and ?B = "connectivity_after (Some c) e' settings"
  have same: "ev_received_at e' = ev_received_at e" "ev_backlog_drained e' = ev_backlog_drained e"
    "ev_reader_coverage_ok e'" "connectivity_after before e settings = ?L"
    "connectivity_after before e' settings = ?B"
    using assms by (auto simp: same_receipt_def c_def connectivity_after_def split: option.splits)
  obtain m where m: "max_opt (last_live_received_at c) (Some (ev_received_at e)) = Some m"
    "ev_received_at e \<le> m" "max_opt (Some m) (Some (ev_received_at e)) = Some m"
    using max_opt_Some_ge [of "last_live_received_at c" "ev_received_at e"] by auto
  note live = after_live [OF assms(3,2)]
  note pending = after_buffered_pending [OF assms(4) same(3), unfolded same(1,2)]
  note resumed = after_buffered_resumed [OF assms(4) same(3), unfolded same(1,2)]
  have "connectivity_after (Some ?L) e' settings = connectivity_after (Some ?B) e settings"
  proof (cases "status_received_at c \<le> ev_received_at e")
    case False
    then show ?thesis
      using assms same(1-3)
      by (simp add: connectivity_after_def apply_receipt_eq apply_live_eq apply_buffered_eq Let_def)
  next
    case current: True
    show ?thesis
    proof (cases "ev_backlog_drained e")
      case True
      have L: "connectivity_after (Some ?L) e' settings = ?L"
        by (subst resumed [of _ m]) (simp_all add: live current True m Let_def)
      show ?thesis
      proof (cases "\<exists>r. last_live_received_at c = Some r \<and> ev_received_at e \<le> r")
        case resumed_before: True
        then obtain r where r: "last_live_received_at c = Some r" "ev_received_at e \<le> r" by auto
        show ?thesis
          unfolding L unfolding resumed [OF current True r]
          by (subst (1 2) live) (simp_all add: current True Let_def effective_freshness_derive)
      next
        case False
        then have B: "\<not> (ev_backlog_drained e \<and>
            (\<exists>r. last_live_received_at c = Some r \<and> ev_received_at e \<le> r))" by simp
        show ?thesis
          unfolding L unfolding pending [OF current B]
          by (subst (1 2) live) (simp_all add: current True Let_def effective_freshness_derive)
      qed
    next
      case False
      then have B: "\<not> (ev_backlog_drained e \<and>
          (\<exists>r. last_live_received_at x = Some r \<and> ev_received_at e \<le> r))" for x by simp
      have "connectivity_after (Some ?L) e' settings =
          ?L\<lparr>oldest_buffered_event_at :=
            Some (case oldest_buffered_event_at c of None \<Rightarrow> ev_observed_at e'
                  | Some oldest \<Rightarrow> min oldest (ev_observed_at e')),
            cn_freshness := STALE\<rparr>"
        by (subst pending [OF _ B]) (simp_all add: live current False Let_def)
      also have "\<dots> = connectivity_after (Some ?B) e settings"
        unfolding pending [OF current B]
        by (subst (1 2) live) (simp_all add: current False Let_def effective_freshness_derive)
      finally show ?thesis .
    qed
  qed
  then show ?thesis by (simp only: same)
qed

text \<open>
  With full reader coverage the order in which one receipt's live and buffered events are processed
  does not matter: swapping a live and a buffered event of the same receipt leaves every connectivity
  row of every store the same.
\<close>

theorem same_receipt_evidence_commutes:
  assumes "same_receipt e e'" "ev_reader_coverage_ok e" "\<not> ev_is_buffered e" "ev_is_buffered e'"
  shows "get_by cn_key k (update_connectivity (update_connectivity rows e settings) e' settings)
       = get_by cn_key k (update_connectivity (update_connectivity rows e' settings) e settings)"
proof -
  have "ev_tenant e' = ev_tenant e" "ev_store e' = ev_store e"
    using assms(1) by (simp_all add: same_receipt_def)
  then show ?thesis
    using live_then_buffered_commutes [OF assms] by (simp add: get_update_connectivity)
qed

theorem same_receipt_evidence_commutes_witness:
  "get_by cn_key (1, 2) (update_connectivity (update_connectivity [] sample_event default_settings)
       (sample_event\<lparr>ev_is_buffered := True\<rparr>) default_settings)
   = get_by cn_key (1, 2) (update_connectivity (update_connectivity []
       (sample_event\<lparr>ev_is_buffered := True\<rparr>) default_settings) sample_event default_settings)"
  by (rule same_receipt_evidence_commutes) (simp_all add: same_receipt_def sample_event_def)

text \<open>
  C38: Without full coverage the stored status does depend on that order: for a store's first receipt
  with a reader gap, processing the live event last stores DEGRADED, processing the buffered event
  last stores STALE, although both events carry the same receipt.
\<close>

theorem coverage_gap_status_depends_on_order:
  assumes "same_receipt e e'" "\<not> ev_reader_coverage_ok e" "ev_backlog_drained e"
    and "\<not> ev_is_buffered e" "ev_is_buffered e'"
    and "ev_received_at e - ev_observed_at e
           \<le> seconds (connectivity_stale_window_seconds settings)"
    and "settings_ok settings"
  shows "cn_freshness (connectivity_after (Some (connectivity_after None e' settings)) e settings)
           = DEGRADED \<and>
         cn_freshness (connectivity_after (Some (connectivity_after None e settings)) e' settings)
           = STALE"
proof -
  have "0 \<le> seconds (connectivity_stale_window_seconds settings)"
    using settings_okD(7,8) [OF assms(7)] by simp
  then have "age (ev_received_at e) (ev_observed_at e)
      \<le> seconds (connectivity_stale_window_seconds settings)"
    "age (ev_received_at e) (ev_received_at e)
      \<le> seconds (connectivity_stale_window_seconds settings)"
    using assms(6) by (simp_all add: age_def)
  then show ?thesis
    using assms(1-5)
    by (simp_all add: connectivity_after_def apply_receipt_eq apply_live_eq apply_buffered_eq
        same_receipt_def first_receipt_def Let_def throttled_def effective_freshness_def)
qed

theorem coverage_gap_status_depends_on_order_witness:
  "cn_freshness (connectivity_after (Some (connectivity_after None
       (sample_event\<lparr>ev_reader_coverage_ok := False\<rparr>) default_settings))
     (sample_event\<lparr>ev_reader_coverage_ok := False, ev_is_buffered := True\<rparr>) default_settings) = STALE"
  by (rule coverage_gap_status_depends_on_order [THEN conjunct2])
    (simp_all add: same_receipt_def sample_event_def default_settings_ok seconds_def)

end
