(* ===== verification/Tables.thy ===== *)
theory Tables
  imports Codes Connectivity
begin

text \<open>
  The tables of \<open>models/architecture.py\<close>, \<open>models/tenancy.py\<close> and \<open>models/catalog.py\<close> that the
  streaming pipeline reads and writes: one record per row with the columns of the mapped class, the
  row-level CHECK constraints as predicates, and the database as the record of all tables.  Columns
  filled by the server and never read by the code (\<open>updated_at\<close>) are left out.
\<close>

subsection \<open>Registry rows\<close>

record store_row =
  st_tenant :: uuid
  st_id :: uuid
  st_status :: store_status

record zone_row =
  zn_tenant :: uuid
  zn_id :: uuid
  zn_store :: uuid
  zn_kind :: zone_kind

record device =
  dv_tenant :: uuid
  dv_id :: uuid
  dv_status :: device_status
  dv_credential_hash :: "string option"

record assignment =
  as_tenant :: uuid
  as_device :: uuid
  as_store :: uuid
  as_zone :: uuid
  as_from :: timestamp
  as_to :: "timestamp option"

record epc_binding =
  bd_tenant :: uuid
  bd_sku :: uuid
  bd_epc :: string
  bd_from :: timestamp
  bd_to :: "timestamp option"

text \<open>A half-open effective interval, as the queries on assignments and bindings test it.\<close>

definition effective :: "timestamp \<Rightarrow> timestamp option \<Rightarrow> timestamp \<Rightarrow> bool" where
  "effective from to at_time \<longleftrightarrow> from \<le> at_time \<and> (case to of None \<Rightarrow> True | Some t \<Rightarrow> at_time < t)"

subsection \<open>Observation rows\<close>

datatype disposition =
  PROCESSED | DUPLICATE | LATE | QUARANTINED | AMBIGUOUS | REMOVED_ITEM_OBSERVED | REPLAY_QUEUED

text \<open>
  A JSON payload of the durable inbox: an object that carries the fields of an event, or one that
  does not fit the event's schema.
\<close>

datatype raw_payload = EventPayload rfid_event | MalformedPayload string

definition event_fields_valid :: "rfid_event \<Rightarrow> bool" where
  "event_fields_valid e \<longleftrightarrow>
     1 \<le> length (ev_event_id e) \<and> length (ev_event_id e) \<le> 128 \<and>
     4 \<le> length (ev_epc e) \<and> length (ev_epc e) \<le> 128 \<and>
     (case ev_antenna e of None \<Rightarrow> True | Some a \<Rightarrow> length a \<le> 128) \<and>
     0 \<le> ev_reader_health e \<and> ev_reader_health e \<le> 1"

definition validate_event :: "raw_payload \<Rightarrow> rfid_event outcome" where
  "validate_event payload =
     (case payload of
        MalformedPayload m \<Rightarrow> Inl (ValueError m)
      | EventPayload e \<Rightarrow>
          if \<not> event_fields_valid e then Inl (ValueError ''RfidObservationEvent'')
          else and_then (normalize_epc (ev_epc e)) (\<lambda>epc. Inr (e\<lparr>ev_epc := epc\<rparr>)))"

record observation_batch =
  ob_tenant :: uuid
  ob_id :: uuid
  ob_device :: uuid
  ob_store :: uuid
  ob_zone :: uuid
  ob_status :: observation_batch_status
  ob_accepted :: int
  ob_processed :: int
  ob_rejected :: int
  ob_received_at :: timestamp
  ob_completed_at :: "timestamp option"

definition batch_pending_count :: "observation_batch \<Rightarrow> int" where
  "batch_pending_count b = ob_accepted b - ob_processed b - ob_rejected b"

definition batch_checks :: "observation_batch \<Rightarrow> bool" where
  "batch_checks b \<longleftrightarrow>
     0 \<le> ob_accepted b \<and> 0 \<le> ob_processed b \<and> 0 \<le> ob_rejected b \<and>
     ob_processed b + ob_rejected b \<le> ob_accepted b"

record ledger_row =
  lg_tenant :: uuid
  lg_event_id :: string
  lg_fingerprint :: string
  lg_device :: uuid
  lg_store :: uuid
  lg_zone :: uuid
  lg_epc :: string
  lg_observed_at :: timestamp
  lg_first_received_at :: timestamp
  lg_rssi :: real
  lg_antenna :: "string option"
  lg_reader_health :: real
  lg_is_buffered :: bool
  lg_backlog_drained :: bool
  lg_reader_coverage_ok :: bool
  lg_status :: event_processing_status
  lg_disposition :: "disposition option"
  lg_rejection_reason :: "string option"
  lg_processed_at :: "timestamp option"

definition lg_key :: "ledger_row \<Rightarrow> uuid \<times> string" where
  "lg_key l = (lg_tenant l, lg_event_id l)"

record batch_event =
  be_tenant :: uuid
  be_batch :: uuid
  be_event_id :: string
  be_status :: event_processing_status
  be_disposition :: "disposition option"
  be_rejection_reason :: "string option"
  be_finalized_at :: "timestamp option"

definition be_event_key :: "batch_event \<Rightarrow> uuid \<times> string" where
  "be_event_key l = (be_tenant l, be_event_id l)"

definition be_batch_key :: "batch_event \<Rightarrow> uuid \<times> uuid" where
  "be_batch_key l = (be_tenant l, be_batch l)"

definition ob_key :: "observation_batch \<Rightarrow> uuid \<times> uuid" where
  "ob_key b = (ob_tenant b, ob_id b)"

record raw_outbox =
  ro_tenant :: uuid
  ro_id :: uuid
  ro_event_id :: string
  ro_acceptance_sequence :: int
  ro_partition_key :: string
  ro_payload :: raw_payload
  ro_published_at :: "timestamp option"
  ro_publish_attempts :: int
  ro_last_error :: "fault option"

record quarantine =
  qr_tenant :: uuid
  qr_id :: uuid
  qr_batch :: uuid
  qr_event_id :: "string option"
  qr_reason :: string
  qr_payload :: raw_payload
  qr_quarantined_at :: timestamp

subsection \<open>Inventory rows\<close>

record item_state =
  it_tenant :: uuid
  it_epc :: string
  it_sku :: uuid
  it_store :: "uuid option"
  it_zone :: "uuid option"
  it_last_observed_at :: timestamp
  it_last_received_at :: timestamp
  it_confidence :: real
  it_version :: int
  it_removal_event :: "uuid option"
  it_removed_at :: "timestamp option"

definition it_key :: "item_state \<Rightarrow> uuid \<times> string" where
  "it_key s = (it_tenant s, it_epc s)"

definition item_state_checks :: "item_state \<Rightarrow> bool" where
  "item_state_checks s \<longleftrightarrow>
     0 \<le> it_confidence s \<and> it_confidence s \<le> 1 \<and> 1 \<le> it_version s \<and>
     (it_store s = None \<longleftrightarrow> it_zone s = None) \<and>
     (it_removal_event s = None \<or> it_store s = None \<and> it_zone s = None) \<and>
     (it_removal_event s = None \<longleftrightarrow> it_removed_at s = None)"

text \<open>
  One element of the JSON list of a transition: an object that fits the delta schema, or one that
  does not, of which only the store may be readable.
\<close>

datatype delta_payload = DeltaPayload inventory_delta | CorruptDelta "uuid option"
datatype deltas_json = DeltaList "delta_payload list" | NotAList

record transition =
  tr_id :: uuid
  tr_tenant :: uuid
  tr_epc :: string
  tr_version :: int
  tr_deltas :: deltas_json
  tr_created_at :: timestamp
  tr_published_at :: "timestamp option"
  tr_quarantined_at :: "timestamp option"
  tr_quarantine_reason :: "string option"
  tr_reconciled_at :: "timestamp option"
  tr_publish_attempts :: int
  tr_last_error :: "fault option"

definition transition_checks :: "transition \<Rightarrow> bool" where
  "transition_checks t \<longleftrightarrow>
     \<not> (tr_published_at t \<noteq> None \<and> tr_quarantined_at t \<noteq> None) \<and>
     (tr_quarantined_at t = None \<and> tr_quarantine_reason t = None \<and> tr_reconciled_at t = None \<or>
      tr_quarantined_at t \<noteq> None \<and> tr_quarantine_reason t \<noteq> None)"

definition tr_item_version :: "transition \<Rightarrow> uuid \<times> string \<times> int" where
  "tr_item_version t = (tr_tenant t, tr_epc t, tr_version t)"

record applied_delta =
  ad_delta_id :: string
  ad_tenant :: uuid
  ad_store :: uuid
  ad_sku :: uuid
  ad_zone :: uuid
  ad_quantity :: int

type_synonym bucket = "uuid \<times> uuid \<times> uuid \<times> uuid"

record projection =
  pj_tenant :: uuid
  pj_store :: uuid
  pj_sku :: uuid
  pj_zone :: uuid
  pj_quantity :: int
  pj_as_of :: timestamp
  pj_confidence :: real
  pj_freshness :: freshness_status

definition pj_bucket :: "projection \<Rightarrow> bucket" where
  "pj_bucket p = (pj_tenant p, pj_store p, pj_sku p, pj_zone p)"

definition projection_checks :: "projection \<Rightarrow> bool" where
  "projection_checks p \<longleftrightarrow> 0 \<le> pj_quantity p \<and> 0 \<le> pj_confidence p \<and> pj_confidence p \<le> 1"

datatype business_event_type = SALE | TRANSFER_OUT | ADJUSTMENT_REMOVE

datatype business_status = PENDING_PROJECTION | PROJECTED | FAILED

record business_event =
  bz_tenant :: uuid
  bz_id :: uuid
  bz_store :: uuid
  bz_source_system :: string
  bz_external_event_id :: string
  bz_fingerprint :: string
  bz_type :: business_event_type
  bz_epc :: string
  bz_occurred_at :: timestamp
  bz_transition :: uuid
  bz_state_version :: int
  bz_note :: "string option"

definition bz_source_key :: "business_event \<Rightarrow> uuid \<times> string \<times> string" where
  "bz_source_key e = (bz_tenant e, bz_source_system e, bz_external_event_id e)"

subsection \<open>Task rows\<close>

datatype task_status =
  TASK_OPEN | TASK_CLAIMED | TASK_IN_PROGRESS | TASK_COMPLETED | TASK_CANCELED | TASK_EXPIRED

record task =
  tk_tenant :: uuid
  tk_id :: uuid
  tk_store :: uuid
  tk_sku :: uuid
  tk_policy_version :: uuid
  tk_policy_rule :: uuid
  tk_status :: task_status
  tk_quantity :: int
  tk_verified :: int
  tk_verification_deadline :: "timestamp option"
  tk_version :: int
  tk_claimed_by :: "uuid option"
  tk_claimed_at :: "timestamp option"
  tk_started_at :: "timestamp option"
  tk_completed_at :: "timestamp option"
  tk_expires_at :: "timestamp option"
  tk_note :: "string option"
  tk_created_at :: timestamp

definition task_checks :: "task \<Rightarrow> bool" where
  "task_checks t \<longleftrightarrow>
     0 < tk_quantity t \<and> 1 \<le> tk_version t \<and>
     0 \<le> tk_verified t \<and> tk_verified t \<le> tk_quantity t"

record task_evidence =
  te_tenant :: uuid
  te_task :: uuid
  te_transition :: uuid
  te_epc :: string
  te_observed_at :: timestamp

subsection \<open>The database\<close>

record db =
  stores :: "store_row list"
  zones :: "zone_row list"
  devices :: "device list"
  assignments :: "assignment list"
  bindings :: "epc_binding list"
  batches :: "observation_batch list"
  ledgers :: "ledger_row list"
  batch_events :: "batch_event list"
  raw_rows :: "raw_outbox list"
  quarantines :: "quarantine list"
  connectivity_rows :: "connectivity list"
  item_states :: "item_state list"
  transitions :: "transition list"
  applied_deltas :: "applied_delta list"
  projections :: "projection list"
  business_events :: "business_event list"
  tasks :: "task list"
  evidence_rows :: "task_evidence list"

definition empty_db :: db where
  "empty_db =
     \<lparr>stores = [], zones = [], devices = [], assignments = [], bindings = [], batches = [],
      ledgers = [], batch_events = [], raw_rows = [], quarantines = [], connectivity_rows = [],
      item_states = [], transitions = [], applied_deltas = [], projections = [],
      business_events = [], tasks = [], evidence_rows = []\<rparr>"

text \<open>The conditions \<open>published_at IS NULL AND quarantined_at IS NULL\<close> and their siblings.\<close>

definition tr_pending :: "transition \<Rightarrow> bool" where
  "tr_pending t \<longleftrightarrow> tr_published_at t = None \<and> tr_quarantined_at t = None"

definition tr_unreconciled :: "transition \<Rightarrow> bool" where
  "tr_unreconciled t \<longleftrightarrow> tr_quarantined_at t \<noteq> None \<and> tr_reconciled_at t = None"

text \<open>
  Adding a transition: the primary key, the unique item version, and the CHECK constraints of the row
  are enforced by the database when the session flushes.
\<close>

definition insert_transition :: "transition \<Rightarrow> db \<Rightarrow> db outcome" where
  "insert_transition t db =
     (if tr_id t \<in> tr_id ` set (transitions db) then Inl (IntegrityError ''inventory_transition_outbox_pkey'')
      else if tr_item_version t \<in> tr_item_version ` set (transitions db)
      then Inl (IntegrityError ''uq_outbox_item_state_version'')
      else Inr (db\<lparr>transitions := transitions db @ [t]\<rparr>))"

lemma insert_transition_InrD:
  assumes "insert_transition t db = Inr db'"
  shows "db' = db\<lparr>transitions := transitions db @ [t]\<rparr>"
    "tr_id t \<notin> tr_id ` set (transitions db)"
    "tr_item_version t \<notin> tr_item_version ` set (transitions db)"
  using assms by (auto simp: insert_transition_def split: if_splits)

end
