(* ===== verification/Ledger.thy ===== *)
theory Ledger
  imports Tables
begin

text \<open>
  The event ledger and the request batches of \<open>services/streaming_inventory.py\<close>: finalizing one
  durable event together with every batch that carried it (\<open>_advance_batch\<close>), terminal rejection
  (\<open>_quarantine\<close>), the processed watermark, and the accounting invariant that ties the counters and
  the status of a batch to the states of its events.
\<close>

subsection \<open>Queries\<close>

definition event_links :: "uuid \<times> string \<Rightarrow> db \<Rightarrow> batch_event list" where
  "event_links k db = filter (\<lambda>l. be_event_key l = k) (batch_events db)"

definition batch_links :: "uuid \<times> uuid \<Rightarrow> db \<Rightarrow> batch_event list" where
  "batch_links k db = filter (\<lambda>l. be_batch_key l = k) (batch_events db)"

definition count_status :: "event_processing_status \<Rightarrow> batch_event list \<Rightarrow> int" where
  "count_status s links = int (length (filter (\<lambda>l. be_status l = s) links))"

definition processed_observation_watermark :: "uuid \<Rightarrow> string \<Rightarrow> db \<Rightarrow> timestamp option" where
  "processed_observation_watermark tenant epc db =
     map_option lg_observed_at
       (best_by lg_observed_at
         (filter (\<lambda>l. lg_tenant l = tenant \<and> lg_epc l = epc \<and> lg_status l = EVENT_PROCESSED)
           (ledgers db)))"

subsection \<open>Finalizing an event\<close>

text \<open>The counters and the status of a locked batch, recomputed from all of its links.\<close>

definition settle_batch :: "timestamp \<Rightarrow> batch_event list \<Rightarrow> observation_batch \<Rightarrow> observation_batch" where
  "settle_batch finalized_at links b =
     (let processed = count_status EVENT_PROCESSED links;
          rejected = count_status EVENT_REJECTED links;
          b1 = b\<lparr>ob_processed := processed, ob_rejected := rejected\<rparr>;
          accounted = processed + rejected
      in if accounted = ob_accepted b then
           b1\<lparr>ob_status := (if rejected \<noteq> 0 then BATCH_COMPLETED_WITH_ERRORS else BATCH_COMPLETED),
              ob_completed_at := Some finalized_at\<rparr>
         else if accounted \<noteq> 0 then b1\<lparr>ob_status := BATCH_PROCESSING\<rparr>
         else b1)"

text \<open>
  A loop over the batches that carried an event: each is locked, missing ones raise, and its columns
  are recomputed from all of its links.
\<close>

fun update_batches ::
    "fault \<Rightarrow> (batch_event list \<Rightarrow> observation_batch \<Rightarrow> observation_batch) \<Rightarrow> uuid \<Rightarrow> uuid list \<Rightarrow> db
       \<Rightarrow> db outcome" where
  "update_batches missing f tenant [] db = Inr db"
| "update_batches missing f tenant (b # bs) db =
     (case get_by ob_key (tenant, b) (batches db) of
        None \<Rightarrow> Inl missing
      | Some _ \<Rightarrow>
          update_batches missing f tenant bs
            (db\<lparr>batches :=
               update_where (\<lambda>r. ob_key r = (tenant, b)) (f (batch_links (tenant, b) db)) (batches db)\<rparr>))"

definition settle_batches :: "uuid \<Rightarrow> timestamp \<Rightarrow> uuid list \<Rightarrow> db \<Rightarrow> db outcome" where
  "settle_batches tenant finalized_at =
     update_batches (ValueError ''RFID retry batch does not exist'') (settle_batch finalized_at) tenant"

definition terminal_ledger ::
    "bool \<Rightarrow> disposition option \<Rightarrow> string option \<Rightarrow> timestamp \<Rightarrow> ledger_row \<Rightarrow> ledger_row" where
  "terminal_ledger rejected disposition reason finalized_at l =
     l\<lparr>lg_status := (if rejected then EVENT_REJECTED else EVENT_PROCESSED),
       lg_disposition := Some (case disposition of
                                 Some d \<Rightarrow> d
                               | None \<Rightarrow> if rejected then QUARANTINED else PROCESSED),
       lg_rejection_reason := (if rejected then reason else None),
       lg_processed_at := Some finalized_at\<rparr>"

definition finalize_link :: "ledger_row \<Rightarrow> timestamp \<Rightarrow> batch_event \<Rightarrow> batch_event" where
  "finalize_link ledger finalized_at l =
     l\<lparr>be_status := lg_status ledger, be_disposition := lg_disposition ledger,
       be_rejection_reason := lg_rejection_reason ledger, be_finalized_at := Some finalized_at\<rparr>"

definition advance_batch ::
    "rfid_event \<Rightarrow> bool \<Rightarrow> disposition option \<Rightarrow> string option \<Rightarrow> timestamp \<Rightarrow> db \<Rightarrow> db outcome" where
  "advance_batch event rejected disposition reason now db =
     (let key = (ev_tenant event, ev_event_id event) in
      case get_by lg_key key (ledgers db) of
        None \<Rightarrow> Inl (ValueError ''RFID event ledger does not exist'')
      | Some ledger \<Rightarrow>
          if lg_status ledger \<noteq> EVENT_PENDING then Inr db
          else
            let ledger' = terminal_ledger rejected disposition reason now ledger;
                batch_ids = remdups (map be_batch (event_links key db))
            in settle_batches (ev_tenant event) now batch_ids
                 (db\<lparr>ledgers := put_by lg_key ledger' (ledgers db),
                     batch_events :=
                       update_where (\<lambda>l. be_event_key l = key) (finalize_link ledger' now)
                         (batch_events db)\<rparr>))"

record processing_result =
  pr_disposition :: disposition
  pr_reason :: "string option"
  pr_state_changed :: bool

text \<open>\<open>quarantine_id\<close> is the identifier drawn for the new row.\<close>

definition quarantine_event ::
    "rfid_event \<Rightarrow> string \<Rightarrow> raw_payload option \<Rightarrow> uuid \<Rightarrow> timestamp \<Rightarrow> db
       \<Rightarrow> (processing_result \<times> db) outcome" where
  "quarantine_event event reason payload quarantine_id now db =
     (let existing = select_one (\<lambda>q. qr_tenant q = ev_tenant event \<and>
                                     qr_event_id q = Some (ev_event_id event)) (quarantines db);
          db1 = (case existing of
                   Some _ \<Rightarrow> db
                 | None \<Rightarrow>
                     db\<lparr>quarantines := quarantines db @
                       [\<lparr>qr_tenant = ev_tenant event, qr_id = quarantine_id,
                         qr_batch = ev_batch event, qr_event_id = Some (ev_event_id event),
                         qr_reason = reason,
                         qr_payload = (case payload of Some p \<Rightarrow> p | None \<Rightarrow> EventPayload event),
                         qr_quarantined_at = now\<rparr>]\<rparr>)
      in and_then (advance_batch event True (Some QUARANTINED) (Some reason) now db1)
           (\<lambda>db2. Inr (\<lparr>pr_disposition = QUARANTINED, pr_reason = Some reason,
                        pr_state_changed = False\<rparr>, db2)))"

subsection \<open>What finalizing changes\<close>

lemma ob_key_settle [simp]: "ob_key (settle_batch t ls b) = ob_key b"
  by (simp add: settle_batch_def Let_def ob_key_def)

lemma ob_accepted_settle [simp]: "ob_accepted (settle_batch t ls b) = ob_accepted b"
  by (simp add: settle_batch_def Let_def)

lemma lg_key_terminal [simp]: "lg_key (terminal_ledger rej d r t l) = lg_key l"
  by (simp add: terminal_ledger_def lg_key_def)

lemma be_keys_finalize [simp]:
  "be_event_key (finalize_link l t e) = be_event_key e"
  "be_batch_key (finalize_link l t e) = be_batch_key e"
  "be_status (finalize_link l t e) = lg_status l"
  by (simp_all add: finalize_link_def be_event_key_def be_batch_key_def)

lemma batch_links_batches [simp]: "batch_links k (db\<lparr>batches := bs\<rparr>) = batch_links k db"
  by (simp add: batch_links_def)

lemma update_batches_InrD:
  assumes "update_batches missing f tenant ids db = Inr db'" "distinct ids"
    and key: "\<And>ls b. ob_key (f ls b) = ob_key b"
  shows "db' = db\<lparr>batches :=
     update_where (\<lambda>b. fst (ob_key b) = tenant \<and> snd (ob_key b) \<in> set ids)
       (\<lambda>b. f (batch_links (ob_key b) db) b) (batches db)\<rparr>"
  using assms(1,2)
proof (induction ids arbitrary: db)
  case (Cons i ids)
  let ?db1 = "db\<lparr>batches := update_where (\<lambda>r. ob_key r = (tenant, i))
      (f (batch_links (tenant, i) db)) (batches db)\<rparr>"
  have "update_batches missing f tenant ids ?db1 = Inr db'"
    using Cons.prems by (simp split: option.splits)
  then have "db' = ?db1\<lparr>batches := update_where (\<lambda>b. fst (ob_key b) = tenant \<and> snd (ob_key b) \<in> set ids)
      (\<lambda>b. f (batch_links (ob_key b) ?db1) b) (batches ?db1)\<rparr>"
    using Cons.IH [of ?db1] Cons.prems(2) by simp
  moreover have "update_where (\<lambda>b. fst (ob_key b) = tenant \<and> snd (ob_key b) \<in> set ids)
        (\<lambda>b. f (batch_links (ob_key b) db) b)
        (update_where (\<lambda>r. ob_key r = (tenant, i)) (f (batch_links (tenant, i) db)) bs)
      = update_where (\<lambda>b. fst (ob_key b) = tenant \<and> snd (ob_key b) \<in> set (i # ids))
        (\<lambda>b. f (batch_links (ob_key b) db) b) bs" for bs
    using Cons.prems(2) by (induction bs) (auto simp: prod_eq_iff key)
  ultimately show ?case by simp
qed (simp add: update_where_def)

text \<open>
  The state after the status of an event's ledger row changed, with its links and the batches they
  belong to, as one update of the three tables.
\<close>

definition relinked ::
    "ledger_row \<Rightarrow> (batch_event \<Rightarrow> batch_event)
       \<Rightarrow> (batch_event list \<Rightarrow> observation_batch \<Rightarrow> observation_batch) \<Rightarrow> db \<Rightarrow> db" where
  "relinked ledger' h f db =
     (let key = lg_key ledger';
          db1 = db\<lparr>ledgers := put_by lg_key ledger' (ledgers db),
                   batch_events := update_where (\<lambda>l. be_event_key l = key) h (batch_events db)\<rparr>
      in db1\<lparr>batches :=
           update_where (\<lambda>b. fst (ob_key b) = fst key \<and>
                             snd (ob_key b) \<in> be_batch ` set (event_links key db))
             (\<lambda>b. f (batch_links (ob_key b) db1) b) (batches db)\<rparr>)"

lemma update_batches_relinked:
  assumes "update_batches missing f (fst (lg_key ledger')) (remdups (map be_batch (event_links (lg_key ledger') db)))
      (db\<lparr>ledgers := put_by lg_key ledger' (ledgers db),
          batch_events := update_where (\<lambda>l. be_event_key l = lg_key ledger') h (batch_events db)\<rparr>) = Inr db'"
    and "\<And>ls b. ob_key (f ls b) = ob_key b"
  shows "db' = relinked ledger' h f db"
  using update_batches_InrD [OF assms(1) _ assms(2)] by (simp add: relinked_def Let_def)

abbreviation finalized :: "ledger_row \<Rightarrow> timestamp \<Rightarrow> db \<Rightarrow> db" where
  "finalized ledger' now \<equiv> relinked ledger' (finalize_link ledger' now) (settle_batch now)"

lemma advance_batch_cases:
  assumes "advance_batch event rejected disp reason now db = Inr db'"
  obtains (finished) ledger where
      "get_by lg_key (ev_tenant event, ev_event_id event) (ledgers db) = Some ledger"
      "lg_status ledger \<noteq> EVENT_PENDING" "db' = db"
  | (advanced) ledger where
      "get_by lg_key (ev_tenant event, ev_event_id event) (ledgers db) = Some ledger"
      "lg_status ledger = EVENT_PENDING"
      "db' = finalized (terminal_ledger rejected disp reason now ledger) now db"
proof (cases "get_by lg_key (ev_tenant event, ev_event_id event) (ledgers db)")
  case None
  then show thesis using assms by (simp add: advance_batch_def)
next
  case (Some ledger)
  show thesis
  proof (cases "lg_status ledger = EVENT_PENDING")
    case False
    then show thesis using assms Some by (intro finished) (auto simp: advance_batch_def Let_def)
  next
    case True
    let ?ledger' = "terminal_ledger rejected disp reason now ledger"
    have key: "lg_key ledger = (ev_tenant event, ev_event_id event)"
      using get_by_SomeD [OF Some] by simp
    have "settle_batches (ev_tenant event) now
        (remdups (map be_batch (event_links (ev_tenant event, ev_event_id event) db)))
        (db\<lparr>ledgers := put_by lg_key ?ledger' (ledgers db),
            batch_events := update_where (\<lambda>l. be_event_key l = (ev_tenant event, ev_event_id event))
              (finalize_link ?ledger' now) (batch_events db)\<rparr>) = Inr db'"
      using assms Some True by (simp add: advance_batch_def Let_def)
    then have "db' = finalized ?ledger' now db"
      unfolding settle_batches_def
      by (intro update_batches_relinked
            [where missing = "ValueError ''RFID retry batch does not exist''"]) (simp_all add: key)
    then show thesis using Some True by (intro advanced)
  qed
qed

lemma relinked_frame [frame_simps]:
  "stores (relinked l h f db) = stores db" "zones (relinked l h f db) = zones db"
  "devices (relinked l h f db) = devices db" "assignments (relinked l h f db) = assignments db"
  "bindings (relinked l h f db) = bindings db" "raw_rows (relinked l h f db) = raw_rows db"
  "quarantines (relinked l h f db) = quarantines db"
  "connectivity_rows (relinked l h f db) = connectivity_rows db"
  "item_states (relinked l h f db) = item_states db"
  "transitions (relinked l h f db) = transitions db"
  "applied_deltas (relinked l h f db) = applied_deltas db"
  "projections (relinked l h f db) = projections db"
  "business_events (relinked l h f db) = business_events db"
  "tasks (relinked l h f db) = tasks db" "evidence_rows (relinked l h f db) = evidence_rows db"
  by (simp_all add: relinked_def Let_def)

lemma advance_batch_frame:
  assumes "advance_batch event rejected disp reason now db = Inr db'"
  shows "stores db' = stores db" "zones db' = zones db"
    "devices db' = devices db" "assignments db' = assignments db"
    "bindings db' = bindings db" "raw_rows db' = raw_rows db" "quarantines db' = quarantines db"
    "connectivity_rows db' = connectivity_rows db" "item_states db' = item_states db"
    "transitions db' = transitions db" "applied_deltas db' = applied_deltas db"
    "projections db' = projections db" "business_events db' = business_events db"
    "tasks db' = tasks db" "evidence_rows db' = evidence_rows db"
  using assms by (auto elim!: advance_batch_cases simp: frame_simps)

lemma quarantine_event_InrD:
  assumes "quarantine_event event reason payload qid now db = Inr (res, db')"
  obtains db1 where "advance_batch event True (Some QUARANTINED) (Some reason) now db1 = Inr db'"
    "\<exists>qs. db1 = db\<lparr>quarantines := qs\<rparr>"
    "res = \<lparr>pr_disposition = QUARANTINED, pr_reason = Some reason, pr_state_changed = False\<rparr>"
proof -
  let ?db1 = "case select_one (\<lambda>q. qr_tenant q = ev_tenant event \<and>
      qr_event_id q = Some (ev_event_id event)) (quarantines db) of
        Some _ \<Rightarrow> db
      | None \<Rightarrow> db\<lparr>quarantines := quarantines db @
                       [\<lparr>qr_tenant = ev_tenant event, qr_id = qid,
                         qr_batch = ev_batch event, qr_event_id = Some (ev_event_id event),
                         qr_reason = reason,
                         qr_payload = (case payload of Some p \<Rightarrow> p | None \<Rightarrow> EventPayload event),
                         qr_quarantined_at = now\<rparr>]\<rparr>"
  have "\<exists>qs. ?db1 = db\<lparr>quarantines := qs\<rparr>"
    by (auto split: option.splits intro: exI [of _ "quarantines db"])
  moreover have "advance_batch event True (Some QUARANTINED) (Some reason) now ?db1 = Inr db'"
    "res = \<lparr>pr_disposition = QUARANTINED, pr_reason = Some reason, pr_state_changed = False\<rparr>"
    using assms by (auto simp: quarantine_event_def Let_def and_then_Inr_iff)
  ultimately show thesis using that by blast
qed

subsection \<open>The accounting invariant\<close>

definition settled :: "observation_batch \<Rightarrow> batch_event list \<Rightarrow> bool" where
  "settled b links \<longleftrightarrow>
     ob_accepted b = int (length links) \<and>
     ob_processed b = count_status EVENT_PROCESSED links \<and>
     ob_rejected b = count_status EVENT_REJECTED links \<and>
     (ob_status b = BATCH_COMPLETED \<longleftrightarrow>
        ob_processed b + ob_rejected b = ob_accepted b \<and> ob_rejected b = 0) \<and>
     (ob_status b = BATCH_COMPLETED_WITH_ERRORS \<longleftrightarrow>
        ob_processed b + ob_rejected b = ob_accepted b \<and> ob_rejected b \<noteq> 0)"

definition accounting :: "db \<Rightarrow> bool" where
  "accounting db \<longleftrightarrow>
     distinct (map lg_key (ledgers db)) \<and> distinct (map ob_key (batches db)) \<and>
     (\<forall>l \<in> set (batch_events db).
        \<exists>g \<in> set (ledgers db). lg_key g = be_event_key l \<and> lg_status g = be_status l) \<and>
     (\<forall>b \<in> set (batches db). settled b (batch_links (ob_key b) db)) \<and>
     be_batch_key ` set (batch_events db) \<subseteq> ob_key ` set (batches db)"

lemma accountingD:
  assumes "accounting db"
  shows "distinct (map lg_key (ledgers db))" "distinct (map ob_key (batches db))"
    and "l \<in> set (batch_events db) \<Longrightarrow>
      \<exists>g \<in> set (ledgers db). lg_key g = be_event_key l \<and> lg_status g = be_status l"
    and "b \<in> set (batches db) \<Longrightarrow> settled b (batch_links (ob_key b) db)"
    and "be_batch_key ` set (batch_events db) \<subseteq> ob_key ` set (batches db)"
  using assms by (simp_all add: accounting_def)

lemma accounting_cong:
  "ledgers db' = ledgers db \<Longrightarrow> batches db' = batches db \<Longrightarrow> batch_events db' = batch_events db \<Longrightarrow>
     accounting db' = accounting db"
  by (simp add: accounting_def batch_links_def)

lemma count_status_nonneg [simp]: "0 \<le> count_status s ls"
  by (simp add: count_status_def)

lemma count_status_partition:
  "count_status EVENT_PENDING ls + count_status EVENT_PROCESSED ls + count_status EVENT_REJECTED ls
     = int (length ls)"
proof (induction ls)
  case (Cons l ls)
  then show ?case by (cases "be_status l") (simp_all add: count_status_def)
qed (simp add: count_status_def)

lemma count_status_positive: "l \<in> set ls \<Longrightarrow> be_status l = s \<Longrightarrow> 0 < count_status s ls"
  by (auto simp: count_status_def filter_empty_conv)

lemma settled_settle_batch:
  assumes "ob_accepted b = int (length ls)" "l \<in> set ls" "be_status l \<noteq> EVENT_PENDING"
  shows "settled (settle_batch t ls b) ls"
proof -
  have "count_status EVENT_PROCESSED ls + count_status EVENT_REJECTED ls \<noteq> 0"
  proof (cases "be_status l")
    case EVENT_PROCESSED
    show ?thesis
      using count_status_positive [OF assms(2) EVENT_PROCESSED] count_status_nonneg [of EVENT_REJECTED ls]
      by linarith
  next
    case EVENT_REJECTED
    show ?thesis
      using count_status_positive [OF assms(2) EVENT_REJECTED] count_status_nonneg [of EVENT_PROCESSED ls]
      by linarith
  qed (use assms(3) in simp)
  then show ?thesis using assms(1) by (auto simp: settled_def settle_batch_def Let_def)
qed

lemma settled_checks: "settled b ls \<Longrightarrow> batch_checks b"
proof -
  assume "settled b ls"
  moreover have "count_status EVENT_PROCESSED ls + count_status EVENT_REJECTED ls \<le> int (length ls)"
    using count_status_partition [of ls] count_status_nonneg [of EVENT_PENDING ls] by linarith
  ultimately show ?thesis by (simp add: settled_def batch_checks_def)
qed

lemma settled_pending: "settled b ls \<Longrightarrow> batch_pending_count b = count_status EVENT_PENDING ls"
  using count_status_partition [of ls] by (simp add: settled_def batch_pending_count_def)

lemma filter_update_where_same:
  "(\<And>r. P (f r) = P r) \<Longrightarrow> filter P (update_where Q f rows) = update_where Q f (filter P rows)"
  by (induction rows) auto

lemma in_update_whereE:
  assumes "r' \<in> set (update_where P f rows)" "\<And>r. P (f r) = P r"
  obtains (updated) r where "r \<in> set rows" "P r'" "r' = f r" | (kept) "r' \<in> set rows" "\<not> P r'"
  using assms unfolding in_update_where_iff by blast

lemma relinked_accounting:
  assumes acc: "accounting db" and ledger: "lg_key ledger' \<in> lg_key ` set (ledgers db)"
    and h: "\<And>l. be_event_key (h l) = be_event_key l" "\<And>l. be_batch_key (h l) = be_batch_key l"
      "\<And>l. be_status (h l) = lg_status ledger'"
    and f: "\<And>ls b. ob_key (f ls b) = ob_key b"
      "\<And>b l ls. ob_accepted b = int (length ls) \<Longrightarrow> l \<in> set ls \<Longrightarrow>
         be_status l = lg_status ledger' \<Longrightarrow> settled (f ls b) ls"
  shows "accounting (relinked ledger' h f db)"
proof -
  define key where "key = lg_key ledger'"
  define links where "links = update_where (\<lambda>l. be_event_key l = key) h (batch_events db)"
  define touched where "touched = (\<lambda>b. fst (ob_key b) = fst key \<and>
      snd (ob_key b) \<in> be_batch ` set (event_links key db))"
  let ?db' = "relinked ledger' h f db"
  have db': "ledgers ?db' = put_by lg_key ledger' (ledgers db)" "batch_events ?db' = links"
    "batches ?db' = update_where touched
       (\<lambda>b. f (filter (\<lambda>l. be_batch_key l = ob_key b) links) b) (batches db)"
    by (simp_all add: relinked_def Let_def links_def key_def touched_def batch_links_def)
  have "\<exists>g \<in> set (put_by lg_key ledger' (ledgers db)). lg_key g = be_event_key l \<and> lg_status g = be_status l"
    if "l \<in> set links" for l
  proof (rule in_update_whereE [OF that [unfolded links_def]])
    show "(be_event_key (h r) = key) = (be_event_key r = key)" for r
      by (simp add: h)
  next
    fix l0 assume "be_event_key l = key" "l = h l0"
    then have "be_event_key l = lg_key ledger'" "be_status l = lg_status ledger'"
      by (simp_all add: key_def h)
    then show ?thesis using in_put_by [of ledger' lg_key "ledgers db"] by metis
  next
    assume kept: "l \<in> set (batch_events db)" "be_event_key l \<noteq> key"
    then obtain g where g: "g \<in> set (ledgers db)" "lg_key g = be_event_key l" "lg_status g = be_status l"
      using accountingD(3) [OF acc] by blast
    then have "lg_key g \<noteq> lg_key ledger'" using kept by (simp add: key_def)
    then show ?thesis using g in_put_by_iff [OF accountingD(1) [OF acc]] by blast
  qed
  moreover have "settled b (filter (\<lambda>l. be_batch_key l = ob_key b) links)"
    if b: "b \<in> set (batches ?db')" for b
  proof -
    from b obtain b0 where b0: "b0 \<in> set (batches db)"
      and b_eq: "b = (if touched b0
        then f (filter (\<lambda>l. be_batch_key l = ob_key b0) links) b0 else b0)"
      by (auto simp: db' in_update_where_iff)
    have ls: "filter (\<lambda>l. be_batch_key l = ob_key b0) links =
        update_where (\<lambda>l. be_event_key l = key) h (batch_links (ob_key b0) db)"
      by (simp add: links_def batch_links_def filter_update_where_same h)
    have old: "settled b0 (batch_links (ob_key b0) db)" by (rule accountingD(4) [OF acc b0])
    show ?thesis
    proof (cases "touched b0")
      case True
      then obtain l where l: "l \<in> set (event_links key db)" "be_batch l = snd (ob_key b0)"
        "fst (ob_key b0) = fst key"
        unfolding touched_def by (metis imageE)
      then have l': "l \<in> set (batch_events db)" "be_event_key l = key"
        by (simp_all add: event_links_def)
      have "be_batch_key l = ob_key b0"
        using l(2,3) l'(2) by (metis be_batch_key_def be_event_key_def fst_conv prod.collapse)
      with l' have "h l \<in> set (filter (\<lambda>l. be_batch_key l = ob_key b0) links)"
        by (auto simp: links_def set_update_where h)
      moreover have "be_status (h l) = lg_status ledger'" by (rule h(3))
      moreover have "ob_accepted b0 = int (length (filter (\<lambda>l. be_batch_key l = ob_key b0) links))"
        using old by (simp add: ls settled_def)
      ultimately have "settled (f (filter (\<lambda>l. be_batch_key l = ob_key b0) links) b0)
          (filter (\<lambda>l. be_batch_key l = ob_key b0) links)"
        by (intro f(2))
      then show ?thesis using True b_eq by (simp add: f(1))
    next
      case False
      have "update_where (\<lambda>l. be_event_key l = key) h (batch_links (ob_key b0) db)
          = batch_links (ob_key b0) db"
      proof (rule update_where_id)
        fix l assume "l \<in> set (batch_links (ob_key b0) db)" "be_event_key l = key"
        then have "l \<in> set (event_links key db)" "be_batch_key l = ob_key b0" "be_event_key l = key"
          by (simp_all add: event_links_def batch_links_def)
        then have "touched b0"
          unfolding touched_def be_batch_key_def be_event_key_def
          by (metis fst_conv image_eqI snd_conv)
        with False show "h l = l" by simp
      qed
      then show ?thesis using False b_eq old by (simp add: ls)
    qed
  qed
  moreover have keys: "map ob_key (batches ?db') = map ob_key (batches db)"
    by (simp add: db' map_update_where f(1))
  moreover have "be_batch_key ` set links \<subseteq> ob_key ` set (batches ?db')"
  proof -
    have "map be_batch_key links = map be_batch_key (batch_events db)"
      by (simp add: links_def map_update_where h(2))
    then show ?thesis using accountingD(5) [OF acc] keys by (metis set_map)
  qed
  ultimately show ?thesis
    using accountingD(1,2) [OF acc]
    by (simp add: accounting_def db' batch_links_def distinct_put_by)
qed

lemma advance_batch_accounting [wf_intros]:
  assumes "advance_batch event rejected disp reason now db = Inr db'" "accounting db"
  shows "accounting db'"
  using assms(1)
proof (cases rule: advance_batch_cases)
  case (advanced ledger)
  then have "ledger \<in> set (ledgers db)" "lg_key ledger = (ev_tenant event, ev_event_id event)"
    by (auto dest: get_by_SomeD)
  moreover from this(1) have "lg_key ledger \<in> lg_key ` set (ledgers db)" by simp
  moreover have terminal: "lg_status (terminal_ledger rejected disp reason now ledger) \<noteq> EVENT_PENDING"
    by (simp add: terminal_ledger_def)
  moreover have "settled (settle_batch now ls b) ls"
    if "ob_accepted b = int (length ls)" "l \<in> set ls"
      "be_status l = lg_status (terminal_ledger rejected disp reason now ledger)" for b l ls
    by (rule settled_settle_batch [OF that(1,2)]) (use that(3) terminal in simp)
  ultimately show ?thesis
    unfolding advanced(3) by (intro relinked_accounting [OF assms(2)]) simp_all
qed (use assms in simp)

lemma quarantine_event_accounting [wf_intros]:
  assumes "quarantine_event event reason payload qid now db = Inr (res, db')" "accounting db"
  shows "accounting db'"
  using assms(1)
proof (rule quarantine_event_InrD)
  fix db1 assume "advance_batch event True (Some QUARANTINED) (Some reason) now db1 = Inr db'"
    and "\<exists>qs. db1 = db\<lparr>quarantines := qs\<rparr>"
  then show ?thesis
    using assms(2) advance_batch_accounting by (fastforce simp: accounting_def batch_links_def)
qed

text \<open>A finalized event stays finalized: no call of the finalizer touches it again.\<close>

lemma advance_batch_ledger:
  assumes "advance_batch event rejected disp reason now db = Inr db'"
  shows "\<exists>l. get_by lg_key (ev_tenant event, ev_event_id event) (ledgers db') = Some l \<and>
      lg_status l \<noteq> EVENT_PENDING"
    and "k \<noteq> (ev_tenant event, ev_event_id event) \<Longrightarrow>
      get_by lg_key k (ledgers db') = get_by lg_key k (ledgers db)"
    and "get_by lg_key k (ledgers db) = Some g \<Longrightarrow> lg_status g \<noteq> EVENT_PENDING \<Longrightarrow>
      get_by lg_key k (ledgers db') = Some g"
proof -
  have "(\<exists>l. get_by lg_key (ev_tenant event, ev_event_id event) (ledgers db') = Some l \<and>
      lg_status l \<noteq> EVENT_PENDING) \<and>
    (k \<noteq> (ev_tenant event, ev_event_id event) \<longrightarrow>
      get_by lg_key k (ledgers db') = get_by lg_key k (ledgers db)) \<and>
    (get_by lg_key k (ledgers db) = Some g \<longrightarrow> lg_status g \<noteq> EVENT_PENDING \<longrightarrow>
      get_by lg_key k (ledgers db') = Some g)"
    using assms
  proof (cases rule: advance_batch_cases)
    case (advanced ledger)
    then have key: "lg_key ledger = (ev_tenant event, ev_event_id event)" by (auto dest: get_by_SomeD)
    have "lg_status (terminal_ledger rejected disp reason now ledger) \<noteq> EVENT_PENDING"
      by (simp add: terminal_ledger_def)
    moreover have "ledgers db' = put_by lg_key (terminal_ledger rejected disp reason now ledger) (ledgers db)"
      using advanced(3) by (simp add: relinked_def Let_def)
    ultimately show ?thesis
      using advanced(1,2) by (auto simp: table_simps key)
  qed auto
  then show "\<exists>l. get_by lg_key (ev_tenant event, ev_event_id event) (ledgers db') = Some l \<and>
      lg_status l \<noteq> EVENT_PENDING"
    and "k \<noteq> (ev_tenant event, ev_event_id event) \<Longrightarrow>
      get_by lg_key k (ledgers db') = get_by lg_key k (ledgers db)"
    and "get_by lg_key k (ledgers db) = Some g \<Longrightarrow> lg_status g \<noteq> EVENT_PENDING \<Longrightarrow>
      get_by lg_key k (ledgers db') = Some g"
    by blast+
qed

text \<open>With the accounting in order, finalizing an event of the ledger cannot fail.\<close>

lemma update_batches_ok:
  assumes "\<And>ls b. ob_key (f ls b) = ob_key b"
  shows "\<forall>i \<in> set ids. (tenant, i) \<in> ob_key ` set (batches db) \<Longrightarrow>
    \<exists>db'. update_batches missing f tenant ids db = Inr db'"
proof (induction ids arbitrary: db)
  case (Cons i ids)
  then obtain b where "get_by ob_key (tenant, i) (batches db) = Some b"
    by (metis get_by_None_iff list.set_intros(1) not_Some_eq)
  moreover have "ob_key ` set (update_where P (f ls) bs) = ob_key ` set bs" for P ls bs
    by (metis list.set_map map_update_where assms)
  ultimately show ?case using Cons by simp
qed simp

lemma advance_batch_total:
  assumes "accounting db" "get_by lg_key (ev_tenant event, ev_event_id event) (ledgers db) = Some l"
  shows "\<exists>db'. advance_batch event rejected disp reason now db = Inr db'"
proof -
  have "(ev_tenant event, i) \<in> ob_key ` set (batches db)"
    if "i \<in> be_batch ` set (event_links (ev_tenant event, ev_event_id event) db)" for i
    using that accountingD(5) [OF assms(1)]
    by (force simp: event_links_def be_event_key_def be_batch_key_def)
  then show ?thesis
    using assms(2) by (auto simp: advance_batch_def Let_def settle_batches_def intro!: update_batches_ok)
qed

end
