(* ===== verification/Ordered_Dict.thy ===== *)
theory Ordered_Dict
  imports Prelude
begin

text \<open>
  \<open>collections.OrderedDict\<close> as an association list, oldest entry first, with the operations the
  bounded evidence window uses.
\<close>

type_synonym ('k, 'v) odict = "('k \<times> 'v) list"

definition od_get :: "('k, 'v) odict \<Rightarrow> 'k \<Rightarrow> 'v option" where
  "od_get d k = map_of d k"

definition od_keys :: "('k, 'v) odict \<Rightarrow> 'k set" where
  "od_keys d = fst ` set d"

text \<open>\<open>d[k] = v\<close>: an existing key keeps its position, a new key goes last.\<close>

fun od_set :: "'k \<Rightarrow> 'v \<Rightarrow> ('k, 'v) odict \<Rightarrow> ('k, 'v) odict" where
  "od_set k v [] = [(k, v)]"
| "od_set k v ((k', v') # d) = (if k' = k then (k, v) # d else (k', v') # od_set k v d)"

definition od_pop :: "'k \<Rightarrow> ('k, 'v) odict \<Rightarrow> ('k, 'v) odict" where
  "od_pop k d = filter (\<lambda>p. fst p \<noteq> k) d"

text \<open>\<open>move_to_end\<close>, for a present key (the code never calls it otherwise).\<close>

definition od_move_last :: "'k \<Rightarrow> ('k, 'v) odict \<Rightarrow> ('k, 'v) odict" where
  "od_move_last k d = od_pop k d @ filter (\<lambda>p. fst p = k) d"

definition od_move_first :: "'k \<Rightarrow> ('k, 'v) odict \<Rightarrow> ('k, 'v) odict" where
  "od_move_first k d = filter (\<lambda>p. fst p = k) d @ od_pop k d"

text \<open>\<open>popitem(last=False)\<close>: drop the oldest entry.\<close>

definition od_drop_oldest :: "('k, 'v) odict \<Rightarrow> ('k, 'v) odict" where
  "od_drop_oldest d = tl d"

definition od_oldest :: "('k, 'v) odict \<Rightarrow> ('k \<times> 'v) option" where
  "od_oldest d = (case d of [] \<Rightarrow> None | p # _ \<Rightarrow> Some p)"

definition od_oldest_key :: "('k, 'v) odict \<Rightarrow> 'k option" where
  "od_oldest_key d = map_option fst (od_oldest d)"

definition od_wf :: "('k, 'v) odict \<Rightarrow> bool" where
  "od_wf d \<longleftrightarrow> distinct (map fst d)"

named_theorems od_simps \<open>lookup, key and length equations of ordered dictionaries\<close>

lemma od_keys_simps [simp]: "od_keys [] = {}" "od_keys ((k, v) # d) = insert k (od_keys d)"
  by (simp_all add: od_keys_def)

lemma od_get_None_iff: "od_get d k = None \<longleftrightarrow> k \<notin> od_keys d"
  by (simp add: od_get_def od_keys_def map_of_eq_None_iff)

lemma od_get_Some_in: "od_get d k = Some v \<Longrightarrow> k \<in> od_keys d"
  by (metis od_get_None_iff option.distinct(1))

lemma od_get_set [od_simps]: "od_get (od_set k v d) k' = (if k' = k then Some v else od_get d k')"
  by (induction k v d rule: od_set.induct) (auto simp: od_get_def)

lemma od_get_pop [od_simps]: "od_get (od_pop k d) k' = (if k' = k then None else od_get d k')"
  by (induction d) (auto simp: od_get_def od_pop_def)

lemma map_of_only_key: "map_of (filter (\<lambda>p. fst p = k) d) k' = (if k' = k then map_of d k else None)"
  by (induction d) auto

lemma od_get_move_last [od_simps]: "od_get (od_move_last k d) k' = od_get d k'"
  using od_get_pop [of k d k']
  by (auto simp: od_move_last_def od_get_def map_of_append map_of_only_key map_add_def
      split: option.splits)

lemma od_get_move_first [od_simps]: "od_get (od_move_first k d) k' = od_get d k'"
  using od_get_pop [of k d k']
  by (auto simp: od_move_first_def od_get_def map_of_append map_of_only_key map_add_def
      split: option.splits)

lemma od_keys_set [od_simps]: "od_keys (od_set k v d) = insert k (od_keys d)"
  by (induction k v d rule: od_set.induct) (auto simp: od_keys_def)

lemma od_keys_pop [od_simps]: "od_keys (od_pop k d) = od_keys d - {k}"
  by (auto simp: od_keys_def od_pop_def)

lemma od_keys_move_last [od_simps]: "od_keys (od_move_last k d) = od_keys d"
  by (force simp: od_keys_def od_pop_def od_move_last_def)

lemma od_keys_move_first [od_simps]: "od_keys (od_move_first k d) = od_keys d"
  by (force simp: od_keys_def od_pop_def od_move_first_def)

lemma od_wf_Nil [simp]: "od_wf []"
  by (simp add: od_wf_def)

lemma od_wf_Cons [simp]: "od_wf ((k, v) # d) \<longleftrightarrow> k \<notin> od_keys d \<and> od_wf d"
  by (simp add: od_wf_def od_keys_def)

lemma set_od_set: "set (od_set k v d) \<subseteq> insert (k, v) (set d)"
  by (induction k v d rule: od_set.induct) auto

lemma od_wf_set [wf_intros]: "od_wf d \<Longrightarrow> od_wf (od_set k v d)"
  by (induction k v d rule: od_set.induct) (auto simp: od_simps)

lemma od_wf_pop [wf_intros]: "od_wf d \<Longrightarrow> od_wf (od_pop k d)"
  by (simp add: od_wf_def od_pop_def distinct_map_filter)

lemma od_wf_drop_oldest [wf_intros]: "od_wf d \<Longrightarrow> od_wf (od_drop_oldest d)"
  by (cases d) (auto simp: od_drop_oldest_def od_wf_def)

lemma only_key: "od_wf d \<Longrightarrow> filter (\<lambda>p. fst p = k) d = (case od_get d k of None \<Rightarrow> [] | Some v \<Rightarrow> [(k, v)])"
proof (induction d)
  case (Cons p d)
  obtain k' v' where p: "p = (k', v')" by (cases p)
  show ?case
  proof (cases "k' = k")
    case True
    then have "od_get d k = None" using Cons.prems p by (simp add: od_get_None_iff)
    with Cons True p show ?thesis by (simp add: od_get_def)
  qed (use Cons p in \<open>simp add: od_get_def\<close>)
qed (simp add: od_get_def)

lemma od_wf_move_last [wf_intros]: "od_wf d \<Longrightarrow> od_wf (od_move_last k d)"
  using od_keys_pop [of k d] od_wf_pop [of d k]
  by (auto simp: od_move_last_def only_key od_wf_def od_keys_def split: option.splits)

lemma od_wf_move_first [wf_intros]: "od_wf d \<Longrightarrow> od_wf (od_move_first k d)"
  using od_keys_pop [of k d] od_wf_pop [of d k]
  by (auto simp: od_move_first_def only_key od_wf_def od_keys_def split: option.splits)

lemma length_od_set [od_simps]:
  "length (od_set k v d) = (if k \<in> od_keys d then length d else Suc (length d))"
  by (induction k v d rule: od_set.induct) (auto simp: od_keys_def)

lemma length_od_move_last [od_simps]: "length (od_move_last k d) = length d"
proof -
  have "length (filter (\<lambda>p. fst p \<noteq> k) d) + length (filter (\<lambda>p. fst p = k) d) = length d"
    using sum_length_filter_compl [of "\<lambda>p. fst p = k" d] by simp
  then show ?thesis by (simp add: od_move_last_def od_pop_def)
qed

lemma length_od_pop: "length (od_pop k d) \<le> length d"
  by (simp add: od_pop_def)

lemma od_set_absent: "k \<notin> od_keys d \<Longrightarrow> od_set k v d = d @ [(k, v)]"
  by (induction k v d rule: od_set.induct) (auto simp: od_keys_def)

lemma od_set_set [simp]: "od_set k v (od_set k v' d) = od_set k v d"
  by (induction k v' d rule: od_set.induct) auto

lemma od_move_last_absent: "k \<notin> od_keys d \<Longrightarrow> od_move_last k (d @ [(k, v)]) = d @ [(k, v)]"
  by (induction d) (auto simp: od_move_last_def od_pop_def od_keys_def)

lemma od_get_drop_oldest:
  "od_wf d \<Longrightarrow> od_get (od_drop_oldest d) k =
     (if od_oldest_key d = Some k then None else od_get d k)"
  by (cases d) (auto simp: od_drop_oldest_def od_oldest_key_def od_oldest_def od_get_def od_wf_def map_of_eq_None_iff)

lemma od_keys_drop_oldest:
  "od_wf d \<Longrightarrow> od_keys (od_drop_oldest d) = od_keys d - set_option (od_oldest_key d)"
  by (cases d) (auto simp: od_drop_oldest_def od_oldest_key_def od_oldest_def od_keys_def od_wf_def)

lemma od_oldest_append: "od_oldest (d @ e) = (case od_oldest d of None \<Rightarrow> od_oldest e | Some p \<Rightarrow> Some p)"
  by (cases d) (auto simp: od_oldest_def)

lemma od_oldest_Nil [simp]: "od_oldest [] = None"
  by (simp add: od_oldest_def)

lemma od_oldest_None_iff [simp]: "od_oldest d = None \<longleftrightarrow> d = []"
  by (cases d) (auto simp: od_oldest_def)

lemma od_oldest_key_simps [simp]:
  "od_oldest_key [] = None" "od_oldest_key ((k, v) # d) = Some k"
  by (simp_all add: od_oldest_key_def od_oldest_def)

lemma od_oldest_key_SomeI: "od_oldest d = Some (k, v) \<Longrightarrow> od_oldest_key d = Some k"
  by (simp add: od_oldest_key_def)

lemma od_oldest_key_append:
  "od_oldest_key (d @ e) = (case od_oldest_key d of None \<Rightarrow> od_oldest_key e | Some k \<Rightarrow> Some k)"
  by (cases d) (auto simp: od_oldest_key_def od_oldest_def)

lemma od_oldest_key_None_iff [simp]: "od_oldest_key d = None \<longleftrightarrow> d = []"
  by (simp add: od_oldest_key_def)

lemma od_oldest_in: "od_wf d \<Longrightarrow> od_oldest d = Some (k, v) \<Longrightarrow> od_get d k = Some v"
  by (cases d) (auto simp: od_oldest_def od_get_def)

lemma od_keys_iff_get: "(\<And>k. (od_get d k = None) = (od_get d' k = None)) \<Longrightarrow> od_keys d = od_keys d'"
  by (auto simp: od_get_None_iff)

end
