(* ===== verification/Evidence.thy ===== *)
theory Evidence
  imports Ordered_Dict Domain
begin

text \<open>
  RFID evidence of \<open>services/streaming_inventory.py\<close>: the bounded in-process window
  \<open>RecentObservationState\<close> with its checkpoint and restore, the stable-zone decision over a window,
  and the confidence arithmetic.  Python floats are modelled by real numbers.
\<close>

subsection \<open>The bounded evidence window\<close>

type_synonym event_key = "uuid \<times> string"

record recent_state =
  windows :: "(event_key, rfid_event list) odict"
  event_ids :: "(event_key, unit) odict"
  maximum_epcs :: nat
  maximum_event_ids :: nat

definition empty_recent :: "nat \<Rightarrow> nat \<Rightarrow> recent_state" where
  "empty_recent epcs ids =
     \<lparr>windows = [], event_ids = [], maximum_epcs = epcs, maximum_event_ids = ids\<rparr>"

definition event_key :: "rfid_event \<Rightarrow> event_key" where
  "event_key event = (ev_tenant event, ev_event_id event)"

definition window_key :: "rfid_event \<Rightarrow> event_key" where
  "window_key event = (ev_tenant event, ev_epc event)"

definition remember_event :: "rfid_event \<Rightarrow> recent_state \<Rightarrow> bool \<times> recent_state" where
  "remember_event event st =
     (let key = event_key event in
      if key \<in> od_keys (event_ids st)
      then (False, st\<lparr>event_ids := od_move_last key (event_ids st)\<rparr>)
      else
        let ids = od_set key () (event_ids st)
        in (True, st\<lparr>event_ids :=
              (if length ids > maximum_event_ids st then od_drop_oldest ids else ids)\<rparr>))"

definition forget_event :: "rfid_event \<Rightarrow> recent_state \<Rightarrow> recent_state" where
  "forget_event event st = st\<lparr>event_ids := od_pop (event_key event) (event_ids st)\<rparr>"

definition newest_observed :: "rfid_event list \<Rightarrow> timestamp" where
  "newest_observed events = Max (set (map ev_observed_at events))"

text \<open>The part of a window that the newest observation and the evidence start keep.\<close>

definition retained :: "int \<Rightarrow> timestamp option \<Rightarrow> rfid_event list \<Rightarrow> rfid_event list" where
  "retained window_seconds evidence_not_before events =
     filter (\<lambda>item.
         newest_observed events - seconds window_seconds \<le> ev_observed_at item \<and>
         (case evidence_not_before of None \<Rightarrow> True | Some t \<Rightarrow> t \<le> ev_observed_at item))
       events"

definition add_observation ::
    "rfid_event \<Rightarrow> int \<Rightarrow> timestamp option \<Rightarrow> recent_state \<Rightarrow> rfid_event list \<times> recent_state" where
  "add_observation event window_seconds evidence_not_before st =
     (let key = window_key event;
          opened = (if key \<in> od_keys (windows st) then windows st else od_set key [] (windows st));
          moved = od_move_last key opened;
          window = (case od_get moved key of None \<Rightarrow> [] | Some w \<Rightarrow> w) @ [event];
          kept = retained window_seconds evidence_not_before window;
          stored = od_set key kept moved;
          bounded = (if length stored > maximum_epcs st then od_drop_oldest stored else stored)
      in (kept, st\<lparr>windows := bounded\<rparr>))"

record checkpoint =
  cp_event_key :: event_key
  cp_event_preexisting :: bool
  cp_oldest_event_key :: "event_key option"
  cp_window_key :: event_key
  cp_window_before :: "rfid_event list option"
  cp_oldest_window :: "(event_key \<times> rfid_event list) option"

definition take_checkpoint :: "rfid_event \<Rightarrow> recent_state \<Rightarrow> checkpoint" where
  "take_checkpoint event st =
     \<lparr>cp_event_key = event_key event,
      cp_event_preexisting = (event_key event \<in> od_keys (event_ids st)),
      cp_oldest_event_key = od_oldest_key (event_ids st),
      cp_window_key = window_key event,
      cp_window_before = od_get (windows st) (window_key event),
      cp_oldest_window = od_oldest (windows st)\<rparr>"

definition restore_event_ids :: "checkpoint \<Rightarrow> (event_key, unit) odict \<Rightarrow> (event_key, unit) odict" where
  "restore_event_ids cp ids =
     (let ids1 = (if cp_event_preexisting cp then od_set (cp_event_key cp) () ids
                  else od_pop (cp_event_key cp) ids)
      in case cp_oldest_event_key cp of
           None \<Rightarrow> ids1
         | Some oldest \<Rightarrow> od_move_first oldest (od_set oldest () ids1))"

definition restore_windows ::
    "checkpoint \<Rightarrow> (event_key, rfid_event list) odict \<Rightarrow> (event_key, rfid_event list) odict" where
  "restore_windows cp ws =
     (let ws1 = (case cp_window_before cp of
                   None \<Rightarrow> od_pop (cp_window_key cp) ws
                 | Some w \<Rightarrow> od_set (cp_window_key cp) w ws)
      in case cp_oldest_window cp of
           None \<Rightarrow> ws1
         | Some (oldest_key, oldest_values) \<Rightarrow>
             od_move_first oldest_key
               (if oldest_key \<noteq> cp_window_key cp \<or> cp_window_before cp \<noteq> None
                then od_set oldest_key oldest_values ws1 else ws1))"

definition restore_checkpoint :: "checkpoint \<Rightarrow> recent_state \<Rightarrow> recent_state" where
  "restore_checkpoint cp st =
     st\<lparr>event_ids := restore_event_ids cp (event_ids st),
        windows := restore_windows cp (windows st)\<rparr>"

subsection \<open>Well-formedness and bounds\<close>

definition recent_wf :: "recent_state \<Rightarrow> bool" where
  "recent_wf st \<longleftrightarrow>
     od_wf (windows st) \<and> od_wf (event_ids st) \<and>
     length (windows st) \<le> maximum_epcs st \<and> length (event_ids st) \<le> maximum_event_ids st"

lemma recent_wf_empty [wf_intros]: "recent_wf (empty_recent epcs ids)"
  by (simp add: recent_wf_def empty_recent_def)

lemma remember_event_fst: "fst (remember_event event st) \<longleftrightarrow> event_key event \<notin> od_keys (event_ids st)"
  by (simp add: remember_event_def Let_def)

lemma remember_event_windows [simp]:
  "windows (snd (remember_event event st)) = windows st"
  "maximum_epcs (snd (remember_event event st)) = maximum_epcs st"
  "maximum_event_ids (snd (remember_event event st)) = maximum_event_ids st"
  by (simp_all add: remember_event_def Let_def)

lemma forget_event_windows [simp]:
  "windows (forget_event event st) = windows st"
  "maximum_epcs (forget_event event st) = maximum_epcs st"
  "maximum_event_ids (forget_event event st) = maximum_event_ids st"
  by (simp_all add: forget_event_def)

lemma add_observation_ids [simp]:
  "event_ids (snd (add_observation event w nb st)) = event_ids st"
  "maximum_epcs (snd (add_observation event w nb st)) = maximum_epcs st"
  "maximum_event_ids (snd (add_observation event w nb st)) = maximum_event_ids st"
  by (simp_all add: add_observation_def Let_def)

lemma remember_event_wf [wf_intros]: "recent_wf st \<Longrightarrow> recent_wf (snd (remember_event event st))"
  by (auto simp: remember_event_def recent_wf_def Let_def od_simps od_drop_oldest_def
      intro: wf_intros dest: od_wf_set od_wf_drop_oldest [unfolded od_drop_oldest_def])

lemma forget_event_wf [wf_intros]: "recent_wf st \<Longrightarrow> recent_wf (forget_event event st)"
  using length_od_pop [of "event_key event" "event_ids st"]
  by (auto simp: forget_event_def recent_wf_def intro: wf_intros)

lemma add_observation_wf [wf_intros]: "recent_wf st \<Longrightarrow> recent_wf (snd (add_observation event w nb st))"
  by (auto simp: add_observation_def recent_wf_def Let_def od_simps od_drop_oldest_def
      intro!: wf_intros od_wf_drop_oldest [unfolded od_drop_oldest_def])

subsection \<open>Checkpoint and restore\<close>

text \<open>Two windows hold the same evidence: the same observations per item, the same known events.\<close>

definition same_evidence :: "recent_state \<Rightarrow> recent_state \<Rightarrow> bool" where
  "same_evidence st st' \<longleftrightarrow>
     (\<forall>k. od_get (windows st) k = od_get (windows st') k) \<and>
     od_keys (event_ids st) = od_keys (event_ids st') \<and>
     maximum_epcs st = maximum_epcs st' \<and> maximum_event_ids st = maximum_event_ids st'"

text \<open>
  What one event may have changed: its own entries, and the oldest entries, which a full dictionary
  evicts.
\<close>

definition touched_only :: "rfid_event \<Rightarrow> recent_state \<Rightarrow> recent_state \<Rightarrow> bool" where
  "touched_only event st st' \<longleftrightarrow>
     (\<forall>k. k \<noteq> window_key event \<longrightarrow> od_oldest_key (windows st) \<noteq> Some k \<longrightarrow>
        od_get (windows st') k = od_get (windows st) k) \<and>
     (\<forall>k. k \<noteq> event_key event \<longrightarrow> od_oldest_key (event_ids st) \<noteq> Some k \<longrightarrow>
        (k \<in> od_keys (event_ids st') \<longleftrightarrow> k \<in> od_keys (event_ids st))) \<and>
     maximum_epcs st' = maximum_epcs st \<and> maximum_event_ids st' = maximum_event_ids st"

lemma touched_only_refl [simp]: "touched_only event st st"
  by (simp add: touched_only_def)

lemma rolled_back_keys:
  fixes ids ids' :: "('k, unit) odict"
  assumes "od_wf ids"
    and "\<And>k. k \<noteq> e \<Longrightarrow> od_oldest_key ids \<noteq> Some k \<Longrightarrow> k \<in> od_keys ids' \<longleftrightarrow> k \<in> od_keys ids"
  shows "od_keys (let ids1 = (if e \<in> od_keys ids then od_set e () ids' else od_pop e ids')
                  in case od_oldest_key ids of
                       None \<Rightarrow> ids1
                     | Some oldest \<Rightarrow> od_move_first oldest (od_set oldest () ids1)) = od_keys ids"
proof (cases "od_oldest ids")
  case None
  then have "ids = []" by simp
  then show ?thesis using assms(2) by (auto simp: od_simps)
next
  case (Some p)
  then obtain o' v where p: "od_oldest ids = Some (o', v)" by (cases p) auto
  then have "o' \<in> od_keys ids" "od_oldest_key ids = Some o'"
    using assms(1) od_oldest_in od_get_Some_in by (fastforce, simp add: od_oldest_key_SomeI)
  moreover have "k = e \<or> k = o' \<or> (k \<in> od_keys ids' \<longleftrightarrow> k \<in> od_keys ids)" for k
    using assms(2) [of k] calculation(2) by auto
  then have "insert e (insert o' (od_keys ids')) = insert e (insert o' (od_keys ids))"
    "insert o' (od_keys ids' - {e}) = insert o' (od_keys ids - {e})" by blast+
  ultimately show ?thesis by (auto simp: Let_def od_simps)
qed

lemma restore_event_ids_keys:
  assumes "od_wf ids"
    and "\<And>k. k \<noteq> event_key event \<Longrightarrow> od_oldest_key ids \<noteq> Some k \<Longrightarrow>
           k \<in> od_keys ids' \<longleftrightarrow> k \<in> od_keys ids"
    and "event_ids st = ids"
  shows "od_keys (restore_event_ids (take_checkpoint event st) ids') = od_keys ids"
  using rolled_back_keys [of ids "event_key event" ids'] assms
  by (cases "event_key event \<in> od_keys ids")
    (simp_all add: restore_event_ids_def take_checkpoint_def)

lemma restore_windows_get:
  assumes "od_wf ws"
    and "\<And>k. k \<noteq> window_key event \<Longrightarrow> od_oldest_key ws \<noteq> Some k \<Longrightarrow>
           od_get ws' k = od_get ws k"
    and "windows st = ws"
  shows "od_get (restore_windows (take_checkpoint event st) ws') k = od_get ws k"
proof (cases "od_oldest ws")
  case None
  then have "ws = []" by simp
  then have "od_get ws' k = None" if "k \<noteq> window_key event"
    using assms(2) [of k] that by (simp add: od_get_def)
  then show ?thesis
    using assms(3) \<open>ws = []\<close>
    by (simp add: restore_windows_def take_checkpoint_def od_simps od_get_def [of "[]"])
next
  case (Some p)
  then obtain o' v where p: "od_oldest ws = Some (o', v)" by (cases p) auto
  then have "od_get ws o' = Some v" "od_oldest_key ws = Some o'"
    using assms(1) by (simp_all add: od_oldest_in od_oldest_key_SomeI)
  then show ?thesis
    using assms(2,3) p
    by (auto simp: restore_windows_def take_checkpoint_def Let_def od_simps split: option.splits)
qed

lemma touched_onlyD:
  assumes "touched_only event st st'"
  shows "k \<noteq> window_key event \<Longrightarrow> od_oldest_key (windows st) \<noteq> Some k \<Longrightarrow>
      od_get (windows st') k = od_get (windows st) k"
    and "k \<noteq> event_key event \<Longrightarrow> od_oldest_key (event_ids st) \<noteq> Some k \<Longrightarrow>
      k \<in> od_keys (event_ids st') \<longleftrightarrow> k \<in> od_keys (event_ids st)"
    and "maximum_epcs st' = maximum_epcs st" "maximum_event_ids st' = maximum_event_ids st"
  using assms unfolding touched_only_def by blast+

lemma restore_touched:
  assumes "recent_wf st" "touched_only event st st'"
  shows "same_evidence (restore_checkpoint (take_checkpoint event st) st') st"
proof -
  have wf: "od_wf (event_ids st)" "od_wf (windows st)" using assms(1) by (simp_all add: recent_wf_def)
  have "od_keys (restore_event_ids (take_checkpoint event st) (event_ids st')) = od_keys (event_ids st)"
    by (rule restore_event_ids_keys [OF wf(1) touched_onlyD(2) [OF assms(2)] refl])
  moreover have "od_get (restore_windows (take_checkpoint event st) (windows st')) k
      = od_get (windows st) k" for k
    by (rule restore_windows_get [OF wf(2) touched_onlyD(1) [OF assms(2)] refl])
  ultimately show ?thesis
    using touched_onlyD(3,4) [OF assms(2)]
    by (simp add: same_evidence_def restore_checkpoint_def)
qed

lemma full_oldest:
  assumes "od_wf d" "k \<notin> od_keys d" "k' \<noteq> k" "od_oldest_key d \<noteq> Some k'"
  shows "k' \<in> od_keys (od_drop_oldest (od_set k v d)) \<longleftrightarrow> k' \<in> od_keys d"
    "od_get (od_drop_oldest (od_set k v d)) k' = od_get d k'"
proof -
  have wf: "od_wf (od_set k v d)" using assms(1) by (rule od_wf_set)
  have "od_oldest_key (od_set k v d) \<noteq> Some k'"
    using assms by (cases "od_oldest_key d") (auto simp: od_set_absent od_oldest_key_append)
  then show "od_get (od_drop_oldest (od_set k v d)) k' = od_get d k'"
    using assms(3) by (simp add: od_get_drop_oldest [OF wf] od_simps)
  then show "k' \<in> od_keys (od_drop_oldest (od_set k v d)) \<longleftrightarrow> k' \<in> od_keys d"
    by (metis od_get_None_iff)
qed

lemma remember_touched: "recent_wf st \<Longrightarrow> touched_only event st (snd (remember_event event st))"
  by (auto simp: touched_only_def remember_event_def Let_def od_simps recent_wf_def full_oldest)

lemma forget_touched: "touched_only event st (forget_event event st)"
  by (simp add: touched_only_def forget_event_def od_simps)

lemma length_od_pop_present: "k \<in> od_keys d \<Longrightarrow> length (od_pop k d) < length d"
  by (auto simp: od_pop_def od_keys_def length_filter_less)

lemma od_pop_absent: "k \<notin> od_keys d \<Longrightarrow> od_pop k d = d"
  by (force simp: od_pop_def od_keys_def intro: filter_True)

lemma forget_remember_touched:
  assumes "recent_wf st"
  shows "touched_only event st (snd (remember_event event (forget_event event st)))"
proof (cases "event_key event \<in> od_keys (event_ids st)")
  case True
  then have "length (od_pop (event_key event) (event_ids st)) < maximum_event_ids st"
    using assms length_od_pop_present by (force simp: recent_wf_def)
  then show ?thesis
    by (auto simp: touched_only_def remember_event_def forget_event_def Let_def od_simps)
next
  case False
  then have "forget_event event st = st" by (simp add: forget_event_def od_pop_absent)
  then show ?thesis using remember_touched [OF assms] by simp
qed

lemma od_keys_opened: "od_keys (if k \<in> od_keys d then d else od_set k v d) = insert k (od_keys d)"
  by (auto simp: od_simps)

lemma add_observation_get_other:
  assumes "recent_wf st" "k \<noteq> window_key event" "od_oldest_key (windows st) \<noteq> Some k"
  shows "od_get (windows (snd (add_observation event w nb st))) k = od_get (windows st) k"
proof (cases "window_key event \<in> od_keys (windows st)")
  case True
  then show ?thesis
    using assms by (auto simp: add_observation_def Let_def od_simps recent_wf_def)
next
  case False
  let ?o = "od_set (window_key event) [] (windows st)"
  have moved: "od_move_last (window_key event) ?o = ?o"
    using False by (simp add: od_set_absent od_move_last_absent)
  have again: "od_set (window_key event) v ?o = od_set (window_key event) v (windows st)" for v
    by (rule od_set_set)
  show ?thesis
    using assms False full_oldest [of "windows st" "window_key event" k]
    by (auto simp: add_observation_def Let_def od_simps recent_wf_def moved again)
qed

lemma add_touched:
  assumes "recent_wf st" "touched_only event st st'" "windows st' = windows st"
    "window_key event' = window_key event" "recent_wf st'"
  shows "touched_only event st (snd (add_observation event' w nb st'))"
  using assms add_observation_get_other [OF assms(5), of _ event'] by (simp add: touched_only_def)

text \<open>What \<open>add\<close> returns: the stored window, within the configured span.\<close>

lemma add_observation_fst:
  "fst (add_observation event w nb st) =
     retained w nb ((case od_get (windows st) (window_key event) of None \<Rightarrow> [] | Some es \<Rightarrow> es) @ [event])"
  by (auto simp: add_observation_def Let_def od_simps od_get_None_iff split: option.splits
      dest: od_get_Some_in)

lemma retained_span:
  assumes "x \<in> set (retained w nb events)" "y \<in> set events"
  shows "ev_observed_at y - ev_observed_at x \<le> seconds w"
proof -
  have "ev_observed_at y \<le> newest_observed events"
    using assms(2) by (auto simp: newest_observed_def)
  then show ?thesis using assms(1) by (auto simp: retained_def)
qed

lemma retained_subset: "set (retained w nb events) \<subseteq> set events"
  by (auto simp: retained_def)

lemma retained_not_before: "x \<in> set (retained w (Some t) events) \<Longrightarrow> t \<le> ev_observed_at x"
  by (simp add: retained_def)

end
