(* ===== verification/Stable_Zone.thy ===== *)
theory Stable_Zone
  imports Evidence "HOL-Library.Multiset"
begin

text \<open>
  From a window of observations to a location: the confidence arithmetic and
  \<open>infer_stable_zone\<close> of \<open>services/streaming_inventory.py\<close>.
\<close>

subsection \<open>Confidence\<close>

definition clamp01 :: "real \<Rightarrow> real" where
  "clamp01 x = max 0 (min 1 x)"

lemma clamp01_range [simp]: "0 \<le> clamp01 x" "clamp01 x \<le> 1"
  by (simp_all add: clamp01_def)

text \<open>\<open>round(x, 4)\<close>, ties to even.\<close>

definition round4 :: "real \<Rightarrow> real" where
  "round4 x =
     (let y = x * 10000; n = \<lfloor>y\<rfloor>; rest = y - of_int n
      in of_int (if rest < 1 / 2 then n else if 1 / 2 < rest then n + 1
                 else if even n then n else n + 1) / 10000)"

lemma round4_range:
  assumes "0 \<le> x" "x \<le> 1"
  shows "0 \<le> round4 x" "round4 x \<le> 1"
proof -
  define n where "n = \<lfloor>x * 10000\<rfloor>"
  have n: "0 \<le> n" "n \<le> 10000" using assms by (simp_all add: n_def floor_le_iff)
  have "x * 10000 - of_int n = 0" if "n = 10000"
    using that assms of_int_floor_le [of "x * 10000"] by (simp add: n_def)
  then have "(if x * 10000 - of_int n < 1 / 2 then n
      else if 1 / 2 < x * 10000 - of_int n then n + 1
      else if even n then n else n + 1) \<in> {0..10000}"
    using n by (cases "n = 10000") auto
  then show "0 \<le> round4 x" "round4 x \<le> 1"
    by (auto simp: round4_def Let_def divide_le_eq n_def [symmetric])
qed

definition age_seconds :: "timestamp \<Rightarrow> timestamp \<Rightarrow> real" where
  "age_seconds later earlier = max 0 (real_of_int (later - earlier) / 1000000)"

definition effective_item_confidence ::
    "real \<Rightarrow> timestamp \<Rightarrow> timestamp \<Rightarrow> int \<Rightarrow> real" where
  "effective_item_confidence stored last_observed_at evaluated_at half_life_seconds =
     clamp01 (stored * (1 / 2) powr (age_seconds evaluated_at last_observed_at / of_int half_life_seconds))"

definition effective_bucket_confidence :: "int \<Rightarrow> int option \<Rightarrow> real option \<Rightarrow> real" where
  "effective_bucket_confidence projected_quantity current_item_count current_confidence =
     (case current_item_count of
        None \<Rightarrow> if projected_quantity = 0 then 1 else 0
      | Some n \<Rightarrow>
          if projected_quantity \<noteq> n then 0
          else (case current_confidence of None \<Rightarrow> 0 | Some c \<Rightarrow> c))"

definition observation_confidence ::
    "nat \<Rightarrow> int \<Rightarrow> real option \<Rightarrow> rfid_event \<Rightarrow> int \<Rightarrow> real" where
  "observation_confidence read_count required_reads rssi_separation newest window_seconds =
     (let consistency = min 1 (real read_count / of_int required_reads);
          separation = (case rssi_separation of
                          None \<Rightarrow> 1 | Some s \<Rightarrow> min 1 (max 0 s / 12));
          age = age_seconds (ev_received_at newest) (ev_observed_at newest);
          recency = max 0 (1 - age / of_int window_seconds);
          score = 40 / 100 * consistency + 25 / 100 * separation + 25 / 100 * recency
                    + 10 / 100 * ev_reader_health newest
      in round4 (clamp01 score))"

lemma observation_confidence_range:
  "0 \<le> observation_confidence n r s e w" "observation_confidence n r s e w \<le> 1"
  by (simp_all add: observation_confidence_def Let_def round4_range)

lemma age_seconds_mono: "t \<le> t' \<Longrightarrow> age_seconds t e \<le> age_seconds t' e"
  using divide_right_mono [of "real_of_int (t - e)" "real_of_int (t' - e)" 1000000]
  by (auto simp: age_seconds_def max_def)

lemma half_powr_antimono: "a \<le> b \<Longrightarrow> (1 / 2 :: real) powr b \<le> (1 / 2) powr a"
  by (simp add: powr_mono')

lemma clamp01_mono: "x \<le> y \<Longrightarrow> clamp01 x \<le> clamp01 y"
  by (auto simp: clamp01_def)

subsection \<open>The stable zone\<close>

record stable_zone =
  sz_store :: uuid
  sz_zone :: uuid
  sz_confidence :: real
  sz_observed_at :: timestamp
  sz_received_at :: timestamp

type_synonym location = "uuid \<times> uuid"

definition observed_location :: "rfid_event \<Rightarrow> location" where
  "observed_location item = (ev_store item, ev_zone item)"

definition median_rssi :: "rfid_event list \<Rightarrow> real" where
  "median_rssi items = median (map ev_rssi items)"

text \<open>The ranking key of a group: read count, then median signal, then the zone's identifier.\<close>

definition zone_rank :: "location \<times> rfid_event list \<Rightarrow> nat \<times> real \<times> uuid" where
  "zone_rank entry = (length (snd entry), median_rssi (snd entry), snd (fst entry))"

definition rank_zones :: "rfid_event list \<Rightarrow> (location \<times> rfid_event list) list" where
  "rank_zones observations = sort_desc zone_rank (group_by observed_location observations)"

definition recency_key :: "rfid_event \<Rightarrow> timestamp \<times> timestamp \<times> string" where
  "recency_key item = (ev_observed_at item, ev_received_at item, ev_event_id item)"

definition decide_zone ::
    "(location \<times> rfid_event list) list \<Rightarrow> settings \<Rightarrow> stable_zone option" where
  "decide_zone ranked settings =
     (case ranked of
        [] \<Rightarrow> None
      | (location, winning) # others \<Rightarrow>
          if int (length winning) < rfid_move_confirmation_reads settings then None
          else
            let separation =
                  (case others of
                     [] \<Rightarrow> None
                   | (_, competing) # _ \<Rightarrow> Some (median_rssi winning - median_rssi competing));
                tied =
                  (case others of
                     [] \<Rightarrow> False
                   | (_, competing) # _ \<Rightarrow>
                       length winning = length competing \<and>
                       median_rssi winning - median_rssi competing < 3)
            in if tied then None
               else case best_by recency_key winning of
                 None \<Rightarrow> None
               | Some newest \<Rightarrow>
                   Some \<lparr>sz_store = fst location, sz_zone = snd location,
                         sz_confidence =
                           observation_confidence (length winning)
                             (rfid_move_confirmation_reads settings) separation newest
                             (rfid_move_confirmation_window_seconds settings),
                         sz_observed_at = ev_observed_at newest,
                         sz_received_at = ev_received_at newest\<rparr>)"

definition infer_stable_zone :: "rfid_event list \<Rightarrow> settings \<Rightarrow> stable_zone option" where
  "infer_stable_zone observations settings =
     (if observations = [] then None else decide_zone (rank_zones observations) settings)"

abbreviation reads_at :: "location \<Rightarrow> rfid_event list \<Rightarrow> rfid_event list" where
  "reads_at loc observations \<equiv> filter (\<lambda>item. observed_location item = loc) observations"

lemma in_rank_zones_iff:
  "(loc, items) \<in> set (rank_zones observations) \<longleftrightarrow>
     items \<noteq> [] \<and> items = reads_at loc observations"
  by (simp add: rank_zones_def in_group_by_iff)

lemma distinct_rank_zones: "distinct (map fst (rank_zones observations))"
proof -
  have "inj_on fst (set (group_by observed_location observations))"
    using distinct_group_by [of observed_location observations] by (simp add: distinct_map)
  then show ?thesis
    using distinct_group_by [of observed_location observations]
    by (simp add: rank_zones_def distinct_map)
qed

lemma decide_zone_SomeD:
  assumes "decide_zone ranked settings = Some d"
  obtains winning others newest where
    "ranked = ((sz_store d, sz_zone d), winning) # others"
    "rfid_move_confirmation_reads settings \<le> int (length winning)"
    "best_by recency_key winning = Some newest"
    "sz_observed_at d = ev_observed_at newest" "sz_received_at d = ev_received_at newest"
    "\<And>loc competing rest. others = (loc, competing) # rest \<Longrightarrow>
       length winning = length competing \<Longrightarrow> 3 \<le> median_rssi winning - median_rssi competing"
    "0 \<le> sz_confidence d" "sz_confidence d \<le> 1"
proof (cases ranked)
  case (Cons entry others)
  obtain loc winning where entry: "entry = (loc, winning)" by (cases entry)
  obtain newest where "best_by recency_key winning = Some newest"
    using assms Cons entry by (auto simp: decide_zone_def Let_def split: if_splits option.splits)
  then show thesis
    using assms Cons entry that [of winning others newest]
    by (cases loc; cases others)
      (auto simp: decide_zone_def Let_def observation_confidence_range split: if_splits prod.splits)
qed (use assms in \<open>simp add: decide_zone_def\<close>)

text \<open>
  The decision in terms of the window: the winning zone, its reads, and every competitor.
\<close>

lemma infer_stable_zone_SomeD:
  assumes "infer_stable_zone observations settings = Some d"
  defines "winning \<equiv> reads_at (sz_store d, sz_zone d) observations"
  shows "rfid_move_confirmation_reads settings \<le> int (length winning)"
    and "winning \<noteq> []"
    and "\<And>loc. loc \<noteq> (sz_store d, sz_zone d) \<Longrightarrow>
           length (reads_at loc observations) \<le> length winning"
    and "\<And>loc. loc \<noteq> (sz_store d, sz_zone d) \<Longrightarrow> reads_at loc observations \<noteq> [] \<Longrightarrow>
           length (reads_at loc observations) = length winning \<Longrightarrow>
           3 \<le> median_rssi winning - median_rssi (reads_at loc observations)"
    and "\<exists>item \<in> set winning. ev_observed_at item = sz_observed_at d \<and>
           ev_received_at item = sz_received_at d"
    and "\<And>item. item \<in> set winning \<Longrightarrow> ev_observed_at item \<le> sz_observed_at d"
    and "0 \<le> sz_confidence d" "sz_confidence d \<le> 1"
proof -
  have dec: "decide_zone (rank_zones observations) settings = Some d"
    using assms(1) by (simp add: infer_stable_zone_def split: if_splits)
  then obtain w others newest where
    ranked: "rank_zones observations = ((sz_store d, sz_zone d), w) # others"
    and reads: "rfid_move_confirmation_reads settings \<le> int (length w)"
    and newest: "best_by recency_key w = Some newest"
    and times: "sz_observed_at d = ev_observed_at newest" "sz_received_at d = ev_received_at newest"
    and clear: "\<And>loc competing rest. others = (loc, competing) # rest \<Longrightarrow>
       length w = length competing \<Longrightarrow> 3 \<le> median_rssi w - median_rssi competing"
    and conf: "0 \<le> sz_confidence d" "sz_confidence d \<le> 1"
    by (rule decide_zone_SomeD) blast
  have "((sz_store d, sz_zone d), w) \<in> set (rank_zones observations)" by (simp add: ranked)
  then have w: "w = winning" "winning \<noteq> []" by (auto simp: in_rank_zones_iff winning_def)
  show "rfid_move_confirmation_reads settings \<le> int (length winning)" "winning \<noteq> []"
    "0 \<le> sz_confidence d" "sz_confidence d \<le> 1"
    using reads conf w by auto
  have "newest \<in> set winning" and all: "\<forall>item \<in> set winning. recency_key item \<le> recency_key newest"
    using best_by_SomeD [OF newest] w by auto
  then show "\<exists>item \<in> set winning. ev_observed_at item = sz_observed_at d \<and>
      ev_received_at item = sz_received_at d" using times by auto
  show "ev_observed_at item \<le> sz_observed_at d" if "item \<in> set winning" for item
    using all that times by (force simp: recency_key_def less_eq_prod_def)
  have sorted: "sorted_wrt (\<lambda>a b. zone_rank b \<le> zone_rank a) (rank_zones observations)"
    by (simp add: rank_zones_def sorted_sort_desc)
  have other: "(loc, reads_at loc observations) \<in> set others"
    if "loc \<noteq> (sz_store d, sz_zone d)" "reads_at loc observations \<noteq> []" for loc
    using in_rank_zones_iff [of loc "reads_at loc observations" observations] that
    by (auto simp: ranked)
  have le: "zone_rank e \<le> zone_rank ((sz_store d, sz_zone d), winning)" if "e \<in> set others" for e
    using sorted that w by (auto simp: ranked)
  show "length (reads_at loc observations) \<le> length winning"
    if "loc \<noteq> (sz_store d, sz_zone d)" for loc
    using le [OF other [OF that]] by (cases "reads_at loc observations = []")
      (auto simp: zone_rank_def less_eq_prod_def)
  show "3 \<le> median_rssi winning - median_rssi (reads_at loc observations)"
    if loc: "loc \<noteq> (sz_store d, sz_zone d)" "reads_at loc observations \<noteq> []"
      "length (reads_at loc observations) = length winning" for loc
  proof -
    obtain loc2 second rest where others: "others = (loc2, second) # rest"
      using other [OF loc(1,2)] by (cases others) auto
    have "zone_rank (loc, reads_at loc observations) \<le> zone_rank (loc2, second)"
      using sorted other [OF loc(1,2)] by (auto simp: ranked others)
    moreover have "zone_rank (loc2, second) \<le> zone_rank ((sz_store d, sz_zone d), winning)"
      by (rule le) (simp add: others)
    ultimately have "length second = length winning"
      "median_rssi (reads_at loc observations) \<le> median_rssi second"
      using loc(3) by (auto simp: zone_rank_def less_eq_prod_def)
    then show ?thesis using clear [OF others] w(1) by auto
  qed
qed

subsection \<open>Order independence\<close>

lemma median_cong_mset: "mset xs = mset ys \<Longrightarrow> median xs = median ys"
proof -
  assume "mset xs = mset ys"
  then have "sort xs = sort ys" by (metis mset_sort properties_for_sort sorted_sort)
  then show ?thesis by (simp add: median_def)
qed

lemma best_by_cong_set:
  assumes "set rows = set rows'" "inj_on k (set rows)"
  shows "best_by k rows = best_by k rows'"
proof (cases "best_by k rows")
  case None
  then show ?thesis using assms by simp
next
  case (Some r)
  then have "r \<in> set rows'" "\<And>r'. r' \<in> set rows' \<Longrightarrow> r' \<noteq> r \<Longrightarrow> k r' < k r"
    using best_by_SomeD [OF Some] assms by (auto simp: inj_on_def order.strict_iff_order)
  then have "best_by k rows' = Some r" by (rule best_by_unique)
  with Some show ?thesis by simp
qed

lemma strictly_sorted_unique:
  assumes "sorted_wrt (\<lambda>a b. f b < (f a :: 'k::linorder)) xs" "sorted_wrt (\<lambda>a b. f b < f a) ys"
    and "set xs = set ys" "inj_on f (set xs)"
  shows "xs = ys"
proof -
  have down: "sorted (rev (map f zs)) \<and> distinct (rev (map f zs))"
    if "sorted_wrt (\<lambda>a b. f b < f a) zs" for zs
    using that by (induction zs) (auto simp: sorted_append intro: less_imp_le)
  have "rev (map f xs) = rev (map f ys)"
    using down [OF assms(1)] down [OF assms(2)] assms(3)
    by (intro sorted_distinct_set_unique) auto
  then have "map f xs = map f ys" by simp
  then show ?thesis using assms(3,4) by (metis inj_on_Un_image_eq_iff map_inj_on Un_absorb)
qed

text \<open>What the database guarantees of a window: a zone lies in one store, an event id is unique.\<close>

definition coherent_window :: "rfid_event list \<Rightarrow> bool" where
  "coherent_window observations \<longleftrightarrow>
     (\<forall>a \<in> set observations. \<forall>b \<in> set observations.
        (ev_zone a = ev_zone b \<longrightarrow> ev_store a = ev_store b) \<and>
        (ev_event_id a = ev_event_id b \<longrightarrow> a = b))"

lemma rank_zones_eq:
  "rank_zones observations =
     map (\<lambda>loc. (loc, reads_at loc observations)) (map fst (rank_zones observations))"
proof -
  have "snd e = reads_at (fst e) observations" if "e \<in> set (rank_zones observations)" for e
    using in_rank_zones_iff [of "fst e" "snd e" observations] that by simp
  then show ?thesis by (simp add: list_eq_iff_nth_eq prod_eq_iff)
qed

lemma locations_of_rank_zones:
  "set (map fst (rank_zones observations)) = observed_location ` set observations"
proof -
  have "loc \<in> set (map fst (rank_zones observations)) \<longleftrightarrow>
      (\<exists>items. (loc, items) \<in> set (rank_zones observations))" for loc
    by (simp add: image_iff Bex_def) (metis fst_conv prod.collapse)
  moreover have "(\<exists>items. (loc, items) \<in> set (rank_zones observations)) \<longleftrightarrow>
      reads_at loc observations \<noteq> []" for loc
    by (simp add: in_rank_zones_iff)
  moreover have "reads_at loc observations \<noteq> [] \<longleftrightarrow> loc \<in> observed_location ` set observations" for loc
    by (simp add: filter_empty_conv image_iff) blast
  ultimately show ?thesis by blast
qed

lemma sorted_strictI:
  "sorted_wrt (\<lambda>a b. f b \<le> (f a :: 'k::linorder)) xs \<Longrightarrow> distinct (map f xs) \<Longrightarrow>
     sorted_wrt (\<lambda>a b. f b < f a) xs"
proof (induction xs)
  case (Cons x xs)
  then show ?case by (auto simp: order.strict_iff_order image_iff)
qed simp

lemma rank_zones_strict:
  assumes "coherent_window observations"
  defines "f \<equiv> \<lambda>loc. zone_rank (loc, reads_at loc observations)"
  shows "sorted_wrt (\<lambda>a b. f b < f a) (map fst (rank_zones observations))"
    and "inj_on f (observed_location ` set observations)"
proof -
  show inj: "inj_on f (observed_location ` set observations)"
  proof (rule inj_onI)
    fix a b
    assume ab: "a \<in> observed_location ` set observations" "b \<in> observed_location ` set observations"
      and "f a = f b"
    then have "snd a = snd b" by (simp add: f_def zone_rank_def)
    moreover obtain x y where "x \<in> set observations" "a = observed_location x"
        "y \<in> set observations" "b = observed_location y"
      using ab by blast
    ultimately show "a = b"
      using assms(1) unfolding coherent_window_def observed_location_def by (metis snd_conv)
  qed
  have "f (fst e) = zone_rank e" if "e \<in> set (rank_zones observations)" for e
    using in_rank_zones_iff [of "fst e" "snd e" observations] that
    by (metis f_def prod.collapse)
  moreover have "sorted_wrt (\<lambda>a b. zone_rank b \<le> zone_rank a) (rank_zones observations)"
    by (simp add: rank_zones_def sorted_sort_desc)
  ultimately have "sorted_wrt (\<lambda>a b. f (fst b) \<le> f (fst a)) (rank_zones observations)"
    by (metis (mono_tags, lifting) sorted_wrt_mono_rel)
  then show "sorted_wrt (\<lambda>a b. f b < f a) (map fst (rank_zones observations))"
    using inj
    by (intro sorted_strictI)
      (simp only: sorted_wrt_map, simp only: distinct_map [of f] distinct_rank_zones
         locations_of_rank_zones simp_thms)
qed

lemma reads_permuted:
  assumes "mset xs = mset ys"
  shows "set (reads_at loc xs) = set (reads_at loc ys)"
    "length (reads_at loc xs) = length (reads_at loc ys)"
    "median_rssi (reads_at loc xs) = median_rssi (reads_at loc ys)"
proof -
  have eq: "mset (reads_at loc xs) = mset (reads_at loc ys)" using assms by simp
  show "set (reads_at loc xs) = set (reads_at loc ys)" by (rule mset_eq_setD [OF eq])
  show "length (reads_at loc xs) = length (reads_at loc ys)" by (rule mset_eq_length [OF eq])
  show "median_rssi (reads_at loc xs) = median_rssi (reads_at loc ys)"
    unfolding median_rssi_def by (rule median_cong_mset) (simp only: mset_map eq)
qed

lemma rank_zones_permuted:
  assumes "coherent_window xs" "mset xs = mset ys"
  shows "map fst (rank_zones xs) = map fst (rank_zones ys)"
proof -
  have sets: "set xs = set ys" using assms(2) by (rule mset_eq_setD)
  have coh: "coherent_window ys" using assms(1) unfolding coherent_window_def sets .
  have rank: "zone_rank (loc, reads_at loc xs) = zone_rank (loc, reads_at loc ys)" for loc
    by (simp only: zone_rank_def fst_conv snd_conv reads_permuted [OF assms(2)])
  note strict = rank_zones_strict [OF assms(1), unfolded rank]
  show ?thesis
  proof (rule strictly_sorted_unique [OF strict(1) rank_zones_strict(1) [OF coh]])
    show "set (map fst (rank_zones xs)) = set (map fst (rank_zones ys))"
      unfolding locations_of_rank_zones sets ..
    show "inj_on (\<lambda>loc. zone_rank (loc, reads_at loc ys)) (set (map fst (rank_zones xs)))"
      unfolding locations_of_rank_zones by (rule strict(2))
  qed
qed

text \<open>The parts of the decision, none of which looks at the order of the reads.\<close>

lemma decide_zone_cong:
  assumes "map fst ranked = map fst ranked'"
    and "list_all2 (\<lambda>a b. length (snd a) = length (snd b) \<and>
           median_rssi (snd a) = median_rssi (snd b) \<and>
           best_by recency_key (snd a) = best_by recency_key (snd b)) ranked ranked'"
  shows "decide_zone ranked settings = decide_zone ranked' settings"
proof (cases ranked)
  case Nil
  then show ?thesis using assms by simp
next
  case (Cons a as)
  then obtain b bs where ranked': "ranked' = b # bs" using assms(1) by (cases ranked') auto
  obtain loc w w' where ab: "a = (loc, w)" "b = (loc, w')"
    using assms(1) Cons ranked' by (cases a; cases b) auto
  have eqs: "length w = length w'" "median_rssi w = median_rssi w'"
    "best_by recency_key w = best_by recency_key w'"
    using assms(2) Cons ranked' ab by simp_all
  show ?thesis
  proof (cases as)
    case Nil
    then have "bs = []" using assms(1) Cons ranked' by simp
    with Nil eqs show ?thesis
      by (simp add: Cons ranked' ab decide_zone_def Let_def cong: option.case_cong)
  next
    case (Cons a2 as2)
    then obtain b2 bs2 where bs: "bs = b2 # bs2"
      using assms(1) \<open>ranked = a # as\<close> ranked' by (cases bs) auto
    have "length (snd a2) = length (snd b2)" "median_rssi (snd a2) = median_rssi (snd b2)"
      using assms(2) \<open>ranked = a # as\<close> ranked' Cons bs by simp_all
    with Cons bs eqs show ?thesis
      by (simp add: \<open>ranked = a # as\<close> ranked' ab decide_zone_def Let_def split_beta
          cong: option.case_cong)
  qed
qed

lemma infer_stable_zone_permuted:
  assumes "coherent_window xs" "mset xs = mset ys"
  shows "infer_stable_zone xs settings = infer_stable_zone ys settings"
proof -
  have sets: "set xs = set ys" using assms(2) by (rule mset_eq_setD)
  have names: "map fst (rank_zones xs) = map fst (rank_zones ys)"
    by (rule rank_zones_permuted [OF assms])
  have same: "length (reads_at loc xs) = length (reads_at loc ys) \<and>
      median_rssi (reads_at loc xs) = median_rssi (reads_at loc ys) \<and>
      best_by recency_key (reads_at loc xs) = best_by recency_key (reads_at loc ys)" for loc
  proof -
    have "inj_on recency_key (set (reads_at loc xs))"
      using assms(1) by (auto simp: inj_on_def recency_key_def coherent_window_def)
    then show ?thesis
      using best_by_cong_set [OF reads_permuted(1) [OF assms(2)]] reads_permuted [OF assms(2)]
      by blast
  qed
  have "decide_zone (rank_zones xs) settings = decide_zone (rank_zones ys) settings"
    by (rule decide_zone_cong [OF names], subst rank_zones_eq, subst (2) rank_zones_eq,
        unfold names) (simp add: list_all2_conv_all_nth same)
  moreover have "xs = [] \<longleftrightarrow> ys = []" using sets by auto
  ultimately show ?thesis by (simp add: infer_stable_zone_def)
qed

subsection \<open>Properties\<close>

text \<open>
  A confirmed location is supported by its window: the winning zone has at least the required
  number of reads and no other zone has more; a zone with as many reads is at least 3 dB weaker in
  the median; the decision carries the newest observation of the winning zone, and its confidence
  lies in the unit interval.
\<close>

theorem stable_zone_is_supported:
  assumes "infer_stable_zone observations settings = Some d"
  defines "winning \<equiv> reads_at (sz_store d, sz_zone d) observations"
  shows "rfid_move_confirmation_reads settings \<le> int (length winning) \<and>
    (\<forall>loc. loc \<noteq> (sz_store d, sz_zone d) \<longrightarrow>
       length (reads_at loc observations) \<le> length winning \<and>
       (reads_at loc observations \<noteq> [] \<and> length (reads_at loc observations) = length winning \<longrightarrow>
          3 \<le> median_rssi winning - median_rssi (reads_at loc observations))) \<and>
    (\<exists>item \<in> set winning. ev_observed_at item = sz_observed_at d \<and>
       ev_received_at item = sz_received_at d) \<and>
    (\<forall>item \<in> set winning. ev_observed_at item \<le> sz_observed_at d) \<and>
    0 \<le> sz_confidence d \<and> sz_confidence d \<le> 1"
  using infer_stable_zone_SomeD [OF assms(1)] unfolding winning_def by blast

definition sample_window :: "rfid_event list" where
  "sample_window =
     [sample_event,
      sample_event\<lparr>ev_event_id := ''e2'', ev_observed_at := seconds 101\<rparr>,
      sample_event\<lparr>ev_event_id := ''e3'', ev_zone := 4, ev_rssi := - 60\<rparr>,
      sample_event\<lparr>ev_event_id := ''e4'', ev_observed_at := seconds 99\<rparr>]"

lemma sample_window_decision:
  "\<exists>d. infer_stable_zone sample_window default_settings = Some d \<and>
     sz_store d = 2 \<and> sz_zone d = 3 \<and> sz_observed_at d = seconds 101"
  by (simp add: infer_stable_zone_def sample_window_def sample_event_def rank_zones_def
      group_by_def observed_location_def sort_desc_def zone_rank_def median_rssi_def median_def
      decide_zone_def recency_key_def Let_def seconds_def)

theorem stable_zone_is_supported_witness:
  "\<exists>d. infer_stable_zone sample_window default_settings = Some d \<and>
     3 \<le> length (reads_at (sz_store d, sz_zone d) sample_window)"
  using sample_window_decision stable_zone_is_supported [of sample_window default_settings]
  by fastforce

text \<open>
  C39: The decision does not depend on arrival order: two windows with the same observations, in any
  order, confirm the same zone with the same confidence, provided a zone belongs to one store and
  event identifiers are unique, which the foreign keys and the ledger's unique key ensure.
\<close>

theorem stable_zone_ignores_arrival_order:
  assumes "coherent_window xs" "mset xs = mset ys"
  shows "infer_stable_zone xs settings = infer_stable_zone ys settings"
  using assms by (rule infer_stable_zone_permuted)

theorem stable_zone_ignores_arrival_order_witness:
  "infer_stable_zone sample_window default_settings
   = infer_stable_zone (rev sample_window) default_settings"
  by (rule stable_zone_ignores_arrival_order)
    (simp_all add: coherent_window_def sample_window_def sample_event_def)

text \<open>
  Item confidence only decays: it stays in the unit interval, is never raised by the passage of
  time, equals the stored confidence until time has passed since the observation, and is halved by
  every half-life.
\<close>

theorem item_confidence_decays:
  assumes "0 \<le> c" "c \<le> 1" "t \<le> t'" "0 < half_life"
  shows "0 \<le> effective_item_confidence c e t half_life \<and>
    effective_item_confidence c e t half_life \<le> 1 \<and>
    effective_item_confidence c e t' half_life \<le> effective_item_confidence c e t half_life \<and>
    (t \<le> e \<longrightarrow> effective_item_confidence c e t half_life = c) \<and>
    (e \<le> t \<longrightarrow> effective_item_confidence c e (t + seconds half_life) half_life
               = effective_item_confidence c e t half_life / 2)"
proof (intro conjI impI)
  have powr: "(1 / 2 :: real) powr x \<le> 1 \<and> 0 \<le> (1 / 2 :: real) powr x" if "0 \<le> x" for x
    using half_powr_antimono [OF that] by simp
  have age: "0 \<le> age_seconds s e / of_int half_life" for s
    using assms(4) by (simp add: age_seconds_def)
  show "0 \<le> effective_item_confidence c e t half_life"
    "effective_item_confidence c e t half_life \<le> 1"
    by (simp_all add: effective_item_confidence_def)
  show "effective_item_confidence c e t' half_life \<le> effective_item_confidence c e t half_life"
    unfolding effective_item_confidence_def using assms age_seconds_mono [of t t' e]
    by (intro clamp01_mono mult_left_mono half_powr_antimono divide_right_mono) simp_all
  show "effective_item_confidence c e t half_life = c" if "t \<le> e"
    using that assms by (simp add: effective_item_confidence_def age_seconds_def clamp01_def)
  have clamp: "clamp01 (c * (1 / 2) powr x) = c * (1 / 2) powr x" if "0 \<le> x" for x
    using powr [OF that] assms mult_le_one [of c "(1 / 2) powr x"] by (simp add: clamp01_def)
  show "effective_item_confidence c e (t + seconds half_life) half_life
      = effective_item_confidence c e t half_life / 2" if "e \<le> t"
  proof -
    have "age_seconds (t + seconds half_life) e / of_int half_life
        = age_seconds t e / of_int half_life + 1"
      using that assms(4) by (simp add: age_seconds_def seconds_def field_simps)
    then show ?thesis
      unfolding effective_item_confidence_def clamp [OF age]
      by (simp add: powr_add)
  qed
qed

theorem item_confidence_decays_witness:
  "effective_item_confidence (8 / 10) 0 (seconds 1800 + seconds 1800) 1800
   = effective_item_confidence (8 / 10) 0 (seconds 1800) 1800 / 2"
  using item_confidence_decays [of "8 / 10" "seconds 1800" "seconds 1800" 1800 0]
  by (simp add: seconds_def)

end
