(* ===== verification/Streaming.thy ===== *)
theory Streaming
  imports Ledger Stable_Zone
begin

text \<open>
  The observation processor of \<open>services/streaming_inventory.py\<close>: registry resolution, item state,
  inventory transitions with their deltas, attribution of moves to replenishment tasks, and
  \<open>process_observation\<close> itself.  The in-process evidence window survives an exception, so the
  processor returns it beside the outcome of the transaction.  \<open>u5\<close> is \<open>uuid.uuid5\<close> in the URL
  namespace, \<open>quarantine_id\<close> the identifier a quarantine row would draw, \<open>now\<close> the clock.
\<close>

subsection \<open>Presence\<close>

definition effective_presence_status :: "item_state \<Rightarrow> settings \<Rightarrow> timestamp \<Rightarrow> item_presence_status" where
  "effective_presence_status s settings now =
     (if it_removal_event s \<noteq> None then REMOVED
      else if it_store s = None \<or> it_zone s = None then LOCATION_UNKNOWN
      else if age now (it_last_observed_at s) > seconds (rfid_unobserved_after_seconds settings)
      then UNOBSERVED
      else OBSERVED)"

subsection \<open>Registry and bindings\<close>

definition resolve_effective_assignment :: "rfid_event \<Rightarrow> db \<Rightarrow> string + assignment" where
  "resolve_effective_assignment event db =
     (case select_one (\<lambda>d. dv_tenant d = ev_tenant event \<and> dv_id d = ev_device event) (devices db) of
        None \<Rightarrow> Inl ''UNKNOWN_DEVICE''
      | Some device \<Rightarrow>
          if dv_status device \<noteq> DEVICE_ACTIVE then Inl ''INACTIVE_DEVICE''
          else case best_by as_from
                 (filter (\<lambda>a. as_tenant a = ev_tenant event \<and> as_device a = ev_device event \<and>
                              effective (as_from a) (as_to a) (ev_observed_at event))
                    (assignments db)) of
            None \<Rightarrow> Inl ''DEVICE_ASSIGNMENT_UNAVAILABLE''
          | Some a \<Rightarrow>
              if as_store a \<noteq> ev_store event \<or> as_zone a \<noteq> ev_zone event
              then Inl ''DEVICE_ASSIGNMENT_MISMATCH''
              else Inr a)"

definition effective_binding :: "uuid \<Rightarrow> string \<Rightarrow> timestamp \<Rightarrow> db \<Rightarrow> epc_binding option" where
  "effective_binding tenant epc at_time db =
     best_by bd_from
       (filter (\<lambda>b. bd_tenant b = tenant \<and> bd_epc b = epc \<and>
                    effective (bd_from b) (bd_to b) at_time) (bindings db))"

definition current_binding :: "uuid \<Rightarrow> string \<Rightarrow> timestamp \<Rightarrow> db \<Rightarrow> epc_binding option" where
  "current_binding tenant epc now db =
     best_by bd_from
       (filter (\<lambda>b. bd_tenant b = tenant \<and> bd_epc b = epc \<and> bd_from b \<le> now \<and> bd_to b = None)
          (bindings db))"

text \<open>
  The binding at event time, or, for an operator's replay of an unknown EPC, the current one; with
  the start of the evidence the binding at event time admits.
\<close>

definition binding_for_event ::
    "rfid_event \<Rightarrow> timestamp \<Rightarrow> db \<Rightarrow> epc_binding option \<times> timestamp option" where
  "binding_for_event event now db =
     (case effective_binding (ev_tenant event) (ev_epc event) (ev_observed_at event) db of
        Some b \<Rightarrow> (Some b, Some (bd_from b))
      | None \<Rightarrow>
          (case ev_replayed_from event of
             None \<Rightarrow> (None, None)
           | Some qid \<Rightarrow>
               (case select_one (\<lambda>q. qr_id q = qid \<and> qr_tenant q = ev_tenant event \<and>
                        qr_event_id q = Some (ev_event_id event) \<and> qr_reason q = ''UNKNOWN_EPC'')
                       (quarantines db) of
                  None \<Rightarrow> (None, None)
                | Some _ \<Rightarrow> (current_binding (ev_tenant event) (ev_epc event) now db, None))))"

subsection \<open>Transitions\<close>

definition deterministic_transition_id :: "(string \<Rightarrow> uuid) \<Rightarrow> uuid \<Rightarrow> string \<Rightarrow> int \<Rightarrow> uuid" where
  "deterministic_transition_id u5 tenant epc state_version =
     u5 (''abacus:'' @ str_uuid tenant @ '':'' @ epc @ '':'' @ str_int state_version)"

definition make_delta ::
    "uuid \<Rightarrow> uuid \<Rightarrow> string \<Rightarrow> uuid \<Rightarrow> uuid \<Rightarrow> uuid \<Rightarrow> int \<Rightarrow> real \<Rightarrow> timestamp
       \<Rightarrow> inventory_delta outcome" where
  "make_delta transition_id tenant epc sku store zone quantity confidence observed_at =
     (let d = \<lparr>dl_delta_id = str_uuid transition_id @ '':'' @ str_uuid sku @ '':'' @ str_uuid zone,
               dl_transition = transition_id, dl_tenant = tenant, dl_store = store, dl_sku = sku,
               dl_zone = zone, dl_epc = epc, dl_quantity = quantity, dl_confidence = confidence,
               dl_observed_at = observed_at\<rparr>
      in if delta_valid d then Inr d else Inl (ValueError ''InventoryDeltaEvent''))"

definition new_transition :: "uuid \<Rightarrow> uuid \<Rightarrow> string \<Rightarrow> int \<Rightarrow> inventory_delta list \<Rightarrow> timestamp \<Rightarrow> transition" where
  "new_transition transition_id tenant epc version deltas now =
     \<lparr>tr_id = transition_id, tr_tenant = tenant, tr_epc = epc, tr_version = version,
      tr_deltas = DeltaList (map DeltaPayload deltas), tr_created_at = now,
      tr_published_at = None, tr_quarantined_at = None, tr_quarantine_reason = None,
      tr_reconciled_at = None, tr_publish_attempts = 0, tr_last_error = None\<rparr>"

subsection \<open>Attribution of moves\<close>

definition zone_kind_of :: "uuid \<Rightarrow> uuid \<Rightarrow> uuid \<Rightarrow> db \<Rightarrow> zone_kind option" where
  "zone_kind_of tenant store zone db =
     map_option zn_kind
       (select_one (\<lambda>z. zn_tenant z = tenant \<and> zn_store z = store \<and> zn_id z = zone) (zones db))"

definition move_candidate :: "uuid \<Rightarrow> uuid \<Rightarrow> uuid \<Rightarrow> timestamp \<Rightarrow> task \<Rightarrow> bool" where
  "move_candidate tenant store sku observed_at t \<longleftrightarrow>
     tk_tenant t = tenant \<and> tk_store t = store \<and> tk_sku t = sku \<and>
     tk_status t \<in> {TASK_IN_PROGRESS, TASK_COMPLETED} \<and>
     (case tk_started_at t of None \<Rightarrow> False | Some s \<Rightarrow> s \<le> observed_at) \<and>
     tk_verified t < tk_quantity t \<and>
     (tk_status t = TASK_IN_PROGRESS \<or>
      tk_status t = TASK_COMPLETED \<and>
        (case tk_verification_deadline t of None \<Rightarrow> False | Some d \<Rightarrow> observed_at \<le> d))"

definition move_preference :: "task \<Rightarrow> nat \<times> timestamp \<times> uuid" where
  "move_preference t =
     (if tk_status t = TASK_IN_PROGRESS then 1 else 0,
      case tk_started_at t of None \<Rightarrow> 0 | Some s \<Rightarrow> s, tk_id t)"

definition tk_key :: "task \<Rightarrow> uuid \<times> uuid" where
  "tk_key t = (tk_tenant t, tk_id t)"

definition credit_move :: "task \<Rightarrow> task" where
  "credit_move t =
     t\<lparr>tk_verified := min (tk_quantity t) (tk_verified t + 1), tk_version := tk_version t + 1\<rparr>"

definition attribute_replenishment_move ::
    "uuid \<Rightarrow> uuid \<Rightarrow> string \<Rightarrow> uuid \<Rightarrow> uuid \<Rightarrow> uuid \<Rightarrow> uuid \<Rightarrow> timestamp \<Rightarrow> db \<Rightarrow> db outcome" where
  "attribute_replenishment_move tenant transition_id epc sku store previous_zone next_zone observed_at db =
     (if zone_kind_of tenant store previous_zone db \<noteq> Some BACKROOM \<or>
         zone_kind_of tenant store next_zone db \<noteq> Some SALES_FLOOR then Inr db
      else case best_by move_preference
             (filter (move_candidate tenant store sku observed_at) (tasks db)) of
        None \<Rightarrow> Inr db
      | Some t \<Rightarrow>
          if list_ex (\<lambda>e. te_tenant e = tenant \<and> te_transition e = transition_id) (evidence_rows db)
          then Inl (IntegrityError ''uq_replenishment_task_evidence_transition'')
          else Inr (db\<lparr>evidence_rows := evidence_rows db @
                         [\<lparr>te_tenant = tenant, te_task = tk_id t, te_transition = transition_id,
                           te_epc = epc, te_observed_at = observed_at\<rparr>],
                       tasks := update_where (\<lambda>t'. tk_key t' = tk_key t) credit_move (tasks db)\<rparr>))"

subsection \<open>One observation\<close>

definition result :: "disposition \<Rightarrow> string option \<Rightarrow> bool \<Rightarrow> processing_result" where
  "result d reason changed = \<lparr>pr_disposition = d, pr_reason = reason, pr_state_changed = changed\<rparr>"

definition finish ::
    "rfid_event \<Rightarrow> disposition \<Rightarrow> string option \<Rightarrow> bool \<Rightarrow> timestamp \<Rightarrow> db
       \<Rightarrow> (processing_result \<times> db) outcome" where
  "finish event d reason changed now db =
     and_then (advance_batch event False (Some d) None now db)
       (\<lambda>db'. Inr (result d reason changed, db'))"

definition store_item :: "item_state \<Rightarrow> db \<Rightarrow> db" where
  "store_item s db = db\<lparr>item_states := put_by it_key s (item_states db)\<rparr>"

definition last_seen_due :: "rfid_event \<Rightarrow> settings \<Rightarrow> item_state \<Rightarrow> bool" where
  "last_seen_due event settings s \<longleftrightarrow>
     seconds (rfid_last_seen_flush_seconds settings) \<le> ev_received_at event - it_last_received_at s"

definition weaken :: "item_state \<Rightarrow> item_state" where
  "weaken s = s\<lparr>it_confidence := min (it_confidence s) (49 / 100)\<rparr>"

definition touch_last_seen :: "rfid_event \<Rightarrow> settings \<Rightarrow> item_state \<Rightarrow> item_state" where
  "touch_last_seen event settings s =
     (if last_seen_due event settings s
      then s\<lparr>it_last_observed_at := max (it_last_observed_at s) (ev_observed_at event),
             it_last_received_at := ev_received_at event\<rparr>
      else s)"

definition same_current_evidence :: "item_state \<Rightarrow> epc_binding \<Rightarrow> rfid_event list \<Rightarrow> bool" where
  "same_current_evidence s binding window \<longleftrightarrow>
     it_sku s = bd_sku binding \<and> it_zone s \<noteq> None \<and>
     set (map (\<lambda>item. (Some (ev_store item), Some (ev_zone item))) window) = {(it_store s, it_zone s)}"

definition confirm_in_place :: "rfid_event \<Rightarrow> stable_zone \<Rightarrow> settings \<Rightarrow> item_state \<Rightarrow> item_state" where
  "confirm_in_place event decision settings s =
     (let s1 = (if it_confidence s < sz_confidence decision
                then s\<lparr>it_confidence := sz_confidence decision\<rparr> else s)
      in if last_seen_due event settings s1
         then s1\<lparr>it_last_observed_at :=
                   max (it_last_observed_at s1) (max (sz_observed_at decision) (ev_observed_at event)),
                 it_last_received_at := max (it_last_received_at s1) (sz_received_at decision),
                 it_confidence := sz_confidence decision\<rparr>
         else s1)"

text \<open>The deltas of a transition: the occupied bucket loses the item, the confirmed one gains it.\<close>

definition move_deltas ::
    "uuid \<Rightarrow> rfid_event \<Rightarrow> epc_binding \<Rightarrow> stable_zone \<Rightarrow> item_state option
       \<Rightarrow> inventory_delta list outcome" where
  "move_deltas transition_id event binding decision before =
     and_then
       (case before of
          None \<Rightarrow> Inr []
        | Some s \<Rightarrow>
            (case (it_store s, it_zone s) of
               (Some store, Some zone) \<Rightarrow>
                 and_then (make_delta transition_id (it_tenant s) (it_epc s) (it_sku s) store zone
                             (- 1) (sz_confidence decision) (sz_observed_at decision))
                   (\<lambda>d. Inr [d])
             | _ \<Rightarrow> Inr []))
       (\<lambda>removed. and_then
          (make_delta transition_id (ev_tenant event) (ev_epc event) (bd_sku binding)
             (sz_store decision) (sz_zone decision) 1 (sz_confidence decision)
             (sz_observed_at decision))
          (\<lambda>added. Inr (removed @ [added])))"

definition moved_item ::
    "rfid_event \<Rightarrow> epc_binding \<Rightarrow> stable_zone \<Rightarrow> item_state option \<Rightarrow> item_state" where
  "moved_item event binding decision before =
     (let observed = max (ev_observed_at event) (sz_observed_at decision);
          received = max (ev_received_at event) (sz_received_at decision)
      in case before of
           None \<Rightarrow>
             \<lparr>it_tenant = ev_tenant event, it_epc = ev_epc event, it_sku = bd_sku binding,
              it_store = Some (sz_store decision), it_zone = Some (sz_zone decision),
              it_last_observed_at = observed, it_last_received_at = received,
              it_confidence = sz_confidence decision, it_version = 1,
              it_removal_event = None, it_removed_at = None\<rparr>
         | Some s \<Rightarrow>
             s\<lparr>it_sku := bd_sku binding, it_store := Some (sz_store decision),
               it_zone := Some (sz_zone decision), it_last_observed_at := observed,
               it_last_received_at := received, it_confidence := sz_confidence decision,
               it_version := it_version s + 1\<rparr>)"

definition record_transition ::
    "(string \<Rightarrow> uuid) \<Rightarrow> rfid_event \<Rightarrow> epc_binding \<Rightarrow> stable_zone \<Rightarrow> item_state option \<Rightarrow> timestamp
       \<Rightarrow> db \<Rightarrow> (processing_result \<times> db) outcome" where
  "record_transition u5 event binding decision before now db =
     (let next_version = (case before of None \<Rightarrow> 1 | Some s \<Rightarrow> it_version s + 1);
          tid = deterministic_transition_id u5 (ev_tenant event) (ev_epc event) next_version
      in and_then (move_deltas tid event binding decision before) (\<lambda>deltas.
         and_then (insert_transition
                     (new_transition tid (ev_tenant event) (ev_epc event) next_version deltas now)
                     (store_item (moved_item event binding decision before) db)) (\<lambda>db1.
         and_then
           (case before of
              Some s \<Rightarrow>
                (case it_zone s of
                   Some previous_zone \<Rightarrow>
                     if it_store s = Some (sz_store decision) \<and> it_sku s = bd_sku binding
                     then attribute_replenishment_move (ev_tenant event) tid (ev_epc event)
                            (bd_sku binding) (sz_store decision) previous_zone (sz_zone decision)
                            (sz_observed_at decision) db1
                     else Inr db1
                 | None \<Rightarrow> Inr db1)
            | None \<Rightarrow> Inr db1) (\<lambda>db2.
         finish event PROCESSED None True now db2))))"

text \<open>The part after the registry and the catalog have accepted the observation.\<close>

definition process_located ::
    "(string \<Rightarrow> uuid) \<Rightarrow> timestamp \<Rightarrow> rfid_event \<Rightarrow> rfid_event \<Rightarrow> epc_binding \<Rightarrow> timestamp option
       \<Rightarrow> recent_state \<Rightarrow> settings \<Rightarrow> db \<Rightarrow> recent_state \<times> (processing_result \<times> db) outcome" where
  "process_located u5 now event resolved_event binding evidence_start recent settings db =
     (let state = get_by it_key (ev_tenant event, ev_epc event) (item_states db);
          durable_watermark =
            max_opt (processed_observation_watermark (ev_tenant event) (ev_epc event) db)
              (map_option it_last_observed_at state)
      in if below_opt (ev_observed_at event) durable_watermark
         then (recent, finish event LATE (Some ''OBSERVED_AT_BEFORE_CURRENT_STATE'') False now db)
         else if (case state of None \<Rightarrow> False | Some s \<Rightarrow> it_removal_event s \<noteq> None)
         then (recent, finish event REMOVED_ITEM_OBSERVED (Some ''AUTHORITATIVELY_REMOVED'') False now db)
         else
           (case add_observation resolved_event (rfid_move_confirmation_window_seconds settings)
                   evidence_start recent of
              (window, recent') \<Rightarrow>
                (recent',
                 case infer_stable_zone window settings of
                   None \<Rightarrow>
                     finish event AMBIGUOUS None False now
                       (case state of
                          None \<Rightarrow> db
                        | Some s \<Rightarrow>
                            store_item (touch_last_seen event settings
                              (if same_current_evidence s binding window then s else weaken s)) db)
                 | Some decision \<Rightarrow>
                     if below_opt (sz_observed_at decision) durable_watermark
                     then finish event AMBIGUOUS (Some ''STABLE_EVIDENCE_BEFORE_CURRENT_STATE'') False now
                            (case state of
                               None \<Rightarrow> db
                             | Some s \<Rightarrow> store_item (touch_last_seen event settings (weaken s)) db)
                     else
                       (case state of
                          None \<Rightarrow> record_transition u5 event binding decision None now db
                        | Some s \<Rightarrow>
                            if it_sku s = bd_sku binding \<and> it_store s = Some (sz_store decision) \<and>
                               it_zone s = Some (sz_zone decision)
                            then finish event PROCESSED None False now
                                   (store_item (confirm_in_place event decision settings s) db)
                            else record_transition u5 event binding decision (Some s) now db))))"

definition process_observation ::
    "(string \<Rightarrow> uuid) \<Rightarrow> uuid \<Rightarrow> timestamp \<Rightarrow> rfid_event \<Rightarrow> recent_state \<Rightarrow> settings \<Rightarrow> db
       \<Rightarrow> recent_state \<times> (processing_result \<times> db) outcome" where
  "process_observation u5 quarantine_id now event recent settings db =
     (case remember_event event
             (if ev_replayed_from event \<noteq> None then forget_event event recent else recent) of
        (is_new, recent1) \<Rightarrow>
          if \<not> is_new then (recent1, finish event DUPLICATE None False now db)
          else if min (ev_received_at event) now + seconds (rfid_max_future_skew_seconds settings)
                    < ev_observed_at event
          then (recent1, quarantine_event event ''OBSERVED_AT_TOO_FAR_IN_FUTURE'' None quarantine_id now db)
          else
            (case resolve_effective_assignment event db of
               Inl reason \<Rightarrow> (recent1, quarantine_event event reason None quarantine_id now db)
             | Inr a \<Rightarrow>
                 let resolved_event = event\<lparr>ev_store := as_store a, ev_zone := as_zone a\<rparr>;
                     db1 = db\<lparr>connectivity_rows :=
                                update_connectivity (connectivity_rows db) resolved_event settings\<rparr>
                 in (case binding_for_event event now db1 of
                       (None, _) \<Rightarrow>
                         (recent1, quarantine_event event ''UNKNOWN_EPC'' None quarantine_id now db1)
                     | (Some binding, evidence_start) \<Rightarrow>
                         process_located u5 now event resolved_event binding evidence_start recent1
                           settings db1)))"

end
