(* ===== verification/Projection.thy ===== *)
theory Projection
  imports Ordered_Dict Tables
begin

text \<open>
  The inventory projection of \<open>services/streaming_inventory.py\<close>: \<open>apply_inventory_deltas\<close>, which
  deduplicates, combines and upserts one consumer batch, and \<open>rebuild_inventory_projection\<close>, which
  recomputes the projection of a tenant from item state.
\<close>

subsection \<open>Applying deltas\<close>

definition dl_bucket :: "inventory_delta \<Rightarrow> bucket" where
  "dl_bucket d = (dl_tenant d, dl_store d, dl_sku d, dl_zone d)"

definition dl_place :: "inventory_delta \<Rightarrow> uuid \<times> uuid \<times> uuid" where
  "dl_place d = (dl_store d, dl_sku d, dl_zone d)"

definition unique_by_id :: "inventory_delta list \<Rightarrow> inventory_delta list" where
  "unique_by_id deltas = map snd (fold (\<lambda>d. od_set (dl_delta_id d) d) deltas [])"

definition applied_row :: "inventory_delta \<Rightarrow> applied_delta" where
  "applied_row d =
     \<lparr>ad_delta_id = dl_delta_id d, ad_tenant = dl_tenant d, ad_store = dl_store d,
      ad_sku = dl_sku d, ad_zone = dl_zone d, ad_quantity = dl_quantity d\<rparr>"

definition not_yet_applied :: "db \<Rightarrow> inventory_delta list \<Rightarrow> inventory_delta list" where
  "not_yet_applied db = filter (\<lambda>d. dl_delta_id d \<notin> ad_delta_id ` set (applied_deltas db))"

definition stored_freshness :: "uuid \<Rightarrow> uuid \<Rightarrow> db \<Rightarrow> freshness_status" where
  "stored_freshness tenant store db =
     (case get_by cn_key (tenant, store) (connectivity_rows db) of
        None \<Rightarrow> STALE | Some c \<Rightarrow> cn_freshness c)"

fun upsert_bucket ::
    "uuid \<Rightarrow> (uuid \<times> uuid \<times> uuid) \<times> inventory_delta list \<Rightarrow> db \<Rightarrow> db outcome" where
  "upsert_bucket tenant ((store, sku, zone), items) db =
     (let quantity_delta = sum_list (map dl_quantity items);
          as_of = Max (set (map dl_observed_at items));
          confidence = Min (set (map dl_confidence items));
          freshness = stored_freshness tenant store db
      in case get_by pj_bucket (tenant, store, sku, zone) (projections db) of
           None \<Rightarrow>
             if quantity_delta < 0
             then Inl (ValueError ''inventory projection cannot start with a negative delta'')
             else Inr (db\<lparr>projections := projections db @
                         [\<lparr>pj_tenant = tenant, pj_store = store, pj_sku = sku, pj_zone = zone,
                           pj_quantity = quantity_delta, pj_as_of = as_of,
                           pj_confidence = confidence, pj_freshness = freshness\<rparr>]\<rparr>)
         | Some p \<Rightarrow>
             if pj_quantity p + quantity_delta < 0
             then Inl (ValueError ''inventory projection would become negative'')
             else Inr (db\<lparr>projections := put_by pj_bucket
                         (p\<lparr>pj_quantity := pj_quantity p + quantity_delta,
                            pj_as_of := max (pj_as_of p) as_of, pj_confidence := confidence,
                            pj_freshness := freshness\<rparr>) (projections db)\<rparr>))"

fun upsert_buckets ::
    "uuid \<Rightarrow> ((uuid \<times> uuid \<times> uuid) \<times> inventory_delta list) list \<Rightarrow> db \<Rightarrow> db outcome" where
  "upsert_buckets tenant [] db = Inr db"
| "upsert_buckets tenant (g # gs) db =
     and_then (upsert_bucket tenant g db) (upsert_buckets tenant gs)"

definition apply_inventory_deltas :: "inventory_delta list \<Rightarrow> db \<Rightarrow> (nat \<times> db) outcome" where
  "apply_inventory_deltas deltas db =
     (case deltas of
        [] \<Rightarrow> Inr (0, db)
      | first # _ \<Rightarrow>
          if list_ex (\<lambda>d. dl_tenant d \<noteq> dl_tenant first) deltas
          then Inl (ValueError ''one database transaction may apply deltas for only one tenant'')
          else
            let pending = not_yet_applied db (unique_by_id deltas);
                db1 = db\<lparr>applied_deltas := applied_deltas db @ map applied_row pending\<rparr>
            in and_then (upsert_buckets (dl_tenant first) (group_by dl_place pending) db1)
                 (\<lambda>db2. Inr (length pending, db2)))"

subsection \<open>Rebuilding the projection\<close>

definition located :: "uuid \<Rightarrow> item_state \<Rightarrow> bool" where
  "located tenant s \<longleftrightarrow> it_tenant s = tenant \<and> it_store s \<noteq> None \<and> it_zone s \<noteq> None"

definition it_place :: "item_state \<Rightarrow> uuid \<times> uuid \<times> uuid" where
  "it_place s = (the (it_store s), it_sku s, the (it_zone s))"

fun rebuilt_row :: "uuid \<Rightarrow> db \<Rightarrow> (uuid \<times> uuid \<times> uuid) \<times> item_state list \<Rightarrow> projection" where
  "rebuilt_row tenant db ((store, sku, zone), items) =
     \<lparr>pj_tenant = tenant, pj_store = store, pj_sku = sku, pj_zone = zone,
      pj_quantity = int (length items), pj_as_of = Max (set (map it_last_observed_at items)),
      pj_confidence = Min (set (map it_confidence items)),
      pj_freshness = stored_freshness tenant store db\<rparr>"

definition pending_for :: "uuid \<Rightarrow> transition list \<Rightarrow> bool" where
  "pending_for tenant = list_ex (\<lambda>t. tr_tenant t = tenant \<and> tr_pending t)"

text \<open>
  \<open>arrived\<close> are the transitions that other transactions commit between the two queries for pending
  ones; the second query of a READ COMMITTED transaction sees them.
\<close>

definition rebuild_inventory_projection ::
    "uuid \<Rightarrow> transition list \<Rightarrow> timestamp \<Rightarrow> db \<Rightarrow> (nat \<times> db) outcome" where
  "rebuild_inventory_projection tenant arrived now db =
     (if pending_for tenant (transitions db)
      then Inl (RuntimeFault ''inventory projection cannot be rebuilt while transition deltas are pending'')
      else
        let rows = group_by it_place (filter (located tenant) (item_states db));
            kept = filter (\<lambda>p. pj_tenant p \<noteq> tenant) (projections db);
            db1 = db\<lparr>projections := kept @ map (rebuilt_row tenant db) rows\<rparr>
        in if pending_for tenant (transitions db @ arrived)
           then Inl (RuntimeFault ''an inventory transition arrived during projection rebuild'')
           else Inr (length rows,
                  db1\<lparr>transitions :=
                        update_where (\<lambda>t. tr_tenant t = tenant \<and> tr_unreconciled t)
                          (\<lambda>t. t\<lparr>tr_reconciled_at := Some now\<rparr>) (transitions db1),
                      connectivity_rows :=
                        update_where (\<lambda>c. cn_tenant c = tenant)
                          (\<lambda>c. c\<lparr>inventory_reconciliation_required_at := None\<rparr>)
                          (connectivity_rows db1)\<rparr>))"

subsection \<open>Quantities\<close>

definition projected :: "bucket \<Rightarrow> db \<Rightarrow> int" where
  "projected b db = (case get_by pj_bucket b (projections db) of None \<Rightarrow> 0 | Some p \<Rightarrow> pj_quantity p)"

definition delta_sum :: "bucket \<Rightarrow> inventory_delta list \<Rightarrow> int" where
  "delta_sum b ds = sum_list (map dl_quantity (filter (\<lambda>d. dl_bucket d = b) ds))"

lemma delta_sum_simps [simp]:
  "delta_sum b [] = 0"
  "delta_sum b (d # ds) = (if dl_bucket d = b then dl_quantity d else 0) + delta_sum b ds"
  "delta_sum b (ds @ es) = delta_sum b ds + delta_sum b es"
  by (simp_all add: delta_sum_def)

text \<open>The row an upsert leaves for its bucket, whether it inserts or updates.\<close>

definition upserted ::
    "uuid \<Rightarrow> uuid \<times> uuid \<times> uuid \<Rightarrow> inventory_delta list \<Rightarrow> db \<Rightarrow> projection" where
  "upserted tenant place items db =
     \<lparr>pj_tenant = tenant, pj_store = fst place, pj_sku = fst (snd place), pj_zone = snd (snd place),
      pj_quantity = projected (tenant, place) db + sum_list (map dl_quantity items),
      pj_as_of = (case get_by pj_bucket (tenant, place) (projections db) of
                    None \<Rightarrow> Max (set (map dl_observed_at items))
                  | Some p \<Rightarrow> max (pj_as_of p) (Max (set (map dl_observed_at items)))),
      pj_confidence = Min (set (map dl_confidence items)),
      pj_freshness = stored_freshness tenant (fst place) db\<rparr>"

lemma upserted_bucket [simp]:
  "pj_bucket (upserted tenant place items db) = (tenant, place)"
  "pj_quantity (upserted tenant place items db)
     = projected (tenant, place) db + sum_list (map dl_quantity items)"
  by (simp_all add: upserted_def pj_bucket_def)

lemma upsert_bucket_None:
  assumes "get_by pj_bucket (tenant, place) (projections db) = None"
    "0 \<le> sum_list (map dl_quantity items)"
  shows "upsert_bucket tenant (place, items) db =
    Inr (db\<lparr>projections := put_by pj_bucket (upserted tenant place items db) (projections db)\<rparr>)"
proof -
  have "(tenant, place) \<notin> pj_bucket ` set (projections db)"
    using assms(1) by (simp add: get_by_None_iff)
  then have put: "put_by pj_bucket (upserted tenant place items db) (projections db)
      = projections db @ [upserted tenant place items db]"
    by (intro put_by_absent) simp
  obtain store sku zone where place: "place = (store, sku, zone)" by (cases place)
  have row: "upserted tenant place items db =
      \<lparr>pj_tenant = tenant, pj_store = store, pj_sku = sku, pj_zone = zone,
       pj_quantity = sum_list (map dl_quantity items), pj_as_of = Max (set (map dl_observed_at items)),
       pj_confidence = Min (set (map dl_confidence items)),
       pj_freshness = stored_freshness tenant store db\<rparr>"
    using assms(1) by (simp add: upserted_def projected_def place)
  have "upsert_bucket tenant (place, items) db =
      Inr (db\<lparr>projections := projections db @ [upserted tenant place items db]\<rparr>)"
    unfolding row unfolding place upsert_bucket.simps Let_def assms(1) [unfolded place]
    using assms(2) by (simp only: option.case not_less [symmetric] if_False)
  then show ?thesis by (simp only: put)
qed

lemma upsert_bucket_Some:
  assumes "get_by pj_bucket (tenant, place) (projections db) = Some p"
    "0 \<le> pj_quantity p + sum_list (map dl_quantity items)"
  shows "upsert_bucket tenant (place, items) db =
    Inr (db\<lparr>projections := put_by pj_bucket (upserted tenant place items db) (projections db)\<rparr>)"
proof -
  have key: "pj_tenant p = tenant" "pj_store p = fst place" "pj_sku p = fst (snd place)"
    "pj_zone p = snd (snd place)"
    using get_by_SomeD [OF assms(1)] by (auto simp: pj_bucket_def)
  have row: "p\<lparr>pj_quantity := pj_quantity p + sum_list (map dl_quantity items),
      pj_as_of := max (pj_as_of p) (Max (set (map dl_observed_at items))),
      pj_confidence := Min (set (map dl_confidence items)),
      pj_freshness := stored_freshness tenant (fst place) db\<rparr> = upserted tenant place items db"
    unfolding upserted_def projected_def assms(1) option.case
    by (rule projection.equality) (simp_all add: key del: set_map)
  obtain store sku zone where place: "place = (store, sku, zone)" by (cases place)
  show ?thesis
    using assms(2) row unfolding place upsert_bucket.simps Let_def assms(1) [unfolded place] fst_conv
    by (simp only: option.case not_less [symmetric] if_False)
qed

lemma upsert_bucket_cases:
  "upsert_bucket tenant (place, items) db =
     (if 0 \<le> projected (tenant, place) db + sum_list (map dl_quantity items)
      then Inr (db\<lparr>projections := put_by pj_bucket (upserted tenant place items db) (projections db)\<rparr>)
      else Inl (ValueError (if get_by pj_bucket (tenant, place) (projections db) = None
                            then ''inventory projection cannot start with a negative delta''
                            else ''inventory projection would become negative'')))"
proof (cases "0 \<le> projected (tenant, place) db + sum_list (map dl_quantity items)")
  case True
  then show ?thesis
    using upsert_bucket_None [of tenant place db items] upsert_bucket_Some [of tenant place db _ items]
    by (cases "get_by pj_bucket (tenant, place) (projections db)") (simp_all add: projected_def)
next
  case False
  obtain store sku zone where place: "place = (store, sku, zone)" by (cases place)
  show ?thesis
    using False
    by (cases "get_by pj_bucket (tenant, place) (projections db)")
      (simp_all add: place projected_def Let_def)
qed

lemma projected_put:
  "projected b (db\<lparr>projections := put_by pj_bucket row (projections db)\<rparr>) =
     (if b = pj_bucket row then pj_quantity row else projected b db)"
  by (simp add: projected_def table_simps)

text \<open>
  Upserting disjoint groups: it succeeds exactly when no bucket ends below zero, and every bucket
  changes by the sum of its group.
\<close>

definition group_sum :: "uuid \<times> uuid \<times> uuid \<Rightarrow> ((uuid \<times> uuid \<times> uuid) \<times> inventory_delta list) list \<Rightarrow> int" where
  "group_sum place gs =
     (case map_of gs place of None \<Rightarrow> 0 | Some items \<Rightarrow> sum_list (map dl_quantity items))"

lemma group_sum_Cons:
  "group_sum place ((k, items) # gs) =
     (if place = k then sum_list (map dl_quantity items) else group_sum place gs)"
  by (simp add: group_sum_def)

lemma upsert_buckets_InrD:
  assumes "upsert_buckets tenant gs db = Inr db'" "distinct (map fst gs)"
    "distinct (map pj_bucket (projections db))"
  shows "\<exists>ps. db' = db\<lparr>projections := ps\<rparr> \<and> distinct (map pj_bucket ps)"
    and "projected b db' = projected b db + (if fst b = tenant then group_sum (snd b) gs else 0)"
proof -
  have "(\<exists>ps. db' = db\<lparr>projections := ps\<rparr> \<and> distinct (map pj_bucket ps)) \<and>
      projected b db' = projected b db + (if fst b = tenant then group_sum (snd b) gs else 0)"
    using assms
  proof (induction gs arbitrary: db)
    case Nil
    then show ?case by (auto simp: group_sum_def intro: exI [of _ "projections db'"])
  next
    case (Cons g gs)
    obtain k items where g: "g = (k, items)" by (cases g)
    let ?db1 = "db\<lparr>projections := put_by pj_bucket (upserted tenant k items db) (projections db)\<rparr>"
    have step: "upsert_buckets tenant gs ?db1 = Inr db'"
      using Cons.prems(1) by (simp add: g upsert_bucket_cases and_then_Inr_iff del: upsert_bucket.simps split: if_splits)
    have "distinct (map pj_bucket (projections ?db1))"
      using Cons.prems(3) by (simp add: distinct_put_by)
    then have IH: "\<exists>ps. db' = ?db1\<lparr>projections := ps\<rparr> \<and> distinct (map pj_bucket ps)"
      "projected b db' = projected b ?db1 + (if fst b = tenant then group_sum (snd b) gs else 0)"
      using Cons.IH [OF step] Cons.prems(2) by simp_all
    have "k \<notin> fst ` set gs" using Cons.prems(2) by (simp add: g)
    then have "group_sum k gs = 0"
      by (simp add: group_sum_def map_of_eq_None_iff [THEN iffD2])
    then have "projected b db' = projected b db + (if fst b = tenant then group_sum (snd b) (g # gs) else 0)"
      using IH(2) by (cases "b = (tenant, k)"; cases b) (auto simp: projected_put g group_sum_Cons)
    moreover have "\<exists>ps. db' = db\<lparr>projections := ps\<rparr> \<and> distinct (map pj_bucket ps)"
      using IH(1) by auto
    ultimately show ?case by blast
  qed
  then show "\<exists>ps. db' = db\<lparr>projections := ps\<rparr> \<and> distinct (map pj_bucket ps)"
    "projected b db' = projected b db + (if fst b = tenant then group_sum (snd b) gs else 0)"
    by simp_all
qed

lemma upsert_buckets_ok:
  assumes "distinct (map fst gs)" "distinct (map pj_bucket (projections db))"
    "\<And>place. 0 \<le> projected (tenant, place) db + group_sum place gs"
  shows "\<exists>db'. upsert_buckets tenant gs db = Inr db'"
  using assms
proof (induction gs arbitrary: db)
  case (Cons g gs)
  obtain k items where g: "g = (k, items)" by (cases g)
  let ?db1 = "db\<lparr>projections := put_by pj_bucket (upserted tenant k items db) (projections db)\<rparr>"
  have "k \<notin> fst ` set gs" using Cons.prems(1) by (simp add: g)
  then have zero: "group_sum k gs = 0"
    by (simp add: group_sum_def map_of_eq_None_iff [THEN iffD2])
  have "0 \<le> projected (tenant, k) db + sum_list (map dl_quantity items)"
    using Cons.prems(3) [of k] by (simp add: g group_sum_Cons)
  moreover have "\<exists>db'. upsert_buckets tenant gs ?db1 = Inr db'"
  proof (rule Cons.IH)
    show "0 \<le> projected (tenant, place) ?db1 + group_sum place gs" for place
      using Cons.prems(3) [of place] zero by (cases "place = k") (simp_all add: projected_put g group_sum_Cons)
  qed (use Cons.prems in \<open>simp_all add: g distinct_put_by\<close>)
  ultimately show ?case
    by (simp add: g upsert_bucket_cases del: upsert_bucket.simps)
qed simp

lemma group_sum_group_by:
  "group_sum place (group_by dl_place ds) = sum_list (map dl_quantity (filter (\<lambda>d. dl_place d = place) ds))"
proof (cases "filter (\<lambda>d. dl_place d = place) ds = []")
  case True
  then have "place \<notin> fst ` set (group_by dl_place ds)" by (auto simp: in_group_by_iff)
  then show ?thesis using True by (simp add: group_sum_def map_of_eq_None_iff [THEN iffD2])
next
  case False
  then have "(place, filter (\<lambda>d. dl_place d = place) ds) \<in> set (group_by dl_place ds)"
    by (simp add: in_group_by_iff)
  then have "map_of (group_by dl_place ds) place = Some (filter (\<lambda>d. dl_place d = place) ds)"
    by (simp add: map_of_eq_Some_iff)
  then show ?thesis by (simp add: group_sum_def)
qed

lemma dl_bucket_place: "dl_bucket d = (dl_tenant d, dl_place d)"
  by (simp add: dl_bucket_def dl_place_def)

lemma group_sum_delta_sum:
  assumes "\<And>d. d \<in> set ds \<Longrightarrow> dl_tenant d = tenant"
  shows "delta_sum (tenant, place) ds = group_sum place (group_by dl_place ds)"
proof -
  have "filter (\<lambda>d. dl_bucket d = (tenant, place)) ds = filter (\<lambda>d. dl_place d = place) ds"
    using assms by (auto simp: dl_bucket_place intro!: filter_cong)
  then show ?thesis by (simp add: delta_sum_def group_sum_group_by)
qed

lemma delta_sum_other_tenant:
  "(\<And>d. d \<in> set ds \<Longrightarrow> dl_tenant d = tenant) \<Longrightarrow> fst b \<noteq> tenant \<Longrightarrow> delta_sum b ds = 0"
proof -
  assume "\<And>d. d \<in> set ds \<Longrightarrow> dl_tenant d = tenant" "fst b \<noteq> tenant"
  then have "filter (\<lambda>d. dl_bucket d = b) ds = []" by (force simp: dl_bucket_place filter_empty_conv)
  then show ?thesis by (simp add: delta_sum_def)
qed

subsection \<open>What applying a batch does\<close>

lemma fold_od_set_keys:
  "od_keys (fold (\<lambda>d. od_set (f d) d) ds acc) = od_keys acc \<union> f ` set ds"
  by (induction ds arbitrary: acc) (auto simp: od_simps)

lemma fold_od_set_distinct:
  "distinct (map f ds) \<Longrightarrow> f ` set ds \<inter> od_keys acc = {} \<Longrightarrow>
     fold (\<lambda>d. od_set (f d) d) ds acc = acc @ map (\<lambda>d. (f d, d)) ds"
proof (induction ds arbitrary: acc)
  case (Cons d ds)
  then have "f ` set ds \<inter> od_keys (acc @ [(f d, d)]) = {}"
    by (auto simp: od_keys_def)
  then show ?case using Cons by (simp add: od_set_absent)
qed simp

lemma unique_by_id_distinct: "distinct (map dl_delta_id ds) \<Longrightarrow> unique_by_id ds = ds"
  by (simp add: unique_by_id_def fold_od_set_distinct comp_def)

lemma fold_od_set_subset:
  "set (fold (\<lambda>d. od_set (f d) d) ds acc) \<subseteq> set acc \<union> (\<lambda>d. (f d, d)) ` set ds"
proof (induction ds arbitrary: acc)
  case (Cons d ds)
  then show ?case using set_od_set [of "f d" d acc] by fastforce
qed simp

lemma unique_by_id_subset: "set (unique_by_id ds) \<subseteq> set ds"
  using fold_od_set_subset [of dl_delta_id ds "[]"] by (auto simp: unique_by_id_def)

lemma unique_by_id_ids: "dl_delta_id ` set (unique_by_id ds) = dl_delta_id ` set ds"
proof -
  let ?d = "fold (\<lambda>d. od_set (dl_delta_id d) d) ds []"
  have "dl_delta_id ` set (unique_by_id ds) = fst ` set ?d"
    using fold_od_set_subset [of dl_delta_id ds "[]"] unfolding unique_by_id_def by force
  also have "\<dots> = dl_delta_id ` set ds"
    using fold_od_set_keys [of dl_delta_id ds "[]"] by (simp add: od_keys_def)
  finally show ?thesis .
qed

lemma apply_inventory_deltas_InrD:
  assumes "apply_inventory_deltas ds db = Inr (n, db')"
    "distinct (map pj_bucket (projections db))"
  defines "new \<equiv> not_yet_applied db (unique_by_id ds)"
  shows "n = length new"
    and "\<exists>ps. distinct (map pj_bucket ps) \<and>
      db' = db\<lparr>applied_deltas := applied_deltas db @ map applied_row new, projections := ps\<rparr>"
    and "projected b db' = projected b db + delta_sum b new"
proof -
  have "n = length new \<and> (\<exists>ps. distinct (map pj_bucket ps) \<and>
      db' = db\<lparr>applied_deltas := applied_deltas db @ map applied_row new, projections := ps\<rparr>) \<and>
      projected b db' = projected b db + delta_sum b new"
  proof (cases ds)
    case Nil
    then show ?thesis
      using assms by (auto simp: apply_inventory_deltas_def not_yet_applied_def unique_by_id_def
          intro: exI [of _ "projections db"])
  next
    case (Cons first rest)
    let ?db1 = "db\<lparr>applied_deltas := applied_deltas db @ map applied_row new\<rparr>"
    have one: "\<forall>d \<in> set ds. dl_tenant d = dl_tenant first"
      using assms(1) Cons by (auto simp: apply_inventory_deltas_def list_ex_iff split: if_splits)
    have n: "n = length new" and
      ups: "upsert_buckets (dl_tenant first) (group_by dl_place new) ?db1 = Inr db'"
      using assms(1) Cons
      by (auto simp: apply_inventory_deltas_def new_def Let_def and_then_Inr_iff split: if_splits)
    note effect = upsert_buckets_InrD [OF ups distinct_group_by]
    have "\<And>d. d \<in> set new \<Longrightarrow> dl_tenant d = dl_tenant first"
      using one unique_by_id_subset [of ds] by (auto simp: new_def not_yet_applied_def)
    then have "delta_sum b new = (if fst b = dl_tenant first
        then group_sum (snd b) (group_by dl_place new) else 0)"
      using group_sum_delta_sum [of new "dl_tenant first" "snd b"]
        delta_sum_other_tenant [of new "dl_tenant first" b] by (cases b) auto
    moreover have "projected b ?db1 = projected b db" by (simp add: projected_def)
    moreover have "distinct (map pj_bucket (projections ?db1))" using assms(2) by simp
    ultimately have "projected b db' = projected b db + delta_sum b new"
      using effect(2) [where b = b] by simp
    moreover obtain ps where "db' = ?db1\<lparr>projections := ps\<rparr>" "distinct (map pj_bucket ps)"
      using effect(1) assms(2) by auto
    ultimately show ?thesis using n by auto
  qed
  then show "n = length new" "\<exists>ps. distinct (map pj_bucket ps) \<and>
      db' = db\<lparr>applied_deltas := applied_deltas db @ map applied_row new, projections := ps\<rparr>"
    "projected b db' = projected b db + delta_sum b new" by simp_all
qed

lemma apply_inventory_deltas_ok:
  assumes "\<forall>d \<in> set ds. dl_tenant d = tenant" "distinct (map pj_bucket (projections db))"
    and "\<And>place. 0 \<le> projected (tenant, place) db +
      delta_sum (tenant, place) (not_yet_applied db (unique_by_id ds))"
  shows "\<exists>n db'. apply_inventory_deltas ds db = Inr (n, db')"
proof (cases ds)
  case Nil
  then show ?thesis by (simp add: apply_inventory_deltas_def)
next
  case (Cons first rest)
  define new where "new = not_yet_applied db (unique_by_id ds)"
  let ?db1 = "db\<lparr>applied_deltas := applied_deltas db @ map applied_row new\<rparr>"
  have new: "\<And>d. d \<in> set new \<Longrightarrow> dl_tenant d = tenant"
    using assms(1) unique_by_id_subset [of ds] by (auto simp: new_def not_yet_applied_def)
  have "\<exists>db'. upsert_buckets tenant (group_by dl_place new) ?db1 = Inr db'"
  proof (rule upsert_buckets_ok [OF distinct_group_by])
    show "0 \<le> projected (tenant, place) ?db1 + group_sum place (group_by dl_place new)" for place
      using assms(3) [of place] group_sum_delta_sum [where ds = new and tenant = tenant and place = place] new
      by (simp add: projected_def new_def)
  qed (use assms(2) in simp)
  moreover have "\<not> list_ex (\<lambda>d. dl_tenant d \<noteq> dl_tenant first) ds" "dl_tenant first = tenant"
    using assms(1) Cons by (auto simp: list_ex_iff)
  ultimately show ?thesis
    using Cons by (auto simp: apply_inventory_deltas_def new_def Let_def)
qed

lemma apply_inventory_deltas_again:
  assumes "dl_delta_id ` set ds \<subseteq> ad_delta_id ` set (applied_deltas db)"
    "\<forall>d \<in> set ds. dl_tenant d = tenant"
  shows "apply_inventory_deltas ds db = Inr (0, db)"
proof -
  have "\<And>d. d \<in> set (unique_by_id ds) \<Longrightarrow> dl_delta_id d \<in> ad_delta_id ` set (applied_deltas db)"
    using assms(1) unique_by_id_ids [of ds] by blast
  then have "not_yet_applied db (unique_by_id ds) = []"
    by (simp add: not_yet_applied_def filter_empty_conv)
  moreover have "group_by dl_place [] = []" by simp
  ultimately show ?thesis
    using assms(2)
    by (auto simp: apply_inventory_deltas_def Let_def list_ex_iff simp del: group_by_Nil_iff
        split: list.splits)
qed

subsection \<open>What a rebuild does\<close>

definition it_bucket :: "item_state \<Rightarrow> bucket option" where
  "it_bucket s =
     (case (it_store s, it_zone s) of
        (Some store, Some zone) \<Rightarrow> Some (it_tenant s, store, it_sku s, zone) | _ \<Rightarrow> None)"

definition item_count :: "bucket \<Rightarrow> db \<Rightarrow> int" where
  "item_count b db = int (length (filter (\<lambda>s. it_bucket s = Some b) (item_states db)))"

lemma it_bucket_eq_Some:
  "it_bucket s = Some (tenant, place) \<longleftrightarrow> located tenant s \<and> it_place s = place"
  by (cases place) (auto simp: it_bucket_def located_def it_place_def split: option.splits)

lemma pj_bucket_rebuilt [simp]: "pj_bucket (rebuilt_row tenant db e) = (tenant, fst e)"
  by (cases "(tenant, db, e)" rule: rebuilt_row.cases) (simp add: pj_bucket_def)

lemma pj_quantity_rebuilt [simp]: "pj_quantity (rebuilt_row tenant db e) = int (length (snd e))"
  by (cases "(tenant, db, e)" rule: rebuilt_row.cases) simp

declare rebuilt_row.simps [simp del]

lemma rebuild_InrD:
  assumes "rebuild_inventory_projection tenant arrived now db = Inr (n, db')"
  shows "\<not> pending_for tenant (transitions db)"
    and "\<exists>ps cs. db' = db\<lparr>projections := ps,
        transitions := update_where (\<lambda>t. tr_tenant t = tenant \<and> tr_unreconciled t)
                            (\<lambda>t. t\<lparr>tr_reconciled_at := Some now\<rparr>) (transitions db),
        connectivity_rows := cs\<rparr>"
proof -
  show "\<not> pending_for tenant (transitions db)"
    using assms by (simp add: rebuild_inventory_projection_def split: if_splits)
  let ?ps = "filter (\<lambda>p. pj_tenant p \<noteq> tenant) (projections db) @
      map (rebuilt_row tenant db) (group_by it_place (filter (located tenant) (item_states db)))"
  let ?cs = "update_where (\<lambda>c. cn_tenant c = tenant)
      (\<lambda>c. c\<lparr>inventory_reconciliation_required_at := None\<rparr>) (connectivity_rows db)"
  have "db' = db\<lparr>projections := ?ps,
        transitions := update_where (\<lambda>t. tr_tenant t = tenant \<and> tr_unreconciled t)
                       (\<lambda>t. t\<lparr>tr_reconciled_at := Some now\<rparr>) (transitions db),
        connectivity_rows := ?cs\<rparr>"
    using assms by (simp add: rebuild_inventory_projection_def Let_def split: if_splits)
  then show "\<exists>ps cs. db' = db\<lparr>projections := ps,
        transitions := update_where (\<lambda>t. tr_tenant t = tenant \<and> tr_unreconciled t)
                       (\<lambda>t. t\<lparr>tr_reconciled_at := Some now\<rparr>) (transitions db),
        connectivity_rows := cs\<rparr>"
    by blast
qed

lemma rebuild_projected:
  assumes "rebuild_inventory_projection tenant arrived now db = Inr (n, db')"
    "distinct (map pj_bucket (projections db))"
  shows "projected b db' = (if fst b = tenant then item_count b db else projected b db)"
    and "distinct (map pj_bucket (projections db'))"
proof -
  define kept where "kept = filter (\<lambda>p. pj_tenant p \<noteq> tenant) (projections db)"
  define rows where "rows = group_by it_place (filter (located tenant) (item_states db))"
  have pj: "projections db' = kept @ map (rebuilt_row tenant db) rows"
    using assms(1) by (auto simp: rebuild_inventory_projection_def Let_def kept_def rows_def split: if_splits)
  have kept_tenant: "fst (pj_bucket p) \<noteq> tenant" if "p \<in> set kept" for p
    using that by (auto simp: kept_def pj_bucket_def)
  have "distinct (map pj_bucket (map (rebuilt_row tenant db) rows))"
    using distinct_group_by [of it_place] by (simp add: rows_def comp_def distinct_map inj_on_def)
  moreover have "distinct (map pj_bucket kept)"
    using assms(2) by (simp add: kept_def distinct_map_filter)
  moreover have "pj_bucket ` set kept \<inter> pj_bucket ` set (map (rebuilt_row tenant db) rows) = {}"
  proof (rule ccontr)
    assume "\<not> ?thesis"
    then obtain p e where "p \<in> set kept" "pj_bucket p = pj_bucket (rebuilt_row tenant db e)"
      unfolding set_map by blast
    then show False using kept_tenant by (metis fst_conv pj_bucket_rebuilt)
  qed
  ultimately show dist: "distinct (map pj_bucket (projections db'))"
    unfolding pj map_append distinct_append set_map by blast
  show "projected b db' = (if fst b = tenant then item_count b db else projected b db)"
  proof (cases "fst b = tenant")
    case False
    have "get_by pj_bucket b (projections db') = get_by pj_bucket b (projections db)"
    proof -
      have "get_by pj_bucket b (map (rebuilt_row tenant db) rows) = None"
        using False by (auto simp: get_by_None_iff simp del: rebuilt_row.simps)
      then have "get_by pj_bucket b (kept @ map (rebuilt_row tenant db) rows) = get_by pj_bucket b kept"
        by (simp add: get_by_def select_one_append split: option.splits)
      also have "\<dots> = get_by pj_bucket b (projections db)"
        using False unfolding kept_def by (intro get_by_filter) (auto simp: pj_bucket_def)
      finally show ?thesis by (simp add: pj)
    qed
    then show ?thesis using False by (simp add: projected_def)
  next
    case True
    then obtain place where b: "b = (tenant, place)" by (cases b) auto
    let ?items = "filter (\<lambda>s. it_place s = place) (filter (located tenant) (item_states db))"
    have count: "item_count b db = int (length ?items)"
      by (simp add: item_count_def b it_bucket_eq_Some conj_commute)
    show ?thesis
    proof (cases "?items = []")
      case True
      then have "(place, r) \<notin> set rows" for r by (simp add: rows_def in_group_by_iff)
      then have "pj_bucket (rebuilt_row tenant db e) \<noteq> b" if "e \<in> set rows" for e
        using that by (cases e) (auto simp: b simp del: rebuilt_row.simps)
      moreover have "pj_bucket p \<noteq> b" if "p \<in> set kept" for p
        using kept_tenant [OF that] by (auto simp: b)
      ultimately have "get_by pj_bucket b (projections db') = None"
        unfolding get_by_None_iff pj set_append set_map by blast
      then show ?thesis using True count by (simp add: projected_def b)
    next
      case False
      then have "(place, ?items) \<in> set rows" by (simp add: rows_def in_group_by_iff)
      then have "rebuilt_row tenant db (place, ?items) \<in> set (projections db')" by (simp add: pj)
      then have "get_by pj_bucket b (projections db') = Some (rebuilt_row tenant db (place, ?items))"
        using get_by_eq_Some_iff [OF dist] by (simp add: b)
      then show ?thesis using count by (simp add: projected_def b)
    qed
  qed
qed

end
