(* ===== verification/Event_Worker.thy ===== *)
theory Event_Worker
  imports Streaming Projection
begin

text \<open>
  The durable inbox worker \<open>processes/event_worker.py\<close>: one tick for one tenant drains the raw
  observations in acceptance order and then the earliest pending transition of every item, each in a
  transaction of its own with retry, terminal quarantine and, for raw events, a checkpoint of the
  in-process evidence.  A failing transaction leaves the database as it was.  What the environment
  decides per row, namely the clock, identifiers and whether the final commit succeeds, is a record.
\<close>

record worker_env =
  env_uuid5 :: "string \<Rightarrow> uuid"
  env_fresh_id :: "uuid \<Rightarrow> uuid"
  env_now :: "uuid \<Rightarrow> timestamp"
  env_commit_fault :: "uuid \<Rightarrow> fault option"

definition commit :: "worker_env \<Rightarrow> uuid \<Rightarrow> 'a \<Rightarrow> 'a outcome" where
  "commit env row_id a = (case env_commit_fault env row_id of None \<Rightarrow> Inr a | Some e \<Rightarrow> Inl e)"

subsection \<open>Raw observations\<close>

definition event_of_ledger :: "ledger_row \<Rightarrow> uuid \<Rightarrow> uuid option \<Rightarrow> rfid_event" where
  "event_of_ledger l batch replayed_from =
     \<lparr>ev_tenant = lg_tenant l, ev_batch = batch, ev_event_id = lg_event_id l,
      ev_device = lg_device l, ev_store = lg_store l, ev_zone = lg_zone l, ev_epc = lg_epc l,
      ev_observed_at = lg_observed_at l, ev_received_at = lg_first_received_at l,
      ev_rssi = lg_rssi l, ev_antenna = lg_antenna l, ev_reader_health = lg_reader_health l,
      ev_is_buffered = lg_is_buffered l, ev_backlog_drained = lg_backlog_drained l,
      ev_reader_coverage_ok = lg_reader_coverage_ok l, ev_replayed_from = replayed_from\<rparr>"

text \<open>The event of a row, recovered from the ledger when its payload does not validate.\<close>

definition terminal_event :: "db \<Rightarrow> raw_outbox \<Rightarrow> rfid_event outcome" where
  "terminal_event db row =
     (case validate_event (ro_payload row) of
        Inr event \<Rightarrow> Inr event
      | Inl _ \<Rightarrow>
          let key = (ro_tenant row, ro_event_id row);
              batch_id = best_by (\<lambda>b. - uint b) (map be_batch (event_links key db))
          in (case (get_by lg_key key (ledgers db), batch_id) of
                (Some ledger, Some batch) \<Rightarrow>
                  validate_event (EventPayload (event_of_ledger ledger batch None))
              | _ \<Rightarrow> Inl (RuntimeFault ''RFID poison event has no durable ledger or batch link'')))"

definition unpublished_raw :: "uuid \<Rightarrow> uuid \<Rightarrow> db \<Rightarrow> raw_outbox option" where
  "unpublished_raw tenant raw_id db =
     select_one (\<lambda>r. ro_tenant r = tenant \<and> ro_id r = raw_id \<and> ro_published_at r = None) (raw_rows db)"

definition update_raw :: "uuid \<Rightarrow> (raw_outbox \<Rightarrow> raw_outbox) \<Rightarrow> db \<Rightarrow> db" where
  "update_raw raw_id f db = db\<lparr>raw_rows := update_where (\<lambda>r. ro_id r = raw_id) f (raw_rows db)\<rparr>"

definition mark_raw_published :: "timestamp \<Rightarrow> raw_outbox \<Rightarrow> raw_outbox" where
  "mark_raw_published now r =
     r\<lparr>ro_published_at := Some now, ro_publish_attempts := ro_publish_attempts r + 1,
       ro_last_error := None\<rparr>"

definition mark_raw_failed :: "fault \<Rightarrow> raw_outbox \<Rightarrow> raw_outbox" where
  "mark_raw_failed e r =
     r\<lparr>ro_publish_attempts := ro_publish_attempts r + 1, ro_last_error := Some e\<rparr>"

datatype raw_result = RawSkipped | RawDone | RawTerminal | RawBlocked fault | RawCrashed fault

text \<open>The transaction that retries or terminally rejects a row whose processing raised.\<close>

definition handle_raw_failure ::
    "worker_env \<Rightarrow> settings \<Rightarrow> uuid \<Rightarrow> uuid \<Rightarrow> fault \<Rightarrow> db \<Rightarrow> db \<times> raw_result" where
  "handle_raw_failure env settings tenant raw_id exc db =
     (case unpublished_raw tenant raw_id db of
        None \<Rightarrow> (db, RawBlocked exc)
      | Some row \<Rightarrow>
          let failed = mark_raw_failed exc row;
              db1 = update_raw raw_id (\<lambda>_. failed) db
          in if ro_publish_attempts failed < worker_max_attempts settings
             then (db1, RawBlocked exc)
             else
               (case and_then (terminal_event db1 failed) (\<lambda>event.
                       quarantine_event event ''PROCESSING_ATTEMPTS_EXHAUSTED'' (Some (ro_payload failed))
                         (env_fresh_id env raw_id) (env_now env raw_id) db1) of
                  Inl e \<Rightarrow> (db, RawCrashed e)
                | Inr (_, db2) \<Rightarrow>
                    (update_raw raw_id (\<lambda>r. r\<lparr>ro_published_at := Some (env_now env raw_id)\<rparr>) db2,
                     RawTerminal)))"

definition process_raw ::
    "worker_env \<Rightarrow> settings \<Rightarrow> uuid \<Rightarrow> uuid \<Rightarrow> recent_state \<times> db
       \<Rightarrow> (recent_state \<times> db) \<times> raw_result" where
  "process_raw env settings tenant raw_id st =
     (case st of (recent, db) \<Rightarrow>
        (case unpublished_raw tenant raw_id db of
           None \<Rightarrow> ((recent, db), RawSkipped)
         | Some row \<Rightarrow>
             (case validate_event (ro_payload row) of
                Inl exc \<Rightarrow>
                  (case handle_raw_failure env settings tenant raw_id exc db of
                     (db', res) \<Rightarrow> ((recent, db'), res))
              | Inr event \<Rightarrow>
                  let checkpoint = take_checkpoint event recent;
                      (recent1, processed) =
                        (case get_by lg_key (tenant, ro_event_id row) (ledgers db) of
                           None \<Rightarrow> (recent, Inl (RuntimeFault ''RFID outbox has no event ledger''))
                         | Some ledger \<Rightarrow>
                             if lg_status ledger = EVENT_PENDING
                             then (case process_observation (env_uuid5 env) (env_fresh_id env raw_id)
                                          (env_now env raw_id) event recent settings db of
                                     (recent1, r) \<Rightarrow> (recent1, and_then r (\<lambda>(_, db1). Inr db1)))
                             else (recent, Inr db))
                  in (case and_then processed (\<lambda>db1.
                             commit env raw_id
                               (update_raw raw_id (mark_raw_published (env_now env raw_id)) db1)) of
                        Inr db' \<Rightarrow> ((recent1, db'), RawDone)
                      | Inl exc \<Rightarrow>
                          (case handle_raw_failure env settings tenant raw_id exc db of
                             (db', res) \<Rightarrow> ((restore_checkpoint checkpoint recent1, db'), res))))))"

text \<open>The loop over the rows selected at its start: it ends at the first row that must be retried.\<close>

fun drain_raw ::
    "worker_env \<Rightarrow> settings \<Rightarrow> uuid \<Rightarrow> uuid list \<Rightarrow> nat \<Rightarrow> recent_state \<times> db
       \<Rightarrow> (recent_state \<times> db) \<times> nat \<times> raw_result" where
  "drain_raw env settings tenant [] n st = (st, n, RawDone)"
| "drain_raw env settings tenant (raw_id # ids) n st =
     (case process_raw env settings tenant raw_id st of
        (st', RawSkipped) \<Rightarrow> drain_raw env settings tenant ids n st'
      | (st', RawDone) \<Rightarrow> drain_raw env settings tenant ids (Suc n) st'
      | (st', RawTerminal) \<Rightarrow> drain_raw env settings tenant ids (Suc n) st'
      | (st', RawBlocked e) \<Rightarrow> (st', n, RawBlocked e)
      | (st', RawCrashed e) \<Rightarrow> (st', n, RawCrashed e))"

definition raw_ids :: "uuid \<Rightarrow> nat \<Rightarrow> db \<Rightarrow> uuid list" where
  "raw_ids tenant limit db =
     map ro_id (take limit (sort_key ro_acceptance_sequence
       (filter (\<lambda>r. ro_tenant r = tenant \<and> ro_published_at r = None) (raw_rows db))))"

subsection \<open>Transitions\<close>

definition payload_store :: "delta_payload \<Rightarrow> uuid option" where
  "payload_store p = (case p of DeltaPayload d \<Rightarrow> Some (dl_store d) | CorruptDelta s \<Rightarrow> s)"

definition transition_store_ids :: "db \<Rightarrow> transition \<Rightarrow> uuid set" where
  "transition_store_ids db t =
     (case tr_deltas t of
        NotAList \<Rightarrow> {}
      | DeltaList ps \<Rightarrow> set (List.map_filter payload_store ps)) \<union>
     (case get_by it_key (tr_tenant t, tr_epc t) (item_states db) of
        None \<Rightarrow> {}
      | Some s \<Rightarrow> (case it_store s of None \<Rightarrow> {} | Some store \<Rightarrow> {store}))"

definition validate_delta :: "delta_payload \<Rightarrow> inventory_delta outcome" where
  "validate_delta p =
     (case p of
        CorruptDelta _ \<Rightarrow> Inl (ValueError ''InventoryDeltaEvent'')
      | DeltaPayload d \<Rightarrow>
          if delta_valid d then Inr d else Inl (ValueError ''InventoryDeltaEvent''))"

fun validate_deltas :: "delta_payload list \<Rightarrow> inventory_delta list outcome" where
  "validate_deltas [] = Inr []"
| "validate_deltas (p # ps) =
     and_then (validate_delta p) (\<lambda>d. and_then (validate_deltas ps) (\<lambda>ds. Inr (d # ds)))"

definition validated_transition_deltas :: "transition \<Rightarrow> inventory_delta list outcome" where
  "validated_transition_deltas t =
     (case tr_deltas t of
        NotAList \<Rightarrow> Inl (ValueError ''inventory transition must contain at least one delta'')
      | DeltaList ps \<Rightarrow>
          if ps = [] then Inl (ValueError ''inventory transition must contain at least one delta'')
          else and_then (validate_deltas ps) (\<lambda>deltas.
            if list_ex (\<lambda>d. dl_transition d \<noteq> tr_id t) deltas
            then Inl (ValueError ''inventory delta transition_id does not match its outbox row'')
            else if list_ex (\<lambda>d. dl_tenant d \<noteq> tr_tenant t) deltas
            then Inl (ValueError ''inventory delta tenant_id does not match its outbox row'')
            else if list_ex (\<lambda>d. dl_epc d \<noteq> tr_epc t) deltas
            then Inl (ValueError ''inventory delta EPC does not match its outbox row'')
            else if \<not> distinct (map dl_delta_id deltas)
            then Inl (ValueError ''inventory transition contains duplicate delta IDs'')
            else Inr deltas))"

definition pending_transition :: "uuid \<Rightarrow> uuid \<Rightarrow> db \<Rightarrow> transition option" where
  "pending_transition tenant tid db =
     select_one (\<lambda>t. tr_tenant t = tenant \<and> tr_id t = tid \<and> tr_pending t) (transitions db)"

definition update_transition :: "uuid \<Rightarrow> (transition \<Rightarrow> transition) \<Rightarrow> db \<Rightarrow> db" where
  "update_transition tid f db =
     db\<lparr>transitions := update_where (\<lambda>t. tr_id t = tid) f (transitions db)\<rparr>"

definition degrade_for_rebuild :: "timestamp \<Rightarrow> connectivity \<Rightarrow> connectivity" where
  "degrade_for_rebuild moment c =
     c\<lparr>inventory_reconciliation_required_at := Some moment,
       cn_freshness := (if cn_freshness c = LIVE then DEGRADED else cn_freshness c)\<rparr>"

definition quarantine_transition :: "transition \<Rightarrow> fault \<Rightarrow> timestamp \<Rightarrow> db \<Rightarrow> db" where
  "quarantine_transition t exc quarantined_at db =
     (let db1 = update_transition (tr_id t)
                  (\<lambda>t. t\<lparr>tr_quarantined_at := Some quarantined_at,
                         tr_quarantine_reason := Some ''TRANSITION_ATTEMPTS_EXHAUSTED'',
                         tr_last_error := Some exc\<rparr>) db;
          store_ids = transition_store_ids db1 t;
          in_scope = (\<lambda>c. cn_tenant c = tr_tenant t \<and> (store_ids = {} \<or> cn_store c \<in> store_ids));
          affected = (if store_ids \<noteq> {} \<and> \<not> list_ex in_scope (connectivity_rows db1)
                      then (\<lambda>c. cn_tenant c = tr_tenant t) else in_scope)
      in db1\<lparr>connectivity_rows :=
               update_where affected (degrade_for_rebuild quarantined_at) (connectivity_rows db1)\<rparr>)"

definition mark_transition_published :: "timestamp \<Rightarrow> transition \<Rightarrow> transition" where
  "mark_transition_published now t =
     t\<lparr>tr_published_at := Some now, tr_publish_attempts := tr_publish_attempts t + 1,
       tr_last_error := None\<rparr>"

definition mark_transition_failed :: "fault \<Rightarrow> transition \<Rightarrow> transition" where
  "mark_transition_failed e t =
     t\<lparr>tr_publish_attempts := tr_publish_attempts t + 1, tr_last_error := Some e\<rparr>"

definition handle_transition_failure ::
    "settings \<Rightarrow> uuid \<Rightarrow> uuid \<Rightarrow> timestamp \<Rightarrow> fault \<Rightarrow> db \<Rightarrow> db" where
  "handle_transition_failure settings tenant tid now exc db =
     (case pending_transition tenant tid db of
        None \<Rightarrow> db
      | Some t \<Rightarrow>
          let db1 = update_transition tid (mark_transition_failed exc) db;
              failed = mark_transition_failed exc t
          in if worker_max_attempts settings \<le> tr_publish_attempts failed
             then quarantine_transition failed exc now db1
             else db1)"

definition publish_transition ::
    "worker_env \<Rightarrow> settings \<Rightarrow> uuid \<Rightarrow> uuid \<Rightarrow> db \<Rightarrow> db \<times> bool" where
  "publish_transition env settings tenant tid db =
     (case pending_transition tenant tid db of
        None \<Rightarrow> (db, False)
      | Some t \<Rightarrow>
          (case and_then (validated_transition_deltas t) (\<lambda>deltas.
                  and_then (apply_inventory_deltas deltas db) (\<lambda>(_, db1).
                  commit env tid
                    (update_transition tid (mark_transition_published (env_now env tid)) db1))) of
             Inr db' \<Rightarrow> (db', True)
           | Inl exc \<Rightarrow>
               (handle_transition_failure settings tenant tid (env_now env tid) exc db, False)))"

fun publish_transitions ::
    "worker_env \<Rightarrow> settings \<Rightarrow> uuid \<Rightarrow> uuid list \<Rightarrow> nat \<Rightarrow> db \<Rightarrow> db \<times> nat" where
  "publish_transitions env settings tenant [] n db = (db, n)"
| "publish_transitions env settings tenant (tid # tids) n db =
     (case publish_transition env settings tenant tid db of
        (db', ok) \<Rightarrow> publish_transitions env settings tenant tids (if ok then Suc n else n) db')"

definition earliest_pending :: "uuid \<Rightarrow> db \<Rightarrow> transition \<Rightarrow> bool" where
  "earliest_pending tenant db t \<longleftrightarrow>
     tr_tenant t = tenant \<and> tr_pending t \<and>
     list_all (\<lambda>t'. tr_tenant t' = tenant \<and> tr_pending t' \<and> tr_epc t' = tr_epc t
                      \<longrightarrow> tr_version t \<le> tr_version t') (transitions db)"

definition transition_ids :: "uuid \<Rightarrow> nat \<Rightarrow> db \<Rightarrow> uuid list" where
  "transition_ids tenant limit db =
     map tr_id (take limit (sort_key (\<lambda>t. (tr_created_at t, tr_id t))
       (filter (earliest_pending tenant db) (transitions db))))"

subsection \<open>One tick\<close>

definition process_tenant_once ::
    "worker_env \<Rightarrow> settings \<Rightarrow> uuid \<Rightarrow> nat \<Rightarrow> recent_state \<times> db
       \<Rightarrow> (recent_state \<times> db) \<times> (nat \<times> nat) outcome" where
  "process_tenant_once env settings tenant limit st =
     (case drain_raw env settings tenant (raw_ids tenant limit (snd st)) 0 st of
        ((recent, db), raw_count, stopped) \<Rightarrow>
          (case stopped of
             RawCrashed e \<Rightarrow> ((recent, db), Inl e)
           | _ \<Rightarrow>
               (case publish_transitions env settings tenant (transition_ids tenant limit db) 0 db of
                  (db', transition_count) \<Rightarrow>
                    ((recent, db'),
                     case stopped of
                       RawBlocked e \<Rightarrow> Inl e
                     | _ \<Rightarrow> Inr (raw_count, transition_count)))))"

end
