(* ===== verification/Business_Events.thy ===== *)
theory Business_Events
  imports Streaming
begin

text \<open>
  Authoritative removals, \<open>services/business_events.py\<close> with the request schema of
  \<open>schemas/business_events.py\<close>: one idempotent command per source identifier takes an item out of
  available inventory and enqueues the delta that decrements its bucket.  \<open>digest\<close> stands for the
  SHA-256 of the canonical JSON of the store and the request, \<open>event_id\<close> for the drawn identifier.
\<close>

record business_request =
  rq_source_system :: string
  rq_external_event_id :: string
  rq_type :: business_event_type
  rq_epc :: string
  rq_occurred_at :: timestamp
  rq_note :: "string option"

subsection \<open>The request schema\<close>

definition not_blank :: "string \<Rightarrow> string outcome" where
  "not_blank s = (if s = [] then Inl (ValueError ''must not be blank'') else Inr s)"

definition normalize_note :: "string option \<Rightarrow> string option" where
  "normalize_note note =
     (case note of None \<Rightarrow> None | Some n \<Rightarrow> if strip n = [] then None else Some (strip n))"

definition validate_business_request :: "business_request \<Rightarrow> business_request outcome" where
  "validate_business_request r =
     (if \<not> (1 \<le> length (rq_source_system r) \<and> length (rq_source_system r) \<le> 64) \<or>
         \<not> (1 \<le> length (rq_external_event_id r) \<and> length (rq_external_event_id r) \<le> 128) \<or>
         \<not> (4 \<le> length (rq_epc r) \<and> length (rq_epc r) \<le> 128) \<or>
         (case rq_note r of None \<Rightarrow> False | Some n \<Rightarrow> 500 < length n)
      then Inl (ValueError ''length'')
      else
        and_then (not_blank (str_upper (strip (rq_source_system r)))) (\<lambda>source.
        and_then (not_blank (strip (rq_external_event_id r))) (\<lambda>external.
        and_then (normalize_epc (rq_epc r)) (\<lambda>epc.
        Inr (r\<lparr>rq_source_system := source, rq_external_event_id := external, rq_epc := epc,
               rq_note := normalize_note (rq_note r)\<rparr>)))))"

subsection \<open>The service\<close>

definition business_event_status :: "db \<Rightarrow> business_event \<Rightarrow> business_status" where
  "business_event_status db event =
     (case get_by tr_id (bz_transition event) (transitions db) of
        None \<Rightarrow> FAILED
      | Some t \<Rightarrow>
          if tr_published_at t \<noteq> None \<or> tr_reconciled_at t \<noteq> None then PROJECTED
          else if tr_quarantined_at t \<noteq> None then FAILED
          else PENDING_PROJECTION)"

definition removal_event ::
    "(uuid \<times> business_request \<Rightarrow> string) \<Rightarrow> uuid \<Rightarrow> uuid \<Rightarrow> uuid \<Rightarrow> business_request \<Rightarrow> uuid \<Rightarrow> int
       \<Rightarrow> business_event" where
  "removal_event digest event_id tenant store request tid version =
     \<lparr>bz_tenant = tenant, bz_id = event_id, bz_store = store,
      bz_source_system = rq_source_system request,
      bz_external_event_id = rq_external_event_id request,
      bz_fingerprint = digest (store, request), bz_type = rq_type request, bz_epc = rq_epc request,
      bz_occurred_at = rq_occurred_at request, bz_transition = tid, bz_state_version = version,
      bz_note = rq_note request\<rparr>"

definition removed_item :: "item_state \<Rightarrow> uuid \<Rightarrow> timestamp \<Rightarrow> item_state" where
  "removed_item s event_id occurred_at =
     s\<lparr>it_store := None, it_zone := None, it_version := it_version s + 1,
       it_removal_event := Some event_id, it_removed_at := Some occurred_at\<rparr>"

text \<open>The writes of an accepted removal; an integrity error of the flush becomes a conflict.\<close>

definition record_removal ::
    "(uuid \<times> business_request \<Rightarrow> string) \<Rightarrow> (string \<Rightarrow> uuid) \<Rightarrow> uuid \<Rightarrow> timestamp \<Rightarrow> uuid \<Rightarrow> uuid
       \<Rightarrow> business_request \<Rightarrow> item_state \<Rightarrow> uuid \<Rightarrow> db
       \<Rightarrow> ((business_event \<times> business_status \<times> bool) \<times> db) outcome" where
  "record_removal digest u5 event_id now tenant store request s zone db =
     (let next_version = it_version s + 1;
          tid = deterministic_transition_id u5 tenant (it_epc s) next_version;
          conflict = ApiError 409 ''business_event_conflict''
      in and_then (make_delta tid tenant (it_epc s) (it_sku s) store zone (- 1) (it_confidence s)
                     (rq_occurred_at request)) (\<lambda>delta.
         case insert_transition (new_transition tid tenant (it_epc s) next_version [delta] now) db of
           Inl _ \<Rightarrow> Inl conflict
         | Inr db1 \<Rightarrow>
             let event = removal_event digest event_id tenant store request tid next_version
             in if event_id \<in> bz_id ` set (business_events db) then Inl conflict
                else Inr ((event, PENDING_PROJECTION, True),
                       store_item (removed_item s event_id (rq_occurred_at request))
                         (db1\<lparr>business_events := business_events db1 @ [event]\<rparr>))))"

definition accept_authoritative_removal ::
    "(uuid \<times> business_request \<Rightarrow> string) \<Rightarrow> (string \<Rightarrow> uuid) \<Rightarrow> uuid \<Rightarrow> timestamp \<Rightarrow> uuid \<Rightarrow> uuid
       \<Rightarrow> business_request \<Rightarrow> settings \<Rightarrow> db
       \<Rightarrow> ((business_event \<times> business_status \<times> bool) \<times> db) outcome" where
  "accept_authoritative_removal digest u5 event_id now tenant store request settings db =
     (if \<not> list_ex (\<lambda>s. st_tenant s = tenant \<and> st_id s = store) (stores db)
      then Inl (ApiError 404 ''store_not_found'')
      else if now + seconds (rfid_max_future_skew_seconds settings) < rq_occurred_at request
      then Inl (ApiError 422 ''business_event_time_too_far_in_future'')
      else
        case get_by bz_source_key
               (tenant, rq_source_system request, rq_external_event_id request)
               (business_events db) of
          Some existing \<Rightarrow>
            if bz_fingerprint existing \<noteq> digest (store, request)
            then Inl (ApiError 409 ''business_event_idempotency_conflict'')
            else Inr ((existing, business_event_status db existing, False), db)
        | None \<Rightarrow>
            (case get_by it_key (tenant, rq_epc request) (item_states db) of
               None \<Rightarrow> Inl (ApiError 404 ''business_event_item_not_found'')
             | Some s \<Rightarrow>
                 if it_removal_event s \<noteq> None
                 then Inl (ApiError 409 ''business_event_item_already_removed'')
                 else
                   (case (it_store s, it_zone s) of
                      (Some located_store, Some zone) \<Rightarrow>
                        if located_store \<noteq> store
                        then Inl (ApiError 409 ''business_event_store_mismatch'')
                        else if below_opt (rq_occurred_at request)
                               (max_opt (Some (it_last_observed_at s))
                                  (processed_observation_watermark tenant (it_epc s) db))
                        then Inl (ApiError 409 ''stale_business_event'')
                        else record_removal digest u5 event_id now tenant store request s zone db
                    | _ \<Rightarrow> Inl (ApiError 409 ''business_event_location_unavailable''))))"

definition get_business_event ::
    "uuid \<Rightarrow> uuid \<Rightarrow> uuid \<Rightarrow> db \<Rightarrow> (business_event \<times> business_status) outcome" where
  "get_business_event tenant store event_id db =
     (case select_one (\<lambda>e. bz_tenant e = tenant \<and> bz_store e = store \<and> bz_id e = event_id)
             (business_events db) of
        None \<Rightarrow> Inl (ApiError 404 ''business_event_not_found'')
      | Some event \<Rightarrow> Inr (event, business_event_status db event))"

subsection \<open>What a removal changes\<close>

lemma record_removal_InrD:
  assumes "record_removal digest u5 event_id now tenant store request s zone db
             = Inr ((event, status, created), db')"
  defines "tid \<equiv> deterministic_transition_id u5 tenant (it_epc s) (it_version s + 1)"
  obtains delta where
    "make_delta tid tenant (it_epc s) (it_sku s) store zone (- 1) (it_confidence s)
       (rq_occurred_at request) = Inr delta"
    "tid \<notin> tr_id ` set (transitions db)"
    "event_id \<notin> bz_id ` set (business_events db)"
    "event = removal_event digest event_id tenant store request tid (it_version s + 1)"
    "status = PENDING_PROJECTION" "created"
    "db' = db\<lparr>transitions := transitions db @
              [new_transition tid tenant (it_epc s) (it_version s + 1) [delta] now],
             business_events := business_events db @ [event],
             item_states := put_by it_key (removed_item s event_id (rq_occurred_at request))
               (item_states db)\<rparr>"
    "(tenant, it_epc s, it_version s + 1) \<notin> tr_item_version ` set (transitions db)"
proof -
  obtain delta where delta: "make_delta tid tenant (it_epc s) (it_sku s) store zone (- 1)
      (it_confidence s) (rq_occurred_at request) = Inr delta"
    using assms(1) by (auto simp: record_removal_def tid_def Let_def and_then_Inr_iff)
  let ?t = "new_transition tid tenant (it_epc s) (it_version s + 1) [delta] now"
  obtain db1 where ins: "insert_transition ?t db = Inr db1"
    using assms(1) delta
    by (auto simp: record_removal_def tid_def Let_def split: sum.splits)
  have rest: "event_id \<notin> bz_id ` set (business_events db)"
    "event = removal_event digest event_id tenant store request tid (it_version s + 1)"
    "status = PENDING_PROJECTION" "created"
    "db' = store_item (removed_item s event_id (rq_occurred_at request))
        (db1\<lparr>business_events := business_events db1 @ [event]\<rparr>)"
    using assms(1) delta ins by (auto simp: record_removal_def tid_def Let_def split: if_splits)
  note inserted = insert_transition_InrD [OF ins]
  show thesis
    using that [OF delta _ rest(1-4)] inserted rest(5)
    by (simp add: new_transition_def tr_item_version_def store_item_def)
qed

lemma accept_removal_cases:
  assumes "accept_authoritative_removal digest u5 event_id now tenant store request settings db
             = Inr ((event, status, created), db')"
  obtains (replay) "\<not> created" "db' = db"
      "get_by bz_source_key (tenant, rq_source_system request, rq_external_event_id request)
         (business_events db) = Some event"
      "bz_fingerprint event = digest (store, request)"
      "status = business_event_status db event"
  | (removal) s zone where "created"
      "get_by it_key (tenant, rq_epc request) (item_states db) = Some s"
      "it_removal_event s = None" "it_store s = Some store" "it_zone s = Some zone"
      "it_last_observed_at s \<le> rq_occurred_at request"
      "get_by bz_source_key (tenant, rq_source_system request, rq_external_event_id request)
         (business_events db) = None"
      "record_removal digest u5 event_id now tenant store request s zone db
         = Inr ((event, status, created), db')"
proof (cases "get_by bz_source_key (tenant, rq_source_system request, rq_external_event_id request)
    (business_events db)")
  case (Some existing)
  then show thesis
    using assms by (intro replay) (auto simp: accept_authoritative_removal_def split: if_splits)
next
  case None
  then obtain s zone where s: "get_by it_key (tenant, rq_epc request) (item_states db) = Some s"
      "it_removal_event s = None" "it_store s = Some store" "it_zone s = Some zone"
      "\<not> below_opt (rq_occurred_at request) (max_opt (Some (it_last_observed_at s))
         (processed_observation_watermark tenant (it_epc s) db))"
      "record_removal digest u5 event_id now tenant store request s zone db
         = Inr ((event, status, created), db')"
    using assms by (auto simp: accept_authoritative_removal_def split: if_splits option.splits)
  moreover have "created"
    using s(6) by (rule record_removal_InrD)
  ultimately show thesis using None by (intro removal) auto
qed

subsection \<open>Properties\<close>

lemma get_by_append:
  "get_by key k (xs @ ys) = (case get_by key k xs of None \<Rightarrow> get_by key k ys | Some r \<Rightarrow> Some r)"
  unfolding get_by_def by (rule select_one_append)

lemma removal_event_source_key:
  "bz_source_key (removal_event digest event_id tenant store request tid version)
     = (tenant, rq_source_system request, rq_external_event_id request)"
  by (simp add: removal_event_def bz_source_key_def)

text \<open>
  A removal is idempotent: once a request was accepted, sending it again, whenever and with
  whatever identifier drawn, returns the recorded event as not created and changes nothing, while a
  request that reuses the source identifier with another fingerprint is refused as a conflict.
\<close>

theorem removal_is_idempotent:
  assumes "accept_authoritative_removal digest u5 event_id now tenant store request settings db
             = Inr ((event, status, True), db')"
    and "now \<le> later"
  shows "accept_authoritative_removal digest u5 other_id later tenant store request settings db'
           = Inr ((event, PENDING_PROJECTION, False), db') \<and>
    (rq_source_system request' = rq_source_system request \<longrightarrow>
     rq_external_event_id request' = rq_external_event_id request \<longrightarrow>
     rq_occurred_at request' \<le> later \<longrightarrow>
     digest (store, request') \<noteq> digest (store, request) \<longrightarrow> 0 \<le> rfid_max_future_skew_seconds settings \<longrightarrow>
     accept_authoritative_removal digest u5 other_id later tenant store request' settings db'
       = Inl (ApiError 409 ''business_event_idempotency_conflict''))"
  using assms(1)
proof (cases rule: accept_removal_cases)
  case (removal s zone)
  have guards: "list_ex (\<lambda>s. st_tenant s = tenant \<and> st_id s = store) (stores db)"
    "\<not> now + seconds (rfid_max_future_skew_seconds settings) < rq_occurred_at request"
    using assms(1) by (auto simp: accept_authoritative_removal_def split: if_splits)
  show ?thesis
    using removal(8)
  proof (rule record_removal_InrD)
    fix delta
    let ?tid = "deterministic_transition_id u5 tenant (it_epc s) (it_version s + 1)"
    let ?t = "new_transition ?tid tenant (it_epc s) (it_version s + 1) [delta] now"
    assume new: "?tid \<notin> tr_id ` set (transitions db)"
      and event: "event = removal_event digest event_id tenant store request ?tid (it_version s + 1)"
      and db': "db' = db\<lparr>transitions := transitions db @ [?t],
          business_events := business_events db @ [event],
          item_states := put_by it_key (removed_item s event_id (rq_occurred_at request))
            (item_states db)\<rparr>"
    have found: "get_by bz_source_key (tenant, rq_source_system request, rq_external_event_id request)
        (business_events db') = Some event"
      using removal(7) by (simp add: db' get_by_append event removal_event_source_key)
    have "get_by tr_id ?tid (transitions db) = None" using new by (simp add: get_by_None_iff)
    then have status: "business_event_status db' event = PENDING_PROJECTION"
      by (simp add: business_event_status_def db' get_by_append event removal_event_def
          new_transition_def)
    have fp: "bz_fingerprint event = digest (store, request)"
      by (simp add: event removal_event_def)
    have "stores db' = stores db" by (simp add: db')
    moreover have "\<not> later + seconds (rfid_max_future_skew_seconds settings) < rq_occurred_at request"
      using guards(2) assms(2) by linarith
    moreover have "\<not> later + seconds (rfid_max_future_skew_seconds settings) < rq_occurred_at request'"
      if "rq_occurred_at request' \<le> later" "0 \<le> rfid_max_future_skew_seconds settings"
    proof -
      have "0 \<le> seconds (rfid_max_future_skew_seconds settings)" using that(2) by simp
      then show ?thesis using that(1) by linarith
    qed
    ultimately show ?thesis
      using guards(1) found status fp by (simp add: accept_authoritative_removal_def)
  qed
qed simp

definition sample_item :: item_state where
  "sample_item =
     \<lparr>it_tenant = 1, it_epc = ''E28011700000020F'', it_sku = 9, it_store = Some 2, it_zone = Some 3,
      it_last_observed_at = seconds 100, it_last_received_at = seconds 101, it_confidence = 9 / 10,
      it_version = 1, it_removal_event = None, it_removed_at = None\<rparr>"

definition sample_shop :: db where
  "sample_shop = empty_db\<lparr>stores := [\<lparr>st_tenant = 1, st_id = 2, st_status = STORE_ACTIVE\<rparr>],
     item_states := [sample_item]\<rparr>"

definition sample_sale :: business_request where
  "sample_sale =
     \<lparr>rq_source_system = ''POS'', rq_external_event_id = ''42'', rq_type = SALE,
      rq_epc = ''E28011700000020F'', rq_occurred_at = seconds 200, rq_note = None\<rparr>"

lemma sample_sale_accepted:
  "\<exists>event db'. accept_authoritative_removal (\<lambda>_. []) (\<lambda>_. 7) 5 (seconds 300) 1 2 sample_sale
     default_settings sample_shop = Inr ((event, PENDING_PROJECTION, True), db') \<and>
     it_zone (hd (item_states db')) = None"
  by (simp add: accept_authoritative_removal_def sample_shop_def sample_sale_def sample_item_def
      empty_db_def bz_source_key_def it_key_def processed_observation_watermark_def
      record_removal_def make_delta_def delta_valid_def insert_transition_def new_transition_def
      deterministic_transition_id_def removal_event_def store_item_def removed_item_def
      seconds_def Let_def)

theorem removal_is_idempotent_witness:
  "\<exists>event db'. accept_authoritative_removal (\<lambda>_. []) (\<lambda>_. 7) 6 (seconds 400) 1 2 sample_sale
     default_settings db' = Inr ((event, PENDING_PROJECTION, False), db')"
proof -
  obtain event db' where "accept_authoritative_removal (\<lambda>_. []) (\<lambda>_. 7) 5 (seconds 300) 1 2 sample_sale
      default_settings sample_shop = Inr ((event, PENDING_PROJECTION, True), db')"
    using sample_sale_accepted by blast
  from removal_is_idempotent [OF this, of "seconds 400"] show ?thesis by auto
qed

end
