(* ===== verification/Inventory.thy ===== *)
theory Inventory
  imports Event_Worker Business_Events
begin

text \<open>
  Inventory as a whole: every item occupies at most one bucket, a transition moves one item from a
  bucket to another, and the projection of the worker together with the transitions it still owes
  equals the count of items.  The theory derives what the operations of \<open>Streaming\<close>,
  \<open>Projection\<close> and \<open>Event_Worker\<close> change, and the invariants that follow.
\<close>

subsection \<open>What an observation changes\<close>

definition same_place :: "item_state \<Rightarrow> item_state \<Rightarrow> bool" where
  "same_place s s' \<longleftrightarrow>
     it_key s' = it_key s \<and> it_sku s' = it_sku s \<and> it_store s' = it_store s \<and>
     it_zone s' = it_zone s \<and> it_version s' = it_version s \<and>
     it_removal_event s' = it_removal_event s \<and> it_removed_at s' = it_removed_at s"

definition refreshed :: "uuid \<times> string \<Rightarrow> item_state list \<Rightarrow> item_state list \<Rightarrow> bool" where
  "refreshed k states states' \<longleftrightarrow>
     states' = states \<or>
     (\<exists>s s'. get_by it_key k states = Some s \<and> same_place s s' \<and> states' = put_by it_key s' states)"

lemma same_place_updates:
  "same_place s (touch_last_seen event settings s)"
  "same_place s (touch_last_seen event settings (weaken s))"
  "same_place s (confirm_in_place event decision settings s)"
  by (simp_all add: same_place_def touch_last_seen_def weaken_def confirm_in_place_def it_key_def Let_def)

lemma finish_InrD:
  "finish event d reason changed now db = Inr (res, db') \<Longrightarrow>
     advance_batch event False (Some d) None now db = Inr db' \<and> res = result d reason changed"
  by (auto simp: finish_def and_then_Inr_iff)

lemma process_located_cases:
  assumes "process_located u5 now event resolved binding start recent settings db = (recent', Inr (res, db'))"
  obtains (quiet) states d where
      "refreshed (ev_tenant event, ev_epc event) (item_states db) states"
      "advance_batch event False (Some d) None now (db\<lparr>item_states := states\<rparr>) = Inr db'"
  | (moved) window decision before where
      "window = fst (add_observation resolved (rfid_move_confirmation_window_seconds settings) start recent)"
      "infer_stable_zone window settings = Some decision"
      "before = get_by it_key (ev_tenant event, ev_epc event) (item_states db)"
      "\<And>s. before = Some s \<Longrightarrow> it_removal_event s = None \<and>
         \<not> (it_sku s = bd_sku binding \<and> it_store s = Some (sz_store decision) \<and>
            it_zone s = Some (sz_zone decision))"
      "\<not> below_opt (sz_observed_at decision)
         (max_opt (processed_observation_watermark (ev_tenant event) (ev_epc event) db)
            (map_option it_last_observed_at before))"
      "record_transition u5 event binding decision before now db = Inr (res, db')"
proof -
  define state where "state = get_by it_key (ev_tenant event, ev_epc event) (item_states db)"
  define mark where "mark = max_opt (processed_observation_watermark (ev_tenant event) (ev_epc event) db)
      (map_option it_last_observed_at state)"
  obtain window recent2 where add: "add_observation resolved
      (rfid_move_confirmation_window_seconds settings) start recent = (window, recent2)"
    by (cases "add_observation resolved (rfid_move_confirmation_window_seconds settings) start recent")
  have keep: thesis if "finish event d reason changed now db = Inr (res, db')" for d reason changed
    using finish_InrD [OF that] by (intro quiet [of "item_states db" d]) (simp_all add: refreshed_def)
  have update: thesis
    if "finish event d reason changed now (store_item s' db) = Inr (res, db')"
      "state = Some s" "same_place s s'" for d reason changed s s'
    using finish_InrD [OF that(1)] that(2,3)
    by (intro quiet [of "put_by it_key s' (item_states db)" d])
      (auto simp: refreshed_def store_item_def state_def)
  note unfolded = assms [unfolded process_located_def Let_def state_def [symmetric] mark_def [symmetric] add]
  show thesis
  proof (cases "below_opt (ev_observed_at event) mark")
    case True
    then show thesis using unfolded by (auto intro: keep)
  next
    case late: False
    show thesis
    proof (cases "case state of None \<Rightarrow> False | Some s \<Rightarrow> it_removal_event s \<noteq> None")
      case True
      then show thesis using unfolded late by (auto intro: keep)
    next
      case present: False
      show thesis
      proof (cases "infer_stable_zone window settings")
        case None
        then show thesis
          using unfolded late present same_place_updates
          by (cases state) (auto intro: keep update split: if_splits)
      next
        case (Some decision)
        show thesis
        proof (cases "below_opt (sz_observed_at decision) mark")
          case True
          then show thesis
            using unfolded late present Some same_place_updates
            by (cases state) (auto intro: keep update)
        next
          case fresh: False
          show thesis
          proof (cases "\<exists>s. state = Some s \<and> it_sku s = bd_sku binding \<and>
              it_store s = Some (sz_store decision) \<and> it_zone s = Some (sz_zone decision)")
            case True
            then show thesis
              using unfolded late present Some fresh same_place_updates by (auto intro: update)
          next
            case False
            have "record_transition u5 event binding decision state now db = Inr (res, db')"
              using unfolded late present Some fresh False by (cases state) auto
            then show thesis
              using present Some fresh False
              by (intro moved [of window decision state])
                (auto simp: add state_def mark_def)
          qed
        qed
      qed
    qed
  qed
qed

lemma process_observation_cases:
  assumes "process_observation u5 qid now event recent settings db = (recent', Inr (res, db'))"
  obtains (rejected) reason conns where
      "quarantine_event event reason None qid now (db\<lparr>connectivity_rows := conns\<rparr>) = Inr (res, db')"
  | (duplicate) "advance_batch event False (Some DUPLICATE) None now db = Inr db'"
  | (located) recent1 a binding start conns where
      "resolve_effective_assignment event db = Inr a"
      "recent1 = snd (remember_event event
         (if ev_replayed_from event \<noteq> None then forget_event event recent else recent))"
      "process_located u5 now event (event\<lparr>ev_store := as_store a, ev_zone := as_zone a\<rparr>) binding
         start recent1 settings (db\<lparr>connectivity_rows := conns\<rparr>) = (recent', Inr (res, db'))"
proof -
  obtain is_new recent1 where rem: "remember_event event
      (if ev_replayed_from event \<noteq> None then forget_event event recent else recent) = (is_new, recent1)"
    by (cases "remember_event event
      (if ev_replayed_from event \<noteq> None then forget_event event recent else recent)")
  note unfolded = assms [unfolded process_observation_def rem prod.case]
  have same: "db\<lparr>connectivity_rows := connectivity_rows db\<rparr> = db" by simp
  show thesis
  proof (cases "is_new")
    case False
    then show thesis using unfolded duplicate by (auto dest: finish_InrD)
  next
    case True
    show thesis
    proof (cases "min (ev_received_at event) now + seconds (rfid_max_future_skew_seconds settings)
        < ev_observed_at event")
      case future: True
      then show thesis
        using unfolded True by (intro rejected [of _ "connectivity_rows db"]) (auto simp: same)
    next
      case timely: False
      show thesis
      proof (cases "resolve_effective_assignment event db")
        case (Inl reason)
        then show thesis
          using unfolded True timely by (intro rejected [of reason "connectivity_rows db"]) (auto simp: same)
      next
        case (Inr a)
        define conns where "conns = update_connectivity (connectivity_rows db)
            (event\<lparr>ev_store := as_store a, ev_zone := as_zone a\<rparr>) settings"
        obtain found start where bf:
          "binding_for_event event now (db\<lparr>connectivity_rows := conns\<rparr>) = (found, start)"
          by (cases "binding_for_event event now (db\<lparr>connectivity_rows := conns\<rparr>)")
        have step: "(case (found, start) of
            (None, _) \<Rightarrow> (recent1, quarantine_event event ''UNKNOWN_EPC'' None qid now
                (db\<lparr>connectivity_rows := conns\<rparr>))
          | (Some binding, evidence_start) \<Rightarrow>
              process_located u5 now event (event\<lparr>ev_store := as_store a, ev_zone := as_zone a\<rparr>)
                binding evidence_start recent1 settings (db\<lparr>connectivity_rows := conns\<rparr>))
          = (recent', Inr (res, db'))"
          using unfolded True timely Inr bf
          by (simp add: Let_def conns_def [symmetric] cong: option.case_cong)
        have recent1: "recent1 = snd (remember_event event
            (if ev_replayed_from event \<noteq> None then forget_event event recent else recent))"
          by (simp only: rem snd_conv)
        show thesis
        proof (cases found)
          case None
          then show thesis using step by (intro rejected [of "''UNKNOWN_EPC''" conns]) simp
        next
          case (Some binding)
          then show thesis using step by (intro located [OF Inr recent1, of binding start conns]) simp
        qed
      qed
    qed
  qed
qed

subsection \<open>Transitions as moves between buckets\<close>

definition change :: "bucket option \<Rightarrow> bucket option \<Rightarrow> bucket \<Rightarrow> int" where
  "change source target b = of_bool (target = Some b) - of_bool (source = Some b)"

definition transition_deltas :: "transition \<Rightarrow> inventory_delta list" where
  "transition_deltas t = (case validated_transition_deltas t of Inl _ \<Rightarrow> [] | Inr ds \<Rightarrow> ds)"

text \<open>A transition that validates, carries its own identifier in its deltas, and moves one item.\<close>

definition moves :: "transition \<Rightarrow> bucket option \<Rightarrow> bucket option \<Rightarrow> bool" where
  "moves t source target \<longleftrightarrow>
     (\<exists>ds. validated_transition_deltas t = Inr ds \<and>
        (\<forall>b. delta_sum b ds = change source target b) \<and>
        (\<forall>d \<in> set ds. take 36 (dl_delta_id d) = str_uuid (tr_id t)))"

lemma movesD:
  assumes "moves t source target"
  shows "validated_transition_deltas t = Inr (transition_deltas t)"
    "delta_sum b (transition_deltas t) = change source target b"
    "d \<in> set (transition_deltas t) \<Longrightarrow> take 36 (dl_delta_id d) = str_uuid (tr_id t)"
proof -
  obtain ds where ds: "validated_transition_deltas t = Inr ds"
    "\<forall>b. delta_sum b ds = change source target b"
    "\<forall>d \<in> set ds. take 36 (dl_delta_id d) = str_uuid (tr_id t)"
    using assms unfolding moves_def by blast
  have "transition_deltas t = ds" by (simp add: transition_deltas_def ds(1))
  then show "validated_transition_deltas t = Inr (transition_deltas t)"
    "delta_sum b (transition_deltas t) = change source target b"
    "d \<in> set (transition_deltas t) \<Longrightarrow> take 36 (dl_delta_id d) = str_uuid (tr_id t)"
    using ds by blast+
qed

lemma validated_cong:
  "tr_deltas t' = tr_deltas t \<Longrightarrow> tr_id t' = tr_id t \<Longrightarrow> tr_tenant t' = tr_tenant t \<Longrightarrow>
     tr_epc t' = tr_epc t \<Longrightarrow> validated_transition_deltas t' = validated_transition_deltas t"
  by (simp only: validated_transition_deltas_def)

lemma validate_deltas_payloads:
  "list_all delta_valid ds \<Longrightarrow> validate_deltas (map DeltaPayload ds) = Inr ds"
  by (induction ds) (simp_all add: validate_delta_def)

lemma validated_transition_InrD:
  assumes "validated_transition_deltas t = Inr ds"
  shows "\<forall>d \<in> set ds. dl_transition d = tr_id t \<and> dl_tenant d = tr_tenant t \<and> dl_epc d = tr_epc t"
    "distinct (map dl_delta_id ds)"
  using assms
  by (auto simp: validated_transition_deltas_def and_then_Inr_iff list_ex_iff
      split: deltas_json.splits if_splits)

lemma make_delta_InrD:
  assumes "make_delta tid tenant epc sku store zone q c at_time = Inr d"
  shows "delta_valid d" "dl_transition d = tid" "dl_tenant d = tenant" "dl_epc d = epc"
    "dl_bucket d = (tenant, store, sku, zone)" "dl_quantity d = q"
    "dl_delta_id d = str_uuid tid @ '':'' @ str_uuid sku @ '':'' @ str_uuid zone"
  using assms by (auto simp: make_delta_def Let_def dl_bucket_def split: if_splits)

lemma delta_id_prefix:
  "make_delta tid tenant epc sku store zone q c at_time = Inr d \<Longrightarrow> take 36 (dl_delta_id d) = str_uuid tid"
  by (drule make_delta_InrD(7)) simp

text \<open>A transition built from one or two deltas of its own is a move.\<close>

lemma new_transition_moves:
  assumes "list_all delta_valid ds" "ds \<noteq> []" "distinct (map dl_delta_id ds)"
    and "\<And>d. d \<in> set ds \<Longrightarrow> dl_transition d = tid \<and> dl_tenant d = tenant \<and> dl_epc d = epc \<and>
           take 36 (dl_delta_id d) = str_uuid tid"
    and "\<And>b. delta_sum b ds = change source target b"
  shows "moves (new_transition tid tenant epc v ds now) source target"
proof -
  have "validated_transition_deltas (new_transition tid tenant epc v ds now) = Inr ds"
    using assms(1-4)
    by (auto simp: validated_transition_deltas_def new_transition_def validate_deltas_payloads list_ex_iff)
  then show ?thesis using assms(4,5) by (auto simp: moves_def new_transition_def)
qed

lemma removal_moves:
  assumes "make_delta tid tenant epc sku store zone (- 1) c at_time = Inr d"
  shows "moves (new_transition tid tenant epc v [d] now) (Some (tenant, store, sku, zone)) None"
  using make_delta_InrD [OF assms] delta_id_prefix [OF assms]
  by (intro new_transition_moves) (simp_all add: change_def)

lemma move_deltas_moves:
  assumes "move_deltas tid event binding decision before = Inr ds"
    and "\<And>s. before = Some s \<Longrightarrow> it_key s = (ev_tenant event, ev_epc event)"
    and apart: "\<And>s. before = Some s \<Longrightarrow>
      \<not> (it_sku s = bd_sku binding \<and> it_store s = Some (sz_store decision) \<and>
         it_zone s = Some (sz_zone decision))"
    and fk: "\<And>s. before = Some s \<Longrightarrow> it_zone s = Some (sz_zone decision) \<Longrightarrow>
      it_store s = Some (sz_store decision)"
  shows "moves (new_transition tid (ev_tenant event) (ev_epc event) v ds now)
    (Option.bind before it_bucket)
    (Some (ev_tenant event, sz_store decision, bd_sku binding, sz_zone decision))"
proof -
  obtain added where added: "make_delta tid (ev_tenant event) (ev_epc event) (bd_sku binding)
      (sz_store decision) (sz_zone decision) 1 (sz_confidence decision) (sz_observed_at decision) = Inr added"
    using assms(1) by (auto simp: move_deltas_def and_then_Inr_iff)
  note a = make_delta_InrD [OF added] delta_id_prefix [OF added]
  show ?thesis
  proof (cases "Option.bind before it_bucket")
    case None
    then have "ds = [added]"
      using assms(1) added
      by (auto simp: move_deltas_def it_bucket_def split: option.splits)
    then show ?thesis using a None by (intro new_transition_moves) (simp_all add: change_def)
  next
    case (Some source)
    then obtain s store zone where s: "before = Some s" "it_store s = Some store" "it_zone s = Some zone"
      and source: "source = (it_tenant s, store, it_sku s, zone)"
      by (cases before) (auto simp: it_bucket_def split: option.splits)
    have key: "it_tenant s = ev_tenant event" "it_epc s = ev_epc event"
      using assms(2) [OF s(1)] by (simp_all add: it_key_def)
    obtain removed where removed: "make_delta tid (ev_tenant event) (ev_epc event) (it_sku s) store zone
        (- 1) (sz_confidence decision) (sz_observed_at decision) = Inr removed" and ds: "ds = [removed, added]"
      using assms(1) s key added by (auto simp: move_deltas_def and_then_Inr_iff)
    note r = make_delta_InrD [OF removed] delta_id_prefix [OF removed]
    have "\<not> (it_sku s = bd_sku binding \<and> zone = sz_zone decision)"
      using apart [OF s(1)] fk [OF s(1)] s by auto
    then have "dl_delta_id removed \<noteq> dl_delta_id added" using a(7) r(7) by auto
    then show ?thesis
      unfolding Some ds using a r source key
      by (intro new_transition_moves) (auto simp: change_def)
  qed
qed

lemma record_transition_InrD:
  assumes "record_transition u5 event binding decision before now db = Inr (res, db')"
  obtains tid v ds db2 where
    "v = (case before of None \<Rightarrow> 1 | Some s \<Rightarrow> it_version s + 1)"
    "tid = deterministic_transition_id u5 (ev_tenant event) (ev_epc event) v"
    "move_deltas tid event binding decision before = Inr ds"
    "tid \<notin> tr_id ` set (transitions db)"
    "(ev_tenant event, ev_epc event, v) \<notin> tr_item_version ` set (transitions db)"
    "\<exists>ts es. db2 = db\<lparr>item_states := put_by it_key (moved_item event binding decision before) (item_states db),
       transitions := transitions db @ [new_transition tid (ev_tenant event) (ev_epc event) v ds now],
       tasks := ts, evidence_rows := es\<rparr>"
    "advance_batch event False (Some PROCESSED) None now db2 = Inr db'"
    "res = result PROCESSED None True"
proof -
  define v where "v = (case before of None \<Rightarrow> 1 | Some s \<Rightarrow> it_version s + 1)"
  define tid where "tid = deterministic_transition_id u5 (ev_tenant event) (ev_epc event) v"
  let ?item = "moved_item event binding decision before"
  define attribution where "attribution = (\<lambda>db1. case before of
      Some s \<Rightarrow>
        (case it_zone s of
           Some previous_zone \<Rightarrow>
             if it_store s = Some (sz_store decision) \<and> it_sku s = bd_sku binding
             then attribute_replenishment_move (ev_tenant event) tid (ev_epc event)
                    (bd_sku binding) (sz_store decision) previous_zone (sz_zone decision)
                    (sz_observed_at decision) db1
             else Inr db1
         | None \<Rightarrow> Inr db1)
    | None \<Rightarrow> Inr db1)"
  have "and_then (move_deltas tid event binding decision before) (\<lambda>deltas.
      and_then (insert_transition (new_transition tid (ev_tenant event) (ev_epc event) v deltas now)
        (store_item ?item db)) (\<lambda>db1.
      and_then (attribution db1) (\<lambda>db2. finish event PROCESSED None True now db2))) = Inr (res, db')"
    using assms unfolding record_transition_def Let_def v_def tid_def attribution_def .
  then obtain ds db1 db2 where ds: "move_deltas tid event binding decision before = Inr ds"
    and ins: "insert_transition (new_transition tid (ev_tenant event) (ev_epc event) v ds now)
        (store_item ?item db) = Inr db1"
    and att: "attribution db1 = Inr db2"
    and fin: "finish event PROCESSED None True now db2 = Inr (res, db')"
    unfolding and_then_Inr_iff by blast
  have attr: "db2 = db1 \<or> (\<exists>sku store p n t. attribute_replenishment_move (ev_tenant event) tid (ev_epc event)
        sku store p n t db1 = Inr db2)"
    using att unfolding attribution_def by (auto split: option.splits if_splits)
  note inserted = insert_transition_InrD [OF ins]
  have "\<exists>ts es. db2 = db1\<lparr>tasks := ts, evidence_rows := es\<rparr>"
    using attr
  proof
    assume "db2 = db1"
    then show ?thesis by (intro exI [of _ "tasks db1"] exI [of _ "evidence_rows db1"]) simp
  next
    assume "\<exists>sku store p n t. attribute_replenishment_move (ev_tenant event) tid (ev_epc event)
        sku store p n t db1 = Inr db2"
    then obtain sku store p n t where "attribute_replenishment_move (ev_tenant event) tid
        (ev_epc event) sku store p n t db1 = Inr db2" by blast
    then consider "db2 = db1" | ts es where "db2 = db1\<lparr>evidence_rows := es, tasks := ts\<rparr>"
      by (auto simp: attribute_replenishment_move_def split: if_splits option.splits)
    then show ?thesis
    proof cases
      case 1
      then show ?thesis by (intro exI [of _ "tasks db1"] exI [of _ "evidence_rows db1"]) simp
    next
      case (2 ts es)
      then show ?thesis by (intro exI [of _ ts] exI [of _ es]) simp
    qed
  qed
  then have shape: "\<exists>ts es. db2 = db\<lparr>item_states := put_by it_key ?item (item_states db),
       transitions := transitions db @ [new_transition tid (ev_tenant event) (ev_epc event) v ds now],
       tasks := ts, evidence_rows := es\<rparr>"
    using inserted(1) by (auto simp: store_item_def)
  show thesis
    using inserted finish_InrD [OF fin]
    by (intro that [OF v_def tid_def ds _ _ shape])
      (simp_all add: new_transition_def tr_item_version_def store_item_def)
qed

end
