(* ===== verification/Stock.thy ===== *)
theory Stock
  imports Inventory
begin

text \<open>
  The stock invariant: the projected quantity of every bucket plus what the unsettled transitions
  still owe it is the number of items there, transitions of one item form a chain of moves in version
  order, and a delta is applied only by the transition that carries it.  Every operation keeps it.
\<close>

subsection \<open>Quantities owed\<close>

definition owed :: "transition \<Rightarrow> bool" where
  "owed t \<longleftrightarrow> tr_pending t \<or> tr_unreconciled t"

definition owed_delta :: "bucket \<Rightarrow> transition \<Rightarrow> int" where
  "owed_delta b t = (if owed t then delta_sum b (transition_deltas t) else 0)"

definition outstanding :: "bucket \<Rightarrow> db \<Rightarrow> int" where
  "outstanding b db = sum_list (map (owed_delta b) (transitions db))"

text \<open>What identifies a transition; the worker's bookkeeping leaves it alone.\<close>

definition tr_ident :: "transition \<Rightarrow> uuid \<times> (uuid \<times> string) \<times> int \<times> deltas_json" where
  "tr_ident t = (tr_id t, (tr_tenant t, tr_epc t), tr_version t, tr_deltas t)"

definition tr_item :: "transition \<Rightarrow> uuid \<times> string" where
  "tr_item t = (tr_tenant t, tr_epc t)"

lemma tr_ident_eqD:
  assumes "tr_ident t' = tr_ident t"
  shows "tr_id t' = tr_id t" "tr_item t' = tr_item t" "tr_version t' = tr_version t"
    "transition_deltas t' = transition_deltas t" "moves t' source target = moves t source target"
    "tr_tenant t' = tr_tenant t" "tr_epc t' = tr_epc t"
proof -
  have "validated_transition_deltas t' = validated_transition_deltas t"
    using assms by (intro validated_cong) (simp_all add: tr_ident_def)
  then show "transition_deltas t' = transition_deltas t" "moves t' source target = moves t source target"
    using assms by (simp_all add: transition_deltas_def moves_def tr_ident_def)
qed (use assms in \<open>simp_all add: tr_ident_def tr_item_def\<close>)

lemma sum_list_update_where:
  fixes g :: "'r \<Rightarrow> int"
  assumes "distinct (map key rows)" "r \<in> set rows"
  shows "sum_list (map g (update_where (\<lambda>r'. key r' = key r) f rows)) = sum_list (map g rows) + g (f r) - g r"
  using assms
proof (induction rows)
  case (Cons x rows)
  show ?case
  proof (cases "key x = key r")
    case True
    then have "x = r" using Cons.prems by (auto simp: image_iff)
    moreover have "update_where (\<lambda>r'. key r' = key r) f rows = rows"
      using Cons.prems(1) True by (intro update_where_id) (auto simp: image_iff)
    ultimately show ?thesis by simp
  next
    case False
    then show ?thesis using Cons by auto
  qed
qed simp

subsection \<open>Counting items\<close>

definition loc :: "uuid \<times> string \<Rightarrow> db \<Rightarrow> bucket option" where
  "loc k db = Option.bind (get_by it_key k (item_states db)) it_bucket"

lemma count_put_by:
  assumes "distinct (map it_key states)"
  shows "int (length (filter (\<lambda>s. it_bucket s = Some b) (put_by it_key s' states))) =
    int (length (filter (\<lambda>s. it_bucket s = Some b) states)) +
    change (Option.bind (get_by it_key (it_key s') states) it_bucket) (it_bucket s') b"
  using assms by (induction states) (auto simp: change_def)

lemma item_count_put:
  assumes "distinct (map it_key (item_states db))" "item_states db' = put_by it_key s' (item_states db)"
  shows "item_count b db' = item_count b db + change (loc (it_key s') db) (it_bucket s') b"
  using count_put_by [OF assms(1)] by (simp add: item_count_def assms(2) loc_def)

lemma loc_put:
  "item_states db' = put_by it_key s' (item_states db) \<Longrightarrow>
     loc k db' = (if k = it_key s' then it_bucket s' else loc k db)"
  by (simp add: loc_def table_simps)

lemma same_place_bucket: "same_place s s' \<Longrightarrow> it_bucket s' = it_bucket s"
  by (simp add: same_place_def it_bucket_def it_key_def split: option.splits)

lemma it_bucket_tenant: "it_bucket s = Some b \<Longrightarrow> fst b = it_tenant s"
  by (auto simp: it_bucket_def split: option.splits)

subsection \<open>Chains\<close>

fun chain :: "bucket option \<Rightarrow> transition list \<Rightarrow> bucket option \<Rightarrow> bool" where
  "chain l [] m \<longleftrightarrow> l = m"
| "chain l (t # ts) m \<longleftrightarrow> (\<exists>n. moves t l n \<and> chain n ts m)"

definition pend :: "uuid \<times> string \<Rightarrow> db \<Rightarrow> transition list" where
  "pend k db = filter (\<lambda>t. tr_item t = k \<and> tr_pending t) (transitions db)"

definition degraded :: "uuid \<Rightarrow> db \<Rightarrow> bool" where
  "degraded tenant db \<longleftrightarrow> (\<exists>t \<in> set (transitions db). tr_tenant t = tenant \<and> tr_unreconciled t)"

lemma chain_append: "chain l (ts @ us) m \<longleftrightarrow> (\<exists>n. chain l ts n \<and> chain n us m)"
  by (induction l ts m rule: chain.induct) auto

lemma chain_snoc: "chain l ts m \<Longrightarrow> moves t m n \<Longrightarrow> chain l (ts @ [t]) n"
  by (auto simp: chain_append)

lemma chain_cong:
  "list_all2 (\<lambda>t t'. tr_ident t' = tr_ident t) ts ts' \<Longrightarrow> chain l ts' m = chain l ts m"
proof (induction ts ts' arbitrary: l rule: list_all2_induct)
  case (Cons t ts t' ts')
  then show ?case using tr_ident_eqD(5) [of t' t] by simp
qed simp

lemma chain_sum:
  "chain l ts m \<Longrightarrow> sum_list (map (\<lambda>t. delta_sum b (transition_deltas t)) ts) = change l m b"
proof (induction l ts m rule: chain.induct)
  case (2 l t ts m)
  then obtain n where "moves t l n" "chain n ts m" by auto
  then show ?case using 2(1) movesD(2) [of t l n b] by (simp add: change_def)
qed (simp add: change_def)

subsection \<open>The invariant\<close>

definition after_in_order ::
    "(uuid \<times> string) \<times> int \<Rightarrow> (uuid \<times> string) \<times> int \<Rightarrow> bool" where
  "after_in_order a b \<longleftrightarrow> (fst a = fst b \<longrightarrow> snd a < snd b)"

definition stock_tables :: "db \<Rightarrow> bool" where
  "stock_tables db \<longleftrightarrow>
     distinct (map it_key (item_states db)) \<and> distinct (map pj_bucket (projections db)) \<and>
     distinct (map tr_id (transitions db)) \<and>
     sorted_wrt after_in_order (map (\<lambda>t. (tr_item t, tr_version t)) (transitions db)) \<and>
     (\<forall>t \<in> set (transitions db). transition_checks t \<and> (\<exists>l m. moves t l m) \<and>
        (\<exists>s \<in> set (item_states db). it_key s = tr_item t \<and> tr_version t \<le> it_version s)) \<and>
     (\<forall>a \<in> set (applied_deltas db). \<exists>t \<in> set (transitions db).
        tr_published_at t \<noteq> None \<and> take 36 (ad_delta_id a) = str_uuid (tr_id t))"

definition stock_inv :: "db \<Rightarrow> bool" where
  "stock_inv db \<longleftrightarrow>
     stock_tables db \<and>
     (\<forall>b. projected b db + outstanding b db = item_count b db) \<and>
     (\<forall>k. \<not> degraded (fst k) db \<longrightarrow> (\<exists>l. chain l (pend k db) (loc k db)))"

lemma stock_tablesD:
  assumes "stock_tables db"
  shows "distinct (map it_key (item_states db))" "distinct (map pj_bucket (projections db))"
    "distinct (map tr_id (transitions db))"
    "sorted_wrt after_in_order (map (\<lambda>t. (tr_item t, tr_version t)) (transitions db))"
    and "t \<in> set (transitions db) \<Longrightarrow> transition_checks t"
    and "t \<in> set (transitions db) \<Longrightarrow> \<exists>l m. moves t l m"
    and "t \<in> set (transitions db) \<Longrightarrow>
      \<exists>s \<in> set (item_states db). it_key s = tr_item t \<and> tr_version t \<le> it_version s"
    and "a \<in> set (applied_deltas db) \<Longrightarrow> \<exists>t \<in> set (transitions db).
      tr_published_at t \<noteq> None \<and> take 36 (ad_delta_id a) = str_uuid (tr_id t)"
  using assms by (simp_all add: stock_tables_def)

lemma stock_invD:
  assumes "stock_inv db"
  shows "stock_tables db" "projected b db + outstanding b db = item_count b db"
    "\<not> degraded (fst k) db \<Longrightarrow> \<exists>l. chain l (pend k db) (loc k db)"
proof -
  show "stock_tables db" "\<not> degraded (fst k) db \<Longrightarrow> \<exists>l. chain l (pend k db) (loc k db)"
    using assms unfolding stock_inv_def by blast+
  have "\<forall>b. projected b db + outstanding b db = item_count b db"
    using assms unfolding stock_inv_def by blast
  then show "projected b db + outstanding b db = item_count b db" by (rule spec)
qed

lemma stock_inv_cong:
  assumes "item_states db' = item_states db" "transitions db' = transitions db"
    "applied_deltas db' = applied_deltas db" "projections db' = projections db"
  shows "stock_inv db' = stock_inv db"
  using assms
  by (simp add: stock_inv_def stock_tables_def projected_def outstanding_def item_count_def
      degraded_def pend_def loc_def)

lemma stock_inv_empty: "item_states db = [] \<Longrightarrow> transitions db = [] \<Longrightarrow> applied_deltas db = [] \<Longrightarrow>
    projections db = [] \<Longrightarrow> stock_inv db"
  by (simp add: stock_inv_def stock_tables_def projected_def outstanding_def item_count_def
      pend_def loc_def)

subsection \<open>Bookkeeping on a transition\<close>

text \<open>
  An update of status columns: nothing that identifies a transition changes, and the row stays
  within its CHECK constraints.
\<close>

lemma stock_tables_update:
  assumes "stock_tables db"
    and ident: "\<And>t. tr_ident (f t) = tr_ident t"
    and checks: "\<And>t. t \<in> set (transitions db) \<Longrightarrow> P t \<Longrightarrow> transition_checks (f t)"
    and published: "\<And>t. P t \<Longrightarrow> tr_published_at t \<noteq> None \<Longrightarrow> tr_published_at (f t) \<noteq> None"
    and applied: "\<And>a. a \<in> set (applied_deltas db') \<Longrightarrow> a \<in> set (applied_deltas db) \<or>
      (\<exists>t \<in> set (transitions db). P t \<and> tr_published_at (f t) \<noteq> None \<and>
         take 36 (ad_delta_id a) = str_uuid (tr_id t))"
    and db': "transitions db' = update_where P f (transitions db)" "item_states db' = item_states db"
      "distinct (map pj_bucket (projections db'))"
  shows "stock_tables db'"
proof -
  have ids: "map tr_id (transitions db') = map tr_id (transitions db)"
    "map (\<lambda>t. (tr_item t, tr_version t)) (transitions db')
       = map (\<lambda>t. (tr_item t, tr_version t)) (transitions db)"
    using tr_ident_eqD(1-3) [OF ident] by (simp_all add: db'(1) map_update_where)
  have rows: "transition_checks t' \<and> (\<exists>l m. moves t' l m) \<and>
      (\<exists>s \<in> set (item_states db). it_key s = tr_item t' \<and> tr_version t' \<le> it_version s)"
    if "t' \<in> set (transitions db')" for t'
  proof -
    obtain t where t: "t \<in> set (transitions db)" "P t \<and> t' = f t \<or> \<not> P t \<and> t' = t"
      using \<open>t' \<in> set (transitions db')\<close> unfolding db'(1) in_update_where_iff by blast
    then have "tr_ident t' = tr_ident t" using ident by auto
    then show ?thesis
      using stock_tablesD(5-7) [OF assms(1) t(1)] checks [OF t(1)] t(2) tr_ident_eqD(2,3,5) [of t' t]
      by auto
  qed
  have carried: "\<exists>t \<in> set (transitions db').
      tr_published_at t \<noteq> None \<and> take 36 (ad_delta_id a) = str_uuid (tr_id t)"
    if a: "a \<in> set (applied_deltas db')" for a
  proof -
    obtain t where t: "t \<in> set (transitions db)" "take 36 (ad_delta_id a) = str_uuid (tr_id t)"
      "tr_published_at t \<noteq> None \<or> P t \<and> tr_published_at (f t) \<noteq> None"
      using applied [OF a] stock_tablesD(8) [OF assms(1), of a] by blast
    let ?t = "if P t then f t else t"
    have "?t \<in> set (transitions db')" using t(1) by (simp add: db'(1) set_update_where)
    moreover have "tr_published_at ?t \<noteq> None" "tr_id ?t = tr_id t"
      using t(3) published [of t] tr_ident_eqD(1) [OF ident, of t] by auto
    ultimately show ?thesis using t(2) by metis
  qed
  show ?thesis
    unfolding stock_tables_def ids db'(2)
    using stock_tablesD(1,3,4) [OF assms(1)] db'(3) rows carried by blast
qed

lemma owed_delta_cong: "tr_ident t' = tr_ident t \<Longrightarrow> owed t' = owed t \<Longrightarrow> owed_delta b t' = owed_delta b t"
  using tr_ident_eqD(4) [of t' t] by (simp add: owed_delta_def)

lemma sum_update_same:
  fixes g :: "'r \<Rightarrow> int"
  shows "(\<And>r. r \<in> set rows \<Longrightarrow> P r \<Longrightarrow> g (f r) = g r) \<Longrightarrow>
    sum_list (map g (update_where P f rows)) = sum_list (map g rows)"
  by (induction rows) auto

text \<open>Recording a failed attempt, with or without the quarantine that may follow it.\<close>

lemma stock_inv_bookkeeping:
  assumes inv: "stock_inv db"
    and ident: "\<And>t. tr_ident (f t) = tr_ident t"
    and checks: "\<And>t. t \<in> set (transitions db) \<Longrightarrow> P t \<Longrightarrow> transition_checks (f t)"
    and published: "\<And>t. P t \<Longrightarrow> tr_published_at (f t) = tr_published_at t"
    and owed: "\<And>t. t \<in> set (transitions db) \<Longrightarrow> P t \<Longrightarrow> owed (f t) = owed t"
    and quarantine: "\<And>t. t \<in> set (transitions db) \<Longrightarrow> P t \<Longrightarrow> tr_pending t \<Longrightarrow> \<not> tr_pending (f t) \<Longrightarrow>
      tr_unreconciled (f t)"
    and monotone: "\<And>t. t \<in> set (transitions db) \<Longrightarrow> P t \<Longrightarrow> \<not> tr_pending t \<Longrightarrow> \<not> tr_pending (f t)"
      "\<And>t. t \<in> set (transitions db) \<Longrightarrow> P t \<Longrightarrow> tr_unreconciled t \<Longrightarrow> tr_unreconciled (f t)"
    and db': "transitions db' = update_where P f (transitions db)" "item_states db' = item_states db"
      "applied_deltas db' = applied_deltas db" "projections db' = projections db"
  shows "stock_inv db'"
proof -
  have "stock_tables db'"
    using stock_tablesD(2) [OF stock_invD(1) [OF inv]] published
    by (intro stock_tables_update [OF stock_invD(1) [OF inv] ident checks _ _ db'(1,2)])
      (auto simp: db'(3,4))
  moreover have "projected b db' + outstanding b db' = item_count b db'" for b
  proof -
    have "outstanding b db' = outstanding b db"
      unfolding outstanding_def db'(1) using ident owed
      by (intro sum_update_same owed_delta_cong) auto
    then show ?thesis using stock_invD(2) [OF inv, of b]
      by (simp add: projected_def item_count_def db')
  qed
  moreover have "\<exists>l. chain l (pend k db') (loc k db')" if "\<not> degraded (fst k) db'" for k
  proof -
    have kept: "tr_item t = k \<Longrightarrow> tr_pending (f t) = tr_pending t"
      if "t \<in> set (transitions db)" "P t" for t
    proof -
      assume "tr_item t = k"
      then have "fst k = tr_tenant (f t)" using tr_ident_eqD(6) [OF ident, of t] by (auto simp: tr_item_def)
      moreover have "f t \<in> set (transitions db')" using that by (auto simp: db'(1) set_update_where)
      ultimately have "\<not> tr_unreconciled (f t)" using \<open>\<not> degraded (fst k) db'\<close> by (auto simp: degraded_def)
      then show ?thesis using quarantine [OF that] monotone(1) [OF that] by blast
    qed
    have "tr_item (f t) = tr_item t" for t using tr_ident_eqD(2) [OF ident] .
    then have "list_all2 (\<lambda>t t'. tr_ident t' = tr_ident t)
        (filter (\<lambda>t. tr_item t = k \<and> tr_pending t) ts)
        (filter (\<lambda>t. tr_item t = k \<and> tr_pending t) (update_where P f ts))"
      if "set ts \<subseteq> set (transitions db)" for ts
      using that ident kept by (induction ts) auto
    then have same: "list_all2 (\<lambda>t t'. tr_ident t' = tr_ident t) (pend k db) (pend k db')"
      by (simp add: pend_def db'(1))
    have "\<not> degraded (fst k) db"
    proof
      assume "degraded (fst k) db"
      then obtain t where t: "t \<in> set (transitions db)" "tr_tenant t = fst k" "tr_unreconciled t"
        by (auto simp: degraded_def)
      let ?t = "if P t then f t else t"
      have "?t \<in> set (transitions db')" using t(1) by (simp add: db'(1) set_update_where)
      moreover have "tr_tenant ?t = fst k" "tr_unreconciled ?t"
        using t monotone(2) [OF t(1)] tr_ident_eqD(6) [OF ident, of t] by auto
      ultimately show False using \<open>\<not> degraded (fst k) db'\<close> by (auto simp: degraded_def)
    qed
    then obtain l where "chain l (pend k db) (loc k db)" using stock_invD(3) [OF inv] by blast
    then show ?thesis using chain_cong [OF same] by (auto simp: loc_def db'(2))
  qed
  ultimately show ?thesis unfolding stock_inv_def by blast
qed

subsection \<open>Refreshing and moving an item\<close>

lemma stock_inv_refreshed:
  assumes inv: "stock_inv db" and refresh: "refreshed k (item_states db) (item_states db')"
    and db': "transitions db' = transitions db" "applied_deltas db' = applied_deltas db"
      "projections db' = projections db"
  shows "stock_inv db'"
  using refresh unfolding refreshed_def
proof
  assume "item_states db' = item_states db"
  then show ?thesis using inv db' by (simp add: stock_inv_cong [of db' db])
next
  assume "\<exists>s s'. get_by it_key k (item_states db) = Some s \<and> same_place s s' \<and>
      item_states db' = put_by it_key s' (item_states db)"
  then obtain s s' where s: "get_by it_key k (item_states db) = Some s" "same_place s s'"
    and put: "item_states db' = put_by it_key s' (item_states db)" by blast
  note tables = stock_invD(1) [OF inv]
  have key: "it_key s' = k" "it_key s = k" "it_version s' = it_version s"
    using s get_by_SomeD [OF s(1)] by (auto simp: same_place_def)
  have loc: "loc k' db' = loc k' db" for k'
  proof -
    have "loc k db = Some b \<longleftrightarrow> it_bucket s' = Some b" for b
      using s(1) same_place_bucket [OF s(2)] by (simp add: loc_def)
    then have "loc k db = it_bucket s'" by (metis option.exhaust)
    then show ?thesis by (simp add: loc_put [OF put] key(1))
  qed
  have covered: "\<exists>s \<in> set (item_states db'). it_key s = tr_item t \<and> tr_version t \<le> it_version s"
    if t: "t \<in> set (transitions db)" for t
  proof -
    obtain s0 where s0: "s0 \<in> set (item_states db)" "it_key s0 = tr_item t" "tr_version t \<le> it_version s0"
      using stock_tablesD(7) [OF tables t] by blast
    show ?thesis
    proof (cases "it_key s0 = k")
      case True
      then have "get_by it_key k (item_states db) = Some s0"
        using s0(1) get_by_eq_Some_iff [OF stock_tablesD(1) [OF tables]] by simp
      then have "s0 = s" using s(1) by simp
      then show ?thesis using s0 key in_put_by [of s' it_key "item_states db"] by (auto simp: put)
    next
      case False
      then show ?thesis
        using s0 key in_put_by_iff [OF stock_tablesD(1) [OF tables], of s0 s'] by (auto simp: put)
    qed
  qed
  then have "stock_tables db'"
    using tables distinct_put_by [OF stock_tablesD(1) [OF tables], of s']
    unfolding stock_tables_def db' put by blast
  moreover have "projected b db' + outstanding b db' = item_count b db'" for b
    using stock_invD(2) [OF inv, of b] item_count_put [OF stock_tablesD(1) [OF tables] put, of b]
      key(1) loc [of k]
    by (simp add: projected_def outstanding_def db' change_def loc_put [OF put])
  moreover have "\<exists>l. chain l (pend k' db') (loc k' db')" if "\<not> degraded (fst k') db'" for k'
    using that stock_invD(3) [OF inv, of k'] by (simp add: degraded_def pend_def db' loc)
  ultimately show ?thesis unfolding stock_inv_def by blast
qed

lemma stock_inv_moved:
  assumes inv: "stock_inv db"
    and item: "it_key s' = k"
      "it_version s' = (case get_by it_key k (item_states db) of None \<Rightarrow> 1 | Some s \<Rightarrow> it_version s + 1)"
    and t: "tr_item t = k" "tr_version t = it_version s'" "tr_pending t" "transition_checks t"
      "tr_id t \<notin> tr_id ` set (transitions db)" "moves t (loc k db) (it_bucket s')"
    and db': "item_states db' = put_by it_key s' (item_states db)"
      "transitions db' = transitions db @ [t]" "applied_deltas db' = applied_deltas db"
      "projections db' = projections db"
  shows "stock_inv db'"
proof -
  note tables = stock_invD(1) [OF inv]
  have old: "\<exists>s. get_by it_key k (item_states db) = Some s \<and> tr_version u < it_version s'"
    if u: "u \<in> set (transitions db)" "tr_item u = k" for u
  proof -
    obtain s where "s \<in> set (item_states db)" "it_key s = k" "tr_version u \<le> it_version s"
      using stock_tablesD(7) [OF tables u(1)] u(2) by auto
    moreover from this have "get_by it_key k (item_states db) = Some s"
      using get_by_eq_Some_iff [OF stock_tablesD(1) [OF tables]] by blast
    ultimately show ?thesis using item(2) by simp
  qed
  have covered: "\<exists>s \<in> set (item_states db'). it_key s = tr_item u \<and> tr_version u \<le> it_version s"
    if "u \<in> set (transitions db')" for u
  proof (cases "tr_item u = k")
    case True
    then have "tr_version u \<le> it_version s'" using that old [of u] t(2) by (fastforce simp: db'(2))
    then show ?thesis using True item(1) in_put_by [of s' it_key "item_states db"] by (auto simp: db'(1))
  next
    case False
    then have "u \<in> set (transitions db)" using that t(1) by (auto simp: db'(2))
    then obtain s where "s \<in> set (item_states db)" "it_key s = tr_item u" "tr_version u \<le> it_version s"
      using stock_tablesD(7) [OF tables] by blast
    then show ?thesis
      using False item(1) in_put_by_iff [OF stock_tablesD(1) [OF tables], of s s'] by (auto simp: db'(1))
  qed
  have "sorted_wrt after_in_order (map (\<lambda>t. (tr_item t, tr_version t)) (transitions db'))"
    using stock_tablesD(4) [OF tables] old t(1,2)
    by (fastforce simp: db'(2) sorted_wrt_append after_in_order_def)
  moreover have "transition_checks u \<and> (\<exists>l m. moves u l m)" if "u \<in> set (transitions db')" for u
    using that stock_tablesD(5,6) [OF tables, of u] t(4,6) by (auto simp: db'(2))
  moreover have "distinct (map tr_id (transitions db'))"
    using stock_tablesD(3) [OF tables] t(5) by (simp add: db'(2))
  moreover have "\<exists>u \<in> set (transitions db'). tr_published_at u \<noteq> None \<and>
      take 36 (ad_delta_id a) = str_uuid (tr_id u)" if "a \<in> set (applied_deltas db')" for a
  proof -
    have "a \<in> set (applied_deltas db)" using that by (simp add: db'(3))
    from stock_tablesD(8) [OF tables this] show ?thesis by (auto simp: db'(2))
  qed
  ultimately have "stock_tables db'"
    using covered distinct_put_by [OF stock_tablesD(1) [OF tables], of s'] stock_tablesD(2) [OF tables]
    unfolding stock_tables_def db'(1,4) by blast
  moreover have "projected b db' + outstanding b db' = item_count b db'" for b
  proof -
    have "owed t" using t(3) by (simp add: owed_def)
    then have "outstanding b db' = outstanding b db + change (loc k db) (it_bucket s') b"
      using movesD(2) [OF t(6), of b] by (simp add: outstanding_def db'(2) owed_delta_def)
    then show ?thesis
      using stock_invD(2) [OF inv, of b] item_count_put [OF stock_tablesD(1) [OF tables] db'(1), of b]
      by (simp add: item(1) projected_def db'(4))
  qed
  moreover have "\<exists>l. chain l (pend j db') (loc j db')" if "\<not> degraded (fst j) db'" for j
  proof -
    have "\<not> degraded (fst j) db" using that by (auto simp: degraded_def db'(2))
    then obtain l where l: "chain l (pend j db) (loc j db)" using stock_invD(3) [OF inv] by blast
    show ?thesis
    proof (cases "j = k")
      case True
      then have "pend j db' = pend j db @ [t]" using t(1,3) by (simp add: pend_def db'(2))
      then show ?thesis
        using chain_snoc [OF l] t(6) True item(1) loc_put [OF db'(1), of j] by auto
    next
      case False
      then have "pend j db' = pend j db" using t(1) by (simp add: pend_def db'(2))
      then show ?thesis using l False item(1) loc_put [OF db'(1), of j] by auto
    qed
  qed
  ultimately show ?thesis unfolding stock_inv_def by blast
qed

subsection \<open>Publishing\<close>

lemma bex_update_where:
  "(\<And>r. Q (f r) = Q r) \<Longrightarrow> (\<exists>r \<in> set (update_where P f rows). Q r) = (\<exists>r \<in> set rows. Q r)"
  by (induction rows) auto

lemma fresh_deltas:
  assumes "stock_tables db" "t \<in> set (transitions db)" "tr_published_at t = None"
  shows "not_yet_applied db (unique_by_id (transition_deltas t)) = transition_deltas t"
proof -
  obtain l m where moves: "moves t l m" using stock_tablesD(6) [OF assms(1,2)] by blast
  have "distinct (map dl_delta_id (transition_deltas t))"
    using validated_transition_InrD(2) [OF movesD(1) [OF moves]] .
  moreover have "dl_delta_id d \<notin> ad_delta_id ` set (applied_deltas db)"
    if d: "d \<in> set (transition_deltas t)" for d
  proof
    assume "dl_delta_id d \<in> ad_delta_id ` set (applied_deltas db)"
    then obtain a where a: "a \<in> set (applied_deltas db)" "ad_delta_id a = dl_delta_id d" by auto
    then obtain u where u: "u \<in> set (transitions db)" "tr_published_at u \<noteq> None"
      "take 36 (dl_delta_id d) = str_uuid (tr_id u)"
      using stock_tablesD(8) [OF assms(1) a(1)] by auto
    then have "tr_id u = tr_id t" using movesD(3) [OF moves d] by simp
    then have "u = t"
      using u(1) assms(2) stock_tablesD(3) [OF assms(1)] by (metis get_by_eq_Some_iff option.inject)
    with u(2) assms(3) show False by simp
  qed
  ultimately show ?thesis
    by (simp add: unique_by_id_distinct not_yet_applied_def filter_True)
qed

lemma earliest_pending_head:
  assumes "stock_tables db" "earliest_pending tenant db t" "t \<in> set (transitions db)"
  obtains rest where "pend (tr_item t) db = t # rest"
proof -
  have "t \<in> set (pend (tr_item t) db)"
    using assms(2,3) by (simp add: pend_def earliest_pending_def)
  then obtain u rest where p: "pend (tr_item t) db = u # rest" by (cases "pend (tr_item t) db") auto
  have "sorted_wrt (\<lambda>t u. after_in_order (tr_item t, tr_version t) (tr_item u, tr_version u)) (transitions db)"
    using stock_tablesD(4) [OF assms(1)] by (simp add: sorted_wrt_map)
  then have "sorted_wrt (\<lambda>t u. after_in_order (tr_item t, tr_version t) (tr_item u, tr_version u))
      (pend (tr_item t) db)"
    unfolding pend_def by (rule sorted_wrt_filter)
  moreover have "tr_item v = tr_item t \<and> tr_pending v \<and> v \<in> set (transitions db)"
    if "v \<in> set (pend (tr_item t) db)" for v
    using that by (simp add: pend_def)
  ultimately have "tr_version u < tr_version v" if "v \<in> set rest" for v
    using that p by (auto simp: after_in_order_def)
  moreover have "tr_version t \<le> tr_version u"
    using p assms(2) \<open>\<And>v. v \<in> set (pend (tr_item t) db) \<Longrightarrow> _\<close> [of u]
    by (auto simp: earliest_pending_def list_all_iff tr_item_def)
  moreover have "t = u \<or> t \<in> set rest" using \<open>t \<in> set (pend (tr_item t) db)\<close> p by simp
  ultimately have "t = u" by fastforce
  with p that show thesis by blast
qed

lemma stock_inv_published:
  assumes inv: "stock_inv db" and t: "t \<in> set (transitions db)" "earliest_pending tenant db t"
    and applied: "apply_inventory_deltas (transition_deltas t) db = Inr (n, db1)"
    and db': "db' = update_transition (tr_id t) (mark_transition_published now) db1"
  shows "stock_inv db'"
proof -
  note tables = stock_invD(1) [OF inv]
  let ?f = "mark_transition_published now" and ?P = "\<lambda>u. tr_id u = tr_id t"
  have pending: "tr_pending t" using t(2) by (simp add: earliest_pending_def)
  have new: "not_yet_applied db (unique_by_id (transition_deltas t)) = transition_deltas t"
    using pending by (intro fresh_deltas [OF tables t(1)]) (simp add: tr_pending_def)
  note effect = apply_inventory_deltas_InrD [OF applied stock_tablesD(2) [OF tables], unfolded new]
  obtain ps where ps: "distinct (map pj_bucket ps)"
    and db1: "db1 = db\<lparr>applied_deltas := applied_deltas db @ map applied_row (transition_deltas t),
      projections := ps\<rparr>" using effect(2) by blast
  have only: "u = t" if "u \<in> set (transitions db)" "?P u" for u
    using that t(1) stock_tablesD(3) [OF tables] by (metis get_by_eq_Some_iff option.inject)
  have ident: "tr_ident (?f u) = tr_ident u" for u
    by (simp add: tr_ident_def mark_transition_published_def)
  have rows: "transitions db' = update_where ?P ?f (transitions db)" "item_states db' = item_states db"
    by (simp_all add: db' update_transition_def db1)
  obtain l m where moves: "moves t l m" using stock_tablesD(6) [OF tables t(1)] by blast
  have checks: "transition_checks (?f u)" if u: "u \<in> set (transitions db)" "?P u" for u
    using stock_tablesD(5) [OF tables t(1)] pending only [OF u]
    by (simp add: transition_checks_def mark_transition_published_def tr_pending_def)
  have "stock_tables db'"
  proof (rule stock_tables_update [OF tables ident checks _ _ rows])
    fix a assume "a \<in> set (applied_deltas db')"
    then have "a \<in> set (applied_deltas db) \<or> (\<exists>d \<in> set (transition_deltas t). a = applied_row d)"
      by (auto simp: db' update_transition_def db1)
    then show "a \<in> set (applied_deltas db) \<or> (\<exists>u \<in> set (transitions db). ?P u \<and>
        tr_published_at (?f u) \<noteq> None \<and> take 36 (ad_delta_id a) = str_uuid (tr_id u))"
      using t(1) movesD(3) [OF moves] by (auto simp: applied_row_def mark_transition_published_def)
  qed (use ps in \<open>simp_all add: db' update_transition_def db1 mark_transition_published_def\<close>)
  moreover have "projected b db' + outstanding b db' = item_count b db'" for b
  proof -
    have "outstanding b db' = outstanding b db + owed_delta b (?f t) - owed_delta b t"
      unfolding outstanding_def rows by (rule sum_list_update_where [OF stock_tablesD(3) [OF tables] t(1)])
    moreover have "owed_delta b (?f t) = 0"
      using stock_tablesD(5) [OF tables t(1)] pending
      by (simp add: owed_delta_def owed_def mark_transition_published_def tr_pending_def
          tr_unreconciled_def)
    moreover have "owed_delta b t = delta_sum b (transition_deltas t)"
      using pending by (simp add: owed_delta_def owed_def)
    moreover have "projected b db' = projected b db + delta_sum b (transition_deltas t)"
      using effect(3) [of b] by (simp add: projected_def db' update_transition_def)
    ultimately show ?thesis using stock_invD(2) [OF inv, of b] by (simp add: item_count_def rows)
  qed
  moreover have "\<exists>l. chain l (pend j db') (loc j db')" if calm: "\<not> degraded (fst j) db'" for j
  proof -
    have "degraded (fst j) db' = degraded (fst j) db"
      unfolding degraded_def rows
      by (rule bex_update_where) (simp add: tr_unreconciled_def mark_transition_published_def)
    then obtain l where l: "chain l (pend j db) (loc j db)" using calm stock_invD(3) [OF inv] by blast
    have loc: "loc j db' = loc j db" by (simp add: loc_def rows)
    have "filter (\<lambda>u. tr_item u = j \<and> tr_pending u) (update_where ?P ?f ts)
        = filter (\<lambda>u. u \<noteq> t) (filter (\<lambda>u. tr_item u = j \<and> tr_pending u) ts)"
      if "set ts \<subseteq> set (transitions db)" for ts
      using that
    proof (induction ts)
      case (Cons u ts)
      then have "?P u \<longleftrightarrow> u = t" using only by auto
      moreover have "\<not> tr_pending (?f t)" by (simp add: tr_pending_def mark_transition_published_def)
      ultimately show ?case using Cons by simp
    qed simp
    then have pend': "pend j db' = filter (\<lambda>u. u \<noteq> t) (pend j db)"
      by (simp add: pend_def rows)
    show ?thesis
    proof (cases "j = tr_item t")
      case True
      obtain rest where rest: "pend j db = t # rest"
        using earliest_pending_head [OF tables t(2,1)] True by blast
      have "distinct (pend j db)"
        using stock_tablesD(3) [OF tables] by (simp add: pend_def distinct_map)
      then have "pend j db' = rest" by (auto simp: pend' rest intro!: filter_True)
      then show ?thesis using l rest loc by auto
    next
      case False
      then have "pend j db' = pend j db" unfolding pend' by (intro filter_True) (auto simp: pend_def)
      then show ?thesis using l loc by auto
    qed
  qed
  ultimately show ?thesis unfolding stock_inv_def by blast
qed

subsection \<open>Rebuilding\<close>

lemma moves_tenant:
  assumes "moves t l m" "fst b \<noteq> tr_tenant t"
  shows "delta_sum b (transition_deltas t) = 0"
  using validated_transition_InrD(1) [OF movesD(1) [OF assms(1)]] assms(2)
  by (intro delta_sum_other_tenant [where tenant = "tr_tenant t"]) auto

lemma pending_for_iff:
  "pending_for tenant ts \<longleftrightarrow> (\<exists>t \<in> set ts. tr_tenant t = tenant \<and> tr_pending t)"
  by (simp add: pending_for_def list_ex_iff)

lemma sum_list_zero: "(\<And>x. x \<in> set xs \<Longrightarrow> g x = 0) \<Longrightarrow> sum_list (map g xs) = (0 :: int)"
  by (induction xs) auto

lemma stock_inv_rebuilt:
  assumes inv: "stock_inv db"
    and rebuilt: "rebuild_inventory_projection tenant arrived now db = Inr (n, db')"
  shows "stock_inv db'" "\<not> degraded tenant db'"
proof -
  note tables = stock_invD(1) [OF inv]
  let ?P = "\<lambda>t. tr_tenant t = tenant \<and> tr_unreconciled t"
  let ?f = "\<lambda>t. t\<lparr>tr_reconciled_at := Some now\<rparr>"
  have idle: "\<not> tr_pending t" if "t \<in> set (transitions db)" "tr_tenant t = tenant" for t
    using rebuild_InrD(1) [OF rebuilt] that by (auto simp: pending_for_iff)
  obtain ps cs where db': "db' = db\<lparr>projections := ps, transitions := update_where ?P ?f (transitions db),
      connectivity_rows := cs\<rparr>"
    using rebuild_InrD(2) [OF rebuilt] by blast
  then have rows: "transitions db' = update_where ?P ?f (transitions db)" "item_states db' = item_states db"
    "applied_deltas db' = applied_deltas db" by simp_all
  have ident: "tr_ident (?f t) = tr_ident t" for t by (simp add: tr_ident_def)
  note projected = rebuild_projected [OF rebuilt stock_tablesD(2) [OF tables]]
  have "stock_tables db'"
  proof (rule stock_tables_update [OF tables ident _ _ _ rows(1,2) projected(2)])
    show "transition_checks (?f t)" if "t \<in> set (transitions db)" "?P t" for t
      using stock_tablesD(5) [OF tables that(1)] that(2)
      by (auto simp: transition_checks_def tr_unreconciled_def)
  qed (simp_all add: rows)
  moreover have "projected b db' + outstanding b db' = item_count b db'" for b
  proof (cases "fst b = tenant")
    case True
    have "owed_delta b t' = 0" if t': "t' \<in> set (transitions db')" for t'
    proof -
      obtain t where t: "t \<in> set (transitions db)" "?P t \<and> t' = ?f t \<or> \<not> ?P t \<and> t' = t"
        using t' unfolding rows(1) in_update_where_iff by blast
      obtain l m where moves: "moves t l m" using stock_tablesD(6) [OF tables t(1)] by blast
      have same: "transition_deltas t' = transition_deltas t"
        using t(2) tr_ident_eqD(4) [OF ident] by auto
      show ?thesis
      proof (cases "tr_tenant t = tenant")
        case True
        then have "\<not> owed t'" using t(2) idle [OF t(1)]
          by (auto simp: owed_def tr_unreconciled_def tr_pending_def)
        then show ?thesis by (simp add: owed_delta_def)
      next
        case False
        then show ?thesis using moves_tenant [OF moves, of b] True same by (simp add: owed_delta_def)
      qed
    qed
    then have "outstanding b db' = 0" unfolding outstanding_def by (rule sum_list_zero)
    then show ?thesis using projected(1) [of b] True by (simp add: item_count_def rows)
  next
    case False
    have "owed_delta b (?f t) = owed_delta b t" if t: "t \<in> set (transitions db)" "?P t" for t
    proof -
      obtain l m where moves: "moves t l m" using stock_tablesD(6) [OF tables t(1)] by blast
      have "delta_sum b (transition_deltas t) = 0" using moves_tenant [OF moves] False t(2) by auto
      then show ?thesis using tr_ident_eqD(4) [OF ident, of t] by (simp add: owed_delta_def)
    qed
    then have "outstanding b db' = outstanding b db"
      unfolding outstanding_def rows by (intro sum_update_same) auto
    then show ?thesis using stock_invD(2) [OF inv, of b] projected(1) [of b] False
      by (simp add: item_count_def rows)
  qed
  moreover show calm: "\<not> degraded tenant db'"
    unfolding degraded_def rows(1) bex_simps set_update_where by (auto simp: tr_unreconciled_def)
  have "\<exists>l. chain l (pend k db') (loc k db')" if k: "\<not> degraded (fst k) db'" for k
  proof (cases "fst k = tenant")
    case True
    have "\<not> (tr_item u = k \<and> tr_pending u)" if u: "u \<in> set (transitions db')" for u
    proof -
      obtain t where t: "t \<in> set (transitions db)" "?P t \<and> u = ?f t \<or> \<not> ?P t \<and> u = t"
        using u unfolding rows(1) in_update_where_iff by blast
      then have "tr_tenant u = tr_tenant t" "tr_pending u = tr_pending t"
        by (auto simp: tr_pending_def)
      then show ?thesis using idle [OF t(1)] True by (auto simp: tr_item_def)
    qed
    then have "pend k db' = []" by (simp add: pend_def filter_empty_conv)
    then show ?thesis by simp
  next
    case False
    have "degraded (fst k) db' = degraded (fst k) db"
      unfolding degraded_def rows(1) using False
      by (force simp: in_update_where_iff)
    then obtain l where l: "chain l (pend k db) (loc k db)" using k stock_invD(3) [OF inv] by blast
    have "pend k db' = pend k db"
      unfolding pend_def rows(1) using False by (intro filter_update_where) (auto simp: tr_item_def)
    then show ?thesis using l by (auto simp: loc_def rows)
  qed
  ultimately show "stock_inv db'" unfolding stock_inv_def by blast
qed

subsection \<open>Progress\<close>

text \<open>Sums over transitions, grouped by the item they belong to.\<close>

lemma sum_list_by_key:
  fixes g :: "'t \<Rightarrow> int"
  assumes "distinct (map key ss)" "\<And>t. t \<in> set ts \<Longrightarrow> k t \<in> key ` set ss"
  shows "sum_list (map g ts) = (\<Sum>s\<leftarrow>ss. sum_list (map g (filter (\<lambda>t. k t = key s) ts)))"
  using assms(2)
proof (induction ts)
  case (Cons t ts)
  have "(\<Sum>s\<leftarrow>ss. if k t = key s then g t else 0) = g t"
  proof -
    obtain s where s: "s \<in> set ss" "key s = k t" using Cons.prems [of t] by auto
    have "(\<Sum>s'\<leftarrow>ss'. if k t = key s' then g t else 0) = (if s \<in> set ss' then g t else 0)"
      if "set ss' \<subseteq> set ss" "distinct (map key ss')" for ss'
      using that
    proof (induction ss')
      case (Cons a ss')
      then have "k t = key a \<longleftrightarrow> a = s"
        using s inj_onD [OF distinct_map [THEN iffD1, OF assms(1), THEN conjunct2], of a s] by auto
      then show ?case using Cons s(2) by (auto simp: image_iff)
    qed simp
    then show ?thesis using s(1) assms(1) by simp
  qed
  moreover have "(\<Sum>s\<leftarrow>ss. sum_list (map g (filter (\<lambda>t. k t = key s) (t # ts)))) =
      (\<Sum>s\<leftarrow>ss. if k t = key s then g t else 0) + (\<Sum>s\<leftarrow>ss. sum_list (map g (filter (\<lambda>t. k t = key s) ts)))"
    unfolding sum_list_addf [symmetric] by (intro arg_cong [of _ _ sum_list] map_cong) auto
  ultimately show ?case using Cons by simp
qed simp

lemma length_filter_sum: "int (length (filter P xs)) = (\<Sum>x\<leftarrow>xs. of_bool (P x))"
  by (induction xs) auto

text \<open>The share of one item in a bucket: where it is, less what its transitions still owe.\<close>

definition share :: "bucket \<Rightarrow> db \<Rightarrow> item_state \<Rightarrow> int" where
  "share b db s = of_bool (it_bucket s = Some b) -
     sum_list (map (owed_delta b) (filter (\<lambda>t. tr_item t = it_key s) (transitions db)))"

lemma projected_shares:
  assumes "stock_inv db"
  shows "projected b db = (\<Sum>s\<leftarrow>item_states db. share b db s)"
proof -
  note tables = stock_invD(1) [OF assms]
  have "outstanding b db = (\<Sum>s\<leftarrow>item_states db.
      sum_list (map (owed_delta b) (filter (\<lambda>t. tr_item t = it_key s) (transitions db))))"
    unfolding outstanding_def
  proof (rule sum_list_by_key [OF stock_tablesD(1) [OF tables]])
    fix t assume "t \<in> set (transitions db)"
    from stock_tablesD(7) [OF tables this] show "tr_item t \<in> it_key ` set (item_states db)" by force
  qed
  moreover have "item_count b db = (\<Sum>s\<leftarrow>item_states db. of_bool (it_bucket s = Some b))"
    by (simp add: item_count_def length_filter_sum)
  ultimately show ?thesis
    using stock_invD(2) [OF assms, of b] by (simp add: share_def [abs_def] sum_list_subtractf)
qed

lemma share_chain:
  assumes inv: "stock_inv db" and s: "s \<in> set (item_states db)"
    and calm: "\<not> degraded (it_tenant s) db" and l: "chain l (pend (it_key s) db) (loc (it_key s) db)"
  shows "share b db s = of_bool (l = Some b)"
proof -
  note tables = stock_invD(1) [OF inv]
  have "get_by it_key (it_key s) (item_states db) = Some s"
    using get_by_eq_Some_iff [OF stock_tablesD(1) [OF tables]] s by simp
  then have here: "loc (it_key s) db = it_bucket s" by (simp add: loc_def)
  have "sum_list (map (owed_delta b) (filter (\<lambda>t. tr_item t = it_key s) ts))
      = sum_list (map (\<lambda>t. delta_sum b (transition_deltas t))
          (filter (\<lambda>t. tr_item t = it_key s \<and> tr_pending t) ts))"
    if "set ts \<subseteq> set (transitions db)" for ts
    using that
  proof (induction ts)
    case (Cons t ts)
    have "\<not> tr_unreconciled t" if "tr_item t = it_key s"
      using that calm Cons.prems by (auto simp: degraded_def tr_item_def it_key_def)
    then show ?case using Cons by (auto simp: owed_delta_def owed_def)
  qed simp
  then have "share b db s = of_bool (it_bucket s = Some b) -
      sum_list (map (\<lambda>t. delta_sum b (transition_deltas t)) (pend (it_key s) db))"
    by (simp add: share_def pend_def)
  also have "\<dots> = of_bool (l = Some b)"
    using chain_sum [OF l, of b] by (simp add: change_def here)
  finally show ?thesis .
qed

lemma share_other_tenant:
  assumes inv: "stock_inv db" and s: "s \<in> set (item_states db)" "it_tenant s \<noteq> fst b"
  shows "share b db s = 0"
proof -
  have "owed_delta b t = 0" if t: "t \<in> set (transitions db)" "tr_item t = it_key s" for t
  proof -
    obtain l m where "moves t l m" using stock_tablesD(6) [OF stock_invD(1) [OF inv] t(1)] by blast
    then show ?thesis using moves_tenant [of t l m b] t(2) s(2)
      by (auto simp: owed_delta_def tr_item_def it_key_def)
  qed
  then have "sum_list (map (owed_delta b) (filter (\<lambda>t. tr_item t = it_key s) (transitions db))) = 0"
    by (intro sum_list_zero) auto
  moreover have "it_bucket s \<noteq> Some b" using s(2) it_bucket_tenant [of s b] by auto
  ultimately show ?thesis by (simp add: share_def)
qed

lemma sum_list_plus_nonneg:
  fixes g :: "'a \<Rightarrow> int"
  assumes "\<And>x. x \<in> set xs \<Longrightarrow> 0 \<le> g x" "a \<in> set xs" "0 \<le> g a + d"
  shows "0 \<le> sum_list (map g xs) + d"
  using assms
proof (induction xs)
  case (Cons x xs)
  show ?case
  proof (cases "a = x")
    case True
    have "0 \<le> sum_list (map g xs)" using Cons.prems(1) by (intro sum_list_nonneg) auto
    then show ?thesis using Cons.prems(3) True by simp
  next
    case False
    then have "0 \<le> sum_list (map g xs) + d" using Cons by auto
    then show ?thesis using Cons.prems(1) [of x] by simp
  qed
qed simp

text \<open>While a tenant is not degraded, the earliest pending transition of an item always applies.\<close>

lemma earliest_applies:
  assumes inv: "stock_inv db" and calm: "\<not> degraded tenant db"
    and t: "t \<in> set (transitions db)" "earliest_pending tenant db t"
  shows "validated_transition_deltas t = Inr (transition_deltas t)"
    "\<exists>n db1. apply_inventory_deltas (transition_deltas t) db = Inr (n, db1)"
proof -
  note tables = stock_invD(1) [OF inv]
  have tenant: "tr_tenant t = tenant" and pending: "tr_pending t"
    using t(2) by (simp_all add: earliest_pending_def)
  obtain l m where moves: "moves t l m" using stock_tablesD(6) [OF tables t(1)] by blast
  show valid: "validated_transition_deltas t = Inr (transition_deltas t)"
    using movesD(1) [OF moves] .
  have new: "not_yet_applied db (unique_by_id (transition_deltas t)) = transition_deltas t"
    using pending by (intro fresh_deltas [OF tables t(1)]) (simp add: tr_pending_def)
  obtain s0 where s0: "s0 \<in> set (item_states db)" "it_key s0 = tr_item t"
    using stock_tablesD(7) [OF tables t(1)] by blast
  obtain rest where rest: "pend (tr_item t) db = t # rest"
    using earliest_pending_head [OF tables t(2,1)] by blast
  have k: "fst (tr_item t) = tenant" "it_tenant s0 = tenant"
    using tenant s0(2) by (simp_all add: tr_item_def it_key_def)
  obtain base where base: "chain base (t # rest) (loc (tr_item t) db)"
    using stock_invD(3) [OF inv, of "tr_item t"] calm k(1) rest by auto
  then obtain n where n: "moves t base n" by auto
  have bounded: "0 \<le> projected b db + delta_sum b (transition_deltas t)" if b: "fst b = tenant" for b
  proof -
    have "0 \<le> share b db s" if s: "s \<in> set (item_states db)" for s
    proof (cases "it_tenant s = tenant")
      case True
      then obtain l where "chain l (pend (it_key s) db) (loc (it_key s) db)"
        using stock_invD(3) [OF inv, of "it_key s"] calm by (auto simp: it_key_def)
      then show ?thesis using share_chain [OF inv s] True calm by simp
    next
      case False
      then show ?thesis using share_other_tenant [OF inv s, of b] b by simp
    qed
    moreover have "0 \<le> share b db s0 + delta_sum b (transition_deltas t)"
      using share_chain [OF inv s0(1), of base b] calm k(2) base rest s0(2) movesD(2) [OF n, of b]
      by (simp add: change_def)
    ultimately have "0 \<le> sum_list (map (share b db) (item_states db)) + delta_sum b (transition_deltas t)"
      using s0(1) by (intro sum_list_plus_nonneg) auto
    then show ?thesis by (simp only: projected_shares [OF inv])
  qed
  show "\<exists>n db1. apply_inventory_deltas (transition_deltas t) db = Inr (n, db1)"
    using validated_transition_InrD(1) [OF valid] stock_tablesD(2) [OF tables] bounded
    by (intro apply_inventory_deltas_ok [where tenant = tenant]) (simp_all add: new tenant)
qed

end
