(* ===== verification/Pipeline.thy ===== *)
theory Pipeline
  imports Stock
begin

text \<open>
  The streaming pipeline as a system of steps: worker ticks, authoritative removals, projection
  rebuilds, worker restarts and changes of the registry and the catalog.  Its invariant joins the
  stock invariant, the batch accounting, the bounds of the evidence window and the foreign key that
  ties a zone to its store.
\<close>

subsection \<open>The evidence window during processing\<close>

definition remembered :: "rfid_event \<Rightarrow> recent_state \<Rightarrow> recent_state" where
  "remembered event recent =
     snd (remember_event event
       (if ev_replayed_from event \<noteq> None then forget_event event recent else recent))"

lemma remembered_facts:
  assumes "recent_wf recent"
  shows "recent_wf (remembered event recent)" "touched_only event recent (remembered event recent)"
    "windows (remembered event recent) = windows recent"
  using assms by (auto simp: remembered_def remember_touched forget_remember_touched
      intro: remember_event_wf forget_event_wf)

lemma process_located_recent:
  "fst (process_located u5 now event resolved binding start recent settings db) = recent \<or>
   fst (process_located u5 now event resolved binding start recent settings db)
     = snd (add_observation resolved (rfid_move_confirmation_window_seconds settings) start recent)"
  by (auto simp: process_located_def Let_def split: prod.splits)

lemma process_observation_recent:
  assumes "process_observation u5 qid now event recent settings db = (recent', r)"
  obtains (same) "recent' = remembered event recent"
  | (added) a w start where "resolve_effective_assignment event db = Inr a"
      "recent' = snd (add_observation (event\<lparr>ev_store := as_store a, ev_zone := as_zone a\<rparr>) w start
                   (remembered event recent))"
proof -
  obtain is_new recent1 where rem: "remember_event event
      (if ev_replayed_from event \<noteq> None then forget_event event recent else recent) = (is_new, recent1)"
    by (cases "remember_event event
      (if ev_replayed_from event \<noteq> None then forget_event event recent else recent)")
  have recent1: "recent1 = remembered event recent" by (simp only: remembered_def rem snd_conv)
  note unfolded = assms [unfolded process_observation_def rem prod.case]
  consider "recent' = recent1"
    | a binding start conns where "resolve_effective_assignment event db = Inr a"
      "recent' = fst (process_located u5 now event (event\<lparr>ev_store := as_store a, ev_zone := as_zone a\<rparr>)
         binding start recent1 settings (db\<lparr>connectivity_rows := conns\<rparr>))"
  proof (cases "resolve_effective_assignment event db")
    case (Inl reason)
    then show thesis using unfolded that(1) by (auto split: if_splits)
  next
    case (Inr a)
    define conns where "conns = update_connectivity (connectivity_rows db)
        (event\<lparr>ev_store := as_store a, ev_zone := as_zone a\<rparr>) settings"
    obtain found start where bf:
      "binding_for_event event now (db\<lparr>connectivity_rows := conns\<rparr>) = (found, start)"
      by (cases "binding_for_event event now (db\<lparr>connectivity_rows := conns\<rparr>)")
    show thesis
    proof (cases found)
      case None
      then show thesis using unfolded Inr bf that(1)
        by (auto simp: Let_def conns_def [symmetric] split: if_splits)
    next
      case (Some binding)
      have "recent' = recent1 \<or> process_located u5 now event
          (event\<lparr>ev_store := as_store a, ev_zone := as_zone a\<rparr>) binding start recent1 settings
          (db\<lparr>connectivity_rows := conns\<rparr>) = (recent', r)"
        using unfolded Inr bf Some by (auto simp: Let_def conns_def [symmetric] split: if_splits)
      then show thesis using that(1) that(2) [OF Inr, of binding start conns] by (metis fst_conv)
    qed
  qed
  then show thesis
  proof cases
    case (2 a binding start conns)
    then show thesis
      using same added [OF 2(1)] recent1 process_located_recent
      by metis
  qed (use same recent1 in blast)
qed

subsection \<open>Zones and stores\<close>

text \<open>\<open>zs\<close> gives the store a zone belongs to, as the composite foreign keys of the tables enforce it.\<close>

definition window_located :: "(uuid \<Rightarrow> uuid) \<Rightarrow> recent_state \<Rightarrow> bool" where
  "window_located zs recent \<longleftrightarrow>
     (\<forall>k w e. od_get (windows recent) k = Some w \<longrightarrow> e \<in> set w \<longrightarrow> ev_store e = zs (ev_zone e))"

definition rows_located :: "(uuid \<Rightarrow> uuid) \<Rightarrow> db \<Rightarrow> bool" where
  "rows_located zs db \<longleftrightarrow>
     (\<forall>a \<in> set (assignments db). as_store a = zs (as_zone a)) \<and>
     (\<forall>s \<in> set (item_states db). \<forall>z. it_zone s = Some z \<longrightarrow> it_store s = Some (zs z))"

lemma resolve_assignment_in:
  "resolve_effective_assignment event db = Inr a \<Longrightarrow> a \<in> set (assignments db)"
  by (auto simp: resolve_effective_assignment_def dest!: best_by_in split: option.splits if_splits)

lemma window_located_add:
  assumes "recent_wf recent" "window_located zs recent" "ev_store e = zs (ev_zone e)"
  shows "window_located zs (snd (add_observation e w start recent))"
    "x \<in> set (fst (add_observation e w start recent)) \<Longrightarrow> ev_store x = zs (ev_zone x)"
proof -
  let ?old = "case od_get (windows recent) (window_key e) of None \<Rightarrow> [] | Some es \<Rightarrow> es"
  have old: "ev_store x = zs (ev_zone x)" if "x \<in> set ?old" for x
  proof (cases "od_get (windows recent) (window_key e)")
    case (Some es)
    then show ?thesis using that assms(2) unfolding window_located_def by (metis option.simps(5))
  qed (use that in simp)
  have kept: "ev_store x = zs (ev_zone x)" if "x \<in> set (fst (add_observation e w start recent))" for x
    using that retained_subset [of w start "?old @ [e]"] old assms(3)
    by (auto simp: add_observation_fst)
  then show "x \<in> set (fst (add_observation e w start recent)) \<Longrightarrow> ev_store x = zs (ev_zone x)" .
  have "od_get (windows (snd (add_observation e w start recent))) k = Some v \<Longrightarrow>
      v = fst (add_observation e w start recent) \<or> od_get (windows recent) k = Some v" for k v
  proof -
    assume v: "od_get (windows (snd (add_observation e w start recent))) k = Some v"
    let ?kept = "fst (add_observation e w start recent)"
    let ?moved = "od_move_last (window_key e) (if window_key e \<in> od_keys (windows recent)
        then windows recent else od_set (window_key e) [] (windows recent))"
    let ?stored = "od_set (window_key e) ?kept ?moved"
    have wf: "od_wf ?stored" using assms(1) by (auto simp: recent_wf_def intro!: wf_intros)
    have "windows (snd (add_observation e w start recent)) = ?stored \<or>
        windows (snd (add_observation e w start recent)) = od_drop_oldest ?stored"
      by (auto simp: add_observation_def Let_def)
    then have "od_get ?stored k = Some v"
      using v od_get_drop_oldest [OF wf, of k] by (auto split: if_splits)
    then show ?thesis by (auto simp: od_simps split: if_splits)
  qed
  then show "window_located zs (snd (add_observation e w start recent))"
    using kept assms(2) unfolding window_located_def by blast
qed

lemma length_od_keys:
  fixes d :: "('k, 'v) odict" and d' :: "('k, 'w) odict"
  shows "od_wf d \<Longrightarrow> od_wf d' \<Longrightarrow> od_keys d = od_keys d' \<Longrightarrow> length d = length d'"
  by (metis length_map od_keys_def od_wf_def distinct_card set_map)

lemma same_evidence_wf:
  assumes "recent_wf st" "same_evidence st' st" "od_wf (windows st')" "od_wf (event_ids st')"
  shows "recent_wf st'"
proof -
  have "od_keys (windows st') = od_keys (windows st)"
    using assms(2) unfolding same_evidence_def by (intro od_keys_iff_get) metis
  then have "length (windows st') = length (windows st)"
    using assms(1,3) by (intro length_od_keys) (simp_all add: recent_wf_def)
  moreover have "length (event_ids st') = length (event_ids st)"
    using assms(1,2,4) by (intro length_od_keys) (simp_all add: recent_wf_def same_evidence_def)
  ultimately show ?thesis using assms by (simp add: recent_wf_def same_evidence_def)
qed

lemma restore_od_wf:
  assumes "recent_wf st'"
  shows "od_wf (windows (restore_checkpoint cp st'))" "od_wf (event_ids (restore_checkpoint cp st'))"
  using assms
  by (auto simp: recent_wf_def restore_checkpoint_def restore_windows_def restore_event_ids_def Let_def
      intro!: wf_intros split: option.splits)

lemma window_located_cong:
  "same_evidence st' st \<Longrightarrow> window_located zs st' = window_located zs st"
  unfolding same_evidence_def window_located_def by metis

lemma process_observation_evidence:
  assumes "process_observation u5 qid now event recent settings db = (recent', r)" "recent_wf recent"
  shows "recent_wf recent'" "touched_only event recent recent'"
    "window_located zs recent \<Longrightarrow> rows_located zs db \<Longrightarrow> window_located zs recent'"
    "same_evidence (restore_checkpoint (take_checkpoint event recent) recent') recent"
    "recent_wf (restore_checkpoint (take_checkpoint event recent) recent')"
proof -
  note rem = remembered_facts [OF assms(2), of event]
  have rem_located: "window_located zs recent \<Longrightarrow> window_located zs (remembered event recent)"
    by (simp add: window_located_def rem(3))
  have "recent_wf recent' \<and> touched_only event recent recent' \<and>
      (window_located zs recent \<longrightarrow> rows_located zs db \<longrightarrow> window_located zs recent')"
    using assms(1)
  proof (cases rule: process_observation_recent)
    case same
    then show ?thesis using rem rem_located by simp
  next
    case (added a w start)
    let ?e = "event\<lparr>ev_store := as_store a, ev_zone := as_zone a\<rparr>"
    have "window_key ?e = window_key event" by (simp add: window_key_def)
    then have "touched_only event recent recent'"
      unfolding added(2) by (intro add_touched [OF assms(2) rem(2,3) _ rem(1)])
    moreover have "recent_wf recent'" unfolding added(2) by (rule add_observation_wf [OF rem(1)])
    moreover have "window_located zs recent'" if "window_located zs recent" "rows_located zs db"
      unfolding added(2) using that resolve_assignment_in [OF added(1)] rem_located
      by (intro window_located_add(1) [OF rem(1)]) (auto simp: rows_located_def)
    ultimately show ?thesis by blast
  qed
  then show wf: "recent_wf recent'" and touched: "touched_only event recent recent'"
    and "window_located zs recent \<Longrightarrow> rows_located zs db \<Longrightarrow> window_located zs recent'" by blast+
  show same: "same_evidence (restore_checkpoint (take_checkpoint event recent) recent') recent"
    by (rule restore_touched [OF assms(2) touched])
  show "recent_wf (restore_checkpoint (take_checkpoint event recent) recent')"
    by (rule same_evidence_wf [OF assms(2) same restore_od_wf [OF wf]])
qed

subsection \<open>The invariant\<close>

definition pipeline_inv :: "(uuid \<Rightarrow> uuid) \<Rightarrow> recent_state \<times> db \<Rightarrow> bool" where
  "pipeline_inv zs st \<longleftrightarrow>
     recent_wf (fst st) \<and> window_located zs (fst st) \<and> rows_located zs (snd st) \<and>
     stock_inv (snd st) \<and> accounting (snd st)"

lemma rows_located_put:
  assumes "rows_located zs db" "\<And>z. it_zone s' = Some z \<Longrightarrow> it_store s' = Some (zs z)"
    "assignments db' = assignments db" "item_states db' = put_by it_key s' (item_states db)"
  shows "rows_located zs db'"
  using assms set_put_by [of it_key s' "item_states db"] by (auto simp: rows_located_def)

lemma rows_located_refreshed:
  assumes "rows_located zs db" "refreshed k (item_states db) (item_states db')"
    "assignments db' = assignments db"
  shows "rows_located zs db'"
  using assms(2) unfolding refreshed_def
proof
  assume "\<exists>s s'. get_by it_key k (item_states db) = Some s \<and> same_place s s' \<and>
      item_states db' = put_by it_key s' (item_states db)"
  then obtain s s' where s: "s \<in> set (item_states db)" "same_place s s'"
    "item_states db' = put_by it_key s' (item_states db)" by (auto dest: get_by_SomeD)
  then show ?thesis
    using assms(1) by (intro rows_located_put [OF assms(1) _ assms(3) s(3)])
      (auto simp: rows_located_def same_place_def)
qed (use assms in \<open>simp add: rows_located_def\<close>)

lemma rows_located_cong:
  "assignments db' = assignments db \<Longrightarrow> item_states db' = item_states db \<Longrightarrow>
     rows_located zs db' = rows_located zs db"
  by (simp add: rows_located_def)

definition db_inv :: "(uuid \<Rightarrow> uuid) \<Rightarrow> db \<Rightarrow> bool" where
  "db_inv zs db \<longleftrightarrow> rows_located zs db \<and> stock_inv db \<and> accounting db"

lemma db_inv_cong:
  assumes "assignments db' = assignments db" "item_states db' = item_states db"
    "transitions db' = transitions db" "applied_deltas db' = applied_deltas db"
    "projections db' = projections db" "ledgers db' = ledgers db" "batches db' = batches db"
    "batch_events db' = batch_events db"
  shows "db_inv zs db' = db_inv zs db"
  using assms by (simp add: db_inv_def rows_located_cong [of db' db] stock_inv_cong [of db' db]
      accounting_cong [of db' db])

lemma db_inv_conns [simp]: "db_inv zs (db\<lparr>connectivity_rows := conns\<rparr>) = db_inv zs db"
  by (rule db_inv_cong) simp_all

lemma db_inv_advance:
  assumes "advance_batch event rejected disp reason now db = Inr db'" "db_inv zs db"
  shows "db_inv zs db'"
  using assms advance_batch_frame [OF assms(1)]
  by (simp add: db_inv_def rows_located_cong [of db' db] stock_inv_cong [of db' db]
      advance_batch_accounting)

lemma db_inv_quarantine:
  assumes "quarantine_event event reason payload qid now db = Inr (res, db')" "db_inv zs db"
  shows "db_inv zs db'"
  using assms(1)
proof (rule quarantine_event_InrD)
  fix db1 assume adv: "advance_batch event True (Some QUARANTINED) (Some reason) now db1 = Inr db'"
    and "\<exists>qs. db1 = db\<lparr>quarantines := qs\<rparr>"
  then obtain qs where "db1 = db\<lparr>quarantines := qs\<rparr>" by blast
  then have "db_inv zs db1 = db_inv zs db" by (intro db_inv_cong) simp_all
  then show ?thesis using db_inv_advance [OF adv] assms(2) by simp
qed

lemma moved_item_facts:
  assumes "\<forall>s. before = Some s \<longrightarrow> it_key s = (ev_tenant event, ev_epc event)"
    "v = (case before of None \<Rightarrow> 1 | Some s \<Rightarrow> it_version s + 1)"
  shows "it_key (moved_item event binding decision before) = (ev_tenant event, ev_epc event)"
    "it_version (moved_item event binding decision before) = v"
    "it_bucket (moved_item event binding decision before)
       = Some (ev_tenant event, sz_store decision, bd_sku binding, sz_zone decision)"
    "it_zone (moved_item event binding decision before) = Some (sz_zone decision)"
    "it_store (moved_item event binding decision before) = Some (sz_store decision)"
  using assms by (cases before; simp add: moved_item_def Let_def it_key_def it_bucket_def)+

lemma record_transition_inv:
  assumes step: "record_transition u5 event binding decision before now db = Inr (res, db')"
    and inv: "db_inv zs db"
    and before: "before = get_by it_key (ev_tenant event, ev_epc event) (item_states db)"
      "\<And>s. before = Some s \<Longrightarrow> it_removal_event s = None \<and>
         \<not> (it_sku s = bd_sku binding \<and> it_store s = Some (sz_store decision) \<and>
            it_zone s = Some (sz_zone decision))"
    and located: "sz_store decision = zs (sz_zone decision)"
  shows "db_inv zs db'"
  using step
proof (rule record_transition_InrD)
  fix tid v ds db2
  let ?item = "moved_item event binding decision before"
  let ?t = "new_transition tid (ev_tenant event) (ev_epc event) v ds now"
  assume v: "v = (case before of None \<Rightarrow> 1 | Some s \<Rightarrow> it_version s + 1)"
    and ds: "move_deltas tid event binding decision before = Inr ds"
    and fresh: "tid \<notin> tr_id ` set (transitions db)"
    and shape: "\<exists>ts es. db2 = db\<lparr>item_states := put_by it_key ?item (item_states db),
        transitions := transitions db @ [?t], tasks := ts, evidence_rows := es\<rparr>"
    and adv: "advance_batch event False (Some PROCESSED) None now db2 = Inr db'"
  from shape have db2: "item_states db2 = put_by it_key ?item (item_states db)"
    "transitions db2 = transitions db @ [?t]" "applied_deltas db2 = applied_deltas db"
    "projections db2 = projections db" "assignments db2 = assignments db"
    "ledgers db2 = ledgers db" "batches db2 = batches db" "batch_events db2 = batch_events db"
    by auto
  have key: "it_key s = (ev_tenant event, ev_epc event)" "s \<in> set (item_states db)" if "before = Some s" for s
    using get_by_SomeD [of it_key _ "item_states db" s] that before(1) by simp_all
  have "\<forall>s. before = Some s \<longrightarrow> it_key s = (ev_tenant event, ev_epc event)" using key(1) by blast
  note item = moved_item_facts [where binding = binding and decision = decision, OF this v]
  have "moves ?t (Option.bind before it_bucket) (it_bucket ?item)"
    unfolding item(3)
  proof (rule move_deltas_moves [OF ds key(1)])
    show "\<not> (it_sku s = bd_sku binding \<and> it_store s = Some (sz_store decision) \<and>
        it_zone s = Some (sz_zone decision))" if "before = Some s" for s
      using before(2) [OF that] by blast
    show "it_store s = Some (sz_store decision)" if "before = Some s" "it_zone s = Some (sz_zone decision)" for s
      using inv key(2) [OF that(1)] that(2) located by (auto simp: db_inv_def rows_located_def)
  qed
  then have "stock_inv db2"
    using inv fresh item v before(1)
    by (intro stock_inv_moved [OF _ item(1) _ _ _ _ _ _ _ db2(1-4)])
      (simp_all add: db_inv_def new_transition_def tr_item_def tr_pending_def transition_checks_def loc_def)
  moreover have "rows_located zs db2"
    using inv item(4,5) located by (intro rows_located_put [OF _ _ db2(5,1)]) (auto simp: db_inv_def)
  moreover have "accounting db2" using inv by (simp add: db_inv_def accounting_cong [OF db2(6,7,8)])
  ultimately show ?thesis using db_inv_advance [OF adv] by (simp add: db_inv_def)
qed

lemma process_located_inv:
  assumes step: "process_located u5 now event resolved binding start recent settings db
                   = (recent', Inr (res, db'))"
    and inv: "db_inv zs db" and recent: "recent_wf recent" "window_located zs recent"
      "ev_store resolved = zs (ev_zone resolved)"
  shows "db_inv zs db'"
  using step
proof (cases rule: process_located_cases)
  case (quiet states d)
  let ?db1 = "db\<lparr>item_states := states\<rparr>"
  have "refreshed (ev_tenant event, ev_epc event) (item_states db) (item_states ?db1)"
    using quiet(1) by simp
  then have "db_inv zs ?db1"
    using inv stock_inv_refreshed [of db _ ?db1] rows_located_refreshed [of zs db _ ?db1]
    by (simp add: db_inv_def accounting_cong [of ?db1 db])
  then show ?thesis by (rule db_inv_advance [OF quiet(2)])
next
  case (moved window decision before)
  obtain item where item: "item \<in> set (reads_at (sz_store decision, sz_zone decision) window)"
    using infer_stable_zone_SomeD(5) [OF moved(2)] by blast
  then have "item \<in> set window" "ev_store item = sz_store decision" "ev_zone item = sz_zone decision"
    by (auto simp: observed_location_def)
  then have "sz_store decision = zs (sz_zone decision)"
    using window_located_add(2) [OF recent] by (auto simp: moved(1))
  then show ?thesis
    using moved(4) by (intro record_transition_inv [OF moved(6) inv moved(3)]) blast+
qed

lemma process_observation_inv:
  assumes step: "process_observation u5 qid now event recent settings db = (recent', Inr (res, db'))"
    and inv: "db_inv zs db" and recent: "recent_wf recent" "window_located zs recent"
  shows "db_inv zs db'"
  using step
proof (cases rule: process_observation_cases)
  case (rejected reason conns)
  have "db_inv zs (db\<lparr>connectivity_rows := conns\<rparr>)" using inv by simp
  then show ?thesis by (rule db_inv_quarantine [OF rejected])
next
  case duplicate
  then show ?thesis using inv by (rule db_inv_advance)
next
  case (located recent1 a binding start conns)
  have recent1: "recent1 = remembered event recent" by (simp add: located(2) remembered_def)
  note facts = remembered_facts [OF recent(1), of event]
  have "db_inv zs (db\<lparr>connectivity_rows := conns\<rparr>)" using inv by simp
  moreover have "window_located zs recent1"
    using recent(2) by (simp add: recent1 window_located_def facts(3))
  moreover have "as_store a = zs (as_zone a)"
    using resolve_assignment_in [OF located(1)] inv by (simp add: db_inv_def rows_located_def)
  ultimately show ?thesis
    using facts(1) by (intro process_located_inv [OF located(3)]) (simp_all add: recent1)
qed

subsection \<open>Worker ticks\<close>

lemma db_inv_update_raw [simp]: "db_inv zs (update_raw raw_id f db) = db_inv zs db"
  by (rule db_inv_cong) (simp_all add: update_raw_def)

lemma handle_raw_failure_inv:
  assumes "handle_raw_failure env settings tenant raw_id exc db = (db', res)" "db_inv zs db"
  shows "db_inv zs db'"
proof (cases "unpublished_raw tenant raw_id db")
  case None
  then show ?thesis using assms by (simp add: handle_raw_failure_def)
next
  case (Some row)
  let ?db1 = "update_raw raw_id (\<lambda>_. mark_raw_failed exc row) db"
  have inv1: "db_inv zs ?db1" using assms(2) by simp
  show ?thesis
    using assms Some inv1 db_inv_quarantine
    by (fastforce simp: handle_raw_failure_def Let_def and_then_Inr_iff split: if_splits sum.splits)
qed

lemma commit_InrD: "commit env i a = Inr b \<Longrightarrow> b = a \<and> env_commit_fault env i = None"
  by (simp add: commit_def split: option.splits)

lemma pipeline_inv_iff:
  "pipeline_inv zs (recent, db) \<longleftrightarrow> recent_wf recent \<and> window_located zs recent \<and> db_inv zs db"
  by (auto simp: pipeline_inv_def db_inv_def)

text \<open>The five ways one raw row can end.\<close>

lemma process_raw_cases:
  assumes "process_raw env settings tenant raw_id (recent, db) = ((recent', db'), res)"
  obtains (skipped) "recent' = recent" "db' = db" "res = RawSkipped"
  | (malformed) exc where "recent' = recent"
      "handle_raw_failure env settings tenant raw_id exc db = (db', res)"
  | (settled_before) "recent' = recent" "res = RawDone"
      "db' = update_raw raw_id (mark_raw_published (env_now env raw_id)) db"
  | (processed) event pres db1 where "res = RawDone"
      "process_observation (env_uuid5 env) (env_fresh_id env raw_id) (env_now env raw_id) event
         recent settings db = (recent', Inr (pres, db1))"
      "db' = update_raw raw_id (mark_raw_published (env_now env raw_id)) db1"
  | (rolled_back) event recent1 exc where
      "recent1 = recent \<or> (\<exists>r. process_observation (env_uuid5 env) (env_fresh_id env raw_id)
         (env_now env raw_id) event recent settings db = (recent1, r))"
      "recent' = restore_checkpoint (take_checkpoint event recent) recent1"
      "handle_raw_failure env settings tenant raw_id exc db = (db', res)"
proof (cases "unpublished_raw tenant raw_id db")
  case None
  then show thesis using assms by (intro skipped) (simp_all add: process_raw_def)
next
  case (Some row)
  show thesis
  proof (cases "validate_event (ro_payload row)")
    case (Inl exc)
    then show thesis using assms Some by (intro malformed [of exc]) (auto simp: process_raw_def split: prod.splits)
  next
    case (Inr event)
    define outcome where "outcome = (case get_by lg_key (tenant, ro_event_id row) (ledgers db) of
        None \<Rightarrow> (recent, Inl (RuntimeFault ''RFID outbox has no event ledger''))
      | Some ledger \<Rightarrow>
          if lg_status ledger = EVENT_PENDING
          then (case process_observation (env_uuid5 env) (env_fresh_id env raw_id)
                       (env_now env raw_id) event recent settings db of
                  (recent1, r) \<Rightarrow> (recent1, and_then r (\<lambda>(_, db1). Inr db1)))
          else (recent, Inr db))"
    obtain recent1 produced where out: "outcome = (recent1, produced)" by (cases outcome)
    have source: "recent1 = recent \<and> (produced = Inr db \<or> (\<exists>e. produced = Inl e)) \<or>
        (\<exists>r. process_observation (env_uuid5 env) (env_fresh_id env raw_id) (env_now env raw_id) event
           recent settings db = (recent1, r) \<and> produced = and_then r (\<lambda>(_, db1). Inr db1))"
      using out by (auto simp: outcome_def split: option.splits if_splits prod.splits)
    have final: "(case and_then produced (\<lambda>db1. commit env raw_id
            (update_raw raw_id (mark_raw_published (env_now env raw_id)) db1)) of
          Inr db' \<Rightarrow> ((recent1, db'), RawDone)
        | Inl exc \<Rightarrow> (case handle_raw_failure env settings tenant raw_id exc db of
             (db', res) \<Rightarrow> ((restore_checkpoint (take_checkpoint event recent) recent1, db'), res)))
        = ((recent', db'), res)"
      using assms by (simp add: process_raw_def Some Inr Let_def outcome_def [symmetric] out)
    show thesis
    proof (cases "and_then produced (\<lambda>db1. commit env raw_id
        (update_raw raw_id (mark_raw_published (env_now env raw_id)) db1))")
      case (Inl exc)
      then show thesis
        using final source by (intro rolled_back [of recent1 event exc]) (auto split: prod.splits)
    next
      case (Inr db2)
      then obtain db1 where db1: "produced = Inr db1"
        "db2 = update_raw raw_id (mark_raw_published (env_now env raw_id)) db1"
        by (auto simp: and_then_Inr_iff dest: commit_InrD)
      have res: "recent' = recent1" "db' = db2" "res = RawDone" using final Inr by simp_all
      from source show thesis
      proof
        assume "recent1 = recent \<and> (produced = Inr db \<or> (\<exists>e. produced = Inl e))"
        then show thesis using res db1 by (intro settled_before) auto
      next
        assume "\<exists>r. process_observation (env_uuid5 env) (env_fresh_id env raw_id) (env_now env raw_id)
            event recent settings db = (recent1, r) \<and> produced = and_then r (\<lambda>(_, db1). Inr db1)"
        then obtain r where r: "process_observation (env_uuid5 env) (env_fresh_id env raw_id)
            (env_now env raw_id) event recent settings db = (recent1, r)"
          "and_then r (\<lambda>(_, db1). Inr db1) = Inr db1" using db1(1) by metis
        then obtain pres where "r = Inr (pres, db1)" by (auto simp: and_then_Inr_iff)
        then show thesis using res db1(2) r(1) by (intro processed [of event pres db1]) simp_all
      qed
    qed
  qed
qed

lemma process_raw_inv:
  assumes "process_raw env settings tenant raw_id st = (st', res)" "pipeline_inv zs st"
  shows "pipeline_inv zs st'"
proof -
  obtain recent db recent' db' where st: "st = (recent, db)" "st' = (recent', db')" by (cases st; cases st')
  have inv: "recent_wf recent" "window_located zs recent" "db_inv zs db"
    using assms(2) by (simp_all add: st pipeline_inv_iff)
  have rows: "rows_located zs db" using inv(3) by (simp add: db_inv_def)
  have "process_raw env settings tenant raw_id (recent, db) = ((recent', db'), res)"
    using assms(1) by (simp add: st)
  then show ?thesis
  proof (cases rule: process_raw_cases)
    case skipped
    then show ?thesis using inv by (simp add: st pipeline_inv_iff)
  next
    case (malformed exc)
    then show ?thesis using inv handle_raw_failure_inv [OF malformed(2)] by (simp add: st pipeline_inv_iff)
  next
    case settled_before
    then show ?thesis using inv by (simp add: st pipeline_inv_iff)
  next
    case (processed event pres db1)
    then show ?thesis
      using process_observation_evidence(1,3) [OF processed(2) inv(1)] inv(2) rows
        process_observation_inv [OF processed(2) inv(3,1,2)]
      by (simp add: st pipeline_inv_iff)
  next
    case (rolled_back event recent1 exc)
    have "same_evidence recent' recent \<and> recent_wf recent'"
      using rolled_back(1)
    proof
      assume "recent1 = recent"
      then show ?thesis
        using restore_touched [OF inv(1) touched_only_refl, of event]
          same_evidence_wf [OF inv(1) _ restore_od_wf [OF inv(1)]] rolled_back(2) by auto
    next
      assume "\<exists>r. process_observation (env_uuid5 env) (env_fresh_id env raw_id) (env_now env raw_id)
          event recent settings db = (recent1, r)"
      then show ?thesis using process_observation_evidence(4,5) [OF _ inv(1)] rolled_back(2) by blast
    qed
    then show ?thesis
      using inv handle_raw_failure_inv [OF rolled_back(3)] window_located_cong [of recent' recent zs]
      by (simp add: st pipeline_inv_iff)
  qed
qed

lemma drain_raw_inv:
  "drain_raw env settings tenant ids n st = (st', m, res) \<Longrightarrow> pipeline_inv zs st \<Longrightarrow> pipeline_inv zs st'"
proof (induction ids arbitrary: n st)
  case (Cons raw_id ids)
  obtain st1 r where step: "process_raw env settings tenant raw_id st = (st1, r)"
    by (cases "process_raw env settings tenant raw_id st")
  have "pipeline_inv zs st1" using process_raw_inv [OF step Cons.prems(2)] .
  then show ?case using Cons.prems(1) Cons.IH step by (cases r) auto
qed simp

text \<open>What the worker's bookkeeping on transitions may change.\<close>

definition only_settles :: "db \<Rightarrow> db \<Rightarrow> bool" where
  "only_settles db db' \<longleftrightarrow>
     list_all2 (\<lambda>t t'. tr_ident t' = tr_ident t \<and> (tr_pending t' \<longrightarrow> tr_pending t))
       (transitions db) (transitions db')"

lemma only_settles_refl [simp]: "only_settles db db"
  by (simp add: only_settles_def list_all2_refl)

lemma only_settles_trans: "only_settles db1 db2 \<Longrightarrow> only_settles db2 db3 \<Longrightarrow> only_settles db1 db3"
  unfolding only_settles_def by (erule (1) list_all2_trans [rotated]) simp

lemma only_settles_update:
  assumes "transitions db' = update_where P f (transitions db)" "\<And>t. tr_ident (f t) = tr_ident t"
    "\<And>t. P t \<Longrightarrow> tr_pending (f t) \<Longrightarrow> tr_pending t"
  shows "only_settles db db'"
  unfolding only_settles_def assms(1) update_where_def using assms(2,3)
  by (simp add: list_all2_conv_all_nth)

lemma earliest_pending_settles:
  assumes "only_settles db db'" "t' \<in> set (transitions db')" "tr_pending t'"
    "\<And>t. t \<in> set (transitions db) \<Longrightarrow> tr_id t = tr_id t' \<Longrightarrow> tr_pending t \<Longrightarrow> earliest_pending tenant db t"
  shows "earliest_pending tenant db' t'"
proof -
  have preimage: "\<exists>t \<in> set (transitions db). tr_ident u = tr_ident t \<and> (tr_pending u \<longrightarrow> tr_pending t)"
    if u: "u \<in> set (transitions db')" for u
  proof -
    obtain i where i: "i < length (transitions db')" "u = transitions db' ! i"
      using u by (auto simp: in_set_conv_nth)
    then have "i < length (transitions db)" using assms(1) by (simp add: only_settles_def list_all2_lengthD)
    moreover from this have "tr_ident u = tr_ident (transitions db ! i) \<and>
        (tr_pending u \<longrightarrow> tr_pending (transitions db ! i))"
      using list_all2_nthD [OF assms(1) [unfolded only_settles_def]] i by simp
    ultimately show ?thesis using nth_mem by blast
  qed
  obtain t where t: "t \<in> set (transitions db)" "tr_ident t' = tr_ident t" "tr_pending t"
    using preimage [OF assms(2)] assms(3) by blast
  have e: "earliest_pending tenant db t" using assms(4) [OF t(1)] t(2,3) tr_ident_eqD(1) [OF t(2)] by simp
  have "tr_version t' \<le> tr_version u'"
    if u': "u' \<in> set (transitions db')" "tr_tenant u' = tenant" "tr_pending u'" "tr_epc u' = tr_epc t'" for u'
  proof -
    obtain u where u: "u \<in> set (transitions db)" "tr_ident u' = tr_ident u" "tr_pending u"
      using preimage [OF u'(1)] u'(3) by blast
    then have "tr_version t \<le> tr_version u"
      using e u'(2,4) tr_ident_eqD [OF u(2)] tr_ident_eqD [OF t(2)]
      by (auto simp: earliest_pending_def list_all_iff)
    then show ?thesis using tr_ident_eqD(3) [OF u(2)] tr_ident_eqD(3) [OF t(2)] by simp
  qed
  then show ?thesis
    using assms(3) e tr_ident_eqD(6) [OF t(2)] by (auto simp: earliest_pending_def list_all_iff)
qed

lemma mark_failed_facts [simp]:
  "tr_ident (mark_transition_failed e t) = tr_ident t"
  "tr_pending (mark_transition_failed e t) = tr_pending t"
  "tr_unreconciled (mark_transition_failed e t) = tr_unreconciled t"
  "tr_published_at (mark_transition_failed e t) = tr_published_at t"
  "transition_checks (mark_transition_failed e t) = transition_checks t"
  "owed (mark_transition_failed e t) = owed t"
  "tr_id (mark_transition_failed e t) = tr_id t"
  by (simp_all add: mark_transition_failed_def tr_ident_def tr_pending_def tr_unreconciled_def
      transition_checks_def owed_def)

lemma quarantine_transition_facts:
  "transitions (quarantine_transition t exc moment db) = update_where (\<lambda>u. tr_id u = tr_id t)
     (\<lambda>t. t\<lparr>tr_quarantined_at := Some moment,
            tr_quarantine_reason := Some ''TRANSITION_ATTEMPTS_EXHAUSTED'', tr_last_error := Some exc\<rparr>)
     (transitions db)"
  "item_states (quarantine_transition t exc moment db) = item_states db"
  "applied_deltas (quarantine_transition t exc moment db) = applied_deltas db"
  "projections (quarantine_transition t exc moment db) = projections db"
  "assignments (quarantine_transition t exc moment db) = assignments db"
  "ledgers (quarantine_transition t exc moment db) = ledgers db"
  "batches (quarantine_transition t exc moment db) = batches db"
  "batch_events (quarantine_transition t exc moment db) = batch_events db"
  by (simp_all add: quarantine_transition_def update_transition_def Let_def)

lemma update_transition_facts [simp]:
  "transitions (update_transition tid f db) = update_where (\<lambda>t. tr_id t = tid) f (transitions db)"
  "item_states (update_transition tid f db) = item_states db"
  "applied_deltas (update_transition tid f db) = applied_deltas db"
  "projections (update_transition tid f db) = projections db"
  "assignments (update_transition tid f db) = assignments db"
  "ledgers (update_transition tid f db) = ledgers db"
  "batches (update_transition tid f db) = batches db"
  "batch_events (update_transition tid f db) = batch_events db"
  by (simp_all add: update_transition_def)

lemma unique_transition:
  "stock_inv db \<Longrightarrow> t \<in> set (transitions db) \<Longrightarrow> u \<in> set (transitions db) \<Longrightarrow> tr_id u = tr_id t \<Longrightarrow> u = t"
  by (rule inj_onD [OF iffD1 [OF distinct_map, THEN conjunct2], OF stock_tablesD(3) [OF stock_invD(1)]])

lemma quarantine_transition_stock:
  assumes "stock_inv db" "t \<in> set (transitions db)" "tr_pending t" "tr_id failed = tr_id t"
  shows "stock_inv (quarantine_transition failed exc moment db)"
proof (rule stock_inv_bookkeeping [OF assms(1) _ _ _ _ _ _ _ quarantine_transition_facts(1-4)])
  let ?f = "\<lambda>t. t\<lparr>tr_quarantined_at := Some moment,
      tr_quarantine_reason := Some ''TRANSITION_ATTEMPTS_EXHAUSTED'', tr_last_error := Some exc\<rparr>"
  fix u assume u: "u \<in> set (transitions db)" "tr_id u = tr_id failed"
  then have "u = t" using unique_transition [OF assms(1,2)] assms(4) by simp
  then have row: "tr_pending u" "transition_checks u"
    using assms(3) stock_tablesD(5) [OF stock_invD(1) [OF assms(1)] u(1)] by simp_all
  then show "transition_checks (?f u)" "owed (?f u) = owed u" "tr_unreconciled (?f u)"
    "tr_unreconciled u \<Longrightarrow> tr_unreconciled (?f u)" "\<not> tr_pending u \<Longrightarrow> \<not> tr_pending (?f u)"
    by (auto simp: transition_checks_def tr_pending_def owed_def tr_unreconciled_def)
qed (simp_all add: tr_ident_def)

lemma handle_transition_failure_inv:
  assumes "stock_inv db"
  shows "stock_inv (handle_transition_failure settings tenant tid now exc db)"
    "only_settles db (handle_transition_failure settings tenant tid now exc db)"
proof -
  let ?db1 = "update_transition tid (mark_transition_failed exc) db"
  have one: "stock_inv ?db1"
    by (rule stock_inv_bookkeeping [OF assms _ _ _ _ _ _ _ update_transition_facts(1-4)])
      (use stock_tablesD(5) [OF stock_invD(1) [OF assms]] in simp_all)
  have settles: "only_settles db ?db1"
    by (rule only_settles_update [OF update_transition_facts(1)]) simp_all
  have "stock_inv (handle_transition_failure settings tenant tid now exc db) \<and>
      only_settles db (handle_transition_failure settings tenant tid now exc db)"
  proof (cases "pending_transition tenant tid db")
    case None
    then show ?thesis using assms by (simp add: handle_transition_failure_def)
  next
    case (Some t)
    then have t: "t \<in> set (transitions db)" "tr_id t = tid" "tr_pending t"
      using select_one_SomeD unfolding pending_transition_def by fastforce+
    let ?failed = "mark_transition_failed exc t"
    have "?failed \<in> set (transitions ?db1)" using t(1,2) by (simp add: set_update_where)
    then have "stock_inv (quarantine_transition ?failed exc now ?db1)"
      using t(3) by (intro quarantine_transition_stock [OF one, of ?failed]) simp_all
    moreover have "only_settles ?db1 (quarantine_transition ?failed exc now ?db1)"
      by (rule only_settles_update [OF quarantine_transition_facts(1)])
        (simp_all add: tr_ident_def tr_pending_def)
    ultimately show ?thesis
      using Some one settles only_settles_trans [OF settles]
      by (auto simp: handle_transition_failure_def Let_def)
  qed
  then show "stock_inv (handle_transition_failure settings tenant tid now exc db)"
    "only_settles db (handle_transition_failure settings tenant tid now exc db)" by simp_all
qed

lemma handle_transition_failure_frame:
  "item_states (handle_transition_failure settings tenant tid now exc db) = item_states db"
  "assignments (handle_transition_failure settings tenant tid now exc db) = assignments db"
  "ledgers (handle_transition_failure settings tenant tid now exc db) = ledgers db"
  "batches (handle_transition_failure settings tenant tid now exc db) = batches db"
  "batch_events (handle_transition_failure settings tenant tid now exc db) = batch_events db"
  by (simp_all add: handle_transition_failure_def Let_def quarantine_transition_facts
      split: option.splits)

lemma publish_transition_inv:
  assumes "publish_transition env settings tenant tid db = (db', ok)" "db_inv zs db"
    and earliest: "\<And>t. t \<in> set (transitions db) \<Longrightarrow> tr_id t = tid \<Longrightarrow> tr_pending t \<Longrightarrow>
      earliest_pending tenant db t"
  shows "db_inv zs db'" "only_settles db db'"
proof -
  have stock: "stock_inv db" using assms(2) by (simp add: db_inv_def)
  have "db_inv zs db' \<and> only_settles db db'"
  proof (cases "pending_transition tenant tid db")
    case None
    then show ?thesis using assms(1,2) by (simp add: publish_transition_def)
  next
    case (Some t)
    then have t: "t \<in> set (transitions db)" "tr_id t = tid" "tr_pending t"
      using select_one_SomeD unfolding pending_transition_def by fastforce+
    define attempt where "attempt = and_then (validated_transition_deltas t) (\<lambda>deltas.
        and_then (apply_inventory_deltas deltas db) (\<lambda>(_, db1).
        commit env tid (update_transition tid (mark_transition_published (env_now env tid)) db1)))"
    have split: "(case attempt of Inr db' \<Rightarrow> (db', True)
        | Inl exc \<Rightarrow> (handle_transition_failure settings tenant tid (env_now env tid) exc db, False)) = (db', ok)"
      using assms(1) by (simp add: publish_transition_def Some attempt_def)
    show ?thesis
    proof (cases attempt)
      case (Inl exc)
      then have db': "db' = handle_transition_failure settings tenant tid (env_now env tid) exc db"
        using split by simp
      show ?thesis
        using handle_transition_failure_inv [OF stock] assms(2)
        unfolding db' db_inv_def
        by (simp add: rows_located_cong [OF handle_transition_failure_frame(2,1)]
            accounting_cong [OF handle_transition_failure_frame(3,4,5)])
    next
      case (Inr db2)
      then obtain ds n db1 where ds: "validated_transition_deltas t = Inr ds"
        "apply_inventory_deltas ds db = Inr (n, db1)"
        "db2 = update_transition tid (mark_transition_published (env_now env tid)) db1"
        unfolding attempt_def and_then_Inr_iff by (force dest: commit_InrD)
      have db': "db' = db2" using split Inr by simp
      have applied: "apply_inventory_deltas (transition_deltas t) db = Inr (n, db1)"
        using ds(1,2) by (simp add: transition_deltas_def)
      obtain as ps where db1: "db1 = db\<lparr>applied_deltas := as, projections := ps\<rparr>"
        using apply_inventory_deltas_InrD(2) [OF ds(2) stock_tablesD(2) [OF stock_invD(1) [OF stock]]] by blast
      have "stock_inv db2"
        by (rule stock_inv_published [OF stock t(1) earliest [OF t] applied])
          (simp add: ds(3) t(2))
      moreover have "rows_located zs db2 = rows_located zs db" "accounting db2 = accounting db"
        by (rule rows_located_cong accounting_cong; simp add: ds(3) db1)+
      moreover have "only_settles db db2"
        by (rule only_settles_update [where P = "\<lambda>t. tr_id t = tid" and
              f = "mark_transition_published (env_now env tid)"])
          (simp_all add: ds(3) db1 tr_ident_def tr_pending_def mark_transition_published_def)
      ultimately show ?thesis using assms(2) db' by (simp add: db_inv_def)
    qed
  qed
  then show "db_inv zs db'" "only_settles db db'" by simp_all
qed

lemma publish_transitions_inv:
  assumes "publish_transitions env settings tenant tids n db = (db', m)" "db_inv zs db"
    "\<And>t. t \<in> set (transitions db) \<Longrightarrow> tr_id t \<in> set tids \<Longrightarrow> tr_pending t \<Longrightarrow> earliest_pending tenant db t"
  shows "db_inv zs db'"
  using assms
proof (induction tids arbitrary: n db)
  case (Cons tid tids)
  obtain db1 ok where step: "publish_transition env settings tenant tid db = (db1, ok)"
    by (cases "publish_transition env settings tenant tid db")
  have inv: "db_inv zs db1" "only_settles db db1"
    using publish_transition_inv [OF step Cons.prems(2)] Cons.prems(3) by simp_all
  show ?case
  proof (rule Cons.IH [OF _ inv(1)])
    show "publish_transitions env settings tenant tids (if ok then Suc n else n) db1 = (db', m)"
      using Cons.prems(1) step by simp
    show "earliest_pending tenant db1 t"
      if "t \<in> set (transitions db1)" "tr_id t \<in> set tids" "tr_pending t" for t
      using that Cons.prems(3) by (intro earliest_pending_settles [OF inv(2)]) auto
  qed
qed simp

lemma transition_ids_earliest:
  assumes "stock_inv db" "t \<in> set (transitions db)" "tr_id t \<in> set (transition_ids tenant limit db)"
  shows "earliest_pending tenant db t"
proof -
  obtain u where "u \<in> set (transitions db)" "earliest_pending tenant db u" "tr_id t = tr_id u"
    using assms(3) by (auto simp: transition_ids_def dest!: in_set_takeD)
  then show ?thesis using unique_transition [OF assms(1)] assms(2) by metis
qed

lemma process_tenant_once_inv:
  assumes "process_tenant_once env settings tenant limit st = (st', r)" "pipeline_inv zs st"
  shows "pipeline_inv zs st'"
proof -
  obtain recent db n stopped where drained: "drain_raw env settings tenant
      (raw_ids tenant limit (snd st)) 0 st = ((recent, db), n, stopped)"
    by (metis prod.exhaust)
  have inv: "pipeline_inv zs (recent, db)" by (rule drain_raw_inv [OF drained assms(2)])
  obtain db' m where pub: "publish_transitions env settings tenant (transition_ids tenant limit db) 0 db
      = (db', m)" by (metis prod.exhaust)
  have "db_inv zs db'"
    using inv by (intro publish_transitions_inv [OF pub])
      (auto simp: pipeline_inv_iff db_inv_def intro: transition_ids_earliest)
  then have "pipeline_inv zs (recent, db')" using inv by (simp add: pipeline_inv_iff)
  then show ?thesis
    using assms(1) inv by (auto simp: process_tenant_once_def drained pub split: raw_result.splits)
qed

end
