(* ===== verification/Device_Auth.thy ===== *)
theory Device_Auth
  imports Tables
begin

text \<open>
  Authentication of RFID gateways, \<open>services/device_auth.py\<close>: a device token is the identifier of the
  device and a secret whose hash the device row holds.  Also the \<open>uuid.UUID(text)\<close> constructor, which
  the token and the event identifiers of a batch go through.  \<open>digest\<close> stands for SHA-256.
\<close>

subsection \<open>Parsing identifiers\<close>

definition hex_value :: "char \<Rightarrow> nat option" where
  "hex_value c =
     (let n = of_char c :: nat
      in if 48 \<le> n \<and> n \<le> 57 then Some (n - 48)
         else if 97 \<le> n \<and> n \<le> 102 then Some (n - 87)
         else if 65 \<le> n \<and> n \<le> 70 then Some (n - 55)
         else None)"

text \<open>
  \<open>int(text, 16)\<close> after its sign and prefix: digits, with single underscores between them.  The
  flag says whether an underscore may come next.
\<close>

fun hex_digits :: "bool \<Rightarrow> nat \<Rightarrow> string \<Rightarrow> nat option" where
  "hex_digits sep n [] = (if sep then Some n else None)"
| "hex_digits sep n (c # cs) =
     (case hex_value c of
        Some d \<Rightarrow> hex_digits True (16 * n + d) cs
      | None \<Rightarrow> if sep \<and> c = CHR ''_'' then hex_digits False n cs else None)"

definition unsigned_hex :: "string \<Rightarrow> nat option" where
  "unsigned_hex s =
     (case s of
        z # x # rest \<Rightarrow>
          if z = CHR ''0'' \<and> (x = CHR ''x'' \<or> x = CHR ''X'')
          then hex_digits False 0 (case rest of c # cs \<Rightarrow> if c = CHR ''_'' then cs else rest | [] \<Rightarrow> rest)
          else hex_digits False 0 s
      | _ \<Rightarrow> hex_digits False 0 s)"

definition int_base16 :: "string \<Rightarrow> int option" where
  "int_base16 s =
     (case strip s of
        [] \<Rightarrow> None
      | c # cs \<Rightarrow>
          if c = CHR ''-'' then map_option (\<lambda>n. - int n) (unsigned_hex cs)
          else if c = CHR ''+'' then map_option int (unsigned_hex cs)
          else map_option int (unsigned_hex (c # cs)))"

text \<open>\<open>str.replace(old, '')\<close>, and \<open>str.strip('{}')\<close>.\<close>

function without :: "string \<Rightarrow> string \<Rightarrow> string" where
  "without old [] = []"
| "without old (c # cs) =
     (if prefix old (c # cs) \<and> old \<noteq> [] then without old (drop (length old) (c # cs))
      else c # without old cs)"
  by pat_completeness auto
termination
  by (relation "measure (\<lambda>(old, s). length s)") (auto simp: diff_less)

definition strip_braces :: "string \<Rightarrow> string" where
  "strip_braces s =
     (let brace = (\<lambda>c. c = CHR ''{'' \<or> c = CHR ''}'')
      in rev (dropWhile brace (rev (dropWhile brace s))))"

definition parse_uuid :: "string \<Rightarrow> uuid option" where
  "parse_uuid s =
     (let hex = filter (\<lambda>c. c \<noteq> CHR ''-'') (strip_braces (without ''uuid:'' (without ''urn:'' s)))
      in if length hex \<noteq> 32 then None
         else case int_base16 hex of
           None \<Rightarrow> None
         | Some i \<Rightarrow> if 0 \<le> i \<and> i < 2 ^ 128 then Some (of_int i) else None)"

subsection \<open>Rendering and parsing again\<close>

lemma hex_value_hex_char: "d < 16 \<Longrightarrow> hex_value (hex_char d) = Some d"
proof -
  have "list_all (\<lambda>d. hex_value (hex_char d) = Some d) [0..<16]" by code_simp
  then show "d < 16 \<Longrightarrow> hex_value (hex_char d) = Some d" by (simp add: list_all_iff)
qed

lemma hex_digits_append:
  "\<forall>c \<in> set s. hex_value c \<noteq> None \<Longrightarrow>
     hex_digits sep n (s @ t) =
       hex_digits (sep \<or> s \<noteq> []) (foldl (\<lambda>n c. 16 * n + the (hex_value c)) n s) t"
  by (induction s arbitrary: sep n) auto

lemma hex_alphabet_value: "c \<in> hex_alphabet \<Longrightarrow> hex_value c \<noteq> None"
proof -
  have "list_all (\<lambda>c. hex_value c \<noteq> None) ''0123456789abcdef''" by code_simp
  then show "c \<in> hex_alphabet \<Longrightarrow> hex_value c \<noteq> None"
    unfolding list_all_iff hex_alphabet_def by blast
qed

lemma foldl_hex_fixed:
  "n < 16 ^ w \<Longrightarrow> foldl (\<lambda>n c. 16 * n + the (hex_value c)) 0 (hex_fixed w n) = n"
proof (induction w arbitrary: n)
  case (Suc w)
  have "n div 16 < 16 ^ w" using Suc.prems by (simp add: less_mult_imp_div_less mult.commute)
  then show ?case using Suc.IH [of "n div 16"] by (simp add: hex_value_hex_char)
qed simp

lemma hex_digits_hex_fixed:
  assumes "n < 16 ^ w" "0 < w"
  shows "hex_digits False 0 (hex_fixed w n) = Some n"
proof -
  have "\<forall>c \<in> set (hex_fixed w n). hex_value c \<noteq> None"
    using hex_fixed_chars [of w n] hex_alphabet_value by blast
  moreover have "hex_fixed w n \<noteq> []" using assms(2) by (metis length_hex_fixed length_0_conv less_irrefl)
  ultimately show ?thesis
    using hex_digits_append [of "hex_fixed w n" False 0 "[]"] foldl_hex_fixed [OF assms(1)] by simp
qed

lemma without_absent: "old \<noteq> [] \<Longrightarrow> hd old \<notin> set s \<Longrightarrow> without old s = s"
proof (induction s)
  case (Cons c s)
  then show ?case by (cases old) auto
qed simp

lemma dropWhile_none: "\<forall>c \<in> set s. \<not> P c \<Longrightarrow> dropWhile P s = s"
  by (cases s) auto

definition id_alphabet :: "char set" where
  "id_alphabet = insert (CHR ''-'') hex_alphabet"

lemma id_alphabet_plain:
  "c \<in> id_alphabet \<Longrightarrow> c \<noteq> CHR ''u'' \<and> c \<noteq> CHR ''{'' \<and> c \<noteq> CHR ''}'' \<and> c \<noteq> CHR ''x'' \<and> c \<noteq> CHR ''X'' \<and>
     c \<noteq> CHR ''+'' \<and> \<not> is_space c"
proof -
  have "list_all (\<lambda>c. c \<noteq> CHR ''u'' \<and> c \<noteq> CHR ''{'' \<and> c \<noteq> CHR ''}'' \<and> c \<noteq> CHR ''x'' \<and> c \<noteq> CHR ''X'' \<and>
     c \<noteq> CHR ''+'' \<and> \<not> is_space c) ''-0123456789abcdef''" by code_simp
  then show "c \<in> id_alphabet \<Longrightarrow> c \<noteq> CHR ''u'' \<and> c \<noteq> CHR ''{'' \<and> c \<noteq> CHR ''}'' \<and> c \<noteq> CHR ''x'' \<and>
     c \<noteq> CHR ''X'' \<and> c \<noteq> CHR ''+'' \<and> \<not> is_space c"
    unfolding list_all_iff id_alphabet_def hex_alphabet_def by auto
qed

lemma str_uuid_chars: "set (str_uuid u) \<subseteq> id_alphabet"
  using hex_fixed_chars [of 32 "unat u"]
  by (auto simp: str_uuid_def Let_def id_alphabet_def dest!: in_set_takeD in_set_dropD)

lemma unsigned_hex_plain:
  "CHR ''x'' \<notin> set s \<Longrightarrow> CHR ''X'' \<notin> set s \<Longrightarrow> unsigned_hex s = hex_digits False 0 s"
  by (auto simp: unsigned_hex_def split: list.split)

lemma int_base16_hex_fixed:
  assumes "n < 16 ^ w" "0 < w"
  shows "int_base16 (hex_fixed w n) = Some (int n)"
proof -
  define s where "s = hex_fixed w n"
  have plain: "\<not> is_space c \<and> c \<noteq> CHR ''x'' \<and> c \<noteq> CHR ''X'' \<and> c \<noteq> CHR ''+'' \<and> c \<noteq> CHR ''-''"
    if c: "c \<in> set s" for c
  proof -
    have "c \<in> hex_alphabet" using c hex_fixed_chars [of w n] unfolding s_def by blast
    then have "c \<in> id_alphabet" "c \<noteq> CHR ''-''" using separators_not_hex(1) unfolding id_alphabet_def by blast+
    then show ?thesis using id_alphabet_plain [of c] by blast
  qed
  have "unsigned_hex s = Some n"
    using plain [of "CHR ''x''"] plain [of "CHR ''X''"] unsigned_hex_plain [of s]
      hex_digits_hex_fixed [OF assms] by (auto simp: s_def)
  moreover have "length s = w" by (simp add: s_def)
  then obtain c cs where s: "s = c # cs" using assms(2) by (cases s) auto
  moreover have spaceless: "\<forall>c \<in> set s. \<not> is_space c" using plain by blast
  then have "strip s = s" using dropWhile_none [of s] dropWhile_none [of "rev s"] by (simp add: strip_def)
  moreover have "c \<noteq> CHR ''+''" "c \<noteq> CHR ''-''" using plain [of c] s by simp_all
  ultimately show ?thesis by (simp add: int_base16_def flip: s_def)
qed

lemma parse_str_uuid: "parse_uuid (str_uuid u) = Some u"
proof -
  let ?h = "hex_fixed 32 (unat u)"
  have plain: "c \<noteq> CHR ''u'' \<and> c \<noteq> CHR ''{'' \<and> c \<noteq> CHR ''}''" if "c \<in> set (str_uuid u)" for c
    using that str_uuid_chars [of u] id_alphabet_plain [of c] by blast
  have "without ''urn:'' (str_uuid u) = str_uuid u" "without ''uuid:'' (str_uuid u) = str_uuid u"
    using plain [of "CHR ''u''"] without_absent [of "''urn:''"] without_absent [of "''uuid:''"] by auto
  moreover have "strip_braces (str_uuid u) = str_uuid u"
    using plain by (simp add: strip_braces_def dropWhile_none)
  ultimately have "filter (\<lambda>c. c \<noteq> CHR ''-'') (strip_braces (without ''uuid:'' (without ''urn:'' (str_uuid u)))) = ?h"
    by (simp only: str_uuid_hex)
  moreover have bound: "unat u < 2 ^ 128" using unsigned_less [of u] by simp
  then have "int_base16 ?h = Some (int (unat u))" by (intro int_base16_hex_fixed) simp_all
  moreover have "uint u < 2 ^ 128" using bound by (metis of_nat_less_iff of_nat_numeral of_nat_power uint_nat)
  ultimately show ?thesis by (simp add: parse_uuid_def)
qed

lemma strip_str_uuid [simp]: "strip (str_uuid u) = str_uuid u"
proof -
  have "\<forall>c \<in> set (str_uuid u). \<not> is_space c" using str_uuid_chars [of u] id_alphabet_plain by blast
  then show ?thesis
    using dropWhile_none [of "str_uuid u"] dropWhile_none [of "rev (str_uuid u)"] by (simp add: strip_def)
qed

text \<open>
  Identifiers survive rendering: the canonical text the platform writes for an identifier, in
  event identifiers, partition keys and delta identifiers, is read back as that identifier, and
  canonicalizing any accepted spelling once more changes nothing.
\<close>

theorem uuid_text_roundtrip:
  "parse_uuid (str_uuid u) = Some u \<and>
     Option.bind (map_option str_uuid (parse_uuid s)) parse_uuid = parse_uuid s"
  by (cases "parse_uuid s") (simp_all add: parse_str_uuid)

subsection \<open>The service\<close>

definition unauthorized_device :: fault where
  "unauthorized_device = ApiError 401 ''unauthorized_device''"

text \<open>
  \<open>tenant_of\<close> is the status of the tenants; \<open>token.split('.', 1)\<close> splits at the first dot.  The session
  is pinned to the tenant that the database resolves for the device, so the row found is the
  device's own.
\<close>

definition authenticate_device ::
    "(string \<Rightarrow> string) \<Rightarrow> (uuid \<Rightarrow> tenant_status option) \<Rightarrow> db \<Rightarrow> string option \<Rightarrow> device outcome" where
  "authenticate_device digest tenant_of db raw_token =
     (case raw_token of
        None \<Rightarrow> Inl unauthorized_device
      | Some token \<Rightarrow>
          if CHR ''.'' \<notin> set token then Inl unauthorized_device
          else
            let raw_id = takeWhile (\<lambda>c. c \<noteq> CHR ''.'') token;
                secret = tl (dropWhile (\<lambda>c. c \<noteq> CHR ''.'') token)
            in case parse_uuid raw_id of
                 None \<Rightarrow> Inl unauthorized_device
               | Some device_id \<Rightarrow>
                   (case get_by dv_id device_id (devices db) of
                      None \<Rightarrow> Inl unauthorized_device
                    | Some d \<Rightarrow>
                        if dv_status d \<noteq> DEVICE_ACTIVE \<or> tenant_of (dv_tenant d) \<noteq> Some TENANT_ACTIVE \<or>
                           dv_credential_hash d = None \<or>
                           dv_credential_hash d \<noteq> Some (digest secret)
                        then Inl unauthorized_device
                        else Inr d))"

definition device_token :: "uuid \<Rightarrow> string \<Rightarrow> string" where
  "device_token device_id secret = str_uuid device_id @ ''.'' @ secret"

lemma dot_not_in_uuid: "CHR ''.'' \<notin> set (str_uuid u)"
proof -
  have "CHR ''.'' \<notin> id_alphabet" by (simp add: id_alphabet_def hex_alphabet_def)
  then show ?thesis using str_uuid_chars [of u] by blast
qed

lemma split_device_token:
  "takeWhile (\<lambda>c. c \<noteq> CHR ''.'') (device_token i secret) = str_uuid i"
  "tl (dropWhile (\<lambda>c. c \<noteq> CHR ''.'') (device_token i secret)) = secret"
  using dot_not_in_uuid [of i] by (auto simp: device_token_def takeWhile_tail takeWhile_append dropWhile_append)

text \<open>
  A gateway is recognized exactly by its own token: the token made of a device's identifier and
  a secret authenticates that device if and only if the device and its tenant are active and the
  stored hash is the hash of the secret.
\<close>

theorem device_token_authenticates:
  "authenticate_device digest tenant_of db (Some (device_token i secret)) = Inr d \<longleftrightarrow>
     get_by dv_id i (devices db) = Some d \<and> dv_status d = DEVICE_ACTIVE \<and>
     tenant_of (dv_tenant d) = Some TENANT_ACTIVE \<and> dv_credential_hash d = Some (digest secret)"
proof -
  have "CHR ''.'' \<in> set (device_token i secret)" by (simp add: device_token_def)
  then show ?thesis
    by (auto simp: authenticate_device_def Let_def split_device_token parse_str_uuid split: option.splits)
qed

end
