(* ===== verification/Ingress.thy ===== *)
theory Ingress
  imports Streaming Device_Auth
begin

text \<open>
  The ingress of observations, \<open>services/rfid_ingress.py\<close> with the request schemas of
  \<open>schemas/architecture.py\<close>: a batch is accepted with its event identities, its links and its rows of
  the durable inbox in one transaction, and a quarantined event can be queued again by an operator.
  The hash of the canonical payload, the drawn identifiers and the acceptance sequence are supplied by
  an environment.
\<close>

subsection \<open>The request\<close>

record observation_input =
  oi_event_id :: string
  oi_epc :: string
  oi_observed_at :: timestamp
  oi_rssi :: real
  oi_antenna :: "string option"

record batch_request =
  br_device :: uuid
  br_observations :: "observation_input list"
  br_backlog_drained :: bool
  br_reader_coverage_ok :: bool

definition validate_observation :: "observation_input \<Rightarrow> observation_input outcome" where
  "validate_observation obs =
     (if \<not> (1 \<le> length (oi_event_id obs) \<and> length (oi_event_id obs) \<le> 128) \<or>
         \<not> (4 \<le> length (oi_epc obs) \<and> length (oi_epc obs) \<le> 128) \<or>
         \<not> (- 120 \<le> oi_rssi obs \<and> oi_rssi obs \<le> 0) \<or>
         (case oi_antenna obs of None \<Rightarrow> False | Some a \<Rightarrow> 128 < length a)
      then Inl (ValueError ''ObservationInput'')
      else case parse_uuid (strip (oi_event_id obs)) of
             None \<Rightarrow> Inl (ValueError ''event_id'')
           | Some u \<Rightarrow>
               and_then (normalize_epc (oi_epc obs)) (\<lambda>epc.
                 Inr (obs\<lparr>oi_event_id := str_uuid u, oi_epc := epc\<rparr>)))"

definition validate_batch_request :: "batch_request \<Rightarrow> batch_request outcome" where
  "validate_batch_request r =
     (if br_observations r = [] \<or> 1000 < length (br_observations r)
      then Inl (ValueError ''observations'')
      else and_then (map_outcome validate_observation (br_observations r)) (\<lambda>os.
             if distinct (map oi_event_id os) then Inr (r\<lparr>br_observations := os\<rparr>)
             else Inl (ValueError ''event_id values must be unique within a batch'')))"

subsection \<open>Assignments at event time\<close>

definition assignment_unavailable :: fault where
  "assignment_unavailable = ApiError 409 ''device_assignment_unavailable''"

definition load_effective_assignment_history ::
    "device \<Rightarrow> timestamp \<Rightarrow> timestamp \<Rightarrow> db \<Rightarrow> assignment list" where
  "load_effective_assignment_history device window_start window_end db =
     sort_desc as_from
       (filter (\<lambda>a. as_tenant a = dv_tenant device \<and> as_device a = dv_id device \<and>
                    as_from a \<le> window_end \<and>
                    (case as_to a of None \<Rightarrow> True | Some t \<Rightarrow> window_start < t))
          (assignments db))"

definition resolve_assignment_at :: "assignment list \<Rightarrow> timestamp \<Rightarrow> assignment outcome" where
  "resolve_assignment_at history at_time =
     (case find (\<lambda>a. effective (as_from a) (as_to a) at_time) history of
        Some a \<Rightarrow> Inr a
      | None \<Rightarrow> Inl assignment_unavailable)"

subsection \<open>Accepting a batch\<close>

record fingerprint_fields =
  ff_antenna :: "string option"
  ff_device :: uuid
  ff_epc :: string
  ff_observed_at :: timestamp
  ff_rssi :: real
  ff_store :: uuid
  ff_zone :: uuid

text \<open>
  \<open>in_digest\<close> is SHA-256 over the canonical JSON of those fields, \<open>in_batch_id\<close> and \<open>in_row_id\<close> the
  drawn identifiers, \<open>in_sequence n\<close> the n-th value this transaction draws from the acceptance
  sequence.
\<close>

record ingress_env =
  in_digest :: "fingerprint_fields \<Rightarrow> string"
  in_batch_id :: uuid
  in_row_id :: "nat \<Rightarrow> uuid"
  in_sequence :: "nat \<Rightarrow> int"

definition observation_payload_fingerprint :: "(fingerprint_fields \<Rightarrow> string) \<Rightarrow> rfid_event \<Rightarrow> string" where
  "observation_payload_fingerprint digest e =
     digest \<lparr>ff_antenna = ev_antenna e, ff_device = ev_device e, ff_epc = ev_epc e,
             ff_observed_at = ev_observed_at e, ff_rssi = ev_rssi e, ff_store = ev_store e,
             ff_zone = ev_zone e\<rparr>"

definition event_of_observation ::
    "uuid \<Rightarrow> device \<Rightarrow> batch_request \<Rightarrow> timestamp \<Rightarrow> assignment list \<Rightarrow> observation_input
       \<Rightarrow> rfid_event outcome" where
  "event_of_observation batch_id device request received_at history obs =
     and_then (resolve_assignment_at history (oi_observed_at obs)) (\<lambda>a.
       validate_event (EventPayload
         \<lparr>ev_tenant = dv_tenant device, ev_batch = batch_id, ev_event_id = oi_event_id obs,
          ev_device = dv_id device, ev_store = as_store a, ev_zone = as_zone a, ev_epc = oi_epc obs,
          ev_observed_at = oi_observed_at obs, ev_received_at = received_at, ev_rssi = oi_rssi obs,
          ev_antenna = oi_antenna obs,
          ev_reader_health = (if br_reader_coverage_ok request then 1 else 0),
          ev_is_buffered = (seconds 60 < received_at - oi_observed_at obs),
          ev_backlog_drained = br_backlog_drained request,
          ev_reader_coverage_ok = br_reader_coverage_ok request, ev_replayed_from = None\<rparr>))"

definition ledger_of_event :: "(fingerprint_fields \<Rightarrow> string) \<Rightarrow> rfid_event \<Rightarrow> ledger_row" where
  "ledger_of_event digest e =
     \<lparr>lg_tenant = ev_tenant e, lg_event_id = ev_event_id e,
      lg_fingerprint = observation_payload_fingerprint digest e, lg_device = ev_device e,
      lg_store = ev_store e, lg_zone = ev_zone e, lg_epc = ev_epc e,
      lg_observed_at = ev_observed_at e, lg_first_received_at = ev_received_at e,
      lg_rssi = ev_rssi e, lg_antenna = ev_antenna e, lg_reader_health = ev_reader_health e,
      lg_is_buffered = ev_is_buffered e, lg_backlog_drained = ev_backlog_drained e,
      lg_reader_coverage_ok = ev_reader_coverage_ok e, lg_status = EVENT_PENDING,
      lg_disposition = None, lg_rejection_reason = None, lg_processed_at = None\<rparr>"

text \<open>The conflict-free insert of the identities: rows whose key is already taken are skipped.\<close>

definition new_identities :: "(fingerprint_fields \<Rightarrow> string) \<Rightarrow> rfid_event list \<Rightarrow> db \<Rightarrow> ledger_row list" where
  "new_identities digest events db =
     filter (\<lambda>l. lg_key l \<notin> lg_key ` set (ledgers db))
       (map (ledger_of_event digest) (sort_key ev_event_id events))"

definition matching_ledgers :: "uuid \<Rightarrow> rfid_event list \<Rightarrow> db \<Rightarrow> ledger_row list" where
  "matching_ledgers tenant events db =
     sort_key lg_event_id
       (filter (\<lambda>l. lg_tenant l = tenant \<and> lg_event_id l \<in> ev_event_id ` set events) (ledgers db))"

definition link_of_ledger :: "uuid \<Rightarrow> uuid \<Rightarrow> ledger_row \<Rightarrow> batch_event" where
  "link_of_ledger tenant batch_id l =
     \<lparr>be_tenant = tenant, be_batch = batch_id, be_event_id = lg_event_id l, be_status = lg_status l,
      be_disposition = lg_disposition l, be_rejection_reason = lg_rejection_reason l,
      be_finalized_at = lg_processed_at l\<rparr>"

definition event_conflict :: fault where
  "event_conflict = ApiError 409 ''rfid_event_id_conflict''"

definition link_outcome ::
    "ingress_env \<Rightarrow> device \<Rightarrow> rfid_event list \<Rightarrow> ledger_row \<Rightarrow> batch_event outcome" where
  "link_outcome env device events l =
     (case get_by ev_event_id (lg_event_id l) events of
        None \<Rightarrow> Inl (RuntimeFault ''KeyError'')
      | Some e \<Rightarrow>
          if lg_fingerprint l \<noteq> observation_payload_fingerprint (in_digest env) e
          then Inl event_conflict
          else Inr (link_of_ledger (dv_tenant device) (in_batch_id env) l))"

text \<open>The inbox rows, in request order and with consecutive draws from the acceptance sequence.\<close>

definition inbox_rows :: "ingress_env \<Rightarrow> device \<Rightarrow> string set \<Rightarrow> rfid_event list \<Rightarrow> raw_outbox list" where
  "inbox_rows env device inserted events =
     map (\<lambda>(n, e).
       \<lparr>ro_tenant = dv_tenant device, ro_id = in_row_id env n, ro_event_id = ev_event_id e,
        ro_acceptance_sequence = in_sequence env n, ro_partition_key = rfid_partition_key e,
        ro_payload = EventPayload e, ro_published_at = None, ro_publish_attempts = 0,
        ro_last_error = None\<rparr>)
       (enumerate 0 (filter (\<lambda>e. ev_event_id e \<in> inserted) events))"

definition set_initial_batch_outcome ::
    "timestamp \<Rightarrow> ledger_row list \<Rightarrow> observation_batch \<Rightarrow> observation_batch" where
  "set_initial_batch_outcome received_at rows b =
     (let processed = int (length (filter (\<lambda>l. lg_status l = EVENT_PROCESSED) rows));
          rejected = int (length (filter (\<lambda>l. lg_status l = EVENT_REJECTED) rows));
          b1 = b\<lparr>ob_processed := processed, ob_rejected := rejected\<rparr>;
          accounted = processed + rejected
      in if accounted = ob_accepted b then
           b1\<lparr>ob_status := (if rejected \<noteq> 0 then BATCH_COMPLETED_WITH_ERRORS else BATCH_COMPLETED),
              ob_completed_at := Some received_at\<rparr>
         else if accounted \<noteq> 0 then b1\<lparr>ob_status := BATCH_PROCESSING\<rparr>
         else b1)"

definition accepted_batch :: "ingress_env \<Rightarrow> device \<Rightarrow> assignment \<Rightarrow> timestamp \<Rightarrow> nat \<Rightarrow> observation_batch" where
  "accepted_batch env device current received_at n =
     \<lparr>ob_tenant = dv_tenant device, ob_id = in_batch_id env, ob_device = dv_id device,
      ob_store = as_store current, ob_zone = as_zone current, ob_status = BATCH_ACCEPTED,
      ob_accepted = int n, ob_processed = 0, ob_rejected = 0, ob_received_at = received_at,
      ob_completed_at = None\<rparr>"

definition inbox_conflict :: "raw_outbox list \<Rightarrow> db \<Rightarrow> bool" where
  "inbox_conflict rows db \<longleftrightarrow>
     \<not> distinct (map ro_id rows) \<or> \<not> distinct (map ro_acceptance_sequence rows) \<or>
     list_ex (\<lambda>r. list_ex (\<lambda>q. ro_id q = ro_id r \<or>
                   ro_acceptance_sequence q = ro_acceptance_sequence r \<or>
                   ro_tenant q = ro_tenant r \<and> ro_event_id q = ro_event_id r) (raw_rows db)) rows"

text \<open>The writes of an accepted batch; the keys of the batch and of the inbox are checked when flushed.\<close>

definition record_batch ::
    "ingress_env \<Rightarrow> device \<Rightarrow> batch_request \<Rightarrow> timestamp \<Rightarrow> assignment \<Rightarrow> rfid_event list \<Rightarrow> db
       \<Rightarrow> ((observation_batch \<times> rfid_event list) \<times> db) outcome" where
  "record_batch env device request received_at current events db =
     (if in_batch_id env \<in> ob_id ` set (batches db)
      then Inl (IntegrityError ''rfid_observation_batches_pkey'')
      else
        let created = new_identities (in_digest env) events db;
            db1 = db\<lparr>ledgers := ledgers db @ created\<rparr>;
            matched = matching_ledgers (dv_tenant device) events db1;
            fresh = inbox_rows env device (lg_event_id ` set created) events;
            batch = set_initial_batch_outcome received_at matched
                      (accepted_batch env device current received_at (length events))
        in if length matched \<noteq> length events
           then Inl (RuntimeFault ''RFID event ledger insertion did not reconcile'')
           else and_then (map_outcome (link_outcome env device events) matched) (\<lambda>links.
             if inbox_conflict fresh db then Inl (IntegrityError ''rfid_observation_outbox'')
             else
               Inr ((batch, events),
                    db1\<lparr>batches := batches db1 @ [batch],
                        batch_events := batch_events db1 @ links,
                        raw_rows := raw_rows db1 @ fresh,
                        connectivity_rows :=
                          fst (lock_store_connectivity_for_receipt (connectivity_rows db1)
                                 (dv_tenant device) (as_store current) received_at
                                 (br_backlog_drained request) (br_reader_coverage_ok request))\<rparr>)))"

definition accept_observation_batch ::
    "ingress_env \<Rightarrow> device \<Rightarrow> batch_request \<Rightarrow> timestamp \<Rightarrow> db
       \<Rightarrow> ((observation_batch \<times> rfid_event list) \<times> db) outcome" where
  "accept_observation_batch env device request received_at db =
     (if br_device request \<noteq> dv_id device then Inl (ApiError 403 ''device_token_mismatch'')
      else
        let times = received_at # map oi_observed_at (br_observations request);
            history = load_effective_assignment_history device (Min (set times)) (Max (set times)) db
        in and_then (resolve_assignment_at history received_at) (\<lambda>current.
           and_then (map_outcome
               (event_of_observation (in_batch_id env) device request received_at history)
               (br_observations request)) (\<lambda>events.
           record_batch env device request received_at current events db)))"

subsection \<open>Replaying a quarantined event\<close>

record replay_result =
  rr_quarantine :: uuid
  rr_batch :: uuid
  rr_event_id :: string
  rr_status :: event_processing_status
  rr_queued :: bool

definition replay_unavailable :: "string \<Rightarrow> fault" where
  "replay_unavailable code = ApiError 409 code"

definition requeued_ledger :: "ledger_row \<Rightarrow> ledger_row" where
  "requeued_ledger l =
     l\<lparr>lg_status := EVENT_PENDING, lg_disposition := Some REPLAY_QUEUED,
       lg_rejection_reason := None, lg_processed_at := None\<rparr>"

definition requeued_link :: "batch_event \<Rightarrow> batch_event" where
  "requeued_link l =
     l\<lparr>be_status := EVENT_PENDING, be_disposition := Some REPLAY_QUEUED,
       be_rejection_reason := None, be_finalized_at := None\<rparr>"

definition reopen_batch :: "batch_event list \<Rightarrow> observation_batch \<Rightarrow> observation_batch" where
  "reopen_batch links b =
     b\<lparr>ob_processed := count_status EVENT_PROCESSED links,
       ob_rejected := count_status EVENT_REJECTED links,
       ob_status := BATCH_PROCESSING, ob_completed_at := None\<rparr>"

definition reopen_batches :: "uuid \<Rightarrow> uuid list \<Rightarrow> db \<Rightarrow> db outcome" where
  "reopen_batches tenant =
     update_batches (replay_unavailable ''quarantine_batch_missing'') reopen_batch tenant"

definition replay_event :: "quarantine \<Rightarrow> ledger_row \<Rightarrow> rfid_event" where
  "replay_event q l =
     \<lparr>ev_tenant = lg_tenant l, ev_batch = qr_batch q, ev_event_id = lg_event_id l,
      ev_device = lg_device l, ev_store = lg_store l, ev_zone = lg_zone l, ev_epc = lg_epc l,
      ev_observed_at = lg_observed_at l, ev_received_at = lg_first_received_at l,
      ev_rssi = lg_rssi l, ev_antenna = lg_antenna l, ev_reader_health = lg_reader_health l,
      ev_is_buffered = lg_is_buffered l, ev_backlog_drained = lg_backlog_drained l,
      ev_reader_coverage_ok = lg_reader_coverage_ok l, ev_replayed_from = Some (qr_id q)\<rparr>"

definition requeued_raw :: "rfid_event \<Rightarrow> raw_outbox \<Rightarrow> raw_outbox" where
  "requeued_raw e r =
     r\<lparr>ro_partition_key := rfid_partition_key e, ro_payload := EventPayload e,
       ro_published_at := None, ro_publish_attempts := 0, ro_last_error := None\<rparr>"

definition replay_outcome ::
    "quarantine \<Rightarrow> ledger_row \<Rightarrow> event_processing_status \<Rightarrow> bool \<Rightarrow> replay_result" where
  "replay_outcome q l status queued =
     \<lparr>rr_quarantine = qr_id q, rr_batch = qr_batch q, rr_event_id = lg_event_id l,
      rr_status = status, rr_queued = queued\<rparr>"

definition raw_of_event :: "uuid \<times> string \<Rightarrow> raw_outbox \<Rightarrow> bool" where
  "raw_of_event k r \<longleftrightarrow> (ro_tenant r, ro_event_id r) = k"

definition queue_rejected :: "quarantine \<Rightarrow> ledger_row \<Rightarrow> db \<Rightarrow> (replay_result \<times> db) outcome" where
  "queue_rejected q ledger db =
     and_then (validate_event (EventPayload (replay_event q ledger))) (\<lambda>event.
       let key = lg_key ledger; links = event_links key db
       in if links = [] then Inl (replay_unavailable ''quarantine_batch_link_missing'')
          else
            and_then (reopen_batches (lg_tenant ledger) (remdups (map be_batch links))
              (db\<lparr>ledgers := put_by lg_key (requeued_ledger ledger) (ledgers db),
                  batch_events := update_where (\<lambda>l. be_event_key l = key) requeued_link
                                    (batch_events db)\<rparr>)) (\<lambda>db1.
            Inr (replay_outcome q ledger EVENT_PENDING True,
                 db1\<lparr>raw_rows := update_where (raw_of_event key) (requeued_raw event)
                                   (raw_rows db1)\<rparr>)))"

definition queue_quarantined_observation_replay ::
    "uuid \<Rightarrow> uuid \<Rightarrow> db \<Rightarrow> (replay_result \<times> db) outcome" where
  "queue_quarantined_observation_replay tenant qid db =
     (case select_one (\<lambda>q. qr_id q = qid \<and> qr_tenant q = tenant) (quarantines db) of
        None \<Rightarrow> Inl (ApiError 404 ''quarantine_not_found'')
      | Some q \<Rightarrow>
          (case qr_event_id q of
             None \<Rightarrow> Inl (replay_unavailable ''quarantine_event_identity_missing'')
           | Some event_id \<Rightarrow>
               (case (get_by lg_key (tenant, event_id) (ledgers db),
                      select_one (raw_of_event (tenant, event_id)) (raw_rows db)) of
                  (Some ledger, Some outbox) \<Rightarrow>
                    (case lg_status ledger of
                       EVENT_PROCESSED \<Rightarrow> Inr (replay_outcome q ledger EVENT_PROCESSED False, db)
                     | EVENT_PENDING \<Rightarrow>
                         if ro_published_at outbox \<noteq> None
                         then Inl (replay_unavailable ''quarantine_event_state_inconsistent'')
                         else Inr (replay_outcome q ledger EVENT_PENDING False, db)
                     | EVENT_REJECTED \<Rightarrow> queue_rejected q ledger db)
                | _ \<Rightarrow> Inl (replay_unavailable ''quarantine_event_ledger_incomplete''))))"

subsection \<open>Assignments: ingress and worker agree\<close>

lemma resolve_loaded_history:
  assumes "window_start \<le> t" "t \<le> window_end"
  shows "resolve_assignment_at (load_effective_assignment_history device window_start window_end db) t =
    (case best_by as_from
       (filter (\<lambda>a. as_tenant a = dv_tenant device \<and> as_device a = dv_id device \<and>
                    effective (as_from a) (as_to a) t) (assignments db)) of
       None \<Rightarrow> Inl assignment_unavailable | Some a \<Rightarrow> Inr a)"
proof -
  have "filter (\<lambda>a. effective (as_from a) (as_to a) t)
      (filter (\<lambda>a. as_tenant a = dv_tenant device \<and> as_device a = dv_id device \<and>
          as_from a \<le> window_end \<and>
          (case as_to a of None \<Rightarrow> True | Some u \<Rightarrow> window_start < u)) (assignments db))
    = filter (\<lambda>a. as_tenant a = dv_tenant device \<and> as_device a = dv_id device \<and>
          effective (as_from a) (as_to a) t) (assignments db)"
    using assms by (auto simp: effective_def intro!: filter_cong split: option.splits)
  then show ?thesis
    by (simp add: resolve_assignment_at_def load_effective_assignment_history_def find_sort_desc)
qed

lemma validate_event_InrD:
  "validate_event (EventPayload e) = Inr e' \<Longrightarrow> \<exists>epc. e' = e\<lparr>ev_epc := epc\<rparr> \<and> normalize_epc (ev_epc e) = Inr epc"
  by (auto simp: validate_event_def and_then_Inr_iff split: if_splits)

lemma event_of_observation_InrD:
  assumes "event_of_observation batch_id device request received_at history obs = Inr e"
  obtains a where "resolve_assignment_at history (oi_observed_at obs) = Inr a"
    "ev_store e = as_store a" "ev_zone e = as_zone a" "ev_tenant e = dv_tenant device"
    "ev_device e = dv_id device" "ev_event_id e = oi_event_id obs" "ev_batch e = batch_id"
    "ev_observed_at e = oi_observed_at obs" "ev_received_at e = received_at" "ev_replayed_from e = None"
    "ev_backlog_drained e = br_backlog_drained request"
    "ev_reader_coverage_ok e = br_reader_coverage_ok request"
  using assms
  by (auto simp: event_of_observation_def and_then_Inr_iff dest!: validate_event_InrD)

lemma accept_batch_InrD:
  assumes "accept_observation_batch env device request received_at db = Inr ((b, events), db')"
  obtains current history where
    "br_device request = dv_id device"
    "resolve_assignment_at history received_at = Inr current"
    "map_outcome (event_of_observation (in_batch_id env) device request received_at history)
       (br_observations request) = Inr events"
    "record_batch env device request received_at current events db = Inr ((b, events), db')"
    "\<And>obs t. obs \<in> set (br_observations request) \<Longrightarrow> t = oi_observed_at obs \<Longrightarrow>
       resolve_assignment_at history t =
         (case best_by as_from
            (filter (\<lambda>a. as_tenant a = dv_tenant device \<and> as_device a = dv_id device \<and>
                         effective (as_from a) (as_to a) t) (assignments db)) of
            None \<Rightarrow> Inl assignment_unavailable | Some a \<Rightarrow> Inr a)"
proof -
  define times where "times = received_at # map oi_observed_at (br_observations request)"
  define history where "history = load_effective_assignment_history device (Min (set times)) (Max (set times)) db"
  have known: "resolve_assignment_at history t =
      (case best_by as_from
         (filter (\<lambda>a. as_tenant a = dv_tenant device \<and> as_device a = dv_id device \<and>
                      effective (as_from a) (as_to a) t) (assignments db)) of
         None \<Rightarrow> Inl assignment_unavailable | Some a \<Rightarrow> Inr a)" if "t \<in> set times" for t
    unfolding history_def by (rule resolve_loaded_history) (use that in simp_all)
  have "br_device request = dv_id device"
    using assms by (simp add: accept_observation_batch_def split: if_splits)
  moreover from this have "and_then (resolve_assignment_at history received_at) (\<lambda>current.
      and_then (map_outcome (event_of_observation (in_batch_id env) device request received_at history)
        (br_observations request)) (\<lambda>events.
      record_batch env device request received_at current events db)) = Inr ((b, events), db')"
    using assms by (simp add: accept_observation_batch_def Let_def history_def times_def)
  then obtain current events' where got: "resolve_assignment_at history received_at = Inr current"
    "map_outcome (event_of_observation (in_batch_id env) device request received_at history)
       (br_observations request) = Inr events'"
    "record_batch env device request received_at current events' db = Inr ((b, events), db')"
    by (auto simp: and_then_Inr_iff)
  moreover have "events' = events"
    using got(3) by (auto simp: record_batch_def Let_def and_then_Inr_iff split: if_splits)
  ultimately show thesis using that [of history current] known unfolding times_def by auto
qed

subsection \<open>What an accepted batch changes\<close>

lemma map_enumerate_snd: "map (\<lambda>p. g (snd p)) (enumerate n xs) = map g xs"
  by (induction xs arbitrary: n) simp_all

lemma map_enumerate_fst: "map (\<lambda>p. g (fst p)) (enumerate n xs) = map g [n..<n + length xs]"
  by (induction xs arbitrary: n) (simp_all add: upt_rec)

lemma link_outcome_InrD:
  "link_outcome env device events l = Inr k \<Longrightarrow> k = link_of_ledger (dv_tenant device) (in_batch_id env) l"
  by (auto simp: link_outcome_def split: option.splits if_splits)

lemma record_batch_InrD:
  assumes "record_batch env device request received_at current events db = Inr ((b, es), db')"
  defines "created \<equiv> new_identities (in_digest env) events db"
  defines "matched \<equiv> matching_ledgers (dv_tenant device) events (db\<lparr>ledgers := ledgers db @ created\<rparr>)"
  shows "in_batch_id env \<notin> ob_id ` set (batches db)" "es = events" "length matched = length events"
    "b = set_initial_batch_outcome received_at matched
           (accepted_batch env device current received_at (length events))"
    "map_outcome (link_outcome env device events) matched
       = Inr (map (link_of_ledger (dv_tenant device) (in_batch_id env)) matched)"
    "\<not> inbox_conflict (inbox_rows env device (lg_event_id ` set created) events) db"
    "db' = db\<lparr>ledgers := ledgers db @ created, batches := batches db @ [b],
       batch_events := batch_events db @ map (link_of_ledger (dv_tenant device) (in_batch_id env)) matched,
       raw_rows := raw_rows db @ inbox_rows env device (lg_event_id ` set created) events,
       connectivity_rows := fst (lock_store_connectivity_for_receipt (connectivity_rows db)
         (dv_tenant device) (as_store current) received_at
         (br_backlog_drained request) (br_reader_coverage_ok request))\<rparr>"
proof -
  obtain links where links: "map_outcome (link_outcome env device events) matched = Inr links"
    "in_batch_id env \<notin> ob_id ` set (batches db)" "es = events" "length matched = length events"
    "b = set_initial_batch_outcome received_at matched
           (accepted_batch env device current received_at (length events))"
    "\<not> inbox_conflict (inbox_rows env device (lg_event_id ` set created) events) db"
    "db' = db\<lparr>ledgers := ledgers db @ created, batches := batches db @ [b],
       batch_events := batch_events db @ links,
       raw_rows := raw_rows db @ inbox_rows env device (lg_event_id ` set created) events,
       connectivity_rows := fst (lock_store_connectivity_for_receipt (connectivity_rows db)
         (dv_tenant device) (as_store current) received_at
         (br_backlog_drained request) (br_reader_coverage_ok request))\<rparr>"
    using assms(1) unfolding created_def matched_def
    by (auto simp: record_batch_def Let_def and_then_Inr_iff split: if_splits)
  have "map id links = map (link_of_ledger (dv_tenant device) (in_batch_id env)) matched"
    by (rule map_outcome_map [OF links(1)]) (simp add: link_outcome_InrD)
  with links show "in_batch_id env \<notin> ob_id ` set (batches db)" "es = events" "length matched = length events"
    "b = set_initial_batch_outcome received_at matched
           (accepted_batch env device current received_at (length events))"
    "map_outcome (link_outcome env device events) matched
       = Inr (map (link_of_ledger (dv_tenant device) (in_batch_id env)) matched)"
    "\<not> inbox_conflict (inbox_rows env device (lg_event_id ` set created) events) db"
    "db' = db\<lparr>ledgers := ledgers db @ created, batches := batches db @ [b],
       batch_events := batch_events db @ map (link_of_ledger (dv_tenant device) (in_batch_id env)) matched,
       raw_rows := raw_rows db @ inbox_rows env device (lg_event_id ` set created) events,
       connectivity_rows := fst (lock_store_connectivity_for_receipt (connectivity_rows db)
         (dv_tenant device) (as_store current) received_at
         (br_backlog_drained request) (br_reader_coverage_ok request))\<rparr>"
    by simp_all
qed

lemma link_of_ledger_facts [simp]:
  "be_event_key (link_of_ledger t b l) = (t, lg_event_id l)"
  "be_batch_key (link_of_ledger t b l) = (t, b)" "be_status (link_of_ledger t b l) = lg_status l"
  by (simp_all add: link_of_ledger_def be_event_key_def be_batch_key_def)

lemma count_status_links:
  "count_status s (map (link_of_ledger t b) ls) = int (length (filter (\<lambda>l. lg_status l = s) ls))"
  by (simp add: count_status_def filter_map comp_def)

lemma initial_outcome_settled:
  assumes "ob_accepted b = int (length ls)" "ls \<noteq> []" "ob_status b = BATCH_ACCEPTED"
  shows "settled (set_initial_batch_outcome t ls b) (map (link_of_ledger tn bt) ls)"
    "ob_key (set_initial_batch_outcome t ls b) = ob_key b"
  using assms
  by (auto simp: settled_def set_initial_batch_outcome_def Let_def count_status_links ob_key_def)

lemma ledger_of_event_key [simp]: "lg_key (ledger_of_event digest e) = (ev_tenant e, ev_event_id e)"
  by (simp add: ledger_of_event_def lg_key_def)

lemma new_identities_keys:
  assumes "distinct (map (\<lambda>e. (ev_tenant e, ev_event_id e)) events)"
  shows "distinct (map lg_key (new_identities digest events db))"
    "lg_key ` set (new_identities digest events db) \<inter> lg_key ` set (ledgers db) = {}"
proof -
  let ?key = "\<lambda>e. (ev_tenant e, ev_event_id e)"
  have "distinct (map ?key (sort_key ev_event_id events))" using assms by (simp add: distinct_map)
  then have "distinct (map lg_key (map (ledger_of_event digest) (sort_key ev_event_id events)))"
    by (simp add: comp_def)
  then show "distinct (map lg_key (new_identities digest events db))"
    unfolding new_identities_def by (rule distinct_map_filter)
  show "lg_key ` set (new_identities digest events db) \<inter> lg_key ` set (ledgers db) = {}"
    unfolding new_identities_def set_filter by blast
qed

lemma in_matching_ledgers:
  "l \<in> set (matching_ledgers tenant events db) \<longleftrightarrow>
     l \<in> set (ledgers db) \<and> lg_tenant l = tenant \<and> lg_event_id l \<in> ev_event_id ` set events"
  by (auto simp: matching_ledgers_def)

lemma record_batch_accounting:
  assumes "record_batch env device request received_at current events db = Inr ((b, es), db')"
    and acc: "accounting db" and events: "events \<noteq> []"
      "distinct (map (\<lambda>e. (ev_tenant e, ev_event_id e)) events)"
  shows "accounting db'"
proof -
  define created where "created = new_identities (in_digest env) events db"
  define matched where "matched = matching_ledgers (dv_tenant device) events (db\<lparr>ledgers := ledgers db @ created\<rparr>)"
  define links where "links = map (link_of_ledger (dv_tenant device) (in_batch_id env)) matched"
  note facts = record_batch_InrD [OF assms(1), folded created_def, folded matched_def, folded links_def]
  let ?new = "(dv_tenant device, in_batch_id env)"
  define b0 where "b0 = accepted_batch env device current received_at (length events)"
  have b0: "ob_accepted b0 = int (length matched)" "ob_status b0 = BATCH_ACCEPTED" "ob_key b0 = ?new"
    using facts(3) by (simp_all add: b0_def accepted_batch_def ob_key_def)
  have "matched \<noteq> []" using facts(3) events(1) by auto
  then have b: "ob_key b = ?new" "settled b links"
    using initial_outcome_settled [OF b0(1) _ b0(2)] b0(3)
    unfolding facts(4) links_def b0_def by simp_all
  have fresh: "?new \<notin> ob_key ` set (batches db)" using facts(1) by (auto simp: ob_key_def)
  have old_links: "be_batch_key l \<noteq> ?new" if "l \<in> set (batch_events db)" for l
    using that accountingD(5) [OF acc] fresh by (metis image_eqI subsetD)
  have new_links: "be_batch_key l = ?new" if "l \<in> set links" for l using that by (auto simp: links_def)
  have "settled r (batch_links (ob_key r) db')" if "r \<in> set (batches db')" for r
  proof (cases "r = b")
    case True
    have "batch_links ?new db' = links"
      using old_links new_links by (simp add: facts(7) batch_links_def filter_empty_conv)
    then show ?thesis using True b by simp
  next
    case False
    then have r: "r \<in> set (batches db)" using that facts(7) by simp
    then have "ob_key r \<noteq> ?new" using fresh by (metis image_eqI)
    then have "batch_links (ob_key r) db' = batch_links (ob_key r) db"
      using new_links by (force simp: facts(7) batch_links_def filter_empty_conv)
    then show ?thesis using accountingD(4) [OF acc r] by simp
  qed
  moreover have "\<exists>g \<in> set (ledgers db'). lg_key g = be_event_key l \<and> lg_status g = be_status l"
    if l: "l \<in> set (batch_events db')" for l
  proof (cases "l \<in> set (batch_events db)")
    case True
    then show ?thesis using accountingD(3) [OF acc] facts(7) by fastforce
  next
    case False
    then obtain g where "g \<in> set matched" "l = link_of_ledger (dv_tenant device) (in_batch_id env) g"
      using l facts(7) by (auto simp: links_def)
    then show ?thesis
      unfolding matched_def in_matching_ledgers facts(7) by (auto simp: lg_key_def)
  qed
  moreover have "distinct (map lg_key (ledgers db'))"
    using accountingD(1) [OF acc] new_identities_keys(1,2) [OF events(2), of "in_digest env" db]
    by (auto simp: facts(7) created_def)
  moreover have "distinct (map ob_key (batches db'))"
    using accountingD(2) [OF acc] fresh b(1) by (simp add: facts(7))
  moreover have "be_batch_key ` set (batch_events db') \<subseteq> ob_key ` set (batches db')"
    using accountingD(5) [OF acc] new_links b(1) by (auto simp: facts(7))
  ultimately show ?thesis by (simp add: accounting_def)
qed

lemma accepted_events:
  assumes "map_outcome (event_of_observation batch_id device request received_at history)
       (br_observations request) = Inr events"
  shows "map ev_event_id events = map oi_event_id (br_observations request)"
    "e \<in> set events \<Longrightarrow> ev_tenant e = dv_tenant device"
proof -
  show "map ev_event_id events = map oi_event_id (br_observations request)"
    by (rule map_outcome_map [OF assms]) (erule event_of_observation_InrD)
  have "map ev_tenant events = map (\<lambda>_. dv_tenant device) (br_observations request)"
    by (rule map_outcome_map [OF assms]) (erule event_of_observation_InrD)
  then have "set (map ev_tenant events) \<subseteq> {dv_tenant device}" by (simp only: set_map) auto
  then show "e \<in> set events \<Longrightarrow> ev_tenant e = dv_tenant device" by auto
qed

lemma accept_batch_accounting:
  assumes "accept_observation_batch env device request received_at db = Inr ((b, events), db')"
    and "accounting db" "validate_batch_request raw = Inr request"
  shows "accounting db'"
proof -
  obtain current history where
    got: "map_outcome (event_of_observation (in_batch_id env) device request received_at history)
       (br_observations request) = Inr events"
      "record_batch env device request received_at current events db = Inr ((b, events), db')"
    by (rule accept_batch_InrD [OF assms(1)]) blast
  have os: "distinct (map oi_event_id (br_observations request))" "br_observations request \<noteq> []"
    using assms(3) by (auto simp: validate_batch_request_def and_then_Inr_iff split: if_splits
        dest!: map_outcome_InrD)
  then have "events \<noteq> []" "distinct (map ev_event_id events)"
    using accepted_events(1) [OF got(1)] by auto
  moreover from this(2) have "distinct (map (\<lambda>e. (ev_tenant e, ev_event_id e)) events)"
    by (auto simp: distinct_map inj_on_def)
  ultimately show ?thesis by (intro record_batch_accounting [OF got(2) assms(2)])
qed

subsection \<open>What a replay changes\<close>

lemma requeued_facts [simp]:
  "lg_key (requeued_ledger l) = lg_key l" "lg_status (requeued_ledger l) = EVENT_PENDING"
  "be_event_key (requeued_link k) = be_event_key k" "be_batch_key (requeued_link k) = be_batch_key k"
  "be_status (requeued_link k) = EVENT_PENDING" "ob_key (reopen_batch ls b) = ob_key b"
  by (simp_all add: requeued_ledger_def requeued_link_def reopen_batch_def lg_key_def be_event_key_def
      be_batch_key_def ob_key_def)

lemma reopened_settled:
  assumes "ob_accepted b = int (length ls)" "l \<in> set ls" "be_status l = EVENT_PENDING"
  shows "settled (reopen_batch ls b) ls"
proof -
  have "count_status EVENT_PROCESSED ls + count_status EVENT_REJECTED ls < int (length ls)"
    using count_status_partition [of ls] count_status_positive [OF assms(2,3)] by linarith
  then show ?thesis using assms(1) by (simp add: settled_def reopen_batch_def)
qed

lemma queue_rejected_InrD:
  assumes "queue_rejected q ledger db = Inr (res, db')"
  obtains event where "validate_event (EventPayload (replay_event q ledger)) = Inr event"
    "res = replay_outcome q ledger EVENT_PENDING True"
    "db' = (relinked (requeued_ledger ledger) requeued_link reopen_batch db)
             \<lparr>raw_rows := update_where (raw_of_event (lg_key ledger)) (requeued_raw event) (raw_rows db)\<rparr>"
proof -
  have tenant: "lg_tenant ledger = fst (lg_key (requeued_ledger ledger))"
    by (simp add: lg_key_def requeued_ledger_def)
  from assms obtain event db1 where event: "validate_event (EventPayload (replay_event q ledger)) = Inr event"
    and res: "res = replay_outcome q ledger EVENT_PENDING True"
    and loop: "reopen_batches (lg_tenant ledger) (remdups (map be_batch (event_links (lg_key ledger) db)))
       (db\<lparr>ledgers := put_by lg_key (requeued_ledger ledger) (ledgers db),
           batch_events := update_where (\<lambda>l. be_event_key l = lg_key ledger) requeued_link
                             (batch_events db)\<rparr>) = Inr db1"
    and db': "db' = db1\<lparr>raw_rows := update_where (raw_of_event (lg_key ledger)) (requeued_raw event) (raw_rows db1)\<rparr>"
    by (auto simp: queue_rejected_def Let_def and_then_Inr_iff split: if_splits)
  have "db1 = relinked (requeued_ledger ledger) requeued_link reopen_batch db"
    using loop unfolding reopen_batches_def tenant
    by (intro update_batches_relinked [where missing = "replay_unavailable ''quarantine_batch_missing''"]) simp_all
  then show thesis using that event res db' by (simp add: frame_simps)
qed

lemma queue_replay_cases:
  assumes "queue_quarantined_observation_replay tenant qid db = Inr (res, db')"
  obtains (unchanged) q ledger where "db' = db" "\<not> rr_queued res" "res = replay_outcome q ledger (lg_status ledger) False"
      "select_one (\<lambda>q. qr_id q = qid \<and> qr_tenant q = tenant) (quarantines db) = Some q"
  | (queued) q event_id ledger where
      "select_one (\<lambda>q. qr_id q = qid \<and> qr_tenant q = tenant) (quarantines db) = Some q"
      "qr_event_id q = Some event_id"
      "get_by lg_key (tenant, event_id) (ledgers db) = Some ledger" "lg_status ledger = EVENT_REJECTED"
      "select_one (raw_of_event (tenant, event_id)) (raw_rows db) \<noteq> None"
      "queue_rejected q ledger db = Inr (res, db')"
proof -
  obtain q event_id ledger outbox where found:
    "select_one (\<lambda>q. qr_id q = qid \<and> qr_tenant q = tenant) (quarantines db) = Some q"
    "qr_event_id q = Some event_id" "get_by lg_key (tenant, event_id) (ledgers db) = Some ledger"
    "select_one (raw_of_event (tenant, event_id)) (raw_rows db) = Some outbox"
    using assms by (auto simp: queue_quarantined_observation_replay_def split: option.splits)
  show thesis
  proof (cases "lg_status ledger = EVENT_REJECTED")
    case True
    then show thesis
      using assms found by (intro queued [of q event_id ledger]) (auto simp: queue_quarantined_observation_replay_def)
  next
    case False
    then have "res = replay_outcome q ledger (lg_status ledger) False" "db' = db"
      using assms found
      by (auto simp: queue_quarantined_observation_replay_def split: event_processing_status.splits if_splits)
    then show thesis using found(1) by (intro unchanged) (simp_all add: replay_outcome_def)
  qed
qed

lemma queue_replay_accounting:
  assumes "queue_quarantined_observation_replay tenant qid db = Inr (res, db')" "accounting db"
  shows "accounting db'"
  using assms(1)
proof (cases rule: queue_replay_cases)
  case (queued q event_id ledger)
  from queued(6) obtain event where db': "db' = (relinked (requeued_ledger ledger) requeued_link reopen_batch db)
      \<lparr>raw_rows := update_where (raw_of_event (lg_key ledger)) (requeued_raw event) (raw_rows db)\<rparr>"
    by (rule queue_rejected_InrD)
  have "lg_key ledger \<in> lg_key ` set (ledgers db)"
    using get_by_SomeD [OF queued(3)] by (metis image_eqI)
  then have "accounting (relinked (requeued_ledger ledger) requeued_link reopen_batch db)"
    by (intro relinked_accounting [OF assms(2)]) (simp_all add: reopened_settled)
  then show ?thesis unfolding db' by (simp add: accounting_def batch_links_def)
qed (use assms in simp)

lemma replay_frame:
  assumes "queue_quarantined_observation_replay tenant qid db = Inr (res, db')"
  shows "stores db' = stores db" "zones db' = zones db" "devices db' = devices db"
    "assignments db' = assignments db" "bindings db' = bindings db" "quarantines db' = quarantines db"
    "connectivity_rows db' = connectivity_rows db" "item_states db' = item_states db"
    "transitions db' = transitions db" "applied_deltas db' = applied_deltas db"
    "projections db' = projections db" "business_events db' = business_events db"
    "tasks db' = tasks db" "evidence_rows db' = evidence_rows db"
  using assms by (auto elim!: queue_replay_cases queue_rejected_InrD simp: frame_simps)

lemma accept_frame:
  assumes "accept_observation_batch env device request received_at db = Inr ((b, events), db')"
  shows "stores db' = stores db" "zones db' = zones db" "devices db' = devices db"
    "assignments db' = assignments db" "bindings db' = bindings db" "quarantines db' = quarantines db"
    "item_states db' = item_states db"
    "transitions db' = transitions db" "applied_deltas db' = applied_deltas db"
    "projections db' = projections db" "business_events db' = business_events db"
    "tasks db' = tasks db" "evidence_rows db' = evidence_rows db"
  by (rule accept_batch_InrD [OF assms], drule record_batch_InrD(7), simp)+

subsection \<open>Properties\<close>

text \<open>A registry with one gateway, and a batch with one observation it sends.\<close>

definition sample_gateway :: device where
  "sample_gateway = \<lparr>dv_tenant = 1, dv_id = 5, dv_status = DEVICE_ACTIVE, dv_credential_hash = None\<rparr>"

definition sample_registry :: db where
  "sample_registry =
     empty_db\<lparr>devices := [sample_gateway],
       assignments := [\<lparr>as_tenant = 1, as_device = 5, as_store = 2, as_zone = 3, as_from = 0, as_to = None\<rparr>]\<rparr>"

definition sample_request :: batch_request where
  "sample_request =
     \<lparr>br_device = 5,
      br_observations =
        [\<lparr>oi_event_id = str_uuid 10, oi_epc = ''E28011700000020F'', oi_observed_at = seconds 100,
          oi_rssi = - 40, oi_antenna = None\<rparr>],
      br_backlog_drained = True, br_reader_coverage_ok = True\<rparr>"

definition sample_ingress :: ingress_env where
  "sample_ingress =
     \<lparr>in_digest = ff_epc, in_batch_id = 7, in_row_id = of_nat, in_sequence = int\<rparr>"

definition sample_accepted :: "((observation_batch \<times> rfid_event list) \<times> db) outcome" where
  "sample_accepted =
     accept_observation_batch sample_ingress sample_gateway sample_request (seconds 102) sample_registry"

lemma sample_request_valid: "validate_batch_request sample_request = Inr sample_request"
  by (simp add: validate_batch_request_def sample_request_def validate_observation_def
      parse_str_uuid sample_codes)

lemma sample_accepted_ok:
  obtains b e db' where "sample_accepted = Inr ((b, [e]), db')"
    "(ev_tenant e, ev_event_id e) \<in> lg_key ` set (ledgers db')"
proof -
  have "case sample_accepted of Inl _ \<Rightarrow> False | Inr ((b, events), db') \<Rightarrow>
      \<exists>e. events = [e] \<and> (ev_tenant e, ev_event_id e) \<in> lg_key ` set (ledgers db')"
    by (simp add: sample_accepted_def accept_observation_batch_def sample_ingress_def
        sample_gateway_def sample_request_def sample_registry_def empty_db_def Let_def
        load_effective_assignment_history_def sort_desc_def resolve_assignment_at_def effective_def
        seconds_def event_of_observation_def validate_event_def event_fields_valid_def sample_codes
        record_batch_def new_identities_def matching_ledgers_def link_outcome_def inbox_rows_def
        inbox_conflict_def ledger_of_event_def lg_key_def)
  then show thesis using that by (auto split: sum.splits)
qed

text \<open>
  C40: Ingress and worker place an observation in the same zone: every event of an accepted batch, whose
  location ingress resolved from assignments loaded for the whole batch window, is resolved by the
  worker to an assignment and not rejected as a mismatch, while the device stays active.
\<close>

theorem ingress_and_worker_agree:
  assumes "accept_observation_batch env device request received_at db = Inr ((b, events), db')"
    and "e \<in> set events"
    and "select_one (\<lambda>d. dv_tenant d = dv_tenant device \<and> dv_id d = dv_id device) (devices db) = Some device"
    and "dv_status device = DEVICE_ACTIVE"
  shows "\<exists>a. resolve_effective_assignment e db' = Inr a"
proof -
  obtain history where got: "map_outcome (event_of_observation (in_batch_id env) device request received_at history)
       (br_observations request) = Inr events"
    and known: "\<And>obs t. obs \<in> set (br_observations request) \<Longrightarrow> t = oi_observed_at obs \<Longrightarrow>
       resolve_assignment_at history t =
         (case best_by as_from
            (filter (\<lambda>a. as_tenant a = dv_tenant device \<and> as_device a = dv_id device \<and>
                         effective (as_from a) (as_to a) t) (assignments db)) of
            None \<Rightarrow> Inl assignment_unavailable | Some a \<Rightarrow> Inr a)"
    by (rule accept_batch_InrD [OF assms(1)]) blast
  obtain obs where obs: "obs \<in> set (br_observations request)"
    "event_of_observation (in_batch_id env) device request received_at history obs = Inr e"
    using map_outcome_in [OF got assms(2)] by blast
  obtain a where a: "resolve_assignment_at history (oi_observed_at obs) = Inr a"
    "ev_store e = as_store a" "ev_zone e = as_zone a" "ev_tenant e = dv_tenant device"
    "ev_device e = dv_id device" "ev_observed_at e = oi_observed_at obs"
    by (rule event_of_observation_InrD [OF obs(2)])
  have "best_by as_from (filter (\<lambda>a. as_tenant a = ev_tenant e \<and> as_device a = ev_device e \<and>
      effective (as_from a) (as_to a) (ev_observed_at e)) (assignments db)) = Some a"
    using known [OF obs(1) refl] a(1,4-6) by (simp split: option.splits)
  then have "resolve_effective_assignment e db' = Inr a"
    using assms(3,4) a(2-5) accept_frame(3,4) [OF assms(1)]
    by (simp add: resolve_effective_assignment_def)
  then show ?thesis by blast
qed

theorem ingress_and_worker_agree_witness:
  "\<exists>b e db' a. sample_accepted = Inr ((b, [e]), db') \<and> resolve_effective_assignment e db' = Inr a"
proof -
  obtain b e db' where ok: "sample_accepted = Inr ((b, [e]), db')" by (rule sample_accepted_ok)
  have "\<exists>a. resolve_effective_assignment e db' = Inr a"
    by (rule ingress_and_worker_agree [OF ok [unfolded sample_accepted_def]])
      (simp_all add: sample_registry_def sample_gateway_def)
  then show ?thesis using ok by blast
qed

text \<open>
  Every accepted batch is accounted for from the start: the batch is stored with exactly one link
  per observation, its counters and status are those of its links (so a batch of events that were
  all settled before is complete at once), and the accounting of every other batch is kept.
\<close>

theorem accepted_batch_is_accounted:
  assumes "accept_observation_batch env device request received_at db = Inr ((b, events), db')"
    and "validate_batch_request raw = Inr request" and "accounting db"
  shows "accounting db' \<and> b \<in> set (batches db') \<and>
    length (batch_links (ob_key b) db') = length (br_observations request)"
proof -
  have acc: "accounting db'" by (rule accept_batch_accounting [OF assms(1,3,2)])
  obtain current history where
    got: "map_outcome (event_of_observation (in_batch_id env) device request received_at history)
       (br_observations request) = Inr events"
      "record_batch env device request received_at current events db = Inr ((b, events), db')"
    by (rule accept_batch_InrD [OF assms(1)]) blast
  have b: "b \<in> set (batches db')" using record_batch_InrD(7) [OF got(2)] by simp
  have "ob_accepted b = int (length events)"
    using record_batch_InrD(4) [OF got(2)] by (simp add: set_initial_batch_outcome_def Let_def accepted_batch_def)
  moreover have "length events = length (br_observations request)"
    using accepted_events(1) [OF got(1)] by (metis length_map)
  ultimately show ?thesis using acc b accountingD(4) [OF acc b] by (simp add: settled_def)
qed

theorem accepted_batch_is_accounted_witness:
  "\<exists>b events db'. sample_accepted = Inr ((b, events), db') \<and> accounting db' \<and> b \<in> set (batches db') \<and>
     length (batch_links (ob_key b) db') = 1"
proof -
  obtain b e db' where ok: "sample_accepted = Inr ((b, [e]), db')" by (rule sample_accepted_ok)
  have "accounting sample_registry" by (simp add: accounting_def sample_registry_def empty_db_def)
  from accepted_batch_is_accounted [OF ok [unfolded sample_accepted_def] sample_request_valid this] ok
  show ?thesis by (fastforce simp: sample_request_def)
qed

text \<open>
  An event enters the inbox once: when every event of an accepted batch is already in the ledger,
  accepting the batch adds no identity and no inbox row, so a gateway that resends a delivered batch
  causes no further processing.
\<close>

theorem resent_batch_queues_nothing:
  assumes "accept_observation_batch env device request received_at db = Inr ((b, events), db')"
    and "\<forall>e \<in> set events. (ev_tenant e, ev_event_id e) \<in> lg_key ` set (ledgers db)"
  shows "ledgers db' = ledgers db \<and> raw_rows db' = raw_rows db"
proof -
  obtain current where rec: "record_batch env device request received_at current events db = Inr ((b, events), db')"
    by (rule accept_batch_InrD [OF assms(1)]) blast
  have "new_identities (in_digest env) events db = []"
    using assms(2) by (auto simp: new_identities_def filter_empty_conv)
  then show ?thesis using record_batch_InrD(7) [OF rec] by (simp add: inbox_rows_def)
qed

lemma sample_resent_ok:
  obtains b e db' b2 db2 where "sample_accepted = Inr ((b, [e]), db')"
    "accept_observation_batch (sample_ingress\<lparr>in_batch_id := 8\<rparr>) sample_gateway sample_request (seconds 102) db'
       = Inr ((b2, [e\<lparr>ev_batch := 8\<rparr>]), db2)"
proof -
  have "\<exists>b e db' b2 db2. sample_accepted = Inr ((b, [e]), db') \<and>
    accept_observation_batch (sample_ingress\<lparr>in_batch_id := 8\<rparr>) sample_gateway sample_request (seconds 102) db'
       = Inr ((b2, [e\<lparr>ev_batch := 8\<rparr>]), db2)"
    by (simp add: sample_accepted_def accept_observation_batch_def sample_ingress_def
        sample_gateway_def sample_request_def sample_registry_def empty_db_def Let_def
        load_effective_assignment_history_def sort_desc_def resolve_assignment_at_def effective_def
        seconds_def event_of_observation_def validate_event_def event_fields_valid_def sample_codes
        record_batch_def new_identities_def matching_ledgers_def link_outcome_def inbox_rows_def
        inbox_conflict_def ledger_of_event_def lg_key_def set_initial_batch_outcome_def
        accepted_batch_def observation_payload_fingerprint_def)
  then show thesis using that by blast
qed

theorem resent_batch_queues_nothing_witness:
  "\<exists>b e db' b2 db2. sample_accepted = Inr ((b, [e]), db') \<and>
     accept_observation_batch (sample_ingress\<lparr>in_batch_id := 8\<rparr>) sample_gateway sample_request (seconds 102) db'
       = Inr ((b2, [e\<lparr>ev_batch := 8\<rparr>]), db2) \<and> raw_rows db2 = raw_rows db'"
proof -
  obtain b e db' b2 db2 where ok: "sample_accepted = Inr ((b, [e]), db')"
    "accept_observation_batch (sample_ingress\<lparr>in_batch_id := 8\<rparr>) sample_gateway sample_request (seconds 102) db'
       = Inr ((b2, [e\<lparr>ev_batch := 8\<rparr>]), db2)" by (rule sample_resent_ok)
  have "(ev_tenant e, ev_event_id e) \<in> lg_key ` set (ledgers db')"
    by (rule sample_accepted_ok) (use ok(1) in \<open>metis Inr_inject Pair_inject list.inject\<close>)
  then have "\<forall>x \<in> set [e\<lparr>ev_batch := 8\<rparr>]. (ev_tenant x, ev_event_id x) \<in> lg_key ` set (ledgers db')"
    by simp
  from resent_batch_queues_nothing [OF ok(2) this] ok show ?thesis by blast
qed

text \<open>
  Acceptance order is request order: the inbox rows a batch adds stand in the order of the
  observations in the request (identities are inserted in another order, to avoid deadlocks), and
  they draw consecutive values of the acceptance sequence.
\<close>

theorem inbox_keeps_request_order:
  assumes "accept_observation_batch env device request received_at db = Inr ((b, events), db')"
  shows "\<exists>new. raw_rows db' = raw_rows db @ new \<and>
    map ro_event_id new = filter (\<lambda>i. i \<in> lg_event_id ` set (drop (length (ledgers db)) (ledgers db')))
      (map oi_event_id (br_observations request)) \<and>
    map ro_acceptance_sequence new = map (in_sequence env) [0..<length new]"
proof -
  obtain current history where
    got: "map_outcome (event_of_observation (in_batch_id env) device request received_at history)
       (br_observations request) = Inr events"
      "record_batch env device request received_at current events db = Inr ((b, events), db')"
    by (rule accept_batch_InrD [OF assms]) blast
  define created where "created = new_identities (in_digest env) events db"
  define new where "new = inbox_rows env device (lg_event_id ` set created) events"
  have db': "raw_rows db' = raw_rows db @ new" "drop (length (ledgers db)) (ledgers db') = created"
    using record_batch_InrD(7) [OF got(2)] by (simp_all add: new_def created_def)
  have "map ro_event_id new = map ev_event_id (filter (\<lambda>e. ev_event_id e \<in> lg_event_id ` set created) events)"
    by (simp add: new_def inbox_rows_def comp_def case_prod_unfold map_enumerate_snd)
  also have "\<dots> = filter (\<lambda>i. i \<in> lg_event_id ` set created) (map oi_event_id (br_observations request))"
    unfolding accepted_events(1) [OF got(1), symmetric] by (simp add: filter_map comp_def)
  finally have ids: "map ro_event_id new = \<dots>" .
  have "map ro_acceptance_sequence new = map (in_sequence env) [0..<length new]"
    by (simp add: new_def inbox_rows_def comp_def case_prod_unfold map_enumerate_fst)
  then show ?thesis using db' ids by auto
qed

theorem inbox_keeps_request_order_witness:
  "\<exists>b events db' new. sample_accepted = Inr ((b, events), db') \<and> raw_rows db' = new \<and>
     map ro_acceptance_sequence new = map int [0..<length new]"
proof -
  obtain b e db' where ok: "sample_accepted = Inr ((b, [e]), db')" by (rule sample_accepted_ok)
  from inbox_keeps_request_order [OF ok [unfolded sample_accepted_def]] ok show ?thesis
    by (auto simp: sample_registry_def empty_db_def sample_ingress_def)
qed

text \<open>
  Replaying is idempotent: once an operator queued a quarantined event, asking again, before the
  worker came to it, changes nothing and reports the same event as pending and not newly queued.
\<close>

theorem replay_is_idempotent:
  assumes "queue_quarantined_observation_replay tenant qid db = Inr (res, db')"
  shows "queue_quarantined_observation_replay tenant qid db' = Inr (res\<lparr>rr_queued := False\<rparr>, db')"
  using assms
proof (cases rule: queue_replay_cases)
  case (unchanged q ledger)
  then show ?thesis using assms by (simp add: replay_outcome_def)
next
  case (queued q event_id ledger)
  from queued(6) obtain event where res: "res = replay_outcome q ledger EVENT_PENDING True"
    and db': "db' = (relinked (requeued_ledger ledger) requeued_link reopen_batch db)
      \<lparr>raw_rows := update_where (raw_of_event (lg_key ledger)) (requeued_raw event) (raw_rows db)\<rparr>"
    by (rule queue_rejected_InrD)
  have key: "lg_key ledger = (tenant, event_id)" using get_by_SomeD [OF queued(3)] by simp
  obtain r where r: "select_one (raw_of_event (tenant, event_id)) (raw_rows db) = Some r"
    using queued(5) by blast
  have "select_one (raw_of_event (tenant, event_id))
      (update_where (raw_of_event (tenant, event_id)) (requeued_raw event) (raw_rows db))
    = Some (requeued_raw event r)"
    using r select_one_SomeD [OF r]
    by (subst select_update_where_same) (auto simp: raw_of_event_def requeued_raw_def)
  moreover have "get_by lg_key (tenant, event_id) (ledgers db') = Some (requeued_ledger ledger)"
    by (simp add: db' relinked_def Let_def table_simps key)
  moreover have "quarantines db' = quarantines db" by (rule replay_frame(6) [OF assms])
  ultimately show ?thesis
    using queued(1,2) res
    by (simp add: queue_quarantined_observation_replay_def db' key replay_outcome_def requeued_raw_def
        requeued_ledger_def)
qed

definition sample_quarantined :: db where
  "sample_quarantined =
     empty_db\<lparr>
       ledgers := [(ledger_of_event ff_epc sample_event)
                     \<lparr>lg_status := EVENT_REJECTED, lg_disposition := Some QUARANTINED\<rparr>],
       batches := [(accepted_batch sample_ingress sample_gateway
                     \<lparr>as_tenant = 1, as_device = 5, as_store = 2, as_zone = 3, as_from = 0, as_to = None\<rparr> 0 1)
                     \<lparr>ob_rejected := 1, ob_status := BATCH_COMPLETED_WITH_ERRORS\<rparr>],
       batch_events := [(link_of_ledger 1 7 (ledger_of_event ff_epc sample_event))
                          \<lparr>be_status := EVENT_REJECTED\<rparr>],
       quarantines := [\<lparr>qr_tenant = 1, qr_id = 9, qr_batch = 7, qr_event_id = Some ''e1'',
                        qr_reason = ''UNKNOWN_EPC'', qr_payload = EventPayload sample_event,
                        qr_quarantined_at = 0\<rparr>],
       raw_rows := [\<lparr>ro_tenant = 1, ro_id = 4, ro_event_id = ''e1'', ro_acceptance_sequence = 1,
                     ro_partition_key = [], ro_payload = EventPayload sample_event,
                     ro_published_at = Some 0, ro_publish_attempts = 1, ro_last_error = None\<rparr>]\<rparr>"

lemma sample_replay_ok:
  "\<exists>res db'. queue_quarantined_observation_replay 1 9 sample_quarantined = Inr (res, db') \<and> rr_queued res"
  by (simp add: queue_quarantined_observation_replay_def sample_quarantined_def empty_db_def
      lg_key_def ledger_of_event_def sample_event_def raw_of_event_def queue_rejected_def
      replay_event_def validate_event_def event_fields_valid_def sample_codes Let_def event_links_def
      link_of_ledger_def be_event_key_def reopen_batches_def ob_key_def accepted_batch_def
      sample_ingress_def sample_gateway_def replay_outcome_def requeued_ledger_def)

theorem replay_is_idempotent_witness:
  "\<exists>res db'. queue_quarantined_observation_replay 1 9 sample_quarantined = Inr (res, db') \<and> rr_queued res \<and>
     queue_quarantined_observation_replay 1 9 db' = Inr (res\<lparr>rr_queued := False\<rparr>, db')"
  using sample_replay_ok replay_is_idempotent by blast

end
