(* ===== verification/System.thy ===== *)
theory System
  imports Pipeline Ingress
begin

text \<open>
  The whole pipeline as a step relation: accepted batches, worker ticks, authoritative removals,
  projection rebuilds, replays of quarantined events, worker restarts and changes of the registry,
  in any order.  What every step keeps is lifted to all runs by the locales of \<open>Prelude\<close>.
\<close>

subsection \<open>The remaining operations keep the invariant\<close>

lemma removal_inv:
  assumes "accept_authoritative_removal digest u5 event_id now tenant store request settings db
             = Inr ((event, status, created), db')" "db_inv zs db"
  shows "db_inv zs db'"
  using assms(1)
proof (cases rule: accept_removal_cases)
  case (removal s zone)
  have s: "it_key s = (tenant, rq_epc request)" "it_tenant s = tenant" "it_epc s = rq_epc request"
    using get_by_SomeD [OF removal(2)] by (simp_all add: it_key_def)
  let ?s' = "removed_item s event_id (rq_occurred_at request)"
  have item: "it_key ?s' = (tenant, rq_epc request)" "it_version ?s' = it_version s + 1"
    "it_bucket ?s' = None" "it_zone ?s' = None"
    using s by (simp_all add: removed_item_def it_key_def it_bucket_def)
  show ?thesis
    using removal(8)
  proof (rule record_removal_InrD)
    fix delta
    let ?tid = "deterministic_transition_id u5 tenant (it_epc s) (it_version s + 1)"
    let ?t = "new_transition ?tid tenant (it_epc s) (it_version s + 1) [delta] now"
    assume delta: "make_delta ?tid tenant (it_epc s) (it_sku s) store zone (- 1) (it_confidence s)
        (rq_occurred_at request) = Inr delta"
      and new: "?tid \<notin> tr_id ` set (transitions db)"
      and db': "db' = db\<lparr>transitions := transitions db @ [?t],
          business_events := business_events db @ [event],
          item_states := put_by it_key ?s' (item_states db)\<rparr>"
    have rows: "item_states db' = put_by it_key ?s' (item_states db)" "transitions db' = transitions db @ [?t]"
      "applied_deltas db' = applied_deltas db" "projections db' = projections db"
      "assignments db' = assignments db" "ledgers db' = ledgers db" "batches db' = batches db"
      "batch_events db' = batch_events db"
      by (simp_all add: db')
    have "loc (tenant, rq_epc request) db = Some (tenant, store, it_sku s, zone)"
      using removal(2,4,5) s(2) by (simp add: loc_def it_bucket_def)
    then have "moves ?t (loc (tenant, rq_epc request) db) (it_bucket ?s')"
      using removal_moves [OF delta] item(3) by simp
    then have "stock_inv db'"
      using assms(2) new removal(2) s item(1,2)
      by (intro stock_inv_moved [OF _ item(1) _ _ _ _ _ _ _ rows(1-4)])
        (simp_all add: db_inv_def new_transition_def tr_item_def tr_pending_def transition_checks_def)
    moreover have "rows_located zs db'"
      using assms(2) item(4) by (intro rows_located_put [OF _ _ rows(5,1)]) (simp_all add: db_inv_def)
    ultimately show ?thesis
      using assms(2) by (simp add: db_inv_def accounting_cong [OF rows(6-8)])
  qed
qed (use assms(2) in simp)

lemma rebuild_inv:
  assumes "rebuild_inventory_projection tenant arrived now db = Inr (n, db')" "db_inv zs db"
  shows "db_inv zs db'"
proof -
  have "rows_located zs db' = rows_located zs db" "accounting db' = accounting db"
    using rebuild_InrD(2) [OF assms(1)] accounting_cong [of db' db] rows_located_cong [of db' db zs]
    by auto
  then show ?thesis using assms(2) stock_inv_rebuilt(1) [OF _ assms(1)] by (simp add: db_inv_def)
qed

lemma ingest_inv:
  assumes "validate_batch_request raw = Inr request"
    "accept_observation_batch env device request received_at db = Inr ((b, events), db')" "db_inv zs db"
  shows "db_inv zs db'"
  using assms(3) accept_batch_accounting [OF assms(2) _ assms(1)] accept_frame [OF assms(2)]
  by (simp add: db_inv_def rows_located_cong [of db' db] stock_inv_cong [of db' db])

lemma replay_inv:
  assumes "queue_quarantined_observation_replay tenant qid db = Inr (res, db')" "db_inv zs db"
  shows "db_inv zs db'"
  using assms(2) queue_replay_accounting [OF assms(1)] replay_frame [OF assms(1)]
  by (simp add: db_inv_def rows_located_cong [of db' db] stock_inv_cong [of db' db])

subsection \<open>Steps\<close>

text \<open>
  \<open>zs\<close> is the store of every zone, which the composite foreign keys of the assignments keep constant.
  A registry step replaces the stores, zones, devices, assignments and EPC bindings.
\<close>

inductive pipeline_step ::
    "(uuid \<Rightarrow> uuid) \<Rightarrow> recent_state \<times> db \<Rightarrow> recent_state \<times> db \<Rightarrow> bool" for zs where
  step_tick: "process_tenant_once env settings tenant limit st = (st', r) \<Longrightarrow> pipeline_step zs st st'"
| step_ingest: "validate_batch_request raw = Inr request \<Longrightarrow>
    accept_observation_batch env device request received_at db = Inr ((b, events), db') \<Longrightarrow>
    pipeline_step zs (recent, db) (recent, db')"
| step_removal: "accept_authoritative_removal digest u5 event_id now tenant store request settings db
      = Inr ((event, status, created), db') \<Longrightarrow>
    pipeline_step zs (recent, db) (recent, db')"
| step_rebuild: "rebuild_inventory_projection tenant arrived now db = Inr (n, db') \<Longrightarrow>
    pipeline_step zs (recent, db) (recent, db')"
| step_replay: "queue_quarantined_observation_replay tenant qid db = Inr (res, db') \<Longrightarrow>
    pipeline_step zs (recent, db) (recent, db')"
| step_restart: "pipeline_step zs (recent, db) (empty_recent epcs ids, db)"
| step_registry: "\<forall>a \<in> set as. as_store a = zs (as_zone a) \<Longrightarrow>
    pipeline_step zs (recent, db)
      (recent, db\<lparr>stores := ss, zones := zones', devices := ds, assignments := as, bindings := bs\<rparr>)"

definition pipeline_start :: "recent_state \<times> db \<Rightarrow> bool" where
  "pipeline_start st \<longleftrightarrow> (\<exists>epcs ids. st = (empty_recent epcs ids, empty_db))"

lemma db_inv_registry:
  assumes "db_inv zs db" "\<forall>a \<in> set as. as_store a = zs (as_zone a)"
  shows "db_inv zs (db\<lparr>stores := ss, zones := zones', devices := ds, assignments := as, bindings := bs\<rparr>)"
proof -
  let ?db' = "db\<lparr>stores := ss, zones := zones', devices := ds, assignments := as, bindings := bs\<rparr>"
  have "stock_inv ?db' = stock_inv db" "accounting ?db' = accounting db"
    by (rule stock_inv_cong accounting_cong; simp)+
  then show ?thesis using assms by (simp add: db_inv_def rows_located_def)
qed

lemma window_located_empty [simp]: "window_located zs (empty_recent epcs ids)"
  by (simp add: window_located_def empty_recent_def od_get_def)

lemma db_inv_empty: "db_inv zs empty_db"
  by (simp add: db_inv_def stock_inv_empty accounting_def rows_located_def empty_db_def)

interpretation pipeline: step_invariant pipeline_start "pipeline_step zs" "pipeline_inv zs" for zs
proof unfold_locales
  fix st :: "recent_state \<times> db"
  assume "pipeline_start st"
  then show "pipeline_inv zs st"
    by (auto simp: pipeline_start_def pipeline_inv_iff recent_wf_empty db_inv_empty)
next
  fix st st' :: "recent_state \<times> db"
  assume inv: "pipeline_inv zs st" and step: "pipeline_step zs st st'"
  from step inv show "pipeline_inv zs st'"
  proof cases
    case step_restart
    then show ?thesis using inv by (simp add: pipeline_inv_iff recent_wf_empty)
  qed (use inv in \<open>auto simp: pipeline_inv_iff intro: process_tenant_once_inv ingest_inv removal_inv
      rebuild_inv replay_inv db_inv_registry\<close>)
qed

end
