(* ===== verification/History.thy ===== *)
theory History
  imports System
begin

text \<open>
  What no run of the pipeline takes back: versions of items only grow, a removed item stays removed
  where it was, and the ledger row of a processed event never changes again.
\<close>

subsection \<open>Moving forward\<close>

definition items_forward :: "item_state list \<Rightarrow> item_state list \<Rightarrow> bool" where
  "items_forward ss ss' \<longleftrightarrow>
     (\<forall>k s. get_by it_key k ss = Some s \<longrightarrow>
        (\<exists>s'. get_by it_key k ss' = Some s' \<and> it_version s \<le> it_version s' \<and>
           (it_removal_event s \<noteq> None \<longrightarrow> same_place s s')))"

definition ledgers_forward :: "ledger_row list \<Rightarrow> ledger_row list \<Rightarrow> bool" where
  "ledgers_forward gs gs' \<longleftrightarrow>
     (\<forall>k g. get_by lg_key k gs = Some g \<longrightarrow> lg_status g = EVENT_PROCESSED \<longrightarrow>
        get_by lg_key k gs' = Some g)"

definition db_forward :: "db \<Rightarrow> db \<Rightarrow> bool" where
  "db_forward db db' \<longleftrightarrow>
     items_forward (item_states db) (item_states db') \<and> ledgers_forward (ledgers db) (ledgers db')"

lemma same_place_trans: "same_place a b \<Longrightarrow> same_place b c \<Longrightarrow> same_place a c"
  by (simp add: same_place_def)

lemma items_forward_refl [simp]: "items_forward ss ss"
  by (auto simp: items_forward_def same_place_def)

lemma ledgers_forward_refl [simp]: "ledgers_forward gs gs"
  by (simp add: ledgers_forward_def)

lemma db_forward_refl [simp]: "db_forward db db"
  by (simp add: db_forward_def)

lemma items_forward_trans: "items_forward a b \<Longrightarrow> items_forward b c \<Longrightarrow> items_forward a c"
  unfolding items_forward_def
proof (intro allI impI)
  fix k s
  assume ab: "\<forall>k s. get_by it_key k a = Some s \<longrightarrow> (\<exists>s'. get_by it_key k b = Some s' \<and>
      it_version s \<le> it_version s' \<and> (it_removal_event s \<noteq> None \<longrightarrow> same_place s s'))"
    and bc: "\<forall>k s. get_by it_key k b = Some s \<longrightarrow> (\<exists>s'. get_by it_key k c = Some s' \<and>
      it_version s \<le> it_version s' \<and> (it_removal_event s \<noteq> None \<longrightarrow> same_place s s'))"
    and s: "get_by it_key k a = Some s"
  obtain s1 where s1: "get_by it_key k b = Some s1" "it_version s \<le> it_version s1"
    "it_removal_event s \<noteq> None \<longrightarrow> same_place s s1" using ab s by blast
  obtain s2 where s2: "get_by it_key k c = Some s2" "it_version s1 \<le> it_version s2"
    "it_removal_event s1 \<noteq> None \<longrightarrow> same_place s1 s2" using bc s1(1) by blast
  have "same_place s s2" if "it_removal_event s \<noteq> None"
  proof -
    have "same_place s s1" using s1(3) that by blast
    moreover from this have "it_removal_event s1 \<noteq> None" using that by (simp add: same_place_def)
    ultimately show ?thesis using s2(3) same_place_trans by blast
  qed
  then show "\<exists>s'. get_by it_key k c = Some s' \<and> it_version s \<le> it_version s' \<and>
      (it_removal_event s \<noteq> None \<longrightarrow> same_place s s')"
    using s1(2) s2(1,2) by force
qed

lemma db_forward_trans: "db_forward a b \<Longrightarrow> db_forward b c \<Longrightarrow> db_forward a c"
  unfolding db_forward_def ledgers_forward_def using items_forward_trans by blast

lemma db_forward_same:
  "item_states db' = item_states db \<Longrightarrow> ledgers db' = ledgers db \<Longrightarrow> db_forward db db'"
  by (simp add: db_forward_def)

lemma items_forward_put:
  assumes "it_key s' = k"
    "\<And>s. get_by it_key k ss = Some s \<Longrightarrow> it_version s \<le> it_version s' \<and>
       (it_removal_event s \<noteq> None \<longrightarrow> same_place s s')"
  shows "items_forward ss (put_by it_key s' ss)"
  using assms by (auto simp: items_forward_def table_simps same_place_def)

lemma items_forward_refreshed: "refreshed k ss ss' \<Longrightarrow> items_forward ss ss'"
  unfolding refreshed_def
proof (elim disjE exE conjE)
  fix s s' assume "get_by it_key k ss = Some s" "same_place s s'" "ss' = put_by it_key s' ss"
  moreover from this have "it_key s' = k" using get_by_SomeD [of it_key k ss s] by (simp add: same_place_def)
  ultimately show ?thesis using items_forward_put [of s' k ss] by (simp add: same_place_def)
qed simp

lemma ledgers_forward_put:
  "(\<And>g. get_by lg_key (lg_key g') gs = Some g \<Longrightarrow> lg_status g \<noteq> EVENT_PROCESSED) \<Longrightarrow>
     ledgers_forward gs (put_by lg_key g' gs)"
  by (auto simp: ledgers_forward_def table_simps)

subsection \<open>Every operation moves forward\<close>

lemma forward_advance:
  assumes "advance_batch event rejected disp reason now db = Inr db'"
  shows "db_forward db db'"
  using advance_batch_frame(9) [OF assms] advance_batch_ledger(3) [OF assms]
  by (simp add: db_forward_def ledgers_forward_def)

lemma forward_quarantine:
  assumes "quarantine_event event reason payload qid now db = Inr (res, db')"
  shows "db_forward db db'"
  using assms
proof (rule quarantine_event_InrD)
  fix db1 assume adv: "advance_batch event True (Some QUARANTINED) (Some reason) now db1 = Inr db'"
    and "\<exists>qs. db1 = db\<lparr>quarantines := qs\<rparr>"
  then have "db_forward db db1" by (auto intro: db_forward_same)
  then show ?thesis using forward_advance [OF adv] by (rule db_forward_trans)
qed

lemma forward_record_transition:
  assumes step: "record_transition u5 event binding decision before now db = Inr (res, db')"
    and before: "before = get_by it_key (ev_tenant event, ev_epc event) (item_states db)"
      "\<And>s. before = Some s \<Longrightarrow> it_removal_event s = None"
  shows "db_forward db db'"
  using step
proof (rule record_transition_InrD)
  fix tid v ds db2
  let ?item = "moved_item event binding decision before"
  assume v: "v = (case before of None \<Rightarrow> 1 | Some s \<Rightarrow> it_version s + 1)"
    and shape: "\<exists>ts es. db2 = db\<lparr>item_states := put_by it_key ?item (item_states db),
        transitions := transitions db @ [new_transition tid (ev_tenant event) (ev_epc event) v ds now],
        tasks := ts, evidence_rows := es\<rparr>"
    and adv: "advance_batch event False (Some PROCESSED) None now db2 = Inr db'"
  have "\<forall>s. before = Some s \<longrightarrow> it_key s = (ev_tenant event, ev_epc event)"
    using before(1) get_by_SomeD by metis
  note item = moved_item_facts [where binding = binding and decision = decision, OF this v]
  have "items_forward (item_states db) (put_by it_key ?item (item_states db))"
    using before item(2) v by (intro items_forward_put [OF item(1)]) auto
  moreover obtain ts es where "db2 = db\<lparr>item_states := put_by it_key ?item (item_states db),
        transitions := transitions db @ [new_transition tid (ev_tenant event) (ev_epc event) v ds now],
        tasks := ts, evidence_rows := es\<rparr>"
    using shape by blast
  ultimately have "db_forward db db2" by (simp add: db_forward_def)
  then show ?thesis using forward_advance [OF adv] by (rule db_forward_trans)
qed

lemma forward_process_located:
  assumes "process_located u5 now event resolved binding start recent settings db = (recent', Inr (res, db'))"
  shows "db_forward db db'"
  using assms
proof (cases rule: process_located_cases)
  case (quiet states d)
  have "db_forward db (db\<lparr>item_states := states\<rparr>)"
    using items_forward_refreshed [OF quiet(1)] by (simp add: db_forward_def)
  then show ?thesis using forward_advance [OF quiet(2)] by (rule db_forward_trans)
next
  case (moved window decision before)
  then show ?thesis by (intro forward_record_transition [OF moved(6,3)]) blast
qed

lemma forward_process_observation:
  assumes "process_observation u5 qid now event recent settings db = (recent', Inr (res, db'))"
  shows "db_forward db db'"
  using assms
proof (cases rule: process_observation_cases)
  case (rejected reason conns)
  have "db_forward db (db\<lparr>connectivity_rows := conns\<rparr>)" by (rule db_forward_same) simp_all
  then show ?thesis using forward_quarantine [OF rejected] by (rule db_forward_trans)
next
  case duplicate
  then show ?thesis by (rule forward_advance)
next
  case (located recent1 a binding start conns)
  have "db_forward db (db\<lparr>connectivity_rows := conns\<rparr>)" by (rule db_forward_same) simp_all
  then show ?thesis using forward_process_located [OF located(3)] by (rule db_forward_trans)
qed

lemma forward_update_raw [simp]: "db_forward (update_raw raw_id f db) db' = db_forward db db'"
  "db_forward db (update_raw raw_id f db') = db_forward db db'"
  by (simp_all add: db_forward_def update_raw_def)

lemma forward_raw_failure:
  assumes "handle_raw_failure env settings tenant raw_id exc db = (db', res)"
  shows "db_forward db db'"
proof (cases "unpublished_raw tenant raw_id db")
  case None
  then show ?thesis using assms by (simp add: handle_raw_failure_def)
next
  case (Some row)
  let ?db1 = "update_raw raw_id (\<lambda>_. mark_raw_failed exc row) db"
  have quarantined: "db_forward db db2" if "quarantine_event event reason p qid now ?db1 = Inr (x, db2)"
    for event reason p qid now x db2
    using forward_quarantine [OF that] by simp
  show ?thesis
    using assms Some quarantined
    by (fastforce simp: handle_raw_failure_def Let_def and_then_Inr_iff split: if_splits sum.splits)
qed

lemma forward_process_raw:
  assumes "process_raw env settings tenant raw_id st = (st', res)"
  shows "db_forward (snd st) (snd st')"
proof -
  obtain recent db recent' db' where st: "st = (recent, db)" "st' = (recent', db')" by (cases st; cases st')
  have "process_raw env settings tenant raw_id (recent, db) = ((recent', db'), res)"
    using assms by (simp add: st)
  then have "db_forward db db'"
    by (cases rule: process_raw_cases)
      (auto dest: forward_raw_failure forward_process_observation)
  then show ?thesis by (simp add: st)
qed

lemma forward_drain_raw:
  "drain_raw env settings tenant ids n st = (st', m, res) \<Longrightarrow> db_forward (snd st) (snd st')"
proof (induction ids arbitrary: n st)
  case (Cons raw_id ids)
  obtain st1 r where step: "process_raw env settings tenant raw_id st = (st1, r)"
    by (cases "process_raw env settings tenant raw_id st")
  have "db_forward (snd st) (snd st1)" by (rule forward_process_raw [OF step])
  then have "db_forward (snd st) (snd st')" if "drain_raw env settings tenant ids n' st1 = (st', m, res)" for n'
    using Cons.IH [OF that] by (rule db_forward_trans)
  then show ?case using Cons.prems step \<open>db_forward (snd st) (snd st1)\<close> by (cases r) auto
qed simp

lemma apply_inventory_deltas_frame:
  assumes "apply_inventory_deltas ds db = Inr (n, db')"
  shows "item_states db' = item_states db" "ledgers db' = ledgers db"
proof -
  have one: "item_states db2 = item_states db1 \<and> ledgers db2 = ledgers db1"
    if "upsert_bucket tenant g db1 = Inr db2" for tenant g db1 db2
    using that by (cases "(tenant, g, db1)" rule: upsert_bucket.cases) (auto simp: Let_def split: option.splits if_splits)
  have all: "item_states db2 = item_states db1 \<and> ledgers db2 = ledgers db1"
    if "upsert_buckets tenant gs db1 = Inr db2" for tenant gs db1 db2
    using that by (induction gs arbitrary: db1) (auto simp: and_then_Inr_iff dest!: one)
  have "item_states db' = item_states db \<and> ledgers db' = ledgers db"
    using assms
    by (auto simp: apply_inventory_deltas_def Let_def and_then_Inr_iff
        split: list.splits if_splits dest!: all)
  then show "item_states db' = item_states db" "ledgers db' = ledgers db" by simp_all
qed

lemma forward_publish:
  assumes "publish_transition env settings tenant tid db = (db', ok)"
  shows "db_forward db db'"
  using assms
  by (intro db_forward_same)
    (auto simp: publish_transition_def and_then_Inr_iff handle_transition_failure_frame
      apply_inventory_deltas_frame split: option.splits sum.splits dest!: commit_InrD)

lemma forward_publish_all:
  "publish_transitions env settings tenant tids n db = (db', m) \<Longrightarrow> db_forward db db'"
proof (induction tids arbitrary: n db)
  case (Cons tid tids)
  obtain db1 ok where step: "publish_transition env settings tenant tid db = (db1, ok)"
    by (cases "publish_transition env settings tenant tid db")
  then show ?case
    using db_forward_trans [OF forward_publish [OF step]] Cons by simp
qed simp

lemma forward_tick:
  assumes "process_tenant_once env settings tenant limit st = (st', r)"
  shows "db_forward (snd st) (snd st')"
proof -
  obtain recent db n stopped where drained: "drain_raw env settings tenant
      (raw_ids tenant limit (snd st)) 0 st = ((recent, db), n, stopped)"
    by (metis prod.exhaust)
  obtain db' m where pub: "publish_transitions env settings tenant (transition_ids tenant limit db) 0 db
      = (db', m)" by (metis prod.exhaust)
  show ?thesis
    using assms(1) forward_drain_raw [OF drained] db_forward_trans [OF _ forward_publish_all [OF pub]]
    by (auto simp: process_tenant_once_def drained pub split: raw_result.splits)
qed

subsection \<open>Steps move forward\<close>

lemma get_by_append_old: "get_by key k rows = Some r \<Longrightarrow> get_by key k (rows @ new) = Some r"
  by (simp add: get_by_append)

lemma forward_ingest:
  assumes "accept_observation_batch env device request received_at db = Inr ((b, events), db')"
  shows "db_forward db db'"
proof -
  have "\<exists>new. ledgers db' = ledgers db @ new"
    by (rule accept_batch_InrD [OF assms], drule record_batch_InrD(7), simp)
  then show ?thesis
    using accept_frame(7) [OF assms] by (auto simp: db_forward_def ledgers_forward_def get_by_append_old)
qed

lemma forward_removal:
  assumes "accept_authoritative_removal digest u5 event_id now tenant store request settings db
             = Inr ((event, status, created), db')"
  shows "db_forward db db'"
  using assms
proof (cases rule: accept_removal_cases)
  case (removal s zone)
  let ?s' = "removed_item s event_id (rq_occurred_at request)"
  have "it_key ?s' = (tenant, rq_epc request)"
    using get_by_SomeD [OF removal(2)] by (simp add: removed_item_def it_key_def)
  then have items: "items_forward (item_states db) (put_by it_key ?s' (item_states db))"
    using removal(2,3) by (intro items_forward_put) (auto simp: removed_item_def)
  show ?thesis
    using removal(8) by (rule record_removal_InrD) (use items in \<open>simp add: db_forward_def\<close>)
qed simp

lemma forward_replay:
  assumes "queue_quarantined_observation_replay tenant qid db = Inr (res, db')"
  shows "db_forward db db'"
  using assms
proof (cases rule: queue_replay_cases)
  case (queued q event_id ledger)
  from queued(6) obtain event where db': "db' = (relinked (requeued_ledger ledger) requeued_link reopen_batch db)
      \<lparr>raw_rows := update_where (raw_of_event (lg_key ledger)) (requeued_raw event) (raw_rows db)\<rparr>"
    by (rule queue_rejected_InrD)
  then have "ledgers db' = put_by lg_key (requeued_ledger ledger) (ledgers db)"
    by (simp add: relinked_def Let_def)
  moreover have "lg_key ledger = (tenant, event_id)" using get_by_SomeD [OF queued(3)] by simp
  then have "ledgers_forward (ledgers db) (put_by lg_key (requeued_ledger ledger) (ledgers db))"
    using queued(3,4) by (intro ledgers_forward_put) auto
  ultimately show ?thesis using replay_frame(8) [OF assms] by (simp add: db_forward_def)
qed simp

lemma forward_rebuild:
  assumes "rebuild_inventory_projection tenant arrived now db = Inr (n, db')"
  shows "db_forward db db'"
  using rebuild_InrD(2) [OF assms] by (auto intro!: db_forward_same)

lemma step_forward: "pipeline_step zs st st' \<Longrightarrow> db_forward (snd st) (snd st')"
  by (induction rule: pipeline_step.induct)
    (auto intro: forward_tick forward_ingest forward_removal forward_rebuild forward_replay db_forward_same)

text \<open>
  The states behind a state: a set that only grows along a run, since moving forward is transitive.
\<close>

definition past :: "recent_state \<times> db \<Rightarrow> db set" where
  "past st = {db. db_forward db (snd st)}"

interpretation history: step_monotone "pipeline_step zs" past for zs
  by unfold_locales (auto simp: past_def dest: step_forward intro: db_forward_trans)

lemma run_forward: "reaches (pipeline_step zs) st st' \<Longrightarrow> db_forward (snd st) (snd st')"
  by (drule history.reaches_mono) (simp add: past_def Collect_mono_iff)

lemma run_forwardD:
  assumes "reaches (pipeline_step zs) st st'"
  shows "get_by it_key k (item_states (snd st)) = Some s \<Longrightarrow>
      \<exists>s'. get_by it_key k (item_states (snd st')) = Some s' \<and> it_version s \<le> it_version s' \<and>
        (it_removal_event s \<noteq> None \<longrightarrow> same_place s s')"
    "get_by lg_key k (ledgers (snd st)) = Some g \<Longrightarrow> lg_status g = EVENT_PROCESSED \<Longrightarrow>
      get_by lg_key k (ledgers (snd st')) = Some g"
  using run_forward [OF assms] unfolding db_forward_def items_forward_def ledgers_forward_def by blast+

lemma tick_reaches:
  "reaches (pipeline_step zs) st (fst (process_tenant_once env settings tenant limit st))"
proof -
  have "pipeline_step zs st (fst (process_tenant_once env settings tenant limit st))"
    by (rule step_tick) (rule prod.collapse [symmetric])
  with reaches_refl show ?thesis by (rule reaches_step)
qed

end
