(* ===== verification/Progress.thy ===== *)
theory Progress
  imports System
begin

text \<open>
  Liveness of the worker: while no transition of a tenant is stuck in quarantine and commits succeed,
  every transition a tick selects is published, each tick makes progress, and after finitely many
  ticks the projection of the tenant equals the count of its items.
\<close>

subsection \<open>Publishing one transition\<close>

lemma pending_transition_unique:
  assumes "stock_inv db" "t \<in> set (transitions db)" "tr_tenant t = tenant" "tr_pending t"
  shows "pending_transition tenant (tr_id t) db = Some t"
proof -
  obtain u where u: "pending_transition tenant (tr_id t) db = Some u"
    using assms(2-4) unfolding pending_transition_def
    by (metis (mono_tags, lifting) not_Some_eq select_one_None_iff)
  then have "u \<in> set (transitions db)" "tr_id u = tr_id t"
    using select_one_SomeD unfolding pending_transition_def by fastforce+
  then show ?thesis using u unique_transition [OF assms(1,2)] by simp
qed

lemma calm_publish:
  assumes inv: "db_inv zs db" and calm: "\<not> degraded tenant db"
    and t: "t \<in> set (transitions db)" "earliest_pending tenant db t"
    and commit: "env_commit_fault env (tr_id t) = None"
  obtains db' where "publish_transition env settings tenant (tr_id t) db = (db', True)"
    "transitions db' = update_where (\<lambda>u. tr_id u = tr_id t)
       (mark_transition_published (env_now env (tr_id t))) (transitions db)"
    "item_states db' = item_states db" "raw_rows db' = raw_rows db"
proof -
  have stock: "stock_inv db" using inv by (simp add: db_inv_def)
  have tenant: "tr_tenant t = tenant" "tr_pending t" using t(2) by (simp_all add: earliest_pending_def)
  note applies = earliest_applies [OF stock calm t]
  obtain n db1 where db1: "apply_inventory_deltas (transition_deltas t) db = Inr (n, db1)"
    using applies(2) by blast
  obtain as ps where shape: "db1 = db\<lparr>applied_deltas := as, projections := ps\<rparr>"
    using apply_inventory_deltas_InrD(2) [OF db1 stock_tablesD(2) [OF stock_invD(1) [OF stock]]] by blast
  let ?db' = "update_transition (tr_id t) (mark_transition_published (env_now env (tr_id t))) db1"
  have "publish_transition env settings tenant (tr_id t) db = (?db', True)"
    using pending_transition_unique [OF stock t(1) tenant] applies(1) db1 commit
    by (simp add: publish_transition_def commit_def)
  then show thesis using shape by (intro that [of ?db']) (simp_all add: update_transition_def)
qed

definition pending_count :: "uuid \<Rightarrow> db \<Rightarrow> nat" where
  "pending_count tenant db = length (filter (\<lambda>t. tr_tenant t = tenant \<and> tr_pending t) (transitions db))"

lemma mark_published_facts [simp]:
  "tr_id (mark_transition_published now t) = tr_id t"
  "tr_tenant (mark_transition_published now t) = tr_tenant t"
  "\<not> tr_pending (mark_transition_published now t)"
  "tr_unreconciled (mark_transition_published now t) = tr_unreconciled t"
  by (simp_all add: mark_transition_published_def tr_pending_def tr_unreconciled_def)

lemma published_counts:
  assumes "stock_inv db" "t \<in> set (transitions db)" "tr_tenant t = tenant" "tr_pending t"
    "transitions db' = update_where (\<lambda>u. tr_id u = tr_id t) (mark_transition_published now) (transitions db)"
  shows "pending_count tenant db = Suc (pending_count tenant db')"
    "degraded tenant db' = degraded tenant db"
proof -
  let ?g = "\<lambda>t. of_bool (tr_tenant t = tenant \<and> tr_pending t) :: int"
  have "sum_list (map ?g (transitions db')) = sum_list (map ?g (transitions db)) +
      ?g (mark_transition_published now t) - ?g t"
    unfolding assms(5) using stock_tablesD(3) [OF stock_invD(1) [OF assms(1)]] assms(2)
    by (rule sum_list_update_where)
  then have "int (pending_count tenant db') = int (pending_count tenant db) - 1"
    using assms(3,4) by (simp add: pending_count_def length_filter_sum)
  then show "pending_count tenant db = Suc (pending_count tenant db')" by simp
  show "degraded tenant db' = degraded tenant db"
    unfolding degraded_def assms(5) by (rule bex_update_where) simp
qed

subsection \<open>Publishing what a tick selects\<close>

lemma calm_publish_all:
  assumes "db_inv zs db" "\<not> degraded tenant db" "distinct tids"
    "\<And>tid. tid \<in> set tids \<Longrightarrow> \<exists>t \<in> set (transitions db). tr_id t = tid \<and> earliest_pending tenant db t"
    "\<And>tid. env_commit_fault env tid = None"
  shows "\<exists>db'. publish_transitions env settings tenant tids n db = (db', n + length tids) \<and>
    db_inv zs db' \<and> \<not> degraded tenant db' \<and> item_states db' = item_states db \<and> raw_rows db' = raw_rows db \<and>
    pending_count tenant db = pending_count tenant db' + length tids"
  using assms(1-4)
proof (induction tids arbitrary: n db)
  case (Cons tid tids)
  obtain t where t: "t \<in> set (transitions db)" "tr_id t = tid" "earliest_pending tenant db t"
    using Cons.prems(4) [of tid] by auto
  have row: "tr_tenant t = tenant" "tr_pending t" using t(3) by (simp_all add: earliest_pending_def)
  have stock: "stock_inv db" using Cons.prems(1) by (simp add: db_inv_def)
  obtain db1 where db1: "publish_transition env settings tenant tid db = (db1, True)"
    "transitions db1 = update_where (\<lambda>u. tr_id u = tr_id t)
       (mark_transition_published (env_now env (tr_id t))) (transitions db)"
    "item_states db1 = item_states db" "raw_rows db1 = raw_rows db"
    using calm_publish [OF Cons.prems(1,2) t(1,3) assms(5)] t(2) by metis
  have inv1: "db_inv zs db1" and settles: "only_settles db db1"
    using publish_transition_inv [OF db1(1) Cons.prems(1)] unique_transition [OF stock t(1)] t(2,3) by metis+
  note counts = published_counts [OF stock t(1) row db1(2)]
  have "\<exists>t' \<in> set (transitions db1). tr_id t' = tid' \<and> earliest_pending tenant db1 t'"
    if tid': "tid' \<in> set tids" for tid'
  proof -
    obtain u where u: "u \<in> set (transitions db)" "tr_id u = tid'" "earliest_pending tenant db u"
      using Cons.prems(4) [of tid'] tid' by auto
    have "tr_id u \<noteq> tr_id t" using Cons.prems(3) tid' t(2) u(2) by auto
    then have kept: "u \<in> set (transitions db1)"
      using u(1) unfolding db1(2) in_update_where_iff by blast
    moreover have "earliest_pending tenant db1 u"
    proof (rule earliest_pending_settles [OF settles kept])
      show "tr_pending u" using u(3) by (simp add: earliest_pending_def)
      show "earliest_pending tenant db v" if "v \<in> set (transitions db)" "tr_id v = tr_id u" for v
        using unique_transition [OF stock u(1) that] u(3) by simp
    qed
    ultimately show ?thesis using u(2) by blast
  qed
  then obtain db' where "publish_transitions env settings tenant tids (Suc n) db1 = (db', Suc n + length tids)"
    "db_inv zs db'" "\<not> degraded tenant db'" "item_states db' = item_states db1" "raw_rows db' = raw_rows db1"
    "pending_count tenant db1 = pending_count tenant db' + length tids"
    using Cons.IH [OF inv1, of "Suc n"] Cons.prems(2,3) counts(2) by auto
  then show ?case using db1(1,3,4) counts(1) by simp
qed auto

lemma transition_ids_select:
  assumes "stock_inv db"
  shows "distinct (transition_ids tenant limit db)"
    "tid \<in> set (transition_ids tenant limit db) \<Longrightarrow>
       \<exists>t \<in> set (transitions db). tr_id t = tid \<and> earliest_pending tenant db t"
proof -
  have "distinct (map tr_id (filter (earliest_pending tenant db) (transitions db)))"
    using stock_tablesD(3) [OF stock_invD(1) [OF assms]] by (rule distinct_map_filter)
  then show "distinct (transition_ids tenant limit db)"
    unfolding transition_ids_def take_map [symmetric]
    by (intro distinct_take) (simp add: distinct_map)
  show "tid \<in> set (transition_ids tenant limit db) \<Longrightarrow>
      \<exists>t \<in> set (transitions db). tr_id t = tid \<and> earliest_pending tenant db t"
    by (auto simp: transition_ids_def dest!: in_set_takeD)
qed

lemma transition_ids_nonempty:
  assumes "0 < pending_count tenant db" "0 < limit"
  shows "transition_ids tenant limit db \<noteq> []"
proof -
  obtain t where t: "t \<in> set (transitions db)" "tr_tenant t = tenant" "tr_pending t"
    using assms(1) by (auto simp: pending_count_def filter_empty_conv)
  let ?S = "{u \<in> set (transitions db). tr_tenant u = tenant \<and> tr_pending u \<and> tr_epc u = tr_epc t}"
  have "finite ?S" "?S \<noteq> {}" using t by auto
  then obtain m where "is_arg_min tr_version (\<lambda>u. u \<in> ?S) m"
    using ex_is_arg_min_if_finite by blast
  then have "m \<in> ?S" "\<And>u. u \<in> ?S \<Longrightarrow> tr_version m \<le> tr_version u"
    by (auto simp: is_arg_min_linorder)
  then have "earliest_pending tenant db m" "m \<in> set (transitions db)"
    by (auto simp: earliest_pending_def list_all_iff)
  then have "filter (earliest_pending tenant db) (transitions db) \<noteq> []"
    by (auto simp: filter_empty_conv)
  then have "sort_key (\<lambda>t. (tr_created_at t, tr_id t))
      (filter (earliest_pending tenant db) (transitions db)) \<noteq> []"
    by (metis length_0_conv length_sort)
  then show ?thesis using assms(2) by (simp add: transition_ids_def)
qed

subsection \<open>Ticks without new observations\<close>

definition inbox_empty :: "uuid \<Rightarrow> db \<Rightarrow> bool" where
  "inbox_empty tenant db \<longleftrightarrow> (\<forall>r \<in> set (raw_rows db). ro_tenant r = tenant \<longrightarrow> ro_published_at r \<noteq> None)"

lemma inbox_empty_raw_ids: "inbox_empty tenant db \<Longrightarrow> raw_ids tenant limit db = []"
proof -
  assume "inbox_empty tenant db"
  then have "filter (\<lambda>r. ro_tenant r = tenant \<and> ro_published_at r = None) (raw_rows db) = []"
    by (auto simp: inbox_empty_def filter_empty_conv)
  then show ?thesis by (simp add: raw_ids_def)
qed

lemma calm_tick:
  assumes "db_inv zs db" "\<not> degraded tenant db" "\<And>tid. env_commit_fault env tid = None"
    "inbox_empty tenant db"
  shows "\<exists>db'. process_tenant_once env settings tenant limit (recent, db)
      = ((recent, db'), Inr (0, length (transition_ids tenant limit db))) \<and>
    db_inv zs db' \<and> \<not> degraded tenant db' \<and> item_states db' = item_states db \<and> inbox_empty tenant db' \<and>
    pending_count tenant db = pending_count tenant db' + length (transition_ids tenant limit db)"
proof -
  have "stock_inv db" using assms(1) by (simp add: db_inv_def)
  note select = transition_ids_select(1) [OF this, of tenant limit]
    transition_ids_select(2) [OF this, of _ tenant limit]
  obtain db' where "publish_transitions env settings tenant (transition_ids tenant limit db) 0 db
        = (db', length (transition_ids tenant limit db))"
    "db_inv zs db'" "\<not> degraded tenant db'" "item_states db' = item_states db" "raw_rows db' = raw_rows db"
    "pending_count tenant db = pending_count tenant db' + length (transition_ids tenant limit db)"
    using calm_publish_all [OF assms(1,2) select assms(3), of settings 0] by auto
  then show ?thesis
    using assms(4) by (simp add: process_tenant_once_def inbox_empty_raw_ids) (simp add: inbox_empty_def)
qed

lemma settled_projection:
  assumes "stock_inv db" "\<not> degraded tenant db" "pending_count tenant db = 0" "fst b = tenant"
  shows "projected b db = item_count b db"
proof -
  have "owed_delta b t = 0" if t: "t \<in> set (transitions db)" for t
  proof (cases "tr_tenant t = tenant")
    case True
    then have "\<not> owed t"
      using assms(2,3) t by (auto simp: degraded_def owed_def pending_count_def filter_empty_conv)
    then show ?thesis by (simp add: owed_delta_def)
  next
    case False
    obtain l m where "moves t l m" using stock_tablesD(6) [OF stock_invD(1) [OF assms(1)] t] by blast
    then show ?thesis using moves_tenant [of t l m b] False assms(4) by (simp add: owed_delta_def)
  qed
  then have "outstanding b db = 0" unfolding outstanding_def by (rule sum_list_zero)
  then show ?thesis using stock_invD(2) [OF assms(1), of b] by simp
qed

lemma calm_ticks:
  assumes "db_inv zs db" "\<not> degraded tenant db" "inbox_empty tenant db"
    "\<And>tid. env_commit_fault env tid = None" "0 < limit"
  shows "\<exists>n db'. ((\<lambda>st. fst (process_tenant_once env settings tenant limit st)) ^^ n) (recent, db)
      = (recent, db') \<and> n \<le> pending_count tenant db \<and>
    db_inv zs db' \<and> \<not> degraded tenant db' \<and> item_states db' = item_states db \<and> pending_count tenant db' = 0"
  using assms(1-3)
proof (induction "pending_count tenant db" arbitrary: db rule: less_induct)
  case less
  show ?case
  proof (cases "pending_count tenant db = 0")
    case True
    then show ?thesis using less.prems by (intro exI [of _ 0] exI [of _ db]) simp
  next
    case False
    obtain db1 where db1: "process_tenant_once env settings tenant limit (recent, db)
        = ((recent, db1), Inr (0, length (transition_ids tenant limit db)))"
      "db_inv zs db1" "\<not> degraded tenant db1" "item_states db1 = item_states db" "inbox_empty tenant db1"
      "pending_count tenant db = pending_count tenant db1 + length (transition_ids tenant limit db)"
      using calm_tick [OF less.prems(1,2) assms(4) less.prems(3)] by metis
    have fewer: "pending_count tenant db1 < pending_count tenant db"
      using db1(6) transition_ids_nonempty [of tenant db limit] False assms(5) by simp
    obtain n db' where n: "((\<lambda>st. fst (process_tenant_once env settings tenant limit st)) ^^ n) (recent, db1)
        = (recent, db')" "n \<le> pending_count tenant db1" "db_inv zs db'" "\<not> degraded tenant db'"
      "item_states db' = item_states db1" "pending_count tenant db' = 0"
      using less.hyps [OF fewer db1(2,3,5)] by blast
    have "((\<lambda>st. fst (process_tenant_once env settings tenant limit st)) ^^ Suc n) (recent, db) = (recent, db')"
      using n(1) db1(1) by (simp add: funpow_Suc_right del: funpow.simps)
    then show ?thesis using n db1(4) fewer by (intro exI [of _ "Suc n"] exI [of _ db']) simp
  qed
qed

end
