(* ===== verification/Json.thy ===== *)
theory Json
  imports Py_Text
begin

text \<open>
  JSON values as \<open>json.loads\<close> returns them, Python's equality on them, the canonical form behind
  \<open>json.dumps(..., sort_keys=True)\<close>, and the iterative validation of catalog attributes.  A float is a
  real number or an infinity (\<open>1e999\<close>); \<open>NaN\<close> is refused while decoding.
\<close>

datatype json =
    JNull
  | JBool bool
  | JInt int
  | JFloat real
  | JInfinity bool
  | JString string
  | JArray "json list"
  | JObject "(string \<times> json) list"

type_synonym json_object = "(string \<times> json) list"

subsection \<open>Equality of values\<close>

text \<open>
  Python compares numbers by value, also across \<open>bool\<close>, \<open>int\<close> and \<open>float\<close>, and dictionaries without
  regard to the order of their keys.
\<close>

definition json_number :: "json \<Rightarrow> real option" where
  "json_number j = (case j of JBool b \<Rightarrow> Some (if b then 1 else 0) | JInt i \<Rightarrow> Some (of_int i)
     | JFloat r \<Rightarrow> Some r | _ \<Rightarrow> None)"

fun json_same :: "json \<Rightarrow> json \<Rightarrow> bool"
  and all_same :: "json list \<Rightarrow> json list \<Rightarrow> bool"
  and members_same :: "json_object \<Rightarrow> json_object \<Rightarrow> bool" where
  "json_same JNull j = (j = JNull)"
| "json_same (JBool b) j = (json_number j = Some (if b then 1 else 0))"
| "json_same (JInt i) j = (json_number j = Some (of_int i))"
| "json_same (JFloat r) j = (json_number j = Some r)"
| "json_same (JInfinity p) j = (j = JInfinity p)"
| "json_same (JString s) j = (j = JString s)"
| "json_same (JArray xs) j = (case j of JArray ys \<Rightarrow> all_same xs ys | _ \<Rightarrow> False)"
| "json_same (JObject ms) j =
     (case j of JObject ns \<Rightarrow> length ms = length ns \<and> members_same ms ns | _ \<Rightarrow> False)"
| "all_same [] ys = (ys = [])"
| "all_same (x # xs) ys = (case ys of [] \<Rightarrow> False | y # ys' \<Rightarrow> json_same x y \<and> all_same xs ys')"
| "members_same [] ns = True"
| "members_same ((k, v) # ms) ns =
     (case map_of ns k of None \<Rightarrow> False | Some w \<Rightarrow> json_same v w \<and> members_same ms ns)"

definition objects_same :: "json_object \<Rightarrow> json_object \<Rightarrow> bool" where
  "objects_same ms ns \<longleftrightarrow> json_same (JObject ms) (JObject ns)"

text \<open>The keys of a dictionary are distinct, at every level.\<close>

fun json_wf :: "json \<Rightarrow> bool" where
  "json_wf (JArray xs) = list_all json_wf xs"
| "json_wf (JObject ms) = (distinct (map fst ms) \<and> list_all (\<lambda>m. json_wf (snd m)) ms)"
| "json_wf _ = True"

abbreviation object_wf :: "json_object \<Rightarrow> bool" where
  "object_wf ms \<equiv> json_wf (JObject ms)"

lemma members_same_iff:
  "members_same ms ns \<longleftrightarrow> (\<forall>(k, v) \<in> set ms. \<exists>w. map_of ns k = Some w \<and> json_same v w)"
  by (induction ms) (auto split: option.splits)

lemma all_same_iff: "all_same xs ys \<longleftrightarrow> list_all2 json_same xs ys"
  by (induction xs arbitrary: ys) (auto split: list.splits)

lemma json_same_refl: "json_wf j \<Longrightarrow> json_same j j"
proof (induction j rule: json_wf.induct)
  case (1 xs)
  then show ?case by (simp add: all_same_iff list_all2_same list_all_iff)
next
  case (2 ms)
  then have "map_of ms k = Some v \<and> json_same v v" if "(k, v) \<in> set ms" for k v
    using that by (fastforce simp: list_all_iff)
  then show ?case by (auto simp: members_same_iff)
qed (simp_all add: json_number_def)

lemma objects_same_refl: "object_wf ms \<Longrightarrow> objects_same ms ms"
  unfolding objects_same_def by (rule json_same_refl)

lemma json_number_simps [simp]:
  "json_number (JBool b) = Some (if b then 1 else 0)" "json_number (JInt i) = Some (of_int i)"
  "json_number (JFloat r) = Some r" "json_number (JString s) = None" "json_number JNull = None"
  "json_number (JInfinity p) = None" "json_number (JArray xs) = None" "json_number (JObject ms) = None"
  by (simp_all add: json_number_def)

subsection \<open>The canonical form\<close>

text \<open>
  Two values have the same compact text with sorted keys exactly when these forms are equal, so the
  model compares the forms where the code compares the texts.
\<close>

fun json_canon :: "json \<Rightarrow> json" where
  "json_canon (JArray xs) = JArray (map json_canon xs)"
| "json_canon (JObject ms) = JObject (sort_key fst (map (\<lambda>(k, v). (k, json_canon v)) ms))"
| "json_canon j = j"

lemma json_canon_number: "json_number (json_canon j) = json_number j"
  by (cases j) simp_all

lemma map_of_canon_members:
  assumes "distinct (map fst ms)"
  shows "map_of (sort_key fst (map (\<lambda>(k, v). (k, json_canon v)) ms)) k = map_option json_canon (map_of ms k)"
proof -
  let ?cs = "map (\<lambda>(k, v). (k, json_canon v)) ms"
  have keys: "map fst ?cs = map fst ms" by (simp add: case_prod_beta comp_def)
  have d: "distinct (map fst ?cs)" by (simp only: keys assms)
  then have e: "distinct (map fst (sort_key fst ?cs))" by (simp only: distinct_map distinct_sort set_sort)
  have "map_of (sort_key fst ?cs) = map_of ?cs" using map_of_inject_set [OF e d] by simp
  moreover have "map_of ?cs k = map_option json_canon (map_of ms k)" by (induction ms) auto
  ultimately show ?thesis by simp
qed

lemma json_canon_leaf [simp]:
  "json_canon y = JNull \<longleftrightarrow> y = JNull" "json_canon y = JInfinity p \<longleftrightarrow> y = JInfinity p"
  "json_canon y = JString s \<longleftrightarrow> y = JString s"
  by (cases y; simp)+

text \<open>Equality sees a value only through its canonical form.\<close>

lemma json_same_canon: "json_wf y \<Longrightarrow> json_same x (json_canon y) = json_same x y"
proof (induction x arbitrary: y)
  case (JArray xs)
  show ?case
  proof (cases y)
    case (JArray ys)
    then have "list_all2 json_same xs (map json_canon ys) = list_all2 json_same xs ys"
      using JArray.IH JArray.prems by (auto simp: list_all2_conv_all_nth list_all_length)
    then show ?thesis using JArray by (simp add: all_same_iff)
  qed simp_all
next
  case (JObject ms)
  show ?case
  proof (cases y)
    case ns: (JObject ns)
    have member: "(\<exists>w. map_of (sort_key fst (map (\<lambda>(k, v). (k, json_canon v)) ns)) k = Some w \<and> json_same v w) \<longleftrightarrow>
        (\<exists>w. map_of ns k = Some w \<and> json_same v w)" if "(k, v) \<in> set ms" for k v
    proof -
      have IH: "json_same v (json_canon w) = json_same v w" if "map_of ns k = Some w" for w
        using JObject.IH [of "(k, v)" v w] \<open>(k, v) \<in> set ms\<close> map_of_SomeD [OF that] JObject.prems ns
        by (auto simp: list_all_iff)
      show ?thesis using JObject.prems ns IH by (auto simp: map_of_canon_members)
    qed
    have "members_same ms (sort_key fst (map (\<lambda>(k, v). (k, json_canon v)) ns)) = members_same ms ns"
      unfolding members_same_iff by (rule ball_cong [OF refl]) (use member in auto)
    then show ?thesis using ns by simp
  qed simp_all
qed (simp_all add: json_canon_number json_canon_leaf)

lemma objects_same_canon:
  assumes "json_canon (JObject ms) = json_canon (JObject ns)" "object_wf ms" "object_wf ns"
  shows "objects_same as ms = objects_same as ns"
  using json_same_canon [OF assms(2), of "JObject as"] json_same_canon [OF assms(3), of "JObject as"] assms(1)
  unfolding objects_same_def by (simp only:)

subsection \<open>Validation of attribute values\<close>

definition max_attribute_json_depth :: nat where
  "max_attribute_json_depth = 64"

definition json_children :: "json \<Rightarrow> json list" where
  "json_children j = (case j of JArray xs \<Rightarrow> xs | JObject ms \<Rightarrow> map snd ms | _ \<Rightarrow> [])"

definition non_finite :: "json \<Rightarrow> bool" where
  "non_finite j = (case j of JInfinity _ \<Rightarrow> True | _ \<Rightarrow> False)"

lemma size_children: "sum_list (map (Suc \<circ> size) (json_children j)) \<le> size j"
proof (cases j)
  case (JArray xs)
  then show ?thesis by (simp add: json_children_def size_list_conv_sum_list comp_def sum_list_Suc)
next
  case (JObject ms)
  have "sum_list (map (Suc \<circ> size \<circ> snd) ms) \<le> size_list (size_prod (\<lambda>_. 0) size) ms"
    by (induction ms) auto
  then show ?thesis using JObject by (simp add: json_children_def comp_def)
qed (simp_all add: json_children_def)

text \<open>The work list, its top at the head: children are pushed in order and the last one is taken next.\<close>

function validate_json :: "(json \<times> nat) list \<Rightarrow> unit outcome" where
  "validate_json [] = Inr ()"
| "validate_json ((item, depth) # pending) =
     (if max_attribute_json_depth < depth then Inl (ValueError ''nested JSON levels'')
      else if non_finite item then Inl (ValueError ''non-finite JSON number'')
      else validate_json (map (\<lambda>child. (child, depth + 1)) (rev (json_children item)) @ pending))"
  by pat_completeness auto
termination
proof (relation "measure (\<lambda>pending. sum_list (map (Suc \<circ> size \<circ> fst) pending))")
  fix item :: json and depth :: nat and pending :: "(json \<times> nat) list"
  have "sum_list (map (Suc \<circ> size \<circ> fst) (map (\<lambda>child. (child, depth + 1)) (rev (json_children item)))) \<le> size item"
    using size_children [of item] by (simp add: comp_def rev_map [symmetric])
  then show "(map (\<lambda>child. (child, depth + 1)) (rev (json_children item)) @ pending, (item, depth) # pending)
      \<in> measure (\<lambda>pending. sum_list (map (Suc \<circ> size \<circ> fst) pending))"
    by (simp add: comp_def)
qed simp

definition validate_json_value :: "json \<Rightarrow> unit outcome" where
  "validate_json_value j = validate_json [(j, 0)]"

text \<open>What the loop decides: every value lies within the depth bound and none is infinite.\<close>

fun json_fits :: "nat \<Rightarrow> json \<Rightarrow> bool" where
  "json_fits n (JArray xs) = list_all (\<lambda>x. 0 < n \<and> json_fits (n - 1) x) xs"
| "json_fits n (JObject ms) = list_all (\<lambda>m. 0 < n \<and> json_fits (n - 1) (snd m)) ms"
| "json_fits n (JInfinity _) = False"
| "json_fits n _ = True"

lemma json_fits_children:
  "json_fits n j \<longleftrightarrow> \<not> non_finite j \<and> list_all (\<lambda>x. 0 < n \<and> json_fits (n - 1) x) (json_children j)"
  by (cases j) (simp_all add: json_children_def list_all_iff non_finite_def)

definition fits_at :: "json \<times> nat \<Rightarrow> bool" where
  "fits_at p \<longleftrightarrow> snd p \<le> max_attribute_json_depth \<and> json_fits (max_attribute_json_depth - snd p) (fst p)"

lemma fits_at_iff:
  "fits_at (item, depth) \<longleftrightarrow> depth \<le> max_attribute_json_depth \<and> \<not> non_finite item \<and>
     list_all fits_at (map (\<lambda>child. (child, depth + 1)) (rev (json_children item)))"
  by (auto simp: fits_at_def json_fits_children [of _ item] list_all_iff)

lemma validate_json_ok: "validate_json pending = Inr () \<longleftrightarrow> list_all fits_at pending"
proof (induction pending rule: validate_json.induct)
  case (2 item depth pending)
  then show ?case using fits_at_iff [of item depth] by simp
qed simp

lemma validate_json_value_ok: "validate_json_value j = Inr () \<longleftrightarrow> json_fits max_attribute_json_depth j"
  by (simp add: validate_json_value_def validate_json_ok fits_at_def del: validate_json.simps)

end
