(* ===== verification/Access.thy ===== *)
theory Access
  imports Tables Json
begin

text \<open>
  Authorization of \<open>security.py\<close>: the role tables, the scopes of a principal, and how a verified
  access token is turned into a principal and into the row-level store scope pinned to its session.
  Decoding the token itself is PyJWT's; its verified claims are an argument here.
\<close>

subsection \<open>Permissions and roles\<close>

datatype permission =
    TENANT_CONFIGURE | USERS_CREATE | USERS_READ | USERS_SUSPEND | IDENTITY_AUDIT_READ
  | CATALOG_INGEST | CATALOG_READ | INVENTORY_ADJUST | INVENTORY_READ
  | POLICY_READ | POLICY_MANAGE
  | REPLENISHMENT_READ | REPLENISHMENT_MANAGE | REPLENISHMENT_EXECUTE

datatype legacy_role = CORPORATE_ADMIN | LEGACY_STORE_MANAGER | LEGACY_STORE_ASSOCIATE

datatype canonical_role = STORE_ASSOCIATE | STORE_MANAGER | CORPORATE_USER | TENANT_ADMIN

datatype authorization_role = Legacy legacy_role | Canonical canonical_role

definition all_permissions :: "permission list" where
  "all_permissions =
     [TENANT_CONFIGURE, USERS_CREATE, USERS_READ, USERS_SUSPEND, IDENTITY_AUDIT_READ,
      CATALOG_INGEST, CATALOG_READ, INVENTORY_ADJUST, INVENTORY_READ, POLICY_READ, POLICY_MANAGE,
      REPLENISHMENT_READ, REPLENISHMENT_MANAGE, REPLENISHMENT_EXECUTE]"

definition store_manager_permissions :: "permission list" where
  "store_manager_permissions =
     [USERS_CREATE, USERS_READ, USERS_SUSPEND, CATALOG_READ, INVENTORY_ADJUST, INVENTORY_READ,
      POLICY_READ, REPLENISHMENT_READ, REPLENISHMENT_MANAGE, REPLENISHMENT_EXECUTE]"

definition store_associate_permissions :: "permission list" where
  "store_associate_permissions =
     [CATALOG_READ, INVENTORY_READ, POLICY_READ, REPLENISHMENT_READ, REPLENISHMENT_EXECUTE]"

fun role_permissions :: "authorization_role \<Rightarrow> permission list" where
  "role_permissions (Legacy CORPORATE_ADMIN) = all_permissions"
| "role_permissions (Legacy LEGACY_STORE_MANAGER) = store_manager_permissions"
| "role_permissions (Legacy LEGACY_STORE_ASSOCIATE) = store_associate_permissions"
| "role_permissions (Canonical TENANT_ADMIN) = all_permissions"
| "role_permissions (Canonical CORPORATE_USER) =
     [CATALOG_READ, INVENTORY_READ, POLICY_READ, REPLENISHMENT_READ]"
| "role_permissions (Canonical STORE_MANAGER) = store_manager_permissions"
| "role_permissions (Canonical STORE_ASSOCIATE) = store_associate_permissions"

text \<open>The value of a \<open>StrEnum\<close> member, by which the code orders roles.\<close>

fun role_value :: "canonical_role \<Rightarrow> string" where
  "role_value STORE_ASSOCIATE = ''STORE_ASSOCIATE''"
| "role_value STORE_MANAGER = ''STORE_MANAGER''"
| "role_value CORPORATE_USER = ''CORPORATE_USER''"
| "role_value TENANT_ADMIN = ''TENANT_ADMIN''"

lemma role_value_inj: "role_value a = role_value b \<Longrightarrow> a = b"
  by (cases a; cases b) auto

instantiation canonical_role :: linorder
begin

definition less_eq_canonical_role :: "canonical_role \<Rightarrow> canonical_role \<Rightarrow> bool" where
  "less_eq_canonical_role a b \<longleftrightarrow> role_value a \<le> role_value b"

definition less_canonical_role :: "canonical_role \<Rightarrow> canonical_role \<Rightarrow> bool" where
  "less_canonical_role a b \<longleftrightarrow> role_value a < role_value b"

instance
  by standard
    (auto simp: less_eq_canonical_role_def less_canonical_role_def intro: role_value_inj)

end

subsection \<open>Principals\<close>

record role_scope =
  sc_role :: authorization_role
  sc_store :: "uuid option"

record principal =
  pr_user :: uuid
  pr_tenant :: uuid
  pr_email :: string
  pr_display_name :: string
  pr_scopes :: "role_scope list"
  pr_canonical_roles :: "canonical_role list"
  pr_assigned_stores :: "uuid list"
  pr_session :: "uuid option"

definition permissions_of :: "principal \<Rightarrow> permission list" where
  "permissions_of p = concat (map (\<lambda>scope. role_permissions (sc_role scope)) (pr_scopes p))"

definition has_permission :: "principal \<Rightarrow> permission \<Rightarrow> bool" where
  "has_permission p perm \<longleftrightarrow> perm \<in> set (permissions_of p)"

definition has_tenant_permission :: "principal \<Rightarrow> permission \<Rightarrow> bool" where
  "has_tenant_permission p perm \<longleftrightarrow>
     list_ex (\<lambda>scope. sc_store scope = None \<and> perm \<in> set (role_permissions (sc_role scope)))
       (pr_scopes p)"

definition store_ids_for_permission :: "principal \<Rightarrow> permission \<Rightarrow> uuid list" where
  "store_ids_for_permission p perm =
     List.map_filter
       (\<lambda>scope. if perm \<in> set (role_permissions (sc_role scope)) then sc_store scope else None)
       (pr_scopes p)"

definition can_access_store :: "principal \<Rightarrow> permission \<Rightarrow> uuid \<Rightarrow> bool" where
  "can_access_store p perm store \<longleftrightarrow>
     has_tenant_permission p perm \<or> store \<in> set (store_ids_for_permission p perm)"

lemma has_permission_iff:
  "has_permission p perm \<longleftrightarrow>
     (\<exists>scope \<in> set (pr_scopes p). perm \<in> set (role_permissions (sc_role scope)))"
  by (auto simp: has_permission_def permissions_of_def)

lemma has_tenant_permission_iff:
  "has_tenant_permission p perm \<longleftrightarrow>
     (\<exists>scope \<in> set (pr_scopes p).
        sc_store scope = None \<and> perm \<in> set (role_permissions (sc_role scope)))"
  by (simp add: has_tenant_permission_def list_ex_iff)

lemma store_ids_for_permission_iff:
  "store \<in> set (store_ids_for_permission p perm) \<longleftrightarrow>
     (\<exists>scope \<in> set (pr_scopes p).
        sc_store scope = Some store \<and> perm \<in> set (role_permissions (sc_role scope)))"
  by (force simp: store_ids_for_permission_def List.map_filter_def split: if_splits)

lemmas scope_iffs =
  has_permission_iff has_tenant_permission_iff store_ids_for_permission_iff can_access_store_def

lemma can_access_store_has_permission: "can_access_store p perm store \<Longrightarrow> has_permission p perm"
  by (auto simp: scope_iffs)

lemma only_administrators:
  "perm \<in> {TENANT_CONFIGURE, IDENTITY_AUDIT_READ, CATALOG_INGEST, POLICY_MANAGE} \<Longrightarrow>
     perm \<in> set (role_permissions role) \<Longrightarrow>
     role \<in> {Legacy CORPORATE_ADMIN, Canonical TENANT_ADMIN}"
  by (induction role rule: role_permissions.induct)
    (auto simp: store_manager_permissions_def store_associate_permissions_def)

subsection \<open>From a verified token to a principal\<close>

datatype user_status = USER_ACTIVE | USER_SUSPENDED

record user_row =
  us_id :: uuid
  us_tenant :: uuid
  us_email :: string
  us_display_name :: string
  us_password_hash :: string
  us_status :: user_status
  us_token_version :: int
  us_last_login_at :: "timestamp option"

record auth_session =
  se_id :: uuid
  se_tenant :: uuid
  se_user :: uuid
  se_family :: uuid
  se_refresh_hash :: string
  se_token_version :: int
  se_expires_at :: timestamp
  se_last_used_at :: "timestamp option"
  se_rotated_at :: "timestamp option"
  se_revoked_at :: "timestamp option"

record access_grant =
  ag_tenant :: uuid
  ag_user :: uuid
  ag_role :: legacy_role
  ag_store :: "uuid option"

record user_role_row =
  ur_tenant :: uuid
  ur_user :: uuid
  ur_role :: canonical_role

record store_assignment =
  ua_tenant :: uuid
  ua_user :: uuid
  ua_store :: uuid

datatype audit_action =
  LOGIN_SUCCEEDED | LOGIN_FAILED | USER_CREATED | USER_WAS_SUSPENDED | USER_ACCESS_CHANGED

record audit_record =
  au_id :: uuid
  au_tenant :: uuid
  au_actor :: "uuid option"
  au_action :: audit_action
  au_target :: "uuid option"
  au_details :: json_object
  au_occurred_at :: timestamp

record tenant_row =
  tn_id :: uuid
  tn_code :: string
  tn_name :: string
  tn_status :: tenant_status

record identity_db =
  id_tenants :: "tenant_row list"
  id_stores :: "store_row list"
  id_users :: "user_row list"
  id_sessions :: "auth_session list"
  id_grants :: "access_grant list"
  id_roles :: "user_role_row list"
  id_assignments :: "store_assignment list"
  id_audit :: "audit_record list"

definition tenant_status_in :: "identity_db \<Rightarrow> uuid \<Rightarrow> tenant_status option" where
  "tenant_status_in db tenant = map_option tn_status (get_by tn_id tenant (id_tenants db))"

record access_claims =
  ac_user :: uuid
  ac_tenant :: uuid
  ac_token_version :: int
  ac_session :: "uuid option"

fun legacy_value :: "legacy_role \<Rightarrow> string" where
  "legacy_value CORPORATE_ADMIN = ''CORPORATE_ADMIN''"
| "legacy_value LEGACY_STORE_MANAGER = ''STORE_MANAGER''"
| "legacy_value LEGACY_STORE_ASSOCIATE = ''STORE_ASSOCIATE''"

text \<open>\<open>ORDER BY role, store_id\<close>: ascending order puts a missing store last.\<close>

definition grant_order :: "access_grant \<Rightarrow> string \<times> bool \<times> uuid" where
  "grant_order g =
     (legacy_value (ag_role g), ag_store g = None, case ag_store g of None \<Rightarrow> 0 | Some s \<Rightarrow> s)"

text \<open>The scope pinned to the session: tenant-wide, or a set of stores.\<close>

datatype store_scope = TenantWide | Stores "uuid list"

fun scope_allows :: "store_scope \<Rightarrow> uuid \<Rightarrow> bool" where
  "scope_allows TenantWide store = True"
| "scope_allows (Stores ids) store = (store \<in> set ids)"

definition invalid_access_token :: fault where
  "invalid_access_token = ApiError 401 ''invalid_access_token''"

definition tenant_wide_role :: "canonical_role \<Rightarrow> bool" where
  "tenant_wide_role role \<longleftrightarrow> role = TENANT_ADMIN \<or> role = CORPORATE_USER"

fun canonical_of_legacy :: "legacy_role \<Rightarrow> canonical_role" where
  "canonical_of_legacy CORPORATE_ADMIN = TENANT_ADMIN"
| "canonical_of_legacy LEGACY_STORE_MANAGER = STORE_MANAGER"
| "canonical_of_legacy LEGACY_STORE_ASSOCIATE = STORE_ASSOCIATE"

definition session_valid :: "identity_db \<Rightarrow> access_claims \<Rightarrow> timestamp \<Rightarrow> bool" where
  "session_valid db claims now =
     (case ac_session claims of
        None \<Rightarrow> True
      | Some sid \<Rightarrow>
          (case get_by se_id sid (id_sessions db) of
             None \<Rightarrow> False
           | Some s \<Rightarrow>
               se_tenant s = ac_tenant claims \<and> se_user s = ac_user claims \<and>
               se_token_version s = ac_token_version claims \<and>
               se_revoked_at s = None \<and> se_rotated_at s = None \<and> now < se_expires_at s))"

definition canonical_scopes :: "canonical_role list \<Rightarrow> uuid list \<Rightarrow> role_scope list" where
  "canonical_scopes roles assigned =
     concat (map (\<lambda>role.
       map (\<lambda>store. \<lparr>sc_role = Canonical role, sc_store = store\<rparr>)
         (if tenant_wide_role role then [None] else map Some assigned)) roles)"

definition get_current_principal ::
    "identity_db \<Rightarrow> access_claims \<Rightarrow> timestamp \<Rightarrow> (principal \<times> store_scope) outcome" where
  "get_current_principal db claims now =
     (case select_one (\<lambda>u. us_id u = ac_user claims \<and> us_tenant u = ac_tenant claims) (id_users db) of
        None \<Rightarrow> Inl invalid_access_token
      | Some user \<Rightarrow>
          if us_status user \<noteq> USER_ACTIVE \<or>
             us_token_version user \<noteq> ac_token_version claims \<or>
             tenant_status_in db (ac_tenant claims) \<noteq> Some TENANT_ACTIVE \<or>
             \<not> session_valid db claims now
          then Inl invalid_access_token
          else
            let held = sort_key grant_order
                  (filter (\<lambda>g. ag_tenant g = ac_tenant claims \<and> ag_user g = ac_user claims)
                    (id_grants db));
                grants = map (\<lambda>g. \<lparr>sc_role = Legacy (ag_role g), sc_store = ag_store g\<rparr>) held;
                legacy_roles = map ag_role held;
                roles =
                  sort (map ur_role
                    (filter (\<lambda>r. ur_tenant r = ac_tenant claims \<and> ur_user r = ac_user claims)
                      (id_roles db)));
                assigned =
                  sort (map ua_store
                    (filter (\<lambda>a. ua_tenant a = ac_tenant claims \<and> ua_user a = ac_user claims)
                      (id_assignments db)));
                canonical =
                  (if roles \<noteq> [] then roles
                   else sort (remdups (map canonical_of_legacy legacy_roles)));
                stores =
                  (if roles \<noteq> [] then assigned
                   else sort (remdups (List.map_filter sc_store grants)));
                scopes = (if roles \<noteq> [] then canonical_scopes roles assigned else grants)
            in if canonical = [] then Inl invalid_access_token
               else Inr
                 (\<lparr>pr_user = us_id user, pr_tenant = us_tenant user, pr_email = us_email user,
                   pr_display_name = us_display_name user, pr_scopes = scopes,
                   pr_canonical_roles = canonical, pr_assigned_stores = stores,
                   pr_session = ac_session claims\<rparr>,
                  if list_ex tenant_wide_role canonical then TenantWide else Stores stores))"

text \<open>
  The bearer credentials of a request: a scheme and a token, whose verified claims \<open>decode\<close> returns
  (PyJWT's part); a missing header, another scheme and an invalid token are rejected alike.
\<close>

definition bearer_claims ::
    "(string \<Rightarrow> access_claims option) \<Rightarrow> (string \<times> string) option \<Rightarrow> access_claims outcome" where
  "bearer_claims decode credentials =
     (case credentials of
        None \<Rightarrow> Inl invalid_access_token
      | Some (scheme, token) \<Rightarrow>
          if str_lower scheme \<noteq> ''bearer'' then Inl invalid_access_token
          else (case decode token of None \<Rightarrow> Inl invalid_access_token | Some claims \<Rightarrow> Inr claims))"

definition principal_of_request ::
    "(string \<Rightarrow> access_claims option) \<Rightarrow> (string \<times> string) option \<Rightarrow> identity_db \<Rightarrow> timestamp
       \<Rightarrow> (principal \<times> store_scope) outcome" where
  "principal_of_request decode credentials db now =
     and_then (bearer_claims decode credentials) (\<lambda>claims. get_current_principal db claims now)"

definition require_permission :: "permission \<Rightarrow> principal \<Rightarrow> principal outcome" where
  "require_permission perm p =
     (if has_permission p perm then Inr p else Inl (ApiError 403 ''permission_denied''))"

text \<open>
  The check constraint of \<open>user_access_grants\<close>: corporate administrators and nobody else hold
  grants without a store.
\<close>

definition grants_well_scoped :: "identity_db \<Rightarrow> bool" where
  "grants_well_scoped db \<longleftrightarrow>
     list_all (\<lambda>g. ag_store g = None \<longleftrightarrow> ag_role g = CORPORATE_ADMIN) (id_grants db)"

lemma canonical_scopes_iff:
  "scope \<in> set (canonical_scopes roles assigned) \<longleftrightarrow>
     (\<exists>role \<in> set roles. sc_role scope = Canonical role \<and>
        (if tenant_wide_role role then sc_store scope = None
         else \<exists>store \<in> set assigned. sc_store scope = Some store))"
  by (cases scope) (auto simp: canonical_scopes_def image_iff split: if_splits)

lemma get_current_principal_fields:
  assumes "get_current_principal db claims now = Inr (p, scope)"
  shows "pr_tenant p = ac_tenant claims" "pr_user p = ac_user claims"
    "pr_canonical_roles p \<noteq> []" "session_valid db claims now"
    "scope = (if list_ex tenant_wide_role (pr_canonical_roles p) then TenantWide
              else Stores (pr_assigned_stores p))"
  using assms
  by (auto simp: get_current_principal_def Let_def split: option.splits if_splits
      dest: select_one_SomeD)

text \<open>
  Every scope of a principal is tenant-wide because of a tenant-wide role, or lies in the stores
  the principal is assigned to.
\<close>

lemma scopes_within_assignment:
  assumes p: "get_current_principal db claims now = Inr (p, scope)"
    and wf: "grants_well_scoped db" and s: "s \<in> set (pr_scopes p)"
  shows "case sc_store s of
           None \<Rightarrow> list_ex tenant_wide_role (pr_canonical_roles p)
         | Some store \<Rightarrow> store \<in> set (pr_assigned_stores p)"
proof -
  define mine where
    "mine = sort_key grant_order
       (filter (\<lambda>g. ag_tenant g = ac_tenant claims \<and> ag_user g = ac_user claims) (id_grants db))"
  define roles where
    "roles = sort (map ur_role
       (filter (\<lambda>r. ur_tenant r = ac_tenant claims \<and> ur_user r = ac_user claims) (id_roles db)))"
  define assigned where
    "assigned = sort (map ua_store
       (filter (\<lambda>a. ua_tenant a = ac_tenant claims \<and> ua_user a = ac_user claims)
         (id_assignments db)))"
  show ?thesis
  proof (cases "roles = []")
    case False
    with p have "pr_scopes p = canonical_scopes roles assigned" "pr_canonical_roles p = roles"
      "pr_assigned_stores p = assigned"
      by (auto simp: get_current_principal_def Let_def roles_def [symmetric] assigned_def [symmetric]
          split: option.splits if_splits)
    with s show ?thesis
      by (auto simp: canonical_scopes_iff list_ex_iff split: if_splits)
  next
    case True
    with p have scopes: "pr_scopes p = map (\<lambda>g. \<lparr>sc_role = Legacy (ag_role g), sc_store = ag_store g\<rparr>) mine"
      "set (pr_canonical_roles p) = canonical_of_legacy ` ag_role ` set mine"
      "set (pr_assigned_stores p) = set (List.map_filter sc_store (pr_scopes p))"
      by (auto simp: get_current_principal_def Let_def roles_def [symmetric] assigned_def [symmetric]
          mine_def split: option.splits if_splits)
    from s scopes(1) obtain g where g: "g \<in> set mine" "sc_store s = ag_store g" by auto
    with wf have role: "ag_store g = None \<longleftrightarrow> ag_role g = CORPORATE_ADMIN"
      by (auto simp: grants_well_scoped_def mine_def list_all_iff)
    show ?thesis
    proof (cases "ag_store g")
      case None
      with role g scopes(2) have "TENANT_ADMIN \<in> set (pr_canonical_roles p)" by force
      then show ?thesis using None g(2) by (auto simp: list_ex_iff tenant_wide_role_def)
    next
      case (Some store)
      then have "store \<in> set (List.map_filter sc_store (pr_scopes p))"
        using s g(2) by (force simp: List.map_filter_def)
      then show ?thesis using Some g(2) scopes(3) by simp
    qed
  qed
qed

subsection \<open>Properties\<close>

lemma sort_key_Nil_iff: "sort_key k xs = [] \<longleftrightarrow> xs = []"
  by (metis length_0_conv length_sort)

definition holds_role :: "identity_db \<Rightarrow> access_claims \<Rightarrow> bool" where
  "holds_role db claims \<longleftrightarrow>
     list_ex (\<lambda>g. ag_tenant g = ac_tenant claims \<and> ag_user g = ac_user claims) (id_grants db) \<or>
     list_ex (\<lambda>r. ur_tenant r = ac_tenant claims \<and> ur_user r = ac_user claims) (id_roles db)"

text \<open>
  C37: The row-level scope pinned to the database session never lags behind the grants: every store a
  principal may act on, under any permission and whether its role comes from a legacy grant or a
  canonical role, is inside the scope pinned for its request.
\<close>

theorem pinned_scope_covers_grants:
  assumes "principal_of_request decode credentials db now = Inr (p, scope)"
    and "grants_well_scoped db"
  shows "can_access_store p perm store \<longrightarrow> scope_allows scope store"
proof
  assume access: "can_access_store p perm store"
  obtain claims where got: "get_current_principal db claims now = Inr (p, scope)"
    using assms(1) by (auto simp: principal_of_request_def and_then_Inr_iff)
  obtain s where s: "s \<in> set (pr_scopes p)" "sc_store s = None \<or> sc_store s = Some store"
    using access by (auto simp: scope_iffs)
  show "scope_allows scope store"
    using scopes_within_assignment [OF got assms(2) s(1)] s(2) get_current_principal_fields(5) [OF got]
    by (auto split: if_splits)
qed

definition sample_identities :: identity_db where
  "sample_identities =
     \<lparr>id_tenants = [\<lparr>tn_id = 1, tn_code = ''acme'', tn_name = ''Acme'', tn_status = TENANT_ACTIVE\<rparr>],
      id_stores = [],
      id_users = [\<lparr>us_id = 7, us_tenant = 1, us_email = ''m@x'', us_display_name = ''M'',
                   us_password_hash = ''h'', us_status = USER_ACTIVE, us_token_version = 1,
                   us_last_login_at = None\<rparr>],
      id_sessions = [\<lparr>se_id = 9, se_tenant = 1, se_user = 7, se_family = 8, se_refresh_hash = ''r'',
                      se_token_version = 1, se_expires_at = 100, se_last_used_at = None,
                      se_rotated_at = None, se_revoked_at = None\<rparr>],
      id_grants = [], id_roles = [\<lparr>ur_tenant = 1, ur_user = 7, ur_role = STORE_MANAGER\<rparr>],
      id_assignments = [\<lparr>ua_tenant = 1, ua_user = 7, ua_store = 3\<rparr>], id_audit = []\<rparr>"

definition sample_claims :: access_claims where
  "sample_claims = \<lparr>ac_user = 7, ac_tenant = 1, ac_token_version = 1, ac_session = Some 9\<rparr>"

definition sample_principal :: principal where
  "sample_principal =
     \<lparr>pr_user = 7, pr_tenant = 1, pr_email = ''m@x'', pr_display_name = ''M'',
      pr_scopes = [\<lparr>sc_role = Canonical STORE_MANAGER, sc_store = Some 3\<rparr>],
      pr_canonical_roles = [STORE_MANAGER], pr_assigned_stores = [3], pr_session = Some 9\<rparr>"

lemma sample_request:
  "principal_of_request (\<lambda>_. Some sample_claims) (Some (''Bearer'', ''t'')) sample_identities 50
     = Inr (sample_principal, Stores [3])"
  by code_simp

theorem pinned_scope_covers_grants_witness:
  "can_access_store sample_principal INVENTORY_ADJUST 3 \<and> scope_allows (Stores [3]) 3"
proof
  show access: "can_access_store sample_principal INVENTORY_ADJUST 3" by code_simp
  have "grants_well_scoped sample_identities" by code_simp
  from pinned_scope_covers_grants [OF sample_request this, of INVENTORY_ADJUST 3] access
  show "scope_allows (Stores [3]) 3" by blast
qed

text \<open>
  A token is accepted exactly when its user exists, is active and still has the token's version,
  its tenant is active, its session (if it names one) is the user's own, unexpired and neither
  rotated nor revoked, and the user holds a role; in every other case the request is rejected with
  the one fault that says nothing about which check failed.
\<close>

theorem principal_exactly_when_entitled:
  "get_current_principal db claims now =
     (if (\<exists>user. select_one (\<lambda>u. us_id u = ac_user claims \<and> us_tenant u = ac_tenant claims) (id_users db)
             = Some user \<and> us_status user = USER_ACTIVE \<and> us_token_version user = ac_token_version claims) \<and>
         tenant_status_in db (ac_tenant claims) = Some TENANT_ACTIVE \<and>
         session_valid db claims now \<and> holds_role db claims
      then Inr (projr (get_current_principal db claims now))
      else Inl invalid_access_token)"
proof -
  have none: "filter P xs = [] \<longleftrightarrow> \<not> list_ex P xs" for P :: "'a \<Rightarrow> bool" and xs
    by (induction xs) auto
  show ?thesis
    unfolding get_current_principal_def Let_def
    by (auto simp: sort_key_Nil_iff none holds_role_def split: option.split)
qed

end
