(* ===== verification/Policies.thy ===== *)
theory Policies
  imports Access Tables Codes
begin

text \<open>
  Replenishment policies of \<open>services/replenishment.py\<close>: which rule of the active policies applies to
  an item, when two rules overlap, and the life of policy versions from draft to active to retired.
  Every service is one transaction over the policy tables; it returns a fault and changes nothing, or
  the new tables.  Text is ASCII, so \<open>casefold\<close> is lowercasing.
\<close>

subsection \<open>Rows\<close>

datatype version_status = VERSION_DRAFT | VERSION_ACTIVE | VERSION_RETIRED

record policy_definition =
  po_tenant :: uuid
  po_id :: uuid
  po_name :: string
  po_description :: "string option"
  po_updated_at :: timestamp

record policy_version =
  pv_tenant :: uuid
  pv_id :: uuid
  pv_policy :: uuid
  pv_number :: int
  pv_status :: version_status
  pv_activated_at :: "timestamp option"
  pv_activated_by :: "uuid option"

record policy_rule =
  rl_tenant :: uuid
  rl_id :: uuid
  rl_version :: uuid
  rl_store :: "uuid option"
  rl_category :: "string option"
  rl_style :: "string option"
  rl_sku :: "uuid option"
  rl_size :: "string option"
  rl_min :: int
  rl_target :: int
  rl_priority :: int

definition rule_checks :: "policy_rule \<Rightarrow> bool" where
  "rule_checks r \<longleftrightarrow>
     0 \<le> rl_min r \<and> rl_min r \<le> rl_target r \<and>
     length (filter (\<lambda>b. b) [rl_category r \<noteq> None, rl_style r \<noteq> None, rl_sku r \<noteq> None]) \<le> 1 \<and>
     (rl_size r = None \<or> rl_sku r \<noteq> None)"

text \<open>What the catalog must say about the selectors of a rule.\<close>

record product =
  pd_tenant :: uuid
  pd_id :: uuid
  pd_style_code :: string
  pd_category :: string
  pd_active :: bool

record variant =
  va_tenant :: uuid
  va_id :: uuid
  va_product :: uuid
  va_color :: string

record sku =
  sk_tenant :: uuid
  sk_id :: uuid
  sk_variant :: "uuid option"
  sk_size :: string
  sk_active :: bool

record policy_db =
  policies :: "policy_definition list"
  versions :: "policy_version list"
  rules :: "policy_rule list"
  products :: "product list"
  variants :: "variant list"
  skus :: "sku list"

subsection \<open>Rules and items\<close>

record rule_descriptor =
  rd_id :: "uuid option"
  rd_version :: "uuid option"
  rd_store :: "uuid option"
  rd_category :: "string option"
  rd_style :: "string option"
  rd_sku :: "uuid option"
  rd_size :: "string option"
  rd_min :: int
  rd_target :: int
  rd_priority :: int

record sku_context =
  sx_sku :: uuid
  sx_style :: string
  sx_category :: string
  sx_size :: string

record rule_write =
  rw_store :: "uuid option"
  rw_category :: "string option"
  rw_style :: "string option"
  rw_sku :: "uuid option"
  rw_size :: "string option"
  rw_min :: int
  rw_target :: int
  rw_priority :: int

definition descriptor_of_rule :: "policy_rule \<Rightarrow> rule_descriptor" where
  "descriptor_of_rule r =
     \<lparr>rd_id = Some (rl_id r), rd_version = Some (rl_version r), rd_store = rl_store r,
      rd_category = rl_category r, rd_style = rl_style r, rd_sku = rl_sku r, rd_size = rl_size r,
      rd_min = rl_min r, rd_target = rl_target r, rd_priority = rl_priority r\<rparr>"

definition descriptor_of_write :: "rule_write \<Rightarrow> rule_descriptor" where
  "descriptor_of_write w =
     \<lparr>rd_id = None, rd_version = None, rd_store = rw_store w, rd_category = rw_category w,
      rd_style = rw_style w, rd_sku = rw_sku w, rd_size = rw_size w, rd_min = rw_min w,
      rd_target = rw_target w, rd_priority = rw_priority w\<rparr>"

subsection \<open>The request schemas\<close>

definition label :: "string \<Rightarrow> string outcome" where
  "label text_value =
     (let normalized = join_words (split_words [] (strip text_value))
      in if normalized = [] then Inl (ValueError ''cannot be blank'') else Inr normalized)"

fun optional_label :: "nat \<Rightarrow> (string \<Rightarrow> string) \<Rightarrow> string option \<Rightarrow> string option outcome" where
  "optional_label limit finish None = Inr None"
| "optional_label limit finish (Some text_value) =
     (if limit < length text_value then Inl (ValueError ''too long'')
      else and_then (label text_value) (\<lambda>l. Inr (Some (finish l))))"

definition validate_selector :: "rule_write \<Rightarrow> rule_write outcome" where
  "validate_selector w =
     (let selector_count = length (filter (\<lambda>b. b) [rw_category w \<noteq> None, rw_style w \<noteq> None, rw_sku w \<noteq> None])
      in if 1 < selector_count then Inl (ValueError ''multiple selectors'')
         else if rw_size w \<noteq> None \<and> rw_sku w = None then Inl (ValueError ''size requires sku_id'')
         else if rw_store w \<noteq> None \<and> selector_count = 0
         then Inl (ValueError ''store-default rules are outside the defined precedence'')
         else if rw_target w < rw_min w
         then Inl (ValueError ''target_floor_qty must be at least min_floor_qty'')
         else Inr w)"

definition validate_rule_write :: "rule_write \<Rightarrow> rule_write outcome" where
  "validate_rule_write w =
     (if rw_min w < 0 \<or> rw_target w < 0 \<or> rw_priority w < - 1000000 \<or> 1000000 < rw_priority w
      then Inl (ValueError ''out of range'')
      else
        and_then (optional_label 128 str_upper (rw_category w)) (\<lambda>category.
        and_then (optional_label 64 str_upper (rw_style w)) (\<lambda>style.
        and_then (optional_label 64 id (rw_size w)) (\<lambda>wanted.
        validate_selector (w\<lparr>rw_category := category, rw_style := style, rw_size := wanted\<rparr>)))))"

record policy_create =
  pc_name :: string
  pc_description :: "string option"
  pc_rules :: "rule_write list"

definition validate_policy_create :: "policy_create \<Rightarrow> policy_create outcome" where
  "validate_policy_create request =
     (if pc_name request = [] \<or> 255 < length (pc_name request) then Inl (ValueError ''name'')
      else if length (pc_rules request) < 1 \<or> 500 < length (pc_rules request)
      then Inl (ValueError ''rules'')
      else
        and_then (label (pc_name request)) (\<lambda>name.
        and_then (optional_label 2000 id (pc_description request)) (\<lambda>description.
        and_then (map_outcome validate_rule_write (pc_rules request)) (\<lambda>ws.
        Inr \<lparr>pc_name = name, pc_description = description, pc_rules = ws\<rparr>))))"

subsection \<open>Precedence and overlap\<close>

datatype selector_kind = SKU_RULE | STYLE_RULE | CATEGORY_RULE | DEFAULT_RULE

definition selector_kind_of :: "rule_descriptor \<Rightarrow> selector_kind" where
  "selector_kind_of r =
     (if rd_sku r \<noteq> None then SKU_RULE
      else if rd_style r \<noteq> None then STYLE_RULE
      else if rd_category r \<noteq> None then CATEGORY_RULE
      else DEFAULT_RULE)"

definition rule_precedence :: "rule_descriptor \<Rightarrow> uuid \<Rightarrow> sku_context \<Rightarrow> nat option" where
  "rule_precedence r store item =
     (if rd_store r \<noteq> None \<and> rd_store r \<noteq> Some store then None
      else
        let tenant_scope = (rd_store r = None)
        in case selector_kind_of r of
             SKU_RULE \<Rightarrow>
               if rd_sku r \<noteq> Some (sx_sku item) then None
               else if (case rd_size r of None \<Rightarrow> False
                        | Some wanted \<Rightarrow> casefold wanted \<noteq> casefold (sx_size item)) then None
               else Some (if tenant_scope then 4 else 7)
           | STYLE_RULE \<Rightarrow>
               (case rd_style r of
                  None \<Rightarrow> None
                | Some style \<Rightarrow>
                    if casefold style \<noteq> casefold (sx_style item) then None
                    else Some (if tenant_scope then 3 else 6))
           | CATEGORY_RULE \<Rightarrow>
               (case rd_category r of
                  None \<Rightarrow> None
                | Some category \<Rightarrow>
                    if casefold category \<noteq> casefold (sx_category item) then None
                    else Some (if tenant_scope then 2 else 5))
           | DEFAULT_RULE \<Rightarrow> if tenant_scope then Some 1 else None)"

type_synonym candidate = "(nat \<times> int) \<times> rule_descriptor"

definition candidates :: "rule_descriptor list \<Rightarrow> uuid \<Rightarrow> sku_context \<Rightarrow> candidate list" where
  "candidates rs store item =
     List.map_filter
       (\<lambda>r. case rule_precedence r store item of
              None \<Rightarrow> None | Some precedence \<Rightarrow> Some ((precedence, rd_priority r), r)) rs"

definition select_policy_rule ::
    "rule_descriptor list \<Rightarrow> uuid \<Rightarrow> sku_context \<Rightarrow> rule_descriptor option outcome" where
  "select_policy_rule rs store item =
     (case sort_desc fst (candidates rs store item) of
        [] \<Rightarrow> Inr None
      | [best] \<Rightarrow> Inr (Some (snd best))
      | best # second # _ \<Rightarrow>
          if fst second = fst best
          then Inl (ValueError ''equal-priority rules overlap at the same specificity'')
          else Inr (Some (snd best)))"

fun same_text :: "string option \<Rightarrow> string option \<Rightarrow> bool" where
  "same_text (Some a) (Some b) = (casefold a = casefold b)"
| "same_text _ _ = False"

definition rules_overlap :: "rule_descriptor \<Rightarrow> rule_descriptor \<Rightarrow> bool" where
  "rules_overlap left right =
     (if rd_priority left \<noteq> rd_priority right \<or> rd_store left \<noteq> rd_store right then False
      else if selector_kind_of left \<noteq> selector_kind_of right then False
      else
        case selector_kind_of left of
          DEFAULT_RULE \<Rightarrow> True
        | CATEGORY_RULE \<Rightarrow> same_text (rd_category left) (rd_category right)
        | STYLE_RULE \<Rightarrow> same_text (rd_style left) (rd_style right)
        | SKU_RULE \<Rightarrow>
            rd_sku left = rd_sku right \<and>
            (rd_size left = None \<or> rd_size right = None \<or> same_text (rd_size left) (rd_size right)))"

fun first_overlap :: "rule_descriptor list \<Rightarrow> (rule_descriptor \<times> rule_descriptor) option" where
  "first_overlap [] = None"
| "first_overlap (left # rs) =
     (case find (rules_overlap left) rs of
        Some right \<Rightarrow> Some (left, right)
      | None \<Rightarrow> first_overlap rs)"

subsection \<open>Permission and catalog checks\<close>

fun ensure_manage_stores :: "principal \<Rightarrow> uuid option list \<Rightarrow> unit outcome" where
  "ensure_manage_stores p [] = Inr ()"
| "ensure_manage_stores p (s # ss) =
     (if (case s of None \<Rightarrow> has_tenant_permission p POLICY_MANAGE
          | Some store \<Rightarrow> can_access_store p POLICY_MANAGE store)
      then ensure_manage_stores p ss
      else Inl (ApiError 403 ''policy_scope_denied''))"

definition ensure_manage_rule_scopes :: "principal \<Rightarrow> uuid option list \<Rightarrow> unit outcome" where
  "ensure_manage_rule_scopes p ss =
     (if \<not> has_permission p POLICY_MANAGE then Inl (ApiError 403 ''Forbidden'')
      else ensure_manage_stores p ss)"

definition ensure_store_scope :: "principal \<Rightarrow> permission \<Rightarrow> uuid \<Rightarrow> unit outcome" where
  "ensure_store_scope p perm store =
     ensure (can_access_store p perm store) (ApiError 403 ''store_scope_denied'')"

definition sku_sizes :: "uuid \<Rightarrow> uuid set \<Rightarrow> policy_db \<Rightarrow> (uuid \<times> string) list" where
  "sku_sizes tenant ids pdb =
     map (\<lambda>s. (sk_id s, sk_size s))
       (filter (\<lambda>s. sk_tenant s = tenant \<and> sk_id s \<in> ids \<and> sk_active s) (skus pdb))"

definition size_mismatch :: "(uuid \<times> string) list \<Rightarrow> rule_descriptor \<Rightarrow> bool" where
  "size_mismatch sizes r =
     (case (rd_size r, rd_sku r) of
        (Some wanted, Some sku_id) \<Rightarrow>
          (case map_of sizes sku_id of None \<Rightarrow> False | Some s \<Rightarrow> casefold s \<noteq> casefold wanted)
      | _ \<Rightarrow> False)"

definition valid_labels :: "(product \<Rightarrow> string) \<Rightarrow> uuid \<Rightarrow> string set \<Rightarrow> policy_db \<Rightarrow> string set" where
  "valid_labels text_of tenant wanted pdb =
     set (map (\<lambda>p. str_upper (text_of p))
       (filter (\<lambda>p. pd_tenant p = tenant \<and> str_upper (text_of p) \<in> wanted \<and> pd_active p) (products pdb)))"

definition validate_rules :: "store_row list \<Rightarrow> uuid \<Rightarrow> rule_descriptor list \<Rightarrow> policy_db \<Rightarrow> unit outcome" where
  "validate_rules store_rows tenant rs pdb =
     (let store_ids = set (List.map_filter rd_store rs);
          valid_store_ids = st_id ` set (filter (\<lambda>s. st_tenant s = tenant \<and> st_id s \<in> store_ids \<and>
                                                    st_status s \<noteq> STORE_INACTIVE) store_rows);
          sku_ids = set (List.map_filter rd_sku rs);
          sizes = sku_sizes tenant sku_ids pdb;
          styles = set (List.map_filter rd_style rs);
          categories = set (List.map_filter rd_category rs)
      in and_then (ensure (\<not> list_ex (\<lambda>r. rd_store r \<noteq> None \<and> selector_kind_of r = DEFAULT_RULE) rs)
                     (ApiError 422 ''invalid_policy_scope'')) (\<lambda>_.
         and_then (ensure (first_overlap rs = None) (ApiError 422 ''policy_rule_overlap'')) (\<lambda>_.
         and_then (ensure (valid_store_ids = store_ids) (ApiError 422 ''invalid_policy_store'')) (\<lambda>_.
         and_then (ensure (fst ` set sizes = sku_ids \<and> \<not> list_ex (size_mismatch sizes) rs)
                     (ApiError 422 ''invalid_policy_sku'')) (\<lambda>_.
         and_then (ensure (valid_labels pd_style_code tenant styles pdb = styles)
                     (ApiError 422 ''invalid_policy_style'')) (\<lambda>_.
         ensure (valid_labels pd_category tenant categories pdb = categories)
           (ApiError 422 ''invalid_policy_category'')))))))"

subsection \<open>Reading policies\<close>

record policy_bundle =
  bu_policy :: policy_definition
  bu_version :: policy_version
  bu_rules :: "policy_rule list"

definition version_rules :: "uuid \<Rightarrow> uuid \<Rightarrow> policy_db \<Rightarrow> policy_rule list" where
  "version_rules tenant version_id pdb =
     filter (\<lambda>r. rl_tenant r = tenant \<and> rl_version r = version_id) (rules pdb)"

definition find_version :: "uuid \<Rightarrow> uuid \<Rightarrow> policy_db \<Rightarrow> policy_version option" where
  "find_version tenant version_id pdb =
     select_one (\<lambda>v. pv_tenant v = tenant \<and> pv_id v = version_id) (versions pdb)"

definition load_bundle :: "uuid \<Rightarrow> uuid \<Rightarrow> policy_db \<Rightarrow> policy_bundle outcome" where
  "load_bundle tenant version_id pdb =
     (case find_version tenant version_id pdb of
        None \<Rightarrow> Inl (ApiError 404 ''Policy version not found'')
      | Some version \<Rightarrow>
          (case select_one (\<lambda>p. po_tenant p = tenant \<and> po_id p = pv_policy version) (policies pdb) of
             None \<Rightarrow> Inl (ApiError 404 ''Policy not found'')
           | Some policy \<Rightarrow>
               Inr \<lparr>bu_policy = policy, bu_version = version,
                    bu_rules = sort_key (\<lambda>r. (- rl_priority r, rl_id r))
                                 (version_rules tenant (pv_id version) pdb)\<rparr>))"

definition visible_bundle :: "policy_bundle \<Rightarrow> principal \<Rightarrow> policy_bundle option" where
  "visible_bundle bundle p =
     (if has_tenant_permission p POLICY_READ then Some bundle
      else
        let allowed = store_ids_for_permission p POLICY_READ;
            visible = filter (\<lambda>r. case rl_store r of None \<Rightarrow> True | Some s \<Rightarrow> s \<in> set allowed) (bu_rules bundle)
        in if visible = [] then None else Some (bundle\<lparr>bu_rules := visible\<rparr>))"

text \<open>The discoverable version of a policy: the first of its versions in the selection order.\<close>

fun lifecycle_order :: "version_status \<Rightarrow> int" where
  "lifecycle_order VERSION_ACTIVE = 0"
| "lifecycle_order VERSION_DRAFT = 1"
| "lifecycle_order VERSION_RETIRED = 2"

definition selected_version ::
    "uuid \<Rightarrow> version_status option \<Rightarrow> uuid \<Rightarrow> policy_db \<Rightarrow> policy_version option" where
  "selected_version tenant status policy_id pdb =
     (let considered = filter (\<lambda>v. pv_tenant v = tenant \<and> pv_policy v = policy_id \<and>
            (case status of None \<Rightarrow> True | Some s \<Rightarrow> pv_status v = s)) (versions pdb)
      in best_by (\<lambda>v. ((case status of None \<Rightarrow> - lifecycle_order (pv_status v) | Some _ \<Rightarrow> 0), pv_number v))
           considered)"

definition authorized_version_status ::
    "principal \<Rightarrow> version_status option \<Rightarrow> version_status option outcome" where
  "authorized_version_status p requested =
     (if has_permission p POLICY_MANAGE then Inr requested
      else if requested \<noteq> None \<and> requested \<noteq> Some VERSION_ACTIVE
      then Inl (ApiError 403 ''policy_version_status_forbidden'')
      else Inr (Some VERSION_ACTIVE))"

definition get_policy_bundle ::
    "principal \<Rightarrow> uuid \<Rightarrow> version_status option \<Rightarrow> policy_db \<Rightarrow> policy_bundle outcome" where
  "get_policy_bundle p policy_id requested pdb =
     and_then (authorized_version_status p requested) (\<lambda>status.
       case selected_version (pr_tenant p) status policy_id pdb of
         None \<Rightarrow> Inl (ApiError 404 ''Policy not found'')
       | Some v \<Rightarrow>
           and_then (load_bundle (pr_tenant p) (pv_id v) pdb) (\<lambda>bundle.
             case visible_bundle bundle p of
               None \<Rightarrow> Inl (ApiError 404 ''Policy not found'')
             | Some visible \<Rightarrow> Inr visible))"

definition list_policy_bundles ::
    "principal \<Rightarrow> nat \<Rightarrow> nat \<Rightarrow> version_status option \<Rightarrow> policy_db \<Rightarrow> (policy_bundle list \<times> nat) outcome" where
  "list_policy_bundles p limit offset requested pdb =
     and_then (authorized_version_status p requested) (\<lambda>status.
       let tenant = pr_tenant p;
           chosen = List.map_filter
             (\<lambda>po. if po_tenant po = tenant
                   then map_option (\<lambda>v. (po, v)) (selected_version tenant status (po_id po) pdb) else None)
             (policies pdb);
           allowed = store_ids_for_permission p POLICY_READ;
           visible = (if has_tenant_permission p POLICY_READ then chosen
             else filter (\<lambda>(po, v). list_ex (\<lambda>r. case rl_store r of None \<Rightarrow> True | Some s \<Rightarrow> s \<in> set allowed)
                    (version_rules tenant (pv_id v) pdb)) chosen);
           page = take limit (drop offset (sort_desc (\<lambda>(po, v). (po_updated_at po, po_id po)) visible))
       in and_then (map_outcome (\<lambda>(po, v). load_bundle tenant (pv_id v) pdb) page) (\<lambda>bundles.
            Inr (List.map_filter (\<lambda>b. visible_bundle b p) bundles, length visible)))"

subsection \<open>Changing policies\<close>

text \<open>The identifiers and the clock of one service call.\<close>

record policy_env =
  pe_policy :: uuid
  pe_version :: uuid
  pe_rule :: "nat \<Rightarrow> uuid"
  pe_now :: timestamp

definition new_rule :: "uuid \<Rightarrow> uuid \<Rightarrow> uuid \<Rightarrow> rule_write \<Rightarrow> policy_rule" where
  "new_rule tenant version_id rule_id w =
     \<lparr>rl_tenant = tenant, rl_id = rule_id, rl_version = version_id, rl_store = rw_store w,
      rl_category = rw_category w, rl_style = rw_style w, rl_sku = rw_sku w, rl_size = rw_size w,
      rl_min = rw_min w, rl_target = rw_target w, rl_priority = rw_priority w\<rparr>"

definition cloned_rule :: "uuid \<Rightarrow> uuid \<Rightarrow> uuid \<Rightarrow> policy_rule \<Rightarrow> policy_rule" where
  "cloned_rule tenant version_id rule_id r = r\<lparr>rl_tenant := tenant, rl_id := rule_id, rl_version := version_id\<rparr>"

text \<open>The unique index over the coalesced scope of a rule, and the primary key.\<close>

definition rule_scope_key ::
    "policy_rule \<Rightarrow> uuid \<times> uuid \<times> string \<times> string \<times> uuid \<times> string \<times> int" where
  "rule_scope_key r =
     (rl_version r, (case rl_store r of None \<Rightarrow> 0 | Some s \<Rightarrow> s),
      (case rl_category r of None \<Rightarrow> [] | Some c \<Rightarrow> c), (case rl_style r of None \<Rightarrow> [] | Some s \<Rightarrow> s),
      (case rl_sku r of None \<Rightarrow> 0 | Some s \<Rightarrow> s), (case rl_size r of None \<Rightarrow> [] | Some s \<Rightarrow> s), rl_priority r)"

definition insert_rules :: "policy_rule list \<Rightarrow> policy_db \<Rightarrow> policy_db outcome" where
  "insert_rules new pdb =
     (if distinct (map rl_id (rules pdb @ new)) \<and> distinct (map rule_scope_key (rules pdb @ new)) \<and>
         list_all rule_checks new
      then Inr (pdb\<lparr>rules := rules pdb @ new\<rparr>)
      else Inl (IntegrityError ''replenishment_policy_rules''))"

definition insert_version :: "policy_version \<Rightarrow> policy_db \<Rightarrow> policy_db outcome" where
  "insert_version v pdb =
     (if pv_id v \<in> pv_id ` set (versions pdb) \<or>
         list_ex (\<lambda>u. pv_policy u = pv_policy v \<and> pv_number u = pv_number v) (versions pdb)
      then Inl (IntegrityError ''uq_policy_versions_number'')
      else Inr (pdb\<lparr>versions := versions pdb @ [v]\<rparr>))"

definition insert_policy :: "policy_definition \<Rightarrow> policy_db \<Rightarrow> policy_db outcome" where
  "insert_policy po pdb =
     (if po_id po \<in> po_id ` set (policies pdb) \<or>
         list_ex (\<lambda>u. po_tenant u = po_tenant po \<and> po_name u = po_name po) (policies pdb)
      then Inl (IntegrityError ''uq_versioned_policy_tenant_name'')
      else Inr (pdb\<lparr>policies := policies pdb @ [po]\<rparr>))"

definition draft_version :: "uuid \<Rightarrow> uuid \<Rightarrow> uuid \<Rightarrow> int \<Rightarrow> policy_version" where
  "draft_version tenant version_id policy_id number =
     \<lparr>pv_tenant = tenant, pv_id = version_id, pv_policy = policy_id, pv_number = number,
      pv_status = VERSION_DRAFT, pv_activated_at = None, pv_activated_by = None\<rparr>"

text \<open>An \<open>except IntegrityError\<close> that rolls back and raises the conflict instead.\<close>

definition conflict_as :: "string \<Rightarrow> 'a outcome \<Rightarrow> 'a outcome" where
  "conflict_as code r =
     (case r of Inl (IntegrityError _) \<Rightarrow> Inl (ApiError 409 code) | _ \<Rightarrow> r)"

definition with_bundle :: "uuid \<Rightarrow> uuid \<Rightarrow> policy_db \<Rightarrow> (policy_bundle \<times> policy_db) outcome" where
  "with_bundle tenant version_id pdb =
     and_then (load_bundle tenant version_id pdb) (\<lambda>bundle. Inr (bundle, pdb))"

definition create_policy ::
    "policy_env \<Rightarrow> store_row list \<Rightarrow> principal \<Rightarrow> policy_create \<Rightarrow> policy_db
       \<Rightarrow> (policy_bundle \<times> policy_db) outcome" where
  "create_policy env store_rows p request pdb =
     (let tenant = pr_tenant p
      in and_then (ensure_manage_rule_scopes p (map rw_store (pc_rules request))) (\<lambda>_.
         and_then (validate_rules store_rows tenant (map descriptor_of_write (pc_rules request)) pdb) (\<lambda>_.
         and_then (conflict_as ''policy_creation_conflict''
             (and_then (insert_policy
                  \<lparr>po_tenant = tenant, po_id = pe_policy env, po_name = pc_name request,
                   po_description = pc_description request, po_updated_at = pe_now env\<rparr> pdb) (\<lambda>pdb1.
              and_then (insert_version (draft_version tenant (pe_version env) (pe_policy env) 1) pdb1) (\<lambda>pdb2.
              insert_rules (map (\<lambda>(i, w). new_rule tenant (pe_version env) (pe_rule env i) w)
                              (enumerate 0 (pc_rules request))) pdb2)))) (\<lambda>pdb3.
         with_bundle tenant (pe_version env) pdb3))))"

definition source_version :: "uuid \<Rightarrow> uuid \<Rightarrow> policy_db \<Rightarrow> policy_version option" where
  "source_version tenant policy_id pdb =
     (let own = filter (\<lambda>v. pv_tenant v = tenant \<and> pv_policy v = policy_id) (versions pdb)
      in case select_one (\<lambda>v. pv_status v = VERSION_ACTIVE) own of
           Some v \<Rightarrow> Some v
         | None \<Rightarrow> best_by pv_number own)"

definition latest_number :: "uuid \<Rightarrow> policy_db \<Rightarrow> int" where
  "latest_number policy_id pdb =
     (case map pv_number (filter (\<lambda>v. pv_policy v = policy_id) (versions pdb)) of
        [] \<Rightarrow> 0 | n # ns \<Rightarrow> Max (set (n # ns)))"

definition clone_policy_version ::
    "policy_env \<Rightarrow> principal \<Rightarrow> uuid \<Rightarrow> policy_db \<Rightarrow> (policy_bundle \<times> policy_db) outcome" where
  "clone_policy_version env p policy_id pdb =
     (let tenant = pr_tenant p
      in case select_one (\<lambda>po. po_tenant po = tenant \<and> po_id po = policy_id) (policies pdb) of
           None \<Rightarrow> Inl (ApiError 404 ''Policy not found'')
         | Some policy \<Rightarrow>
             (case source_version tenant policy_id pdb of
                None \<Rightarrow> Inl (ApiError 409 ''Policy has no version'')
              | Some source \<Rightarrow>
                  let source_rules = version_rules tenant (pv_id source) pdb
                  in and_then (ensure_manage_rule_scopes p (map rl_store source_rules)) (\<lambda>_.
                     and_then (conflict_as ''policy_version_conflict''
                         (and_then (insert_version (draft_version tenant (pe_version env) policy_id
                                      (latest_number policy_id pdb + 1)) pdb) (\<lambda>pdb1.
                          insert_rules (map (\<lambda>(i, r). cloned_rule tenant (pe_version env) (pe_rule env i) r)
                                          (enumerate 0 source_rules)) pdb1))) (\<lambda>pdb2.
                     with_bundle tenant (pe_version env) pdb2))))"

definition patch_policy_version ::
    "policy_env \<Rightarrow> store_row list \<Rightarrow> principal \<Rightarrow> uuid \<Rightarrow> rule_write list \<Rightarrow> policy_db
       \<Rightarrow> (policy_bundle \<times> policy_db) outcome" where
  "patch_policy_version env store_rows p version_id ws pdb =
     (let tenant = pr_tenant p
      in case find_version tenant version_id pdb of
           None \<Rightarrow> Inl (ApiError 404 ''Policy version not found'')
         | Some version \<Rightarrow>
             and_then (ensure_manage_rule_scopes p (map rl_store (version_rules tenant (pv_id version) pdb))) (\<lambda>_.
             and_then (ensure (pv_status version = VERSION_DRAFT) (ApiError 409 ''policy_version_immutable'')) (\<lambda>_.
             and_then (ensure_manage_rule_scopes p (map rw_store ws)) (\<lambda>_.
             and_then (validate_rules store_rows tenant (map descriptor_of_write ws) pdb) (\<lambda>_.
             and_then (conflict_as ''policy_rule_update_conflict''
                 (insert_rules (map (\<lambda>(i, w). new_rule tenant (pv_id version) (pe_rule env i) w) (enumerate 0 ws))
                   (pdb\<lparr>rules := filter (\<lambda>r. rl_version r \<noteq> pv_id version) (rules pdb)\<rparr>))) (\<lambda>pdb1.
             with_bundle tenant (pv_id version) pdb1))))))"

definition rules_of_active_versions ::
    "(policy_version \<Rightarrow> bool) \<Rightarrow> uuid \<Rightarrow> policy_db \<Rightarrow> policy_rule list" where
  "rules_of_active_versions P tenant pdb =
     filter (\<lambda>r. rl_tenant r = tenant \<and>
         list_ex (\<lambda>v. pv_id v = rl_version r \<and> pv_status v = VERSION_ACTIVE \<and> P v) (versions pdb))
       (rules pdb)"

definition activated :: "timestamp \<Rightarrow> uuid \<Rightarrow> policy_version \<Rightarrow> policy_version" where
  "activated now user v = v\<lparr>pv_status := VERSION_ACTIVE, pv_activated_at := Some now, pv_activated_by := Some user\<rparr>"

definition retire_and_activate :: "timestamp \<Rightarrow> uuid \<Rightarrow> policy_version \<Rightarrow> policy_db \<Rightarrow> policy_db" where
  "retire_and_activate now user version pdb =
     pdb\<lparr>versions :=
       update_where (\<lambda>v. pv_id v = pv_id version) (activated now user)
         (update_where (\<lambda>v. pv_policy v = pv_policy version \<and> pv_status v = VERSION_ACTIVE \<and> pv_id v \<noteq> pv_id version)
           (\<lambda>v. v\<lparr>pv_status := VERSION_RETIRED\<rparr>) (versions pdb))\<rparr>"

definition activate_policy_version ::
    "policy_env \<Rightarrow> store_row list \<Rightarrow> principal \<Rightarrow> uuid \<Rightarrow> policy_db
       \<Rightarrow> (policy_bundle \<times> policy_db) outcome" where
  "activate_policy_version env store_rows p version_id pdb =
     (let tenant = pr_tenant p
      in and_then (load_bundle tenant version_id pdb) (\<lambda>bundle.
         let version = bu_version bundle; ds = map descriptor_of_rule (bu_rules bundle)
         in and_then (ensure_manage_rule_scopes p (map rl_store (bu_rules bundle))) (\<lambda>_.
            if pv_status version = VERSION_ACTIVE then Inr (bundle, pdb)
            else if pv_status version \<noteq> VERSION_DRAFT then Inl (ApiError 409 ''policy_version_retired'')
            else if bu_rules bundle = [] then Inl (ApiError 422 ''Empty policy'')
            else
              and_then (validate_rules store_rows tenant ds pdb) (\<lambda>_.
              let others = map descriptor_of_rule
                    (rules_of_active_versions (\<lambda>v. pv_policy v \<noteq> po_id (bu_policy bundle)) tenant pdb)
              in if list_ex (\<lambda>draft. list_ex (rules_overlap draft) others) ds
                 then Inl (ApiError 409 ''active_policy_overlap'')
                 else with_bundle tenant version_id
                        (retire_and_activate (pe_now env) (pr_user p) version pdb)))))"

subsection \<open>Selection and overlap\<close>

lemma candidates_iff:
  "(k, r) \<in> set (candidates rs store item) \<longleftrightarrow>
     r \<in> set rs \<and> (\<exists>n. rule_precedence r store item = Some n \<and> k = (n, rd_priority r))"
  by (force simp: candidates_def List.map_filter_def split: option.splits)

lemma same_text_sym: "same_text a b = same_text b a"
  by (cases a; cases b) auto

lemma rules_overlap_sym: "rules_overlap a b = rules_overlap b a"
  by (auto simp: rules_overlap_def same_text_sym split: selector_kind.splits)

text \<open>Two rules of equal rank for an item overlap: the static check is enough for selection.\<close>

lemma equal_rank_overlaps:
  assumes "rule_precedence a store item = Some n" "rule_precedence b store item = Some n"
    "rd_priority a = rd_priority b"
  shows "rules_overlap a b"
  using assms
  by (auto simp: rule_precedence_def rules_overlap_def Let_def
      split: if_splits selector_kind.splits option.splits)

definition no_overlaps :: "rule_descriptor list \<Rightarrow> bool" where
  "no_overlaps = sorted_wrt (\<lambda>a b. \<not> rules_overlap a b)"

lemma first_overlap_None_iff: "first_overlap rs = None \<longleftrightarrow> no_overlaps rs"
  by (induction rs)
    (auto simp: no_overlaps_def find_None_iff split: option.splits
      dest!: select_one_SomeD [unfolded select_one_def])

lemma sorted_wrt_candidates:
  "no_overlaps rs \<Longrightarrow> sorted_wrt (\<lambda>a b. fst a \<noteq> fst b) (candidates rs store item)"
proof (induction rs)
  case (Cons r rs)
  then show ?case
    using equal_rank_overlaps [of r store item]
    by (auto simp: no_overlaps_def candidates_def List.map_filter_def split: option.splits)
qed (simp add: candidates_def List.map_filter_def)

lemma distinct_if_apart: "sorted_wrt (\<lambda>a b. f a \<noteq> f b) xs \<Longrightarrow> distinct (map f xs)"
  by (induction xs) (auto simp: image_iff)

lemma candidates_distinct:
  "no_overlaps rs \<Longrightarrow> distinct (map fst (candidates rs store item))"
  by (intro distinct_if_apart sorted_wrt_candidates)

definition outranks :: "uuid \<Rightarrow> sku_context \<Rightarrow> rule_descriptor \<Rightarrow> rule_descriptor \<Rightarrow> bool" where
  "outranks store item r r' \<longleftrightarrow>
     (\<exists>n n'. rule_precedence r store item = Some n \<and> rule_precedence r' store item = Some n' \<and>
        (n', rd_priority r') < (n, rd_priority r))"

lemma select_policy_rule_cases:
  assumes "no_overlaps rs"
  obtains (none) "select_policy_rule rs store item = Inr None"
      "\<And>r. r \<in> set rs \<Longrightarrow> rule_precedence r store item = None"
  | (best) r where "select_policy_rule rs store item = Inr (Some r)" "r \<in> set rs"
      "rule_precedence r store item \<noteq> None"
      "\<And>r'. r' \<in> set rs \<Longrightarrow> r' \<noteq> r \<Longrightarrow> rule_precedence r' store item \<noteq> None \<Longrightarrow> outranks store item r r'"
proof (cases "sort_desc fst (candidates rs store item)")
  case Nil
  then have "select_policy_rule rs store item = Inr None" by (simp add: select_policy_rule_def del: sort_desc_Nil_iff)
  moreover have "candidates rs store item = []" using Nil by (metis sort_desc_Nil_iff)
  then have "rule_precedence r store item = None" if "r \<in> set rs" for r
    using that candidates_iff [of _ r rs store item] by (cases "rule_precedence r store item") auto
  ultimately show thesis by (rule none)
next
  case (Cons c rest)
  let ?cs = "candidates rs store item"
  have apart: "distinct (map fst (c # rest))"
    using candidates_distinct [OF assms, of store item] unfolding Cons [symmetric]
    by (simp add: distinct_map)
  have same: "set ?cs = insert c (set rest)" using Cons set_sort_desc [of fst ?cs] by simp
  note top = sort_desc_ConsD(3) [OF Cons]
  obtain k r where c: "c = (k, r)" by (cases c)
  then obtain n where r: "r \<in> set rs" "rule_precedence r store item = Some n" "k = (n, rd_priority r)"
    using same candidates_iff [of k r rs store item] by auto
  have "select_policy_rule rs store item = Inr (Some r)"
    using Cons apart c by (auto simp: select_policy_rule_def split: list.splits)
  moreover have "outranks store item r r'"
    if r': "r' \<in> set rs" "r' \<noteq> r" "rule_precedence r' store item \<noteq> None" for r'
  proof -
    obtain n' where n': "rule_precedence r' store item = Some n'" using r'(3) by auto
    then have "((n', rd_priority r'), r') \<in> set ?cs" using r'(1) candidates_iff by auto
    then have "((n', rd_priority r'), r') \<in> set rest" "(n', rd_priority r') \<le> k"
      using same top c r'(2) by auto
    moreover from this(1) have "(n', rd_priority r') \<noteq> k" using apart c by force
    ultimately show ?thesis using n' r by (auto simp: outranks_def)
  qed
  ultimately show thesis using r by (intro best) auto
qed

lemma outranks_asym: "outranks store item r r' \<Longrightarrow> \<not> outranks store item r' r"
  by (auto simp: outranks_def)

lemma selection_by_set:
  assumes "no_overlaps rs" "no_overlaps rs'" "set rs' = set rs"
  shows "select_policy_rule rs' store item = select_policy_rule rs store item"
  using assms(1)
proof (cases rule: select_policy_rule_cases [where store = store and item = item])
  case none
  show ?thesis
    using assms(2) none assms(3)
    by (cases rule: select_policy_rule_cases [where store = store and item = item]) auto
next
  case (best r)
  show ?thesis
    using assms(2)
  proof (cases rule: select_policy_rule_cases [where store = store and item = item])
    case none
    then show ?thesis using best assms(3) by auto
  next
    case best': (best r')
    have "r' = r"
    proof (rule ccontr)
      assume "r' \<noteq> r"
      then have "outranks store item r r'" "outranks store item r' r"
        using best best' assms(3) by auto
      then show False using outranks_asym by blast
    qed
    then show ?thesis using best(1) best'(1) by simp
  qed
qed

end
