(* ===== verification/Policy_Lifecycle.thy ===== *)
theory Policy_Lifecycle
  imports Policies
begin

text \<open>
  The life of replenishment policies: creating, cloning, editing and activating versions keeps the
  active rules of a tenant free of overlaps, so that selection is never ambiguous, and never touches
  a version that was published.
\<close>

subsection \<open>The active rules never overlap\<close>

definition active_rules :: "uuid \<Rightarrow> policy_db \<Rightarrow> policy_rule list" where
  "active_rules = rules_of_active_versions (\<lambda>_. True)"

definition apart :: "policy_rule list \<Rightarrow> bool" where
  "apart rs \<longleftrightarrow> (\<forall>r \<in> set rs. \<forall>r' \<in> set rs. rl_id r \<noteq> rl_id r' \<longrightarrow>
     \<not> rules_overlap (descriptor_of_rule r) (descriptor_of_rule r'))"

definition policies_inv :: "policy_db \<Rightarrow> bool" where
  "policies_inv pdb \<longleftrightarrow>
     distinct (map pv_id (versions pdb)) \<and> distinct (map rl_id (rules pdb)) \<and>
     (\<forall>r \<in> set (rules pdb). \<exists>v \<in> set (versions pdb). pv_id v = rl_version r \<and> pv_tenant v = rl_tenant r) \<and>
     (\<forall>u \<in> set (versions pdb). \<forall>v \<in> set (versions pdb).
        pv_status u = VERSION_ACTIVE \<longrightarrow> pv_status v = VERSION_ACTIVE \<longrightarrow> pv_policy u = pv_policy v \<longrightarrow> u = v) \<and>
     (\<forall>tenant. apart (active_rules tenant pdb))"

lemma policies_invD:
  assumes "policies_inv pdb"
  shows "distinct (map pv_id (versions pdb))" "distinct (map rl_id (rules pdb))"
    "r \<in> set (rules pdb) \<Longrightarrow> \<exists>v \<in> set (versions pdb). pv_id v = rl_version r \<and> pv_tenant v = rl_tenant r"
    "u \<in> set (versions pdb) \<Longrightarrow> v \<in> set (versions pdb) \<Longrightarrow> pv_status u = VERSION_ACTIVE \<Longrightarrow>
       pv_status v = VERSION_ACTIVE \<Longrightarrow> pv_policy u = pv_policy v \<Longrightarrow> u = v"
    "apart (active_rules tenant pdb)"
  using assms unfolding policies_inv_def by blast+

lemma in_rules_of_active:
  "r \<in> set (rules_of_active_versions P tenant pdb) \<longleftrightarrow>
     r \<in> set (rules pdb) \<and> rl_tenant r = tenant \<and>
     (\<exists>v \<in> set (versions pdb). pv_id v = rl_version r \<and> pv_status v = VERSION_ACTIVE \<and> P v)"
  by (auto simp: rules_of_active_versions_def list_ex_iff)

lemma apart_subset: "apart rs \<Longrightarrow> set rs' \<subseteq> set rs \<Longrightarrow> apart rs'"
  by (auto simp: apart_def)

lemma apart_no_overlaps:
  "apart rs \<Longrightarrow> distinct (map rl_id rs) \<Longrightarrow> no_overlaps (map descriptor_of_rule rs)"
  unfolding no_overlaps_def
proof (induction rs)
  case (Cons r rs)
  then have "apart rs" by (simp add: apart_def)
  moreover have "\<not> rules_overlap (descriptor_of_rule r) (descriptor_of_rule r')" if "r' \<in> set rs" for r'
    using Cons.prems that by (auto simp: apart_def image_iff)
  ultimately show ?case using Cons by simp
qed simp

lemma active_rules_no_overlaps:
  assumes "policies_inv pdb"
  shows "no_overlaps (map descriptor_of_rule (active_rules tenant pdb))"
proof (rule apart_no_overlaps [OF policies_invD(5) [OF assms]])
  show "distinct (map rl_id (active_rules tenant pdb))"
    using policies_invD(2) [OF assms]
    by (simp add: active_rules_def rules_of_active_versions_def distinct_map_filter)
qed

subsection \<open>What the services change\<close>

lemma conflict_as_Inr [simp]: "conflict_as code r = Inr x \<longleftrightarrow> r = Inr x"
  by (auto simp: conflict_as_def split: sum.splits fault.splits)

lemma conflict_as_simps [simp]: "conflict_as code (Inr x) = Inr x"
  by (simp add: conflict_as_def)

lemma with_bundle_InrD: "with_bundle tenant i pdb = Inr (bundle, pdb') \<Longrightarrow> pdb' = pdb"
  by (auto simp: with_bundle_def and_then_Inr_iff)

lemma insert_rules_InrD:
  assumes "insert_rules new pdb = Inr pdb'"
  shows "pdb' = pdb\<lparr>rules := rules pdb @ new\<rparr>" "distinct (map rl_id (rules pdb @ new))"
  using assms by (auto simp: insert_rules_def split: if_splits)

lemma insert_version_InrD:
  assumes "insert_version v pdb = Inr pdb'"
  shows "pdb' = pdb\<lparr>versions := versions pdb @ [v]\<rparr>" "pv_id v \<notin> pv_id ` set (versions pdb)"
  using assms by (auto simp: insert_version_def split: if_splits)

lemma insert_policy_InrD:
  "insert_policy po pdb = Inr pdb' \<Longrightarrow> pdb' = pdb\<lparr>policies := policies pdb @ [po]\<rparr>"
  by (auto simp: insert_policy_def split: if_splits)

lemma version_unique:
  "policies_inv pdb \<Longrightarrow> u \<in> set (versions pdb) \<Longrightarrow> v \<in> set (versions pdb) \<Longrightarrow> pv_id u = pv_id v \<Longrightarrow> u = v"
  by (rule inj_onD [OF iffD1 [OF distinct_map, THEN conjunct2], OF policies_invD(1)])

text \<open>Adding a draft version with its rules.\<close>

lemma inv_new_draft:
  assumes inv: "policies_inv pdb"
    and version: "pv_id v \<notin> pv_id ` set (versions pdb)" "pv_status v = VERSION_DRAFT"
    and new: "\<And>r. r \<in> set new \<Longrightarrow> rl_version r = pv_id v \<and> rl_tenant r = pv_tenant v"
      "distinct (map rl_id (rules pdb @ new))"
    and pdb': "versions pdb' = versions pdb @ [v]" "rules pdb' = rules pdb @ new"
  shows "policies_inv pdb'"
proof -
  have "r \<in> set (active_rules tenant pdb)" if act: "r \<in> set (active_rules tenant pdb')" for r tenant
  proof -
    obtain u where u: "r \<in> set (rules pdb')" "rl_tenant r = tenant" "u \<in> set (versions pdb')"
      "pv_id u = rl_version r" "pv_status u = VERSION_ACTIVE"
      using act unfolding active_rules_def in_rules_of_active by blast
    then have old: "u \<in> set (versions pdb)" using version(2) by (auto simp: pdb'(1))
    then have "rl_version r \<noteq> pv_id v" using u(4) version(1) by (metis image_eqI)
    then have "r \<in> set (rules pdb)" using u(1) new(1) by (auto simp: pdb'(2))
    then show ?thesis using u old unfolding active_rules_def in_rules_of_active by blast
  qed
  then have "apart (active_rules tenant pdb')" for tenant
    using apart_subset [OF policies_invD(5) [OF inv]] by blast
  moreover have "\<exists>u \<in> set (versions pdb'). pv_id u = rl_version r \<and> pv_tenant u = rl_tenant r"
    if "r \<in> set (rules pdb')" for r
  proof (cases "r \<in> set new")
    case True
    then show ?thesis using new(1) [of r] by (auto simp: pdb'(1))
  next
    case False
    then have "r \<in> set (rules pdb)" using that by (simp add: pdb'(2))
    from policies_invD(3) [OF inv this] show ?thesis by (auto simp: pdb'(1))
  qed
  moreover have "distinct (map pv_id (versions pdb'))" using policies_invD(1) [OF inv] version(1) by (simp add: pdb'(1))
  moreover have "u = w" if "u \<in> set (versions pdb')" "w \<in> set (versions pdb')" "pv_status u = VERSION_ACTIVE"
    "pv_status w = VERSION_ACTIVE" "pv_policy u = pv_policy w" for u w
    using that version(2) policies_invD(4) [OF inv, of u w] by (auto simp: pdb'(1))
  ultimately show ?thesis using new(2) unfolding policies_inv_def pdb'(2) by blast
qed

lemma create_policy_inv:
  assumes "create_policy env store_rows p request pdb = Inr (bundle, pdb')" "policies_inv pdb"
  shows "policies_inv pdb'"
proof -
  let ?v = "draft_version (pr_tenant p) (pe_version env) (pe_policy env) 1"
  let ?new = "map (\<lambda>(i, w). new_rule (pr_tenant p) (pe_version env) (pe_rule env i) w) (enumerate 0 (pc_rules request))"
  obtain po pdb1 pdb2 where steps: "insert_policy po pdb = Inr pdb1" "insert_version ?v pdb1 = Inr pdb2"
    "insert_rules ?new pdb2 = Inr pdb'"
    using assms(1) by (auto simp: create_policy_def Let_def and_then_Inr_iff dest!: with_bundle_InrD)
  note po = insert_policy_InrD [OF steps(1)]
  note v = insert_version_InrD [OF steps(2), unfolded po]
  note rs = insert_rules_InrD [OF steps(3), unfolded v(1)]
  show ?thesis
    by (rule inv_new_draft [OF assms(2), of ?v ?new])
      (use v(2) rs in \<open>auto simp: draft_version_def new_rule_def\<close>)
qed

lemma clone_policy_version_inv:
  assumes "clone_policy_version env p policy_id pdb = Inr (bundle, pdb')" "policies_inv pdb"
  shows "policies_inv pdb'"
proof -
  let ?v = "draft_version (pr_tenant p) (pe_version env) policy_id (latest_number policy_id pdb + 1)"
  let ?new = "\<lambda>rs. map (\<lambda>(i, r). cloned_rule (pr_tenant p) (pe_version env) (pe_rule env i) r) (enumerate 0 rs)"
  obtain rs pdb1 where steps: "insert_version ?v pdb = Inr pdb1" "insert_rules (?new rs) pdb1 = Inr pdb'"
    using assms(1) by (auto simp: clone_policy_version_def Let_def and_then_Inr_iff split: option.splits
        dest!: with_bundle_InrD)
  note v = insert_version_InrD [OF steps(1)]
  note new = insert_rules_InrD [OF steps(2), unfolded v(1)]
  show ?thesis
    by (rule inv_new_draft [OF assms(2), of ?v "?new rs"])
      (use v(2) new in \<open>auto simp: draft_version_def cloned_rule_def\<close>)
qed

lemma find_version_SomeD:
  "find_version tenant i pdb = Some v \<Longrightarrow> v \<in> set (versions pdb) \<and> pv_tenant v = tenant \<and> pv_id v = i"
  unfolding find_version_def by (drule select_one_SomeD) simp

lemma patch_policy_version_InrD:
  assumes "patch_policy_version env store_rows p version_id ws pdb = Inr (bundle, pdb')"
  obtains version where "find_version (pr_tenant p) version_id pdb = Some version"
    "pv_status version = VERSION_DRAFT"
    "insert_rules (map (\<lambda>(i, w). new_rule (pr_tenant p) (pv_id version) (pe_rule env i) w) (enumerate 0 ws))
       (pdb\<lparr>rules := filter (\<lambda>r. rl_version r \<noteq> pv_id version) (rules pdb)\<rparr>) = Inr pdb'"
  using assms
  by (auto simp: patch_policy_version_def Let_def and_then_Inr_iff split: option.splits dest!: with_bundle_InrD)

lemma patch_policy_version_inv:
  assumes "patch_policy_version env store_rows p version_id ws pdb = Inr (bundle, pdb')" "policies_inv pdb"
  shows "policies_inv pdb'"
  using assms(1)
proof (rule patch_policy_version_InrD)
  fix version :: policy_version
  let ?new = "map (\<lambda>(i, w). new_rule (pr_tenant p) (pv_id version) (pe_rule env i) w) (enumerate 0 ws)"
  assume found: "find_version (pr_tenant p) version_id pdb = Some version" "pv_status version = VERSION_DRAFT"
    and ins: "insert_rules ?new (pdb\<lparr>rules := filter (\<lambda>r. rl_version r \<noteq> pv_id version) (rules pdb)\<rparr>) = Inr pdb'"
  note version = find_version_SomeD [OF found(1)]
  note rs = insert_rules_InrD [OF ins]
  have new: "rl_version r = pv_id version \<and> rl_tenant r = pr_tenant p" if "r \<in> set ?new" for r
    using that by (auto simp: new_rule_def)
  have rules': "rules pdb' = filter (\<lambda>r. rl_version r \<noteq> pv_id version) (rules pdb) @ ?new"
    and versions': "versions pdb' = versions pdb" using rs(1) by simp_all
  have "r \<in> set (active_rules tenant pdb)" if act: "r \<in> set (active_rules tenant pdb')" for r tenant
  proof -
    obtain u where u: "r \<in> set (rules pdb')" "rl_tenant r = tenant" "u \<in> set (versions pdb)"
      "pv_id u = rl_version r" "pv_status u = VERSION_ACTIVE"
      using act unfolding active_rules_def in_rules_of_active versions' by blast
    have "u \<noteq> version" using u(5) found(2) by auto
    then have "rl_version r \<noteq> pv_id version"
      using version_unique [OF assms(2) u(3), of version] version u(4) by metis
    then have "r \<notin> set ?new" using new by blast
    then have "r \<in> set (rules pdb)" using u(1) unfolding rules' by simp
    then show ?thesis using u unfolding active_rules_def in_rules_of_active by blast
  qed
  then have "apart (active_rules tenant pdb')" for tenant
    using apart_subset [OF policies_invD(5) [OF assms(2)]] by blast
  moreover have "\<exists>u \<in> set (versions pdb). pv_id u = rl_version r \<and> pv_tenant u = rl_tenant r"
    if r: "r \<in> set (rules pdb')" for r
  proof (cases "r \<in> set ?new")
    case True
    then show ?thesis using new [OF True] version by metis
  next
    case False
    then have "r \<in> set (rules pdb)" using r unfolding rules' by simp
    then show ?thesis by (rule policies_invD(3) [OF assms(2)])
  qed
  moreover have "distinct (map rl_id (rules pdb'))" using rs(2) unfolding rules' by simp
  ultimately show ?thesis
    using policies_invD(1,4) [OF assms(2)] unfolding policies_inv_def versions' by blast
qed

lemma validate_rules_no_overlaps:
  "validate_rules store_rows tenant rs pdb = Inr u \<Longrightarrow> no_overlaps rs"
  by (auto simp: validate_rules_def Let_def and_then_Inr_iff first_overlap_None_iff)

lemma load_bundle_InrD:
  assumes "load_bundle tenant version_id pdb = Inr bundle"
  shows "find_version tenant version_id pdb = Some (bu_version bundle)"
    "po_id (bu_policy bundle) = pv_policy (bu_version bundle)"
    "set (bu_rules bundle) = set (version_rules tenant version_id pdb)"
  using assms
  by (auto simp: load_bundle_def dest!: select_one_SomeD find_version_SomeD split: option.splits)

lemma activate_cases:
  assumes "activate_policy_version env store_rows p version_id pdb = Inr (bundle, pdb')"
  obtains (already) "pdb' = pdb"
  | (activated) old where "load_bundle (pr_tenant p) version_id pdb = Inr old"
      "pv_status (bu_version old) = VERSION_DRAFT" "bu_rules old \<noteq> []"
      "no_overlaps (map descriptor_of_rule (bu_rules old))"
      "\<And>r r'. r \<in> set (bu_rules old) \<Longrightarrow>
         r' \<in> set (rules_of_active_versions (\<lambda>v. pv_policy v \<noteq> po_id (bu_policy old)) (pr_tenant p) pdb) \<Longrightarrow>
         \<not> rules_overlap (descriptor_of_rule r) (descriptor_of_rule r')"
      "pdb' = retire_and_activate (pe_now env) (pr_user p) (bu_version old) pdb"
proof -
  obtain old where old: "load_bundle (pr_tenant p) version_id pdb = Inr old"
    using assms by (auto simp: activate_policy_version_def Let_def and_then_Inr_iff)
  show thesis
  proof (cases "pv_status (bu_version old)")
    case VERSION_ACTIVE
    then show thesis using assms old by (intro already) (auto simp: activate_policy_version_def Let_def and_then_Inr_iff)
  next
    case VERSION_RETIRED
    then show thesis using assms old by (auto simp: activate_policy_version_def Let_def and_then_Inr_iff)
  next
    case VERSION_DRAFT
    let ?ds = "map descriptor_of_rule (bu_rules old)"
    let ?others = "rules_of_active_versions (\<lambda>v. pv_policy v \<noteq> po_id (bu_policy old)) (pr_tenant p) pdb"
    have checks: "bu_rules old \<noteq> []" "\<exists>u. validate_rules store_rows (pr_tenant p) ?ds pdb = Inr u"
      "\<not> list_ex (\<lambda>draft. list_ex (rules_overlap draft) (map descriptor_of_rule ?others)) ?ds"
      "pdb' = retire_and_activate (pe_now env) (pr_user p) (bu_version old) pdb"
      using assms old VERSION_DRAFT
      by (auto simp: activate_policy_version_def Let_def and_then_Inr_iff split: if_splits
          dest!: with_bundle_InrD)
    then show thesis
      using old VERSION_DRAFT validate_rules_no_overlaps
      by (intro activated [of old]) (auto simp: list_ex_iff)
  qed
qed

lemma in_retired_and_activated:
  assumes "policies_inv pdb" "version \<in> set (versions pdb)"
    and "u \<in> set (versions (retire_and_activate now user version pdb))"
  obtains (self) "u = activated now user version"
  | (retired) w where "w \<in> set (versions pdb)" "u = w\<lparr>pv_status := VERSION_RETIRED\<rparr>" "pv_id w \<noteq> pv_id version"
  | (other) "u \<in> set (versions pdb)" "pv_id u \<noteq> pv_id version"
      "pv_status u = VERSION_ACTIVE \<Longrightarrow> pv_policy u \<noteq> pv_policy version"
proof -
  let ?P = "\<lambda>v. pv_policy v = pv_policy version \<and> pv_status v = VERSION_ACTIVE \<and> pv_id v \<noteq> pv_id version"
  have vs: "versions (retire_and_activate now user version pdb) =
      update_where (\<lambda>v. pv_id v = pv_id version) (activated now user)
        (update_where ?P (\<lambda>v. v\<lparr>pv_status := VERSION_RETIRED\<rparr>) (versions pdb))"
    by (simp add: retire_and_activate_def)
  obtain w' where w': "w' \<in> set (update_where ?P (\<lambda>v. v\<lparr>pv_status := VERSION_RETIRED\<rparr>) (versions pdb))"
    "pv_id w' = pv_id version \<and> u = activated now user w' \<or> pv_id w' \<noteq> pv_id version \<and> u = w'"
    using assms(3) [unfolded vs]
    unfolding in_update_where_iff [of u] by blast
  obtain w where w: "w \<in> set (versions pdb)"
    "?P w \<and> w' = w\<lparr>pv_status := VERSION_RETIRED\<rparr> \<or> \<not> ?P w \<and> w' = w"
    using w'(1) unfolding in_update_where_iff by blast
  show thesis
  proof (cases "pv_id w = pv_id version")
    case True
    then have "w = version" using version_unique [OF assms(1) w(1) assms(2)] by simp
    then show thesis using w w' by (intro self) auto
  next
    case False
    then show thesis using w w' retired [of w] other by auto
  qed
qed

lemma activate_policy_version_inv:
  assumes "activate_policy_version env store_rows p version_id pdb = Inr (bundle, pdb')" "policies_inv pdb"
  shows "policies_inv pdb'"
  using assms(1)
proof (cases rule: activate_cases)
  case (activated old)
  let ?v = "bu_version old"
  have v: "?v \<in> set (versions pdb)" "pv_tenant ?v = pr_tenant p" "pv_id ?v = version_id"
    using find_version_SomeD [OF load_bundle_InrD(1) [OF activated(1)]] by simp_all
  have rules': "rules pdb' = rules pdb" by (simp add: activated(6) retire_and_activate_def)
  have own: "r \<in> set (bu_rules old) \<or>
      r \<in> set (rules_of_active_versions (\<lambda>v. pv_policy v \<noteq> po_id (bu_policy old)) tenant pdb)"
    and own_tenant: "r \<in> set (bu_rules old) \<Longrightarrow> tenant = pr_tenant p"
    if act: "r \<in> set (active_rules tenant pdb')" for r tenant
  proof -
    obtain u where u: "r \<in> set (rules pdb)" "rl_tenant r = tenant"
      "u \<in> set (versions pdb')" "pv_id u = rl_version r" "pv_status u = VERSION_ACTIVE"
      using act unfolding active_rules_def in_rules_of_active rules' by blast
    obtain w where w: "w \<in> set (versions pdb)" "pv_id w = rl_version r" "pv_tenant w = rl_tenant r"
      using policies_invD(3) [OF assms(2) u(1)] by blast
    show "r \<in> set (bu_rules old) \<Longrightarrow> tenant = pr_tenant p"
      using u(2) unfolding load_bundle_InrD(3) [OF activated(1)] by (simp add: version_rules_def)
    from assms(2) v(1) u(3) [unfolded activated(6)] show "r \<in> set (bu_rules old) \<or>
      r \<in> set (rules_of_active_versions (\<lambda>v. pv_policy v \<noteq> po_id (bu_policy old)) tenant pdb)"
    proof (cases rule: in_retired_and_activated)
      case self
      then have "pv_id w = pv_id ?v" using u(4) w(2) by (simp add: activated_def)
      then have "w = ?v" using version_unique [OF assms(2) w(1) v(1)] by simp
      then have "r \<in> set (version_rules (pr_tenant p) version_id pdb)"
        using u(1) w(2,3) v(2,3) by (simp add: version_rules_def)
      then show ?thesis using load_bundle_InrD(3) [OF activated(1)] by simp
    next
      case (retired w')
      then show ?thesis using u(5) by simp
    next
      case other
      then show ?thesis
        using u load_bundle_InrD(2) [OF activated(1)] unfolding in_rules_of_active by auto
    qed
  qed
  have apart_new: "\<not> rules_overlap (descriptor_of_rule r) (descriptor_of_rule r')"
    if r: "r \<in> set (bu_rules old)" "r' \<in> set (bu_rules old)" "rl_id r \<noteq> rl_id r'" for r r'
  proof -
    obtain i j where ij: "i < length (bu_rules old)" "j < length (bu_rules old)" "r = bu_rules old ! i"
      "r' = bu_rules old ! j" using r(1,2) by (metis in_set_conv_nth)
    then have "i \<noteq> j" using r(3) by auto
    then show ?thesis
      using activated(4) ij rules_overlap_sym
      unfolding no_overlaps_def sorted_wrt_map sorted_wrt_iff_nth_less
      by (cases "i < j") (auto simp: not_less_iff_gr_or_eq)
  qed
  have "apart (active_rules tenant pdb')" for tenant
    unfolding apart_def
  proof (intro ballI impI)
    fix r r' assume r: "r \<in> set (active_rules tenant pdb')" "r' \<in> set (active_rules tenant pdb')"
      and ids: "rl_id r \<noteq> rl_id r'"
    let ?others = "\<lambda>t. set (rules_of_active_versions (\<lambda>v. pv_policy v \<noteq> po_id (bu_policy old)) t pdb)"
    consider (new) "r \<in> set (bu_rules old)" "r' \<in> set (bu_rules old)"
      | (mixed) "r \<in> set (bu_rules old)" "r' \<in> ?others tenant"
      | (mixed') "r' \<in> set (bu_rules old)" "r \<in> ?others tenant"
      | (old) "r \<in> ?others tenant" "r' \<in> ?others tenant"
      using own [OF r(1)] own [OF r(2)] by blast
    then show "\<not> rules_overlap (descriptor_of_rule r) (descriptor_of_rule r')"
    proof cases
      case new
      then show ?thesis using apart_new ids by blast
    next
      case mixed
      then show ?thesis using activated(5) own_tenant [OF r(1)] by blast
    next
      case mixed'
      then show ?thesis using activated(5) [of r' r] own_tenant [OF r(2)] rules_overlap_sym by blast
    next
      case old
      have "?others tenant \<subseteq> set (active_rules tenant pdb)"
        unfolding active_rules_def by (auto simp: in_rules_of_active)
      then show ?thesis using old ids policies_invD(5) [OF assms(2), of tenant] by (auto simp: apart_def)
    qed
  qed
  moreover have versions': "map pv_id (versions pdb') = map pv_id (versions pdb)"
    "map pv_tenant (versions pdb') = map pv_tenant (versions pdb)"
    by (simp_all add: activated(6) retire_and_activate_def map_update_where activated_def)
  moreover have "\<exists>u \<in> set (versions pdb'). pv_id u = rl_version r \<and> pv_tenant u = rl_tenant r"
    if r: "r \<in> set (rules pdb)" for r
  proof -
    obtain w where "w \<in> set (versions pdb)" "pv_id w = rl_version r" "pv_tenant w = rl_tenant r"
      using policies_invD(3) [OF assms(2) r] by blast
    then obtain i where "i < length (versions pdb)" "pv_id (versions pdb ! i) = rl_version r"
      "pv_tenant (versions pdb ! i) = rl_tenant r" by (metis in_set_conv_nth)
    moreover have len: "length (versions pdb') = length (versions pdb)" by (metis length_map versions'(1))
    ultimately have "pv_id (versions pdb' ! i) = rl_version r" "pv_tenant (versions pdb' ! i) = rl_tenant r"
      "i < length (versions pdb')"
      using versions' by (metis nth_map)+
    then show ?thesis using nth_mem by blast
  qed
  moreover have "u = w" if uw: "u \<in> set (versions pdb')" "w \<in> set (versions pdb')" "pv_status u = VERSION_ACTIVE"
    "pv_status w = VERSION_ACTIVE" "pv_policy u = pv_policy w" for u w
  proof -
    from assms(2) v(1) uw(1) [unfolded activated(6)] show ?thesis
    proof (cases rule: in_retired_and_activated)
      case self
      from assms(2) v(1) uw(2) [unfolded activated(6)] show ?thesis
        by (cases rule: in_retired_and_activated) (use self uw in \<open>auto simp: activated_def\<close>)
    next
      case (retired x)
      then show ?thesis using uw(3) by simp
    next
      case other
      from assms(2) v(1) uw(2) [unfolded activated(6)] show ?thesis
        by (cases rule: in_retired_and_activated)
          (use other uw policies_invD(4) [OF assms(2)] in \<open>auto simp: activated_def\<close>)
    qed
  qed
  ultimately show ?thesis
    using policies_invD(1,2) [OF assms(2)] unfolding policies_inv_def rules' by metis
qed (use assms(2) in simp)

subsection \<open>Steps\<close>

text \<open>Successful service calls, and whatever else changes the catalog the policies refer to.\<close>

inductive policy_step :: "policy_db \<Rightarrow> policy_db \<Rightarrow> bool" where
  policy_create: "create_policy env store_rows p request pdb = Inr (bundle, pdb') \<Longrightarrow> policy_step pdb pdb'"
| policy_clone: "clone_policy_version env p policy_id pdb = Inr (bundle, pdb') \<Longrightarrow> policy_step pdb pdb'"
| policy_patch: "patch_policy_version env store_rows p version_id ws pdb = Inr (bundle, pdb') \<Longrightarrow>
    policy_step pdb pdb'"
| policy_activate: "activate_policy_version env store_rows p version_id pdb = Inr (bundle, pdb') \<Longrightarrow>
    policy_step pdb pdb'"
| policy_catalog: "policy_step pdb (pdb\<lparr>products := ps, variants := vs, skus := ss\<rparr>)"

definition policy_start :: "policy_db \<Rightarrow> bool" where
  "policy_start pdb \<longleftrightarrow> policies pdb = [] \<and> versions pdb = [] \<and> rules pdb = []"

lemma policies_inv_catalog [simp]:
  "policies_inv (pdb\<lparr>products := ps, variants := vs, skus := ss\<rparr>) = policies_inv pdb"
  by (simp add: policies_inv_def active_rules_def rules_of_active_versions_def)

interpretation policy: step_invariant policy_start policy_step policies_inv
proof unfold_locales
  fix s t :: policy_db
  show "policy_start s \<Longrightarrow> policies_inv s"
    by (simp add: policy_start_def policies_inv_def apart_def active_rules_def rules_of_active_versions_def)
  show "policies_inv s \<Longrightarrow> policy_step s t \<Longrightarrow> policies_inv t"
    by (erule policy_step.cases)
      (simp_all add: create_policy_inv clone_policy_version_inv patch_policy_version_inv
        activate_policy_version_inv)
qed

subsection \<open>Published versions are frozen\<close>

fun stage :: "version_status \<Rightarrow> nat" where
  "stage VERSION_DRAFT = 0"
| "stage VERSION_ACTIVE = 1"
| "stage VERSION_RETIRED = 2"

definition keeps_version :: "policy_version \<Rightarrow> policy_db \<Rightarrow> policy_db \<Rightarrow> bool" where
  "keeps_version v pdb pdb' \<longleftrightarrow>
     (\<exists>v' \<in> set (versions pdb'). pv_id v' = pv_id v \<and> pv_tenant v' = pv_tenant v \<and>
        pv_policy v' = pv_policy v \<and> pv_number v' = pv_number v \<and>
        stage (pv_status v) \<le> stage (pv_status v')) \<and>
     (pv_status v \<noteq> VERSION_DRAFT \<longrightarrow>
        version_rules (pv_tenant v) (pv_id v) pdb' = version_rules (pv_tenant v) (pv_id v) pdb)"

lemma keeps_version_refl: "v \<in> set (versions pdb) \<Longrightarrow> keeps_version v pdb pdb"
  by (auto simp: keeps_version_def)

lemma keeps_same_versions:
  assumes "v \<in> set (versions pdb)" "versions pdb' = versions pdb @ new"
    "pv_status v \<noteq> VERSION_DRAFT \<Longrightarrow>
       version_rules (pv_tenant v) (pv_id v) pdb' = version_rules (pv_tenant v) (pv_id v) pdb"
  shows "keeps_version v pdb pdb'"
  using assms by (auto simp: keeps_version_def)

lemma version_rules_append:
  "rules pdb' = rules pdb @ new \<Longrightarrow> (\<And>r. r \<in> set new \<Longrightarrow> rl_version r \<noteq> i) \<Longrightarrow>
     version_rules tenant i pdb' = version_rules tenant i pdb"
  by (auto simp: version_rules_def filter_empty_conv)

lemma create_keeps:
  assumes "create_policy env store_rows p request pdb = Inr (bundle, pdb')" "v \<in> set (versions pdb)"
  shows "keeps_version v pdb pdb'"
proof -
  let ?v = "draft_version (pr_tenant p) (pe_version env) (pe_policy env) 1"
  let ?new = "map (\<lambda>(i, w). new_rule (pr_tenant p) (pe_version env) (pe_rule env i) w) (enumerate 0 (pc_rules request))"
  obtain po pdb1 pdb2 where steps: "insert_policy po pdb = Inr pdb1" "insert_version ?v pdb1 = Inr pdb2"
    "insert_rules ?new pdb2 = Inr pdb'"
    using assms(1) by (auto simp: create_policy_def Let_def and_then_Inr_iff dest!: with_bundle_InrD)
  note po = insert_policy_InrD [OF steps(1)]
  note v = insert_version_InrD [OF steps(2), unfolded po]
  note rs = insert_rules_InrD(1) [OF steps(3), unfolded v(1)]
  have "pv_id v \<noteq> pe_version env" using v(2) assms(2) by (simp add: draft_version_def) (metis image_eqI)
  then show ?thesis
    by (intro keeps_same_versions [OF assms(2), where new = "[?v]"] version_rules_append [where new = ?new])
      (auto simp: rs new_rule_def)
qed

lemma clone_keeps:
  assumes "clone_policy_version env p policy_id pdb = Inr (bundle, pdb')" "v \<in> set (versions pdb)"
  shows "keeps_version v pdb pdb'"
proof -
  let ?v = "draft_version (pr_tenant p) (pe_version env) policy_id (latest_number policy_id pdb + 1)"
  let ?new = "\<lambda>rs. map (\<lambda>(i, r). cloned_rule (pr_tenant p) (pe_version env) (pe_rule env i) r) (enumerate 0 rs)"
  obtain rs pdb1 where steps: "insert_version ?v pdb = Inr pdb1" "insert_rules (?new rs) pdb1 = Inr pdb'"
    using assms(1) by (auto simp: clone_policy_version_def Let_def and_then_Inr_iff split: option.splits
        dest!: with_bundle_InrD)
  note v = insert_version_InrD [OF steps(1)]
  note new = insert_rules_InrD(1) [OF steps(2), unfolded v(1)]
  have "pv_id v \<noteq> pe_version env" using v(2) assms(2) by (simp add: draft_version_def) (metis image_eqI)
  then show ?thesis
    by (intro keeps_same_versions [OF assms(2), where new = "[?v]"] version_rules_append [where new = "?new rs"])
      (auto simp: new cloned_rule_def)
qed

lemma patch_keeps:
  assumes "patch_policy_version env store_rows p version_id ws pdb = Inr (bundle, pdb')"
    "policies_inv pdb" "v \<in> set (versions pdb)"
  shows "keeps_version v pdb pdb'"
  using assms(1)
proof (rule patch_policy_version_InrD)
  fix version :: policy_version
  let ?new = "map (\<lambda>(i, w). new_rule (pr_tenant p) (pv_id version) (pe_rule env i) w) (enumerate 0 ws)"
  assume found: "find_version (pr_tenant p) version_id pdb = Some version" "pv_status version = VERSION_DRAFT"
    and ins: "insert_rules ?new (pdb\<lparr>rules := filter (\<lambda>r. rl_version r \<noteq> pv_id version) (rules pdb)\<rparr>) = Inr pdb'"
  note rs = insert_rules_InrD(1) [OF ins]
  show ?thesis
  proof (rule keeps_same_versions [OF assms(3), where new = "[]"])
    show "versions pdb' = versions pdb @ []" by (simp add: rs)
    assume "pv_status v \<noteq> VERSION_DRAFT"
    then have other: "pv_id v \<noteq> pv_id version"
      using version_unique [OF assms(2,3), of version] find_version_SomeD [OF found(1)] found(2) by metis
    have "filter (\<lambda>r. rl_tenant r = pv_tenant v \<and> rl_version r = pv_id v) ?new = []"
      using other by (auto simp: filter_empty_conv new_rule_def)
    moreover have "filter (\<lambda>r. rl_tenant r = pv_tenant v \<and> rl_version r = pv_id v)
        (filter (\<lambda>r. rl_version r \<noteq> pv_id version) (rules pdb))
      = filter (\<lambda>r. rl_tenant r = pv_tenant v \<and> rl_version r = pv_id v) (rules pdb)"
      using other by (auto intro!: filter_cong)
    ultimately show "version_rules (pv_tenant v) (pv_id v) pdb' = version_rules (pv_tenant v) (pv_id v) pdb"
      by (simp add: version_rules_def rs)
  qed
qed

lemma activate_keeps:
  assumes "activate_policy_version env store_rows p version_id pdb = Inr (bundle, pdb')"
    "policies_inv pdb" "v \<in> set (versions pdb)"
  shows "keeps_version v pdb pdb'"
  using assms(1)
proof (cases rule: activate_cases)
  case (activated old)
  let ?v = "bu_version old"
  have own: "?v \<in> set (versions pdb)"
    using find_version_SomeD [OF load_bundle_InrD(1) [OF activated(1)]] by simp
  let ?P = "\<lambda>v. pv_policy v = pv_policy ?v \<and> pv_status v = VERSION_ACTIVE \<and> pv_id v \<noteq> pv_id ?v"
  have rules': "version_rules (pv_tenant v) (pv_id v) pdb' = version_rules (pv_tenant v) (pv_id v) pdb"
    by (simp add: version_rules_def activated(6) retire_and_activate_def)
  define w where "w = (if ?P v then v\<lparr>pv_status := VERSION_RETIRED\<rparr> else v)"
  define v' where "v' = (if pv_id w = pv_id ?v then Policies.activated (pe_now env) (pr_user p) w else w)"
  have "w \<in> set (update_where ?P (\<lambda>v. v\<lparr>pv_status := VERSION_RETIRED\<rparr>) (versions pdb))"
    using assms(3) by (auto simp: w_def set_update_where)
  then have "v' \<in> set (versions pdb')"
    unfolding v'_def activated(6) retire_and_activate_def by (auto simp: set_update_where)
  moreover have "stage (pv_status v) \<le> stage (pv_status v')"
  proof (cases "pv_id v = pv_id ?v")
    case True
    then have "v = ?v" using version_unique [OF assms(2,3) own] by simp
    then show ?thesis using activated(2) by simp
  next
    case False
    then show ?thesis by (auto simp: v'_def w_def)
  qed
  moreover have "pv_id v' = pv_id v" "pv_tenant v' = pv_tenant v" "pv_policy v' = pv_policy v"
    "pv_number v' = pv_number v"
    by (simp_all add: v'_def w_def activated_def)
  ultimately show ?thesis using rules' unfolding keeps_version_def by blast
qed (use keeps_version_refl assms(3) in simp)

lemma catalog_keeps:
  "v \<in> set (versions pdb) \<Longrightarrow> keeps_version v pdb (pdb\<lparr>products := ps, variants := vs, skus := ss\<rparr>)"
  by (auto simp: keeps_version_def version_rules_def)

lemma step_keeps:
  "policy_step pdb pdb' \<Longrightarrow> policies_inv pdb \<Longrightarrow> v \<in> set (versions pdb) \<Longrightarrow> keeps_version v pdb pdb'"
  by (erule policy_step.cases)
    (auto intro: create_keeps clone_keeps patch_keeps activate_keeps catalog_keeps)

lemma run_keeps:
  "reaches policy_step pdb pdb' \<Longrightarrow> policies_inv pdb \<Longrightarrow> v \<in> set (versions pdb) \<Longrightarrow> keeps_version v pdb pdb'"
proof (induction rule: reaches.induct)
  case (reaches_step s t u)
  have inv: "policies_inv t" by (rule policy.reaches_inv [OF reaches_step.hyps(1) reaches_step.prems(1)])
  have kept: "keeps_version v s t" using reaches_step by blast
  then obtain w where w: "w \<in> set (versions t)" "pv_id w = pv_id v" "pv_tenant w = pv_tenant v"
    "pv_policy w = pv_policy v" "pv_number w = pv_number v" "stage (pv_status v) \<le> stage (pv_status w)"
    unfolding keeps_version_def by blast
  have "keeps_version w t u" by (rule step_keeps [OF reaches_step.hyps(2) inv w(1)])
  moreover have "pv_status w \<noteq> VERSION_DRAFT" if "pv_status v \<noteq> VERSION_DRAFT"
    using w(6) that by (cases "pv_status v"; cases "pv_status w") auto
  moreover obtain x where "x \<in> set (versions u)" "pv_id x = pv_id w" "pv_tenant x = pv_tenant w"
    "pv_policy x = pv_policy w" "pv_number x = pv_number w" "stage (pv_status w) \<le> stage (pv_status x)"
    using \<open>keeps_version w t u\<close> unfolding keeps_version_def by blast
  ultimately show ?case using kept w unfolding keeps_version_def by fastforce
qed (rule keeps_version_refl)

subsection \<open>Properties\<close>

definition sample_admin :: principal where
  "sample_admin =
     \<lparr>pr_user = 50, pr_tenant = 1, pr_email = ''a@b.c'', pr_display_name = ''Admin'',
      pr_scopes = [\<lparr>sc_role = Canonical TENANT_ADMIN, sc_store = None\<rparr>],
      pr_canonical_roles = [TENANT_ADMIN], pr_assigned_stores = [], pr_session = None\<rparr>"

definition sample_default :: rule_write where
  "sample_default =
     \<lparr>rw_store = None, rw_category = None, rw_style = None, rw_sku = None, rw_size = None,
      rw_min = 2, rw_target = 6, rw_priority = 0\<rparr>"

definition sample_policy_env :: policy_env where
  "sample_policy_env = \<lparr>pe_policy = 60, pe_version = 61, pe_rule = (\<lambda>i. 70 + of_nat i), pe_now = 0\<rparr>"

definition no_policies :: policy_db where
  "no_policies = \<lparr>policies = [], versions = [], rules = [], products = [], variants = [], skus = []\<rparr>"

definition sample_definition :: policy_definition where
  "sample_definition =
     \<lparr>po_tenant = 1, po_id = 60, po_name = ''Floor'', po_description = None, po_updated_at = 0\<rparr>"

definition sample_drafted :: policy_db where
  "sample_drafted = no_policies\<lparr>policies := [sample_definition], versions := [draft_version 1 61 60 1],
     rules := [new_rule 1 61 70 sample_default]\<rparr>"

definition sample_active :: policy_db where
  "sample_active = sample_drafted\<lparr>versions := [activated 0 50 (draft_version 1 61 60 1)]\<rparr>"

lemma sample_policies:
  "\<exists>b. create_policy sample_policy_env [] sample_admin
     \<lparr>pc_name = ''Floor'', pc_description = None, pc_rules = [sample_default]\<rparr> no_policies = Inr (b, sample_drafted)"
  "\<exists>b. activate_policy_version sample_policy_env [] sample_admin 61 sample_drafted = Inr (b, sample_active)"
proof -
  note defs = sample_admin_def sample_default_def sample_policy_env_def no_policies_def
    sample_definition_def sample_drafted_def sample_active_def ensure_manage_rule_scopes_def has_permission_iff
    has_tenant_permission_iff all_permissions_def validate_rules_def Let_def List.map_filter_def
    descriptor_of_write_def selector_kind_of_def sku_sizes_def valid_labels_def insert_policy_def
    insert_version_def insert_rules_def draft_version_def new_rule_def rule_checks_def with_bundle_def
    load_bundle_def find_version_def version_rules_def ensure_def size_mismatch_def
  show "\<exists>b. create_policy sample_policy_env [] sample_admin
     \<lparr>pc_name = ''Floor'', pc_description = None, pc_rules = [sample_default]\<rparr> no_policies = Inr (b, sample_drafted)"
    by (simp add: create_policy_def defs)
  show "\<exists>b. activate_policy_version sample_policy_env [] sample_admin 61 sample_drafted = Inr (b, sample_active)"
    by (simp add: activate_policy_version_def defs descriptor_of_rule_def rules_of_active_versions_def
        retire_and_activate_def activated_def)
qed

lemma sample_policy_run: "reaches policy_step no_policies sample_active"
proof -
  obtain b b' where "create_policy sample_policy_env [] sample_admin
     \<lparr>pc_name = ''Floor'', pc_description = None, pc_rules = [sample_default]\<rparr> no_policies = Inr (b, sample_drafted)"
    "activate_policy_version sample_policy_env [] sample_admin 61 sample_drafted = Inr (b', sample_active)"
    using sample_policies by blast
  then have "policy_step no_policies sample_drafted" "policy_step sample_drafted sample_active"
    by (auto intro: policy_create policy_activate)
  then show ?thesis by (meson reaches_refl reaches_step)
qed

text \<open>
  C15: Evaluation is never ambiguous: in every state the policy services reach, the active rules of a
  tenant select for each item and store either no rule, because none matches, or the one matching
  rule that outranks every other in specificity and then priority.
\<close>

theorem selection_is_unambiguous:
  assumes "policy_start pdb0" "reaches policy_step pdb0 pdb"
  shows "let rs = map descriptor_of_rule (active_rules tenant pdb) in
    select_policy_rule rs store item = Inr None \<and>
      (\<forall>r \<in> set rs. rule_precedence r store item = None) \<or>
    (\<exists>r \<in> set rs. select_policy_rule rs store item = Inr (Some r) \<and> rule_precedence r store item \<noteq> None \<and>
      (\<forall>r' \<in> set rs. r' \<noteq> r \<longrightarrow> rule_precedence r' store item \<noteq> None \<longrightarrow> outranks store item r r'))"
  using active_rules_no_overlaps [OF policy.reachable_inv [OF assms(1,2)], of tenant]
  unfolding Let_def
  by (cases rule: select_policy_rule_cases [where store = store and item = item]) blast+

theorem selection_is_unambiguous_witness:
  "\<exists>r. select_policy_rule (map descriptor_of_rule (active_rules 1 sample_active)) 2
     \<lparr>sx_sku = 4, sx_style = ''S1'', sx_category = ''SHIRTS'', sx_size = ''M''\<rparr> = Inr (Some r) \<and> rd_target r = 6"
proof -
  let ?rs = "map descriptor_of_rule (active_rules 1 sample_active)"
  let ?item = "\<lparr>sx_sku = 4, sx_style = ''S1'', sx_category = ''SHIRTS'', sx_size = ''M''\<rparr>"
  have rs: "?rs = [descriptor_of_rule (new_rule 1 61 70 sample_default)]"
    by (simp add: active_rules_def rules_of_active_versions_def sample_active_def sample_drafted_def
        no_policies_def new_rule_def activated_def draft_version_def)
  have "rule_precedence (descriptor_of_rule (new_rule 1 61 70 sample_default)) 2 ?item = Some 1"
    "rd_target (descriptor_of_rule (new_rule 1 61 70 sample_default)) = 6"
    by (simp_all add: rule_precedence_def selector_kind_of_def descriptor_of_rule_def new_rule_def
        sample_default_def)
  moreover have "policy_start no_policies" by (simp add: policy_start_def no_policies_def)
  from selection_is_unambiguous [OF this sample_policy_run, of 1 2 ?item]
  have "select_policy_rule ?rs 2 ?item = Inr None \<and> (\<forall>r \<in> set ?rs. rule_precedence r 2 ?item = None) \<or>
    (\<exists>r \<in> set ?rs. select_policy_rule ?rs 2 ?item = Inr (Some r))" unfolding Let_def by blast
  ultimately show ?thesis unfolding rs by auto
qed

text \<open>
  C16: Published versions are frozen: once a policy version has left the draft stage no service call
  changes its rules, its number or its policy, and no version ever moves back to an earlier stage.
\<close>

theorem published_versions_are_frozen:
  assumes "policies_inv pdb" "reaches policy_step pdb pdb'" "v \<in> set (versions pdb)"
  shows "(\<exists>v' \<in> set (versions pdb'). pv_id v' = pv_id v \<and> pv_tenant v' = pv_tenant v \<and>
       pv_policy v' = pv_policy v \<and> pv_number v' = pv_number v \<and>
       stage (pv_status v) \<le> stage (pv_status v')) \<and>
    (pv_status v \<noteq> VERSION_DRAFT \<longrightarrow>
       version_rules (pv_tenant v) (pv_id v) pdb' = version_rules (pv_tenant v) (pv_id v) pdb)"
  using run_keeps [OF assms(2,1,3)] unfolding keeps_version_def .

theorem published_versions_are_frozen_witness:
  "\<exists>v' \<in> set (versions sample_active). pv_id v' = 61 \<and> pv_number v' = 1"
proof -
  have "policies_inv no_policies" by (rule policy.init_inv) (simp add: policy_start_def no_policies_def)
  then have inv: "policies_inv sample_drafted" using sample_policies(1) create_policy_inv by blast
  have "policy_step sample_drafted sample_active" using sample_policies(2) policy_activate by blast
  with reaches_refl have run: "reaches policy_step sample_drafted sample_active" by (rule reaches_step)
  have v: "draft_version 1 61 60 1 \<in> set (versions sample_drafted)" by (simp add: sample_drafted_def)
  show ?thesis using published_versions_are_frozen [OF inv run v] by (auto simp: draft_version_def)
qed

text \<open>
  Readers see what they may: a discovered policy shows only tenant-wide rules and rules of stores
  its reader may read policies of, and someone who may not manage policies is shown an active version.
\<close>

theorem readers_see_their_scope:
  assumes "get_policy_bundle p policy_id requested pdb = Inr bundle" "policies_inv pdb"
  shows "(\<forall>r \<in> set (bu_rules bundle). \<forall>store. rl_store r = Some store \<longrightarrow> can_access_store p POLICY_READ store) \<and>
    (\<not> has_permission p POLICY_MANAGE \<longrightarrow> pv_status (bu_version bundle) = VERSION_ACTIVE) \<and>
    set (bu_rules bundle) \<subseteq> set (version_rules (pr_tenant p) (pv_id (bu_version bundle)) pdb)"
proof -
  obtain status v full where steps: "authorized_version_status p requested = Inr status"
    "selected_version (pr_tenant p) status policy_id pdb = Some v"
    "load_bundle (pr_tenant p) (pv_id v) pdb = Inr full" "visible_bundle full p = Some bundle"
    using assms(1) by (auto simp: get_policy_bundle_def and_then_Inr_iff split: option.splits)
  note full = load_bundle_InrD [OF steps(3)]
  have v: "v \<in> set (versions pdb)" "\<And>s. status = Some s \<Longrightarrow> pv_status v = s"
    using best_by_in [OF steps(2) [unfolded selected_version_def Let_def]] by auto
  note found = find_version_SomeD [OF full(1)]
  have same: "bu_version full = v" using version_unique [OF assms(2) _ v(1)] found by blast
  have version: "bu_version bundle = v" using steps(4) same
    by (auto simp: visible_bundle_def Let_def split: if_splits)
  have "pv_status v = VERSION_ACTIVE" if "\<not> has_permission p POLICY_MANAGE"
    using steps(1) that v(2) by (auto simp: authorized_version_status_def split: if_splits)
  moreover have "set (bu_rules bundle) \<subseteq> set (bu_rules full)"
    using steps(4) by (auto simp: visible_bundle_def Let_def split: if_splits)
  moreover have "can_access_store p POLICY_READ store" if "r \<in> set (bu_rules bundle)" "rl_store r = Some store" for r store
    using steps(4) that by (auto simp: visible_bundle_def Let_def can_access_store_def split: if_splits)
  ultimately show ?thesis using full(3) version by auto
qed

definition sample_reader :: principal where
  "sample_reader = sample_admin\<lparr>pr_scopes := [\<lparr>sc_role = Canonical STORE_MANAGER, sc_store = Some 2\<rparr>]\<rparr>"

theorem readers_see_their_scope_witness:
  "\<exists>bundle. get_policy_bundle sample_reader 60 None sample_active = Inr bundle \<and>
     pv_status (bu_version bundle) = VERSION_ACTIVE"
proof -
  have "policies_inv no_policies" by (rule policy.init_inv) (simp add: policy_start_def no_policies_def)
  then have inv: "policies_inv sample_active" by (rule policy.reaches_inv [OF sample_policy_run])
  have reader: "\<not> has_permission sample_reader POLICY_MANAGE"
    by (simp add: has_permission_iff sample_reader_def sample_admin_def store_manager_permissions_def)
  have "\<exists>bundle. get_policy_bundle sample_reader 60 None sample_active = Inr bundle"
    by (simp add: get_policy_bundle_def authorized_version_status_def reader selected_version_def
        load_bundle_def find_version_def version_rules_def visible_bundle_def Let_def sample_active_def
        sample_drafted_def sample_definition_def no_policies_def activated_def draft_version_def new_rule_def
        sample_default_def, simp add: sample_reader_def sample_admin_def)
  then show ?thesis using readers_see_their_scope [OF _ inv] reader by blast
qed

end
