(* ===== verification/Replenishment.thy ===== *)
theory Replenishment
  imports Policies Streaming
begin

text \<open>
  Replenishment of \<open>services/replenishment.py\<close>: an evaluation turns the projection of a store into
  tasks, and store staff move a task through its states.  An evaluation locks the store row, so two
  evaluations of a store never interleave, and the row lock and version of a task make a concurrent
  patch fail; each call is therefore one step.  The projection query has no \<open>ORDER BY\<close>: the order of
  the table stands for the order the database returns.
\<close>

subsection \<open>Verification\<close>

datatype verification_status =
  NOT_APPLICABLE | VERIFICATION_PENDING | VERIFIED | UNVERIFIED

definition replenishment_verification_status :: "task \<Rightarrow> timestamp \<Rightarrow> verification_status" where
  "replenishment_verification_status t now =
     (if tk_status t \<noteq> TASK_COMPLETED then NOT_APPLICABLE
      else if tk_quantity t \<le> tk_verified t then VERIFIED
      else case tk_verification_deadline t of
             None \<Rightarrow> VERIFICATION_PENDING
           | Some deadline \<Rightarrow> if deadline \<le> now then UNVERIFIED else VERIFICATION_PENDING)"

subsection \<open>Quantities\<close>

definition calculate_replenishment_quantity :: "int \<Rightarrow> int \<Rightarrow> int \<Rightarrow> int \<Rightarrow> int \<Rightarrow> int" where
  "calculate_replenishment_quantity floor_qty backroom_qty open_task_qty min_floor_qty target_floor_qty =
     (if min_floor_qty \<le> floor_qty then 0
      else min backroom_qty (max 0 (target_floor_qty - floor_qty - open_task_qty)))"

text \<open>The aggregate query over the item states of a store.\<close>

definition aged_confidence :: "timestamp \<Rightarrow> int \<Rightarrow> item_state \<Rightarrow> real" where
  "aged_confidence evaluated_at half_life s =
     it_confidence s * (1 / 2) powr (age_seconds evaluated_at (it_last_observed_at s) / of_int half_life)"

definition bucket_items :: "uuid \<Rightarrow> uuid \<Rightarrow> uuid \<Rightarrow> uuid \<Rightarrow> db \<Rightarrow> item_state list" where
  "bucket_items tenant store sku_id zone db =
     filter (\<lambda>s. it_tenant s = tenant \<and> it_store s = Some store \<and> it_sku s = sku_id \<and> it_zone s = Some zone)
       (item_states db)"

definition current_inventory_bucket_metadata ::
    "uuid \<Rightarrow> uuid \<Rightarrow> timestamp \<Rightarrow> int \<Rightarrow> db \<Rightarrow> uuid \<Rightarrow> uuid \<Rightarrow> (int \<times> real) option" where
  "current_inventory_bucket_metadata tenant store evaluated_at half_life db sku_id zone =
     (case bucket_items tenant store sku_id zone db of
        [] \<Rightarrow> None
      | items \<Rightarrow> Some (int (length items), Min (set (map (aged_confidence evaluated_at half_life) items))))"

subsection \<open>Snapshots\<close>

record snapshot =
  ss_item :: sku_context
  ss_floor :: int
  ss_backroom :: int
  ss_confidence :: real

record evaluation_request =
  eq_store :: uuid
  eq_skus :: "uuid list"

definition validate_evaluation_request :: "evaluation_request \<Rightarrow> evaluation_request outcome" where
  "validate_evaluation_request request =
     (if 5000 < length (eq_skus request) then Inl (ValueError ''sku_ids'')
      else if length (eq_skus request) \<noteq> length (remdups (eq_skus request))
      then Inl (ValueError ''sku_ids cannot contain duplicates'')
      else Inr request)"

type_synonym joined_row = "projection \<times> zone_row \<times> sku \<times> product"

definition projection_rows :: "uuid \<Rightarrow> evaluation_request \<Rightarrow> policy_db \<Rightarrow> db \<Rightarrow> joined_row list" where
  "projection_rows tenant request pdb db =
     [(p, z, s, pr).
        p \<leftarrow> filter (\<lambda>p. pj_tenant p = tenant \<and> pj_store p = eq_store request \<and>
                        (eq_skus request = [] \<or> pj_sku p \<in> set (eq_skus request))) (projections db),
        z \<leftarrow> filter (\<lambda>z. zn_id z = pj_zone p \<and> zn_tenant z = pj_tenant p) (zones db),
        s \<leftarrow> filter (\<lambda>s. sk_id s = pj_sku p \<and> sk_tenant s = pj_tenant p \<and> sk_active s) (skus pdb),
        v \<leftarrow> filter (\<lambda>v. sk_variant s = Some (va_id v) \<and> va_tenant v = sk_tenant s) (variants pdb),
        pr \<leftarrow> filter (\<lambda>pr. pd_id pr = va_product v \<and> pd_tenant pr = va_tenant v \<and> pd_active pr) (products pdb)]"

definition empty_snapshot :: "sku \<Rightarrow> product \<Rightarrow> snapshot" where
  "empty_snapshot s pr =
     \<lparr>ss_item = \<lparr>sx_sku = sk_id s, sx_style = pd_style_code pr, sx_category = pd_category pr,
                 sx_size = sk_size s\<rparr>,
      ss_floor = 0, ss_backroom = 0, ss_confidence = 1\<rparr>"

definition add_projection ::
    "(uuid \<Rightarrow> uuid \<Rightarrow> (int \<times> real) option) \<Rightarrow> joined_row \<Rightarrow> (uuid, snapshot) odict \<Rightarrow> (uuid, snapshot) odict" where
  "add_projection metadata row snapshots =
     (case row of (p, z, s, pr) \<Rightarrow>
        if zn_kind z \<noteq> SALES_FLOOR \<and> zn_kind z \<noteq> BACKROOM then snapshots
        else
          let snap = (case od_get snapshots (sk_id s) of None \<Rightarrow> empty_snapshot s pr | Some x \<Rightarrow> x);
              counted = (if zn_kind z = SALES_FLOOR then snap\<lparr>ss_floor := ss_floor snap + pj_quantity p\<rparr>
                         else snap\<lparr>ss_backroom := ss_backroom snap + pj_quantity p\<rparr>);
              current = metadata (pj_sku p) (pj_zone p);
              confidence = effective_bucket_confidence (pj_quantity p) (map_option fst current) (map_option snd current)
          in od_set (sk_id s) (counted\<lparr>ss_confidence := min (ss_confidence counted) confidence\<rparr>) snapshots)"

definition collect_snapshots ::
    "(uuid \<Rightarrow> uuid \<Rightarrow> (int \<times> real) option) \<Rightarrow> joined_row list \<Rightarrow> (uuid, snapshot) odict" where
  "collect_snapshots metadata rows = fold (add_projection metadata) rows []"

subsection \<open>Tasks\<close>

definition active_status :: "task_status \<Rightarrow> bool" where
  "active_status s \<longleftrightarrow> s \<in> {TASK_OPEN, TASK_CLAIMED, TASK_IN_PROGRESS}"

definition active_tasks :: "uuid \<Rightarrow> uuid \<Rightarrow> db \<Rightarrow> (uuid \<times> task) list" where
  "active_tasks tenant store db =
     map (\<lambda>t. (tk_sku t, t))
       (filter (\<lambda>t. tk_tenant t = tenant \<and> tk_store t = store \<and> active_status (tk_status t)) (tasks db))"

definition active_task_of :: "uuid \<Rightarrow> uuid \<Rightarrow> db \<Rightarrow> uuid \<Rightarrow> task option" where
  "active_task_of tenant store db sku_id = map_of (rev (active_tasks tenant store db)) sku_id"

definition open_task :: "uuid \<Rightarrow> uuid \<Rightarrow> uuid \<Rightarrow> uuid \<Rightarrow> policy_rule \<Rightarrow> int \<Rightarrow> timestamp \<Rightarrow> task" where
  "open_task task_id tenant store sku_id rule quantity now =
     \<lparr>tk_tenant = tenant, tk_id = task_id, tk_store = store, tk_sku = sku_id,
      tk_policy_version = rl_version rule, tk_policy_rule = rl_id rule, tk_status = TASK_OPEN,
      tk_quantity = quantity, tk_verified = 0, tk_verification_deadline = None, tk_version = 1,
      tk_claimed_by = None, tk_claimed_at = None, tk_started_at = None, tk_completed_at = None,
      tk_expires_at = None, tk_note = None, tk_created_at = now\<rparr>"

definition grown_task :: "policy_rule \<Rightarrow> int \<Rightarrow> task \<Rightarrow> task" where
  "grown_task rule quantity t =
     t\<lparr>tk_policy_version := rl_version rule, tk_policy_rule := rl_id rule,
       tk_quantity := tk_quantity t + quantity, tk_version := tk_version t + 1\<rparr>"

record evaluation =
  el_created :: "task list"
  el_updated :: "task list"
  el_low_confidence :: nat
  el_deferred :: nat
  el_deferred_quantity :: int

definition no_evaluation :: evaluation where
  "no_evaluation =
     \<lparr>el_created = [], el_updated = [], el_low_confidence = 0, el_deferred = 0, el_deferred_quantity = 0\<rparr>"

record evaluation_env =
  ee_task_id :: "uuid \<Rightarrow> uuid"
  ee_now :: timestamp
  ee_minimum_confidence :: real

definition evaluate_snapshot ::
    "evaluation_env \<Rightarrow> uuid \<Rightarrow> uuid \<Rightarrow> policy_rule list \<Rightarrow> (uuid \<Rightarrow> task option) \<Rightarrow> snapshot \<Rightarrow> evaluation
       \<Rightarrow> evaluation outcome" where
  "evaluate_snapshot env tenant store active active_task snap ev =
     (if ss_confidence snap < ee_minimum_confidence env
      then Inr (ev\<lparr>el_low_confidence := el_low_confidence ev + 1\<rparr>)
      else
        case select_policy_rule (map descriptor_of_rule active) store (ss_item snap) of
          Inl _ \<Rightarrow> Inl (ApiError 409 ''active_policy_overlap'')
        | Inr None \<Rightarrow> Inr ev
        | Inr (Some selected) \<Rightarrow>
            (case (rd_id selected, rd_version selected) of
               (Some rule_id, Some _) \<Rightarrow>
                 let sku_id = sx_sku (ss_item snap);
                     task_now = active_task sku_id;
                     quantity = calculate_replenishment_quantity (ss_floor snap) (ss_backroom snap)
                       (case task_now of None \<Rightarrow> 0 | Some t \<Rightarrow> tk_quantity t) (rd_min selected) (rd_target selected)
                 in if quantity \<le> 0 then Inr ev
                    else (case get_by rl_id rule_id active of
                            None \<Rightarrow> Inl (RuntimeFault ''KeyError'')
                          | Some rule \<Rightarrow>
                              (case task_now of
                                 None \<Rightarrow> Inr (ev\<lparr>el_created := el_created ev @
                                   [open_task (ee_task_id env sku_id) tenant store sku_id rule quantity (ee_now env)]\<rparr>)
                               | Some t \<Rightarrow>
                                   if tk_status t = TASK_OPEN
                                   then Inr (ev\<lparr>el_updated := el_updated ev @ [grown_task rule quantity t]\<rparr>)
                                   else Inr (ev\<lparr>el_deferred := el_deferred ev + 1,
                                                el_deferred_quantity := el_deferred_quantity ev + quantity\<rparr>)))
             | _ \<Rightarrow> Inr ev))"

fun evaluate_snapshots ::
    "evaluation_env \<Rightarrow> uuid \<Rightarrow> uuid \<Rightarrow> policy_rule list \<Rightarrow> (uuid \<Rightarrow> task option) \<Rightarrow> snapshot list \<Rightarrow> evaluation
       \<Rightarrow> evaluation outcome" where
  "evaluate_snapshots env tenant store active active_task [] ev = Inr ev"
| "evaluate_snapshots env tenant store active active_task (snap # snaps) ev =
     and_then (evaluate_snapshot env tenant store active active_task snap ev)
       (evaluate_snapshots env tenant store active active_task snaps)"

text \<open>The commit: the partial unique index over active tasks, the primary key and the checks.\<close>

definition active_key :: "task \<Rightarrow> uuid \<times> uuid \<times> uuid" where
  "active_key t = (tk_tenant t, tk_store t, tk_sku t)"

definition one_active_task :: "task list \<Rightarrow> bool" where
  "one_active_task ts \<longleftrightarrow> distinct (map active_key (filter (\<lambda>t. active_status (tk_status t)) ts))"

definition replaced :: "task list \<Rightarrow> task \<Rightarrow> task" where
  "replaced updated t = (case get_by tk_key (tk_key t) updated of None \<Rightarrow> t | Some u \<Rightarrow> u)"

definition commit_tasks :: "evaluation \<Rightarrow> db \<Rightarrow> db outcome" where
  "commit_tasks ev db =
     (let ts = map (replaced (el_updated ev)) (tasks db) @ el_created ev
      in if distinct (map tk_id ts) \<and> one_active_task ts \<and>
            list_all task_checks (el_updated ev @ el_created ev)
         then Inr (db\<lparr>tasks := ts\<rparr>)
         else Inl (ApiError 409 ''replenishment_evaluation_conflict''))"

record evaluation_result =
  vr_store :: uuid
  vr_suppressed_connectivity :: bool
  vr_outcome :: evaluation

definition nothing_evaluated :: "uuid \<Rightarrow> bool \<Rightarrow> evaluation_result" where
  "nothing_evaluated store suppressed =
     \<lparr>vr_store = store, vr_suppressed_connectivity = suppressed, vr_outcome = no_evaluation\<rparr>"

definition evaluate_replenishment ::
    "evaluation_env \<Rightarrow> principal \<Rightarrow> evaluation_request \<Rightarrow> settings \<Rightarrow> policy_db \<Rightarrow> db
       \<Rightarrow> (evaluation_result \<times> db) outcome" where
  "evaluate_replenishment env p request settings pdb db =
     (let tenant = pr_tenant p; store = eq_store request
      in and_then (ensure_store_scope p REPLENISHMENT_MANAGE store) (\<lambda>_.
         if \<not> list_ex (\<lambda>s. st_tenant s = tenant \<and> st_id s = store \<and> st_status s = STORE_ACTIVE) (stores db)
         then Inl (ApiError 404 ''Store not found'')
         else if effective_freshness (get_by cn_key (tenant, store) (connectivity_rows db)) settings (ee_now env) \<noteq> LIVE
         then Inr (nothing_evaluated store True, db)
         else
           let active = rules_of_active_versions (\<lambda>_. True) tenant pdb
           in if active = [] then Inr (nothing_evaluated store False, db)
              else
                let metadata = current_inventory_bucket_metadata tenant store (ee_now env)
                      (rfid_confidence_half_life_seconds settings) db;
                    snapshots = collect_snapshots metadata (projection_rows tenant request pdb db)
                in and_then (evaluate_snapshots env tenant store active (active_task_of tenant store db)
                               (map snd snapshots) no_evaluation) (\<lambda>ev.
                   and_then (commit_tasks ev db) (\<lambda>db'.
                   Inr (\<lparr>vr_store = store, vr_suppressed_connectivity = False, vr_outcome = ev\<rparr>, db')))))"

definition list_store_tasks ::
    "principal \<Rightarrow> uuid \<Rightarrow> task_status option \<Rightarrow> nat \<Rightarrow> nat \<Rightarrow> db \<Rightarrow> (task list \<times> nat) outcome" where
  "list_store_tasks p store status limit offset db =
     and_then (ensure_store_scope p REPLENISHMENT_READ store) (\<lambda>_.
       if \<not> list_ex (\<lambda>s. st_tenant s = pr_tenant p \<and> st_id s = store) (stores db)
       then Inl (ApiError 404 ''Store not found'')
       else
         let selected = filter (\<lambda>t. tk_tenant t = pr_tenant p \<and> tk_store t = store \<and>
                (case status of None \<Rightarrow> True | Some s \<Rightarrow> tk_status t = s)) (tasks db)
         in Inr (take limit (drop offset (sort_desc (\<lambda>t. (tk_created_at t, tk_id t)) selected)),
                 length selected))"

subsection \<open>Moving a task\<close>

fun allowed_transitions :: "task_status \<Rightarrow> task_status list" where
  "allowed_transitions TASK_OPEN = [TASK_CLAIMED]"
| "allowed_transitions TASK_CLAIMED = [TASK_IN_PROGRESS]"
| "allowed_transitions TASK_IN_PROGRESS = [TASK_COMPLETED]"
| "allowed_transitions TASK_COMPLETED = []"
| "allowed_transitions TASK_CANCELED = []"
| "allowed_transitions TASK_EXPIRED = []"

record task_patch =
  tp_status :: task_status
  tp_version :: int
  tp_note :: "string option option"

definition validate_task_patch :: "task_patch \<Rightarrow> task_patch outcome" where
  "validate_task_patch request =
     (if tp_version request < 1 then Inl (ValueError ''version'')
      else case tp_note request of
             None \<Rightarrow> Inr request
           | Some note \<Rightarrow> and_then (optional_label 2000 id note) (\<lambda>n. Inr (request\<lparr>tp_note := Some n\<rparr>)))"

definition patched_task :: "principal \<Rightarrow> task_patch \<Rightarrow> int \<Rightarrow> timestamp \<Rightarrow> task \<Rightarrow> task" where
  "patched_task p request verification_window now t =
     (let t1 = t\<lparr>tk_status := tp_status request, tk_version := tp_version request + 1\<rparr>;
          t2 = (case tp_status request of
                  TASK_CLAIMED \<Rightarrow> t1\<lparr>tk_claimed_by := Some (pr_user p), tk_claimed_at := Some now\<rparr>
                | TASK_IN_PROGRESS \<Rightarrow> t1\<lparr>tk_started_at := Some now\<rparr>
                | TASK_COMPLETED \<Rightarrow>
                    t1\<lparr>tk_verification_deadline := Some (now + seconds verification_window),
                       tk_completed_at := Some now\<rparr>
                | TASK_EXPIRED \<Rightarrow> t1\<lparr>tk_expires_at := Some now\<rparr>
                | _ \<Rightarrow> t1)
      in case tp_note request of None \<Rightarrow> t2 | Some note \<Rightarrow> t2\<lparr>tk_note := note\<rparr>)"

definition ensure_transition :: "bool \<Rightarrow> task_status \<Rightarrow> task_status \<Rightarrow> unit outcome" where
  "ensure_transition manager current requested =
     (if requested = TASK_CANCELED \<or> requested = TASK_EXPIRED
      then (if \<not> manager then Inl (ApiError 403 ''task_transition_forbidden'')
            else ensure (active_status current) (ApiError 409 ''invalid_task_transition''))
      else ensure (requested \<in> set (allowed_transitions current)) (ApiError 409 ''invalid_task_transition''))"

definition patch_replenishment_task ::
    "principal \<Rightarrow> uuid \<Rightarrow> task_patch \<Rightarrow> int \<Rightarrow> timestamp \<Rightarrow> db \<Rightarrow> (task \<times> db) outcome" where
  "patch_replenishment_task p task_id request verification_window now db =
     (case get_by tk_key (pr_tenant p, task_id) (tasks db) of
        None \<Rightarrow> Inl (ApiError 404 ''Task not found'')
      | Some t \<Rightarrow>
          and_then (ensure_store_scope p REPLENISHMENT_EXECUTE (tk_store t)) (\<lambda>_.
          let manager = can_access_store p REPLENISHMENT_MANAGE (tk_store t)
          in and_then (ensure_transition manager (tk_status t) (tp_status request)) (\<lambda>_.
             and_then (ensure (\<not> (tk_status t \<in> {TASK_CLAIMED, TASK_IN_PROGRESS} \<and>
                                  tk_claimed_by t \<noteq> Some (pr_user p) \<and> \<not> manager))
                         (ApiError 403 ''task_claim_denied'')) (\<lambda>_.
             if tk_version t \<noteq> tp_version request then Inl (ApiError 409 ''task_version_conflict'')
             else Inr (patched_task p request verification_window now t,
                    db\<lparr>tasks := put_by tk_key (patched_task p request verification_window now t) (tasks db)\<rparr>)))))"

end
