(* ===== verification/Task_Lifecycle.thy ===== *)
theory Task_Lifecycle
  imports Replenishment Policy_Lifecycle "HOL-Library.Sublist"
begin

text \<open>
  The life of replenishment tasks: what an evaluation may create or grow, that it never fails on the
  database's constraints, the states a task moves through, and what the optimistic version protects.
\<close>

subsection \<open>What an evaluation does for one SKU\<close>

text \<open>A shortage of \<open>quantity\<close> items, beyond those of an active task, that a rule asks to cover.\<close>

definition warranted ::
    "evaluation_env \<Rightarrow> uuid \<Rightarrow> policy_rule list \<Rightarrow> snapshot \<Rightarrow> policy_rule \<Rightarrow> int \<Rightarrow> int \<Rightarrow> bool" where
  "warranted env store active snap rule open_quantity quantity \<longleftrightarrow>
     ee_minimum_confidence env \<le> ss_confidence snap \<and> rule \<in> set active \<and>
     (\<exists>selected. select_policy_rule (map descriptor_of_rule active) store (ss_item snap) = Inr (Some selected) \<and>
        rd_id selected = Some (rl_id rule) \<and> ss_floor snap < rd_min selected \<and>
        ss_floor snap + open_quantity + quantity \<le> rd_target selected) \<and>
     0 < quantity \<and> quantity \<le> ss_backroom snap"

lemma calculated_quantity:
  assumes "q = calculate_replenishment_quantity f b n lo hi" "0 < q"
  shows "f < lo" "q \<le> b" "f + n + q \<le> hi"
  using assms by (auto simp: calculate_replenishment_quantity_def split: if_splits)

lemma evaluate_snapshot_cases:
  assumes "evaluate_snapshot env tenant store active active_task snap ev = Inr ev'"
  obtains (none) "el_created ev' = el_created ev" "el_updated ev' = el_updated ev"
  | (created) rule quantity where "active_task (sx_sku (ss_item snap)) = None"
      "warranted env store active snap rule 0 quantity"
      "el_created ev' = el_created ev @
         [open_task (ee_task_id env (sx_sku (ss_item snap))) tenant store (sx_sku (ss_item snap)) rule quantity (ee_now env)]"
      "el_updated ev' = el_updated ev"
  | (grown) rule quantity t where "active_task (sx_sku (ss_item snap)) = Some t" "tk_status t = TASK_OPEN"
      "warranted env store active snap rule (tk_quantity t) quantity"
      "el_created ev' = el_created ev" "el_updated ev' = el_updated ev @ [grown_task rule quantity t]"
proof (cases "ss_confidence snap < ee_minimum_confidence env")
  case False
  obtain selection where selection: "select_policy_rule (map descriptor_of_rule active) store (ss_item snap) = Inr selection"
    using assms False by (auto simp: evaluate_snapshot_def split: sum.splits)
  let ?sku = "sx_sku (ss_item snap)"
  let ?open = "case active_task ?sku of None \<Rightarrow> 0 | Some t \<Rightarrow> tk_quantity t"
  let ?q = "\<lambda>selected. calculate_replenishment_quantity (ss_floor snap) (ss_backroom snap) ?open
    (rd_min selected) (rd_target selected)"
  show thesis
  proof (cases "\<exists>selected rule_id rule. selection = Some selected \<and> rd_id selected = Some rule_id \<and>
      rd_version selected \<noteq> None \<and> 0 < ?q selected \<and> get_by rl_id rule_id active = Some rule")
    case True
    then obtain selected rule_id rule where sel: "selection = Some selected" "rd_id selected = Some rule_id"
      "rd_version selected \<noteq> None" "0 < ?q selected" "get_by rl_id rule_id active = Some rule" by blast
    have rule: "rule \<in> set active" "rl_id rule = rule_id" using get_by_SomeD [OF sel(5)] by auto
    have enough: "warranted env store active snap rule ?open (?q selected)"
      using False rule sel(1,2,4) selection calculated_quantity [OF refl sel(4)]
      by (auto simp: warranted_def not_less)
    show thesis
    proof (cases "active_task ?sku")
      case None
      show thesis
        by (rule created [OF None]) (use assms False selection sel None enough in \<open>auto simp: evaluate_snapshot_def Let_def\<close>)
    next
      case (Some t)
      show thesis
      proof (cases "tk_status t = TASK_OPEN")
        case True
        show thesis
          by (rule grown [OF Some True])
            (use assms False selection sel Some True enough in \<open>auto simp: evaluate_snapshot_def Let_def\<close>)
      next
        case deferred: False
        show thesis
          by (rule none) (use assms False selection sel Some deferred in \<open>auto simp: evaluate_snapshot_def Let_def\<close>)
      qed
    qed
  next
    case no: False
    show thesis
      by (rule none)
        (use assms False selection no in \<open>auto simp: evaluate_snapshot_def Let_def split: option.splits if_splits\<close>)
  qed
qed (use assms in \<open>auto simp: evaluate_snapshot_def intro: none\<close>)

text \<open>Over all snapshots, in order.\<close>

definition created_for :: "evaluation_env \<Rightarrow> uuid \<Rightarrow> uuid \<Rightarrow> policy_rule list \<Rightarrow> (uuid \<Rightarrow> task option) \<Rightarrow> snapshot \<Rightarrow> task \<Rightarrow> bool" where
  "created_for env tenant store active active_task snap t \<longleftrightarrow>
     active_task (sx_sku (ss_item snap)) = None \<and>
     (\<exists>rule quantity. warranted env store active snap rule 0 quantity \<and>
        t = open_task (ee_task_id env (sx_sku (ss_item snap))) tenant store (sx_sku (ss_item snap)) rule quantity (ee_now env))"

definition grown_for :: "evaluation_env \<Rightarrow> uuid \<Rightarrow> policy_rule list \<Rightarrow> (uuid \<Rightarrow> task option) \<Rightarrow> snapshot \<Rightarrow> task \<Rightarrow> bool" where
  "grown_for env store active active_task snap t \<longleftrightarrow>
     (\<exists>rule quantity t0. active_task (sx_sku (ss_item snap)) = Some t0 \<and> tk_status t0 = TASK_OPEN \<and>
        warranted env store active snap rule (tk_quantity t0) quantity \<and> t = grown_task rule quantity t0)"

lemma evaluate_snapshots_from:
  assumes "evaluate_snapshots env tenant store active active_task snaps ev = Inr ev'"
  shows "\<exists>cs us. el_created ev' = el_created ev @ cs \<and> el_updated ev' = el_updated ev @ us \<and>
    (\<exists>ks. list_all2 (created_for env tenant store active active_task) ks cs \<and> subseq ks snaps) \<and>
    (\<exists>ks. list_all2 (grown_for env store active active_task) ks us \<and> subseq ks snaps)"
  using assms
proof (induction snaps arbitrary: ev)
  case Nil
  then show ?case by auto
next
  case (Cons snap snaps)
  obtain ev1 where ev1: "evaluate_snapshot env tenant store active active_task snap ev = Inr ev1"
    "evaluate_snapshots env tenant store active active_task snaps ev1 = Inr ev'"
    using Cons.prems by (auto simp: and_then_Inr_iff)
  obtain cs us ks ls where rest: "el_created ev' = el_created ev1 @ cs" "el_updated ev' = el_updated ev1 @ us"
    "list_all2 (created_for env tenant store active active_task) ks cs" "subseq ks snaps"
    "list_all2 (grown_for env store active active_task) ls us" "subseq ls snaps"
    using Cons.IH [OF ev1(2)] by blast
  show ?case
    using ev1(1)
  proof (cases rule: evaluate_snapshot_cases)
    case none
    then show ?thesis using rest
      by (intro exI [of _ cs] exI [of _ us] conjI exI [of _ ks] exI [of _ ls]) auto
  next
    case (created rule quantity)
    then have "created_for env tenant store active active_task snap
      (open_task (ee_task_id env (sx_sku (ss_item snap))) tenant store (sx_sku (ss_item snap)) rule quantity (ee_now env))"
      unfolding created_for_def by blast
    then show ?thesis using rest created(3,4)
      by (intro exI [of _ "_ # cs"] exI [of _ us] conjI exI [of _ "snap # ks"] exI [of _ ls]) auto
  next
    case (grown rule quantity t)
    then have "grown_for env store active active_task snap (grown_task rule quantity t)"
      unfolding grown_for_def by blast
    then show ?thesis using rest grown(4,5)
      by (intro exI [of _ cs] exI [of _ "_ # us"] conjI exI [of _ ks] exI [of _ "snap # ls"]) auto
  qed
qed

subsection \<open>The invariant of the task table\<close>

definition tasks_inv :: "db \<Rightarrow> bool" where
  "tasks_inv db \<longleftrightarrow>
     distinct (map tk_id (tasks db)) \<and> one_active_task (tasks db) \<and> list_all task_checks (tasks db)"

lemma active_task_of_SomeD:
  "active_task_of tenant store db sku_id = Some t \<Longrightarrow>
     t \<in> set (tasks db) \<and> active_key t = (tenant, store, sku_id) \<and> active_status (tk_status t)"
  by (auto simp: active_task_of_def active_tasks_def active_key_def dest!: map_of_SomeD)

lemma active_task_of_NoneD:
  "active_task_of tenant store db sku_id = None \<Longrightarrow> t \<in> set (tasks db) \<Longrightarrow> active_status (tk_status t) \<Longrightarrow>
     active_key t \<noteq> (tenant, store, sku_id)"
  by (force simp: active_task_of_def active_tasks_def active_key_def map_of_eq_None_iff image_iff)

lemma same_id: "distinct (map tk_id ts) \<Longrightarrow> t \<in> set ts \<Longrightarrow> u \<in> set ts \<Longrightarrow> tk_id t = tk_id u \<Longrightarrow> t = u"
  by (rule inj_onD [OF iffD1 [OF distinct_map, THEN conjunct2]])

lemma tk_id_replaced [simp]: "tk_id (replaced us t) = tk_id t"
  by (auto simp: replaced_def tk_key_def split: option.splits dest: get_by_SomeD)

lemma distinct_active_append:
  "one_active_task (xs @ ys) \<longleftrightarrow> one_active_task xs \<and> one_active_task ys \<and>
     (\<forall>x \<in> set xs. \<forall>y \<in> set ys. active_status (tk_status x) \<longrightarrow> active_status (tk_status y) \<longrightarrow> active_key x \<noteq> active_key y)"
  by (force simp: one_active_task_def)

text \<open>A map that keeps which tasks are active, and where, keeps the unique index.\<close>

lemma one_active_task_map:
  assumes "\<And>t. t \<in> set ts \<Longrightarrow> active_key (f t) = active_key t \<and> (active_status (tk_status (f t)) \<longrightarrow> active_status (tk_status t))"
    and "one_active_task ts"
  shows "one_active_task (map f ts)"
  using assms
proof (induction ts)
  case (Cons t ts)
  have "active_key (f t) \<notin> active_key ` {x \<in> f ` set ts. active_status (tk_status x)}" if "active_status (tk_status (f t))"
  proof
    assume "active_key (f t) \<in> active_key ` {x \<in> f ` set ts. active_status (tk_status x)}"
    then obtain u where u: "u \<in> set ts" "active_status (tk_status (f u))" "active_key (f u) = active_key (f t)" by auto
    then have "active_key u = active_key t" "active_status (tk_status u)" "active_status (tk_status t)"
      using Cons.prems(1) [of u] Cons.prems(1) [of t] that by auto
    then show False using Cons.prems(2) u(1) unfolding one_active_task_def by (simp, metis (mono_tags) image_eqI mem_Collect_eq)
  qed
  moreover have "one_active_task ts" using Cons.prems(2) by (auto simp: one_active_task_def split: if_splits)
  ultimately show ?case using Cons by (auto simp: one_active_task_def)
qed (simp add: one_active_task_def)

text \<open>What the updated rows of an evaluation replace.\<close>

definition grows :: "db \<Rightarrow> task \<Rightarrow> bool" where
  "grows db u \<longleftrightarrow> (\<exists>t0 rule quantity. t0 \<in> set (tasks db) \<and> tk_status t0 = TASK_OPEN \<and> 0 < quantity \<and> u = grown_task rule quantity t0)"

lemma replaced_cases:
  assumes "distinct (map tk_id (tasks db))" "\<And>u. u \<in> set us \<Longrightarrow> grows db u" "t \<in> set (tasks db)"
  obtains (same) "replaced us t = t"
  | (grown) rule quantity where "tk_status t = TASK_OPEN" "0 < quantity" "replaced us t = grown_task rule quantity t" "replaced us t \<in> set us"
proof (cases "get_by tk_key (tk_key t) us")
  case (Some u)
  have u: "u \<in> set us" "tk_key u = tk_key t" using get_by_SomeD [OF Some] by auto
  then obtain t0 rule quantity where g: "t0 \<in> set (tasks db)" "tk_status t0 = TASK_OPEN" "0 < quantity" "u = grown_task rule quantity t0"
    using assms(2) unfolding grows_def by blast
  then have "t0 = t" using same_id [OF assms(1) _ assms(3)] u(2) by (simp add: tk_key_def grown_task_def)
  then show thesis using grown g u(1) Some by (simp add: replaced_def)
qed (use same in \<open>simp add: replaced_def\<close>)

lemma active_key_grown [simp]: "active_key (grown_task rule quantity t) = active_key t"
  "tk_status (grown_task rule quantity t) = tk_status t" "tk_key (grown_task rule quantity t) = tk_key t"
  by (simp_all add: grown_task_def active_key_def tk_key_def)

lemma task_checks_grown: "task_checks t \<Longrightarrow> 0 < quantity \<Longrightarrow> task_checks (grown_task rule quantity t)"
  by (auto simp: task_checks_def grown_task_def)

lemma commit_tasks_InrD:
  assumes "commit_tasks ev db = Inr db'"
  shows "db' = db\<lparr>tasks := map (replaced (el_updated ev)) (tasks db) @ el_created ev\<rparr>"
    "distinct (map tk_id (tasks db'))" "one_active_task (tasks db')"
    "list_all task_checks (el_updated ev @ el_created ev)"
  using assms by (auto simp: commit_tasks_def Let_def split: if_splits)

lemma commit_tasks_inv:
  assumes "commit_tasks ev db = Inr db'" "tasks_inv db"
  shows "tasks_inv db'"
proof -
  note committed = commit_tasks_InrD [OF assms(1)]
  have "task_checks (replaced (el_updated ev) t)" if "t \<in> set (tasks db)" for t
    using that assms(2) committed(4)
    by (auto simp: replaced_def tasks_inv_def list_all_iff split: option.splits dest: get_by_SomeD)
  then show ?thesis using committed unfolding tasks_inv_def by (auto simp: list_all_iff)
qed

lemma commit_tasks_succeeds:
  assumes "tasks_inv db" "\<And>u. u \<in> set (el_updated ev) \<Longrightarrow> grows db u"
    and "distinct (map tk_id (tasks db @ el_created ev))" "one_active_task (el_created ev)"
    and "\<And>t c. t \<in> set (tasks db) \<Longrightarrow> c \<in> set (el_created ev) \<Longrightarrow> active_status (tk_status t) \<Longrightarrow> active_key t \<noteq> active_key c"
    and "list_all task_checks (el_created ev)"
  shows "\<exists>db'. commit_tasks ev db = Inr db'"
proof -
  have ids: "distinct (map tk_id (tasks db))" and checks: "list_all task_checks (tasks db)"
    using assms(1) by (simp_all add: tasks_inv_def)
  have kept: "active_key (replaced (el_updated ev) t) = active_key t \<and> tk_status (replaced (el_updated ev) t) = tk_status t"
    if "t \<in> set (tasks db)" for t
    using ids assms(2) that by (cases rule: replaced_cases) auto
  have "one_active_task (map (replaced (el_updated ev)) (tasks db))"
    using kept assms(1) by (intro one_active_task_map) (auto simp: tasks_inv_def)
  moreover have "list_all task_checks (el_updated ev)"
    using assms(2) checks task_checks_grown unfolding grows_def list_all_iff by blast
  moreover have "map (\<lambda>t. tk_id (replaced (el_updated ev) t)) (tasks db) = map tk_id (tasks db)" by simp
  ultimately show ?thesis using assms(3-6) kept
    by (simp add: commit_tasks_def Let_def distinct_active_append o_def)
qed

subsection \<open>An evaluation that may run succeeds\<close>

definition keyed_by_sku :: "(uuid, snapshot) odict \<Rightarrow> bool" where
  "keyed_by_sku d \<longleftrightarrow> od_wf d \<and> (\<forall>k snap. od_get d k = Some snap \<longrightarrow> sx_sku (ss_item snap) = k)"

lemma add_projection_keyed:
  assumes "keyed_by_sku d"
  shows "keyed_by_sku (add_projection metadata row d)"
proof -
  obtain p z s pr where row: "row = (p, z, s, pr)" by (cases row)
  show ?thesis
  proof (cases "zn_kind z \<noteq> SALES_FLOOR \<and> zn_kind z \<noteq> BACKROOM")
    case True
    then show ?thesis using assms by (auto simp: row add_projection_def)
  next
    case False
    let ?old = "case od_get d (sk_id s) of None \<Rightarrow> empty_snapshot s pr | Some x \<Rightarrow> x"
    define counted where "counted =
      (if zn_kind z = SALES_FLOOR then ?old\<lparr>ss_floor := ss_floor ?old + pj_quantity p\<rparr>
       else ?old\<lparr>ss_backroom := ss_backroom ?old + pj_quantity p\<rparr>)"
    define snap where "snap = counted\<lparr>ss_confidence := min (ss_confidence counted)
      (effective_bucket_confidence (pj_quantity p) (map_option fst (metadata (pj_sku p) (pj_zone p)))
        (map_option snd (metadata (pj_sku p) (pj_zone p))))\<rparr>"
    have "sx_sku (ss_item ?old) = sk_id s"
      using assms by (auto simp: keyed_by_sku_def empty_snapshot_def split: option.split)
    then have set: "add_projection metadata row d = od_set (sk_id s) snap d" "sx_sku (ss_item snap) = sk_id s"
      using False by (auto simp: row add_projection_def Let_def snap_def counted_def)
    show ?thesis using assms unfolding keyed_by_sku_def set(1) by (auto simp: od_wf_set od_get_set set(2))
  qed
qed

lemma collect_snapshots_keyed: "keyed_by_sku (collect_snapshots metadata rows)"
proof -
  have "keyed_by_sku d \<Longrightarrow> keyed_by_sku (fold (add_projection metadata) rows d)" for d
    by (induction rows arbitrary: d) (auto simp: add_projection_keyed)
  moreover have "keyed_by_sku []" by (simp add: keyed_by_sku_def od_get_def)
  ultimately show ?thesis unfolding collect_snapshots_def by blast
qed

lemma distinct_snapshot_skus:
  "distinct (map (\<lambda>snap. sx_sku (ss_item snap)) (map snd (collect_snapshots metadata rows)))"
proof -
  let ?d = "collect_snapshots metadata rows"
  have wf: "od_wf ?d" using collect_snapshots_keyed by (simp add: keyed_by_sku_def)
  have "sx_sku (ss_item (snd e)) = fst e" if "e \<in> set ?d" for e
  proof -
    have "od_get ?d (fst e) = Some (snd e)" using that wf by (simp add: od_get_def od_wf_def)
    then show ?thesis using collect_snapshots_keyed unfolding keyed_by_sku_def by blast
  qed
  then have "map (\<lambda>snap. sx_sku (ss_item snap)) (map snd ?d) = map fst ?d" by simp
  then show ?thesis using wf unfolding od_wf_def by metis
qed

lemma evaluate_snapshot_total:
  assumes "no_overlaps (map descriptor_of_rule active)"
  shows "\<exists>ev'. evaluate_snapshot env tenant store active active_task snap ev = Inr ev'"
  using assms
proof (cases rule: select_policy_rule_cases [where store = store and item = "ss_item snap"])
  case (best r)
  then obtain rule where rule: "rule \<in> set active" "rd_id r = Some (rl_id rule)"
    by (auto simp: descriptor_of_rule_def)
  then have "get_by rl_id (rl_id rule) active \<noteq> None" by (simp add: get_by_None_iff)
  then show ?thesis using best(1) rule(2)
    by (auto simp: evaluate_snapshot_def Let_def split: option.splits)
qed (auto simp: evaluate_snapshot_def)

lemma evaluate_snapshots_total:
  "no_overlaps (map descriptor_of_rule active) \<Longrightarrow>
     \<exists>ev'. evaluate_snapshots env tenant store active active_task snaps ev = Inr ev'"
proof (induction snaps arbitrary: ev)
  case (Cons snap snaps)
  obtain ev1 where "evaluate_snapshot env tenant store active active_task snap ev = Inr ev1"
    using evaluate_snapshot_total [OF Cons.prems] by blast
  then show ?case using Cons.IH [OF Cons.prems, of ev1] by simp
qed simp

lemma list_all2_in2: "list_all2 R xs ys \<Longrightarrow> y \<in> set ys \<Longrightarrow> \<exists>x \<in> set xs. R x y"
  by (induction rule: list_all2_induct) auto

lemma list_all2_map_eq: "list_all2 R xs ys \<Longrightarrow> (\<And>x y. R x y \<Longrightarrow> f x = g y) \<Longrightarrow> map f xs = map g ys"
  by (induction rule: list_all2_induct) auto

lemma subseq_subset: "subseq xs ys \<Longrightarrow> set xs \<subseteq> set ys"
  by (induction rule: list_emb.induct) auto

lemma subseq_distinct_map: "subseq xs ys \<Longrightarrow> distinct (map f ys) \<Longrightarrow> distinct (map f xs)"
proof (induction rule: list_emb.induct)
  case (list_emb_Cons2 x y xs ys)
  then show ?case using subseq_subset [of xs ys] by auto
qed auto

lemma open_task_simps [simp]:
  "tk_id (open_task i tenant store sku rule q now) = i"
  "active_key (open_task i tenant store sku rule q now) = (tenant, store, sku)"
  "tk_status (open_task i tenant store sku rule q now) = TASK_OPEN"
  "tk_quantity (open_task i tenant store sku rule q now) = q"
  "task_checks (open_task i tenant store sku rule q now) \<longleftrightarrow> 0 < q"
  by (auto simp: open_task_def active_key_def task_checks_def)

lemma active_OPEN [simp]: "active_status TASK_OPEN"
  by (simp add: active_status_def)

lemma warranted_positive: "warranted env store active snap rule n q \<Longrightarrow> 0 < q"
  by (simp add: warranted_def)

definition fresh_task_ids :: "evaluation_env \<Rightarrow> db \<Rightarrow> bool" where
  "fresh_task_ids env db \<longleftrightarrow>
     inj (ee_task_id env) \<and> (\<forall>sku t. t \<in> set (tasks db) \<longrightarrow> tk_id t \<noteq> ee_task_id env sku)"

lemma evaluated_commit:
  assumes inv: "tasks_inv db" and ids: "fresh_task_ids env db"
    and skus: "distinct (map (\<lambda>snap. sx_sku (ss_item snap)) snaps)"
    and ev: "evaluate_snapshots env tenant store active (active_task_of tenant store db) snaps no_evaluation = Inr ev"
  shows "\<exists>db'. commit_tasks ev db = Inr db'"
proof -
  let ?at = "active_task_of tenant store db" and ?sku = "\<lambda>snap. sx_sku (ss_item snap)"
  obtain ks ls where ks: "list_all2 (created_for env tenant store active ?at) ks (el_created ev)" "subseq ks snaps"
    and ls: "list_all2 (grown_for env store active ?at) ls (el_updated ev)"
    using evaluate_snapshots_from [OF ev] by (auto simp: no_evaluation_def)
  have created: "\<exists>snap \<in> set ks. created_for env tenant store active ?at snap c" if "c \<in> set (el_created ev)" for c
    using list_all2_in2 [OF ks(1) that] .
  have ks_skus: "distinct (map ?sku ks)" by (rule subseq_distinct_map [OF ks(2) skus])
  have new: "map tk_id (el_created ev) = map (\<lambda>snap. ee_task_id env (?sku snap)) ks"
    by (rule list_all2_map_eq [OF ks(1), symmetric]) (auto simp: created_for_def)
  have "distinct (map (\<lambda>snap. ee_task_id env (?sku snap)) ks)"
    using ks_skus ids unfolding fresh_task_ids_def distinct_map inj_on_def by blast
  then have a: "distinct (map tk_id (el_created ev))" by (simp only: new)
  have "set (map tk_id (el_created ev)) \<subseteq> range (ee_task_id env)" unfolding new by auto
  moreover have "set (map tk_id (tasks db)) \<inter> range (ee_task_id env) = {}"
    using ids unfolding fresh_task_ids_def by auto
  ultimately have b: "set (map tk_id (tasks db)) \<inter> set (map tk_id (el_created ev)) = {}" by blast
  have all_ids: "distinct (map tk_id (tasks db @ el_created ev))"
    using inv a b unfolding tasks_inv_def map_append distinct_append by blast
  have keys: "map active_key (el_created ev) = map (\<lambda>snap. (tenant, store, ?sku snap)) ks"
    by (rule list_all2_map_eq [OF ks(1), symmetric]) (auto simp: created_for_def)
  have "distinct (map (\<lambda>snap. (tenant, store, ?sku snap)) ks)"
    using ks_skus by (auto simp: distinct_map inj_on_def)
  then have one: "one_active_task (el_created ev)"
    unfolding one_active_task_def keys [symmetric] by (rule distinct_map_filter)
  show ?thesis
  proof (rule commit_tasks_succeeds [OF inv _ all_ids one])
    fix u assume "u \<in> set (el_updated ev)"
    then obtain snap where "grown_for env store active ?at snap u" using list_all2_in2 [OF ls] by blast
    then show "grows db u" unfolding grown_for_def grows_def
      using active_task_of_SomeD warranted_positive by blast
  next
    fix t c assume t: "t \<in> set (tasks db)" "c \<in> set (el_created ev)" "active_status (tk_status t)"
    obtain snap where "created_for env tenant store active ?at snap c" using created [OF t(2)] by blast
    then have "?at (?sku snap) = None" "active_key c = (tenant, store, ?sku snap)" by (auto simp: created_for_def)
    then show "active_key t \<noteq> active_key c" using active_task_of_NoneD [OF _ t(1,3)] by metis
  next
    have "task_checks c" if c: "c \<in> set (el_created ev)" for c
    proof -
      obtain snap where "created_for env tenant store active ?at snap c" using created [OF c] by blast
      then show ?thesis using warranted_positive by (auto simp: created_for_def)
    qed
    then show "list_all task_checks (el_created ev)" by (simp add: list_all_iff)
  qed
qed

subsection \<open>Moving a task\<close>

fun task_stage :: "task_status \<Rightarrow> nat" where
  "task_stage TASK_OPEN = 0"
| "task_stage TASK_CLAIMED = 1"
| "task_stage TASK_IN_PROGRESS = 2"
| "task_stage _ = 3"

definition may_move :: "task_status \<Rightarrow> task_status \<Rightarrow> bool" where
  "may_move current requested \<longleftrightarrow>
     (current, requested) \<in> {(TASK_OPEN, TASK_CLAIMED), (TASK_CLAIMED, TASK_IN_PROGRESS), (TASK_IN_PROGRESS, TASK_COMPLETED)} \<or>
     active_status current \<and> requested \<in> {TASK_CANCELED, TASK_EXPIRED}"

lemma ensure_transition_Inr_iff:
  "ensure_transition manager current requested = Inr u \<longleftrightarrow>
     may_move current requested \<and> (requested \<in> {TASK_CANCELED, TASK_EXPIRED} \<longrightarrow> manager)"
  by (cases current; cases requested) (auto simp: ensure_transition_def may_move_def active_status_def)

lemma may_move_stage: "may_move current requested \<Longrightarrow> task_stage current < task_stage requested"
  by (cases current; cases requested) (auto simp: may_move_def active_status_def)

lemma may_move_active: "may_move current requested \<Longrightarrow> active_status current"
  by (auto simp: may_move_def active_status_def)

lemma patched_task_simps [simp]:
  "tk_id (patched_task p request w now t) = tk_id t" "tk_tenant (patched_task p request w now t) = tk_tenant t"
  "tk_store (patched_task p request w now t) = tk_store t" "tk_sku (patched_task p request w now t) = tk_sku t"
  "tk_status (patched_task p request w now t) = tp_status request"
  "tk_version (patched_task p request w now t) = tp_version request + 1"
  "tk_quantity (patched_task p request w now t) = tk_quantity t"
  "tk_verified (patched_task p request w now t) = tk_verified t"
  "active_key (patched_task p request w now t) = active_key t" "tk_key (patched_task p request w now t) = tk_key t"
  by (auto simp: patched_task_def Let_def active_key_def tk_key_def split: task_status.splits option.splits)

lemma patch_InrD:
  assumes "patch_replenishment_task p task_id request w now db = Inr (t', db')"
  obtains t where "get_by tk_key (pr_tenant p, task_id) (tasks db) = Some t"
    "t' = patched_task p request w now t" "db' = db\<lparr>tasks := put_by tk_key t' (tasks db)\<rparr>"
    "may_move (tk_status t) (tp_status request)" "tk_version t = tp_version request"
    "can_access_store p REPLENISHMENT_EXECUTE (tk_store t)"
    "tp_status request \<in> {TASK_CANCELED, TASK_EXPIRED} \<Longrightarrow> can_access_store p REPLENISHMENT_MANAGE (tk_store t)"
    "tk_status t \<in> {TASK_CLAIMED, TASK_IN_PROGRESS} \<Longrightarrow>
       tk_claimed_by t = Some (pr_user p) \<or> can_access_store p REPLENISHMENT_MANAGE (tk_store t)"
proof -
  obtain t where t: "get_by tk_key (pr_tenant p, task_id) (tasks db) = Some t"
    using assms by (auto simp: patch_replenishment_task_def split: option.splits)
  show thesis
    by (rule that [OF t])
      (use assms t in \<open>auto simp: patch_replenishment_task_def and_then_Inr_iff Let_def ensure_store_scope_def
        ensure_transition_Inr_iff split: if_splits\<close>)
qed

lemma distinct_tk_key: "distinct (map tk_id ts) \<Longrightarrow> distinct (map tk_key ts)"
  by (auto simp: distinct_map inj_on_def tk_key_def)

lemma patch_inv:
  assumes "patch_replenishment_task p task_id request w now db = Inr (t', db')" "tasks_inv db"
  shows "tasks_inv db'"
  using assms(1)
proof (cases rule: patch_InrD)
  case (1 t)
  have ids: "distinct (map tk_id (tasks db))" using assms(2) by (simp add: tasks_inv_def)
  have t: "t \<in> set (tasks db)" "tk_key t = (pr_tenant p, task_id)" using get_by_SomeD [OF 1(1)] by auto
  have "tk_key t' \<in> tk_key ` set (tasks db)" using 1(2) t(1) by auto
  from put_by_present [OF this distinct_tk_key [OF ids]]
  have tasks': "tasks db' = map (\<lambda>r. if tk_key r = tk_key t' then t' else r) (tasks db)"
    unfolding 1(3) by (simp add: update_where_def)
  have only: "r = t" if "r \<in> set (tasks db)" "tk_key r = tk_key t'" for r
    using same_id [OF ids that(1) t(1)] that(2) 1(2) by (simp add: tk_key_def)
  have "one_active_task (tasks db')"
    unfolding tasks' using only assms(2) 1(2) may_move_active [OF 1(4)]
    by (intro one_active_task_map) (auto simp: tasks_inv_def)
  moreover have "map tk_id (tasks db') = map tk_id (tasks db)"
    unfolding tasks' using 1(2) by (auto simp: tk_key_def)
  moreover have "task_checks t'" using assms(2) t(1) 1(2,5) by (auto simp: tasks_inv_def list_all_iff task_checks_def)
  then have "list_all task_checks (tasks db')" using assms(2) unfolding tasks' by (auto simp: tasks_inv_def list_all_iff)
  ultimately show ?thesis using ids unfolding tasks_inv_def by simp
qed

text \<open>The steps: evaluating a store, patching a task, and crediting an observed move.\<close>

inductive task_step :: "db \<Rightarrow> db \<Rightarrow> bool" where
  task_evaluate: "evaluate_replenishment env p request settings pdb db = Inr (res, db') \<Longrightarrow> task_step db db'"
| task_patch: "patch_replenishment_task p task_id request w now db = Inr (t, db') \<Longrightarrow> task_step db db'"
| task_credit: "attribute_replenishment_move tenant transition epc sku store zone zone' observed_at db = Inr db' \<Longrightarrow> task_step db db'"

lemma evaluate_InrD:
  assumes "evaluate_replenishment env p request settings pdb db = Inr (res, db')"
  obtains (nothing) "db' = db" "vr_outcome res = no_evaluation"
  | (ran) ev snaps where
      "snaps = map snd (collect_snapshots (current_inventory_bucket_metadata (pr_tenant p) (eq_store request) (ee_now env)
         (rfid_confidence_half_life_seconds settings) db) (projection_rows (pr_tenant p) request pdb db))"
      "evaluate_snapshots env (pr_tenant p) (eq_store request) (active_rules (pr_tenant p) pdb)
         (active_task_of (pr_tenant p) (eq_store request) db) snaps no_evaluation = Inr ev"
      "commit_tasks ev db = Inr db'" "vr_outcome res = ev"
      "effective_freshness (get_by cn_key (pr_tenant p, eq_store request) (connectivity_rows db)) settings (ee_now env) = LIVE"
  using assms
  by (auto simp: evaluate_replenishment_def Let_def and_then_Inr_iff nothing_evaluated_def active_rules_def split: if_splits)

lemma credit_keeps:
  "active_key (credit_move t) = active_key t" "tk_status (credit_move t) = tk_status t"
  "tk_id (credit_move t) = tk_id t" "task_checks t \<Longrightarrow> task_checks (credit_move t)"
  by (auto simp: credit_move_def active_key_def task_checks_def)

lemma credit_InrD:
  assumes "attribute_replenishment_move tenant transition epc sku store zone zone' observed_at db = Inr db'"
  obtains "tasks db' = tasks db"
  | t where "t \<in> set (tasks db)" "move_candidate tenant store sku observed_at t"
      "tasks db' = update_where (\<lambda>t'. tk_key t' = tk_key t) credit_move (tasks db)"
proof (cases "tasks db' = tasks db")
  case changed: False
  let ?best = "best_by move_preference (filter (move_candidate tenant store sku observed_at) (tasks db))"
  obtain t where t: "?best = Some t"
    using assms changed by (cases ?best) (simp_all add: attribute_replenishment_move_def split: if_splits)
  then have "tasks db' = update_where (\<lambda>t'. tk_key t' = tk_key t) credit_move (tasks db)"
    using assms changed by (auto simp: attribute_replenishment_move_def split: if_splits)
  then show thesis using that(2) best_by_in [OF t] by auto
qed (rule that(1))

lemma credit_inv:
  assumes "attribute_replenishment_move tenant transition epc sku store zone zone' observed_at db = Inr db'" "tasks_inv db"
  shows "tasks_inv db'"
  using assms(1)
proof (cases rule: credit_InrD)
  case 1
  then show ?thesis using assms(2) by (simp add: tasks_inv_def)
next
  case (2 t)
  have "one_active_task (tasks db')" unfolding 2(3) update_where_def using assms(2)
    by (intro one_active_task_map) (auto simp: tasks_inv_def credit_keeps)
  moreover have "map tk_id (tasks db') = map tk_id (tasks db)"
    unfolding 2(3) by (rule map_update_where) (simp add: credit_keeps)
  ultimately show ?thesis using assms(2) unfolding tasks_inv_def 2(3) list_all_iff set_update_where
    by (auto simp: credit_keeps)
qed

lemma evaluate_inv:
  assumes "evaluate_replenishment env p request settings pdb db = Inr (res, db')" "tasks_inv db"
  shows "tasks_inv db'"
  using assms(1)
proof (cases rule: evaluate_InrD)
  case (ran ev snaps)
  then show ?thesis using commit_tasks_inv assms(2) by blast
qed (use assms(2) in simp)

interpretation replenishment: step_invariant "\<lambda>db. tasks db = []" task_step tasks_inv
proof unfold_locales
  fix db db'
  show "tasks db = [] \<Longrightarrow> tasks_inv db" by (simp add: tasks_inv_def one_active_task_def)
  show "tasks_inv db'" if inv: "tasks_inv db" and step: "task_step db db'"
    using step by cases (use inv in \<open>auto intro: evaluate_inv patch_inv credit_inv\<close>)
qed

subsection \<open>How one task changes\<close>

definition advances :: "task \<Rightarrow> task \<Rightarrow> bool" where
  "advances t t' \<longleftrightarrow>
     tk_key t' = tk_key t \<and> active_key t' = active_key t \<and>
     task_stage (tk_status t) \<le> task_stage (tk_status t') \<and>
     (\<not> active_status (tk_status t) \<longrightarrow> tk_status t' = tk_status t) \<and>
     (tk_status t \<noteq> TASK_OPEN \<longrightarrow> tk_quantity t' = tk_quantity t) \<and>
     tk_quantity t \<le> tk_quantity t' \<and> tk_verified t \<le> tk_verified t' \<and>
     (t' \<noteq> t \<longrightarrow> tk_version t < tk_version t')"

lemma advances_refl [simp]: "advances t t"
  by (simp add: advances_def)

lemma stage_OPEN [simp]: "task_stage s = 0 \<longleftrightarrow> s = TASK_OPEN"
  by (cases s) auto

lemma advances_trans:
  assumes "advances t u" "advances u v"
  shows "advances t v"
proof -
  have "tk_status u \<noteq> TASK_OPEN" if "tk_status t \<noteq> TASK_OPEN"
    using assms(1) that stage_OPEN [of "tk_status u"] stage_OPEN [of "tk_status t"]
    unfolding advances_def by linarith
  moreover have "tk_version t < tk_version v" if "v \<noteq> t"
    using assms that unfolding advances_def by (cases "u = t"; cases "v = u") auto
  ultimately show ?thesis using assms unfolding advances_def by auto
qed

lemma advances_grown: "tk_status t = TASK_OPEN \<Longrightarrow> 0 < quantity \<Longrightarrow> advances t (grown_task rule quantity t)"
  by (auto simp: advances_def grown_task_def tk_key_def active_key_def)

lemma advances_patched:
  "may_move (tk_status t) (tp_status request) \<Longrightarrow> tk_version t = tp_version request \<Longrightarrow>
     advances t (patched_task p request w now t)"
  using may_move_stage [of "tk_status t" "tp_status request"] may_move_active [of "tk_status t" "tp_status request"]
  by (auto simp: advances_def)

lemma advances_credited: "task_checks t \<Longrightarrow> advances t (credit_move t)"
  by (auto simp: advances_def credit_move_def tk_key_def active_key_def task_checks_def)

lemma evaluated_grows:
  assumes "evaluate_snapshots env tenant store active (active_task_of tenant store db) snaps no_evaluation = Inr ev"
    "u \<in> set (el_updated ev)"
  shows "grows db u"
proof -
  obtain ls where ls: "list_all2 (grown_for env store active (active_task_of tenant store db)) ls (el_updated ev)"
    using evaluate_snapshots_from [OF assms(1)] by (auto simp: no_evaluation_def)
  obtain snap where "grown_for env store active (active_task_of tenant store db) snap u"
    using list_all2_in2 [OF ls assms(2)] by blast
  then show ?thesis unfolding grown_for_def grows_def using active_task_of_SomeD warranted_positive by blast
qed

lemma step_advances:
  assumes "task_step db db'" "tasks_inv db" "t \<in> set (tasks db)"
  shows "\<exists>t' \<in> set (tasks db'). advances t t'"
proof -
  have ids: "distinct (map tk_id (tasks db))" using assms(2) by (simp add: tasks_inv_def)
  show ?thesis
    using assms(1)
  proof cases
    case (task_evaluate env p request settings pdb res)
    then show ?thesis
    proof (cases rule: evaluate_InrD)
      case (ran ev snaps)
      let ?t = "replaced (el_updated ev) t"
      have "?t \<in> set (tasks db')" using commit_tasks_InrD(1) [OF ran(3)] assms(3) by auto
      moreover have "advances t ?t"
        using ids evaluated_grows [OF ran(2)] assms(3)
        by (cases rule: replaced_cases) (auto simp: advances_grown)
      ultimately show ?thesis by blast
    qed (use assms(3) advances_refl in \<open>auto intro!: bexI [of _ t]\<close>)
  next
    case (task_patch p task_id request w now t')
    then show ?thesis
    proof (cases rule: patch_InrD)
      case (1 t0)
      have t0: "t0 \<in> set (tasks db)" using get_by_SomeD [OF 1(1)] by auto
      have "tasks db' = put_by tk_key t' (tasks db)" by (simp add: 1(3))
      note member = in_put_by_iff [OF distinct_tk_key [OF ids], of _ t', folded this]
      show ?thesis
      proof (cases "tk_key t = tk_key t'")
        case True
        then have "t = t0" using same_id [OF ids assms(3) t0] 1(2) by (simp add: tk_key_def)
        then show ?thesis using member advances_patched [OF 1(4,5)] 1(2) by blast
      qed (use member assms(3) advances_refl in blast)
    qed
  next
    case (task_credit tenant transition epc sku store zone zone' observed_at)
    then show ?thesis
    proof (cases rule: credit_InrD)
      case (2 t0)
      have "advances t (credit_move t)"
        using assms(2,3) by (intro advances_credited) (auto simp: tasks_inv_def list_all_iff)
      then show ?thesis unfolding 2(3) using assms(3) by (cases "tk_key t = tk_key t0") (auto simp: set_update_where intro: advances_refl)
    qed (use assms(3) advances_refl in \<open>auto intro!: bexI [of _ t]\<close>)
  qed
qed

lemma run_advances:
  assumes "reaches task_step db db'" "tasks_inv db" "t \<in> set (tasks db)"
  shows "\<exists>t' \<in> set (tasks db'). advances t t'"
  using assms
proof (induction rule: reaches.induct)
  case (reaches_step s u v)
  then obtain t1 where t1: "t1 \<in> set (tasks u)" "advances t t1" by blast
  have "tasks_inv u" using replenishment.reaches_inv reaches_step by blast
  from step_advances [OF reaches_step.hyps(2) this t1(1)] show ?case using advances_trans [OF t1(2)] by blast
qed (use advances_refl in blast)

subsection \<open>A store with one item in its backroom\<close>

definition sample_catalog :: policy_db where
  "sample_catalog = sample_active\<lparr>
     products := [\<lparr>pd_tenant = 1, pd_id = 7, pd_style_code = ''S1'', pd_category = ''SHIRTS'', pd_active = True\<rparr>],
     variants := [\<lparr>va_tenant = 1, va_id = 8, va_product = 7, va_color = ''BLUE''\<rparr>],
     skus := [\<lparr>sk_tenant = 1, sk_id = 4, sk_variant = Some 8, sk_size = ''M'', sk_active = True\<rparr>]\<rparr>"

definition sample_backroom :: db where
  "sample_backroom = empty_db\<lparr>
     stores := [\<lparr>st_tenant = 1, st_id = 2, st_status = STORE_ACTIVE\<rparr>],
     zones := [\<lparr>zn_tenant = 1, zn_id = 5, zn_store = 2, zn_kind = BACKROOM\<rparr>],
     connectivity_rows := [(first_receipt 1 2 0 True True)\<lparr>last_live_event_at := Some 0\<rparr>],
     item_states := [\<lparr>it_tenant = 1, it_epc = ''E1'', it_sku = 4, it_store = Some 2, it_zone = Some 5,
       it_last_observed_at = 0, it_last_received_at = 0, it_confidence = 1, it_version = 1,
       it_removal_event = None, it_removed_at = None\<rparr>],
     projections := [\<lparr>pj_tenant = 1, pj_store = 2, pj_sku = 4, pj_zone = 5, pj_quantity = 1, pj_as_of = 0,
       pj_confidence = 1, pj_freshness = LIVE\<rparr>]\<rparr>"

definition sample_evaluation_env :: evaluation_env where
  "sample_evaluation_env = \<lparr>ee_task_id = (\<lambda>sku. sku), ee_now = 0, ee_minimum_confidence = 4 / 5\<rparr>"

definition sample_rule :: policy_rule where
  "sample_rule = new_rule 1 61 70 sample_default"

definition sample_task :: task where
  "sample_task = open_task 4 1 2 4 sample_rule 1 0"

lemma sample_active_rules: "active_rules 1 sample_catalog = [sample_rule]"
  by (simp add: active_rules_def rules_of_active_versions_def sample_catalog_def sample_active_def
      sample_drafted_def no_policies_def new_rule_def activated_def draft_version_def sample_rule_def)

lemma sample_snapshots:
  "collect_snapshots (current_inventory_bucket_metadata 1 2 0 h sample_backroom)
     (projection_rows 1 \<lparr>eq_store = 2, eq_skus = []\<rparr> sample_catalog sample_backroom) =
   [(4, \<lparr>ss_item = \<lparr>sx_sku = 4, sx_style = ''S1'', sx_category = ''SHIRTS'', sx_size = ''M''\<rparr>,
         ss_floor = 0, ss_backroom = 1, ss_confidence = 1\<rparr>)]"
  by (simp add: collect_snapshots_def projection_rows_def sample_catalog_def sample_backroom_def
      add_projection_def Let_def empty_snapshot_def od_get_def current_inventory_bucket_metadata_def
      bucket_items_def aged_confidence_def age_seconds_def effective_bucket_confidence_def empty_db_def)

lemma sample_selection:
  "select_policy_rule [descriptor_of_rule sample_rule] 2 item = Inr (Some (descriptor_of_rule sample_rule))"
  by (simp add: select_policy_rule_def candidates_def List.map_filter_def rule_precedence_def
      selector_kind_of_def descriptor_of_rule_def sample_rule_def new_rule_def sample_default_def sort_desc_def)

lemma sample_access: "can_access_store sample_admin perm 2"
  by (simp add: can_access_store_def has_tenant_permission_iff sample_admin_def, cases perm)
    (simp_all add: all_permissions_def)

lemma sample_evaluation:
  "\<exists>res. evaluate_replenishment sample_evaluation_env sample_admin \<lparr>eq_store = 2, eq_skus = []\<rparr> default_settings
     sample_catalog sample_backroom = Inr (res, sample_backroom\<lparr>tasks := [sample_task]\<rparr>) \<and>
     el_created (vr_outcome res) = [sample_task]"
proof -
  have live: "effective_freshness (get_by cn_key (1, 2) (connectivity_rows sample_backroom)) default_settings 0 = LIVE"
    by (simp add: sample_backroom_def effective_freshness_def first_receipt_def cn_key_def default_settings_def
        age_def seconds_def)
  have env: "ee_now sample_evaluation_env = 0" "ee_minimum_confidence sample_evaluation_env = 4 / 5"
    "ee_task_id sample_evaluation_env sku = sku" for sku by (simp_all add: sample_evaluation_env_def)
  have store: "list_ex (\<lambda>s. st_tenant s = 1 \<and> st_id s = 2 \<and> st_status s = STORE_ACTIVE) (stores sample_backroom)"
    "tasks sample_backroom = []"
    by (simp_all add: sample_backroom_def empty_db_def)
  have admin: "pr_tenant sample_admin = 1" by (simp add: sample_admin_def)
  let ?ev = "no_evaluation\<lparr>el_created := [sample_task]\<rparr>"
  let ?snap = "\<lparr>ss_item = \<lparr>sx_sku = 4, sx_style = ''S1'', sx_category = ''SHIRTS'', sx_size = ''M''\<rparr>,
         ss_floor = 0, ss_backroom = 1, ss_confidence = 1\<rparr>"
  have rule: "rd_id (descriptor_of_rule sample_rule) = Some 70" "rd_version (descriptor_of_rule sample_rule) = Some 61"
    "rd_min (descriptor_of_rule sample_rule) = 2" "rd_target (descriptor_of_rule sample_rule) = 6" "rl_id sample_rule = 70"
    by (simp_all add: sample_rule_def new_rule_def sample_default_def descriptor_of_rule_def)
  have free: "active_task_of 1 2 sample_backroom = (\<lambda>_. None)"
    by (simp add: fun_eq_iff active_task_of_def active_tasks_def store)
  have one: "evaluate_snapshots sample_evaluation_env 1 2 [sample_rule] (\<lambda>_. None) [?snap] no_evaluation = Inr ?ev"
    by (simp add: evaluate_snapshot_def Let_def env sample_selection rule calculate_replenishment_quantity_def
        no_evaluation_def flip: sample_task_def)
  have commit: "commit_tasks ?ev sample_backroom = Inr (sample_backroom\<lparr>tasks := [sample_task]\<rparr>)"
    by (simp add: commit_tasks_def store one_active_task_def no_evaluation_def, simp add: sample_task_def)
  show ?thesis
    using one commit
    by (simp add: evaluate_replenishment_def Let_def ensure_store_scope_def ensure_def sample_access live store admin
        sample_active_rules [unfolded active_rules_def] env sample_snapshots free del: evaluate_snapshots.simps)
qed

subsection \<open>Properties\<close>

text \<open>
  C30: An evaluation that may run succeeds: with an active store, permission to manage its
  replenishment and new identifiers, neither an ambiguous policy, nor a missing rule, nor any
  constraint of the task table can make it fail.
\<close>

theorem evaluation_succeeds:
  assumes "policies_inv pdb" "tasks_inv db" "fresh_task_ids env db"
    and "can_access_store p REPLENISHMENT_MANAGE (eq_store request)"
    and "\<exists>s \<in> set (stores db). st_tenant s = pr_tenant p \<and> st_id s = eq_store request \<and> st_status s = STORE_ACTIVE"
  shows "\<exists>res db'. evaluate_replenishment env p request settings pdb db = Inr (res, db') \<and> tasks_inv db'"
proof -
  let ?tenant = "pr_tenant p" and ?store = "eq_store request"
  let ?active = "active_rules ?tenant pdb" and ?at = "active_task_of ?tenant ?store db"
  let ?snaps = "map snd (collect_snapshots (current_inventory_bucket_metadata ?tenant ?store (ee_now env)
      (rfid_confidence_half_life_seconds settings) db) (projection_rows ?tenant request pdb db))"
  obtain ev where ev: "evaluate_snapshots env ?tenant ?store ?active ?at ?snaps no_evaluation = Inr ev"
    using evaluate_snapshots_total [OF active_rules_no_overlaps [OF assms(1)]] by blast
  obtain db1 where db1: "commit_tasks ev db = Inr db1"
    using evaluated_commit [OF assms(2,3) distinct_snapshot_skus ev] by blast
  have "list_ex (\<lambda>s. st_tenant s = ?tenant \<and> st_id s = ?store \<and> st_status s = STORE_ACTIVE) (stores db)"
    using assms(5) by (auto simp: list_ex_iff)
  then have "\<exists>res db'. evaluate_replenishment env p request settings pdb db = Inr (res, db')"
    using ev db1 unfolding active_rules_def
    by (cases "effective_freshness (get_by cn_key (?tenant, ?store) (connectivity_rows db)) settings (ee_now env) = LIVE";
        cases "rules_of_active_versions (\<lambda>_. True) ?tenant pdb = []")
      (simp_all add: evaluate_replenishment_def Let_def ensure_store_scope_def ensure_def assms(4))
  then show ?thesis using evaluate_inv assms(2) by blast
qed

theorem evaluation_succeeds_witness:
  "\<exists>res db'. evaluate_replenishment sample_evaluation_env sample_admin \<lparr>eq_store = 2, eq_skus = []\<rparr>
     default_settings sample_active sample_backroom = Inr (res, db') \<and> tasks_inv db'"
proof (rule evaluation_succeeds)
  have "policies_inv no_policies" by (rule policy.init_inv) (simp add: policy_start_def no_policies_def)
  then show "policies_inv sample_active" by (rule policy.reaches_inv [OF sample_policy_run])
  show "tasks_inv sample_backroom"
    by (rule replenishment.init_inv) (simp add: sample_backroom_def empty_db_def)
  show "fresh_task_ids sample_evaluation_env sample_backroom"
    by (simp add: fresh_task_ids_def sample_evaluation_env_def sample_backroom_def empty_db_def)
qed (simp_all add: sample_access sample_backroom_def, simp add: sample_admin_def)

text \<open>
  Every task an evaluation opens is warranted: the store is live, the SKU's stock is counted with
  at least the required confidence, its floor is below the minimum of the rule selected for it, the
  quantity is positive, is in the backroom, and does not lift the floor above the rule's target, and
  no task was active for the SKU.
\<close>

theorem opened_tasks_are_warranted:
  assumes "evaluate_replenishment env p request settings pdb db = Inr (res, db')"
    and "t \<in> set (el_created (vr_outcome res))"
  shows "effective_freshness (get_by cn_key (pr_tenant p, eq_store request) (connectivity_rows db)) settings (ee_now env) = LIVE \<and>
    active_task_of (pr_tenant p) (eq_store request) db (tk_sku t) = None \<and>
    (\<exists>snap rule selected. (tk_sku t, snap) \<in> set (collect_snapshots (current_inventory_bucket_metadata (pr_tenant p)
         (eq_store request) (ee_now env) (rfid_confidence_half_life_seconds settings) db) (projection_rows (pr_tenant p) request pdb db)) \<and>
       rule \<in> set (active_rules (pr_tenant p) pdb) \<and>
       select_policy_rule (map descriptor_of_rule (active_rules (pr_tenant p) pdb)) (eq_store request) (ss_item snap) = Inr (Some selected) \<and>
       rd_id selected = Some (rl_id rule) \<and> tk_policy_rule t = rl_id rule \<and>
       ee_minimum_confidence env \<le> ss_confidence snap \<and> ss_floor snap < rd_min selected \<and>
       0 < tk_quantity t \<and> tk_quantity t \<le> ss_backroom snap \<and> ss_floor snap + tk_quantity t \<le> rd_target selected)"
  using assms(1)
proof (cases rule: evaluate_InrD)
  case (ran ev snaps)
  let ?d = "collect_snapshots (current_inventory_bucket_metadata (pr_tenant p) (eq_store request) (ee_now env)
      (rfid_confidence_half_life_seconds settings) db) (projection_rows (pr_tenant p) request pdb db)"
  let ?R = "created_for env (pr_tenant p) (eq_store request) (active_rules (pr_tenant p) pdb)
      (active_task_of (pr_tenant p) (eq_store request) db)"
  obtain ks where ks: "list_all2 ?R ks (el_created ev)" "subseq ks snaps"
    using evaluate_snapshots_from [OF ran(2)] by (auto simp: no_evaluation_def)
  obtain snap where snap: "snap \<in> set ks" "?R snap t" using list_all2_in2 [OF ks(1)] assms(2) ran(4) by blast
  then have sku: "tk_sku t = sx_sku (ss_item snap)" by (auto simp: created_for_def open_task_def)
  have "snap \<in> snd ` set ?d" using subseq_subset [OF ks(2)] snap(1) ran(1) by auto
  then obtain k where k: "(k, snap) \<in> set ?d" by auto
  then have "od_get ?d k = Some snap"
    using collect_snapshots_keyed by (auto simp: keyed_by_sku_def od_get_def od_wf_def)
  then have "k = tk_sku t" using collect_snapshots_keyed sku by (auto simp: keyed_by_sku_def)
  then show ?thesis using ran(5) snap(2) k sku unfolding created_for_def warranted_def
    by (fastforce simp: open_task_def)
qed (use assms(2) in \<open>simp add: no_evaluation_def\<close>)

theorem opened_tasks_are_warranted_witness:
  "tk_quantity sample_task = 1 \<and> active_task_of 1 2 sample_backroom 4 = None"
proof -
  obtain res where "evaluate_replenishment sample_evaluation_env sample_admin \<lparr>eq_store = 2, eq_skus = []\<rparr>
     default_settings sample_catalog sample_backroom = Inr (res, sample_backroom\<lparr>tasks := [sample_task]\<rparr>)"
    "sample_task \<in> set (el_created (vr_outcome res))" using sample_evaluation by auto
  from opened_tasks_are_warranted [OF this] show ?thesis
    by (simp add: sample_task_def open_task_def sample_admin_def)
qed

text \<open>
  C31: One active task per item: from an empty task table, whatever evaluations, patches and credited
  moves follow, a store has at most one open, claimed or running task for a SKU, identifiers are
  unique, and every task keeps 0 <= verified <= quantity and a positive quantity.
\<close>

theorem one_active_task_per_sku:
  assumes "tasks db0 = []" "reaches task_step db0 db"
    and "t \<in> set (tasks db)" "u \<in> set (tasks db)" "active_status (tk_status t)" "active_status (tk_status u)"
    and "active_key t = active_key u"
  shows "t = u \<and> 0 \<le> tk_verified t \<and> tk_verified t \<le> tk_quantity t \<and> 0 < tk_quantity t"
proof -
  have inv: "tasks_inv db" by (rule replenishment.reachable_inv [OF assms(1,2)])
  then have "inj_on active_key (set (filter (\<lambda>t. active_status (tk_status t)) (tasks db)))"
    unfolding tasks_inv_def one_active_task_def distinct_map by blast
  then have "t = u" using assms(3-7) by (auto dest: inj_onD)
  then show ?thesis using inv assms(3) by (auto simp: tasks_inv_def list_all_iff task_checks_def)
qed

lemma sample_task_run: "reaches task_step sample_backroom (sample_backroom\<lparr>tasks := [sample_task]\<rparr>)"
  using sample_evaluation task_evaluate reaches_refl reaches_step by metis

theorem one_active_task_per_sku_witness:
  "tk_verified sample_task \<le> tk_quantity sample_task \<and> 0 < tk_quantity sample_task"
  using one_active_task_per_sku [OF _ sample_task_run, of sample_task sample_task]
  by (simp add: sample_backroom_def empty_db_def) (simp add: sample_task_def active_status_def open_task_def)

text \<open>
  C14: The life of a task: over any run a task keeps its identity and place, its stage never goes back,
  a completed, canceled or expired task keeps its status for good, the quantity of a task that has
  been claimed is final, its verified quantity never falls, and every change raises its version.
\<close>

theorem tasks_only_advance:
  assumes "tasks_inv db" "reaches task_step db db'" "t \<in> set (tasks db)"
  shows "\<exists>t' \<in> set (tasks db').
     tk_key t' = tk_key t \<and> active_key t' = active_key t \<and>
     task_stage (tk_status t) \<le> task_stage (tk_status t') \<and>
     (\<not> active_status (tk_status t) \<longrightarrow> tk_status t' = tk_status t) \<and>
     (tk_status t \<noteq> TASK_OPEN \<longrightarrow> tk_quantity t' = tk_quantity t) \<and>
     tk_quantity t \<le> tk_quantity t' \<and> tk_verified t \<le> tk_verified t' \<and>
     (t' \<noteq> t \<longrightarrow> tk_version t < tk_version t')"
  using run_advances [OF assms(2,1,3)] unfolding advances_def .

definition sample_claim :: task_patch where
  "sample_claim = \<lparr>tp_status = TASK_CLAIMED, tp_version = 1, tp_note = None\<rparr>"

definition sample_claimed :: db where
  "sample_claimed = sample_backroom\<lparr>tasks := [patched_task sample_admin sample_claim 900 5 sample_task]\<rparr>"

lemma sample_claiming:
  "patch_replenishment_task sample_admin 4 sample_claim 900 5 (sample_backroom\<lparr>tasks := [sample_task]\<rparr>) =
     Inr (patched_task sample_admin sample_claim 900 5 sample_task, sample_claimed)"
proof -
  have task: "tk_key sample_task = (1, 4)" "tk_store sample_task = 2" "tk_status sample_task = TASK_OPEN" "tk_version sample_task = 1"
    by (simp_all add: sample_task_def open_task_def tk_key_def)
  have admin: "pr_tenant sample_admin = 1" by (simp add: sample_admin_def)
  have claim: "tp_status sample_claim = TASK_CLAIMED" "tp_version sample_claim = 1" by (simp_all add: sample_claim_def)
  show ?thesis
    by (simp add: patch_replenishment_task_def task admin ensure_store_scope_def sample_access ensure_def
        ensure_transition_def claim sample_claimed_def)
qed

lemma sample_task_inv: "tasks_inv (sample_backroom\<lparr>tasks := [sample_task]\<rparr>)"
  by (rule replenishment.reachable_inv [OF _ sample_task_run]) (simp add: sample_backroom_def empty_db_def)

theorem tasks_only_advance_witness:
  "\<exists>t' \<in> set (tasks sample_claimed). tk_key t' = (1, 4) \<and> 1 \<le> tk_quantity t'"
proof -
  have "reaches task_step (sample_backroom\<lparr>tasks := [sample_task]\<rparr>) sample_claimed"
    using sample_claiming task_patch reaches_refl reaches_step by metis
  from tasks_only_advance [OF sample_task_inv this, of sample_task] show ?thesis
    by (auto simp: sample_task_def tk_key_def) (auto simp: open_task_def)
qed

text \<open>
  A patch moves a task only along OPEN, CLAIMED, IN_PROGRESS, COMPLETED or, by a manager, to
  CANCELED or EXPIRED, only for someone who may work in the store, only by the claimant or a manager
  once it is claimed, and only on the version the caller has seen; every other patch is refused and
  leaves the tasks as they are.
\<close>

theorem patches_follow_the_lifecycle:
  "(\<exists>t' db'. patch_replenishment_task p task_id request w now db = Inr (t', db')) \<longleftrightarrow>
    (\<exists>t. get_by tk_key (pr_tenant p, task_id) (tasks db) = Some t \<and>
       can_access_store p REPLENISHMENT_EXECUTE (tk_store t) \<and>
       ((tk_status t, tp_status request) \<in>
          {(TASK_OPEN, TASK_CLAIMED), (TASK_CLAIMED, TASK_IN_PROGRESS), (TASK_IN_PROGRESS, TASK_COMPLETED)} \<or>
        active_status (tk_status t) \<and> tp_status request \<in> {TASK_CANCELED, TASK_EXPIRED} \<and>
          can_access_store p REPLENISHMENT_MANAGE (tk_store t)) \<and>
       (tk_status t = TASK_OPEN \<or> tk_claimed_by t = Some (pr_user p) \<or>
          can_access_store p REPLENISHMENT_MANAGE (tk_store t)) \<and>
       tk_version t = tp_version request)"
proof (cases "get_by tk_key (pr_tenant p, task_id) (tasks db)")
  case (Some t)
  let ?manager = "can_access_store p REPLENISHMENT_MANAGE (tk_store t)"
  have "(\<exists>t' db'. patch_replenishment_task p task_id request w now db = Inr (t', db')) \<longleftrightarrow>
      can_access_store p REPLENISHMENT_EXECUTE (tk_store t) \<and>
      (may_move (tk_status t) (tp_status request) \<and> (tp_status request \<in> {TASK_CANCELED, TASK_EXPIRED} \<longrightarrow> ?manager)) \<and>
      \<not> (tk_status t \<in> {TASK_CLAIMED, TASK_IN_PROGRESS} \<and> tk_claimed_by t \<noteq> Some (pr_user p) \<and> \<not> ?manager) \<and>
      tk_version t = tp_version request"
    by (simp add: patch_replenishment_task_def Some Let_def and_then_Inr_iff ensure_store_scope_def ensure_transition_Inr_iff)
  then show ?thesis using Some
    by (cases "tk_status t"; cases "tp_status request") (auto simp: may_move_def active_status_def)
qed (simp add: patch_replenishment_task_def)

text \<open>
  No lost updates: once a patch made on some version of a task has succeeded, no later patch made on
  that version or an earlier one succeeds, whatever happened in between; of two people claiming the
  same open task one is refused.
\<close>

theorem stale_patches_are_refused:
  assumes "tasks_inv db" "patch_replenishment_task p task_id request w now db = Inr (t', db1)"
    and "reaches task_step db1 db2"
    and "pr_tenant p' = pr_tenant p" "tp_version request' \<le> tp_version request"
  shows "patch_replenishment_task p' task_id request' w' now' db2 \<noteq> Inr r"
proof
  assume "patch_replenishment_task p' task_id request' w' now' db2 = Inr r"
  then obtain u where u: "get_by tk_key (pr_tenant p, task_id) (tasks db2) = Some u" "tk_version u = tp_version request'"
    using assms(4) by (cases r) (auto elim!: patch_InrD)
  have inv1: "tasks_inv db1" by (rule patch_inv [OF assms(2,1)])
  have inv2: "tasks_inv db2" by (rule replenishment.reaches_inv [OF assms(3) inv1])
  obtain t where t: "get_by tk_key (pr_tenant p, task_id) (tasks db) = Some t"
    "t' = patched_task p request w now t" "db1 = db\<lparr>tasks := put_by tk_key t' (tasks db)\<rparr>"
    using assms(2) by (rule patch_InrD)
  have "t' \<in> set (tasks db1)" by (simp add: t(3) in_put_by)
  then obtain t2 where t2: "t2 \<in> set (tasks db2)" "advances t' t2" using run_advances [OF assms(3) inv1] by blast
  have "tk_key t2 = (pr_tenant p, task_id)" using t2(2) t(2) get_by_SomeD [OF t(1)] by (simp add: advances_def)
  moreover have "distinct (map tk_key (tasks db2))" using inv2 by (simp add: tasks_inv_def distinct_tk_key)
  ultimately have "u = t2" using u(1) t2(1) get_by_eq_Some_iff [of tk_key "tasks db2"] by (metis option.inject)
  then show False using t2(2) t(2) u(2) assms(5) by (auto simp: advances_def)
qed

theorem stale_patches_are_refused_witness:
  "\<forall>r. patch_replenishment_task sample_admin 4 sample_claim 900 6 sample_claimed \<noteq> Inr r"
  using stale_patches_are_refused [OF sample_task_inv sample_claiming reaches_refl] by simp

text \<open>
  Verified stays verified: once the moves credited to a completed task cover its quantity it reads
  VERIFIED at every later time and in every later state; the deadline never takes it back.
\<close>

theorem verified_is_final:
  assumes "tasks_inv db" "reaches task_step db db'" "t \<in> set (tasks db)"
    and "replenishment_verification_status t now = VERIFIED"
  shows "\<exists>t' \<in> set (tasks db'). tk_key t' = tk_key t \<and> replenishment_verification_status t' now' = VERIFIED"
proof -
  have t: "tk_status t = TASK_COMPLETED" "tk_quantity t \<le> tk_verified t"
    using assms(4) by (auto simp: replenishment_verification_status_def split: if_splits option.splits)
  obtain t' where t': "t' \<in> set (tasks db')" "advances t t'" using run_advances [OF assms(2,1,3)] by blast
  then have "tk_status t' = TASK_COMPLETED" "tk_quantity t' \<le> tk_verified t'" "tk_key t' = tk_key t"
    using t by (auto simp: advances_def active_status_def)
  then show ?thesis using t'(1) by (auto simp: replenishment_verification_status_def)
qed

definition sample_verified :: task where
  "sample_verified = sample_task\<lparr>tk_status := TASK_COMPLETED, tk_verified := 1\<rparr>"

theorem verified_is_final_witness:
  "replenishment_verification_status sample_verified 7 = VERIFIED"
proof -
  have "tasks_inv (sample_backroom\<lparr>tasks := [sample_verified]\<rparr>)"
    by (simp add: tasks_inv_def one_active_task_def active_status_def task_checks_def sample_verified_def
        sample_task_def open_task_def)
  moreover have "replenishment_verification_status sample_verified 0 = VERIFIED"
    by (simp add: replenishment_verification_status_def sample_verified_def sample_task_def)
  ultimately show ?thesis using verified_is_final [OF _ reaches_refl, of _ sample_verified 0 7] by force
qed



end
