(* ===== verification/Login_Throttle.thy ===== *)
theory Login_Throttle
  imports Domain Ordered_Dict
begin

text \<open>
  The login throttle of \<open>security.py\<close>: fixed windows per source address and per account, in process
  memory.  Windows and reservations are mutable objects, kept in a store by address, since a finished
  attempt is credited only to the very window it was reserved in.  The lock makes each call one step.
  SHA-256 and the clock are parameters; an attempt reads the clock before it takes the lock, so the
  readings of successive steps need not be in order.
\<close>

subsection \<open>Windows and reservations\<close>

datatype throttle_key = IpKey string | AccountKey string

record attempt_window =
  aw_started_at :: real
  aw_attempts :: int

record reservation =
  rs_ip_key :: throttle_key
  rs_account_key :: throttle_key
  rs_ip_window :: nat
  rs_account_window :: nat
  rs_finalized :: bool

datatype attempt_outcome = SUCCESS | AUTHENTICATION_FAILED | ABORTED

record decision =
  dc_reservation :: "nat option"
  dc_retry_after :: "int option"

record throttle_config =
  tc_enabled :: bool
  tc_window_seconds :: int
  tc_ip_limit :: int
  tc_account_limit :: int
  tc_max_entries :: int

record throttle =
  th_entries :: "(throttle_key, nat) odict"
  th_windows :: "attempt_window list"
  th_reservations :: "reservation list"

definition config_ok :: "throttle_config \<Rightarrow> bool" where
  "config_ok cfg \<longleftrightarrow>
     1 \<le> tc_window_seconds cfg \<and> 1 \<le> tc_ip_limit cfg \<and> 1 \<le> tc_account_limit cfg \<and> 2 \<le> tc_max_entries cfg"

definition new_throttle :: "throttle_config \<Rightarrow> throttle outcome" where
  "new_throttle cfg =
     (if \<not> config_ok cfg
      then Inl (ValueError ''Login throttle limits must be positive and max_entries at least 2'')
      else Inr \<lparr>th_entries = [], th_windows = [], th_reservations = []\<rparr>)"

definition configured_login_throttle :: "settings \<Rightarrow> throttle_config" where
  "configured_login_throttle s =
     \<lparr>tc_enabled = login_throttle_enabled s, tc_window_seconds = login_throttle_window_seconds s,
      tc_ip_limit = login_throttle_ip_limit s, tc_account_limit = login_throttle_account_limit s,
      tc_max_entries = login_throttle_max_entries s\<rparr>"

definition ip_key :: "string \<Rightarrow> throttle_key" where
  "ip_key source_ip =
     (let s = str_lower (strip source_ip) in IpKey (if s = [] then ''unknown'' else s))"

definition account_key :: "(string \<Rightarrow> string) \<Rightarrow> string \<Rightarrow> string \<Rightarrow> throttle_key" where
  "account_key sha256 tenant_code email =
     AccountKey (sha256 (str_lower (strip tenant_code) @ [CHR 0x00] @ str_lower (strip email)))"

text \<open>Seconds a window still counts.\<close>

definition remaining :: "throttle_config \<Rightarrow> real \<Rightarrow> attempt_window \<Rightarrow> real" where
  "remaining cfg now w = of_int (tc_window_seconds cfg) - (now - aw_started_at w)"

definition active_window :: "throttle_config \<Rightarrow> throttle_key \<Rightarrow> real \<Rightarrow> throttle \<Rightarrow> nat option \<times> throttle" where
  "active_window cfg key now th =
     (case od_get (th_entries th) key of
        None \<Rightarrow> (None, th)
      | Some w \<Rightarrow>
          if of_int (tc_window_seconds cfg) \<le> now - aw_started_at (th_windows th ! w)
          then (None, th\<lparr>th_entries := od_pop key (th_entries th)\<rparr>)
          else (Some w, th))"

definition new_window :: "throttle_key \<Rightarrow> real \<Rightarrow> throttle \<Rightarrow> nat \<times> throttle" where
  "new_window key now th =
     (length (th_windows th),
      th\<lparr>th_entries := od_set key (length (th_windows th)) (th_entries th),
         th_windows := th_windows th @ [\<lparr>aw_started_at = now, aw_attempts = 0\<rparr>]\<rparr>)"

definition remove_expired_windows :: "throttle_config \<Rightarrow> real \<Rightarrow> throttle \<Rightarrow> throttle" where
  "remove_expired_windows cfg now th =
     th\<lparr>th_entries := filter
          (\<lambda>e. now - aw_started_at (th_windows th ! snd e) < of_int (tc_window_seconds cfg)) (th_entries th)\<rparr>"

definition capacity_retry_after :: "throttle_config \<Rightarrow> real \<Rightarrow> throttle \<Rightarrow> int" where
  "capacity_retry_after cfg now th =
     max 1 \<lceil>case map (\<lambda>e. remaining cfg now (th_windows th ! snd e)) (th_entries th) of
              [] \<Rightarrow> of_int (tc_window_seconds cfg)
            | rs \<Rightarrow> Min (set rs)\<rceil>"

subsection \<open>Beginning an attempt\<close>

definition look_up ::
    "throttle_config \<Rightarrow> throttle_key \<Rightarrow> throttle_key \<Rightarrow> real \<Rightarrow> throttle \<Rightarrow> nat option \<times> nat option \<times> throttle" where
  "look_up cfg ipk acck now th =
     (let (ipw, th1) = active_window cfg ipk now th; (accw, th2) = active_window cfg acck now th1
      in (ipw, accw, th2))"

definition over_limit :: "throttle_config \<Rightarrow> real \<Rightarrow> nat option \<Rightarrow> nat option \<Rightarrow> throttle \<Rightarrow> real list" where
  "over_limit cfg now ipw accw th =
     List.map_filter
       (\<lambda>(w, limit). case w of
          None \<Rightarrow> None
        | Some w \<Rightarrow> if limit \<le> aw_attempts (th_windows th ! w) then Some (remaining cfg now (th_windows th ! w)) else None)
       [(ipw, tc_ip_limit cfg), (accw, tc_account_limit cfg)]"

definition required_entries :: "nat option \<Rightarrow> nat option \<Rightarrow> int" where
  "required_entries ipw accw = (if ipw = None then 1 else 0) + (if accw = None then 1 else 0)"

definition no_room :: "throttle_config \<Rightarrow> nat option \<Rightarrow> nat option \<Rightarrow> throttle \<Rightarrow> bool" where
  "no_room cfg ipw accw th \<longleftrightarrow> tc_max_entries cfg < int (length (th_entries th)) + required_entries ipw accw"

definition window_for :: "throttle_key \<Rightarrow> real \<Rightarrow> nat option \<Rightarrow> throttle \<Rightarrow> nat \<times> throttle" where
  "window_for key now w th = (case w of None \<Rightarrow> new_window key now th | Some i \<Rightarrow> (i, th))"

definition add_attempts :: "int \<Rightarrow> nat \<Rightarrow> throttle \<Rightarrow> throttle" where
  "add_attempts n w th =
     th\<lparr>th_windows := (th_windows th)[w := (th_windows th ! w)\<lparr>aw_attempts := aw_attempts (th_windows th ! w) + n\<rparr>]\<rparr>"

definition reserve ::
    "throttle_key \<Rightarrow> throttle_key \<Rightarrow> real \<Rightarrow> nat option \<Rightarrow> nat option \<Rightarrow> throttle \<Rightarrow> decision \<times> throttle" where
  "reserve ipk acck now ipw accw th =
     (let (i, th1) = window_for ipk now ipw th; (a, th2) = window_for acck now accw th1;
          th3 = add_attempts 1 a (add_attempts 1 i th2)
      in (\<lparr>dc_reservation = Some (length (th_reservations th3)), dc_retry_after = None\<rparr>,
          th3\<lparr>th_reservations := th_reservations th3 @
                [\<lparr>rs_ip_key = ipk, rs_account_key = acck, rs_ip_window = i, rs_account_window = a,
                  rs_finalized = False\<rparr>]\<rparr>))"

definition retry :: "int \<Rightarrow> decision" where
  "retry n = \<lparr>dc_reservation = None, dc_retry_after = Some n\<rparr>"

definition begin_attempt ::
    "throttle_config \<Rightarrow> (string \<Rightarrow> string) \<Rightarrow> string \<Rightarrow> string \<Rightarrow> string \<Rightarrow> real \<Rightarrow> throttle \<Rightarrow> decision \<times> throttle" where
  "begin_attempt cfg sha256 source_ip tenant_code email now th =
     (if \<not> tc_enabled cfg then (\<lparr>dc_reservation = None, dc_retry_after = None\<rparr>, th)
      else
        let ipk = ip_key source_ip; acck = account_key sha256 tenant_code email;
            (ipw, accw, th1) = look_up cfg ipk acck now th;
            late = over_limit cfg now ipw accw th1
        in if late \<noteq> [] then (retry (max 1 \<lceil>Max (set late)\<rceil>), th1)
           else if no_room cfg ipw accw th1
           then
             let (ipw, accw, th2) = look_up cfg ipk acck now (remove_expired_windows cfg now th1)
             in if no_room cfg ipw accw th2 then (retry (capacity_retry_after cfg now th2), th2)
                else reserve ipk acck now ipw accw th2
           else reserve ipk acck now ipw accw th1)"

subsection \<open>Finishing an attempt\<close>

definition retained_keys :: "reservation \<Rightarrow> attempt_outcome \<Rightarrow> throttle_key set" where
  "retained_keys r outcome =
     (if outcome = SUCCESS \<or> outcome = AUTHENTICATION_FAILED then {rs_ip_key r} else {}) \<union>
     (if outcome = AUTHENTICATION_FAILED then {rs_account_key r} else {})"

definition release :: "throttle_key set \<Rightarrow> throttle_key \<Rightarrow> nat \<Rightarrow> throttle \<Rightarrow> throttle" where
  "release kept key w th =
     (if key \<in> kept \<or> od_get (th_entries th) key \<noteq> Some w then th
      else
        let th1 = add_attempts (- 1) w th
        in if aw_attempts (th_windows th1 ! w) = 0
           then th1\<lparr>th_entries := od_pop key (th_entries th1)\<rparr> else th1)"

definition finish_attempt :: "nat option \<Rightarrow> attempt_outcome \<Rightarrow> throttle \<Rightarrow> throttle" where
  "finish_attempt reservation outcome th =
     (case reservation of
        None \<Rightarrow> th
      | Some i \<Rightarrow>
          let r = th_reservations th ! i
          in if rs_finalized r then th
             else release (retained_keys r outcome) (rs_account_key r) (rs_account_window r)
                    (release (retained_keys r outcome) (rs_ip_key r) (rs_ip_window r)
                      (th\<lparr>th_reservations := (th_reservations th)[i := r\<lparr>rs_finalized := True\<rparr>]\<rparr>)))"

subsection \<open>What a window counts\<close>

text \<open>
  The reference: a window counts the attempts reserved in it, less those whose outcome has released
  that key.  The outcomes are not kept by the program; \<open>outs\<close> records them beside it.
\<close>

definition in_slot :: "throttle_key \<Rightarrow> nat \<Rightarrow> reservation \<Rightarrow> bool" where
  "in_slot k w r \<longleftrightarrow> rs_ip_key r = k \<and> rs_ip_window r = w \<or> rs_account_key r = k \<and> rs_account_window r = w"

definition counted :: "throttle_key \<Rightarrow> reservation \<Rightarrow> attempt_outcome option \<Rightarrow> bool" where
  "counted k r outcome \<longleftrightarrow> (case outcome of None \<Rightarrow> True | Some x \<Rightarrow> k \<in> retained_keys r x)"

definition holders :: "(nat \<Rightarrow> attempt_outcome option) \<Rightarrow> reservation list \<Rightarrow> throttle_key \<Rightarrow> nat \<Rightarrow> nat set" where
  "holders outs rs k w = {i. i < length rs \<and> in_slot k w (rs ! i) \<and> counted k (rs ! i) (outs i)}"

abbreviation entry :: "throttle \<Rightarrow> throttle_key \<Rightarrow> nat option" where
  "entry th k \<equiv> od_get (th_entries th) k"

abbreviation attempts :: "throttle \<Rightarrow> nat \<Rightarrow> int" where
  "attempts th w \<equiv> aw_attempts (th_windows th ! w)"

definition limit_of :: "throttle_config \<Rightarrow> throttle_key \<Rightarrow> int" where
  "limit_of cfg k = (case k of IpKey _ \<Rightarrow> tc_ip_limit cfg | AccountKey _ \<Rightarrow> tc_account_limit cfg)"

text \<open>Counts that are right but for attempts that are being released.\<close>

definition accounted ::
    "(throttle_key \<Rightarrow> nat \<Rightarrow> int) \<Rightarrow> (nat \<Rightarrow> attempt_outcome option) \<Rightarrow> real \<Rightarrow> throttle \<Rightarrow> bool" where
  "accounted debt outs clock th \<longleftrightarrow>
     od_wf (th_entries th) \<and>
     (\<forall>k w. entry th k = Some w \<longrightarrow>
        w < length (th_windows th) \<and> aw_started_at (th_windows th ! w) \<le> clock \<and>
        attempts th w = int (card (holders outs (th_reservations th) k w)) + debt k w) \<and>
     (\<forall>k k' w. entry th k = Some w \<longrightarrow> entry th k' = Some w \<longrightarrow> k = k') \<and>
     (\<forall>r \<in> set (th_reservations th). rs_ip_window r < length (th_windows th) \<and>
        rs_account_window r < length (th_windows th) \<and> rs_ip_key r \<noteq> rs_account_key r) \<and>
     (\<forall>i. (i < length (th_reservations th) \<and> rs_finalized (th_reservations th ! i)) = (outs i \<noteq> None))"

definition in_limits :: "throttle_config \<Rightarrow> throttle \<Rightarrow> bool" where
  "in_limits cfg th \<longleftrightarrow>
     (\<forall>k w. entry th k = Some w \<longrightarrow> 1 \<le> attempts th w \<and> attempts th w \<le> limit_of cfg k) \<and>
     int (length (th_entries th)) \<le> tc_max_entries cfg"

abbreviation nothing_owed :: "throttle_key \<Rightarrow> nat \<Rightarrow> int" where
  "nothing_owed \<equiv> \<lambda>_ _. 0"

lemma accountedD:
  assumes "accounted debt outs clock th"
  shows "od_wf (th_entries th)"
    "entry th k = Some w \<Longrightarrow> w < length (th_windows th)"
    "entry th k = Some w \<Longrightarrow> aw_started_at (th_windows th ! w) \<le> clock"
    "entry th k = Some w \<Longrightarrow> attempts th w = int (card (holders outs (th_reservations th) k w)) + debt k w"
    "entry th k = Some w \<Longrightarrow> entry th k' = Some w \<Longrightarrow> k = k'"
    "r \<in> set (th_reservations th) \<Longrightarrow> rs_ip_window r < length (th_windows th) \<and>
        rs_account_window r < length (th_windows th) \<and> rs_ip_key r \<noteq> rs_account_key r"
    "(i < length (th_reservations th) \<and> rs_finalized (th_reservations th ! i)) = (outs i \<noteq> None)"
  using assms unfolding accounted_def by blast+

lemma finite_holders [simp]: "finite (holders outs rs k w)"
  by (simp add: holders_def)

text \<open>Forgetting entries and letting time pass keep the accounts.\<close>

definition forgets :: "throttle \<Rightarrow> throttle \<Rightarrow> bool" where
  "forgets th th' \<longleftrightarrow>
     th_windows th' = th_windows th \<and> th_reservations th' = th_reservations th \<and>
     od_wf (th_entries th') \<and> length (th_entries th') \<le> length (th_entries th) \<and>
     (\<forall>k w. entry th' k = Some w \<longrightarrow> entry th k = Some w)"

lemma forgets_accounted: "accounted debt outs clock th \<Longrightarrow> forgets th th' \<Longrightarrow> accounted debt outs clock th'"
  unfolding accounted_def forgets_def by simp blast

lemma forgets_in_limits: "in_limits cfg th \<Longrightarrow> forgets th th' \<Longrightarrow> in_limits cfg th'"
  unfolding in_limits_def forgets_def by auto

lemma forgets_refl: "od_wf (th_entries th) \<Longrightarrow> forgets th th"
  by (simp add: forgets_def)

lemma forgets_trans: "forgets a b \<Longrightarrow> forgets b c \<Longrightarrow> forgets a c"
  by (auto simp: forgets_def)

lemma accounted_later: "accounted debt outs clock th \<Longrightarrow> clock \<le> now \<Longrightarrow> accounted debt outs now th"
  unfolding accounted_def by (meson order_trans)

lemma active_window_forgets:
  assumes "active_window cfg key now th = (w, th')" "od_wf (th_entries th)"
  shows "forgets th th' \<and> entry th' key = w \<and> (\<forall>k. k \<noteq> key \<longrightarrow> entry th' k = entry th k)"
  using assms
  by (auto simp: active_window_def forgets_def od_get_pop od_wf_pop length_od_pop split: option.splits if_splits)

lemma look_up_forgets:
  assumes "look_up cfg ipk acck now th = (ipw, accw, th')" "od_wf (th_entries th)" "ipk \<noteq> acck"
  shows "forgets th th' \<and> entry th' ipk = ipw \<and> entry th' acck = accw"
proof -
  obtain th1 where steps: "active_window cfg ipk now th = (ipw, th1)" "active_window cfg acck now th1 = (accw, th')"
    using assms(1) by (auto simp: look_up_def split: prod.splits)
  note first = active_window_forgets [OF steps(1) assms(2)]
  then have "od_wf (th_entries th1)" by (simp add: forgets_def)
  from active_window_forgets [OF steps(2) this] first show ?thesis
    using assms(3) forgets_trans by blast
qed

lemma od_get_filter: "od_wf d \<Longrightarrow> od_get (filter P d) k = Some w \<Longrightarrow> od_get d k = Some w"
  unfolding od_get_def od_wf_def by (auto dest: map_of_SomeD intro: map_of_is_SomeI)

lemma remove_expired_forgets:
  "od_wf (th_entries th) \<Longrightarrow> forgets th (remove_expired_windows cfg now th)"
  unfolding forgets_def remove_expired_windows_def
  by (simp add: od_get_filter) (simp add: od_wf_def distinct_map_filter)

text \<open>A new reservation.\<close>

lemma in_slotD: "r \<in> set rs \<Longrightarrow> in_slot k w r \<Longrightarrow> w = rs_ip_window r \<or> w = rs_account_window r"
  by (auto simp: in_slot_def)

lemma no_holders:
  assumes "accounted debt outs clock th" "length (th_windows th) \<le> w"
  shows "holders outs (th_reservations th) k w = {}"
  using accountedD(6) [OF assms(1) nth_mem] assms(2) by (fastforce simp: holders_def in_slot_def)

lemma od_wf_set_length:
  "length (od_set k v d) = length d + (if od_get d k = None then 1 else 0)"
  by (simp add: length_od_set od_get_None_iff)

lemma window_for_accounted:
  assumes acc: "accounted nothing_owed outs clock th" and now: "now \<le> clock"
    and w: "window_for key now (entry th key) th = (i, th')"
  shows "accounted nothing_owed outs clock th' \<and> entry th' key = Some i \<and>
    (\<forall>k. k \<noteq> key \<longrightarrow> entry th' k = entry th k) \<and>
    (\<forall>k u. entry th k = Some u \<longrightarrow> attempts th' u = attempts th u) \<and>
    attempts th' i = (case entry th key of None \<Rightarrow> 0 | Some u \<Rightarrow> attempts th u) \<and>
    th_reservations th' = th_reservations th \<and>
    length (th_entries th') = length (th_entries th) + (if entry th key = None then 1 else 0)"
proof (cases "entry th key")
  case None
  let ?n = "length (th_windows th)"
  have i: "i = ?n" "th' = th\<lparr>th_entries := od_set key ?n (th_entries th),
      th_windows := th_windows th @ [\<lparr>aw_started_at = now, aw_attempts = 0\<rparr>]\<rparr>"
    using w None by (auto simp: window_for_def new_window_def)
  have old: "u < ?n" if "entry th k = Some u" for k u using accountedD(2) [OF acc that] .
  have e: "entry th' k = (if k = key then Some ?n else entry th k)" for k by (simp add: i(2) od_get_set)
  have "accounted nothing_owed outs clock th'"
    unfolding accounted_def
  proof (intro conjI allI impI ballI)
    show "od_wf (th_entries th')" using accountedD(1) [OF acc] by (simp add: i(2) od_wf_set)
    show "(j < length (th_reservations th') \<and> rs_finalized (th_reservations th' ! j)) = (outs j \<noteq> None)" for j
      using accountedD(7) [OF acc] by (simp add: i(2))
  next
    fix k u assume u: "entry th' k = Some u"
    show "u < length (th_windows th')" "aw_started_at (th_windows th' ! u) \<le> clock"
      "attempts th' u = int (card (holders outs (th_reservations th') k u)) + 0"
      using u e [of k] old [of k u] accountedD(3,4) [OF acc, of k u] no_holders [OF acc, of ?n k] now
      by (auto simp: i(2) nth_append split: if_splits)
  next
    fix k k' u assume "entry th' k = Some u" "entry th' k' = Some u"
    then show "k = k'" using e [of k] e [of k'] old accountedD(5) [OF acc, of k u k']
      by (auto split: if_splits)
  next
    fix r assume "r \<in> set (th_reservations th')"
    then have "r \<in> set (th_reservations th)" by (simp add: i(2))
    from accountedD(6) [OF acc this]
    show "rs_ip_window r < length (th_windows th')" "rs_account_window r < length (th_windows th')"
      "rs_ip_key r \<noteq> rs_account_key r" by (simp_all add: i(2))
  qed
  then show ?thesis using e None old by (auto simp: i nth_append od_wf_set_length)
next
  case (Some u)
  then have "i = u" "th' = th" using w by (auto simp: window_for_def)
  then show ?thesis using acc Some by simp
qed

lemma holders_append:
  assumes "outs (length rs) = None"
  shows "holders outs (rs @ [r]) k w = holders outs rs k w \<union> (if in_slot k w r then {length rs} else {})"
proof -
  have "i \<in> holders outs (rs @ [r]) k w \<longleftrightarrow>
      i \<in> holders outs rs k w \<or> i = length rs \<and> in_slot k w r" for i
    using assms by (cases "i = length rs") (auto simp: holders_def nth_append counted_def)
  then show ?thesis by auto
qed

lemma card_holders_append:
  assumes "outs (length rs) = None"
  shows "card (holders outs (rs @ [r]) k w) = card (holders outs rs k w) + (if in_slot k w r then 1 else 0)"
proof -
  have "length rs \<notin> holders outs rs k w" by (simp add: holders_def)
  then show ?thesis by (simp add: holders_append [of outs rs r k w, OF assms])
qed

lemma add_attempts_simps [simp]:
  "th_entries (add_attempts n w th) = th_entries th"
  "th_reservations (add_attempts n w th) = th_reservations th"
  "length (th_windows (add_attempts n w th)) = length (th_windows th)"
  "aw_started_at (th_windows (add_attempts n w th) ! u) = aw_started_at (th_windows th ! u)"
  "w < length (th_windows th) \<Longrightarrow> attempts (add_attempts n w th) u = attempts th u + (if u = w then n else 0)"
  by (cases "w < length (th_windows th)"; cases "u = w"; simp add: add_attempts_def list_update_beyond)+

lemma reserve_accounted:
  assumes acc: "accounted nothing_owed outs clock th" and now: "now \<le> clock" and keys: "ipk \<noteq> acck"
    and r: "reserve ipk acck now (entry th ipk) (entry th acck) th = (d, th')"
  obtains i a where "accounted nothing_owed outs clock th'"
    "th_reservations th' = th_reservations th @
       [\<lparr>rs_ip_key = ipk, rs_account_key = acck, rs_ip_window = i, rs_account_window = a, rs_finalized = False\<rparr>]"
    "d = \<lparr>dc_reservation = Some (length (th_reservations th)), dc_retry_after = None\<rparr>"
    "entry th' ipk = Some i" "entry th' acck = Some a"
    "\<And>k. k \<noteq> ipk \<Longrightarrow> k \<noteq> acck \<Longrightarrow> entry th' k = entry th k"
    "\<And>k w. entry th' k = Some w \<Longrightarrow> attempts th' w =
       (case entry th k of None \<Rightarrow> 0 | Some u \<Rightarrow> attempts th u) + (if k = ipk \<or> k = acck then 1 else 0)"
    "int (length (th_entries th')) = int (length (th_entries th)) + required_entries (entry th ipk) (entry th acck)"
proof -
  obtain i th1 where w1: "window_for ipk now (entry th ipk) th = (i, th1)" by fastforce
  note one = window_for_accounted [OF acc now w1]
  have one_keys: "entry th1 ipk = Some i" "\<And>k. k \<noteq> ipk \<Longrightarrow> entry th1 k = entry th k"
    "\<And>k u. entry th k = Some u \<Longrightarrow> attempts th1 u = attempts th u"
    "attempts th1 i = (case entry th ipk of None \<Rightarrow> 0 | Some u \<Rightarrow> attempts th u)"
    "th_reservations th1 = th_reservations th"
    "length (th_entries th1) = length (th_entries th) + (if entry th ipk = None then 1 else 0)"
    using one by blast+
  obtain a th2 where w2: "window_for acck now (entry th acck) th1 = (a, th2)" by fastforce
  have th1_acck: "entry th1 acck = entry th acck" using one_keys(2) keys by metis
  with w2 have "window_for acck now (entry th1 acck) th1 = (a, th2)" by simp
  note two = window_for_accounted [OF conjunct1 [OF one] now this]
  have two_keys: "entry th2 acck = Some a" "\<And>k. k \<noteq> acck \<Longrightarrow> entry th2 k = entry th1 k"
    "\<And>k u. entry th1 k = Some u \<Longrightarrow> attempts th2 u = attempts th1 u"
    "attempts th2 a = (case entry th1 acck of None \<Rightarrow> 0 | Some u \<Rightarrow> attempts th1 u)"
    "th_reservations th2 = th_reservations th1"
    "length (th_entries th2) = length (th_entries th1) + (if entry th1 acck = None then 1 else 0)"
    using two by blast+
  have acc2: "accounted nothing_owed outs clock th2" using two by blast
  have ea: "entry th2 ipk = Some i" "entry th2 acck = Some a"
    using one_keys(1) two_keys(1,2) keys by metis+
  have ia: "i \<noteq> a" using accountedD(5) [OF acc2, of ipk i acck] ea keys by auto
  have bounds: "i < length (th_windows th2)" "a < length (th_windows th2)"
    using accountedD(2) [OF acc2] ea by auto
  let ?r = "\<lparr>rs_ip_key = ipk, rs_account_key = acck, rs_ip_window = i, rs_account_window = a, rs_finalized = False\<rparr>"
  let ?th3 = "add_attempts 1 a (add_attempts 1 i th2)"
  have th': "th' = ?th3\<lparr>th_reservations := th_reservations th2 @ [?r]\<rparr>"
    and d: "d = \<lparr>dc_reservation = Some (length (th_reservations th2)), dc_retry_after = None\<rparr>"
    using r w1 w2 by (auto simp: reserve_def Let_def)
  have rs: "th_reservations th2 = th_reservations th" using one_keys(5) two_keys(5) by simp
  have new: "outs (length (th_reservations th2)) = None"
    using accountedD(7) [OF acc2, of "length (th_reservations th2)"] by auto
  have counts: "attempts th' u = attempts th2 u + (if u = i \<or> u = a then 1 else 0)" for u
    using ia bounds by (auto simp: th')
  have slot: "in_slot k u ?r \<longleftrightarrow> u = i \<or> u = a" if "entry th2 k = Some u" for k u
  proof -
    have "u = i \<longrightarrow> k = ipk" "u = a \<longrightarrow> k = acck"
      using accountedD(5) [OF acc2 that, of ipk] accountedD(5) [OF acc2 that, of acck] ea by blast+
    then show ?thesis by (auto simp: in_slot_def)
  qed
  have "accounted nothing_owed outs clock th'"
    unfolding accounted_def
  proof (intro conjI allI impI ballI)
    show "od_wf (th_entries th')" using accountedD(1) [OF acc2] by (simp add: th')
    show "(j < length (th_reservations th') \<and> rs_finalized (th_reservations th' ! j)) = (outs j \<noteq> None)" for j
      using accountedD(7) [OF acc2, of j] new by (cases "j = length (th_reservations th2)") (auto simp: th' nth_append)
  next
    fix k u assume "entry th' k = Some u"
    then have u: "entry th2 k = Some u" by (simp add: th')
    show "u < length (th_windows th')" "aw_started_at (th_windows th' ! u) \<le> clock"
      using accountedD(2,3) [OF acc2 u] by (simp_all add: th')
    have "th_reservations th' = th_reservations th2 @ [?r]" by (simp add: th')
    then show "attempts th' u = int (card (holders outs (th_reservations th') k u)) + 0"
      using counts [of u] slot [OF u] accountedD(4) [OF acc2 u] card_holders_append [of outs "th_reservations th2" ?r k u, OF new] by simp
  next
    fix k k' u assume "entry th' k = Some u" "entry th' k' = Some u"
    then show "k = k'" using accountedD(5) [OF acc2, of k u k'] by (simp add: th')
  next
    fix x assume "x \<in> set (th_reservations th')"
    then have "x \<in> set (th_reservations th2) \<or> x = ?r" by (auto simp: th')
    then show "rs_ip_window x < length (th_windows th')" "rs_account_window x < length (th_windows th')"
      "rs_ip_key x \<noteq> rs_account_key x"
      using accountedD(6) [OF acc2, of x] bounds keys by (auto simp: th')
  qed
  moreover have "attempts th' u = (case entry th k of None \<Rightarrow> 0 | Some x \<Rightarrow> attempts th x) + (if k = ipk \<or> k = acck then 1 else 0)"
    if "entry th' k = Some u" for k u
  proof -
    have u: "entry th2 k = Some u" using that by (simp add: th')
    have "k = ipk \<longrightarrow> u = i" "k = acck \<longrightarrow> u = a" using u ea by auto
    then have "u = i \<or> u = a \<longleftrightarrow> k = ipk \<or> k = acck" using slot [OF u] by (auto simp: in_slot_def)
    moreover have "attempts th2 u = (case entry th k of None \<Rightarrow> 0 | Some x \<Rightarrow> attempts th x)"
    proof (cases "k = acck")
      case True
      then have "u = a" using u ea by simp
      then show ?thesis using two_keys(4) True th1_acck one_keys(3) by (auto split: option.split)
    next
      case False
      then have th1: "entry th1 k = Some u" using u two_keys(2) by metis
      then have "attempts th2 u = attempts th1 u" by (rule two_keys(3))
      moreover have "attempts th1 u = (case entry th k of None \<Rightarrow> 0 | Some x \<Rightarrow> attempts th x)"
      proof (cases "k = ipk")
        case True
        then show ?thesis using th1 one_keys(1,4) by simp
      next
        case other: False
        then have "entry th k = Some u" using th1 one_keys(2) by metis
        then show ?thesis using one_keys(3) by simp
      qed
      ultimately show ?thesis by simp
    qed
    ultimately show ?thesis using counts by simp
  qed
  moreover have "int (length (th_entries th')) =
      int (length (th_entries th)) + required_entries (entry th ipk) (entry th acck)"
    using one_keys(6) two_keys(6) th1_acck by (auto simp: th' required_entries_def)
  moreover have "entry th' k = entry th k" if "k \<noteq> ipk" "k \<noteq> acck" for k
    using that one_keys(2) two_keys(2) by (simp add: th')
  ultimately show thesis using that [of i a] ea d rs by (simp add: th')
qed

text \<open>Releasing one key settles its debt.\<close>

definition owes :: "throttle_key set \<Rightarrow> throttle_key \<Rightarrow> nat \<Rightarrow> throttle_key \<Rightarrow> nat \<Rightarrow> int" where
  "owes kept key w k u = (if k = key \<and> u = w \<and> key \<notin> kept then 1 else 0)"

lemma release_accounted:
  assumes acc: "accounted (\<lambda>k u. owes kept key w k u + debt k u) outs clock th" and lim: "in_limits cfg th"
  shows "accounted debt outs clock (release kept key w th) \<and> in_limits cfg (release kept key w th) \<and>
    th_reservations (release kept key w th) = th_reservations th"
proof (cases "key \<in> kept \<or> entry th key \<noteq> Some w")
  case True
  then have "owes kept key w k u = 0" if "entry th k = Some u" for k u using that by (auto simp: owes_def)
  then have "accounted debt outs clock th" using acc unfolding accounted_def by simp
  then show ?thesis using True lim by (auto simp: release_def)
next
  case False
  then have key: "key \<notin> kept" "entry th key = Some w" by simp_all
  let ?th1 = "add_attempts (- 1) w th"
  have w: "w < length (th_windows th)" by (rule accountedD(2) [OF acc key(2)])
  have count: "attempts ?th1 u = attempts th u - owes kept key w k u" if "entry th k = Some u" for k u
    using accountedD(5) [OF acc that, of key] key w by (auto simp: owes_def)
  have acc1: "accounted debt outs clock ?th1"
    unfolding accounted_def
  proof (intro conjI allI impI ballI)
    show "od_wf (th_entries ?th1)" using accountedD(1) [OF acc] by simp
    show "(j < length (th_reservations ?th1) \<and> rs_finalized (th_reservations ?th1 ! j)) = (outs j \<noteq> None)" for j
      using accountedD(7) [OF acc, of j] by simp
  next
    fix k u assume "entry ?th1 k = Some u"
    then have u: "entry th k = Some u" by simp
    show "u < length (th_windows ?th1)" "aw_started_at (th_windows ?th1 ! u) \<le> clock"
      using accountedD(2,3) [OF acc u] by simp_all
    show "attempts ?th1 u = int (card (holders outs (th_reservations ?th1) k u)) + debt k u"
      using accountedD(4) [OF acc u] count [OF u] by simp
  next
    fix k k' u assume "entry ?th1 k = Some u" "entry ?th1 k' = Some u"
    then show "k = k'" using accountedD(5) [OF acc, of k u k'] by simp
  next
    fix r assume "r \<in> set (th_reservations ?th1)"
    then show "rs_ip_window r < length (th_windows ?th1)" "rs_account_window r < length (th_windows ?th1)"
      "rs_ip_key r \<noteq> rs_account_key r" using accountedD(6) [OF acc, of r] by simp_all
  qed
  let ?th' = "release kept key w th"
  have th': "?th' = (if attempts ?th1 w = 0 then ?th1\<lparr>th_entries := od_pop key (th_entries ?th1)\<rparr> else ?th1)"
    using key by (simp add: release_def Let_def)
  have forget: "forgets ?th1 ?th'"
    using accountedD(1) [OF acc] by (auto simp: th' forgets_def od_wf_pop length_od_pop od_get_pop)
  have "1 \<le> attempts ?th' u \<and> attempts ?th' u \<le> limit_of cfg k" if "entry ?th' k = Some u" for k u
  proof -
    have u: "entry th k = Some u" using that forget by (simp add: forgets_def)
    have some: "1 \<le> attempts th u" "attempts th u \<le> limit_of cfg k" using lim u by (auto simp: in_limits_def)
    have "attempts ?th' u = attempts ?th1 u" using forget by (simp add: forgets_def)
    moreover have "attempts ?th1 u \<noteq> 0"
    proof (cases "u = w")
      case True
      then have "k = key" using accountedD(5) [OF acc u] key(2) by simp
      then show ?thesis using that True by (auto simp: th' od_get_pop split: if_splits)
    qed (use count [OF u] some in \<open>simp add: owes_def\<close>)
    moreover have "0 \<le> owes kept key w k u" "owes kept key w k u \<le> 1" by (auto simp: owes_def)
    ultimately show ?thesis using count [OF u] some by linarith
  qed
  then have "in_limits cfg ?th'"
    using lim forget unfolding in_limits_def forgets_def by auto
  then show ?thesis using forgets_accounted [OF acc1 forget] forget by (simp add: forgets_def)
qed

text \<open>Marking a reservation as finished leaves the debts of the keys its outcome releases.\<close>

lemma card_holders_finish:
  assumes "i < length rs" "outs i = None"
  shows "card (holders outs rs k w) =
    card (holders (outs(i \<mapsto> x)) (rs[i := (rs ! i)\<lparr>rs_finalized := True\<rparr>]) k w) +
    (if in_slot k w (rs ! i) \<and> k \<notin> retained_keys (rs ! i) x then 1 else 0)"
proof -
  let ?new = "holders (outs(i \<mapsto> x)) (rs[i := (rs ! i)\<lparr>rs_finalized := True\<rparr>]) k w"
  let ?gone = "in_slot k w (rs ! i) \<and> k \<notin> retained_keys (rs ! i) x"
  have same: "in_slot k w (r\<lparr>rs_finalized := b\<rparr>) = in_slot k w r"
    "retained_keys (r\<lparr>rs_finalized := b\<rparr>) x = retained_keys r x" for r b
    by (simp_all add: in_slot_def retained_keys_def)
  have "j \<in> holders outs rs k w \<longleftrightarrow> j \<in> ?new \<or> j = i \<and> ?gone" for j
  proof (cases "j = i")
    case False
    then have "rs[i := (rs ! i)\<lparr>rs_finalized := True\<rparr>] ! j = rs ! j" by simp
    then show ?thesis using False by (simp add: holders_def counted_def split: option.split)
  qed (use assms in \<open>auto simp: holders_def counted_def same\<close>)
  then have "holders outs rs k w = ?new \<union> (if ?gone then {i} else {})" by auto
  moreover have "?gone \<longrightarrow> i \<notin> ?new" using assms by (auto simp: holders_def counted_def same)
  ultimately show ?thesis by simp
qed

lemma finish_accounted:
  assumes acc: "accounted nothing_owed outs clock th" and lim: "in_limits cfg th"
    and i: "i < length (th_reservations th)"
  shows "let outs' = (if rs_finalized (th_reservations th ! i) then outs else outs(i \<mapsto> x))
    in accounted nothing_owed outs' clock (finish_attempt (Some i) x th) \<and> in_limits cfg (finish_attempt (Some i) x th)"
proof (cases "rs_finalized (th_reservations th ! i)")
  case True
  then show ?thesis using acc lim by (simp add: finish_attempt_def Let_def)
next
  case False
  let ?r = "th_reservations th ! i" and ?outs = "outs(i \<mapsto> x)"
  let ?kept = "retained_keys ?r x"
  let ?th1 = "th\<lparr>th_reservations := (th_reservations th)[i := ?r\<lparr>rs_finalized := True\<rparr>]\<rparr>"
  have open_i: "outs i = None" using accountedD(7) [OF acc, of i] i False by simp
  have keys: "rs_ip_key ?r \<noteq> rs_account_key ?r" using accountedD(6) [OF acc nth_mem [OF i]] by simp
  let ?debt = "owes ?kept (rs_account_key ?r) (rs_account_window ?r)"
  have "accounted (\<lambda>k u. owes ?kept (rs_ip_key ?r) (rs_ip_window ?r) k u + ?debt k u) ?outs clock ?th1"
    unfolding accounted_def
  proof (intro conjI allI impI ballI)
    show "od_wf (th_entries ?th1)" using accountedD(1) [OF acc] by simp
    show "(j < length (th_reservations ?th1) \<and> rs_finalized (th_reservations ?th1 ! j)) = (?outs j \<noteq> None)" for j
      using accountedD(7) [OF acc, of j] i by (auto simp: nth_list_update)
  next
    fix k u assume "entry ?th1 k = Some u"
    then have u: "entry th k = Some u" by simp
    show "u < length (th_windows ?th1)" "aw_started_at (th_windows ?th1 ! u) \<le> clock"
      using accountedD(2,3) [OF acc u] by simp_all
    have "int (if in_slot k u ?r \<and> k \<notin> ?kept then 1 else 0) =
        owes ?kept (rs_ip_key ?r) (rs_ip_window ?r) k u + ?debt k u"
      using keys by (auto simp: in_slot_def owes_def)
    then have "attempts th u =
        int (card (holders ?outs ((th_reservations th)[i := ?r\<lparr>rs_finalized := True\<rparr>]) k u)) +
        (owes ?kept (rs_ip_key ?r) (rs_ip_window ?r) k u + ?debt k u)"
      using accountedD(4) [OF acc u] card_holders_finish [of i "th_reservations th" outs k u x, OF i open_i]
      by linarith
    then show "attempts ?th1 u = int (card (holders ?outs (th_reservations ?th1) k u)) +
        (owes ?kept (rs_ip_key ?r) (rs_ip_window ?r) k u + ?debt k u)" by simp
  next
    fix k k' u assume "entry ?th1 k = Some u" "entry ?th1 k' = Some u"
    then show "k = k'" using accountedD(5) [OF acc, of k u k'] by simp
  next
    fix r assume "r \<in> set (th_reservations ?th1)"
    then have "r \<in> set (th_reservations th) \<or> r = ?r\<lparr>rs_finalized := True\<rparr>"
      using set_update_subset_insert by fastforce
    then show "rs_ip_window r < length (th_windows ?th1)" "rs_account_window r < length (th_windows ?th1)"
      "rs_ip_key r \<noteq> rs_account_key r"
      using accountedD(6) [OF acc, of r] accountedD(6) [OF acc nth_mem [OF i]] by auto
  qed
  moreover have "in_limits cfg ?th1" using lim by (simp add: in_limits_def)
  ultimately have one: "accounted ?debt ?outs clock (release ?kept (rs_ip_key ?r) (rs_ip_window ?r) ?th1) \<and>
      in_limits cfg (release ?kept (rs_ip_key ?r) (rs_ip_window ?r) ?th1)"
    using release_accounted by blast
  then have "accounted (\<lambda>k u. ?debt k u + nothing_owed k u) ?outs clock (release ?kept (rs_ip_key ?r) (rs_ip_window ?r) ?th1)"
    by simp
  from release_accounted [OF this conjunct2 [OF one]] False show ?thesis
    by (simp add: finish_attempt_def Let_def)
qed

subsection \<open>The throttle in use\<close>

lemma keys_differ: "ip_key source \<noteq> account_key sha tenant email"
  by (simp add: ip_key_def account_key_def Let_def)

lemma limit_of_keys [simp]:
  "limit_of cfg (ip_key source) = tc_ip_limit cfg" "limit_of cfg (account_key sha tenant email) = tc_account_limit cfg"
  by (simp_all add: limit_of_def ip_key_def account_key_def Let_def)

lemma over_limit_iff:
  "over_limit cfg now ipw accw th = [] \<longleftrightarrow>
     (\<forall>w. ipw = Some w \<longrightarrow> attempts th w < tc_ip_limit cfg) \<and>
     (\<forall>w. accw = Some w \<longrightarrow> attempts th w < tc_account_limit cfg)"
  by (cases ipw; cases accw) (auto simp: over_limit_def List.map_filter_def not_le)

lemma begin_attempt_cases:
  assumes "begin_attempt cfg sha source tenant email now th = (d, th')" "accounted nothing_owed outs clock th"
    "in_limits cfg th"
  obtains (off) "\<not> tc_enabled cfg" "d = \<lparr>dc_reservation = None, dc_retry_after = None\<rparr>" "th' = th"
  | (late) ipw accw where "tc_enabled cfg"
      "look_up cfg (ip_key source) (account_key sha tenant email) now th = (ipw, accw, th')"
      "over_limit cfg now ipw accw th' \<noteq> []" "d = retry (max 1 \<lceil>Max (set (over_limit cfg now ipw accw th'))\<rceil>)"
      "forgets th th'" "entry th' (ip_key source) = ipw" "entry th' (account_key sha tenant email) = accw"
  | (full) ipw accw where "tc_enabled cfg" "no_room cfg ipw accw th'" "d = retry (capacity_retry_after cfg now th')" "forgets th th'"
  | (reserved) th1 where "tc_enabled cfg" "forgets th th1"
      "reserve (ip_key source) (account_key sha tenant email) now (entry th1 (ip_key source))
         (entry th1 (account_key sha tenant email)) th1 = (d, th')"
      "\<not> no_room cfg (entry th1 (ip_key source)) (entry th1 (account_key sha tenant email)) th1"
      "\<And>w. entry th1 (ip_key source) = Some w \<Longrightarrow> attempts th1 w < tc_ip_limit cfg"
      "\<And>w. entry th1 (account_key sha tenant email) = Some w \<Longrightarrow> attempts th1 w < tc_account_limit cfg"
proof (cases "tc_enabled cfg")
  case True
  let ?ipk = "ip_key source" and ?acck = "account_key sha tenant email"
  obtain ipw accw th1 where look: "look_up cfg ?ipk ?acck now th = (ipw, accw, th1)" by (cases "look_up cfg ?ipk ?acck now th") auto
  note first = look_up_forgets [OF look accountedD(1) [OF assms(2)] keys_differ]
  show thesis
  proof (cases "over_limit cfg now ipw accw th1 = []")
    case False
    then have "d = retry (max 1 \<lceil>Max (set (over_limit cfg now ipw accw th1))\<rceil>)" "th' = th1"
      using assms(1) True look by (auto simp: begin_attempt_def Let_def)
    then show thesis using late [OF True, of ipw accw] look False first by simp
  next
    case fine: True
    show thesis
    proof (cases "no_room cfg ipw accw th1")
      case False
      then have "reserve ?ipk ?acck now ipw accw th1 = (d, th')"
        using assms(1) True look fine by (simp add: begin_attempt_def Let_def)
      then show thesis using reserved [OF True, of th1] first False fine by (simp add: over_limit_iff)
    next
      case crowded: True
      let ?th2 = "remove_expired_windows cfg now th1"
      have "od_wf (th_entries th1)" using first by (simp add: forgets_def)
      note swept = remove_expired_forgets [OF this, of cfg now]
      obtain ipw2 accw2 th3 where look2: "look_up cfg ?ipk ?acck now ?th2 = (ipw2, accw2, th3)"
        by (cases "look_up cfg ?ipk ?acck now ?th2") auto
      have "od_wf (th_entries ?th2)" using swept by (simp add: forgets_def)
      note second = look_up_forgets [OF look2 this keys_differ]
      have all: "forgets th1 th3" "forgets th th3" using first swept second forgets_trans by blast+
      have result: "(d, th') = (if no_room cfg ipw2 accw2 th3 then (retry (capacity_retry_after cfg now th3), th3)
          else reserve ?ipk ?acck now ipw2 accw2 th3)"
        using assms(1) True look look2 fine crowded by (simp add: begin_attempt_def Let_def)
      show thesis
      proof (cases "no_room cfg ipw2 accw2 th3")
        case True
        then show thesis using full \<open>tc_enabled cfg\<close> result all by simp
      next
        case False
        have "attempts th3 w < tc_ip_limit cfg" if "entry th3 ?ipk = Some w" for w
          using that all(1) first fine unfolding over_limit_iff forgets_def by auto
        moreover have "attempts th3 w < tc_account_limit cfg" if "entry th3 ?acck = Some w" for w
          using that all(1) first fine unfolding over_limit_iff forgets_def by auto
        ultimately show thesis using reserved [OF \<open>tc_enabled cfg\<close> all(2)] False result second by simp
      qed
    qed
  qed
qed (use assms(1) off in \<open>simp add: begin_attempt_def\<close>)

lemma begin_accounted:
  assumes "begin_attempt cfg sha source tenant email now th = (d, th')" "accounted nothing_owed outs clock th"
    "in_limits cfg th" and config: "config_ok cfg"
  shows "accounted nothing_owed outs (max clock now) th' \<and> in_limits cfg th'"
  using assms(1-3)
proof (cases rule: begin_attempt_cases)
  case (reserved th1)
  let ?ipk = "ip_key source" and ?acck = "account_key sha tenant email" and ?clock = "max clock now"
  have "clock \<le> ?clock" by simp
  from forgets_accounted [OF accounted_later [OF assms(2) this] reserved(2)]
  have acc1: "accounted nothing_owed outs ?clock th1" .
  have lim1: "in_limits cfg th1" by (rule forgets_in_limits [OF assms(3) reserved(2)])
  obtain i a where made: "accounted nothing_owed outs ?clock th'" "entry th' ?ipk = Some i" "entry th' ?acck = Some a"
    "\<And>k. k \<noteq> ?ipk \<Longrightarrow> k \<noteq> ?acck \<Longrightarrow> entry th' k = entry th1 k"
    "\<And>k w. entry th' k = Some w \<Longrightarrow> attempts th' w =
       (case entry th1 k of None \<Rightarrow> 0 | Some u \<Rightarrow> attempts th1 u) + (if k = ?ipk \<or> k = ?acck then 1 else 0)"
    "int (length (th_entries th')) = int (length (th_entries th1)) + required_entries (entry th1 ?ipk) (entry th1 ?acck)"
    by (rule reserve_accounted [OF acc1 max.cobounded2 keys_differ reserved(3)]) (rule that; assumption)
  have "1 \<le> attempts th' w \<and> attempts th' w \<le> limit_of cfg k" if w: "entry th' k = Some w" for k w
  proof (cases "k = ?ipk \<or> k = ?acck")
    case True
    have "0 \<le> (case entry th1 k of None \<Rightarrow> 0 | Some u \<Rightarrow> attempts th1 u)"
      using lim1 by (auto simp: in_limits_def split: option.split dest: spec [of _ k])
    moreover have "(case entry th1 k of None \<Rightarrow> 0 | Some u \<Rightarrow> attempts th1 u) < limit_of cfg k"
      using True reserved(5,6) config by (auto simp: config_ok_def split: option.split)
    ultimately show ?thesis using made(5) [OF w] True by simp
  next
    case False
    then have "entry th1 k = Some w" using made(4) w by metis
    then show ?thesis using made(5) [OF w] False lim1 by (auto simp: in_limits_def)
  qed
  then show ?thesis using made(1,6) reserved(4) by (auto simp: in_limits_def no_room_def)
qed (use assms forgets_accounted forgets_in_limits accounted_later max.cobounded1 in blast)+

text \<open>The state of a run: the throttle, the outcomes so far, and the latest reading of the clock.\<close>

type_synonym throttle_run = "throttle \<times> (nat \<Rightarrow> attempt_outcome option) \<times> real"

definition throttle_inv :: "throttle_config \<Rightarrow> throttle_run \<Rightarrow> bool" where
  "throttle_inv cfg run \<longleftrightarrow>
     (case run of (th, outs, clock) \<Rightarrow> accounted nothing_owed outs clock th \<and> in_limits cfg th)"

definition throttle_start :: "throttle_config \<Rightarrow> throttle_run \<Rightarrow> bool" where
  "throttle_start cfg run \<longleftrightarrow> new_throttle cfg = Inr (fst run) \<and> fst (snd run) = (\<lambda>_. None)"

inductive throttle_step :: "throttle_config \<Rightarrow> (string \<Rightarrow> string) \<Rightarrow> throttle_run \<Rightarrow> throttle_run \<Rightarrow> bool"
  for cfg sha where
  throttle_begin: "begin_attempt cfg sha source tenant email now th = (d, th') \<Longrightarrow>
     throttle_step cfg sha (th, outs, clock) (th', outs, max clock now)"
| throttle_finish: "i < length (th_reservations th) \<Longrightarrow>
     throttle_step cfg sha (th, outs, clock)
       (finish_attempt (Some i) x th,
        if rs_finalized (th_reservations th ! i) then outs else outs(i \<mapsto> x), clock)"

lemma throttle_start_inv: "config_ok cfg \<Longrightarrow> throttle_start cfg run \<Longrightarrow> throttle_inv cfg run"
  by (cases run)
    (auto simp: throttle_start_def new_throttle_def throttle_inv_def accounted_def in_limits_def od_get_def config_ok_def
      split: if_splits)

lemma throttle_step_inv:
  assumes "throttle_step cfg sha run run'" "config_ok cfg" "throttle_inv cfg run"
  shows "throttle_inv cfg run'"
  using assms(1)
proof cases
  case (throttle_begin source tenant email now th d th' clock outs)
  then show ?thesis using begin_accounted assms(2,3) by (auto simp: throttle_inv_def)
next
  case (throttle_finish i th outs clock x)
  then show ?thesis using finish_accounted [of outs clock th cfg i x] assms(3) by (auto simp: throttle_inv_def Let_def)
qed

interpretation throttle: step_invariant
  "\<lambda>run. config_ok cfg \<and> throttle_start cfg run" "throttle_step cfg sha" "\<lambda>run. config_ok cfg \<and> throttle_inv cfg run"
  using throttle_start_inv throttle_step_inv by unfold_locales blast+

subsection \<open>Refusals\<close>

lemma active_window_SomeD:
  "active_window cfg key now th = (Some w, th') \<Longrightarrow>
     th' = th \<and> entry th key = Some w \<and> 0 < remaining cfg now (th_windows th ! w)"
  by (auto simp: active_window_def remaining_def split: option.splits if_splits)

lemma look_up_live:
  assumes "look_up cfg ipk acck now th = (ipw, accw, th')" "od_wf (th_entries th)" "ipk \<noteq> acck"
  shows "ipw = Some w \<Longrightarrow> entry th ipk = Some w \<and> 0 < remaining cfg now (th_windows th ! w)"
    "accw = Some w \<Longrightarrow> entry th acck = Some w \<and> 0 < remaining cfg now (th_windows th ! w)"
proof -
  obtain th1 where steps: "active_window cfg ipk now th = (ipw, th1)" "active_window cfg acck now th1 = (accw, th')"
    using assms(1) by (auto simp: look_up_def split: prod.splits)
  note first = active_window_forgets [OF steps(1) assms(2)]
  show "ipw = Some w \<Longrightarrow> entry th ipk = Some w \<and> 0 < remaining cfg now (th_windows th ! w)"
    using active_window_SomeD steps(1) by blast
  have same: "entry th1 acck = entry th acck" "th_windows th1 = th_windows th"
    using first assms(3) unfolding forgets_def by metis+
  assume "accw = Some w"
  then have "active_window cfg acck now th1 = (Some w, th')" using steps(2) by simp
  from active_window_SomeD [OF this] show "entry th acck = Some w \<and> 0 < remaining cfg now (th_windows th ! w)"
    unfolding same by blast
qed

lemma let_through:
  assumes "tc_enabled cfg" "od_wf (th_entries th)" "int (length (th_entries th)) + 2 \<le> tc_max_entries cfg"
    and "\<And>w. entry th (ip_key source) = Some w \<Longrightarrow> tc_ip_limit cfg \<le> attempts th w \<Longrightarrow>
           remaining cfg now (th_windows th ! w) \<le> 0"
    and "\<And>w. entry th (account_key sha tenant email) = Some w \<Longrightarrow> tc_account_limit cfg \<le> attempts th w \<Longrightarrow>
           remaining cfg now (th_windows th ! w) \<le> 0"
  shows "dc_reservation (fst (begin_attempt cfg sha source tenant email now th)) \<noteq> None"
proof -
  let ?ipk = "ip_key source" and ?acck = "account_key sha tenant email"
  obtain ipw accw th1 where look: "look_up cfg ?ipk ?acck now th = (ipw, accw, th1)"
    by (cases "look_up cfg ?ipk ?acck now th") auto
  note kept = look_up_forgets [OF look assms(2) keys_differ]
  note live = look_up_live [OF look assms(2) keys_differ]
  have "attempts th w < tc_ip_limit cfg" if "ipw = Some w" for w using live(1) [OF that] assms(4) by force
  moreover have "attempts th w < tc_account_limit cfg" if "accw = Some w" for w using live(2) [OF that] assms(5) by force
  ultimately have "over_limit cfg now ipw accw th1 = []" using kept by (auto simp: over_limit_iff forgets_def)
  moreover have "\<not> no_room cfg ipw accw th1"
    using kept assms(3) by (auto simp: no_room_def required_entries_def forgets_def)
  ultimately have "begin_attempt cfg sha source tenant email now th = reserve ?ipk ?acck now ipw accw th1"
    using assms(1) look by (simp add: begin_attempt_def Let_def)
  then show ?thesis by (simp add: reserve_def Let_def split: prod.split)
qed

lemma over_limit_remaining:
  "x \<in> set (over_limit cfg now ipw accw th) \<longleftrightarrow>
     (\<exists>w. ipw = Some w \<and> tc_ip_limit cfg \<le> attempts th w \<and> x = remaining cfg now (th_windows th ! w)) \<or>
     (\<exists>w. accw = Some w \<and> tc_account_limit cfg \<le> attempts th w \<and> x = remaining cfg now (th_windows th ! w))"
  by (cases ipw; cases accw) (auto simp: over_limit_def List.map_filter_def)

text \<open>A rounded wait between one second and the window.\<close>

lemma rounded_wait:
  assumes "1 \<le> window" "x \<le> of_int window"
  shows "1 \<le> max 1 \<lceil>x :: real\<rceil>" "max 1 \<lceil>x\<rceil> \<le> window" "x \<le> of_int (max 1 \<lceil>x\<rceil>)"
  using assms by (auto simp: ceiling_le_iff le_max_iff_disj of_int_max)

lemma remaining_bound: "aw_started_at w \<le> now \<Longrightarrow> remaining cfg now w \<le> of_int (tc_window_seconds cfg)"
  by (simp add: remaining_def)

subsection \<open>Properties\<close>

text \<open>
  C18: The throttle counts exactly what it promises: in every reachable state a live window counts the
  attempts reserved in it that are still in flight or whose outcome is charged to its key (for an
  address every completed attempt, for an account every failed one), it never exceeds its limit, and
  the table never exceeds its size.
\<close>

theorem throttle_counts_attempts:
  assumes "config_ok cfg" "throttle_start cfg run0" "reaches (throttle_step cfg sha) run0 (th, outs, clock)"
    and "od_get (th_entries th) k = Some w"
  shows "aw_attempts (th_windows th ! w) = int (card (holders outs (th_reservations th) k w)) \<and>
    1 \<le> aw_attempts (th_windows th ! w) \<and> aw_attempts (th_windows th ! w) \<le> limit_of cfg k \<and>
    int (length (th_entries th)) \<le> tc_max_entries cfg"
proof -
  have "throttle_inv cfg (th, outs, clock)"
    using throttle.reachable_inv [OF _ assms(3)] assms(1,2) by blast
  then have acc: "accounted nothing_owed outs clock th" and lim: "in_limits cfg th" by (simp_all add: throttle_inv_def)
  have "1 \<le> attempts th w \<and> attempts th w \<le> limit_of cfg k \<and> int (length (th_entries th)) \<le> tc_max_entries cfg"
    using lim assms(4) unfolding in_limits_def by blast
  then show ?thesis using accountedD(4) [OF acc assms(4)] by simp
qed

definition sample_config :: throttle_config where
  "sample_config = \<lparr>tc_enabled = True, tc_window_seconds = 60, tc_ip_limit = 2, tc_account_limit = 1, tc_max_entries = 4\<rparr>"

definition sample_throttle :: throttle where
  "sample_throttle =
     \<lparr>th_entries = [(ip_key ''h'', 0), (account_key id ''t'' ''e'', 1)],
      th_windows = [\<lparr>aw_started_at = 0, aw_attempts = 1\<rparr>, \<lparr>aw_started_at = 0, aw_attempts = 1\<rparr>],
      th_reservations = [\<lparr>rs_ip_key = ip_key ''h'', rs_account_key = account_key id ''t'' ''e'',
        rs_ip_window = 0, rs_account_window = 1, rs_finalized = False\<rparr>]\<rparr>"

definition idle_throttle :: throttle where
  "idle_throttle = \<lparr>th_entries = [], th_windows = [], th_reservations = []\<rparr>"

lemma sample_config_ok: "config_ok sample_config"
  by (simp add: config_ok_def sample_config_def)

lemma sample_throttle_start: "throttle_start sample_config (idle_throttle, (\<lambda>_. None), 0)"
  using sample_config_ok by (simp add: throttle_start_def new_throttle_def idle_throttle_def)

lemma sample_begin:
  "begin_attempt sample_config id ''h'' ''t'' ''e'' 0 idle_throttle =
     (\<lparr>dc_reservation = Some 0, dc_retry_after = None\<rparr>, sample_throttle)"
  using keys_differ [of "''h''" id "''t''" "''e''"]
  by (simp add: begin_attempt_def sample_config_def idle_throttle_def look_up_def active_window_def od_get_def
      over_limit_def List.map_filter_def no_room_def required_entries_def reserve_def window_for_def new_window_def
      add_attempts_def sample_throttle_def Let_def)

lemma sample_throttle_run:
  "reaches (throttle_step sample_config id) (idle_throttle, (\<lambda>_. None), 0) (sample_throttle, (\<lambda>_. None), 0)"
proof -
  have "throttle_step sample_config id (idle_throttle, (\<lambda>_. None), 0) (sample_throttle, (\<lambda>_. None), 0)"
    using throttle_begin [OF sample_begin, where clock = 0] by simp
  with reaches_refl show ?thesis by (rule reaches_step)
qed

theorem throttle_counts_attempts_witness:
  "card (holders (\<lambda>_. None) (th_reservations sample_throttle) (ip_key ''h'') 0) = 1"
proof -
  have "od_get (th_entries sample_throttle) (ip_key ''h'') = Some 0" by (simp add: sample_throttle_def od_get_def)
  from throttle_counts_attempts [OF sample_config_ok sample_throttle_start sample_throttle_run this]
  show ?thesis by (simp add: sample_throttle_def)
qed

text \<open>
  A refusal is honest: it reserves nothing, its Retry-After lies between one second and the length
  of the window, and an attempt made that much later, when the table has room, is let through.  (The
  clock must not have been overtaken by another attempt between its reading and the lock.)
\<close>

theorem refusals_are_honest:
  assumes "config_ok cfg" "throttle_inv cfg (th, outs, clock)" "clock \<le> now"
    and "begin_attempt cfg sha source tenant email now th = (d, th')" "dc_retry_after d = Some n"
  shows "dc_reservation d = None \<and> 1 \<le> n \<and> n \<le> tc_window_seconds cfg \<and>
    (\<forall>later. now + of_int n \<le> later \<longrightarrow> int (length (th_entries th')) + 2 \<le> tc_max_entries cfg \<longrightarrow>
       dc_reservation (fst (begin_attempt cfg sha source tenant email later th')) \<noteq> None)"
proof -
  have acc: "accounted nothing_owed outs clock th" and lim: "in_limits cfg th"
    using assms(2) by (simp_all add: throttle_inv_def)
  have window: "1 \<le> tc_window_seconds cfg" using assms(1) by (simp add: config_ok_def)
  have started: "aw_started_at (th_windows th' ! w) \<le> now" if "forgets th th'" "entry th' k = Some w" for k w
    using accountedD(3) [OF forgets_accounted [OF acc that(1)] that(2)] assms(3) by simp
  show ?thesis
    using assms(4) acc lim
  proof (cases rule: begin_attempt_cases)
    case (late ipw accw)
    let ?S = "set (over_limit cfg now ipw accw th')"
    have S: "finite ?S" "?S \<noteq> {}" using late(3) by simp_all
    have "x \<le> of_int (tc_window_seconds cfg)" if "x \<in> ?S" for x
      using that started [OF late(5)] late(6,7) remaining_bound unfolding over_limit_remaining by metis
    then have "Max ?S \<le> of_int (tc_window_seconds cfg)" using Max_in [OF S] by blast
    note wait = rounded_wait [OF window this]
    have n: "n = max 1 \<lceil>Max ?S\<rceil>" using late(4) assms(5) by (simp add: retry_def)
    have "remaining cfg later (th_windows th' ! w) \<le> 0" if "remaining cfg now (th_windows th' ! w) \<in> ?S"
      "now + of_int n \<le> later" for w later
    proof -
      have "remaining cfg now (th_windows th' ! w) \<le> of_int n" using Max_ge [OF S(1) that(1)] wait(3) n by simp
      then show ?thesis using that(2) by (simp add: remaining_def)
    qed
    then have "dc_reservation (fst (begin_attempt cfg sha source tenant email later th')) \<noteq> None"
      if "now + of_int n \<le> later" "int (length (th_entries th')) + 2 \<le> tc_max_entries cfg" for later
      using that late(5-7) by (intro let_through [OF late(1)]) (auto simp: over_limit_remaining forgets_def)
    then show ?thesis using wait(1,2) n late(4) by (simp add: retry_def)
  next
    case (full ipw accw)
    let ?rs = "map (\<lambda>e. remaining cfg now (th_windows th' ! snd e)) (th_entries th')"
    have "x \<le> of_int (tc_window_seconds cfg)" if x: "x \<in> set ?rs" for x
    proof -
      obtain k w where e: "(k, w) \<in> set (th_entries th')" "x = remaining cfg now (th_windows th' ! w)" using x by auto
      then have "entry th' k = Some w" using full(4) by (simp add: forgets_def od_get_def od_wf_def)
      then show ?thesis using started [OF full(4)] remaining_bound e(2) by blast
    qed
    then have "(case ?rs of [] \<Rightarrow> of_int (tc_window_seconds cfg) | rs \<Rightarrow> Min (set rs)) \<le> of_int (tc_window_seconds cfg)"
      using Min_in [of "set ?rs"] by (cases ?rs) (simp_all del: Min_le_iff)
    note wait = rounded_wait(1,2) [OF window this]
    have "n = capacity_retry_after cfg now th'" using full(3) assms(5) by (simp add: retry_def)
    then have "1 \<le> n" "n \<le> tc_window_seconds cfg" using wait unfolding capacity_retry_after_def by blast+
    moreover have "tc_max_entries cfg < int (length (th_entries th')) + 2"
      using full(2) by (auto simp: no_room_def required_entries_def split: if_splits)
    ultimately show ?thesis using full(3) by (auto simp: retry_def)
  next
    case (reserved th1)
    then show ?thesis using assms(5) by (auto simp: reserve_def Let_def split: prod.splits)
  qed (use assms(5) in simp)
qed

theorem refusals_are_honest_witness:
  "\<exists>n. dc_retry_after (fst (begin_attempt sample_config id ''h'' ''t'' ''e'' 5 sample_throttle)) = Some n \<and>
     1 \<le> n \<and> n \<le> 60"
proof -
  have inv: "throttle_inv sample_config (sample_throttle, (\<lambda>_. None), 0)"
    using throttle.reachable_inv [OF conjI [OF sample_config_ok sample_throttle_start] sample_throttle_run] by blast
  let ?b = "begin_attempt sample_config id ''h'' ''t'' ''e'' 5 sample_throttle"
  have "dc_retry_after (fst ?b) \<noteq> None"
    using keys_differ [of "''h''" id "''t''" "''e''"]
    by (simp add: begin_attempt_def sample_config_def sample_throttle_def look_up_def active_window_def od_get_def
        over_limit_def List.map_filter_def Let_def retry_def)
  then obtain n where "dc_retry_after (fst ?b) = Some n" by blast
  with refusals_are_honest [OF sample_config_ok inv _ surjective_pairing this] show ?thesis
    by (simp add: sample_config_def)
qed

end
