(* ===== verification/Csv.thy ===== *)
theory Csv
  imports Py_Text
begin

text \<open>
  \<open>csv.reader(io.StringIO(text, newline=""), strict=True)\<close> with the default dialect: the lines of a
  text with their untranslated ends, the character machine of the reader, and the records with the
  line number at which each one ended, up to the first error.
\<close>

subsection \<open>Lines\<close>

abbreviation lf :: char where "lf \<equiv> CHR 0x0A"
abbreviation cr :: char where "cr \<equiv> CHR 0x0D"

text \<open>The first line of a nonempty text, and the rest of the text.\<close>

fun next_line :: "string \<Rightarrow> string \<times> string" where
  "next_line [] = ([], [])"
| "next_line (c # cs) =
     (if c = lf then ([c], cs)
      else if c = cr then
        (if cs \<noteq> [] \<and> hd cs = lf then ([c, lf], tl cs) else ([c], cs))
      else (let (l, rest) = next_line cs in (c # l, rest)))"

lemma next_line_shorter: "length (snd (next_line (c # cs))) < Suc (length cs)"
proof (induction cs arbitrary: c)
  case (Cons d ds)
  show ?case using Cons [of d] by (auto simp: split_beta)
qed auto

function text_lines :: "string \<Rightarrow> string list" where
  "text_lines s = (if s = [] then [] else fst (next_line s) # text_lines (snd (next_line s)))"
  by pat_completeness auto
termination
proof (relation "measure length")
  fix s :: string assume "s \<noteq> []"
  then show "(snd (next_line s), s) \<in> measure length"
    using next_line_shorter [of "hd s" "tl s"] by (cases s) auto
qed simp

declare text_lines.simps [simp del]

lemma next_line_append: "fst (next_line s) @ snd (next_line s) = s"
  by (induction s rule: next_line.induct) (auto simp: split_beta, metis list.collapse)

lemma concat_text_lines: "concat (text_lines s) = s"
proof (induction s rule: text_lines.induct)
  case (1 s)
  then show ?case by (subst text_lines.simps) (simp add: next_line_append)
qed

subsection \<open>The character machine\<close>

datatype csv_state =
  START_RECORD | START_FIELD | IN_FIELD | IN_QUOTED_FIELD | QUOTE_IN_QUOTED_FIELD | EAT_CRNL

text \<open>The field being read is kept in reverse.\<close>

record csv_machine =
  cm_state :: csv_state
  cm_field :: string
  cm_fields :: "string list"

definition csv_start :: csv_machine where
  "csv_start = \<lparr>cm_state = START_RECORD, cm_field = [], cm_fields = []\<rparr>"

definition csv_field_limit :: nat where
  "csv_field_limit = 131072"

definition csv_add :: "char \<Rightarrow> csv_machine \<Rightarrow> csv_machine outcome" where
  "csv_add c m =
     (if csv_field_limit \<le> length (cm_field m) then Inl (ValueError ''field larger than field limit'')
      else Inr (m\<lparr>cm_field := c # cm_field m\<rparr>))"

definition csv_save :: "csv_state \<Rightarrow> csv_machine \<Rightarrow> csv_machine" where
  "csv_save state m = m\<lparr>cm_state := state, cm_fields := cm_fields m @ [rev (cm_field m)], cm_field := []\<rparr>"

text \<open>One character, or \<open>None\<close> at the end of a line.\<close>

definition after_field :: "char option \<Rightarrow> csv_state" where
  "after_field c = (case c of None \<Rightarrow> START_RECORD | Some _ \<Rightarrow> EAT_CRNL)"

definition ends_line :: "char option \<Rightarrow> bool" where
  "ends_line c = (case c of None \<Rightarrow> True | Some d \<Rightarrow> d = lf \<or> d = cr)"

definition csv_start_field :: "char option \<Rightarrow> csv_machine \<Rightarrow> csv_machine outcome" where
  "csv_start_field c m =
     (if ends_line c then Inr (csv_save (after_field c) m)
      else if c = Some CHR 0x22 then Inr (m\<lparr>cm_state := IN_QUOTED_FIELD\<rparr>)
      else if c = Some CHR '','' then Inr (csv_save START_FIELD m)
      else csv_add (the c) (m\<lparr>cm_state := IN_FIELD\<rparr>))"

definition csv_char :: "char option \<Rightarrow> csv_machine \<Rightarrow> csv_machine outcome" where
  "csv_char c m =
     (case cm_state m of
        START_RECORD \<Rightarrow>
          if c = None then Inr m
          else if ends_line c then Inr (m\<lparr>cm_state := EAT_CRNL\<rparr>)
          else csv_start_field c (m\<lparr>cm_state := START_FIELD\<rparr>)
      | START_FIELD \<Rightarrow> csv_start_field c m
      | IN_FIELD \<Rightarrow>
          if ends_line c then Inr (csv_save (after_field c) m)
          else if c = Some CHR '','' then Inr (csv_save START_FIELD m)
          else csv_add (the c) m
      | IN_QUOTED_FIELD \<Rightarrow>
          if c = None then Inr m
          else if c = Some CHR 0x22 then Inr (m\<lparr>cm_state := QUOTE_IN_QUOTED_FIELD\<rparr>)
          else csv_add (the c) m
      | QUOTE_IN_QUOTED_FIELD \<Rightarrow>
          if c = Some CHR 0x22 then csv_add CHR 0x22 (m\<lparr>cm_state := IN_QUOTED_FIELD\<rparr>)
          else if c = Some CHR '','' then Inr (csv_save START_FIELD m)
          else if ends_line c then Inr (csv_save (after_field c) m)
          else Inl (ValueError ''delimiter expected after quote'')
      | EAT_CRNL \<Rightarrow>
          if c = None then Inr (m\<lparr>cm_state := START_RECORD\<rparr>)
          else if ends_line c then Inr m
          else Inl (ValueError ''new-line character seen in unquoted field''))"

fun csv_chars :: "string \<Rightarrow> csv_machine \<Rightarrow> csv_machine outcome" where
  "csv_chars [] m = csv_char None m"
| "csv_chars (c # cs) m = and_then (csv_char (Some c) m) (csv_chars cs)"

subsection \<open>Records\<close>

text \<open>
  The records with the number of the line that ended each, and the error with its line number, if any,
  that ends the iteration.
\<close>

fun csv_records ::
    "string list \<Rightarrow> int \<Rightarrow> csv_machine \<Rightarrow> (int \<times> string list) list \<times> (int \<times> fault) option" where
  "csv_records [] line_num m =
     (if cm_field m \<noteq> [] \<or> cm_state m = IN_QUOTED_FIELD
      then ([], Some (line_num, ValueError ''unexpected end of data'')) else ([], None))"
| "csv_records (l # ls) line_num m =
     (case csv_chars l m of
        Inl e \<Rightarrow> ([], Some (line_num + 1, e))
      | Inr m' \<Rightarrow>
          if cm_state m' = START_RECORD then
            (let (rs, err) = csv_records ls (line_num + 1) csv_start
             in ((line_num + 1, cm_fields m') # rs, err))
          else csv_records ls (line_num + 1) m')"

definition read_csv :: "string \<Rightarrow> (int \<times> string list) list \<times> (int \<times> fault) option" where
  "read_csv s = csv_records (text_lines s) 0 csv_start"

text \<open>
  Records end on increasing lines, all after the line counted so far; an error lies on a later line
  than every record before it.
\<close>

lemma csv_records_lines:
  assumes "csv_records ls n m = (rs, err)"
  shows "sorted_wrt (<) (map fst rs) \<and> (\<forall>r \<in> set rs. n < fst r) \<and>
    (\<forall>k e. err = Some (k, e) \<longrightarrow> n \<le> k \<and> (m = csv_start \<longrightarrow> n < k) \<and> (\<forall>r \<in> set rs. fst r < k))"
  using assms
proof (induction ls n m arbitrary: rs err rule: csv_records.induct)
  case (2 l ls n m)
  show ?case
  proof (cases "csv_chars l m")
    case (Inr m')
    show ?thesis
    proof (cases "cm_state m' = START_RECORD")
      case True
      obtain rs' where rest: "csv_records ls (n + 1) csv_start = (rs', err)" "rs = (n + 1, cm_fields m') # rs'"
        using 2(3) Inr True by (auto split: prod.splits)
      show ?thesis using 2(1) [OF Inr True rest(1)] rest(2) by fastforce
    next
      case False
      then show ?thesis using 2(2) [OF Inr False] 2(3) Inr by fastforce
    qed
  qed (use 2(3) in auto)
qed (auto simp: csv_start_def split: if_splits)

end
