(* ===== verification/Catalog_Rows.thy ===== *)
theory Catalog_Rows
  imports Codes Json Csv Ordered_Dict
begin

text \<open>
  Reading a product-master CSV, \<open>parse_catalog_csv\<close> of \<open>services/catalog.py\<close> with the row schema of
  \<open>schemas/catalog.py\<close>: headers, attribute columns, normalization of each row, and the consistency of
  the rows with each other.  Decoding UTF-8 and parsing JSON are parameters.  The prose of an issue
  (\<open>message\<close>) is left out; its code, place, rejected value and evidence are kept.
\<close>

subsection \<open>Rows and issues\<close>

record catalog_row =
  cr_style_code :: string
  cr_style_name :: string
  cr_sku :: string
  cr_upc :: string
  cr_color :: string
  cr_size :: string
  cr_epc :: string
  cr_style_attributes :: json_object
  cr_attributes :: json_object

datatype issue_evidence =
    NoEvidence
  | ReceivedBytes nat
  | ByteOffset nat
  | Headers "string list"
  | ColumnCounts nat nat
  | FirstSeenAtRow int
  | ExistingSku string
  | ExistingStyle string

record issue =
  is_row :: "int option"
  is_field :: "string option"
  is_code :: string
  is_rejected :: "string option"
  is_evidence :: issue_evidence

text \<open>A row as it was read: its cells by header, the cells beyond the headers, the outcome.\<close>

type_synonym cells = "(string \<times> string) list"

record parsed_row =
  pr_number :: int
  pr_cells :: cells
  pr_extra :: "string list option"
  pr_data :: "catalog_row option"
  pr_issues :: "issue list"

record parse_result =
  pa_rows :: "parsed_row list"
  pa_issues :: "issue list"

record catalog_io =
  decode_utf8_sig :: "string \<Rightarrow> nat + string"
  json_loads :: "string \<Rightarrow> json outcome"

definition max_catalog_file_bytes :: nat where
  "max_catalog_file_bytes = 10 * 1024 * 1024"

definition max_catalog_rows :: nat where
  "max_catalog_rows = 100000"

definition max_attribute_bytes :: nat where
  "max_attribute_bytes = 16384"

definition required_headers :: "string list" where
  "required_headers = [''style_code'', ''style_name'', ''sku'', ''upc'', ''color'', ''size'', ''epc'']"

definition optional_headers :: "string list" where
  "optional_headers = [''attributes'', ''style_attributes'']"

definition file_issue :: "string \<Rightarrow> string \<Rightarrow> issue_evidence \<Rightarrow> issue" where
  "file_issue field code evidence =
     \<lparr>is_row = None, is_field = Some field, is_code = code, is_rejected = None, is_evidence = evidence\<rparr>"

definition safe_value :: "string option \<Rightarrow> string option" where
  "safe_value v = map_option (\<lambda>s. if length s \<le> 500 then s else take 497 s @ ''...'') v"

definition cell :: "string \<Rightarrow> cells \<Rightarrow> string" where
  "cell header cells = (case map_of cells header of None \<Rightarrow> '''' | Some v \<Rightarrow> v)"

definition row_issue :: "parsed_row \<Rightarrow> string \<Rightarrow> string \<Rightarrow> string option \<Rightarrow> issue_evidence \<Rightarrow> issue" where
  "row_issue row field code rejected evidence =
     \<lparr>is_row = Some (pr_number row), is_field = Some field, is_code = code, is_rejected = rejected,
      is_evidence = evidence\<rparr>"

subsection \<open>Attributes\<close>

definition parse_attributes :: "catalog_io \<Rightarrow> string \<Rightarrow> json_object outcome" where
  "parse_attributes io value =
     (let attributes_value = strip value
      in if attributes_value = [] then Inr []
         else if max_attribute_bytes < length attributes_value then Inl (ValueError ''UTF-8 bytes'')
         else and_then (json_loads io attributes_value) (\<lambda>decoded.
           case decoded of
             JObject members \<Rightarrow> and_then (validate_json_value decoded) (\<lambda>_. Inr members)
           | _ \<Rightarrow> Inl (ValueError ''must contain a JSON object'')))"

definition is_attribute_header :: "string \<Rightarrow> bool" where
  "is_attribute_header header \<longleftrightarrow> prefix ''attr.'' header"

fun add_attribute_columns :: "cells \<Rightarrow> string list \<Rightarrow> json_object \<Rightarrow> json_object outcome" where
  "add_attribute_columns cells [] attributes = Inr attributes"
| "add_attribute_columns cells (header # headers) attributes =
     (let value = strip (cell header cells); name = drop 5 header
      in if value = [] then add_attribute_columns cells headers attributes
         else if (case map_of attributes name of None \<Rightarrow> False | Some old \<Rightarrow> \<not> json_same old (JString value))
         then Inl (ValueError ''is defined differently in attributes'')
         else add_attribute_columns cells headers (od_set name (JString value) attributes))"

definition canonical_attributes :: "catalog_io \<Rightarrow> cells \<Rightarrow> string list \<Rightarrow> json_object outcome" where
  "canonical_attributes io cells attribute_headers =
     and_then (parse_attributes io (cell ''attributes'' cells))
       (add_attribute_columns cells attribute_headers)"

subsection \<open>The row schema\<close>

text \<open>The validated row, or the fields that fail, in the order of the schema.\<close>

definition failing :: "string \<Rightarrow> 'a outcome \<Rightarrow> string list" where
  "failing field r = (if is_ok r then [] else [field])"

fun accepted :: "string outcome \<Rightarrow> string" where
  "accepted (Inr s) = s"
| "accepted (Inl e) = ''''"

definition validate_catalog_row :: "catalog_row \<Rightarrow> string list + catalog_row" where
  "validate_catalog_row c =
     (let style_code = normalize_product_code 64 (cr_style_code c);
          style_name = normalize_label 255 (cr_style_name c);
          sku = normalize_product_code 128 (cr_sku c);
          upc = normalize_upc (cr_upc c);
          color = normalize_label 128 (cr_color c);
          size = normalize_label 64 (cr_size c);
          epc = normalize_epc (cr_epc c);
          failures = failing ''style_code'' style_code @ failing ''style_name'' style_name @
            failing ''sku'' sku @ failing ''upc'' upc @ failing ''color'' color @ failing ''size'' size @
            failing ''epc'' epc
      in if failures \<noteq> [] then Inl failures
         else Inr (c\<lparr>cr_style_code := accepted style_code, cr_style_name := accepted style_name,
                     cr_sku := accepted sku, cr_upc := accepted upc, cr_color := accepted color,
                     cr_size := accepted size, cr_epc := accepted epc\<rparr>))"

definition validation_issues :: "parsed_row \<Rightarrow> string list \<Rightarrow> issue list" where
  "validation_issues row failures =
     map (\<lambda>field. row_issue row field ''invalid_field'' (safe_value (map_of (pr_cells row) field)) NoEvidence)
       failures"

subsection \<open>Headers\<close>

definition header_issues :: "string list \<Rightarrow> issue list" where
  "header_issues headers =
     (let duplicates = sort (remdups (filter (\<lambda>h. 1 < count_list headers h) headers));
          missing = sort (filter (\<lambda>h. h \<notin> set headers) required_headers);
          unexpected = sort (filter (\<lambda>h. h \<notin> set required_headers \<and> h \<notin> set optional_headers \<and>
                                         \<not> is_attribute_header h) headers)
      in (if [] \<in> set headers then [file_issue ''header'' ''blank_header'' NoEvidence] else []) @
         (if duplicates \<noteq> [] then [file_issue ''header'' ''duplicate_header'' (Headers duplicates)] else []) @
         (if missing \<noteq> [] then [file_issue ''header'' ''missing_header'' (Headers missing)] else []) @
         (if unexpected \<noteq> [] then [file_issue ''header'' ''unexpected_header'' (Headers unexpected)] else []) @
         (if ''attr.'' \<in> set headers then [file_issue ''header'' ''invalid_attribute_header'' NoEvidence] else []))"

subsection \<open>Data rows\<close>

definition row_cells :: "string list \<Rightarrow> string list \<Rightarrow> cells" where
  "row_cells headers values = zip headers (values @ replicate (length headers - length values) [])"

definition candidate_row :: "cells \<Rightarrow> json_object \<Rightarrow> json_object \<Rightarrow> catalog_row" where
  "candidate_row cells style_attributes attributes =
     \<lparr>cr_style_code = cell ''style_code'' cells, cr_style_name = cell ''style_name'' cells,
      cr_sku = cell ''sku'' cells, cr_upc = cell ''upc'' cells, cr_color = cell ''color'' cells,
      cr_size = cell ''size'' cells, cr_epc = cell ''epc'' cells,
      cr_style_attributes = style_attributes, cr_attributes = attributes\<rparr>"

definition parse_row :: "catalog_io \<Rightarrow> string list \<Rightarrow> int \<times> string list \<Rightarrow> parsed_row" where
  "parse_row io headers r =
     (let (row_number, values) = r;
          cells = row_cells headers values;
          row = \<lparr>pr_number = row_number, pr_cells = cells,
                 pr_extra = (if length headers < length values then Some (drop (length headers) values) else None),
                 pr_data = None, pr_issues = []\<rparr>
      in if length values \<noteq> length headers then
           row\<lparr>pr_issues := [row_issue row ''row'' ''column_count_mismatch'' None
                                (ColumnCounts (length headers) (length values))]\<rparr>
         else case canonical_attributes io cells (filter is_attribute_header headers) of
           Inl e \<Rightarrow> row\<lparr>pr_issues := [row_issue row ''attributes'' ''invalid_attributes''
                                         (safe_value (map_of cells ''attributes'')) NoEvidence]\<rparr>
         | Inr attributes \<Rightarrow>
           (case parse_attributes io (cell ''style_attributes'' cells) of
              Inl e \<Rightarrow> row\<lparr>pr_issues := [row_issue row ''style_attributes'' ''invalid_style_attributes''
                                            (safe_value (map_of cells ''style_attributes'')) NoEvidence]\<rparr>
            | Inr style_attributes \<Rightarrow>
                (case validate_catalog_row (candidate_row cells style_attributes attributes) of
                   Inl failures \<Rightarrow> row\<lparr>pr_issues := validation_issues row failures\<rparr>
                 | Inr data \<Rightarrow> row\<lparr>pr_data := Some data\<rparr>)))"

definition blank_values :: "string list \<Rightarrow> bool" where
  "blank_values values \<longleftrightarrow> list_all (\<lambda>v. strip v = []) values"

text \<open>The loop over the records; the flag tells that it stopped at the row limit.\<close>

fun collect_rows ::
    "(int \<times> string list \<Rightarrow> parsed_row) \<Rightarrow> nat \<Rightarrow> (int \<times> string list) list \<Rightarrow> parsed_row list \<times> bool" where
  "collect_rows parse count [] = ([], False)"
| "collect_rows parse count (r # rs) =
     (if blank_values (snd r) then collect_rows parse count rs
      else if max_catalog_rows \<le> count then ([], True)
      else (let (rows, over) = collect_rows parse (Suc count) rs in (parse r # rows, over)))"

definition data_issues :: "bool \<Rightarrow> (int \<times> fault) option \<Rightarrow> issue list" where
  "data_issues over err =
     (if over then [file_issue ''file'' ''too_many_rows'' NoEvidence]
      else case err of
        None \<Rightarrow> []
      | Some (line_num, _) \<Rightarrow>
          [\<lparr>is_row = Some line_num, is_field = Some ''row'', is_code = ''malformed_csv'', is_rejected = None,
            is_evidence = NoEvidence\<rparr>])"

subsection \<open>Consistency of the rows of one import\<close>

type_synonym 's first_seen = "string \<rightharpoonup> int \<times> 's"

record seen =
  sn_styles :: "(string \<times> json) first_seen"
  sn_skus :: "(string \<times> string \<times> string \<times> string \<times> json) first_seen"
  sn_upcs :: "string first_seen"
  sn_epcs :: "string first_seen"

definition nothing_seen :: seen where
  "nothing_seen = \<lparr>sn_styles = Map.empty, sn_skus = Map.empty, sn_upcs = Map.empty, sn_epcs = Map.empty\<rparr>"

definition style_signature :: "catalog_row \<Rightarrow> string \<times> json" where
  "style_signature d = (cr_style_name d, json_canon (JObject (cr_style_attributes d)))"

definition sku_signature :: "catalog_row \<Rightarrow> string \<times> string \<times> string \<times> string \<times> json" where
  "sku_signature d =
     (cr_style_code d, cr_upc d, cr_color d, cr_size d, json_canon (JObject (cr_attributes d)))"

text \<open>The row of an earlier entry with another signature, and the dictionary afterwards.\<close>

definition see :: "string \<Rightarrow> int \<Rightarrow> 's \<Rightarrow> 's first_seen \<Rightarrow> int option \<times> 's first_seen" where
  "see k row_number signature m =
     (case m k of
        None \<Rightarrow> (None, m(k \<mapsto> (row_number, signature)))
      | Some (first, prior) \<Rightarrow> (if prior \<noteq> signature then Some first else None, m))"

definition conflict :: "parsed_row \<Rightarrow> string \<Rightarrow> string \<Rightarrow> int option \<Rightarrow> issue list" where
  "conflict row field code first_row =
     (case first_row of
        None \<Rightarrow> []
      | Some first \<Rightarrow> [row_issue row field code (safe_value (map_of (pr_cells row) field)) (FirstSeenAtRow first)])"

definition check_row :: "parsed_row \<Rightarrow> seen \<Rightarrow> parsed_row \<times> seen" where
  "check_row row sn =
     (case pr_data row of
        None \<Rightarrow> (row, sn)
      | Some d \<Rightarrow>
          (let (style_first, styles) = see (cr_style_code d) (pr_number row) (style_signature d) (sn_styles sn);
               (sku_first, skus) = see (cr_sku d) (pr_number row) (sku_signature d) (sn_skus sn);
               (upc_first, upcs) = see (cr_upc d) (pr_number row) (cr_sku d) (sn_upcs sn);
               (epc_issues, epcs) =
                 (case sn_epcs sn (cr_epc d) of
                    None \<Rightarrow> ([], (sn_epcs sn)(cr_epc d \<mapsto> (pr_number row, cr_sku d)))
                  | Some (first, prior) \<Rightarrow>
                      (conflict row ''epc'' (if prior = cr_sku d then ''duplicate_epc'' else ''epc_conflict'')
                         (Some first), sn_epcs sn))
           in (row\<lparr>pr_issues := pr_issues row @
                    conflict row ''style_code'' ''style_definition_conflict'' style_first @
                    conflict row ''sku'' ''sku_definition_conflict'' sku_first @
                    conflict row ''upc'' ''upc_conflict'' upc_first @ epc_issues\<rparr>,
               \<lparr>sn_styles = styles, sn_skus = skus, sn_upcs = upcs, sn_epcs = epcs\<rparr>)))"

fun check_rows :: "seen \<Rightarrow> parsed_row list \<Rightarrow> parsed_row list" where
  "check_rows sn [] = []"
| "check_rows sn (row # rows) = (let (row', sn') = check_row row sn in row' # check_rows sn' rows)"

definition validate_batch_consistency :: "parse_result \<Rightarrow> parse_result" where
  "validate_batch_consistency p = p\<lparr>pa_rows := check_rows nothing_seen (pa_rows p)\<rparr>"

subsection \<open>The parser\<close>

definition refuse_file :: "issue list \<Rightarrow> parse_result" where
  "refuse_file issues = \<lparr>pa_rows = [], pa_issues = issues\<rparr>"

definition parse_data :: "catalog_io \<Rightarrow> string list \<Rightarrow> (int \<times> string list) list \<Rightarrow> (int \<times> fault) option \<Rightarrow> parse_result" where
  "parse_data io headers records err =
     (let (rows, over) = collect_rows (parse_row io headers) 0 records;
          issues = data_issues over err;
          all_issues = (if rows = [] \<and> issues = [] then [file_issue ''file'' ''no_data_rows'' NoEvidence] else issues)
      in validate_batch_consistency \<lparr>pa_rows = rows, pa_issues = all_issues\<rparr>)"

definition parse_catalog_csv :: "catalog_io \<Rightarrow> string \<Rightarrow> parse_result" where
  "parse_catalog_csv io content =
     (if max_catalog_file_bytes < length content then
        refuse_file [file_issue ''file'' ''file_too_large'' (ReceivedBytes (length content))]
      else if content = [] then refuse_file [file_issue ''file'' ''empty_file'' NoEvidence]
      else case decode_utf8_sig io content of
        Inl offset \<Rightarrow> refuse_file [file_issue ''file'' ''invalid_encoding'' (ByteOffset offset)]
      | Inr text_content \<Rightarrow>
          if CHR 0x00 \<in> set text_content then refuse_file [file_issue ''file'' ''invalid_character'' NoEvidence]
          else case read_csv text_content of
            ([], None) \<Rightarrow> refuse_file [file_issue ''file'' ''empty_file'' NoEvidence]
          | ([], Some _) \<Rightarrow> refuse_file [file_issue ''file'' ''malformed_csv'' NoEvidence]
          | (raw_headers # records, err) \<Rightarrow>
              (let headers = map (\<lambda>h. str_lower (strip h)) (snd raw_headers)
               in if header_issues headers \<noteq> [] then refuse_file (header_issues headers)
                  else parse_data io headers records err))"

definition normalized_rows :: "parsed_row list \<Rightarrow> catalog_row list" where
  "normalized_rows rows =
     map (\<lambda>row. the (pr_data row)) (filter (\<lambda>row. pr_data row \<noteq> None \<and> pr_issues row = []) rows)"

subsection \<open>Consistent rows\<close>

text \<open>What a catalog needs of its rows: one definition per style and per SKU, one SKU per UPC, one row per EPC.\<close>

definition compatible :: "catalog_row \<Rightarrow> catalog_row \<Rightarrow> bool" where
  "compatible d e \<longleftrightarrow>
     (cr_style_code d = cr_style_code e \<longrightarrow> style_signature d = style_signature e) \<and>
     (cr_sku d = cr_sku e \<longrightarrow> sku_signature d = sku_signature e) \<and>
     (cr_upc d = cr_upc e \<longrightarrow> cr_sku d = cr_sku e)"

definition consistent :: "catalog_row list \<Rightarrow> bool" where
  "consistent ds \<longleftrightarrow> (\<forall>d \<in> set ds. \<forall>e \<in> set ds. compatible d e) \<and> distinct (map cr_epc ds)"

lemma compatible_refl: "compatible d d"
  by (simp add: compatible_def)

lemma compatible_sym: "compatible d e \<Longrightarrow> compatible e d"
  by (auto simp: compatible_def)

lemma consistent_Cons:
  "consistent ds \<Longrightarrow> (\<And>e. e \<in> set ds \<Longrightarrow> compatible d e \<and> cr_epc d \<noteq> cr_epc e) \<Longrightarrow> consistent (d # ds)"
  unfolding consistent_def by (auto simp: compatible_refl compatible_sym)

lemma consistentD:
  assumes "consistent ds" "d \<in> set ds" "e \<in> set ds"
  shows "cr_style_code d = cr_style_code e \<Longrightarrow> style_signature d = style_signature e"
    "cr_sku d = cr_sku e \<Longrightarrow> sku_signature d = sku_signature e"
    "cr_upc d = cr_upc e \<Longrightarrow> cr_sku d = cr_sku e"
    "cr_epc d = cr_epc e \<Longrightarrow> d = e"
  using assms unfolding consistent_def compatible_def distinct_map by (blast dest: inj_onD)+

definition noted :: "'s first_seen \<Rightarrow> string \<Rightarrow> 's option" where
  "noted m k = map_option snd (m k)"

definition agrees :: "seen \<Rightarrow> catalog_row \<Rightarrow> bool" where
  "agrees sn d \<longleftrightarrow>
     noted (sn_styles sn) (cr_style_code d) \<in> {None, Some (style_signature d)} \<and>
     noted (sn_skus sn) (cr_sku d) \<in> {None, Some (sku_signature d)} \<and>
     noted (sn_upcs sn) (cr_upc d) \<in> {None, Some (cr_sku d)} \<and> noted (sn_epcs sn) (cr_epc d) = None"

definition records :: "seen \<Rightarrow> catalog_row \<Rightarrow> bool" where
  "records sn d \<longleftrightarrow>
     noted (sn_styles sn) (cr_style_code d) = Some (style_signature d) \<and>
     noted (sn_skus sn) (cr_sku d) = Some (sku_signature d) \<and>
     noted (sn_upcs sn) (cr_upc d) = Some (cr_sku d) \<and> noted (sn_epcs sn) (cr_epc d) \<noteq> None"

lemma see_agrees: "see k n s m = (None, m') \<Longrightarrow> noted m k \<in> {None, Some s} \<and> noted m' k = Some s"
  by (auto simp: see_def noted_def split: option.splits if_splits)

lemma see_keeps: "see k n s m = (first, m') \<Longrightarrow> noted m' j \<in> {None, Some x} \<Longrightarrow> noted m j \<in> {None, Some x}"
  by (auto simp: see_def noted_def split: option.splits if_splits)

lemma conflict_Nil_iff [simp]: "conflict row field code first = [] \<longleftrightarrow> first = None"
  by (simp add: conflict_def split: option.split)

lemma check_row_frame [simp]:
  "pr_number (fst (check_row row sn)) = pr_number row" "pr_data (fst (check_row row sn)) = pr_data row"
  by (auto simp: check_row_def split: option.splits prod.splits)

lemma check_row_cases [consumes 1, case_names skip check]:
  assumes "check_row row sn = (row', sn')"
  obtains "pr_data row = None" "row' = row" "sn' = sn"
  | d f1 m1 f2 m2 f3 m3 epc_issues m4 where "pr_data row = Some d"
    "see (cr_style_code d) (pr_number row) (style_signature d) (sn_styles sn) = (f1, m1)"
    "see (cr_sku d) (pr_number row) (sku_signature d) (sn_skus sn) = (f2, m2)"
    "see (cr_upc d) (pr_number row) (cr_sku d) (sn_upcs sn) = (f3, m3)"
    "epc_issues = [] \<longrightarrow> noted (sn_epcs sn) (cr_epc d) = None"
    "noted m4 (cr_epc d) \<noteq> None" "\<And>k. noted m4 k = None \<Longrightarrow> noted (sn_epcs sn) k = None"
    "sn' = \<lparr>sn_styles = m1, sn_skus = m2, sn_upcs = m3, sn_epcs = m4\<rparr>"
    "row' = row\<lparr>pr_issues := pr_issues row @ conflict row ''style_code'' ''style_definition_conflict'' f1 @
       conflict row ''sku'' ''sku_definition_conflict'' f2 @ conflict row ''upc'' ''upc_conflict'' f3 @ epc_issues\<rparr>"
proof (cases "pr_data row")
  case None
  then show ?thesis using that(1) assms by (simp add: check_row_def)
next
  case (Some d)
  obtain f1 m1 where s1: "see (cr_style_code d) (pr_number row) (style_signature d) (sn_styles sn) = (f1, m1)" by fastforce
  obtain f2 m2 where s2: "see (cr_sku d) (pr_number row) (sku_signature d) (sn_skus sn) = (f2, m2)" by fastforce
  obtain f3 m3 where s3: "see (cr_upc d) (pr_number row) (cr_sku d) (sn_upcs sn) = (f3, m3)" by fastforce
  show ?thesis
  proof (cases "sn_epcs sn (cr_epc d)")
    case None
    then show ?thesis
      using assms Some s1 s2 s3
      by (intro that(2) [OF Some s1 s2 s3, of "[]" "(sn_epcs sn)(cr_epc d \<mapsto> (pr_number row, cr_sku d))"])
        (auto simp: check_row_def noted_def split: if_splits)
  next
    case seen: (Some p)
    then show ?thesis
      using assms Some s1 s2 s3
      by (intro that(2) [OF Some s1 s2 s3, of "conflict row ''epc''
            (if snd p = cr_sku d then ''duplicate_epc'' else ''epc_conflict'') (Some (fst p))" "sn_epcs sn"])
        (auto simp: check_row_def noted_def split_beta)
  qed
qed

lemma check_row_accepts:
  assumes "check_row row sn = (row', sn')" "pr_data row' = Some d" "pr_issues row' = []"
  shows "agrees sn d \<and> records sn' d"
  using assms(1)
proof (cases rule: check_row_cases)
  case (check d' f1 m1 f2 m2 f3 m3 epc_issues m4)
  then have "d' = d" "f1 = None" "f2 = None" "f3 = None" "epc_issues = []" using assms(2,3) by auto
  then show ?thesis
    using check(5,6,8) see_agrees [OF check(2) [unfolded \<open>f1 = None\<close>]] see_agrees [OF check(3) [unfolded \<open>f2 = None\<close>]]
      see_agrees [OF check(4) [unfolded \<open>f3 = None\<close>]]
    unfolding agrees_def records_def by simp
qed (use assms(2) in simp)

lemma agrees_before:
  assumes "check_row row sn = (row', sn')" "agrees sn' e"
  shows "agrees sn e"
  using assms(1)
proof (cases rule: check_row_cases)
  case (check d f1 m1 f2 m2 f3 m3 epc_issues m4)
  then show "agrees sn e"
    using assms(2) check(7,8) see_keeps [OF check(2)] see_keeps [OF check(3)] see_keeps [OF check(4)]
    unfolding agrees_def by simp
qed (use assms(2) in simp)

lemma records_agree:
  assumes "records sn d" "agrees sn e"
  shows "compatible d e \<and> cr_epc d \<noteq> cr_epc e"
  using assms unfolding records_def agrees_def compatible_def by auto

lemma normalized_rows_Cons:
  "normalized_rows (row # rows) =
     (if pr_data row \<noteq> None \<and> pr_issues row = [] then [the (pr_data row)] else []) @ normalized_rows rows"
  by (simp add: normalized_rows_def)

lemma check_rows_ok:
  "consistent (normalized_rows (check_rows sn rows)) \<and>
   list_all (agrees sn) (normalized_rows (check_rows sn rows))"
proof (induction rows arbitrary: sn)
  case Nil
  then show ?case by (simp add: normalized_rows_def consistent_def)
next
  case (Cons row rows)
  obtain row' sn' where row: "check_row row sn = (row', sn')" by fastforce
  let ?ds = "normalized_rows (check_rows sn' rows)"
  have tail: "consistent ?ds" "list_all (agrees sn') ?ds" using Cons by auto
  then have before: "list_all (agrees sn) ?ds"
    using agrees_before [OF row] by (simp add: list_all_iff)
  show ?case
  proof (cases "pr_data row' \<noteq> None \<and> pr_issues row' = []")
    case True
    then obtain d where d: "pr_data row' = Some d" "pr_issues row' = []" by auto
    have accepted: "agrees sn d" "records sn' d" using check_row_accepts [OF row d] by simp_all
    have "consistent (d # ?ds)"
      using tail(2) records_agree [OF accepted(2)] by (intro consistent_Cons [OF tail(1)]) (simp add: list_all_iff)
    then show ?thesis using row d accepted(1) before by (simp add: normalized_rows_Cons)
  next
    case False
    then show ?thesis using row tail(1) before by (auto simp: normalized_rows_Cons)
  qed
qed

lemma refused_rows [simp]: "pa_rows (refuse_file issues) = []" "pa_issues (refuse_file issues) = issues"
  by (simp_all add: refuse_file_def)

text \<open>Every result of the parser is a refused file or the result of reading its data.\<close>

lemma parse_catalog_csv_cases [case_names refused parsed]:
  obtains issues where "parse_catalog_csv io content = refuse_file issues" "issues \<noteq> []"
    "list_all (\<lambda>i. is_row i = None) issues"
  | s raw_headers records err where "decode_utf8_sig io content = Inr s"
    "read_csv s = (raw_headers # records, err)"
    "header_issues (map (\<lambda>h. str_lower (strip h)) (snd raw_headers)) = []"
    "parse_catalog_csv io content = parse_data io (map (\<lambda>h. str_lower (strip h)) (snd raw_headers)) records err"
proof -
  have header_rows: "list_all (\<lambda>i. is_row i = None) (header_issues hs)" for hs
    by (auto simp: header_issues_def file_issue_def Let_def)
  show ?thesis
  proof (cases "\<exists>issues. parse_catalog_csv io content = refuse_file issues \<and> issues \<noteq> [] \<and>
      list_all (\<lambda>i. is_row i = None) issues")
    case False
    then show ?thesis
      using header_rows
      by (auto simp: parse_catalog_csv_def file_issue_def Let_def intro: that(2)
          split: sum.splits prod.splits list.splits option.splits if_splits)
  qed (use that(1) in blast)
qed

lemma parsed_rows_consistent: "consistent (normalized_rows (pa_rows (parse_catalog_csv io content)))"
proof (cases rule: parse_catalog_csv_cases [of io content])
  case (refused issues)
  then show ?thesis by (simp add: normalized_rows_def consistent_def)
next
  case (parsed s raw_headers rs err)
  then show ?thesis
    using check_rows_ok [of nothing_seen]
    by (simp add: parse_data_def validate_batch_consistency_def Let_def split: prod.split)
qed

subsection \<open>Canonical rows\<close>

abbreviation no_spaces :: "string \<Rightarrow> bool" where
  "no_spaces w \<equiv> list_all (\<lambda>c. \<not> is_space c) w"

lemma split_words_ok: "no_spaces acc \<Longrightarrow> w \<in> set (split_words acc s) \<Longrightarrow> w \<noteq> [] \<and> no_spaces w"
  by (induction acc s rule: split_words.induct) (auto split: if_splits)

lemma split_words_word: "no_spaces w \<Longrightarrow> split_words acc (w @ rest) = split_words (rev w @ acc) rest"
  by (induction w arbitrary: acc) simp_all

lemma split_words_tail:
  "list_all (\<lambda>w. w \<noteq> [] \<and> no_spaces w) ws \<Longrightarrow> acc \<noteq> [] \<Longrightarrow>
     split_words acc (concat (map (\<lambda>v. CHR '' '' # v) ws)) = rev acc # ws"
  by (induction ws arbitrary: acc) (simp_all add: split_words_word is_space_def)

lemma split_join_words:
  assumes "list_all (\<lambda>w. w \<noteq> [] \<and> no_spaces w) ws"
  shows "split_words [] (join_words ws) = ws"
  using assms split_words_tail [of "tl ws" "rev (hd ws)"] by (cases ws) (simp_all add: split_words_word)

lemma strip_fixed:
  assumes "s \<noteq> []" "\<not> is_space (hd s)" "\<not> is_space (last s)"
  shows "strip s = s"
proof -
  have "dropWhile is_space t = t" if "t \<noteq> []" "\<not> is_space (hd t)" for t
    using that by (cases t) simp_all
  then show ?thesis using assms by (simp add: strip_def hd_rev)
qed

lemma strip_join_words:
  assumes "list_all (\<lambda>w. w \<noteq> [] \<and> no_spaces w) ws"
  shows "strip (join_words ws) = join_words ws"
proof (cases ws)
  case (Cons w vs)
  have "\<not> is_space (hd (join_words ws))" using assms Cons by (cases w) simp_all
  moreover have "\<not> is_space (last (w @ concat (map (\<lambda>v. CHR '' '' # v) vs)))"
    if "list_all (\<lambda>w. w \<noteq> [] \<and> no_spaces w) (w # vs)" for w vs
    using that
  proof (induction vs arbitrary: w)
    case Nil
    then show ?case by (cases w rule: rev_cases) simp_all
  next
    case (Cons v vs)
    then show ?case by simp
  qed
  ultimately show ?thesis using assms Cons by (intro strip_fixed) simp_all
qed (simp add: strip_def)

lemma normalize_label_idem: "normalize_label n v = Inr s \<Longrightarrow> normalize_label n s = Inr s"
proof -
  assume ok: "normalize_label n v = Inr s"
  define ws where "ws = split_words [] (strip v)"
  have ws: "list_all (\<lambda>w. w \<noteq> [] \<and> no_spaces w) ws"
    using split_words_ok [of "[]"] by (simp add: ws_def list_all_iff)
  have "s = join_words ws" "s \<noteq> []" "length s \<le> n"
    using ok by (auto simp: normalize_label_def ws_def Let_def split: if_splits)
  then show ?thesis using strip_join_words [OF ws] split_join_words [OF ws] by (simp add: normalize_label_def)
qed

lemma normalize_product_code_idem:
  assumes "normalize_product_code n v = Inr s"
  shows "normalize_product_code n s = Inr s"
proof -
  have s: "s \<noteq> []" "length s \<le> n" "product_code_pattern s"
    using assms by (auto simp: normalize_product_code_def Let_def split: if_splits)
  then have chars: "list_all code_char s"
    by (cases s) (auto simp: product_code_pattern_def code_char_def)
  then have "strip s = s" using not_space(3) by (intro strip_no_space) (simp add: list_all_iff)
  then show ?thesis using s chars by (simp add: normalize_product_code_def str_upper_fixed)
qed

lemma normalize_upc_idem: "normalize_upc v = Inr s \<Longrightarrow> normalize_upc s = Inr s"
  using upc_keeps [of s] unfolding normalize_upc_Inr_iff by metis

lemma failing_Nil_iff [simp]: "failing field r = [] \<longleftrightarrow> (\<exists>s. r = Inr s)"
  by (cases r) (simp_all add: failing_def)

lemma validate_catalog_row_InrD:
  assumes "validate_catalog_row c = Inr d"
  shows "normalize_product_code 64 (cr_style_code c) = Inr (cr_style_code d)"
    "normalize_label 255 (cr_style_name c) = Inr (cr_style_name d)"
    "normalize_product_code 128 (cr_sku c) = Inr (cr_sku d)" "normalize_upc (cr_upc c) = Inr (cr_upc d)"
    "normalize_label 128 (cr_color c) = Inr (cr_color d)" "normalize_label 64 (cr_size c) = Inr (cr_size d)"
    "normalize_epc (cr_epc c) = Inr (cr_epc d)"
    "cr_style_attributes d = cr_style_attributes c" "cr_attributes d = cr_attributes c"
  using assms by (auto simp: validate_catalog_row_def Let_def split: if_splits)

definition canonical_row :: "catalog_row \<Rightarrow> bool" where
  "canonical_row d \<longleftrightarrow> validate_catalog_row d = Inr d"

lemma validated_row_canonical:
  assumes "validate_catalog_row c = Inr d"
  shows "canonical_row d"
proof -
  note fields = validate_catalog_row_InrD [OF assms]
  show ?thesis
    unfolding canonical_row_def validate_catalog_row_def Let_def
    by (simp add: failing_def normalize_product_code_idem [OF fields(1)] normalize_label_idem [OF fields(2)]
        normalize_product_code_idem [OF fields(3)] normalize_upc_idem [OF fields(4)]
        normalize_label_idem [OF fields(5)] normalize_label_idem [OF fields(6)] normalize_epc_idem [OF fields(7)])
qed

text \<open>What the code relies on of \<open>json.loads\<close>: the keys of the dictionaries it returns are distinct.\<close>

definition io_ok :: "catalog_io \<Rightarrow> bool" where
  "io_ok io \<longleftrightarrow> (\<forall>s j. json_loads io s = Inr j \<longrightarrow> json_wf j)"

definition row_ok :: "catalog_row \<Rightarrow> bool" where
  "row_ok d \<longleftrightarrow> canonical_row d \<and> object_wf (cr_style_attributes d) \<and> object_wf (cr_attributes d)"

lemma object_case_Inr:
  "(case j of JObject ms \<Rightarrow> f ms | _ \<Rightarrow> Inl e) = Inr x \<longleftrightarrow> (\<exists>ms. j = JObject ms \<and> f ms = Inr x)"
  by (cases j) simp_all

lemma parse_attributes_wf:
  assumes "io_ok io" "parse_attributes io v = Inr ms"
  shows "object_wf ms"
proof (cases "ms = []")
  case False
  then obtain decoded where "json_loads io (strip v) = Inr decoded" "decoded = JObject ms"
    using assms(2) by (auto simp: parse_attributes_def Let_def and_then_Inr_iff object_case_Inr split: if_splits)
  then show ?thesis using assms(1) unfolding io_ok_def by blast
qed simp

lemma object_wf_set: "object_wf ms \<Longrightarrow> object_wf (od_set k (JString v) ms)"
  by (induction k "JString v" ms rule: od_set.induct) (auto simp: od_simps od_keys_def [symmetric])

lemma add_attribute_columns_wf: "add_attribute_columns cells hs ms = Inr ns \<Longrightarrow> object_wf ms \<Longrightarrow> object_wf ns"
proof (induction cells hs ms rule: add_attribute_columns.induct)
  case (2 cells h hs ms)
  then show ?case using object_wf_set [of ms] by (simp add: Let_def split: if_splits)
qed simp

lemma parsed_row_ok:
  assumes "io_ok io" "pr_data (parse_row io headers r) = Some d"
  shows "row_ok d"
proof -
  obtain cells attrs sattrs hs where d: "canonical_attributes io cells hs = Inr attrs"
    "parse_attributes io (cell ''style_attributes'' cells) = Inr sattrs"
    "validate_catalog_row (candidate_row cells sattrs attrs) = Inr d"
    using assms(2) by (auto simp: parse_row_def Let_def split: prod.splits if_splits sum.splits)
  have "object_wf sattrs" "object_wf attrs"
    using d(1,2) parse_attributes_wf [OF assms(1)] add_attribute_columns_wf
    by (auto simp: canonical_attributes_def and_then_Inr_iff simp del: json_wf.simps)
  then show ?thesis
    using validated_row_canonical [OF d(3)] validate_catalog_row_InrD(8,9) [OF d(3)]
    by (simp add: row_ok_def candidate_row_def del: json_wf.simps)
qed

subsection \<open>Numbers of rows and issues\<close>

lemma collect_rows_from:
  "collect_rows parse n rs = (rows, over) \<Longrightarrow> \<exists>rs'. subseq rs' rs \<and> rows = map parse rs'"
proof (induction rs arbitrary: n rows over)
  case (Cons r rs)
  show ?case
  proof (cases "blank_values (snd r) \<or> max_catalog_rows \<le> n")
    case True
    then show ?thesis using Cons.prems Cons.IH [of n rows over] by (auto split: if_splits intro: list_emb_Cons)
  next
    case False
    then obtain rows' where "collect_rows parse (Suc n) rs = (rows', over)" "rows = parse r # rows'"
      using Cons.prems by (auto split: prod.splits)
    then obtain rs' where "subseq rs' rs" "rows = map parse (r # rs')" using Cons.IH by fastforce
    then show ?thesis by (intro exI [of _ "r # rs'"]) simp
  qed
qed simp

lemma parse_row_number [simp]: "pr_number (parse_row io headers r) = fst r"
  by (simp add: parse_row_def Let_def split: prod.split sum.split)

definition row_issues_ok :: "parsed_row \<Rightarrow> bool" where
  "row_issues_ok row \<longleftrightarrow> list_all (\<lambda>i. is_row i = Some (pr_number row)) (pr_issues row) \<and>
     (pr_data row = None \<longrightarrow> pr_issues row \<noteq> [])"

lemma is_row_row_issue [simp]: "is_row (row_issue row field code rejected evidence) = Some (pr_number row)"
  by (simp add: row_issue_def)

lemma validate_catalog_row_Inl: "validate_catalog_row c = Inl fs \<Longrightarrow> fs \<noteq> []"
  by (auto simp: validate_catalog_row_def Let_def split: if_splits)

lemma parse_row_issues: "row_issues_ok (parse_row io headers r)"
  by (auto simp: parse_row_def row_issues_ok_def Let_def validation_issues_def list_all_iff
      dest: validate_catalog_row_Inl split: prod.split sum.split)

lemma check_row_issues: "check_row row sn = (row', sn') \<Longrightarrow> row_issues_ok row \<Longrightarrow> row_issues_ok row'"
  by (auto simp: check_row_def row_issues_ok_def conflict_def list_all_iff
      split: option.splits prod.splits)

lemma check_rows_keep: "map (\<lambda>r. (pr_number r, pr_data r)) (check_rows sn rows) = map (\<lambda>r. (pr_number r, pr_data r)) rows"
proof (induction rows arbitrary: sn)
  case (Cons row rows)
  show ?case using Cons check_row_frame [of row sn] by (simp add: split_beta)
qed simp

lemma check_rows_frame [simp]:
  "map pr_number (check_rows sn rows) = map pr_number rows" "map pr_data (check_rows sn rows) = map pr_data rows"
  using arg_cong [OF check_rows_keep, of "map fst" sn rows] arg_cong [OF check_rows_keep, of "map snd" sn rows]
  by (simp_all add: comp_def)

lemma check_rows_issues: "list_all row_issues_ok rows \<Longrightarrow> list_all row_issues_ok (check_rows sn rows)"
  by (induction rows arbitrary: sn) (auto split: prod.split dest: check_row_issues)

end
