(* ===== verification/Job_Queue.thy ===== *)
theory Job_Queue
  imports Domain
begin

text \<open>
  The durable job queue of \<open>services/jobs.py\<close>: enqueueing, claiming with a lease, renewing, completing
  and failing.  Each call is one transaction and so one step.  The database clock, the rows another
  transaction has locked (\<open>SKIP LOCKED\<close>) and the status of the tenants are parameters; the payload is
  opaque to the queue.  Jobs created at the same moment come in the order of the table.
\<close>

subsection \<open>Jobs\<close>

record 'p job =
  jb_id :: uuid
  jb_tenant :: uuid
  jb_kind :: job_kind
  jb_payload :: 'p
  jb_status :: job_status
  jb_attempts :: int
  jb_available_at :: timestamp
  jb_lease_expires_at :: "timestamp option"
  jb_locked_by :: "string option"
  jb_last_error :: "string option"
  jb_created_at :: timestamp

definition job_checks :: "'p job \<Rightarrow> bool" where
  "job_checks j \<longleftrightarrow>
     0 \<le> jb_attempts j \<and>
     (jb_status j = JOB_PROCESSING \<longrightarrow> jb_locked_by j \<noteq> None \<and> jb_lease_expires_at j \<noteq> None)"

type_synonym 'p queue = "'p job list"

definition enqueue_job ::
    "uuid \<Rightarrow> timestamp \<Rightarrow> uuid \<Rightarrow> job_kind \<Rightarrow> 'p \<Rightarrow> timestamp option \<Rightarrow> 'p queue \<Rightarrow> ('p job \<times> 'p queue) outcome" where
  "enqueue_job job_id now tenant kind payload available_at q =
     (let j = \<lparr>jb_id = job_id, jb_tenant = tenant, jb_kind = kind, jb_payload = payload,
               jb_status = JOB_PENDING, jb_attempts = 0,
               jb_available_at = (case available_at of None \<Rightarrow> now | Some t \<Rightarrow> t),
               jb_lease_expires_at = None, jb_locked_by = None, jb_last_error = None, jb_created_at = now\<rparr>
      in if job_id \<in> jb_id ` set q then Inl (IntegrityError ''pk_durable_jobs'') else Inr (j, q @ [j]))"

subsection \<open>Claiming\<close>

definition in_scope :: "uuid option \<Rightarrow> job_kind list option \<Rightarrow> 'p job \<Rightarrow> bool" where
  "in_scope tenant kinds j \<longleftrightarrow>
     (case tenant of None \<Rightarrow> True | Some t \<Rightarrow> jb_tenant j = t) \<and>
     (case kinds of None \<Rightarrow> True | Some ks \<Rightarrow> jb_kind j \<in> set ks)"

definition lease_expired :: "timestamp \<Rightarrow> 'p job \<Rightarrow> bool" where
  "lease_expired now j \<longleftrightarrow> (case jb_lease_expires_at j of None \<Rightarrow> False | Some t \<Rightarrow> t \<le> now)"

definition job_due :: "timestamp \<Rightarrow> 'p job \<Rightarrow> bool" where
  "job_due now j \<longleftrightarrow>
     jb_status j = JOB_PENDING \<and> jb_available_at j \<le> now \<or>
     jb_status j = JOB_PROCESSING \<and> lease_expired now j"

definition terminalized :: "'p job \<Rightarrow> 'p job" where
  "terminalized j =
     j\<lparr>jb_status := JOB_QUARANTINED, jb_lease_expires_at := None, jb_locked_by := None,
       jb_last_error := Some (if jb_status j = JOB_PROCESSING
         then ''LeaseExpired: maximum processing attempts exhausted''
         else ''MaximumAttemptsExceeded: pending job exhausted its attempt budget'')\<rparr>"

definition leased :: "string \<Rightarrow> timestamp \<Rightarrow> 'p job \<Rightarrow> 'p job" where
  "leased worker expires j =
     j\<lparr>jb_status := JOB_PROCESSING, jb_attempts := jb_attempts j + 1,
       jb_lease_expires_at := Some expires, jb_locked_by := Some worker\<rparr>"

record claim =
  cl_worker :: string
  cl_limit :: nat
  cl_lease_seconds :: int
  cl_max_attempts :: int
  cl_tenant :: "uuid option"
  cl_kinds :: "job_kind list option"

definition exhausted_jobs :: "(uuid \<Rightarrow> bool) \<Rightarrow> timestamp \<Rightarrow> claim \<Rightarrow> 'p queue \<Rightarrow> 'p job list" where
  "exhausted_jobs locked now c q =
     take (max (cl_limit c) 1) (sort_key jb_created_at
       (filter (\<lambda>j. in_scope (cl_tenant c) (cl_kinds c) j \<and> cl_max_attempts c \<le> jb_attempts j \<and>
                    job_due now j \<and> \<not> locked (jb_id j)) q))"

definition claimable_jobs ::
    "(uuid \<Rightarrow> bool) \<Rightarrow> (uuid \<Rightarrow> tenant_status option) \<Rightarrow> timestamp \<Rightarrow> claim \<Rightarrow> 'p queue \<Rightarrow> 'p job list" where
  "claimable_jobs locked tenant_status_of now c q =
     take (cl_limit c) (sort_key jb_created_at
       (filter (\<lambda>j. in_scope (cl_tenant c) (cl_kinds c) j \<and> job_due now j \<and>
                    jb_attempts j < cl_max_attempts c \<and>
                    tenant_status_of (jb_tenant j) = Some TENANT_ACTIVE \<and> \<not> locked (jb_id j)) q))"

definition claim_jobs ::
    "(uuid \<Rightarrow> bool) \<Rightarrow> (uuid \<Rightarrow> tenant_status option) \<Rightarrow> timestamp \<Rightarrow> claim \<Rightarrow> 'p queue \<Rightarrow> 'p job list \<times> 'p queue" where
  "claim_jobs locked tenant_status_of now c q =
     (let exhausted = jb_id ` set (exhausted_jobs locked now c q);
          q1 = update_where (\<lambda>j. jb_id j \<in> exhausted) terminalized q;
          claimed = claimable_jobs locked tenant_status_of now c q1;
          lease = leased (cl_worker c) (now + seconds (cl_lease_seconds c))
      in (map lease claimed, update_where (\<lambda>j. jb_id j \<in> jb_id ` set claimed) lease q1))"

subsection \<open>Working on a job\<close>

definition renew_lease :: "timestamp \<Rightarrow> uuid \<Rightarrow> string \<Rightarrow> int \<Rightarrow> 'p queue \<Rightarrow> bool \<times> 'p queue" where
  "renew_lease now job_id worker lease_seconds q =
     (let owned = (\<lambda>j. jb_id j = job_id \<and> jb_status j = JOB_PROCESSING \<and> jb_locked_by j = Some worker \<and>
                     (case jb_lease_expires_at j of None \<Rightarrow> False | Some t \<Rightarrow> now < t))
      in if length (filter owned q) \<noteq> 1 then (False, q)
         else (True, update_where owned (\<lambda>j. j\<lparr>jb_lease_expires_at := Some (now + seconds lease_seconds)\<rparr>) q))"

definition completed_job :: "'p job \<Rightarrow> 'p job" where
  "completed_job j =
     j\<lparr>jb_status := JOB_COMPLETED, jb_lease_expires_at := None, jb_locked_by := None, jb_last_error := None\<rparr>"

definition mark_completed :: "uuid \<Rightarrow> string \<Rightarrow> 'p queue \<Rightarrow> bool \<times> 'p queue" where
  "mark_completed job_id worker q =
     (let owned = (\<lambda>j. jb_id j = job_id \<and> jb_status j = JOB_PROCESSING \<and> jb_locked_by j = Some worker)
      in if length (filter owned q) \<noteq> 1 then (False, q) else (True, update_where owned completed_job q))"

definition retry_delay :: "int \<Rightarrow> int" where
  "retry_delay attempts = min 300 (2 ^ nat (min attempts 8))"

definition failed_job :: "timestamp \<Rightarrow> string \<Rightarrow> int \<Rightarrow> 'p job \<Rightarrow> 'p job" where
  "failed_job now error_text max_attempts j =
     (let j1 = j\<lparr>jb_lease_expires_at := None, jb_locked_by := None, jb_last_error := Some (take 4000 error_text)\<rparr>
      in if max_attempts \<le> jb_attempts j then j1\<lparr>jb_status := JOB_QUARANTINED\<rparr>
         else j1\<lparr>jb_status := JOB_PENDING, jb_available_at := now + seconds (retry_delay (jb_attempts j))\<rparr>)"

definition mark_failed :: "timestamp \<Rightarrow> uuid \<Rightarrow> string \<Rightarrow> string \<Rightarrow> int \<Rightarrow> 'p queue \<Rightarrow> bool \<times> 'p queue" where
  "mark_failed now job_id worker error_text max_attempts q =
     (case get_by jb_id job_id q of
        None \<Rightarrow> (False, q)
      | Some j \<Rightarrow>
          if jb_status j \<noteq> JOB_PROCESSING \<or> jb_locked_by j \<noteq> Some worker then (False, q)
          else (True, update_where (\<lambda>j. jb_id j = job_id) (failed_job now error_text max_attempts) q))"

subsection \<open>The invariant of the queue\<close>

definition job_ok :: "int \<Rightarrow> 'p job \<Rightarrow> bool" where
  "job_ok budget j \<longleftrightarrow>
     0 \<le> jb_attempts j \<and> jb_attempts j \<le> budget \<and>
     (jb_locked_by j \<noteq> None \<longleftrightarrow> jb_status j = JOB_PROCESSING) \<and>
     (jb_lease_expires_at j \<noteq> None \<longleftrightarrow> jb_status j = JOB_PROCESSING) \<and>
     (jb_status j = JOB_PROCESSING \<longrightarrow> 1 \<le> jb_attempts j)"

definition jobs_inv :: "int \<Rightarrow> 'p queue \<Rightarrow> bool" where
  "jobs_inv budget q \<longleftrightarrow> distinct (map jb_id q) \<and> list_all (job_ok budget) q"

lemma jobs_invD:
  assumes "jobs_inv budget q"
  shows "distinct (map jb_id q)" "j \<in> set q \<Longrightarrow> job_ok budget j"
    "j \<in> set q \<Longrightarrow> k \<in> set q \<Longrightarrow> jb_id j = jb_id k \<Longrightarrow> j = k"
  using assms unfolding jobs_inv_def list_all_iff distinct_map by (auto dest: inj_onD)

text \<open>How one job may change in a step; a change that touches a job keeps what identifies it.\<close>

definition job_advances :: "'p job \<Rightarrow> 'p job \<Rightarrow> bool" where
  "job_advances j j' \<longleftrightarrow>
     jb_id j' = jb_id j \<and> jb_tenant j' = jb_tenant j \<and> jb_kind j' = jb_kind j \<and>
     jb_payload j' = jb_payload j \<and> jb_created_at j' = jb_created_at j \<and>
     jb_attempts j \<le> jb_attempts j' \<and>
     (jb_status j \<in> {JOB_COMPLETED, JOB_QUARANTINED} \<longrightarrow> j' = j)"

lemma job_advances_refl [simp]: "job_advances j j"
  by (simp add: job_advances_def)

lemma job_advances_trans: "job_advances i j \<Longrightarrow> job_advances j k \<Longrightarrow> job_advances i k"
  by (auto simp: job_advances_def)

text \<open>Every step of the queue but enqueueing updates some rows.\<close>

definition sound_update :: "int \<Rightarrow> ('p job \<Rightarrow> bool) \<Rightarrow> ('p job \<Rightarrow> 'p job) \<Rightarrow> 'p queue \<Rightarrow> bool" where
  "sound_update budget P f q \<longleftrightarrow>
     (\<forall>j \<in> set q. P j \<longrightarrow> job_ok budget j \<longrightarrow> job_ok budget (f j) \<and> job_advances j (f j))"

lemma sound_update_inv:
  assumes "jobs_inv budget q" "sound_update budget P f q"
  shows "jobs_inv budget (update_where P f q)"
proof -
  have "map jb_id (update_where P f q) = map jb_id q"
    using assms jobs_invD(2) [OF assms(1)]
    by (intro map_update_where) (auto simp: sound_update_def job_advances_def)
  moreover have "job_ok budget j'" if "j' \<in> set (update_where P f q)" for j'
    using that assms jobs_invD(2) [OF assms(1)] by (auto simp: in_update_where_iff sound_update_def)
  ultimately show ?thesis using assms(1) by (simp add: jobs_inv_def list_all_iff)
qed

lemma sound_update_advances:
  assumes "jobs_inv budget q" "sound_update budget P f q" "j \<in> set q"
  shows "\<exists>j' \<in> set (update_where P f q). job_advances j j'"
proof (cases "P j")
  case True
  then have "job_advances j (f j)" using assms jobs_invD(2) [OF assms(1,3)] by (auto simp: sound_update_def)
  then show ?thesis using True assms(3) by (auto simp: set_update_where)
next
  case False
  then show ?thesis using assms(3) by (intro bexI [of _ j]) (auto simp: set_update_where)
qed

lemma in_exhausted:
  "j \<in> set (exhausted_jobs locked now c q) \<Longrightarrow>
     j \<in> set q \<and> job_due now j \<and> cl_max_attempts c \<le> jb_attempts j"
  by (auto simp: exhausted_jobs_def dest!: in_set_takeD)

lemma in_claimable:
  "j \<in> set (claimable_jobs locked tenant_status_of now c q) \<Longrightarrow>
     j \<in> set q \<and> job_due now j \<and> jb_attempts j < cl_max_attempts c \<and>
     tenant_status_of (jb_tenant j) = Some TENANT_ACTIVE"
  by (auto simp: claimable_jobs_def dest!: in_set_takeD)

lemma selected_by_id:
  assumes "jobs_inv budget q" "j \<in> set q" "set js \<subseteq> set q"
  shows "jb_id j \<in> jb_id ` set js \<longleftrightarrow> j \<in> set js"
proof
  assume "jb_id j \<in> jb_id ` set js"
  then obtain k where k: "jb_id j = jb_id k" "k \<in> set js" by (rule imageE)
  have "k = j" by (rule jobs_invD(3) [OF assms(1) subsetD [OF assms(3) k(2)] assms(2) k(1) [symmetric]])
  then show "j \<in> set js" using k(2) by simp
qed (rule imageI)

lemma exhausted_by_id:
  "jobs_inv budget q \<Longrightarrow> j \<in> set q \<Longrightarrow>
     jb_id j \<in> jb_id ` set (exhausted_jobs locked now c q) \<longleftrightarrow> j \<in> set (exhausted_jobs locked now c q)"
  by (rule selected_by_id) (auto dest: in_exhausted)

lemma claimable_by_id:
  "jobs_inv budget q \<Longrightarrow> j \<in> set q \<Longrightarrow>
     jb_id j \<in> jb_id ` set (claimable_jobs locked tenant_status_of now c q) \<longleftrightarrow>
     j \<in> set (claimable_jobs locked tenant_status_of now c q)"
  by (rule selected_by_id) (auto dest: in_claimable)

lemma due_status: "job_due now j \<Longrightarrow> jb_status j \<noteq> JOB_COMPLETED \<and> jb_status j \<noteq> JOB_QUARANTINED"
  by (auto simp: job_due_def)

lemma exhausted_sound:
  assumes "jobs_inv budget q"
  shows "sound_update budget (\<lambda>j. jb_id j \<in> jb_id ` set (exhausted_jobs locked now c q)) terminalized q"
  unfolding sound_update_def
proof (intro ballI impI)
  fix j assume j: "j \<in> set q" "jb_id j \<in> jb_id ` set (exhausted_jobs locked now c q)" "job_ok budget j"
  then have due: "job_due now j" using exhausted_by_id [OF assms j(1)] in_exhausted by blast
  show "job_ok budget (terminalized j) \<and> job_advances j (terminalized j)"
    using j(3) due_status [OF due] by (simp add: job_ok_def job_advances_def terminalized_def)
qed

lemma claimed_sound:
  assumes "jobs_inv budget q" "cl_max_attempts c \<le> budget"
  shows "sound_update budget (\<lambda>j. jb_id j \<in> jb_id ` set (claimable_jobs locked tenant_status_of now c q))
    (leased worker expires) q"
  unfolding sound_update_def
proof (intro ballI impI)
  fix j assume j: "j \<in> set q" "jb_id j \<in> jb_id ` set (claimable_jobs locked tenant_status_of now c q)" "job_ok budget j"
  then have due: "job_due now j" "jb_attempts j < cl_max_attempts c"
    using claimable_by_id [OF assms(1) j(1)] in_claimable by blast+
  show "job_ok budget (leased worker expires j) \<and> job_advances j (leased worker expires j)"
    using j(3) assms(2) due(2) due_status [OF due(1)] by (simp add: job_ok_def job_advances_def leased_def)
qed

inductive job_step :: "int \<Rightarrow> 'p queue \<Rightarrow> 'p queue \<Rightarrow> bool" for budget where
  job_enqueue: "enqueue_job job_id now tenant kind payload available_at q = Inr (j, q') \<Longrightarrow> 0 \<le> budget \<Longrightarrow> job_step budget q q'"
| job_claim: "claim_jobs locked tenant_status_of now c q = (claimed, q') \<Longrightarrow> cl_max_attempts c \<le> budget \<Longrightarrow> job_step budget q q'"
| job_renew: "renew_lease now job_id worker lease_seconds q = (renewed, q') \<Longrightarrow> job_step budget q q'"
| job_complete: "mark_completed job_id worker q = (reported, q') \<Longrightarrow> job_step budget q q'"
| job_fail: "mark_failed now job_id worker error_text max_attempts q = (reported, q') \<Longrightarrow> job_step budget q q'"

lemma report_sound:
  "sound_update budget (\<lambda>j. jb_id j = job_id \<and> jb_status j = JOB_PROCESSING \<and> R j)
     (\<lambda>j. j\<lparr>jb_lease_expires_at := Some expires\<rparr>) q"
  "sound_update budget (\<lambda>j. jb_id j = job_id \<and> jb_status j = JOB_PROCESSING \<and> R j) completed_job q"
  by (auto simp: sound_update_def job_ok_def job_advances_def completed_job_def)

lemma failed_sound:
  assumes "jobs_inv budget q" "get_by jb_id job_id q = Some j" "jb_status j = JOB_PROCESSING"
  shows "sound_update budget (\<lambda>j. jb_id j = job_id) (failed_job now error_text max_attempts) q"
  unfolding sound_update_def
proof (intro ballI impI)
  fix k assume k: "k \<in> set q" "jb_id k = job_id" "job_ok budget k"
  then have "k = j" using get_by_SomeD [OF assms(2)] jobs_invD(3) [OF assms(1)] by auto
  then show "job_ok budget (failed_job now error_text max_attempts k) \<and>
      job_advances k (failed_job now error_text max_attempts k)"
    using k(3) assms(3) by (auto simp: job_ok_def job_advances_def failed_job_def Let_def)
qed

text \<open>Each step keeps the invariant and advances every job.\<close>

lemma job_step_inv_advances:
  assumes "job_step budget q q'" "jobs_inv budget q"
  shows "jobs_inv budget q' \<and> (\<forall>j \<in> set q. \<exists>j' \<in> set q'. job_advances j j')"
  using assms(1)
proof cases
  case (job_enqueue job_id now tenant kind payload available_at j)
  then have "set q \<subseteq> set q'" "jobs_inv budget q'" using assms(2)
    by (auto simp: enqueue_job_def Let_def jobs_inv_def job_ok_def split: if_splits)
  then show ?thesis using job_advances_refl by blast
next
  case (job_claim locked tenant_status_of now c claimed)
  let ?q1 = "update_where (\<lambda>j. jb_id j \<in> jb_id ` set (exhausted_jobs locked now c q)) terminalized q"
  have inv1: "jobs_inv budget ?q1" by (rule sound_update_inv [OF assms(2) exhausted_sound [OF assms(2)]])
  note sound = claimed_sound [OF inv1 job_claim(2)]
  have q': "q' = update_where (\<lambda>j. jb_id j \<in> jb_id ` set (claimable_jobs locked tenant_status_of now c ?q1))
      (leased (cl_worker c) (now + seconds (cl_lease_seconds c))) ?q1"
    using job_claim(1) by (simp add: claim_jobs_def Let_def)
  have "\<exists>j' \<in> set q'. job_advances j j'" if j: "j \<in> set q" for j
  proof -
    obtain k where k: "k \<in> set ?q1" "job_advances j k"
      using sound_update_advances [OF assms(2) exhausted_sound [OF assms(2)] j] by blast
    then show ?thesis using sound_update_advances [OF inv1 sound k(1)] job_advances_trans [OF k(2)]
      unfolding q' by blast
  qed
  then show ?thesis using sound_update_inv [OF inv1 sound] unfolding q' by blast
next
  case (job_renew now job_id worker lease_seconds renewed)
  then show ?thesis using assms(2) sound_update_inv [OF assms(2) report_sound(1)]
      sound_update_advances [OF assms(2) report_sound(1)]
    by (auto simp: renew_lease_def Let_def split: if_splits intro: job_advances_refl)
next
  case (job_complete job_id worker reported)
  then show ?thesis using assms(2) sound_update_inv [OF assms(2) report_sound(2)]
      sound_update_advances [OF assms(2) report_sound(2)]
    by (auto simp: mark_completed_def Let_def split: if_splits intro: job_advances_refl)
next
  case (job_fail now job_id worker error_text max_attempts reported)
  show ?thesis
  proof (cases "q' = q")
    case False
    then obtain j where j: "get_by jb_id job_id q = Some j" "jb_status j = JOB_PROCESSING"
      "q' = update_where (\<lambda>j. jb_id j = job_id) (failed_job now error_text max_attempts) q"
      using job_fail by (auto simp: mark_failed_def split: option.splits if_splits)
    note sound = failed_sound [OF assms(2) j(1,2)]
    show ?thesis using sound_update_inv [OF assms(2) sound] sound_update_advances [OF assms(2) sound] j(3) by blast
  qed (use assms(2) job_advances_refl in blast)
qed

interpretation jobs: step_invariant "\<lambda>q. q = []" "job_step budget" "jobs_inv budget"
  using job_step_inv_advances by unfold_locales (auto simp: jobs_inv_def)

subsection \<open>The life of one job\<close>

text \<open>
  The abstract view of a job: who holds it until when, or when it is due, and how often it was started.
  \<open>next_lives\<close> says what a call may make of it, and depends on nothing else in the queue.
\<close>

datatype life =
  Absent | Waiting timestamp int | Held string timestamp int | Finished int | Dead int

definition life_of_job :: "'p job \<Rightarrow> life" where
  "life_of_job j =
     (case jb_status j of
        JOB_PENDING \<Rightarrow> Waiting (jb_available_at j) (jb_attempts j)
      | JOB_PROCESSING \<Rightarrow>
          (case (jb_locked_by j, jb_lease_expires_at j) of
             (Some w, Some t) \<Rightarrow> Held w t (jb_attempts j)
           | _ \<Rightarrow> Dead (jb_attempts j))
      | JOB_COMPLETED \<Rightarrow> Finished (jb_attempts j)
      | JOB_FAILED \<Rightarrow> Dead (jb_attempts j)
      | JOB_QUARANTINED \<Rightarrow> Dead (jb_attempts j))"

definition life :: "'p queue \<Rightarrow> uuid \<Rightarrow> life" where
  "life q job_id = (case get_by jb_id job_id q of None \<Rightarrow> Absent | Some j \<Rightarrow> life_of_job j)"

datatype 'p job_call =
    Enqueue uuid timestamp uuid job_kind 'p "timestamp option"
  | Claim "uuid \<Rightarrow> bool" "uuid \<Rightarrow> tenant_status option" timestamp claim
  | Renew timestamp uuid string int
  | Complete uuid string
  | Fail timestamp uuid string string int

fun run_call :: "'p job_call \<Rightarrow> 'p queue \<Rightarrow> 'p queue" where
  "run_call (Enqueue i now tenant kind payload available_at) q =
     (case enqueue_job i now tenant kind payload available_at q of Inl _ \<Rightarrow> q | Inr (_, q') \<Rightarrow> q')"
| "run_call (Claim locked tenant_status_of now c) q = snd (claim_jobs locked tenant_status_of now c q)"
| "run_call (Renew now i worker lease_seconds) q = snd (renew_lease now i worker lease_seconds q)"
| "run_call (Complete i worker) q = snd (mark_completed i worker q)"
| "run_call (Fail now i worker error_text max_attempts) q = snd (mark_failed now i worker error_text max_attempts q)"

fun taken :: "timestamp \<Rightarrow> claim \<Rightarrow> int \<Rightarrow> life" where
  "taken now c n =
     (if n < cl_max_attempts c then Held (cl_worker c) (now + seconds (cl_lease_seconds c)) (n + 1) else Dead n)"

fun next_lives :: "'p job_call \<Rightarrow> uuid \<Rightarrow> life \<Rightarrow> life set" where
  "next_lives (Enqueue i now tenant kind payload available_at) job_id l =
     (if i = job_id \<and> l = Absent then {Waiting (case available_at of None \<Rightarrow> now | Some t \<Rightarrow> t) 0} else {l})"
| "next_lives (Claim locked tenant_status_of now c) job_id (Waiting t n) =
     (if t \<le> now then {Waiting t n, taken now c n} else {Waiting t n})"
| "next_lives (Claim locked tenant_status_of now c) job_id (Held w t n) =
     (if t \<le> now then {Held w t n, taken now c n} else {Held w t n})"
| "next_lives (Renew now i worker lease_seconds) job_id (Held w t n) =
     (if i = job_id \<and> w = worker \<and> now < t then {Held w (now + seconds lease_seconds) n} else {Held w t n})"
| "next_lives (Complete i worker) job_id (Held w t n) =
     (if i = job_id \<and> w = worker then {Finished n} else {Held w t n})"
| "next_lives (Fail now i worker error_text max_attempts) job_id (Held w t n) =
     (if i = job_id \<and> w = worker
      then {if max_attempts \<le> n then Dead n else Waiting (now + seconds (retry_delay n)) n}
      else {Held w t n})"
| "next_lives _ job_id l = {l}"

text \<open>An update of rows that keeps identifiers, seen through the view.\<close>

lemma life_update:
  assumes "\<And>j. j \<in> set q \<Longrightarrow> P j \<Longrightarrow> jb_id (f j) = jb_id j"
  shows "life (update_where P f q) job_id =
    (case get_by jb_id job_id q of None \<Rightarrow> Absent | Some j \<Rightarrow> life_of_job (if P j then f j else j))"
  unfolding life_def get_by_def
  by (subst select_update_where_same) (auto simp: assms split: option.split)

lemma life_of_held:
  assumes "job_ok budget j"
  shows "jb_status j = JOB_PROCESSING \<Longrightarrow> \<exists>w t. jb_locked_by j = Some w \<and> jb_lease_expires_at j = Some t \<and>
           life_of_job j = Held w t (jb_attempts j)"
    "jb_status j = JOB_PENDING \<Longrightarrow> life_of_job j = Waiting (jb_available_at j) (jb_attempts j)"
  using assms by (auto simp: job_ok_def life_of_job_def)

lemma get_in: "get_by jb_id job_id q = Some j \<Longrightarrow> j \<in> set q \<and> jb_id j = job_id"
  using get_by_SomeD by fastforce

lemma owned_iff:
  assumes "jobs_inv budget q" "\<And>j. P j \<Longrightarrow> jb_id j = job_id"
  shows "length (filter P q) = 1 \<longleftrightarrow> (case get_by jb_id job_id q of None \<Rightarrow> False | Some j \<Rightarrow> P j)"
  using jobs_invD(1) [OF assms(1)]
proof (induction q)
  case (Cons j q)
  have "filter P q = []" if "jb_id j = job_id"
    using Cons.prems assms(2) that by (simp add: filter_empty_conv) (metis image_eqI)
  then show ?case using Cons assms(2) [of j] by (cases "jb_id j = job_id") auto
qed simp

lemma claim_life_eq:
  assumes inv: "jobs_inv budget q" and j: "get_by jb_id job_id q = Some j"
  shows "life (snd (claim_jobs locked tenant_status_of now c q)) job_id =
    (if j \<in> set (exhausted_jobs locked now c q) then Dead (jb_attempts j)
     else if j \<in> set (claimable_jobs locked tenant_status_of now c
                 (update_where (\<lambda>k. jb_id k \<in> jb_id ` set (exhausted_jobs locked now c q)) terminalized q))
     then Held (cl_worker c) (now + seconds (cl_lease_seconds c)) (jb_attempts j + 1)
     else life_of_job j)"
proof -
  let ?ex = "\<lambda>k. jb_id k \<in> jb_id ` set (exhausted_jobs locked now c q)"
  let ?q1 = "update_where ?ex terminalized q"
  let ?cl = "\<lambda>k. jb_id k \<in> jb_id ` set (claimable_jobs locked tenant_status_of now c ?q1)"
  let ?lease = "leased (cl_worker c) (now + seconds (cl_lease_seconds c))"
  define j1 where "j1 = (if ?ex j then terminalized j else j)"
  have inv1: "jobs_inv budget ?q1" by (rule sound_update_inv [OF inv exhausted_sound [OF inv]])
  have "get_by jb_id job_id ?q1 = Some j1"
    using j(1) unfolding get_by_def j1_def by (subst select_update_where_same) (auto simp: terminalized_def)
  then have j1: "j1 \<in> set ?q1" and j1_life: "life (update_where ?cl ?lease ?q1) job_id = life_of_job (if ?cl j1 then ?lease j1 else j1)"
    using get_in by (auto simp: life_update leased_def)
  note ex = exhausted_by_id [OF inv conjunct1 [OF get_in [OF j]], of locked now c]
  have "\<not> job_due now (terminalized j)" by (simp add: job_due_def terminalized_def)
  then have "?ex j \<Longrightarrow> j1 \<notin> set (claimable_jobs locked tenant_status_of now c ?q1)"
    using in_claimable [of j1] by (auto simp: j1_def)
  then have held_now: "?cl j1 \<longleftrightarrow> \<not> ?ex j \<and> j \<in> set (claimable_jobs locked tenant_status_of now c ?q1)"
    unfolding claimable_by_id [OF inv1 j1] by (auto simp: j1_def)
  have "life (snd (claim_jobs locked tenant_status_of now c q)) job_id = life_of_job (if ?cl j1 then ?lease j1 else j1)"
    using j1_life by (simp add: claim_jobs_def Let_def)
  moreover have "life_of_job (terminalized j) = Dead (jb_attempts j)"
    "life_of_job (?lease j) = Held (cl_worker c) (now + seconds (cl_lease_seconds c)) (jb_attempts j + 1)"
    by (simp_all add: life_of_job_def terminalized_def leased_def)
  ultimately show ?thesis using held_now ex by (auto simp: j1_def)
qed

lemma claim_life:
  assumes inv: "jobs_inv budget q" and j: "get_by jb_id job_id q = Some j"
  shows "life (snd (claim_jobs locked tenant_status_of now c q)) job_id \<in> {life_of_job j, taken now c (jb_attempts j)}"
  using claim_life_eq [OF assms, of locked tenant_status_of now c]
  by (auto dest!: in_exhausted in_claimable)

text \<open>The head of a page: the oldest row a query selects is on it.\<close>

lemma oldest_on_page:
  assumes "1 \<le> n" "j \<in> set xs" "P j" "\<And>k. k \<in> set xs \<Longrightarrow> P k \<Longrightarrow> k \<noteq> j \<Longrightarrow> jb_created_at j < jb_created_at k"
  shows "j \<in> set (take n (sort_key jb_created_at (filter P xs)))"
proof -
  let ?s = "sort_key jb_created_at (filter P xs)"
  have s: "set ?s = set (filter P xs)" "sorted (map jb_created_at ?s)" by simp_all
  then obtain k ks where ks: "?s = k # ks" using assms(2,3) by (cases ?s) auto
  have "k = j"
  proof (rule ccontr)
    assume other: "k \<noteq> j"
    have "k \<in> set xs" "P k" "j \<in> set ks" using s(1) ks assms(2,3) other by auto
    then show False using s(2) ks assms(4) [of k] other by force
  qed
  then show ?thesis using ks assms(1) by (cases n) auto
qed

lemma not_due_kept:
  assumes inv: "jobs_inv budget q" and j: "get_by jb_id job_id q = Some j" "\<not> job_due now j"
  shows "get_by jb_id job_id (snd (claim_jobs locked tenant_status_of now c q)) = Some j"
proof -
  let ?ex = "\<lambda>k. jb_id k \<in> jb_id ` set (exhausted_jobs locked now c q)"
  let ?q1 = "update_where ?ex terminalized q"
  let ?cl = "\<lambda>k. jb_id k \<in> jb_id ` set (claimable_jobs locked tenant_status_of now c ?q1)"
  have inv1: "jobs_inv budget ?q1" by (rule sound_update_inv [OF inv exhausted_sound [OF inv]])
  note jq = get_in [OF j(1)]
  have "\<not> ?ex j" using exhausted_by_id [OF inv conjunct1 [OF jq]] in_exhausted j(2) by blast
  then have j1: "get_by jb_id job_id ?q1 = Some j"
    using j(1) unfolding get_by_def by (subst select_update_where_same) (auto simp: terminalized_def)
  have "\<not> ?cl j" using claimable_by_id [OF inv1 conjunct1 [OF get_in [OF j1]]] in_claimable j(2) by blast
  then show ?thesis
    using j1 unfolding get_by_def claim_jobs_def Let_def snd_conv
    by (subst select_update_where_same) (auto simp: leased_def)
qed

lemma owned_update_life:
  assumes inv: "jobs_inv budget q" and P: "\<And>j. P j \<Longrightarrow> jb_id j = i" and f: "\<And>j. jb_id (f j) = jb_id j"
    and j: "get_by jb_id job_id q = Some j"
  shows "life (if length (filter P q) \<noteq> 1 then q else update_where P f q) job_id =
    life_of_job (if P j then f j else j)"
proof (cases "P j")
  case True
  then have "i = job_id" using P get_in [OF j] by auto
  then have "length (filter P q) = 1" using owned_iff [OF inv P] j True by simp
  then show ?thesis using True j f by (simp add: life_update)
qed (use j f in \<open>simp add: life_update, simp add: life_def\<close>)

text \<open>The calls on a job that is absent, and on one that is there.\<close>

lemma absent_refines:
  assumes None: "get_by jb_id job_id q = None"
  shows "life (run_call call q) job_id \<in> next_lives call job_id Absent"
proof -
  have absent: "life q job_id = Absent" using None by (simp add: life_def)
  have kept: "life (update_where P f q) job_id = Absent" if "\<And>j. jb_id (f j) = jb_id j" for P f
    by (simp only: life_update [of q P f job_id, OF that] None option.case)
  show ?thesis
  proof (cases call)
    case (Enqueue i now tenant kind payload available_at)
    then show ?thesis using None absent
      by (auto simp: enqueue_job_def Let_def life_def get_by_None_iff get_by_append_new life_of_job_def)
  next
    case (Claim locked tenant_status_of now c)
    have "map jb_id (snd (claim_jobs locked tenant_status_of now c q)) = map jb_id q"
      by (simp add: claim_jobs_def Let_def map_update_where leased_def terminalized_def)
    then have "jb_id ` set (snd (claim_jobs locked tenant_status_of now c q)) = jb_id ` set q"
      by (metis set_map)
    then have "get_by jb_id job_id (snd (claim_jobs locked tenant_status_of now c q)) = None"
      using None unfolding get_by_None_iff by simp
    then show ?thesis using Claim by (simp add: life_def)
  qed (use absent kept in \<open>auto simp: renew_lease_def mark_completed_def mark_failed_def completed_job_def
      failed_job_def Let_def split: option.split\<close>)
qed

lemma claim_refines:
  assumes "jobs_inv budget q" "get_by jb_id job_id q = Some j"
  shows "life (run_call (Claim locked tenant_status_of now c) q) job_id \<in>
    next_lives (Claim locked tenant_status_of now c) job_id (life_of_job j)"
proof (cases "job_due now j")
  case True
  note held = life_of_held [OF jobs_invD(2) [OF assms(1) conjunct1 [OF get_in [OF assms(2)]]]]
  show ?thesis using claim_life [OF assms] held True by (auto simp: job_due_def lease_expired_def)
next
  case False
  then have "life (snd (claim_jobs locked tenant_status_of now c q)) job_id = life_of_job j"
    using not_due_kept [OF assms False] by (simp add: life_def)
  then show ?thesis by (cases "life_of_job j") auto
qed

lemma renew_refines:
  assumes "jobs_inv budget q" "get_by jb_id job_id q = Some j"
  shows "life (run_call (Renew now i worker lease_seconds) q) job_id \<in>
    next_lives (Renew now i worker lease_seconds) job_id (life_of_job j)"
proof -
  let ?P = "\<lambda>k. jb_id k = i \<and> jb_status k = JOB_PROCESSING \<and> jb_locked_by k = Some worker \<and>
    (case jb_lease_expires_at k of None \<Rightarrow> False | Some t \<Rightarrow> now < t)"
  let ?f = "\<lambda>k. k\<lparr>jb_lease_expires_at := Some (now + seconds lease_seconds)\<rparr>"
  have "snd (renew_lease now i worker lease_seconds q) =
      (if length (filter ?P q) \<noteq> 1 then q else update_where ?P ?f q)"
    by (simp add: renew_lease_def Let_def)
  then have "life (run_call (Renew now i worker lease_seconds) q) job_id = life_of_job (if ?P j then ?f j else j)"
    using owned_update_life [OF assms(1) _ _ assms(2), of ?P i ?f] by simp
  then show ?thesis
    using life_of_held [OF jobs_invD(2) [OF assms(1) conjunct1 [OF get_in [OF assms(2)]]]] get_in [OF assms(2)]
    by (cases "life_of_job j") (auto simp: life_of_job_def split: job_status.splits option.splits)
qed

lemma complete_refines:
  assumes "jobs_inv budget q" "get_by jb_id job_id q = Some j"
  shows "life (run_call (Complete i worker) q) job_id \<in> next_lives (Complete i worker) job_id (life_of_job j)"
proof -
  let ?P = "\<lambda>k. jb_id k = i \<and> jb_status k = JOB_PROCESSING \<and> jb_locked_by k = Some worker"
  have "snd (mark_completed i worker q) =
      (if length (filter ?P q) \<noteq> 1 then q else update_where ?P completed_job q)"
    by (simp add: mark_completed_def Let_def)
  then have "life (run_call (Complete i worker) q) job_id = life_of_job (if ?P j then completed_job j else j)"
    using owned_update_life [OF assms(1) _ _ assms(2), of ?P i completed_job] by (simp add: completed_job_def)
  then show ?thesis
    using life_of_held [OF jobs_invD(2) [OF assms(1) conjunct1 [OF get_in [OF assms(2)]]]] get_in [OF assms(2)]
    by (cases "life_of_job j") (auto simp: life_of_job_def completed_job_def split: job_status.splits option.splits)
qed

lemma fail_life:
  assumes "get_by jb_id job_id q = Some j"
  shows "life (snd (mark_failed now i worker error_text max_attempts q)) job_id =
    life_of_job (if i = job_id \<and> jb_status j = JOB_PROCESSING \<and> jb_locked_by j = Some worker
      then failed_job now error_text max_attempts j else j)"
proof (cases "i = job_id")
  case True
  have "life q job_id = life_of_job j" by (simp add: life_def assms)
  then show ?thesis using True assms get_in [OF assms]
    by (auto simp: mark_failed_def life_update failed_job_def Let_def)
next
  case False
  have "life (update_where (\<lambda>k. jb_id k = i) (failed_job now error_text max_attempts) q) job_id = life_of_job j"
    using False assms get_in [OF assms] by (simp add: life_update failed_job_def Let_def)
  moreover have "life q job_id = life_of_job j" by (simp add: life_def assms)
  ultimately show ?thesis using False by (simp add: mark_failed_def split: option.split)
qed

lemma fail_refines:
  assumes "jobs_inv budget q" "get_by jb_id job_id q = Some j"
  shows "life (run_call (Fail now i worker error_text max_attempts) q) job_id \<in>
    next_lives (Fail now i worker error_text max_attempts) job_id (life_of_job j)"
proof -
  note held = life_of_held [OF jobs_invD(2) [OF assms(1) conjunct1 [OF get_in [OF assms(2)]]]]
  show ?thesis
  proof (cases "i = job_id \<and> jb_status j = JOB_PROCESSING \<and> jb_locked_by j = Some worker")
    case True
    then show ?thesis using held fail_life [OF assms(2)]
      by (auto simp: life_of_job_def failed_job_def Let_def)
  next
    case False
    then have "life (run_call (Fail now i worker error_text max_attempts) q) job_id = life_of_job j"
      using fail_life [OF assms(2)] by auto
    then show ?thesis using False held
      by (cases "life_of_job j") (auto simp: life_of_job_def split: job_status.splits option.splits)
  qed
qed

subsection \<open>Properties\<close>

text \<open>
  C17: Every job lives its own life: whatever call is made on a well-formed queue, each job either stays
  as it is or moves as the abstract lease protocol says: it is taken only when it is due or its lease
  has run out and then started once more or given up on, and only its holder completes, fails or
  extends it.
\<close>

theorem calls_refine_job_lives:
  assumes "jobs_inv budget q"
  shows "life (run_call call q) job_id \<in> next_lives call job_id (life q job_id)"
proof (cases "get_by jb_id job_id q")
  case None
  then show ?thesis using absent_refines [OF None] by (simp add: life_def)
next
  case (Some j)
  have "life (run_call call q) job_id \<in> next_lives call job_id (life_of_job j)"
  proof (cases call)
    case (Enqueue i now tenant kind payload available_at)
    then have "i = job_id \<Longrightarrow> i \<in> jb_id ` set q" using get_in [OF Some] by auto
    then show ?thesis using Enqueue Some
      by (auto simp: enqueue_job_def Let_def life_def get_by_append_new life_of_job_def
          split: job_status.split option.split)
  qed (use assms Some in \<open>auto simp only: intro: claim_refines renew_refines complete_refines fail_refines\<close>)
  then show ?thesis by (simp add: life_def Some)
qed

definition sample_job :: "unit job" where
  "sample_job =
     \<lparr>jb_id = 1, jb_tenant = 2, jb_kind = CATALOG_IMPORT, jb_payload = (), jb_status = JOB_PENDING,
      jb_attempts = 0, jb_available_at = 0, jb_lease_expires_at = None, jb_locked_by = None,
      jb_last_error = None, jb_created_at = 0\<rparr>"

definition sample_claim_call :: claim where
  "sample_claim_call =
     \<lparr>cl_worker = ''w'', cl_limit = 1, cl_lease_seconds = 30, cl_max_attempts = 5, cl_tenant = None, cl_kinds = None\<rparr>"

lemma sample_queue_inv: "jobs_inv 5 [sample_job]"
  by (simp add: jobs_inv_def job_ok_def sample_job_def)

theorem calls_refine_job_lives_witness:
  "life (run_call (Claim (\<lambda>_. False) (\<lambda>_. Some TENANT_ACTIVE) 9 sample_claim_call) [sample_job]) 1 \<in>
     {Waiting 0 0, Held ''w'' (9 + seconds 30) 1}"
  using calls_refine_job_lives [OF sample_queue_inv, of "Claim (\<lambda>_. False) (\<lambda>_. Some TENANT_ACTIVE) 9 sample_claim_call" 1]
  by (simp add: life_def life_of_job_def sample_job_def sample_claim_call_def)

text \<open>
  C29: No job runs more often than the attempt budget allows, a job has a holder and a lease exactly while
  it is being processed, and over any run attempts never fall and completed and quarantined jobs never
  change again.
\<close>

theorem job_runs_are_bounded:
  assumes "reaches (job_step budget) [] q" "reaches (job_step budget) q q'" "j \<in> set q"
  shows "0 \<le> jb_attempts j \<and> jb_attempts j \<le> budget \<and>
    (jb_locked_by j \<noteq> None \<longleftrightarrow> jb_status j = JOB_PROCESSING) \<and>
    (jb_lease_expires_at j \<noteq> None \<longleftrightarrow> jb_status j = JOB_PROCESSING) \<and>
    (\<exists>j' \<in> set q'. jb_id j' = jb_id j \<and> jb_payload j' = jb_payload j \<and> jb_attempts j \<le> jb_attempts j' \<and>
       (jb_status j \<in> {JOB_COMPLETED, JOB_QUARANTINED} \<longrightarrow> j' = j))"
proof -
  have inv: "jobs_inv budget q" by (rule jobs.reachable_inv [OF refl assms(1)])
  have "\<exists>j' \<in> set q'. job_advances j j'" using assms(2,3) inv
  proof (induction rule: reaches.induct)
    case (reaches_step s t u)
    then obtain k where "k \<in> set t" "job_advances j k" by blast
    moreover have "jobs_inv budget t" by (rule jobs.reaches_inv [OF reaches_step.hyps(1) reaches_step.prems(2)])
    ultimately show ?case using job_step_inv_advances [OF reaches_step.hyps(2)] job_advances_trans by metis
  qed (use job_advances_refl in blast)
  then show ?thesis using jobs_invD(2) [OF inv assms(3)] unfolding job_ok_def job_advances_def by blast
qed

theorem job_runs_are_bounded_witness:
  "\<exists>j' \<in> set [sample_job]. jb_attempts j' \<le> 5 \<and> jb_id j' = 1"
proof -
  have "enqueue_job 1 0 2 CATALOG_IMPORT () None [] = Inr (sample_job, [sample_job])"
    by (simp add: enqueue_job_def sample_job_def Let_def)
  then have "job_step 5 [] [sample_job]" by (rule job_enqueue) simp
  with reaches_refl have "reaches (job_step 5) [] [sample_job]" by (rule reaches_step)
  from job_runs_are_bounded [OF this reaches_refl, of sample_job] show ?thesis by (simp add: sample_job_def)
qed

text \<open>
  Due work is taken: a claim for at least one job that finds the oldest due job of an active tenant
  unlocked starts it once more or, when its attempts are used up, quarantines it.
\<close>

theorem oldest_due_job_is_taken:
  assumes "jobs_inv budget q" "j \<in> set q" "job_due now j" "in_scope (cl_tenant c) (cl_kinds c) j"
    and "\<And>k. k \<in> set q \<Longrightarrow> job_due now k \<Longrightarrow> k \<noteq> j \<Longrightarrow> jb_created_at j < jb_created_at k"
    and "1 \<le> cl_limit c" "\<not> locked (jb_id j)" "tenant_status_of (jb_tenant j) = Some TENANT_ACTIVE"
  shows "life (run_call (Claim locked tenant_status_of now c) q) (jb_id j) = taken now c (jb_attempts j)"
proof -
  let ?ex = "exhausted_jobs locked now c q"
  let ?q1 = "update_where (\<lambda>k. jb_id k \<in> jb_id ` set ?ex) terminalized q"
  have j: "get_by jb_id (jb_id j) q = Some j"
    using assms(1,2) by (simp add: get_by_eq_Some_iff jobs_invD(1))
  note eq = claim_life_eq [OF assms(1) j, of locked tenant_status_of now c]
  show ?thesis
  proof (cases "jb_attempts j < cl_max_attempts c")
    case True
    then have fresh: "j \<notin> set ?ex" using in_exhausted by force
    have "j \<in> set ?q1"
      using assms(2) fresh exhausted_by_id [OF assms(1,2)] unfolding set_update_where by force
    moreover have "k \<in> set q" if "k \<in> set ?q1" "job_due now k" for k
      using that by (auto simp: in_update_where_iff job_due_def terminalized_def)
    ultimately have "j \<in> set (claimable_jobs locked tenant_status_of now c ?q1)"
      unfolding claimable_jobs_def using assms(3-8) True by (intro oldest_on_page) auto
    then show ?thesis using eq fresh True by simp
  next
    case False
    then have "j \<in> set ?ex"
      unfolding exhausted_jobs_def using assms(2-5,7) by (intro oldest_on_page) auto
    then show ?thesis using eq False by simp
  qed
qed

theorem oldest_due_job_is_taken_witness:
  "life (run_call (Claim (\<lambda>_. False) (\<lambda>_. Some TENANT_ACTIVE) 9 sample_claim_call) [sample_job]) 1 =
     Held ''w'' (9 + seconds 30) 1"
  using oldest_due_job_is_taken [OF sample_queue_inv, of sample_job 9 sample_claim_call "\<lambda>_. False" "\<lambda>_. Some TENANT_ACTIVE"]
  by (simp add: sample_job_def sample_claim_call_def job_due_def in_scope_def)

end
