(* ===== verification/Catalog.thy ===== *)
theory Catalog
  imports Catalog_Rows Job_Queue Device_Auth
begin

text \<open>
  The product catalog of \<open>models/catalog.py\<close> and its imports in \<open>services/catalog.py\<close>: accepting the
  bytes of a file, validating and staging its rows, previewing their effect, and the queries on imports
  and SKUs.  A service is one transaction: a fault leaves the tables as they were.  The database clock,
  fresh identifiers, SHA-256 and Python's \<open>str\<close> of a JSON value are fields of the environment.
\<close>

subsection \<open>Tables\<close>

record catalog_style =
  ps_tenant :: uuid
  ps_id :: uuid
  ps_code :: string
  ps_name :: string
  ps_attributes :: json_object
  ps_active :: bool

record catalog_sku =
  cs_tenant :: uuid
  cs_id :: uuid
  cs_style :: uuid
  cs_variant :: "uuid option"
  cs_code :: string
  cs_upc :: string
  cs_color :: string
  cs_size :: string
  cs_attributes :: json_object
  cs_active :: bool

record catalog_binding =
  eb_tenant :: uuid
  eb_sku :: uuid
  eb_epc :: string
  eb_from :: timestamp
  eb_to :: "timestamp option"
  eb_source :: uuid

record catalog_product =
  cp_tenant :: uuid
  cp_id :: uuid
  cp_style_code :: string
  cp_name :: string
  cp_category :: string
  cp_attributes :: json_object
  cp_active :: bool

record catalog_variant =
  cv_tenant :: uuid
  cv_id :: uuid
  cv_product :: uuid
  cv_color :: string
  cv_active :: bool

record rfid_tag =
  rt_tenant :: uuid
  rt_epc :: string
  rt_sku :: uuid
  rt_source :: uuid
  rt_active :: bool

datatype import_mode = MODE_DELTA | MODE_FULL

datatype import_status =
    IMPORT_VALIDATING | IMPORT_READY | IMPORT_PROCESSING | IMPORT_COMPLETED | IMPORT_REJECTED | IMPORT_FAILED

datatype row_status = ROW_VALID | ROW_INVALID

datatype row_action = ACTION_INSERT | ACTION_UPDATE | ACTION_UNCHANGED

record counters =
  inserted :: int
  updated :: int
  unchanged :: int
  deactivated :: int

record entity_counts =
  ec_styles :: counters
  ec_skus :: counters
  ec_bindings :: counters

record validation_summary =
  vs_rows_received :: int
  vs_valid_rows :: int
  vs_invalid_rows :: int
  vs_error_count :: int

text \<open>The JSON summary of an import, by its keys.\<close>

record reconciliation =
  rc_validation :: "validation_summary option"
  rc_preview :: "entity_counts option"
  rc_actual :: "(timestamp \<times> entity_counts) option"
  rc_promotion_error :: "string option"

definition no_reconciliation :: reconciliation where
  "no_reconciliation =
     \<lparr>rc_validation = None, rc_preview = None, rc_actual = None, rc_promotion_error = None\<rparr>"

record catalog_import =
  ci_tenant :: uuid
  ci_id :: uuid
  ci_key :: string
  ci_checksum :: string
  ci_mode :: import_mode
  ci_status :: import_status
  ci_filename :: string
  ci_content_type :: string
  ci_size :: int
  ci_total :: int
  ci_valid :: int
  ci_invalid :: int
  ci_inserted :: int
  ci_updated :: int
  ci_unchanged :: int
  ci_deactivated :: int
  ci_reconciliation :: reconciliation
  ci_failure :: "string option"
  ci_promoted_at :: "timestamp option"

definition import_checks :: "catalog_import \<Rightarrow> bool" where
  "import_checks i \<longleftrightarrow>
     0 \<le> ci_size i \<and> 0 \<le> ci_total i \<and>
     0 \<le> ci_valid i \<and> 0 \<le> ci_invalid i \<and> 0 \<le> ci_inserted i \<and> 0 \<le> ci_updated i \<and>
     0 \<le> ci_unchanged i \<and> 0 \<le> ci_deactivated i \<and>
     ci_valid i + ci_invalid i = ci_total i"

record import_source =
  so_tenant :: uuid
  so_import :: uuid
  so_content :: string

record staged_row =
  sr_tenant :: uuid
  sr_import :: uuid
  sr_number :: int
  sr_cells :: cells
  sr_extra :: "string list option"
  sr_data :: "catalog_row option"
  sr_status :: row_status
  sr_action :: "row_action option"

record import_error =
  ie_tenant :: uuid
  ie_id :: uuid
  ie_import :: uuid
  ie_issue :: issue

definition binding_check :: "catalog_binding \<Rightarrow> bool" where
  "binding_check b \<longleftrightarrow> (case eb_to b of None \<Rightarrow> True | Some t \<Rightarrow> eb_from b < t)"

text \<open>The payload of a catalog job is the text under \<open>import_id\<close>, if there is one.\<close>

type_synonym catalog_payload = "string option"

record catalog_db =
  cd_tenants :: "uuid list"
  cd_styles :: "catalog_style list"
  cd_skus :: "catalog_sku list"
  cd_bindings :: "catalog_binding list"
  cd_products :: "catalog_product list"
  cd_variants :: "catalog_variant list"
  cd_tags :: "rfid_tag list"
  cd_imports :: "catalog_import list"
  cd_sources :: "import_source list"
  cd_rows :: "staged_row list"
  cd_errors :: "import_error list"
  cd_jobs :: "catalog_payload queue"

record catalog_env =
  ce_io :: catalog_io
  ce_sha256 :: "string \<Rightarrow> string"
  ce_py_str :: "json \<Rightarrow> string"
  ce_now :: timestamp
  ce_import_id :: uuid
  ce_job_id :: uuid
  ce_style_id :: "string \<Rightarrow> uuid"
  ce_sku_id :: "string \<Rightarrow> uuid"
  ce_product_id :: "string \<Rightarrow> uuid"
  ce_variant_id :: "string \<times> string \<Rightarrow> uuid"
  ce_error_id :: "nat \<Rightarrow> uuid"

subsection \<open>Accepting a file\<close>

text \<open>\<open>PurePath(filename.replace("\", "/")).name\<close>: the last component that is not empty and not a dot.\<close>

fun split_slash :: "string \<Rightarrow> string \<Rightarrow> string list" where
  "split_slash acc [] = [rev acc]"
| "split_slash acc (c # cs) =
     (if c = CHR ''/'' \<or> c = CHR 0x5C then rev acc # split_slash [] cs else split_slash (c # acc) cs)"

definition safe_filename :: "string \<Rightarrow> string" where
  "safe_filename filename =
     (let parts = filter (\<lambda>p. p \<noteq> '''' \<and> p \<noteq> ''.'') (split_slash [] filename);
          name = take 255 (if parts = [] then '''' else last parts)
      in if name = '''' then ''catalog.csv'' else name)"

definition accepted_content_type :: "string option \<Rightarrow> string" where
  "accepted_content_type content_type =
     take 128 (case content_type of None \<Rightarrow> ''text/csv'' | Some t \<Rightarrow> if t = '''' then ''text/csv'' else t)"

definition import_by_key :: "uuid \<Rightarrow> string \<Rightarrow> catalog_db \<Rightarrow> catalog_import option" where
  "import_by_key tenant key db = get_by (\<lambda>i. (ci_tenant i, ci_key i)) (tenant, key) (cd_imports db)"

definition replayed_import :: "string \<Rightarrow> import_mode \<Rightarrow> catalog_import \<Rightarrow> catalog_import outcome" where
  "replayed_import checksum mode i =
     (if ci_checksum i = checksum \<and> ci_mode i = mode then Inr i
      else Inl (ApiError 409 ''idempotency_key_reused''))"

record upload =
  up_key :: string
  up_mode :: import_mode
  up_content :: string
  up_filename :: string
  up_content_type :: "string option"

definition new_import :: "catalog_env \<Rightarrow> uuid \<Rightarrow> upload \<Rightarrow> catalog_import" where
  "new_import env tenant up =
     \<lparr>ci_tenant = tenant, ci_id = ce_import_id env, ci_key = strip (up_key up),
      ci_checksum = ce_sha256 env (up_content up), ci_mode = up_mode up, ci_status = IMPORT_VALIDATING,
      ci_filename = safe_filename (up_filename up), ci_content_type = accepted_content_type (up_content_type up),
      ci_size = int (length (up_content up)), ci_total = 0, ci_valid = 0, ci_invalid = 0, ci_inserted = 0,
      ci_updated = 0, ci_unchanged = 0, ci_deactivated = 0, ci_reconciliation = no_reconciliation,
      ci_failure = None, ci_promoted_at = None\<rparr>"

text \<open>The writes of one acceptance; the unique keys of the tables are checked when the session flushes.\<close>

definition insert_import :: "catalog_env \<Rightarrow> uuid \<Rightarrow> upload \<Rightarrow> catalog_db \<Rightarrow> (catalog_import \<times> catalog_db) outcome" where
  "insert_import env tenant up db =
     (let i = new_import env tenant up
      in if ci_id i \<in> ci_id ` set (cd_imports db) then Inl (IntegrityError ''catalog_imports_pkey'')
         else if import_by_key tenant (ci_key i) db \<noteq> None
         then Inl (IntegrityError ''uq_catalog_imports_tenant_idempotency'')
         else and_then (enqueue_job (ce_job_id env) (ce_now env) tenant CATALOG_IMPORT (Some (str_uuid (ci_id i)))
                          None (cd_jobs db)) (\<lambda>(j, q).
           Inr (i, db\<lparr>cd_imports := cd_imports db @ [i],
                      cd_sources := cd_sources db @ [\<lparr>so_tenant = tenant, so_import = ci_id i, so_content = up_content up\<rparr>],
                      cd_jobs := q\<rparr>)))"

text \<open>
  The request reads \<open>before\<close> and writes to \<open>db\<close>: a concurrent request with the same key may have
  committed in between, and its import is then the winner.
\<close>

definition accept_catalog_import ::
    "catalog_env \<Rightarrow> uuid \<Rightarrow> upload \<Rightarrow> catalog_db \<Rightarrow> catalog_db \<Rightarrow> (catalog_import \<times> catalog_db) outcome" where
  "accept_catalog_import env tenant up before db =
     and_then (ensure (tenant \<in> set (cd_tenants before)) (ApiError 404 ''Tenant not found'')) (\<lambda>_.
     (let key = strip (up_key up); checksum = ce_sha256 env (up_content up)
      in and_then (ensure (8 \<le> length key \<and> length key \<le> 128) (ApiError 400 ''invalid_idempotency_key'')) (\<lambda>_.
         and_then (ensure (length (up_content up) \<le> max_catalog_file_bytes)
                     (ApiError 413 ''catalog_file_too_large'')) (\<lambda>_.
         case import_by_key tenant key before of
           Some existing \<Rightarrow> and_then (replayed_import checksum (up_mode up) existing) (\<lambda>i. Inr (i, db))
         | None \<Rightarrow>
             (case insert_import env tenant up db of
                Inr r \<Rightarrow> Inr r
              | Inl e \<Rightarrow>
                  (case import_by_key tenant key db of
                     Some winner \<Rightarrow> and_then (replayed_import checksum (up_mode up) winner) (\<lambda>i. Inr (i, db))
                   | None \<Rightarrow> Inl e))))))"

subsection \<open>The catalog of a tenant\<close>

record catalog_state =
  st_styles :: "catalog_style list"
  st_skus :: "catalog_sku list"
  st_bindings :: "catalog_binding list"

definition load_catalog_state :: "uuid \<Rightarrow> catalog_db \<Rightarrow> catalog_state" where
  "load_catalog_state tenant db =
     \<lparr>st_styles = filter (\<lambda>s. ps_tenant s = tenant) (cd_styles db),
      st_skus = filter (\<lambda>s. cs_tenant s = tenant) (cd_skus db),
      st_bindings = filter (\<lambda>b. eb_tenant b = tenant \<and> eb_to b = None) (cd_bindings db)\<rparr>"

definition style_changed :: "catalog_style \<Rightarrow> catalog_row \<Rightarrow> bool" where
  "style_changed s d \<longleftrightarrow>
     ps_name s \<noteq> cr_style_name d \<or> \<not> objects_same (ps_attributes s) (cr_style_attributes d) \<or> \<not> ps_active s"

definition sku_changed :: "catalog_sku \<Rightarrow> catalog_style \<Rightarrow> catalog_row \<Rightarrow> bool" where
  "sku_changed k s d \<longleftrightarrow>
     cs_style k \<noteq> ps_id s \<or> cs_upc k \<noteq> cr_upc d \<or> cs_color k \<noteq> cr_color d \<or> cs_size k \<noteq> cr_size d \<or>
     \<not> objects_same (cs_attributes k) (cr_attributes d) \<or> \<not> cs_active k"

definition upc_owner_conflict :: "catalog_state \<Rightarrow> catalog_row \<Rightarrow> string option" where
  "upc_owner_conflict st d =
     (case get_by cs_upc (cr_upc d) (st_skus st) of
        None \<Rightarrow> None
      | Some owner \<Rightarrow> if cs_code owner \<noteq> cr_sku d then Some (cs_code owner) else None)"

definition sku_style_conflict :: "catalog_state \<Rightarrow> catalog_row \<Rightarrow> string option" where
  "sku_style_conflict st d =
     (case get_by cs_code (cr_sku d) (st_skus st) of
        None \<Rightarrow> None
      | Some k \<Rightarrow>
          (case get_by ps_id (cs_style k) (st_styles st) of
             None \<Rightarrow> None
           | Some s \<Rightarrow> if ps_code s \<noteq> cr_style_code d then Some (ps_code s) else None))"

definition database_conflicts :: "catalog_state \<Rightarrow> parsed_row \<Rightarrow> parsed_row" where
  "database_conflicts st row =
     (case pr_data row of
        None \<Rightarrow> row
      | Some d \<Rightarrow>
          if pr_issues row \<noteq> [] then row
          else row\<lparr>pr_issues :=
            (case upc_owner_conflict st d of
               None \<Rightarrow> []
             | Some code \<Rightarrow> [row_issue row ''upc'' ''existing_upc_conflict'' (Some (cr_upc d)) (ExistingSku code)]) @
            (case sku_style_conflict st d of
               None \<Rightarrow> []
             | Some code \<Rightarrow> [row_issue row ''sku'' ''existing_sku_style_conflict'' (Some (cr_sku d)) (ExistingStyle code)])\<rparr>)"

definition append_database_conflicts :: "catalog_state \<Rightarrow> parsed_row list \<Rightarrow> parsed_row list" where
  "append_database_conflicts st rows = map (database_conflicts st) rows"

subsection \<open>The effect of the rows\<close>

definition od_setdefault :: "'k \<Rightarrow> 'v \<Rightarrow> ('k, 'v) odict \<Rightarrow> ('k, 'v) odict" where
  "od_setdefault k v d = (case od_get d k of None \<Rightarrow> od_set k v d | Some _ \<Rightarrow> d)"

definition style_data :: "catalog_row list \<Rightarrow> (string, catalog_row) odict" where
  "style_data ds = fold (\<lambda>d. od_setdefault (cr_style_code d) d) ds []"

definition sku_data :: "catalog_row list \<Rightarrow> (string, catalog_row) odict" where
  "sku_data ds = fold (\<lambda>d. od_setdefault (cr_sku d) d) ds []"

definition epc_data :: "catalog_row list \<Rightarrow> (string, catalog_row) odict" where
  "epc_data ds = fold (\<lambda>d. od_set (cr_epc d) d) ds []"

definition no_counts :: counters where
  "no_counts = \<lparr>inserted = 0, updated = 0, unchanged = 0, deactivated = 0\<rparr>"

fun count_action :: "row_action \<Rightarrow> counters \<Rightarrow> counters" where
  "count_action ACTION_INSERT c = c\<lparr>inserted := inserted c + 1\<rparr>"
| "count_action ACTION_UPDATE c = c\<lparr>updated := updated c + 1\<rparr>"
| "count_action ACTION_UNCHANGED c = c\<lparr>unchanged := unchanged c + 1\<rparr>"

definition tally :: "('a \<Rightarrow> row_action) \<Rightarrow> 'a list \<Rightarrow> counters" where
  "tally f xs = fold (\<lambda>x. count_action (f x)) xs no_counts"

definition preview_style :: "catalog_state \<Rightarrow> string \<times> catalog_row \<Rightarrow> row_action" where
  "preview_style st p =
     (case get_by ps_code (fst p) (st_styles st) of
        None \<Rightarrow> ACTION_INSERT
      | Some s \<Rightarrow> if style_changed s (snd p) then ACTION_UPDATE else ACTION_UNCHANGED)"

definition preview_sku :: "catalog_state \<Rightarrow> string \<times> catalog_row \<Rightarrow> row_action" where
  "preview_sku st p =
     (case get_by cs_code (fst p) (st_skus st) of
        None \<Rightarrow> ACTION_INSERT
      | Some k \<Rightarrow>
          (case get_by ps_code (cr_style_code (snd p)) (st_styles st) of
             None \<Rightarrow> ACTION_UPDATE
           | Some s \<Rightarrow> if sku_changed k s (snd p) then ACTION_UPDATE else ACTION_UNCHANGED))"

definition bound_to :: "catalog_state \<Rightarrow> catalog_binding \<Rightarrow> string \<Rightarrow> bool" where
  "bound_to st b code \<longleftrightarrow>
     (case get_by cs_id (eb_sku b) (st_skus st) of None \<Rightarrow> False | Some k \<Rightarrow> cs_code k = code)"

definition preview_epc :: "catalog_state \<Rightarrow> string \<times> catalog_row \<Rightarrow> row_action" where
  "preview_epc st p =
     (case get_by eb_epc (fst p) (st_bindings st) of
        None \<Rightarrow> ACTION_INSERT
      | Some b \<Rightarrow> if bound_to st b (cr_sku (snd p)) then ACTION_UNCHANGED else ACTION_UPDATE)"

definition deactivating :: "import_mode \<Rightarrow> ('a \<Rightarrow> bool) \<Rightarrow> 'a list \<Rightarrow> counters \<Rightarrow> counters" where
  "deactivating mode P xs c =
     (if mode = MODE_FULL then c\<lparr>deactivated := int (length (filter P xs))\<rparr> else c)"

definition build_preview :: "import_mode \<Rightarrow> catalog_row list \<Rightarrow> catalog_state \<Rightarrow> entity_counts" where
  "build_preview mode ds st =
     \<lparr>ec_styles = deactivating mode (\<lambda>s. ps_active s \<and> ps_code s \<notin> od_keys (style_data ds)) (st_styles st)
        (tally (preview_style st) (style_data ds)),
      ec_skus = deactivating mode (\<lambda>k. cs_active k \<and> cs_code k \<notin> od_keys (sku_data ds)) (st_skus st)
        (tally (preview_sku st) (sku_data ds)),
      ec_bindings = deactivating mode (\<lambda>b. eb_epc b \<notin> od_keys (epc_data ds)) (st_bindings st)
        (tally (preview_epc st) (epc_data ds))\<rparr>"

definition action_of_row :: "catalog_state \<Rightarrow> catalog_row \<Rightarrow> row_action" where
  "action_of_row st d =
     (case (get_by ps_code (cr_style_code d) (st_styles st), get_by cs_code (cr_sku d) (st_skus st),
            get_by eb_epc (cr_epc d) (st_bindings st)) of
        (Some s, Some k, Some b) \<Rightarrow>
          if style_changed s d \<or> get_by ps_id (cs_style k) (st_styles st) = None \<or> sku_changed k s d \<or>
             \<not> bound_to st b (cr_sku d)
          then ACTION_UPDATE else ACTION_UNCHANGED
      | _ \<Rightarrow> ACTION_INSERT)"

definition row_actions :: "catalog_row list \<Rightarrow> catalog_state \<Rightarrow> (string, row_action) odict" where
  "row_actions ds st = fold (\<lambda>d. od_set (cr_epc d) (action_of_row st d)) ds []"

subsection \<open>Validating and staging\<close>

definition stage_row :: "catalog_import \<Rightarrow> (string, row_action) odict \<Rightarrow> parsed_row \<Rightarrow> staged_row" where
  "stage_row i actions row =
     \<lparr>sr_tenant = ci_tenant i, sr_import = ci_id i, sr_number = pr_number row, sr_cells = pr_cells row,
      sr_extra = pr_extra row, sr_data = pr_data row,
      sr_status = (if pr_issues row \<noteq> [] then ROW_INVALID else ROW_VALID),
      sr_action = (case pr_data row of
                     Some d \<Rightarrow> if pr_issues row = [] then od_get actions (cr_epc d) else None
                   | None \<Rightarrow> None)\<rparr>"

definition all_issues :: "issue list \<Rightarrow> parsed_row list \<Rightarrow> issue list" where
  "all_issues file_issues rows = file_issues @ concat (map pr_issues rows)"

definition invalid_row_numbers :: "issue list \<Rightarrow> int list" where
  "invalid_row_numbers issues = remdups (List.map_filter is_row issues)"

definition persist_issues :: "catalog_env \<Rightarrow> catalog_import \<Rightarrow> issue list \<Rightarrow> import_error list" where
  "persist_issues env i issues =
     map (\<lambda>(n, issue). \<lparr>ie_tenant = ci_tenant i, ie_id = ce_error_id env n, ie_import = ci_id i, ie_issue = issue\<rparr>)
       (enumerate 0 issues)"

text \<open>The import row that records the result of parsing its source against the catalog.\<close>

definition staged_import :: "catalog_import \<Rightarrow> issue list \<Rightarrow> parsed_row list \<Rightarrow> catalog_state \<Rightarrow> catalog_import" where
  "staged_import i file_issues rows st =
     (let issues = all_issues file_issues rows;
          invalid = int (length (invalid_row_numbers issues));
          valid = int (length rows) - invalid
      in i\<lparr>ci_total := int (length rows), ci_invalid := invalid, ci_valid := valid,
           ci_reconciliation :=
             \<lparr>rc_validation = Some \<lparr>vs_rows_received = int (length rows), vs_valid_rows = valid,
                                    vs_invalid_rows = invalid, vs_error_count = int (length issues)\<rparr>,
              rc_preview = (if issues = [] then Some (build_preview (ci_mode i) (normalized_rows rows) st) else None),
              rc_actual = None, rc_promotion_error = None\<rparr>,
           ci_status := (if issues \<noteq> [] then IMPORT_REJECTED else IMPORT_READY)\<rparr>)"

definition staged_row_key :: "staged_row \<Rightarrow> uuid \<times> int" where
  "staged_row_key r = (sr_import r, sr_number r)"

definition save_import :: "catalog_import \<Rightarrow> catalog_db \<Rightarrow> catalog_db" where
  "save_import i db = db\<lparr>cd_imports := update_where (\<lambda>j. ci_id j = ci_id i) (\<lambda>_. i) (cd_imports db)\<rparr>"

definition stage_import :: "catalog_env \<Rightarrow> catalog_import \<Rightarrow> string \<Rightarrow> catalog_db \<Rightarrow> (catalog_import \<times> catalog_db) outcome" where
  "stage_import env i content db =
     (let parsed = parse_catalog_csv (ce_io env) content;
          st = load_catalog_state (ci_tenant i) db;
          rows = append_database_conflicts st (pa_rows parsed);
          staged = map (stage_row i (row_actions (normalized_rows rows) st)) rows;
          i' = staged_import i (pa_issues parsed) rows st
      in if \<not> import_checks i' \<or> \<not> list_all (\<lambda>r. 2 \<le> sr_number r) staged \<or>
            \<not> distinct (map staged_row_key (cd_rows db @ staged))
         then Inl (IntegrityError ''catalog import staging'')
         else Inr (i', save_import i' (db\<lparr>cd_rows := cd_rows db @ staged,
                cd_errors := cd_errors db @ persist_issues env i (all_issues (pa_issues parsed) rows)\<rparr>)))"

definition validate_and_stage_catalog_import ::
    "catalog_env \<Rightarrow> uuid \<Rightarrow> catalog_db \<Rightarrow> (catalog_import \<times> catalog_db) outcome" where
  "validate_and_stage_catalog_import env import_id db =
     (case get_by ci_id import_id (cd_imports db) of
        None \<Rightarrow> Inl (ApiError 404 ''Catalog import not found'')
      | Some i \<Rightarrow>
          if ci_status i \<in> {IMPORT_READY, IMPORT_COMPLETED, IMPORT_REJECTED, IMPORT_FAILED} then Inr (i, db)
          else if ci_status i \<noteq> IMPORT_VALIDATING then Inl (ApiError 409 ''catalog_import_not_validatable'')
          else
            (case select_one (\<lambda>s. so_tenant s = ci_tenant i \<and> so_import s = ci_id i) (cd_sources db) of
               None \<Rightarrow> Inl (RuntimeFault ''catalog import source is missing'')
             | Some source \<Rightarrow>
                 if ce_sha256 env (so_content source) \<noteq> ci_checksum i
                 then Inl (RuntimeFault ''catalog import source checksum mismatch'')
                 else stage_import env i (so_content source) db))"

subsection \<open>Queries\<close>

definition get_catalog_import :: "uuid \<Rightarrow> uuid \<Rightarrow> catalog_db \<Rightarrow> catalog_import outcome" where
  "get_catalog_import tenant import_id db =
     (case select_one (\<lambda>i. ci_id i = import_id \<and> ci_tenant i = tenant) (cd_imports db) of
        None \<Rightarrow> Inl (ApiError 404 ''Catalog import not found'')
      | Some i \<Rightarrow> Inr i)"

text \<open>\<open>LIMIT ... OFFSET\<close>, and an ascending order with the missing values first.\<close>

definition page :: "nat \<Rightarrow> nat \<Rightarrow> 'a list \<Rightarrow> 'a list" where
  "page limit offset xs = take limit (drop offset xs)"

definition nulls_first :: "'a option \<Rightarrow> 'a list" where
  "nulls_first x = (case x of None \<Rightarrow> [] | Some a \<Rightarrow> [a])"

definition error_order :: "import_error \<Rightarrow> int list \<times> string list \<times> string \<times> uuid" where
  "error_order e = (nulls_first (is_row (ie_issue e)), nulls_first (is_field (ie_issue e)), is_code (ie_issue e), ie_id e)"

definition list_catalog_import_errors ::
    "uuid \<Rightarrow> uuid \<Rightarrow> nat \<Rightarrow> nat \<Rightarrow> catalog_db \<Rightarrow> (import_error list \<times> nat) outcome" where
  "list_catalog_import_errors tenant import_id limit offset db =
     and_then (get_catalog_import tenant import_id db) (\<lambda>_.
       let errors = filter (\<lambda>e. ie_tenant e = tenant \<and> ie_import e = import_id) (cd_errors db)
       in Inr (page limit offset (sort_key error_order errors), length errors))"

definition joined_skus :: "uuid \<Rightarrow> (catalog_sku \<Rightarrow> bool) \<Rightarrow> catalog_db \<Rightarrow> (catalog_sku \<times> catalog_style) list" where
  "joined_skus tenant P db =
     concat (map (\<lambda>k. map (Pair k) (filter (\<lambda>s. ps_id s = cs_style k \<and> ps_tenant s = tenant) (cd_styles db)))
       (filter (\<lambda>k. cs_tenant k = tenant \<and> P k) (cd_skus db)))"

definition list_skus ::
    "uuid \<Rightarrow> bool option \<Rightarrow> string option \<Rightarrow> nat \<Rightarrow> nat \<Rightarrow> catalog_db \<Rightarrow>
     ((catalog_sku \<times> catalog_style) list \<times> nat) outcome" where
  "list_skus tenant active code limit offset db =
     and_then (ensure (tenant \<in> set (cd_tenants db)) (ApiError 404 ''Tenant not found'')) (\<lambda>_.
       let rows = joined_skus tenant (\<lambda>k. (case active of None \<Rightarrow> True | Some a \<Rightarrow> cs_active k = a) \<and>
                    (case code of None \<Rightarrow> True | Some c \<Rightarrow> cs_code k = str_upper (strip c))) db
       in Inr (page limit offset (sort_key (\<lambda>p. (cs_code (fst p), cs_id (fst p))) rows), length rows))"

text \<open>\<open>SkuActivityFilter\<close>, with the spellings of the former boolean query.\<close>

datatype sku_activity = SKU_ACTIVE | SKU_INACTIVE | SKU_ALL

definition sku_activity_of :: "string \<Rightarrow> sku_activity option" where
  "sku_activity_of s =
     (let normalized = str_upper (strip s)
      in if normalized = ''TRUE'' \<or> normalized = ''ACTIVE'' then Some SKU_ACTIVE
         else if normalized = ''FALSE'' \<or> normalized = ''INACTIVE'' then Some SKU_INACTIVE
         else if normalized = ''ALL'' then Some SKU_ALL else None)"

fun activity_value :: "sku_activity \<Rightarrow> bool option" where
  "activity_value SKU_ACTIVE = Some True"
| "activity_value SKU_INACTIVE = Some False"
| "activity_value SKU_ALL = None"

definition get_sku :: "uuid \<Rightarrow> uuid \<Rightarrow> catalog_db \<Rightarrow> (catalog_sku \<times> catalog_style) outcome" where
  "get_sku tenant sku_id db =
     (case joined_skus tenant (\<lambda>k. cs_id k = sku_id) db of
        [] \<Rightarrow> Inl (ApiError 404 ''SKU not found'')
      | p # _ \<Rightarrow> Inr p)"

end
