(* ===== verification/Catalog_Promotion.thy ===== *)
theory Catalog_Promotion
  imports Catalog
begin

text \<open>
  Promoting a validated import into the catalog (\<open>_apply_promotion\<close>, \<open>_sync_architecture_catalog_projection\<close>
  and \<open>promote_catalog_import\<close> of \<open>services/catalog.py\<close>) and resolving an EPC at a time.  The promotion
  runs in a savepoint: a conflict or a broken constraint fails the import and leaves the catalog as it
  was; a value that does not fit its column (\<open>DataError\<close>) is not caught.
\<close>

subsection \<open>Failures inside the savepoint\<close>

datatype promotion_failure =
    PromotionConflict string
  | ConstraintFailure string
  | DataFailure string

type_synonym 'a promoting = "promotion_failure + 'a"

definition andp :: "'a promoting \<Rightarrow> ('a \<Rightarrow> 'b promoting) \<Rightarrow> 'b promoting" where
  "andp r k = (case r of Inl e \<Rightarrow> Inl e | Inr a \<Rightarrow> k a)"

lemma andp_simps [simp]: "andp (Inl e) k = Inl e" "andp (Inr a) k = k a"
  by (simp_all add: andp_def)

lemma andp_Inr_iff: "andp r k = Inr b \<longleftrightarrow> (\<exists>a. r = Inr a \<and> k a = Inr b)"
  by (cases r) auto

text \<open>A loop over the entries of a dictionary that may raise.\<close>

fun each :: "('a \<Rightarrow> 's \<Rightarrow> 's promoting) \<Rightarrow> 'a list \<Rightarrow> 's \<Rightarrow> 's promoting" where
  "each f [] s = Inr s"
| "each f (x # xs) s = andp (f x s) (each f xs)"

lemma each_append: "each f (xs @ ys) s = andp (each f xs s) (each f ys)"
  by (induction xs arbitrary: s) (auto simp: andp_def split: sum.split)

definition require :: "bool \<Rightarrow> promotion_failure \<Rightarrow> 's \<Rightarrow> 's promoting" where
  "require b e s = (if b then Inr s else Inl e)"

lemma require_Inr_iff [simp]: "require b e s = Inr s' \<longleftrightarrow> b \<and> s' = s"
  by (auto simp: require_def)

subsection \<open>The conflict check\<close>

definition check_conflicts :: "catalog_state \<Rightarrow> string \<times> catalog_row \<Rightarrow> unit \<Rightarrow> unit promoting" where
  "check_conflicts st p u =
     (case upc_owner_conflict st (snd p) of
        Some code \<Rightarrow> Inl (PromotionConflict (''UPC '' @ cr_upc (snd p) @ '' now belongs to SKU '' @ code @
                           ''; revalidate the import.''))
      | None \<Rightarrow>
          (case sku_style_conflict st (snd p) of
             Some code \<Rightarrow> Inl (PromotionConflict (''SKU '' @ fst p @ '' now belongs to style '' @ code @
                                ''; revalidate the import.''))
           | None \<Rightarrow> Inr ()))"

subsection \<open>Styles, SKUs and bindings\<close>

type_synonym promotion = "counters \<times> catalog_db"

definition find_style :: "uuid \<Rightarrow> string \<Rightarrow> catalog_db \<Rightarrow> catalog_style option" where
  "find_style tenant code db = get_by (\<lambda>s. (ps_tenant s, ps_code s)) (tenant, code) (cd_styles db)"

definition find_sku :: "uuid \<Rightarrow> string \<Rightarrow> catalog_db \<Rightarrow> catalog_sku option" where
  "find_sku tenant code db = get_by (\<lambda>k. (cs_tenant k, cs_code k)) (tenant, code) (cd_skus db)"

definition open_binding :: "uuid \<Rightarrow> string \<Rightarrow> catalog_db \<Rightarrow> catalog_binding option" where
  "open_binding tenant epc db =
     select_one (\<lambda>b. eb_tenant b = tenant \<and> eb_epc b = epc \<and> eb_to b = None) (cd_bindings db)"

definition new_style :: "catalog_env \<Rightarrow> uuid \<Rightarrow> string \<Rightarrow> catalog_row \<Rightarrow> catalog_style" where
  "new_style env tenant code d =
     \<lparr>ps_tenant = tenant, ps_id = ce_style_id env code, ps_code = code, ps_name = cr_style_name d,
      ps_attributes = cr_style_attributes d, ps_active = True\<rparr>"

definition rewritten_style :: "catalog_row \<Rightarrow> catalog_style \<Rightarrow> catalog_style" where
  "rewritten_style d s = s\<lparr>ps_name := cr_style_name d, ps_attributes := cr_style_attributes d, ps_active := True\<rparr>"

definition promote_style :: "catalog_env \<Rightarrow> uuid \<Rightarrow> string \<times> catalog_row \<Rightarrow> promotion \<Rightarrow> promotion promoting" where
  "promote_style env tenant p cdb =
     (let (code, d) = p; (c, db) = cdb
      in case find_style tenant code db of
           None \<Rightarrow>
             let s = new_style env tenant code d
             in andp (require (ps_id s \<notin> ps_id ` set (cd_styles db)) (ConstraintFailure ''product_styles_pkey'') ()) (\<lambda>_.
                andp (require (str_upper code = code) (ConstraintFailure ''ck_product_styles_code_uppercase'') ()) (\<lambda>_.
                Inr (count_action ACTION_INSERT c, db\<lparr>cd_styles := cd_styles db @ [s]\<rparr>)))
         | Some s \<Rightarrow>
             if style_changed s d then
               Inr (count_action ACTION_UPDATE c,
                 db\<lparr>cd_styles := update_where (\<lambda>s. ps_tenant s = tenant \<and> ps_code s = code) (rewritten_style d) (cd_styles db)\<rparr>)
             else Inr (count_action ACTION_UNCHANGED c, db))"

definition new_sku :: "catalog_env \<Rightarrow> uuid \<Rightarrow> uuid \<Rightarrow> string \<Rightarrow> catalog_row \<Rightarrow> catalog_sku" where
  "new_sku env tenant style code d =
     \<lparr>cs_tenant = tenant, cs_id = ce_sku_id env code, cs_style = style, cs_variant = None, cs_code = code,
      cs_upc = cr_upc d, cs_color = cr_color d, cs_size = cr_size d, cs_attributes = cr_attributes d,
      cs_active = True\<rparr>"

definition rewritten_sku :: "uuid \<Rightarrow> catalog_row \<Rightarrow> catalog_sku \<Rightarrow> catalog_sku" where
  "rewritten_sku style d k =
     k\<lparr>cs_style := style, cs_upc := cr_upc d, cs_color := cr_color d, cs_size := cr_size d,
       cs_attributes := cr_attributes d, cs_active := True\<rparr>"

text \<open>\<open>uq_skus_tenant_upc\<close>, for a row that is to hold this UPC.\<close>

definition upc_free :: "uuid \<Rightarrow> string \<Rightarrow> string \<Rightarrow> catalog_db \<Rightarrow> bool" where
  "upc_free tenant code upc db \<longleftrightarrow>
     list_all (\<lambda>k. cs_tenant k = tenant \<and> cs_upc k = upc \<longrightarrow> cs_code k = code) (cd_skus db)"

definition promote_sku :: "catalog_env \<Rightarrow> uuid \<Rightarrow> string \<times> catalog_row \<Rightarrow> promotion \<Rightarrow> promotion promoting" where
  "promote_sku env tenant p cdb =
     (let (code, d) = p; (c, db) = cdb
      in case find_style tenant (cr_style_code d) db of
           None \<Rightarrow> Inl (DataFailure ''KeyError'')
         | Some s \<Rightarrow>
             (case find_sku tenant code db of
                None \<Rightarrow>
                  let k = new_sku env tenant (ps_id s) code d
                  in andp (require (cs_id k \<notin> cs_id ` set (cd_skus db)) (ConstraintFailure ''skus_pkey'') ()) (\<lambda>_.
                     andp (require (str_upper code = code) (ConstraintFailure ''ck_skus_code_uppercase'') ()) (\<lambda>_.
                     andp (require (upc_free tenant code (cr_upc d) db) (ConstraintFailure ''uq_skus_tenant_upc'') ()) (\<lambda>_.
                     Inr (count_action ACTION_INSERT c, db\<lparr>cd_skus := cd_skus db @ [k]\<rparr>))))
              | Some k \<Rightarrow>
                  if sku_changed k s d then
                    andp (require (upc_free tenant code (cr_upc d) db) (ConstraintFailure ''uq_skus_tenant_upc'') ()) (\<lambda>_.
                    Inr (count_action ACTION_UPDATE c,
                      db\<lparr>cd_skus := update_where (\<lambda>k. cs_tenant k = tenant \<and> cs_code k = code)
                                      (rewritten_sku (ps_id s) d) (cd_skus db)\<rparr>))
                  else Inr (count_action ACTION_UNCHANGED c, db)))"

definition new_binding :: "catalog_import \<Rightarrow> timestamp \<Rightarrow> uuid \<Rightarrow> string \<Rightarrow> catalog_binding" where
  "new_binding i effective_at sku_id epc =
     \<lparr>eb_tenant = ci_tenant i, eb_sku = sku_id, eb_epc = epc, eb_from = effective_at, eb_to = None,
      eb_source = ci_id i\<rparr>"

text \<open>Setting \<open>effective_to\<close> on some open bindings, with the check on their intervals at the flush.\<close>

definition close_bindings ::
    "uuid \<Rightarrow> timestamp \<Rightarrow> (string \<Rightarrow> bool) \<Rightarrow> catalog_db \<Rightarrow> catalog_db promoting" where
  "close_bindings tenant effective_at P db =
     (let closing = (\<lambda>b. eb_tenant b = tenant \<and> eb_to b = None \<and> P (eb_epc b))
      in require (list_all (\<lambda>b. closing b \<longrightarrow> eb_from b < effective_at) (cd_bindings db))
           (ConstraintFailure ''ck_epc_bindings_valid_interval'')
           (db\<lparr>cd_bindings := update_where closing (\<lambda>b. b\<lparr>eb_to := Some effective_at\<rparr>) (cd_bindings db)\<rparr>))"

definition promote_binding ::
    "catalog_import \<Rightarrow> timestamp \<Rightarrow> string \<times> catalog_row \<Rightarrow> promotion \<Rightarrow> promotion promoting" where
  "promote_binding i effective_at p cdb =
     (let (epc, d) = p; (c, db) = cdb; tenant = ci_tenant i
      in case find_sku tenant (cr_sku d) db of
           None \<Rightarrow> Inl (DataFailure ''KeyError'')
         | Some k \<Rightarrow>
             let added = (\<lambda>db. db\<lparr>cd_bindings := cd_bindings db @ [new_binding i effective_at (cs_id k) epc]\<rparr>)
             in case open_binding tenant epc db of
                  None \<Rightarrow> Inr (count_action ACTION_INSERT c, added db)
                | Some b \<Rightarrow>
                    if eb_sku b \<noteq> cs_id k then
                      andp (close_bindings tenant effective_at (\<lambda>e. e = epc) db) (\<lambda>db.
                      Inr (count_action ACTION_UPDATE c, added db))
                    else Inr (count_action ACTION_UNCHANGED c, db))"

subsection \<open>Replacing the catalog\<close>

definition inactive_sku :: "catalog_sku \<Rightarrow> catalog_sku" where
  "inactive_sku k = k\<lparr>cs_active := False\<rparr>"

definition inactive_style :: "catalog_style \<Rightarrow> catalog_style" where
  "inactive_style s = s\<lparr>ps_active := False\<rparr>"

definition missing_skus :: "uuid \<Rightarrow> catalog_row list \<Rightarrow> catalog_sku \<Rightarrow> bool" where
  "missing_skus tenant ds k \<longleftrightarrow> cs_tenant k = tenant \<and> cs_code k \<notin> od_keys (sku_data ds) \<and> cs_active k"

definition missing_styles :: "uuid \<Rightarrow> catalog_row list \<Rightarrow> catalog_style \<Rightarrow> bool" where
  "missing_styles tenant ds s \<longleftrightarrow> ps_tenant s = tenant \<and> ps_code s \<notin> od_keys (style_data ds) \<and> ps_active s"

definition missing_bindings :: "uuid \<Rightarrow> catalog_row list \<Rightarrow> catalog_binding \<Rightarrow> bool" where
  "missing_bindings tenant ds b \<longleftrightarrow> eb_tenant b = tenant \<and> eb_epc b \<notin> od_keys (epc_data ds) \<and> eb_to b = None"

definition deactivated_by :: "int \<Rightarrow> counters \<Rightarrow> counters" where
  "deactivated_by n c = c\<lparr>deactivated := deactivated c + n\<rparr>"

definition deactivate_missing ::
    "uuid \<Rightarrow> timestamp \<Rightarrow> catalog_row list \<Rightarrow> entity_counts \<times> catalog_db \<Rightarrow> (entity_counts \<times> catalog_db) promoting" where
  "deactivate_missing tenant effective_at ds cdb =
     (let (c, db) = cdb;
          c' = \<lparr>ec_styles = deactivated_by (int (length (filter (missing_styles tenant ds) (cd_styles db)))) (ec_styles c),
                ec_skus = deactivated_by (int (length (filter (missing_skus tenant ds) (cd_skus db)))) (ec_skus c),
                ec_bindings = deactivated_by (int (length (filter (missing_bindings tenant ds) (cd_bindings db)))) (ec_bindings c)\<rparr>;
          db1 = db\<lparr>cd_skus := update_where (missing_skus tenant ds) inactive_sku (cd_skus db),
                   cd_styles := update_where (missing_styles tenant ds) inactive_style (cd_styles db)\<rparr>
      in andp (close_bindings tenant effective_at (\<lambda>e. e \<notin> od_keys (epc_data ds)) db1) (\<lambda>db2. Inr (c', db2)))"

definition apply_promotion ::
    "catalog_env \<Rightarrow> catalog_import \<Rightarrow> catalog_row list \<Rightarrow> timestamp \<Rightarrow> catalog_db \<Rightarrow>
     (entity_counts \<times> catalog_db) promoting" where
  "apply_promotion env i ds effective_at db =
     (let tenant = ci_tenant i
      in andp (each (check_conflicts (load_catalog_state tenant db)) (sku_data ds) ()) (\<lambda>_.
         andp (each (promote_style env tenant) (style_data ds) (no_counts, db)) (\<lambda>(styles, db1).
         andp (each (promote_sku env tenant) (sku_data ds) (no_counts, db1)) (\<lambda>(skus, db2).
         andp (each (promote_binding i effective_at) (epc_data ds) (no_counts, db2)) (\<lambda>(bindings, db3).
         let c = \<lparr>ec_styles = styles, ec_skus = skus, ec_bindings = bindings\<rparr>
         in if ci_mode i = MODE_FULL then deactivate_missing tenant effective_at ds (c, db3)
            else Inr (c, db3))))))"

subsection \<open>The product hierarchy and the tag projection\<close>

text \<open>Python's truth value of a JSON value.\<close>

definition json_truthy :: "json \<Rightarrow> bool" where
  "json_truthy j = (case j of JNull \<Rightarrow> False | JBool b \<Rightarrow> b | JInt i \<Rightarrow> i \<noteq> 0 | JFloat r \<Rightarrow> r \<noteq> 0
     | JInfinity _ \<Rightarrow> True | JString s \<Rightarrow> s \<noteq> [] | JArray xs \<Rightarrow> xs \<noteq> [] | JObject ms \<Rightarrow> ms \<noteq> [])"

definition product_category :: "catalog_env \<Rightarrow> catalog_row \<Rightarrow> string" where
  "product_category env d =
     strip (case map_of (cr_style_attributes d) ''category'' of
       None \<Rightarrow> ''UNCATEGORIZED''
     | Some j \<Rightarrow>
         if \<not> json_truthy j then ''UNCATEGORIZED''
         else case j of JString s \<Rightarrow> s | _ \<Rightarrow> ce_py_str env j)"

definition last_by_style :: "catalog_row list \<Rightarrow> (string, catalog_row) odict" where
  "last_by_style ds = fold (\<lambda>d. od_set (cr_style_code d) d) ds []"

definition find_product :: "uuid \<Rightarrow> string \<Rightarrow> catalog_db \<Rightarrow> catalog_product option" where
  "find_product tenant code db = get_by (\<lambda>p. (cp_tenant p, cp_style_code p)) (tenant, code) (cd_products db)"

definition new_product :: "catalog_env \<Rightarrow> uuid \<Rightarrow> string \<Rightarrow> catalog_row \<Rightarrow> catalog_product" where
  "new_product env tenant code d =
     \<lparr>cp_tenant = tenant, cp_id = ce_product_id env code, cp_style_code = code, cp_name = cr_style_name d,
      cp_category = product_category env d, cp_attributes = cr_style_attributes d, cp_active = True\<rparr>"

definition rewritten_product :: "catalog_env \<Rightarrow> catalog_row \<Rightarrow> catalog_product \<Rightarrow> catalog_product" where
  "rewritten_product env d p =
     p\<lparr>cp_name := cr_style_name d, cp_category := product_category env d,
       cp_attributes := cr_style_attributes d, cp_active := True\<rparr>"

definition sync_product :: "catalog_env \<Rightarrow> uuid \<Rightarrow> string \<times> catalog_row \<Rightarrow> catalog_db \<Rightarrow> catalog_db promoting" where
  "sync_product env tenant p db =
     (let (code, d) = p
      in andp (require (length (product_category env d) \<le> 128) (DataFailure ''products.category'') ()) (\<lambda>_.
         case find_product tenant code db of
           None \<Rightarrow>
             require (ce_product_id env code \<notin> cp_id ` set (cd_products db)) (ConstraintFailure ''products_pkey'')
               (db\<lparr>cd_products := cd_products db @ [new_product env tenant code d]\<rparr>)
         | Some _ \<Rightarrow>
             Inr (db\<lparr>cd_products := update_where (\<lambda>p. cp_tenant p = tenant \<and> cp_style_code p = code)
                        (rewritten_product env d) (cd_products db)\<rparr>)))"

definition find_variant :: "uuid \<Rightarrow> uuid \<Rightarrow> string \<Rightarrow> catalog_db \<Rightarrow> catalog_variant option" where
  "find_variant tenant product color db =
     get_by (\<lambda>v. (cv_tenant v, cv_product v, cv_color v)) (tenant, product, color) (cd_variants db)"

definition sync_variant ::
    "catalog_env \<Rightarrow> uuid \<Rightarrow> uuid \<Rightarrow> catalog_row \<Rightarrow> catalog_db \<Rightarrow> (uuid \<times> catalog_db) promoting" where
  "sync_variant env tenant product d db =
     (case find_variant tenant product (cr_color d) db of
        None \<Rightarrow>
          let v = ce_variant_id env (cr_style_code d, cr_color d)
          in require (v \<notin> cv_id ` set (cd_variants db)) (ConstraintFailure ''product_variants_pkey'')
               (v, db\<lparr>cd_variants := cd_variants db @ [\<lparr>cv_tenant = tenant, cv_id = v, cv_product = product,
                        cv_color = cr_color d, cv_active = True\<rparr>]\<rparr>)
      | Some v \<Rightarrow>
          Inr (cv_id v, db\<lparr>cd_variants := update_where (\<lambda>w. cv_id w = cv_id v) (\<lambda>w. w\<lparr>cv_active := True\<rparr>) (cd_variants db)\<rparr>))"

definition sync_tag :: "catalog_import \<Rightarrow> uuid \<Rightarrow> string \<Rightarrow> rfid_tag list \<Rightarrow> rfid_tag list" where
  "sync_tag i sku_id epc tags =
     put_by (\<lambda>t. (rt_tenant t, rt_epc t))
       \<lparr>rt_tenant = ci_tenant i, rt_epc = epc, rt_sku = sku_id, rt_source = ci_id i, rt_active = True\<rparr> tags"

definition sync_row :: "catalog_env \<Rightarrow> catalog_import \<Rightarrow> catalog_row \<Rightarrow> catalog_db \<Rightarrow> catalog_db promoting" where
  "sync_row env i d db =
     (let tenant = ci_tenant i
      in case find_product tenant (cr_style_code d) db of
           None \<Rightarrow> Inl (DataFailure ''KeyError'')
         | Some p \<Rightarrow>
             andp (sync_variant env tenant (cp_id p) d db) (\<lambda>(v, db1).
             case find_sku tenant (cr_sku d) db1 of
               None \<Rightarrow> Inl (PromotionConflict (''SKU '' @ cr_sku d @ '' was not promoted''))
             | Some k \<Rightarrow>
                 Inr (db1\<lparr>cd_skus := update_where (\<lambda>k. cs_tenant k = tenant \<and> cs_code k = cr_sku d)
                                       (\<lambda>k. k\<lparr>cs_variant := Some v\<rparr>) (cd_skus db1),
                          cd_tags := sync_tag i (cs_id k) (cr_epc d) (cd_tags db1)\<rparr>)))"

definition supplied_variant :: "catalog_row list \<Rightarrow> catalog_db \<Rightarrow> catalog_variant \<Rightarrow> bool" where
  "supplied_variant ds db v \<longleftrightarrow>
     (case get_by cp_id (cv_product v) (cd_products db) of
        None \<Rightarrow> False
      | Some p \<Rightarrow> (cp_style_code p, cv_color v) \<in> set (map (\<lambda>d. (cr_style_code d, cr_color d)) ds))"

definition deactivate_projection :: "uuid \<Rightarrow> catalog_row list \<Rightarrow> catalog_db \<Rightarrow> catalog_db" where
  "deactivate_projection tenant ds db =
     db\<lparr>cd_products := update_where (\<lambda>p. cp_tenant p = tenant \<and> cp_style_code p \<notin> set (map cr_style_code ds))
                          (\<lambda>p. p\<lparr>cp_active := False\<rparr>) (cd_products db),
        cd_variants := update_where (\<lambda>v. cv_tenant v = tenant \<and> \<not> supplied_variant ds db v)
                          (\<lambda>v. v\<lparr>cv_active := False\<rparr>) (cd_variants db),
        cd_tags := update_where (\<lambda>t. rt_tenant t = tenant \<and> rt_epc t \<notin> set (map cr_epc ds))
                          (\<lambda>t. t\<lparr>rt_active := False\<rparr>) (cd_tags db)\<rparr>"

definition sync_architecture_catalog_projection ::
    "catalog_env \<Rightarrow> catalog_import \<Rightarrow> catalog_row list \<Rightarrow> catalog_db \<Rightarrow> catalog_db promoting" where
  "sync_architecture_catalog_projection env i ds db =
     andp (each (sync_product env (ci_tenant i)) (last_by_style ds) db) (\<lambda>db1.
     andp (each (sync_row env i) ds db1) (\<lambda>db2.
     Inr (if ci_mode i = MODE_FULL then deactivate_projection (ci_tenant i) ds db2 else db2)))"

subsection \<open>Promoting an import\<close>

definition sum_counts :: "(counters \<Rightarrow> int) \<Rightarrow> entity_counts \<Rightarrow> int" where
  "sum_counts f c = f (ec_styles c) + f (ec_skus c) + f (ec_bindings c)"

definition completed_import :: "timestamp \<Rightarrow> entity_counts \<Rightarrow> catalog_import \<Rightarrow> catalog_import" where
  "completed_import effective_at c i =
     i\<lparr>ci_inserted := sum_counts inserted c, ci_updated := sum_counts updated c,
       ci_unchanged := sum_counts unchanged c, ci_deactivated := sum_counts deactivated c,
       ci_reconciliation := (ci_reconciliation i)\<lparr>rc_actual := Some (effective_at, c)\<rparr>,
       ci_failure := None, ci_promoted_at := Some effective_at, ci_status := IMPORT_COMPLETED\<rparr>"

definition failed_import :: "string \<Rightarrow> catalog_import \<Rightarrow> catalog_import" where
  "failed_import reason i =
     i\<lparr>ci_status := IMPORT_FAILED, ci_failure := Some (take 2000 reason),
       ci_reconciliation := (ci_reconciliation i)\<lparr>rc_promotion_error := Some (take 500 reason)\<rparr>\<rparr>"

definition valid_staged_rows :: "catalog_import \<Rightarrow> catalog_db \<Rightarrow> staged_row list" where
  "valid_staged_rows i db =
     sort_key sr_number (filter (\<lambda>r. sr_tenant r = ci_tenant i \<and> sr_import r = ci_id i \<and> sr_status r = ROW_VALID)
       (cd_rows db))"

definition reread_row :: "staged_row \<Rightarrow> catalog_row outcome" where
  "reread_row r =
     (case sr_data r of
        None \<Rightarrow> Inl (ValueError ''CatalogRowData'')
      | Some d \<Rightarrow> (case validate_catalog_row d of Inl _ \<Rightarrow> Inl (ValueError ''CatalogRowData'') | Inr d' \<Rightarrow> Inr d'))"

definition run_promotion ::
    "catalog_env \<Rightarrow> catalog_import \<Rightarrow> catalog_row list \<Rightarrow> catalog_db \<Rightarrow> (entity_counts \<times> catalog_db) promoting" where
  "run_promotion env i ds db =
     andp (apply_promotion env i ds (ce_now env) db) (\<lambda>(c, db1).
     andp (sync_architecture_catalog_projection env i ds db1) (\<lambda>db2. Inr (c, db2)))"

definition promote_rows ::
    "catalog_env \<Rightarrow> catalog_import \<Rightarrow> catalog_row list \<Rightarrow> catalog_db \<Rightarrow> (catalog_import \<times> catalog_db) outcome" where
  "promote_rows env i ds db =
     (case run_promotion env i ds db of
        Inl (DataFailure reason) \<Rightarrow> Inl (RuntimeFault reason)
      | Inl (PromotionConflict reason) \<Rightarrow> Inr (failed_import reason i, save_import (failed_import reason i) db)
      | Inl (ConstraintFailure reason) \<Rightarrow> Inr (failed_import reason i, save_import (failed_import reason i) db)
      | Inr (c, db1) \<Rightarrow>
          Inr (completed_import (ce_now env) c i, save_import (completed_import (ce_now env) c i) db1))"

definition promote_catalog_import ::
    "catalog_env \<Rightarrow> uuid \<Rightarrow> catalog_db \<Rightarrow> (catalog_import \<times> catalog_db) outcome" where
  "promote_catalog_import env import_id db =
     (case get_by ci_id import_id (cd_imports db) of
        None \<Rightarrow> Inl (ApiError 404 ''Catalog import not found'')
      | Some i \<Rightarrow>
          if ci_status i = IMPORT_COMPLETED then Inr (i, db)
          else if ci_status i \<noteq> IMPORT_READY then Inl (ApiError 409 ''catalog_import_not_ready'')
          else if ci_tenant i \<notin> set (cd_tenants db) then Inl (ApiError 404 ''Tenant not found'')
          else let staged = valid_staged_rows i db
               in if int (length staged) \<noteq> ci_valid i \<or> staged = []
                  then Inl (ApiError 409 ''catalog_staging_incomplete'')
                  else and_then (map_outcome reread_row staged) (\<lambda>ds. promote_rows env i ds db))"

subsection \<open>Resolving an EPC\<close>

definition binding_at :: "timestamp \<Rightarrow> catalog_binding \<Rightarrow> bool" where
  "binding_at observed_at b \<longleftrightarrow>
     eb_from b \<le> observed_at \<and> (case eb_to b of None \<Rightarrow> True | Some t \<Rightarrow> observed_at < t)"

definition resolve_active_epc :: "uuid \<Rightarrow> string \<Rightarrow> timestamp \<Rightarrow> catalog_db \<Rightarrow> catalog_binding option" where
  "resolve_active_epc tenant epc observed_at db =
     (case normalize_epc epc of
        Inl _ \<Rightarrow> None
      | Inr normalized \<Rightarrow>
          best_by eb_from (filter (\<lambda>b. eb_tenant b = tenant \<and> eb_epc b = normalized \<and> binding_at observed_at b)
            (cd_bindings db)))"

end
