(* ===== verification/Catalog_Effects.thy ===== *)
theory Catalog_Effects
  imports Catalog_Promotion
begin

text \<open>
  What a promotion does to the catalog.  Each of its loops writes one keyed table; the locale states
  what one iteration promises (the entry written is right, the others are left alone, the counter
  follows from the row found) and lifts it to the loop.  The interpretations are the loops of the code.
\<close>

subsection \<open>Loops over a dictionary\<close>

locale keyed_writes =
  fixes step :: "'k \<times> 'v \<Rightarrow> 's \<Rightarrow> 's promoting" and ok :: "'k \<times> 'v \<Rightarrow> bool"
    and look :: "'k \<Rightarrow> 's \<Rightarrow> 'r option" and good :: "'k \<times> 'v \<Rightarrow> 'r \<Rightarrow> bool" and inv :: "'s \<Rightarrow> bool"
  assumes step_inv: "inv s \<Longrightarrow> ok p \<Longrightarrow> step p s = Inr s' \<Longrightarrow> inv s'"
    and step_writes: "inv s \<Longrightarrow> ok p \<Longrightarrow> step p s = Inr s' \<Longrightarrow> \<exists>r. look (fst p) s' = Some r \<and> good p r"
    and step_frame: "inv s \<Longrightarrow> step p s = Inr s' \<Longrightarrow> k \<noteq> fst p \<Longrightarrow> look k s' = look k s"
begin

lemma loop_inv:
  assumes "each step ps s = Inr s'" "inv s" "list_all ok ps"
  shows "inv s'"
  using assms by (induction ps arbitrary: s) (auto simp: andp_Inr_iff intro: step_inv)

lemma loop_frame:
  assumes "each step ps s = Inr s'" "inv s" "list_all ok ps" "k \<notin> fst ` set ps"
  shows "look k s' = look k s"
  using assms
proof (induction ps arbitrary: s)
  case (Cons q ps)
  obtain t where t: "step q s = Inr t" "each step ps t = Inr s'" using Cons.prems by (auto simp: andp_Inr_iff)
  have "inv t" using step_inv [OF Cons.prems(2) _ t(1)] Cons.prems(3) by simp
  moreover have "look k t = look k s" using Cons.prems(4) by (intro step_frame [OF Cons.prems(2) t(1)]) simp
  ultimately show ?case using Cons.IH [OF t(2)] Cons.prems(3,4) by simp
qed simp

lemma loop_writes:
  assumes "each step ps s = Inr s'" "inv s" "list_all ok ps" "distinct (map fst ps)" "p \<in> set ps"
  shows "\<exists>r. look (fst p) s' = Some r \<and> good p r"
  using assms
proof (induction ps arbitrary: s)
  case (Cons q ps)
  obtain t where t: "step q s = Inr t" "each step ps t = Inr s'" using Cons.prems by (auto simp: andp_Inr_iff)
  have inv: "inv t" using step_inv [OF Cons.prems(2) _ t(1)] Cons.prems(3) by simp
  show ?case
  proof (cases "p = q")
    case True
    then have "look (fst p) s' = look (fst p) t"
      using Cons.prems(3,4) by (intro loop_frame [OF t(2) inv]) simp_all
    then show ?thesis using step_writes [OF Cons.prems(2) _ t(1)] Cons.prems(3) True by simp
  next
    case False
    then show ?thesis using Cons.prems by (intro Cons.IH [OF t(2) inv]) simp_all
  qed
qed simp

end

locale counted_writes = keyed_writes step ok look good inv
  for step :: "'k \<times> 'v \<Rightarrow> 's \<Rightarrow> 's promoting" and ok :: "'k \<times> 'v \<Rightarrow> bool" and look :: "'k \<Rightarrow> 's \<Rightarrow> 'r option"
    and good :: "'k \<times> 'v \<Rightarrow> 'r \<Rightarrow> bool" and inv :: "'s \<Rightarrow> bool" +
  fixes count :: "'s \<Rightarrow> counters" and verdict :: "'k \<times> 'v \<Rightarrow> 'r option \<Rightarrow> row_action"
  assumes step_counts:
    "inv s \<Longrightarrow> step p s = Inr s' \<Longrightarrow> count s' = count_action (verdict p (look (fst p) s)) (count s)"
begin

lemma loop_counts:
  assumes "each step ps s = Inr s'" "inv s" "list_all ok ps" "distinct (map fst ps)"
  shows "count s' = fold (\<lambda>p. count_action (verdict p (look (fst p) s))) ps (count s)"
  using assms
proof (induction ps arbitrary: s)
  case (Cons q ps)
  obtain t where t: "step q s = Inr t" "each step ps t = Inr s'" using Cons.prems by (auto simp: andp_Inr_iff)
  have inv: "inv t" using step_inv [OF Cons.prems(2) _ t(1)] Cons.prems(3) by simp
  have "fst q \<notin> fst ` set ps" using Cons.prems(4) by simp
  then have "fst p \<noteq> fst q" if "p \<in> set ps" for p using that by (metis imageI)
  then have same: "look (fst p) t = look (fst p) s" if "p \<in> set ps" for p
    using that by (intro step_frame [OF Cons.prems(2) t(1)]) blast
  have "count s' = fold (\<lambda>p. count_action (verdict p (look (fst p) t))) ps (count t)"
    using Cons.prems by (intro Cons.IH [OF t(2) inv]) simp_all
  also have "\<dots> = fold (\<lambda>p. count_action (verdict p (look (fst p) s))) ps (count t)"
    using same by (intro fold_cong) simp_all
  finally show ?case using step_counts [OF Cons.prems(2) t(1)] by simp
qed simp

end

subsection \<open>Tables and tenants\<close>

lemma get_by_update_where:
  assumes "\<And>r. r \<in> set rows \<Longrightarrow> P r \<longleftrightarrow> key r = k'" "\<And>r. key (f r) = key r"
  shows "get_by key k (update_where P f rows) =
    (if k = k' then map_option f (get_by key k rows) else get_by key k rows)"
  using assms(1) by (induction rows) (auto simp: assms(2))

lemma get_by_pair:
  "get_by (\<lambda>r. (f r, g r)) (a, b) rows = get_by g b (filter (\<lambda>r. f r = a) rows)"
  by (induction rows) auto

definition style_key :: "catalog_style \<Rightarrow> uuid \<times> string" where
  "style_key s = (ps_tenant s, ps_code s)"

definition sku_key :: "catalog_sku \<Rightarrow> uuid \<times> string" where
  "sku_key k = (cs_tenant k, cs_code k)"

definition upc_key :: "catalog_sku \<Rightarrow> uuid \<times> string" where
  "upc_key k = (cs_tenant k, cs_upc k)"

definition style_ident :: "catalog_style \<Rightarrow> uuid \<times> uuid \<times> string" where
  "style_ident s = (ps_tenant s, ps_id s, ps_code s)"

definition sku_ident :: "catalog_sku \<Rightarrow> uuid \<times> uuid \<times> string" where
  "sku_ident k = (cs_tenant k, cs_id k, cs_code k)"

definition styles_ok :: "catalog_style list \<Rightarrow> bool" where
  "styles_ok ss \<longleftrightarrow> distinct (map style_key ss) \<and> distinct (map ps_id ss)"

definition skus_ok :: "catalog_sku list \<Rightarrow> bool" where
  "skus_ok ks \<longleftrightarrow> distinct (map sku_key ks) \<and> distinct (map cs_id ks) \<and>
     distinct (map upc_key ks)"

lemma find_style_key: "find_style tenant code db = get_by style_key (tenant, code) (cd_styles db)"
  by (simp add: find_style_def style_key_def [abs_def])

lemma get_style_update_where:
  assumes "\<And>s. style_key (f s) = style_key s"
  shows "get_by style_key k (update_where (\<lambda>s. ps_tenant s = tenant \<and> ps_code s = code) f ss) =
    (if k = (tenant, code) then map_option f (get_by style_key k ss) else get_by style_key k ss)"
  by (rule get_by_update_where) (simp_all add: assms, simp add: style_key_def)

lemma get_sku_update_where:
  assumes "\<And>k. sku_key (f k) = sku_key k"
  shows "get_by sku_key k (update_where (\<lambda>s. cs_tenant s = tenant \<and> cs_code s = code) f ks) =
    (if k = (tenant, code) then map_option f (get_by sku_key k ks) else get_by sku_key k ks)"
  by (rule get_by_update_where) (simp_all add: assms, simp add: sku_key_def)

lemma find_sku_key: "find_sku tenant code db = get_by sku_key (tenant, code) (cd_skus db)"
  by (simp add: find_sku_def sku_key_def [abs_def])

lemma find_style_load: "get_by ps_code code (st_styles (load_catalog_state tenant db)) = find_style tenant code db"
  by (simp add: find_style_def load_catalog_state_def get_by_pair)

lemma find_sku_load: "get_by cs_code code (st_skus (load_catalog_state tenant db)) = find_sku tenant code db"
  by (simp add: find_sku_def load_catalog_state_def get_by_pair)

lemma open_binding_load: "get_by eb_epc epc (st_bindings (load_catalog_state tenant db)) = open_binding tenant epc db"
proof -
  have "select_one (\<lambda>b. eb_epc b = epc) (filter (\<lambda>b. eb_tenant b = tenant \<and> eb_to b = None) bs) =
      select_one (\<lambda>b. eb_tenant b = tenant \<and> eb_epc b = epc \<and> eb_to b = None) bs" for bs
    by (induction bs) auto
  then show ?thesis by (simp add: open_binding_def load_catalog_state_def get_by_def)
qed

lemma find_styleD: "find_style tenant code db = Some s \<Longrightarrow> s \<in> set (cd_styles db) \<and> ps_tenant s = tenant \<and> ps_code s = code"
  unfolding find_style_def by (drule get_by_SomeD) simp

lemma find_skuD: "find_sku tenant code db = Some k \<Longrightarrow> k \<in> set (cd_skus db) \<and> cs_tenant k = tenant \<and> cs_code k = code"
  unfolding find_sku_def by (drule get_by_SomeD) simp

lemma open_bindingD:
  "open_binding tenant epc db = Some b \<Longrightarrow>
     b \<in> set (cd_bindings db) \<and> eb_tenant b = tenant \<and> eb_epc b = epc \<and> eb_to b = None"
  unfolding open_binding_def by (drule select_one_SomeD) simp

text \<open>The rows of the other tenants.\<close>

definition foreign :: "('r \<Rightarrow> uuid) \<Rightarrow> uuid \<Rightarrow> 'r list \<Rightarrow> 'r list" where
  "foreign f tenant rows = filter (\<lambda>r. f r \<noteq> tenant) rows"

lemma foreign_append [simp]: "foreign f tenant (xs @ ys) = foreign f tenant xs @ foreign f tenant ys"
  by (simp add: foreign_def)

lemma foreign_own [simp]: "f r = tenant \<Longrightarrow> foreign f tenant [r] = []"
  by (simp add: foreign_def)

lemma foreign_update_where:
  "(\<And>r. P r \<Longrightarrow> f r = tenant \<and> f (g r) = tenant) \<Longrightarrow> foreign f tenant (update_where P g rows) = foreign f tenant rows"
  unfolding foreign_def by (intro filter_update_where) auto

subsection \<open>The styles\<close>

definition style_holds :: "string \<times> catalog_row \<Rightarrow> catalog_style \<Rightarrow> bool" where
  "style_holds p s \<longleftrightarrow> ps_code s = fst p \<and> \<not> style_changed s (snd p)"

definition entry_wf :: "string \<times> catalog_row \<Rightarrow> bool" where
  "entry_wf p \<longleftrightarrow> object_wf (cr_style_attributes (snd p)) \<and> object_wf (cr_attributes (snd p))"

definition style_pass :: "uuid \<Rightarrow> catalog_db \<Rightarrow> promotion \<Rightarrow> bool" where
  "style_pass tenant db0 cdb \<longleftrightarrow>
     (let ss0 = cd_styles db0; ss = cd_styles (snd cdb)
      in (snd cdb)\<lparr>cd_styles := []\<rparr> = db0\<lparr>cd_styles := []\<rparr> \<and> styles_ok ss \<and> prefix (map style_ident ss0) (map style_ident ss) \<and>
         foreign ps_tenant tenant ss = foreign ps_tenant tenant ss0)"

definition style_verdict :: "string \<times> catalog_row \<Rightarrow> catalog_style option \<Rightarrow> row_action" where
  "style_verdict p r =
     (case r of None \<Rightarrow> ACTION_INSERT
      | Some s \<Rightarrow> if style_changed s (snd p) then ACTION_UPDATE else ACTION_UNCHANGED)"

lemma promote_style_cases [consumes 1, case_names insert update unchanged]:
  assumes "promote_style env tenant p cdb = Inr cdb'"
  obtains "find_style tenant (fst p) (snd cdb) = None"
    "ce_style_id env (fst p) \<notin> ps_id ` set (cd_styles (snd cdb))"
    "cdb' = (count_action ACTION_INSERT (fst cdb),
       (snd cdb)\<lparr>cd_styles := cd_styles (snd cdb) @ [new_style env tenant (fst p) (snd p)]\<rparr>)"
  | s where "find_style tenant (fst p) (snd cdb) = Some s" "style_changed s (snd p)"
    "cdb' = (count_action ACTION_UPDATE (fst cdb),
       (snd cdb)\<lparr>cd_styles := update_where (\<lambda>s. ps_tenant s = tenant \<and> ps_code s = fst p)
          (rewritten_style (snd p)) (cd_styles (snd cdb))\<rparr>)"
  | s where "find_style tenant (fst p) (snd cdb) = Some s" "\<not> style_changed s (snd p)"
    "cdb' = (count_action ACTION_UNCHANGED (fst cdb), snd cdb)"
  using assms
  by (auto simp: promote_style_def split_beta Let_def andp_Inr_iff new_style_def split: option.splits if_splits)

lemma style_key_rewritten [simp]: "style_key (rewritten_style d s) = style_key s"
  "style_ident (rewritten_style d s) = style_ident s" "ps_id (rewritten_style d s) = ps_id s"
  "ps_code (rewritten_style d s) = ps_code s" "ps_tenant (rewritten_style d s) = ps_tenant s"
  by (simp_all add: style_key_def style_ident_def rewritten_style_def)

lemma style_written:
  assumes "entry_wf p"
  shows "style_holds p (new_style env tenant (fst p) (snd p))"
    "ps_code s = fst p \<Longrightarrow> style_holds p (rewritten_style (snd p) s)"
  using assms objects_same_refl
  by (auto simp: style_holds_def style_changed_def new_style_def rewritten_style_def entry_wf_def)

interpretation style_loop: counted_writes "promote_style env tenant" entry_wf
  "\<lambda>code cdb. find_style tenant code (snd cdb)" style_holds "style_pass tenant db0" fst style_verdict
  for env tenant db0
proof unfold_locales
  fix s p s'
  assume inv: "style_pass tenant db0 s" and step: "promote_style env tenant p s = Inr s'"
  have ok: "styles_ok (cd_styles (snd s))" using inv by (simp add: style_pass_def Let_def)
  from step show "fst s' = count_action (style_verdict p (find_style tenant (fst p) (snd s))) (fst s)"
    by (cases rule: promote_style_cases) (auto simp: style_verdict_def)
  from step show "find_style tenant k (snd s') = find_style tenant k (snd s)" if "k \<noteq> fst p" for k
  proof (cases rule: promote_style_cases)
    case insert
    have "style_key (new_style env tenant (fst p) (snd p)) = (tenant, fst p)" by (simp add: style_key_def new_style_def)
    then show ?thesis using insert that by (auto simp: find_style_key get_by_append_new get_by_None_iff)
  next
    case (update r)
    then show ?thesis using that by (simp add: find_style_key get_style_update_where)
  qed simp
  assume wf: "entry_wf p"
  from step show "\<exists>r. find_style tenant (fst p) (snd s') = Some r \<and> style_holds p r"
  proof (cases rule: promote_style_cases)
    case insert
    have "style_key (new_style env tenant (fst p) (snd p)) = (tenant, fst p)" by (simp add: style_key_def new_style_def)
    then show ?thesis using insert style_written(1) [OF wf] by (auto simp: find_style_key get_by_append_new get_by_None_iff)
  next
    case (update r)
    have "find_style tenant (fst p) (snd s') = Some (rewritten_style (snd p) r)"
      using update by (simp add: find_style_key get_style_update_where)
    then show ?thesis using style_written(2) [OF wf] find_styleD [OF update(1)] by simp
  next
    case (unchanged r)
    then show ?thesis using find_styleD [OF unchanged(1)] by (auto simp: style_holds_def)
  qed
  from step show "style_pass tenant db0 s'"
  proof (cases rule: promote_style_cases)
    case insert
    have "styles_ok (cd_styles (snd s) @ [new_style env tenant (fst p) (snd p)])"
      using ok insert(1,2) by (auto simp: styles_ok_def find_style_key get_by_None_iff style_key_def new_style_def)
    then show ?thesis using inv insert(3) by (auto simp: style_pass_def Let_def new_style_def prefix_def)
  next
    case (update r)
    let ?ss = "update_where (\<lambda>s. ps_tenant s = tenant \<and> ps_code s = fst p) (rewritten_style (snd p)) (cd_styles (snd s))"
    have maps: "map style_key ?ss = map style_key (cd_styles (snd s))" "map ps_id ?ss = map ps_id (cd_styles (snd s))"
      "map style_ident ?ss = map style_ident (cd_styles (snd s))" by (simp_all add: map_update_where)
    have "styles_ok ?ss" using ok by (simp add: styles_ok_def maps)
    moreover have "foreign ps_tenant tenant ?ss = foreign ps_tenant tenant (cd_styles (snd s))"
      by (rule foreign_update_where) simp
    ultimately show ?thesis using inv update(3) by (auto simp: style_pass_def Let_def maps)
  qed (use inv in \<open>simp add: style_pass_def\<close>)
qed

subsection \<open>The SKUs\<close>

definition sku_holds :: "uuid \<Rightarrow> catalog_style list \<Rightarrow> string \<times> catalog_row \<Rightarrow> catalog_sku \<Rightarrow> bool" where
  "sku_holds tenant ss p k \<longleftrightarrow>
     (\<exists>s. get_by style_key (tenant, cr_style_code (snd p)) ss = Some s \<and> cs_code k = fst p \<and> \<not> sku_changed k s (snd p))"

definition sku_pass :: "uuid \<Rightarrow> catalog_db \<Rightarrow> promotion \<Rightarrow> bool" where
  "sku_pass tenant db0 cdb \<longleftrightarrow>
     (let ks0 = cd_skus db0; ks = cd_skus (snd cdb)
      in (snd cdb)\<lparr>cd_skus := []\<rparr> = db0\<lparr>cd_skus := []\<rparr> \<and> skus_ok ks \<and>
         prefix (map sku_ident ks0) (map sku_ident ks) \<and> foreign cs_tenant tenant ks = foreign cs_tenant tenant ks0 \<and>
         (\<forall>k \<in> set ks. cs_tenant k = tenant \<longrightarrow> k \<in> set ks0 \<or>
            (\<exists>s \<in> set (cd_styles db0). ps_tenant s = tenant \<and> ps_id s = cs_style k)))"

definition sku_verdict ::
    "uuid \<Rightarrow> catalog_style list \<Rightarrow> string \<times> catalog_row \<Rightarrow> catalog_sku option \<Rightarrow> row_action" where
  "sku_verdict tenant ss p r =
     (case r of None \<Rightarrow> ACTION_INSERT
      | Some k \<Rightarrow>
          (case get_by style_key (tenant, cr_style_code (snd p)) ss of
             None \<Rightarrow> ACTION_UPDATE
           | Some s \<Rightarrow> if sku_changed k s (snd p) then ACTION_UPDATE else ACTION_UNCHANGED))"

lemma promote_sku_cases [consumes 1, case_names insert update unchanged]:
  assumes "promote_sku env tenant p cdb = Inr cdb'"
  obtains s where "find_style tenant (cr_style_code (snd p)) (snd cdb) = Some s"
    "find_sku tenant (fst p) (snd cdb) = None" "ce_sku_id env (fst p) \<notin> cs_id ` set (cd_skus (snd cdb))"
    "upc_free tenant (fst p) (cr_upc (snd p)) (snd cdb)"
    "cdb' = (count_action ACTION_INSERT (fst cdb),
       (snd cdb)\<lparr>cd_skus := cd_skus (snd cdb) @ [new_sku env tenant (ps_id s) (fst p) (snd p)]\<rparr>)"
  | s k where "find_style tenant (cr_style_code (snd p)) (snd cdb) = Some s"
    "find_sku tenant (fst p) (snd cdb) = Some k" "sku_changed k s (snd p)"
    "upc_free tenant (fst p) (cr_upc (snd p)) (snd cdb)"
    "cdb' = (count_action ACTION_UPDATE (fst cdb),
       (snd cdb)\<lparr>cd_skus := update_where (\<lambda>k. cs_tenant k = tenant \<and> cs_code k = fst p)
          (rewritten_sku (ps_id s) (snd p)) (cd_skus (snd cdb))\<rparr>)"
  | s k where "find_style tenant (cr_style_code (snd p)) (snd cdb) = Some s"
    "find_sku tenant (fst p) (snd cdb) = Some k" "\<not> sku_changed k s (snd p)"
    "cdb' = (count_action ACTION_UNCHANGED (fst cdb), snd cdb)"
  using assms
  by (auto simp: promote_sku_def split_beta Let_def andp_Inr_iff new_sku_def split: option.splits if_splits)

lemma sku_rewritten [simp]: "sku_key (rewritten_sku s d k) = sku_key k"
  "sku_ident (rewritten_sku s d k) = sku_ident k" "cs_id (rewritten_sku s d k) = cs_id k"
  "cs_code (rewritten_sku s d k) = cs_code k" "cs_tenant (rewritten_sku s d k) = cs_tenant k"
  "cs_upc (rewritten_sku s d k) = cr_upc d" "cs_style (rewritten_sku s d k) = s"
  by (simp_all add: sku_key_def sku_ident_def rewritten_sku_def)

lemma sku_written:
  assumes "entry_wf p"
  shows "\<not> sku_changed (new_sku env tenant (ps_id s) (fst p) (snd p)) s (snd p)"
    "\<not> sku_changed (rewritten_sku (ps_id s) (snd p) k) s (snd p)"
  using assms objects_same_refl
  by (auto simp: sku_changed_def new_sku_def rewritten_sku_def entry_wf_def)

lemma sku_pass_styles: "sku_pass tenant db0 cdb \<Longrightarrow> cd_styles (snd cdb) = cd_styles db0"
  by (auto simp: sku_pass_def Let_def dest: arg_cong [of _ _ cd_styles])

lemma update_where_keys:
  "(\<And>r. r \<in> set rows \<Longrightarrow> P r \<Longrightarrow> g (f r) = g r) \<Longrightarrow> distinct (map g (update_where P f rows)) = distinct (map g rows)"
  by (simp only: map_update_where)

text \<open>Writing a UPC that no other SKU of the tenant has keeps the UPCs distinct.\<close>

lemma upc_free_update:
  assumes "skus_ok ks" "list_all (\<lambda>k. cs_tenant k = tenant \<and> cs_upc k = cr_upc d \<longrightarrow> cs_code k = code) ks"
  shows "skus_ok (update_where (\<lambda>k. cs_tenant k = tenant \<and> cs_code k = code) (rewritten_sku s d) ks)"
proof -
  define f where "f k = (if cs_tenant k = tenant \<and> cs_code k = code then rewritten_sku s d k else k)" for k
  have ks: "update_where (\<lambda>k. cs_tenant k = tenant \<and> cs_code k = code) (rewritten_sku s d) ks = map f ks"
    by (simp add: update_where_def f_def)
  have "inj_on upc_key (set ks)" "inj_on sku_key (set ks)"
    using assms(1) by (simp_all add: skus_ok_def distinct_map)
  moreover have "upc_key i = upc_key k \<or> sku_key i = sku_key k"
    if "i \<in> set ks" "k \<in> set ks" "upc_key (f i) = upc_key (f k)" for i k
  proof -
    have "cs_tenant x = tenant \<and> cs_upc x = cr_upc d \<Longrightarrow> cs_code x = code" if "x = i \<or> x = k" for x
      using that \<open>i \<in> set ks\<close> \<open>k \<in> set ks\<close> assms(2) by (auto simp: list_all_iff)
    from this [of i] this [of k] show ?thesis
      using that(3) by (auto simp: f_def upc_key_def sku_key_def split: if_splits)
  qed
  ultimately have "inj_on (\<lambda>k. upc_key (f k)) (set ks)"
    unfolding inj_on_def by meson
  then have "distinct (map upc_key (map f ks))"
    using assms(1) by (simp add: skus_ok_def distinct_map comp_def)
  moreover have "map sku_key (map f ks) = map sku_key ks" "map cs_id (map f ks) = map cs_id ks" by (simp_all add: f_def)
  ultimately show ?thesis using assms(1) by (simp only: skus_ok_def ks)
qed

lemma upc_free_append:
  assumes "skus_ok (cd_skus db)" "find_sku tenant code db = None" "ce_sku_id env code \<notin> cs_id ` set (cd_skus db)"
    "upc_free tenant code (cr_upc d) db"
  shows "skus_ok (cd_skus db @ [new_sku env tenant s code d])"
proof -
  have "(tenant, code) \<notin> sku_key ` set (cd_skus db)" using assms(2) by (simp add: find_sku_key get_by_None_iff)
  moreover have "(tenant, cr_upc d) \<notin> upc_key ` set (cd_skus db)"
    using assms(4) calculation by (auto simp: upc_free_def list_all_iff sku_key_def upc_key_def)
  ultimately show ?thesis using assms(1,3) by (auto simp: skus_ok_def new_sku_def sku_key_def upc_key_def)
qed

interpretation sku_loop: counted_writes "promote_sku env tenant" entry_wf
  "\<lambda>code cdb. find_sku tenant code (snd cdb)" "sku_holds tenant (cd_styles db0)" "sku_pass tenant db0" fst
  "sku_verdict tenant (cd_styles db0)"
  for env tenant db0
proof unfold_locales
  fix s p s'
  assume inv: "sku_pass tenant db0 s" and step: "promote_sku env tenant p s = Inr s'"
  note styles = sku_pass_styles [OF inv]
  have ok: "skus_ok (cd_skus (snd s))" using inv by (simp add: sku_pass_def Let_def)
  from step show "fst s' = count_action (sku_verdict tenant (cd_styles db0) p (find_sku tenant (fst p) (snd s))) (fst s)"
    by (cases rule: promote_sku_cases) (auto simp: sku_verdict_def find_style_key styles)
  have new: "sku_key (new_sku env tenant r (fst p) (snd p)) = (tenant, fst p)" for r by (simp add: sku_key_def new_sku_def)
  from step show "find_sku tenant k (snd s') = find_sku tenant k (snd s)" if "k \<noteq> fst p" for k
  proof (cases rule: promote_sku_cases)
    case (insert r)
    then show ?thesis using that new by (auto simp: find_sku_key get_by_append_new get_by_None_iff)
  next
    case (update r j)
    then show ?thesis using that by (simp add: find_sku_key get_sku_update_where)
  qed simp
  assume wf: "entry_wf p"
  from step show "\<exists>k. find_sku tenant (fst p) (snd s') = Some k \<and> sku_holds tenant (cd_styles db0) p k"
  proof (cases rule: promote_sku_cases)
    case (insert r)
    let ?k = "new_sku env tenant (ps_id r) (fst p) (snd p)"
    have "find_sku tenant (fst p) (snd s') = Some ?k"
      using insert new by (auto simp: find_sku_key get_by_append_new get_by_None_iff)
    moreover have "cs_code ?k = fst p" by (simp add: new_sku_def)
    ultimately show ?thesis using insert(1) sku_written(1) [OF wf] by (auto simp: sku_holds_def find_style_key styles)
  next
    case (update r j)
    have "find_sku tenant (fst p) (snd s') = Some (rewritten_sku (ps_id r) (snd p) j)"
      using update by (simp add: find_sku_key get_sku_update_where)
    then show ?thesis
      using update(1) sku_written(2) [OF wf] find_skuD [OF update(2)] by (auto simp: sku_holds_def find_style_key styles)
  next
    case (unchanged r j)
    then show ?thesis using find_skuD [OF unchanged(2)] by (auto simp: sku_holds_def find_style_key styles)
  qed
  from step show "sku_pass tenant db0 s'"
  proof (cases rule: promote_sku_cases)
    case (insert r)
    have "r \<in> set (cd_styles db0)" "ps_tenant r = tenant" using find_styleD [OF insert(1)] styles by auto
    then show ?thesis
      using inv insert(5) upc_free_append [OF ok insert(2,3,4)]
      by (auto simp: sku_pass_def Let_def new_sku_def prefix_def)
  next
    case (update r j)
    have r: "r \<in> set (cd_styles db0)" "ps_tenant r = tenant" using find_styleD [OF update(1)] styles by auto
    let ?ks = "update_where (\<lambda>k. cs_tenant k = tenant \<and> cs_code k = fst p) (rewritten_sku (ps_id r) (snd p)) (cd_skus (snd s))"
    have "skus_ok ?ks" using upc_free_update [OF ok] update(4) by (simp add: upc_free_def)
    moreover have "foreign cs_tenant tenant ?ks = foreign cs_tenant tenant (cd_skus (snd s))"
      by (rule foreign_update_where) simp
    moreover have "map sku_ident ?ks = map sku_ident (cd_skus (snd s))" by (simp add: map_update_where)
    moreover have "k \<in> set (cd_skus db0) \<or> (\<exists>s \<in> set (cd_styles db0). ps_tenant s = tenant \<and> ps_id s = cs_style k)"
      if k: "k \<in> set ?ks" "cs_tenant k = tenant" for k
    proof -
      obtain i where i: "i \<in> set (cd_skus (snd s))"
        "k = (if cs_tenant i = tenant \<and> cs_code i = fst p then rewritten_sku (ps_id r) (snd p) i else i)"
        using k(1) unfolding set_update_where by blast
      show ?thesis
      proof (cases "cs_tenant i = tenant \<and> cs_code i = fst p")
        case True
        then show ?thesis using i(2) r by auto
      next
        case False
        then have "k = i" using i(2) by auto
        then show ?thesis using i(1) k(2) inv unfolding sku_pass_def Let_def by blast
      qed
    qed
    ultimately show ?thesis using inv update(5) by (simp add: sku_pass_def Let_def)
  qed (use inv in \<open>simp add: sku_pass_def\<close>)
qed

subsection \<open>The history of the bindings\<close>

text \<open>
  Bindings are appended in time, and one for the same EPC starts only when the one before has ended:
  at most one is open, and their intervals are disjoint.
\<close>

definition succeeds :: "catalog_binding \<Rightarrow> catalog_binding \<Rightarrow> bool" where
  "succeeds b b' \<longleftrightarrow>
     (eb_tenant b = eb_tenant b' \<and> eb_epc b = eb_epc b' \<longrightarrow> (\<exists>t. eb_to b = Some t \<and> t \<le> eb_from b'))"

definition history_ok :: "catalog_binding list \<Rightarrow> bool" where
  "history_ok bs \<longleftrightarrow> sorted_wrt succeeds bs \<and> list_all binding_check bs"

definition written_by :: "timestamp \<Rightarrow> catalog_binding list \<Rightarrow> bool" where
  "written_by now bs \<longleftrightarrow> list_all (\<lambda>b. eb_from b \<le> now \<and> (\<forall>t. eb_to b = Some t \<longrightarrow> t \<le> now)) bs"

definition binding_ident :: "catalog_binding \<Rightarrow> uuid \<times> string \<times> uuid \<times> timestamp \<times> uuid" where
  "binding_ident b = (eb_tenant b, eb_epc b, eb_sku b, eb_from b, eb_source b)"

text \<open>The bindings in force at some time, without their ends.\<close>

definition in_force :: "timestamp \<Rightarrow> catalog_binding list \<Rightarrow> (uuid \<times> string \<times> uuid \<times> timestamp \<times> uuid) list" where
  "in_force t bs = map binding_ident (filter (binding_at t) bs)"

definition same_past :: "timestamp \<Rightarrow> catalog_binding list \<Rightarrow> catalog_binding list \<Rightarrow> bool" where
  "same_past now bs bs' \<longleftrightarrow> (\<forall>t < now. in_force t bs' = in_force t bs)"

lemma same_past_refl [simp]: "same_past now bs bs"
  by (simp add: same_past_def)

lemma same_past_trans: "same_past now as bs \<Longrightarrow> same_past now bs cs \<Longrightarrow> same_past now as cs"
  by (simp add: same_past_def)

abbreviation closed_at :: "timestamp \<Rightarrow> catalog_binding \<Rightarrow> catalog_binding" where
  "closed_at now b \<equiv> b\<lparr>eb_to := Some now\<rparr>"

lemma close_some:
  assumes "\<And>b. P b \<Longrightarrow> eb_to b = None" "list_all (\<lambda>b. P b \<longrightarrow> eb_from b < now) bs"
  shows "history_ok bs \<Longrightarrow> history_ok (update_where P (closed_at now) bs)"
    "written_by now bs \<Longrightarrow> written_by now (update_where P (closed_at now) bs)"
    "same_past now bs (update_where P (closed_at now) bs)"
proof -
  let ?f = "\<lambda>b. if P b then closed_at now b else b"
  show "same_past now bs (update_where P (closed_at now) bs)"
    unfolding same_past_def
  proof (intro allI impI)
    fix t assume "t < now"
    then have "binding_at t (closed_at now b) = binding_at t b" if "P b" for b
      using assms(1) [OF that] by (simp add: binding_at_def)
    then show "in_force t (update_where P (closed_at now) bs) = in_force t bs"
      by (induction bs) (auto simp: in_force_def binding_ident_def)
  qed
  show "written_by now (update_where P (closed_at now) bs)" if "written_by now bs"
    using that by (auto simp: written_by_def list_all_iff in_update_where_iff)
  show "history_ok (update_where P (closed_at now) bs)" if "history_ok bs"
  proof -
    have step: "succeeds (?f b) (?f b')" if "succeeds b b'" for b b'
      using that assms(1) [of b] by (cases "P b") (auto simp: succeeds_def)
    have "sorted_wrt (\<lambda>b b'. succeeds (?f b) (?f b')) bs"
      by (rule sorted_wrt_mono_rel [of bs succeeds]) (use that step in \<open>simp_all add: history_ok_def\<close>)
    then have "sorted_wrt succeeds (map ?f bs)" by (simp only: sorted_wrt_map)
    moreover have "list_all binding_check (map ?f bs)"
      using that assms(2) by (auto simp: history_ok_def list_all_iff binding_check_def)
    ultimately show ?thesis by (simp add: history_ok_def update_where_def)
  qed
qed

lemma add_binding:
  assumes "history_ok bs" "written_by now bs" "eb_from b = now" "eb_to b = None"
    "\<And>b'. b' \<in> set bs \<Longrightarrow> eb_tenant b' = eb_tenant b \<Longrightarrow> eb_epc b' = eb_epc b \<Longrightarrow> eb_to b' \<noteq> None"
  shows "history_ok (bs @ [b])" "written_by now (bs @ [b])" "same_past now bs (bs @ [b])"
proof -
  have "succeeds b' b" if "b' \<in> set bs" for b'
    using assms(2,3) assms(5) [OF that] that by (force simp: succeeds_def written_by_def list_all_iff)
  then show "history_ok (bs @ [b])"
    using assms(1,4) by (simp add: history_ok_def sorted_wrt_append binding_check_def)
  show "written_by now (bs @ [b])" using assms(2-4) by (simp add: written_by_def)
  show "same_past now bs (bs @ [b])" using assms(3) by (simp add: same_past_def in_force_def binding_at_def)
qed

lemma history_open_unique:
  assumes "history_ok bs" "b \<in> set bs" "b' \<in> set bs" "eb_to b = None" "eb_to b' = None"
    "eb_tenant b = eb_tenant b'" "eb_epc b = eb_epc b'"
  shows "b = b'"
proof -
  obtain i j where ij: "i < length bs" "j < length bs" "b = bs ! i" "b' = bs ! j"
    using assms(2,3) by (auto simp: in_set_conv_nth)
  have not: "\<not> succeeds b b'" "\<not> succeeds b' b" using assms(4-7) by (simp_all add: succeeds_def)
  have sorted: "sorted_wrt succeeds bs" using assms(1) by (simp add: history_ok_def)
  have "i = j"
  proof (rule linorder_cases [of i j])
    assume "i < j"
    then show ?thesis using sorted_wrt_nth_less [OF sorted, of i j] ij not(1) by simp
  next
    assume "j < i"
    then show ?thesis using sorted_wrt_nth_less [OF sorted, of j i] ij not(2) by simp
  qed simp
  then show ?thesis using ij by simp
qed

lemma open_binding_iff:
  assumes "history_ok (cd_bindings db)"
  shows "open_binding tenant epc db = Some b \<longleftrightarrow>
    b \<in> set (cd_bindings db) \<and> eb_tenant b = tenant \<and> eb_epc b = epc \<and> eb_to b = None"
proof
  assume b: "b \<in> set (cd_bindings db) \<and> eb_tenant b = tenant \<and> eb_epc b = epc \<and> eb_to b = None"
  then have "open_binding tenant epc db \<noteq> None" unfolding open_binding_def select_one_None_iff by blast
  then obtain b' where "open_binding tenant epc db = Some b'" by blast
  then show "open_binding tenant epc db = Some b"
    using b history_open_unique [OF assms, of b b'] open_bindingD [of tenant epc db b'] by simp
qed (rule open_bindingD)

subsection \<open>The bindings of a promotion\<close>

definition bound_row :: "catalog_binding \<Rightarrow> catalog_sku list \<Rightarrow> bool" where
  "bound_row b ks \<longleftrightarrow> (\<exists>k \<in> set ks. cs_tenant k = eb_tenant b \<and> cs_id k = eb_sku b)"

definition binding_pass :: "catalog_import \<Rightarrow> timestamp \<Rightarrow> catalog_db \<Rightarrow> promotion \<Rightarrow> bool" where
  "binding_pass i now db0 cdb \<longleftrightarrow>
     (let bs0 = cd_bindings db0; bs = cd_bindings (snd cdb)
      in (snd cdb)\<lparr>cd_bindings := []\<rparr> = db0\<lparr>cd_bindings := []\<rparr> \<and> history_ok bs \<and> written_by now bs \<and>
         same_past now bs0 bs \<and> foreign eb_tenant (ci_tenant i) bs = foreign eb_tenant (ci_tenant i) bs0 \<and>
         (list_all (\<lambda>b. bound_row b (cd_skus db0)) bs0 \<longrightarrow> list_all (\<lambda>b. bound_row b (cd_skus db0)) bs))"

definition binding_holds :: "uuid \<Rightarrow> catalog_sku list \<Rightarrow> string \<times> catalog_row \<Rightarrow> catalog_binding \<Rightarrow> bool" where
  "binding_holds tenant ks p b \<longleftrightarrow> (\<exists>k. get_by sku_key (tenant, cr_sku (snd p)) ks = Some k \<and> eb_sku b = cs_id k)"

definition binding_verdict ::
    "uuid \<Rightarrow> catalog_sku list \<Rightarrow> string \<times> catalog_row \<Rightarrow> catalog_binding option \<Rightarrow> row_action" where
  "binding_verdict tenant ks p r =
     (case r of None \<Rightarrow> ACTION_INSERT
      | Some b \<Rightarrow> if binding_holds tenant ks p b then ACTION_UNCHANGED else ACTION_UPDATE)"

lemma close_bindings_InrD:
  "close_bindings tenant now P db = Inr db' \<Longrightarrow>
     list_all (\<lambda>b. eb_tenant b = tenant \<and> eb_to b = None \<and> P (eb_epc b) \<longrightarrow> eb_from b < now) (cd_bindings db) \<and>
     db' = db\<lparr>cd_bindings := update_where (\<lambda>b. eb_tenant b = tenant \<and> eb_to b = None \<and> P (eb_epc b))
                (closed_at now) (cd_bindings db)\<rparr>"
  by (simp add: close_bindings_def Let_def)

lemma promote_binding_cases [consumes 1, case_names insert update unchanged]:
  assumes "promote_binding i now p cdb = Inr cdb'"
  obtains k where "find_sku (ci_tenant i) (cr_sku (snd p)) (snd cdb) = Some k"
    "open_binding (ci_tenant i) (fst p) (snd cdb) = None"
    "cdb' = (count_action ACTION_INSERT (fst cdb),
       (snd cdb)\<lparr>cd_bindings := cd_bindings (snd cdb) @ [new_binding i now (cs_id k) (fst p)]\<rparr>)"
  | k b where "find_sku (ci_tenant i) (cr_sku (snd p)) (snd cdb) = Some k"
    "open_binding (ci_tenant i) (fst p) (snd cdb) = Some b" "eb_sku b \<noteq> cs_id k"
    "list_all (\<lambda>b. eb_tenant b = ci_tenant i \<and> eb_to b = None \<and> eb_epc b = fst p \<longrightarrow> eb_from b < now) (cd_bindings (snd cdb))"
    "cdb' = (count_action ACTION_UPDATE (fst cdb),
       (snd cdb)\<lparr>cd_bindings := update_where (\<lambda>b. eb_tenant b = ci_tenant i \<and> eb_to b = None \<and> eb_epc b = fst p)
          (closed_at now) (cd_bindings (snd cdb)) @ [new_binding i now (cs_id k) (fst p)]\<rparr>)"
  | k b where "find_sku (ci_tenant i) (cr_sku (snd p)) (snd cdb) = Some k"
    "open_binding (ci_tenant i) (fst p) (snd cdb) = Some b" "eb_sku b = cs_id k"
    "cdb' = (count_action ACTION_UNCHANGED (fst cdb), snd cdb)"
  using assms
  by (auto simp: promote_binding_def split_beta Let_def andp_Inr_iff split: option.splits if_splits
      dest!: close_bindings_InrD)

lemma binding_pass_skus: "binding_pass i now db0 cdb \<Longrightarrow> cd_skus (snd cdb) = cd_skus db0"
  by (auto simp: binding_pass_def Let_def dest: arg_cong [of _ _ cd_skus])

lemma select_open_update:
  assumes "epc' \<noteq> epc"
  shows "select_one (\<lambda>b. eb_tenant b = tenant \<and> eb_epc b = epc' \<and> eb_to b = None)
      (update_where (\<lambda>b. eb_tenant b = tenant' \<and> eb_to b = None \<and> eb_epc b = epc) (closed_at now) bs) =
    select_one (\<lambda>b. eb_tenant b = tenant \<and> eb_epc b = epc' \<and> eb_to b = None) bs"
  using assms by (intro select_update_where_other) auto

lemma open_binding_append:
  "open_binding tenant epc (db\<lparr>cd_bindings := bs @ [b]\<rparr>) =
     (case open_binding tenant epc (db\<lparr>cd_bindings := bs\<rparr>) of
        Some b' \<Rightarrow> Some b'
      | None \<Rightarrow> if eb_tenant b = tenant \<and> eb_epc b = epc \<and> eb_to b = None then Some b else None)"
  by (simp add: open_binding_def select_one_append split: option.split)

lemma open_binding_closed:
  "open_binding tenant epc (db\<lparr>cd_bindings := update_where (\<lambda>b. eb_tenant b = tenant \<and> eb_to b = None \<and> eb_epc b = epc)
     (closed_at now) bs\<rparr>) = None"
proof -
  have "select_one (\<lambda>b. eb_tenant b = tenant \<and> eb_epc b = epc \<and> eb_to b = None)
      (update_where (\<lambda>b. eb_tenant b = tenant \<and> eb_to b = None \<and> eb_epc b = epc) (closed_at now) bs) = None"
    by (induction bs) auto
  then show ?thesis by (simp add: open_binding_def)
qed

lemma new_binding_fields [simp]:
  "eb_tenant (new_binding i now k epc) = ci_tenant i" "eb_epc (new_binding i now k epc) = epc"
  "eb_sku (new_binding i now k epc) = k" "eb_from (new_binding i now k epc) = now" "eb_to (new_binding i now k epc) = None"
  by (simp_all add: new_binding_def)

text \<open>Adding a binding where none is open for its EPC.\<close>

lemma binding_pass_add:
  assumes pass: "binding_pass i now db0 (c, db\<lparr>cd_bindings := bs\<rparr>)" and k: "k \<in> set (cd_skus db0)" "cs_tenant k = ci_tenant i"
    and none: "open_binding (ci_tenant i) epc (db\<lparr>cd_bindings := bs\<rparr>) = None"
  shows "binding_pass i now db0 (c', db\<lparr>cd_bindings := bs @ [new_binding i now (cs_id k) epc]\<rparr>)"
proof -
  let ?b = "new_binding i now (cs_id k) epc"
  have "history_ok bs" "written_by now bs" "same_past now (cd_bindings db0) bs"
    using pass by (simp_all add: binding_pass_def Let_def)
  moreover have "eb_to b' \<noteq> None" if "b' \<in> set bs" "eb_tenant b' = eb_tenant ?b" "eb_epc b' = eb_epc ?b" for b'
    using none that by (simp add: open_binding_def select_one_None_iff)
  ultimately have "history_ok (bs @ [?b])" "written_by now (bs @ [?b])" "same_past now (cd_bindings db0) (bs @ [?b])"
    using add_binding [of bs now ?b] same_past_trans by auto
  moreover have "bound_row ?b (cd_skus db0)" using k by (auto simp: bound_row_def)
  ultimately show ?thesis using pass by (simp add: binding_pass_def Let_def)
qed

lemma binding_pass_close:
  assumes pass: "binding_pass i now db0 (c, db)"
    and early: "list_all (\<lambda>b. eb_tenant b = ci_tenant i \<and> eb_to b = None \<and> P (eb_epc b) \<longrightarrow> eb_from b < now) (cd_bindings db)"
  shows "binding_pass i now db0 (c', db\<lparr>cd_bindings := update_where (\<lambda>b. eb_tenant b = ci_tenant i \<and> eb_to b = None \<and> P (eb_epc b))
    (closed_at now) (cd_bindings db)\<rparr>)"
proof -
  let ?P = "\<lambda>b. eb_tenant b = ci_tenant i \<and> eb_to b = None \<and> P (eb_epc b)"
  let ?bs = "update_where ?P (closed_at now) (cd_bindings db)"
  have "history_ok (cd_bindings db)" "written_by now (cd_bindings db)" "same_past now (cd_bindings db0) (cd_bindings db)"
    using pass by (simp_all add: binding_pass_def Let_def)
  then have "history_ok ?bs" "written_by now ?bs" "same_past now (cd_bindings db0) ?bs"
    using close_some [of ?P now "cd_bindings db"] early same_past_trans by auto
  moreover have "foreign eb_tenant (ci_tenant i) ?bs = foreign eb_tenant (ci_tenant i) (cd_bindings db)"
    by (rule foreign_update_where) simp
  moreover have "list_all (\<lambda>b. bound_row b ks) (update_where Q (closed_at now) bs) = list_all (\<lambda>b. bound_row b ks) bs" for ks Q bs
    by (induction bs) (auto simp: bound_row_def)
  ultimately show ?thesis using pass by (simp add: binding_pass_def Let_def)
qed

interpretation binding_loop: counted_writes "promote_binding i now" "\<lambda>_. True"
  "\<lambda>epc cdb. open_binding (ci_tenant i) epc (snd cdb)" "binding_holds (ci_tenant i) (cd_skus db0)"
  "binding_pass i now db0" fst "binding_verdict (ci_tenant i) (cd_skus db0)"
  for i now db0
proof unfold_locales
  fix s p s'
  assume inv: "binding_pass i now db0 s" and step: "promote_binding i now p s = Inr s'"
  note skus = binding_pass_skus [OF inv]
  from step show "fst s' = count_action (binding_verdict (ci_tenant i) (cd_skus db0) p
      (open_binding (ci_tenant i) (fst p) (snd s))) (fst s)"
    by (cases rule: promote_binding_cases) (auto simp: binding_verdict_def binding_holds_def find_sku_key skus)
  from step show "open_binding (ci_tenant i) k (snd s') = open_binding (ci_tenant i) k (snd s)" if "k \<noteq> fst p" for k
  proof (cases rule: promote_binding_cases)
    case (insert r)
    then show ?thesis using that by (simp add: open_binding_append split: option.split)
  next
    case (update r b)
    have "open_binding (ci_tenant i) k ((snd s)\<lparr>cd_bindings :=
        update_where (\<lambda>b. eb_tenant b = ci_tenant i \<and> eb_to b = None \<and> eb_epc b = fst p) (closed_at now) (cd_bindings (snd s))\<rparr>) =
        open_binding (ci_tenant i) k (snd s)"
      using select_open_update [OF that] by (simp add: open_binding_def)
    then show ?thesis using update that by (simp add: open_binding_append split: option.split)
  qed simp
  from step show "\<exists>b. open_binding (ci_tenant i) (fst p) (snd s') = Some b \<and> binding_holds (ci_tenant i) (cd_skus db0) p b"
  proof (cases rule: promote_binding_cases)
    case (insert r)
    then show ?thesis by (simp add: open_binding_append binding_holds_def find_sku_key skus)
  next
    case (update r b)
    then show ?thesis by (simp add: open_binding_append open_binding_closed binding_holds_def find_sku_key skus)
  next
    case (unchanged r b)
    then show ?thesis by (auto simp: binding_holds_def find_sku_key skus)
  qed
  from step show "binding_pass i now db0 s'"
  proof (cases rule: promote_binding_cases)
    case (insert r)
    have r: "r \<in> set (cd_skus db0)" "cs_tenant r = ci_tenant i" using find_skuD [OF insert(1)] skus by auto
    show ?thesis
      using binding_pass_add [of i now db0 "fst s" "cd_bindings (snd s)" "snd s", OF _ r] insert(2,3) inv by simp
  next
    case (update r b)
    have r: "r \<in> set (cd_skus db0)" "cs_tenant r = ci_tenant i" using find_skuD [OF update(1)] skus by auto
    let ?bs = "update_where (\<lambda>b. eb_tenant b = ci_tenant i \<and> eb_to b = None \<and> eb_epc b = fst p) (closed_at now) (cd_bindings (snd s))"
    have "binding_pass i now db0 (fst s, (snd s)\<lparr>cd_bindings := ?bs\<rparr>)"
      using binding_pass_close [of i now db0 "fst s" "snd s" "\<lambda>e. e = fst p"] inv update(4) by simp
    then show ?thesis
      using binding_pass_add [of i now db0 "fst s" ?bs "snd s", OF _ r] open_binding_closed update(5) by simp
  qed (use inv in \<open>simp add: binding_pass_def\<close>)
qed

end
