(* ===== verification/Catalog_Sync.thy ===== *)
theory Catalog_Sync
  imports Catalog_Effects
begin

text \<open>
  The whole promotion: the catalog stays well formed, the rows are installed, the rest is left alone
  or deactivated, and the product hierarchy with its tags follows the catalog.
\<close>

subsection \<open>The entries of the dictionaries\<close>

lemma entries_setdefault:
  assumes "od_wf acc"
  shows "od_wf (fold (\<lambda>d. od_setdefault (f d) d) ds acc) \<and>
    od_keys (fold (\<lambda>d. od_setdefault (f d) d) ds acc) = od_keys acc \<union> f ` set ds \<and>
    (\<forall>p \<in> set (fold (\<lambda>d. od_setdefault (f d) d) ds acc). p \<in> set acc \<or> snd p \<in> set ds \<and> fst p = f (snd p))"
  using assms
proof (induction ds arbitrary: acc)
  case (Cons d ds)
  let ?acc = "od_setdefault (f d) d acc"
  have "od_wf ?acc" "od_keys ?acc = insert (f d) (od_keys acc)"
    using Cons.prems od_wf_set [of acc] od_get_Some_in [of acc "f d"]
    by (auto simp: od_setdefault_def od_keys_set split: option.split)
  moreover have "set ?acc \<subseteq> insert (f d, d) (set acc)"
    using set_od_set [of "f d" d acc] by (auto simp: od_setdefault_def split: option.splits)
  ultimately show ?case using Cons.IH [of ?acc] by fastforce
qed simp

lemma entries_set:
  assumes "od_wf acc"
  shows "od_wf (fold (\<lambda>d. od_set (f d) d) ds acc) \<and>
    od_keys (fold (\<lambda>d. od_set (f d) d) ds acc) = od_keys acc \<union> f ` set ds \<and>
    (\<forall>p \<in> set (fold (\<lambda>d. od_set (f d) d) ds acc). p \<in> set acc \<or> snd p \<in> set ds \<and> fst p = f (snd p))"
  using assms
proof (induction ds arbitrary: acc)
  case (Cons d ds)
  let ?acc = "od_set (f d) d acc"
  have "od_wf ?acc" "od_keys ?acc = insert (f d) (od_keys acc)"
    using Cons.prems by (auto simp: od_keys_set od_wf_set)
  moreover have "set ?acc \<subseteq> insert (f d, d) (set acc)" by (rule set_od_set)
  ultimately show ?case using Cons.IH [of ?acc] by fastforce
qed simp

definition entries_of :: "(catalog_row \<Rightarrow> string) \<Rightarrow> catalog_row list \<Rightarrow> (string, catalog_row) odict \<Rightarrow> bool" where
  "entries_of f ds ps \<longleftrightarrow> od_wf ps \<and> od_keys ps = f ` set ds \<and> (\<forall>p \<in> set ps. snd p \<in> set ds \<and> fst p = f (snd p))"

lemma entries:
  "entries_of cr_style_code ds (style_data ds)" "entries_of cr_sku ds (sku_data ds)"
  "entries_of cr_epc ds (epc_data ds)" "entries_of cr_style_code ds (last_by_style ds)"
  using entries_setdefault [of "[]" cr_style_code ds] entries_setdefault [of "[]" cr_sku ds]
    entries_set [of "[]" cr_epc ds] entries_set [of "[]" cr_style_code ds]
  by (simp_all add: entries_of_def style_data_def sku_data_def epc_data_def last_by_style_def)

lemma entries_keys [simp]:
  "od_keys (style_data ds) = cr_style_code ` set ds" "od_keys (sku_data ds) = cr_sku ` set ds"
  "od_keys (epc_data ds) = cr_epc ` set ds"
  using entries [of ds] by (simp_all add: entries_of_def)

lemma entries_distinct: "entries_of f ds ps \<Longrightarrow> distinct (map fst ps)"
  by (simp add: entries_of_def od_wf_def)

lemma entry_of_row:
  assumes "entries_of f ds ps" "d \<in> set ds"
  obtains e where "(f d, e) \<in> set ps" "e \<in> set ds" "f e = f d"
proof -
  have "f d \<in> od_keys ps" using assms by (simp add: entries_of_def)
  then obtain e where e: "(f d, e) \<in> set ps" unfolding od_keys_def by (metis imageE surjective_pairing)
  have "snd p \<in> set ds \<and> fst p = f (snd p)" if "p \<in> set ps" for p using assms(1) that by (simp add: entries_of_def)
  from this [OF e] show thesis using that [OF e] by simp
qed

definition rows_ok :: "catalog_row list \<Rightarrow> bool" where
  "rows_ok ds \<longleftrightarrow> list_all row_ok ds \<and> consistent ds"

lemma rows_okD: "rows_ok ds \<Longrightarrow> consistent ds" "rows_ok ds \<Longrightarrow> d \<in> set ds \<Longrightarrow> row_ok d"
  by (auto simp: rows_ok_def list_all_iff)

lemma entries_wf: "rows_ok ds \<Longrightarrow> entries_of f ds ps \<Longrightarrow> list_all entry_wf ps"
  by (auto simp: entries_of_def list_all_iff entry_wf_def row_ok_def dest: rows_okD simp del: json_wf.simps)

lemma style_changed_same:
  assumes "rows_ok ds" "d \<in> set ds" "e \<in> set ds" "cr_style_code d = cr_style_code e"
  shows "style_changed s d = style_changed s e"
proof -
  have "style_signature d = style_signature e" by (rule consistentD(1) [OF rows_okD(1) [OF assms(1)] assms(2-4)])
  moreover have "object_wf (cr_style_attributes d)" "object_wf (cr_style_attributes e)"
    using assms rows_okD(2) by (auto simp: row_ok_def simp del: json_wf.simps)
  ultimately show ?thesis
    using objects_same_canon [of "cr_style_attributes d" "cr_style_attributes e"]
    by (simp add: style_changed_def style_signature_def del: json_wf.simps json_canon.simps)
qed

lemma sku_changed_same:
  assumes "rows_ok ds" "d \<in> set ds" "e \<in> set ds" "cr_sku d = cr_sku e"
  shows "sku_changed k s d = sku_changed k s e" "cr_style_code d = cr_style_code e"
proof -
  have sig: "sku_signature d = sku_signature e" by (rule consistentD(2) [OF rows_okD(1) [OF assms(1)] assms(2-4)])
  moreover have "object_wf (cr_attributes d)" "object_wf (cr_attributes e)"
    using assms rows_okD(2) by (auto simp: row_ok_def simp del: json_wf.simps)
  ultimately show "sku_changed k s d = sku_changed k s e"
    using objects_same_canon [of "cr_attributes d" "cr_attributes e"]
    by (simp add: sku_changed_def sku_signature_def del: json_wf.simps json_canon.simps)
  show "cr_style_code d = cr_style_code e" using sig by (simp add: sku_signature_def)
qed

lemma epc_entry: "rows_ok ds \<Longrightarrow> d \<in> set ds \<Longrightarrow> (cr_epc d, d) \<in> set (epc_data ds)"
  using entry_of_row [OF entries(3), of d ds] consistentD(4) [OF rows_okD(1), of ds] by metis

subsection \<open>The catalog at rest\<close>

definition linked_sku :: "catalog_style list \<Rightarrow> catalog_sku \<Rightarrow> bool" where
  "linked_sku ss k \<longleftrightarrow> (\<exists>s \<in> set ss. ps_tenant s = cs_tenant k \<and> ps_id s = cs_style k)"

definition catalog_ok :: "catalog_db \<Rightarrow> bool" where
  "catalog_ok db \<longleftrightarrow>
     styles_ok (cd_styles db) \<and> skus_ok (cd_skus db) \<and> history_ok (cd_bindings db) \<and>
     list_all (linked_sku (cd_styles db)) (cd_skus db) \<and> list_all (\<lambda>b. bound_row b (cd_skus db)) (cd_bindings db)"

text \<open>The parts of the database a promotion works on, left out.\<close>

definition beside_catalog :: "catalog_db \<Rightarrow> catalog_db" where
  "beside_catalog db = db\<lparr>cd_styles := [], cd_skus := [], cd_bindings := []\<rparr>"

lemma beside_catalogD:
  assumes "beside_catalog db' = beside_catalog db"
  shows "cd_products db' = cd_products db" "cd_variants db' = cd_variants db" "cd_tags db' = cd_tags db"
    "cd_imports db' = cd_imports db" "cd_jobs db' = cd_jobs db" "cd_tenants db' = cd_tenants db"
    "cd_sources db' = cd_sources db" "cd_rows db' = cd_rows db" "cd_errors db' = cd_errors db"
  using arg_cong [OF assms, of cd_products] arg_cong [OF assms, of cd_variants] arg_cong [OF assms, of cd_tags]
    arg_cong [OF assms, of cd_imports] arg_cong [OF assms, of cd_jobs] arg_cong [OF assms, of cd_tenants]
    arg_cong [OF assms, of cd_sources] arg_cong [OF assms, of cd_rows] arg_cong [OF assms, of cd_errors]
  by (simp_all add: beside_catalog_def)

text \<open>The three passes of a promotion, before the deactivation.\<close>

lemma apply_promotion_passes:
  assumes "apply_promotion env i ds now db = Inr (c, db')"
  obtains cs db1 ck db2 cb db3 where
    "each (check_conflicts (load_catalog_state (ci_tenant i) db)) (sku_data ds) () = Inr ()"
    "each (promote_style env (ci_tenant i)) (style_data ds) (no_counts, db) = Inr (cs, db1)"
    "each (promote_sku env (ci_tenant i)) (sku_data ds) (no_counts, db1) = Inr (ck, db2)"
    "each (promote_binding i now) (epc_data ds) (no_counts, db2) = Inr (cb, db3)"
    "if ci_mode i = MODE_FULL
     then deactivate_missing (ci_tenant i) now ds (\<lparr>ec_styles = cs, ec_skus = ck, ec_bindings = cb\<rparr>, db3) = Inr (c, db')
     else c = \<lparr>ec_styles = cs, ec_skus = ck, ec_bindings = cb\<rparr> \<and> db' = db3"
  using assms by (auto simp: apply_promotion_def Let_def andp_Inr_iff split: if_splits)

lemma style_pass_start: "styles_ok (cd_styles db) \<Longrightarrow> style_pass tenant db (c, db)"
  by (simp add: style_pass_def)

lemma sku_pass_start: "skus_ok (cd_skus db) \<Longrightarrow> sku_pass tenant db (c, db)"
  by (simp add: sku_pass_def)

lemma binding_pass_start: "history_ok (cd_bindings db) \<Longrightarrow> written_by now (cd_bindings db) \<Longrightarrow> binding_pass i now db (c, db)"
  by (simp add: binding_pass_def)

lemma prefix_ident:
  assumes "prefix (map f xs) (map f ys)" "x \<in> set xs"
  obtains y where "y \<in> set ys" "f y = f x"
proof -
  have "f x \<in> set (map f ys)" using assms set_mono_prefix [OF assms(1)] by auto
  then show thesis using that by auto
qed

lemma linked_after_styles:
  assumes "prefix (map style_ident ss) (map style_ident ss')" "linked_sku ss k"
  shows "linked_sku ss' k"
proof -
  obtain s where s: "s \<in> set ss" "ps_tenant s = cs_tenant k" "ps_id s = cs_style k"
    using assms(2) by (auto simp: linked_sku_def)
  obtain s' where "s' \<in> set ss'" "style_ident s' = style_ident s" by (rule prefix_ident [OF assms(1) s(1)])
  then show ?thesis using s by (auto simp: linked_sku_def style_ident_def)
qed

lemma bound_after_skus:
  assumes "prefix (map sku_ident ks) (map sku_ident ks')" "bound_row b ks"
  shows "bound_row b ks'"
proof -
  obtain k where k: "k \<in> set ks" "cs_tenant k = eb_tenant b" "cs_id k = eb_sku b"
    using assms(2) by (auto simp: bound_row_def)
  obtain k' where "k' \<in> set ks'" "sku_ident k' = sku_ident k" by (rule prefix_ident [OF assms(1) k(1)])
  then show ?thesis using k by (auto simp: bound_row_def sku_ident_def)
qed

lemma foreign_member: "foreign f t xs = foreign f t ys \<Longrightarrow> x \<in> set xs \<Longrightarrow> f x \<noteq> t \<Longrightarrow> x \<in> set ys"
  by (drule arg_cong [of _ _ set]) (auto simp: foreign_def)

text \<open>What holds after the passes.\<close>

definition promoted :: "catalog_import \<Rightarrow> timestamp \<Rightarrow> catalog_db \<Rightarrow> catalog_db \<Rightarrow> bool" where
  "promoted i now db db' \<longleftrightarrow>
     catalog_ok db' \<and> written_by now (cd_bindings db') \<and> same_past now (cd_bindings db) (cd_bindings db') \<and>
     beside_catalog db' = beside_catalog db \<and>
     foreign ps_tenant (ci_tenant i) (cd_styles db') = foreign ps_tenant (ci_tenant i) (cd_styles db) \<and>
     foreign cs_tenant (ci_tenant i) (cd_skus db') = foreign cs_tenant (ci_tenant i) (cd_skus db) \<and>
     foreign eb_tenant (ci_tenant i) (cd_bindings db') = foreign eb_tenant (ci_tenant i) (cd_bindings db) \<and>
     prefix (map style_ident (cd_styles db)) (map style_ident (cd_styles db')) \<and>
     prefix (map sku_ident (cd_skus db)) (map sku_ident (cd_skus db'))"

lemma passes_promote:
  assumes ok: "catalog_ok db" "written_by now (cd_bindings db)" "rows_ok ds"
    and s: "each (promote_style env (ci_tenant i)) (style_data ds) (no_counts, db) = Inr (cs, db1)"
    and k: "each (promote_sku env (ci_tenant i)) (sku_data ds) (no_counts, db1) = Inr (ck, db2)"
    and b: "each (promote_binding i now) (epc_data ds) (no_counts, db2) = Inr (cb, db3)"
  shows "style_pass (ci_tenant i) db (cs, db1)" "sku_pass (ci_tenant i) db1 (ck, db2)"
    "binding_pass i now db2 (cb, db3)" "promoted i now db db3"
proof -
  show sp: "style_pass (ci_tenant i) db (cs, db1)"
    using style_loop.loop_inv [OF s style_pass_start entries_wf [OF ok(3) entries(1)]] ok(1) by (simp add: catalog_ok_def)
  have db1: "beside_catalog db1 = beside_catalog db" "cd_skus db1 = cd_skus db" "cd_bindings db1 = cd_bindings db"
    "styles_ok (cd_styles db1)" "prefix (map style_ident (cd_styles db)) (map style_ident (cd_styles db1))"
    "foreign ps_tenant (ci_tenant i) (cd_styles db1) = foreign ps_tenant (ci_tenant i) (cd_styles db)"
    using sp by (auto simp: style_pass_def Let_def beside_catalog_def
        dest: arg_cong [of _ _ beside_catalog] arg_cong [of _ _ cd_skus] arg_cong [of _ _ cd_bindings])
  show kp: "sku_pass (ci_tenant i) db1 (ck, db2)"
    using sku_loop.loop_inv [OF k sku_pass_start entries_wf [OF ok(3) entries(2)]] ok(1) db1(2) by (simp add: catalog_ok_def)
  have db2: "beside_catalog db2 = beside_catalog db1" "cd_styles db2 = cd_styles db1" "cd_bindings db2 = cd_bindings db1"
    "skus_ok (cd_skus db2)" "prefix (map sku_ident (cd_skus db1)) (map sku_ident (cd_skus db2))"
    "foreign cs_tenant (ci_tenant i) (cd_skus db2) = foreign cs_tenant (ci_tenant i) (cd_skus db1)"
    using kp by (auto simp: sku_pass_def Let_def beside_catalog_def
        dest: arg_cong [of _ _ beside_catalog] arg_cong [of _ _ cd_styles] arg_cong [of _ _ cd_bindings])
  have linked: "linked_sku (cd_styles db1) k" if kk: "k \<in> set (cd_skus db2)" for k
  proof (cases "k \<in> set (cd_skus db1)")
    case True
    then show ?thesis
      using ok(1) db1(2) linked_after_styles [OF db1(5)] by (auto simp: catalog_ok_def list_all_iff)
  next
    case False
    then have "cs_tenant k = ci_tenant i" using foreign_member [OF db2(6) kk] by blast
    then show ?thesis using kp kk False by (auto simp: sku_pass_def Let_def linked_sku_def)
  qed
  have bound: "list_all (\<lambda>b. bound_row b (cd_skus db2)) (cd_bindings db2)"
    using ok(1) db1(2,3) db2(3) bound_after_skus [OF db2(5)] by (auto simp: catalog_ok_def list_all_iff)
  show bp: "binding_pass i now db2 (cb, db3)"
    using binding_loop.loop_inv [OF b binding_pass_start] ok(1,2) db1(3) db2(3)
    by (simp add: catalog_ok_def list_all_iff)
  have db3: "beside_catalog db3 = beside_catalog db2" "cd_styles db3 = cd_styles db2" "cd_skus db3 = cd_skus db2"
    "history_ok (cd_bindings db3)" "written_by now (cd_bindings db3)" "same_past now (cd_bindings db2) (cd_bindings db3)"
    "foreign eb_tenant (ci_tenant i) (cd_bindings db3) = foreign eb_tenant (ci_tenant i) (cd_bindings db2)"
    "list_all (\<lambda>b. bound_row b (cd_skus db2)) (cd_bindings db3)"
    using bp bound by (auto simp: binding_pass_def Let_def beside_catalog_def
        dest: arg_cong [of _ _ beside_catalog] arg_cong [of _ _ cd_styles] arg_cong [of _ _ cd_skus])
  show "promoted i now db db3"
    using db1 db2 db3 linked by (simp add: promoted_def catalog_ok_def list_all_iff)
qed

subsection \<open>The rows of the import\<close>

text \<open>A row is installed when its style, its SKU and its EPC are in the catalog as it says.\<close>

definition installed :: "uuid \<Rightarrow> catalog_db \<Rightarrow> catalog_row \<Rightarrow> bool" where
  "installed tenant db d \<longleftrightarrow>
     (\<exists>s k b. find_style tenant (cr_style_code d) db = Some s \<and> \<not> style_changed s d \<and>
        find_sku tenant (cr_sku d) db = Some k \<and> \<not> sku_changed k s d \<and>
        open_binding tenant (cr_epc d) db = Some b \<and> eb_sku b = cs_id k)"

lemma passes_install:
  assumes ok: "catalog_ok db" "written_by now (cd_bindings db)" "rows_ok ds"
    and s: "each (promote_style env (ci_tenant i)) (style_data ds) (no_counts, db) = Inr (cs, db1)"
    and k: "each (promote_sku env (ci_tenant i)) (sku_data ds) (no_counts, db1) = Inr (ck, db2)"
    and b: "each (promote_binding i now) (epc_data ds) (no_counts, db2) = Inr (cb, db3)"
    and d: "d \<in> set ds"
  shows "installed (ci_tenant i) db3 d"
proof -
  note passes = passes_promote [OF ok s k b]
  have styles: "cd_styles db2 = cd_styles db1" "cd_styles db3 = cd_styles db1"
    using sku_pass_styles [OF passes(2)] passes(3) by (auto simp: binding_pass_def Let_def dest: arg_cong [of _ _ cd_styles])
  have skus: "cd_skus db3 = cd_skus db2" using binding_pass_skus [OF passes(3)] by simp
  obtain e where e: "(cr_style_code d, e) \<in> set (style_data ds)" "e \<in> set ds" "cr_style_code e = cr_style_code d"
    by (rule entry_of_row [OF entries(1) d])
  obtain r where "find_style (ci_tenant i) (cr_style_code d) db1 = Some r" "style_holds (cr_style_code d, e) r"
    using style_loop.loop_writes [OF s style_pass_start entries_wf [OF ok(3) entries(1)] entries_distinct [OF entries(1)] e(1)] ok(1)
    by (auto simp: catalog_ok_def)
  then have style: "find_style (ci_tenant i) (cr_style_code d) db3 = Some r" "\<not> style_changed r d"
    using style_changed_same [OF ok(3) d e(2)] e(3) styles by (simp_all add: style_holds_def find_style_key)
  obtain f where f: "(cr_sku d, f) \<in> set (sku_data ds)" "f \<in> set ds" "cr_sku f = cr_sku d"
    by (rule entry_of_row [OF entries(2) d])
  have code: "cr_style_code f = cr_style_code d" using sku_changed_same(2) [OF ok(3) f(2) d] f(3) by simp
  have "skus_ok (cd_skus db1)" using ok(1) passes(1) by (auto simp: catalog_ok_def style_pass_def Let_def dest: arg_cong [of _ _ cd_skus])
  then obtain j where j: "find_sku (ci_tenant i) (cr_sku d) db2 = Some j" "sku_holds (ci_tenant i) (cd_styles db1) (cr_sku d, f) j"
    using sku_loop.loop_writes [OF k sku_pass_start entries_wf [OF ok(3) entries(2)] entries_distinct [OF entries(2)] f(1)]
    by auto
  then have sku: "find_sku (ci_tenant i) (cr_sku d) db3 = Some j" "\<not> sku_changed j r d"
    using style(1) sku_changed_same(1) [OF ok(3) d f(2)] f(3) code styles skus
    by (auto simp: sku_holds_def find_style_key find_sku_key)
  have "history_ok (cd_bindings db2) \<and> written_by now (cd_bindings db2)"
    using ok(1,2) passes(1,2)
    by (auto simp: catalog_ok_def style_pass_def sku_pass_def Let_def dest!: arg_cong [of _ _ cd_bindings])
  then obtain b where b': "open_binding (ci_tenant i) (cr_epc d) db3 = Some b"
      "binding_holds (ci_tenant i) (cd_skus db2) (cr_epc d, d) b"
    using binding_loop.loop_writes [OF b binding_pass_start _ entries_distinct [OF entries(3)] epc_entry [OF ok(3) d]]
    by (auto simp: list_all_iff)
  then have "eb_sku b = cs_id j" using j(1) by (simp add: binding_holds_def find_sku_key)
  then show ?thesis using style sku b'(1) by (auto simp: installed_def)
qed

subsection \<open>The rest of the catalog\<close>

definition kept_elsewhere :: "uuid \<Rightarrow> catalog_row list \<Rightarrow> catalog_db \<Rightarrow> catalog_db \<Rightarrow> bool" where
  "kept_elsewhere tenant ds db db' \<longleftrightarrow>
     (\<forall>code. code \<notin> cr_style_code ` set ds \<longrightarrow> find_style tenant code db' = find_style tenant code db) \<and>
     (\<forall>code. code \<notin> cr_sku ` set ds \<longrightarrow> find_sku tenant code db' = find_sku tenant code db) \<and>
     (\<forall>epc. epc \<notin> cr_epc ` set ds \<longrightarrow> open_binding tenant epc db' = open_binding tenant epc db)"

definition only_supplied :: "uuid \<Rightarrow> catalog_row list \<Rightarrow> catalog_db \<Rightarrow> bool" where
  "only_supplied tenant ds db \<longleftrightarrow>
     (\<forall>s \<in> set (cd_styles db). ps_tenant s = tenant \<and> ps_active s \<longrightarrow> ps_code s \<in> cr_style_code ` set ds) \<and>
     (\<forall>k \<in> set (cd_skus db). cs_tenant k = tenant \<and> cs_active k \<longrightarrow> cs_code k \<in> cr_sku ` set ds) \<and>
     (\<forall>b \<in> set (cd_bindings db). eb_tenant b = tenant \<and> eb_to b = None \<longrightarrow> eb_epc b \<in> cr_epc ` set ds)"

lemma passes_frame:
  assumes ok: "catalog_ok db" "written_by now (cd_bindings db)" "rows_ok ds"
    and s: "each (promote_style env (ci_tenant i)) (style_data ds) (no_counts, db) = Inr (cs, db1)"
    and k: "each (promote_sku env (ci_tenant i)) (sku_data ds) (no_counts, db1) = Inr (ck, db2)"
    and b: "each (promote_binding i now) (epc_data ds) (no_counts, db2) = Inr (cb, db3)"
  shows "kept_elsewhere (ci_tenant i) ds db db3"
proof -
  note passes = passes_promote [OF ok s k b]
  have db1: "cd_skus db1 = cd_skus db" "cd_bindings db1 = cd_bindings db"
    using passes(1) by (auto simp: style_pass_def Let_def dest: arg_cong [of _ _ cd_skus] arg_cong [of _ _ cd_bindings])
  have db2: "cd_styles db2 = cd_styles db1" "cd_bindings db2 = cd_bindings db1"
    using passes(2) by (auto simp: sku_pass_def Let_def dest: arg_cong [of _ _ cd_styles] arg_cong [of _ _ cd_bindings])
  have db3: "cd_styles db3 = cd_styles db2" "cd_skus db3 = cd_skus db2"
    using passes(3) by (auto simp: binding_pass_def Let_def dest: arg_cong [of _ _ cd_styles] arg_cong [of _ _ cd_skus])
  have oks: "styles_ok (cd_styles db)" "skus_ok (cd_skus db1)" "history_ok (cd_bindings db2)" "written_by now (cd_bindings db2)"
    using ok(1,2) db1 db2 by (simp_all add: catalog_ok_def)
  have "find_style (ci_tenant i) code db3 = find_style (ci_tenant i) code db" if "code \<notin> cr_style_code ` set ds" for code
    using style_loop.loop_frame [OF s style_pass_start [OF oks(1)] entries_wf [OF ok(3) entries(1)], of code] that
      entries_keys(1) [of ds] db2(1) db3(1) by (simp add: od_keys_def find_style_def)
  moreover have "find_sku (ci_tenant i) code db3 = find_sku (ci_tenant i) code db" if "code \<notin> cr_sku ` set ds" for code
    using sku_loop.loop_frame [OF k sku_pass_start [OF oks(2)] entries_wf [OF ok(3) entries(2)], of code] that
      entries_keys(2) [of ds] db1(1) db3(2) by (simp add: od_keys_def find_sku_def)
  moreover have "open_binding (ci_tenant i) epc db3 = open_binding (ci_tenant i) epc db" if "epc \<notin> cr_epc ` set ds" for epc
    using binding_loop.loop_frame [OF b binding_pass_start [OF oks(3,4)], of epc] that
      entries_keys(3) [of ds] db1(2) db2(2) by (simp add: od_keys_def open_binding_def list_all_iff)
  ultimately show ?thesis by (simp add: kept_elsewhere_def)
qed

lemma deactivate_missing_InrD:
  assumes "deactivate_missing tenant now ds (c, db) = Inr (c', db')"
  shows "list_all (\<lambda>b. eb_tenant b = tenant \<and> eb_to b = None \<and> eb_epc b \<notin> cr_epc ` set ds \<longrightarrow> eb_from b < now) (cd_bindings db)"
    "db' = db\<lparr>cd_styles := update_where (missing_styles tenant ds) inactive_style (cd_styles db),
              cd_skus := update_where (missing_skus tenant ds) inactive_sku (cd_skus db),
              cd_bindings := update_where (\<lambda>b. eb_tenant b = tenant \<and> eb_to b = None \<and> eb_epc b \<notin> cr_epc ` set ds)
                (closed_at now) (cd_bindings db)\<rparr>"
    "c' = \<lparr>ec_styles = deactivated_by (int (length (filter (missing_styles tenant ds) (cd_styles db)))) (ec_styles c),
           ec_skus = deactivated_by (int (length (filter (missing_skus tenant ds) (cd_skus db)))) (ec_skus c),
           ec_bindings = deactivated_by (int (length (filter (missing_bindings tenant ds) (cd_bindings db)))) (ec_bindings c)\<rparr>"
  using assms by (auto simp: deactivate_missing_def Let_def andp_Inr_iff dest!: close_bindings_InrD)

lemma inactive_idents [simp]:
  "style_key (inactive_style s) = style_key s" "ps_id (inactive_style s) = ps_id s"
  "style_ident (inactive_style s) = style_ident s" "ps_tenant (inactive_style s) = ps_tenant s"
  "sku_key (inactive_sku k) = sku_key k" "cs_id (inactive_sku k) = cs_id k" "upc_key (inactive_sku k) = upc_key k"
  "sku_ident (inactive_sku k) = sku_ident k" "cs_tenant (inactive_sku k) = cs_tenant k" "cs_style (inactive_sku k) = cs_style k"
  by (simp_all add: inactive_style_def inactive_sku_def style_key_def style_ident_def sku_key_def upc_key_def sku_ident_def)

lemma linked_sku_map: "map style_ident ss' = map style_ident ss \<Longrightarrow> linked_sku ss' k = linked_sku ss k"
  using linked_after_styles [of ss ss' k] linked_after_styles [of ss' ss k] by auto

lemma bound_row_map: "map sku_ident ks' = map sku_ident ks \<Longrightarrow> bound_row b ks' = bound_row b ks"
  using bound_after_skus [of ks ks' b] bound_after_skus [of ks' ks b] by auto

lemma list_all_update_where:
  "(\<And>r. P r \<Longrightarrow> Q (f r) = Q r) \<Longrightarrow> list_all Q (update_where P f rows) = list_all Q rows"
  by (induction rows) auto

lemma deactivate_promoted:
  assumes "deactivate_missing (ci_tenant i) now ds (c, db) = Inr (c', db')" "promoted i now db0 db"
  shows "promoted i now db0 db'"
proof -
  let ?t = "ci_tenant i"
  note d = deactivate_missing_InrD [OF assms(1)]
  let ?P = "\<lambda>b. eb_tenant b = ?t \<and> eb_to b = None \<and> eb_epc b \<notin> cr_epc ` set ds"
  let ?ss = "update_where (missing_styles ?t ds) inactive_style (cd_styles db)"
  let ?ks = "update_where (missing_skus ?t ds) inactive_sku (cd_skus db)"
  let ?bs = "update_where ?P (closed_at now) (cd_bindings db)"
  have s: "map style_key ?ss = map style_key (cd_styles db)" "map ps_id ?ss = map ps_id (cd_styles db)"
    "map style_ident ?ss = map style_ident (cd_styles db)" by (simp_all add: map_update_where)
  have k: "map sku_key ?ks = map sku_key (cd_skus db)" "map cs_id ?ks = map cs_id (cd_skus db)"
    "map upc_key ?ks = map upc_key (cd_skus db)" "map sku_ident ?ks = map sku_ident (cd_skus db)"
    by (simp_all add: map_update_where)
  have foreign: "foreign ps_tenant ?t ?ss = foreign ps_tenant ?t (cd_styles db)"
    "foreign cs_tenant ?t ?ks = foreign cs_tenant ?t (cd_skus db)"
    "foreign eb_tenant ?t ?bs = foreign eb_tenant ?t (cd_bindings db)"
    by (rule foreign_update_where; simp add: missing_styles_def missing_skus_def)+
  have h: "history_ok (cd_bindings db)" "written_by now (cd_bindings db)" "same_past now (cd_bindings db0) (cd_bindings db)"
    using assms(2) by (simp_all add: promoted_def catalog_ok_def)
  have "history_ok ?bs" "written_by now ?bs" "same_past now (cd_bindings db0) ?bs"
    using close_some [of ?P now "cd_bindings db"] d(1) h same_past_trans by auto
  moreover have "list_all (linked_sku ?ss) ?ks"
  proof -
    have "list_all (linked_sku ?ss) ?ks = list_all (linked_sku ?ss) (cd_skus db)"
      by (rule list_all_update_where) (simp add: linked_sku_def)
    also have "\<dots> = list_all (linked_sku (cd_styles db)) (cd_skus db)"
      by (rule list.pred_cong [OF refl]) (rule linked_sku_map [OF s(3)])
    finally show ?thesis using assms(2) by (simp add: promoted_def catalog_ok_def)
  qed
  moreover have "list_all (\<lambda>b. bound_row b ?ks) ?bs"
  proof -
    have "list_all (\<lambda>b. bound_row b ?ks) ?bs = list_all (\<lambda>b. bound_row b ?ks) (cd_bindings db)"
      by (rule list_all_update_where) (simp add: bound_row_def)
    also have "\<dots> = list_all (\<lambda>b. bound_row b (cd_skus db)) (cd_bindings db)"
      by (rule list.pred_cong [OF refl]) (rule bound_row_map [OF k(4)])
    finally show ?thesis using assms(2) by (simp add: promoted_def catalog_ok_def)
  qed
  moreover have "beside_catalog db' = beside_catalog db" by (simp add: d(2) beside_catalog_def)
  ultimately show ?thesis
    using assms(2) foreign by (simp add: promoted_def catalog_ok_def styles_ok_def skus_ok_def d(2) s k)
qed

lemma deactivate_lookups:
  assumes "deactivate_missing tenant now ds (c, db) = Inr (c', db')"
  shows "find_style tenant code db' = map_option (\<lambda>s. if missing_styles tenant ds s then inactive_style s else s) (find_style tenant code db)"
    "find_sku tenant code db' = map_option (\<lambda>k. if missing_skus tenant ds k then inactive_sku k else k) (find_sku tenant code db)"
    "epc \<in> cr_epc ` set ds \<Longrightarrow> open_binding tenant epc db' = open_binding tenant epc db"
proof -
  note db' = deactivate_missing_InrD(2) [OF assms]
  have "select_one (\<lambda>s. style_key s = (tenant, code)) (update_where (missing_styles tenant ds) inactive_style ss) =
      map_option (\<lambda>s. if missing_styles tenant ds s then inactive_style s else s) (select_one (\<lambda>s. style_key s = (tenant, code)) ss)" for ss
    by (rule select_update_where_same) simp
  then show "find_style tenant code db' = map_option (\<lambda>s. if missing_styles tenant ds s then inactive_style s else s) (find_style tenant code db)"
    by (simp add: db' find_style_key get_by_def)
  have "select_one (\<lambda>k. sku_key k = (tenant, code)) (update_where (missing_skus tenant ds) inactive_sku ks) =
      map_option (\<lambda>k. if missing_skus tenant ds k then inactive_sku k else k) (select_one (\<lambda>k. sku_key k = (tenant, code)) ks)" for ks
    by (rule select_update_where_same) simp
  then show "find_sku tenant code db' = map_option (\<lambda>k. if missing_skus tenant ds k then inactive_sku k else k) (find_sku tenant code db)"
    by (simp add: db' find_sku_key get_by_def)
  have "select_one (\<lambda>b. eb_tenant b = tenant \<and> eb_epc b = epc \<and> eb_to b = None)
      (update_where (\<lambda>b. eb_tenant b = tenant \<and> eb_to b = None \<and> eb_epc b \<notin> cr_epc ` set ds) (closed_at now) bs) =
    select_one (\<lambda>b. eb_tenant b = tenant \<and> eb_epc b = epc \<and> eb_to b = None) bs" if "epc \<in> cr_epc ` set ds" for bs
    using that by (intro select_update_where_other) auto
  then show "open_binding tenant epc db' = open_binding tenant epc db" if "epc \<in> cr_epc ` set ds"
    using that by (simp add: db' open_binding_def)
qed

lemma update_where_all:
  assumes "r \<in> set (update_where P f rows)" "\<And>r. P r \<Longrightarrow> Q (f r)" "\<And>r. \<not> P r \<Longrightarrow> Q r"
  shows "Q r"
  using assms by (auto simp: in_update_where_iff)

lemma deactivate_only_supplied:
  assumes "deactivate_missing tenant now ds (c, db) = Inr (c', db')"
  shows "only_supplied tenant ds db'"
proof -
  have rows: "cd_styles db' = update_where (missing_styles tenant ds) inactive_style (cd_styles db)"
    "cd_skus db' = update_where (missing_skus tenant ds) inactive_sku (cd_skus db)"
    "cd_bindings db' = update_where (\<lambda>b. eb_tenant b = tenant \<and> eb_to b = None \<and> eb_epc b \<notin> cr_epc ` set ds)
      (closed_at now) (cd_bindings db)"
    by (simp_all add: deactivate_missing_InrD(2) [OF assms])
  have "ps_tenant s = tenant \<and> ps_active s \<longrightarrow> ps_code s \<in> cr_style_code ` set ds" if "s \<in> set (cd_styles db')" for s
    using that unfolding rows
    by (rule update_where_all [where Q = "\<lambda>s. ps_tenant s = tenant \<and> ps_active s \<longrightarrow> ps_code s \<in> cr_style_code ` set ds",
          of s "missing_styles tenant ds" inactive_style "cd_styles db"])
      (auto simp: missing_styles_def inactive_style_def)
  moreover have "cs_tenant k = tenant \<and> cs_active k \<longrightarrow> cs_code k \<in> cr_sku ` set ds" if "k \<in> set (cd_skus db')" for k
    using that unfolding rows
    by (rule update_where_all [where Q = "\<lambda>k. cs_tenant k = tenant \<and> cs_active k \<longrightarrow> cs_code k \<in> cr_sku ` set ds",
          of k "missing_skus tenant ds" inactive_sku "cd_skus db"])
      (auto simp: missing_skus_def inactive_sku_def)
  moreover have "eb_tenant b = tenant \<and> eb_to b = None \<longrightarrow> eb_epc b \<in> cr_epc ` set ds" if "b \<in> set (cd_bindings db')" for b
    using that unfolding rows
    by (rule update_where_all [where Q = "\<lambda>b. eb_tenant b = tenant \<and> eb_to b = None \<longrightarrow> eb_epc b \<in> cr_epc ` set ds",
          of b "\<lambda>b. eb_tenant b = tenant \<and> eb_to b = None \<and> eb_epc b \<notin> cr_epc ` set ds" "closed_at now" "cd_bindings db"])
      auto
  ultimately show ?thesis unfolding only_supplied_def by blast
qed

lemma deactivate_installed:
  assumes "deactivate_missing tenant now ds (c, db) = Inr (c', db')" "d \<in> set ds" "installed tenant db d"
  shows "installed tenant db' d"
proof -
  obtain s k b where i: "find_style tenant (cr_style_code d) db = Some s" "\<not> style_changed s d"
      "find_sku tenant (cr_sku d) db = Some k" "\<not> sku_changed k s d"
      "open_binding tenant (cr_epc d) db = Some b" "eb_sku b = cs_id k"
    using assms(3) by (auto simp: installed_def)
  have "\<not> missing_styles tenant ds s" "\<not> missing_skus tenant ds k"
    using find_styleD [OF i(1)] find_skuD [OF i(3)] assms(2) by (auto simp: missing_styles_def missing_skus_def)
  then show ?thesis
    using i assms(2) deactivate_lookups [OF assms(1)] by (simp add: installed_def)
qed

text \<open>The promotion of the catalog tables.\<close>

lemma apply_promotion_ok:
  assumes "apply_promotion env i ds now db = Inr (c, db')" "catalog_ok db" "written_by now (cd_bindings db)" "rows_ok ds"
  shows "promoted i now db db'" "d \<in> set ds \<Longrightarrow> installed (ci_tenant i) db' d"
    "ci_mode i = MODE_FULL \<Longrightarrow> only_supplied (ci_tenant i) ds db'"
    "ci_mode i = MODE_DELTA \<Longrightarrow> kept_elsewhere (ci_tenant i) ds db db'"
proof -
  obtain cs db1 ck db2 cb db3 where s: "each (promote_style env (ci_tenant i)) (style_data ds) (no_counts, db) = Inr (cs, db1)"
    and k: "each (promote_sku env (ci_tenant i)) (sku_data ds) (no_counts, db1) = Inr (ck, db2)"
    and b: "each (promote_binding i now) (epc_data ds) (no_counts, db2) = Inr (cb, db3)"
    and last: "if ci_mode i = MODE_FULL
      then deactivate_missing (ci_tenant i) now ds (\<lparr>ec_styles = cs, ec_skus = ck, ec_bindings = cb\<rparr>, db3) = Inr (c, db')
      else c = \<lparr>ec_styles = cs, ec_skus = ck, ec_bindings = cb\<rparr> \<and> db' = db3"
    using assms(1) by (rule apply_promotion_passes)
  note passed = passes_promote [OF assms(2-4) s k b] passes_install [OF assms(2-4) s k b]
    passes_frame [OF assms(2-4) s k b]
  show "promoted i now db db'" using last passed(4) deactivate_promoted by (auto split: if_splits)
  show "installed (ci_tenant i) db' d" if "d \<in> set ds"
    using last passed(5) [OF that] deactivate_installed [OF _ that] by (auto split: if_splits)
  show "only_supplied (ci_tenant i) ds db'" if "ci_mode i = MODE_FULL"
    using last that deactivate_only_supplied by auto
  show "kept_elsewhere (ci_tenant i) ds db db'" if "ci_mode i = MODE_DELTA"
    using last that passed(6) by auto
qed

end
