(* ===== verification/Catalog_Preview.thy ===== *)
theory Catalog_Preview
  imports Catalog_Sync
begin

text \<open>
  The counters of an import: the preview computed when the rows were staged is what a promotion of
  those rows to the same catalog does, and promoting rows that are already installed does nothing.
\<close>

subsection \<open>Lookups by identifier\<close>

lemma get_by_distinct: "distinct (map f rows) \<Longrightarrow> r \<in> set rows \<Longrightarrow> get_by f (f r) rows = Some r"
  by (simp add: get_by_eq_Some_iff)

lemma distinct_filter_map: "distinct (map f rows) \<Longrightarrow> distinct (map f (filter P rows))"
  by (induction rows) auto

lemma style_by_id:
  assumes "styles_ok (cd_styles db)" "s \<in> set (cd_styles db)" "ps_tenant s = tenant"
  shows "get_by ps_id (ps_id s) (st_styles (load_catalog_state tenant db)) = Some s"
  using assms by (intro get_by_distinct) (simp_all add: styles_ok_def load_catalog_state_def distinct_filter_map)

lemma sku_by_id:
  assumes "skus_ok (cd_skus db)" "k \<in> set (cd_skus db)" "cs_tenant k = tenant"
  shows "get_by cs_id (cs_id k) (st_skus (load_catalog_state tenant db)) = Some k"
  using assms by (intro get_by_distinct) (simp_all add: skus_ok_def load_catalog_state_def distinct_filter_map)

lemma find_style_member:
  "styles_ok (cd_styles db) \<Longrightarrow> s \<in> set (cd_styles db) \<Longrightarrow> find_style (ps_tenant s) (ps_code s) db = Some s"
  using get_by_distinct [of style_key "cd_styles db" s] by (simp add: styles_ok_def find_style_key style_key_def)

lemma find_sku_member:
  "skus_ok (cd_skus db) \<Longrightarrow> k \<in> set (cd_skus db) \<Longrightarrow> find_sku (cs_tenant k) (cs_code k) db = Some k"
  using get_by_distinct [of sku_key "cd_skus db" k] by (simp add: skus_ok_def find_sku_key sku_key_def)

lemma find_style_iff:
  "styles_ok (cd_styles db) \<Longrightarrow> s \<in> set (cd_styles db) \<longleftrightarrow> find_style (ps_tenant s) (ps_code s) db = Some s"
  using find_style_member [of db s] find_styleD [of "ps_tenant s" "ps_code s" db s] by blast

lemma find_sku_iff:
  "skus_ok (cd_skus db) \<Longrightarrow> k \<in> set (cd_skus db) \<longleftrightarrow> find_sku (cs_tenant k) (cs_code k) db = Some k"
  using find_sku_member [of db k] find_skuD [of "cs_tenant k" "cs_code k" db k] by blast

lemma grown_style:
  fixes db db' :: catalog_db
  assumes "prefix (map style_ident (cd_styles db)) (map style_ident (cd_styles db'))" "styles_ok (cd_styles db')"
    "find_style tenant code db = Some s"
  obtains s' where "find_style tenant code db' = Some s'" "ps_id s' = ps_id s"
proof -
  have s: "s \<in> set (cd_styles db)" "ps_tenant s = tenant" "ps_code s = code" using find_styleD [OF assms(3)] by simp_all
  obtain s' where "s' \<in> set (cd_styles db')" "style_ident s' = style_ident s" by (rule prefix_ident [OF assms(1) s(1)])
  moreover have "ps_tenant s' = tenant" "ps_code s' = code" "ps_id s' = ps_id s"
    using calculation(2) s(2,3) by (simp_all add: style_ident_def)
  ultimately show thesis using that [of s'] find_style_member [OF assms(2), of s'] by simp
qed

lemma grown_sku:
  fixes db db' :: catalog_db
  assumes "prefix (map sku_ident (cd_skus db)) (map sku_ident (cd_skus db'))" "skus_ok (cd_skus db')" "k \<in> set (cd_skus db)"
  obtains k' where "k' \<in> set (cd_skus db')" "find_sku (cs_tenant k) (cs_code k) db' = Some k'" "cs_id k' = cs_id k" "cs_code k' = cs_code k"
proof -
  obtain k' where "k' \<in> set (cd_skus db')" "sku_ident k' = sku_ident k" by (rule prefix_ident [OF assms(1,3)])
  then show thesis using that find_sku_member [OF assms(2), of k'] by (auto simp: sku_ident_def)
qed

subsection \<open>The conflict check\<close>

lemma no_conflicts:
  "each (check_conflicts st) ps () = Inr () \<longleftrightarrow>
     list_all (\<lambda>p. upc_owner_conflict st (snd p) = None \<and> sku_style_conflict st (snd p) = None) ps"
  by (induction ps) (auto simp: andp_Inr_iff check_conflicts_def split: option.splits)

text \<open>A SKU that passed the check belongs to the style of its row.\<close>

lemma checked_sku_style:
  assumes ok: "catalog_ok db" and k: "find_sku tenant (cr_sku d) db = Some k"
    and check: "sku_style_conflict (load_catalog_state tenant db) d = None"
  obtains s where "find_style tenant (cr_style_code d) db = Some s" "ps_id s = cs_style k"
proof -
  have k': "k \<in> set (cd_skus db)" "cs_tenant k = tenant" using find_skuD [OF k] by simp_all
  then obtain s where s: "s \<in> set (cd_styles db)" "ps_tenant s = tenant" "ps_id s = cs_style k"
    using ok by (auto simp: catalog_ok_def list_all_iff linked_sku_def)
  have "get_by ps_id (cs_style k) (st_styles (load_catalog_state tenant db)) = Some s"
    using style_by_id [OF _ s(1,2)] ok s(3) by (simp add: catalog_ok_def)
  then have "ps_code s = cr_style_code d"
    using check k by (simp add: sku_style_conflict_def find_sku_load split: if_splits)
  then show thesis using that find_style_member [OF _ s(1)] ok s by (auto simp: catalog_ok_def)
qed

subsection \<open>The verdicts of the preview\<close>

lemma preview_style_verdict:
  "preview_style (load_catalog_state tenant db) p = style_verdict p (find_style tenant (fst p) db)"
  by (simp add: preview_style_def style_verdict_def find_style_load)

lemma preview_sku_verdict:
  fixes db db1 :: catalog_db
  assumes ok: "catalog_ok db" and grown: "prefix (map style_ident (cd_styles db)) (map style_ident (cd_styles db1))"
    "styles_ok (cd_styles db1)" and p: "fst p = cr_sku (snd p)"
    and check: "sku_style_conflict (load_catalog_state tenant db) (snd p) = None"
  shows "preview_sku (load_catalog_state tenant db) p = sku_verdict tenant (cd_styles db1) p (find_sku tenant (fst p) db)"
proof (cases "find_sku tenant (fst p) db")
  case (Some k)
  obtain s where s: "find_style tenant (cr_style_code (snd p)) db = Some s" "ps_id s = cs_style k"
    using checked_sku_style [OF ok _ check] Some p by metis
  obtain s1 where "find_style tenant (cr_style_code (snd p)) db1 = Some s1" "ps_id s1 = ps_id s"
    by (rule grown_style [OF grown s(1)])
  then show ?thesis
    using Some s by (simp add: preview_sku_def sku_verdict_def find_sku_load find_style_load find_style_key sku_changed_def)
qed (simp add: preview_sku_def sku_verdict_def find_sku_load)

lemma preview_epc_verdict:
  fixes db db2 :: catalog_db
  assumes ok: "catalog_ok db" and grown: "prefix (map sku_ident (cd_skus db)) (map sku_ident (cd_skus db2))" "skus_ok (cd_skus db2)"
  shows "preview_epc (load_catalog_state tenant db) p = binding_verdict tenant (cd_skus db2) p (open_binding tenant (fst p) db)"
proof (cases "open_binding tenant (fst p) db")
  case (Some b)
  have b: "b \<in> set (cd_bindings db)" "eb_tenant b = tenant" using open_bindingD [OF Some] by simp_all
  then obtain k where k: "k \<in> set (cd_skus db)" "cs_tenant k = tenant" "cs_id k = eb_sku b"
    using ok by (auto simp: catalog_ok_def list_all_iff bound_row_def)
  obtain k' where k': "k' \<in> set (cd_skus db2)" "find_sku tenant (cs_code k) db2 = Some k'" "cs_id k' = cs_id k" "cs_code k' = cs_code k"
    using grown_sku [OF grown k(1)] k(2) by metis
  have "binding_holds tenant (cd_skus db2) p b \<longleftrightarrow> cs_code k = cr_sku (snd p)"
  proof
    assume "binding_holds tenant (cd_skus db2) p b"
    then obtain j where j: "find_sku tenant (cr_sku (snd p)) db2 = Some j" "eb_sku b = cs_id j"
      by (auto simp: binding_holds_def find_sku_key)
    have "j = k'"
      using grown(2) find_skuD [OF j(1)] k' k(3) j(2) by (auto simp: skus_ok_def distinct_map dest: inj_onD)
    then show "cs_code k = cr_sku (snd p)" using find_skuD [OF j(1)] k'(4) by simp
  next
    assume "cs_code k = cr_sku (snd p)"
    then show "binding_holds tenant (cd_skus db2) p b" using k' k(3) by (auto simp: binding_holds_def find_sku_key)
  qed
  moreover have "bound_to (load_catalog_state tenant db) b (cr_sku (snd p)) \<longleftrightarrow> cs_code k = cr_sku (snd p)"
    using sku_by_id [OF _ k(1,2)] ok k(3) by (simp add: bound_to_def catalog_ok_def)
  ultimately show ?thesis using Some by (simp add: preview_epc_def binding_verdict_def open_binding_load)
qed (simp add: preview_epc_def binding_verdict_def open_binding_load)

lemma tally_fold: "(\<And>x. x \<in> set xs \<Longrightarrow> f x = g x) \<Longrightarrow> fold (\<lambda>x. count_action (f x)) xs no_counts = tally g xs"
  unfolding tally_def by (rule fold_cong) auto

lemma tally_deactivated: "deactivated (tally f xs) = 0"
proof -
  have "deactivated (count_action a c) = deactivated c" for a c by (cases a) auto
  then have "deactivated (fold (\<lambda>x. count_action (f x)) xs c) = deactivated c" for c
    by (induction xs arbitrary: c) simp_all
  then show ?thesis by (simp add: tally_def no_counts_def)
qed

subsection \<open>The deactivated rows\<close>

lemma same_length: "distinct xs \<Longrightarrow> distinct ys \<Longrightarrow> set xs = set ys \<Longrightarrow> length xs = length ys"
  by (metis distinct_card)

lemma missing_styles_same:
  assumes "styles_ok (cd_styles db)" "styles_ok (cd_styles db')" "kept_elsewhere tenant ds db db'"
  shows "length (filter (missing_styles tenant ds) (cd_styles db')) =
    length (filter (\<lambda>s. ps_active s \<and> ps_code s \<notin> cr_style_code ` set ds) (st_styles (load_catalog_state tenant db)))"
proof (rule same_length)
  have d: "distinct ss" if "styles_ok ss" for ss using that by (auto simp: styles_ok_def distinct_map)
  show "distinct (filter (missing_styles tenant ds) (cd_styles db'))" using d [OF assms(2)] by simp
  show "distinct (filter (\<lambda>s. ps_active s \<and> ps_code s \<notin> cr_style_code ` set ds) (st_styles (load_catalog_state tenant db)))"
    using d [OF assms(1)] by (simp add: load_catalog_state_def)
  have "s \<in> set (cd_styles db') \<longleftrightarrow> s \<in> set (cd_styles db)"
    if "ps_tenant s = tenant" "ps_code s \<notin> cr_style_code ` set ds" for s
    using that assms(3) find_style_iff [OF assms(1), of s] find_style_iff [OF assms(2), of s]
    by (simp add: kept_elsewhere_def)
  then show "set (filter (missing_styles tenant ds) (cd_styles db')) =
      set (filter (\<lambda>s. ps_active s \<and> ps_code s \<notin> cr_style_code ` set ds) (st_styles (load_catalog_state tenant db)))"
    by (auto simp: missing_styles_def load_catalog_state_def)
qed

lemma missing_skus_same:
  assumes "skus_ok (cd_skus db)" "skus_ok (cd_skus db')" "kept_elsewhere tenant ds db db'"
  shows "length (filter (missing_skus tenant ds) (cd_skus db')) =
    length (filter (\<lambda>k. cs_active k \<and> cs_code k \<notin> cr_sku ` set ds) (st_skus (load_catalog_state tenant db)))"
proof (rule same_length)
  have d: "distinct ks" if "skus_ok ks" for ks using that by (auto simp: skus_ok_def distinct_map)
  show "distinct (filter (missing_skus tenant ds) (cd_skus db'))" using d [OF assms(2)] by simp
  show "distinct (filter (\<lambda>k. cs_active k \<and> cs_code k \<notin> cr_sku ` set ds) (st_skus (load_catalog_state tenant db)))"
    using d [OF assms(1)] by (simp add: load_catalog_state_def)
  have "k \<in> set (cd_skus db') \<longleftrightarrow> k \<in> set (cd_skus db)"
    if "cs_tenant k = tenant" "cs_code k \<notin> cr_sku ` set ds" for k
    using that assms(3) find_sku_iff [OF assms(1), of k] find_sku_iff [OF assms(2), of k]
    by (simp add: kept_elsewhere_def)
  then show "set (filter (missing_skus tenant ds) (cd_skus db')) =
      set (filter (\<lambda>k. cs_active k \<and> cs_code k \<notin> cr_sku ` set ds) (st_skus (load_catalog_state tenant db)))"
    by (auto simp: missing_skus_def load_catalog_state_def)
qed

lemma distinct_open: "history_ok bs \<Longrightarrow> distinct (filter (\<lambda>b. eb_to b = None) bs)"
proof (induction bs)
  case (Cons b bs)
  have "b \<notin> set bs" if "eb_to b = None" using Cons.prems that by (auto simp: history_ok_def succeeds_def)
  then show ?case using Cons by (auto simp: history_ok_def)
qed simp

lemma missing_bindings_same:
  assumes "history_ok (cd_bindings db)" "history_ok (cd_bindings db')" "kept_elsewhere tenant ds db db'"
  shows "length (filter (missing_bindings tenant ds) (cd_bindings db')) =
    length (filter (\<lambda>b. eb_epc b \<notin> cr_epc ` set ds) (st_bindings (load_catalog_state tenant db)))"
proof (rule same_length)
  have "distinct (filter P (filter (\<lambda>b. eb_to b = None) bs))" if "history_ok bs" for P and bs :: "catalog_binding list"
    using distinct_open [OF that] by (rule distinct_filter)
  then have d: "distinct (filter (\<lambda>b. P b \<and> eb_to b = None) bs)" if "history_ok bs" for P and bs :: "catalog_binding list"
    using that by (simp add: conj_commute)
  show "distinct (filter (missing_bindings tenant ds) (cd_bindings db'))"
    using d [OF assms(2), of "\<lambda>b. eb_tenant b = tenant \<and> eb_epc b \<notin> cr_epc ` set ds"]
    by (simp add: missing_bindings_def [abs_def] conj_assoc)
  show "distinct (filter (\<lambda>b. eb_epc b \<notin> cr_epc ` set ds) (st_bindings (load_catalog_state tenant db)))"
    using d [OF assms(1), of "\<lambda>b. eb_tenant b = tenant \<and> eb_epc b \<notin> cr_epc ` set ds"]
    by (simp add: load_catalog_state_def conj_ac)
  have "b \<in> set (cd_bindings db') \<longleftrightarrow> b \<in> set (cd_bindings db)"
    if "eb_tenant b = tenant" "eb_to b = None" "eb_epc b \<notin> cr_epc ` set ds" for b
    using that assms(3) open_binding_iff [OF assms(1), of tenant "eb_epc b" b] open_binding_iff [OF assms(2), of tenant "eb_epc b" b]
    by (auto simp: kept_elsewhere_def)
  then show "set (filter (missing_bindings tenant ds) (cd_bindings db')) =
      set (filter (\<lambda>b. eb_epc b \<notin> cr_epc ` set ds) (st_bindings (load_catalog_state tenant db)))"
    by (auto simp: missing_bindings_def load_catalog_state_def)
qed

subsection \<open>The preview is what happens\<close>

lemma deactivating_full: "deactivated c = 0 \<Longrightarrow> deactivated_by (int (length (filter P xs))) c = deactivating MODE_FULL P xs c"
  by (simp add: deactivated_by_def deactivating_def)

lemma preview_of_promotion:
  assumes run: "apply_promotion env i ds now db = Inr (c, db')" and ok: "catalog_ok db" "written_by now (cd_bindings db)" "rows_ok ds"
  shows "build_preview (ci_mode i) ds (load_catalog_state (ci_tenant i) db) = c"
proof -
  let ?t = "ci_tenant i" and ?st = "load_catalog_state (ci_tenant i) db"
  obtain cs db1 ck db2 cb db3 where check: "each (check_conflicts ?st) (sku_data ds) () = Inr ()"
    and s: "each (promote_style env ?t) (style_data ds) (no_counts, db) = Inr (cs, db1)"
    and k: "each (promote_sku env ?t) (sku_data ds) (no_counts, db1) = Inr (ck, db2)"
    and b: "each (promote_binding i now) (epc_data ds) (no_counts, db2) = Inr (cb, db3)"
    and last: "if ci_mode i = MODE_FULL
      then deactivate_missing ?t now ds (\<lparr>ec_styles = cs, ec_skus = ck, ec_bindings = cb\<rparr>, db3) = Inr (c, db')
      else c = \<lparr>ec_styles = cs, ec_skus = ck, ec_bindings = cb\<rparr> \<and> db' = db3"
    using run by (rule apply_promotion_passes)
  note passes = passes_promote [OF ok s k b]
  have db1: "cd_skus db1 = cd_skus db" "styles_ok (cd_styles db1)" "prefix (map style_ident (cd_styles db)) (map style_ident (cd_styles db1))"
    "cd_bindings db1 = cd_bindings db"
    using passes(1) by (auto simp: style_pass_def Let_def dest: arg_cong [of _ _ cd_skus] arg_cong [of _ _ cd_bindings])
  have db2: "cd_bindings db2 = cd_bindings db1" "skus_ok (cd_skus db2)" "prefix (map sku_ident (cd_skus db1)) (map sku_ident (cd_skus db2))"
    using passes(2) by (auto simp: sku_pass_def Let_def dest: arg_cong [of _ _ cd_bindings])
  have rest: "styles_ok (cd_styles db)" "skus_ok (cd_skus db1)" "history_ok (cd_bindings db2)" "written_by now (cd_bindings db2)"
    using ok(1,2) db1 db2 by (simp_all add: catalog_ok_def)
  have cs: "cs = tally (preview_style ?st) (style_data ds)"
  proof -
    have "cs = fold (\<lambda>p. count_action (style_verdict p (find_style ?t (fst p) db))) (style_data ds) no_counts"
      using style_loop.loop_counts [OF s style_pass_start [OF rest(1)] entries_wf [OF ok(3) entries(1)] entries_distinct [OF entries(1)]]
      by simp
    also have "\<dots> = tally (preview_style ?st) (style_data ds)"
      by (rule tally_fold) (rule preview_style_verdict [symmetric])
    finally show ?thesis .
  qed
  have ck: "ck = tally (preview_sku ?st) (sku_data ds)"
  proof -
    have "ck = fold (\<lambda>p. count_action (sku_verdict ?t (cd_styles db1) p (find_sku ?t (fst p) db1))) (sku_data ds) no_counts"
      using sku_loop.loop_counts [OF k sku_pass_start [OF rest(2)] entries_wf [OF ok(3) entries(2)] entries_distinct [OF entries(2)]]
      by simp
    also have "\<dots> = tally (preview_sku ?st) (sku_data ds)"
    proof (rule tally_fold)
      fix p assume p: "p \<in> set (sku_data ds)"
      have "fst p = cr_sku (snd p)" using entries(2) [of ds] p by (simp add: entries_of_def)
      moreover have "sku_style_conflict ?st (snd p) = None" using check p by (simp add: no_conflicts list_all_iff)
      ultimately show "sku_verdict ?t (cd_styles db1) p (find_sku ?t (fst p) db1) = preview_sku ?st p"
        using preview_sku_verdict [OF ok(1) db1(3,2)] db1(1) by (simp add: find_sku_def)
    qed
    finally show ?thesis .
  qed
  have cb: "cb = tally (preview_epc ?st) (epc_data ds)"
  proof -
    have "cb = fold (\<lambda>p. count_action (binding_verdict ?t (cd_skus db2) p (open_binding ?t (fst p) db2))) (epc_data ds) no_counts"
      using binding_loop.loop_counts [OF b binding_pass_start [OF rest(3,4)] _ entries_distinct [OF entries(3)]]
      by (simp add: list_all_iff)
    also have "\<dots> = tally (preview_epc ?st) (epc_data ds)"
      using preview_epc_verdict [OF ok(1) db2(3) [unfolded db1(1)] db2(2)] db1(4) db2(1)
      by (intro tally_fold) (simp add: open_binding_def)
    finally show ?thesis .
  qed
  show ?thesis
  proof (cases "ci_mode i")
    case MODE_DELTA
    then show ?thesis using last by (simp add: build_preview_def deactivating_def cs ck cb)
  next
    case MODE_FULL
    have ok3: "styles_ok (cd_styles db3)" "skus_ok (cd_skus db3)" "history_ok (cd_bindings db3)"
      using passes(4) by (simp_all add: promoted_def catalog_ok_def)
    note kept = passes_frame [OF ok s k b]
    have d: "deactivate_missing ?t now ds (\<lparr>ec_styles = cs, ec_skus = ck, ec_bindings = cb\<rparr>, db3) = Inr (c, db')"
      using last MODE_FULL by simp
    have "styles_ok (cd_styles db)" "skus_ok (cd_skus db)" "history_ok (cd_bindings db)" using ok(1) by (simp_all add: catalog_ok_def)
    then show ?thesis
      using missing_styles_same [OF _ ok3(1) kept] missing_skus_same [OF _ ok3(2) kept] missing_bindings_same [OF _ ok3(3) kept]
        deactivate_missing_InrD(3) [OF d] MODE_FULL
      by (simp add: build_preview_def deactivating_full tally_deactivated cs ck cb)
  qed
qed

subsection \<open>Promoting installed rows\<close>

lemma each_unchanged:
  assumes "\<And>p c. p \<in> set ps \<Longrightarrow> f p (c, db) = Inr (count_action ACTION_UNCHANGED c, db)"
  shows "each f ps (c, db) = Inr (c\<lparr>unchanged := unchanged c + int (length ps)\<rparr>, db)"
  using assms
proof (induction ps arbitrary: c)
  case (Cons p ps)
  then show ?case by (simp add: algebra_simps)
qed simp

definition counted_unchanged :: "nat \<Rightarrow> counters" where
  "counted_unchanged n = \<lparr>inserted = 0, updated = 0, unchanged = int n, deactivated = 0\<rparr>"

lemma no_counts_unchanged: "no_counts\<lparr>unchanged := unchanged no_counts + int n\<rparr> = counted_unchanged n"
  by (simp add: no_counts_def counted_unchanged_def)

lemma installed_no_conflict:
  assumes ok: "catalog_ok db" and d: "installed tenant db d"
  shows "upc_owner_conflict (load_catalog_state tenant db) d = None" "sku_style_conflict (load_catalog_state tenant db) d = None"
proof -
  obtain s k where i: "find_style tenant (cr_style_code d) db = Some s" "find_sku tenant (cr_sku d) db = Some k" "\<not> sku_changed k s d"
    using d by (auto simp: installed_def)
  have k: "k \<in> set (cd_skus db)" "cs_tenant k = tenant" "cs_code k = cr_sku d" using find_skuD [OF i(2)] by simp_all
  have s: "s \<in> set (cd_styles db)" "ps_tenant s = tenant" "ps_code s = cr_style_code d" using find_styleD [OF i(1)] by simp_all
  have "get_by ps_id (cs_style k) (st_styles (load_catalog_state tenant db)) = Some s"
    using style_by_id [OF _ s(1,2)] ok i(3) by (simp add: catalog_ok_def sku_changed_def)
  then show "sku_style_conflict (load_catalog_state tenant db) d = None"
    using i(2) s(3) by (simp add: sku_style_conflict_def find_sku_load)
  have "cs_code j = cr_sku d" if "get_by cs_upc (cr_upc d) (st_skus (load_catalog_state tenant db)) = Some j" for j
  proof -
    have j: "j \<in> set (cd_skus db)" "cs_tenant j = tenant" "cs_upc j = cr_upc d"
      using get_by_SomeD [OF that] by (simp_all add: load_catalog_state_def)
    have "inj_on upc_key (set (cd_skus db))" using ok by (simp add: catalog_ok_def skus_ok_def distinct_map)
    then have "j = k" by (rule inj_onD) (use j k i(3) in \<open>simp_all add: upc_key_def sku_changed_def\<close>)
    then show ?thesis using k(3) by simp
  qed
  then show "upc_owner_conflict (load_catalog_state tenant db) d = None"
    by (simp add: upc_owner_conflict_def split: option.split)
qed

lemma entry_installed:
  assumes "entries_of f ds ps" "\<And>d. d \<in> set ds \<Longrightarrow> installed tenant db d" "p \<in> set ps"
  shows "installed tenant db (snd p)" "fst p = f (snd p)"
  using assms by (auto simp: entries_of_def)

lemma installed_steps:
  assumes "installed (ci_tenant i) db d"
  shows "promote_style env (ci_tenant i) (cr_style_code d, d) (c, db) = Inr (count_action ACTION_UNCHANGED c, db)"
    "promote_sku env (ci_tenant i) (cr_sku d, d) (c, db) = Inr (count_action ACTION_UNCHANGED c, db)"
    "promote_binding i now (cr_epc d, d) (c, db) = Inr (count_action ACTION_UNCHANGED c, db)"
  using assms by (auto simp: installed_def promote_style_def promote_sku_def promote_binding_def)

lemma nothing_missing:
  assumes "only_supplied tenant ds db"
  shows "filter (missing_styles tenant ds) (cd_styles db) = []" "filter (missing_skus tenant ds) (cd_skus db) = []"
    "filter (missing_bindings tenant ds) (cd_bindings db) = []"
  using assms by (auto simp: only_supplied_def missing_styles_def missing_skus_def missing_bindings_def filter_empty_conv)

lemma deactivate_nothing:
  assumes "only_supplied tenant ds db"
  shows "deactivate_missing tenant now ds (c, db) = Inr (c, db)"
proof -
  have ids: "update_where (missing_styles tenant ds) inactive_style (cd_styles db) = cd_styles db"
    "update_where (missing_skus tenant ds) inactive_sku (cd_skus db) = cd_skus db"
    "update_where (\<lambda>b. eb_tenant b = tenant \<and> eb_to b = None \<and> eb_epc b \<notin> cr_epc ` set ds) (closed_at now) (cd_bindings db) = cd_bindings db"
    using assms(1) by (auto simp: only_supplied_def missing_styles_def missing_skus_def intro!: update_where_id)
  have early: "list_all (\<lambda>b. eb_tenant b = tenant \<and> eb_to b = None \<and> eb_epc b \<notin> cr_epc ` set ds \<longrightarrow> eb_from b < now) (cd_bindings db)"
    using assms(1) by (auto simp: only_supplied_def list_all_iff)
  have "deactivated_by 0 x = x" for x by (simp add: deactivated_by_def)
  then show ?thesis
    using early by (simp add: deactivate_missing_def Let_def nothing_missing [OF assms(1)] close_bindings_def ids require_def)
qed

lemma promote_installed:
  assumes ok: "catalog_ok db" and rows: "\<And>d. d \<in> set ds \<Longrightarrow> installed (ci_tenant i) db d"
    and rest: "ci_mode i = MODE_FULL \<Longrightarrow> only_supplied (ci_tenant i) ds db"
  shows "apply_promotion env i ds now db =
    Inr (\<lparr>ec_styles = counted_unchanged (length (style_data ds)), ec_skus = counted_unchanged (length (sku_data ds)),
          ec_bindings = counted_unchanged (length (epc_data ds))\<rparr>, db)"
proof -
  let ?t = "ci_tenant i"
  have check: "each (check_conflicts (load_catalog_state ?t db)) (sku_data ds) () = Inr ()"
    using entry_installed(1) [OF entries(2) rows] installed_no_conflict [OF ok] by (simp add: no_conflicts list_all_iff)
  have s: "each (promote_style env ?t) (style_data ds) (no_counts, db) = Inr (counted_unchanged (length (style_data ds)), db)"
    using each_unchanged [of "style_data ds" "promote_style env ?t" db no_counts] entry_installed [OF entries(1) rows]
      installed_steps(1) by (metis no_counts_unchanged prod.collapse)
  have k: "each (promote_sku env ?t) (sku_data ds) (no_counts, db) = Inr (counted_unchanged (length (sku_data ds)), db)"
    using each_unchanged [of "sku_data ds" "promote_sku env ?t" db no_counts] entry_installed [OF entries(2) rows]
      installed_steps(2) by (metis no_counts_unchanged prod.collapse)
  have b: "each (promote_binding i now) (epc_data ds) (no_counts, db) = Inr (counted_unchanged (length (epc_data ds)), db)"
    using each_unchanged [of "epc_data ds" "promote_binding i now" db no_counts] entry_installed [OF entries(3) rows]
      installed_steps(3) by (metis no_counts_unchanged prod.collapse)
  show ?thesis
    using check s k b deactivate_nothing [OF rest] by (simp add: apply_promotion_def Let_def)
qed

end
