(* ===== verification/Catalog_Mirror.thy ===== *)
theory Catalog_Mirror
  imports Catalog_Preview
begin

text \<open>
  The product hierarchy and the tags after a promotion: every row hangs on an active variant of an
  active product, and the active tags are the open bindings.
\<close>

subsection \<open>Products\<close>

definition product_key :: "catalog_product \<Rightarrow> uuid \<times> string" where
  "product_key p = (cp_tenant p, cp_style_code p)"

definition product_ident :: "catalog_product \<Rightarrow> uuid \<times> uuid \<times> string" where
  "product_ident p = (cp_tenant p, cp_id p, cp_style_code p)"

definition products_ok :: "catalog_product list \<Rightarrow> bool" where
  "products_ok ps \<longleftrightarrow> distinct (map product_key ps) \<and> distinct (map cp_id ps)"

lemma find_product_key: "find_product tenant code db = get_by product_key (tenant, code) (cd_products db)"
  by (simp add: find_product_def product_key_def [abs_def])

lemma find_productD: "find_product tenant code db = Some p \<Longrightarrow> p \<in> set (cd_products db) \<and> cp_tenant p = tenant \<and> cp_style_code p = code"
  unfolding find_product_def by (drule get_by_SomeD) simp

lemma get_product_update_where:
  assumes "\<And>p. product_key (f p) = product_key p"
  shows "get_by product_key k (update_where (\<lambda>p. cp_tenant p = tenant \<and> cp_style_code p = code) f ps) =
    (if k = (tenant, code) then map_option f (get_by product_key k ps) else get_by product_key k ps)"
  by (rule get_by_update_where) (simp_all add: assms, simp add: product_key_def)

definition product_holds :: "catalog_env \<Rightarrow> string \<times> catalog_row \<Rightarrow> catalog_product \<Rightarrow> bool" where
  "product_holds env p r \<longleftrightarrow>
     cp_style_code r = fst p \<and> cp_name r = cr_style_name (snd p) \<and> cp_category r = product_category env (snd p) \<and>
     cp_attributes r = cr_style_attributes (snd p) \<and> cp_active r"

definition product_pass :: "uuid \<Rightarrow> catalog_db \<Rightarrow> catalog_db \<Rightarrow> bool" where
  "product_pass tenant db0 db \<longleftrightarrow>
     db\<lparr>cd_products := []\<rparr> = db0\<lparr>cd_products := []\<rparr> \<and> products_ok (cd_products db) \<and>
     prefix (map product_ident (cd_products db0)) (map product_ident (cd_products db)) \<and>
     foreign cp_tenant tenant (cd_products db) = foreign cp_tenant tenant (cd_products db0)"

lemma sync_product_cases [consumes 1, case_names insert update]:
  assumes "sync_product env tenant p db = Inr db'"
  obtains "find_product tenant (fst p) db = None" "ce_product_id env (fst p) \<notin> cp_id ` set (cd_products db)"
    "db' = db\<lparr>cd_products := cd_products db @ [new_product env tenant (fst p) (snd p)]\<rparr>"
  | r where "find_product tenant (fst p) db = Some r"
    "db' = db\<lparr>cd_products := update_where (\<lambda>r. cp_tenant r = tenant \<and> cp_style_code r = fst p)
       (rewritten_product env (snd p)) (cd_products db)\<rparr>"
  using assms
  by (auto simp: sync_product_def split_beta andp_Inr_iff split: option.splits)

lemma product_rewritten [simp]:
  "product_key (rewritten_product env d p) = product_key p" "cp_id (rewritten_product env d p) = cp_id p"
  "product_ident (rewritten_product env d p) = product_ident p" "cp_tenant (rewritten_product env d p) = cp_tenant p"
  by (simp_all add: product_key_def product_ident_def rewritten_product_def)

interpretation product_loop: keyed_writes "sync_product env tenant" "\<lambda>_. True" "find_product tenant"
  "product_holds env" "product_pass tenant db0"
  for env tenant db0
proof unfold_locales
  fix s p s'
  assume inv: "product_pass tenant db0 s" and step: "sync_product env tenant p s = Inr s'"
  have new: "product_key (new_product env tenant (fst p) (snd p)) = (tenant, fst p)" by (simp add: product_key_def new_product_def)
  from step show "find_product tenant k s' = find_product tenant k s" if "k \<noteq> fst p" for k
  proof (cases rule: sync_product_cases)
    case insert
    then show ?thesis using that new by (auto simp: find_product_key get_by_append_new get_by_None_iff)
  next
    case (update r)
    then show ?thesis using that by (simp add: find_product_key get_product_update_where)
  qed
  from step show "\<exists>r. find_product tenant (fst p) s' = Some r \<and> product_holds env p r"
  proof (cases rule: sync_product_cases)
    case insert
    then have "find_product tenant (fst p) s' = Some (new_product env tenant (fst p) (snd p))"
      using new by (auto simp: find_product_key get_by_append_new get_by_None_iff)
    then show ?thesis by (simp add: product_holds_def new_product_def)
  next
    case (update r)
    then have "find_product tenant (fst p) s' = Some (rewritten_product env (snd p) r)"
      by (simp add: find_product_key get_product_update_where)
    then show ?thesis using find_productD [OF update(1)] by (simp add: product_holds_def rewritten_product_def)
  qed
  from step show "product_pass tenant db0 s'"
  proof (cases rule: sync_product_cases)
    case insert
    have "products_ok (cd_products s @ [new_product env tenant (fst p) (snd p)])"
      using inv insert(1,2)
      by (auto simp: product_pass_def products_ok_def find_product_key get_by_None_iff product_key_def new_product_def)
    then show ?thesis using inv insert(3) by (auto simp: product_pass_def new_product_def prefix_def)
  next
    case (update r)
    let ?ps = "update_where (\<lambda>r. cp_tenant r = tenant \<and> cp_style_code r = fst p) (rewritten_product env (snd p)) (cd_products s)"
    have maps: "map product_key ?ps = map product_key (cd_products s)" "map cp_id ?ps = map cp_id (cd_products s)"
      "map product_ident ?ps = map product_ident (cd_products s)" by (simp_all add: map_update_where)
    have "foreign cp_tenant tenant ?ps = foreign cp_tenant tenant (cd_products s)" by (rule foreign_update_where) simp
    then show ?thesis using inv update(2) by (simp add: product_pass_def products_ok_def maps)
  qed
qed

subsection \<open>Variants\<close>

definition variant_key :: "catalog_variant \<Rightarrow> uuid \<times> uuid \<times> string" where
  "variant_key v = (cv_tenant v, cv_product v, cv_color v)"

definition variants_ok :: "catalog_variant list \<Rightarrow> bool" where
  "variants_ok vs \<longleftrightarrow> distinct (map variant_key vs) \<and> distinct (map cv_id vs)"

lemma find_variant_key: "find_variant tenant p color db = get_by variant_key (tenant, p, color) (cd_variants db)"
  by (simp add: find_variant_def variant_key_def [abs_def])

lemma find_variantD:
  "find_variant tenant p color db = Some v \<Longrightarrow>
     v \<in> set (cd_variants db) \<and> cv_tenant v = tenant \<and> cv_product v = p \<and> cv_color v = color"
  unfolding find_variant_def by (drule get_by_SomeD) simp

abbreviation activate :: "catalog_variant \<Rightarrow> catalog_variant" where
  "activate v \<equiv> v\<lparr>cv_active := True\<rparr>"

text \<open>A variant survives: it keeps its identity and is not deactivated.\<close>

definition variants_grow :: "catalog_variant list \<Rightarrow> catalog_variant list \<Rightarrow> bool" where
  "variants_grow vs vs' \<longleftrightarrow>
     (\<forall>k v. get_by variant_key k vs = Some v \<longrightarrow>
        (\<exists>v'. get_by variant_key k vs' = Some v' \<and> cv_id v' = cv_id v \<and> (cv_active v \<longrightarrow> cv_active v')))"

lemma variants_grow_refl: "variants_grow vs vs"
  by (simp add: variants_grow_def)

lemma variants_grow_trans: "variants_grow us vs \<Longrightarrow> variants_grow vs ws \<Longrightarrow> variants_grow us ws"
  unfolding variants_grow_def by metis

lemma sync_variant_ok:
  assumes "sync_variant env tenant p d db = Inr (v, db')" "variants_ok (cd_variants db)"
  shows "db' = db\<lparr>cd_variants := cd_variants db'\<rparr>" "variants_ok (cd_variants db')"
    "variants_grow (cd_variants db) (cd_variants db')"
    "\<exists>w. find_variant tenant p (cr_color d) db' = Some w \<and> cv_id w = v \<and> cv_active w"
    "foreign cv_tenant tenant (cd_variants db') = foreign cv_tenant tenant (cd_variants db)"
proof -
  have "db' = db\<lparr>cd_variants := cd_variants db'\<rparr> \<and> variants_ok (cd_variants db') \<and>
    variants_grow (cd_variants db) (cd_variants db') \<and>
    (\<exists>w. find_variant tenant p (cr_color d) db' = Some w \<and> cv_id w = v \<and> cv_active w) \<and>
    foreign cv_tenant tenant (cd_variants db') = foreign cv_tenant tenant (cd_variants db)"
  proof (cases "find_variant tenant p (cr_color d) db")
    case None
    let ?w = "\<lparr>cv_tenant = tenant, cv_id = v, cv_product = p, cv_color = cr_color d, cv_active = True\<rparr>"
    have db': "db' = db\<lparr>cd_variants := cd_variants db @ [?w]\<rparr>" "v \<notin> cv_id ` set (cd_variants db)"
      using assms(1) None by (auto simp: sync_variant_def Let_def)
    have fresh: "(tenant, p, cr_color d) \<notin> variant_key ` set (cd_variants db)"
      using None by (simp add: find_variant_key get_by_None_iff)
    have "variants_ok (cd_variants db @ [?w])"
      using assms(2) fresh db'(2) by (auto simp: variants_ok_def variant_key_def)
    moreover have key: "get_by variant_key k (cd_variants db @ [?w]) = (if k = (tenant, p, cr_color d) then Some ?w else get_by variant_key k (cd_variants db))" for k
      using get_by_append_new [of variant_key ?w "cd_variants db" k] fresh by (simp add: variant_key_def)
    moreover have "variants_grow (cd_variants db) (cd_variants db @ [?w])"
      using None unfolding variants_grow_def key find_variant_key by auto
    ultimately show ?thesis by (simp add: db' find_variant_key)
  next
    case (Some w)
    let ?vs = "update_where (\<lambda>x. cv_id x = cv_id w) activate (cd_variants db)"
    have db': "v = cv_id w" "db' = db\<lparr>cd_variants := ?vs\<rparr>"
      using assms(1) Some by (auto simp: sync_variant_def)
    have maps: "map variant_key ?vs = map variant_key (cd_variants db)" "map cv_id ?vs = map cv_id (cd_variants db)"
      by (simp_all add: map_update_where variant_key_def)
    have look: "get_by variant_key k ?vs = map_option (\<lambda>x. if cv_id x = cv_id w then activate x else x) (get_by variant_key k (cd_variants db))" for k
      unfolding get_by_def by (rule select_update_where_same) (simp add: variant_key_def)
    have w: "w \<in> set (cd_variants db)" "cv_tenant w = tenant" using find_variantD [OF Some] by simp_all
    have "foreign cv_tenant tenant ?vs = foreign cv_tenant tenant (cd_variants db)"
      unfolding foreign_def
    proof (rule filter_update_where)
      fix x assume x: "x \<in> set (cd_variants db)" "cv_id x = cv_id w"
      have "x = w" using assms(2) x w(1) by (auto simp: variants_ok_def distinct_map dest: inj_onD)
      then show "\<not> cv_tenant x \<noteq> tenant \<and> \<not> cv_tenant (activate x) \<noteq> tenant" using w(2) by simp
    qed
    moreover have "variants_ok ?vs" using assms(2) by (simp add: variants_ok_def maps)
    moreover have "variants_grow (cd_variants db) ?vs" by (auto simp: variants_grow_def look)
    ultimately show ?thesis using Some by (simp add: db' look find_variant_key)
  qed
  then show "db' = db\<lparr>cd_variants := cd_variants db'\<rparr>" "variants_ok (cd_variants db')"
    "variants_grow (cd_variants db) (cd_variants db')"
    "\<exists>w. find_variant tenant p (cr_color d) db' = Some w \<and> cv_id w = v \<and> cv_active w"
    "foreign cv_tenant tenant (cd_variants db') = foreign cv_tenant tenant (cd_variants db)" by blast+
qed

subsection \<open>Tags\<close>

definition tag_key :: "rfid_tag \<Rightarrow> uuid \<times> string" where
  "tag_key t = (rt_tenant t, rt_epc t)"

definition find_tag :: "uuid \<Rightarrow> string \<Rightarrow> catalog_db \<Rightarrow> rfid_tag option" where
  "find_tag tenant epc db = get_by tag_key (tenant, epc) (cd_tags db)"

definition tags_ok :: "rfid_tag list \<Rightarrow> bool" where
  "tags_ok ts \<longleftrightarrow> distinct (map tag_key ts)"

definition row_tag :: "catalog_import \<Rightarrow> uuid \<Rightarrow> string \<Rightarrow> rfid_tag" where
  "row_tag i sku_id epc =
     \<lparr>rt_tenant = ci_tenant i, rt_epc = epc, rt_sku = sku_id, rt_source = ci_id i, rt_active = True\<rparr>"

lemma sync_tag_put: "sync_tag i sku_id epc tags = put_by tag_key (row_tag i sku_id epc) tags"
  by (simp add: sync_tag_def row_tag_def tag_key_def [abs_def])

lemma foreign_put_by:
  "(\<And>r'. key r' = key r \<Longrightarrow> f r' = tenant) \<Longrightarrow> foreign f tenant (put_by key r rows) = foreign f tenant rows"
  by (induction rows) (auto simp: foreign_def)

text \<open>A SKU row without its variant: all a synchronization may change of it is the variant.\<close>

definition sku_core :: "catalog_sku \<Rightarrow> catalog_sku" where
  "sku_core k = k\<lparr>cs_variant := None\<rparr>"

lemma sku_core_simps [simp]: "cs_tenant (sku_core k) = cs_tenant k" "cs_id (sku_core k) = cs_id k"
  "cs_code (sku_core k) = cs_code k" "cs_style (sku_core k) = cs_style k" "cs_active (sku_core k) = cs_active k"
  "cs_upc (sku_core k) = cs_upc k" "sku_key (sku_core k) = sku_key k" "sku_core (k\<lparr>cs_variant := v\<rparr>) = sku_core k"
  "sku_changed (sku_core k) s d = sku_changed k s d" "sku_ident (sku_core k) = sku_ident k" "upc_key (sku_core k) = upc_key k"
  by (simp_all add: sku_core_def sku_key_def sku_changed_def sku_ident_def upc_key_def)

lemma get_by_core: "map_option sku_core (get_by sku_key k ks) = get_by sku_key k (map sku_core ks)"
  by (induction ks) auto

lemma find_sku_core:
  assumes "map sku_core (cd_skus db') = map sku_core (cd_skus db)" "find_sku tenant code db = Some k"
  obtains k' where "find_sku tenant code db' = Some k'" "sku_core k' = sku_core k"
proof -
  have "map_option sku_core (find_sku tenant code db') = map_option sku_core (find_sku tenant code db)"
    using assms(1) by (simp add: find_sku_key get_by_core)
  then show thesis using that assms(2) by (cases "find_sku tenant code db'") auto
qed

definition row_pass :: "uuid \<Rightarrow> catalog_db \<Rightarrow> catalog_db \<Rightarrow> bool" where
  "row_pass tenant db0 db \<longleftrightarrow>
     db\<lparr>cd_skus := [], cd_variants := [], cd_tags := []\<rparr> = db0\<lparr>cd_skus := [], cd_variants := [], cd_tags := []\<rparr> \<and>
     map sku_core (cd_skus db) = map sku_core (cd_skus db0) \<and> variants_ok (cd_variants db) \<and> tags_ok (cd_tags db) \<and>
     variants_grow (cd_variants db0) (cd_variants db) \<and>
     foreign cs_tenant tenant (cd_skus db) = foreign cs_tenant tenant (cd_skus db0) \<and>
     foreign cv_tenant tenant (cd_variants db) = foreign cv_tenant tenant (cd_variants db0) \<and>
     foreign rt_tenant tenant (cd_tags db) = foreign rt_tenant tenant (cd_tags db0)"

lemma row_passD:
  assumes "row_pass tenant db0 db"
  shows "cd_products db = cd_products db0" "cd_styles db = cd_styles db0" "cd_bindings db = cd_bindings db0"
proof -
  have eq: "db\<lparr>cd_skus := [], cd_variants := [], cd_tags := []\<rparr> = db0\<lparr>cd_skus := [], cd_variants := [], cd_tags := []\<rparr>"
    using assms by (simp add: row_pass_def)
  show "cd_products db = cd_products db0" "cd_styles db = cd_styles db0" "cd_bindings db = cd_bindings db0"
    using arg_cong [OF eq, of cd_products] arg_cong [OF eq, of cd_styles] arg_cong [OF eq, of cd_bindings] by simp_all
qed

lemma sync_row_cases:
  assumes "sync_row env i d db = Inr db'"
  obtains p v db1 k where "find_product (ci_tenant i) (cr_style_code d) db = Some p"
    "sync_variant env (ci_tenant i) (cp_id p) d db = Inr (v, db1)" "find_sku (ci_tenant i) (cr_sku d) db1 = Some k"
    "db' = db1\<lparr>cd_skus := update_where (\<lambda>k. cs_tenant k = ci_tenant i \<and> cs_code k = cr_sku d)
                 (\<lambda>k. k\<lparr>cs_variant := Some v\<rparr>) (cd_skus db1),
               cd_tags := put_by tag_key (row_tag i (cs_id k) (cr_epc d)) (cd_tags db1)\<rparr>"
  using assms by (auto simp: sync_row_def andp_Inr_iff sync_tag_put Let_def split: option.splits)

definition tag_holds :: "uuid \<Rightarrow> catalog_db \<Rightarrow> string \<times> catalog_row \<Rightarrow> rfid_tag \<Rightarrow> bool" where
  "tag_holds tenant db0 p t \<longleftrightarrow>
     rt_active t \<and> (\<exists>k. find_sku tenant (cr_sku (snd p)) db0 = Some k \<and> rt_sku t = cs_id k)"

definition keyed_row :: "string \<times> catalog_row \<Rightarrow> bool" where
  "keyed_row p \<longleftrightarrow> fst p = cr_epc (snd p)"

definition sync_entry :: "catalog_env \<Rightarrow> catalog_import \<Rightarrow> string \<times> catalog_row \<Rightarrow> catalog_db \<Rightarrow> catalog_db promoting" where
  "sync_entry env i p db = (if keyed_row p then sync_row env i (snd p) db else Inl (DataFailure ''key''))"

lemma sync_row_pass:
  assumes inv: "row_pass (ci_tenant i) db0 db" and step: "sync_row env i d db = Inr db'"
  shows "row_pass (ci_tenant i) db0 db'" "\<exists>t. find_tag (ci_tenant i) (cr_epc d) db' = Some t \<and> tag_holds (ci_tenant i) db0 (cr_epc d, d) t"
    "epc \<noteq> cr_epc d \<Longrightarrow> find_tag (ci_tenant i) epc db' = find_tag (ci_tenant i) epc db"
proof -
  let ?t = "ci_tenant i"
  obtain p v db1 k where r: "find_product ?t (cr_style_code d) db = Some p"
    "sync_variant env ?t (cp_id p) d db = Inr (v, db1)" "find_sku ?t (cr_sku d) db1 = Some k"
    "db' = db1\<lparr>cd_skus := update_where (\<lambda>k. cs_tenant k = ?t \<and> cs_code k = cr_sku d) (\<lambda>k. k\<lparr>cs_variant := Some v\<rparr>) (cd_skus db1),
               cd_tags := put_by tag_key (row_tag i (cs_id k) (cr_epc d)) (cd_tags db1)\<rparr>"
    using step by (rule sync_row_cases)
  have vok: "variants_ok (cd_variants db)" using inv by (simp add: row_pass_def)
  note var = sync_variant_ok [OF r(2) vok]
  have same: "cd_skus db1 = cd_skus db" "cd_tags db1 = cd_tags db" by (subst var(1), simp)+
  have beside: "db1\<lparr>cd_skus := xs, cd_variants := [], cd_tags := ts\<rparr> = db\<lparr>cd_skus := xs, cd_variants := [], cd_tags := ts\<rparr>" for xs ts
    by (subst var(1)) simp
  let ?ks = "update_where (\<lambda>k. cs_tenant k = ?t \<and> cs_code k = cr_sku d) (\<lambda>k. k\<lparr>cs_variant := Some v\<rparr>) (cd_skus db)"
  have ks: "map sku_core ?ks = map sku_core (cd_skus db)" by (simp add: map_update_where)
  have fks: "foreign cs_tenant ?t ?ks = foreign cs_tenant ?t (cd_skus db)" by (rule foreign_update_where) simp
  have fts: "foreign rt_tenant ?t (put_by tag_key (row_tag i (cs_id k) (cr_epc d)) (cd_tags db)) = foreign rt_tenant ?t (cd_tags db)"
    by (rule foreign_put_by) (auto simp: row_tag_def tag_key_def)
  have key: "tag_key (row_tag i (cs_id k) (cr_epc d)) = (?t, cr_epc d)" by (simp add: tag_key_def row_tag_def)
  have "tags_ok (put_by tag_key (row_tag i (cs_id k) (cr_epc d)) (cd_tags db))"
    using inv by (simp add: tags_ok_def row_pass_def distinct_put_by)
  then show "row_pass ?t db0 db'"
    using inv var(2,5) variants_grow_trans [OF _ var(3)] ks fks fts beside
    by (simp add: row_pass_def r(4) same)
  obtain k0 where "find_sku ?t (cr_sku d) db0 = Some k0" "sku_core k0 = sku_core k"
    using find_sku_core [of db0 db1 ?t "cr_sku d" k] inv r(3) same by (auto simp: row_pass_def)
  moreover from this(2) have "cs_id k0 = cs_id k" using sku_core_simps(2) by metis
  moreover have "find_tag ?t (cr_epc d) db' = Some (row_tag i (cs_id k) (cr_epc d))"
    by (simp add: find_tag_def r(4) key table.get_put)
  ultimately show "\<exists>t. find_tag ?t (cr_epc d) db' = Some t \<and> tag_holds ?t db0 (cr_epc d, d) t"
    by (simp add: tag_holds_def row_tag_def)
  show "find_tag ?t epc db' = find_tag ?t epc db" if "epc \<noteq> cr_epc d"
    using that by (simp add: find_tag_def r(4) key table.get_put same)
qed

interpretation tag_loop: keyed_writes "sync_entry env i" "\<lambda>_. True" "find_tag (ci_tenant i)"
  "tag_holds (ci_tenant i) db0" "row_pass (ci_tenant i) db0"
  for env i db0
proof unfold_locales
  fix s p s'
  assume inv: "row_pass (ci_tenant i) db0 s" and step: "sync_entry env i p s = Inr s'"
  have p: "p = (cr_epc (snd p), snd p)" "fst p = cr_epc (snd p)" and row: "sync_row env i (snd p) s = Inr s'"
    using step by (auto simp: sync_entry_def keyed_row_def prod_eq_iff split: if_splits)
  show "row_pass (ci_tenant i) db0 s'" by (rule sync_row_pass(1) [OF inv row])
  show "\<exists>t. find_tag (ci_tenant i) (fst p) s' = Some t \<and> tag_holds (ci_tenant i) db0 p t"
    using sync_row_pass(2) [OF inv row] p by metis
  show "find_tag (ci_tenant i) k s' = find_tag (ci_tenant i) k s" if "k \<noteq> fst p" for k
    using sync_row_pass(3) [OF inv row] that p(2) by simp
qed

lemma each_entries: "each (sync_row env i) ds = each (sync_entry env i) (map (\<lambda>d. (cr_epc d, d)) ds)"
proof
  show "each (sync_row env i) ds db = each (sync_entry env i) (map (\<lambda>d. (cr_epc d, d)) ds) db" for db
    by (induction ds arbitrary: db) (auto simp: sync_entry_def keyed_row_def andp_def split: sum.split)
qed

subsection \<open>Every row hangs on its variant and product\<close>

definition hangs :: "uuid \<Rightarrow> catalog_db \<Rightarrow> catalog_row \<Rightarrow> bool" where
  "hangs tenant db d \<longleftrightarrow>
     (\<exists>p v k. find_product tenant (cr_style_code d) db = Some p \<and>
        find_variant tenant (cp_id p) (cr_color d) db = Some v \<and> cv_active v \<and>
        find_sku tenant (cr_sku d) db = Some k \<and> cs_variant k = Some (cv_id v))"

lemma find_sku_variant_update:
  "find_sku tenant code (db\<lparr>cd_skus := update_where (\<lambda>k. cs_tenant k = tenant \<and> cs_code k = code') (\<lambda>k. k\<lparr>cs_variant := v\<rparr>) (cd_skus db), cd_tags := ts\<rparr>) =
     (if code = code' then map_option (\<lambda>k. k\<lparr>cs_variant := v\<rparr>) (find_sku tenant code db) else find_sku tenant code db)"
  using get_sku_update_where [of "\<lambda>k. k\<lparr>cs_variant := v\<rparr>" "(tenant, code)" tenant code' "cd_skus db"]
  by (simp add: find_sku_key sku_key_def)

lemma sync_row_hangs:
  assumes step: "sync_row env i e db = Inr db'" and ok: "variants_ok (cd_variants db)"
  shows "hangs (ci_tenant i) db' e"
    "hangs (ci_tenant i) db d \<Longrightarrow> compatible d e \<Longrightarrow> hangs (ci_tenant i) db' d"
proof -
  let ?t = "ci_tenant i"
  obtain p v db1 k where r: "find_product ?t (cr_style_code e) db = Some p"
    "sync_variant env ?t (cp_id p) e db = Inr (v, db1)" "find_sku ?t (cr_sku e) db1 = Some k"
    "db' = db1\<lparr>cd_skus := update_where (\<lambda>k. cs_tenant k = ?t \<and> cs_code k = cr_sku e) (\<lambda>k. k\<lparr>cs_variant := Some v\<rparr>) (cd_skus db1),
               cd_tags := put_by tag_key (row_tag i (cs_id k) (cr_epc e)) (cd_tags db1)\<rparr>"
    using step by (rule sync_row_cases)
  note var = sync_variant_ok [OF r(2) ok]
  have same: "cd_products db1 = cd_products db" "cd_skus db1 = cd_skus db" by (subst var(1), simp)+
  obtain w where w: "find_variant ?t (cp_id p) (cr_color e) db1 = Some w" "cv_id w = v" "cv_active w" using var(4) by blast
  have look: "find_sku ?t code db' = (if code = cr_sku e then map_option (\<lambda>k. k\<lparr>cs_variant := Some v\<rparr>) (find_sku ?t code db1)
      else find_sku ?t code db1)" for code
    unfolding r(4) by (rule find_sku_variant_update)
  have keep: "find_product ?t c db' = find_product ?t c db" "find_variant ?t x y db' = find_variant ?t x y db1" for c x y
    by (simp_all add: r(4) find_product_def find_variant_def same)
  show "hangs ?t db' e" using r(1,3) w by (simp add: hangs_def keep look)
  assume "hangs ?t db d" and de: "compatible d e"
  then obtain q x j where q: "find_product ?t (cr_style_code d) db = Some q" "find_variant ?t (cp_id q) (cr_color d) db = Some x"
      "cv_active x" "find_sku ?t (cr_sku d) db = Some j" "cs_variant j = Some (cv_id x)" by (auto simp: hangs_def)
  obtain x' where x': "find_variant ?t (cp_id q) (cr_color d) db1 = Some x'" "cv_id x' = cv_id x" "cv_active x'"
    using var(3) q(2,3) unfolding variants_grow_def find_variant_key by blast
  show "hangs ?t db' d"
  proof (cases "cr_sku d = cr_sku e")
    case True
    then have "cr_style_code d = cr_style_code e" "cr_color d = cr_color e"
      using de by (auto simp: compatible_def sku_signature_def)
    then have "q = p" "x' = w" using q(1) r(1) x'(1) w(1) by auto
    then show ?thesis using q(1) x' w(2) r(3) True by (simp add: hangs_def keep look)
  next
    case False
    have "find_sku ?t c db1 = find_sku ?t c db" for c by (simp add: find_sku_def same)
    then show ?thesis using q x' False by (simp add: hangs_def keep look)
  qed
qed

lemma sync_rows_hang:
  assumes "each (sync_row env i) ds db = Inr db'" "row_pass (ci_tenant i) db0 db"
    "\<And>d e. d \<in> set (ds0 @ ds) \<Longrightarrow> e \<in> set (ds0 @ ds) \<Longrightarrow> compatible d e" "\<And>d. d \<in> set ds0 \<Longrightarrow> hangs (ci_tenant i) db d"
    "d \<in> set (ds0 @ ds)"
  shows "hangs (ci_tenant i) db' d"
  using assms
proof (induction ds arbitrary: ds0 db)
  case (Cons e ds)
  obtain db1 where r: "sync_row env i e db = Inr db1" "each (sync_row env i) ds db1 = Inr db'"
    using Cons.prems(1) by (auto simp: andp_Inr_iff)
  have pass: "row_pass (ci_tenant i) db0 db1" by (rule sync_row_pass(1) [OF Cons.prems(2) r(1)])
  have ok: "variants_ok (cd_variants db)" using Cons.prems(2) by (simp add: row_pass_def)
  have hang: "hangs (ci_tenant i) db1 x" if "x \<in> set (ds0 @ [e])" for x
    using that sync_row_hangs(1) [OF r(1) ok] sync_row_hangs(2) [OF r(1) ok Cons.prems(4)] Cons.prems(3) by auto
  have "hangs (ci_tenant i) db' d"
    using Cons.prems(3,5) by (intro Cons.IH [OF r(2) pass, of "ds0 @ [e]"] hang) auto
  then show ?case .
qed simp

subsection \<open>The mirror\<close>

definition bound_sku :: "uuid \<Rightarrow> string \<Rightarrow> catalog_db \<Rightarrow> uuid option" where
  "bound_sku tenant epc db = map_option eb_sku (open_binding tenant epc db)"

definition tagged_sku :: "uuid \<Rightarrow> string \<Rightarrow> catalog_db \<Rightarrow> uuid option" where
  "tagged_sku tenant epc db =
     (case find_tag tenant epc db of None \<Rightarrow> None | Some t \<Rightarrow> if rt_active t then Some (rt_sku t) else None)"

definition active_style :: "uuid \<Rightarrow> string \<Rightarrow> catalog_db \<Rightarrow> string option" where
  "active_style tenant code db =
     (case find_style tenant code db of None \<Rightarrow> None | Some s \<Rightarrow> if ps_active s then Some (ps_name s) else None)"

definition active_product :: "uuid \<Rightarrow> string \<Rightarrow> catalog_db \<Rightarrow> string option" where
  "active_product tenant code db =
     (case find_product tenant code db of None \<Rightarrow> None | Some p \<Rightarrow> if cp_active p then Some (cp_name p) else None)"

definition mirrored :: "catalog_db \<Rightarrow> bool" where
  "mirrored db \<longleftrightarrow>
     (\<forall>tenant epc. tagged_sku tenant epc db = bound_sku tenant epc db) \<and>
     (\<forall>tenant code. active_product tenant code db = active_style tenant code db)"

definition projection_ok :: "catalog_db \<Rightarrow> bool" where
  "projection_ok db \<longleftrightarrow>
     products_ok (cd_products db) \<and> variants_ok (cd_variants db) \<and> tags_ok (cd_tags db)"

text \<open>Lookups of another tenant see only its rows.\<close>

lemma get_by_foreign:
  assumes "t \<noteq> tenant" "foreign f tenant xs = foreign f tenant ys" "\<And>r x. key r = (t, x) \<Longrightarrow> f r = t"
  shows "get_by key (t, x) xs = get_by key (t, x) ys"
proof -
  have "get_by key (t, x) (foreign f tenant rows) = get_by key (t, x) rows" for rows
    unfolding foreign_def using assms(1,3) by (intro get_by_filter) metis
  then show ?thesis using assms(2) by metis
qed

lemma select_foreign:
  assumes "foreign f tenant xs = foreign f tenant ys" "\<And>r. P r \<Longrightarrow> f r \<noteq> tenant"
  shows "select_one P xs = select_one P ys"
proof -
  have "select_one P (foreign f tenant rows) = select_one P rows" for rows
    unfolding foreign_def using assms(2) by (induction rows) auto
  then show ?thesis using assms(1) by metis
qed

lemma other_tenants:
  assumes "t \<noteq> tenant"
  shows "foreign ps_tenant tenant (cd_styles db') = foreign ps_tenant tenant (cd_styles db) \<Longrightarrow> find_style t code db' = find_style t code db"
    "foreign cs_tenant tenant (cd_skus db') = foreign cs_tenant tenant (cd_skus db) \<Longrightarrow> find_sku t code db' = find_sku t code db"
    "foreign cp_tenant tenant (cd_products db') = foreign cp_tenant tenant (cd_products db) \<Longrightarrow> find_product t code db' = find_product t code db"
    "foreign rt_tenant tenant (cd_tags db') = foreign rt_tenant tenant (cd_tags db) \<Longrightarrow> find_tag t epc db' = find_tag t epc db"
    "foreign eb_tenant tenant (cd_bindings db') = foreign eb_tenant tenant (cd_bindings db) \<Longrightarrow> open_binding t epc db' = open_binding t epc db"
  unfolding find_style_key find_sku_key find_product_key find_tag_def open_binding_def
  using get_by_foreign [OF assms, of ps_tenant "cd_styles db'" "cd_styles db" style_key code]
    get_by_foreign [OF assms, of cs_tenant "cd_skus db'" "cd_skus db" sku_key code]
    get_by_foreign [OF assms, of cp_tenant "cd_products db'" "cd_products db" product_key code]
    get_by_foreign [OF assms, of rt_tenant "cd_tags db'" "cd_tags db" tag_key epc]
    select_foreign [of eb_tenant tenant "cd_bindings db'" "cd_bindings db" "\<lambda>b. eb_tenant b = t \<and> eb_epc b = epc \<and> eb_to b = None"] assms
  by (auto simp: style_key_def sku_key_def product_key_def tag_key_def)

text \<open>The deactivation of the projection.\<close>

lemma deactivate_projection_lookups:
  "find_product tenant code (deactivate_projection tenant ds db) =
     map_option (\<lambda>p. if code \<notin> cr_style_code ` set ds then p\<lparr>cp_active := False\<rparr> else p) (find_product tenant code db)"
  "find_tag tenant epc (deactivate_projection tenant ds db) =
     map_option (\<lambda>t. if epc \<notin> cr_epc ` set ds then t\<lparr>rt_active := False\<rparr> else t) (find_tag tenant epc db)"
  "find_variant tenant p color (deactivate_projection tenant ds db) =
     map_option (\<lambda>v. if \<not> supplied_variant ds db v then v\<lparr>cv_active := False\<rparr> else v) (find_variant tenant p color db)"
proof -
  have "get_by product_key (tenant, code) (update_where (\<lambda>p. cp_tenant p = tenant \<and> cp_style_code p \<notin> set (map cr_style_code ds))
        (\<lambda>p. p\<lparr>cp_active := False\<rparr>) ps) =
      map_option (\<lambda>p. if code \<notin> cr_style_code ` set ds then p\<lparr>cp_active := False\<rparr> else p) (get_by product_key (tenant, code) ps)" for ps
    by (induction ps) (auto simp: product_key_def)
  then show "find_product tenant code (deactivate_projection tenant ds db) =
     map_option (\<lambda>p. if code \<notin> cr_style_code ` set ds then p\<lparr>cp_active := False\<rparr> else p) (find_product tenant code db)"
    by (simp add: find_product_key deactivate_projection_def)
  have "get_by tag_key (tenant, epc) (update_where (\<lambda>t. rt_tenant t = tenant \<and> rt_epc t \<notin> set (map cr_epc ds))
        (\<lambda>t. t\<lparr>rt_active := False\<rparr>) ts) =
      map_option (\<lambda>t. if epc \<notin> cr_epc ` set ds then t\<lparr>rt_active := False\<rparr> else t) (get_by tag_key (tenant, epc) ts)" for ts
    by (induction ts) (auto simp: tag_key_def)
  then show "find_tag tenant epc (deactivate_projection tenant ds db) =
     map_option (\<lambda>t. if epc \<notin> cr_epc ` set ds then t\<lparr>rt_active := False\<rparr> else t) (find_tag tenant epc db)"
    by (simp add: find_tag_def deactivate_projection_def)
  have "get_by variant_key (tenant, p, color) (update_where (\<lambda>v. cv_tenant v = tenant \<and> \<not> supplied_variant ds db v)
        (\<lambda>v. v\<lparr>cv_active := False\<rparr>) vs) =
      map_option (\<lambda>v. if \<not> supplied_variant ds db v then v\<lparr>cv_active := False\<rparr> else v) (get_by variant_key (tenant, p, color) vs)" for vs
    by (induction vs) (auto simp: variant_key_def)
  then show "find_variant tenant p color (deactivate_projection tenant ds db) =
     map_option (\<lambda>v. if \<not> supplied_variant ds db v then v\<lparr>cv_active := False\<rparr> else v) (find_variant tenant p color db)"
    by (simp add: find_variant_key deactivate_projection_def)
qed

subsection \<open>The whole promotion\<close>

definition beside_all :: "catalog_db \<Rightarrow> catalog_db" where
  "beside_all db = db\<lparr>cd_styles := [], cd_skus := [], cd_bindings := [], cd_products := [], cd_variants := [], cd_tags := []\<rparr>"

lemma run_promotion_passes:
  assumes run: "run_promotion env i ds db = Inr (c, db')"
    and ok: "catalog_ok db" "written_by (ce_now env) (cd_bindings db)" "projection_ok db" "rows_ok ds"
  obtains db1 db2 db3 where
    "apply_promotion env i ds (ce_now env) db = Inr (c, db1)" "promoted i (ce_now env) db db1"
    "each (sync_product env (ci_tenant i)) (last_by_style ds) db1 = Inr db2" "product_pass (ci_tenant i) db1 db2"
    "each (sync_row env i) ds db2 = Inr db3" "row_pass (ci_tenant i) db2 db2" "row_pass (ci_tenant i) db2 db3"
    "db' = (if ci_mode i = MODE_FULL then deactivate_projection (ci_tenant i) ds db3 else db3)"
proof -
  obtain db1 db2 db3 where r: "apply_promotion env i ds (ce_now env) db = Inr (c, db1)"
    "each (sync_product env (ci_tenant i)) (last_by_style ds) db1 = Inr db2" "each (sync_row env i) ds db2 = Inr db3"
    "db' = (if ci_mode i = MODE_FULL then deactivate_projection (ci_tenant i) ds db3 else db3)"
    using run by (auto simp: run_promotion_def sync_architecture_catalog_projection_def andp_Inr_iff)
  have p: "promoted i (ce_now env) db db1" by (rule apply_promotion_ok(1) [OF r(1) ok(1,2,4)])
  have "cd_products db1 = cd_products db" "cd_variants db1 = cd_variants db" "cd_tags db1 = cd_tags db"
    using p beside_catalogD [of db1 db] by (simp_all add: promoted_def)
  then have start: "product_pass (ci_tenant i) db1 db1" "variants_ok (cd_variants db1)" "tags_ok (cd_tags db1)"
    using ok(3) by (simp_all add: projection_ok_def product_pass_def)
  have q: "product_pass (ci_tenant i) db1 db2"
    by (rule product_loop.loop_inv [OF r(2) start(1)]) (simp add: list_all_iff)
  have eq: "db2\<lparr>cd_products := []\<rparr> = db1\<lparr>cd_products := []\<rparr>" using q by (simp add: product_pass_def)
  have "cd_variants db2 = cd_variants db1" "cd_tags db2 = cd_tags db1"
    using arg_cong [OF eq, of cd_variants] arg_cong [OF eq, of cd_tags] by simp_all
  then have start2: "row_pass (ci_tenant i) db2 db2" using start by (simp add: row_pass_def variants_grow_refl)
  then have "row_pass (ci_tenant i) db2 db3"
    using tag_loop.loop_inv [of env i _ db2 db3 db2] r(3) by (simp add: each_entries list_all_iff)
  then show thesis using that r p q start2 by blast
qed

lemma product_passD:
  assumes "product_pass tenant db0 db"
  shows "cd_styles db = cd_styles db0" "cd_skus db = cd_skus db0" "cd_bindings db = cd_bindings db0" "cd_tags db = cd_tags db0"
    "cd_variants db = cd_variants db0"
proof -
  have eq: "db\<lparr>cd_products := []\<rparr> = db0\<lparr>cd_products := []\<rparr>" using assms by (simp add: product_pass_def)
  show "cd_styles db = cd_styles db0" "cd_skus db = cd_skus db0" "cd_bindings db = cd_bindings db0" "cd_tags db = cd_tags db0"
    "cd_variants db = cd_variants db0"
    using arg_cong [OF eq, of cd_styles] arg_cong [OF eq, of cd_skus] arg_cong [OF eq, of cd_bindings]
      arg_cong [OF eq, of cd_tags] arg_cong [OF eq, of cd_variants] by simp_all
qed

lemma deactivate_projection_frame [simp]:
  "cd_styles (deactivate_projection tenant ds db) = cd_styles db" "cd_skus (deactivate_projection tenant ds db) = cd_skus db"
  "cd_bindings (deactivate_projection tenant ds db) = cd_bindings db"
  "beside_all (deactivate_projection tenant ds db) = beside_all db"
  by (simp_all add: deactivate_projection_def beside_all_def)

lemma deactivate_projection_ok: "projection_ok db \<Longrightarrow> projection_ok (deactivate_projection tenant ds db)"
  unfolding projection_ok_def products_ok_def variants_ok_def tags_ok_def deactivate_projection_def
  by (simp add: map_update_where product_key_def variant_key_def tag_key_def)

lemma deactivate_projection_foreign:
  "foreign cp_tenant tenant (cd_products (deactivate_projection tenant ds db)) = foreign cp_tenant tenant (cd_products db)"
  "foreign cv_tenant tenant (cd_variants (deactivate_projection tenant ds db)) = foreign cv_tenant tenant (cd_variants db)"
  "foreign rt_tenant tenant (cd_tags (deactivate_projection tenant ds db)) = foreign rt_tenant tenant (cd_tags db)"
proof -
  have "foreign cp_tenant tenant (update_where (\<lambda>p. cp_tenant p = tenant \<and> P p) (\<lambda>p. p\<lparr>cp_active := False\<rparr>) ps) = foreign cp_tenant tenant ps"
    "foreign cv_tenant tenant (update_where (\<lambda>v. cv_tenant v = tenant \<and> Q v) (\<lambda>v. v\<lparr>cv_active := False\<rparr>) vs) = foreign cv_tenant tenant vs"
    "foreign rt_tenant tenant (update_where (\<lambda>t. rt_tenant t = tenant \<and> R t) (\<lambda>t. t\<lparr>rt_active := False\<rparr>) ts) = foreign rt_tenant tenant ts"
    for P Q R ps vs ts by (rule foreign_update_where; simp)+
  then show "foreign cp_tenant tenant (cd_products (deactivate_projection tenant ds db)) = foreign cp_tenant tenant (cd_products db)"
    "foreign cv_tenant tenant (cd_variants (deactivate_projection tenant ds db)) = foreign cv_tenant tenant (cd_variants db)"
    "foreign rt_tenant tenant (cd_tags (deactivate_projection tenant ds db)) = foreign rt_tenant tenant (cd_tags db)"
    by (simp_all add: deactivate_projection_def)
qed

text \<open>A SKU keeps everything but its variant, so the catalog stays as the promotion left it.\<close>

lemma core_keeps:
  assumes "map sku_core ks' = map sku_core ks"
  shows "skus_ok ks' = skus_ok ks" "list_all (linked_sku ss) ks' = list_all (linked_sku ss) ks" "bound_row b ks' = bound_row b ks"
    "map sku_ident ks' = map sku_ident ks"
proof -
  have maps: "map sku_key ks' = map sku_key ks" "map cs_id ks' = map cs_id ks" "map upc_key ks' = map upc_key ks"
    "map sku_ident ks' = map sku_ident ks"
    using arg_cong [OF assms, of "map sku_key"] arg_cong [OF assms, of "map cs_id"] arg_cong [OF assms, of "map upc_key"]
      arg_cong [OF assms, of "map sku_ident"] by (simp_all add: comp_def)
  then show "skus_ok ks' = skus_ok ks" "map sku_ident ks' = map sku_ident ks" by (simp_all add: skus_ok_def)
  show "bound_row b ks' = bound_row b ks" by (rule bound_row_map [OF maps(4)])
  have "list_all (linked_sku ss) ks = list_all (linked_sku ss) (map sku_core ks)" for ks
    by (induction ks) (auto simp: linked_sku_def)
  then show "list_all (linked_sku ss) ks' = list_all (linked_sku ss) ks" using assms by metis
qed

lemma catalog_ok_core:
  assumes "map sku_core (cd_skus db') = map sku_core (cd_skus db)" "cd_styles db' = cd_styles db" "cd_bindings db' = cd_bindings db"
  shows "catalog_ok db' = catalog_ok db"
  using core_keeps [OF assms(1)] assms(2,3) by (simp add: catalog_ok_def)

lemma installed_core:
  assumes "map sku_core (cd_skus db') = map sku_core (cd_skus db)" "cd_styles db' = cd_styles db" "cd_bindings db' = cd_bindings db"
    "installed tenant db d"
  shows "installed tenant db' d"
proof -
  obtain s k b where i: "find_style tenant (cr_style_code d) db = Some s" "\<not> style_changed s d"
      "find_sku tenant (cr_sku d) db = Some k" "\<not> sku_changed k s d"
      "open_binding tenant (cr_epc d) db = Some b" "eb_sku b = cs_id k"
    using assms(4) by (auto simp: installed_def)
  obtain k' where k': "find_sku tenant (cr_sku d) db' = Some k'" "sku_core k' = sku_core k"
    by (rule find_sku_core [OF assms(1) i(3)])
  then have "cs_id k' = cs_id k" "\<not> sku_changed k' s d" using i(4) sku_core_simps(2,9) by metis+
  then show ?thesis using i k'(1) assms(2,3) by (simp add: installed_def find_style_def open_binding_def)
qed

lemma only_supplied_core:
  assumes "map sku_core (cd_skus db') = map sku_core (cd_skus db)" "cd_styles db' = cd_styles db" "cd_bindings db' = cd_bindings db"
  shows "only_supplied tenant ds db' = only_supplied tenant ds db"
proof -
  have "(\<forall>k \<in> set (cd_skus db'). cs_tenant k = tenant \<and> cs_active k \<longrightarrow> cs_code k \<in> cr_sku ` set ds) \<longleftrightarrow>
      (\<forall>k \<in> set (cd_skus db). cs_tenant k = tenant \<and> cs_active k \<longrightarrow> cs_code k \<in> cr_sku ` set ds)"
    using arg_cong [OF assms(1), of "\<lambda>ks. \<forall>k \<in> set ks. cs_tenant k = tenant \<and> cs_active k \<longrightarrow> cs_code k \<in> cr_sku ` set ds"]
    by simp
  then show ?thesis by (simp only: only_supplied_def assms(2,3))
qed

definition kept_core :: "uuid \<Rightarrow> catalog_row list \<Rightarrow> catalog_db \<Rightarrow> catalog_db \<Rightarrow> bool" where
  "kept_core tenant ds db db' \<longleftrightarrow>
     (\<forall>code. code \<notin> cr_style_code ` set ds \<longrightarrow> find_style tenant code db' = find_style tenant code db) \<and>
     (\<forall>code. code \<notin> cr_sku ` set ds \<longrightarrow>
        map_option sku_core (find_sku tenant code db') = map_option sku_core (find_sku tenant code db)) \<and>
     (\<forall>epc. epc \<notin> cr_epc ` set ds \<longrightarrow> open_binding tenant epc db' = open_binding tenant epc db)"

end
