(* ===== verification/Catalog_Outcome.thy ===== *)
theory Catalog_Outcome
  imports Catalog_Mirror
begin

text \<open>
  What one promotion leaves behind, catalog and projection together: the rows are installed and hang on
  their products, a FULL import leaves nothing else active, a DELTA import leaves the rest alone, and
  the tags and products go on mirroring the open bindings and the active styles.
\<close>

subsection \<open>From the catalog tables to the whole promotion\<close>

text \<open>What a catalog shows of a tenant, whatever the synchronization did to the variants.\<close>

definition same_catalog :: "catalog_db \<Rightarrow> catalog_db \<Rightarrow> bool" where
  "same_catalog db db' \<longleftrightarrow>
     map sku_core (cd_skus db') = map sku_core (cd_skus db) \<and> cd_styles db' = cd_styles db \<and> cd_bindings db' = cd_bindings db"

lemma same_catalogD:
  assumes "same_catalog db db'"
  shows "catalog_ok db' = catalog_ok db" "installed tenant db d \<Longrightarrow> installed tenant db' d"
    "only_supplied tenant ds db' = only_supplied tenant ds db"
    "find_style tenant code db' = find_style tenant code db" "open_binding tenant code db' = open_binding tenant code db"
    "map_option sku_core (find_sku tenant code db') = map_option sku_core (find_sku tenant code db)"
proof -
  have eqs: "map sku_core (cd_skus db') = map sku_core (cd_skus db)" "cd_styles db' = cd_styles db" "cd_bindings db' = cd_bindings db"
    using assms by (simp_all add: same_catalog_def)
  show "catalog_ok db' = catalog_ok db" by (rule catalog_ok_core [OF eqs])
  show "installed tenant db d \<Longrightarrow> installed tenant db' d" by (rule installed_core [OF eqs])
  show "only_supplied tenant ds db' = only_supplied tenant ds db" by (rule only_supplied_core [OF eqs])
  show "find_style tenant code db' = find_style tenant code db" "open_binding tenant code db' = open_binding tenant code db"
    by (simp_all add: find_style_def open_binding_def eqs)
  show "map_option sku_core (find_sku tenant code db') = map_option sku_core (find_sku tenant code db)"
    using eqs(1) by (simp add: find_sku_key get_by_core)
qed

lemma row_pass_catalog:
  fixes db1 db2 db3 :: catalog_db
  assumes "product_pass tenant db1 db2" "row_pass tenant db2 db3"
  shows "same_catalog db1 db3"
  using assms row_passD [OF assms(2)] product_passD [OF assms(1)] by (simp add: same_catalog_def row_pass_def)

lemma beside_all_passes:
  assumes "beside_catalog db1 = beside_catalog db" "product_pass tenant db1 db2" "row_pass tenant db2 db3"
  shows "beside_all db3 = beside_all db"
proof -
  have "beside_all db1 = beside_all db"
    using arg_cong [OF assms(1), of beside_all] by (simp add: beside_catalog_def beside_all_def)
  moreover have "db2\<lparr>cd_products := []\<rparr> = db1\<lparr>cd_products := []\<rparr>"
    "db3\<lparr>cd_skus := [], cd_variants := [], cd_tags := []\<rparr> = db2\<lparr>cd_skus := [], cd_variants := [], cd_tags := []\<rparr>"
    using assms(2,3) by (simp_all add: product_pass_def row_pass_def)
  from this [THEN arg_cong, of beside_all] have "beside_all db2 = beside_all db1" "beside_all db3 = beside_all db2"
    by (simp_all add: beside_all_def)
  ultimately show ?thesis by simp
qed

text \<open>Deactivating the projection spares what the rows hang on.\<close>

lemma supplied_variant_row:
  assumes "products_ok (cd_products db)" "find_product tenant (cr_style_code d) db = Some p" "d \<in> set ds"
    "find_variant tenant (cp_id p) (cr_color d) db = Some v"
  shows "supplied_variant ds db v"
proof -
  have "get_by cp_id (cp_id p) (cd_products db) = Some p"
    using assms(1) find_productD [OF assms(2)] by (simp add: products_ok_def get_by_eq_Some_iff)
  then show ?thesis
    using find_productD [OF assms(2)] find_variantD [OF assms(4)] assms(3) by (auto simp: supplied_variant_def)
qed

lemma deactivate_projection_hangs:
  assumes "products_ok (cd_products db)" "d \<in> set ds" "hangs tenant db d"
  shows "hangs tenant (deactivate_projection tenant ds db) d"
proof -
  obtain p v k where h: "find_product tenant (cr_style_code d) db = Some p" "find_variant tenant (cp_id p) (cr_color d) db = Some v"
      "cv_active v" "find_sku tenant (cr_sku d) db = Some k" "cs_variant k = Some (cv_id v)"
    using assms(3) by (auto simp: hangs_def)
  then show ?thesis
    using supplied_variant_row [OF assms(1) h(1) assms(2) h(2)] assms(2)
    by (simp add: hangs_def deactivate_projection_lookups) (simp add: find_sku_def)
qed

lemma run_promotion_ok:
  assumes run: "run_promotion env i ds db = Inr (c, db')"
    and ok: "catalog_ok db" "written_by (ce_now env) (cd_bindings db)" "projection_ok db" "rows_ok ds"
  shows "catalog_ok db'" "written_by (ce_now env) (cd_bindings db')"
    "same_past (ce_now env) (cd_bindings db) (cd_bindings db')" "projection_ok db'" "beside_all db' = beside_all db"
    "d \<in> set ds \<Longrightarrow> installed (ci_tenant i) db' d" "d \<in> set ds \<Longrightarrow> hangs (ci_tenant i) db' d"
    "ci_mode i = MODE_FULL \<Longrightarrow> only_supplied (ci_tenant i) ds db'"
    "ci_mode i = MODE_DELTA \<Longrightarrow> kept_core (ci_tenant i) ds db db'"
proof -
  obtain db1 db2 db3 where p: "apply_promotion env i ds (ce_now env) db = Inr (c, db1)" "promoted i (ce_now env) db db1"
    "each (sync_product env (ci_tenant i)) (last_by_style ds) db1 = Inr db2" "product_pass (ci_tenant i) db1 db2"
    "each (sync_row env i) ds db2 = Inr db3" "row_pass (ci_tenant i) db2 db2" "row_pass (ci_tenant i) db2 db3"
    "db' = (if ci_mode i = MODE_FULL then deactivate_projection (ci_tenant i) ds db3 else db3)"
    using run ok by (rule run_promotion_passes)
  note done1 = apply_promotion_ok [OF p(1) ok(1,2,4)]
  have same3: "same_catalog db1 db3" by (rule row_pass_catalog [OF p(4,7)])
  then have same: "same_catalog db1 db'" by (simp add: p(8) same_catalog_def)
  have bs: "cd_bindings db' = cd_bindings db1" using same by (simp add: same_catalog_def)
  show "catalog_ok db'" using p(2) same_catalogD(1) [OF same] by (simp add: promoted_def)
  show "written_by (ce_now env) (cd_bindings db')" "same_past (ce_now env) (cd_bindings db) (cd_bindings db')"
    using p(2) by (simp_all add: bs promoted_def)
  have proj3: "projection_ok db3"
    using p(4,7) row_passD(1) [OF p(7)] by (simp add: projection_ok_def product_pass_def row_pass_def)
  then show "projection_ok db'" by (simp add: p(8) deactivate_projection_ok)
  have "beside_all db3 = beside_all db" using p(2) by (intro beside_all_passes [OF _ p(4,7)]) (simp add: promoted_def)
  then show "beside_all db' = beside_all db" by (simp add: p(8))
  show "installed (ci_tenant i) db' d" if "d \<in> set ds" using done1(2) [OF that] by (rule same_catalogD(2) [OF same])
  show "hangs (ci_tenant i) db' d" if d: "d \<in> set ds"
  proof -
    have "hangs (ci_tenant i) db3 d"
      using sync_rows_hang [OF p(5,6), of "[]" d] rows_okD(1) [OF ok(4)] d by (auto simp: consistent_def)
    then show ?thesis
      using deactivate_projection_hangs [OF _ d] proj3 by (simp add: p(8) projection_ok_def)
  qed
  show "only_supplied (ci_tenant i) ds db'" if "ci_mode i = MODE_FULL"
    using done1(3) [OF that] same_catalogD(3) [OF same] by simp
  show "kept_core (ci_tenant i) ds db db'" if "ci_mode i = MODE_DELTA"
    using done1(4) [OF that] same_catalogD(4-6) [OF same] by (simp add: kept_core_def kept_elsewhere_def)
qed

subsection \<open>The projection mirrors the catalog\<close>

lemma product_pass_results:
  assumes "each (sync_product env tenant) (last_by_style ds) db1 = Inr db2" "product_pass tenant db1 db1" "rows_ok ds"
  shows "d \<in> set ds \<Longrightarrow> active_product tenant (cr_style_code d) db2 = Some (cr_style_name d)"
    "code \<notin> cr_style_code ` set ds \<Longrightarrow> find_product tenant code db2 = find_product tenant code db1"
proof -
  note ents = entries(4) [of ds]
  have all: "list_all (\<lambda>_. True) (last_by_style ds)" by (simp add: list_all_iff)
  show "active_product tenant (cr_style_code d) db2 = Some (cr_style_name d)" if d: "d \<in> set ds"
  proof -
    obtain e where e: "(cr_style_code d, e) \<in> set (last_by_style ds)" "e \<in> set ds" "cr_style_code e = cr_style_code d"
      by (rule entry_of_row [OF ents d])
    have "style_signature e = style_signature d" by (rule consistentD(1) [OF rows_okD(1) [OF assms(3)] e(2) d e(3)])
    then have "cr_style_name e = cr_style_name d" by (simp add: style_signature_def)
    then show ?thesis
      using product_loop.loop_writes [OF assms(1,2) all entries_distinct [OF ents] e(1)]
      by (auto simp: active_product_def product_holds_def)
  qed
  have keys: "fst ` set (last_by_style ds) = cr_style_code ` set ds" using ents unfolding entries_of_def od_keys_def by blast
  show "find_product tenant code db2 = find_product tenant code db1" if "code \<notin> cr_style_code ` set ds"
    by (rule product_loop.loop_frame [OF assms(1,2) all]) (use that keys in blast)
qed

lemma row_pass_results:
  assumes "each (sync_row env i) ds db2 = Inr db3" "row_pass (ci_tenant i) db2 db2" "rows_ok ds"
  shows "d \<in> set ds \<Longrightarrow> \<exists>k. find_sku (ci_tenant i) (cr_sku d) db2 = Some k \<and> tagged_sku (ci_tenant i) (cr_epc d) db3 = Some (cs_id k)"
    "epc \<notin> cr_epc ` set ds \<Longrightarrow> find_tag (ci_tenant i) epc db3 = find_tag (ci_tenant i) epc db2"
proof -
  let ?ps = "map (\<lambda>d. (cr_epc d, d)) ds"
  have run: "each (sync_entry env i) ?ps db2 = Inr db3" using assms(1) by (simp add: each_entries)
  have all: "list_all (\<lambda>_. True) ?ps" by (simp add: list_all_iff)
  have "distinct (map fst ?ps)" using rows_okD(1) [OF assms(3)] by (simp add: consistent_def comp_def)
  from tag_loop.loop_writes [OF run assms(2) all this]
  show "\<exists>k. find_sku (ci_tenant i) (cr_sku d) db2 = Some k \<and> tagged_sku (ci_tenant i) (cr_epc d) db3 = Some (cs_id k)"
    if "d \<in> set ds" using that by (fastforce simp: tag_holds_def tagged_sku_def)
  show "find_tag (ci_tenant i) epc db3 = find_tag (ci_tenant i) epc db2" if "epc \<notin> cr_epc ` set ds"
    using tag_loop.loop_frame [OF run assms(2) all] that by force
qed

lemma only_supplied_none:
  assumes "only_supplied tenant ds db"
  shows "code \<notin> cr_style_code ` set ds \<Longrightarrow> active_style tenant code db = None"
    "epc \<notin> cr_epc ` set ds \<Longrightarrow> bound_sku tenant epc db = None"
proof -
  show "active_style tenant code db = None" if "code \<notin> cr_style_code ` set ds"
  proof (cases "find_style tenant code db")
    case (Some s)
    from find_styleD [OF this] show ?thesis using assms that Some by (auto simp: only_supplied_def active_style_def)
  qed (simp add: active_style_def)
  show "bound_sku tenant epc db = None" if "epc \<notin> cr_epc ` set ds"
  proof (cases "open_binding tenant epc db")
    case (Some b)
    then have "b \<in> set (cd_bindings db) \<and> eb_tenant b = tenant \<and> eb_epc b = epc \<and> eb_to b = None"
      unfolding open_binding_def by (drule_tac select_one_SomeD) simp
    then show ?thesis using assms that by (auto simp: only_supplied_def)
  qed (simp add: bound_sku_def)
qed

lemma deactivated_projection:
  "active_product tenant code (deactivate_projection tenant ds db) =
     (if code \<in> cr_style_code ` set ds then active_product tenant code db else None)"
  "tagged_sku tenant epc (deactivate_projection tenant ds db) =
     (if epc \<in> cr_epc ` set ds then tagged_sku tenant epc db else None)"
  by (auto simp: active_product_def tagged_sku_def deactivate_projection_lookups split: option.splits)

lemma installed_shows:
  assumes "installed tenant db d"
  shows "active_style tenant (cr_style_code d) db = Some (cr_style_name d)"
    "\<exists>k. find_sku tenant (cr_sku d) db = Some k \<and> bound_sku tenant (cr_epc d) db = Some (cs_id k)"
  using assms by (auto simp: installed_def active_style_def bound_sku_def style_changed_def)

text \<open>What another tenant sees is what it saw.\<close>

definition same_view :: "uuid \<Rightarrow> catalog_db \<Rightarrow> catalog_db \<Rightarrow> bool" where
  "same_view t db db' \<longleftrightarrow>
     (\<forall>code. find_style t code db' = find_style t code db) \<and>
     (\<forall>code. map_option sku_core (find_sku t code db') = map_option sku_core (find_sku t code db)) \<and>
     (\<forall>epc. open_binding t epc db' = open_binding t epc db) \<and>
     (\<forall>code. find_product t code db' = find_product t code db) \<and>
     (\<forall>epc. find_tag t epc db' = find_tag t epc db)"

text \<open>What the catalog part leaves for the synchronization, looked up.\<close>

lemma run_promotion_view:
  assumes run: "run_promotion env i ds db = Inr (c, db')"
    and ok: "catalog_ok db" "written_by (ce_now env) (cd_bindings db)" "projection_ok db" "rows_ok ds"
    and other: "t \<noteq> ci_tenant i"
  shows "same_view t db db'"
proof -
  let ?t = "ci_tenant i"
  obtain db1 db2 db3 where p: "promoted i (ce_now env) db db1" "product_pass ?t db1 db2" "row_pass ?t db2 db3"
    "db' = (if ci_mode i = MODE_FULL then deactivate_projection ?t ds db3 else db3)"
    using run ok by (rule run_promotion_passes)
  have same: "same_catalog db1 db'" using row_pass_catalog [OF p(2,3)] by (simp add: p(4) same_catalog_def)
  have "cd_products db1 = cd_products db" "cd_tags db1 = cd_tags db"
    using p(1) beside_catalogD [of db1 db] by (simp_all add: promoted_def)
  then have db1: "find_product t x db1 = find_product t x db" "find_tag t x db1 = find_tag t x db" for x
    by (simp_all add: find_product_def find_tag_def)
  have "find_style t x db1 = find_style t x db" "find_sku t x db1 = find_sku t x db" "open_binding t x db1 = open_binding t x db" for x
    using p(1) other_tenants [OF other, of db1 db] by (simp_all add: promoted_def)
  moreover have "foreign cp_tenant ?t (cd_products db') = foreign cp_tenant ?t (cd_products db1)"
    "foreign rt_tenant ?t (cd_tags db') = foreign rt_tenant ?t (cd_tags db1)"
    using p(2,3) row_passD(1) [OF p(3)] product_passD(4) [OF p(2)]
    by (simp_all add: p(4) deactivate_projection_foreign product_pass_def row_pass_def)
  then have "find_product t x db' = find_product t x db1" "find_tag t x db' = find_tag t x db1" for x
    using other_tenants [OF other] by blast+
  ultimately show ?thesis using same_catalogD(4-6) [OF same] db1 by (simp add: same_view_def)
qed

lemma run_promotion_mirrors:
  assumes run: "run_promotion env i ds db = Inr (c, db')"
    and ok: "catalog_ok db" "written_by (ce_now env) (cd_bindings db)" "projection_ok db" "rows_ok ds"
    and m: "mirrored db"
  shows "mirrored db'"
proof -
  let ?t = "ci_tenant i"
  obtain db1 db2 db3 where p: "apply_promotion env i ds (ce_now env) db = Inr (c, db1)" "promoted i (ce_now env) db db1"
    "each (sync_product env ?t) (last_by_style ds) db1 = Inr db2" "product_pass ?t db1 db2"
    "each (sync_row env i) ds db2 = Inr db3" "row_pass ?t db2 db2" "row_pass ?t db2 db3"
    "db' = (if ci_mode i = MODE_FULL then deactivate_projection ?t ds db3 else db3)"
    using run ok by (rule run_promotion_passes)
  have same: "same_catalog db1 db'" using row_pass_catalog [OF p(4,7)] by (simp add: p(8) same_catalog_def)
  have "cd_products db1 = cd_products db" "cd_tags db1 = cd_tags db"
    using p(2) beside_catalogD [of db1 db] by (simp_all add: promoted_def)
  then have db1: "find_product t code db1 = find_product t code db" "find_tag t epc db1 = find_tag t epc db" for t code epc
    by (simp_all add: find_product_def find_tag_def)
  have pass1: "product_pass ?t db1 db1" using p(4) \<open>cd_products db1 = cd_products db\<close> ok(3)
    by (simp add: product_pass_def projection_ok_def)
  note products = product_pass_results [OF p(3) pass1 ok(4)] and tags = row_pass_results [OF p(5,6) ok(4)]
  have db3: "find_product t code db3 = find_product t code db2" for t code
    by (simp add: find_product_def row_passD [OF p(7)])
  have db2: "find_sku t code db2 = find_sku t code db1" "find_tag t epc db2 = find_tag t epc db1" for t code epc
    by (simp_all add: find_sku_def find_tag_def product_passD [OF p(4)])
  have ins: "installed ?t db1 d" if "d \<in> set ds" for d by (rule apply_promotion_ok(2) [OF p(1) ok(1,2,4) that])
  have "active_product ?t code db' = active_style ?t code db' \<and> tagged_sku ?t epc db' = bound_sku ?t epc db'" for code epc
  proof -
    have style: "active_style ?t code db' = active_style ?t code db1" "bound_sku ?t epc db' = bound_sku ?t epc db1"
      using same_catalogD(4,5) [OF same] by (simp_all add: active_style_def bound_sku_def)
    have "active_product ?t code db3 = active_style ?t code db1" if "code \<in> cr_style_code ` set ds"
      using that products(1) installed_shows(1) [OF ins] by (auto simp: active_product_def db3)
    moreover have "tagged_sku ?t epc db3 = bound_sku ?t epc db1" if "epc \<in> cr_epc ` set ds"
      using that tags(1) installed_shows(2) [OF ins] by (fastforce simp: db2)
    ultimately show ?thesis
    proof (cases "ci_mode i")
      case MODE_FULL
      have "only_supplied ?t ds db1" by (rule apply_promotion_ok(3) [OF p(1) ok(1,2,4) MODE_FULL])
      from only_supplied_none [OF this] show ?thesis
        using MODE_FULL \<open>code \<in> _ \<Longrightarrow> _\<close> \<open>epc \<in> _ \<Longrightarrow> _\<close> unfolding style by (simp add: p(8) deactivated_projection)
    next
      case MODE_DELTA
      have "kept_elsewhere ?t ds db db1" by (rule apply_promotion_ok(4) [OF p(1) ok(1,2,4) MODE_DELTA])
      then have "active_product ?t code db3 = active_style ?t code db1" if "code \<notin> cr_style_code ` set ds"
        using that m products(2) by (simp add: kept_elsewhere_def mirrored_def active_product_def active_style_def db1 db3)
      moreover have "tagged_sku ?t epc db3 = bound_sku ?t epc db1" if "epc \<notin> cr_epc ` set ds"
        using that m tags(2) \<open>kept_elsewhere _ _ _ _\<close>
        by (simp add: kept_elsewhere_def mirrored_def tagged_sku_def bound_sku_def db1 db2)
      ultimately show ?thesis
        using MODE_DELTA \<open>code \<in> _ \<Longrightarrow> _\<close> \<open>epc \<in> _ \<Longrightarrow> _\<close> unfolding style by (auto simp: p(8))
    qed
  qed
  moreover have "active_product t code db' = active_style t code db'" "tagged_sku t epc db' = bound_sku t epc db'"
    if "t \<noteq> ?t" for t code epc
    using m run_promotion_view [OF run ok that]
    by (simp_all add: same_view_def mirrored_def active_product_def active_style_def tagged_sku_def bound_sku_def)
  ultimately show "mirrored db'" unfolding mirrored_def by metis
qed

end
