(* ===== verification/Catalog_Worker.thy ===== *)
theory Catalog_Worker
  imports Catalog_Outcome
begin

text \<open>
  The catalog worker of \<open>processes/catalog_worker.py\<close> with the three services it calls
  (\<open>process_catalog_import_job\<close>, \<open>mark_catalog_import_failed_after_retry_exhaustion\<close> and
  \<open>reconcile_quarantined_catalog_imports\<close>).  Staging and promoting commit separately, so a fault in
  the promotion keeps the staged rows.  The text of
  an exception, the rows locked elsewhere and the status of the tenants are parameters.
\<close>

record catalog_worker =
  cw_name :: string
  cw_max_attempts :: int
  cw_lease_seconds :: int
  cw_now :: timestamp
  cw_fault_text :: "fault \<Rightarrow> string"
  cw_locked :: "uuid \<Rightarrow> bool"
  cw_tenant_status :: "uuid \<Rightarrow> tenant_status option"

subsection \<open>One job\<close>

text \<open>The heart beat, at the times its timer fires before it is stopped; it ends when the lease is lost.\<close>

fun lease_heartbeat :: "uuid \<Rightarrow> string \<Rightarrow> int \<Rightarrow> timestamp list \<Rightarrow> 'p queue \<Rightarrow> 'p queue" where
  "lease_heartbeat job_id worker lease_seconds [] q = q"
| "lease_heartbeat job_id worker lease_seconds (t # ts) q =
     (let (renewed, q1) = renew_lease t job_id worker lease_seconds q
      in if renewed then lease_heartbeat job_id worker lease_seconds ts q1 else q1)"

definition payload_import_id :: "catalog_payload \<Rightarrow> uuid outcome" where
  "payload_import_id payload =
     (case payload of
        None \<Rightarrow> Inl (ValueError ''catalog import job is missing import_id'')
      | Some raw \<Rightarrow>
          (case parse_uuid raw of
             None \<Rightarrow> Inl (ValueError ''badly formed hexadecimal UUID string'')
           | Some u \<Rightarrow> Inr u))"

definition process_catalog_import_job :: "catalog_env \<Rightarrow> catalog_payload \<Rightarrow> catalog_db \<Rightarrow> fault option \<times> catalog_db" where
  "process_catalog_import_job env payload db =
     (case payload_import_id payload of
        Inl e \<Rightarrow> (Some e, db)
      | Inr import_id \<Rightarrow>
          (case validate_and_stage_catalog_import env import_id db of
             Inl e \<Rightarrow> (Some e, db)
           | Inr (i, db1) \<Rightarrow>
               if ci_status i = IMPORT_READY
               then (case promote_catalog_import env import_id db1 of
                       Inl e \<Rightarrow> (Some e, db1)
                     | Inr (_, db2) \<Rightarrow> (None, db2))
               else (None, db1)))"

definition exhausted_import :: "string \<Rightarrow> catalog_import \<Rightarrow> catalog_import" where
  "exhausted_import error_text i =
     i\<lparr>ci_status := IMPORT_FAILED,
       ci_failure := Some (take 2000 (''Catalog worker retry budget exhausted: '' @ error_text))\<rparr>"

definition mark_catalog_import_failed_after_retry_exhaustion ::
    "uuid \<Rightarrow> catalog_payload \<Rightarrow> string \<Rightarrow> catalog_db \<Rightarrow> bool \<times> catalog_db" where
  "mark_catalog_import_failed_after_retry_exhaustion tenant payload error_text db =
     (case payload_import_id payload of
        Inl _ \<Rightarrow> (False, db)
      | Inr import_id \<Rightarrow>
          (case select_one (\<lambda>i. ci_id i = import_id \<and> ci_tenant i = tenant) (cd_imports db) of
             None \<Rightarrow> (False, db)
           | Some i \<Rightarrow>
               if ci_status i \<in> {IMPORT_COMPLETED, IMPORT_REJECTED, IMPORT_FAILED} then (False, db)
               else (True, save_import (exhausted_import error_text i) db)))"

text \<open>The \<open>except\<close> branch: the import and the job fail in one transaction, or neither does.\<close>

definition report_catalog_failure ::
    "catalog_worker \<Rightarrow> uuid \<Rightarrow> catalog_payload job \<Rightarrow> fault \<Rightarrow> catalog_db \<Rightarrow> catalog_db" where
  "report_catalog_failure w tenant j e db =
     (let error_text = cw_fault_text w e;
          db1 = (if cw_max_attempts w \<le> jb_attempts j
                 then snd (mark_catalog_import_failed_after_retry_exhaustion tenant (jb_payload j) error_text db)
                 else db);
          (reported, q) = mark_failed (cw_now w) (jb_id j) (cw_name w) error_text (cw_max_attempts w) (cd_jobs db1)
      in if reported then db1\<lparr>cd_jobs := q\<rparr> else db)"

definition complete_catalog_job :: "catalog_worker \<Rightarrow> uuid \<Rightarrow> catalog_db \<Rightarrow> catalog_db" where
  "complete_catalog_job w job_id db = db\<lparr>cd_jobs := snd (mark_completed job_id (cw_name w) (cd_jobs db))\<rparr>"

definition process_job :: "catalog_env \<Rightarrow> catalog_worker \<Rightarrow> uuid \<Rightarrow> catalog_payload job \<Rightarrow> catalog_db \<Rightarrow> catalog_db" where
  "process_job env w tenant j db =
     (case get_by jb_id (jb_id j) (cd_jobs db) of
        None \<Rightarrow> db
      | Some current \<Rightarrow>
          (case process_catalog_import_job env (jb_payload current) db of
             (None, db1) \<Rightarrow> complete_catalog_job w (jb_id current) db1
           | (Some e, db1) \<Rightarrow> report_catalog_failure w tenant j e db1))"

subsection \<open>Reconciling quarantined jobs\<close>

definition stranded_pairs ::
    "(uuid \<Rightarrow> bool) \<Rightarrow> uuid \<Rightarrow> nat \<Rightarrow> catalog_db \<Rightarrow> (catalog_payload job \<times> catalog_import) list" where
  "stranded_pairs locked tenant limit db =
     take limit (sort_key (\<lambda>p. jb_created_at (fst p))
       (filter (\<lambda>(j, i). \<not> locked (jb_id j) \<and> \<not> locked (ci_id i))
         (concat (map (\<lambda>j. map (Pair j)
            (filter (\<lambda>i. ci_tenant i = jb_tenant j \<and> jb_payload j = Some (str_uuid (ci_id i)) \<and>
                         ci_status i \<noteq> IMPORT_FAILED) (cd_imports db)))
            (filter (\<lambda>j. jb_tenant j = tenant \<and> jb_kind j = CATALOG_IMPORT \<and> jb_status j = JOB_QUARANTINED)
               (cd_jobs db))))))"

definition quarantined_import :: "string option \<Rightarrow> catalog_import \<Rightarrow> catalog_import" where
  "quarantined_import last_error i =
     (let no_detail = ''Retry budget exhausted without a recorded worker error'';
          detail = (case last_error of None \<Rightarrow> no_detail | Some t \<Rightarrow> if t = '''' then no_detail else t)
      in i\<lparr>ci_status := IMPORT_FAILED,
           ci_failure := Some (take 2000 (''Catalog worker job quarantined: '' @ detail))\<rparr>)"

text \<open>The rows of the result are objects of the session: an import that two jobs name is one object.\<close>

definition reconcile_pair :: "catalog_payload job \<times> catalog_import \<Rightarrow> catalog_db \<Rightarrow> catalog_db" where
  "reconcile_pair p db =
     (case get_by ci_id (ci_id (snd p)) (cd_imports db) of
        None \<Rightarrow> db
      | Some i \<Rightarrow>
          if ci_status i \<in> {IMPORT_COMPLETED, IMPORT_REJECTED}
          then db\<lparr>cd_jobs := update_where (\<lambda>k. jb_id k = jb_id (fst p)) completed_job (cd_jobs db)\<rparr>
          else save_import (quarantined_import (jb_last_error (fst p)) i) db)"

definition reconcile_quarantined_catalog_imports ::
    "(uuid \<Rightarrow> bool) \<Rightarrow> uuid \<Rightarrow> nat \<Rightarrow> catalog_db \<Rightarrow> (nat \<times> catalog_db) outcome" where
  "reconcile_quarantined_catalog_imports locked tenant limit db =
     (if limit < 1 then Inl (ValueError ''limit must be positive'')
      else let stranded = stranded_pairs locked tenant limit db
           in Inr (length stranded, fold reconcile_pair stranded db))"

subsection \<open>The loop\<close>

definition catalog_claim :: "catalog_worker \<Rightarrow> uuid \<Rightarrow> claim" where
  "catalog_claim w tenant =
     \<lparr>cl_worker = cw_name w, cl_limit = 1, cl_lease_seconds = cw_lease_seconds w,
      cl_max_attempts = cw_max_attempts w, cl_tenant = Some tenant, cl_kinds = Some [CATALOG_IMPORT]\<rparr>"

definition claim_catalog_jobs :: "catalog_worker \<Rightarrow> uuid \<Rightarrow> catalog_db \<Rightarrow> catalog_payload job list \<times> catalog_db" where
  "claim_catalog_jobs w tenant db =
     (let (jobs, q) = claim_jobs (cw_locked w) (cw_tenant_status w) (cw_now w) (catalog_claim w tenant) (cd_jobs db)
      in (jobs, db\<lparr>cd_jobs := q\<rparr>))"

definition reconcile_limit :: nat where
  "reconcile_limit = 100"

definition tenant_turn ::
    "(catalog_payload job \<Rightarrow> catalog_env) \<Rightarrow> catalog_worker \<Rightarrow> uuid \<Rightarrow> bool \<times> catalog_db \<Rightarrow> bool \<times> catalog_db" where
  "tenant_turn env_of w tenant s =
     (let (claimed_any, db) = s;
          (jobs, db1) = claim_catalog_jobs w tenant db;
          db2 = (case reconcile_quarantined_catalog_imports (cw_locked w) tenant reconcile_limit db1 of
                   Inl _ \<Rightarrow> db1 | Inr (_, db2) \<Rightarrow> db2)
      in (claimed_any \<or> jobs \<noteq> [], fold (\<lambda>j. process_job (env_of j) w tenant j) jobs db2))"

definition worker_round ::
    "(catalog_payload job \<Rightarrow> catalog_env) \<Rightarrow> catalog_worker \<Rightarrow> uuid list \<Rightarrow> catalog_db \<Rightarrow> bool \<times> catalog_db" where
  "worker_round env_of w active_tenants db = fold (tenant_turn env_of w) active_tenants (False, db)"

end
