(* ===== verification/Catalog_Staging.thy ===== *)
theory Catalog_Staging
  imports Catalog_Sync
begin

text \<open>
  What the validation of an import leaves behind: an import with no issue has staged exactly the rows
  of its file, in their order, each valid, canonical and consistent with the others.
\<close>

subsection \<open>The rows of a file\<close>

lemma subseq_set: "subseq xs ys \<Longrightarrow> set xs \<subseteq> set ys"
  by (induction rule: list_emb.induct) auto

lemma sorted_wrt_subseq: "subseq xs ys \<Longrightarrow> sorted_wrt P ys \<Longrightarrow> sorted_wrt P xs"
proof (induction rule: list_emb.induct)
  case (list_emb_Cons2 x y xs ys)
  then show ?case using subseq_set [of xs ys] by auto
qed auto

lemma parsed_rows:
  fixes io :: catalog_io and content :: string
  defines "p \<equiv> parse_catalog_csv io content"
  shows "sorted_wrt (<) (map pr_number (pa_rows p))" "list_all row_issues_ok (pa_rows p)"
    "io_ok io \<Longrightarrow> row \<in> set (pa_rows p) \<Longrightarrow> pr_data row = Some d \<Longrightarrow> row_ok d"
    "pa_issues p = [] \<Longrightarrow> pa_rows p \<noteq> []"
proof -
  have "sorted_wrt (<) (map pr_number (pa_rows p)) \<and> list_all row_issues_ok (pa_rows p) \<and>
    (io_ok io \<longrightarrow> (\<forall>x \<in> set (map pr_data (pa_rows p)). \<forall>d. x = Some d \<longrightarrow> row_ok d)) \<and> (pa_issues p = [] \<longrightarrow> pa_rows p \<noteq> [])"
  proof (cases rule: parse_catalog_csv_cases [of io content])
    case (refused issues)
    then show ?thesis by (simp add: p_def)
  next
    case (parsed s raw_headers rs err)
    let ?hs = "map (\<lambda>h. str_lower (strip h)) (snd raw_headers)"
    obtain rows over where rows: "collect_rows (parse_row io ?hs) 0 rs = (rows, over)" by fastforce
    obtain rs' where rs': "subseq rs' rs" "rows = map (parse_row io ?hs) rs'" using collect_rows_from [OF rows] by blast
    have p: "pa_rows p = check_rows nothing_seen rows" "pa_issues p = [] \<Longrightarrow> rows \<noteq> []"
      using parsed(4) rows by (auto simp: p_def parse_data_def validate_batch_consistency_def Let_def split: if_splits)
    have "sorted_wrt (<) (map fst (raw_headers # rs))"
      using csv_records_lines parsed(2) unfolding read_csv_def by blast
    then have "sorted_wrt (<) (map fst rs)" by simp
    then have "sorted_wrt (<) (map fst rs')"
      using sorted_wrt_subseq [OF subseq_map [OF rs'(1)]] by blast
    then have "sorted_wrt (<) (map pr_number (pa_rows p))" by (simp add: p(1) rs'(2) comp_def)
    moreover have "list_all row_issues_ok (pa_rows p)"
      unfolding p(1) by (rule check_rows_issues) (simp add: rs'(2) list_all_iff parse_row_issues)
    moreover have "\<forall>x \<in> set (map pr_data (pa_rows p)). \<forall>d. x = Some d \<longrightarrow> row_ok d" if "io_ok io"
      using parsed_row_ok [OF that] by (auto simp: p(1) rs'(2))
    moreover have "pa_rows p \<noteq> []" if "pa_issues p = []"
      using p(2) [OF that] by (cases rows) (auto simp: p(1) split_beta)
    ultimately show ?thesis by blast
  qed
  then show "sorted_wrt (<) (map pr_number (pa_rows p))" "list_all row_issues_ok (pa_rows p)"
    "io_ok io \<Longrightarrow> row \<in> set (pa_rows p) \<Longrightarrow> pr_data row = Some d \<Longrightarrow> row_ok d" "pa_issues p = [] \<Longrightarrow> pa_rows p \<noteq> []"
    by (auto simp: image_iff)
qed

lemma database_conflicts_frame [simp]:
  "pr_number (database_conflicts st row) = pr_number row" "pr_data (database_conflicts st row) = pr_data row"
  by (simp_all add: database_conflicts_def split: option.split)

lemma database_conflicts_clean: "pr_issues (database_conflicts st row) = [] \<Longrightarrow> pr_issues row = []"
  by (auto simp: database_conflicts_def split: option.splits if_splits)

lemma clean_rows:
  assumes "list_all (\<lambda>row. pr_issues row = []) rows" "list_all row_issues_ok rows"
  shows "map pr_data rows = map Some (normalized_rows rows)"
  using assms by (induction rows) (auto simp: normalized_rows_def row_issues_ok_def)

lemma conflict_free_rows:
  assumes "list_all (\<lambda>row. pr_issues row = []) (append_database_conflicts st rows)"
  shows "list_all (\<lambda>row. pr_issues row = []) rows"
    "normalized_rows (append_database_conflicts st rows) = normalized_rows rows"
proof -
  show "list_all (\<lambda>row. pr_issues row = []) rows"
    using assms by (auto simp: list_all_iff append_database_conflicts_def dest: database_conflicts_clean)
  then show "normalized_rows (append_database_conflicts st rows) = normalized_rows rows"
    using assms by (induction rows) (simp_all add: append_database_conflicts_def normalized_rows_def)
qed

subsection \<open>A staged import\<close>

text \<open>The identity of an import; nothing the worker does changes it.\<close>

definition import_ident :: "catalog_import \<Rightarrow> uuid \<times> uuid \<times> string \<times> string \<times> import_mode" where
  "import_ident i = (ci_tenant i, ci_id i, ci_key i, ci_checksum i, ci_mode i)"

lemma import_identD:
  "import_ident i = import_ident j \<Longrightarrow>
     ci_tenant i = ci_tenant j \<and> ci_id i = ci_id j \<and> ci_key i = ci_key j \<and> ci_checksum i = ci_checksum j \<and> ci_mode i = ci_mode j"
  by (simp add: import_ident_def)

definition staged_data :: "catalog_import \<Rightarrow> catalog_db \<Rightarrow> catalog_row list" where
  "staged_data i db = map (the \<circ> sr_data) (valid_staged_rows i db)"

text \<open>An import that is READY has valid, consistent rows, as many as it counts.\<close>

definition ready_ok :: "catalog_import \<Rightarrow> catalog_db \<Rightarrow> bool" where
  "ready_ok i db \<longleftrightarrow>
     rows_ok (staged_data i db) \<and> staged_data i db \<noteq> [] \<and> int (length (staged_data i db)) = ci_valid i \<and>
     list_all (\<lambda>r. sr_data r \<noteq> None) (valid_staged_rows i db)"

definition staged_for :: "catalog_import \<Rightarrow> staged_row \<Rightarrow> bool" where
  "staged_for i r \<longleftrightarrow> sr_import r = ci_id i"

text \<open>The result of a staging, in the terms the promotion reads it back.\<close>

definition staged_well :: "catalog_import \<Rightarrow> catalog_import \<Rightarrow> catalog_db \<Rightarrow> catalog_db \<Rightarrow> bool" where
  "staged_well i i' db db' \<longleftrightarrow>
     import_ident i' = import_ident i \<and> import_checks i' \<and> ci_status i' \<in> {IMPORT_READY, IMPORT_REJECTED} \<and>
     (\<exists>staged. list_all (staged_for i) staged \<and> cd_rows db' = cd_rows db @ staged) \<and>
     cd_imports db' = update_where (\<lambda>j. ci_id j = ci_id i) (\<lambda>_. i') (cd_imports db) \<and>
     db'\<lparr>cd_imports := [], cd_rows := [], cd_errors := []\<rparr> = db\<lparr>cd_imports := [], cd_rows := [], cd_errors := []\<rparr>"

lemma stage_import_InrD:
  fixes st rows
  assumes "stage_import env i content db = Inr (i', db')"
  defines "st \<equiv> load_catalog_state (ci_tenant i) db"
    and "rows \<equiv> append_database_conflicts (load_catalog_state (ci_tenant i) db) (pa_rows (parse_catalog_csv (ce_io env) content))"
  shows "staged_well i i' db db'"
    "i' = staged_import i (pa_issues (parse_catalog_csv (ce_io env) content)) rows st"
    "cd_rows db' = cd_rows db @ map (stage_row i (row_actions (normalized_rows rows) st)) rows"
proof -
  let ?p = "parse_catalog_csv (ce_io env) content"
  let ?staged = "map (stage_row i (row_actions (normalized_rows rows) st)) rows"
  show i': "i' = staged_import i (pa_issues ?p) rows st" and cd: "cd_rows db' = cd_rows db @ ?staged"
    using assms(1) by (auto simp: stage_import_def Let_def save_import_def rows_def st_def split: if_splits)
  have "import_checks i'" "db' = save_import i' (db\<lparr>cd_rows := cd_rows db @ ?staged,
      cd_errors := cd_errors db @ persist_issues env i (all_issues (pa_issues ?p) rows)\<rparr>)"
    using assms(1) by (auto simp: stage_import_def Let_def rows_def st_def split: if_splits)
  moreover have "import_ident i' = import_ident i" "ci_status i' \<in> {IMPORT_READY, IMPORT_REJECTED}"
    by (simp_all add: i' staged_import_def Let_def import_ident_def)
  moreover have "list_all (staged_for i) ?staged" by (simp add: list_all_iff staged_for_def stage_row_def)
  ultimately show "staged_well i i' db db'"
    by (auto simp: staged_well_def save_import_def dest: import_identD)
qed

lemma stage_import_ready:
  assumes run: "stage_import env i content db = Inr (i', db')" and io: "io_ok (ce_io env)"
    and fresh: "list_all (\<lambda>r. \<not> staged_for i r) (cd_rows db)" and ready: "ci_status i' = IMPORT_READY"
  shows "ready_ok i' db'"
    "rc_preview (ci_reconciliation i') = Some (build_preview (ci_mode i) (staged_data i' db') (load_catalog_state (ci_tenant i) db))"
proof -
  let ?st = "load_catalog_state (ci_tenant i) db" and ?p = "parse_catalog_csv (ce_io env) content"
  define rows where "rows = append_database_conflicts ?st (pa_rows ?p)"
  note staged = stage_import_InrD [OF run, folded rows_def]
  note i' = staged(2)
  have none: "all_issues (pa_issues ?p) rows = []"
    using ready by (simp add: i' staged_import_def Let_def split: if_splits)
  then have clean: "list_all (\<lambda>row. pr_issues row = []) rows" and whole: "pa_issues ?p = []"
    by (simp_all add: all_issues_def list_all_iff)
  have clean0: "list_all (\<lambda>row. pr_issues row = []) (pa_rows ?p)" and data: "normalized_rows rows = normalized_rows (pa_rows ?p)"
    using conflict_free_rows clean by (auto simp: rows_def)
  have some0: "map pr_data (pa_rows ?p) = map Some (normalized_rows (pa_rows ?p))"
    by (rule clean_rows [OF clean0 parsed_rows(2)])
  moreover have "map pr_data rows = map pr_data (pa_rows ?p)" "map pr_number rows = map pr_number (pa_rows ?p)"
    by (simp_all add: rows_def append_database_conflicts_def)
  ultimately have some: "map pr_data rows = map Some (normalized_rows rows)" and numbers: "map pr_number rows = map pr_number (pa_rows ?p)"
    using data by simp_all
  let ?staged = "map (stage_row i (row_actions (normalized_rows rows) ?st)) rows"
  have ident: "ci_id i' = ci_id i" "ci_tenant i' = ci_tenant i"
    using staged(1) by (auto simp: staged_well_def dest: import_identD)
  have "filter (\<lambda>r. sr_tenant r = ci_tenant i' \<and> sr_import r = ci_id i' \<and> sr_status r = ROW_VALID) (cd_rows db) = []"
    using fresh by (auto simp: filter_empty_conv list_all_iff staged_for_def ident)
  moreover have "filter (\<lambda>r. sr_tenant r = ci_tenant i' \<and> sr_import r = ci_id i' \<and> sr_status r = ROW_VALID) ?staged = ?staged"
    using clean by (auto simp: filter_id_conv list_all_iff stage_row_def ident)
  moreover have "sorted (map sr_number ?staged)"
    using parsed_rows(1) [of "ce_io env" content] numbers
    by (simp add: comp_def stage_row_def strict_sorted_imp_sorted)
  ultimately have valid: "valid_staged_rows i' db' = ?staged"
    by (simp add: valid_staged_rows_def staged(3) sort_key_id_if_sorted)
  have sdata: "map sr_data ?staged = map Some (normalized_rows rows)"
    using some by (simp add: comp_def stage_row_def)
  have "staged_data i' db' = map the (map sr_data ?staged)" by (simp add: staged_data_def valid)
  then have sd: "staged_data i' db' = normalized_rows rows" by (simp only: sdata) (simp add: comp_def)
  have "list_all row_ok (normalized_rows (pa_rows ?p))"
    using parsed_rows(3) [OF io] by (auto simp: normalized_rows_def list_all_iff)
  then have "rows_ok (normalized_rows rows)"
    using parsed_rows_consistent [of "ce_io env" content] by (simp add: rows_ok_def data)
  moreover have "length (normalized_rows rows) = length rows" using arg_cong [OF some, of length] by simp
  moreover have "rows \<noteq> []" using parsed_rows(4) [OF whole] numbers by auto
  moreover have "ci_valid i' = int (length rows)"
    by (simp add: i' staged_import_def none Let_def invalid_row_numbers_def map_filter_def)
  moreover have "list_all (\<lambda>r. sr_data r \<noteq> None) ?staged"
    using arg_cong [OF sdata, of "list_all (\<lambda>x. x \<noteq> None)"] by (simp add: list.pred_map comp_def list_all_iff)
  ultimately show "ready_ok i' db'" by (auto simp: ready_ok_def sd valid)
  show "rc_preview (ci_reconciliation i') = Some (build_preview (ci_mode i) (staged_data i' db') ?st)"
    unfolding sd by (simp add: i' staged_import_def none Let_def)
qed

text \<open>The rows of a READY import read back unchanged.\<close>

lemma map_outcome_Inr: "(\<And>x. x \<in> set xs \<Longrightarrow> f x = Inr (g x)) \<Longrightarrow> map_outcome f xs = Inr (map g xs)"
  by (induction xs) simp_all

lemma reread_ready:
  assumes "ready_ok i db"
  shows "map_outcome reread_row (valid_staged_rows i db) = Inr (staged_data i db)"
proof -
  have "reread_row r = Inr ((the \<circ> sr_data) r)" if r: "r \<in> set (valid_staged_rows i db)" for r
  proof -
    obtain d where d: "sr_data r = Some d" using assms r by (auto simp: ready_ok_def list_all_iff)
    then have "d \<in> set (staged_data i db)" using r by (force simp: staged_data_def)
    then have "row_ok d" using assms by (auto simp: ready_ok_def dest: rows_okD(2))
    then show ?thesis using d by (simp add: reread_row_def row_ok_def canonical_row_def)
  qed
  then show ?thesis unfolding staged_data_def by (rule map_outcome_Inr)
qed

end
