(* ===== verification/Catalog_Reach.thy ===== *)
theory Catalog_Reach
  imports Catalog_Worker Catalog_Staging
begin

text \<open>
  The catalog as requests and workers leave it, one committed transaction after the other: the step
  relation, its invariants, and what no step ever undoes.
\<close>

subsection \<open>Transactions\<close>

text \<open>
  A state is the clock of the database and its tables.  Each rule is a transaction of a service with
  any arguments, so that every interleaving of requests and workers is a path.
\<close>

inductive catalog_step :: "timestamp \<times> catalog_db \<Rightarrow> timestamp \<times> catalog_db \<Rightarrow> bool" where
  accept: "now \<le> ce_now env \<Longrightarrow> accept_catalog_import env tenant up before db = Inr (i, db') \<Longrightarrow>
    catalog_step (now, db) (ce_now env, db')"
| stage: "io_ok (ce_io env) \<Longrightarrow> now \<le> ce_now env \<Longrightarrow>
    validate_and_stage_catalog_import env import_id db = Inr (i, db') \<Longrightarrow> catalog_step (now, db) (ce_now env, db')"
| promote: "now \<le> ce_now env \<Longrightarrow> promote_catalog_import env import_id db = Inr (i, db') \<Longrightarrow>
    catalog_step (now, db) (ce_now env, db')"
| finish: "catalog_step (now, db) (now, complete_catalog_job w job_id db)"
| fail: "catalog_step (now, db) (now, report_catalog_failure w tenant j e db)"
| reconcile: "reconcile_quarantined_catalog_imports locked tenant limit db = Inr (n, db') \<Longrightarrow>
    catalog_step (now, db) (now, db')"
| claim: "catalog_step (now, db) (now, snd (claim_catalog_jobs w tenant db))"
| renew: "catalog_step (now, db) (now, db\<lparr>cd_jobs := snd (renew_lease t job_id worker n (cd_jobs db))\<rparr>)"

abbreviation catalog_steps :: "timestamp \<times> catalog_db \<Rightarrow> timestamp \<times> catalog_db \<Rightarrow> bool" where
  "catalog_steps \<equiv> catalog_step\<^sup>*\<^sup>*"

definition empty_catalog :: "uuid list \<Rightarrow> catalog_db" where
  "empty_catalog tenants =
     \<lparr>cd_tenants = tenants, cd_styles = [], cd_skus = [], cd_bindings = [], cd_products = [], cd_variants = [],
      cd_tags = [], cd_imports = [], cd_sources = [], cd_rows = [], cd_errors = [], cd_jobs = []\<rparr>"

definition catalog_reachable :: "timestamp \<times> catalog_db \<Rightarrow> bool" where
  "catalog_reachable s \<longleftrightarrow> (\<exists>t tenants. catalog_steps (t, empty_catalog tenants) s)"

subsection \<open>The invariants\<close>

definition at_rest :: "timestamp \<Rightarrow> catalog_db \<Rightarrow> bool" where
  "at_rest now db \<longleftrightarrow> catalog_ok db \<and> written_by now (cd_bindings db) \<and> projection_ok db \<and> mirrored db"

definition import_ok :: "catalog_import \<Rightarrow> catalog_db \<Rightarrow> bool" where
  "import_ok i db \<longleftrightarrow>
     ci_status i \<noteq> IMPORT_PROCESSING \<and>
     (ci_status i = IMPORT_VALIDATING \<longrightarrow> list_all (\<lambda>r. \<not> staged_for i r) (cd_rows db)) \<and>
     (ci_status i = IMPORT_READY \<longrightarrow> ready_ok i db)"

definition import_key :: "catalog_import \<Rightarrow> uuid \<times> string" where
  "import_key i = (ci_tenant i, ci_key i)"

definition imports_inv :: "catalog_db \<Rightarrow> bool" where
  "imports_inv db \<longleftrightarrow>
     distinct (map ci_id (cd_imports db)) \<and> distinct (map import_key (cd_imports db)) \<and>
     list_all (\<lambda>r. sr_import r \<in> ci_id ` set (cd_imports db)) (cd_rows db) \<and>
     list_all (\<lambda>i. import_ok i db) (cd_imports db)"

text \<open>
  How one import may move in a step.  A FAILED import stays as it is but for the text of its failure,
  which a second quarantined job with the same payload would overwrite.
\<close>

definition import_moves :: "catalog_import \<Rightarrow> catalog_import \<Rightarrow> bool" where
  "import_moves i i' \<longleftrightarrow> import_ident i' = import_ident i \<and>
     (i' = i \<or> ci_status i = IMPORT_FAILED \<and> (\<exists>reason. i' = i\<lparr>ci_failure := reason\<rparr>) \<or>
      (ci_status i, ci_status i') \<in>
        {(IMPORT_VALIDATING, IMPORT_READY), (IMPORT_VALIDATING, IMPORT_REJECTED), (IMPORT_VALIDATING, IMPORT_FAILED),
         (IMPORT_READY, IMPORT_COMPLETED), (IMPORT_READY, IMPORT_FAILED)})"

definition imports_move :: "catalog_db \<Rightarrow> catalog_db \<Rightarrow> bool" where
  "imports_move db db' \<longleftrightarrow> (\<forall>i \<in> set (cd_imports db). \<exists>i' \<in> set (cd_imports db'). import_moves\<^sup>*\<^sup>* i i')"

lemma import_moves_refl: "import_moves i i"
  by (simp add: import_moves_def)

lemma imports_move_trans: "imports_move a b \<Longrightarrow> imports_move b c \<Longrightarrow> imports_move a c"
  unfolding imports_move_def by (meson rtranclp_trans)

lemma imports_move_same: "cd_imports db' = cd_imports db \<Longrightarrow> imports_move db db'"
  by (auto simp: imports_move_def)

text \<open>The tables the invariants look at.\<close>

definition tables :: "catalog_db \<Rightarrow> catalog_style list \<times> catalog_sku list \<times> catalog_binding list \<times> catalog_product list \<times>
    catalog_variant list \<times> rfid_tag list" where
  "tables db = (cd_styles db, cd_skus db, cd_bindings db, cd_products db, cd_variants db, cd_tags db)"

lemma at_rest_tables: "tables db' = tables db \<Longrightarrow> at_rest now db' = at_rest now db"
  by (simp add: tables_def at_rest_def catalog_ok_def projection_ok_def mirrored_def tagged_sku_def bound_sku_def
      active_product_def active_style_def find_tag_def open_binding_def find_product_def find_style_def)

lemma written_by_later: "written_by now bs \<Longrightarrow> now \<le> now' \<Longrightarrow> written_by now' bs"
  by (force simp: written_by_def list_all_iff)

lemma at_rest_later: "at_rest now db \<Longrightarrow> now \<le> now' \<Longrightarrow> at_rest now' db"
  using written_by_later by (auto simp: at_rest_def)

lemma same_past_earlier: "same_past now' bs bs' \<Longrightarrow> now \<le> now' \<Longrightarrow> same_past now bs bs'"
  by (simp add: same_past_def)

lemma ready_ok_rows: "cd_rows db' = cd_rows db \<Longrightarrow> ready_ok i db' = ready_ok i db"
  by (simp add: ready_ok_def staged_data_def valid_staged_rows_def)

lemma imports_inv_same: "cd_imports db' = cd_imports db \<Longrightarrow> cd_rows db' = cd_rows db \<Longrightarrow> imports_inv db' = imports_inv db"
  using ready_ok_rows [of db' db] by (simp add: imports_inv_def import_ok_def)

lemma imports_invD:
  assumes "imports_inv db" "get_by ci_id u (cd_imports db) = Some i"
  shows "i \<in> set (cd_imports db)" "ci_id i = u" "import_ok i db"
  using assms get_by_SomeD [OF assms(2)] by (auto simp: imports_inv_def list_all_iff)

text \<open>Saving an import that has moved.\<close>

lemma save_import_moves:
  assumes "imports_inv db" "i \<in> set (cd_imports db)" "import_moves i i'"
  shows "imports_move db (save_import i' db)"
proof -
  have id: "ci_id i' = ci_id i" using assms(3) by (auto simp: import_moves_def dest: import_identD)
  have "\<exists>j' \<in> set (cd_imports (save_import i' db)). import_moves\<^sup>*\<^sup>* j j'" if j: "j \<in> set (cd_imports db)" for j
  proof (cases "ci_id j = ci_id i")
    case True
    then have "j = i" using assms(1,2) j by (auto simp: imports_inv_def distinct_map dest: inj_onD)
    then show ?thesis using assms(3) j id by (auto simp: save_import_def set_update_where)
  next
    case False
    then show ?thesis using j id by (auto simp: save_import_def set_update_where)
  qed
  then show ?thesis by (simp add: imports_move_def)
qed

lemma save_import_keeps [simp]:
  "tables (save_import i db) = tables db" "cd_bindings (save_import i db) = cd_bindings db"
  "cd_rows (save_import i db) = cd_rows db" "cd_jobs (save_import i db) = cd_jobs db"
  by (simp_all add: save_import_def tables_def)

lemma save_import_inv:
  assumes inv: "imports_inv db" and i: "i \<in> set (cd_imports db)" and ident: "import_ident i' = import_ident i"
    and ok: "import_ok i' db'" and rows: "cd_imports db' = cd_imports db" "cd_rows db' = cd_rows db @ new"
      "list_all (staged_for i) new"
  shows "imports_inv (save_import i' db')"
proof -
  let ?is = "update_where (\<lambda>j. ci_id j = ci_id i') (\<lambda>_. i') (cd_imports db)"
  note id = import_identD [OF ident]
  have same: "j = i" if "j \<in> set (cd_imports db)" "ci_id j = ci_id i" for j
    using inv i that by (auto simp: imports_inv_def distinct_map dest: inj_onD)
  have maps: "map ci_id ?is = map ci_id (cd_imports db)" "map import_key ?is = map import_key (cd_imports db)"
  proof -
    have "import_key i' = import_key i" "ci_id i' = ci_id i" using id by (simp_all add: import_key_def)
    then have "import_key i' = import_key j" "ci_id i' = ci_id j" if "j \<in> set (cd_imports db)" "ci_id j = ci_id i'" for j
      using same [OF that(1)] that(2) by simp_all
    then show "map ci_id ?is = map ci_id (cd_imports db)" "map import_key ?is = map import_key (cd_imports db)"
      by (auto intro!: map_update_where)
  qed
  have ids: "ci_id ` set ?is = ci_id ` set (cd_imports db)" using arg_cong [OF maps(1), of set] by simp
  have "import_ok j (save_import i' db')" if "j \<in> set ?is" for j
  proof (cases "ci_id j = ci_id i")
    case True
    then have "j = i'" using that id by (auto simp: in_update_where_iff)
    then show ?thesis using ok ready_ok_rows [of "save_import i' db'" db'] by (simp add: import_ok_def)
  next
    case False
    then have j: "j \<in> set (cd_imports db)" using that id by (auto simp: in_update_where_iff)
    have none: "list_all (\<lambda>r. \<not> staged_for j r) new" using rows(3) False by (auto simp: list_all_iff staged_for_def)
    then have "filter (\<lambda>r. sr_tenant r = ci_tenant j \<and> sr_import r = ci_id j \<and> sr_status r = ROW_VALID) new = []"
      by (auto simp: filter_empty_conv list_all_iff staged_for_def)
    then have "valid_staged_rows j (save_import i' db') = valid_staged_rows j db"
      by (simp add: valid_staged_rows_def rows(2))
    then have "ready_ok j (save_import i' db') = ready_ok j db" by (simp add: ready_ok_def staged_data_def)
    moreover have "import_ok j db" using inv j by (simp add: imports_inv_def list_all_iff)
    ultimately show ?thesis using none by (simp add: import_ok_def rows(2))
  qed
  moreover have "list_all (\<lambda>r. sr_import r \<in> ci_id ` set ?is) (cd_rows db @ new)"
    using inv rows(3) i unfolding ids by (auto simp: imports_inv_def list_all_iff staged_for_def)
  moreover have "cd_imports (save_import i' db') = ?is" "cd_rows (save_import i' db') = cd_rows db @ new"
    by (simp_all add: save_import_def rows)
  ultimately show ?thesis
    using inv by (simp add: imports_inv_def maps list_all_iff)
qed

lemma save_final_import:
  assumes "imports_inv db" "i \<in> set (cd_imports db)" "import_moves i i'"
    "ci_status i' \<in> {IMPORT_COMPLETED, IMPORT_REJECTED, IMPORT_FAILED}"
  shows "imports_inv (save_import i' db) \<and> imports_move db (save_import i' db)"
proof -
  have "import_ok i' db" using assms(4) by (auto simp: import_ok_def)
  then have "imports_inv (save_import i' db)"
    using assms(3) by (intro save_import_inv [OF assms(1,2), of i' db "[]"]) (simp_all add: import_moves_def)
  then show ?thesis using save_import_moves [OF assms(1-3)] by simp
qed

subsection \<open>Every transaction is sound\<close>

definition step_sound :: "timestamp \<times> catalog_db \<Rightarrow> timestamp \<times> catalog_db \<Rightarrow> bool" where
  "step_sound s s' \<longleftrightarrow>
     at_rest (fst s') (snd s') \<and> imports_inv (snd s') \<and> fst s \<le> fst s' \<and>
     same_past (fst s) (cd_bindings (snd s)) (cd_bindings (snd s')) \<and> imports_move (snd s) (snd s')"

lemma sound_quiet:
  assumes "at_rest now db" "now \<le> now'" "tables db' = tables db" "imports_inv db'" "imports_move db db'"
  shows "step_sound (now, db) (now', db')"
  using at_rest_later [OF assms(1,2)] at_rest_tables [OF assms(3)] assms by (simp add: step_sound_def tables_def)

lemma sound_jobs:
  assumes "at_rest now db" "imports_inv db" "now \<le> now'"
  shows "step_sound (now, db) (now', db\<lparr>cd_jobs := q\<rparr>)"
  using assms imports_inv_same [of "db\<lparr>cd_jobs := q\<rparr>" db]
  by (intro sound_quiet [OF assms(1,3)]) (simp_all add: tables_def imports_move_same)

lemma sound_same: "at_rest now db \<Longrightarrow> imports_inv db \<Longrightarrow> now \<le> now' \<Longrightarrow> step_sound (now, db) (now', db)"
  by (rule sound_quiet) (simp_all add: imports_move_same)

lemma sound_saved:
  assumes "at_rest now db" "imports_inv db" "now \<le> now'" "i \<in> set (cd_imports db)" "import_moves i i'"
    "ci_status i' \<in> {IMPORT_COMPLETED, IMPORT_REJECTED, IMPORT_FAILED}"
  shows "step_sound (now, db) (now', save_import i' db)"
  using save_final_import [OF assms(2,4-6)] by (intro sound_quiet [OF assms(1,3)]) simp_all

lemma sound_trans: "step_sound r s \<Longrightarrow> step_sound s t \<Longrightarrow> step_sound r t"
  using imports_move_trans unfolding step_sound_def
  by (auto simp: same_past_def)

text \<open>Accepting a file.\<close>

lemma accept_catalog_import_cases [consumes 1, case_names replayed inserted]:
  assumes "accept_catalog_import env tenant up before db = Inr (i, db')"
  obtains "db' = db" "i \<in> set (cd_imports before) \<or> i \<in> set (cd_imports db)"
      "import_ident i = (tenant, ci_id i, strip (up_key up), ce_sha256 env (up_content up), up_mode up)"
  | "insert_import env tenant up db = Inr (i, db')"
proof -
  let ?key = "strip (up_key up)" and ?sum = "ce_sha256 env (up_content up)"
  have replay: "j = i \<and> db' = db \<and> import_ident i = (tenant, ci_id i, ?key, ?sum, up_mode up)"
    if "and_then (replayed_import ?sum (up_mode up) j) (\<lambda>i. Inr (i, db)) = Inr (i, db')" "import_by_key tenant ?key x = Some j" for j x
    using that get_by_SomeD [of _ "(tenant, ?key)" "cd_imports x" j]
    by (auto simp: replayed_import_def import_by_key_def import_ident_def split: if_splits)
  have found: "j \<in> set (cd_imports x)" if "import_by_key tenant ?key x = Some j" for j x
    using that get_by_SomeD unfolding import_by_key_def by fastforce
  have rest: "(case import_by_key tenant ?key before of
      Some existing \<Rightarrow> and_then (replayed_import ?sum (up_mode up) existing) (\<lambda>i. Inr (i, db))
    | None \<Rightarrow> (case insert_import env tenant up db of
        Inr r \<Rightarrow> Inr r
      | Inl e \<Rightarrow> (case import_by_key tenant ?key db of
            Some winner \<Rightarrow> and_then (replayed_import ?sum (up_mode up) winner) (\<lambda>i. Inr (i, db))
          | None \<Rightarrow> Inl e))) = Inr (i, db')"
    using assms by (simp add: accept_catalog_import_def Let_def and_then_Inr_iff)
  show ?thesis
  proof (cases "import_by_key tenant ?key before")
    case (Some j)
    then have "j = i \<and> db' = db \<and> import_ident i = (tenant, ci_id i, ?key, ?sum, up_mode up)"
      using rest by (intro replay) auto
    then show ?thesis using that(1) found [OF Some] by blast
  next
    case None
    show ?thesis
    proof (cases "insert_import env tenant up db")
      case (Inl e)
      then obtain j where j: "import_by_key tenant ?key db = Some j"
        "and_then (replayed_import ?sum (up_mode up) j) (\<lambda>i. Inr (i, db)) = Inr (i, db')"
        using rest None by (auto split: option.splits)
      then show ?thesis using that(1) replay [OF j(2,1)] found [OF j(1)] by blast
    next
      case (Inr r)
      then show ?thesis using that(2) rest None by simp
    qed
  qed
qed

lemma insert_import_InrD:
  assumes "insert_import env tenant up db = Inr (i, db')"
  shows "i = new_import env tenant up" "ci_id i \<notin> ci_id ` set (cd_imports db)" "import_key i \<notin> import_key ` set (cd_imports db)"
    "cd_imports db' = cd_imports db @ [i]" "tables db' = tables db" "cd_rows db' = cd_rows db"
    "\<exists>j. jb_id j \<notin> jb_id ` set (cd_jobs db) \<and> jb_tenant j = tenant \<and> jb_kind j = CATALOG_IMPORT \<and>
       jb_payload j = Some (str_uuid (ci_id i)) \<and> jb_status j = JOB_PENDING \<and> cd_jobs db' = cd_jobs db @ [j]"
  using assms
  by (auto simp: insert_import_def Let_def enqueue_job_def and_then_Inr_iff import_by_key_def get_by_None_iff tables_def
      import_key_def new_import_def split: if_splits)

lemma sound_insert:
  assumes "insert_import env tenant up db = Inr (i, db')" "at_rest now db" "imports_inv db" "now \<le> now'"
  shows "step_sound (now, db) (now', db')"
proof (rule sound_quiet [OF assms(2,4)])
  note new = insert_import_InrD [OF assms(1)]
  show "tables db' = tables db" by (rule new(5))
  show "imports_move db db'" by (auto simp: imports_move_def new(4))
  have "list_all (\<lambda>r. \<not> staged_for i r) (cd_rows db)"
    using assms(3) new(2) unfolding imports_inv_def list_all_iff staged_for_def by metis
  moreover have "ci_status i = IMPORT_VALIDATING" by (simp add: new(1) new_import_def)
  ultimately have "import_ok i db'" by (simp add: import_ok_def new(6))
  moreover have "import_ok j db' = import_ok j db" for j by (simp add: import_ok_def new(6) ready_ok_rows [OF new(6)])
  ultimately show "imports_inv db'"
    using assms(3) new(2,3) by (auto simp: imports_inv_def new(4,6) list_all_iff)
qed

text \<open>Validating an import.\<close>

lemma validate_import_cases [consumes 1, case_names unchanged staged]:
  assumes "validate_and_stage_catalog_import env u db = Inr (i', db')"
  obtains "db' = db" "get_by ci_id u (cd_imports db) = Some i'"
      "ci_status i' \<in> {IMPORT_READY, IMPORT_COMPLETED, IMPORT_REJECTED, IMPORT_FAILED}"
  | i content where "get_by ci_id u (cd_imports db) = Some i" "ci_status i = IMPORT_VALIDATING"
      "ce_sha256 env content = ci_checksum i" "stage_import env i content db = Inr (i', db')"
  using assms by (auto simp: validate_and_stage_catalog_import_def split: option.splits if_splits)

lemma sound_stage:
  assumes run: "stage_import env i content db = Inr (i', db')" and ok: "at_rest now db" "imports_inv db" "now \<le> now'"
    and i: "i \<in> set (cd_imports db)" "ci_status i = IMPORT_VALIDATING" and io: "io_ok (ce_io env)"
  shows "step_sound (now, db) (now', db')"
proof -
  have well: "staged_well i i' db db'" by (rule stage_import_InrD(1) [OF run])
  obtain staged where rows: "list_all (staged_for i) staged" "cd_rows db' = cd_rows db @ staged"
    using well by (auto simp: staged_well_def)
  have ident: "import_ident i' = import_ident i" and status: "ci_status i' \<in> {IMPORT_READY, IMPORT_REJECTED}"
    and rest: "db'\<lparr>cd_imports := [], cd_rows := [], cd_errors := []\<rparr> = db\<lparr>cd_imports := [], cd_rows := [], cd_errors := []\<rparr>"
    and saved_imports: "cd_imports db' = update_where (\<lambda>j. ci_id j = ci_id i) (\<lambda>_. i') (cd_imports db)"
    using well by (simp_all add: staged_well_def)
  have id: "ci_id i' = ci_id i" using import_identD [OF ident] by simp
  let ?db = "db'\<lparr>cd_imports := cd_imports db\<rparr>"
  have fresh: "list_all (\<lambda>r. \<not> staged_for i r) (cd_rows db)"
    using ok(2) i by (auto simp: imports_inv_def list_all_iff import_ok_def)
  have "import_ok i' ?db"
    using status stage_import_ready(1) [OF run io fresh] ready_ok_rows [of ?db db'] by (auto simp: import_ok_def)
  then have inv: "imports_inv (save_import i' ?db)" by (rule save_import_inv [OF ok(2) i(1) ident _ _ _ rows(1)]) (simp_all add: rows(2))
  have saved: "save_import i' ?db = db'" by (simp add: save_import_def id saved_imports)
  have moves: "import_moves i i'" using ident status i(2) by (auto simp: import_moves_def)
  have "cd_imports (save_import i' db) = cd_imports db'" by (simp add: save_import_def id saved_imports)
  then have "imports_move db db'" using save_import_moves [OF ok(2) i(1) moves] by (simp add: imports_move_def)
  moreover have "tables db' = tables db" using arg_cong [OF rest, of tables] by (simp add: tables_def)
  ultimately show ?thesis using inv saved by (intro sound_quiet [OF ok(1,3)]) simp_all
qed

text \<open>Promoting an import.\<close>

lemma promote_import_cases [consumes 2, case_names unchanged failed completed]:
  assumes "promote_catalog_import env u db = Inr (i', db')" "imports_inv db"
  obtains "db' = db" "get_by ci_id u (cd_imports db) = Some i'" "ci_status i' = IMPORT_COMPLETED"
  | i reason where "get_by ci_id u (cd_imports db) = Some i" "ci_status i = IMPORT_READY"
      "i' = failed_import reason i" "db' = save_import i' db"
  | i c db1 where "get_by ci_id u (cd_imports db) = Some i" "ci_status i = IMPORT_READY" "ready_ok i db"
      "run_promotion env i (staged_data i db) db = Inr (c, db1)" "i' = completed_import (ce_now env) c i"
      "db' = save_import i' db1"
proof -
  obtain i where i: "get_by ci_id u (cd_imports db) = Some i"
    using assms(1) by (auto simp: promote_catalog_import_def split: option.splits)
  show ?thesis
  proof (cases "ci_status i = IMPORT_COMPLETED")
    case True
    then show ?thesis using assms(1) i that(1) by (simp add: promote_catalog_import_def)
  next
    case False
    then have ready: "ci_status i = IMPORT_READY" using assms(1) i by (simp add: promote_catalog_import_def split: if_splits)
    then have "ready_ok i db" using imports_invD [OF assms(2) i] by (simp add: import_ok_def)
    moreover from this have "promote_rows env i (staged_data i db) db = Inr (i', db')"
      using assms(1) i False reread_ready by (auto simp: promote_catalog_import_def Let_def split: if_splits)
    ultimately show ?thesis
      using that(2,3) [OF i ready]
      by (auto simp: promote_rows_def split: sum.splits promotion_failure.splits)
  qed
qed

lemma beside_allD:
  assumes "beside_all db' = beside_all db"
  shows "cd_imports db' = cd_imports db" "cd_rows db' = cd_rows db" "cd_jobs db' = cd_jobs db" "cd_tenants db' = cd_tenants db"
  using arg_cong [OF assms, of cd_imports] arg_cong [OF assms, of cd_rows] arg_cong [OF assms, of cd_jobs]
    arg_cong [OF assms, of cd_tenants] by (simp_all add: beside_all_def)

lemma promoted_import_moves [simp]:
  "ci_status i = IMPORT_READY \<Longrightarrow> import_moves i (completed_import t c i)"
  "ci_status i = IMPORT_READY \<Longrightarrow> import_moves i (failed_import reason i)"
  "ci_status (completed_import t c i) = IMPORT_COMPLETED" "ci_status (failed_import reason i) = IMPORT_FAILED"
  "ci_id (completed_import t c i) = ci_id i" "ci_id (failed_import reason i) = ci_id i"
  by (simp_all add: import_moves_def completed_import_def failed_import_def import_ident_def)

lemma sound_promotion:
  assumes run: "run_promotion env i ds db = Inr (c, db1)" and ok: "at_rest now db" "imports_inv db" "now \<le> ce_now env"
    and i: "i \<in> set (cd_imports db)" "ci_status i = IMPORT_READY" and rows: "rows_ok ds"
  shows "step_sound (now, db) (ce_now env, save_import (completed_import (ce_now env) c i) db1)"
proof -
  let ?i = "completed_import (ce_now env) c i"
  have rest: "catalog_ok db" "written_by (ce_now env) (cd_bindings db)" "projection_ok db" "mirrored db"
    using at_rest_later [OF ok(1,3)] by (simp_all add: at_rest_def)
  note p = run_promotion_ok [OF run rest(1-3) rows] and m = run_promotion_mirrors [OF run rest(1-3) rows rest(4)]
  note same = beside_allD [OF p(5)]
  have inv1: "imports_inv db1" using ok(2) imports_inv_same [OF same(1,2)] by simp
  have "imports_inv (save_import ?i db1) \<and> imports_move db1 (save_import ?i db1)"
    by (rule save_final_import [OF inv1 _ promoted_import_moves(1) [OF i(2)]]) (simp_all add: same i(1))
  then have "imports_inv (save_import ?i db1)" "imports_move db (save_import ?i db1)"
    using imports_move_trans [OF imports_move_same [OF same(1)]] by blast+
  moreover have "at_rest (ce_now env) (save_import ?i db1)"
    using p(1,2,4) m by (subst at_rest_tables [of _ db1]) (simp_all add: at_rest_def)
  ultimately show ?thesis
    using ok(3) same_past_earlier [OF p(3) ok(3)] by (simp add: step_sound_def)
qed

text \<open>Failing an import with its job, and reconciling quarantined jobs.\<close>

lemma sound_exhausted:
  assumes "at_rest now db" "imports_inv db"
  shows "step_sound (now, db) (now, report_catalog_failure w tenant j e db)"
proof -
  let ?t = "cw_fault_text w e"
  let ?mark = "mark_catalog_import_failed_after_retry_exhaustion tenant (jb_payload j) ?t db"
  have same: "step_sound (now, db) (now, db)" by (rule sound_same [OF assms order_refl])
  have mark: "step_sound (now, db) (now, snd ?mark)"
  proof (cases "\<exists>u i. payload_import_id (jb_payload j) = Inr u \<and>
      select_one (\<lambda>i. ci_id i = u \<and> ci_tenant i = tenant) (cd_imports db) = Some i \<and>
      ci_status i \<notin> {IMPORT_COMPLETED, IMPORT_REJECTED, IMPORT_FAILED}")
    case True
    then obtain u i where i: "payload_import_id (jb_payload j) = Inr u"
      "select_one (\<lambda>i. ci_id i = u \<and> ci_tenant i = tenant) (cd_imports db) = Some i"
      "ci_status i \<notin> {IMPORT_COMPLETED, IMPORT_REJECTED, IMPORT_FAILED}" by blast
    have mem: "i \<in> set (cd_imports db)" using select_one_SomeD [OF i(2)] by simp
    then have "ci_status i \<noteq> IMPORT_PROCESSING" using assms(2) by (simp add: imports_inv_def list_all_iff import_ok_def)
    then have "ci_status i \<in> {IMPORT_VALIDATING, IMPORT_READY}" using i(3) by (cases "ci_status i") simp_all
    then have "import_moves i (exhausted_import ?t i)"
      by (auto simp: import_moves_def exhausted_import_def import_ident_def)
    then have "step_sound (now, db) (now, save_import (exhausted_import ?t i) db)"
      by (rule sound_saved [OF assms order_refl mem]) (simp add: exhausted_import_def)
    then show ?thesis using i by (simp add: mark_catalog_import_failed_after_retry_exhaustion_def)
  next
    case False
    then have "snd ?mark = db"
      by (auto simp: mark_catalog_import_failed_after_retry_exhaustion_def split: sum.split option.split)
    then show ?thesis using same by simp
  qed
  define db1 where "db1 = (if cw_max_attempts w \<le> jb_attempts j then snd ?mark else db)"
  have db1: "step_sound (now, db) (now, db1)" using mark same by (simp add: db1_def)
  then have "step_sound (now, db1) (now, db1\<lparr>cd_jobs := q\<rparr>)" for q
    by (intro sound_jobs) (simp_all add: step_sound_def)
  then have "step_sound (now, db) (now, db1\<lparr>cd_jobs := q\<rparr>)" for q
    using sound_trans [OF db1] by blast
  then show ?thesis
    using same by (simp add: report_catalog_failure_def Let_def db1_def [symmetric] split_beta)
qed

lemma quarantined_import_shape:
  obtains reason where "quarantined_import last_error i = i\<lparr>ci_status := IMPORT_FAILED, ci_failure := reason\<rparr>"
  by (rule that) (unfold quarantined_import_def Let_def, rule refl)

lemma quarantined_import_moves:
  assumes "ci_status i \<in> {IMPORT_VALIDATING, IMPORT_READY, IMPORT_FAILED}"
  shows "import_moves i (quarantined_import last_error i)" "ci_status (quarantined_import last_error i) = IMPORT_FAILED"
proof -
  obtain reason where q: "quarantined_import last_error i = i\<lparr>ci_status := IMPORT_FAILED, ci_failure := reason\<rparr>"
    by (rule quarantined_import_shape)
  show "ci_status (quarantined_import last_error i) = IMPORT_FAILED" by (simp add: q)
  show "import_moves i (quarantined_import last_error i)"
  proof (cases "ci_status i = IMPORT_FAILED")
    case True
    then have "i\<lparr>ci_status := IMPORT_FAILED, ci_failure := reason\<rparr> = i\<lparr>ci_failure := reason\<rparr>" by (cases i) simp
    then have "quarantined_import last_error i = i\<lparr>ci_failure := reason\<rparr>" by (simp only: q)
    then show ?thesis using True unfolding import_moves_def by (auto simp: import_ident_def)
  next
    case False
    then show ?thesis using assms by (auto simp: q import_moves_def import_ident_def)
  qed
qed

lemma sound_reconcile:
  "at_rest now db \<Longrightarrow> imports_inv db \<Longrightarrow> step_sound (now, db) (now, fold reconcile_pair ps db)"
proof (induction ps arbitrary: db)
  case Nil
  then show ?case by (simp add: sound_same)
next
  case (Cons p ps)
  have "step_sound (now, db) (now, reconcile_pair p db)"
  proof (cases "get_by ci_id (ci_id (snd p)) (cd_imports db)")
    case None
    then show ?thesis using sound_same [OF Cons.prems order_refl] by (simp add: reconcile_pair_def)
  next
    case (Some i)
    note i = imports_invD [OF Cons.prems(2) Some]
    show ?thesis
    proof (cases "ci_status i \<in> {IMPORT_COMPLETED, IMPORT_REJECTED}")
      case True
      then show ?thesis using Some sound_jobs [OF Cons.prems order_refl] by (simp add: reconcile_pair_def)
    next
      case False
      then have "ci_status i \<in> {IMPORT_VALIDATING, IMPORT_READY, IMPORT_FAILED}"
        using i(3) by (cases "ci_status i") (simp_all add: import_ok_def)
      then have moves: "import_moves i (quarantined_import (jb_last_error (fst p)) i)"
        by (rule quarantined_import_moves(1))
      have "step_sound (now, db) (now, save_import (quarantined_import (jb_last_error (fst p)) i) db)"
        by (rule sound_saved [OF Cons.prems order_refl i(1) moves]) (use quarantined_import_moves(2) \<open>ci_status i \<in> _\<close> in blast)
      then show ?thesis using Some False by (simp add: reconcile_pair_def)
    qed
  qed
  moreover from this have "step_sound (now, reconcile_pair p db) (now, fold reconcile_pair ps (reconcile_pair p db))"
    by (intro Cons.IH) (simp_all add: step_sound_def)
  ultimately show ?case by (simp add: sound_trans)
qed

lemma catalog_step_sound:
  assumes "catalog_step s s'" "at_rest (fst s) (snd s)" "imports_inv (snd s)"
  shows "step_sound s s'"
  using assms
proof (cases rule: catalog_step.cases)
  case (accept now env tenant up before db i db')
  from accept(4) show ?thesis
  proof (cases rule: accept_catalog_import_cases)
    case replayed
    then show ?thesis using assms(2,3) accept sound_same by simp
  next
    case inserted
    then show ?thesis using assms(2,3) accept sound_insert by simp
  qed
next
  case (stage env now u db i' db')
  from stage(5) show ?thesis
  proof (cases rule: validate_import_cases)
    case unchanged
    then show ?thesis using assms(2,3) stage sound_same by simp
  next
    case (staged i content)
    have inv: "imports_inv db" using assms(3) stage(1) by simp
    show ?thesis
      using assms(2) sound_stage [OF staged(4) _ inv stage(4) imports_invD(1) [OF inv staged(1)] staged(2) stage(3)] stage(1,2)
      by simp
  qed
next
  case (promote now env u db i' db')
  have inv: "imports_inv db" "at_rest now db" using assms(2,3) promote(1) by simp_all
  from promote(4) inv(1) have "step_sound (now, db) (ce_now env, db')"
  proof (cases rule: promote_import_cases)
    case unchanged
    then show ?thesis using sound_same [OF inv(2,1) promote(3)] by simp
  next
    case (failed i reason)
    show ?thesis
      unfolding failed(4) unfolding failed(3)
      by (rule sound_saved [OF inv(2,1) promote(3) imports_invD(1) [OF inv(1) failed(1)]]) (simp_all add: failed(2))
  next
    case (completed i c db1)
    have "rows_ok (staged_data i db)" using completed(3) by (simp add: ready_ok_def)
    then show ?thesis
      using sound_promotion [OF completed(4) inv(2,1) promote(3) imports_invD(1) [OF inv(1) completed(1)] completed(2)]
      by (simp add: completed(5,6))
  qed
  then show ?thesis by (simp add: promote(1,2))
next
  case (finish now db w job_id)
  then show ?thesis using assms(2,3) sound_jobs by (simp add: complete_catalog_job_def)
next
  case (fail now db w tenant j e)
  then show ?thesis using assms(2,3) sound_exhausted by simp
next
  case (reconcile locked tenant limit db n db' now)
  then show ?thesis
    using assms(2,3) sound_reconcile
    by (auto simp: reconcile_quarantined_catalog_imports_def Let_def split: if_splits)
next
  case (claim now db w tenant)
  then show ?thesis using assms(2,3) sound_jobs by (simp add: claim_catalog_jobs_def split_beta)
next
  case (renew now db t job_id worker n)
  then show ?thesis using assms(2,3) sound_jobs by simp
qed

lemma catalog_steps_sound:
  assumes "catalog_steps s s'" "at_rest (fst s) (snd s)" "imports_inv (snd s)"
  shows "step_sound s s'"
  using assms(1)
proof induction
  case base
  then show ?case using sound_same [of "fst s" "snd s" "fst s"] assms(2,3) by simp
next
  case (step t u)
  then show ?case using sound_trans catalog_step_sound unfolding step_sound_def by blast
qed

lemma empty_catalog_rest: "at_rest t (empty_catalog tenants)" "imports_inv (empty_catalog tenants)"
  by (simp_all add: at_rest_def empty_catalog_def catalog_ok_def styles_ok_def skus_ok_def history_ok_def written_by_def
      projection_ok_def products_ok_def variants_ok_def tags_ok_def mirrored_def tagged_sku_def bound_sku_def active_product_def
      active_style_def find_tag_def open_binding_def find_product_key find_style_key imports_inv_def)

lemma reachable_rest:
  assumes "catalog_reachable s"
  shows "at_rest (fst s) (snd s)" "imports_inv (snd s)"
proof -
  obtain t tenants where "catalog_steps (t, empty_catalog tenants) s" using assms by (auto simp: catalog_reachable_def)
  then have "step_sound (t, empty_catalog tenants) s" by (rule catalog_steps_sound) (simp_all add: empty_catalog_rest)
  then show "at_rest (fst s) (snd s)" "imports_inv (snd s)" by (simp_all add: step_sound_def)
qed

lemma reachable_steps: "catalog_reachable s \<Longrightarrow> catalog_steps s s' \<Longrightarrow> catalog_reachable s'"
  unfolding catalog_reachable_def by (meson rtranclp_trans)

end
