(* ===== verification/Catalog_Life.thy ===== *)
theory Catalog_Life
  imports Catalog_Reach
begin

text \<open>
  What holds of the catalog in every reachable state, what its imports go through, and what one
  promotion does; with a file that is accepted, validated and promoted as the running example.
\<close>

subsection \<open>A file from acceptance to promotion\<close>

text \<open>The limits of the parser are compared as integers when the simplifier computes with them.\<close>

lemma limits_code [code_unfold]:
  "csv_field_limit \<le> n \<longleftrightarrow> (131072::int) \<le> int n"
  "max_catalog_rows \<le> n \<longleftrightarrow> (100000::int) \<le> int n"
  "max_catalog_file_bytes < n \<longleftrightarrow> (10485760::int) < int n"
  "n \<le> max_catalog_file_bytes \<longleftrightarrow> int n \<le> (10485760::int)"
  "max_attribute_bytes < n \<longleftrightarrow> (16384::int) < int n"
  unfolding csv_field_limit_def max_catalog_rows_def max_catalog_file_bytes_def max_attribute_bytes_def by linarith+

definition plain_io :: catalog_io where
  "plain_io = \<lparr>decode_utf8_sig = Inr, json_loads = (\<lambda>_. Inr (JObject []))\<rparr>"

definition csv_file :: "string list \<Rightarrow> string" where
  "csv_file ls = concat (map (\<lambda>l. l @ [lf]) (''style_code,style_name,sku,upc,color,size,epc'' # ls))"

definition demo_file :: string where
  "demo_file = csv_file [''T1,Tee,T1-B,036000291452,Blue,M,E28011700000020F'']"

definition demo_env :: "timestamp \<Rightarrow> catalog_env" where
  "demo_env now =
     \<lparr>ce_io = plain_io, ce_sha256 = take 8, ce_py_str = (\<lambda>_. []), ce_now = now, ce_import_id = 11, ce_job_id = 12,
      ce_style_id = (\<lambda>_. 21), ce_sku_id = (\<lambda>_. 22), ce_product_id = (\<lambda>_. 23), ce_variant_id = (\<lambda>_. 24),
      ce_error_id = (\<lambda>_. 0)\<rparr>"

definition upload_of :: "string \<Rightarrow> upload" where
  "upload_of content =
     \<lparr>up_key = ''spring-24'', up_mode = MODE_FULL, up_content = content, up_filename = ''a/b.csv'', up_content_type = None\<rparr>"

abbreviation accepted_file :: "string \<Rightarrow> (catalog_import \<times> catalog_db) outcome" where
  "accepted_file content \<equiv>
     accept_catalog_import (demo_env 1) 1 (upload_of content) (empty_catalog [1]) (empty_catalog [1])"

definition demo_accepted :: catalog_db where
  "demo_accepted = snd (projr (accepted_file demo_file))"

abbreviation demo_validation :: "(catalog_import \<times> catalog_db) outcome" where
  "demo_validation \<equiv> validate_and_stage_catalog_import (demo_env 2) 11 demo_accepted"

definition demo_ready :: catalog_db where
  "demo_ready = snd (projr demo_validation)"

abbreviation demo_promotion :: "(catalog_import \<times> catalog_db) outcome" where
  "demo_promotion \<equiv> promote_catalog_import (demo_env 3) 11 demo_ready"

definition demo_promoted :: catalog_db where
  "demo_promoted = snd (projr demo_promotion)"

text \<open>The import as each of the three leaves it.\<close>

definition demo_validating :: catalog_import where
  "demo_validating = fst (projr (accepted_file demo_file))"

definition demo_validated :: catalog_import where
  "demo_validated = fst (projr demo_validation)"

definition demo_completed :: catalog_import where
  "demo_completed = fst (projr demo_promotion)"

lemma is_ok_Inr: "is_ok r \<Longrightarrow> r = Inr (fst (projr r), snd (projr r))"
  by (cases r) simp_all

lemma demo_runs:
  "accepted_file demo_file = Inr (demo_validating, demo_accepted)"
  "demo_validation = Inr (demo_validated, demo_ready)"
  "demo_promotion = Inr (demo_completed, demo_promoted)"
proof -
  have ok: "is_ok (accepted_file demo_file)" "is_ok demo_validation" "is_ok demo_promotion" by code_simp+
  show "accepted_file demo_file = Inr (demo_validating, demo_accepted)"
    using is_ok_Inr [OF ok(1)] by (simp only: demo_validating_def demo_accepted_def)
  show "demo_validation = Inr (demo_validated, demo_ready)"
    using is_ok_Inr [OF ok(2)] by (simp only: demo_validated_def demo_ready_def)
  show "demo_promotion = Inr (demo_completed, demo_promoted)"
    using is_ok_Inr [OF ok(3)] by (simp only: demo_completed_def demo_promoted_def)
qed

lemma demo_io: "io_ok plain_io"
  by (simp add: io_ok_def plain_io_def)

lemma demo_now [simp]: "ce_now (demo_env t) = t" "ce_io (demo_env t) = plain_io"
  by (simp_all add: demo_env_def)

lemma demo_steps:
  "catalog_step (0, empty_catalog [1]) (1, demo_accepted)" "catalog_step (1, demo_accepted) (2, demo_ready)"
  "catalog_step (2, demo_ready) (3, demo_promoted)"
  using catalog_step.accept [OF _ demo_runs(1), of 0] catalog_step.stage [OF _ _ demo_runs(2), of 1]
    catalog_step.promote [OF _ demo_runs(3), of 2] by (simp_all add: demo_io)

lemma demo_reachable: "catalog_reachable (1, demo_accepted)" "catalog_reachable (2, demo_ready)" "catalog_reachable (3, demo_promoted)"
proof -
  have "catalog_reachable (0, empty_catalog [1])" by (auto simp: catalog_reachable_def)
  then show 1: "catalog_reachable (1, demo_accepted)"
    using reachable_steps [OF _ r_into_rtranclp, OF _ demo_steps(1)] by simp
  then show 2: "catalog_reachable (2, demo_ready)"
    using reachable_steps [OF _ r_into_rtranclp, OF _ demo_steps(2)] by simp
  then show "catalog_reachable (3, demo_promoted)"
    using reachable_steps [OF _ r_into_rtranclp, OF _ demo_steps(3)] by simp
qed

lemma demo_run: "catalog_steps (2, demo_ready) (3, demo_promoted)"
  using demo_steps(3) by (rule r_into_rtranclp)

lemma demo_import_found:
  "get_by ci_id 11 (cd_imports demo_accepted) = Some demo_validating"
  "get_by ci_id 11 (cd_imports demo_ready) = Some demo_validated"
proof -
  have "map_option (\<lambda>i. (i = demo_validating)) (get_by ci_id 11 (cd_imports demo_accepted)) = Some True"
    "map_option (\<lambda>i. (i = demo_validated)) (get_by ci_id 11 (cd_imports demo_ready)) = Some True" by code_simp+
  then show "get_by ci_id 11 (cd_imports demo_accepted) = Some demo_validating"
    "get_by ci_id 11 (cd_imports demo_ready) = Some demo_validated" by auto
qed

lemma demo_status:
  "ci_status demo_validating = IMPORT_VALIDATING" "ci_status demo_validated = IMPORT_READY"
  "ci_status demo_completed = IMPORT_COMPLETED"
  by code_simp+

subsection \<open>The catalog in every reachable state\<close>

text \<open>
  C9: In every reachable state the tags of the inventory side mirror the catalog: the active tag of an
  EPC names exactly the SKU of its open binding, and the active products are the active styles with
  their names, for every tenant.
\<close>

theorem projection_mirrors_catalog:
  assumes "catalog_reachable (now, db)"
  shows "tagged_sku tenant epc db = bound_sku tenant epc db \<and> active_product tenant code db = active_style tenant code db"
  using reachable_rest(1) [OF assms] by (simp add: at_rest_def mirrored_def)

theorem projection_mirrors_catalog_witness:
  "tagged_sku 1 ''E28011700000020F'' demo_promoted = bound_sku 1 ''E28011700000020F'' demo_promoted \<and>
   active_product 1 ''T1'' demo_promoted = active_style 1 ''T1'' demo_promoted"
  by (rule projection_mirrors_catalog [OF demo_reachable(3)])

lemma history_in_force:
  assumes "sorted_wrt succeeds bs"
  shows "length (filter (\<lambda>b. eb_tenant b = tenant \<and> eb_epc b = epc \<and> binding_at t b) bs) \<le> 1"
proof -
  let ?fs = "filter (\<lambda>b. eb_tenant b = tenant \<and> eb_epc b = epc \<and> binding_at t b) bs"
  have "sorted_wrt succeeds ?fs" using assms by (rule sorted_wrt_filter)
  moreover have "\<not> succeeds b b'" if "b \<in> set ?fs" "b' \<in> set ?fs" for b b'
    using that by (auto simp: succeeds_def binding_at_def split: option.splits)
  ultimately show ?thesis
    by (cases ?fs rule: remdups_adj.cases) (auto simp del: filter_eq_Cons_iff)
qed

text \<open>
  In every reachable state, at any moment, at most one binding of an EPC is in force.
\<close>

theorem tag_has_one_sku:
  assumes "catalog_reachable (now, db)"
  shows "length (filter (\<lambda>b. eb_tenant b = tenant \<and> eb_epc b = epc \<and> binding_at t b) (cd_bindings db)) \<le> 1"
  using reachable_rest(1) [OF assms] by (intro history_in_force) (simp add: at_rest_def catalog_ok_def history_ok_def)

theorem tag_has_one_sku_witness:
  "length (filter (\<lambda>b. eb_tenant b = 1 \<and> eb_epc b = ''E28011700000020F'' \<and> binding_at 3 b) (cd_bindings demo_promoted)) \<le> 1"
  by (rule tag_has_one_sku [OF demo_reachable(3)])






subsection \<open>The life of an import\<close>

lemma import_path:
  "import_moves\<^sup>*\<^sup>* i i' \<Longrightarrow>
     import_ident i' = import_ident i \<and>
     (ci_status i \<in> {IMPORT_COMPLETED, IMPORT_REJECTED} \<longrightarrow> i' = i) \<and>
     (ci_status i = IMPORT_FAILED \<longrightarrow> ci_status i' = IMPORT_FAILED) \<and>
     (ci_status i = IMPORT_READY \<longrightarrow> ci_status i' \<in> {IMPORT_READY, IMPORT_COMPLETED, IMPORT_FAILED})"
proof (induction rule: rtranclp_induct)
  case (step j k)
  then show ?case by (cases "ci_status i") (auto simp: import_moves_def)
qed simp

text \<open>
  C12: Over any run an import keeps its identity and only goes forward: COMPLETED and REJECTED imports
  never change again, FAILED stays FAILED, READY leads only to COMPLETED or FAILED, and no committed
  state shows an import in PROCESSING.
\<close>

theorem imports_only_advance:
  assumes "catalog_reachable (now, db)" "catalog_steps (now, db) (now', db')" "get_by ci_id u (cd_imports db) = Some i"
  shows "\<exists>i'. get_by ci_id u (cd_imports db') = Some i' \<and> import_ident i' = import_ident i \<and>
    ci_status i' \<noteq> IMPORT_PROCESSING \<and>
    (ci_status i \<in> {IMPORT_COMPLETED, IMPORT_REJECTED} \<longrightarrow> i' = i) \<and>
    (ci_status i = IMPORT_FAILED \<longrightarrow> ci_status i' = IMPORT_FAILED) \<and>
    (ci_status i = IMPORT_READY \<longrightarrow> ci_status i' \<in> {IMPORT_READY, IMPORT_COMPLETED, IMPORT_FAILED})"
proof -
  have sound: "step_sound (now, db) (now', db')"
    using catalog_steps_sound [OF assms(2)] reachable_rest [OF assms(1)] by simp
  have inv: "imports_inv db'" using sound by (simp add: step_sound_def)
  obtain i' where i': "i' \<in> set (cd_imports db')" "import_moves\<^sup>*\<^sup>* i i'"
    using sound get_by_SomeD [OF assms(3)] by (auto simp: step_sound_def imports_move_def)
  note path = import_path [OF i'(2)]
  have "ci_id i' = u" using path get_by_SomeD [OF assms(3)] by (auto dest: import_identD)
  then have "get_by ci_id u (cd_imports db') = Some i'"
    using inv i'(1) by (simp add: imports_inv_def get_by_eq_Some_iff)
  moreover have "import_ok i' db'" using inv i'(1) by (simp add: imports_inv_def list_all_iff)
  ultimately show ?thesis using path by (simp add: import_ok_def)
qed

theorem imports_only_advance_witness:
  "\<exists>i'. get_by ci_id 11 (cd_imports demo_promoted) = Some i' \<and> import_ident i' = import_ident demo_validated \<and>
    ci_status i' \<in> {IMPORT_READY, IMPORT_COMPLETED, IMPORT_FAILED}"
  using imports_only_advance [OF demo_reachable(2) demo_run demo_import_found(2)] demo_status(2)
  by auto

text \<open>
  C13: A READY import is never stuck on its own rows: the staged JSON reads back as the rows that were
  validated, there are as many as the import counts, and they are canonical and consistent, so the
  promotion goes straight to applying them.
\<close>

theorem ready_imports_reread:
  assumes "catalog_reachable (now, db)" "get_by ci_id u (cd_imports db) = Some i" "ci_status i = IMPORT_READY"
    "ci_tenant i \<in> set (cd_tenants db)"
  shows "promote_catalog_import env u db = promote_rows env i (staged_data i db) db \<and>
    int (length (staged_data i db)) = ci_valid i \<and> rows_ok (staged_data i db)"
proof -
  have "ready_ok i db"
    using imports_invD [OF reachable_rest(2) [OF assms(1)], of u i] assms(2,3) by (simp add: import_ok_def)
  then show ?thesis
    using assms(2-4) reread_ready [of i db]
    by (auto simp: promote_catalog_import_def ready_ok_def staged_data_def Let_def)
qed

theorem ready_imports_reread_witness:
  "promote_catalog_import (demo_env 3) 11 demo_ready =
     promote_rows (demo_env 3) demo_validated (staged_data demo_validated demo_ready) demo_ready"
proof -
  have "ci_tenant demo_validated \<in> set (cd_tenants demo_ready)" by code_simp
  then show ?thesis using ready_imports_reread [OF demo_reachable(2) demo_import_found(2) demo_status(2)] by simp
qed

end
