(* ===== verification/Catalog_Results.thy ===== *)
theory Catalog_Results
  imports Catalog_Life
begin

text \<open>
  What the services promise to those who call them: acceptance is idempotent, a preview says what the
  promotion will do, a completed import is the catalog, importing it again changes nothing, and an
  import never outlives its job.  Two theorems show where the code falls short of its purpose.
\<close>

subsection \<open>What a promotion installs\<close>

lemma save_import_lookups [simp]:
  "find_style t code (save_import i db) = find_style t code db" "find_sku t code (save_import i db) = find_sku t code db"
  "open_binding t epc (save_import i db) = open_binding t epc db" "find_product t code (save_import i db) = find_product t code db"
  "find_variant t p color (save_import i db) = find_variant t p color db" "find_tag t epc (save_import i db) = find_tag t epc db"
  "cd_styles (save_import i db) = cd_styles db" "cd_skus (save_import i db) = cd_skus db"
  by (simp_all add: save_import_def find_style_def find_sku_def open_binding_def find_product_def find_variant_def find_tag_def)

lemma save_import_views [simp]:
  "installed t (save_import i db) d = installed t db d" "hangs t (save_import i db) d = hangs t db d"
  "only_supplied t ds (save_import i db) = only_supplied t ds db" "kept_core t ds db' (save_import i db) = kept_core t ds db' db"
  "same_view t db' (save_import i db) = same_view t db' db"
  by (simp_all add: installed_def hangs_def only_supplied_def kept_core_def same_view_def)

text \<open>A promotion that completes, taken apart.\<close>

lemma completed_promotion:
  assumes "catalog_reachable (now, db)" "now \<le> ce_now env" "promote_catalog_import env u db = Inr (i', db')"
    "get_by ci_id u (cd_imports db) = Some i" "ci_status i = IMPORT_READY" "ci_status i' = IMPORT_COMPLETED"
  obtains c db1 where "run_promotion env i (staged_data i db) db = Inr (c, db1)" "i' = completed_import (ce_now env) c i"
    "db' = save_import i' db1" "rows_ok (staged_data i db)" "at_rest (ce_now env) db"
proof -
  have rest: "at_rest (ce_now env) db" using at_rest_later reachable_rest(1) [OF assms(1)] assms(2) by simp
  have inv: "imports_inv db" using reachable_rest(2) [OF assms(1)] by simp
  from assms(3) inv show thesis
  proof (cases rule: promote_import_cases)
    case (completed j c db1)
    then have "j = i" using assms(4) by simp
    then show thesis using completed that [of c db1] rest by (simp add: ready_ok_def)
  qed (use assms(4-6) in simp_all)
qed

text \<open>
  C10: When the promotion of a READY import completes, the catalog says of every row what the row says
  (its style, its SKU, the open binding of its EPC), and the SKU hangs on an active variant of the
  row's product; after a FULL import nothing else of the tenant is active, after a DELTA import
  everything else of the tenant is as it was, and other tenants see what they saw.
\<close>

theorem completed_import_is_the_catalog:
  assumes "catalog_reachable (now, db)" "now \<le> ce_now env" "promote_catalog_import env u db = Inr (i', db')"
    "get_by ci_id u (cd_imports db) = Some i" "ci_status i = IMPORT_READY" "ci_status i' = IMPORT_COMPLETED"
  shows "list_all (\<lambda>d. installed (ci_tenant i) db' d \<and> hangs (ci_tenant i) db' d) (staged_data i db) \<and>
    (ci_mode i = MODE_FULL \<longrightarrow> only_supplied (ci_tenant i) (staged_data i db) db') \<and>
    (ci_mode i = MODE_DELTA \<longrightarrow> kept_core (ci_tenant i) (staged_data i db) db db') \<and>
    (t \<noteq> ci_tenant i \<longrightarrow> same_view t db db')"
proof -
  obtain c db1 where p: "run_promotion env i (staged_data i db) db = Inr (c, db1)" "db' = save_import i' db1"
    "rows_ok (staged_data i db)" "at_rest (ce_now env) db"
    by (rule completed_promotion [OF assms])
  then have rest: "catalog_ok db" "written_by (ce_now env) (cd_bindings db)" "projection_ok db" by (simp_all add: at_rest_def)
  show ?thesis
    using run_promotion_ok(6-9) [OF p(1) rest p(3)] run_promotion_view [OF p(1) rest p(3)]
    by (simp add: p(2) list_all_iff)
qed

theorem completed_import_is_the_catalog_witness:
  "list_all (\<lambda>d. installed (ci_tenant demo_validated) demo_promoted d \<and> hangs (ci_tenant demo_validated) demo_promoted d)
     (staged_data demo_validated demo_ready)"
  using completed_import_is_the_catalog [OF demo_reachable(2) _ demo_runs(3) demo_import_found(2) demo_status(2,3)] by simp

text \<open>
  Importing again rows that a completed import has installed, in the same mode and at any later
  time, writes nothing to the catalog and counts every style, SKU and tag as unchanged.
\<close>

theorem reimport_changes_nothing:
  assumes "catalog_reachable (now, db)" "now \<le> ce_now env" "promote_catalog_import env u db = Inr (i', db')"
    "get_by ci_id u (cd_imports db) = Some i" "ci_status i = IMPORT_READY" "ci_status i' = IMPORT_COMPLETED"
    "ci_tenant j = ci_tenant i" "ci_mode j = ci_mode i"
  shows "\<exists>styles skus tags. apply_promotion env' j (staged_data i db) later db' =
    Inr (\<lparr>ec_styles = counted_unchanged styles, ec_skus = counted_unchanged skus, ec_bindings = counted_unchanged tags\<rparr>, db')"
proof -
  obtain c db1 where p: "run_promotion env i (staged_data i db) db = Inr (c, db1)" "db' = save_import i' db1"
    "rows_ok (staged_data i db)" "at_rest (ce_now env) db"
    by (rule completed_promotion [OF assms(1-6)])
  then have rest: "catalog_ok db" "written_by (ce_now env) (cd_bindings db)" "projection_ok db" by (simp_all add: at_rest_def)
  note ok = run_promotion_ok [OF p(1) rest p(3)]
  have "catalog_ok db'" using ok(1) by (simp add: p(2) catalog_ok_def)
  then show ?thesis
    using promote_installed [of db' "staged_data i db" j env' later] ok(6,8) assms(7,8) by (auto simp: p(2))
qed

theorem reimport_changes_nothing_witness:
  "\<exists>styles skus tags. apply_promotion (demo_env 9) demo_validated (staged_data demo_validated demo_ready) 9 demo_promoted =
    Inr (\<lparr>ec_styles = counted_unchanged styles, ec_skus = counted_unchanged skus, ec_bindings = counted_unchanged tags\<rparr>,
      demo_promoted)"
  by (rule reimport_changes_nothing [OF demo_reachable(2) _ demo_runs(3) demo_import_found(2) demo_status(2,3)]) simp_all

text \<open>
  C11: The preview of an import that validates is exact: when nothing else commits in between, the
  promotion reports the counts the preview announced, per entity and in the sums of the import.
\<close>

theorem preview_is_what_happens:
  assumes "catalog_reachable (now, db)" "now \<le> ce_now env'" "io_ok (ce_io env)"
    "get_by ci_id u (cd_imports db) = Some i0" "ci_status i0 = IMPORT_VALIDATING"
    "validate_and_stage_catalog_import env u db = Inr (i, db1)" "now \<le> ce_now env" "ce_now env \<le> ce_now env'"
    "promote_catalog_import env' u db1 = Inr (i', db2)" "ci_status i' = IMPORT_COMPLETED"
  shows "\<exists>c. rc_preview (ci_reconciliation i) = Some c \<and> rc_actual (ci_reconciliation i') = Some (ce_now env', c) \<and>
    ci_inserted i' = sum_counts inserted c \<and> ci_updated i' = sum_counts updated c \<and>
    ci_unchanged i' = sum_counts unchanged c \<and> ci_deactivated i' = sum_counts deactivated c"
proof -
  have inv: "imports_inv db" using reachable_rest(2) [OF assms(1)] by simp
  note i0 = imports_invD [OF inv assms(4)]
  obtain content where st: "stage_import env i0 content db = Inr (i, db1)"
    using assms(6,4,5) by (cases rule: validate_import_cases) auto
  have fresh: "list_all (\<lambda>r. \<not> staged_for i0 r) (cd_rows db)" using i0(3) assms(5) by (simp add: import_ok_def)
  have well: "staged_well i0 i db db1" by (rule stage_import_InrD(1) [OF st])
  have step: "catalog_step (now, db) (ce_now env, db1)" by (rule catalog_step.stage [OF assms(3,7,6)])
  have reach: "catalog_reachable (ce_now env, db1)" by (rule reachable_steps [OF assms(1) r_into_rtranclp [where r = catalog_step, OF step]])
  have ident: "ci_id i = u" "ci_mode i = ci_mode i0" "ci_tenant i = ci_tenant i0"
    using well i0(2) by (auto simp: staged_well_def dest: import_identD)
  have "i \<in> set (cd_imports db1)" using well i0(1) by (auto simp: staged_well_def set_update_where)
  moreover have "imports_inv db1" using reachable_rest(2) [OF reach] by simp
  ultimately have found: "get_by ci_id u (cd_imports db1) = Some i"
    using ident(1) by (simp add: imports_inv_def get_by_eq_Some_iff)
  have "ci_status i \<noteq> IMPORT_REJECTED" using assms(9,10) found by (auto simp: promote_catalog_import_def)
  then have ready: "ci_status i = IMPORT_READY" using well by (auto simp: staged_well_def)
  obtain c db3 where p: "run_promotion env' i (staged_data i db1) db1 = Inr (c, db3)" "i' = completed_import (ce_now env') c i"
    "rows_ok (staged_data i db1)" "at_rest (ce_now env') db1"
    by (rule completed_promotion [OF reach assms(8,9) found ready assms(10)])
  have rest: "catalog_ok db1" "written_by (ce_now env') (cd_bindings db1)" using p(4) by (simp_all add: at_rest_def)
  obtain db4 where "apply_promotion env' i (staged_data i db1) (ce_now env') db1 = Inr (c, db4)"
    using p(1) by (auto simp: run_promotion_def andp_Inr_iff)
  then have c: "c = build_preview (ci_mode i) (staged_data i db1) (load_catalog_state (ci_tenant i) db1)"
    by (rule preview_of_promotion [OF _ rest p(3), symmetric])
  have "db1\<lparr>cd_imports := [], cd_rows := [], cd_errors := []\<rparr> = db\<lparr>cd_imports := [], cd_rows := [], cd_errors := []\<rparr>"
    using well by (simp add: staged_well_def)
  from arg_cong [OF this, of "load_catalog_state (ci_tenant i)"]
  have "load_catalog_state (ci_tenant i) db1 = load_catalog_state (ci_tenant i) db" by (simp add: load_catalog_state_def)
  then have "rc_preview (ci_reconciliation i) = Some c"
    using stage_import_ready(2) [OF st assms(3) fresh ready] c ident by simp
  then show ?thesis by (simp add: p(2) completed_import_def)
qed

theorem preview_is_what_happens_witness:
  "\<exists>c. rc_preview (ci_reconciliation demo_validated) = Some c \<and> rc_actual (ci_reconciliation demo_completed) = Some (3, c)"
  using preview_is_what_happens [OF demo_reachable(1) _ _ demo_import_found(1) demo_status(1) demo_runs(2) _ _ demo_runs(3) demo_status(3)]
    demo_io by auto

subsection \<open>Accepting a file twice\<close>

lemma import_by_key_found:
  "imports_inv db \<Longrightarrow> import_by_key tenant key db = Some i \<longleftrightarrow> i \<in> set (cd_imports db) \<and> ci_tenant i = tenant \<and> ci_key i = key"
  unfolding import_by_key_def imports_inv_def import_key_def [abs_def] by (subst get_by_eq_Some_iff) auto

text \<open>
  Sending an accepted file again under the same key returns the same import and changes nothing,
  and a different file or mode under that key is refused.
\<close>

theorem acceptance_is_idempotent:
  assumes "catalog_reachable (now, db)" "now \<le> ce_now env" "accept_catalog_import env tenant up db db = Inr (i, db')"
  shows "(ce_sha256 env' (up_content up) = ce_sha256 env (up_content up) \<longrightarrow>
      accept_catalog_import env' tenant up db' db' = Inr (i, db')) \<and>
    (strip (up_key up') = strip (up_key up) \<and> length (up_content up') \<le> max_catalog_file_bytes \<and>
     (ce_sha256 env' (up_content up') \<noteq> ci_checksum i \<or> up_mode up' \<noteq> ci_mode i) \<longrightarrow>
      accept_catalog_import env' tenant up' db' db' = Inl (ApiError 409 ''idempotency_key_reused''))"
proof -
  have guard: "tenant \<in> set (cd_tenants db)" "8 \<le> length (strip (up_key up))" "length (strip (up_key up)) \<le> 128"
    "length (up_content up) \<le> max_catalog_file_bytes"
    using assms(3) by (auto simp: accept_catalog_import_def Let_def and_then_Inr_iff)
  have "catalog_step (now, db) (ce_now env, db')" by (rule catalog_step.accept [OF assms(2,3)])
  then have "catalog_reachable (ce_now env, db')"
    by (intro reachable_steps [OF assms(1)] r_into_rtranclp [where r = catalog_step])
  then have inv: "imports_inv db'" using reachable_rest(2) by fastforce
  have "import_ident i = (tenant, ci_id i, strip (up_key up), ce_sha256 env (up_content up), up_mode up) \<and>
      i \<in> set (cd_imports db') \<and> cd_tenants db' = cd_tenants db"
    using assms(3)
  proof (cases rule: accept_catalog_import_cases)
    case inserted
    then show ?thesis
      using insert_import_InrD(1,4) [OF inserted]
      by (auto simp: import_ident_def new_import_def insert_import_def Let_def and_then_Inr_iff split: if_splits)
  qed auto
  then have i: "import_by_key tenant (strip (up_key up)) db' = Some i" "ci_checksum i = ce_sha256 env (up_content up)"
    "ci_mode i = up_mode up" "cd_tenants db' = cd_tenants db"
    by (simp_all add: import_by_key_found [OF inv] import_ident_def)
  then show ?thesis
    using guard by (auto simp: accept_catalog_import_def Let_def replayed_import_def ensure_def)
qed

theorem acceptance_is_idempotent_witness:
  "accept_catalog_import (demo_env 5) 1 (upload_of demo_file) demo_accepted demo_accepted = Inr (demo_validating, demo_accepted) \<and>
   accept_catalog_import (demo_env 5) 1 ((upload_of demo_file)\<lparr>up_mode := MODE_DELTA\<rparr>) demo_accepted demo_accepted =
     Inl (ApiError 409 ''idempotency_key_reused'')"
proof -
  have reach: "catalog_reachable (0, empty_catalog [1])" by (auto simp: catalog_reachable_def)
  have mode: "ci_mode demo_validating = MODE_FULL" by code_simp
  have size: "length demo_file \<le> max_catalog_file_bytes" by code_simp
  show ?thesis
    using acceptance_is_idempotent [OF reach _ demo_runs(1), of "demo_env 5" "(upload_of demo_file)\<lparr>up_mode := MODE_DELTA\<rparr>"] mode size
    by (simp add: demo_env_def upload_of_def)
qed

subsection \<open>Imports and their jobs\<close>

lemma select_import_saved:
  assumes "select_one (\<lambda>i. ci_id i = u \<and> ci_tenant i = tenant) is = Some i" "ci_id i' = ci_id i" "ci_tenant i' = ci_tenant i"
  shows "select_one (\<lambda>i. ci_id i = u \<and> ci_tenant i = tenant) (update_where (\<lambda>j. ci_id j = ci_id i') (\<lambda>_. i') is) = Some i'"
  using assms by (induction "is") (auto split: if_splits)

text \<open>
  C33: When a worker that still holds a job reports its failure, the job goes back to the queue and the
  import stays as it is, or, the attempts being used up, the job is quarantined and the import is
  settled in the same transaction; a worker that lost the job changes neither.
\<close>

theorem import_fails_with_its_job:
  assumes "get_by jb_id (jb_id j) (cd_jobs db) = Some k" "jb_attempts k = jb_attempts j"
    "payload_import_id (jb_payload j) = Inr u"
    "select_one (\<lambda>i. ci_id i = u \<and> ci_tenant i = tenant) (cd_imports db) = Some i"
  shows "if jb_status k = JOB_PROCESSING \<and> jb_locked_by k = Some (cw_name w)
    then \<exists>k' i'. get_by jb_id (jb_id j) (cd_jobs (report_catalog_failure w tenant j e db)) = Some k' \<and>
      select_one (\<lambda>i. ci_id i = u \<and> ci_tenant i = tenant) (cd_imports (report_catalog_failure w tenant j e db)) = Some i' \<and>
      (if cw_max_attempts w \<le> jb_attempts j
       then jb_status k' = JOB_QUARANTINED \<and> ci_status i' \<in> {IMPORT_COMPLETED, IMPORT_REJECTED, IMPORT_FAILED}
       else jb_status k' = JOB_PENDING \<and> i' = i)
    else report_catalog_failure w tenant j e db = db"
proof -
  let ?t = "cw_fault_text w e"
  let ?mark = "mark_catalog_import_failed_after_retry_exhaustion tenant (jb_payload j) ?t db"
  define db1 where "db1 = (if cw_max_attempts w \<le> jb_attempts j then snd ?mark else db)"
  have mark: "cd_jobs (snd ?mark) = cd_jobs db \<and>
    (\<exists>i'. select_one (\<lambda>i. ci_id i = u \<and> ci_tenant i = tenant) (cd_imports (snd ?mark)) = Some i' \<and>
      ci_status i' \<in> {IMPORT_COMPLETED, IMPORT_REJECTED, IMPORT_FAILED})"
  proof (cases "ci_status i \<in> {IMPORT_COMPLETED, IMPORT_REJECTED, IMPORT_FAILED}")
    case True
    then show ?thesis using assms(3,4) by (simp add: mark_catalog_import_failed_after_retry_exhaustion_def)
  next
    case False
    have "select_one (\<lambda>i. ci_id i = u \<and> ci_tenant i = tenant) (cd_imports (save_import (exhausted_import ?t i) db)) =
        Some (exhausted_import ?t i)"
      unfolding save_import_def by simp (rule select_import_saved [OF assms(4)], simp_all add: exhausted_import_def)
    then show ?thesis
      using False assms(3,4) by (simp add: mark_catalog_import_failed_after_retry_exhaustion_def) (simp add: exhausted_import_def)
  qed
  then have jobs: "cd_jobs db1 = cd_jobs db" by (simp add: db1_def)
  have report: "report_catalog_failure w tenant j e db =
    (case mark_failed (cw_now w) (jb_id j) (cw_name w) ?t (cw_max_attempts w) (cd_jobs db) of
       (reported, q) \<Rightarrow> if reported then db1\<lparr>cd_jobs := q\<rparr> else db)"
    using jobs by (simp only: report_catalog_failure_def Let_def db1_def [symmetric])
  have "get_by jb_id (jb_id j) (update_where (\<lambda>x. jb_id x = jb_id j) (failed_job n t m) (cd_jobs db)) = Some (failed_job n t m k)" for n t m
    using assms(1) by (subst get_by_update_where) (auto simp: failed_job_def Let_def dest: get_by_SomeD)
  then show ?thesis
    using assms(1,2,4) mark unfolding report
    by (auto simp: mark_failed_def db1_def failed_job_def Let_def)
qed

definition demo_worker :: catalog_worker where
  "demo_worker =
     \<lparr>cw_name = ''w1'', cw_max_attempts = 1, cw_lease_seconds = 60, cw_now = seconds 5, cw_fault_text = (\<lambda>_. ''KeyError''),
      cw_locked = (\<lambda>_. False), cw_tenant_status = (\<lambda>_. Some TENANT_ACTIVE)\<rparr>"

definition demo_claimed :: catalog_db where
  "demo_claimed = snd (claim_catalog_jobs demo_worker 1 demo_accepted)"

definition demo_job :: "catalog_payload job" where
  "demo_job = hd (fst (claim_catalog_jobs demo_worker 1 demo_accepted))"

theorem import_fails_with_its_job_witness:
  "\<exists>k' i'. get_by jb_id (jb_id demo_job) (cd_jobs (report_catalog_failure demo_worker 1 demo_job (RuntimeFault []) demo_claimed)) = Some k' \<and>
     select_one (\<lambda>i. ci_id i = 11 \<and> ci_tenant i = 1)
       (cd_imports (report_catalog_failure demo_worker 1 demo_job (RuntimeFault []) demo_claimed)) = Some i' \<and>
     jb_status k' = JOB_QUARANTINED \<and> ci_status i' \<in> {IMPORT_COMPLETED, IMPORT_REJECTED, IMPORT_FAILED}"
proof -
  have "map_option (\<lambda>k. jb_attempts k = jb_attempts demo_job \<and> jb_status k = JOB_PROCESSING \<and> jb_locked_by k = Some ''w1'')
      (get_by jb_id (jb_id demo_job) (cd_jobs demo_claimed)) = Some True" by code_simp
  then obtain k where k: "get_by jb_id (jb_id demo_job) (cd_jobs demo_claimed) = Some k" "jb_attempts k = jb_attempts demo_job"
    "jb_status k = JOB_PROCESSING" "jb_locked_by k = Some ''w1''" by auto
  have "is_ok (payload_import_id (jb_payload demo_job)) \<and> projr (payload_import_id (jb_payload demo_job)) = 11" by code_simp
  then have u: "payload_import_id (jb_payload demo_job) = Inr 11" by (cases "payload_import_id (jb_payload demo_job)") simp_all
  have "select_one (\<lambda>i. ci_id i = 11 \<and> ci_tenant i = 1) (cd_imports demo_claimed) \<noteq> None"
  proof -
    have "case select_one (\<lambda>i. ci_id i = 11 \<and> ci_tenant i = 1) (cd_imports demo_claimed) of None \<Rightarrow> False | Some _ \<Rightarrow> True" by code_simp
    then show ?thesis by (auto split: option.splits)
  qed
  then obtain i where i: "select_one (\<lambda>i. ci_id i = 11 \<and> ci_tenant i = 1) (cd_imports demo_claimed) = Some i" by blast
  have last: "cw_max_attempts demo_worker \<le> jb_attempts demo_job" "cw_name demo_worker = ''w1''" by code_simp+
  show ?thesis
    using import_fails_with_its_job [OF k(1,2) u i, of demo_worker "RuntimeFault []"] k(3,4) last by simp
qed

text \<open>What the reconciliation leaves, pair by pair.\<close>

lemma reconcile_pair_cases [case_names gone settled failed]:
  obtains "get_by ci_id (ci_id (snd p)) (cd_imports db) = None" "reconcile_pair p db = db"
  | i where "get_by ci_id (ci_id (snd p)) (cd_imports db) = Some i"
      "reconcile_pair p db = db\<lparr>cd_jobs := update_where (\<lambda>k. jb_id k = jb_id (fst p)) completed_job (cd_jobs db)\<rparr>"
  | i reason where "get_by ci_id (ci_id (snd p)) (cd_imports db) = Some i"
      "reconcile_pair p db = save_import (i\<lparr>ci_status := IMPORT_FAILED, ci_failure := reason\<rparr>) db"
proof (cases "get_by ci_id (ci_id (snd p)) (cd_imports db)")
  case None
  then show ?thesis using that(1) by (simp add: reconcile_pair_def)
next
  case (Some i)
  obtain reason where "quarantined_import (jb_last_error (fst p)) i = i\<lparr>ci_status := IMPORT_FAILED, ci_failure := reason\<rparr>"
    by (rule quarantined_import_shape)
  then show ?thesis
    using that(2,3) [OF Some] Some by (cases "ci_status i \<in> {IMPORT_COMPLETED, IMPORT_REJECTED}") (simp_all add: reconcile_pair_def)
qed

lemma reconcile_pair_keeps:
  shows "j' \<in> set (cd_jobs (reconcile_pair p db)) \<Longrightarrow> jb_status j' = JOB_QUARANTINED \<Longrightarrow> j' \<in> set (cd_jobs db)"
    "i' \<in> set (cd_imports (reconcile_pair p db)) \<Longrightarrow> ci_status i' \<noteq> IMPORT_FAILED \<Longrightarrow> i' \<in> set (cd_imports db)"
  by (cases rule: reconcile_pair_cases [of p db]; force simp: completed_job_def save_import_def in_update_where_iff)+

lemma reconcile_pairs:
  "j' \<in> set (cd_jobs (fold reconcile_pair ps db)) \<Longrightarrow> jb_status j' = JOB_QUARANTINED \<Longrightarrow> j' \<in> set (cd_jobs db)"
  "i' \<in> set (cd_imports (fold reconcile_pair ps db)) \<Longrightarrow> ci_status i' \<noteq> IMPORT_FAILED \<Longrightarrow> i' \<in> set (cd_imports db)"
  by (induction ps arbitrary: db) (auto dest: reconcile_pair_keeps)

lemma reconciled_pair:
  assumes "j' \<in> set (cd_jobs (reconcile_pair p db))" "jb_id j' = jb_id (fst p)" "jb_status j' = JOB_QUARANTINED"
    "i' \<in> set (cd_imports (reconcile_pair p db))" "ci_id i' = ci_id (snd p)"
  shows "ci_status i' = IMPORT_FAILED"
proof (cases rule: reconcile_pair_cases [of p db])
  case gone
  have "i' \<in> set (cd_imports db)" using gone(2) assms(4) by simp
  then have "ci_id (snd p) \<in> ci_id ` set (cd_imports db)" using assms(5) [symmetric] by simp
  then show ?thesis using gone(1) unfolding get_by_None_iff by blast
next
  case (settled i)
  then show ?thesis using assms(1-3) by (auto simp: completed_job_def in_update_where_iff)
next
  case (failed i reason)
  then show ?thesis using assms(4,5) get_by_SomeD [OF failed(1)] by (auto simp: save_import_def in_update_where_iff)
qed

lemma reconciled_pairs:
  assumes "p \<in> set ps" "j' \<in> set (cd_jobs (fold reconcile_pair ps db))" "jb_id j' = jb_id (fst p)" "jb_status j' = JOB_QUARANTINED"
    "i' \<in> set (cd_imports (fold reconcile_pair ps db))" "ci_id i' = ci_id (snd p)"
  shows "ci_status i' = IMPORT_FAILED"
proof -
  obtain as bs where ps: "ps = as @ p # bs" using split_list [OF assms(1)] by blast
  let ?db = "fold reconcile_pair as db"
  show ?thesis
  proof (rule ccontr)
    assume n: "ci_status i' \<noteq> IMPORT_FAILED"
    have "j' \<in> set (cd_jobs (reconcile_pair p ?db))" "i' \<in> set (cd_imports (reconcile_pair p ?db))"
      using reconcile_pairs [of _ bs "reconcile_pair p ?db"] assms(2,4,5) n by (simp_all add: ps)
    then show False using reconciled_pair [of j' p ?db i'] assms(3,4,6) n by simp
  qed
qed

text \<open>
  C34: A reconciliation that finds fewer pairs than its limit, with no row locked by another transaction,
  leaves no import of the tenant behind its quarantined job: every import such a job names is FAILED.
\<close>

theorem reconciliation_strands_nothing:
  assumes "reconcile_quarantined_catalog_imports (\<lambda>_. False) tenant limit db = Inr (n, db')" "n < limit"
    "j \<in> set (cd_jobs db')" "jb_tenant j = tenant" "jb_kind j = CATALOG_IMPORT" "jb_status j = JOB_QUARANTINED"
    "i \<in> set (cd_imports db')" "ci_tenant i = tenant" "jb_payload j = Some (str_uuid (ci_id i))"
  shows "ci_status i = IMPORT_FAILED"
proof (rule ccontr)
  assume n: "ci_status i \<noteq> IMPORT_FAILED"
  let ?ps = "stranded_pairs (\<lambda>_. False) tenant limit db"
  have r: "n = length ?ps" "db' = fold reconcile_pair ?ps db"
    using assms(1) by (auto simp: reconcile_quarantined_catalog_imports_def Let_def split: if_splits)
  have "j \<in> set (cd_jobs db)" "i \<in> set (cd_imports db)"
    using reconcile_pairs [of _ ?ps db] assms(3,6,7) n by (simp_all add: r(2))
  then have "(j, i) \<in> set ?ps" using assms(2,4-6,8,9) n unfolding r(1) stranded_pairs_def by auto
  from reconciled_pairs [OF this] show False using assms(3,6,7) n by (simp add: r(2))
qed

definition demo_stranded :: catalog_db where
  "demo_stranded = demo_ready\<lparr>cd_jobs := map (\<lambda>j. j\<lparr>jb_status := JOB_QUARANTINED\<rparr>) (cd_jobs demo_ready)\<rparr>"

theorem reconciliation_strands_nothing_witness:
  "list_all (\<lambda>i. ci_status i = IMPORT_FAILED)
     (cd_imports (snd (projr (reconcile_quarantined_catalog_imports (\<lambda>_. False) 1 100 demo_stranded))))"
proof -
  let ?r = "reconcile_quarantined_catalog_imports (\<lambda>_. False) 1 100 demo_stranded"
  have "is_ok ?r" by code_simp
  then have r: "?r = Inr (fst (projr ?r), snd (projr ?r))" by (cases ?r) simp_all
  have few: "fst (projr ?r) < 100" by code_simp
  have "list_all (\<lambda>i. list_ex (\<lambda>j. jb_tenant j = 1 \<and> jb_kind j = CATALOG_IMPORT \<and> jb_status j = JOB_QUARANTINED \<and>
      ci_tenant i = 1 \<and> jb_payload j = Some (str_uuid (ci_id i))) (cd_jobs (snd (projr ?r)))) (cd_imports (snd (projr ?r)))"
    by code_simp
  then show ?thesis
    using reconciliation_strands_nothing [OF r few] by (fastforce simp: list_all_iff list_ex_iff)
qed

subsection \<open>Where the code falls short\<close>

lemma malformed_first_record:
  assumes "content \<noteq> []" "length content \<le> max_catalog_file_bytes" "decode_utf8_sig io content = Inr s" "CHR 0x00 \<notin> set s"
    "read_csv s = ([header], Some (n, e))" "header_issues (map (\<lambda>h. str_lower (strip h)) (snd header)) = []"
  shows "pa_rows (parse_catalog_csv io content) = []"
    "invalid_row_numbers (pa_issues (parse_catalog_csv io content)) = [n]"
  using assms
  by (simp_all add: parse_catalog_csv_def parse_data_def validate_batch_consistency_def data_issues_def invalid_row_numbers_def
      map_filter_simps)

text \<open>
  C35: A file whose first data record is malformed CSV (a quote out of place, say) is never rejected
  with its issue: the worker counts minus one valid rows, the CHECK constraint on the import refuses
  the write, the job fails and the database stays as it was, on every attempt.
\<close>

theorem malformed_first_record_is_never_reported:
  assumes "get_by ci_id u (cd_imports db) = Some i" "ci_status i = IMPORT_VALIDATING"
    "select_one (\<lambda>s. so_tenant s = ci_tenant i \<and> so_import s = ci_id i) (cd_sources db) = Some source"
    "ce_sha256 env (so_content source) = ci_checksum i" "so_content source \<noteq> []"
    "length (so_content source) \<le> max_catalog_file_bytes" "decode_utf8_sig (ce_io env) (so_content source) = Inr s"
    "CHR 0x00 \<notin> set s" "read_csv s = ([header], Some (n, e))"
    "header_issues (map (\<lambda>h. str_lower (strip h)) (snd header)) = []"
  shows "process_catalog_import_job env (Some (str_uuid u)) db = (Some (IntegrityError ''catalog import staging''), db)"
proof -
  note parse = malformed_first_record [OF assms(5-10)]
  have "stage_import env i (so_content source) db = Inl (IntegrityError ''catalog import staging'')"
    using parse by (simp add: stage_import_def Let_def append_database_conflicts_def all_issues_def staged_import_def import_checks_def)
  then have "validate_and_stage_catalog_import env u db = Inl (IntegrityError ''catalog import staging'')"
    using assms(1-4) by (simp add: validate_and_stage_catalog_import_def)
  then show ?thesis
    by (simp add: process_catalog_import_job_def payload_import_id_def parse_str_uuid)
qed

definition demo_malformed :: string where
  "demo_malformed = csv_file [[CHR 0x22, CHR ''T'', CHR 0x22, CHR ''1'']]"

definition demo_malformed_db :: catalog_db where
  "demo_malformed_db = snd (projr (accepted_file demo_malformed))"

theorem malformed_first_record_is_never_reported_witness:
  "process_catalog_import_job (demo_env 2) (Some (str_uuid 11)) demo_malformed_db =
     (Some (IntegrityError ''catalog import staging''), demo_malformed_db)"
proof -
  let ?i = "hd (cd_imports demo_malformed_db)" and ?s = "hd (cd_sources demo_malformed_db)"
  have "map_option (\<lambda>i. i = ?i) (get_by ci_id 11 (cd_imports demo_malformed_db)) = Some True" by code_simp
  then have i: "get_by ci_id 11 (cd_imports demo_malformed_db) = Some ?i" by auto
  have "map_option (\<lambda>s. s = ?s) (select_one (\<lambda>s. so_tenant s = ci_tenant ?i \<and> so_import s = ci_id ?i) (cd_sources demo_malformed_db)) =
    Some True" by code_simp
  then have s: "select_one (\<lambda>s. so_tenant s = ci_tenant ?i \<and> so_import s = ci_id ?i) (cd_sources demo_malformed_db) = Some ?s" by auto
  have facts: "ci_status ?i = IMPORT_VALIDATING" "ce_sha256 (demo_env 2) (so_content ?s) = ci_checksum ?i" "so_content ?s \<noteq> []"
    "length (so_content ?s) \<le> max_catalog_file_bytes" "CHR 0x00 \<notin> set (so_content ?s)" by code_simp+
  have csv: "read_csv (so_content ?s) = ([(1, required_headers)], Some (2, ValueError ''delimiter expected after quote''))"
    by code_simp
  have headers: "header_issues (map (\<lambda>h. str_lower (strip h)) (snd (1::int, required_headers))) = []" by code_simp
  show ?thesis
    by (rule malformed_first_record_is_never_reported [OF i facts(1) s facts(2-4) _ facts(5) csv headers])
      (simp add: demo_env_def plain_io_def)
qed








end
