(* ===== verification/Identity.thy ===== *)
theory Identity
  imports Access Device_Auth "HOL-Library.Option_ord"
begin

text \<open>
  Users, logins and refresh sessions, \<open>services/identity.py\<close> with the row types of
  \<open>models/identity.py\<close>.  Sessions of the database are \<open>TenantSession\<close>s: a login code is resolved
  first, and every later query sees the rows of that tenant only.  The environment of a call holds what
  the code takes from outside: clocks, fresh identifiers and secrets, SHA-256, password hashing, and
  whether the database refuses the writes because of a concurrent transaction.
\<close>

subsection \<open>The environment of a call\<close>

record identity_env =
  ie_now :: timestamp
  ie_db_now :: timestamp
  ie_user_id :: uuid
  ie_audit_id :: uuid
  ie_session_id :: uuid
  ie_family_id :: uuid
  ie_secret :: string
  ie_digest :: "string \<Rightarrow> string"
  ie_hash_password :: "string \<Rightarrow> string"
  ie_verify :: "string \<Rightarrow> string \<Rightarrow> (bool \<times> string option) option"
  ie_dummy_hash :: string
  ie_conflict :: bool

text \<open>
  A library that raises on the hash counts as a failed verification, and a user that does not exist is
  verified against a dummy hash.
\<close>

definition verify_password_and_update ::
    "identity_env \<Rightarrow> string \<Rightarrow> string option \<Rightarrow> bool \<times> string option" where
  "verify_password_and_update env password encoded =
     (let candidate = (case encoded of None \<Rightarrow> ie_dummy_hash env
                       | Some h \<Rightarrow> if h = [] then ie_dummy_hash env else h)
      in case ie_verify env password candidate of None \<Rightarrow> (False, None) | Some r \<Rightarrow> r)"

text \<open>
  \<open>abacus_resolve_login_tenant\<close>: the active tenant with this code; \<open>btrim\<close> removes blanks at both ends.
\<close>

definition btrim :: "string \<Rightarrow> string" where
  "btrim s =
     (let blank = (\<lambda>c. c = CHR '' '') in rev (dropWhile blank (rev (dropWhile blank s))))"

definition resolve_login_tenant :: "string \<Rightarrow> identity_db \<Rightarrow> tenant_row option" where
  "resolve_login_tenant code db =
     select_one (\<lambda>t. tn_code t = str_lower (btrim code) \<and> tn_status t = TENANT_ACTIVE) (id_tenants db)"

definition find_user :: "uuid \<Rightarrow> uuid \<Rightarrow> identity_db \<Rightarrow> user_row option" where
  "find_user tenant user db = select_one (\<lambda>u. us_id u = user \<and> us_tenant u = tenant) (id_users db)"

definition find_email :: "uuid \<Rightarrow> string \<Rightarrow> identity_db \<Rightarrow> user_row option" where
  "find_email tenant email db =
     select_one (\<lambda>u. us_tenant u = tenant \<and> us_email u = email) (id_users db)"

definition write_user :: "user_row \<Rightarrow> identity_db \<Rightarrow> identity_db" where
  "write_user user db =
     db\<lparr>id_users := update_where (\<lambda>u. us_id u = us_id user) (\<lambda>_. user) (id_users db)\<rparr>"

definition add_audit_record ::
    "identity_env \<Rightarrow> uuid \<Rightarrow> uuid option \<Rightarrow> audit_action \<Rightarrow> uuid option \<Rightarrow> json_object
       \<Rightarrow> identity_db \<Rightarrow> identity_db" where
  "add_audit_record env tenant actor action target details db =
     db\<lparr>id_audit := id_audit db @
          [\<lparr>au_id = ie_audit_id env, au_tenant = tenant, au_actor = actor, au_action = action,
            au_target = target, au_details = details, au_occurred_at = ie_db_now env\<rparr>]\<rparr>"

definition load_grants :: "uuid \<Rightarrow> uuid \<Rightarrow> identity_db \<Rightarrow> access_grant list" where
  "load_grants tenant user db =
     sort_key grant_order (filter (\<lambda>g. ag_tenant g = tenant \<and> ag_user g = user) (id_grants db))"

subsection \<open>Logging in\<close>

definition invalid_credentials :: fault where
  "invalid_credentials = ApiError 401 ''invalid_credentials''"

definition authenticate_user ::
    "identity_env \<Rightarrow> string \<Rightarrow> string \<Rightarrow> string \<Rightarrow> identity_db \<Rightarrow> user_row outcome \<times> identity_db" where
  "authenticate_user env tenant_code email password db =
     (let tenant = resolve_login_tenant tenant_code db;
          user = Option.bind tenant (\<lambda>t. find_email (tn_id t) email db);
          (verified, replacement) =
            verify_password_and_update env password (map_option us_password_hash user)
      in case (tenant, user) of
           (Some t, Some u) \<Rightarrow>
             if tn_status t = TENANT_ACTIVE \<and> us_status u = USER_ACTIVE \<and> verified then
               let u' = u\<lparr>us_password_hash := case_option (us_password_hash u) id replacement,
                          us_last_login_at := Some (ie_now env)\<rparr>
               in (Inr u',
                   add_audit_record env (us_tenant u) (Some (us_id u)) LOGIN_SUCCEEDED (Some (us_id u))
                     [(''email'', JString (us_email u))] (write_user u' db))
             else
               (Inl invalid_credentials,
                add_audit_record env (tn_id t) (Some (us_id u)) LOGIN_FAILED (Some (us_id u))
                  [(''email'', JString email), (''result'', JString ''denied'')] db)
         | (Some t, None) \<Rightarrow>
             (Inl invalid_credentials,
              add_audit_record env (tn_id t) None LOGIN_FAILED None
                [(''email'', JString email), (''result'', JString ''denied'')] db)
         | (None, _) \<Rightarrow> (Inl invalid_credentials, db))"

subsection \<open>Refresh sessions\<close>

definition invalid_refresh_token :: "bool \<Rightarrow> fault" where
  "invalid_refresh_token reused =
     ApiError 401 (if reused then ''refresh_token_reused'' else ''invalid_refresh_token'')"

definition parse_refresh_token :: "string \<Rightarrow> (uuid \<times> string) outcome" where
  "parse_refresh_token raw =
     (if CHR ''.'' \<notin> set raw then Inl (invalid_refresh_token False)
      else
        let raw_id = takeWhile (\<lambda>c. c \<noteq> CHR ''.'') raw;
            secret = tl (dropWhile (\<lambda>c. c \<noteq> CHR ''.'') raw)
        in case parse_uuid raw_id of
             None \<Rightarrow> Inl (invalid_refresh_token False)
           | Some session_id \<Rightarrow>
               if length secret < 32 then Inl (invalid_refresh_token False)
               else Inr (session_id, secret))"

definition new_auth_session_token ::
    "identity_env \<Rightarrow> user_row \<Rightarrow> timestamp \<Rightarrow> uuid option \<Rightarrow> auth_session \<times> string" where
  "new_auth_session_token env user lifetime family =
     (\<lparr>se_id = ie_session_id env, se_tenant = us_tenant user, se_user = us_id user,
       se_family = case_option (ie_family_id env) id family,
       se_refresh_hash = ie_digest env (ie_secret env), se_token_version = us_token_version user,
       se_expires_at = ie_now env + lifetime, se_last_used_at = None, se_rotated_at = None,
       se_revoked_at = None\<rparr>,
      str_uuid (ie_session_id env) @ ''.'' @ ie_secret env)"

text \<open>The primary key and the unique hash are checked when the session is flushed.\<close>

definition insert_session :: "auth_session \<Rightarrow> identity_db \<Rightarrow> identity_db outcome" where
  "insert_session s db =
     (if se_id s \<in> se_id ` set (id_sessions db) then Inl (IntegrityError ''auth_sessions_pkey'')
      else if se_refresh_hash s \<in> se_refresh_hash ` set (id_sessions db)
      then Inl (IntegrityError ''uq_auth_sessions_refresh_hash'')
      else if se_token_version s < 1 then Inl (IntegrityError ''ck_auth_sessions_token_version'')
      else Inr (db\<lparr>id_sessions := id_sessions db @ [s]\<rparr>))"

definition create_auth_session ::
    "identity_env \<Rightarrow> user_row \<Rightarrow> timestamp \<Rightarrow> identity_db
       \<Rightarrow> (auth_session \<times> string) outcome \<times> identity_db" where
  "create_auth_session env user lifetime db =
     (let token = new_auth_session_token env user lifetime None
      in case insert_session (fst token) db of
           Inl e \<Rightarrow> (Inl e, db)
         | Inr db' \<Rightarrow> (Inr token, db'))"

definition update_session :: "uuid \<Rightarrow> (auth_session \<Rightarrow> auth_session) \<Rightarrow> identity_db \<Rightarrow> identity_db" where
  "update_session session_id f db =
     db\<lparr>id_sessions := update_where (\<lambda>s. se_id s = session_id) f (id_sessions db)\<rparr>"

definition revoke_family :: "uuid \<Rightarrow> uuid \<Rightarrow> timestamp \<Rightarrow> identity_db \<Rightarrow> identity_db" where
  "revoke_family tenant family now db =
     db\<lparr>id_sessions :=
          update_where (\<lambda>s. se_tenant s = tenant \<and> se_family s = family \<and> se_revoked_at s = None)
            (\<lambda>s. s\<lparr>se_revoked_at := Some now\<rparr>) (id_sessions db)\<rparr>"

text \<open>
  The row of the session is locked first, then the row of its user, so an exchange is one step.  The
  session found is one of the tenant the code resolves to, whose rows alone are visible.
\<close>

definition rotate_auth_session ::
    "identity_env \<Rightarrow> string \<Rightarrow> string \<Rightarrow> timestamp \<Rightarrow> identity_db
       \<Rightarrow> (user_row \<times> auth_session \<times> string) outcome \<times> identity_db" where
  "rotate_auth_session env tenant_code raw_token lifetime db =
     (case parse_refresh_token raw_token of
        Inl e \<Rightarrow> (Inl e, db)
      | Inr (session_id, secret) \<Rightarrow>
     (case resolve_login_tenant tenant_code db of
        None \<Rightarrow> (Inl (invalid_refresh_token False), db)
      | Some t \<Rightarrow>
     (case select_one (\<lambda>s. se_id s = session_id \<and> se_tenant s = tn_id t) (id_sessions db) of
        None \<Rightarrow> (Inl (invalid_refresh_token False), db)
      | Some s \<Rightarrow>
          if ie_digest env secret \<noteq> se_refresh_hash s then (Inl (invalid_refresh_token False), db)
          else if se_rotated_at s \<noteq> None then
            (Inl (invalid_refresh_token True), revoke_family (se_tenant s) (se_family s) (ie_now env) db)
          else if se_revoked_at s \<noteq> None \<or> se_expires_at s \<le> ie_now env then
            (Inl (invalid_refresh_token False), db)
          else
            let refused = (Inl (invalid_refresh_token False),
                  update_session session_id (\<lambda>s. s\<lparr>se_revoked_at := Some (ie_now env)\<rparr>) db)
            in case find_user (se_tenant s) (se_user s) db of
                 None \<Rightarrow> refused
               | Some u \<Rightarrow>
                   if us_status u \<noteq> USER_ACTIVE \<or> tenant_status_in db (se_tenant s) \<noteq> Some TENANT_ACTIVE \<or>
                      us_token_version u \<noteq> se_token_version s
                   then refused
                   else
                     let db1 = update_session session_id
                           (\<lambda>s. s\<lparr>se_rotated_at := Some (ie_now env), se_last_used_at := Some (ie_now env)\<rparr>) db;
                         replacement = new_auth_session_token env u lifetime (Some (se_family s))
                     in case insert_session (fst replacement) db1 of
                          Inl e \<Rightarrow> (Inl e, db)
                        | Inr db2 \<Rightarrow> (Inr (u, replacement), db2))))"

definition revoke_auth_session :: "timestamp \<Rightarrow> principal \<Rightarrow> identity_db \<Rightarrow> identity_db" where
  "revoke_auth_session now p db =
     (case pr_session p of
        None \<Rightarrow>
          (case find_user (pr_tenant p) (pr_user p) db of
             None \<Rightarrow> db
           | Some u \<Rightarrow> write_user (u\<lparr>us_token_version := us_token_version u + 1\<rparr>) db)
      | Some session_id \<Rightarrow>
          (case select_one (\<lambda>s. se_tenant s = pr_tenant p \<and> se_id s = session_id \<and> se_user s = pr_user p)
                  (id_sessions db) of
             None \<Rightarrow> db
           | Some s \<Rightarrow>
               if se_revoked_at s \<noteq> None then db
               else update_session session_id (\<lambda>s. s\<lparr>se_revoked_at := Some now\<rparr>) db))"

subsection \<open>Roles, stores and the legacy grants that mirror them\<close>

instantiation legacy_role :: linorder
begin

definition less_eq_legacy_role :: "legacy_role \<Rightarrow> legacy_role \<Rightarrow> bool" where
  "less_eq_legacy_role a b \<longleftrightarrow> legacy_value a \<le> legacy_value b"

definition less_legacy_role :: "legacy_role \<Rightarrow> legacy_role \<Rightarrow> bool" where
  "less_legacy_role a b \<longleftrightarrow> legacy_value a < legacy_value b"

instance
proof
  fix a b :: legacy_role
  show "a \<le> b \<Longrightarrow> b \<le> a \<Longrightarrow> a = b"
    by (cases a; cases b) (auto simp: less_eq_legacy_role_def)
qed (auto simp: less_eq_legacy_role_def less_legacy_role_def)

end

text \<open>
  A \<open>frozenset\<close> is a set.  \<open>sorted(..., key=value)\<close> lists one in the order of the instances.
\<close>

type_synonym grant_spec = "legacy_role \<times> uuid option"

record canonical_access =
  cx_roles :: "canonical_role set"
  cx_stores :: "uuid set"
  cx_roles_missing :: bool
  cx_stores_missing :: bool
  cx_grants :: "access_grant list"

definition role_rows :: "uuid \<Rightarrow> uuid \<Rightarrow> identity_db \<Rightarrow> canonical_role set" where
  "role_rows tenant user db =
     set (map ur_role (filter (\<lambda>r. ur_tenant r = tenant \<and> ur_user r = user) (id_roles db)))"

definition assignment_rows :: "uuid \<Rightarrow> uuid \<Rightarrow> identity_db \<Rightarrow> uuid set" where
  "assignment_rows tenant user db =
     set (map ua_store (filter (\<lambda>a. ua_tenant a = tenant \<and> ua_user a = user) (id_assignments db)))"

definition load_canonical_access :: "uuid \<Rightarrow> uuid \<Rightarrow> identity_db \<Rightarrow> canonical_access" where
  "load_canonical_access tenant user db =
     (let roles = role_rows tenant user db; store_ids = assignment_rows tenant user db;
          grants = load_grants tenant user db
      in \<lparr>cx_roles = (if roles \<noteq> {} then roles else set (map (\<lambda>g. canonical_of_legacy (ag_role g)) grants)),
          cx_stores = (if store_ids \<noteq> {} then store_ids else set (List.map_filter ag_store grants)),
          cx_roles_missing = (roles = {}), cx_stores_missing = (store_ids = {}), cx_grants = grants\<rparr>)"

text \<open>
  A store is granted to a manager if the user is one, and otherwise to an associate if the user is an
  associate or a corporate user.
\<close>

definition compatibility_grant_specs :: "canonical_role set \<Rightarrow> uuid set \<Rightarrow> grant_spec set" where
  "compatibility_grant_specs roles store_ids =
     (if TENANT_ADMIN \<in> roles then {(CORPORATE_ADMIN, None)} else {}) \<union>
     (if STORE_MANAGER \<in> roles then (\<lambda>s. (LEGACY_STORE_MANAGER, Some s)) ` store_ids
      else if STORE_ASSOCIATE \<in> roles \<or> CORPORATE_USER \<in> roles
      then (\<lambda>s. (LEGACY_STORE_ASSOCIATE, Some s)) ` store_ids
      else {})"

definition persist_role_rows :: "uuid \<Rightarrow> uuid \<Rightarrow> canonical_role set \<Rightarrow> identity_db \<Rightarrow> identity_db" where
  "persist_role_rows tenant user roles db =
     db\<lparr>id_roles :=
          filter (\<lambda>r. \<not> (ur_tenant r = tenant \<and> ur_user r = user)) (id_roles db) @
          map (\<lambda>role. \<lparr>ur_tenant = tenant, ur_user = user, ur_role = role\<rparr>) (sorted_list_of_set roles)\<rparr>"

definition persist_assignment_rows :: "uuid \<Rightarrow> uuid \<Rightarrow> uuid set \<Rightarrow> identity_db \<Rightarrow> identity_db" where
  "persist_assignment_rows tenant user store_ids db =
     db\<lparr>id_assignments :=
          filter (\<lambda>a. \<not> (ua_tenant a = tenant \<and> ua_user a = user)) (id_assignments db) @
          map (\<lambda>store. \<lparr>ua_tenant = tenant, ua_user = user, ua_store = store\<rparr>) (sorted_list_of_set store_ids)\<rparr>"

definition delete_grants :: "uuid \<Rightarrow> uuid \<Rightarrow> identity_db \<Rightarrow> identity_db" where
  "delete_grants tenant user db =
     db\<lparr>id_grants := filter (\<lambda>g. \<not> (ag_tenant g = tenant \<and> ag_user g = user)) (id_grants db)\<rparr>"

definition persist_compatibility_grants ::
    "uuid \<Rightarrow> uuid \<Rightarrow> grant_spec set \<Rightarrow> identity_db \<Rightarrow> identity_db" where
  "persist_compatibility_grants tenant user specs db =
     (let db1 = delete_grants tenant user db
      in db1\<lparr>id_grants := id_grants db1 @
               map (\<lambda>(role, store). \<lparr>ag_tenant = tenant, ag_user = user, ag_role = role, ag_store = store\<rparr>)
                 (sorted_list_of_set specs)\<rparr>)"
end
