(* ===== verification/User_Admin.thy ===== *)
theory User_Admin
  imports Identity
begin

text \<open>
  User administration of \<open>services/identity.py\<close> with the request schemas of \<open>schemas/identity.py\<close>:
  creating, listing and suspending users, replacing their roles and stores, and the two bootstrap
  commands.  Every access change locks the row of its user, and those that could remove an
  administrator lock the tenant first, so each call is one step.  A manager's session sees only the
  stores of its pinned scope.
\<close>

subsection \<open>Requests\<close>

record user_create =
  uc_email :: string
  uc_display_name :: string
  uc_password :: string
  uc_roles :: "canonical_role list"
  uc_store_ids :: "uuid list"

record access_replace =
  ax_roles :: "canonical_role list"
  ax_store_ids :: "uuid list"

definition normalize_email :: "string \<Rightarrow> string" where
  "normalize_email value = str_lower (strip value)"

definition normalize_display_name :: "string \<Rightarrow> string outcome" where
  "normalize_display_name value =
     (if strip value = [] then Inl (ValueError ''display_name cannot be blank'') else Inr (strip value))"

definition reject_duplicate_roles :: "canonical_role list \<Rightarrow> canonical_role list outcome" where
  "reject_duplicate_roles roles =
     (if distinct roles then Inr roles else Inl (ValueError ''roles cannot contain duplicates''))"

definition reject_duplicate_store_ids :: "uuid list \<Rightarrow> uuid list outcome" where
  "reject_duplicate_store_ids ids =
     (if distinct ids then Inr ids else Inl (ValueError ''store_ids cannot contain duplicates''))"

definition has_store_role :: "canonical_role set \<Rightarrow> bool" where
  "has_store_role roles \<longleftrightarrow> STORE_ASSOCIATE \<in> roles \<or> STORE_MANAGER \<in> roles"

definition validate_access_pair :: "canonical_role list \<Rightarrow> uuid list \<Rightarrow> unit outcome" where
  "validate_access_pair roles ids =
     and_then (reject_duplicate_roles roles) (\<lambda>_.
     and_then (reject_duplicate_store_ids ids) (\<lambda>_.
     and_then (ensure (has_store_role (set roles) \<longrightarrow> ids \<noteq> [])
       (ValueError ''store-scoped roles require at least one store_id'')) (\<lambda>_.
     ensure (ids = [] \<or> has_store_role (set roles))
       (ValueError ''store_ids require a store-scoped role''))))"

definition validate_access_replace :: "access_replace \<Rightarrow> access_replace outcome" where
  "validate_access_replace r =
     and_then (ensure (1 \<le> length (ax_roles r) \<and> length (ax_roles r) \<le> 4) (ValueError ''roles'')) (\<lambda>_.
     and_then (ensure (length (ax_store_ids r) \<le> 500) (ValueError ''store_ids'')) (\<lambda>_.
     and_then (validate_access_pair (ax_roles r) (ax_store_ids r)) (\<lambda>_. Inr r)))"

definition validate_roles_replace :: "canonical_role list \<Rightarrow> canonical_role list outcome" where
  "validate_roles_replace roles =
     and_then (ensure (1 \<le> length roles \<and> length roles \<le> 4) (ValueError ''roles'')) (\<lambda>_.
     reject_duplicate_roles roles)"

definition validate_assignments_replace :: "uuid list \<Rightarrow> uuid list outcome" where
  "validate_assignments_replace ids =
     and_then (ensure (length ids \<le> 500) (ValueError ''store_ids'')) (\<lambda>_. reject_duplicate_store_ids ids)"

text \<open>\<open>parse_email\<close> is the check of \<open>EmailStr\<close>, which returns the address as it normalizes it.\<close>

definition validate_user_create ::
    "(string \<Rightarrow> string option) \<Rightarrow> user_create \<Rightarrow> user_create outcome" where
  "validate_user_create parse_email r =
     (case parse_email (uc_email r) of
        None \<Rightarrow> Inl (ValueError ''email'')
      | Some email \<Rightarrow>
          and_then (ensure (1 \<le> length (uc_display_name r) \<and> length (uc_display_name r) \<le> 255)
            (ValueError ''display_name'')) (\<lambda>_.
          and_then (normalize_display_name (uc_display_name r)) (\<lambda>name.
          and_then (ensure (12 \<le> length (uc_password r) \<and> length (uc_password r) \<le> 128)
            (ValueError ''password'')) (\<lambda>_.
          and_then (ensure (1 \<le> length (uc_roles r) \<and> length (uc_roles r) \<le> 4) (ValueError ''roles'')) (\<lambda>_.
          and_then (ensure (length (uc_store_ids r) \<le> 500) (ValueError ''store_ids'')) (\<lambda>_.
          and_then (validate_access_pair (uc_roles r) (uc_store_ids r)) (\<lambda>_.
          Inr (r\<lparr>uc_email := normalize_email email, uc_display_name := name\<rparr>))))))))"

text \<open>The request of the bootstrap command, with legacy role assignments.\<close>

record legacy_user_create =
  lc_email :: string
  lc_display_name :: string
  lc_password :: string
  lc_assignments :: "(legacy_role \<times> uuid option) list"

definition validate_role_scope_pair :: "legacy_role \<times> uuid option \<Rightarrow> unit outcome" where
  "validate_role_scope_pair a =
     (case a of (role, store) \<Rightarrow>
        if role = CORPORATE_ADMIN \<and> store \<noteq> None then Inl (ValueError ''CORPORATE_ADMIN must use tenant scope'')
        else if role \<noteq> CORPORATE_ADMIN \<and> store = None then Inl (ValueError ''require store_id'')
        else Inr ())"

definition validate_legacy_user_create ::
    "(string \<Rightarrow> string option) \<Rightarrow> legacy_user_create \<Rightarrow> legacy_user_create outcome" where
  "validate_legacy_user_create parse_email r =
     (case parse_email (lc_email r) of
        None \<Rightarrow> Inl (ValueError ''email'')
      | Some email \<Rightarrow>
          and_then (ensure (1 \<le> length (lc_display_name r) \<and> length (lc_display_name r) \<le> 255)
            (ValueError ''display_name'')) (\<lambda>_.
          and_then (normalize_display_name (lc_display_name r)) (\<lambda>name.
          and_then (ensure (12 \<le> length (lc_password r) \<and> length (lc_password r) \<le> 128)
            (ValueError ''password'')) (\<lambda>_.
          and_then (ensure (1 \<le> length (lc_assignments r) \<and> length (lc_assignments r) \<le> 500)
            (ValueError ''role_assignments'')) (\<lambda>_.
          and_then (map_outcome validate_role_scope_pair (lc_assignments r)) (\<lambda>_.
          and_then (ensure (distinct (lc_assignments r))
            (ValueError ''role_assignments cannot contain duplicates'')) (\<lambda>_.
          Inr (r\<lparr>lc_email := normalize_email email, lc_display_name := name\<rparr>))))))))"

record login_request =
  lr_tenant_code :: string
  lr_email :: string
  lr_password :: string

text \<open>\<open>TENANT_CODE_PATTERN\<close>: a lower-case letter or digit, then 1 to 63 of those, \<open>_\<close> and \<open>-\<close>.\<close>

definition tenant_code_pattern :: "string \<Rightarrow> bool" where
  "tenant_code_pattern s \<longleftrightarrow>
     (let alnum = (\<lambda>c. (CHR ''a'' \<le> c \<and> c \<le> CHR ''z'') \<or> (CHR ''0'' \<le> c \<and> c \<le> CHR ''9''))
      in case s of
           [] \<Rightarrow> False
         | c # cs \<Rightarrow> alnum c \<and> 1 \<le> length cs \<and> length cs \<le> 63 \<and>
             list_all (\<lambda>c. alnum c \<or> c = CHR ''_'' \<or> c = CHR ''-'') cs)"

definition validate_login_request ::
    "(string \<Rightarrow> string option) \<Rightarrow> login_request \<Rightarrow> login_request outcome" where
  "validate_login_request parse_email r =
     (if \<not> (2 \<le> length (lr_tenant_code r) \<and> length (lr_tenant_code r) \<le> 64 \<and>
            tenant_code_pattern (lr_tenant_code r))
      then Inl (ValueError ''tenant_code'')
      else case parse_email (lr_email r) of
        None \<Rightarrow> Inl (ValueError ''email'')
      | Some email \<Rightarrow>
          if \<not> (1 \<le> length (lr_password r) \<and> length (lr_password r) \<le> 128) then Inl (ValueError ''password'')
          else Inr (r\<lparr>lr_tenant_code := str_lower (strip (lr_tenant_code r)), lr_email := normalize_email email\<rparr>))"

subsection \<open>Creating a user\<close>

record user_record =
  rc_user :: user_row
  rc_grants :: "access_grant list"

record canonical_user_access =
  ca_user_id :: uuid
  ca_roles :: "canonical_role list"
  ca_store_ids :: "uuid list"

record canonical_user_record =
  cu_user :: user_row
  cu_roles :: "canonical_role list"
  cu_store_ids :: "uuid list"

definition insert_user :: "user_row \<Rightarrow> identity_db \<Rightarrow> identity_db outcome" where
  "insert_user u db =
     (if us_id u \<in> us_id ` set (id_users db) then Inl (IntegrityError ''users_pkey'')
      else if find_email (us_tenant u) (us_email u) db \<noteq> None then Inl (IntegrityError ''uq_users_tenant_email'')
      else if us_email u \<noteq> str_lower (us_email u) then Inl (IntegrityError ''ck_users_email_lowercase'')
      else if us_token_version u < 1 then Inl (IntegrityError ''ck_users_token_version_positive'')
      else Inr (db\<lparr>id_users := id_users db @ [u]\<rparr>))"

definition new_user :: "identity_env \<Rightarrow> uuid \<Rightarrow> string \<Rightarrow> string \<Rightarrow> string \<Rightarrow> user_row" where
  "new_user env tenant email name password =
     \<lparr>us_id = ie_user_id env, us_tenant = tenant, us_email = email, us_display_name = name,
      us_password_hash = ie_hash_password env password, us_status = USER_ACTIVE, us_token_version = 1,
      us_last_login_at = None\<rparr>"

definition tenant_stores :: "store_scope \<Rightarrow> uuid \<Rightarrow> (store_status \<Rightarrow> bool) \<Rightarrow> uuid set \<Rightarrow> identity_db \<Rightarrow> uuid set" where
  "tenant_stores scope tenant P ids db =
     set (map st_id (filter (\<lambda>s. st_tenant s = tenant \<and> st_id s \<in> ids \<and> P (st_status s) \<and>
        scope_allows scope (st_id s)) (id_stores db)))"

definition json_strings :: "string list \<Rightarrow> json" where
  "json_strings xs = JArray (map JString xs)"

definition json_roles :: "canonical_role set \<Rightarrow> json" where
  "json_roles roles = json_strings (map role_value (sorted_list_of_set roles))"

definition json_stores :: "uuid set \<Rightarrow> json" where
  "json_stores ids = json_strings (map str_uuid (sorted_list_of_set ids))"

definition managers_may_create :: "principal \<Rightarrow> canonical_role set \<Rightarrow> uuid set \<Rightarrow> bool" where
  "managers_may_create p roles ids \<longleftrightarrow>
     roles = {STORE_ASSOCIATE} \<and> ids \<subseteq> set (store_ids_for_permission p USERS_CREATE)"

text \<open>
  The checks read \<open>seen\<close>, the database as other transactions had left it then; the row is inserted into
  \<open>db\<close>, and a conflict found there undoes everything.
\<close>

definition create_canonical_user ::
    "identity_env \<Rightarrow> store_scope \<Rightarrow> principal \<Rightarrow> user_create \<Rightarrow> identity_db \<Rightarrow> identity_db
       \<Rightarrow> canonical_user_record outcome \<times> identity_db" where
  "create_canonical_user env scope p request seen db =
     (let roles = set (uc_roles request); ids = set (uc_store_ids request)
      in if \<not> has_tenant_permission p USERS_CREATE \<and> \<not> managers_may_create p roles ids
         then (Inl (ApiError 403 ''role_assignment_forbidden''), db)
         else if ids \<noteq> {} \<and>
            tenant_stores scope (pr_tenant p) (\<lambda>status. status = STORE_ACTIVE) ids seen \<noteq> ids
         then (Inl (ApiError 422 ''invalid_store_scope''), db)
         else if find_email (pr_tenant p) (uc_email request) seen \<noteq> None
         then (Inl (ApiError 409 ''user_email_conflict''), db)
         else
           let u = new_user env (pr_tenant p) (uc_email request) (uc_display_name request) (uc_password request)
           in case insert_user u db of
                Inl _ \<Rightarrow> (Inl (ApiError 409 ''user_creation_conflict''), db)
              | Inr db1 \<Rightarrow>
                  if ie_conflict env then (Inl (ApiError 409 ''user_creation_conflict''), db)
                  else
                    let db2 = persist_role_rows (pr_tenant p) (us_id u) roles db1;
                        db3 = persist_assignment_rows (pr_tenant p) (us_id u) ids db2;
                        db4 = persist_compatibility_grants (pr_tenant p) (us_id u)
                                (compatibility_grant_specs roles ids) db3;
                        db5 = add_audit_record env (pr_tenant p) (Some (pr_user p)) USER_CREATED (Some (us_id u))
                                [(''email'', JString (us_email u)), (''roles'', json_roles roles),
                                 (''store_ids'', json_stores ids)] db4
                    in (Inr \<lparr>cu_user = u, cu_roles = sorted_list_of_set roles,
                             cu_store_ids = sorted_list_of_set ids\<rparr>, db5))"

subsection \<open>Reading users\<close>

definition visible_grants :: "principal \<Rightarrow> permission \<Rightarrow> access_grant list \<Rightarrow> access_grant list" where
  "visible_grants p perm grants =
     (if has_tenant_permission p perm then grants
      else filter (\<lambda>g. case ag_store g of None \<Rightarrow> False
             | Some s \<Rightarrow> s \<in> set (store_ids_for_permission p perm)) grants)"

definition eligible_user :: "principal \<Rightarrow> uuid option \<Rightarrow> identity_db \<Rightarrow> user_row \<Rightarrow> bool" where
  "eligible_user p store db u \<longleftrightarrow>
     us_tenant u = pr_tenant p \<and>
     (case store of
        Some s \<Rightarrow>
          list_ex (\<lambda>g. ag_tenant g = pr_tenant p \<and> ag_store g = Some s \<and> ag_user g = us_id u) (id_grants db)
      | None \<Rightarrow>
          has_tenant_permission p USERS_READ \<or>
          list_ex (\<lambda>g. ag_tenant g = pr_tenant p \<and> ag_user g = us_id u \<and>
              (\<exists>s \<in> set (store_ids_for_permission p USERS_READ). ag_store g = Some s)) (id_grants db))"

definition list_users ::
    "principal \<Rightarrow> uuid option \<Rightarrow> nat \<Rightarrow> nat \<Rightarrow> identity_db \<Rightarrow> (user_record list \<times> nat) outcome" where
  "list_users p store limit offset db =
     (if (case store of None \<Rightarrow> False | Some s \<Rightarrow> \<not> can_access_store p USERS_READ s)
      then Inl (ApiError 403 ''store_scope_denied'')
      else
        let rows = sort_key (\<lambda>u. (us_email u, us_id u)) (filter (eligible_user p store db) (id_users db))
        in Inr (map (\<lambda>u. \<lparr>rc_user = u,
                  rc_grants = visible_grants p USERS_READ (load_grants (pr_tenant p) (us_id u) db)\<rparr>)
                  (take limit (drop offset rows)),
                length rows))"

definition user_not_found :: fault where
  "user_not_found = ApiError 404 ''User not found''"

definition get_user :: "principal \<Rightarrow> uuid \<Rightarrow> identity_db \<Rightarrow> user_record outcome" where
  "get_user p user_id db =
     (case find_user (pr_tenant p) user_id db of
        None \<Rightarrow> Inl user_not_found
      | Some u \<Rightarrow>
          let visible = visible_grants p USERS_READ (load_grants (pr_tenant p) (us_id u) db)
          in if visible = [] \<and> \<not> has_tenant_permission p USERS_READ
             then Inl (ApiError 403 ''user_scope_denied'')
             else Inr \<lparr>rc_user = u, rc_grants = visible\<rparr>)"

definition canonicalize_user_record ::
    "user_record \<Rightarrow> principal option \<Rightarrow> identity_db \<Rightarrow> canonical_user_record" where
  "canonicalize_user_record r p db =
     (let access = load_canonical_access (us_tenant (rc_user r)) (us_id (rc_user r)) db;
          ids = (case p of
             None \<Rightarrow> cx_stores access
           | Some p \<Rightarrow> if has_tenant_permission p USERS_READ then cx_stores access
               else cx_stores access \<inter> set (store_ids_for_permission p USERS_READ))
      in \<lparr>cu_user = rc_user r, cu_roles = sorted_list_of_set (cx_roles access),
          cu_store_ids = sorted_list_of_set ids\<rparr>)"

definition list_audit_records :: "principal \<Rightarrow> nat \<Rightarrow> nat \<Rightarrow> identity_db \<Rightarrow> audit_record list \<times> nat" where
  "list_audit_records p limit offset db =
     (let rows = filter (\<lambda>a. au_tenant a = pr_tenant p) (id_audit db)
      in (take limit (drop offset (sort_desc (\<lambda>a. (au_occurred_at a, au_id a)) rows)), length rows))"

subsection \<open>Suspending a user\<close>

definition ensure_can_suspend :: "principal \<Rightarrow> access_grant list \<Rightarrow> unit outcome" where
  "ensure_can_suspend p grants =
     (if has_tenant_permission p USERS_SUSPEND then Inr ()
      else if grants = [] \<or>
         list_ex (\<lambda>g. ag_role g \<noteq> LEGACY_STORE_ASSOCIATE \<or>
           (case ag_store g of None \<Rightarrow> True
            | Some s \<Rightarrow> s \<notin> set (store_ids_for_permission p USERS_SUSPEND))) grants
      then Inl (ApiError 403 ''user_suspension_forbidden'')
      else Inr ())"

definition active_account :: "uuid \<Rightarrow> identity_db \<Rightarrow> bool" where
  "active_account user db \<longleftrightarrow> list_ex (\<lambda>u. us_id u = user \<and> us_status u = USER_ACTIVE) (id_users db)"

definition ensure_another_active_tenant_admin :: "uuid \<Rightarrow> uuid \<Rightarrow> identity_db \<Rightarrow> unit outcome" where
  "ensure_another_active_tenant_admin tenant excluded db =
     ensure
       (list_ex (\<lambda>r. ur_tenant r = tenant \<and> ur_user r \<noteq> excluded \<and> ur_role r = TENANT_ADMIN \<and>
           active_account (ur_user r) db) (id_roles db) \<or>
        list_ex (\<lambda>g. ag_tenant g = tenant \<and> ag_user g \<noteq> excluded \<and> ag_role g = CORPORATE_ADMIN \<and>
           ag_store g = None \<and> active_account (ag_user g) db) (id_grants db))
       (ApiError 409 ''last_tenant_admin'')"

definition ensure_not_suspending_last_tenant_admin ::
    "uuid \<Rightarrow> uuid \<Rightarrow> access_grant list \<Rightarrow> identity_db \<Rightarrow> unit outcome" where
  "ensure_not_suspending_last_tenant_admin tenant user grants db =
     (if list_ex (\<lambda>r. ur_tenant r = tenant \<and> ur_user r = user \<and> ur_role r = TENANT_ADMIN) (id_roles db) \<or>
         list_ex (\<lambda>g. ag_role g = CORPORATE_ADMIN \<and> ag_store g = None) grants
      then ensure_another_active_tenant_admin tenant user db
      else Inr ())"

definition lock_access_target :: "principal \<Rightarrow> uuid \<Rightarrow> identity_db \<Rightarrow> user_row outcome" where
  "lock_access_target p user_id db =
     (case find_user (pr_tenant p) user_id db of None \<Rightarrow> Inl user_not_found | Some u \<Rightarrow> Inr u)"

definition suspend_user ::
    "identity_env \<Rightarrow> principal \<Rightarrow> uuid \<Rightarrow> identity_db \<Rightarrow> (user_record \<times> identity_db) outcome" where
  "suspend_user env p user_id db =
     and_then (ensure (user_id \<noteq> pr_user p) (ApiError 409 ''self_suspension_forbidden'')) (\<lambda>_.
     and_then (lock_access_target p user_id db) (\<lambda>u.
     let grants = load_grants (pr_tenant p) (us_id u) db;
         visible = visible_grants p USERS_READ grants
     in and_then (ensure_can_suspend p grants) (\<lambda>_.
        if us_status u = USER_SUSPENDED then Inr (\<lparr>rc_user = u, rc_grants = visible\<rparr>, db)
        else
          and_then (ensure_not_suspending_last_tenant_admin (pr_tenant p) (us_id u) grants db) (\<lambda>_.
          let u' = u\<lparr>us_status := USER_SUSPENDED, us_token_version := us_token_version u + 1\<rparr>
          in Inr (\<lparr>rc_user = u', rc_grants = visible\<rparr>,
               add_audit_record env (pr_tenant p) (Some (pr_user p)) USER_WAS_SUSPENDED (Some (us_id u))
                 [(''email'', JString (us_email u')), (''new_token_version'', JInt (us_token_version u'))]
                 (write_user u' db))))))"

subsection \<open>Replacing roles and stores\<close>

definition ensure_valid_canonical_access_pair :: "canonical_role set \<Rightarrow> uuid set \<Rightarrow> unit outcome" where
  "ensure_valid_canonical_access_pair roles ids =
     (if has_store_role roles \<and> ids = {} then Inl (ApiError 422 ''store_assignment_required'')
      else if \<not> has_store_role roles \<and> ids \<noteq> {} then Inl (ApiError 422 ''store_assignment_not_allowed'')
      else Inr ())"

definition ensure_valid_store_ids :: "store_scope \<Rightarrow> uuid \<Rightarrow> uuid set \<Rightarrow> identity_db \<Rightarrow> unit outcome" where
  "ensure_valid_store_ids scope tenant ids db =
     ensure (ids = {} \<or> tenant_stores scope tenant (\<lambda>status. status \<noteq> STORE_INACTIVE) ids db = ids)
       (ApiError 422 ''invalid_store_scope'')"

definition ensure_not_removing_last_tenant_admin ::
    "uuid \<Rightarrow> uuid \<Rightarrow> canonical_role set \<Rightarrow> canonical_role set \<Rightarrow> identity_db \<Rightarrow> unit outcome" where
  "ensure_not_removing_last_tenant_admin tenant user existing requested db =
     (if \<not> (TENANT_ADMIN \<in> existing \<and> TENANT_ADMIN \<notin> requested) then Inr ()
      else ensure_another_active_tenant_admin tenant user db)"

definition existing_specs :: "access_grant list \<Rightarrow> grant_spec set" where
  "existing_specs grants = set (map (\<lambda>g. (ag_role g, ag_store g)) grants)"

definition audit_access_change ::
    "identity_env \<Rightarrow> principal \<Rightarrow> user_row \<Rightarrow> canonical_role set \<Rightarrow> uuid set \<Rightarrow> canonical_role set \<Rightarrow> uuid set
       \<Rightarrow> identity_db \<Rightarrow> identity_db" where
  "audit_access_change env p u previous_roles previous_ids roles ids db =
     add_audit_record env (pr_tenant p) (Some (pr_user p)) USER_ACCESS_CHANGED (Some (us_id u))
       [(''previous_roles'', json_roles previous_roles), (''previous_store_ids'', json_stores previous_ids),
        (''roles'', json_roles roles), (''store_ids'', json_stores ids),
        (''new_token_version'', JInt (us_token_version u))] db"

text \<open>A changed access bumps the token version, so that tokens issued before stop working.\<close>

definition record_access_change ::
    "identity_env \<Rightarrow> principal \<Rightarrow> user_row \<Rightarrow> canonical_role set \<Rightarrow> uuid set \<Rightarrow> canonical_role set \<Rightarrow> uuid set
       \<Rightarrow> identity_db \<Rightarrow> identity_db" where
  "record_access_change env p u previous_roles previous_ids roles ids db =
     (let u' = u\<lparr>us_token_version := us_token_version u + 1\<rparr>
      in audit_access_change env p u' previous_roles previous_ids roles ids (write_user u' db))"

definition access_of :: "user_row \<Rightarrow> canonical_role set \<Rightarrow> uuid set \<Rightarrow> canonical_user_access" where
  "access_of u roles ids =
     \<lparr>ca_user_id = us_id u, ca_roles = sorted_list_of_set roles, ca_store_ids = sorted_list_of_set ids\<rparr>"

text \<open>
  The end of the three replacements: nothing to do, or the writes, refused when another transaction
  interfered, with the bump and its audit record if the access changed.
\<close>

definition commit_access_change ::
    "identity_env \<Rightarrow> principal \<Rightarrow> user_row \<Rightarrow> canonical_access \<Rightarrow> canonical_role set \<Rightarrow> uuid set \<Rightarrow> bool \<Rightarrow> string
       \<Rightarrow> identity_db \<Rightarrow> identity_db \<Rightarrow> (canonical_user_access \<times> identity_db) outcome" where
  "commit_access_change env p u old roles ids changed conflict written db =
     (if \<not> changed \<and> \<not> cx_roles_missing old \<and> \<not> cx_stores_missing old then Inr (access_of u roles ids, db)
      else if ie_conflict env then Inl (ApiError 409 conflict)
      else Inr (access_of u roles ids,
        if changed then record_access_change env p u (cx_roles old) (cx_stores old) roles ids written
        else written))"

definition replace_user_access ::
    "identity_env \<Rightarrow> store_scope \<Rightarrow> principal \<Rightarrow> uuid \<Rightarrow> access_replace \<Rightarrow> identity_db
       \<Rightarrow> (canonical_user_access \<times> identity_db) outcome" where
  "replace_user_access env scope p user_id request db =
     and_then (ensure (has_tenant_permission p USERS_CREATE) (ApiError 403 ''role_assignment_forbidden'')) (\<lambda>_.
     and_then (lock_access_target p user_id db) (\<lambda>u.
     let access = load_canonical_access (pr_tenant p) (us_id u) db;
         roles = set (ax_roles request); ids = set (ax_store_ids request)
     in and_then (ensure_valid_canonical_access_pair roles ids) (\<lambda>_.
        and_then (ensure_valid_store_ids scope (pr_tenant p) ids db) (\<lambda>_.
        and_then (ensure_not_removing_last_tenant_admin (pr_tenant p) (us_id u) (cx_roles access) roles db) (\<lambda>_.
        let desired = compatibility_grant_specs roles ids;
            changed = (roles \<noteq> cx_roles access \<or> ids \<noteq> cx_stores access \<or>
                       desired \<noteq> existing_specs (cx_grants access))
        in commit_access_change env p u access roles ids changed ''user_access_update_conflict''
             (persist_compatibility_grants (pr_tenant p) (us_id u) desired
               (persist_assignment_rows (pr_tenant p) (us_id u) ids
                 (persist_role_rows (pr_tenant p) (us_id u) roles db))) db)))))"

definition replace_user_roles ::
    "identity_env \<Rightarrow> principal \<Rightarrow> uuid \<Rightarrow> canonical_role list \<Rightarrow> identity_db
       \<Rightarrow> (canonical_user_access \<times> identity_db) outcome" where
  "replace_user_roles env p user_id requested db =
     and_then (ensure (has_tenant_permission p USERS_CREATE) (ApiError 403 ''role_assignment_forbidden'')) (\<lambda>_.
     and_then (lock_access_target p user_id db) (\<lambda>u.
     let access = load_canonical_access (pr_tenant p) (us_id u) db;
         roles = set requested; ids = cx_stores access
     in and_then (ensure_valid_canonical_access_pair roles ids) (\<lambda>_.
        and_then (ensure_not_removing_last_tenant_admin (pr_tenant p) (us_id u) (cx_roles access) roles db) (\<lambda>_.
        let existing = existing_specs (cx_grants access); desired = compatibility_grant_specs roles ids;
            changed = (roles \<noteq> cx_roles access \<or> desired \<noteq> existing);
            db1 = persist_role_rows (pr_tenant p) (us_id u) roles db;
            db2 = (if cx_stores_missing access then persist_assignment_rows (pr_tenant p) (us_id u) ids db1
                   else db1);
            db3 = (if desired \<noteq> existing
                   then persist_compatibility_grants (pr_tenant p) (us_id u) desired db2 else db2)
        in commit_access_change env p u access roles ids changed ''user_role_update_conflict'' db3 db))))"

definition replace_user_store_assignments ::
    "identity_env \<Rightarrow> store_scope \<Rightarrow> principal \<Rightarrow> uuid \<Rightarrow> uuid list \<Rightarrow> identity_db
       \<Rightarrow> (canonical_user_access \<times> identity_db) outcome" where
  "replace_user_store_assignments env scope p user_id requested db =
     and_then (lock_access_target p user_id db) (\<lambda>u.
     let access = load_canonical_access (pr_tenant p) (us_id u) db;
         roles = cx_roles access; ids = set requested
     in and_then (ensure (roles \<noteq> {}) (ApiError 422 ''user_role_required'')) (\<lambda>_.
        and_then (ensure_valid_canonical_access_pair roles ids) (\<lambda>_.
        and_then (ensure_valid_store_ids scope (pr_tenant p) ids db) (\<lambda>_.
        and_then (ensure
          (has_tenant_permission p USERS_CREATE \<or> managers_may_create p roles (ids \<union> cx_stores access))
          (ApiError 403 ''role_assignment_forbidden'')) (\<lambda>_.
        let existing = existing_specs (cx_grants access); desired = compatibility_grant_specs roles ids;
            changed = (ids \<noteq> cx_stores access \<or> desired \<noteq> existing);
            db1 = (if cx_roles_missing access then persist_role_rows (pr_tenant p) (us_id u) roles db else db);
            db2 = persist_assignment_rows (pr_tenant p) (us_id u) ids db1;
            db3 = (if desired \<noteq> existing
                   then persist_compatibility_grants (pr_tenant p) (us_id u) desired db2 else db2)
        in commit_access_change env p u access roles ids changed ''user_store_assignment_conflict'' db3 db)))))"

subsection \<open>Bootstrapping a tenant\<close>

record bootstrap_tenant =
  bt_code :: string
  bt_name :: string

text \<open>
  \<open>tenant_id\<close> is a fresh identifier.  An error leaves the database as it was: nothing was committed.
  The rows of a new tenant and a new user are flushed outside the handler of integrity errors.
\<close>

definition insert_tenant :: "tenant_row \<Rightarrow> identity_db \<Rightarrow> identity_db outcome" where
  "insert_tenant t db =
     (if tn_id t \<in> tn_id ` set (id_tenants db) then Inl (IntegrityError ''tenants_pkey'')
      else if tn_code t \<in> tn_code ` set (id_tenants db) then Inl (IntegrityError ''tenants_code_key'')
      else if tn_code t \<noteq> str_lower (tn_code t) then Inl (IntegrityError ''ck_tenants_code_lowercase'')
      else Inr (db\<lparr>id_tenants := id_tenants db @ [t]\<rparr>))"

definition bootstrap_tenant_row ::
    "uuid \<Rightarrow> bootstrap_tenant \<Rightarrow> identity_db \<Rightarrow> (tenant_row \<times> identity_db) outcome" where
  "bootstrap_tenant_row fresh request db =
     (let tenant_id = (case resolve_login_tenant (bt_code request) db of None \<Rightarrow> fresh | Some t \<Rightarrow> tn_id t)
      in case select_one (\<lambda>t. tn_id t = tenant_id \<and> tn_code t = bt_code request) (id_tenants db) of
           None \<Rightarrow>
             let t = \<lparr>tn_id = tenant_id, tn_code = bt_code request, tn_name = bt_name request,
                      tn_status = TENANT_ACTIVE\<rparr>
             in and_then (insert_tenant t db) (\<lambda>db1. Inr (t, db1))
         | Some t \<Rightarrow>
             if tn_name t \<noteq> bt_name request then Inl (ApiError 409 ''bootstrap_tenant_conflict'')
             else Inr (t, db))"

definition admin_grant :: "uuid \<Rightarrow> access_grant \<Rightarrow> bool" where
  "admin_grant tenant g \<longleftrightarrow> ag_tenant g = tenant \<and> ag_role g = CORPORATE_ADMIN \<and> ag_store g = None"

text \<open>The first row of the join of the users with this address and their administrator grants.\<close>

definition configured_admin ::
    "uuid \<Rightarrow> string \<Rightarrow> identity_db \<Rightarrow> (user_row \<times> access_grant) option" where
  "configured_admin tenant email db =
     select_one (\<lambda>(u, g). us_tenant u = tenant \<and> us_email u = email \<and> admin_grant tenant g \<and> ag_user g = us_id u)
       (List.product (id_users db) (id_grants db))"

definition bootstrap_corporate_admin ::
    "identity_env \<Rightarrow> uuid \<Rightarrow> bootstrap_tenant \<Rightarrow> legacy_user_create \<Rightarrow> identity_db
       \<Rightarrow> (user_record \<times> identity_db) outcome" where
  "bootstrap_corporate_admin env fresh tenant_request request db =
     (if map fst (lc_assignments request) \<noteq> [CORPORATE_ADMIN]
      then Inl (ValueError ''bootstrap user must have exactly one CORPORATE_ADMIN grant'')
      else
        and_then (bootstrap_tenant_row fresh tenant_request db) (\<lambda>(t, db1).
        case configured_admin (tn_id t) (lc_email request) db1 of
          Some (u, g) \<Rightarrow>
            Inr (\<lparr>rc_user = u, rc_grants = [g]\<rparr>,
              if TENANT_ADMIN \<in> role_rows (tn_id t) (us_id u) db1 then db
              else db1\<lparr>id_roles := id_roles db1 @
                     [\<lparr>ur_tenant = tn_id t, ur_user = us_id u, ur_role = TENANT_ADMIN\<rparr>]\<rparr>)
        | None \<Rightarrow>
            if list_ex (admin_grant (tn_id t)) (id_grants db1) then Inl (ApiError 409 ''bootstrap_admin_exists'')
            else if find_email (tn_id t) (lc_email request) db1 \<noteq> None
            then Inl (ApiError 409 ''bootstrap_user_conflict'')
            else
              let u = new_user env (tn_id t) (lc_email request) (lc_display_name request) (lc_password request);
                  g = \<lparr>ag_tenant = tn_id t, ag_user = us_id u, ag_role = CORPORATE_ADMIN, ag_store = None\<rparr>
              in and_then (insert_user u db1) (\<lambda>db2.
                 if ie_conflict env then Inl (ApiError 409 ''bootstrap_conflict'')
                 else
                   let db3 = db2\<lparr>id_grants := id_grants db2 @ [g],
                         id_roles := id_roles db2 @
                           [\<lparr>ur_tenant = tn_id t, ur_user = us_id u, ur_role = TENANT_ADMIN\<rparr>]\<rparr>
                   in Inr (\<lparr>rc_user = u, rc_grants = [g]\<rparr>,
                        add_audit_record env (tn_id t) None USER_CREATED (Some (us_id u))
                          [(''email'', JString (us_email u)), (''bootstrap'', JBool True),
                           (''role'', JString (legacy_value (ag_role g)))] db3))))"

text \<open>
  What reconciling the public reviewer changes: each test of the code with the name it audits, the new
  row of the user, and whether issued tokens stop working.
\<close>

record reviewer_update =
  rv_user :: user_row
  rv_changes :: "string list"
  rv_invalidate :: bool

definition reviewer_changes ::
    "identity_env \<Rightarrow> user_create \<Rightarrow> user_row \<Rightarrow> canonical_role set \<Rightarrow> uuid set \<Rightarrow> access_grant list
       \<Rightarrow> reviewer_update" where
  "reviewer_changes env request u roles ids grants =
     (let (matches, replacement) =
            verify_password_and_update env (uc_password request) (Some (us_password_hash u));
          renamed = (us_display_name u \<noteq> uc_display_name request);
          reactivated = (us_status u \<noteq> USER_ACTIVE);
          upgraded = (matches \<and> (case replacement of None \<Rightarrow> False | Some h \<Rightarrow> h \<noteq> us_password_hash u));
          rerolled = (roles \<noteq> {CORPORATE_USER});
          invalidate = (reactivated \<or> \<not> matches \<or> rerolled \<or> ids \<noteq> {} \<or> grants \<noteq> [])
      in \<lparr>rv_user = u\<lparr>us_display_name := uc_display_name request, us_status := USER_ACTIVE,
                       us_password_hash :=
                         (if \<not> matches then ie_hash_password env (uc_password request)
                          else case_option (us_password_hash u) id replacement),
                       us_token_version := us_token_version u + (if invalidate then 1 else 0)\<rparr>,
          rv_changes =
            (if renamed then [''display_name''] else []) @
            (if reactivated then [''status_reactivated''] else []) @
            (if \<not> matches then [''password_rotated''] else if upgraded then [''password_hash_upgraded''] else []) @
            (if rerolled then [''roles_reconciled''] else []) @
            (if ids \<noteq> {} then [''store_assignments_removed''] else []) @
            (if grants \<noteq> [] then [''legacy_grants_removed''] else []),
          rv_invalidate = invalidate\<rparr>)"

definition bootstrap_public_reviewer ::
    "identity_env \<Rightarrow> string \<Rightarrow> user_create \<Rightarrow> identity_db \<Rightarrow> (canonical_user_record \<times> identity_db) outcome" where
  "bootstrap_public_reviewer env tenant_code request db =
     (if set (uc_roles request) \<noteq> {CORPORATE_USER} \<or> uc_store_ids request \<noteq> []
      then Inl (ValueError ''public reviewer must have exactly CORPORATE_USER and no store assignments'')
      else case resolve_login_tenant (str_lower (strip tenant_code)) db of
        None \<Rightarrow> Inl (ApiError 404 ''public_reviewer_tenant_not_found'')
      | Some t \<Rightarrow>
          if tn_status t \<noteq> TENANT_ACTIVE then Inl (ApiError 409 ''public_reviewer_tenant_inactive'')
          else case find_email (tn_id t) (uc_email request) db of
            None \<Rightarrow>
              let u = new_user env (tn_id t) (uc_email request) (uc_display_name request) (uc_password request)
              in (case insert_user u db of
                    Inl _ \<Rightarrow> Inl (ApiError 409 ''public_reviewer_conflict'')
                  | Inr db1 \<Rightarrow>
                      if ie_conflict env then Inl (ApiError 409 ''public_reviewer_conflict'')
                      else
                        let db2 = db1\<lparr>id_roles := id_roles db1 @
                              [\<lparr>ur_tenant = tn_id t, ur_user = us_id u, ur_role = CORPORATE_USER\<rparr>]\<rparr>
                        in Inr (\<lparr>cu_user = u, cu_roles = [CORPORATE_USER], cu_store_ids = []\<rparr>,
                             add_audit_record env (tn_id t) None USER_CREATED (Some (us_id u))
                               [(''email'', JString (us_email u)), (''bootstrap'', JBool True),
                                (''public_reviewer'', JBool True), (''roles'', json_roles {CORPORATE_USER}),
                                (''store_ids'', json_stores {})] db2))
          | Some u \<Rightarrow>
              let roles = role_rows (tn_id t) (us_id u) db; ids = assignment_rows (tn_id t) (us_id u) db;
                  grants = load_grants (tn_id t) (us_id u) db
              in if TENANT_ADMIN \<in> roles \<or> list_ex (\<lambda>g. ag_role g = CORPORATE_ADMIN) grants
                 then Inl (ApiError 409 ''public_reviewer_admin_conflict'')
                 else if ie_conflict env then Inl (ApiError 409 ''public_reviewer_conflict'')
                 else
                   let update = reviewer_changes env request u roles ids grants; u' = rv_user update;
                       db1 = write_user u' db;
                       db2 = (if roles \<noteq> {CORPORATE_USER}
                              then persist_role_rows (tn_id t) (us_id u) {CORPORATE_USER} db1 else db1);
                       db3 = (if ids \<noteq> {} then persist_assignment_rows (tn_id t) (us_id u) {} db2 else db2);
                       db4 = (if grants \<noteq> [] then delete_grants (tn_id t) (us_id u) db3 else db3)
                   in Inr (\<lparr>cu_user = u', cu_roles = [CORPORATE_USER], cu_store_ids = []\<rparr>,
                        if rv_changes update = [] then db4
                        else add_audit_record env (tn_id t) None USER_ACCESS_CHANGED (Some (us_id u))
                          [(''email'', JString (us_email u')), (''bootstrap'', JBool True),
                           (''public_reviewer'', JBool True),
                           (''changes'', json_strings (sort (rv_changes update))),
                           (''new_token_version'', JInt (us_token_version u'))] db4))"

end
