(* ===== verification/Access_Change.thy ===== *)
theory Access_Change
  imports User_Admin
begin

text \<open>
  What an access change is.  The three services that replace roles and stores are refinements of one
  specification: afterwards the user has exactly those roles and stores, the legacy grants mirror them,
  nobody else is touched, and the token version moves exactly when something changed.
\<close>

subsection \<open>Reading what was written\<close>

lemma finite_roles [simp]: "finite (R :: canonical_role set)"
proof (rule finite_subset)
  show "R \<subseteq> {STORE_ASSOCIATE, STORE_MANAGER, CORPORATE_USER, TENANT_ADMIN}"
    using canonical_role.exhaust by blast
qed simp

lemma set_sorted_roles [simp]: "set (sorted_list_of_set (R :: canonical_role set)) = R"
  by simp

definition grant_specs :: "uuid \<Rightarrow> uuid \<Rightarrow> identity_db \<Rightarrow> grant_spec set" where
  "grant_specs t u db = existing_specs (load_grants t u db)"

lemma in_load_grants [simp]:
  "g \<in> set (load_grants t u db) \<longleftrightarrow> g \<in> set (id_grants db) \<and> ag_tenant g = t \<and> ag_user g = u"
  by (auto simp: load_grants_def)

lemma in_grant_specs:
  "(role, store) \<in> grant_specs t u db \<longleftrightarrow>
     (\<exists>g \<in> set (id_grants db). ag_tenant g = t \<and> ag_user g = u \<and> ag_role g = role \<and> ag_store g = store)"
  by (auto simp: grant_specs_def existing_specs_def)

lemma in_role_rows:
  "role \<in> role_rows t u db \<longleftrightarrow>
     (\<exists>r \<in> set (id_roles db). ur_tenant r = t \<and> ur_user r = u \<and> ur_role r = role)"
  by (auto simp: role_rows_def)

lemma in_assignment_rows:
  "store \<in> assignment_rows t u db \<longleftrightarrow>
     (\<exists>a \<in> set (id_assignments db). ua_tenant a = t \<and> ua_user a = u \<and> ua_store a = store)"
  by (auto simp: assignment_rows_def)

lemma finite_assignment_rows [simp]: "finite (assignment_rows t u db)"
  by (simp add: assignment_rows_def)

lemma finite_grant_specs [simp]: "finite (grant_specs t u db)"
  by (simp add: grant_specs_def existing_specs_def)

lemma finite_compatibility [simp]: "finite ids \<Longrightarrow> finite (compatibility_grant_specs roles ids)"
  by (simp add: compatibility_grant_specs_def)

text \<open>Each table of the database is written by its own operation; the others do not see it.\<close>

lemma rewritten_rows:
  assumes "\<And>x. key (mk x) = k'" "\<And>x. val (mk x) = x"
  shows "set (map val (filter (\<lambda>r. key r = k) (filter (\<lambda>r. key r \<noteq> k') rows @ map mk xs))) =
     (if k = k' then set xs else set (map val (filter (\<lambda>r. key r = k) rows)))"
proof -
  have "filter (\<lambda>r. key r = k) (map mk xs) = (if k = k' then map mk xs else [])"
    using assms(1) by (auto simp: filter_map o_def)
  moreover have "filter (\<lambda>r. key r = k) (filter (\<lambda>r. key r \<noteq> k') rows) =
      (if k = k' then [] else filter (\<lambda>r. key r = k) rows)"
    by (auto simp: filter_empty_conv intro: filter_cong)
  ultimately show ?thesis using assms(2) by (simp add: o_def image_image)
qed

lemma role_rows_persist [frame_simps]:
  "role_rows t u (persist_role_rows t' u' R db) = (if t = t' \<and> u = u' then R else role_rows t u db)"
  using rewritten_rows [where key = "\<lambda>r. (ur_tenant r, ur_user r)" and k = "(t, u)" and k' = "(t', u')"
      and mk = "\<lambda>role. \<lparr>ur_tenant = t', ur_user = u', ur_role = role\<rparr>" and val = ur_role
      and rows = "id_roles db" and xs = "sorted_list_of_set R"]
  by (simp add: role_rows_def persist_role_rows_def)

lemma assignment_rows_persist [frame_simps]:
  "finite A \<Longrightarrow> assignment_rows t u (persist_assignment_rows t' u' A db) =
     (if t = t' \<and> u = u' then A else assignment_rows t u db)"
  using rewritten_rows [where key = "\<lambda>a. (ua_tenant a, ua_user a)" and k = "(t, u)" and k' = "(t', u')"
      and mk = "\<lambda>store. \<lparr>ua_tenant = t', ua_user = u', ua_store = store\<rparr>" and val = ua_store
      and rows = "id_assignments db" and xs = "sorted_list_of_set A"]
  by (simp add: assignment_rows_def persist_assignment_rows_def)

lemma grant_specs_alt:
  "grant_specs t u db =
     set (map (\<lambda>g. (ag_role g, ag_store g)) (filter (\<lambda>g. (ag_tenant g, ag_user g) = (t, u)) (id_grants db)))"
  by (simp add: grant_specs_def existing_specs_def load_grants_def)

lemma grant_specs_persist [frame_simps]:
  "finite S \<Longrightarrow> grant_specs t u (persist_compatibility_grants t' u' S db) =
     (if t = t' \<and> u = u' then S else grant_specs t u db)"
  using rewritten_rows [where key = "\<lambda>g. (ag_tenant g, ag_user g)" and k = "(t, u)" and k' = "(t', u')"
      and mk = "\<lambda>(role, store). \<lparr>ag_tenant = t', ag_user = u', ag_role = role, ag_store = store\<rparr>"
      and val = "\<lambda>g. (ag_role g, ag_store g)" and rows = "id_grants db" and xs = "sorted_list_of_set S"]
  by (simp add: grant_specs_alt persist_compatibility_grants_def delete_grants_def Let_def split_beta)

lemma grant_specs_delete [frame_simps]:
  "grant_specs t u (delete_grants t' u' db) = (if t = t' \<and> u = u' then {} else grant_specs t u db)"
  using rewritten_rows [where key = "\<lambda>g. (ag_tenant g, ag_user g)" and k = "(t, u)" and k' = "(t', u')"
      and mk = "\<lambda>(role, store). \<lparr>ag_tenant = t', ag_user = u', ag_role = role, ag_store = store\<rparr>"
      and val = "\<lambda>g. (ag_role g, ag_store g)" and rows = "id_grants db" and xs = "[]"]
  by (simp add: grant_specs_alt delete_grants_def split_beta)

lemma role_rows_cong: "id_roles db' = id_roles db \<Longrightarrow> role_rows t u db' = role_rows t u db"
  by (simp add: role_rows_def)

lemma assignment_rows_cong:
  "id_assignments db' = id_assignments db \<Longrightarrow> assignment_rows t u db' = assignment_rows t u db"
  by (simp add: assignment_rows_def)

lemma grant_specs_cong: "id_grants db' = id_grants db \<Longrightarrow> grant_specs t u db' = grant_specs t u db"
  by (simp add: grant_specs_def load_grants_def)

lemma table_frames [frame_simps]:
  "id_users (persist_role_rows t u R db) = id_users db"
  "id_users (persist_assignment_rows t u A db) = id_users db"
  "id_users (persist_compatibility_grants t u S db) = id_users db"
  "id_users (delete_grants t u db) = id_users db"
  "id_users (add_audit_record env t a act tg d db) = id_users db"
  "id_sessions (persist_role_rows t u R db) = id_sessions db"
  "id_sessions (persist_assignment_rows t u A db) = id_sessions db"
  "id_sessions (persist_compatibility_grants t u S db) = id_sessions db"
  "id_sessions (delete_grants t u db) = id_sessions db"
  "id_sessions (add_audit_record env t a act tg d db) = id_sessions db"
  "id_sessions (write_user v db) = id_sessions db"
  "id_tenants (persist_role_rows t u R db) = id_tenants db"
  "id_tenants (persist_assignment_rows t u A db) = id_tenants db"
  "id_tenants (persist_compatibility_grants t u S db) = id_tenants db"
  "id_tenants (delete_grants t u db) = id_tenants db"
  "id_tenants (add_audit_record env t a act tg d db) = id_tenants db"
  "id_tenants (write_user v db) = id_tenants db"
  "id_audit (persist_role_rows t u R db) = id_audit db"
  "id_audit (persist_assignment_rows t u A db) = id_audit db"
  "id_audit (persist_compatibility_grants t u S db) = id_audit db"
  "id_audit (delete_grants t u db) = id_audit db"
  "id_audit (write_user v db) = id_audit db"
  "id_roles (persist_assignment_rows t u A db) = id_roles db"
  "id_roles (persist_compatibility_grants t u S db) = id_roles db"
  "id_roles (delete_grants t u db) = id_roles db"
  "id_roles (add_audit_record env t a act tg d db) = id_roles db"
  "id_roles (write_user v db) = id_roles db"
  "id_assignments (persist_role_rows t u R db) = id_assignments db"
  "id_assignments (persist_compatibility_grants t u S db) = id_assignments db"
  "id_assignments (delete_grants t u db) = id_assignments db"
  "id_assignments (add_audit_record env t a act tg d db) = id_assignments db"
  "id_assignments (write_user v db) = id_assignments db"
  "id_grants (persist_role_rows t u R db) = id_grants db"
  "id_grants (persist_assignment_rows t u A db) = id_grants db"
  "id_grants (add_audit_record env t a act tg d db) = id_grants db"
  "id_grants (write_user v db) = id_grants db"
  by (simp_all add: persist_role_rows_def persist_assignment_rows_def persist_compatibility_grants_def
      delete_grants_def add_audit_record_def write_user_def Let_def)

lemma access_frames [frame_simps]:
  "role_rows t u (persist_assignment_rows t' u' A db) = role_rows t u db"
  "role_rows t u (persist_compatibility_grants t' u' S db) = role_rows t u db"
  "role_rows t u (delete_grants t' u' db) = role_rows t u db"
  "role_rows t u (add_audit_record env t' a act tg d db) = role_rows t u db"
  "role_rows t u (write_user v db) = role_rows t u db"
  "assignment_rows t u (persist_role_rows t' u' R db) = assignment_rows t u db"
  "assignment_rows t u (persist_compatibility_grants t' u' S db) = assignment_rows t u db"
  "assignment_rows t u (delete_grants t' u' db) = assignment_rows t u db"
  "assignment_rows t u (add_audit_record env t' a act tg d db) = assignment_rows t u db"
  "assignment_rows t u (write_user v db) = assignment_rows t u db"
  "grant_specs t u (persist_role_rows t' u' R db) = grant_specs t u db"
  "grant_specs t u (persist_assignment_rows t' u' A db) = grant_specs t u db"
  "grant_specs t u (add_audit_record env t' a act tg d db) = grant_specs t u db"
  "grant_specs t u (write_user v db) = grant_specs t u db"
  by (rule role_rows_cong assignment_rows_cong grant_specs_cong, simp only: frame_simps)+

lemma find_user_SomeD:
  "find_user t u db = Some r \<Longrightarrow> r \<in> set (id_users db) \<and> us_id r = u \<and> us_tenant r = t"
  by (auto simp: find_user_def dest: select_one_SomeD)

lemma lock_access_target_Inr_iff: "lock_access_target p u db = Inr r \<longleftrightarrow> find_user (pr_tenant p) u db = Some r"
  by (simp add: lock_access_target_def split: option.splits)

lemma load_canonical_access_simps:
  "cx_roles (load_canonical_access t u db) =
     (if role_rows t u db \<noteq> {} then role_rows t u db else canonical_of_legacy ` fst ` grant_specs t u db)"
  "cx_stores (load_canonical_access t u db) =
     (if assignment_rows t u db \<noteq> {} then assignment_rows t u db
      else {s. \<exists>role. (role, Some s) \<in> grant_specs t u db})"
  "cx_roles_missing (load_canonical_access t u db) = (role_rows t u db = {})"
  "cx_stores_missing (load_canonical_access t u db) = (assignment_rows t u db = {})"
  "existing_specs (cx_grants (load_canonical_access t u db)) = grant_specs t u db"
proof -
  let ?gs = "load_grants t u db"
  have "(\<lambda>g. canonical_of_legacy (ag_role g)) ` set ?gs = canonical_of_legacy ` fst ` grant_specs t u db"
    by (simp add: grant_specs_def existing_specs_def image_image)
  then show "cx_roles (load_canonical_access t u db) =
     (if role_rows t u db \<noteq> {} then role_rows t u db else canonical_of_legacy ` fst ` grant_specs t u db)"
    by (simp add: load_canonical_access_def Let_def)
  have "set (List.map_filter ag_store ?gs) = {s. \<exists>g \<in> set ?gs. ag_store g = Some s}"
    by (force simp: List.map_filter_def)
  also have "\<dots> = {s. \<exists>role. (role, Some s) \<in> grant_specs t u db}"
    unfolding in_grant_specs in_load_grants Bex_def by blast
  finally show "cx_stores (load_canonical_access t u db) =
     (if assignment_rows t u db \<noteq> {} then assignment_rows t u db
      else {s. \<exists>role. (role, Some s) \<in> grant_specs t u db})"
    by (simp add: load_canonical_access_def Let_def)
qed (simp_all add: load_canonical_access_def Let_def grant_specs_def)

lemma finite_cx_stores: "finite (cx_stores (load_canonical_access t u db))"
  by (simp add: load_canonical_access_def Let_def)

subsection \<open>The specification\<close>

definition another_admin :: "uuid \<Rightarrow> uuid \<Rightarrow> identity_db \<Rightarrow> bool" where
  "another_admin tenant excluded db \<longleftrightarrow> is_ok (ensure_another_active_tenant_admin tenant excluded db)"

definition access_valid :: "canonical_role set \<Rightarrow> uuid set \<Rightarrow> bool" where
  "access_valid R A \<longleftrightarrow> (has_store_role R \<longleftrightarrow> A \<noteq> {})"

text \<open>
  \<open>set_access\<close>: user \<open>u\<close> of tenant \<open>t\<close> gets roles \<open>R\<close> and stores \<open>A\<close>.  Only the row of that user may
  change, in its token version only, and one audit record is written, exactly if the access changed.
\<close>

definition bumped :: "uuid \<Rightarrow> user_row list \<Rightarrow> user_row list" where
  "bumped u users = update_where (\<lambda>v. us_id v = u) (\<lambda>v. v\<lparr>us_token_version := us_token_version v + 1\<rparr>) users"

definition set_access ::
    "uuid \<Rightarrow> uuid \<Rightarrow> canonical_role set \<Rightarrow> uuid set \<Rightarrow> identity_db \<Rightarrow> identity_db \<Rightarrow> bool" where
  "set_access t u R A db db' \<longleftrightarrow>
     (let old = load_canonical_access t u db;
          changed = (R \<noteq> cx_roles old \<or> A \<noteq> cx_stores old \<or>
                     compatibility_grant_specs R A \<noteq> grant_specs t u db)
      in (role_rows t u db' = R \<and> assignment_rows t u db' = A \<and>
          grant_specs t u db' = compatibility_grant_specs R A) \<and>
         (\<forall>t' u'. (t', u') \<noteq> (t, u) \<longrightarrow>
            role_rows t' u' db' = role_rows t' u' db \<and> assignment_rows t' u' db' = assignment_rows t' u' db \<and>
            grant_specs t' u' db' = grant_specs t' u' db) \<and>
         id_sessions db' = id_sessions db \<and> id_tenants db' = id_tenants db \<and>
         id_users db' = (if changed then bumped u (id_users db) else id_users db) \<and>
         (if changed
          then \<exists>a. id_audit db' = id_audit db @ [a] \<and> au_tenant a = t \<and> au_target a = Some u \<and>
                 au_action a = USER_ACCESS_CHANGED
          else id_audit db' = id_audit db))"

text \<open>The three parts of a change put together, in any order of the writes.\<close>

lemma write_user_bumped:
  assumes "distinct (map us_id (id_users db))" "v \<in> set (id_users db)" "us_id v = u"
  shows "id_users (write_user (v\<lparr>us_token_version := us_token_version v + 1\<rparr>) db) = bumped u (id_users db)"
proof -
  have same: "w = v" if "w \<in> set (id_users db)" "us_id w = u" for w
    using assms that by (auto simp: distinct_map inj_on_def)
  then show ?thesis
    using assms(3) by (auto simp: write_user_def bumped_def update_where_def)
qed

lemma set_accessI:
  fixes db1 :: identity_db
  assumes u: "find_user t u db = Some v" "distinct (map us_id (id_users db))" and t: "pr_tenant p = t"
    and written: "role_rows t u db1 = R" "assignment_rows t u db1 = A"
      "grant_specs t u db1 = compatibility_grant_specs R A"
    and others: "\<And>t' u'. (t', u') \<noteq> (t, u) \<Longrightarrow>
      role_rows t' u' db1 = role_rows t' u' db \<and> assignment_rows t' u' db1 = assignment_rows t' u' db \<and>
      grant_specs t' u' db1 = grant_specs t' u' db"
    and same: "id_sessions db1 = id_sessions db" "id_tenants db1 = id_tenants db"
      "id_users db1 = id_users db" "id_audit db1 = id_audit db"
    and changed: "changed \<longleftrightarrow> R \<noteq> cx_roles (load_canonical_access t u db) \<or>
      A \<noteq> cx_stores (load_canonical_access t u db) \<or>
      compatibility_grant_specs R A \<noteq> grant_specs t u db"
  shows "set_access t u R A db (if changed then record_access_change env p v R0 A0 R1 A1 db1 else db1)"
proof -
  from find_user_SomeD [OF u(1)] have v: "v \<in> set (id_users db)" "us_id v = u" by simp_all
  then have "id_users (write_user (v\<lparr>us_token_version := us_token_version v + 1\<rparr>) db1) = bumped u (id_users db)"
    using write_user_bumped [of db1 v u] u(2) same(3) by simp
  then have "set_access t u R A db (record_access_change env p v R0 A0 R1 A1 db1)" if changed
    using that changed written others same t v(2)
    by (auto simp: set_access_def record_access_change_def audit_access_change_def Let_def
        frame_simps) (auto simp: add_audit_record_def frame_simps)
  moreover have "set_access t u R A db db1" if "\<not> changed"
    using that changed written others same unfolding set_access_def Let_def by auto
  ultimately show ?thesis by simp
qed

subsection \<open>The services implement it\<close>

lemma ensure_valid_access_Inr_iff [simp]:
  "ensure_valid_canonical_access_pair R A = Inr x \<longleftrightarrow> access_valid R A"
  by (auto simp: ensure_valid_canonical_access_pair_def access_valid_def)

lemma not_removing_last_iff:
  "ensure_not_removing_last_tenant_admin t u old new db = Inr x \<longleftrightarrow>
     (TENANT_ADMIN \<in> old \<and> TENANT_ADMIN \<notin> new \<longrightarrow> another_admin t u db)"
  by (cases "ensure_another_active_tenant_admin t u db")
    (auto simp: ensure_not_removing_last_tenant_admin_def another_admin_def)

lemma commit_access_change_sets:
  assumes "commit_access_change env p v (load_canonical_access (pr_tenant p) u db) R A changed code db1 db = Inr (a, db')"
    and v: "find_user (pr_tenant p) u db = Some v" "distinct (map us_id (id_users db))"
    and db1: "role_rows (pr_tenant p) u db1 = R" "assignment_rows (pr_tenant p) u db1 = A"
      "grant_specs (pr_tenant p) u db1 = compatibility_grant_specs R A"
      "\<And>t' u'. (t', u') \<noteq> (pr_tenant p, u) \<Longrightarrow>
        role_rows t' u' db1 = role_rows t' u' db \<and> assignment_rows t' u' db1 = assignment_rows t' u' db \<and>
        grant_specs t' u' db1 = grant_specs t' u' db"
      "id_sessions db1 = id_sessions db" "id_tenants db1 = id_tenants db"
      "id_users db1 = id_users db" "id_audit db1 = id_audit db"
    and changed: "changed \<longleftrightarrow> R \<noteq> cx_roles (load_canonical_access (pr_tenant p) u db) \<or>
      A \<noteq> cx_stores (load_canonical_access (pr_tenant p) u db) \<or>
      compatibility_grant_specs R A \<noteq> grant_specs (pr_tenant p) u db"
  shows "set_access (pr_tenant p) u R A db db'"
proof (cases "\<not> changed \<and> role_rows (pr_tenant p) u db \<noteq> {} \<and> assignment_rows (pr_tenant p) u db \<noteq> {}")
  case True
  then have "db' = db" using assms(1) by (simp add: commit_access_change_def load_canonical_access_simps)
  moreover have "cx_roles (load_canonical_access (pr_tenant p) u db) = role_rows (pr_tenant p) u db"
    "cx_stores (load_canonical_access (pr_tenant p) u db) = assignment_rows (pr_tenant p) u db"
    using True by (simp_all add: load_canonical_access_simps(1,2))
  ultimately show ?thesis using True [unfolded changed] by (simp add: set_access_def Let_def)
next
  case False
  let ?old = "load_canonical_access (pr_tenant p) u db"
  have "db' = (if changed then record_access_change env p v (cx_roles ?old) (cx_stores ?old) R A db1 else db1)"
    using False assms(1)
    by (auto simp: commit_access_change_def load_canonical_access_simps(3,4) split: if_splits)
  then show ?thesis using set_accessI [OF v refl db1(1,2,3,4,5,6,7,8) changed] by simp
qed

text \<open>
  Each service once unfolded: who may call it, what it checks, and the access it sets.
\<close>

lemma replace_user_access_sets:
  assumes "replace_user_access env scope p u request db = Inr (a, db')" "distinct (map us_id (id_users db))"
  defines "R \<equiv> set (ax_roles request)" and "A \<equiv> set (ax_store_ids request)"
  shows "set_access (pr_tenant p) u R A db db' \<and> access_valid R A \<and> has_tenant_permission p USERS_CREATE \<and>
     find_user (pr_tenant p) u db \<noteq> None \<and>
     (TENANT_ADMIN \<in> cx_roles (load_canonical_access (pr_tenant p) u db) \<and> TENANT_ADMIN \<notin> R \<longrightarrow>
        another_admin (pr_tenant p) u db)"
proof -
  define old where "old = load_canonical_access (pr_tenant p) u db"
  from assms(1) obtain v where v: "find_user (pr_tenant p) u db = Some v"
    by (auto simp: replace_user_access_def and_then_Inr_iff lock_access_target_Inr_iff)
  then have id: "us_id v = u" by (simp add: find_user_SomeD)
  let ?S = "compatibility_grant_specs R A"
  let ?db1 = "persist_compatibility_grants (pr_tenant p) u ?S
    (persist_assignment_rows (pr_tenant p) u A (persist_role_rows (pr_tenant p) u R db))"
  let ?changed = "R \<noteq> cx_roles old \<or> A \<noteq> cx_stores old \<or> ?S \<noteq> existing_specs (cx_grants old)"
  have facts: "has_tenant_permission p USERS_CREATE" "access_valid R A"
    "TENANT_ADMIN \<in> cx_roles old \<and> TENANT_ADMIN \<notin> R \<longrightarrow> another_admin (pr_tenant p) u db"
    and commit: "commit_access_change env p v old R A ?changed ''user_access_update_conflict'' ?db1 db = Inr (a, db')"
    using assms(1) v id
    by (simp_all add: replace_user_access_def and_then_Inr_iff lock_access_target_Inr_iff not_removing_last_iff
        R_def [symmetric] A_def [symmetric] old_def [symmetric] Let_def)
  have "set_access (pr_tenant p) u R A db db'"
    by (rule commit_access_change_sets [OF commit [unfolded old_def] v assms(2)])
      (auto simp: frame_simps A_def load_canonical_access_simps(5))
  with facts v show ?thesis by (simp add: old_def)
qed

lemma replace_user_roles_sets:
  assumes "replace_user_roles env p u requested db = Inr (a, db')" "distinct (map us_id (id_users db))"
  defines "R \<equiv> set requested" and "A \<equiv> cx_stores (load_canonical_access (pr_tenant p) u db)"
  shows "set_access (pr_tenant p) u R A db db' \<and> access_valid R A \<and> has_tenant_permission p USERS_CREATE \<and>
     find_user (pr_tenant p) u db \<noteq> None \<and>
     (TENANT_ADMIN \<in> cx_roles (load_canonical_access (pr_tenant p) u db) \<and> TENANT_ADMIN \<notin> R \<longrightarrow>
        another_admin (pr_tenant p) u db)"
proof -
  define old where "old = load_canonical_access (pr_tenant p) u db"
  from assms(1) obtain v where v: "find_user (pr_tenant p) u db = Some v"
    by (auto simp: replace_user_roles_def and_then_Inr_iff lock_access_target_Inr_iff)
  then have id: "us_id v = u" by (simp add: find_user_SomeD)
  have A: "A = cx_stores old" "finite A" by (simp_all add: A_def old_def finite_cx_stores)
  let ?S = "compatibility_grant_specs R A" and ?G = "existing_specs (cx_grants old)"
  let ?db1 = "persist_role_rows (pr_tenant p) u R db"
  let ?db2 = "if cx_stores_missing old then persist_assignment_rows (pr_tenant p) u A ?db1 else ?db1"
  let ?db3 = "if ?S \<noteq> ?G then persist_compatibility_grants (pr_tenant p) u ?S ?db2 else ?db2"
  have facts: "has_tenant_permission p USERS_CREATE" "access_valid R A"
    "TENANT_ADMIN \<in> cx_roles old \<and> TENANT_ADMIN \<notin> R \<longrightarrow> another_admin (pr_tenant p) u db"
    and commit: "commit_access_change env p v old R A (R \<noteq> cx_roles old \<or> ?S \<noteq> ?G)
      ''user_role_update_conflict'' ?db3 db = Inr (a, db')"
    using assms(1) [unfolded replace_user_roles_def lock_access_target_def v option.case and_then_simps Let_def id
        R_def [symmetric] old_def [symmetric] A(1) [symmetric]]
    by (simp_all add: and_then_Inr_iff not_removing_last_iff split del: if_split)
  have G: "?G = grant_specs (pr_tenant p) u db" by (simp add: old_def load_canonical_access_simps(5))
  have held: "\<not> cx_stores_missing old \<Longrightarrow> assignment_rows (pr_tenant p) u db = A"
    by (simp add: A_def old_def load_canonical_access_simps(2,4))
  have "set_access (pr_tenant p) u R A db db'"
    by (rule commit_access_change_sets [OF commit [unfolded old_def] v assms(2)])
      (use G held A in \<open>auto simp: frame_simps old_def [symmetric]\<close>)
  with facts v show ?thesis by (simp add: old_def)
qed

lemma replace_user_store_assignments_sets:
  assumes "replace_user_store_assignments env scope p u requested db = Inr (a, db')"
    "distinct (map us_id (id_users db))"
  defines "R \<equiv> cx_roles (load_canonical_access (pr_tenant p) u db)" and "A \<equiv> set requested"
  shows "set_access (pr_tenant p) u R A db db' \<and> access_valid R A \<and> R \<noteq> {} \<and>
     find_user (pr_tenant p) u db \<noteq> None \<and>
     (has_tenant_permission p USERS_CREATE \<or>
      managers_may_create p R (A \<union> cx_stores (load_canonical_access (pr_tenant p) u db)))"
proof -
  define old where "old = load_canonical_access (pr_tenant p) u db"
  from assms(1) obtain v where v: "find_user (pr_tenant p) u db = Some v"
    by (auto simp: replace_user_store_assignments_def and_then_Inr_iff lock_access_target_Inr_iff)
  then have id: "us_id v = u" by (simp add: find_user_SomeD)
  have R: "R = cx_roles old" by (simp add: R_def old_def)
  let ?S = "compatibility_grant_specs R A" and ?G = "existing_specs (cx_grants old)"
  let ?db1 = "if cx_roles_missing old then persist_role_rows (pr_tenant p) u R db else db"
  let ?db2 = "persist_assignment_rows (pr_tenant p) u A ?db1"
  let ?db3 = "if ?S \<noteq> ?G then persist_compatibility_grants (pr_tenant p) u ?S ?db2 else ?db2"
  have facts: "R \<noteq> {}" "access_valid R A"
    "has_tenant_permission p USERS_CREATE \<or> managers_may_create p R (A \<union> cx_stores old)"
    and commit: "commit_access_change env p v old R A (A \<noteq> cx_stores old \<or> ?S \<noteq> ?G)
      ''user_store_assignment_conflict'' ?db3 db = Inr (a, db')"
    using assms(1) [unfolded replace_user_store_assignments_def lock_access_target_def v option.case and_then_simps Let_def id
        A_def [symmetric] old_def [symmetric] R [symmetric]]
    by (simp_all add: and_then_Inr_iff split del: if_split)
  have G: "?G = grant_specs (pr_tenant p) u db" by (simp add: old_def load_canonical_access_simps(5))
  have held: "\<not> cx_roles_missing old \<Longrightarrow> role_rows (pr_tenant p) u db = R"
    by (simp add: R_def old_def load_canonical_access_simps(1,3))
  have "set_access (pr_tenant p) u R A db db'"
    by (rule commit_access_change_sets [OF commit [unfolded old_def] v assms(2)])
      (use G held R in \<open>auto simp: frame_simps old_def [symmetric] A_def\<close>)
  with facts v show ?thesis by (simp add: old_def)
qed

end
