(* ===== verification/Accounts.thy ===== *)
theory Accounts
  imports Access_Change
begin

text \<open>
  Accounts and what they may do, as one abstract step relation: the account of a user (identity, status
  and token version) and its holdings (role rows, store assignments, legacy grants).  The theory proves
  what every step of this relation keeps; \<open>Identity_Life\<close> shows that the services take such steps.
\<close>

subsection \<open>Accounts and holdings\<close>

type_synonym account = "uuid \<times> uuid \<times> user_status \<times> int"
type_synonym holdings = "canonical_role set \<times> uuid set \<times> grant_spec set"

definition account :: "user_row \<Rightarrow> account" where
  "account u = (us_id u, us_tenant u, us_status u, us_token_version u)"

definition accounts :: "identity_db \<Rightarrow> account list" where
  "accounts db = map account (id_users db)"

definition holdings :: "uuid \<Rightarrow> uuid \<Rightarrow> identity_db \<Rightarrow> holdings" where
  "holdings t u db = (role_rows t u db, assignment_rows t u db, grant_specs t u db)"

fun held_roles :: "holdings \<Rightarrow> canonical_role set" where
  "held_roles (R, A, G) = (if R \<noteq> {} then R else canonical_of_legacy ` fst ` G)"

fun held_stores :: "holdings \<Rightarrow> uuid set" where
  "held_stores (R, A, G) = (if A \<noteq> {} then A else {s. \<exists>role. (role, Some s) \<in> G})"

text \<open>
  What a request of the user may do: pairs of a permission and a store, or of a permission and no store
  for the whole tenant.  It is read off the scopes that \<open>get_current_principal\<close> builds.
\<close>

fun powers :: "holdings \<Rightarrow> (permission \<times> uuid option) set" where
  "powers (R, A, G) =
     (if R \<noteq> {}
      then {(perm, so). \<exists>role \<in> R. perm \<in> set (role_permissions (Canonical role)) \<and>
              (tenant_wide_role role \<or> so \<in> Some ` A)}
      else {(perm, so). \<exists>(role, st) \<in> G. perm \<in> set (role_permissions (Legacy role)) \<and>
              (st = None \<or> so = st)})"

lemma held_roles_load: "cx_roles (load_canonical_access t u db) = held_roles (holdings t u db)"
  by (simp add: load_canonical_access_simps(1) holdings_def)

lemma held_stores_load: "cx_stores (load_canonical_access t u db) = held_stores (holdings t u db)"
  by (simp add: load_canonical_access_simps(2) holdings_def)

lemma ex_canonical_scopes:
  "(\<exists>scope \<in> set (canonical_scopes roles ids). P (sc_role scope) (sc_store scope)) \<longleftrightarrow>
     (\<exists>role \<in> set roles. if tenant_wide_role role then P (Canonical role) None
        else \<exists>s \<in> set ids. P (Canonical role) (Some s))"
  by (auto simp: canonical_scopes_def)

lemma principal_scopes:
  assumes "get_current_principal db claims now = Inr (p, sc)"
  defines "t \<equiv> ac_tenant claims" and "u \<equiv> ac_user claims"
  shows "(\<exists>scope \<in> set (pr_scopes p). P (sc_role scope) (sc_store scope)) \<longleftrightarrow>
    (if role_rows t u db \<noteq> {}
     then \<exists>role \<in> role_rows t u db. if tenant_wide_role role then P (Canonical role) None
            else \<exists>s \<in> assignment_rows t u db. P (Canonical role) (Some s)
     else \<exists>(role, st) \<in> grant_specs t u db. P (Legacy role) st)"
proof -
  define held where "held = sort_key grant_order (filter (\<lambda>g. ag_tenant g = t \<and> ag_user g = u) (id_grants db))"
  define roles where "roles = sort (map ur_role (filter (\<lambda>r. ur_tenant r = t \<and> ur_user r = u) (id_roles db)))"
  define ids where "ids = sort (map ua_store (filter (\<lambda>a. ua_tenant a = t \<and> ua_user a = u) (id_assignments db)))"
  have scopes: "pr_scopes p = (if roles \<noteq> [] then canonical_scopes roles ids
      else map (\<lambda>g. \<lparr>sc_role = Legacy (ag_role g), sc_store = ag_store g\<rparr>) held)"
    using assms(1)
    by (auto simp: get_current_principal_def Let_def t_def [symmetric] u_def [symmetric]
        held_def [symmetric] roles_def [symmetric] ids_def [symmetric] split: option.splits if_splits)
  have sets: "set roles = role_rows t u db" "set ids = assignment_rows t u db"
    "set held = set (load_grants t u db)"
    by (simp_all add: roles_def ids_def role_rows_def assignment_rows_def held_def load_grants_def)
  show ?thesis
  proof (cases "roles = []")
    case True
    then have "role_rows t u db = {}" using sets(1) by simp
    moreover have "(\<exists>scope \<in> set (pr_scopes p). P (sc_role scope) (sc_store scope)) \<longleftrightarrow>
        (\<exists>g \<in> set (load_grants t u db). P (Legacy (ag_role g)) (ag_store g))"
      using True by (simp add: scopes sets(3) del: in_load_grants)
    ultimately show ?thesis
      by (simp add: grant_specs_def existing_specs_def del: in_load_grants)
  next
    case False
    then have "role_rows t u db \<noteq> {}" using sets(1) by (cases roles) auto
    then show ?thesis using False ex_canonical_scopes [of roles ids P] by (simp add: scopes sets)
  qed
qed

lemma principal_powers:
  assumes "get_current_principal db claims now = Inr (p, sc)"
  shows "has_tenant_permission p perm \<longleftrightarrow> (perm, None) \<in> powers (holdings (ac_tenant claims) (ac_user claims) db)"
    "can_access_store p perm s \<longleftrightarrow> (perm, Some s) \<in> powers (holdings (ac_tenant claims) (ac_user claims) db)"
proof -
  have *: "(\<exists>scope \<in> set (pr_scopes p). perm \<in> set (role_permissions (sc_role scope)) \<and>
      (sc_store scope = None \<or> so = sc_store scope)) \<longleftrightarrow>
    (perm, so) \<in> powers (holdings (ac_tenant claims) (ac_user claims) db)" for so
    unfolding principal_scopes [OF assms,
        where P = "\<lambda>role st. perm \<in> set (role_permissions role) \<and> (st = None \<or> so = st)"] holdings_def
    by (auto split: if_splits)
  show "has_tenant_permission p perm \<longleftrightarrow> (perm, None) \<in> powers (holdings (ac_tenant claims) (ac_user claims) db)"
    using * [of None] unfolding has_tenant_permission_iff by metis
  show "can_access_store p perm s \<longleftrightarrow> (perm, Some s) \<in> powers (holdings (ac_tenant claims) (ac_user claims) db)"
    using * [of "Some s"] unfolding can_access_store_def has_tenant_permission_iff store_ids_for_permission_iff
    by metis
qed

subsection \<open>The invariant\<close>

text \<open>
  Legacy grants never contradict canonical roles: a user with role rows is an administrator, or holds
  exactly the grants that mirror its roles and stores.  A user without role rows has no assignments.
\<close>

fun mirrored :: "holdings \<Rightarrow> bool" where
  "mirrored (R, A, G) \<longleftrightarrow>
     (R = {} \<longrightarrow> A = {}) \<and>
     (R \<noteq> {} \<and> TENANT_ADMIN \<notin> R \<longrightarrow> G = compatibility_grant_specs R A) \<and>
     (\<forall>(role, st) \<in> G. st = None \<longleftrightarrow> role = CORPORATE_ADMIN)"

definition known :: "uuid \<Rightarrow> uuid \<Rightarrow> identity_db \<Rightarrow> bool" where
  "known t u db \<longleftrightarrow> (\<exists>st n. (u, t, st, n) \<in> set (accounts db))"

definition accounts_wf :: "identity_db \<Rightarrow> bool" where
  "accounts_wf db \<longleftrightarrow>
     distinct (map fst (accounts db)) \<and>
     (\<forall>t u. mirrored (holdings t u db)) \<and>
     (\<forall>t u. holdings t u db \<noteq> ({}, {}, {}) \<longrightarrow> known t u db)"

definition active_admin :: "uuid \<Rightarrow> uuid \<Rightarrow> identity_db \<Rightarrow> bool" where
  "active_admin t u db \<longleftrightarrow>
     (\<exists>n. (u, t, USER_ACTIVE, n) \<in> set (accounts db)) \<and> TENANT_ADMIN \<in> held_roles (holdings t u db)"

lemma map_fst_accounts: "map fst (accounts db) = map us_id (id_users db)"
  by (simp add: accounts_def account_def)

lemma wf_distinct: "accounts_wf db \<Longrightarrow> distinct (map us_id (id_users db))"
  by (simp add: accounts_wf_def map_fst_accounts)

lemma in_accounts_iff:
  "(u, t, st, n) \<in> set (accounts db) \<longleftrightarrow>
     (\<exists>v \<in> set (id_users db). us_id v = u \<and> us_tenant v = t \<and> us_status v = st \<and> us_token_version v = n)"
  by (auto simp: accounts_def account_def)

lemma account_unique:
  "accounts_wf db \<Longrightarrow> (u, x) \<in> set (accounts db) \<Longrightarrow> (u, y) \<in> set (accounts db) \<Longrightarrow> x = y"
  by (auto simp: accounts_wf_def dest: eq_key_imp_eq_value)

lemma compatibility_no_admin:
  "TENANT_ADMIN \<notin> R \<Longrightarrow> (role, st) \<in> compatibility_grant_specs R A \<Longrightarrow> role \<noteq> CORPORATE_ADMIN"
  by (auto simp: compatibility_grant_specs_def split: if_splits)

lemma compatibility_scoped:
  "(role, st) \<in> compatibility_grant_specs R A \<Longrightarrow> st = None \<longleftrightarrow> role = CORPORATE_ADMIN"
  by (auto simp: compatibility_grant_specs_def split: if_splits)

lemma mirrored_compatibility:
  "(R = {} \<longrightarrow> A = {}) \<Longrightarrow> mirrored (R, A, compatibility_grant_specs R A)"
  using compatibility_scoped by auto

lemma mirrored_admin_grant:
  assumes "mirrored (R, A, G)" "(CORPORATE_ADMIN, st) \<in> G"
  shows "TENANT_ADMIN \<in> held_roles (R, A, G)"
proof (cases "R = {}")
  case True
  have "canonical_of_legacy (fst (CORPORATE_ADMIN, st)) \<in> canonical_of_legacy ` fst ` G"
    using assms(2) by (intro imageI)
  then show ?thesis using True by simp
next
  case False
  then show ?thesis using assms compatibility_no_admin by auto
qed

text \<open>An administrator has every permission in the whole tenant.\<close>

lemma admin_powers:
  assumes "mirrored h" "TENANT_ADMIN \<in> held_roles h"
  shows "powers h = UNIV"
proof -
  obtain R A G where h: "h = (R, A, G)" by (cases h) auto
  have all: "perm \<in> set all_permissions" for perm by (cases perm) (simp_all add: all_permissions_def)
  show ?thesis
  proof (cases "R = {}")
    case True
    then obtain role st where g: "(role, st) \<in> G" "canonical_of_legacy role = TENANT_ADMIN"
      using assms(2) h by auto
    then have role: "role = CORPORATE_ADMIN" by (cases role) auto
    then have "st = None" using assms(1) h g(1) by auto
    then show ?thesis using True h g(1) role all by (auto intro!: bexI [of _ "(CORPORATE_ADMIN, None)"])
  next
    case False
    then show ?thesis using assms(2) h all by (auto simp: tenant_wide_role_def intro!: bexI [of _ TENANT_ADMIN])
  qed
qed

text \<open>Writing down the canonical half of what a legacy user holds gives no new power.\<close>

lemma canonicalized_powers:
  assumes m: "mirrored (R, A, G)"
    and same: "compatibility_grant_specs (held_roles (R, A, G)) (held_stores (R, A, G)) = G"
  shows "powers (held_roles (R, A, G), held_stores (R, A, G), G) = powers (R, A, G)"
proof (cases "TENANT_ADMIN \<in> held_roles (R, A, G)")
  case True
  let ?R = "held_roles (R, A, G)" and ?A = "held_stores (R, A, G)"
  have "mirrored (?R, ?A, compatibility_grant_specs ?R ?A)" using True by (intro mirrored_compatibility) auto
  moreover have "TENANT_ADMIN \<in> held_roles (?R, ?A, G)" using True by (auto simp del: held_stores.simps)
  ultimately have "powers (?R, ?A, G) = UNIV" using same by (intro admin_powers) simp_all
  then show ?thesis using admin_powers [OF m True] by simp
next
  case notadmin: False
  show ?thesis
  proof (cases "R = {}")
    case False
    then have "G = compatibility_grant_specs R A" using m notadmin by auto
    then have "held_stores (R, A, G) = A"
      by (auto simp: compatibility_grant_specs_def split: if_splits)
    then show ?thesis using False by simp
  next
    case True
    let ?R = "canonical_of_legacy ` fst ` G" and ?A = "held_stores (R, A, G)"
    have na: "TENANT_ADMIN \<notin> ?R" using notadmin True by simp
    have nowide: "role = STORE_MANAGER \<or> role = STORE_ASSOCIATE" if r: "role \<in> ?R" for role
    proof -
      from r obtain lr where lr: "role = canonical_of_legacy lr" by blast
      from na r have "role \<noteq> TENANT_ADMIN" by metis
      then show ?thesis unfolding lr by (cases lr) simp_all
    qed
    have single: ?thesis if B: "G = (\<lambda>s. (lr, Some s)) ` B" and B0: "B \<noteq> {}"
      and lr: "lr \<noteq> CORPORATE_ADMIN" for lr B
    proof -
      have R': "held_roles (R, A, G) = {canonical_of_legacy lr}" using B B0 True by (auto simp: image_image)
      have A': "held_stores (R, A, G) = B" using m True B by auto
      have "role_permissions (Canonical (canonical_of_legacy lr)) = role_permissions (Legacy lr)"
        "\<not> tenant_wide_role (canonical_of_legacy lr)"
        using lr by (cases lr; simp add: tenant_wide_role_def)+
      then show ?thesis unfolding R' A' using True B by auto
    qed
    show ?thesis
    proof (cases "G = {}")
      case True
      then show ?thesis using \<open>R = {}\<close> m by simp
    next
      case nonempty: False
      show ?thesis
      proof (cases "STORE_MANAGER \<in> ?R")
        case manager: True
        then have "G = (\<lambda>s. (LEGACY_STORE_MANAGER, Some s)) ` ?A"
          using same na True by (simp add: compatibility_grant_specs_def)
        moreover from this nonempty have "?A \<noteq> {}" by (metis image_empty)
        ultimately show ?thesis by (rule single) simp
      next
        case nomanager: False
        obtain g where "g \<in> G" using nonempty by blast
        then have "canonical_of_legacy (fst g) \<in> ?R" by blast
        then have "STORE_ASSOCIATE \<in> ?R" using nomanager nowide by metis
        then have "G = (\<lambda>s. (LEGACY_STORE_ASSOCIATE, Some s)) ` ?A"
          using same na True nomanager by (simp add: compatibility_grant_specs_def)
        moreover from this nonempty have "?A \<noteq> {}" by (metis image_empty)
        ultimately show ?thesis by (rule single) simp
      qed
    qed
  qed
qed

subsection \<open>Steps\<close>

text \<open>
  What a transaction may do to accounts and holdings: nothing; set the access of one user, bumping its
  token version if anything changed; add a user; suspend one; invalidate its tokens; reconcile the
  public reviewer; write down that a legacy administrator is one.  The last administrator of a tenant
  is neither suspended nor stripped of the role.
\<close>

definition others_keep :: "uuid \<Rightarrow> uuid \<Rightarrow> identity_db \<Rightarrow> identity_db \<Rightarrow> bool" where
  "others_keep t u db db' \<longleftrightarrow> (\<forall>t' u'. (t', u') \<noteq> (t, u) \<longrightarrow> holdings t' u' db' = holdings t' u' db)"

definition on_account :: "uuid \<Rightarrow> (user_status \<Rightarrow> user_status) \<Rightarrow> int \<Rightarrow> account list \<Rightarrow> account list" where
  "on_account u f k as = map (\<lambda>(i, t, st, n). if i = u then (i, t, f st, n + k) else (i, t, st, n)) as"

inductive account_step :: "identity_db \<Rightarrow> identity_db \<Rightarrow> bool" where
  quiet: "accounts db' = accounts db \<Longrightarrow> (\<And>t u. holdings t u db' = holdings t u db) \<Longrightarrow> account_step db db'"
| access: "known t u db \<Longrightarrow> holdings t u db' = (R, A, compatibility_grant_specs R A) \<Longrightarrow> access_valid R A \<Longrightarrow>
    others_keep t u db db' \<Longrightarrow>
    accounts db' =
      on_account u id (if R = held_roles (holdings t u db) \<and> A = held_stores (holdings t u db) \<and>
          compatibility_grant_specs R A = snd (snd (holdings t u db)) then 0 else 1) (accounts db) \<Longrightarrow>
    (TENANT_ADMIN \<in> held_roles (holdings t u db) \<Longrightarrow> TENANT_ADMIN \<notin> R \<Longrightarrow> another_admin t u db) \<Longrightarrow>
    account_step db db'"
| joined: "u \<notin> fst ` set (accounts db) \<Longrightarrow> accounts db' = accounts db @ [(u, t, USER_ACTIVE, 1)] \<Longrightarrow>
    holdings t u db' = (R, A, compatibility_grant_specs R A) \<Longrightarrow> (R = {} \<longrightarrow> A = {}) \<Longrightarrow>
    others_keep t u db db' \<Longrightarrow> account_step db db'"
| suspended: "(\<And>t' u'. holdings t' u' db' = holdings t' u' db) \<Longrightarrow> (u, t, st, n) \<in> set (accounts db) \<Longrightarrow>
    accounts db' = on_account u (\<lambda>_. USER_SUSPENDED) 1 (accounts db) \<Longrightarrow>
    (TENANT_ADMIN \<in> held_roles (holdings t u db) \<Longrightarrow> another_admin t u db) \<Longrightarrow> account_step db db'"
| invalidated: "(\<And>t' u'. holdings t' u' db' = holdings t' u' db) \<Longrightarrow>
    accounts db' = on_account u id 1 (accounts db) \<Longrightarrow> account_step db db'"
| reviewer: "known t u db \<Longrightarrow> TENANT_ADMIN \<notin> held_roles (holdings t u db) \<Longrightarrow>
    holdings t u db' = ({CORPORATE_USER}, {}, {}) \<Longrightarrow> others_keep t u db db' \<Longrightarrow> 0 \<le> k \<Longrightarrow>
    (k = 0 \<Longrightarrow> holdings t u db' = holdings t u db) \<Longrightarrow>
    accounts db' = on_account u (\<lambda>_. USER_ACTIVE) k (accounts db) \<Longrightarrow> account_step db db'"
| recorded_admin: "accounts db' = accounts db \<Longrightarrow> known t u db \<Longrightarrow> holdings t u db = (R, A, G) \<Longrightarrow>
    (CORPORATE_ADMIN, None) \<in> G \<Longrightarrow> holdings t u db' = (insert TENANT_ADMIN R, A, G) \<Longrightarrow>
    others_keep t u db db' \<Longrightarrow> account_step db db'"

lemma fst_on_account [simp]: "map fst (on_account u f k as) = map fst as"
  by (auto simp: on_account_def)

lemma in_on_account:
  "(i, t, st, n) \<in> set as \<Longrightarrow>
     (if i = u then (i, t, f st, n + k) else (i, t, st, n)) \<in> set (on_account u f k as)"
  by (force simp: on_account_def)

lemma on_account_back:
  "(i, t, st', n') \<in> set (on_account u f k as) \<Longrightarrow>
     \<exists>st n. (i, t, st, n) \<in> set as \<and> (if i = u then st' = f st \<and> n' = n + k else st' = st \<and> n' = n)"
  by (auto simp: on_account_def split: if_splits)

lemma known_on_account [simp]:
  "accounts db' = on_account u f k (accounts db) \<Longrightarrow> known t i db' \<longleftrightarrow> known t i db"
proof
  assume a: "accounts db' = on_account u f k (accounts db)"
  show "known t i db' \<Longrightarrow> known t i db"
    unfolding known_def a using on_account_back by blast
  assume "known t i db"
  then obtain st n where "(i, t, st, n) \<in> set (accounts db)" by (auto simp: known_def)
  from in_on_account [OF this, of u f k] show "known t i db'"
    unfolding known_def a by (auto split: if_splits)
qed

lemma known_cong: "accounts db' = accounts db \<Longrightarrow> known t u db' = known t u db"
  by (simp add: known_def)

lemma others_keepD: "others_keep t u db db' \<Longrightarrow> t' \<noteq> t \<or> u' \<noteq> u \<Longrightarrow> holdings t' u' db' = holdings t' u' db"
  by (auto simp: others_keep_def)

text \<open>The invariant survives every step.\<close>

lemma account_step_wf: "account_step db db' \<Longrightarrow> accounts_wf db \<Longrightarrow> accounts_wf db'"
proof (induction rule: account_step.induct)
  case (access t u db db' R A)
  have "holdings t' u' db' = (if t' = t \<and> u' = u then (R, A, compatibility_grant_specs R A) else holdings t' u' db)"
    for t' u' using access.hyps(2,4) by (auto simp: others_keep_def)
  moreover have "R = {} \<longrightarrow> A = {}" using access.hyps(3) by (auto simp: access_valid_def has_store_role_def)
  ultimately show ?case
    using access.prems access.hyps(1,5) mirrored_compatibility
    by (auto simp: accounts_wf_def)
next
  case (joined u db db' t R A)
  have "holdings t' u' db' = (if t' = t \<and> u' = u then (R, A, compatibility_grant_specs R A) else holdings t' u' db)"
    for t' u' using joined.hyps(3,5) by (auto simp: others_keep_def)
  moreover have "known t' u' db \<Longrightarrow> known t' u' db'" "known t u db'" for t' u'
    using joined.hyps(2) by (auto simp: known_def)
  ultimately show ?case
    using joined.prems joined.hyps(1,2,4) mirrored_compatibility by (auto simp: accounts_wf_def)
next
  case (reviewer t u db db' k)
  have "holdings t' u' db' = (if t' = t \<and> u' = u then ({CORPORATE_USER}, {}, {}) else holdings t' u' db)"
    for t' u' using reviewer.hyps(3,4) by (auto simp: others_keep_def)
  moreover have "mirrored ({CORPORATE_USER}, {}, {})" by (simp add: compatibility_grant_specs_def)
  ultimately show ?case using reviewer.prems reviewer.hyps(1,7) by (auto simp: accounts_wf_def)
next
  case (recorded_admin db' db t u R A G)
  have h: "holdings t' u' db' = (if t' = t \<and> u' = u then (insert TENANT_ADMIN R, A, G) else holdings t' u' db)"
    for t' u' using recorded_admin.hyps(5,6) by (auto simp: others_keep_def)
  have "mirrored (R, A, G)" using recorded_admin by (metis accounts_wf_def)
  then have "mirrored (insert TENANT_ADMIN R, A, G)" by auto
  moreover have "known t' u' db' = known t' u' db" for t' u' using recorded_admin.hyps(1) by (simp add: known_def)
  ultimately show ?case using recorded_admin.prems recorded_admin.hyps(1,2) h by (auto simp: accounts_wf_def)
next
  case (quiet db' db)
  then show ?case by (simp add: accounts_wf_def known_def)
next
  case (suspended db' db u t st n)
  have "known t' u' db' = known t' u' db" for t' u' by (rule known_on_account [OF suspended.hyps(3)])
  then show ?case using suspended.prems suspended.hyps(1,3) by (simp add: accounts_wf_def)
next
  case (invalidated db' db u)
  have "known t' u' db' = known t' u' db" for t' u' by (rule known_on_account [OF invalidated.hyps(2)])
  then show ?case using invalidated.prems invalidated.hyps(1,2) by (simp add: accounts_wf_def)
qed

subsection \<open>What no step does\<close>

text \<open>The check of the services finds an administrator that a request would find as well.\<close>

lemma another_admin_active:
  assumes wf: "accounts_wf db" and a: "another_admin t u db"
  obtains u' where "u' \<noteq> u" "active_admin t u' db"
proof -
  have active: "\<exists>n. (i, t, USER_ACTIVE, n) \<in> set (accounts db)"
    if h: "holdings t i db \<noteq> ({}, {}, {})" and act: "active_account i db" for i
  proof -
    obtain st n where known: "(i, t, st, n) \<in> set (accounts db)"
      using wf h unfolding accounts_wf_def known_def by blast
    from act obtain t' n' where "(i, t', USER_ACTIVE, n') \<in> set (accounts db)"
      by (auto simp: active_account_def list_ex_iff in_accounts_iff)
    with account_unique [OF wf known] known show ?thesis by auto
  qed
  consider r where "r \<in> set (id_roles db)" "ur_tenant r = t" "ur_user r \<noteq> u" "ur_role r = TENANT_ADMIN"
      "active_account (ur_user r) db"
    | g where "g \<in> set (id_grants db)" "ag_tenant g = t" "ag_user g \<noteq> u" "ag_role g = CORPORATE_ADMIN"
      "active_account (ag_user g) db"
    using a by (auto simp: another_admin_def ensure_another_active_tenant_admin_def ensure_def list_ex_iff
        split: if_splits)
  then show thesis
  proof cases
    case 1
    then have "TENANT_ADMIN \<in> role_rows t (ur_user r) db" by (auto simp: in_role_rows)
    then have "active_admin t (ur_user r) db"
      using active [of "ur_user r"] 1(5) by (auto simp: active_admin_def holdings_def)
    then show thesis using that 1(3) by blast
  next
    case 2
    then have G: "(CORPORATE_ADMIN, ag_store g) \<in> grant_specs t (ag_user g) db" by (auto simp: in_grant_specs)
    have "mirrored (holdings t (ag_user g) db)" using wf by (simp add: accounts_wf_def)
    then have "TENANT_ADMIN \<in> held_roles (holdings t (ag_user g) db)"
      using mirrored_admin_grant G unfolding holdings_def by blast
    moreover have "holdings t (ag_user g) db \<noteq> ({}, {}, {})" using G by (auto simp: holdings_def)
    ultimately show thesis
      using active [of "ag_user g"] 2(3,5) that by (auto simp: active_admin_def)
  qed
qed

text \<open>A tenant that has an active administrator keeps one.\<close>

lemma active_admin_frame:
  assumes "active_admin t i db" "i \<noteq> u" "accounts db' = on_account u f k (accounts db)"
    "holdings t i db' = holdings t i db"
  shows "active_admin t i db'"
proof -
  from assms(1) obtain n where "(i, t, USER_ACTIVE, n) \<in> set (accounts db)" by (auto simp: active_admin_def)
  from in_on_account [OF this, of u f k] assms show ?thesis by (auto simp: active_admin_def)
qed

lemma account_step_admin:
  "account_step db db' \<Longrightarrow> accounts_wf db \<Longrightarrow> active_admin t i db \<Longrightarrow> \<exists>j. active_admin t j db'"
proof (induction rule: account_step.induct)
  case (quiet db' db)
  then show ?case by (auto simp: active_admin_def)
next
  case (access t' u db db' R A)
  note keep = others_keepD [OF access.hyps(4)]
  show ?case
  proof (cases "i = u \<and> t = t'")
    case False
    have same: "holdings t i db' = holdings t i db" using keep [of t i] False by auto
    show ?thesis
    proof (cases "i = u")
      case True
      obtain n where "(i, t, USER_ACTIVE, n) \<in> set (accounts db)"
        using access.prems(2) by (auto simp: active_admin_def)
      from in_on_account [OF this, of u id] access.hyps(5) same True access.prems(2) show ?thesis
        by (auto simp: active_admin_def intro!: exI [of _ i])
    qed (use active_admin_frame [OF access.prems(2) _ access.hyps(5) same] in blast)
  next
    case True
    show ?thesis
    proof (cases "TENANT_ADMIN \<in> R")
      case r: True
      obtain n where "(i, t, USER_ACTIVE, n) \<in> set (accounts db)"
        using access.prems(2) by (auto simp: active_admin_def)
      from in_on_account [OF this, of u id] access.hyps(2,5) True r show ?thesis
        by (auto simp: active_admin_def intro!: exI [of _ i])
    next
      case False
      have "another_admin t u db"
        using access.hyps(6) access.prems(2) True False by (simp add: active_admin_def)
      then obtain j where j: "j \<noteq> u" "active_admin t j db" using another_admin_active access.prems(1) by blast
      then show ?thesis using active_admin_frame [OF j(2,1) access.hyps(5)] keep [of t j] by auto
    qed
  qed
next
  case (joined u db db' t' R A)
  have "(i, t, USER_ACTIVE, n) \<in> set (accounts db) \<Longrightarrow> i \<noteq> u" for n using joined.hyps(1) by force
  then have "i \<noteq> u" using joined.prems(2) by (auto simp: active_admin_def)
  then have "holdings t i db' = holdings t i db" using others_keepD [OF joined.hyps(5)] by blast
  then show ?case using joined.prems(2) joined.hyps(2) by (auto simp: active_admin_def)
next
  case (suspended db' db u t' st n)
  show ?case
  proof (cases "i = u")
    case True
    obtain m where "(i, t, USER_ACTIVE, m) \<in> set (accounts db)"
      using suspended.prems(2) by (auto simp: active_admin_def)
    then have "t = t'"
      using account_unique [OF suspended.prems(1) suspended.hyps(2)] True by blast
    then have "another_admin t u db"
      using suspended.hyps(4) suspended.prems(2) True by (simp add: active_admin_def)
    then obtain j where j: "j \<noteq> u" "active_admin t j db" using another_admin_active suspended.prems(1) by blast
    then show ?thesis using active_admin_frame [OF j(2,1) suspended.hyps(3)] suspended.hyps(1) by blast
  qed (use active_admin_frame [OF suspended.prems(2) _ suspended.hyps(3)] suspended.hyps(1) in blast)
next
  case (invalidated db' db u)
  obtain n where "(i, t, USER_ACTIVE, n) \<in> set (accounts db)"
    using invalidated.prems(2) by (auto simp: active_admin_def)
  from in_on_account [OF this, of u id 1] invalidated.hyps invalidated.prems(2) show ?case
    by (auto simp: active_admin_def split: if_splits intro!: exI [of _ i])
next
  case (reviewer t' u db db' k)
  show ?case
  proof (cases "i = u")
    case True
    then have "t \<noteq> t'" using reviewer.prems(2) reviewer.hyps(2) by (auto simp: active_admin_def)
    then have same: "holdings t i db' = holdings t i db" using others_keepD [OF reviewer.hyps(4)] by blast
    obtain n where "(i, t, USER_ACTIVE, n) \<in> set (accounts db)"
      using reviewer.prems(2) by (auto simp: active_admin_def)
    from in_on_account [OF this, of u "\<lambda>_. USER_ACTIVE" k] reviewer.hyps(7) same True reviewer.prems(2)
    show ?thesis by (auto simp: active_admin_def intro!: exI [of _ i])
  qed (use active_admin_frame [OF reviewer.prems(2) _ reviewer.hyps(7)] others_keepD [OF reviewer.hyps(4)] in blast)
next
  case (recorded_admin db' db t' u R A G)
  have "TENANT_ADMIN \<in> held_roles (holdings t i db')"
    using recorded_admin.prems(2) recorded_admin.hyps(5) others_keepD [OF recorded_admin.hyps(6), of t i]
    by (cases "t = t' \<and> i = u") (auto simp: active_admin_def)
  then show ?case using recorded_admin.prems(2) recorded_admin.hyps(1) by (auto simp: active_admin_def)
qed

text \<open>Token versions only grow, and while one stands, what its user may do stands.\<close>

lemma unchanged_if: "(if P then 0 else 1) = (0 :: int) \<Longrightarrow> P"
  by (cases P) simp_all

lemma on_account_versions:
  assumes "(i, t, st, n) \<in> set (accounts db)" "accounts db' = on_account u f k (accounts db)" "0 \<le> k"
    "(i = u \<longrightarrow> k = 0) \<Longrightarrow> P"
  shows "\<exists>st' n'. (i, t, st', n') \<in> set (accounts db') \<and> n \<le> n' \<and> (n' = n \<longrightarrow> P)"
proof (cases "i = u")
  case True
  then have "(i, t, f st, n + k) \<in> set (accounts db')" using in_on_account [OF assms(1), of u f k] assms(2) by simp
  then show ?thesis using assms(3,4) by (intro exI conjI impI) auto
next
  case False
  then have "(i, t, st, n) \<in> set (accounts db')" using in_on_account [OF assms(1), of u f k] assms(2) by simp
  then show ?thesis using assms(4) False by blast
qed

lemma account_step_powers:
  "account_step db db' \<Longrightarrow> accounts_wf db \<Longrightarrow> (i, t, st, n) \<in> set (accounts db) \<Longrightarrow>
     \<exists>st' n'. (i, t, st', n') \<in> set (accounts db') \<and> n \<le> n' \<and>
       (n' = n \<longrightarrow> powers (holdings t i db') = powers (holdings t i db))"
proof (induction rule: account_step.induct)
  case (access t' u db db' R A)
  let ?k = "if R = held_roles (holdings t' u db) \<and> A = held_stores (holdings t' u db) \<and>
          compatibility_grant_specs R A = snd (snd (holdings t' u db)) then 0 else 1 :: int"
  have "powers (holdings t i db') = powers (holdings t i db)" if k: "i = u \<longrightarrow> ?k = 0"
  proof (cases "t = t' \<and> i = u")
    case True
    obtain R0 A0 G where h: "holdings t i db = (R0, A0, G)" by (cases "holdings t i db") auto
    have m: "mirrored (R0, A0, G)" using access.prems(1) h by (metis accounts_wf_def)
    have h': "holdings t' u db = (R0, A0, G)" using h True by simp
    from k True have zero: "?k = 0" by blast
    have c: "R = held_roles (holdings t' u db) \<and> A = held_stores (holdings t' u db) \<and>
        compatibility_grant_specs R A = snd (snd (holdings t' u db))"
      by (rule unchanged_if [OF zero])
    have R: "R = held_roles (R0, A0, G)" and A: "A = held_stores (R0, A0, G)"
      and C: "compatibility_grant_specs R A = G"
      using c unfolding h' snd_conv by blast+
    have "powers (R, A, compatibility_grant_specs R A) = powers (R0, A0, G)"
      unfolding C unfolding R A by (rule canonicalized_powers [OF m C [unfolded R A]])
    then show ?thesis using access.hyps(2) True h by simp
  qed (use others_keepD [OF access.hyps(4), of t i] in auto)
  moreover have "0 \<le> ?k" by (cases "?k = 0") simp_all
  ultimately show ?case using on_account_versions [OF access.prems(2) access.hyps(5)] by blast
next
  case (joined u db db' t' R A)
  have "i \<noteq> u" using joined.hyps(1) joined.prems(2) by force
  then show ?case using joined.prems(2) joined.hyps(2) others_keepD [OF joined.hyps(5), of t i] by auto
next
  case (suspended db' db u t' st' n')
  show ?case by (rule on_account_versions [OF suspended.prems(2) suspended.hyps(3)]) (simp_all add: suspended.hyps(1))
next
  case (invalidated db' db u)
  show ?case by (rule on_account_versions [OF invalidated.prems(2) invalidated.hyps(2)]) (simp_all add: invalidated.hyps(1))
next
  case (reviewer t' u db db' k)
  have "powers (holdings t i db') = powers (holdings t i db)" if "i = u \<longrightarrow> k = 0"
    using that reviewer.hyps(6) others_keepD [OF reviewer.hyps(4), of t i] by metis
  then show ?case using on_account_versions [OF reviewer.prems(2) reviewer.hyps(7,5)] by blast
next
  case (recorded_admin db' db t' u R A G)
  have "powers (holdings t i db') = powers (holdings t i db)"
  proof (cases "t = t' \<and> i = u")
    case True
    have m: "mirrored (R, A, G)" using recorded_admin.prems(1) recorded_admin.hyps(3) by (metis accounts_wf_def)
    then have "powers (R, A, G) = UNIV"
      using mirrored_admin_grant recorded_admin.hyps(4) admin_powers by blast
    moreover have "powers (insert TENANT_ADMIN R, A, G) = UNIV" using m by (intro admin_powers) auto
    ultimately show ?thesis using True recorded_admin.hyps(3,5) by metis
  qed (use others_keepD [OF recorded_admin.hyps(6), of t i] in auto)
  then show ?case using recorded_admin.prems(2) recorded_admin.hyps(1) by auto
qed auto

end
