(* ===== verification/Identity_Life.thy ===== *)
theory Identity_Life
  imports Accounts
begin

text \<open>
  Users and sessions as logins, administrators and bootstrap commands leave them, one committed
  transaction after the other.  Every step is an \<open>account_step\<close>, keeps one head per family of
  refresh sessions, and only appends to the audit trail.
\<close>

subsection \<open>Steps of the services\<close>

inductive identity_step :: "identity_db \<Rightarrow> identity_db \<Rightarrow> bool" where
  logged_in: "authenticate_user env code email password db = (r, db') \<Longrightarrow> identity_step db db'"
| session_opened: "create_auth_session env u lifetime db = (r, db') \<Longrightarrow>
    ie_family_id env \<notin> se_family ` set (id_sessions db) \<Longrightarrow> identity_step db db'"
| session_rotated: "rotate_auth_session env code raw lifetime db = (r, db') \<Longrightarrow> identity_step db db'"
| logged_out: "identity_step db (revoke_auth_session now p db)"
| user_created: "validate_user_create parse_email body = Inr request \<Longrightarrow>
    create_canonical_user env scope p request seen db = (r, db') \<Longrightarrow> identity_step db db'"
| user_suspended: "suspend_user env p user_id db = Inr (r, db') \<Longrightarrow> identity_step db db'"
| access_replaced: "replace_user_access env scope p user_id request db = Inr (r, db') \<Longrightarrow> identity_step db db'"
| roles_replaced: "replace_user_roles env p user_id roles db = Inr (r, db') \<Longrightarrow> identity_step db db'"
| stores_replaced: "replace_user_store_assignments env scope p user_id ids db = Inr (r, db') \<Longrightarrow>
    identity_step db db'"
| admin_bootstrapped: "bootstrap_corporate_admin env fresh tenant_request user_request db = Inr (r, db') \<Longrightarrow>
    identity_step db db'"
| reviewer_bootstrapped: "bootstrap_public_reviewer env code request db = Inr (r, db') \<Longrightarrow> identity_step db db'"
| registry_changed: "identity_step db (db\<lparr>id_tenants := ts, id_stores := ss\<rparr>)"

subsection \<open>Every step is an account step\<close>

lemma on_account_id [simp]: "on_account u id 0 as = as"
  by (induction as) (auto simp: on_account_def)

lemma accounts_write_user:
  assumes "distinct (map us_id (id_users db))" "v \<in> set (id_users db)"
    and "us_id w = us_id v" "us_tenant w = us_tenant v" "us_status w = f (us_status v)"
      "us_token_version w = us_token_version v + k"
  shows "accounts (write_user w db) = on_account (us_id v) f k (accounts db)"
proof -
  have same: "x = v" if "x \<in> set (id_users db)" "us_id x = us_id v" for x
    using assms(1,2) that by (auto simp: distinct_map inj_on_def)
  then show ?thesis
    using assms(3-) by (auto simp: accounts_def write_user_def update_where_def on_account_def account_def)
qed

lemma accounts_write_user_same:
  assumes "distinct (map us_id (id_users db))" "v \<in> set (id_users db)" "account w = account v"
  shows "accounts (write_user w db) = accounts db"
  using accounts_write_user [OF assms(1,2), of w id 0] assms(3) by (simp add: account_def)

lemma quietI:
  "accounts db' = accounts db \<Longrightarrow> id_roles db' = id_roles db \<Longrightarrow> id_assignments db' = id_assignments db \<Longrightarrow>
     id_grants db' = id_grants db \<Longrightarrow> account_step db db'"
  by (rule quiet) (simp_all add: holdings_def role_rows_def assignment_rows_def grant_specs_def load_grants_def)

lemma accounts_cong: "id_users db' = id_users db \<Longrightarrow> accounts db' = accounts db"
  by (simp add: accounts_def)

lemma insert_session_frames:
  "insert_session s db = Inr db' \<Longrightarrow>
     db' = db\<lparr>id_sessions := id_sessions db @ [s]\<rparr> \<and> se_id s \<notin> se_id ` set (id_sessions db)"
  by (auto simp: insert_session_def split: if_splits)

definition session_only :: "identity_db \<Rightarrow> identity_db \<Rightarrow> bool" where
  "session_only db db' \<longleftrightarrow> (\<exists>ss. db' = db\<lparr>id_sessions := ss\<rparr>)"

lemma session_only_refl [simp]: "session_only db db"
  unfolding session_only_def by (rule exI [of _ "id_sessions db"]) simp

lemma session_only_updates [simp]:
  "session_only db (update_session i f db)" "session_only db (revoke_family t fam now db)"
  "session_only db (db\<lparr>id_sessions := ss\<rparr>)"
  by (auto simp: session_only_def update_session_def revoke_family_def)

lemma session_only_insert: "session_only db db1 \<Longrightarrow> session_only db (db1\<lparr>id_sessions := ss\<rparr>)"
  by (auto simp: session_only_def)

lemma session_only_quiet: "session_only db db' \<Longrightarrow> account_step db db' \<and> id_audit db' = id_audit db"
  by (auto simp: session_only_def accounts_def intro!: quietI)

lemma create_auth_session_only: "create_auth_session env u lifetime db = (r, db') \<Longrightarrow> session_only db db'"
  by (auto simp: create_auth_session_def Let_def split: sum.splits dest!: insert_session_frames)

text \<open>The five ends of an exchange.\<close>

definition presented :: "identity_env \<Rightarrow> string \<Rightarrow> string \<Rightarrow> identity_db \<Rightarrow> auth_session option" where
  "presented env code raw db =
     (case (parse_refresh_token raw, resolve_login_tenant code db) of
        (Inr (session_id, secret), Some t) \<Rightarrow>
          (case select_one (\<lambda>s. se_id s = session_id \<and> se_tenant s = tn_id t) (id_sessions db) of
             Some s \<Rightarrow> if ie_digest env secret = se_refresh_hash s then Some s else None
           | None \<Rightarrow> None)
      | _ \<Rightarrow> None)"

definition exchangeable :: "timestamp \<Rightarrow> auth_session \<Rightarrow> identity_db \<Rightarrow> user_row option" where
  "exchangeable now s db =
     (case find_user (se_tenant s) (se_user s) db of
        Some u \<Rightarrow> if us_status u = USER_ACTIVE \<and> tenant_status_in db (se_tenant s) = Some TENANT_ACTIVE \<and>
            us_token_version u = se_token_version s then Some u else None
      | None \<Rightarrow> None)"

lemma presented_in: "presented env code raw db = Some s \<Longrightarrow> s \<in> set (id_sessions db)"
  by (auto simp: presented_def split: sum.splits prod.splits option.splits if_splits dest: select_one_SomeD)

lemma presented_Some:
  assumes "presented env code raw db = Some s"
  obtains secret t where "parse_refresh_token raw = Inr (se_id s, secret)"
    "resolve_login_tenant code db = Some t" "ie_digest env secret = se_refresh_hash s"
    "select_one (\<lambda>s'. se_id s' = se_id s \<and> se_tenant s' = tn_id t) (id_sessions db) = Some s" "se_tenant s = tn_id t"
proof -
  obtain i secret t where *: "parse_refresh_token raw = Inr (i, secret)" "resolve_login_tenant code db = Some t"
    "select_one (\<lambda>s'. se_id s' = i \<and> se_tenant s' = tn_id t) (id_sessions db) = Some s"
    "ie_digest env secret = se_refresh_hash s"
    using assms by (auto simp: presented_def split: sum.splits prod.splits option.splits if_splits)
  moreover from select_one_SomeD [OF *(3)] have "se_id s = i" "se_tenant s = tn_id t" by auto
  ultimately show thesis by (intro that) auto
qed

lemma rotate_unfold:
  "rotate_auth_session env code raw lifetime db =
     (case presented env code raw db of
        None \<Rightarrow> (Inl (case parse_refresh_token raw of Inl e \<Rightarrow> e | Inr _ \<Rightarrow> invalid_refresh_token False), db)
      | Some s \<Rightarrow>
          if se_rotated_at s \<noteq> None
          then (Inl (invalid_refresh_token True), revoke_family (se_tenant s) (se_family s) (ie_now env) db)
          else if se_revoked_at s \<noteq> None \<or> se_expires_at s \<le> ie_now env then (Inl (invalid_refresh_token False), db)
          else case exchangeable (ie_now env) s db of
            None \<Rightarrow> (Inl (invalid_refresh_token False),
              update_session (se_id s) (\<lambda>s. s\<lparr>se_revoked_at := Some (ie_now env)\<rparr>) db)
          | Some u \<Rightarrow>
              (case insert_session (fst (new_auth_session_token env u lifetime (Some (se_family s))))
                  (update_session (se_id s)
                    (\<lambda>s. s\<lparr>se_rotated_at := Some (ie_now env), se_last_used_at := Some (ie_now env)\<rparr>) db) of
                 Inl e \<Rightarrow> (Inl e, db)
               | Inr db' \<Rightarrow> (Inr (u, new_auth_session_token env u lifetime (Some (se_family s))), db')))"
proof (cases "presented env code raw db")
  case None
  show ?thesis
  proof (cases "parse_refresh_token raw")
    case (Inl e)
    then show ?thesis using None by (simp add: rotate_auth_session_def)
  next
    case (Inr parsed)
    obtain i secret where parsed: "parsed = (i, secret)" by (cases parsed)
    show ?thesis
    proof (cases "resolve_login_tenant code db")
      case resolved: (Some t)
      then show ?thesis using None Inr parsed
        by (cases "select_one (\<lambda>s. se_id s = i \<and> se_tenant s = tn_id t) (id_sessions db)")
          (auto simp: rotate_auth_session_def presented_def)
    qed (use None Inr parsed in \<open>simp add: rotate_auth_session_def\<close>)
  qed
next
  case (Some s)
  obtain secret t where p: "parse_refresh_token raw = Inr (se_id s, secret)"
    "resolve_login_tenant code db = Some t" "ie_digest env secret = se_refresh_hash s"
    "select_one (\<lambda>s'. se_id s' = se_id s \<and> se_tenant s' = tn_id t) (id_sessions db) = Some s" "se_tenant s = tn_id t"
    by (rule presented_Some [OF Some])
  show ?thesis
    by (cases "find_user (tn_id t) (se_user s) db")
      (simp_all add: rotate_auth_session_def p Some exchangeable_def Let_def)
qed

lemma rotate_auth_session_only:
  assumes "rotate_auth_session env code raw lifetime db = (r, db')"
  shows "session_only db db'"
proof (cases "presented env code raw db")
  case None
  then show ?thesis using assms unfolding rotate_unfold by auto
next
  case (Some s)
  let ?new = "\<lambda>u. fst (new_auth_session_token env u lifetime (Some (se_family s)))"
  let ?db1 = "update_session (se_id s)
    (\<lambda>s. s\<lparr>se_rotated_at := Some (ie_now env), se_last_used_at := Some (ie_now env)\<rparr>) db"
  have "session_only db db2" if "insert_session (?new u) ?db1 = Inr db2" for u db2
    using insert_session_frames [OF that] by (auto intro!: session_only_insert)
  note new = this
  show ?thesis
  proof (cases "se_rotated_at s = None \<and> se_revoked_at s = None \<and> ie_now env < se_expires_at s")
    case False
    then show ?thesis using assms Some unfolding rotate_unfold by (auto simp: not_less split: if_splits)
  next
    case True
    show ?thesis
    proof (cases "exchangeable (ie_now env) s db")
      case None
      then show ?thesis using assms Some True unfolding rotate_unfold by auto
    next
      case (Some u)
      show ?thesis
        by (cases "insert_session (?new u) ?db1")
          (use assms True Some \<open>presented env code raw db = Some s\<close> new in \<open>simp_all add: rotate_unfold\<close>)
    qed
  qed
qed

text \<open>An attempt to log in changes nothing, or writes an audit record, or that and the row of the user.\<close>

lemma authenticate_user_ends:
  assumes "authenticate_user env code email password db = (r, db')"
  shows "db' = db \<or> (\<exists>t a act tg d. db' = add_audit_record env t a act tg d db) \<or>
    (\<exists>v w a act tg d. v \<in> set (id_users db) \<and> account w = account v \<and>
       db' = add_audit_record env (us_tenant v) a act tg d (write_user w db))"
proof (cases "resolve_login_tenant code db")
  case None
  then show ?thesis using assms
    by (cases "verify_password_and_update env password None") (simp add: authenticate_user_def)
next
  case (Some t)
  show ?thesis
  proof (cases "find_email (tn_id t) email db")
    case None
    then have "db' = add_audit_record env (tn_id t) None LOGIN_FAILED None
        [(''email'', JString email), (''result'', JString ''denied'')] db"
      using assms Some
      by (cases "verify_password_and_update env password None") (simp add: authenticate_user_def)
    then show ?thesis by blast
  next
    case user: (Some v)
    then have v: "v \<in> set (id_users db)" by (auto simp: find_email_def dest: select_one_SomeD)
    obtain ok rep where ok: "verify_password_and_update env password (Some (us_password_hash v)) = (ok, rep)"
      by (cases "verify_password_and_update env password (Some (us_password_hash v))")
    let ?w = "v\<lparr>us_password_hash := case_option (us_password_hash v) id rep, us_last_login_at := Some (ie_now env)\<rparr>"
    have "db' = add_audit_record env (tn_id t) (Some (us_id v)) LOGIN_FAILED (Some (us_id v))
          [(''email'', JString email), (''result'', JString ''denied'')] db \<or>
        db' = add_audit_record env (us_tenant v) (Some (us_id v)) LOGIN_SUCCEEDED (Some (us_id v))
          [(''email'', JString (us_email v))] (write_user ?w db)"
      using assms Some user ok by (simp add: authenticate_user_def Let_def split: if_splits)
    moreover have "account ?w = account v" by (simp add: account_def)
    ultimately show ?thesis using v by blast
  qed
qed

lemma audit_quiet: "account_step db (add_audit_record env t a act tg d db)"
  by (rule quietI) (simp_all add: frame_simps accounts_def)

lemma authenticate_user_step:
  assumes "authenticate_user env code email password db = (r, db')" "distinct (map us_id (id_users db))"
  shows "account_step db db'"
proof -
  consider "db' = db" | t a act tg d where "db' = add_audit_record env t a act tg d db"
    | v w a act tg d where "v \<in> set (id_users db)" "account w = account v"
        "db' = add_audit_record env (us_tenant v) a act tg d (write_user w db)"
    using authenticate_user_ends [OF assms(1)] by blast
  then show ?thesis
  proof cases
    case 3
    have "accounts db' = accounts db"
      using accounts_write_user_same [OF assms(2) 3(1,2)] by (simp add: 3(3) accounts_def frame_simps)
    then show ?thesis by (rule quietI) (simp_all add: 3(3) frame_simps)
  qed (auto intro: audit_quiet quietI)
qed

lemma revoke_auth_session_step:
  assumes "accounts_wf db"
  shows "account_step db (revoke_auth_session now p db)"
proof (cases "pr_session p")
  case None
  show ?thesis
  proof (cases "find_user (pr_tenant p) (pr_user p) db")
    case (Some v)
    have "accounts (write_user (v\<lparr>us_token_version := us_token_version v + 1\<rparr>) db) = on_account (us_id v) id 1 (accounts db)"
      by (rule accounts_write_user) (use wf_distinct [OF assms] find_user_SomeD [OF Some] in auto)
    then show ?thesis using None Some
      by (auto simp: revoke_auth_session_def holdings_def frame_simps intro!: invalidated)
  qed (use None in \<open>simp add: revoke_auth_session_def quietI\<close>)
next
  case (Some sid)
  then have "session_only db (revoke_auth_session now p db)"
    by (auto simp: revoke_auth_session_def split: option.split)
  then show ?thesis by (simp add: session_only_quiet)
qed

lemma accounts_bumped:
  assumes "id_users db' = bumped u (id_users db)"
  shows "accounts db' = on_account u id 1 (accounts db)"
  by (simp add: accounts_def assms bumped_def update_where_def on_account_def account_def)

lemma known_found: "find_user t u db \<noteq> None \<Longrightarrow> known t u db"
  by (auto simp: known_def in_accounts_iff dest!: find_user_SomeD)

lemma held_grants: "snd (snd (holdings t u db)) = grant_specs t u db"
  by (simp add: holdings_def)

lemma set_access_step:
  assumes set: "set_access t u R A db db'" and valid: "access_valid R A" and found: "find_user t u db \<noteq> None"
    and admin: "TENANT_ADMIN \<in> cx_roles (load_canonical_access t u db) \<Longrightarrow> TENANT_ADMIN \<notin> R \<Longrightarrow> another_admin t u db"
  shows "account_step db db'"
proof (rule access [OF known_found [OF found] _ valid])
  let ?same = "R = held_roles (holdings t u db) \<and> A = held_stores (holdings t u db) \<and>
    compatibility_grant_specs R A = snd (snd (holdings t u db))"
  have same: "?same \<longleftrightarrow> \<not> (R \<noteq> cx_roles (load_canonical_access t u db) \<or>
      A \<noteq> cx_stores (load_canonical_access t u db) \<or> compatibility_grant_specs R A \<noteq> grant_specs t u db)"
    unfolding held_roles_load held_stores_load held_grants by blast
  show "holdings t u db' = (R, A, compatibility_grant_specs R A)"
    using set by (simp add: set_access_def Let_def holdings_def)
  show "others_keep t u db db'"
    using set unfolding set_access_def Let_def others_keep_def holdings_def by blast
  show "accounts db' = on_account u id (if ?same then 0 else 1) (accounts db)"
  proof (cases ?same)
    case True
    then have "id_users db' = id_users db" using set same by (simp add: set_access_def Let_def)
    then show ?thesis unfolding if_P [OF True] by (simp add: accounts_def)
  next
    case False
    then have "id_users db' = bumped u (id_users db)"
      using set same unfolding set_access_def Let_def by (simp only: not_not if_True)
    then show ?thesis unfolding if_not_P [OF False] by (rule accounts_bumped)
  qed
  show "TENANT_ADMIN \<in> held_roles (holdings t u db) \<Longrightarrow> TENANT_ADMIN \<notin> R \<Longrightarrow> another_admin t u db"
    using admin unfolding held_roles_load .
qed

lemma unknown_holdings:
  "accounts_wf db \<Longrightarrow> u \<notin> us_id ` set (id_users db) \<Longrightarrow> holdings t u db = ({}, {}, {})"
  unfolding accounts_wf_def known_def in_accounts_iff by blast

lemma insert_user_Inr:
  "insert_user u db = Inr db' \<Longrightarrow>
     db' = db\<lparr>id_users := id_users db @ [u]\<rparr> \<and> us_id u \<notin> us_id ` set (id_users db)"
  by (auto simp: insert_user_def split: if_splits)

text \<open>A new account with its first roles, stores and grants.\<close>

lemma joinedI:
  assumes wf: "accounts_wf db" and fresh: "us_id u \<notin> us_id ` set (id_users db)"
    and u: "us_status u = USER_ACTIVE" "us_token_version u = 1" "us_tenant u = t"
    and users: "id_users db' = id_users db @ [u]"
    and h: "\<And>t' u'. holdings t' u' db' =
      (if t' = t \<and> u' = us_id u then (R, A, compatibility_grant_specs R A) else holdings t' u' db)"
    and valid: "R = {} \<longrightarrow> A = {}"
  shows "account_step db db'"
proof (rule joined [of "us_id u" db db' t R A])
  show "us_id u \<notin> fst ` set (accounts db)" using fresh by (auto simp: accounts_def account_def image_iff)
  show "accounts db' = accounts db @ [(us_id u, t, USER_ACTIVE, 1)]"
    using users u by (simp add: accounts_def account_def)
qed (use h valid in \<open>auto simp: others_keep_def\<close>)

lemma validated_pair:
  "validate_user_create parse_email body = Inr r \<Longrightarrow> access_valid (set (uc_roles r)) (set (uc_store_ids r)) \<and> uc_roles r \<noteq> []"
  by (auto simp: validate_user_create_def and_then_Inr_iff validate_access_pair_def access_valid_def
      split: option.splits)

lemma create_canonical_user_step:
  assumes wf: "accounts_wf db" and valid: "validate_user_create parse_email body = Inr request"
    and create: "create_canonical_user env scope p request seen db = (r, db')"
  shows "account_step db db'"
proof (cases r)
  case (Inl e)
  then have "db' = db" using create
    by (auto simp: create_canonical_user_def Let_def split: if_splits sum.splits)
  then show ?thesis by (simp add: quietI)
next
  case (Inr rec)
  define R where "R = set (uc_roles request)"
  define A where "A = set (uc_store_ids request)"
  define u where "u = new_user env (pr_tenant p) (uc_email request) (uc_display_name request) (uc_password request)"
  obtain db1 where ins: "insert_user u db = Inr db1"
    and db': "\<exists>d. db' = add_audit_record env (pr_tenant p) (Some (pr_user p)) USER_CREATED (Some (us_id u)) d
      (persist_compatibility_grants (pr_tenant p) (us_id u) (compatibility_grant_specs R A)
        (persist_assignment_rows (pr_tenant p) (us_id u) A (persist_role_rows (pr_tenant p) (us_id u) R db1)))"
    using create Inr
    by (auto simp: create_canonical_user_def Let_def R_def A_def u_def split: if_splits sum.splits)
  note db1 = insert_user_Inr [OF ins]
  have base: "role_rows t' u' db1 = role_rows t' u' db" "assignment_rows t' u' db1 = assignment_rows t' u' db"
    "grant_specs t' u' db1 = grant_specs t' u' db" for t' u'
    using db1 by (simp_all add: role_rows_def assignment_rows_def grant_specs_def load_grants_def)
  show ?thesis
  proof (rule joinedI [OF wf, of u "pr_tenant p" db' R A])
    show "holdings t' u' db' = (if t' = pr_tenant p \<and> u' = us_id u then (R, A, compatibility_grant_specs R A)
        else holdings t' u' db)" for t' u'
      using db' by (auto simp: holdings_def frame_simps base A_def)
    show "R = {} \<longrightarrow> A = {}" using validated_pair [OF valid] by (simp add: R_def)
  qed (use db' db1 in \<open>auto simp: u_def new_user_def frame_simps\<close>)
qed

text \<open>What the check before a suspension sees of an administrator.\<close>

lemma admin_is_noticed:
  assumes wf: "accounts_wf db" and admin: "TENANT_ADMIN \<in> held_roles (holdings t u db)"
    and ok: "ensure_not_suspending_last_tenant_admin t u (load_grants t u db) db = Inr x"
  shows "another_admin t u db"
proof -
  have "list_ex (\<lambda>r. ur_tenant r = t \<and> ur_user r = u \<and> ur_role r = TENANT_ADMIN) (id_roles db) \<or>
      list_ex (\<lambda>g. ag_role g = CORPORATE_ADMIN \<and> ag_store g = None) (load_grants t u db)"
  proof (cases "role_rows t u db = {}")
    case True
    then obtain role st where g: "(role, st) \<in> grant_specs t u db" "canonical_of_legacy role = TENANT_ADMIN"
      using admin by (auto simp: holdings_def)
    then have role: "role = CORPORATE_ADMIN" by (cases role) auto
    have "mirrored (holdings t u db)" using wf by (simp add: accounts_wf_def)
    then have "st = None" using g(1) role by (auto simp: holdings_def)
    then show ?thesis using g(1) role by (auto simp: in_grant_specs list_ex_iff)
  next
    case False
    then have "TENANT_ADMIN \<in> role_rows t u db" using admin by (simp add: holdings_def)
    then show ?thesis by (auto simp: in_role_rows list_ex_iff)
  qed
  then have "ensure_another_active_tenant_admin t u db = Inr x"
    using ok by (simp add: ensure_not_suspending_last_tenant_admin_def)
  then show ?thesis by (simp add: another_admin_def)
qed

lemma suspend_user_ends:
  assumes "suspend_user env p user_id db = Inr (r, db')"
  obtains v where "find_user (pr_tenant p) user_id db = Some v" "user_id \<noteq> pr_user p"
    "ensure_can_suspend p (load_grants (pr_tenant p) user_id db) = Inr ()"
    "db' = db \<and> us_status v = USER_SUSPENDED \<or>
     us_status v = USER_ACTIVE \<and>
     ensure_not_suspending_last_tenant_admin (pr_tenant p) user_id (load_grants (pr_tenant p) user_id db) db = Inr () \<and>
     (\<exists>d. db' = add_audit_record env (pr_tenant p) (Some (pr_user p)) USER_WAS_SUSPENDED (Some user_id) d
       (write_user (v\<lparr>us_status := USER_SUSPENDED, us_token_version := us_token_version v + 1\<rparr>) db))"
proof -
  from assms obtain v where v: "find_user (pr_tenant p) user_id db = Some v"
    by (auto simp: suspend_user_def and_then_Inr_iff lock_access_target_Inr_iff)
  then have "us_id v = user_id" by (simp add: find_user_SomeD)
  then show thesis
    using assms v by (cases "us_status v")
      (auto simp: suspend_user_def and_then_Inr_iff lock_access_target_Inr_iff Let_def intro!: that)
qed

lemma suspend_user_step:
  assumes wf: "accounts_wf db" and s: "suspend_user env p user_id db = Inr (r, db')"
  shows "account_step db db'"
proof -
  obtain v where v: "find_user (pr_tenant p) user_id db = Some v"
    and ends: "db' = db \<and> us_status v = USER_SUSPENDED \<or>
     us_status v = USER_ACTIVE \<and>
     ensure_not_suspending_last_tenant_admin (pr_tenant p) user_id (load_grants (pr_tenant p) user_id db) db = Inr () \<and>
     (\<exists>d. db' = add_audit_record env (pr_tenant p) (Some (pr_user p)) USER_WAS_SUSPENDED (Some user_id) d
       (write_user (v\<lparr>us_status := USER_SUSPENDED, us_token_version := us_token_version v + 1\<rparr>) db))"
    by (rule suspend_user_ends [OF s])
  note u = find_user_SomeD [OF v]
  from ends show ?thesis
  proof (elim disjE conjE exE)
    fix d
    let ?w = "v\<lparr>us_status := USER_SUSPENDED, us_token_version := us_token_version v + 1\<rparr>"
    assume check: "ensure_not_suspending_last_tenant_admin (pr_tenant p) user_id (load_grants (pr_tenant p) user_id db) db = Inr ()"
      and db': "db' = add_audit_record env (pr_tenant p) (Some (pr_user p)) USER_WAS_SUSPENDED (Some user_id) d (write_user ?w db)"
    have "accounts (write_user ?w db) = on_account (us_id v) (\<lambda>_. USER_SUSPENDED) 1 (accounts db)"
      by (rule accounts_write_user) (use wf_distinct [OF wf] u in auto)
    then have "accounts db' = on_account user_id (\<lambda>_. USER_SUSPENDED) 1 (accounts db)"
      using u by (simp add: db' accounts_def frame_simps)
    then show ?thesis
      by (rule suspended [rotated 2])
        (use u admin_is_noticed [OF wf _ check] in \<open>auto simp: db' holdings_def frame_simps in_accounts_iff\<close>)
  qed (simp add: quietI)
qed

lemma bootstrap_tenant_row_frames:
  "bootstrap_tenant_row fresh request db = Inr (t, db1) \<Longrightarrow> \<exists>ts. db1 = db\<lparr>id_tenants := ts\<rparr>"
  by (auto simp: bootstrap_tenant_row_def Let_def and_then_Inr_iff insert_tenant_def split: option.splits if_splits)
    (metis identity_db.surjective identity_db.update_convs(1))+

lemma tenants_frames:
  "holdings t u (db\<lparr>id_tenants := ts\<rparr>) = holdings t u db" "accounts (db\<lparr>id_tenants := ts\<rparr>) = accounts db"
  "accounts_wf (db\<lparr>id_tenants := ts\<rparr>) = accounts_wf db"
proof -
  show h: "holdings t u (db\<lparr>id_tenants := ts\<rparr>) = holdings t u db" for t u
    by (simp add: holdings_def role_rows_def assignment_rows_def grant_specs_def load_grants_def)
  show a: "accounts (db\<lparr>id_tenants := ts\<rparr>) = accounts db" by (simp add: accounts_def)
  show "accounts_wf (db\<lparr>id_tenants := ts\<rparr>) = accounts_wf db"
    by (simp add: accounts_wf_def known_def h a)
qed

text \<open>A change of the tenants in front of a step does not matter to accounts.\<close>

lemma another_admin_tenants: "another_admin t u (db\<lparr>id_tenants := ts\<rparr>) = another_admin t u db"
  by (simp add: another_admin_def ensure_another_active_tenant_admin_def active_account_def)

lemma role_rows_append:
  "id_roles db' = id_roles db @ [r] \<Longrightarrow> role_rows t u db' =
     (if t = ur_tenant r \<and> u = ur_user r then insert (ur_role r) (role_rows t u db) else role_rows t u db)"
  by (auto simp: role_rows_def)

lemma grant_specs_append:
  "id_grants db' = id_grants db @ [g] \<Longrightarrow> grant_specs t u db' =
     (if t = ag_tenant g \<and> u = ag_user g then insert (ag_role g, ag_store g) (grant_specs t u db)
      else grant_specs t u db)"
  by (auto simp: grant_specs_alt)

lemma holdings_append_role:
  assumes "id_roles db' = id_roles db @ [\<lparr>ur_tenant = t', ur_user = u', ur_role = role\<rparr>]"
    "id_assignments db' = id_assignments db" "id_grants db' = id_grants db"
  shows "holdings t u db' =
     (if t = t' \<and> u = u' then (insert role (role_rows t u db), assignment_rows t u db, grant_specs t u db)
      else holdings t u db)"
  using role_rows_append [OF assms(1)] assignment_rows_cong [OF assms(2)] grant_specs_cong [OF assms(3)]
  by (simp add: holdings_def)

lemma holdings_append_admin:
  assumes "id_roles db' = id_roles db @ [\<lparr>ur_tenant = t', ur_user = u', ur_role = role\<rparr>]"
    "id_assignments db' = id_assignments db"
    "id_grants db' = id_grants db @ [\<lparr>ag_tenant = t', ag_user = u', ag_role = lr, ag_store = st\<rparr>]"
  shows "holdings t u db' =
     (if t = t' \<and> u = u' then (insert role (role_rows t u db), assignment_rows t u db,
        insert (lr, st) (grant_specs t u db)) else holdings t u db)"
  using role_rows_append [OF assms(1)] assignment_rows_cong [OF assms(2)] grant_specs_append [OF assms(3)]
  by (simp add: holdings_def)

lemma bootstrap_corporate_admin_step:
  assumes wf: "accounts_wf db"
    and b: "bootstrap_corporate_admin env fresh tenant_request request db = Inr (r, db')"
  shows "account_step db db'"
proof -
  obtain t db1 where t: "bootstrap_tenant_row fresh tenant_request db = Inr (t, db1)"
    using b by (auto simp: bootstrap_corporate_admin_def and_then_Inr_iff split: if_splits)
  obtain ts where db1: "db1 = db\<lparr>id_tenants := ts\<rparr>" using bootstrap_tenant_row_frames [OF t] by blast
  note same = tenants_frames [where db = db and ts = ts, folded db1]
  have wf1: "accounts_wf db1" using wf same(3) by simp
  show ?thesis
  proof (cases "configured_admin (tn_id t) (lc_email request) db1")
    case (Some ug)
    obtain v g where ug: "ug = (v, g)" by (cases ug)
    have vg: "v \<in> set (id_users db1)" "us_tenant v = tn_id t" "g \<in> set (id_grants db1)"
      "admin_grant (tn_id t) g" "ag_user g = us_id v"
      using Some ug by (auto simp: configured_admin_def dest!: select_one_SomeD)
    have "db' = db \<or> db' = db1\<lparr>id_roles := id_roles db1 @
        [\<lparr>ur_tenant = tn_id t, ur_user = us_id v, ur_role = TENANT_ADMIN\<rparr>]\<rparr>"
      using b t Some ug by (auto simp: bootstrap_corporate_admin_def split: if_splits)
    then show ?thesis
    proof
      assume db': "db' = db1\<lparr>id_roles := id_roles db1 @ [\<lparr>ur_tenant = tn_id t, ur_user = us_id v, ur_role = TENANT_ADMIN\<rparr>]\<rparr>"
      show ?thesis
      proof (rule recorded_admin [where t = "tn_id t" and u = "us_id v"])
        show "accounts db' = accounts db" using same(2) by (simp add: db' accounts_def)
        show "known (tn_id t) (us_id v) db"
          using vg(1,2) unfolding known_def same(2) [symmetric] by (auto simp: in_accounts_iff)
        show "holdings (tn_id t) (us_id v) db = (role_rows (tn_id t) (us_id v) db1,
            assignment_rows (tn_id t) (us_id v) db1, grant_specs (tn_id t) (us_id v) db1)"
          unfolding same(1) [symmetric] by (simp add: holdings_def)
        show "(CORPORATE_ADMIN, None) \<in> grant_specs (tn_id t) (us_id v) db1"
          using vg(3-5) by (auto simp: in_grant_specs admin_grant_def)
      qed (use same(1) holdings_append_role [of db' db1 "tn_id t" "us_id v" TENANT_ADMIN] in
          \<open>auto simp: db' others_keep_def\<close>)
    qed (simp add: quietI)
  next
    case None
    define u where "u = new_user env (tn_id t) (lc_email request) (lc_display_name request) (lc_password request)"
    obtain db2 where ins: "insert_user u db1 = Inr db2"
      and db': "\<exists>d. db' = add_audit_record env (tn_id t) None USER_CREATED (Some (us_id u)) d
        (db2\<lparr>id_grants := id_grants db2 @ [\<lparr>ag_tenant = tn_id t, ag_user = us_id u, ag_role = CORPORATE_ADMIN, ag_store = None\<rparr>],
             id_roles := id_roles db2 @ [\<lparr>ur_tenant = tn_id t, ur_user = us_id u, ur_role = TENANT_ADMIN\<rparr>]\<rparr>)"
      using b t None
      by (auto simp: bootstrap_corporate_admin_def and_then_Inr_iff Let_def u_def split: if_splits)
    note db2 = insert_user_Inr [OF ins]
    have empty: "holdings (tn_id t) (us_id u) db1 = ({}, {}, {})" using unknown_holdings [OF wf1] db2 by blast
    then have parts: "role_rows (tn_id t) (us_id u) db1 = {}" "assignment_rows (tn_id t) (us_id u) db1 = {}"
      "grant_specs (tn_id t) (us_id u) db1 = {}"
      by (simp_all add: holdings_def)
    have app: "holdings t' u' db' = (if t' = tn_id t \<and> u' = us_id u
        then (insert TENANT_ADMIN (role_rows t' u' db1), assignment_rows t' u' db1,
          insert (CORPORATE_ADMIN, None) (grant_specs t' u' db1)) else holdings t' u' db1)" for t' u'
      by (rule holdings_append_admin) (use db' db2 in \<open>auto simp: frame_simps\<close>)
    show ?thesis
    proof (rule joinedI [OF wf, of u "tn_id t" db' "{TENANT_ADMIN}" "{}"])
      show "holdings t' u' db' = (if t' = tn_id t \<and> u' = us_id u
          then ({TENANT_ADMIN}, {}, compatibility_grant_specs {TENANT_ADMIN} {}) else holdings t' u' db)" for t' u'
        using app [of t' u'] parts by (auto simp: same(1) compatibility_grant_specs_def)
    qed (use db' db2 db1 in \<open>auto simp: u_def new_user_def frame_simps\<close>)
  qed
qed

lemma canonical_admin_iff [simp]:
  "canonical_of_legacy r = TENANT_ADMIN \<longleftrightarrow> r = CORPORATE_ADMIN"
  "TENANT_ADMIN = canonical_of_legacy r \<longleftrightarrow> r = CORPORATE_ADMIN"
  by (cases r; simp)+

lemma bootstrap_public_reviewer_step:
  assumes wf: "accounts_wf db" and b: "bootstrap_public_reviewer env code request db = Inr (r, db')"
  shows "account_step db db'"
proof -
  obtain t where t: "resolve_login_tenant (str_lower (strip code)) db = Some t" "tn_status t = TENANT_ACTIVE"
    using b by (auto simp: bootstrap_public_reviewer_def split: if_splits option.splits)
  show ?thesis
  proof (cases "find_email (tn_id t) (uc_email request) db")
    case None
    define u where "u = new_user env (tn_id t) (uc_email request) (uc_display_name request) (uc_password request)"
    obtain db1 where ins: "insert_user u db = Inr db1"
      and db': "\<exists>d. db' = add_audit_record env (tn_id t) None USER_CREATED (Some (us_id u)) d
        (db1\<lparr>id_roles := id_roles db1 @ [\<lparr>ur_tenant = tn_id t, ur_user = us_id u, ur_role = CORPORATE_USER\<rparr>]\<rparr>)"
      using b t None
      by (auto simp: bootstrap_public_reviewer_def Let_def u_def split: if_splits sum.splits)
    note db1 = insert_user_Inr [OF ins]
    have empty: "holdings (tn_id t) (us_id u) db = ({}, {}, {})" using unknown_holdings [OF wf] db1 by blast
    then have parts: "role_rows (tn_id t) (us_id u) db = {}" "assignment_rows (tn_id t) (us_id u) db = {}"
      "grant_specs (tn_id t) (us_id u) db = {}"
      by (simp_all add: holdings_def)
    have app: "holdings t' u' db' = (if t' = tn_id t \<and> u' = us_id u
        then (insert CORPORATE_USER (role_rows t' u' db), assignment_rows t' u' db, grant_specs t' u' db)
        else holdings t' u' db)" for t' u'
      by (rule holdings_append_role) (use db' db1 in \<open>auto simp: frame_simps\<close>)
    show ?thesis
    proof (rule joinedI [OF wf, of u "tn_id t" db' "{CORPORATE_USER}" "{}"])
      show "holdings t' u' db' = (if t' = tn_id t \<and> u' = us_id u
          then ({CORPORATE_USER}, {}, compatibility_grant_specs {CORPORATE_USER} {}) else holdings t' u' db)" for t' u'
        using app [of t' u'] parts by (auto simp: compatibility_grant_specs_def)
    qed (use db' db1 in \<open>auto simp: u_def new_user_def frame_simps\<close>)
  next
    case (Some v)
    then have v: "v \<in> set (id_users db)" "us_tenant v = tn_id t"
      by (auto simp: find_email_def dest: select_one_SomeD)
    let ?R = "role_rows (tn_id t) (us_id v) db" and ?A = "assignment_rows (tn_id t) (us_id v) db"
    let ?G = "load_grants (tn_id t) (us_id v) db"
    define up where "up = reviewer_changes env request v ?R ?A ?G"
    define db4 where "db4 =
      (let db1 = write_user (rv_user up) db;
           db2 = (if ?R \<noteq> {CORPORATE_USER} then persist_role_rows (tn_id t) (us_id v) {CORPORATE_USER} db1 else db1);
           db3 = (if ?A \<noteq> {} then persist_assignment_rows (tn_id t) (us_id v) {} db2 else db2)
       in if ?G \<noteq> [] then delete_grants (tn_id t) (us_id v) db3 else db3)"
    have first: "set (uc_roles request) = {CORPORATE_USER} \<and> uc_store_ids request = []"
      using b by (auto simp: bootstrap_public_reviewer_def split: if_splits)
    have noadmin: "\<not> (TENANT_ADMIN \<in> ?R \<or> list_ex (\<lambda>g. ag_role g = CORPORATE_ADMIN) ?G)"
      by (rule ccontr) (use b t Some first in \<open>simp add: bootstrap_public_reviewer_def\<close>)
    then have "\<not> ie_conflict env"
      by (intro notI) (use b t Some first in \<open>simp add: bootstrap_public_reviewer_def\<close>)
    then have "Inr (r, db') = (Inr (\<lparr>cu_user = rv_user up, cu_roles = [CORPORATE_USER], cu_store_ids = []\<rparr>,
        if rv_changes up = [] then db4
        else add_audit_record env (tn_id t) None USER_ACCESS_CHANGED (Some (us_id v))
          [(''email'', JString (us_email (rv_user up))), (''bootstrap'', JBool True),
           (''public_reviewer'', JBool True), (''changes'', json_strings (sort (rv_changes up))),
           (''new_token_version'', JInt (us_token_version (rv_user up)))] db4) ::
        (canonical_user_record \<times> identity_db) outcome)"
      unfolding b [symmetric] using t Some first noadmin
      by (simp only: bootstrap_public_reviewer_def up_def db4_def Let_def option.case if_False if_True simp_thms)
    then have db': "db' = db4 \<or> (\<exists>a act tg d. db' = add_audit_record env (tn_id t) a act tg d db4)"
      by (cases "rv_changes up = []") auto
    obtain k where k: "0 \<le> k" "us_token_version (rv_user up) = us_token_version v + k"
        "k = 0 \<Longrightarrow> ?R = {CORPORATE_USER} \<and> ?A = {} \<and> ?G = []"
      and w: "us_id (rv_user up) = us_id v" "us_tenant (rv_user up) = us_tenant v" "us_status (rv_user up) = USER_ACTIVE"
      by (rule that [of "if us_token_version (rv_user up) = us_token_version v then 0 else 1"])
        (auto simp: up_def reviewer_changes_def Let_def split: prod.splits if_splits)
    have G: "?G = [] \<longleftrightarrow> grant_specs (tn_id t) (us_id v) db = {}"
      by (simp add: grant_specs_def existing_specs_def)
    have h: "holdings t' u' db' = (if t' = tn_id t \<and> u' = us_id v then ({CORPORATE_USER}, {}, {}) else holdings t' u' db)"
      for t' u'
    proof -
      let ?me = "t' = tn_id t \<and> u' = us_id v"
      have "role_rows t' u' db4 = (if ?me then {CORPORATE_USER} else role_rows t' u' db)"
        by (cases "?R = {CORPORATE_USER}") (auto simp: db4_def Let_def frame_simps)
      moreover have "assignment_rows t' u' db4 = (if ?me then {} else assignment_rows t' u' db)"
        by (cases "?A = {}") (auto simp: db4_def Let_def frame_simps)
      moreover have "grant_specs t' u' db4 = (if ?me then {} else grant_specs t' u' db)"
        using G by (cases "?G = []") (auto simp: db4_def Let_def frame_simps)
      ultimately have "holdings t' u' db4 = (if ?me then ({CORPORATE_USER}, {}, {}) else holdings t' u' db)"
        by (simp add: holdings_def)
      moreover have "holdings t' u' db' = holdings t' u' db4"
        using db' by (auto simp: holdings_def frame_simps)
      ultimately show ?thesis by simp
    qed
    have acc: "accounts db' = on_account (us_id v) (\<lambda>_. USER_ACTIVE) k (accounts db)"
      using db' accounts_write_user [OF wf_distinct [OF wf] v(1), of "rv_user up" "\<lambda>_. USER_ACTIVE" k] w k(2)
      by (auto simp: db4_def Let_def accounts_def frame_simps)
    show ?thesis
    proof (rule reviewer [OF _ _ _ _ k(1) _ acc, where t = "tn_id t"])
      show "known (tn_id t) (us_id v) db" using v by (auto simp: known_def in_accounts_iff)
      show "TENANT_ADMIN \<notin> held_roles (holdings (tn_id t) (us_id v) db)"
        using noadmin by (auto simp: holdings_def in_grant_specs list_ex_iff Ball_def)
      show "k = 0 \<Longrightarrow> holdings (tn_id t) (us_id v) db' = holdings (tn_id t) (us_id v) db"
        using k(3) h G by (auto simp: holdings_def)
    qed (use h in \<open>auto simp: others_keep_def\<close>)
  qed
qed

text \<open>The services refine the abstract account steps.\<close>

lemma identity_step_account:
  assumes "identity_step db db'" "accounts_wf db"
  shows "account_step db db'"
  using assms
proof (induction rule: identity_step.induct)
  case (logged_in env code email password db r db')
  then show ?case by (auto intro: authenticate_user_step wf_distinct)
next
  case (session_opened env u lifetime db r db')
  then show ?case using session_only_quiet create_auth_session_only by blast
next
  case (session_rotated env code raw lifetime db r db')
  then show ?case using session_only_quiet rotate_auth_session_only by blast
next
  case (access_replaced env scope p user_id request db r db')
  show ?case
    using replace_user_access_sets [OF access_replaced.hyps wf_distinct [OF access_replaced.prems]]
    by (blast intro: set_access_step)
next
  case (roles_replaced env p user_id roles db r db')
  show ?case
    using replace_user_roles_sets [OF roles_replaced.hyps wf_distinct [OF roles_replaced.prems]]
    by (blast intro: set_access_step)
next
  case (stores_replaced env scope p user_id ids db r db')
  show ?case
    using replace_user_store_assignments_sets [OF stores_replaced.hyps wf_distinct [OF stores_replaced.prems]]
    by (blast intro: set_access_step)
next
  case (registry_changed db ts ss)
  show ?case by (rule quietI) (simp_all add: accounts_def)
qed (auto intro: revoke_auth_session_step create_canonical_user_step suspend_user_step
    bootstrap_corporate_admin_step bootstrap_public_reviewer_step)

interpretation accounts: step_invariant accounts_wf identity_step accounts_wf
  by unfold_locales (auto intro: account_step_wf identity_step_account)

end
