(* ===== verification/Sessions.thy ===== *)
theory Sessions
  imports Identity_Life
begin

text \<open>
  Refresh sessions over time: a session keeps its identity and never comes stays from being rotated or
  revoked, every family has at most one session that can still be exchanged, and once a used token is
  presented again its whole family is dead for good.
\<close>

subsection \<open>What a step does to the sessions\<close>

definition later :: "auth_session \<Rightarrow> auth_session \<Rightarrow> bool" where
  "later s s' \<longleftrightarrow>
     se_id s' = se_id s \<and> se_tenant s' = se_tenant s \<and> se_user s' = se_user s \<and> se_family s' = se_family s \<and>
     se_refresh_hash s' = se_refresh_hash s \<and> se_token_version s' = se_token_version s \<and>
     (se_rotated_at s \<noteq> None \<longrightarrow> se_rotated_at s' \<noteq> None) \<and> (se_revoked_at s \<noteq> None \<longrightarrow> se_revoked_at s' \<noteq> None)"

definition se_line :: "auth_session \<Rightarrow> uuid \<times> uuid" where
  "se_line s = (se_tenant s, se_family s)"

definition sessions_wf :: "identity_db \<Rightarrow> bool" where
  "sessions_wf db \<longleftrightarrow>
     distinct (map se_id (id_sessions db)) \<and>
     (\<forall>s \<in> set (id_sessions db). \<forall>s' \<in> set (id_sessions db).
        se_line s = se_line s' \<and> se_rotated_at s = None \<and> se_rotated_at s' = None \<longrightarrow> s = s')"

text \<open>
  Rows are updated in place, and at most one session is added: it opens a family, or succeeds a session
  of its family that was rotated in the same step and was not revoked.
\<close>

definition sessions_step :: "auth_session list \<Rightarrow> auth_session list \<Rightarrow> bool" where
  "sessions_step ss ss' \<longleftrightarrow>
     (\<exists>f new. (\<forall>s \<in> set ss. later s (f s)) \<and> ss' = map f ss @ new \<and>
        (new = [] \<or>
         (\<exists>n. new = [n] \<and> se_id n \<notin> se_id ` set ss \<and>
            (se_family n \<notin> se_family ` set ss \<or>
             (\<exists>s \<in> set ss. se_line s = se_line n \<and> se_rotated_at s = None \<and> se_revoked_at s = None \<and>
                se_rotated_at (f s) \<noteq> None)))))"

lemma later_refl [simp]: "later s s"
  by (simp add: later_def)

lemma later_trans: "later a b \<Longrightarrow> later b c \<Longrightarrow> later a c"
  by (auto simp: later_def)

lemma sessions_step_refl [simp]: "sessions_step ss ss"
  unfolding sessions_step_def by (rule exI [of _ id]) auto

lemma sessions_step_update:
  "(\<And>s. later s (f s)) \<Longrightarrow> sessions_step ss (update_where P f ss)"
  unfolding sessions_step_def
  by (rule exI [of _ "\<lambda>s. if P s then f s else s"]) (auto simp: update_where_def)

lemma line_family: "s \<in> set ss \<Longrightarrow> se_line s = se_line n \<Longrightarrow> se_family n \<in> se_family ` set ss"
  by (auto simp: se_line_def image_iff dest: sym)

lemma sessions_step_wf:
  assumes "sessions_step ss ss'" "distinct (map se_id ss)"
    and head: "\<And>s s'. s \<in> set ss \<Longrightarrow> s' \<in> set ss \<Longrightarrow> se_line s = se_line s' \<Longrightarrow> se_rotated_at s = None \<Longrightarrow>
      se_rotated_at s' = None \<Longrightarrow> s = s'"
  shows "distinct (map se_id ss')"
    "\<And>s s'. s \<in> set ss' \<Longrightarrow> s' \<in> set ss' \<Longrightarrow> se_line s = se_line s' \<Longrightarrow> se_rotated_at s = None \<Longrightarrow>
      se_rotated_at s' = None \<Longrightarrow> s = s'"
proof -
  obtain f new where f: "\<And>s. s \<in> set ss \<Longrightarrow> later s (f s)" and ss': "ss' = map f ss @ new"
    and new: "new = [] \<or> (\<exists>n. new = [n] \<and> se_id n \<notin> se_id ` set ss \<and>
            (se_family n \<notin> se_family ` set ss \<or>
             (\<exists>s \<in> set ss. se_line s = se_line n \<and> se_rotated_at s = None \<and> se_revoked_at s = None \<and>
                se_rotated_at (f s) \<noteq> None)))"
    using assms(1) unfolding sessions_step_def by blast
  have ids: "map se_id (map f ss) = map se_id ss" using f by (simp add: later_def)
  then have "distinct (map se_id (map f ss))" using assms(2) by (simp only:)
  then show "distinct (map se_id ss')"
    using new ids unfolding ss' by (auto simp: image_image image_iff)
  have stays: "se_line (f s) = se_line s" "se_rotated_at (f s) = None \<Longrightarrow> se_rotated_at s = None" if "s \<in> set ss" for s
    using f [OF that] by (auto simp: later_def se_line_def)
  have old: "x = y" if xy: "x \<in> f ` set ss" "y \<in> f ` set ss" "se_line x = se_line y" "se_rotated_at x = None"
      "se_rotated_at y = None" for x y
  proof -
    obtain a b where ab: "a \<in> set ss" "x = f a" "b \<in> set ss" "y = f b" using xy(1,2) by blast
    have "a = b" by (rule head) (use ab stays xy(3-5) in auto)
    then show ?thesis using ab by simp
  qed
  have fresh: "False" if n: "new = [n]" and x: "x \<in> f ` set ss" "se_line x = se_line n" "se_rotated_at x = None" for n x
  proof -
    obtain s where s: "s \<in> set ss" "x = f s" using x(1) by blast
    then have line: "se_line s = se_line n" "se_rotated_at s = None" using stays x(2,3) by auto
    then have "se_family n \<in> se_family ` set ss" using s(1) line_family by metis
    then obtain s0 where "s0 \<in> set ss" "se_line s0 = se_line n" "se_rotated_at s0 = None" "se_rotated_at (f s0) \<noteq> None"
      using new n by auto
    then show False using head [of s s0] s line x(3) by simp
  qed
  show "s = s'" if xy: "s \<in> set ss'" "s' \<in> set ss'" "se_line s = se_line s'" "se_rotated_at s = None" "se_rotated_at s' = None" for s s'
  proof (cases "s \<in> f ` set ss")
    case s: True
    show ?thesis
    proof (cases "s' \<in> f ` set ss")
      case True
      then show ?thesis using old s xy by blast
    next
      case False
      then have "new = [s']" using new xy(2) unfolding ss' by auto
      then show ?thesis using fresh s xy by blast
    qed
  next
    case False
    then have n: "new = [s]" using new xy(1) unfolding ss' by auto
    show ?thesis
    proof (cases "s' \<in> f ` set ss")
      case True
      then show ?thesis using fresh [OF n] xy by metis
    next
      case False
      then show ?thesis using n xy(2) unfolding ss' by auto
    qed
  qed
qed

subsection \<open>The services\<close>

lemma sessions_write_user [simp]: "id_sessions (write_user v db) = id_sessions db"
  by (simp add: write_user_def)

lemma update_session_sessions:
  "id_sessions (update_session i f db) = update_where (\<lambda>s. se_id s = i) f (id_sessions db)"
  by (simp add: update_session_def)

lemma rotate_sessions_step:
  assumes "rotate_auth_session env code raw lifetime db = (r, db')"
  shows "sessions_step (id_sessions db) (id_sessions db')"
proof (cases "presented env code raw db")
  case None
  then show ?thesis using assms unfolding rotate_unfold by auto
next
  case (Some s)
  let ?mark = "\<lambda>s. s\<lparr>se_rotated_at := Some (ie_now env), se_last_used_at := Some (ie_now env)\<rparr>"
  let ?db1 = "update_session (se_id s) ?mark db"
  have s: "s \<in> set (id_sessions db)" using presented_in [OF Some] .
  have add: "sessions_step (id_sessions db) (id_sessions db2)"
    if ins: "insert_session (fst (new_auth_session_token env u lifetime (Some (se_family s)))) ?db1 = Inr db2"
      and u: "exchangeable (ie_now env) s db = Some u" and live: "se_rotated_at s = None" "se_revoked_at s = None"
    for u db2
  proof -
    let ?n = "fst (new_auth_session_token env u lifetime (Some (se_family s)))"
    let ?f = "\<lambda>x. if se_id x = se_id s then ?mark x else x"
    have "us_tenant u = se_tenant s"
      using u by (auto simp: exchangeable_def split: option.splits if_splits dest!: find_user_SomeD)
    then have line: "se_line s = se_line ?n" by (simp add: se_line_def new_auth_session_token_def)
    have ids: "se_id ` set (id_sessions ?db1) = se_id ` set (id_sessions db)"
      unfolding set_map [symmetric] update_session_sessions by (subst map_update_where) simp_all
    have "id_sessions db2 = map ?f (id_sessions db) @ [?n]" "se_id ?n \<notin> se_id ` set (id_sessions db)"
      using insert_session_frames [OF ins] ids by (simp_all add: update_session_def update_where_def)
    moreover have "later x (?f x)" for x by (simp add: later_def)
    ultimately show ?thesis
      unfolding sessions_step_def
      by (intro exI [of _ ?f] exI [of _ "[?n]"] conjI) (use s live line in auto)
  qed
  have upd: "sessions_step (id_sessions db) (id_sessions (update_session (se_id s) (\<lambda>s. s\<lparr>se_revoked_at := Some now\<rparr>) db))"
    for now unfolding update_session_sessions by (rule sessions_step_update) (simp add: later_def)
  have fam: "sessions_step (id_sessions db) (id_sessions (revoke_family t fam now db))" for t fam now
    unfolding revoke_family_def by (simp, rule sessions_step_update) (simp add: later_def)
  show ?thesis
  proof (cases "se_rotated_at s = None \<and> se_revoked_at s = None \<and> ie_now env < se_expires_at s")
    case False
    then show ?thesis using assms Some fam unfolding rotate_unfold by (auto simp: not_less split: if_splits)
  next
    case True
    show ?thesis
    proof (cases "exchangeable (ie_now env) s db")
      case None
      then show ?thesis using assms Some True upd unfolding rotate_unfold by auto
    next
      case u: (Some u)
      show ?thesis
        by (cases "insert_session (fst (new_auth_session_token env u lifetime (Some (se_family s)))) ?db1")
          (use assms True u Some add in \<open>simp_all add: rotate_unfold\<close>)
    qed
  qed
qed

lemma set_access_sessions: "set_access t u R A db db' \<Longrightarrow> id_sessions db' = id_sessions db"
  by (simp add: set_access_def Let_def)

lemma create_canonical_user_sessions:
  "create_canonical_user env scope p request seen db = (r, db') \<Longrightarrow> id_sessions db' = id_sessions db"
  by (auto simp: create_canonical_user_def Let_def frame_simps split: if_splits sum.splits dest!: insert_user_Inr)

lemma bootstrap_corporate_admin_sessions:
  "bootstrap_corporate_admin env fresh tenant_request request db = Inr (r, db') \<Longrightarrow> id_sessions db' = id_sessions db"
  by (auto simp: bootstrap_corporate_admin_def and_then_Inr_iff Let_def frame_simps
      split: if_splits option.splits dest!: insert_user_Inr bootstrap_tenant_row_frames)

lemma bootstrap_public_reviewer_sessions:
  "bootstrap_public_reviewer env code request db = Inr (r, db') \<Longrightarrow> id_sessions db' = id_sessions db"
proof -
  have ins: "id_sessions d = id_sessions db" if "insert_user u db = Inr d" for u d
    using insert_user_Inr [OF that] by simp
  have "case bootstrap_public_reviewer env code request db of
      Inl _ \<Rightarrow> True | Inr (_, d) \<Rightarrow> id_sessions d = id_sessions db"
    by (simp add: bootstrap_public_reviewer_def Let_def frame_simps ins split: option.split sum.split)
  then show "bootstrap_public_reviewer env code request db = Inr (r, db') \<Longrightarrow> id_sessions db' = id_sessions db"
    by simp
qed

lemma identity_step_sessions:
  assumes "identity_step db db'" "accounts_wf db"
  shows "sessions_step (id_sessions db) (id_sessions db')"
  using assms
proof (induction rule: identity_step.induct)
  case (logged_in env code email password db r db')
  have "id_sessions db' = id_sessions db"
    using authenticate_user_ends [OF logged_in.hyps] by (auto simp: frame_simps)
  then show ?case by simp
next
  case (session_opened env u lifetime db r db')
  let ?n = "fst (new_auth_session_token env u lifetime None)"
  show ?case
  proof (cases "insert_session ?n db")
    case (Inr d)
    then have "id_sessions db' = map id (id_sessions db) @ [?n]" "se_id ?n \<notin> se_id ` set (id_sessions db)"
      using session_opened.hyps(1) insert_session_frames [OF Inr] by (auto simp: create_auth_session_def Let_def)
    moreover have "se_family ?n \<notin> se_family ` set (id_sessions db)"
      using session_opened.hyps(2) by (simp add: new_auth_session_token_def)
    ultimately show ?thesis unfolding sessions_step_def by (intro exI [of _ id] exI [of _ "[?n]"]) simp
  qed (use session_opened.hyps(1) in \<open>simp add: create_auth_session_def Let_def\<close>)
next
  case (session_rotated env code raw lifetime db r db')
  then show ?case by (blast intro: rotate_sessions_step)
next
  case (logged_out db now p)
  have "sessions_step (id_sessions db) (id_sessions (update_session i (\<lambda>s. s\<lparr>se_revoked_at := Some now\<rparr>) db))" for i
    unfolding update_session_sessions by (rule sessions_step_update) (simp add: later_def)
  then show ?case by (auto simp: revoke_auth_session_def split: option.split)
next
  case (user_suspended env p user_id db r db')
  obtain v where "db' = db \<and> us_status v = USER_SUSPENDED \<or>
     us_status v = USER_ACTIVE \<and>
     ensure_not_suspending_last_tenant_admin (pr_tenant p) user_id (load_grants (pr_tenant p) user_id db) db = Inr () \<and>
     (\<exists>d. db' = add_audit_record env (pr_tenant p) (Some (pr_user p)) USER_WAS_SUSPENDED (Some user_id) d
       (write_user (v\<lparr>us_status := USER_SUSPENDED, us_token_version := us_token_version v + 1\<rparr>) db))"
    by (rule suspend_user_ends [OF user_suspended.hyps])
  then show ?case by (auto simp: frame_simps)
next
  case (access_replaced env scope p user_id request db r db')
  then show ?case using replace_user_access_sets wf_distinct set_access_sessions by (metis sessions_step_refl)
next
  case (roles_replaced env p user_id roles db r db')
  then show ?case using replace_user_roles_sets wf_distinct set_access_sessions by (metis sessions_step_refl)
next
  case (stores_replaced env scope p user_id ids db r db')
  then show ?case using replace_user_store_assignments_sets wf_distinct set_access_sessions by (metis sessions_step_refl)
qed (simp_all add: create_canonical_user_sessions bootstrap_corporate_admin_sessions bootstrap_public_reviewer_sessions)

text \<open>Accounts and sessions together are what the rest of the theory needs to hold.\<close>

definition identity_wf :: "identity_db \<Rightarrow> bool" where
  "identity_wf db \<longleftrightarrow> accounts_wf db \<and> sessions_wf db"

lemma identity_step_wf: "identity_step db db' \<Longrightarrow> identity_wf db \<Longrightarrow> identity_wf db'"
  unfolding identity_wf_def sessions_wf_def
  using sessions_step_wf [OF identity_step_sessions] account_step_wf identity_step_account by blast

interpretation identities: step_invariant identity_wf identity_step identity_wf
  by unfold_locales (auto intro: identity_step_wf)

subsection \<open>Over whole runs\<close>

lemma run_later:
  "reaches identity_step db db' \<Longrightarrow> identity_wf db \<Longrightarrow> s \<in> set (id_sessions db) \<Longrightarrow>
     \<exists>s' \<in> set (id_sessions db'). later s s'"
proof (induction rule: reaches.induct)
  case (reaches_step db db1 db2)
  then obtain s1 where s1: "s1 \<in> set (id_sessions db1)" "later s s1" by blast
  have "accounts_wf db1" using identities.reaches_inv reaches_step.hyps(1) reaches_step.prems(1)
    by (auto simp: identity_wf_def)
  from identity_step_sessions [OF reaches_step.hyps(2) this]
  obtain f where "later s1 (f s1)" "f s1 \<in> set (id_sessions db2)"
    using s1(1) unfolding sessions_step_def by auto
  then show ?case using s1(2) later_trans by blast
qed (use later_refl in blast)

definition family_dead :: "uuid \<times> uuid \<Rightarrow> identity_db \<Rightarrow> bool" where
  "family_dead line db \<longleftrightarrow>
     (\<exists>s \<in> set (id_sessions db). se_line s = line) \<and>
     (\<forall>s \<in> set (id_sessions db). se_line s = line \<longrightarrow> se_revoked_at s \<noteq> None)"

lemma sessions_step_dead:
  assumes "sessions_step (id_sessions db) (id_sessions db')" "family_dead line db"
  shows "family_dead line db'"
proof -
  obtain f new where f: "\<And>s. s \<in> set (id_sessions db) \<Longrightarrow> later s (f s)"
    and db': "id_sessions db' = map f (id_sessions db) @ new"
    and new: "new = [] \<or> (\<exists>n. new = [n] \<and> (se_family n \<notin> se_family ` set (id_sessions db) \<or>
       (\<exists>s \<in> set (id_sessions db). se_line s = se_line n \<and> se_revoked_at s = None)))"
    using assms(1) unfolding sessions_step_def by blast
  obtain s0 where s0: "s0 \<in> set (id_sessions db)" "se_line s0 = line" using assms(2) by (auto simp: family_dead_def)
  have fresh: "se_line n \<noteq> line" if nn: "new = [n]" for n
  proof
    assume n: "se_line n = line"
    then have "se_family n \<in> se_family ` set (id_sessions db)" using s0 line_family by metis
    then obtain s where "s \<in> set (id_sessions db)" "se_line s = se_line n" "se_revoked_at s = None"
      using new nn by auto
    then show False using assms(2) n by (auto simp: family_dead_def)
  qed
  have old: "se_line (f s) = se_line s" "se_revoked_at s \<noteq> None \<Longrightarrow> se_revoked_at (f s) \<noteq> None"
    if "s \<in> set (id_sessions db)" for s
    using f [OF that] by (auto simp: later_def se_line_def)
  have "f s0 \<in> set (id_sessions db')" "se_line (f s0) = line" using s0 old by (auto simp: db')
  moreover have "se_revoked_at x \<noteq> None" if x: "x \<in> set (id_sessions db')" "se_line x = line" for x
  proof (cases "x \<in> f ` set (id_sessions db)")
    case True
    then show ?thesis using x(2) old assms(2) by (auto simp: family_dead_def)
  next
    case False
    then have "x \<in> set new" using x(1) by (auto simp: db')
    then show ?thesis using new fresh x(2) by auto
  qed
  ultimately show ?thesis unfolding family_dead_def by blast
qed

lemma run_dead:
  "reaches identity_step db db' \<Longrightarrow> identity_wf db \<Longrightarrow> family_dead line db \<Longrightarrow> family_dead line db'"
proof (induction rule: reaches.induct)
  case (reaches_step db db1 db2)
  have "accounts_wf db1" using identities.reaches_inv reaches_step.hyps(1) reaches_step.prems(1)
    by (auto simp: identity_wf_def)
  then show ?case
    using reaches_step sessions_step_dead identity_step_sessions by blast
qed simp

end
