(* ===== verification/Identity_Results.thy ===== *)
theory Identity_Results
  imports Sessions
begin

text \<open>
  What the identity services promise: a tenant is never locked out, a refresh token works once, a token
  never changes its meaning, managers cannot hand out more than they hold, and no access changes
  silently.
\<close>

subsection \<open>A tenant is never locked out\<close>

lemma run_admin:
  "reaches identity_step db db' \<Longrightarrow> accounts_wf db \<Longrightarrow> active_admin t u db \<Longrightarrow> \<exists>j. active_admin t j db'"
proof (induction rule: reaches.induct)
  case (reaches_step db db1 db2)
  have "accounts_wf db1" using accounts.reaches_inv reaches_step.hyps(1) reaches_step.prems(1) by blast
  then show ?case
    using reaches_step account_step_admin identity_step_account by blast
qed blast

definition plain_claims :: "uuid \<Rightarrow> uuid \<Rightarrow> int \<Rightarrow> access_claims" where
  "plain_claims u t n = \<lparr>ac_user = u, ac_tenant = t, ac_token_version = n, ac_session = None\<rparr>"

lemma find_user_unique:
  assumes "accounts_wf db" "v \<in> set (id_users db)"
  shows "find_user (us_tenant v) (us_id v) db = Some v"
proof -
  obtain w where w: "find_user (us_tenant v) (us_id v) db = Some w"
    using assms(2) by (cases "find_user (us_tenant v) (us_id v) db")
      (auto simp: find_user_def select_one_None_iff)
  then have "w \<in> set (id_users db)" "us_id w = us_id v" by (simp_all add: find_user_SomeD)
  then show ?thesis using w wf_distinct [OF assms(1)] assms(2) by (auto simp: distinct_map inj_on_def)
qed

lemma admin_principal:
  assumes wf: "accounts_wf db" and admin: "active_admin t u db"
    and n: "(u, t, USER_ACTIVE, n) \<in> set (accounts db)" and tenant: "tenant_status_in db t = Some TENANT_ACTIVE"
  shows "\<exists>p. get_current_principal db (plain_claims u t n) now = Inr (p, TenantWide) \<and>
    (\<forall>perm. has_tenant_permission p perm)"
proof -
  obtain v where v: "v \<in> set (id_users db)" "us_id v = u" "us_tenant v = t" "us_status v = USER_ACTIVE"
    "us_token_version v = n" using n by (auto simp: in_accounts_iff)
  then have found: "select_one (\<lambda>v. us_id v = u \<and> us_tenant v = t) (id_users db) = Some v"
    using find_user_unique [OF wf v(1)] by (simp add: find_user_def)
  define held where "held = sort_key grant_order (filter (\<lambda>g. ag_tenant g = t \<and> ag_user g = u) (id_grants db))"
  define roles where "roles = sort (map ur_role (filter (\<lambda>r. ur_tenant r = t \<and> ur_user r = u) (id_roles db)))"
  define canonical where
    "canonical = (if roles \<noteq> [] then roles else sort (remdups (map canonical_of_legacy (map ag_role held))))"
  have "set roles = role_rows t u db" "set held = set (load_grants t u db)"
    by (simp_all add: roles_def held_def role_rows_def load_grants_def)
  moreover from this(1) have "roles = [] \<longleftrightarrow> role_rows t u db = {}" by auto
  ultimately have "set canonical = held_roles (holdings t u db)"
    by (simp add: canonical_def holdings_def grant_specs_def existing_specs_def image_image)
  then have "TENANT_ADMIN \<in> set canonical" using admin by (simp add: active_admin_def)
  then have c: "canonical \<noteq> []" "list_ex tenant_wide_role canonical"
    by (auto simp: list_ex_iff tenant_wide_role_def)
  have "\<exists>p. get_current_principal db (plain_claims u t n) now = Inr (p, TenantWide)"
    using c found v tenant
    by (simp add: get_current_principal_def plain_claims_def session_valid_def Let_def
        held_def [symmetric] roles_def [symmetric] canonical_def [symmetric] map_map [symmetric]
        del: map_map)
  then obtain p where p: "get_current_principal db (plain_claims u t n) now = Inr (p, TenantWide)" by blast
  have "powers (holdings t u db) = UNIV"
    using admin_powers wf admin by (simp add: accounts_wf_def active_admin_def)
  then show ?thesis using p principal_powers(1) [OF p] by (auto simp: plain_claims_def)
qed

text \<open>
  C19: A tenant with an active administrator always has one: whatever logins, user administration and
  bootstrap commands follow, some active account of the tenant holds a token version whose requests,
  while the tenant is active, are tenant-wide and have every permission.
\<close>

theorem tenants_keep_an_administrator:
  assumes "identity_wf db" "active_admin t u db" "reaches identity_step db db'"
  shows "\<exists>j n. (j, t, USER_ACTIVE, n) \<in> set (accounts db') \<and>
    (tenant_status_in db' t = Some TENANT_ACTIVE \<longrightarrow>
       (\<forall>now. \<exists>p. get_current_principal db' (plain_claims j t n) now = Inr (p, TenantWide) \<and>
          (\<forall>perm. has_tenant_permission p perm)))"
proof -
  have wf: "accounts_wf db" using assms(1) by (simp add: identity_wf_def)
  obtain j where j: "active_admin t j db'" using run_admin [OF assms(3) wf assms(2)] by blast
  then obtain n where n: "(j, t, USER_ACTIVE, n) \<in> set (accounts db')" by (auto simp: active_admin_def)
  have "accounts_wf db'" using accounts.reaches_inv [OF assms(3) wf] .
  then show ?thesis using admin_principal [OF _ j n] n by blast
qed

subsection \<open>A refresh token works once\<close>

lemma select_one_keyed:
  "distinct (map key rows) \<Longrightarrow> r \<in> set rows \<Longrightarrow> key r = k \<Longrightarrow> Q r \<Longrightarrow>
     select_one (\<lambda>x. key x = k \<and> Q x) rows = Some r"
  by (induction rows) (auto simp: image_iff)

text \<open>
  C20: A refresh token is exchanged once.  After a successful exchange, presenting the same token again
  at any later time is reported as reuse and kills the whole family for good: in no later state can
  any session of the family authenticate a request or be exchanged.
\<close>

theorem reused_refresh_tokens_kill_the_family:
  assumes wf: "identity_wf db"
    and first: "rotate_auth_session env code raw lifetime db = (Inr (u, s, token), db1)"
    and run: "reaches identity_step db1 db2"
    and same: "ie_digest env' = ie_digest env" "resolve_login_tenant code' db2 = Some t" "tn_id t = se_tenant s"
    and again: "rotate_auth_session env' code' raw lifetime' db2 = (r, db3)"
    and later: "reaches identity_step db3 db4"
  shows "r = Inl (invalid_refresh_token True) \<and>
    (\<forall>x \<in> set (id_sessions db4). se_line x = se_line s \<longrightarrow>
       se_revoked_at x \<noteq> None \<and>
       (\<forall>claims now. ac_session claims = Some (se_id x) \<longrightarrow> \<not> session_valid db4 claims now) \<and>
       (\<forall>env code raw lifetime. presented env code raw db4 = Some x \<longrightarrow>
          \<not> is_ok (fst (rotate_auth_session env code raw lifetime db4))))"
proof -
  obtain s0 where s0: "presented env code raw db = Some s0" "se_rotated_at s0 = None" "se_revoked_at s0 = None"
    and db1: "insert_session s (update_session (se_id s0)
      (\<lambda>s. s\<lparr>se_rotated_at := Some (ie_now env), se_last_used_at := Some (ie_now env)\<rparr>) db) = Inr db1"
    and line: "se_line s = se_line s0"
  proof (cases "presented env code raw db")
    case (Some s0)
    have live: "se_rotated_at s0 = None \<and> se_revoked_at s0 = None \<and> \<not> se_expires_at s0 \<le> ie_now env"
      using first Some unfolding rotate_unfold by (auto split: if_splits)
    then obtain v where v: "exchangeable (ie_now env) s0 db = Some v"
      using first Some unfolding rotate_unfold by (cases "exchangeable (ie_now env) s0 db") auto
    then have "us_tenant v = se_tenant s0"
      by (auto simp: exchangeable_def split: option.splits if_splits dest!: find_user_SomeD)
    then show thesis
      using that [OF Some] first Some live v unfolding rotate_unfold
      by (auto simp: new_auth_session_token_def se_line_def split: sum.splits)
  qed (use first in \<open>auto simp: rotate_unfold\<close>)
  have step1: "identity_step db db1" using first by (rule session_rotated)
  have wf1: "identity_wf db1" using identity_step_wf [OF step1 wf] .
  have wf2: "identity_wf db2" using identities.reaches_inv [OF run wf1] .
  obtain s1 where s1: "s1 \<in> set (id_sessions db1)" "later s0 s1" "se_rotated_at s1 \<noteq> None"
  proof -
    let ?s1 = "s0\<lparr>se_rotated_at := Some (ie_now env), se_last_used_at := Some (ie_now env)\<rparr>"
    have "?s1 \<in> set (id_sessions db1)"
      using insert_session_frames [OF db1] presented_in [OF s0(1)]
      by (auto simp: update_session_sessions in_update_where_iff)
    then show thesis by (rule that) (simp_all add: later_def)
  qed
  obtain s2 where s2: "s2 \<in> set (id_sessions db2)" "later s1 s2"
    using run_later [OF run wf1 s1(1)] by blast
  have l2: "later s0 s2" using later_trans [OF s1(2) s2(2)] .
  obtain secret t0 where parsed: "parse_refresh_token raw = Inr (se_id s0, secret)"
    "ie_digest env secret = se_refresh_hash s0"
    by (rule presented_Some [OF s0(1)])
  have ids: "distinct (map se_id (id_sessions db2))" using wf2 by (simp add: identity_wf_def sessions_wf_def)
  have sel: "select_one (\<lambda>x. se_id x = se_id s0 \<and> se_tenant x = tn_id t) (id_sessions db2) = Some s2"
    by (rule select_one_keyed [OF ids s2(1)]) (use l2 line same(3) in \<open>simp_all add: later_def se_line_def\<close>)
  have "ie_digest env' secret = se_refresh_hash s2" using parsed(2) same(1) l2 by (simp add: later_def)
  then have p2: "presented env' code' raw db2 = Some s2"
    using parsed(1) same(2) sel by (simp add: presented_def)
  have rot: "se_rotated_at s2 \<noteq> None" using s2(2) s1(3) by (simp add: later_def)
  have r: "r = Inl (invalid_refresh_token True)"
    and db3: "db3 = revoke_family (se_tenant s2) (se_family s2) (ie_now env') db2"
    using again p2 rot unfolding rotate_unfold by auto
  have "se_line s2 = se_line s" using l2 line by (simp add: later_def se_line_def)
  moreover obtain x2 where "x2 \<in> set (id_sessions db3)" "later s2 x2"
    using run_later [OF reaches_single [of identity_step, OF session_rotated [OF again]] wf2 s2(1)] by blast
  moreover from this have "se_line x2 = se_line s2" by (simp add: later_def se_line_def)
  moreover have "se_revoked_at x \<noteq> None" if "x \<in> set (id_sessions db3)" "se_line x = se_line s2" for x
    using that by (auto simp: db3 revoke_family_def in_update_where_iff se_line_def)
  ultimately have "family_dead (se_line s) db3" unfolding family_dead_def by metis
  moreover have wf3: "identity_wf db3" using identity_step_wf [OF session_rotated [OF again] wf2] .
  ultimately have dead: "family_dead (se_line s) db4" using run_dead [OF later] by blast
  have ids4: "distinct (map se_id (id_sessions db4))"
    using identities.reaches_inv [OF later wf3] by (simp add: identity_wf_def sessions_wf_def)
  have revoked: "se_revoked_at x \<noteq> None" if "x \<in> set (id_sessions db4)" "se_line x = se_line s" for x
    using dead that by (auto simp: family_dead_def)
  have "\<not> session_valid db4 claims now" if "x \<in> set (id_sessions db4)" "se_line x = se_line s"
      "ac_session claims = Some (se_id x)" for x claims now
    using revoked [OF that(1,2)] that get_by_eq_Some_iff [OF ids4, of "se_id x" x]
    by (simp add: session_valid_def)
  moreover have "\<not> is_ok (fst (rotate_auth_session env code raw lifetime db4))"
    if "x \<in> set (id_sessions db4)" "se_line x = se_line s" "presented env code raw db4 = Some x"
    for x env code raw lifetime
    using revoked [OF that(1,2)] that(3) unfolding rotate_unfold by simp
  ultimately show ?thesis using r revoked by blast
qed

subsection \<open>A token never changes its meaning\<close>

lemma run_powers:
  "reaches identity_step db db' \<Longrightarrow> accounts_wf db \<Longrightarrow> (i, t, st, n) \<in> set (accounts db) \<Longrightarrow>
     \<exists>st' n'. (i, t, st', n') \<in> set (accounts db') \<and> n \<le> n' \<and>
       (n' = n \<longrightarrow> powers (holdings t i db') = powers (holdings t i db))"
proof (induction rule: reaches.induct)
  case (reaches_step db db1 db2)
  have wf1: "accounts_wf db1" using accounts.reaches_inv reaches_step.hyps(1) reaches_step.prems(1) by blast
  obtain st1 n1 where 1: "(i, t, st1, n1) \<in> set (accounts db1)" "n \<le> n1"
    "n1 = n \<longrightarrow> powers (holdings t i db1) = powers (holdings t i db)"
    using reaches_step.IH [OF reaches_step.prems] by blast
  obtain st2 n2 where 2: "(i, t, st2, n2) \<in> set (accounts db2)" "n1 \<le> n2"
    "n2 = n1 \<longrightarrow> powers (holdings t i db2) = powers (holdings t i db1)"
    using account_step_powers [OF identity_step_account [OF reaches_step.hyps(2) wf1] wf1 1(1)] by blast
  show ?case using 1 2 by (intro exI [of _ st2] exI [of _ n2]) auto
qed blast

lemma principal_account:
  assumes "get_current_principal db claims now = Inr (p, sc)"
  shows "(ac_user claims, ac_tenant claims, USER_ACTIVE, ac_token_version claims) \<in> set (accounts db)"
  using assms
  by (auto simp: get_current_principal_def in_accounts_iff Let_def split: option.splits if_splits
      dest!: select_one_SomeD)

text \<open>
  C21: As long as a token is accepted it means the same: whatever logins, role changes, suspensions,
  reassignments and bootstrap runs lie between two requests made with it, both may do exactly the same
  in the tenant and in every store.  A change of access takes effect by refusing the old tokens.
\<close>

theorem tokens_never_change_meaning:
  assumes "identity_wf db" "reaches identity_step db db'"
    and "get_current_principal db claims now = Inr (p, sc)"
    and "get_current_principal db' claims now' = Inr (p', sc')"
  shows "has_tenant_permission p' perm = has_tenant_permission p perm \<and>
    can_access_store p' perm store = can_access_store p perm store"
proof -
  let ?u = "ac_user claims" and ?t = "ac_tenant claims" and ?n = "ac_token_version claims"
  have wf: "accounts_wf db" using assms(1) by (simp add: identity_wf_def)
  have wf': "accounts_wf db'" using accounts.reaches_inv [OF assms(2) wf] .
  obtain st' n' where a: "(?u, ?t, st', n') \<in> set (accounts db')"
    "n' = ?n \<longrightarrow> powers (holdings ?t ?u db') = powers (holdings ?t ?u db)"
    using run_powers [OF assms(2) wf principal_account [OF assms(3)]] by blast
  have "n' = ?n" using account_unique [OF wf' a(1) principal_account [OF assms(4)]] by simp
  then show ?thesis using a(2) principal_powers [OF assms(3)] principal_powers [OF assms(4)] by simp
qed

subsection \<open>Managers cannot hand out more than they hold\<close>

definition manages :: "principal \<Rightarrow> uuid set" where
  "manages p = set (store_ids_for_permission p USERS_CREATE)"

definition associate_powers :: "uuid set \<Rightarrow> (permission \<times> uuid option) set" where
  "associate_powers ids = {(perm, so). perm \<in> set store_associate_permissions \<and> so \<in> Some ` ids}"

lemma associate_holdings:
  "powers ({STORE_ASSOCIATE}, A, G) = associate_powers A"
  by (auto simp: associate_powers_def tenant_wide_role_def)

lemma create_canonical_user_Inr:
  assumes "create_canonical_user env scope p request seen db = (Inr rec, db')"
  shows "holdings (pr_tenant p) (us_id (cu_user rec)) db' =
      (set (uc_roles request), set (uc_store_ids request),
       compatibility_grant_specs (set (uc_roles request)) (set (uc_store_ids request)))"
    "has_tenant_permission p USERS_CREATE \<or>
     managers_may_create p (set (uc_roles request)) (set (uc_store_ids request))"
proof -
  define R where "R = set (uc_roles request)"
  define A where "A = set (uc_store_ids request)"
  define u where "u = new_user env (pr_tenant p) (uc_email request) (uc_display_name request) (uc_password request)"
  show "has_tenant_permission p USERS_CREATE \<or>
     managers_may_create p (set (uc_roles request)) (set (uc_store_ids request))"
    using assms by (auto simp: create_canonical_user_def Let_def split: if_splits)
  have rec: "cu_user rec = u"
    using assms by (auto simp: create_canonical_user_def Let_def u_def split: if_splits sum.splits)
  obtain db1 where
    db': "\<exists>d. db' = add_audit_record env (pr_tenant p) (Some (pr_user p)) USER_CREATED (Some (us_id u)) d
      (persist_compatibility_grants (pr_tenant p) (us_id u) (compatibility_grant_specs R A)
        (persist_assignment_rows (pr_tenant p) (us_id u) A (persist_role_rows (pr_tenant p) (us_id u) R db1)))"
    using assms
    by (auto simp: create_canonical_user_def Let_def R_def A_def u_def split: if_splits sum.splits)
  then show "holdings (pr_tenant p) (us_id (cu_user rec)) db' =
      (set (uc_roles request), set (uc_store_ids request),
       compatibility_grant_specs (set (uc_roles request)) (set (uc_store_ids request)))"
    unfolding rec by (auto simp: holdings_def frame_simps R_def [symmetric] A_def)
qed

text \<open>
  C22: A principal that may not create users tenant-wide cannot hand out power.  It can replace neither
  complete accesses nor roles; a user it creates, or whose stores it reassigns, can afterwards do only
  what an associate can, and only in stores the principal manages, and a user it reassigns could not do
  more before.
\<close>

theorem managers_cannot_escalate:
  assumes wf: "identity_wf db" and manager: "\<not> has_tenant_permission p USERS_CREATE"
  shows "replace_user_access env scope p u access db = Inl (ApiError 403 ''role_assignment_forbidden'') \<and>
    replace_user_roles env p u roles db = Inl (ApiError 403 ''role_assignment_forbidden'') \<and>
    (\<forall>rec db'. create_canonical_user env scope p request seen db = (Inr rec, db') \<longrightarrow>
       powers (holdings (pr_tenant p) (us_id (cu_user rec)) db') \<subseteq> associate_powers (manages p)) \<and>
    (\<forall>a db'. replace_user_store_assignments env scope p u ids db = Inr (a, db') \<longrightarrow>
       powers (holdings (pr_tenant p) u db') \<subseteq> associate_powers (manages p) \<and>
       powers (holdings (pr_tenant p) u db) \<subseteq> associate_powers (manages p))"
proof (intro conjI allI impI)
  have awf: "accounts_wf db" using wf by (simp add: identity_wf_def)
  have mono: "A \<subseteq> manages p \<Longrightarrow> associate_powers A \<subseteq> associate_powers (manages p)" for A
    by (auto simp: associate_powers_def)
  show "replace_user_access env scope p u access db = Inl (ApiError 403 ''role_assignment_forbidden'')"
    "replace_user_roles env p u roles db = Inl (ApiError 403 ''role_assignment_forbidden'')"
    using manager by (simp_all add: replace_user_access_def replace_user_roles_def ensure_def)
  {
    fix rec db'
    assume c: "create_canonical_user env scope p request seen db = (Inr rec, db')"
    then have "set (uc_roles request) = {STORE_ASSOCIATE}" "set (uc_store_ids request) \<subseteq> manages p"
      using create_canonical_user_Inr(2) [OF c] manager unfolding managers_may_create_def manages_def by blast+
    then show "powers (holdings (pr_tenant p) (us_id (cu_user rec)) db') \<subseteq> associate_powers (manages p)"
      using create_canonical_user_Inr(1) [OF c] mono by (simp only: associate_holdings)
  next
    fix a db'
    assume r: "replace_user_store_assignments env scope p u ids db = Inr (a, db')"
    note sets = replace_user_store_assignments_sets [OF r wf_distinct [OF awf]]
    let ?h = "holdings (pr_tenant p) u db"
    have R: "held_roles ?h = {STORE_ASSOCIATE}" and A: "set ids \<union> held_stores ?h \<subseteq> manages p"
      using sets manager unfolding held_roles_load held_stores_load managers_may_create_def manages_def by blast+
    have "holdings (pr_tenant p) u db' =
        ({STORE_ASSOCIATE}, set ids, compatibility_grant_specs {STORE_ASSOCIATE} (set ids))"
      using sets R unfolding held_roles_load by (simp add: set_access_def Let_def holdings_def)
    then show "powers (holdings (pr_tenant p) u db') \<subseteq> associate_powers (manages p)"
      using mono A by (simp only: associate_holdings) blast
    obtain R0 A0 G where h: "?h = (R0, A0, G)" by (cases ?h) auto
    show "powers ?h \<subseteq> associate_powers (manages p)"
    proof (cases "R0 = {}")
      case False
      then have "R0 = {STORE_ASSOCIATE}" using R h by simp
      moreover from this have "G = compatibility_grant_specs {STORE_ASSOCIATE} A0"
        using awf h by (metis accounts_wf_def mirrored.simps insertE empty_iff canonical_role.distinct(5) insert_not_empty)
      then have "held_stores ?h = A0" by (auto simp: h compatibility_grant_specs_def)
      ultimately show ?thesis using A mono h by (simp only: associate_holdings) blast
    next
      case True
      have "role = LEGACY_STORE_ASSOCIATE" if "(role, st) \<in> G" for role st
      proof -
        have "canonical_of_legacy (fst (role, st)) \<in> held_roles ?h" using that True h by (force simp del: fst_conv)
        then show ?thesis using R by (cases role) simp_all
      qed
      moreover have "mirrored ?h" using awf by (simp add: accounts_wf_def)
      ultimately show ?thesis using A True h
        by (fastforce simp: associate_powers_def)
    qed
  }
qed

subsection \<open>No access changes silently\<close>

text \<open>
  What a step leaves unaudited: every account it does not name in a new audit record stays as it is, or
  only has its tokens invalidated by its own logout.
\<close>

definition noted :: "audit_record list \<Rightarrow> uuid \<Rightarrow> bool" where
  "noted new i \<longleftrightarrow> (\<exists>a \<in> set new. au_target a = Some i)"

definition unnoted_kept :: "identity_db \<Rightarrow> identity_db \<Rightarrow> bool" where
  "unnoted_kept db db' \<longleftrightarrow>
     (\<exists>new. id_audit db' = id_audit db @ new \<and>
        (\<forall>i t st n. (i, t, st, n) \<in> set (accounts db) \<and> \<not> noted new i \<longrightarrow>
           (i, t, st, n) \<in> set (accounts db') \<or>
           (\<exists>n'. (i, t, st, n') \<in> set (accounts db') \<and> holdings t i db' = holdings t i db)))"

lemma kept_users:
  assumes "id_audit db' = id_audit db @ new" "set (accounts db) \<subseteq> set (accounts db')"
  shows "unnoted_kept db db'"
  using assms unfolding unnoted_kept_def by blast

lemma kept_on_account:
  assumes "id_audit db' = id_audit db @ new" "accounts db' = on_account u f k (accounts db)" "noted new u"
  shows "unnoted_kept db db'"
  using assms in_on_account unfolding unnoted_kept_def by (metis (full_types))

lemma kept_set_access: "set_access t u R A db db' \<Longrightarrow> unnoted_kept db db'"
proof -
  assume s: "set_access t u R A db db'"
  consider "id_users db' = id_users db" "id_audit db' = id_audit db"
    | a where "id_users db' = bumped u (id_users db)" "id_audit db' = id_audit db @ [a]" "au_target a = Some u"
    using s unfolding set_access_def Let_def by (metis (full_types))
  then show ?thesis
  proof cases
    case 1
    then show ?thesis by (intro kept_users [of _ _ "[]"]) (simp_all add: accounts_def)
  next
    case 2
    show ?thesis
      by (rule kept_on_account [OF 2(2) accounts_bumped [OF 2(1)]]) (simp add: noted_def 2(3))
  qed
qed

lemma kept_session_only: "session_only db db' \<Longrightarrow> unnoted_kept db db'"
  by (rule kept_users [of _ _ "[]"]) (auto simp: session_only_def accounts_def)

lemma kept_appended:
  "id_audit db' = id_audit db @ new \<Longrightarrow> id_users db' = id_users db @ us \<Longrightarrow> unnoted_kept db db'"
  by (rule kept_users) (auto simp: accounts_def)

lemma id_audit_add [simp]:
  "id_audit (add_audit_record env t a act tg d db) = id_audit db @
     [\<lparr>au_id = ie_audit_id env, au_tenant = t, au_actor = a, au_action = act, au_target = tg, au_details = d,
       au_occurred_at = ie_db_now env\<rparr>]"
  by (simp add: add_audit_record_def)

lemma kept_authenticate:
  assumes "authenticate_user env code email password db = (r, db')" "accounts_wf db"
  shows "unnoted_kept db db'"
proof -
  consider "db' = db" | t a act tg d where "db' = add_audit_record env t a act tg d db"
    | v w a act tg d where "v \<in> set (id_users db)" "account w = account v"
        "db' = add_audit_record env (us_tenant v) a act tg d (write_user w db)"
    using authenticate_user_ends [OF assms(1)] by blast
  then show ?thesis
  proof cases
    case 1
    then show ?thesis by (intro kept_appended [of _ _ "[]" "[]"]) simp_all
  next
    case 2
    show ?thesis by (rule kept_appended [of _ _ _ "[]"]) (simp_all add: 2 frame_simps)
  next
    case 3
    have "accounts db' = accounts db"
      using accounts_write_user_same [OF wf_distinct [OF assms(2)] 3(1,2)] by (simp add: 3(3) accounts_def frame_simps)
    then show ?thesis by (intro kept_users) (simp_all add: 3(3) frame_simps)
  qed
qed

lemma kept_logout: "accounts_wf db \<Longrightarrow> unnoted_kept db (revoke_auth_session now p db)"
proof (cases "pr_session p")
  case (Some sid)
  then have "session_only db (revoke_auth_session now p db)"
    by (auto simp: revoke_auth_session_def split: option.split)
  then show ?thesis by (rule kept_session_only)
next
  case None
  assume wf: "accounts_wf db"
  show ?thesis
  proof (cases "find_user (pr_tenant p) (pr_user p) db")
    case found: (Some v)
    let ?w = "v\<lparr>us_token_version := us_token_version v + 1\<rparr>"
    have acc: "accounts (write_user ?w db) = on_account (us_id v) id 1 (accounts db)"
      by (rule accounts_write_user) (use wf_distinct [OF wf] find_user_SomeD [OF found] in auto)
    have h: "holdings t i (write_user ?w db) = holdings t i db" for t i by (simp add: holdings_def frame_simps)
    have "unnoted_kept db (write_user ?w db)"
      unfolding unnoted_kept_def
    proof (intro exI [of _ "[]"] conjI allI impI)
      fix i t st n
      assume "(i, t, st, n) \<in> set (accounts db) \<and> \<not> noted [] i"
      then show "(i, t, st, n) \<in> set (accounts (write_user ?w db)) \<or>
          (\<exists>n'. (i, t, st, n') \<in> set (accounts (write_user ?w db)) \<and> holdings t i (write_user ?w db) = holdings t i db)"
        using in_on_account [of i t st n "accounts db" "us_id v" id 1] h unfolding acc by (auto split: if_splits)
    qed (simp add: frame_simps)
    then show ?thesis using None found by (simp add: revoke_auth_session_def)
  qed (use None in \<open>simp add: revoke_auth_session_def kept_session_only\<close>)
qed

lemma kept_suspend:
  assumes "suspend_user env p user_id db = Inr (r, db')" "accounts_wf db"
  shows "unnoted_kept db db'"
proof -
  obtain v where v: "find_user (pr_tenant p) user_id db = Some v"
    and ends: "db' = db \<and> us_status v = USER_SUSPENDED \<or>
     us_status v = USER_ACTIVE \<and>
     ensure_not_suspending_last_tenant_admin (pr_tenant p) user_id (load_grants (pr_tenant p) user_id db) db = Inr () \<and>
     (\<exists>d. db' = add_audit_record env (pr_tenant p) (Some (pr_user p)) USER_WAS_SUSPENDED (Some user_id) d
       (write_user (v\<lparr>us_status := USER_SUSPENDED, us_token_version := us_token_version v + 1\<rparr>) db))"
    by (rule suspend_user_ends [OF assms(1)])
  note u = find_user_SomeD [OF v]
  let ?w = "v\<lparr>us_status := USER_SUSPENDED, us_token_version := us_token_version v + 1\<rparr>"
  have "accounts (write_user ?w db) = on_account (us_id v) (\<lambda>_. USER_SUSPENDED) 1 (accounts db)"
    by (rule accounts_write_user) (use wf_distinct [OF assms(2)] u in auto)
  then have acc: "accounts (add_audit_record env (pr_tenant p) (Some (pr_user p)) USER_WAS_SUSPENDED (Some user_id) d
      (write_user ?w db)) = on_account user_id (\<lambda>_. USER_SUSPENDED) 1 (accounts db)" for d
    using u by (simp add: accounts_def frame_simps)
  from ends show ?thesis
  proof (elim disjE conjE exE)
    fix d
    assume "db' = add_audit_record env (pr_tenant p) (Some (pr_user p)) USER_WAS_SUSPENDED (Some user_id) d (write_user ?w db)"
    then have "id_audit db' = id_audit db @ [\<lparr>au_id = ie_audit_id env, au_tenant = pr_tenant p,
        au_actor = Some (pr_user p), au_action = USER_WAS_SUSPENDED, au_target = Some user_id, au_details = d,
        au_occurred_at = ie_db_now env\<rparr>]" "accounts db' = on_account user_id (\<lambda>_. USER_SUSPENDED) 1 (accounts db)"
      using acc [of d] by (simp_all add: frame_simps)
    then show ?thesis by (rule kept_on_account) (simp add: noted_def)
  qed (simp add: kept_session_only)
qed

lemma kept_create:
  "create_canonical_user env scope p request seen db = (r, db') \<Longrightarrow> unnoted_kept db db'"
  by (rule kept_appended [of _ _ "drop (length (id_audit db)) (id_audit db')" "drop (length (id_users db)) (id_users db')"])
    (auto simp: create_canonical_user_def Let_def frame_simps split: if_splits sum.splits dest!: insert_user_Inr)

lemma kept_bootstrap_admin:
  "bootstrap_corporate_admin env fresh tenant_request request db = Inr (r, db') \<Longrightarrow> unnoted_kept db db'"
  by (rule kept_appended [of _ _ "drop (length (id_audit db)) (id_audit db')" "drop (length (id_users db)) (id_users db')"])
    (auto simp: bootstrap_corporate_admin_def and_then_Inr_iff Let_def frame_simps
      split: if_splits option.splits dest!: insert_user_Inr bootstrap_tenant_row_frames)

lemma kept_bootstrap_reviewer:
  assumes "bootstrap_public_reviewer env code request db = Inr (r, db')" "accounts_wf db"
  shows "unnoted_kept db db'"
proof -
  obtain t where t: "resolve_login_tenant (str_lower (strip code)) db = Some t" "tn_status t = TENANT_ACTIVE"
    using assms(1) by (auto simp: bootstrap_public_reviewer_def split: if_splits option.splits)
  show ?thesis
  proof (cases "find_email (tn_id t) (uc_email request) db")
    case None
    then show ?thesis
      by (intro kept_appended [of _ _ "drop (length (id_audit db)) (id_audit db')" "drop (length (id_users db)) (id_users db')"])
        (use assms(1) t in \<open>auto simp: bootstrap_public_reviewer_def Let_def frame_simps
          split: if_splits sum.splits dest!: insert_user_Inr\<close>)
  next
    case (Some v)
    then have v: "v \<in> set (id_users db)" by (auto simp: find_email_def dest: select_one_SomeD)
    let ?up = "reviewer_changes env request v (role_rows (tn_id t) (us_id v) db)
      (assignment_rows (tn_id t) (us_id v) db) (load_grants (tn_id t) (us_id v) db)"
    have "case bootstrap_public_reviewer env code request db of Inl _ \<Rightarrow> True
      | Inr (_, d) \<Rightarrow> id_users d = id_users (write_user (rv_user ?up) db) \<and>
          (if rv_changes ?up = [] then id_audit d = id_audit db
           else \<exists>a. id_audit d = id_audit db @ [a] \<and> au_target a = Some (us_id v))"
      using t Some by (simp add: bootstrap_public_reviewer_def Let_def frame_simps)
    then have users: "id_users db' = id_users (write_user (rv_user ?up) db)"
      and audit: "if rv_changes ?up = [] then id_audit db' = id_audit db
           else \<exists>a. id_audit db' = id_audit db @ [a] \<and> au_target a = Some (us_id v)"
      unfolding assms(1) by simp_all
    obtain k where k: "us_token_version (rv_user ?up) = us_token_version v + k"
        "us_id (rv_user ?up) = us_id v" "us_tenant (rv_user ?up) = us_tenant v" "us_status (rv_user ?up) = USER_ACTIVE"
      by (rule that [of "us_token_version (rv_user ?up) - us_token_version v"])
        (auto simp: reviewer_changes_def Let_def split: prod.splits)
    have acc: "accounts db' = on_account (us_id v) (\<lambda>_. USER_ACTIVE) k (accounts db)"
      using accounts_write_user [OF wf_distinct [OF assms(2)] v, of "rv_user ?up" "\<lambda>_. USER_ACTIVE" k] k users
      by (simp add: accounts_def)
    show ?thesis
    proof (cases "rv_changes ?up = []")
      case True
      then have "account (rv_user ?up) = account v"
        by (auto simp: reviewer_changes_def Let_def account_def split: prod.splits if_splits)
      then have "accounts (write_user (rv_user ?up) db) = accounts db"
        by (rule accounts_write_user_same [OF wf_distinct [OF assms(2)] v])
      then show ?thesis using True audit users by (intro kept_users [of _ _ "[]"]) (simp_all add: accounts_def)
    next
      case False
      then obtain a where "id_audit db' = id_audit db @ [a]" "au_target a = Some (us_id v)" using audit by auto
      then show ?thesis using kept_on_account [OF _ acc] by (simp add: noted_def)
    qed
  qed
qed

lemma identity_step_kept:
  assumes "identity_step db db'" "accounts_wf db"
  shows "unnoted_kept db db'"
  using assms
proof (induction rule: identity_step.induct)
  case (access_replaced env scope p user_id request db r db')
  show ?case
    using replace_user_access_sets [OF access_replaced.hyps wf_distinct [OF access_replaced.prems]] kept_set_access
    by blast
next
  case (roles_replaced env p user_id roles db r db')
  show ?case
    using replace_user_roles_sets [OF roles_replaced.hyps wf_distinct [OF roles_replaced.prems]] kept_set_access
    by blast
next
  case (stores_replaced env scope p user_id ids db r db')
  show ?case
    using replace_user_store_assignments_sets [OF stores_replaced.hyps wf_distinct [OF stores_replaced.prems]]
      kept_set_access by blast
next
  case (registry_changed db ts ss)
  show ?case by (rule kept_appended [of _ _ "[]" "[]"]) simp_all
qed (auto intro: kept_authenticate kept_session_only create_auth_session_only rotate_auth_session_only kept_logout
    kept_create kept_suspend kept_bootstrap_admin kept_bootstrap_reviewer)

text \<open>Without a note an account keeps its status and its powers, and the trail is only appended to.\<close>

lemma step_unnoted:
  assumes "identity_step db db'" "accounts_wf db" "id_audit db' = id_audit db @ new"
    "(i, t, st, n) \<in> set (accounts db)" "\<not> noted new i"
  shows "\<exists>n'. (i, t, st, n') \<in> set (accounts db') \<and> powers (holdings t i db') = powers (holdings t i db)"
proof -
  have kept: "(i, t, st, n) \<in> set (accounts db') \<or>
      (\<exists>n'. (i, t, st, n') \<in> set (accounts db') \<and> holdings t i db' = holdings t i db)"
    using identity_step_kept [OF assms(1,2)] assms(3-5) unfolding unnoted_kept_def by auto
  have wf': "accounts_wf db'" using account_step_wf identity_step_account assms(1,2) by blast
  have same: ?thesis if here: "(i, t, st, n) \<in> set (accounts db')"
  proof -
    obtain st' n' where a: "(i, t, st', n') \<in> set (accounts db')"
      "n' = n \<longrightarrow> powers (holdings t i db') = powers (holdings t i db)"
      using account_step_powers [OF identity_step_account [OF assms(1,2)] assms(2,4)] by blast
    have "n' = n" using account_unique [OF wf' a(1) here] by simp
    then show ?thesis using a(2) here by blast
  qed
  from kept show ?thesis
  proof
    assume "\<exists>n'. (i, t, st, n') \<in> set (accounts db') \<and> holdings t i db' = holdings t i db"
    then show ?thesis by metis
  qed (rule same)
qed

lemma run_trail:
  "reaches identity_step db db' \<Longrightarrow> accounts_wf db \<Longrightarrow>
     \<exists>new. id_audit db' = id_audit db @ new \<and>
       (\<forall>i t st n. (i, t, st, n) \<in> set (accounts db) \<and> \<not> noted new i \<longrightarrow>
          (\<exists>n'. (i, t, st, n') \<in> set (accounts db') \<and> powers (holdings t i db') = powers (holdings t i db)))"
proof (induction rule: reaches.induct)
  case (reaches_refl db)
  show ?case by (rule exI [of _ "[]"]) auto
next
  case (reaches_step db db1 db2)
  have wf1: "accounts_wf db1" using accounts.reaches_inv reaches_step.hyps(1) reaches_step.prems(1) by blast
  obtain new1 where 1: "id_audit db1 = id_audit db @ new1"
    "\<And>i t st n. (i, t, st, n) \<in> set (accounts db) \<Longrightarrow> \<not> noted new1 i \<Longrightarrow>
          (\<exists>n'. (i, t, st, n') \<in> set (accounts db1) \<and> powers (holdings t i db1) = powers (holdings t i db))"
    using reaches_step.IH [OF reaches_step.prems] by blast
  obtain new2 where 2: "id_audit db2 = id_audit db1 @ new2"
    using identity_step_kept [OF reaches_step.hyps(2) wf1] unfolding unnoted_kept_def by blast
  show ?case
  proof (intro exI [of _ "new1 @ new2"] conjI allI impI)
    show "id_audit db2 = id_audit db @ new1 @ new2" using 1(1) 2 by simp
    fix i t st n
    assume a: "(i, t, st, n) \<in> set (accounts db) \<and> \<not> noted (new1 @ new2) i"
    then have "\<not> noted new1 i" "\<not> noted new2 i" by (auto simp: noted_def)
    then show "\<exists>n'. (i, t, st, n') \<in> set (accounts db2) \<and> powers (holdings t i db2) = powers (holdings t i db)"
      using 1(2) a step_unnoted [OF reaches_step.hyps(2) wf1 2] by metis
  qed
qed

text \<open>
  C23: The audit trail is append-only and complete: over any run it only grows at its end, and a user whom
  none of the new records names has the status and may do exactly what it could before.
\<close>

theorem no_access_changes_silently:
  assumes "identity_wf db" "reaches identity_step db db'"
  shows "\<exists>new. id_audit db' = id_audit db @ new \<and>
    (\<forall>i t st n. (i, t, st, n) \<in> set (accounts db) \<and> \<not> noted new i \<longrightarrow>
       (\<exists>n'. (i, t, st, n') \<in> set (accounts db') \<and> powers (holdings t i db') = powers (holdings t i db)))"
  using run_trail assms by (simp add: identity_wf_def)

subsection \<open>Who a manager can suspend\<close>

text \<open>
  C24: A manager may suspend a corporate user.  The message says that store managers may suspend
  associates only, and reassigning the stores of such a user is refused to them, but the check of a
  suspension reads the legacy grants, where a corporate user who is also an associate in the manager's
  stores looks like an associate: the account is suspended although it could read the whole tenant.
\<close>

theorem manager_suspends_corporate_user:
  assumes "identity_wf db" "\<not> has_tenant_permission p USERS_SUSPEND" "\<not> has_tenant_permission p USERS_CREATE"
    and "user \<noteq> pr_user p" "find_user (pr_tenant p) user db = Some v" "us_status v = USER_ACTIVE"
    and "role_rows (pr_tenant p) user db = {CORPORATE_USER, STORE_ASSOCIATE}"
    and "assignment_rows (pr_tenant p) user db = A" "A \<noteq> {}" "A \<subseteq> set (store_ids_for_permission p USERS_SUSPEND)"
  shows "(INVENTORY_READ, None) \<in> powers (holdings (pr_tenant p) user db) \<and>
    (\<exists>r db'. suspend_user env p user db = Inr (r, db') \<and> us_status (rc_user r) = USER_SUSPENDED) \<and>
    \<not> is_ok (replace_user_store_assignments env scope p user ids db)"
proof (intro conjI)
  let ?t = "pr_tenant p"
  have wf: "accounts_wf db" using assms(1) by (simp add: identity_wf_def)
  have v: "us_id v = user" using find_user_SomeD [OF assms(5)] by simp
  show "(INVENTORY_READ, None) \<in> powers (holdings ?t user db)"
    by (auto simp: holdings_def assms(7) tenant_wide_role_def)
  have "mirrored (holdings ?t user db)" using wf by (simp add: accounts_wf_def)
  then have G: "grant_specs ?t user db = (\<lambda>s. (LEGACY_STORE_ASSOCIATE, Some s)) ` A"
    using assms(7,8) by (simp add: holdings_def compatibility_grant_specs_def)
  let ?gs = "load_grants ?t user db"
  have grant: "ag_role g = LEGACY_STORE_ASSOCIATE \<and> (\<exists>s \<in> A. ag_store g = Some s)" if "g \<in> set ?gs" for g
  proof -
    have "(ag_role g, ag_store g) \<in> grant_specs ?t user db" using that by (auto simp: in_grant_specs)
    then show ?thesis unfolding G by auto
  qed
  have "?gs \<noteq> []" using G assms(9) by (auto simp: grant_specs_def existing_specs_def)
  then have "ensure_can_suspend p ?gs = Inr ()"
    using grant assms(10) by (force simp: ensure_can_suspend_def list_ex_iff)
  moreover have "ensure_not_suspending_last_tenant_admin ?t user ?gs db = Inr ()"
  proof -
    have "TENANT_ADMIN \<notin> role_rows ?t user db" by (simp add: assms(7))
    moreover have "\<not> list_ex (\<lambda>g. ag_role g = CORPORATE_ADMIN \<and> ag_store g = None) ?gs"
      using grant by (force simp: list_ex_iff)
    ultimately show ?thesis
      by (auto simp: ensure_not_suspending_last_tenant_admin_def list_ex_iff in_role_rows)
  qed
  ultimately show "\<exists>r db'. suspend_user env p user db = Inr (r, db') \<and> us_status (rc_user r) = USER_SUSPENDED"
    using assms(4-6) v
    by (simp add: suspend_user_def lock_access_target_def Let_def ensure_def)
  show "\<not> is_ok (replace_user_store_assignments env scope p user ids db)"
  proof
    assume "is_ok (replace_user_store_assignments env scope p user ids db)"
    then obtain a db' where r: "replace_user_store_assignments env scope p user ids db = Inr (a, db')"
      by (cases "replace_user_store_assignments env scope p user ids db") auto
    from replace_user_store_assignments_sets [OF r wf_distinct [OF wf]] assms(3)
    have "cx_roles (load_canonical_access ?t user db) = {STORE_ASSOCIATE}"
      unfolding managers_may_create_def by blast
    then show False by (auto simp: load_canonical_access_simps(1) assms(7) doubleton_eq_iff)
  qed
qed

subsection \<open>A firm to try them on\<close>

text \<open>The invariant needs to be checked only for the users that hold something.\<close>

definition holders :: "identity_db \<Rightarrow> (uuid \<times> uuid) list" where
  "holders db =
     map (\<lambda>r. (ur_tenant r, ur_user r)) (id_roles db) @ map (\<lambda>a. (ua_tenant a, ua_user a)) (id_assignments db) @
     map (\<lambda>g. (ag_tenant g, ag_user g)) (id_grants db)"

lemma not_holder: "(t, u) \<notin> set (holders db) \<Longrightarrow> holdings t u db = ({}, {}, {})"
  by (auto simp: holders_def holdings_def role_rows_def assignment_rows_def grant_specs_def existing_specs_def
      load_grants_def image_iff)

definition identity_check :: "identity_db \<Rightarrow> bool" where
  "identity_check db \<longleftrightarrow>
     distinct (map fst (accounts db)) \<and>
     list_all (\<lambda>(t, u). mirrored (holdings t u db) \<and> list_ex (\<lambda>(i, t', _). i = u \<and> t' = t) (accounts db)) (holders db) \<and>
     distinct (map se_id (id_sessions db)) \<and>
     list_all (\<lambda>s. list_all (\<lambda>s'. se_line s = se_line s' \<and> se_rotated_at s = None \<and> se_rotated_at s' = None \<longrightarrow> s = s')
       (id_sessions db)) (id_sessions db)"

lemma identity_check_wf:
  assumes "identity_check db"
  shows "identity_wf db"
proof -
  have h: "mirrored (holdings t u db) \<and> known t u db" if "(t, u) \<in> set (holders db)" for t u
    using assms that by (fastforce simp: identity_check_def list_all_iff list_ex_iff known_def)
  have "mirrored (holdings t u db)" for t u
    using h [of t u] not_holder [of t u db] by (cases "(t, u) \<in> set (holders db)") auto
  moreover have "known t u db" if "holdings t u db \<noteq> ({}, {}, {})" for t u
    using h [of t u] not_holder [of t u db] that by blast
  ultimately show ?thesis
    using assms by (auto simp: identity_wf_def accounts_wf_def sessions_wf_def identity_check_def list_all_iff)
qed

definition sample_staff :: "uuid \<Rightarrow> string \<Rightarrow> user_row" where
  "sample_staff u email =
     \<lparr>us_id = u, us_tenant = 1, us_email = email, us_display_name = email, us_password_hash = ''h'',
      us_status = USER_ACTIVE, us_token_version = 1, us_last_login_at = None\<rparr>"

definition sample_secret :: string where
  "sample_secret = ''0123456789012345678901234567890123456789''"

text \<open>Two administrators 7 and 8, the manager 5 of store 3, and 6, a corporate user who also works there.\<close>

definition sample_firm :: identity_db where
  "sample_firm =
     \<lparr>id_tenants = [\<lparr>tn_id = 1, tn_code = ''acme'', tn_name = ''Acme'', tn_status = TENANT_ACTIVE\<rparr>],
      id_stores = [\<lparr>st_tenant = 1, st_id = 3, st_status = STORE_ACTIVE\<rparr>],
      id_users = [sample_staff 7 ''a@x'', sample_staff 8 ''b@x'', sample_staff 5 ''m@x'', sample_staff 6 ''c@x''],
      id_sessions = [\<lparr>se_id = 9, se_tenant = 1, se_user = 7, se_family = 2, se_refresh_hash = sample_secret,
                      se_token_version = 1, se_expires_at = 100, se_last_used_at = None,
                      se_rotated_at = None, se_revoked_at = None\<rparr>],
      id_grants = [\<lparr>ag_tenant = 1, ag_user = 7, ag_role = CORPORATE_ADMIN, ag_store = None\<rparr>,
                   \<lparr>ag_tenant = 1, ag_user = 8, ag_role = CORPORATE_ADMIN, ag_store = None\<rparr>,
                   \<lparr>ag_tenant = 1, ag_user = 5, ag_role = LEGACY_STORE_MANAGER, ag_store = Some 3\<rparr>,
                   \<lparr>ag_tenant = 1, ag_user = 6, ag_role = LEGACY_STORE_ASSOCIATE, ag_store = Some 3\<rparr>],
      id_roles = [\<lparr>ur_tenant = 1, ur_user = 7, ur_role = TENANT_ADMIN\<rparr>,
                  \<lparr>ur_tenant = 1, ur_user = 8, ur_role = TENANT_ADMIN\<rparr>,
                  \<lparr>ur_tenant = 1, ur_user = 5, ur_role = STORE_MANAGER\<rparr>,
                  \<lparr>ur_tenant = 1, ur_user = 6, ur_role = CORPORATE_USER\<rparr>,
                  \<lparr>ur_tenant = 1, ur_user = 6, ur_role = STORE_ASSOCIATE\<rparr>],
      id_assignments = [\<lparr>ua_tenant = 1, ua_user = 5, ua_store = 3\<rparr>, \<lparr>ua_tenant = 1, ua_user = 6, ua_store = 3\<rparr>],
      id_audit = []\<rparr>"

definition sample_call :: identity_env where
  "sample_call =
     \<lparr>ie_now = 50, ie_db_now = 50, ie_user_id = 20, ie_audit_id = 21, ie_session_id = 22, ie_family_id = 23,
      ie_secret = ''1'' @ sample_secret, ie_digest = (\<lambda>s. s), ie_hash_password = (\<lambda>s. s),
      ie_verify = (\<lambda>p h. Some (p = h, None)), ie_dummy_hash = ''-'', ie_conflict = False\<rparr>"

definition sample_actor :: "uuid \<Rightarrow> canonical_role \<Rightarrow> uuid option \<Rightarrow> principal" where
  "sample_actor u role store =
     \<lparr>pr_user = u, pr_tenant = 1, pr_email = ''e'', pr_display_name = ''e'',
      pr_scopes = [\<lparr>sc_role = Canonical role, sc_store = store\<rparr>], pr_canonical_roles = [role],
      pr_assigned_stores = (case store of None \<Rightarrow> [] | Some s \<Rightarrow> [s]), pr_session = None\<rparr>"

definition sample_boss :: principal where "sample_boss = sample_actor 8 TENANT_ADMIN None"
definition sample_keeper :: principal where "sample_keeper = sample_actor 5 STORE_MANAGER (Some 3)"

lemma sample_firm_wf: "identity_wf sample_firm"
  by (rule identity_check_wf) code_simp

text \<open>Administrator 8 suspends the other administrator, and the manager suspends the corporate user.\<close>

definition sample_after :: identity_db where
  "sample_after = snd (projr (suspend_user sample_call sample_boss 7 sample_firm))"

lemma sample_suspension: "identity_step sample_firm sample_after"
proof -
  have "is_ok (suspend_user sample_call sample_boss 7 sample_firm)" by code_simp
  then obtain x where x: "suspend_user sample_call sample_boss 7 sample_firm = Inr x"
    by (cases "suspend_user sample_call sample_boss 7 sample_firm") auto
  have "suspend_user sample_call sample_boss 7 sample_firm = Inr (fst x, sample_after)"
    by (simp add: sample_after_def x)
  then show ?thesis by (rule user_suspended)
qed

theorem tenants_keep_an_administrator_witness:
  "\<exists>j n. (j, 1, USER_ACTIVE, n) \<in> set (accounts sample_after) \<and>
    (tenant_status_in sample_after 1 = Some TENANT_ACTIVE \<longrightarrow>
       (\<forall>now. \<exists>p. get_current_principal sample_after (plain_claims j 1 n) now = Inr (p, TenantWide) \<and>
          (\<forall>perm. has_tenant_permission p perm)))"
proof (rule tenants_keep_an_administrator [OF sample_firm_wf])
  have "list_ex (\<lambda>a. a = (7, 1, USER_ACTIVE, 1)) (accounts sample_firm)" by code_simp
  moreover have "TENANT_ADMIN \<in> held_roles (holdings 1 7 sample_firm)" by code_simp
  ultimately show "active_admin 1 7 sample_firm" by (auto simp: active_admin_def list_ex_iff)
  show "reaches identity_step sample_firm sample_after"
    by (rule reaches_single [of identity_step, OF sample_suspension])
qed

theorem tokens_never_change_meaning_witness:
  "has_tenant_permission (fst (projr (get_current_principal sample_after (plain_claims 6 1 1) 60))) INVENTORY_READ =
     has_tenant_permission (fst (projr (get_current_principal sample_firm (plain_claims 6 1 1) 40))) INVENTORY_READ"
proof -
  have ok: "is_ok (get_current_principal sample_firm (plain_claims 6 1 1) 40)"
    "is_ok (get_current_principal sample_after (plain_claims 6 1 1) 60)"
    by code_simp+
  obtain p sc where 1: "get_current_principal sample_firm (plain_claims 6 1 1) 40 = Inr (p, sc)"
    using ok(1) by (cases "get_current_principal sample_firm (plain_claims 6 1 1) 40") auto
  obtain p' sc' where 2: "get_current_principal sample_after (plain_claims 6 1 1) 60 = Inr (p', sc')"
    using ok(2) by (cases "get_current_principal sample_after (plain_claims 6 1 1) 60") auto
  show ?thesis
    using tokens_never_change_meaning [OF sample_firm_wf reaches_single [of identity_step, OF sample_suspension] 1 2,
        of INVENTORY_READ 3] by (simp add: 1 2)
qed

theorem no_access_changes_silently_witness:
  "\<exists>new. id_audit sample_after = id_audit sample_firm @ new \<and>
    (\<forall>i t st n. (i, t, st, n) \<in> set (accounts sample_firm) \<and> \<not> noted new i \<longrightarrow>
       (\<exists>n'. (i, t, st, n') \<in> set (accounts sample_after) \<and>
          powers (holdings t i sample_after) = powers (holdings t i sample_firm)))"
  by (rule no_access_changes_silently [OF sample_firm_wf reaches_single [of identity_step, OF sample_suspension]])

theorem managers_cannot_escalate_witness:
  "replace_user_roles sample_call sample_keeper 6 [TENANT_ADMIN] sample_firm =
     Inl (ApiError 403 ''role_assignment_forbidden'')"
proof -
  have "\<not> has_tenant_permission sample_keeper USERS_CREATE" by code_simp
  from managers_cannot_escalate [OF sample_firm_wf this, of sample_call TenantWide 6] show ?thesis by blast
qed

theorem manager_suspends_corporate_user_witness:
  "(INVENTORY_READ, None) \<in> powers (holdings 1 6 sample_firm) \<and>
    (\<exists>r db'. suspend_user sample_call sample_keeper 6 sample_firm = Inr (r, db') \<and>
       us_status (rc_user r) = USER_SUSPENDED)"
proof -
  have t: "pr_tenant sample_keeper = 1" by code_simp
  have "find_user 1 6 sample_firm = Some (sample_staff 6 ''c@x'')" by code_simp
  moreover have "role_rows 1 6 sample_firm = {CORPORATE_USER, STORE_ASSOCIATE}" by code_simp
  moreover have "assignment_rows 1 6 sample_firm = {3}" by code_simp
  moreover have "\<not> has_tenant_permission sample_keeper USERS_SUSPEND" "\<not> has_tenant_permission sample_keeper USERS_CREATE"
    "6 \<noteq> pr_user sample_keeper" "us_status (sample_staff 6 ''c@x'') = USER_ACTIVE"
    by code_simp+
  moreover have "{3} \<subseteq> set (store_ids_for_permission sample_keeper USERS_SUSPEND)" by code_simp
  ultimately show ?thesis
    using manager_suspends_corporate_user [OF sample_firm_wf, of sample_keeper 6 "sample_staff 6 ''c@x''" "{3}" sample_call]
    by (simp add: t)
qed

text \<open>The token of the session of administrator 7 is exchanged, stolen, and presented once more.\<close>

definition sample_token :: string where
  "sample_token = str_uuid 9 @ ''.'' @ sample_secret"

theorem reused_refresh_tokens_kill_the_family_witness:
  "fst (rotate_auth_session sample_call ''acme'' sample_token 10
      (snd (rotate_auth_session sample_call ''acme'' sample_token 10 sample_firm))) = Inl (invalid_refresh_token True)"
proof -
  define db1 where "db1 = snd (rotate_auth_session sample_call ''acme'' sample_token 10 sample_firm)"
  define r where "r = rotate_auth_session sample_call ''acme'' sample_token 10 db1"
  let ?new = "new_auth_session_token sample_call (sample_staff 7 ''a@x'') 10 (Some 2)"
  have "fst (rotate_auth_session sample_call ''acme'' sample_token 10 sample_firm) = Inr (sample_staff 7 ''a@x'', ?new)"
    by code_simp
  then have first: "rotate_auth_session sample_call ''acme'' sample_token 10 sample_firm =
      (Inr (sample_staff 7 ''a@x'', fst ?new, snd ?new), db1)"
    by (simp add: db1_def prod_eq_iff)
  have "id_tenants db1 = id_tenants sample_firm"
    using rotate_auth_session_only [OF first] by (auto simp: session_only_def)
  then have t: "resolve_login_tenant ''acme'' db1 = resolve_login_tenant ''acme'' sample_firm"
    by (simp add: resolve_login_tenant_def)
  have t': "resolve_login_tenant ''acme'' sample_firm = Some (hd (id_tenants sample_firm))"
    "tn_id (hd (id_tenants sample_firm)) = se_tenant (fst ?new)" by code_simp+
  have again: "rotate_auth_session sample_call ''acme'' sample_token 10 db1 = (fst r, snd r)" by (simp add: r_def)
  have "fst r = Inl (invalid_refresh_token True)"
    using reused_refresh_tokens_kill_the_family [OF sample_firm_wf first reaches_refl refl t [unfolded t'(1)] t'(2)
        again reaches_refl] by blast
  then show ?thesis by (simp add: r_def db1_def)
qed

end
