(* ===== verification/Onboarding.thy ===== *)
theory Onboarding
  imports User_Admin
begin

text \<open>
  Onboarding of tenants, stores, zones and gateways: \<open>services/onboarding.py\<close> with the request schemas of
  \<open>schemas/tenancy.py\<close> and the rows of \<open>models/tenancy.py\<close>.  The registry is the full form of the
  tables that the pipeline reads; the rows extend the records of \<open>Tables\<close> by the columns only this
  component uses.  A database session sees the rows of its own tenant; constraints see every row.
\<close>

subsection \<open>Rows\<close>

datatype onboarding_status =
  ONBOARDING_RECEIVED | ONBOARDING_VALIDATING | ONBOARDING_COMPLETED | ONBOARDING_FAILED

record org_unit =
  ou_tenant :: uuid
  ou_id :: uuid
  ou_parent :: "uuid option"
  ou_code :: string
  ou_name :: string
  ou_type :: string

record site = store_row +
  si_unit :: "uuid option"
  si_code :: string
  si_name :: string
  si_timezone :: string
  si_configuration :: json_object

record place = zone_row +
  pl_code :: string
  pl_name :: string

record gateway = device +
  gw_serial :: string
  gw_name :: string

record onboarding_batch =
  bo_id :: uuid
  bo_tenant :: uuid
  bo_key :: string
  bo_hash :: string
  bo_status :: onboarding_status
  bo_total :: int
  bo_succeeded :: int
  bo_failed :: int
  bo_errors :: "json list"

record registry =
  rg_tenants :: "tenant_row list"
  rg_units :: "org_unit list"
  rg_sites :: "site list"
  rg_places :: "place list"
  rg_gateways :: "gateway list"
  rg_placements :: "assignment list"
  rg_batches :: "onboarding_batch list"

text \<open>
  The environment of a call: the clock of the database, the identifiers drawn (one for each row the
  registry has by then), a secret, SHA-256 over a secret and over the canonical text of a JSON value, and
  whether a concurrent transaction makes the commit fail.
\<close>

record registry_env =
  re_now :: timestamp
  re_fresh :: "nat \<Rightarrow> uuid"
  re_secret :: string
  re_digest :: "string \<Rightarrow> string"
  re_json_digest :: "json \<Rightarrow> string"
  re_commit_fault :: bool

definition row_count :: "registry \<Rightarrow> nat" where
  "row_count r =
     length (rg_tenants r) + length (rg_units r) + length (rg_sites r) + length (rg_places r) +
     length (rg_gateways r) + length (rg_placements r) + length (rg_batches r)"

definition fresh_id :: "registry_env \<Rightarrow> registry \<Rightarrow> uuid" where
  "fresh_id env r = re_fresh env (row_count r)"

subsection \<open>Requests\<close>

record unit_segment =
  sg_code :: string
  sg_name :: string
  sg_type :: string

record zone_create =
  zc_code :: string
  zc_name :: string
  zc_kind :: zone_kind

record device_create =
  dc_serial :: string
  dc_name :: string
  dc_zone :: string

record store_device_create =
  sd_serial :: string
  sd_name :: string
  sd_zone :: uuid

record store_create =
  so_code :: string
  so_name :: string
  so_timezone :: string
  so_path :: "unit_segment list"
  so_zones :: "zone_create list"
  so_devices :: "device_create list"
  so_configuration :: json_object

definition normalize_non_blank :: "string \<Rightarrow> string \<Rightarrow> string outcome" where
  "normalize_non_blank value field =
     (if strip value = [] then Inl (ValueError (field @ '' cannot be blank'')) else Inr (strip value))"

text \<open>\<open>CODE_PATTERN\<close> is the expression of \<open>TENANT_CODE_PATTERN\<close>.\<close>

definition code_field :: "string \<Rightarrow> string outcome" where
  "code_field value =
     (if 2 \<le> length value \<and> length value \<le> 64 \<and> tenant_code_pattern value
      then Inr (str_lower (strip value)) else Inl (ValueError ''code''))"

definition name_field :: "string \<Rightarrow> string \<Rightarrow> string outcome" where
  "name_field value field =
     (if 1 \<le> length value \<and> length value \<le> 255 then normalize_non_blank value field
      else Inl (ValueError field))"

definition normalize_serial :: "string \<Rightarrow> string outcome" where
  "normalize_serial value =
     (if \<not> (3 \<le> length value \<and> length value \<le> 128) then Inl (ValueError ''serial_number'')
      else if length (str_upper (strip value)) < 3
      then Inl (ValueError ''serial_number must contain at least 3 non-whitespace characters'')
      else Inr (str_upper (strip value)))"

definition validate_tenant_create :: "bootstrap_tenant \<Rightarrow> bootstrap_tenant outcome" where
  "validate_tenant_create q =
     and_then (code_field (bt_code q)) (\<lambda>code.
     and_then (name_field (bt_name q) ''name'') (\<lambda>name.
     Inr \<lparr>bt_code = code, bt_name = name\<rparr>))"

definition validate_segment :: "unit_segment \<Rightarrow> unit_segment outcome" where
  "validate_segment q =
     and_then (code_field (sg_code q)) (\<lambda>code.
     and_then (name_field (sg_name q) ''name'') (\<lambda>name.
     and_then (ensure (2 \<le> length (sg_type q) \<and> length (sg_type q) \<le> 32) (ValueError ''unit_type'')) (\<lambda>_.
     Inr \<lparr>sg_code = code, sg_name = name, sg_type = str_upper (strip (sg_type q))\<rparr>)))"

definition validate_zone_create :: "zone_create \<Rightarrow> zone_create outcome" where
  "validate_zone_create q =
     and_then (code_field (zc_code q)) (\<lambda>code.
     and_then (name_field (zc_name q) ''name'') (\<lambda>name.
     Inr (q\<lparr>zc_code := code, zc_name := name\<rparr>)))"

definition validate_device_create :: "device_create \<Rightarrow> device_create outcome" where
  "validate_device_create q =
     and_then (normalize_serial (dc_serial q)) (\<lambda>serial.
     and_then (name_field (dc_name q) ''display_name'') (\<lambda>name.
     and_then (code_field (dc_zone q)) (\<lambda>zone.
     Inr \<lparr>dc_serial = serial, dc_name = name, dc_zone = zone\<rparr>)))"

definition validate_store_device :: "store_device_create \<Rightarrow> store_device_create outcome" where
  "validate_store_device q =
     and_then (normalize_serial (sd_serial q)) (\<lambda>serial.
     and_then (name_field (sd_name q) ''display_name'') (\<lambda>name.
     Inr (q\<lparr>sd_serial := serial, sd_name := name\<rparr>)))"

definition validate_store_configuration :: "store_create \<Rightarrow> unit outcome" where
  "validate_store_configuration q =
     (let codes = map zc_code (so_zones q)
      in if \<not> distinct codes then Inl (ValueError ''zone codes must be unique within a store'')
         else if \<not> {SALES_FLOOR, BACKROOM} \<subseteq> set (map zc_kind (so_zones q))
         then Inl (ValueError ''each store requires SALES_FLOOR and BACKROOM zones'')
         else if \<not> set (map dc_zone (so_devices q)) \<subseteq> set codes
         then Inl (ValueError ''devices reference unknown zones'')
         else if \<not> distinct (map sg_code (so_path q))
         then Inl (ValueError ''organization path cannot repeat a unit code'')
         else Inr ())"

text \<open>\<open>zone_info\<close> tells whether \<open>ZoneInfo\<close> finds a time zone of that name.\<close>

definition validate_store_create :: "(string \<Rightarrow> bool) \<Rightarrow> store_create \<Rightarrow> store_create outcome" where
  "validate_store_create zone_info q =
     and_then (code_field (so_code q)) (\<lambda>code.
     and_then (name_field (so_name q) ''name'') (\<lambda>name.
     and_then (ensure (1 \<le> length (so_timezone q) \<and> length (so_timezone q) \<le> 64 \<and> zone_info (so_timezone q))
       (ValueError ''timezone must be a valid IANA timezone'')) (\<lambda>_.
     and_then (ensure (length (so_path q) \<le> 10) (ValueError ''organization_path'')) (\<lambda>_.
     and_then (map_outcome validate_segment (so_path q)) (\<lambda>path.
     and_then (ensure (2 \<le> length (so_zones q) \<and> length (so_zones q) \<le> 100) (ValueError ''zones'')) (\<lambda>_.
     and_then (map_outcome validate_zone_create (so_zones q)) (\<lambda>zs.
     and_then (ensure (length (so_devices q) \<le> 1000) (ValueError ''devices'')) (\<lambda>_.
     and_then (map_outcome validate_device_create (so_devices q)) (\<lambda>ds.
     let q' = q\<lparr>so_code := code, so_name := name, so_path := path, so_zones := zs, so_devices := ds\<rparr>
     in and_then (validate_store_configuration q') (\<lambda>_. Inr q'))))))))))"

definition requested_serials :: "store_create list \<Rightarrow> string list" where
  "requested_serials request = concat (map (\<lambda>q. map dc_serial (so_devices q)) request)"

definition validate_bulk_request :: "(string \<Rightarrow> bool) \<Rightarrow> store_create list \<Rightarrow> store_create list outcome" where
  "validate_bulk_request zone_info raw =
     and_then (ensure (1 \<le> length raw \<and> length raw \<le> 500) (ValueError ''stores'')) (\<lambda>_.
     and_then (map_outcome (validate_store_create zone_info) raw) (\<lambda>request.
     and_then (ensure (distinct (map so_code request))
       (ValueError ''store codes must be unique within the request'')) (\<lambda>_.
     and_then (ensure (distinct (requested_serials request))
       (ValueError ''device serial numbers must be unique within the request'')) (\<lambda>_.
     Inr request))))"

subsection \<open>Writing rows\<close>

text \<open>
  A row is checked against the keys and CHECK constraints of its table when the session flushes it.  The
  foreign keys hold by the way each row is made: what it refers to was read or written before.
\<close>

definition insert_unit :: "org_unit \<Rightarrow> registry \<Rightarrow> registry outcome" where
  "insert_unit u r =
     (if ou_id u \<in> ou_id ` set (rg_units r) then Inl (IntegrityError ''organization_units_pkey'')
      else if (ou_tenant u, ou_code u) \<in> (\<lambda>v. (ou_tenant v, ou_code v)) ` set (rg_units r)
      then Inl (IntegrityError ''uq_org_units_tenant_code'')
      else if ou_code u \<noteq> str_lower (ou_code u) then Inl (IntegrityError ''ck_org_units_code_lowercase'')
      else Inr (r\<lparr>rg_units := rg_units r @ [u]\<rparr>))"

definition insert_site :: "site \<Rightarrow> registry \<Rightarrow> registry outcome" where
  "insert_site s r =
     (if st_id s \<in> st_id ` set (rg_sites r) then Inl (IntegrityError ''stores_pkey'')
      else if (st_tenant s, si_code s) \<in> (\<lambda>v. (st_tenant v, si_code v)) ` set (rg_sites r)
      then Inl (IntegrityError ''uq_stores_tenant_code'')
      else if si_code s \<noteq> str_lower (si_code s) then Inl (IntegrityError ''ck_stores_code_lowercase'')
      else Inr (r\<lparr>rg_sites := rg_sites r @ [s]\<rparr>))"

definition insert_place :: "place \<Rightarrow> registry \<Rightarrow> registry outcome" where
  "insert_place z r =
     (if zn_id z \<in> zn_id ` set (rg_places r) then Inl (IntegrityError ''zones_pkey'')
      else if (zn_store z, pl_code z) \<in> (\<lambda>v. (zn_store v, pl_code v)) ` set (rg_places r)
      then Inl (IntegrityError ''uq_zones_store_code'')
      else if pl_code z \<noteq> str_lower (pl_code z) then Inl (IntegrityError ''ck_zones_code_lowercase'')
      else Inr (r\<lparr>rg_places := rg_places r @ [z]\<rparr>))"

definition insert_gateway :: "gateway \<Rightarrow> registry \<Rightarrow> registry outcome" where
  "insert_gateway d r =
     (if dv_id d \<in> dv_id ` set (rg_gateways r) then Inl (IntegrityError ''devices_pkey'')
      else if gw_serial d \<in> gw_serial ` set (rg_gateways r) then Inl (IntegrityError ''uq_devices_serial_number'')
      else Inr (r\<lparr>rg_gateways := rg_gateways r @ [d]\<rparr>))"

definition insert_placement :: "assignment \<Rightarrow> registry \<Rightarrow> registry outcome" where
  "insert_placement a r =
     (if \<not> (case as_to a of None \<Rightarrow> True | Some t \<Rightarrow> as_from a < t)
      then Inl (IntegrityError ''ck_device_assignments_valid_interval'')
      else if as_to a = None \<and>
        list_ex (\<lambda>b. as_tenant b = as_tenant a \<and> as_device b = as_device a \<and> as_to b = None) (rg_placements r)
      then Inl (IntegrityError ''uq_device_assignments_active_device'')
      else Inr (r\<lparr>rg_placements := rg_placements r @ [a]\<rparr>))"

definition insert_batch :: "onboarding_batch \<Rightarrow> registry \<Rightarrow> registry outcome" where
  "insert_batch b r =
     (if bo_id b \<in> bo_id ` set (rg_batches r) then Inl (IntegrityError ''onboarding_batches_pkey'')
      else if (bo_tenant b, bo_key b) \<in> (\<lambda>c. (bo_tenant c, bo_key c)) ` set (rg_batches r)
      then Inl (IntegrityError ''uq_onboarding_batches_tenant_idempotency'')
      else if \<not> 0 < bo_total b then Inl (IntegrityError ''ck_onboarding_batches_positive_total'')
      else if \<not> (0 \<le> bo_succeeded b \<and> 0 \<le> bo_failed b)
      then Inl (IntegrityError ''ck_onboarding_batches_nonnegative_results'')
      else if \<not> bo_succeeded b + bo_failed b \<le> bo_total b
      then Inl (IntegrityError ''ck_onboarding_batches_results_within_total'')
      else Inr (r\<lparr>rg_batches := rg_batches r @ [b]\<rparr>))"

subsection \<open>Tenants\<close>

text \<open>
  The session is pinned to the active tenant the code resolves to, or else to a fresh identifier, under
  which no tenant is visible.
\<close>

definition tenant_code_conflict :: fault where
  "tenant_code_conflict = ApiError 409 ''tenant_code_conflict''"

definition create_tenant ::
    "registry_env \<Rightarrow> bootstrap_tenant \<Rightarrow> registry \<Rightarrow> (tenant_row \<times> registry) outcome" where
  "create_tenant env request r =
     (let resolved = select_one (\<lambda>t. tn_code t = str_lower (btrim (bt_code request)) \<and>
            tn_status t = TENANT_ACTIVE) (rg_tenants r);
          tenant_id = (case resolved of None \<Rightarrow> fresh_id env r | Some t \<Rightarrow> tn_id t)
      in case select_one (\<lambda>t. tn_id t = tenant_id \<and> tn_code t = bt_code request) (rg_tenants r) of
           Some t \<Rightarrow> if tn_name t = bt_name request then Inr (t, r) else Inl tenant_code_conflict
         | None \<Rightarrow>
             if tenant_id \<in> tn_id ` set (rg_tenants r) \<or> bt_code request \<in> tn_code ` set (rg_tenants r) \<or>
                bt_code request \<noteq> str_lower (bt_code request) \<or> re_commit_fault env
             then Inl tenant_code_conflict
             else
               let t = \<lparr>tn_id = tenant_id, tn_code = bt_code request, tn_name = bt_name request,
                        tn_status = TENANT_ACTIVE\<rparr>
               in Inr (t, r\<lparr>rg_tenants := rg_tenants r @ [t]\<rparr>))"

definition get_tenant :: "uuid \<Rightarrow> registry \<Rightarrow> tenant_row outcome" where
  "get_tenant tenant r =
     (case get_by tn_id tenant (rg_tenants r) of
        None \<Rightarrow> Inl (ApiError 404 ''Tenant not found'')
      | Some t \<Rightarrow> Inr t)"

subsection \<open>Zones and gateways of one store\<close>

text \<open>Every role that may configure a tenant is tenant-wide, so the session sees all stores of its tenant.\<close>

definition store_in_principal_tenant :: "principal \<Rightarrow> uuid \<Rightarrow> registry \<Rightarrow> site outcome" where
  "store_in_principal_tenant p store_id r =
     (if \<not> can_access_store p TENANT_CONFIGURE store_id then Inl (ApiError 403 ''store_scope_denied'')
      else case select_one (\<lambda>s. st_id s = store_id \<and> st_tenant s = pr_tenant p) (rg_sites r) of
        None \<Rightarrow> Inl (ApiError 404 ''Store not found'')
      | Some s \<Rightarrow> Inr s)"

definition new_place :: "registry_env \<Rightarrow> uuid \<Rightarrow> uuid \<Rightarrow> zone_create \<Rightarrow> registry \<Rightarrow> place" where
  "new_place env tenant store request r =
     \<lparr>zn_tenant = tenant, zn_id = fresh_id env r, zn_store = store, zn_kind = zc_kind request,
      pl_code = zc_code request, pl_name = zc_name request\<rparr>"

definition create_store_zone ::
    "registry_env \<Rightarrow> principal \<Rightarrow> uuid \<Rightarrow> zone_create \<Rightarrow> registry \<Rightarrow> (place \<times> registry) outcome" where
  "create_store_zone env p store_id request r =
     and_then (store_in_principal_tenant p store_id r) (\<lambda>s.
     let z = new_place env (st_tenant s) (st_id s) request r
     in case insert_place z r of
          Inl _ \<Rightarrow> Inl (ApiError 409 ''zone_code_conflict'')
        | Inr r' \<Rightarrow> if re_commit_fault env then Inl (ApiError 409 ''zone_code_conflict'') else Inr (z, r'))"

definition new_gateway :: "registry_env \<Rightarrow> uuid \<Rightarrow> string \<Rightarrow> string \<Rightarrow> string option \<Rightarrow> registry \<Rightarrow> gateway" where
  "new_gateway env tenant serial name credential r =
     \<lparr>dv_tenant = tenant, dv_id = fresh_id env r, dv_status = DEVICE_ACTIVE,
      dv_credential_hash = credential, gw_serial = serial, gw_name = name\<rparr>"

definition new_placement :: "uuid \<Rightarrow> uuid \<Rightarrow> uuid \<Rightarrow> uuid \<Rightarrow> timestamp \<Rightarrow> assignment" where
  "new_placement tenant device store zone start =
     \<lparr>as_tenant = tenant, as_device = device, as_store = store, as_zone = zone, as_from = start, as_to = None\<rparr>"

definition register_store_device ::
    "registry_env \<Rightarrow> principal \<Rightarrow> uuid \<Rightarrow> store_device_create \<Rightarrow> registry
       \<Rightarrow> ((gateway \<times> assignment \<times> string) \<times> registry) outcome" where
  "register_store_device env p store_id request r =
     and_then (store_in_principal_tenant p store_id r) (\<lambda>s.
     case select_one (\<lambda>z. zn_id z = sd_zone request \<and> zn_tenant z = st_tenant s \<and> zn_store z = st_id s)
            (rg_places r) of
       None \<Rightarrow> Inl (ApiError 422 ''invalid_device_assignment_location'')
     | Some z \<Rightarrow>
         let d = new_gateway env (st_tenant s) (sd_serial request) (sd_name request)
                   (Some (re_digest env (re_secret env))) r;
             a = new_placement (st_tenant s) (dv_id d) (st_id s) (zn_id z) (re_now env)
         in case and_then (insert_gateway d r) (insert_placement a) of
              Inl _ \<Rightarrow> Inl (ApiError 409 ''device_registration_conflict'')
            | Inr r' \<Rightarrow>
                if re_commit_fault env then Inl (ApiError 409 ''device_registration_conflict'')
                else Inr ((d, a, device_token (dv_id d) (re_secret env)), r'))"

definition rotate_device_credential ::
    "registry_env \<Rightarrow> uuid \<Rightarrow> uuid \<Rightarrow> registry \<Rightarrow> (string \<times> registry) outcome" where
  "rotate_device_credential env tenant device_id r =
     and_then (get_tenant tenant r) (\<lambda>_.
     case select_one (\<lambda>d. dv_id d = device_id \<and> dv_tenant d = tenant) (rg_gateways r) of
       None \<Rightarrow> Inl (ApiError 404 ''Device not found'')
     | Some d \<Rightarrow>
         Inr (device_token (dv_id d) (re_secret env),
           r\<lparr>rg_gateways :=
               update_where (\<lambda>g. dv_id g = device_id)
                 (\<lambda>g. g\<lparr>dv_credential_hash := Some (re_digest env (re_secret env))\<rparr>) (rg_gateways r)\<rparr>))"

subsection \<open>Onboarding stores in bulk\<close>

fun kind_value :: "zone_kind \<Rightarrow> string" where
  "kind_value SALES_FLOOR = ''SALES_FLOOR''"
| "kind_value BACKROOM = ''BACKROOM''"
| "kind_value RECEIVING = ''RECEIVING''"
| "kind_value OTHER_ZONE = ''OTHER''"

definition store_json :: "store_create \<Rightarrow> json" where
  "store_json q =
     JObject
       [(''code'', JString (so_code q)), (''name'', JString (so_name q)),
        (''timezone'', JString (so_timezone q)),
        (''organization_path'', JArray (map (\<lambda>s. JObject
           [(''code'', JString (sg_code s)), (''name'', JString (sg_name s)), (''unit_type'', JString (sg_type s))])
           (so_path q))),
        (''zones'', JArray (map (\<lambda>z. JObject
           [(''code'', JString (zc_code z)), (''name'', JString (zc_name z)),
            (''kind'', JString (kind_value (zc_kind z)))]) (so_zones q))),
        (''devices'', JArray (map (\<lambda>d. JObject
           [(''serial_number'', JString (dc_serial d)), (''display_name'', JString (dc_name d)),
            (''zone_code'', JString (dc_zone d))]) (so_devices q))),
        (''configuration'', JObject (so_configuration q))]"

definition request_hash :: "registry_env \<Rightarrow> store_create list \<Rightarrow> string" where
  "request_hash env request =
     re_json_digest env (json_canon (JObject [(''stores'', JArray (map store_json request))]))"

definition unit_conflicts :: "uuid option \<Rightarrow> unit_segment \<Rightarrow> org_unit \<Rightarrow> bool" where
  "unit_conflicts parent segment u \<longleftrightarrow>
     ou_parent u \<noteq> parent \<or> ou_name u \<noteq> sg_name segment \<or> ou_type u \<noteq> sg_type segment"

fun resolve_organization_path ::
    "registry_env \<Rightarrow> uuid \<Rightarrow> uuid option \<Rightarrow> unit_segment list \<Rightarrow> registry
       \<Rightarrow> (uuid option \<times> registry) outcome" where
  "resolve_organization_path env tenant parent [] r = Inr (parent, r)"
| "resolve_organization_path env tenant parent (segment # path) r =
     (case select_one (\<lambda>u. ou_tenant u = tenant \<and> ou_code u = sg_code segment) (rg_units r) of
        Some u \<Rightarrow>
          if unit_conflicts parent segment u then Inl (ApiError 409 ''organization_unit_conflict'')
          else resolve_organization_path env tenant (Some (ou_id u)) path r
      | None \<Rightarrow>
          let u = \<lparr>ou_tenant = tenant, ou_id = fresh_id env r, ou_parent = parent, ou_code = sg_code segment,
                   ou_name = sg_name segment, ou_type = sg_type segment\<rparr>
          in and_then (insert_unit u r) (\<lambda>r'. resolve_organization_path env tenant (Some (ou_id u)) path r'))"

text \<open>The zones of a store, with the dictionary from their codes to their rows.\<close>

fun onboard_zones ::
    "registry_env \<Rightarrow> uuid \<Rightarrow> uuid \<Rightarrow> zone_create list \<Rightarrow> (string \<rightharpoonup> place) \<Rightarrow> registry
       \<Rightarrow> ((string \<rightharpoonup> place) \<times> registry) outcome" where
  "onboard_zones env tenant store [] by_code r = Inr (by_code, r)"
| "onboard_zones env tenant store (q # qs) by_code r =
     (let z = new_place env tenant store q r
      in and_then (insert_place z r) (onboard_zones env tenant store qs (by_code(pl_code z \<mapsto> z))))"

fun onboard_devices ::
    "registry_env \<Rightarrow> uuid \<Rightarrow> uuid \<Rightarrow> timestamp \<Rightarrow> (string \<rightharpoonup> place) \<Rightarrow> device_create list \<Rightarrow> registry
       \<Rightarrow> registry outcome" where
  "onboard_devices env tenant store start by_code [] r = Inr r"
| "onboard_devices env tenant store start by_code (q # qs) r =
     (let d = new_gateway env tenant (dc_serial q) (dc_name q) None r
      in and_then (insert_gateway d r) (\<lambda>r1.
         case by_code (dc_zone q) of
           None \<Rightarrow> Inl (RuntimeFault ''KeyError'')
         | Some z \<Rightarrow>
             and_then (insert_placement (new_placement tenant (dv_id d) store (zn_id z) start) r1)
               (onboard_devices env tenant store start by_code qs)))"

definition onboard_store ::
    "registry_env \<Rightarrow> uuid \<Rightarrow> timestamp \<Rightarrow> store_create \<Rightarrow> registry \<Rightarrow> registry outcome" where
  "onboard_store env tenant start q r =
     and_then (resolve_organization_path env tenant None (so_path q) r) (\<lambda>(org, r1).
     let s = \<lparr>st_tenant = tenant, st_id = fresh_id env r1, st_status = STORE_ACTIVE, si_unit = org,
              si_code = so_code q, si_name = so_name q, si_timezone = so_timezone q,
              si_configuration = so_configuration q\<rparr>
     in and_then (insert_site s r1) (\<lambda>r2.
        and_then (onboard_zones env tenant (st_id s) (so_zones q) Map.empty r2) (\<lambda>(by_code, r3).
        onboard_devices env tenant (st_id s) start by_code (so_devices q) r3)))"

fun onboard_each ::
    "registry_env \<Rightarrow> uuid \<Rightarrow> timestamp \<Rightarrow> store_create list \<Rightarrow> registry \<Rightarrow> registry outcome" where
  "onboard_each env tenant start [] r = Inr r"
| "onboard_each env tenant start (q # qs) r =
     and_then (onboard_store env tenant start q r) (onboard_each env tenant start qs)"

definition find_batch :: "uuid \<Rightarrow> string \<Rightarrow> registry \<Rightarrow> onboarding_batch option" where
  "find_batch tenant key r = select_one (\<lambda>b. bo_tenant b = tenant \<and> bo_key b = key) (rg_batches r)"

definition new_batch :: "registry_env \<Rightarrow> uuid \<Rightarrow> string \<Rightarrow> store_create list \<Rightarrow> registry \<Rightarrow> onboarding_batch" where
  "new_batch env tenant key request r =
     \<lparr>bo_id = fresh_id env r, bo_tenant = tenant, bo_key = key, bo_hash = request_hash env request,
      bo_status = ONBOARDING_VALIDATING, bo_total = int (length request), bo_succeeded = 0, bo_failed = 0,
      bo_errors = []\<rparr>"

definition completed_batch :: "store_create list \<Rightarrow> onboarding_batch \<Rightarrow> onboarding_batch" where
  "completed_batch request b =
     b\<lparr>bo_status := ONBOARDING_COMPLETED, bo_succeeded := int (length request)\<rparr>"

text \<open>
  The batch is flushed by the query for the clock and the other rows one by one, all before the \<open>try\<close>
  around the commit: their integrity errors leave the service as they are.
\<close>

definition write_onboarding ::
    "registry_env \<Rightarrow> uuid \<Rightarrow> string \<Rightarrow> store_create list \<Rightarrow> registry
       \<Rightarrow> (onboarding_batch \<times> registry) outcome" where
  "write_onboarding env tenant key request db =
     (let b = new_batch env tenant key request db
      in and_then (insert_batch b db) (\<lambda>r1.
         and_then (onboard_each env tenant (re_now env) request r1) (\<lambda>r2.
         if re_commit_fault env then Inl (ApiError 409 ''onboarding_conflict'')
         else Inr (completed_batch request b,
           r2\<lparr>rg_batches := update_where (\<lambda>c. bo_id c = bo_id b) (completed_batch request) (rg_batches r2)\<rparr>))))"

text \<open>
  The checks read \<open>seen\<close>, the registry as other transactions had left it then; the rows are written to
  \<open>db\<close>, which may have moved on.
\<close>

definition onboard_stores ::
    "registry_env \<Rightarrow> uuid \<Rightarrow> string \<Rightarrow> store_create list \<Rightarrow> registry \<Rightarrow> registry
       \<Rightarrow> (onboarding_batch \<times> registry) outcome" where
  "onboard_stores env tenant key request seen db =
     and_then (get_tenant tenant seen) (\<lambda>_.
     case find_batch tenant key seen of
       Some b \<Rightarrow>
         if bo_hash b \<noteq> request_hash env request then Inl (ApiError 409 ''idempotency_key_reused'')
         else Inr (b, db)
     | None \<Rightarrow>
         if list_ex (\<lambda>s. st_tenant s = tenant \<and> si_code s \<in> set (map so_code request)) (rg_sites seen)
         then Inl (ApiError 409 ''store_code_conflict'')
         else if list_ex (\<lambda>d. dv_tenant d = tenant \<and> gw_serial d \<in> set (requested_serials request))
                   (rg_gateways seen)
         then Inl (ApiError 409 ''device_serial_conflict'')
         else write_onboarding env tenant key request db)"

subsection \<open>Listing stores\<close>

definition list_stores :: "uuid \<Rightarrow> registry \<Rightarrow> site list outcome" where
  "list_stores tenant r =
     and_then (get_tenant tenant r) (\<lambda>_.
     Inr (sort_key si_code (filter (\<lambda>s. st_tenant s = tenant) (rg_sites r))))"

definition list_visible_stores :: "principal \<Rightarrow> nat \<Rightarrow> nat \<Rightarrow> registry \<Rightarrow> site list \<times> nat" where
  "list_visible_stores p limit offset r =
     (let tenant_wide = has_tenant_permission p INVENTORY_READ;
          ids = store_ids_for_permission p INVENTORY_READ
      in if \<not> tenant_wide \<and> ids = [] then ([], 0)
         else
           let rows = filter (\<lambda>s. st_tenant s = pr_tenant p \<and> (tenant_wide \<or> st_id s \<in> set ids)) (rg_sites r)
           in (take limit (drop offset (sort_key (\<lambda>s. (si_code s, st_id s)) rows)), length rows))"

end
