(* ===== verification/Registry.thy ===== *)
theory Registry
  imports Onboarding
begin

text \<open>
  What the registry keeps: every service of \<open>Onboarding\<close> is a sequence of row insertions and of two kinds
  of update, so its invariant is proved once for those and lifted to the services and their runs.
\<close>

subsection \<open>Single rows\<close>

definition has_unit :: "uuid \<Rightarrow> uuid \<Rightarrow> registry \<Rightarrow> bool" where
  "has_unit tenant i r \<longleftrightarrow> (\<exists>u \<in> set (rg_units r). ou_id u = i \<and> ou_tenant u = tenant)"

definition has_site :: "uuid \<Rightarrow> uuid \<Rightarrow> registry \<Rightarrow> bool" where
  "has_site tenant i r \<longleftrightarrow> (\<exists>s \<in> set (rg_sites r). st_id s = i \<and> st_tenant s = tenant)"

definition has_place :: "uuid \<Rightarrow> uuid \<Rightarrow> uuid \<Rightarrow> registry \<Rightarrow> bool" where
  "has_place tenant store i r \<longleftrightarrow>
     (\<exists>z \<in> set (rg_places r). zn_id z = i \<and> zn_store z = store \<and> zn_tenant z = tenant)"

definition has_gateway :: "uuid \<Rightarrow> uuid \<Rightarrow> registry \<Rightarrow> bool" where
  "has_gateway tenant i r \<longleftrightarrow> (\<exists>d \<in> set (rg_gateways r). dv_id d = i \<and> dv_tenant d = tenant)"

lemmas has_defs = has_unit_def has_site_def has_place_def has_gateway_def

inductive row_step :: "registry \<Rightarrow> registry \<Rightarrow> bool" where
  add_tenant: "tn_id t \<notin> tn_id ` set (rg_tenants r) \<Longrightarrow> tn_code t \<notin> tn_code ` set (rg_tenants r) \<Longrightarrow>
    row_step r (r\<lparr>rg_tenants := rg_tenants r @ [t]\<rparr>)"
| add_unit: "insert_unit u r = Inr r' \<Longrightarrow> \<forall>p. ou_parent u = Some p \<longrightarrow> has_unit (ou_tenant u) p r \<Longrightarrow>
    row_step r r'"
| add_site: "insert_site s r = Inr r' \<Longrightarrow> \<forall>u. si_unit s = Some u \<longrightarrow> has_unit (st_tenant s) u r \<Longrightarrow>
    row_step r r'"
| add_place: "insert_place z r = Inr r' \<Longrightarrow> has_site (zn_tenant z) (zn_store z) r \<Longrightarrow> row_step r r'"
| add_gateway: "insert_gateway d r = Inr r' \<Longrightarrow> row_step r r'"
| add_placement: "insert_placement a r = Inr r' \<Longrightarrow> as_to a = None \<Longrightarrow>
    has_place (as_tenant a) (as_store a) (as_zone a) r \<Longrightarrow> has_gateway (as_tenant a) (as_device a) r \<Longrightarrow>
    row_step r r'"
| add_batch: "insert_batch b r = Inr r' \<Longrightarrow> row_step r r'"
| set_credential: "row_step r (r\<lparr>rg_gateways :=
    update_where (\<lambda>g. dv_id g = i) (\<lambda>g. g\<lparr>dv_credential_hash := c\<rparr>) (rg_gateways r)\<rparr>)"
| complete_batch: "row_step r (r\<lparr>rg_batches :=
    update_where (\<lambda>b. bo_id b = i) (completed_batch request) (rg_batches r)\<rparr>)"

lemma insert_row_eqs:
  "insert_unit u r = Inr r' \<Longrightarrow> r' = r\<lparr>rg_units := rg_units r @ [u]\<rparr>"
  "insert_site s r = Inr r' \<Longrightarrow> r' = r\<lparr>rg_sites := rg_sites r @ [s]\<rparr>"
  "insert_place z r = Inr r' \<Longrightarrow> r' = r\<lparr>rg_places := rg_places r @ [z]\<rparr>"
  "insert_gateway d r = Inr r' \<Longrightarrow> r' = r\<lparr>rg_gateways := rg_gateways r @ [d]\<rparr>"
  "insert_placement a r = Inr r' \<Longrightarrow> r' = r\<lparr>rg_placements := rg_placements r @ [a]\<rparr>"
  "insert_batch b r = Inr r' \<Longrightarrow> r' = r\<lparr>rg_batches := rg_batches r @ [b]\<rparr>"
  by (simp_all add: insert_unit_def insert_site_def insert_place_def insert_gateway_def insert_placement_def
      insert_batch_def split: if_splits)

subsection \<open>What only grows\<close>

text \<open>All of a gateway but its credential.\<close>

definition bare :: "gateway \<Rightarrow> gateway" where
  "bare d = d\<lparr>dv_credential_hash := None\<rparr>"

lemma bare_sel [simp]:
  "dv_id (bare d) = dv_id d" "dv_tenant (bare d) = dv_tenant d" "gw_serial (bare d) = gw_serial d"
  "dv_status (bare d) = dv_status d"
  by (simp_all add: bare_def)

definition grows :: "registry \<Rightarrow> registry \<Rightarrow> bool" where
  "grows r r' \<longleftrightarrow>
     prefix (rg_tenants r) (rg_tenants r') \<and> prefix (rg_units r) (rg_units r') \<and>
     prefix (rg_sites r) (rg_sites r') \<and> prefix (rg_places r) (rg_places r') \<and>
     prefix (map bare (rg_gateways r)) (map bare (rg_gateways r')) \<and>
     prefix (rg_placements r) (rg_placements r')"

lemma grows_refl [simp]: "grows r r"
  by (simp add: grows_def)

lemma grows_trans: "grows r s \<Longrightarrow> grows s t \<Longrightarrow> grows r t"
  unfolding grows_def by (meson prefix_order.order_trans)

lemma map_bare_update: "map bare (update_where P (\<lambda>g. g\<lparr>dv_credential_hash := c\<rparr>) ds) = map bare ds"
  by (simp add: update_where_def bare_def)

lemma row_step_grows: "row_step r r' \<Longrightarrow> grows r r'"
  by (induction rule: row_step.induct) (auto simp: grows_def map_bare_update dest!: insert_row_eqs)

lemma row_run_grows: "reaches row_step r r' \<Longrightarrow> grows r r'"
  by (induction rule: reaches.induct) (auto intro: grows_trans row_step_grows)

lemma grows_gateway:
  assumes "grows r r'" "d \<in> set (rg_gateways r)"
  shows "\<exists>d' \<in> set (rg_gateways r'). bare d' = bare d"
  using assms set_mono_prefix [of "map bare (rg_gateways r)" "map bare (rg_gateways r')"]
  by (force simp: grows_def)

lemma bare_eqD: "bare d' = bare d \<Longrightarrow> dv_id d' = dv_id d \<and> dv_tenant d' = dv_tenant d \<and> gw_serial d' = gw_serial d"
  by (metis bare_sel)

lemma grows_has:
  assumes "grows r r'"
  shows "has_unit t i r \<Longrightarrow> has_unit t i r'" "has_site t i r \<Longrightarrow> has_site t i r'"
    "has_place t s i r \<Longrightarrow> has_place t s i r'" "has_gateway t i r \<Longrightarrow> has_gateway t i r'"
proof -
  have "set (rg_units r) \<subseteq> set (rg_units r')" "set (rg_sites r) \<subseteq> set (rg_sites r')"
    "set (rg_places r) \<subseteq> set (rg_places r')"
    using assms set_mono_prefix unfolding grows_def by blast+
  then show "has_unit t i r \<Longrightarrow> has_unit t i r'" "has_site t i r \<Longrightarrow> has_site t i r'"
    "has_place t s i r \<Longrightarrow> has_place t s i r'" unfolding has_defs by blast+
  show "has_gateway t i r \<Longrightarrow> has_gateway t i r'"
    using grows_gateway [OF assms] bare_eqD unfolding has_gateway_def by metis
qed

subsection \<open>The invariant\<close>

text \<open>The parent of a unit is an earlier unit of its tenant: the units of a tenant are a forest.\<close>

definition forest :: "org_unit list \<Rightarrow> bool" where
  "forest us \<longleftrightarrow>
     (\<forall>xs u ys. us = xs @ u # ys \<longrightarrow>
        (\<forall>p. ou_parent u = Some p \<longrightarrow> (\<exists>v \<in> set xs. ou_id v = p \<and> ou_tenant v = ou_tenant u)))"

lemma forest_Nil [simp]: "forest []"
  by (simp add: forest_def)

lemma forest_snoc:
  "forest (us @ [u]) \<longleftrightarrow>
     forest us \<and> (\<forall>p. ou_parent u = Some p \<longrightarrow> (\<exists>v \<in> set us. ou_id v = p \<and> ou_tenant v = ou_tenant u))"
proof
  assume l: "forest (us @ [u])"
  show "forest us \<and> (\<forall>p. ou_parent u = Some p \<longrightarrow> (\<exists>v \<in> set us. ou_id v = p \<and> ou_tenant v = ou_tenant u))"
    using l unfolding forest_def by (metis append_Cons append_assoc)
next
  assume r: "forest us \<and> (\<forall>p. ou_parent u = Some p \<longrightarrow> (\<exists>v \<in> set us. ou_id v = p \<and> ou_tenant v = ou_tenant u))"
  show "forest (us @ [u])"
    unfolding forest_def
  proof (intro allI impI)
    fix xs w ys p assume split: "us @ [u] = xs @ w # ys" and p: "ou_parent w = Some p"
    show "\<exists>v \<in> set xs. ou_id v = p \<and> ou_tenant v = ou_tenant w"
    proof (cases ys rule: rev_cases)
      case Nil
      then show ?thesis using r split p by simp
    next
      case (snoc ys' y)
      then have "us = xs @ w # ys'" using split by simp
      then show ?thesis using r p unfolding forest_def by blast
    qed
  qed
qed

definition keys_wf :: "registry \<Rightarrow> bool" where
  "keys_wf r \<longleftrightarrow>
     distinct (map tn_id (rg_tenants r)) \<and> distinct (map tn_code (rg_tenants r)) \<and>
     distinct (map ou_id (rg_units r)) \<and> distinct (map (\<lambda>u. (ou_tenant u, ou_code u)) (rg_units r)) \<and>
     distinct (map st_id (rg_sites r)) \<and> distinct (map (\<lambda>s. (st_tenant s, si_code s)) (rg_sites r)) \<and>
     distinct (map zn_id (rg_places r)) \<and> distinct (map (\<lambda>z. (zn_store z, pl_code z)) (rg_places r)) \<and>
     distinct (map dv_id (rg_gateways r)) \<and> distinct (map gw_serial (rg_gateways r)) \<and>
     distinct (map bo_id (rg_batches r)) \<and> distinct (map (\<lambda>b. (bo_tenant b, bo_key b)) (rg_batches r))"

definition links_wf :: "registry \<Rightarrow> bool" where
  "links_wf r \<longleftrightarrow>
     forest (rg_units r) \<and>
     (\<forall>s \<in> set (rg_sites r). \<forall>u. si_unit s = Some u \<longrightarrow> has_unit (st_tenant s) u r) \<and>
     (\<forall>z \<in> set (rg_places r). has_site (zn_tenant z) (zn_store z) r) \<and>
     (\<forall>a \<in> set (rg_placements r).
        has_place (as_tenant a) (as_store a) (as_zone a) r \<and> has_gateway (as_tenant a) (as_device a) r)"

definition placed_once :: "registry \<Rightarrow> bool" where
  "placed_once r \<longleftrightarrow>
     distinct (map (\<lambda>a. (as_tenant a, as_device a)) (filter (\<lambda>a. as_to a = None) (rg_placements r)))"

definition registry_wf :: "registry \<Rightarrow> bool" where
  "registry_wf r \<longleftrightarrow> keys_wf r \<and> links_wf r \<and> placed_once r"

lemma distinct_snoc: "distinct (map f (xs @ [x])) \<longleftrightarrow> distinct (map f xs) \<and> f x \<notin> f ` set xs"
  by auto

lemma map_credential_update:
  "map dv_id (update_where P (\<lambda>g. g\<lparr>dv_credential_hash := c\<rparr>) ds) = map dv_id ds"
  "map gw_serial (update_where P (\<lambda>g. g\<lparr>dv_credential_hash := c\<rparr>) ds) = map gw_serial (ds :: gateway list)"
  by (simp_all add: update_where_def)

lemma map_completed_update:
  "map bo_id (update_where P (completed_batch q) bs) = map bo_id bs"
  "map (\<lambda>b. (bo_tenant b, bo_key b)) (update_where P (completed_batch q) bs) =
     map (\<lambda>b. (bo_tenant b, bo_key b)) bs"
  by (simp_all add: update_where_def completed_batch_def)

lemma row_step_keys: "row_step r r' \<Longrightarrow> keys_wf r \<Longrightarrow> keys_wf r'"
proof (induction rule: row_step.induct)
  case (add_tenant t r)
  then show ?case by (simp add: keys_wf_def)
next
  case (add_unit u r r')
  then show ?case by (auto simp: insert_unit_def keys_wf_def split: if_splits)
next
  case (add_site s r r')
  then show ?case by (auto simp: insert_site_def keys_wf_def split: if_splits)
next
  case (add_place z r r')
  then show ?case by (auto simp: insert_place_def keys_wf_def split: if_splits)
next
  case (add_gateway d r r')
  then show ?case by (auto simp: insert_gateway_def keys_wf_def split: if_splits)
next
  case (add_placement a r r')
  then show ?case by (auto simp: insert_placement_def keys_wf_def split: if_splits)
next
  case (add_batch b r r')
  then show ?case by (auto simp: insert_batch_def keys_wf_def split: if_splits)
next
  case (set_credential r i c)
  then show ?case by (simp add: keys_wf_def map_credential_update)
next
  case (complete_batch r i request)
  then show ?case by (simp add: keys_wf_def map_completed_update)
qed

lemma row_step_links:
  assumes "row_step r r'" "links_wf r"
  shows "links_wf r'"
proof -
  note keep = grows_has [OF row_step_grows [OF assms(1)]]
  from assms(1) show ?thesis
  proof cases
    case (add_unit u)
    then have "forest (rg_units r')"
      using assms(2) by (auto simp: links_wf_def forest_snoc has_unit_def dest!: insert_row_eqs)
    then show ?thesis using assms(2) keep add_unit by (auto simp: links_wf_def dest!: insert_row_eqs)
  qed (use assms(2) keep in \<open>auto simp: links_wf_def dest!: insert_row_eqs\<close>)
qed

lemma row_step_placed: "row_step r r' \<Longrightarrow> placed_once r \<Longrightarrow> placed_once r'"
proof (induction rule: row_step.induct)
  case (add_placement a r r')
  then show ?case by (auto simp: insert_placement_def placed_once_def list_ex_iff split: if_splits) fastforce
qed (auto simp: placed_once_def dest!: insert_row_eqs)

lemma row_step_wf: "row_step r r' \<Longrightarrow> registry_wf r \<Longrightarrow> registry_wf r'"
  by (simp add: registry_wf_def row_step_keys row_step_links row_step_placed)

definition empty_registry :: registry where
  "empty_registry =
     \<lparr>rg_tenants = [], rg_units = [], rg_sites = [], rg_places = [], rg_gateways = [], rg_placements = [],
      rg_batches = []\<rparr>"

lemma empty_registry_wf: "registry_wf empty_registry"
  by (simp add: registry_wf_def keys_wf_def links_wf_def placed_once_def empty_registry_def)

interpretation rows: step_invariant "\<lambda>r. r = empty_registry" row_step registry_wf
  by unfold_locales (auto simp: empty_registry_wf intro: row_step_wf)

subsection \<open>The services are runs of rows\<close>

inductive registry_step :: "registry \<Rightarrow> registry \<Rightarrow> bool" where
  tenant_created: "create_tenant env q r = Inr (t, r') \<Longrightarrow> registry_step r r'"
| zone_created: "create_store_zone env p store q r = Inr (z, r') \<Longrightarrow> registry_step r r'"
| device_registered: "register_store_device env p store q r = Inr (x, r') \<Longrightarrow> registry_step r r'"
| credential_rotated: "rotate_device_credential env tenant i r = Inr (token, r') \<Longrightarrow> registry_step r r'"
| stores_onboarded: "onboard_stores env tenant key request seen r = Inr (b, r') \<Longrightarrow> registry_step r r'"

lemma create_tenant_rows:
  assumes "create_tenant env q r = Inr (t, r')"
  shows "reaches row_step r r'"
proof -
  have "r' = r \<or> row_step r r'"
    using assms by (auto simp: create_tenant_def Let_def intro!: add_tenant split: option.splits if_splits)
  then show ?thesis by (auto intro: reaches_refl reaches_single)
qed

lemma store_in_principal_tenantD:
  "store_in_principal_tenant p store r = Inr s \<Longrightarrow>
     can_access_store p TENANT_CONFIGURE store \<and> s \<in> set (rg_sites r) \<and> st_id s = store \<and> st_tenant s = pr_tenant p"
  by (auto simp: store_in_principal_tenant_def split: if_splits option.splits dest!: select_one_SomeD)

lemma create_store_zone_Inr:
  assumes "create_store_zone env p store q r = Inr (z, r')"
  shows "z = new_place env (pr_tenant p) store q r" "insert_place z r = Inr r'" "has_site (zn_tenant z) (zn_store z) r"
proof -
  obtain s where s: "store_in_principal_tenant p store r = Inr s"
    and rest: "(let z = new_place env (st_tenant s) (st_id s) q r in case insert_place z r of
        Inl _ \<Rightarrow> Inl (ApiError 409 ''zone_code_conflict'')
      | Inr r' \<Rightarrow> if re_commit_fault env then Inl (ApiError 409 ''zone_code_conflict'') else Inr (z, r')) = Inr (z, r')"
    using assms by (auto simp: create_store_zone_def and_then_Inr_iff)
  have site: "s \<in> set (rg_sites r)" "st_id s = store" "st_tenant s = pr_tenant p"
    using store_in_principal_tenantD [OF s] by simp_all
  show z: "z = new_place env (pr_tenant p) store q r" and "insert_place z r = Inr r'"
    using rest site by (simp_all add: Let_def split: sum.splits if_splits)
  show "has_site (zn_tenant z) (zn_store z) r"
    using site by (auto simp: z new_place_def has_site_def)
qed

lemma register_store_device_Inr:
  assumes "register_store_device env p store q r = Inr ((d, a, token), r')"
  obtains r1 where "d = new_gateway env (pr_tenant p) (sd_serial q) (sd_name q) (Some (re_digest env (re_secret env))) r"
    "a = new_placement (pr_tenant p) (dv_id d) store (sd_zone q) (re_now env)"
    "token = device_token (dv_id d) (re_secret env)"
    "has_place (pr_tenant p) store (sd_zone q) r" "insert_gateway d r = Inr r1" "insert_placement a r1 = Inr r'"
proof -
  obtain s where s: "store_in_principal_tenant p store r = Inr s"
    using assms by (auto simp: register_store_device_def and_then_Inr_iff)
  have site: "st_id s = store" "st_tenant s = pr_tenant p" using store_in_principal_tenantD [OF s] by simp_all
  let ?d = "new_gateway env (pr_tenant p) (sd_serial q) (sd_name q) (Some (re_digest env (re_secret env))) r"
  let ?zone = "select_one (\<lambda>z. zn_id z = sd_zone q \<and> zn_tenant z = pr_tenant p \<and> zn_store z = store) (rg_places r)"
  show thesis
  proof (cases ?zone)
    case None
    then show ?thesis using assms s site by (simp add: register_store_device_def)
  next
    case (Some z)
    let ?a = "new_placement (pr_tenant p) (dv_id ?d) store (zn_id z) (re_now env)"
    have z: "zn_id z = sd_zone q" "has_place (pr_tenant p) store (sd_zone q) r"
      using select_one_SomeD [OF Some] by (auto simp: has_place_def)
    have "and_then (insert_gateway ?d r) (insert_placement ?a) = Inr r' \<and> d = ?d \<and> a = ?a \<and>
        token = device_token (dv_id ?d) (re_secret env)"
      using assms s site Some by (auto simp: register_store_device_def Let_def split: sum.splits if_splits)
    then show ?thesis using that z by (auto simp: and_then_Inr_iff)
  qed
qed

lemma registered_gateway: "insert_gateway d r = Inr r' \<Longrightarrow> has_gateway (dv_tenant d) (dv_id d) r'"
  by (auto simp: has_gateway_def dest!: insert_row_eqs)

lemma register_store_device_rows:
  assumes "register_store_device env p store q r = Inr (x, r')"
  shows "reaches row_step r r'"
proof -
  obtain d a token where x: "x = (d, a, token)" by (cases x)
  from assms [unfolded x] show ?thesis
  proof (rule register_store_device_Inr)
    fix r1 assume d: "d = new_gateway env (pr_tenant p) (sd_serial q) (sd_name q) (Some (re_digest env (re_secret env))) r"
      and a: "a = new_placement (pr_tenant p) (dv_id d) store (sd_zone q) (re_now env)"
      and place: "has_place (pr_tenant p) store (sd_zone q) r"
      and ins: "insert_gateway d r = Inr r1" "insert_placement a r1 = Inr r'"
    have 1: "row_step r r1" using ins(1) by (rule add_gateway)
    have "has_gateway (as_tenant a) (as_device a) r1"
      using registered_gateway [OF ins(1)] by (simp add: a d new_gateway_def new_placement_def)
    moreover have "has_place (as_tenant a) (as_store a) (as_zone a) r1" "as_to a = None"
      using place grows_has(3) [OF row_step_grows [OF 1]] by (simp_all add: a new_placement_def)
    ultimately have "row_step r1 r'" using add_placement [OF ins(2)] by blast
    then show ?thesis using 1 by (meson reaches_refl reaches_step)
  qed
qed

lemma rotate_device_credential_rows:
  "rotate_device_credential env tenant i r = Inr (token, r') \<Longrightarrow> reaches row_step r r'"
  by (auto simp: rotate_device_credential_def and_then_Inr_iff intro!: reaches_single [of row_step] set_credential
      split: option.splits)

lemma run_has:
  "reaches row_step r r' \<Longrightarrow> has_unit t i r \<Longrightarrow> has_unit t i r'"
  "reaches row_step r r' \<Longrightarrow> has_site t i r \<Longrightarrow> has_site t i r'"
  "reaches row_step r r' \<Longrightarrow> has_place t s i r \<Longrightarrow> has_place t s i r'"
  "reaches row_step r r' \<Longrightarrow> has_gateway t i r \<Longrightarrow> has_gateway t i r'"
  by (blast dest: row_run_grows intro: grows_has)+

text \<open>A row is added and the run goes on.\<close>

lemma run_after: "row_step r s \<Longrightarrow> reaches row_step s t \<Longrightarrow> reaches row_step r t"
  by (rule reaches_trans [OF reaches_single])

lemma resolve_path_rows:
  "resolve_organization_path env tenant parent path r = Inr (org, r') \<Longrightarrow>
     \<forall>p. parent = Some p \<longrightarrow> has_unit tenant p r \<Longrightarrow>
     reaches row_step r r' \<and> (\<forall>u. org = Some u \<longrightarrow> has_unit tenant u r')"
proof (induction path arbitrary: parent r)
  case (Cons s path)
  show ?case
  proof (cases "select_one (\<lambda>u. ou_tenant u = tenant \<and> ou_code u = sg_code s) (rg_units r)")
    case (Some u)
    then have "has_unit tenant (ou_id u) r" by (auto simp: has_unit_def dest!: select_one_SomeD)
    then show ?thesis using Cons.IH [of "Some (ou_id u)" r] Cons.prems(1) Some by (simp split: if_splits)
  next
    case None
    let ?u = "\<lparr>ou_tenant = tenant, ou_id = fresh_id env r, ou_parent = parent, ou_code = sg_code s,
                   ou_name = sg_name s, ou_type = sg_type s\<rparr>"
    obtain r1 where ins: "insert_unit ?u r = Inr r1"
      and rest: "resolve_organization_path env tenant (Some (ou_id ?u)) path r1 = Inr (org, r')"
      using Cons.prems(1) None by (auto simp: Let_def and_then_Inr_iff)
    have step: "row_step r r1" using ins by (rule add_unit) (use Cons.prems(2) in simp)
    have "has_unit tenant (ou_id ?u) r1" using insert_row_eqs(1) [OF ins] by (auto simp: has_unit_def)
    then show ?thesis using Cons.IH [OF rest] step by (auto intro: run_after)
  qed
qed (auto intro: reaches_refl)

lemma onboard_zones_rows:
  "onboard_zones env tenant store qs by_code r = Inr (by_code', r') \<Longrightarrow> has_site tenant store r \<Longrightarrow>
     \<forall>c z. by_code c = Some z \<longrightarrow> has_place tenant store (zn_id z) r \<Longrightarrow>
     reaches row_step r r' \<and> (\<forall>c z. by_code' c = Some z \<longrightarrow> has_place tenant store (zn_id z) r')"
proof (induction qs arbitrary: by_code r)
  case (Cons q qs)
  let ?z = "new_place env tenant store q r"
  obtain r1 where ins: "insert_place ?z r = Inr r1"
    and rest: "onboard_zones env tenant store qs (by_code(pl_code ?z \<mapsto> ?z)) r1 = Inr (by_code', r')"
    using Cons.prems(1) by (auto simp: Let_def and_then_Inr_iff)
  have step: "row_step r r1" using ins by (rule add_place) (use Cons.prems(2) in \<open>simp add: new_place_def\<close>)
  have z: "has_place tenant store (zn_id ?z) r1"
    using insert_row_eqs(3) [OF ins] by (auto simp: has_place_def new_place_def)
  note keep = run_has [OF reaches_single [of row_step, OF step]]
  have "\<forall>c z. (by_code(pl_code ?z \<mapsto> ?z)) c = Some z \<longrightarrow> has_place tenant store (zn_id z) r1"
    using z Cons.prems(3) keep(3) by simp
  then show ?case using Cons.IH [OF rest keep(2) [OF Cons.prems(2)]] step by (auto intro: run_after)
qed (auto intro: reaches_refl)

lemma onboard_device_obtain:
  assumes "onboard_devices env tenant store start by_code (q # qs) r = Inr r'"
  obtains r1 z r2 where "insert_gateway (new_gateway env tenant (dc_serial q) (dc_name q) None r) r = Inr r1"
    "by_code (dc_zone q) = Some z"
    "insert_placement (new_placement tenant (fresh_id env r) store (zn_id z) start) r1 = Inr r2"
    "onboard_devices env tenant store start by_code qs r2 = Inr r'"
proof (cases "by_code (dc_zone q)")
  case (Some z)
  have "dv_id (new_gateway env tenant (dc_serial q) (dc_name q) None r) = fresh_id env r" by (simp add: new_gateway_def)
  then show ?thesis using that assms Some by (auto simp: Let_def and_then_Inr_iff)
qed (use assms in \<open>simp add: Let_def and_then_Inr_iff\<close>)

lemma onboard_devices_rows:
  "onboard_devices env tenant store start by_code qs r = Inr r' \<Longrightarrow>
     \<forall>c z. by_code c = Some z \<longrightarrow> has_place tenant store (zn_id z) r \<Longrightarrow> reaches row_step r r'"
proof (induction qs arbitrary: r)
  case (Cons q qs)
  let ?d = "new_gateway env tenant (dc_serial q) (dc_name q) None r"
  obtain r1 z r2 where ins: "insert_gateway ?d r = Inr r1" and z: "by_code (dc_zone q) = Some z"
    and placed: "insert_placement (new_placement tenant (fresh_id env r) store (zn_id z) start) r1 = Inr r2"
    and rest: "onboard_devices env tenant store start by_code qs r2 = Inr r'"
    by (rule onboard_device_obtain [OF Cons.prems(1)])
  have 1: "row_step r r1" using ins by (rule add_gateway)
  have d: "has_gateway tenant (fresh_id env r) r1" using registered_gateway [OF ins] by (simp add: new_gateway_def)
  have "has_place tenant store (zn_id z) r1"
    using Cons.prems(2) z run_has(3) [OF reaches_single [of row_step, OF 1]] by blast
  then have 2: "row_step r1 r2"
    using d by (intro add_placement [OF placed]) (simp_all add: new_placement_def)
  have 12: "reaches row_step r r2" using 1 2 by (meson reaches_refl reaches_step)
  have "\<forall>c z. by_code c = Some z \<longrightarrow> has_place tenant store (zn_id z) r2"
    using Cons.prems(2) run_has(3) [OF 12] by simp
  then show ?case by (rule reaches_trans [OF 12 Cons.IH [OF rest]])
qed (auto intro: reaches_refl)

lemma onboard_store_obtain:
  assumes "onboard_store env tenant start q r = Inr r'"
  obtains org r1 s r2 by_code r3 where
    "resolve_organization_path env tenant None (so_path q) r = Inr (org, r1)"
    "s = \<lparr>st_tenant = tenant, st_id = fresh_id env r1, st_status = STORE_ACTIVE, si_unit = org,
          si_code = so_code q, si_name = so_name q, si_timezone = so_timezone q,
          si_configuration = so_configuration q\<rparr>"
    "insert_site s r1 = Inr r2"
    "onboard_zones env tenant (st_id s) (so_zones q) Map.empty r2 = Inr (by_code, r3)"
    "onboard_devices env tenant (st_id s) start by_code (so_devices q) r3 = Inr r'"
    "reaches row_step r r1" "row_step r1 r2" "reaches row_step r2 r3" "reaches row_step r3 r'"
proof -
  obtain org r1 where p: "resolve_organization_path env tenant None (so_path q) r = Inr (org, r1)"
    using assms by (auto simp: onboard_store_def and_then_Inr_iff)
  let ?s = "\<lparr>st_tenant = tenant, st_id = fresh_id env r1, st_status = STORE_ACTIVE, si_unit = org,
          si_code = so_code q, si_name = so_name q, si_timezone = so_timezone q,
          si_configuration = so_configuration q\<rparr>"
  obtain r2 by_code r3 where s: "insert_site ?s r1 = Inr r2"
    and z: "onboard_zones env tenant (st_id ?s) (so_zones q) Map.empty r2 = Inr (by_code, r3)"
    and d: "onboard_devices env tenant (st_id ?s) start by_code (so_devices q) r3 = Inr r'"
    using assms p by (auto simp: onboard_store_def and_then_Inr_iff Let_def)
  have 1: "reaches row_step r r1" "\<forall>u. org = Some u \<longrightarrow> has_unit tenant u r1" using resolve_path_rows [OF p] by auto
  have 2: "row_step r1 r2" using s by (rule add_site) (use 1 in simp)
  have "has_site tenant (st_id ?s) r2" using insert_row_eqs(2) [OF s] by (auto simp: has_site_def)
  then have 3: "reaches row_step r2 r3"
    and "\<forall>c z. by_code c = Some z \<longrightarrow> has_place tenant (st_id ?s) (zn_id z) r3"
    using onboard_zones_rows [OF z] by auto
  then have 4: "reaches row_step r3 r'" using onboard_devices_rows [OF d] by blast
  show thesis by (rule that [OF p refl s z d 1(1) 2 3 4])
qed

lemma onboard_store_rows: "onboard_store env tenant start q r = Inr r' \<Longrightarrow> reaches row_step r r'"
  by (erule onboard_store_obtain) (meson reaches_trans run_after)

lemma onboard_each_rows: "onboard_each env tenant start qs r = Inr r' \<Longrightarrow> reaches row_step r r'"
proof (induction qs arbitrary: r)
  case (Cons q qs)
  then show ?case by (auto simp: and_then_Inr_iff intro: reaches_trans onboard_store_rows)
qed (auto intro: reaches_refl)

text \<open>Only the batch itself is written to the table of batches.\<close>

lemma resolve_path_batches:
  "resolve_organization_path env tenant parent path r = Inr (org, r') \<Longrightarrow> rg_batches r' = rg_batches r"
  by (induction path arbitrary: parent r)
    (auto simp: Let_def and_then_Inr_iff split: option.splits if_splits dest!: insert_row_eqs(1))

lemma onboard_zones_batches:
  "onboard_zones env tenant store qs by_code r = Inr (by_code', r') \<Longrightarrow> rg_batches r' = rg_batches r"
  by (induction qs arbitrary: by_code r) (fastforce simp: Let_def and_then_Inr_iff dest!: insert_row_eqs(3))+

lemma onboard_devices_batches:
  "onboard_devices env tenant store start by_code qs r = Inr r' \<Longrightarrow> rg_batches r' = rg_batches r"
proof (induction qs arbitrary: r)
  case (Cons q qs)
  from Cons.prems show ?case
    by (rule onboard_device_obtain) (auto dest!: Cons.IH insert_row_eqs(4,5))
qed simp

lemma onboard_store_batches: "onboard_store env tenant start q r = Inr r' \<Longrightarrow> rg_batches r' = rg_batches r"
  by (erule onboard_store_obtain)
    (auto dest!: resolve_path_batches onboard_zones_batches onboard_devices_batches insert_row_eqs(2))

lemma onboard_each_batches: "onboard_each env tenant start qs r = Inr r' \<Longrightarrow> rg_batches r' = rg_batches r"
  by (induction qs arbitrary: r) (auto simp: and_then_Inr_iff dest!: onboard_store_batches)

lemma write_onboarding_obtain:
  assumes "write_onboarding env tenant key request db = Inr (b, r')"
  obtains b0 r1 r2 where "b0 = new_batch env tenant key request db" "b = completed_batch request b0"
    "insert_batch b0 db = Inr r1" "onboard_each env tenant (re_now env) request r1 = Inr r2"
    "r' = r2\<lparr>rg_batches := update_where (\<lambda>c. bo_id c = bo_id b0) (completed_batch request) (rg_batches r2)\<rparr>"
    "rg_batches r' = rg_batches db @ [b]"
proof -
  define b0 where "b0 = new_batch env tenant key request db"
  obtain r1 where 1: "insert_batch b0 db = Inr r1"
    using assms by (auto simp: write_onboarding_def Let_def and_then_Inr_iff b0_def)
  obtain r2 where 2: "onboard_each env tenant (re_now env) request r1 = Inr r2"
    using assms 1 by (auto simp: write_onboarding_def Let_def and_then_Inr_iff b0_def)
  have 3: "b = completed_batch request b0"
    "r' = r2\<lparr>rg_batches := update_where (\<lambda>c. bo_id c = bo_id b0) (completed_batch request) (rg_batches r2)\<rparr>"
    using assms 1 2 by (simp_all add: write_onboarding_def Let_def b0_def split: if_splits)
  have "rg_batches r2 = rg_batches db @ [b0]"
    using onboard_each_batches [OF 2] insert_row_eqs(6) [OF 1] by simp
  moreover have "bo_id b0 \<notin> bo_id ` set (rg_batches db)" using 1 by (simp add: insert_batch_def split: if_splits)
  then have "update_where (\<lambda>c. bo_id c = bo_id b0) (completed_batch request) (rg_batches db) = rg_batches db"
    by (intro update_where_id) (metis imageI)
  ultimately show thesis using that [OF b0_def 3(1) 1 2 3(2)] by (simp add: 3)
qed

lemma write_onboarding_rows: "write_onboarding env tenant key request db = Inr (b, r') \<Longrightarrow> reaches row_step db r'"
  by (erule write_onboarding_obtain)
    (metis add_batch onboard_each_rows run_after reaches_trans reaches_single complete_batch)

lemma onboard_stores_cases:
  assumes "onboard_stores env tenant key request seen db = Inr (b, r')"
  obtains (replayed) "find_batch tenant key seen = Some b" "bo_hash b = request_hash env request" "r' = db"
  | (written) "find_batch tenant key seen = None" "write_onboarding env tenant key request db = Inr (b, r')"
  using assms by (auto simp: onboard_stores_def and_then_Inr_iff split: option.splits if_splits)

lemma registry_step_rows: "registry_step r r' \<Longrightarrow> reaches row_step r r'"
proof (induction rule: registry_step.induct)
  case (zone_created env p store q r z r')
  then show ?case
    using create_store_zone_Inr(2,3) [OF zone_created] by (auto intro!: reaches_single [of row_step] add_place)
next
  case (stores_onboarded env tenant key request seen r b r')
  then show ?case
    by (rule onboard_stores_cases) (auto intro: reaches_refl write_onboarding_rows)
qed (rule create_tenant_rows register_store_device_rows rotate_device_credential_rows; assumption)+

lemma registry_step_wf: "registry_step r r' \<Longrightarrow> registry_wf r \<Longrightarrow> registry_wf r'"
  using registry_step_rows rows.reaches_inv by blast

interpretation services: step_invariant "\<lambda>r. r = empty_registry" registry_step registry_wf
  by unfold_locales (auto simp: empty_registry_wf intro: registry_step_wf)

lemma registry_run_rows: "reaches registry_step r r' \<Longrightarrow> reaches row_step r r'"
  by (induction rule: reaches.induct) (auto intro: reaches_refl reaches_trans registry_step_rows)

lemmas registry_run_grows = row_run_grows [OF registry_run_rows]

text \<open>Batches that were committed never change.\<close>

lemma registry_step_batches: "registry_step r r' \<Longrightarrow> prefix (rg_batches r) (rg_batches r')"
proof (induction rule: registry_step.induct)
  case (tenant_created env q r t r')
  then show ?case by (auto simp: create_tenant_def Let_def split: option.splits if_splits)
next
  case (zone_created env p store q r z r')
  then show ?case using create_store_zone_Inr(2) [OF zone_created] by (auto dest!: insert_row_eqs)
next
  case (device_registered env p store q r x r')
  then show ?case
    by (cases x) (auto elim!: register_store_device_Inr dest!: insert_row_eqs(4,5))
next
  case (credential_rotated env tenant i r token r')
  then show ?case by (auto simp: rotate_device_credential_def and_then_Inr_iff split: option.splits)
next
  case (stores_onboarded env tenant key request seen r b r')
  then show ?case
    by (rule onboard_stores_cases) (auto elim!: write_onboarding_obtain)
qed

lemma registry_run_batches: "reaches registry_step r r' \<Longrightarrow> prefix (rg_batches r) (rg_batches r')"
  by (induction rule: reaches.induct) (auto intro: prefix_order.order_trans registry_step_batches)

end
