(* ===== verification/Registry_Life.thy ===== *)
theory Registry_Life
  imports Registry System
begin

text \<open>
  The registry beside the pipeline: the tables the pipeline reads are the registry without the columns
  only onboarding uses, and whatever onboarding and the pipeline do in turn is a run of the pipeline.
\<close>

definition publish :: "registry \<Rightarrow> db \<Rightarrow> db" where
  "publish r db =
     db\<lparr>stores := map store_row.truncate (rg_sites r), zones := map zone_row.truncate (rg_places r),
        devices := map device.truncate (rg_gateways r), assignments := rg_placements r\<rparr>"

definition published :: "registry \<Rightarrow> db \<Rightarrow> bool" where
  "published r db \<longleftrightarrow> publish r db = db"

lemma publish_publish [simp]: "publish r (publish r' db) = publish r db"
  by (simp add: publish_def)

lemma published_assignments: "published r db \<Longrightarrow> assignments db = rg_placements r"
  unfolding published_def publish_def by (metis db.select_convs(4) db.surjective db.update_convs(4))

text \<open>
  A step of the platform is a step of the pipeline that leaves the registry alone, or a service of the
  registry, whose rows the pipeline then reads.
\<close>

inductive platform_step :: "registry \<times> recent_state \<times> db \<Rightarrow> registry \<times> recent_state \<times> db \<Rightarrow> bool" where
  pipeline_moves: "pipeline_step zs (recent, db) (recent', db') \<Longrightarrow> published r db' \<Longrightarrow>
    platform_step (r, recent, db) (r, recent', db')"
| registry_moves: "registry_step r r' \<Longrightarrow> platform_step (r, recent, db) (r', recent, publish r' db)"

subsection \<open>The store of a zone\<close>

definition zone_stores_by :: "(uuid \<Rightarrow> uuid) \<Rightarrow> registry \<Rightarrow> bool" where
  "zone_stores_by zs r \<longleftrightarrow> (\<forall>z \<in> set (rg_places r). zs (zn_id z) = zn_store z)"

definition store_of_zone :: "registry \<Rightarrow> uuid \<Rightarrow> uuid" where
  "store_of_zone r i = (case get_by zn_id i (rg_places r) of None \<Rightarrow> 0 | Some z \<Rightarrow> zn_store z)"

lemma store_of_zone_by: "registry_wf r \<Longrightarrow> zone_stores_by (store_of_zone r) r"
proof -
  assume wf: "registry_wf r"
  then have "distinct (map zn_id (rg_places r))" by (simp add: registry_wf_def keys_wf_def)
  then have "get_by zn_id (zn_id z) (rg_places r) = Some z" if "z \<in> set (rg_places r)" for z
    using that by (simp add: get_by_eq_Some_iff)
  then show ?thesis by (simp add: zone_stores_by_def store_of_zone_def)
qed

lemma zone_stores_before: "zone_stores_by zs r' \<Longrightarrow> grows r r' \<Longrightarrow> zone_stores_by zs r"
  unfolding zone_stores_by_def grows_def by (meson set_mono_prefix subsetD)

lemma placements_located:
  assumes "registry_wf r" "zone_stores_by zs r"
  shows "\<forall>a \<in> set (rg_placements r). as_store a = zs (as_zone a)"
proof
  fix a assume "a \<in> set (rg_placements r)"
  then have "has_place (as_tenant a) (as_store a) (as_zone a) r"
    using assms(1) by (simp add: registry_wf_def links_wf_def)
  then show "as_store a = zs (as_zone a)" using assms(2) by (auto simp: has_place_def zone_stores_by_def)
qed

text \<open>Which store a zone has matters only to the steps that write assignments.\<close>

lemma pipeline_step_zones:
  assumes "pipeline_step zs (recent, db) (recent', db')"
    and "\<forall>a \<in> set (assignments db'). as_store a = zs' (as_zone a)"
  shows "pipeline_step zs' (recent, db) (recent', db')"
  using assms(1)
proof cases
  case step_tick
  then show ?thesis by (rule pipeline_step.step_tick)
next
  case step_ingest
  then show ?thesis by (auto intro: pipeline_step.step_ingest)
next
  case step_removal
  then show ?thesis by (auto intro: pipeline_step.step_removal)
next
  case step_rebuild
  then show ?thesis by (auto intro: pipeline_step.step_rebuild)
next
  case step_replay
  then show ?thesis by (auto intro: pipeline_step.step_replay)
next
  case step_restart
  then show ?thesis by (auto intro: pipeline_step.step_restart)
next
  case (step_registry as ss zones' ds bs)
  then show ?thesis using assms(2) by (auto intro: pipeline_step.step_registry)
qed

lemma publish_step:
  assumes "registry_wf r" "zone_stores_by zs r"
  shows "pipeline_step zs (recent, db) (recent, publish r db)"
proof -
  have eq: "publish r db = db\<lparr>stores := map store_row.truncate (rg_sites r), zones := map zone_row.truncate (rg_places r),
      devices := map device.truncate (rg_gateways r), assignments := rg_placements r, bindings := bindings db\<rparr>"
    by (simp add: publish_def)
  show ?thesis unfolding eq by (rule step_registry [OF placements_located [OF assms]])
qed

lemma platform_step_grows: "platform_step (r, recent, db) (r', recent', db') \<Longrightarrow> grows r r'"
  by (cases rule: platform_step.cases) (auto intro: row_run_grows registry_step_rows)

lemma platform_step_refines:
  assumes "platform_step (r, recent, db) (r', recent', db')" "registry_wf r" "zone_stores_by zs r'"
  shows "pipeline_step zs (recent, db) (recent', db') \<and> published r' db' \<and> registry_wf r' \<and> grows r r'"
  using assms(1)
proof cases
  case (pipeline_moves zs0)
  have "\<forall>a \<in> set (assignments db'). as_store a = zs (as_zone a)"
    using placements_located [OF assms(2), of zs] assms(3) pipeline_moves published_assignments by simp
  then show ?thesis
    using pipeline_step_zones pipeline_moves assms(2) by auto
next
  case registry_moves
  have wf: "registry_wf r'" using registry_step_wf registry_moves(3) assms(2) .
  have "grows r r'" using row_run_grows [OF registry_step_rows [OF registry_moves(3)]] .
  moreover have "published r' (publish r' db)" by (simp add: published_def)
  ultimately show ?thesis using publish_step [OF wf assms(3)] registry_moves wf by auto
qed

lemma platform_run_refines:
  assumes "reaches platform_step s s'"
  shows "registry_wf (fst s) \<Longrightarrow> zone_stores_by zs (fst s') \<Longrightarrow>
    reaches (pipeline_step zs) (snd s) (snd s') \<and> registry_wf (fst s') \<and> grows (fst s) (fst s')"
  using assms
proof (induction rule: reaches.induct)
  case (reaches_step s t u)
  obtain r recent db where t: "t = (r, recent, db)" by (cases t)
  obtain r' recent' db' where u: "u = (r', recent', db')" by (cases u)
  note step = reaches_step.hyps(2) [unfolded t u]
  have g: "grows r r'" using platform_step_grows [OF step] .
  have zs: "zone_stores_by zs r'" using reaches_step.prems(2) u by simp
  have IH: "reaches (pipeline_step zs) (snd s) (recent, db)" "registry_wf r" "grows (fst s) r"
    using reaches_step.IH [OF reaches_step.prems(1)] zone_stores_before [OF zs g] t by simp_all
  from platform_step_refines [OF step IH(2) zs] show ?case
    using IH(1,3) g u by (auto intro: reaches.reaches_step grows_trans)
qed (auto intro: reaches_refl)

lemma platform_step_wf: "platform_step s s' \<Longrightarrow> registry_wf (fst s) \<Longrightarrow> registry_wf (fst s')"
  by (cases rule: platform_step.cases) (auto intro: registry_step_wf)

lemma platform_run_wf: "reaches platform_step s s' \<Longrightarrow> registry_wf (fst s) \<Longrightarrow> registry_wf (fst s')"
  by (induction rule: reaches.induct) (auto intro: platform_step_wf)

end
