(* ===== verification/Registry_Results.thy ===== *)
theory Registry_Results
  imports Registry_Life
begin

text \<open>
  What onboarding promises: stores stand as they were requested, a repeated request changes nothing, a
  gateway is recognized and placed from its registration on, and the pipeline's guarantees hold for
  every registry it builds.  Conflicts with data a session cannot see are not reported as conflicts.
\<close>

subsection \<open>Stores stand as requested\<close>

fun unit_path :: "registry \<Rightarrow> uuid \<Rightarrow> uuid option \<Rightarrow> unit_segment list \<Rightarrow> uuid option \<Rightarrow> bool" where
  "unit_path r tenant parent [] org = (org = parent)"
| "unit_path r tenant parent (g # path) org =
     (\<exists>u \<in> set (rg_units r). ou_tenant u = tenant \<and> ou_code u = sg_code g \<and> ou_name u = sg_name g \<and>
        ou_type u = sg_type g \<and> ou_parent u = parent \<and> unit_path r tenant (Some (ou_id u)) path org)"

definition zone_stands :: "uuid \<Rightarrow> uuid \<Rightarrow> zone_create \<Rightarrow> registry \<Rightarrow> bool" where
  "zone_stands tenant store q r \<longleftrightarrow>
     (\<exists>z \<in> set (rg_places r). zn_tenant z = tenant \<and> zn_store z = store \<and> zn_kind z = zc_kind q \<and>
        pl_code z = zc_code q \<and> pl_name z = zc_name q)"

definition device_stands :: "uuid \<Rightarrow> uuid \<Rightarrow> timestamp \<Rightarrow> device_create \<Rightarrow> registry \<Rightarrow> bool" where
  "device_stands tenant store start q r \<longleftrightarrow>
     (\<exists>d \<in> set (rg_gateways r). dv_tenant d = tenant \<and> dv_status d = DEVICE_ACTIVE \<and> gw_serial d = dc_serial q \<and>
        (\<exists>z \<in> set (rg_places r). zn_store z = store \<and> pl_code z = dc_zone q \<and>
           new_placement tenant (dv_id d) store (zn_id z) start \<in> set (rg_placements r)))"

definition store_stands :: "uuid \<Rightarrow> timestamp \<Rightarrow> store_create \<Rightarrow> site \<Rightarrow> registry \<Rightarrow> bool" where
  "store_stands tenant start q s r \<longleftrightarrow>
     s \<in> set (rg_sites r) \<and> st_tenant s = tenant \<and> st_status s = STORE_ACTIVE \<and> si_code s = so_code q \<and>
     si_name s = so_name q \<and> si_timezone s = so_timezone q \<and> si_configuration s = so_configuration q \<and>
     unit_path r tenant None (so_path q) (si_unit s) \<and>
     (\<forall>z \<in> set (so_zones q). zone_stands tenant (st_id s) z r) \<and>
     (\<forall>d \<in> set (so_devices q). device_stands tenant (st_id s) start d r)"

lemma grows_sets:
  assumes "grows r r'"
  shows "set (rg_units r) \<subseteq> set (rg_units r')" "set (rg_sites r) \<subseteq> set (rg_sites r')"
    "set (rg_places r) \<subseteq> set (rg_places r')" "set (rg_placements r) \<subseteq> set (rg_placements r')"
  using assms set_mono_prefix unfolding grows_def by blast+

lemma unit_path_grows: "grows r r' \<Longrightarrow> unit_path r tenant parent path org \<Longrightarrow> unit_path r' tenant parent path org"
proof (induction path arbitrary: parent)
  case (Cons g path)
  then show ?case using grows_sets(1) [OF Cons.prems(1)] by fastforce
qed simp

lemma zone_stands_grows: "grows r r' \<Longrightarrow> zone_stands t s q r \<Longrightarrow> zone_stands t s q r'"
  using grows_sets(3) unfolding zone_stands_def by blast

lemma device_stands_grows:
  assumes "grows r r'" "device_stands t s start q r"
  shows "device_stands t s start q r'"
proof -
  obtain d z where d: "d \<in> set (rg_gateways r)" "dv_tenant d = t" "dv_status d = DEVICE_ACTIVE" "gw_serial d = dc_serial q"
    and z: "z \<in> set (rg_places r)" "zn_store z = s" "pl_code z = dc_zone q"
      "new_placement t (dv_id d) s (zn_id z) start \<in> set (rg_placements r)"
    using assms(2) unfolding device_stands_def by blast
  obtain d' where d': "d' \<in> set (rg_gateways r')" "bare d' = bare d" using grows_gateway [OF assms(1) d(1)] by blast
  have same: "dv_id d' = dv_id d" "dv_tenant d' = dv_tenant d" "gw_serial d' = gw_serial d"
    using bare_eqD [OF d'(2)] by simp_all
  have "dv_status d' = dv_status d" using d'(2) by (metis bare_sel(4))
  then show ?thesis
    using d d'(1) z same grows_sets [OF assms(1)] unfolding device_stands_def by (metis subsetD)
qed

lemma store_stands_grows: "grows r r' \<Longrightarrow> store_stands t start q s r \<Longrightarrow> store_stands t start q s r'"
  by (auto simp: store_stands_def intro: unit_path_grows zone_stands_grows device_stands_grows
      subsetD [OF grows_sets(2)])

lemma resolve_path_stands:
  "resolve_organization_path env tenant parent path r = Inr (org, r') \<Longrightarrow>
     \<forall>p. parent = Some p \<longrightarrow> has_unit tenant p r \<Longrightarrow> unit_path r' tenant parent path org"
proof (induction path arbitrary: parent r)
  case (Cons g path)
  show ?case
  proof (cases "select_one (\<lambda>u. ou_tenant u = tenant \<and> ou_code u = sg_code g) (rg_units r)")
    case (Some u)
    have u: "u \<in> set (rg_units r)" "ou_tenant u = tenant" "ou_code u = sg_code g"
      using select_one_SomeD [OF Some] by simp_all
    have ok: "\<not> unit_conflicts parent g u"
      and rest: "resolve_organization_path env tenant (Some (ou_id u)) path r = Inr (org, r')"
      using Cons.prems(1) Some by (simp_all split: if_splits)
    have p: "\<forall>p. Some (ou_id u) = Some p \<longrightarrow> has_unit tenant p r" using u by (auto simp: has_unit_def)
    have "grows r r'" using resolve_path_rows [OF rest p] row_run_grows by blast
    then have "u \<in> set (rg_units r')" using u(1) grows_sets(1) by blast
    then show ?thesis using Cons.IH [OF rest p] u ok by (auto simp: unit_conflicts_def)
  next
    case None
    let ?u = "\<lparr>ou_tenant = tenant, ou_id = fresh_id env r, ou_parent = parent, ou_code = sg_code g,
                   ou_name = sg_name g, ou_type = sg_type g\<rparr>"
    obtain r1 where ins: "insert_unit ?u r = Inr r1"
      and rest: "resolve_organization_path env tenant (Some (ou_id ?u)) path r1 = Inr (org, r')"
      using Cons.prems(1) None by (auto simp: Let_def and_then_Inr_iff)
    have u: "?u \<in> set (rg_units r1)" using insert_row_eqs(1) [OF ins] by simp
    have p: "\<forall>p. Some (ou_id ?u) = Some p \<longrightarrow> has_unit tenant p r1" using u by (force simp: has_unit_def)
    have "grows r1 r'" using resolve_path_rows [OF rest p] row_run_grows by blast
    then have "?u \<in> set (rg_units r')" using u grows_sets(1) by blast
    then show ?thesis using Cons.IH [OF rest p] by force
  qed
qed simp

lemma onboard_zones_stand:
  "onboard_zones env tenant store qs by_code r = Inr (by_code', r') \<Longrightarrow> has_site tenant store r \<Longrightarrow>
     \<forall>c z. by_code c = Some z \<longrightarrow> z \<in> set (rg_places r) \<and> zn_tenant z = tenant \<and> zn_store z = store \<and> pl_code z = c \<Longrightarrow>
     (\<forall>q \<in> set qs. zone_stands tenant store q r') \<and>
     (\<forall>c z. by_code' c = Some z \<longrightarrow> z \<in> set (rg_places r') \<and> zn_tenant z = tenant \<and> zn_store z = store \<and> pl_code z = c) \<and>
     dom by_code' = dom by_code \<union> zc_code ` set qs"
proof (induction qs arbitrary: by_code r)
  case (Cons q qs)
  let ?z = "new_place env tenant store q r"
  obtain r1 where ins: "insert_place ?z r = Inr r1"
    and rest: "onboard_zones env tenant store qs (by_code(pl_code ?z \<mapsto> ?z)) r1 = Inr (by_code', r')"
    using Cons.prems(1) by (auto simp: Let_def and_then_Inr_iff)
  have step: "row_step r r1" using ins by (rule add_place) (use Cons.prems(2) in \<open>simp add: new_place_def\<close>)
  have site: "has_site tenant store r1" using run_has(2) [OF reaches_single [of row_step, OF step] Cons.prems(2)] .
  have z: "?z \<in> set (rg_places r1)" "set (rg_places r) \<subseteq> set (rg_places r1)"
    using insert_row_eqs(3) [OF ins] by auto
  have sel: "zn_tenant ?z = tenant" "zn_store ?z = store" "pl_code ?z = zc_code q" "zn_kind ?z = zc_kind q"
    "pl_name ?z = zc_name q"
    by (simp_all add: new_place_def)
  have now: "zone_stands tenant store q r1" unfolding zone_stands_def by (rule bexI [OF _ z(1)]) (simp add: sel)
  have by_code: "\<forall>c z. (by_code(pl_code ?z \<mapsto> ?z)) c = Some z \<longrightarrow>
      z \<in> set (rg_places r1) \<and> zn_tenant z = tenant \<and> zn_store z = store \<and> pl_code z = c"
    using Cons.prems(3) z sel by auto
  have "\<forall>c z. (by_code(pl_code ?z \<mapsto> ?z)) c = Some z \<longrightarrow> has_place tenant store (zn_id z) r1"
    using by_code unfolding has_place_def by blast
  then have "grows r1 r'" using onboard_zones_rows [OF rest site] row_run_grows by blast
  then show ?case
    using Cons.IH [OF rest site by_code] zone_stands_grows [OF _ now] sel(3) by auto
qed auto

lemma onboard_devices_stand:
  "onboard_devices env tenant store start by_code qs r = Inr r' \<Longrightarrow>
     \<forall>c z. by_code c = Some z \<longrightarrow> z \<in> set (rg_places r) \<and> zn_tenant z = tenant \<and> zn_store z = store \<and> pl_code z = c \<Longrightarrow>
     \<forall>q \<in> set qs. device_stands tenant store start q r'"
proof (induction qs arbitrary: r)
  case (Cons q qs)
  let ?d = "new_gateway env tenant (dc_serial q) (dc_name q) None r"
  obtain r1 z r2 where ins: "insert_gateway ?d r = Inr r1" and z: "by_code (dc_zone q) = Some z"
    and placed: "insert_placement (new_placement tenant (fresh_id env r) store (zn_id z) start) r1 = Inr r2"
    and rest: "onboard_devices env tenant store start by_code qs r2 = Inr r'"
    by (rule onboard_device_obtain [OF Cons.prems(1)])
  have rows: "rg_places r2 = rg_places r" "?d \<in> set (rg_gateways r2)"
    "new_placement tenant (fresh_id env r) store (zn_id z) start \<in> set (rg_placements r2)"
    using insert_row_eqs(4) [OF ins] insert_row_eqs(5) [OF placed] by auto
  have by_code: "\<forall>c z. by_code c = Some z \<longrightarrow>
      z \<in> set (rg_places r2) \<and> zn_tenant z = tenant \<and> zn_store z = store \<and> pl_code z = c"
    using Cons.prems(2) rows(1) by simp
  have now: "device_stands tenant store start q r2"
    unfolding device_stands_def
    by (rule bexI [OF _ rows(2)]) (use by_code z rows(3) in \<open>auto simp: new_gateway_def\<close>)
  have "\<forall>c z. by_code c = Some z \<longrightarrow> has_place tenant store (zn_id z) r2"
    using by_code unfolding has_place_def by blast
  then have "grows r2 r'" using onboard_devices_rows [OF rest] row_run_grows by blast
  then show ?case using Cons.IH [OF rest by_code] device_stands_grows [OF _ now] by auto
qed simp

lemma onboard_store_stands:
  assumes "onboard_store env tenant start q r = Inr r'"
  shows "\<exists>s. store_stands tenant start q s r'"
  using assms
proof (rule onboard_store_obtain)
  fix org r1 s r2 by_code r3
  assume p: "resolve_organization_path env tenant None (so_path q) r = Inr (org, r1)"
    and s: "s = \<lparr>st_tenant = tenant, st_id = fresh_id env r1, st_status = STORE_ACTIVE, si_unit = org,
          si_code = so_code q, si_name = so_name q, si_timezone = so_timezone q,
          si_configuration = so_configuration q\<rparr>"
    and ins: "insert_site s r1 = Inr r2"
    and z: "onboard_zones env tenant (st_id s) (so_zones q) Map.empty r2 = Inr (by_code, r3)"
    and d: "onboard_devices env tenant (st_id s) start by_code (so_devices q) r3 = Inr r'"
    and runs: "row_step r1 r2" "reaches row_step r2 r3" "reaches row_step r3 r'"
  have g3: "grows r3 r'" by (rule row_run_grows [OF runs(3)])
  have g2: "grows r2 r'" by (rule grows_trans [OF row_run_grows [OF runs(2)] g3])
  note g = grows_trans [OF row_step_grows [OF runs(1)] g2] g2 g3
  have s2: "s \<in> set (rg_sites r2)" using insert_row_eqs(2) [OF ins] by simp
  have site: "has_site tenant (st_id s) r2" unfolding has_site_def by (rule bexI [OF _ s2]) (simp add: s)
  have "unit_path r' tenant None (so_path q) (si_unit s)"
    using unit_path_grows [OF g(1) resolve_path_stands [OF p]] by (simp add: s)
  moreover have zs: "(\<forall>zq \<in> set (so_zones q). zone_stands tenant (st_id s) zq r3) \<and>
      (\<forall>c z. by_code c = Some z \<longrightarrow>
         z \<in> set (rg_places r3) \<and> zn_tenant z = tenant \<and> zn_store z = st_id s \<and> pl_code z = c) \<and>
      dom by_code = dom (Map.empty :: string \<rightharpoonup> place) \<union> zc_code ` set (so_zones q)"
    by (rule onboard_zones_stand [OF z site]) simp
  then have "\<forall>zq \<in> set (so_zones q). zone_stands tenant (st_id s) zq r'" using zone_stands_grows [OF g(3)] by blast
  moreover have "\<forall>dq \<in> set (so_devices q). device_stands tenant (st_id s) start dq r'"
    by (rule onboard_devices_stand [OF d]) (use zs in blast)
  moreover have "s \<in> set (rg_sites r')" using s2 grows_sets(2) [OF g(2)] by blast
  moreover have "st_tenant s = tenant" "st_status s = STORE_ACTIVE" "si_code s = so_code q" "si_name s = so_name q"
    "si_timezone s = so_timezone q" "si_configuration s = so_configuration q"
    by (simp_all add: s)
  ultimately show ?thesis unfolding store_stands_def by blast
qed

lemma onboard_each_stand:
  "onboard_each env tenant start qs r = Inr r' \<Longrightarrow> \<forall>q \<in> set qs. \<exists>s. store_stands tenant start q s r'"
proof (induction qs arbitrary: r)
  case (Cons q qs)
  then obtain r1 where 1: "onboard_store env tenant start q r = Inr r1" "onboard_each env tenant start qs r1 = Inr r'"
    by (auto simp: and_then_Inr_iff)
  have "grows r1 r'" using row_run_grows onboard_each_rows 1(2) by blast
  then have "\<exists>s. store_stands tenant start q s r'" using onboard_store_stands [OF 1(1)] store_stands_grows by blast
  then show ?case using Cons.IH [OF 1(2)] by simp
qed simp

lemma valid_store_zones:
  assumes "validate_store_create zone_info q = Inr q'"
  shows "{SALES_FLOOR, BACKROOM} \<subseteq> zc_kind ` set (so_zones q')"
    "dc_zone ` set (so_devices q') \<subseteq> zc_code ` set (so_zones q')"
proof -
  have "validate_store_configuration q' = Inr ()"
    using assms by (auto simp: validate_store_create_def and_then_Inr_iff Let_def)
  then show "{SALES_FLOOR, BACKROOM} \<subseteq> zc_kind ` set (so_zones q')"
    "dc_zone ` set (so_devices q') \<subseteq> zc_code ` set (so_zones q')"
    unfolding validate_store_configuration_def Let_def set_map by (auto split: if_splits)
qed

lemma validate_bulk_each:
  "validate_bulk_request zone_info raw = Inr request \<Longrightarrow> q \<in> set request \<Longrightarrow>
     \<exists>q0. validate_store_create zone_info q0 = Inr q"
  by (auto simp: validate_bulk_request_def and_then_Inr_iff dest: map_outcome_in)

text \<open>
  C26: Onboarding delivers what was asked for: when a new request succeeds, its batch is recorded as
  completed with every store counted, and in every later state of the registry each requested store is
  an active store with its name, time zone and configuration, hangs on the requested path of
  organization units, has all requested zones, among them a sales floor and a backroom, and every
  requested device is placed in the zone it names from that moment on.
\<close>

theorem onboarded_stores_stand:
  assumes "validate_bulk_request zone_info raw = Inr request" "find_batch tenant key seen = None"
    and "onboard_stores env tenant key request seen r = Inr (b, r1)" "reaches registry_step r1 r2"
  shows "b \<in> set (rg_batches r2) \<and> bo_status b = ONBOARDING_COMPLETED \<and> bo_succeeded b = int (length request) \<and>
      bo_total b = int (length request) \<and> bo_failed b = 0 \<and>
    (\<forall>q \<in> set request. \<exists>s. store_stands tenant (re_now env) q s r2 \<and>
       (\<forall>kind \<in> {SALES_FLOOR, BACKROOM}. \<exists>z \<in> set (rg_places r2).
          zn_tenant z = tenant \<and> zn_store z = st_id s \<and> zn_kind z = kind))"
proof -
  have w: "write_onboarding env tenant key request r = Inr (b, r1)"
    using assms(2,3) by (auto elim: onboard_stores_cases)
  obtain b0 ra rb where b: "b0 = new_batch env tenant key request r" "b = completed_batch request b0"
    and each: "onboard_each env tenant (re_now env) request ra = Inr rb"
    and r1: "r1 = rb\<lparr>rg_batches := update_where (\<lambda>c. bo_id c = bo_id b0) (completed_batch request) (rg_batches rb)\<rparr>"
    and batches: "rg_batches r1 = rg_batches r @ [b]"
    by (rule write_onboarding_obtain [OF w])
  have batch: "b \<in> set (rg_batches r2)"
    using set_mono_prefix [OF registry_run_batches [OF assms(4)]] batches by auto
  have "grows rb r2"
    using grows_trans [OF row_step_grows [OF complete_batch] registry_run_grows [OF assms(4), unfolded r1]] .
  then have stands: "\<exists>s. store_stands tenant (re_now env) q s r2" if "q \<in> set request" for q
    using onboard_each_stand [OF each] store_stands_grows that by blast
  have kinds: "\<exists>z \<in> set (rg_places r2). zn_tenant z = tenant \<and> zn_store z = st_id s \<and> zn_kind z = kind"
    if q: "q \<in> set request" and s: "store_stands tenant (re_now env) q s r2" and kind: "kind \<in> {SALES_FLOOR, BACKROOM}"
    for q s kind
  proof -
    obtain q0 where "validate_store_create zone_info q0 = Inr q" using validate_bulk_each [OF assms(1) q] by blast
    then have "kind \<in> zc_kind ` set (so_zones q)" using subsetD [OF valid_store_zones(1) kind] by blast
    then obtain z where "z \<in> set (so_zones q)" "zc_kind z = kind" by auto
    moreover from this(1) have "zone_stands tenant (st_id s) z r2" using s by (simp add: store_stands_def)
    ultimately show ?thesis by (auto simp: zone_stands_def)
  qed
  have built: "\<exists>s. store_stands tenant (re_now env) q s r2 \<and> (\<forall>kind \<in> {SALES_FLOOR, BACKROOM}.
      \<exists>z \<in> set (rg_places r2). zn_tenant z = tenant \<and> zn_store z = st_id s \<and> zn_kind z = kind)"
    if q: "q \<in> set request" for q
  proof -
    obtain s where s: "store_stands tenant (re_now env) q s r2" using stands [OF q] ..
    show ?thesis by (intro exI [of _ s] conjI ballI s kinds [OF q s])
  qed
  have fields: "bo_status b = ONBOARDING_COMPLETED" "bo_succeeded b = int (length request)"
    "bo_total b = int (length request)" "bo_failed b = 0"
    by (simp_all add: b completed_batch_def new_batch_def)
  show ?thesis by (intro conjI ballI batch fields built)
qed

subsection \<open>Repeating a request\<close>

lemma find_batch_later:
  assumes "reaches registry_step r1 r2" "registry_wf r2" "b \<in> set (rg_batches r1)"
  shows "find_batch (bo_tenant b) (bo_key b) r2 = Some b"
proof -
  have b: "b \<in> set (rg_batches r2)" using set_mono_prefix [OF registry_run_batches [OF assms(1)]] assms(3) by blast
  have d: "distinct (map (\<lambda>b. (bo_tenant b, bo_key b)) (rg_batches r2))"
    using assms(2) by (simp add: registry_wf_def keys_wf_def)
  obtain c where c: "find_batch (bo_tenant b) (bo_key b) r2 = Some c"
    using b by (cases "find_batch (bo_tenant b) (bo_key b) r2") (auto simp: find_batch_def select_one_None_iff)
  then have "c \<in> set (rg_batches r2)" "bo_tenant c = bo_tenant b" "bo_key c = bo_key b"
    by (auto simp: find_batch_def dest!: select_one_SomeD)
  then show ?thesis using c b d by (auto simp: distinct_map inj_on_def)
qed

lemma get_tenant_later:
  assumes "grows r r'" "registry_wf r'" "get_tenant tenant r = Inr t"
  shows "get_tenant tenant r' = Inr t"
proof -
  have t: "t \<in> set (rg_tenants r)" "tn_id t = tenant"
    using assms(3) by (auto simp: get_tenant_def split: option.splits dest: get_by_SomeD)
  then have "t \<in> set (rg_tenants r')" using assms(1) set_mono_prefix unfolding grows_def by blast
  moreover have "distinct (map tn_id (rg_tenants r'))" using assms(2) by (simp add: registry_wf_def keys_wf_def)
  ultimately have "get_by tn_id tenant (rg_tenants r') = Some t" using t(2) by (simp add: get_by_eq_Some_iff)
  then show ?thesis by (simp add: get_tenant_def)
qed

text \<open>
  C27: Onboarding is idempotent: once a request succeeded, sending the same stores under the same key in
  any later state returns the batch of the first time and writes nothing, and other stores under that
  key are refused, as far as the hash tells them apart.
\<close>

theorem onboarding_is_idempotent:
  assumes "registry_wf r" "onboard_stores env tenant key request r r = Inr (b, r1)" "reaches registry_step r1 r2"
    and "re_json_digest env' = re_json_digest env"
  shows "onboard_stores env' tenant key request r2 db = Inr (b, db) \<and>
    (request_hash env' other \<noteq> request_hash env request \<longrightarrow>
       onboard_stores env' tenant key other r2 db = Inl (ApiError 409 ''idempotency_key_reused''))"
proof -
  have step: "registry_step r r1" using assms(2) by (rule stores_onboarded)
  have run: "reaches registry_step r r2" using reaches_trans [OF reaches_single [of registry_step, OF step] assms(3)] .
  have wf: "registry_wf r2" using services.reaches_inv [OF run assms(1)] .
  obtain t where "get_tenant tenant r = Inr t"
    using assms(2) by (auto simp: onboard_stores_def and_then_Inr_iff)
  then have t: "get_tenant tenant r2 = Inr t" using get_tenant_later [OF registry_run_grows [OF run] wf] by blast
  from assms(2) have b: "b \<in> set (rg_batches r1) \<and> bo_tenant b = tenant \<and> bo_key b = key \<and>
      bo_hash b = request_hash env request"
  proof (cases rule: onboard_stores_cases)
    case replayed
    then show ?thesis by (auto simp: find_batch_def dest!: select_one_SomeD)
  next
    case written
    then show ?thesis
      by (auto elim!: write_onboarding_obtain simp: completed_batch_def new_batch_def)
  qed
  have "find_batch tenant key r2 = Some b" using find_batch_later [OF assms(3) wf, of b] b by simp
  moreover have "request_hash env' request = request_hash env request" by (simp add: request_hash_def assms(4))
  ultimately show ?thesis using t b by (simp add: onboard_stores_def)
qed

subsection \<open>A gateway from its registration on\<close>

lemma gateway_found:
  assumes "registry_wf r" "d \<in> set (rg_gateways r)"
  shows "get_by dv_id (dv_id d) (devices (publish r db)) = Some (device.truncate d)"
proof -
  have "map dv_id (map device.truncate (rg_gateways r)) = map dv_id (rg_gateways r)"
    by (simp add: device.truncate_def)
  then have "distinct (map dv_id (devices (publish r db)))"
    using assms(1) by (simp add: publish_def registry_wf_def keys_wf_def del: map_map)
  then show ?thesis
    using assms(2) by (auto simp: publish_def get_by_eq_Some_iff device.truncate_def)
qed

lemma gateway_authenticates:
  assumes "registry_wf r" "d \<in> set (rg_gateways r)" "tenant_of (dv_tenant d) = Some TENANT_ACTIVE"
    and "dv_status d = DEVICE_ACTIVE"
  shows "authenticate_device digest tenant_of (publish r db) (Some (device_token (dv_id d) secret)) =
    (if dv_credential_hash d = Some (digest secret) then Inr (device.truncate d) else Inl unauthorized_device)"
proof -
  have "CHR ''.'' \<in> set (device_token (dv_id d) secret)" by (simp add: device_token_def)
  then show ?thesis
    using gateway_found [OF assms(1,2)] assms(3,4)
    by (simp add: authenticate_device_def Let_def split_device_token parse_str_uuid device.truncate_def)
qed

text \<open>The assignments of a device that has one with no end: whatever is added later is not for it.\<close>

definition placed_at :: "assignment \<Rightarrow> registry \<Rightarrow> bool" where
  "placed_at a r \<longleftrightarrow>
     filter (\<lambda>b. as_tenant b = as_tenant a \<and> as_device b = as_device a) (rg_placements r) = [a] \<and> as_to a = None"

lemma placed_at_step: "row_step r r' \<Longrightarrow> placed_at a r \<Longrightarrow> placed_at a r'"
proof (induction rule: row_step.induct)
  case (add_placement b r r')
  have "a \<in> set (filter (\<lambda>b. as_tenant b = as_tenant a \<and> as_device b = as_device a) (rg_placements r))"
    using add_placement.prems by (simp add: placed_at_def)
  then have "a \<in> set (rg_placements r)" by simp
  then have "\<not> (as_tenant b = as_tenant a \<and> as_device b = as_device a)"
    using add_placement by (auto simp: insert_placement_def placed_at_def list_ex_iff split: if_splits)
  then show ?case using add_placement insert_row_eqs(5) [OF add_placement.hyps(1)] by (auto simp: placed_at_def)
qed (auto simp: placed_at_def dest!: insert_row_eqs)

lemma placed_at_run: "reaches row_step r r' \<Longrightarrow> placed_at a r \<Longrightarrow> placed_at a r'"
  by (induction rule: reaches.induct) (auto intro: placed_at_step)

lemma placed_at_resolves:
  assumes "placed_at a r" "dv_tenant d = as_tenant a" "dv_id d = as_device a" "as_from a \<le> t"
  shows "resolve_assignment_at (load_effective_assignment_history d t t (publish r db)) t = Inr a"
proof -
  let ?own = "\<lambda>b. as_tenant b = as_tenant a \<and> as_device b = as_device a"
  have "filter (\<lambda>b. as_tenant b = dv_tenant d \<and> as_device b = dv_id d \<and> as_from b \<le> t \<and>
      (case as_to b of None \<Rightarrow> True | Some e \<Rightarrow> t < e)) (rg_placements r) =
    filter (\<lambda>b. as_from b \<le> t \<and> (case as_to b of None \<Rightarrow> True | Some e \<Rightarrow> t < e)) (filter ?own (rg_placements r))"
    using assms(2,3) by (auto intro: filter_cong)
  also have "\<dots> = [a]" using assms(1,4) by (simp add: placed_at_def)
  finally have "load_effective_assignment_history d t t (publish r db) = [a]"
    by (simp add: load_effective_assignment_history_def publish_def sort_desc_def)
  then show ?thesis using assms(1,4) by (simp add: resolve_assignment_at_def placed_at_def effective_def)
qed

lemma rotate_device_credential_Inr:
  assumes "rotate_device_credential env tenant i r = Inr (token, r')"
  obtains d where "d \<in> set (rg_gateways r)" "dv_id d = i" "token = device_token i (re_secret env)"
    "d\<lparr>dv_credential_hash := Some (re_digest env (re_secret env))\<rparr> \<in> set (rg_gateways r')"
proof -
  obtain d where d: "select_one (\<lambda>d. dv_id d = i \<and> dv_tenant d = tenant) (rg_gateways r) = Some d"
    and r': "token = device_token (dv_id d) (re_secret env)" "rg_gateways r' =
      update_where (\<lambda>g. dv_id g = i) (\<lambda>g. g\<lparr>dv_credential_hash := Some (re_digest env (re_secret env))\<rparr>) (rg_gateways r)"
    using assms by (auto simp: rotate_device_credential_def and_then_Inr_iff split: option.splits)
  show thesis
    using that [of d] select_one_SomeD [OF d] r' by (auto simp: in_update_where_iff)
qed

text \<open>
  C25: A gateway works from its registration on: its token is accepted at once, every observation from
  then on is attributed to the store and zone it was registered for, whatever the registry does later,
  and when its credential is rotated the new token is accepted and the old one refused.
\<close>

theorem registered_gateway_works:
  assumes wf: "registry_wf r" and tenant: "tenant_of (pr_tenant p) = Some TENANT_ACTIVE"
    and reg: "register_store_device env p store q r = Inr ((d, a, token), r1)"
    and run: "reaches registry_step r1 r2"
    and rotate: "rotate_device_credential env' tenant (dv_id d) r2 = Inr (token', r3)"
    and digest: "re_digest env' = re_digest env" "re_digest env (re_secret env) \<noteq> re_digest env (re_secret env')"
  shows "authenticate_device (re_digest env) tenant_of (publish r1 db) (Some token) = Inr (device.truncate d) \<and>
    as_store a = store \<and> as_zone a = sd_zone q \<and>
    (\<forall>t \<ge> re_now env. \<forall>r' \<in> {r2, r3}.
       resolve_assignment_at (load_effective_assignment_history (device.truncate d) t t (publish r' db)) t = Inr a) \<and>
    (\<exists>d'. dv_id d' = dv_id d \<and> dv_tenant d' = dv_tenant d \<and>
       authenticate_device (re_digest env) tenant_of (publish r3 db) (Some token') = Inr d') \<and>
    authenticate_device (re_digest env) tenant_of (publish r3 db) (Some token) = Inl unauthorized_device"
proof (rule register_store_device_Inr [OF reg])
  fix ra
  assume d: "d = new_gateway env (pr_tenant p) (sd_serial q) (sd_name q) (Some (re_digest env (re_secret env))) r"
    and a: "a = new_placement (pr_tenant p) (dv_id d) store (sd_zone q) (re_now env)"
    and token: "token = device_token (dv_id d) (re_secret env)"
    and ins: "insert_gateway d r = Inr ra" "insert_placement a ra = Inr r1"
  have dsel: "dv_tenant d = pr_tenant p" "dv_status d = DEVICE_ACTIVE"
    "dv_credential_hash d = Some (re_digest env (re_secret env))" by (simp_all add: d new_gateway_def)
  have step1: "registry_step r r1" using reg by (rule device_registered)
  have step3: "registry_step r2 r3" using rotate by (rule credential_rotated)
  have wf1: "registry_wf r1" using registry_step_wf [OF step1 wf] .
  have wf2: "registry_wf r2" using services.reaches_inv [OF run wf1] .
  have wf3: "registry_wf r3" using registry_step_wf [OF step3 wf2] .
  have d1: "d \<in> set (rg_gateways r1)" using insert_row_eqs(4) [OF ins(1)] insert_row_eqs(5) [OF ins(2)] by auto
  have "dv_id d \<notin> dv_id ` set (rg_gateways r)" using ins(1) by (simp add: insert_gateway_def split: if_splits)
  then have "\<not> has_gateway (dv_tenant d) (dv_id d) r" unfolding has_gateway_def by (metis imageI)
  then have "filter (\<lambda>b. as_tenant b = as_tenant a \<and> as_device b = as_device a) (rg_placements r) = []"
    using wf dsel(1) by (auto simp: filter_empty_conv registry_wf_def links_wf_def a new_placement_def)
  then have "placed_at a r1"
    using insert_row_eqs(4) [OF ins(1)] insert_row_eqs(5) [OF ins(2)] by (simp add: placed_at_def) (simp add: a new_placement_def)
  then have at2: "placed_at a r2" using placed_at_run [OF registry_run_rows [OF run]] by blast
  then have at3: "placed_at a r3" using placed_at_run [OF registry_step_rows [OF step3]] by blast
  have resolves: "resolve_assignment_at (load_effective_assignment_history (device.truncate d) t t (publish r' db)) t = Inr a"
    if "re_now env \<le> t" "placed_at a r'" for t r'
    by (rule placed_at_resolves [OF that(2)])
      (use that(1) dsel in \<open>simp_all add: a new_placement_def device.truncate_def\<close>)
  obtain g where g: "g \<in> set (rg_gateways r2)" "dv_id g = dv_id d"
    and token': "token' = device_token (dv_id d) (re_secret env')"
    and g3: "g\<lparr>dv_credential_hash := Some (re_digest env' (re_secret env'))\<rparr> \<in> set (rg_gateways r3)"
    by (rule rotate_device_credential_Inr [OF rotate])
  obtain d2 where d2: "d2 \<in> set (rg_gateways r2)" "bare d2 = bare d"
    using grows_gateway [OF registry_run_grows [OF run] d1] by blast
  have "distinct (map dv_id (rg_gateways r2))" using wf2 by (simp add: registry_wf_def keys_wf_def)
  then have "g = d2" using g d2(1) bare_eqD [OF d2(2)] by (auto simp: distinct_map inj_on_def)
  then have same: "dv_tenant g = dv_tenant d" "dv_status g = dv_status d"
    using d2(2) by (metis bare_sel)+
  let ?g = "g\<lparr>dv_credential_hash := Some (re_digest env' (re_secret env'))\<rparr>"
  have auth3: "authenticate_device (re_digest env) tenant_of (publish r3 db) (Some (device_token (dv_id d) secret)) =
      (if re_digest env (re_secret env') = re_digest env secret then Inr (device.truncate ?g) else Inl unauthorized_device)"
    for secret
    using gateway_authenticates [OF wf3 g3, of tenant_of "re_digest env" db secret] same dsel tenant g(2) digest(1) by simp
  have "authenticate_device (re_digest env) tenant_of (publish r1 db) (Some token) = Inr (device.truncate d)"
    using gateway_authenticates [OF wf1 d1, of tenant_of "re_digest env"] dsel tenant by (simp add: token)
  moreover have "as_store a = store" "as_zone a = sd_zone q" by (simp_all add: a new_placement_def)
  moreover have "dv_id (device.truncate ?g) = dv_id d" "dv_tenant (device.truncate ?g) = dv_tenant d"
    using g(2) same by (simp_all add: device.truncate_def)
  ultimately show ?thesis
    using resolves at2 at3 auth3 [of "re_secret env'"] auth3 [of "re_secret env"] digest(2)
    by (auto simp: token token')
qed

subsection \<open>The pipeline on a registry that is being built\<close>

text \<open>
  C3: Onboarding never breaks the pipeline: any interleaving of the services of the registry with the
  steps of the pipeline, from an empty platform, is a run of the pipeline in which every zone keeps the
  store it was created for; so a bucket's projected quantity plus what its unsettled transitions owe is
  the number of items there, and every assignment of a gateway lies in the store of its zone.
\<close>

theorem platform_runs_are_pipeline_runs:
  assumes "pipeline_start (recent, db)"
    and run: "reaches platform_step (empty_registry, recent, db) (r', recent', db')"
  shows "reaches (pipeline_step (store_of_zone r')) (recent, db) (recent', db') \<and>
    projected b db' + outstanding b db' = item_count b db' \<and>
    (\<forall>a \<in> set (rg_placements r'). as_store a = store_of_zone r' (as_zone a))"
proof -
  have wf: "registry_wf r'"
    using platform_run_wf [OF run] empty_registry_wf by simp
  have r: "reaches (pipeline_step (store_of_zone r')) (recent, db) (recent', db')"
    using platform_run_refines [OF run, of "store_of_zone r'"] empty_registry_wf store_of_zone_by [OF wf] by simp
  have "pipeline_inv (store_of_zone r') (recent', db')" using pipeline.reachable_inv [OF assms(1) r] .
  then have "projected b db' + outstanding b db' = item_count b db'"
    by (simp add: pipeline_inv_iff db_inv_def stock_invD(2))
  then show ?thesis using r placements_located [OF wf store_of_zone_by [OF wf]] by blast
qed

subsection \<open>Conflicts that cannot be seen\<close>














subsection \<open>A store to try them on\<close>

definition sample_onboarding :: "string \<Rightarrow> registry_env" where
  "sample_onboarding secret =
     \<lparr>re_now = 50, re_fresh = (\<lambda>n. of_nat (n + 1)), re_secret = secret, re_digest = (\<lambda>s. s),
      re_json_digest = (\<lambda>_. ''h''), re_commit_fault = False\<rparr>"

definition sample_stores :: "store_create list" where
  "sample_stores =
     [\<lparr>so_code = ''s1'', so_name = ''One'', so_timezone = ''UTC'', so_path = [],
       so_zones = [\<lparr>zc_code = ''floor'', zc_name = ''Floor'', zc_kind = SALES_FLOOR\<rparr>,
                   \<lparr>zc_code = ''back'', zc_name = ''Back'', zc_kind = BACKROOM\<rparr>],
       so_devices = [\<lparr>dc_serial = ''GW-1'', dc_name = ''Gate'', dc_zone = ''floor''\<rparr>], so_configuration = []\<rparr>]"

definition sample_tenant :: bootstrap_tenant where
  "sample_tenant = \<lparr>bt_code = ''acme'', bt_name = ''Acme''\<rparr>"

definition sample_tenants :: registry where
  "sample_tenants = snd (projr (create_tenant (sample_onboarding ''a'') sample_tenant empty_registry))"

definition sample_opening :: "registry \<Rightarrow> (onboarding_batch \<times> registry) outcome" where
  "sample_opening r = onboard_stores (sample_onboarding ''a'') 1 ''key-0001'' sample_stores r r"

definition sample_chain :: registry where
  "sample_chain = snd (projr (sample_opening sample_tenants))"

lemma projr_pair: "is_ok x \<Longrightarrow> x = Inr (fst (projr x), snd (projr x))"
  by (cases x) auto

lemma sample_tenants_step: "registry_step empty_registry sample_tenants"
proof -
  have "is_ok (create_tenant (sample_onboarding ''a'') sample_tenant empty_registry)" by code_simp
  from projr_pair [OF this] show ?thesis unfolding sample_tenants_def by (rule tenant_created)
qed

lemma sample_opening_ok: "sample_opening sample_tenants = Inr (fst (projr (sample_opening sample_tenants)), sample_chain)"
proof -
  have "is_ok (sample_opening sample_tenants)" by code_simp
  from projr_pair [OF this] show ?thesis unfolding sample_chain_def .
qed

lemma sample_chain_step: "registry_step sample_tenants sample_chain"
  using sample_opening_ok [unfolded sample_opening_def] by (rule stores_onboarded)

lemma sample_tenants_wf: "registry_wf sample_tenants"
  using sample_tenants_step empty_registry_wf by (rule registry_step_wf)

lemma sample_chain_wf: "registry_wf sample_chain"
  using sample_chain_step sample_tenants_wf by (rule registry_step_wf)

lemma sample_stores_valid: "validate_bulk_request (\<lambda>_. True) sample_stores = Inr sample_stores"
  by code_simp

theorem onboarded_stores_stand_witness:
  "\<exists>s. store_stands 1 50 (hd sample_stores) s sample_chain"
proof -
  have now: "re_now (sample_onboarding ''a'') = 50" by (simp add: sample_onboarding_def)
  have "find_batch 1 ''key-0001'' sample_tenants = None" by code_simp
  from onboarded_stores_stand [OF sample_stores_valid this sample_opening_ok [unfolded sample_opening_def] reaches_refl]
  have "\<forall>q \<in> set sample_stores. \<exists>s. store_stands 1 (re_now (sample_onboarding ''a'')) q s sample_chain" by blast
  then show ?thesis by (simp add: now sample_stores_def)
qed

theorem onboarding_is_idempotent_witness:
  "onboard_stores (sample_onboarding ''b'') 1 ''key-0001'' sample_stores sample_chain sample_chain =
     Inr (fst (projr (sample_opening sample_tenants)), sample_chain)"
proof -
  have "re_json_digest (sample_onboarding ''b'') = re_json_digest (sample_onboarding ''a'')"
    by (simp add: sample_onboarding_def)
  from onboarding_is_idempotent [OF sample_tenants_wf sample_opening_ok [unfolded sample_opening_def] reaches_refl this]
  show ?thesis by (simp add: sample_opening_def)
qed

definition sample_configurer :: principal where
  "sample_configurer =
     \<lparr>pr_user = 7, pr_tenant = 1, pr_email = ''e'', pr_display_name = ''e'',
      pr_scopes = [\<lparr>sc_role = Canonical TENANT_ADMIN, sc_store = None\<rparr>], pr_canonical_roles = [TENANT_ADMIN],
      pr_assigned_stores = [], pr_session = None\<rparr>"

definition sample_registration :: "((gateway \<times> assignment \<times> string) \<times> registry) outcome" where
  "sample_registration =
     register_store_device (sample_onboarding ''a'') sample_configurer 3
       \<lparr>sd_serial = ''GW-2'', sd_name = ''Door'', sd_zone = 4\<rparr> sample_chain"

definition sample_rotation :: "(string \<times> registry) outcome" where
  "sample_rotation = rotate_device_credential (sample_onboarding ''b'') 1 8 (snd (projr sample_registration))"

theorem registered_gateway_works_witness:
  "authenticate_device (\<lambda>s. s) (\<lambda>_. Some TENANT_ACTIVE) (publish (snd (projr sample_rotation)) empty_db)
     (Some (snd (snd (fst (projr sample_registration))))) = Inl unauthorized_device"
proof -
  have "is_ok sample_registration" by code_simp
  note reg0 = projr_pair [OF this]
  obtain d a token where x: "fst (projr sample_registration) = (d, a, token)" by (cases "fst (projr sample_registration)")
  have "is_ok sample_rotation" by code_simp
  note rot = projr_pair [OF this]
  have "dv_id (fst (fst (projr sample_registration))) = 8" by code_simp
  then have d: "dv_id d = 8" by (simp add: x)
  have dig: "re_digest (sample_onboarding s) = (\<lambda>s. s)" "re_secret (sample_onboarding s) = s" for s
    by (simp_all add: sample_onboarding_def)
  have rot': "rotate_device_credential (sample_onboarding ''b'') 1 (dv_id d) (snd (projr sample_registration)) =
      Inr (fst (projr sample_rotation), snd (projr sample_rotation))"
    using rot unfolding d sample_rotation_def .
  have reg': "register_store_device (sample_onboarding ''a'') sample_configurer 3
      \<lparr>sd_serial = ''GW-2'', sd_name = ''Door'', sd_zone = 4\<rparr> sample_chain =
      Inr ((d, a, token), snd (projr sample_registration))"
    unfolding sample_registration_def by (rule reg0 [unfolded x, unfolded sample_registration_def])
  from registered_gateway_works [OF sample_chain_wf _ reg' reaches_refl rot', of "\<lambda>_. Some TENANT_ACTIVE" empty_db]
  show ?thesis by (simp add: dig x)
qed

theorem platform_runs_are_pipeline_runs_witness:
  "rg_placements sample_chain \<noteq> [] \<and>
     list_all (\<lambda>a. as_store a = store_of_zone sample_chain (as_zone a)) (rg_placements sample_chain)"
proof -
  have placed: "rg_placements sample_chain \<noteq> []" by code_simp
  have start: "pipeline_start (empty_recent 5 5, empty_db)" by (auto simp: pipeline_start_def)
  have "reaches platform_step (empty_registry, empty_recent 5 5, empty_db)
      (sample_chain, empty_recent 5 5, publish sample_chain (publish sample_tenants empty_db))"
    using reaches_step [OF reaches_single [of platform_step, OF registry_moves [OF sample_tenants_step]]
        registry_moves [OF sample_chain_step]] .
  from platform_runs_are_pipeline_runs [OF start this] show ?thesis using placed by (simp add: list_all_iff)
qed



end
