(* ===== verification/Spec2Isabelle.thy ===== *)
theory Spec2Isabelle
  imports History Progress Access Policy_Lifecycle Task_Lifecycle Login_Throttle Catalog_Results
    Identity_Results Registry_Results
begin

text \<open>
  A verification development for the RFID inventory and replenishment platform (\<open>src/src/abacus\<close>).

  \<^bold>\<open>The program.\<close>  Gateways in the stores authenticate with a device token and post batches of RFID
  observations.  The ingress checks each event against the registry (device, antenna, zone, tag) and
  writes an inbox row and a ledger row.  A worker drains the inbox: it keeps a bounded window of recent
  reads per item, infers a stable zone, moves the item, and records a transition with inventory deltas
  in an outbox; the outbox is then applied to a projection of counts per store, SKU and zone.
  Authoritative removals write the same outbox.  Replenishment evaluates the projection against
  versioned policies and opens or grows tasks, which store staff move through their states.  Product
  masters arrive as CSV imports which a second worker validates, stages and promotes through a durable
  job queue into the catalog, its effective-dated EPC bindings, and the tags the ingress consults.
  People log in through a throttle and act with the permissions of their roles.

  \<^bold>\<open>How it is modelled.\<close>  A table is a list of records, a row lock makes the locked section one step, a
  transaction is a function from a database to a database or to an error, and an error discards its
  writes.  Raises, early returns and CHECK or unique constraints are branches of the definitions.  Times are
  microseconds since the epoch, counts are unbounded as in Python with the column's range as a check,
  confidence is a real number.  Concurrency is interleaving: the theories \<open>System\<close>, \<open>Catalog_Reach\<close>,
  \<open>Policy_Lifecycle\<close>, \<open>Task_Lifecycle\<close>, \<open>Job_Queue\<close>, \<open>Login_Throttle\<close>, \<open>Identity_Life\<close>, \<open>Registry\<close> and \<open>Registry_Life\<close> have step relations
  whose steps are committed transactions in any order, and their invariants are lifted by the locales of
  \<open>Prelude\<close>.

  \<^bold>\<open>Theories and sources.\<close>
  \<^item> \<open>Prelude\<close>, \<open>Py_Text\<close>, \<open>Ordered_Dict\<close>, \<open>Csv\<close>, \<open>Json\<close>: what the services use of Python (tables,
    sorting, strings, \<open>OrderedDict\<close>, \<open>csv.reader\<close>, JSON values), with the locales for system runs.
  \<^item> \<open>Domain\<close>: \<open>enums.py\<close>, \<open>config.py\<close>, \<open>events/\<close>.  \<open>Codes\<close>: the identifier formats of
    \<open>schemas/catalog.py\<close>; accepted codes are canonical, the GTIN check digit detects single errors.
    \<open>Tables\<close>: rows and constraints of \<open>models/architecture.py\<close>, \<open>models/tenancy.py\<close>.
  \<^item> \<open>Access\<close>: \<open>security.py\<close> (roles, principals, scopes); a principal exists exactly when user, tenant
    and session are live, and its pinned scope covers its grants.  \<open>Login_Throttle\<close>: the attempt
    windows of \<open>security.py\<close>; they refine plain counting of attempts.  \<open>Device_Auth\<close>:
    \<open>services/device_auth.py\<close>.
  \<^item> \<open>Connectivity\<close>, \<open>Evidence\<close>, \<open>Stable_Zone\<close>, \<open>Ledger\<close>, \<open>Streaming\<close>, \<open>Projection\<close>:
    \<open>services/streaming_inventory.py\<close> and \<open>services/connectivity.py\<close>, from freshness and the evidence
    window through the observation processor to the projection.  \<open>Event_Worker\<close>:
    \<open>processes/event_worker.py\<close>.  \<open>Business_Events\<close>: \<open>services/business_events.py\<close>.  \<open>Ingress\<close>:
    \<open>services/rfid_ingress.py\<close> with \<open>schemas/architecture.py\<close>.
  \<^item> \<open>Inventory\<close>, \<open>Stock\<close>, \<open>Pipeline\<close>, \<open>System\<close>, \<open>History\<close>, \<open>Progress\<close>: the pipeline as a whole.
    Projection plus owed transitions equals the count of items, batch counters are exact, versions only
    grow, processed events are final, a calm tenant converges.
  \<^item> \<open>Policies\<close>, \<open>Policy_Lifecycle\<close>, \<open>Replenishment\<close>, \<open>Task_Lifecycle\<close>: \<open>services/replenishment.py\<close>
    with \<open>schemas/replenishment.py\<close>.  Active rules never overlap, published versions are frozen, an
    evaluation always succeeds, a store has one active task per SKU, tasks only advance.
  \<^item> \<open>Job_Queue\<close>: \<open>services/jobs.py\<close>; calls refine an abstract lease protocol, runs are bounded.
  \<^item> \<open>Catalog_Rows\<close> (parsing a file), \<open>Catalog\<close> (tables, queries, acceptance, validation, preview),
    \<open>Catalog_Promotion\<close> (promotion, projection, EPC resolution): \<open>services/catalog.py\<close>,
    \<open>models/catalog.py\<close>, \<open>schemas/catalog.py\<close>.  \<open>Catalog_Worker\<close>: \<open>processes/catalog_worker.py\<close>.
    \<open>Catalog_Effects\<close>, \<open>Catalog_Sync\<close>, \<open>Catalog_Mirror\<close>, \<open>Catalog_Preview\<close>, \<open>Catalog_Outcome\<close> and
    \<open>Catalog_Staging\<close> derive what a promotion and a validation do, \<open>Catalog_Reach\<close> the invariants of
    all runs, \<open>Catalog_Life\<close> and \<open>Catalog_Results\<close> the properties.

  \<^item> \<open>Identity\<close> (logins, refresh sessions, canonical access), \<open>User_Admin\<close> (request schemas, creating and
    suspending users, changing their access, the bootstrap and the reviewer account):
    \<open>services/identity.py\<close>, \<open>models/identity.py\<close>, \<open>schemas/identity.py\<close>.  A database session sees the rows of
    its own tenant.  \<open>Access_Change\<close>: the three services that replace roles or assignments implement
    one abstract change of a user's access.  \<open>Accounts\<close> and \<open>Identity_Life\<close>: every committed call is a step
    of an abstract account machine; \<open>Sessions\<close>: the invariant of refresh families; \<open>Identity_Results\<close>: a tenant
    keeps an active administrator, a reused refresh token kills its family, a manager cannot escalate,
    no change of access escapes the audit.

  \<^item> \<open>Onboarding\<close>: \<open>services/onboarding.py\<close> with \<open>schemas/tenancy.py\<close> and \<open>models/tenancy.py\<close>: tenants, organization
    units, stores, zones, gateways and their credentials.  \<open>Registry\<close>: every service is a run of single-row
    steps, which keep the keys and links of the registry.  \<open>Registry_Life\<close>: the registry beside the pipeline;
    platform runs are pipeline runs.  \<open>Registry_Results\<close>: stores stand as requested, onboarding is
    idempotent, a gateway is recognized and placed from its registration on.

  \<^bold>\<open>Parameters.\<close>  SHA-256, \<open>uuid4\<close>, \<open>uuid5\<close>, the clocks, UTF-8 decoding, \<open>json.loads\<close>, \<open>str\<close> of a JSON
  value, JWT decoding, password hashing and the outcome of a commit are arguments of the definitions
  that use them; what a theorem needs of them is a hypothesis of it, and its witness supplies a concrete
  function.  There is no fuel: loops over tables are structural recursions, the remaining ones have
  termination proofs.  The limits (window sizes, batch sizes, attempts, row and file limits) are the
  constants and settings of the code.

  \<^bold>\<open>Not modelled.\<close>  The prose of error messages; text outside ASCII; rounding of IEEE doubles; row-level
  security and foreign keys enforced by PostgreSQL except where a theorem states one; the order of
  database errors that cannot both be observed.  The routes and error mapping of \<open>api/\<close> only call the
  services and render their results; \<open>db.py\<close> beyond the pinned scope, \<open>main.py\<close>, \<open>cli.py\<close>,
  \<open>logging.py\<close> and \<open>processes/hosted.py\<close> wire frameworks together; the Alembic migrations are DDL run
  by PostgreSQL; \<open>scripts/\<close> are demos and tools outside the program.
\<close>

subsection \<open>Sample states\<close>

text \<open>One item that has just moved into a zone, with the transition that is still to be published.\<close>

definition sample_delta :: inventory_delta where
  "sample_delta =
     \<lparr>dl_delta_id = str_uuid 9 @ '':'' @ str_uuid 4 @ '':'' @ str_uuid 3, dl_transition = 9,
      dl_tenant = 1, dl_store = 2, dl_sku = 4, dl_zone = 3, dl_epc = ''E28011700000020F'',
      dl_quantity = 1, dl_confidence = 9 / 10, dl_observed_at = seconds 100\<rparr>"

definition sample_move :: transition where
  "sample_move = new_transition 9 1 ''E28011700000020F'' 1 [sample_delta] (seconds 101)"

definition sample_item :: item_state where
  "sample_item =
     \<lparr>it_tenant = 1, it_epc = ''E28011700000020F'', it_sku = 4, it_store = Some 2, it_zone = Some 3,
      it_last_observed_at = seconds 100, it_last_received_at = seconds 101, it_confidence = 9 / 10,
      it_version = 1, it_removal_event = None, it_removed_at = None\<rparr>"

definition sample_stock :: db where
  "sample_stock = empty_db\<lparr>item_states := [sample_item], transitions := [sample_move]\<rparr>"

definition sample_env :: worker_env where
  "sample_env =
     \<lparr>env_uuid5 = (\<lambda>_. 0), env_fresh_id = (\<lambda>u. u), env_now = (\<lambda>_. seconds 102),
      env_commit_fault = (\<lambda>_. None)\<rparr>"

lemma sample_stock_inv: "db_inv (\<lambda>_. 2) sample_stock"
proof -
  have moves: "moves sample_move None (Some (1, 2, 4, 3))"
    unfolding sample_move_def
    by (intro new_transition_moves)
      (auto simp: sample_delta_def delta_valid_def change_def dl_bucket_def)
  have bucket: "it_bucket sample_item = Some (1, 2, 4, 3)"
    by (simp add: sample_item_def it_bucket_def)
  have "stock_inv empty_db" by (rule stock_inv_empty) (simp_all add: empty_db_def)
  then have "stock_inv sample_stock"
    by (rule stock_inv_moved [where s' = sample_item and t = sample_move and k = "(1, ''E28011700000020F'')"])
      (use moves bucket in \<open>simp_all add: sample_stock_def empty_db_def loc_def\<close>,
       simp_all add: sample_item_def sample_move_def new_transition_def it_key_def tr_item_def
         tr_pending_def transition_checks_def)
  moreover have "accounting sample_stock" by (simp add: accounting_def sample_stock_def empty_db_def)
  ultimately show ?thesis
    by (simp add: db_inv_def rows_located_def sample_stock_def empty_db_def)
      (simp add: sample_item_def)
qed

lemma sample_pipeline: "pipeline_inv (\<lambda>_. 2) (empty_recent 1 1, sample_stock)"
  by (simp add: pipeline_inv_iff recent_wf_empty sample_stock_inv)

subsection \<open>Properties that span components\<close>

text \<open>
  C1: Stock is conserved: in every state the pipeline reaches from an empty database, whatever the
  order of batches, ticks, removals, rebuilds, replays, restarts and registry changes, the projected
  quantity of a bucket plus what its unsettled transitions still owe is the number of items there.
\<close>

theorem stock_is_conserved:
  assumes "pipeline_start st" "reaches (pipeline_step zs) st (recent, db)"
  shows "projected b db + outstanding b db = item_count b db"
  using pipeline.reachable_inv [OF assms] by (simp add: pipeline_inv_iff db_inv_def stock_invD(2))

text \<open>A run that registers a gateway, accepts a batch from it and gives the worker a tick.\<close>

definition sample_run_end :: "db \<Rightarrow> recent_state \<times> db" where
  "sample_run_end db = fst (process_tenant_once sample_env default_settings 1 10 (empty_recent 5 5, db))"

lemma sample_run:
  assumes "sample_accepted = Inr ((b, events), db)"
  shows "reaches (pipeline_step (\<lambda>_. 2)) (empty_recent 5 5, empty_db) (sample_run_end db)"
proof -
  let ?step = "pipeline_step (\<lambda>_. 2)"
  have "?step (empty_recent 5 5, empty_db) (empty_recent 5 5, sample_registry)"
    using step_registry [where as = "assignments sample_registry" and zs = "\<lambda>_. 2" and ss = "[]" and zones' = "[]"
        and ds = "devices sample_registry" and bs = "[]" and db = empty_db]
    by (simp add: sample_registry_def empty_db_def)
  moreover have "?step (empty_recent 5 5, sample_registry) (empty_recent 5 5, db)"
    using assms unfolding sample_accepted_def by (rule step_ingest [OF sample_request_valid])
  moreover have "?step (empty_recent 5 5, db) (sample_run_end db)"
    unfolding sample_run_end_def
    by (rule step_tick [where r = "snd (process_tenant_once sample_env default_settings 1 10 (empty_recent 5 5, db))"])
      (rule prod.collapse [symmetric])
  ultimately show ?thesis by (meson reaches_refl reaches_step)
qed

theorem stock_is_conserved_witness:
  "\<exists>r db. sample_accepted = Inr (r, db) \<and>
     projected (1, 2, 4, 3) (snd (sample_run_end db)) + outstanding (1, 2, 4, 3) (snd (sample_run_end db))
       = item_count (1, 2, 4, 3) (snd (sample_run_end db))"
proof (rule sample_accepted_ok)
  fix b e db assume run: "sample_accepted = Inr ((b, [e]), db)"
  have start: "pipeline_start (empty_recent 5 5, empty_db)" by (auto simp: pipeline_start_def)
  have "reaches (pipeline_step (\<lambda>_. 2)) (empty_recent 5 5, empty_db)
      (fst (sample_run_end db), snd (sample_run_end db))"
    using sample_run [OF run] by simp
  from stock_is_conserved [OF start this] show ?thesis using run by blast
qed

text \<open>
  C2: The projection converges: from any reachable state in which the inbox of a tenant is drained and
  none of its transitions is stuck in quarantine, at most as many ticks as it has pending transitions
  make its projected quantities equal to the counts of its items, if commits succeed.
\<close>

theorem calm_tenant_converges:
  assumes "pipeline_inv zs st" "reaches (pipeline_step zs) st (recent, db)"
    and "\<not> degraded tenant db" "inbox_empty tenant db"
    and "\<And>row. env_commit_fault env row = None" "0 < limit"
  shows "\<exists>n db'. n \<le> pending_count tenant db \<and>
    ((\<lambda>st. fst (process_tenant_once env settings tenant limit st)) ^^ n) (recent, db) = (recent, db') \<and>
    (\<forall>b. fst b = tenant \<longrightarrow> projected b db' = item_count b db)"
proof -
  have "db_inv zs db" using pipeline.reaches_inv [OF assms(2,1)] by (simp add: pipeline_inv_iff)
  from calm_ticks [OF this assms(3-6)] obtain n db' where
    "((\<lambda>st. fst (process_tenant_once env settings tenant limit st)) ^^ n) (recent, db) = (recent, db')"
    "n \<le> pending_count tenant db" "db_inv zs db'" "\<not> degraded tenant db'"
    "item_states db' = item_states db" "pending_count tenant db' = 0" by blast
  then show ?thesis
    using settled_projection [of db' tenant]
    by (intro exI [of _ n] exI [of _ db']) (auto simp: db_inv_def item_count_def)
qed

theorem calm_tenant_converges_witness:
  "\<exists>n db'. n \<le> 1 \<and>
    ((\<lambda>st. fst (process_tenant_once sample_env default_settings 1 10 st)) ^^ n)
      (empty_recent 1 1, sample_stock) = (empty_recent 1 1, db') \<and> projected (1, 2, 4, 3) db' = 1"
proof -
  have calm: "\<not> degraded 1 sample_stock" "inbox_empty 1 sample_stock" "pending_count 1 sample_stock \<le> 1"
    by (auto simp: degraded_def inbox_empty_def pending_count_def sample_stock_def sample_move_def
        new_transition_def tr_unreconciled_def empty_db_def)
  have count: "item_count (1, 2, 4, 3) sample_stock = 1"
    by (simp add: item_count_def sample_stock_def sample_item_def it_bucket_def)
  have fine: "\<And>row. env_commit_fault sample_env row = None" "0 < (10 :: nat)" by (simp_all add: sample_env_def)
  from calm_tenant_converges [OF sample_pipeline reaches_refl calm(1,2) fine, of default_settings]
  obtain n db' where "n \<le> pending_count 1 sample_stock"
    "((\<lambda>st. fst (process_tenant_once sample_env default_settings 1 10 st)) ^^ n)
       (empty_recent 1 1, sample_stock) = (empty_recent 1 1, db')"
    "\<forall>b. fst b = 1 \<longrightarrow> projected b db' = item_count b sample_stock" by blast
  then show ?thesis using calm(3) count by (intro exI [of _ n] exI [of _ db']) auto
qed

text \<open>
  C7: A rebuild restores the projection: from any reachable state it makes every projected quantity of
  its tenant the count of its items, ends the degradation that stuck transitions caused, and leaves
  the quantities of other tenants alone; it is refused while a transition of the tenant is pending.
\<close>

theorem rebuild_restores_counts:
  assumes "pipeline_inv zs st" "reaches (pipeline_step zs) st (recent, db)"
    and "rebuild_inventory_projection tenant arrived now db = Inr (n, db')"
  shows "(\<forall>b. projected b db' = (if fst b = tenant then item_count b db else projected b db)) \<and>
    \<not> degraded tenant db' \<and> pending_count tenant db = 0 \<and> stock_inv db'"
proof -
  have inv: "db_inv zs db" using pipeline.reaches_inv [OF assms(2,1)] by (simp add: pipeline_inv_iff)
  then have stock: "stock_inv db" by (simp add: db_inv_def)
  have "pending_count tenant db = 0"
    using rebuild_InrD(1) [OF assms(3)] by (auto simp: pending_for_iff pending_count_def filter_empty_conv)
  moreover have "projected b db' = (if fst b = tenant then item_count b db else projected b db)" for b
    using rebuild_projected(1) [OF assms(3) stock_tablesD(2) [OF stock_invD(1) [OF stock]]] .
  ultimately show ?thesis using stock_inv_rebuilt [OF stock assms(3)] by blast
qed

definition sample_stuck :: db where
  "sample_stuck = quarantine_transition sample_move (ValueError ''boom'') (seconds 103) sample_stock"

lemma sample_stuck_inv: "db_inv (\<lambda>_. 2) sample_stuck"
proof -
  have "stock_inv sample_stuck"
    unfolding sample_stuck_def
    using sample_stock_inv
    by (intro quarantine_transition_stock [where t = sample_move])
      (auto simp: db_inv_def sample_stock_def sample_move_def new_transition_def tr_pending_def)
  moreover have "rows_located (\<lambda>_. 2) sample_stuck" "accounting sample_stuck"
    using sample_stock_inv unfolding db_inv_def sample_stuck_def
    by (simp_all add: rows_located_def accounting_def batch_links_def quarantine_transition_facts)
  ultimately show ?thesis by (simp add: db_inv_def)
qed

theorem rebuild_restores_counts_witness:
  "\<exists>n db'. rebuild_inventory_projection 1 [] (seconds 104) sample_stuck = Inr (n, db') \<and>
     degraded 1 sample_stuck \<and> \<not> degraded 1 db' \<and> projected (1, 2, 4, 3) sample_stuck = 0 \<and>
     projected (1, 2, 4, 3) db' = 1"
proof -
  have rows: "transitions sample_stuck = [sample_move\<lparr>tr_quarantined_at := Some (seconds 103),
      tr_quarantine_reason := Some ''TRANSITION_ATTEMPTS_EXHAUSTED'', tr_last_error := Some (ValueError ''boom'')\<rparr>]"
    "item_states sample_stuck = [sample_item]" "projections sample_stuck = []"
    by (simp_all add: sample_stuck_def quarantine_transition_facts sample_stock_def empty_db_def)
  then have "\<not> pending_for 1 (transitions sample_stuck)"
    by (simp add: pending_for_def tr_pending_def)
  then obtain n db' where rebuilt:
    "rebuild_inventory_projection 1 [] (seconds 104) sample_stuck = Inr (n, db')"
    by (simp add: rebuild_inventory_projection_def Let_def)
  have "item_count (1, 2, 4, 3) sample_stuck = 1"
    by (simp add: item_count_def rows sample_item_def it_bucket_def)
  moreover have "degraded 1 sample_stuck"
    by (simp add: degraded_def rows tr_unreconciled_def) (simp add: sample_move_def new_transition_def)
  moreover have "projected (1, 2, 4, 3) sample_stuck = 0" by (simp add: projected_def rows)
  moreover have "pipeline_inv (\<lambda>_. 2) (empty_recent 1 1, sample_stuck)"
    by (simp add: pipeline_inv_iff recent_wf_empty sample_stuck_inv)
  ultimately show ?thesis
    using rebuild_restores_counts [OF _ reaches_refl rebuilt] rebuilt
    by (intro exI [of _ n] exI [of _ db']) auto
qed

text \<open>
  C4: A removal is final: whatever the pipeline does afterwards, including RFID reads of the removed
  tag, its item keeps the removal, its version and its empty location.
\<close>

theorem removed_items_stay_removed:
  assumes "reaches (pipeline_step zs) (recent, db) (recent', db')"
    and "get_by it_key k (item_states db) = Some s" "it_removal_event s = Some e"
  shows "\<exists>s'. get_by it_key k (item_states db') = Some s' \<and> it_removal_event s' = Some e \<and>
    it_removed_at s' = it_removed_at s \<and> it_store s' = it_store s \<and> it_zone s' = it_zone s \<and>
    it_sku s' = it_sku s \<and> it_version s' = it_version s"
proof -
  have "get_by it_key k (item_states (snd (recent, db))) = Some s" using assms(2) by simp
  from run_forwardD(1) [OF assms(1) this] obtain s' where
    "get_by it_key k (item_states db') = Some s'" "it_removal_event s \<noteq> None \<longrightarrow> same_place s s'" by auto
  then show ?thesis using assms(3) by (simp add: same_place_def)
qed

definition sample_removed :: db where
  "sample_removed =
     empty_db\<lparr>item_states := [removed_item sample_item 77 (seconds 200)],
       raw_rows := [\<lparr>ro_tenant = 1, ro_id = 8, ro_event_id = str_uuid 10, ro_acceptance_sequence = 1,
         ro_partition_key = ''1:E28011700000020F'', ro_payload = EventPayload sample_event,
         ro_published_at = None, ro_publish_attempts = 0, ro_last_error = None\<rparr>]\<rparr>"

theorem removed_items_stay_removed_witness:
  "\<exists>s'. get_by it_key (1, ''E28011700000020F'') (item_states (snd (fst (process_tenant_once sample_env
       default_settings 1 10 (empty_recent 5 5, sample_removed))))) = Some s' \<and>
     it_removal_event s' = Some 77 \<and> it_zone s' = None"
proof -
  let ?st = "fst (process_tenant_once sample_env default_settings 1 10 (empty_recent 5 5, sample_removed))"
  have run: "reaches (pipeline_step (\<lambda>_. 2)) (empty_recent 5 5, sample_removed) (fst ?st, snd ?st)"
    using tick_reaches [of "\<lambda>_. 2"] by simp
  have "get_by it_key (1, ''E28011700000020F'') (item_states sample_removed)
      = Some (removed_item sample_item 77 (seconds 200))"
    "it_removal_event (removed_item sample_item 77 (seconds 200)) = Some 77"
    "it_zone (removed_item sample_item 77 (seconds 200)) = None"
    by (simp_all add: sample_removed_def removed_item_def sample_item_def it_key_def)
  from removed_items_stay_removed [OF run this(1,2)] this(3) show ?thesis by metis
qed

text \<open>
  C5: A processed event is final: no later step, not even a replay request, changes its ledger row.
\<close>

theorem processed_events_are_final:
  assumes "reaches (pipeline_step zs) (recent, db) (recent', db')"
    and "get_by lg_key k (ledgers db) = Some g" "lg_status g = EVENT_PROCESSED"
  shows "get_by lg_key k (ledgers db') = Some g"
  using run_forwardD(2) [OF assms(1)] assms(2,3) by simp

definition sample_final :: ledger_row where
  "sample_final = (ledger_of_event ff_epc sample_event)\<lparr>lg_status := EVENT_PROCESSED\<rparr>"

theorem processed_events_are_final_witness:
  "get_by lg_key (lg_key sample_final) (ledgers (snd (fst (process_tenant_once sample_env default_settings
     1 10 (empty_recent 5 5, sample_removed\<lparr>ledgers := [sample_final]\<rparr>))))) = Some sample_final"
proof -
  let ?st = "fst (process_tenant_once sample_env default_settings 1 10
    (empty_recent 5 5, sample_removed\<lparr>ledgers := [sample_final]\<rparr>))"
  have run: "reaches (pipeline_step (\<lambda>_. 2)) (empty_recent 5 5, sample_removed\<lparr>ledgers := [sample_final]\<rparr>)
      (fst ?st, snd ?st)"
    using tick_reaches [of "\<lambda>_. 2"] by simp
  have "get_by lg_key (lg_key sample_final) (ledgers (sample_removed\<lparr>ledgers := [sample_final]\<rparr>)) = Some sample_final"
    "lg_status sample_final = EVENT_PROCESSED" by (simp_all add: sample_final_def)
  from processed_events_are_final [OF run this] show ?thesis .
qed



lemma blocked_raw:
  assumes "handle_raw_failure env settings tenant raw_id exc db = (db', RawBlocked e)"
    "unpublished_raw tenant raw_id db = Some row"
  shows "e = exc" "db' = update_raw raw_id (\<lambda>_. mark_raw_failed exc row) db"
    "ro_publish_attempts row + 1 < worker_max_attempts settings"
  using assms
  by (auto simp: handle_raw_failure_def Let_def mark_raw_failed_def split: if_splits sum.splits)

text \<open>
  A failed observation leaves no trace but its attempt: when the processing of an inbox row raises
  and the row is to be retried, the database differs only in the attempt recorded on that row, and the
  evidence in memory is what it was before.
\<close>

theorem failed_observation_leaves_no_trace:
  assumes "process_raw env settings tenant raw_id (recent, db) = ((recent', db'), RawBlocked e)"
    and "recent_wf recent" "unpublished_raw tenant raw_id db = Some row"
  shows "db' = update_raw raw_id (\<lambda>_. mark_raw_failed e row) db \<and> same_evidence recent' recent \<and>
    ro_publish_attempts row + 1 < worker_max_attempts settings"
  using assms(1)
proof (cases rule: process_raw_cases)
  case (malformed exc)
  have "same_evidence recent recent" by (simp add: same_evidence_def)
  then show ?thesis using blocked_raw [OF malformed(2) assms(3)] malformed(1) by simp
next
  case (rolled_back event recent1 exc)
  have "same_evidence recent' recent"
    using rolled_back(1)
  proof
    assume "recent1 = recent"
    then show ?thesis
      using restore_touched [OF assms(2) touched_only_refl, of event] rolled_back(2) by simp
  next
    assume "\<exists>r. process_observation (env_uuid5 env) (env_fresh_id env raw_id) (env_now env raw_id)
        event recent settings db = (recent1, r)"
    then show ?thesis using process_observation_evidence(4) [OF _ assms(2)] rolled_back(2) by blast
  qed
  then show ?thesis using blocked_raw [OF rolled_back(3) assms(3)] by simp
qed simp_all

theorem failed_observation_leaves_no_trace_witness:
  "\<exists>recent' db' e. process_raw sample_env default_settings 1 8 (empty_recent 5 5, sample_removed)
       = ((recent', db'), RawBlocked e) \<and>
     item_states db' = item_states sample_removed \<and> same_evidence recent' (empty_recent 5 5)"
proof -
  obtain row where row: "unpublished_raw 1 8 sample_removed = Some row" "ro_publish_attempts row = 0"
    by (simp add: unpublished_raw_def sample_removed_def)
  have blocked: "handle_raw_failure sample_env default_settings 1 8 exc sample_removed
      = (update_raw 8 (\<lambda>_. mark_raw_failed exc row) sample_removed, RawBlocked exc)" for exc
    using row by (simp add: handle_raw_failure_def Let_def mark_raw_failed_def)
  have "ledgers sample_removed = []" by (simp add: sample_removed_def empty_db_def)
  then have "\<exists>recent' db' e. process_raw sample_env default_settings 1 8 (empty_recent 5 5, sample_removed)
      = ((recent', db'), RawBlocked e)"
    using row(1) by (cases "validate_event (ro_payload row)") (simp_all add: process_raw_def Let_def blocked)
  then obtain recent' db' e where step:
    "process_raw sample_env default_settings 1 8 (empty_recent 5 5, sample_removed)
      = ((recent', db'), RawBlocked e)" by blast
  from failed_observation_leaves_no_trace [OF step recent_wf_empty row(1)] step show ?thesis
    by (auto simp: update_raw_def)
qed

text \<open>
  Delivering deltas again is harmless: after a list of deltas was applied, any retransmission of
  some of them, repeated and in any order, applies nothing and changes nothing.
\<close>

theorem redelivered_deltas_change_nothing:
  assumes "apply_inventory_deltas ds db = Inr (n, db1)" "distinct (map pj_bucket (projections db))"
    and "set again \<subseteq> set ds"
  shows "apply_inventory_deltas again db1 = Inr (0, db1)"
proof (cases ds)
  case Nil
  then show ?thesis using assms(3) by (simp add: apply_inventory_deltas_def)
next
  case (Cons first rest)
  then have tenant: "\<forall>d \<in> set again. dl_tenant d = dl_tenant first"
    using assms(1,3) by (auto simp: apply_inventory_deltas_def list_ex_iff split: if_splits)
  obtain ps where "db1 = db\<lparr>applied_deltas := applied_deltas db @
      map applied_row (not_yet_applied db (unique_by_id ds)), projections := ps\<rparr>"
    using apply_inventory_deltas_InrD(2) [OF assms(1,2)] by blast
  then have "ad_delta_id ` set (applied_deltas db1) = ad_delta_id ` set (applied_deltas db) \<union>
      dl_delta_id ` set (not_yet_applied db (unique_by_id ds))"
    by (simp add: image_Un image_image applied_row_def)
  moreover have "dl_delta_id ` set ds \<subseteq> ad_delta_id ` set (applied_deltas db) \<union>
      dl_delta_id ` set (not_yet_applied db (unique_by_id ds))"
    unfolding unique_by_id_ids [of ds, symmetric] by (auto simp: not_yet_applied_def)
  ultimately have "dl_delta_id ` set again \<subseteq> ad_delta_id ` set (applied_deltas db1)"
    using image_mono [OF assms(3), of dl_delta_id] by simp
  then show ?thesis using tenant by (rule apply_inventory_deltas_again)
qed

theorem redelivered_deltas_change_nothing_witness:
  "\<exists>n db1. apply_inventory_deltas [sample_delta] empty_db = Inr (n, db1) \<and>
     projected (1, 2, 4, 3) db1 = 1 \<and>
     apply_inventory_deltas [sample_delta, sample_delta] db1 = Inr (0, db1)"
proof -
  let ?r = "apply_inventory_deltas [sample_delta] empty_db"
  have unique: "unique_by_id [sample_delta] = [sample_delta]" by (rule unique_by_id_distinct) simp
  have "\<exists>n db1. ?r = Inr (n, db1)"
    by (rule apply_inventory_deltas_ok [where tenant = 1])
      (simp_all add: unique empty_db_def not_yet_applied_def projected_def, simp_all add: sample_delta_def)
  then obtain n db1 where r: "?r = Inr (n, db1)" by blast
  have keys: "distinct (map pj_bucket (projections empty_db))" by (simp add: empty_db_def)
  have "projected (1, 2, 4, 3) db1 = 1"
    using apply_inventory_deltas_InrD(3) [OF r keys, of "(1, 2, 4, 3)"]
    by (simp add: unique not_yet_applied_def projected_def dl_bucket_def empty_db_def)
      (simp add: sample_delta_def)
  then show ?thesis
    using r redelivered_deltas_change_nothing [OF r keys, of "[sample_delta, sample_delta]"] by auto
qed

end
